(* ===== verification/Prelude.thy ===== *)
theory Prelude
  imports Main "HOL-Library.Word" "HOL-Library.Product_Lexorder" "HOL-Library.Monad_Syntax"
begin

section \<open>Shared types, machine integers and list lemmas\<close>

text \<open>
  What every component uses: wide strings as lists of UTF-16 code units, the 32-bit
  \<open>LONG\<close> of the Windows ABI with its wrap-around, the fixed-width words of the wire
  formats, a bind for error sums, the part of the C runtime the sources call
  (\<open>towupper\<close>, \<open>towlower\<close> in the default "C" locale: no source calls
  \<open>setlocale\<close>), and the generic list lemmas of the proofs.
\<close>

named_theorems upper_simps \<open>case folding of wide strings\<close>

subsection \<open>Wide strings\<close>

text \<open>
  \<open>wchar_t\<close> is a UTF-16 code unit on Windows, \<open>0\<close> to \<open>65535\<close>. As in C++, where it promotes
  to \<open>int\<close> in every expression, a code unit is an integer.
\<close>

type_synonym wchar = int
type_synonym wstring = "wchar list"

definition L :: "string \<Rightarrow> wstring" where
  "L s = map of_char s"

definition ch :: "char \<Rightarrow> wchar" where
  "ch c = of_char c"

text \<open>\<open>towupper\<close> and \<open>towlower\<close> of the "C" locale fold the ASCII letters only.\<close>

definition towupper :: "wchar \<Rightarrow> wchar" where
  "towupper c = (if 97 \<le> c \<and> c \<le> 122 then c - 32 else c)"

definition towlower :: "wchar \<Rightarrow> wchar" where
  "towlower c = (if 65 \<le> c \<and> c \<le> 90 then c + 32 else c)"

definition Normalize :: "wstring \<Rightarrow> wstring" where
  "Normalize address = map towupper address"

lemma towupper_idem [simp, upper_simps]: "towupper (towupper c) = towupper c"
  by (auto simp: towupper_def)

lemma Normalize_idem [simp, upper_simps]: "Normalize (Normalize s) = Normalize s"
  by (simp add: Normalize_def comp_def)

lemma Normalize_Nil [simp, upper_simps]: "Normalize [] = []"
  by (simp add: Normalize_def)

lemma Normalize_eq_Nil [simp, upper_simps]: "Normalize s = [] \<longleftrightarrow> s = []"
  by (simp add: Normalize_def)

subsection \<open>Machine integers\<close>

text \<open>
  \<open>LONG\<close> is 32 bits wide. A value is an integer in \<open>long_range\<close>; where a sum of the source
  can leave the range, \<open>long_wrap\<close> is what the two's complement addition of the target
  stores.
\<close>

type_synonym LONG = int
type_synonym u8 = "8 word"
type_synonym u16 = "16 word"
type_synonym u32 = "32 word"
type_synonym u64 = "64 word"

text \<open>\<open>unsigned long long\<close> and \<open>std::uint64_t\<close> sums that can wrap are written modulo \<open>2 ^ 64\<close>.\<close>

abbreviation U64_MODULUS :: int where
  "U64_MODULUS \<equiv> 18446744073709551616"

abbreviation LONG_MAX :: int where
  "LONG_MAX \<equiv> 2147483647"

abbreviation LONG_MIN :: int where
  "LONG_MIN \<equiv> -2147483648"

definition long_range :: "int \<Rightarrow> bool" where
  "long_range i \<longleftrightarrow> LONG_MIN \<le> i \<and> i \<le> LONG_MAX"

definition long_wrap :: "int \<Rightarrow> LONG" where
  "long_wrap i = (i + 2147483648) mod 4294967296 - 2147483648"

lemma long_wrap_id [simp]: "long_range i \<Longrightarrow> long_wrap i = i"
  by (simp add: long_wrap_def long_range_def)

lemma long_range_wrap [simp]: "long_range (long_wrap i)"
  unfolding long_wrap_def long_range_def
  using pos_mod_bound [of 4294967296 "i + 2147483648"]
    pos_mod_sign [of 4294967296 "i + 2147483648"] by linarith

lemma long_range_0 [simp]: "long_range 0"
  by (simp add: long_range_def)

subsection \<open>Error sums\<close>

definition bindE :: "'e + 'a \<Rightarrow> ('a \<Rightarrow> 'e + 'b) \<Rightarrow> 'e + 'b" where
  "bindE x f = (case x of Inl e \<Rightarrow> Inl e | Inr a \<Rightarrow> f a)"

definition failIf :: "bool \<Rightarrow> 'e \<Rightarrow> 'e + unit" where
  "failIf b e = (if b then Inl e else Inr ())"

lemma bindE_simps [simp]: "bindE (Inl e) f = Inl e" "bindE (Inr a) f = f a"
  by (simp_all add: bindE_def)

lemma bindE_Inr_iff: "bindE x f = Inr b \<longleftrightarrow> (\<exists>a. x = Inr a \<and> f a = Inr b)"
  by (cases x) simp_all

lemma bindE_Inl_iff: "bindE x f = Inl e \<longleftrightarrow> x = Inl e \<or> (\<exists>a. x = Inr a \<and> f a = Inl e)"
  by (cases x) auto

lemma failIf_Inr [simp]: "failIf b e = Inr u \<longleftrightarrow> \<not> b"
  by (simp add: failIf_def)

lemma failIf_Inl [simp]: "failIf b e = Inl e' \<longleftrightarrow> b \<and> e' = e"
  by (auto simp: failIf_def)

subsection \<open>Lists\<close>

lemma distinct_map_nth_eq:
  "distinct (map f xs) \<Longrightarrow> i < length xs \<Longrightarrow> j < length xs \<Longrightarrow> f (xs ! i) = f (xs ! j) \<Longrightarrow> i = j"
  using nth_eq_iff_index_eq [of "map f xs" i j] by simp

lemma length_dropWhile2: "length (dropWhile P (dropWhile Q xs)) \<le> length xs"
  by (meson le_trans length_dropWhile_le)

lemma filter_length_le:
  "(\<forall>x \<in> set xs. P x \<longrightarrow> Q x) \<Longrightarrow> length (filter P xs) \<le> length (filter Q xs)"
  by (induction xs) auto

lemma filter_length_less:
  assumes "\<And>x. x \<in> set xs \<Longrightarrow> P x \<Longrightarrow> Q x" and "y \<in> set xs" "Q y" "\<not> P y"
  shows "length (filter P xs) < length (filter Q xs)"
  using assms
proof (induction xs)
  case (Cons x xs)
  have le: "length (filter P xs) \<le> length (filter Q xs)"
    using Cons.prems(1) by (intro filter_length_le) simp
  show ?case
  proof (cases "y \<in> set xs")
    case True
    with Cons show ?thesis by auto
  next
    case False
    with Cons.prems(2) have "y = x" by simp
    with Cons.prems(3,4) le show ?thesis by simp
  qed
qed simp

lemma image_Times_eq: "(\<lambda>(x, y). f x y) ` (A \<times> B) = {f x y | x y. x \<in> A \<and> y \<in> B}"
  by fast

lemma fold_horner_mod_cong:
  fixes m b :: int
  assumes "x mod m = y mod m"
  shows "fold (\<lambda>c v. v * b + f c) cs x mod m = fold (\<lambda>c v. v * b + f c) cs y mod m"
  using assms
proof (induction cs arbitrary: x y)
  case (Cons c cs)
  have "(x * b + f c) mod m = (y * b + f c) mod m"
    by (rule mod_add_cong [OF mod_mult_cong [OF Cons.prems refl] refl])
  then show ?case
    unfolding fold_simps by (rule Cons.IH)
qed simp

lemma find_Some_in: "List.find P xs = Some x \<Longrightarrow> x \<in> set xs \<and> P x"
  by (induction xs) (auto split: if_splits)

lemma find_None_iff_all: "List.find P xs = None \<longleftrightarrow> (\<forall>x \<in> set xs. \<not> P x)"
  by (induction xs) auto

end
