(* ===== verification/CellAddress.thy ===== *)
theory CellAddress
  imports Prelude
begin

section \<open>Cell addresses (CellTopology.cpp)\<close>

text \<open>
  Spreadsheet-style addresses: a letter part read in base 26 and a row number, and the scanner
  that collects the addresses of a selection command.
\<close>

subsection \<open>Cell addresses\<close>

definition is_AZ :: "wchar \<Rightarrow> bool" where
  "is_AZ c \<longleftrightarrow> ch CHR ''A'' \<le> c \<and> c \<le> ch CHR ''Z''"

definition is_09 :: "wchar \<Rightarrow> bool" where
  "is_09 c \<longleftrightarrow> ch CHR ''0'' \<le> c \<and> c \<le> ch CHR ''9''"

text \<open>
  The accumulators are \<open>unsigned long long\<close>: both loops wrap modulo \<open>2 ^ 64\<close>, as the source
  checks the range only after them.
\<close>

fun parse_letters :: "int \<Rightarrow> wstring \<Rightarrow> int \<times> wstring" where
  "parse_letters parsed [] = (parsed, [])"
| "parse_letters parsed (c # cs) =
     (if is_AZ c
      then parse_letters ((parsed * 26 + (c - ch CHR ''A'' + 1)) mod U64_MODULUS) cs
      else (parsed, c # cs))"

fun parse_digits :: "int \<Rightarrow> wstring \<Rightarrow> int \<times> wstring" where
  "parse_digits parsed [] = (parsed, [])"
| "parse_digits parsed (c # cs) =
     (if is_09 c
      then parse_digits ((parsed * 10 + (c - ch CHR ''0'')) mod U64_MODULUS) cs
      else (parsed, c # cs))"

definition ParseCellAddress :: "wstring \<Rightarrow> (LONG \<times> LONG) option" where
  "ParseCellAddress raw =
     (let address = Normalize raw;
          (parsedColumn, rest) = parse_letters 0 address
      in if length rest = length address \<or> rest = [] then None
         else let (parsedRow, rest') = parse_digits 0 rest
              in if rest' \<noteq> [] \<or> parsedRow < 1 \<or> parsedColumn < 1 \<or>
                    parsedRow > LONG_MAX \<or> parsedColumn > LONG_MAX
                 then None
                 else Some (parsedRow, parsedColumn))"

text \<open>
  \<open>ParseSelectedCellAddresses\<close> scans a command string for letter runs followed by digit runs
  and keeps the first occurrence of every address that parses. \<open>None\<close> is its result
  \<open>false\<close>.
\<close>

definition is_letter :: "wchar \<Rightarrow> bool" where
  "is_letter c \<longleftrightarrow> is_AZ (towupper c)"

function scan_addresses :: "wstring \<Rightarrow> wstring list \<Rightarrow> wstring list" where
  "scan_addresses [] addresses = addresses"
| "scan_addresses (c # cs) addresses =
     (if \<not> is_letter c then scan_addresses cs addresses
      else let letters = takeWhile is_letter (c # cs);
               rest = dropWhile is_letter (c # cs);
               digits = takeWhile is_09 rest;
               rest' = dropWhile is_09 rest;
               candidate = Normalize (letters @ digits)
           in if digits = [] then scan_addresses rest' addresses
              else if ParseCellAddress candidate \<noteq> None \<and> candidate \<notin> set addresses
              then scan_addresses rest' (addresses @ [candidate])
              else scan_addresses rest' addresses)"
  by pat_completeness auto
termination
  by (relation "measure (\<lambda>(cs, addresses). length cs)")
    (simp_all add: le_imp_less_Suc length_dropWhile2)

definition ParseSelectedCellAddresses :: "wstring \<Rightarrow> wstring list option" where
  "ParseSelectedCellAddresses command =
     (let addresses = scan_addresses command []
      in if addresses = [] then None else Some addresses)"

subsection \<open>Addresses: range and folding\<close>

lemma ParseCellAddress_range:
  assumes "ParseCellAddress a = Some (r, k)"
  shows "1 \<le> r \<and> r \<le> LONG_MAX \<and> 1 \<le> k \<and> k \<le> LONG_MAX"
  using assms by (auto simp: ParseCellAddress_def Let_def split: prod.splits if_splits)

lemma ParseCellAddress_Normalize [simp]: "ParseCellAddress (Normalize a) = ParseCellAddress a"
  by (simp add: ParseCellAddress_def)

subsection \<open>The value of an address\<close>

text \<open>The unbounded reading of the two parts.\<close>

definition letters_value :: "wstring \<Rightarrow> int" where
  "letters_value cs = fold (\<lambda>c v. v * 26 + (c - ch CHR ''A'' + 1)) cs 0"

definition digits_value :: "wstring \<Rightarrow> int" where
  "digits_value cs = fold (\<lambda>c v. v * 10 + (c - ch CHR ''0'')) cs 0"

lemma parse_letters_fold:
  assumes "\<forall>c \<in> set cs. is_AZ c" "rest = [] \<or> \<not> is_AZ (hd rest)" "0 \<le> v" "v < U64_MODULUS"
  shows "parse_letters v (cs @ rest) =
    (fold (\<lambda>c v. v * 26 + (c - ch CHR ''A'' + 1)) cs v mod U64_MODULUS, rest)"
  using assms
proof (induction cs arbitrary: v)
  case Nil
  then show ?case by (cases rest) simp_all
next
  case (Cons c cs)
  let ?w = "(v * 26 + (c - ch CHR ''A'' + 1)) mod U64_MODULUS"
  have "parse_letters v ((c # cs) @ rest) = parse_letters ?w (cs @ rest)"
    using Cons.prems(1) by simp
  also have "\<dots> = (fold (\<lambda>c v. v * 26 + (c - ch CHR ''A'' + 1)) cs ?w mod U64_MODULUS, rest)"
    using Cons.prems by (intro Cons.IH) simp_all
  also have "fold (\<lambda>c v. v * 26 + (c - ch CHR ''A'' + 1)) cs ?w mod U64_MODULUS =
      fold (\<lambda>c v. v * 26 + (c - ch CHR ''A'' + 1)) cs (v * 26 + (c - ch CHR ''A'' + 1)) mod
        U64_MODULUS"
    by (rule fold_horner_mod_cong) (rule mod_mod_trivial)
  finally show ?case by simp
qed

lemma parse_digits_fold:
  assumes "\<forall>c \<in> set cs. is_09 c" "rest = [] \<or> \<not> is_09 (hd rest)" "0 \<le> v" "v < U64_MODULUS"
  shows "parse_digits v (cs @ rest) =
    (fold (\<lambda>c v. v * 10 + (c - ch CHR ''0'')) cs v mod U64_MODULUS, rest)"
  using assms
proof (induction cs arbitrary: v)
  case Nil
  then show ?case by (cases rest) simp_all
next
  case (Cons c cs)
  let ?w = "(v * 10 + (c - ch CHR ''0'')) mod U64_MODULUS"
  have "parse_digits v ((c # cs) @ rest) = parse_digits ?w (cs @ rest)"
    using Cons.prems(1) by simp
  also have "\<dots> = (fold (\<lambda>c v. v * 10 + (c - ch CHR ''0'')) cs ?w mod U64_MODULUS, rest)"
    using Cons.prems by (intro Cons.IH) simp_all
  also have "fold (\<lambda>c v. v * 10 + (c - ch CHR ''0'')) cs ?w mod U64_MODULUS =
      fold (\<lambda>c v. v * 10 + (c - ch CHR ''0'')) cs (v * 10 + (c - ch CHR ''0'')) mod U64_MODULUS"
    by (rule fold_horner_mod_cong) (rule mod_mod_trivial)
  finally show ?case by simp
qed

lemma ch_values [simp]:
  "ch CHR ''A'' = 65" "ch CHR ''Z'' = 90" "ch CHR ''0'' = 48" "ch CHR ''9'' = 57"
  by (simp_all add: ch_def)

lemma Normalize_address:
  assumes "\<forall>c \<in> set letters. is_AZ c" "\<forall>c \<in> set digits. is_09 c"
  shows "Normalize (letters @ digits) = letters @ digits"
  using assms by (auto simp: Normalize_def towupper_def is_AZ_def is_09_def intro!: map_idI)

lemma not_AZ_09: "is_09 c \<Longrightarrow> \<not> is_AZ c"
  by (simp add: is_09_def is_AZ_def)

lemma letters_value_bound:
  assumes "\<forall>c \<in> set cs. is_AZ c"
  shows "0 \<le> letters_value cs \<and> 25 * letters_value cs \<le> 26 * (26 ^ length cs - 1)"
  using assms
proof (induction cs rule: rev_induct)
  case (snoc c cs)
  have "letters_value (cs @ [c]) = letters_value cs * 26 + (c - 64)"
    by (simp add: letters_value_def)
  then show ?case
    using snoc by (auto simp: is_AZ_def)
qed (simp add: letters_value_def)

lemma digits_value_bound:
  assumes "\<forall>c \<in> set cs. is_09 c"
  shows "0 \<le> digits_value cs \<and> digits_value cs < 10 ^ length cs"
  using assms
proof (induction cs rule: rev_induct)
  case (snoc c cs)
  have "digits_value (cs @ [c]) = digits_value cs * 10 + (c - 48)"
    by (simp add: digits_value_def)
  then show ?case
    using snoc by (auto simp: is_09_def)
qed (simp add: digits_value_def)

lemma ParseCellAddress_mod:
  assumes letters: "\<forall>c \<in> set letters. is_AZ c" and digits: "\<forall>c \<in> set digits. is_09 c"
  shows "ParseCellAddress (letters @ digits) =
    (let k = letters_value letters mod U64_MODULUS; r = digits_value digits mod U64_MODULUS
     in if letters = [] \<or> digits = [] \<or> r < 1 \<or> k < 1 \<or> r > LONG_MAX \<or> k > LONG_MAX
        then None else Some (r, k))"
proof -
  have "digits = [] \<or> \<not> is_AZ (hd digits)"
    using digits not_AZ_09 by (cases digits) auto
  then have 1: "parse_letters 0 (letters @ digits) = (letters_value letters mod U64_MODULUS, digits)"
    using parse_letters_fold [OF letters, of digits 0] by (simp add: letters_value_def)
  have 2: "parse_digits 0 digits = (digits_value digits mod U64_MODULUS, [])"
    using parse_digits_fold [OF digits, of "[]" 0] by (simp add: digits_value_def)
  show ?thesis
    unfolding ParseCellAddress_def Normalize_address [OF letters digits] 1 Let_def prod.case 2
    by simp
qed

text \<open>
  The range checks come after both loops: a number that wraps around the 64-bit accumulator can
  land in range again.
\<close>

lemma ParseCellAddress_wraps: "ParseCellAddress (L ''A18446744073709551617'') = Some (1, 1)"
  by code_simp

text \<open>An address of at most 13 letters and 19 digits is read exactly: it parses to its
  base-26 column and decimal row when both are between 1 and the largest \<open>LONG\<close>, and is refused
  otherwise. (Longer ones wrap: see \<open>ParseCellAddress_wraps\<close>.)\<close>

lemma ParseCellAddress_exact:
  assumes "\<forall>c \<in> set letters. is_AZ c" "\<forall>c \<in> set digits. is_09 c"
    and "length letters \<le> 13" "length digits \<le> 19"
  shows "ParseCellAddress (letters @ digits) =
    (if 1 \<le> letters_value letters \<and> letters_value letters \<le> LONG_MAX \<and>
        1 \<le> digits_value digits \<and> digits_value digits \<le> LONG_MAX
     then Some (digits_value digits, letters_value letters) else None)"
proof -
  have "(26::int) ^ length letters \<le> 26 ^ 13" "(10::int) ^ length digits \<le> 10 ^ 19"
    using assms(3,4) by (intro power_increasing; simp)+
  then have "letters_value letters mod U64_MODULUS = letters_value letters"
    "digits_value digits mod U64_MODULUS = digits_value digits"
    using letters_value_bound [OF assms(1)] digits_value_bound [OF assms(2)] by simp_all
  moreover have "letters = [] \<Longrightarrow> letters_value letters = 0" "digits = [] \<Longrightarrow> digits_value digits = 0"
    by (simp_all add: letters_value_def digits_value_def)
  ultimately show ?thesis
    unfolding ParseCellAddress_mod [OF assms(1,2)] Let_def by auto
qed

lemma ParseCellAddress_exact_witness: "ParseCellAddress (L ''AB12'') = Some (12, 28)"
proof -
  have split: "L ''AB12'' = L ''AB'' @ L ''12''"
    by (simp add: L_def)
  have "\<forall>c \<in> set (L ''AB''). is_AZ c" "\<forall>c \<in> set (L ''12''). is_09 c"
    "length (L ''AB'') \<le> 13" "length (L ''12'') \<le> 19"
    by (simp_all add: L_def is_AZ_def is_09_def)
  note exact = ParseCellAddress_exact [OF this]
  have "letters_value (L ''AB'') = 28" "digits_value (L ''12'') = 12"
    by code_simp+
  with exact show ?thesis
    unfolding split by simp
qed

subsection \<open>Scanning a selection command\<close>

definition folded_address :: "wstring \<Rightarrow> bool" where
  "folded_address a \<longleftrightarrow> ParseCellAddress a \<noteq> None \<and> Normalize a = a"

definition addresses_ok :: "wstring list \<Rightarrow> bool" where
  "addresses_ok as \<longleftrightarrow> distinct as \<and> list_all folded_address as"

lemma addresses_ok_snoc:
  "addresses_ok as \<Longrightarrow> ParseCellAddress (Normalize a) \<noteq> None \<and> Normalize a \<notin> set as \<Longrightarrow>
   addresses_ok (as @ [Normalize a])"
  unfolding addresses_ok_def folded_address_def Normalize_idem by simp

lemma scan_addresses_ok: "addresses_ok as \<Longrightarrow> addresses_ok (scan_addresses cs as)"
proof (induction cs as rule: scan_addresses.induct)
  case (2 c cs addresses)
  note IH = 2(1) 2(2) [OF _ refl refl refl refl refl] 2(3) [OF _ refl refl refl refl refl]
    2(4) [OF _ refl refl refl refl refl]
  show ?case
    unfolding scan_addresses.simps(2) Let_def
    using 2(5) IH addresses_ok_snoc [OF 2(5)] by (simp only: split: if_splits) blast
qed (simp only: scan_addresses.simps)

text \<open>Every address \<open>ParseSelectedCellAddresses\<close> returns parses, is in folded
  form, and is listed once; and it never succeeds with an empty list.\<close>

theorem ParseSelectedCellAddresses_sound:
  assumes "ParseSelectedCellAddresses command = Some addresses"
  shows "addresses \<noteq> [] \<and> distinct addresses \<and>
    (\<forall>a \<in> set addresses. Normalize a = a \<and> ParseCellAddress a \<noteq> None)"
proof -
  have "addresses_ok (scan_addresses command [])"
    by (rule scan_addresses_ok) (simp add: addresses_ok_def)
  moreover have "scan_addresses command [] = addresses \<and> addresses \<noteq> []"
    using assms by (auto simp: ParseSelectedCellAddresses_def Let_def split: if_splits)
  ultimately have "addresses_ok addresses" "addresses \<noteq> []"
    by simp_all
  then show ?thesis
    unfolding addresses_ok_def folded_address_def list_all_iff by blast
qed

theorem ParseSelectedCellAddresses_sound_witness:
  "ParseSelectedCellAddresses (L ''b2:A1,B2;x0'') = Some [L ''B2'', L ''A1''] \<and>
   ParseCellAddress (L ''B2'') \<noteq> None"
proof -
  have h: "ParseSelectedCellAddresses (L ''b2:A1,B2;x0'') = Some [L ''B2'', L ''A1'']"
    by code_simp
  show ?thesis
    using h ParseSelectedCellAddresses_sound [OF h] by simp
qed

end
