(* ===== verification/CellTopology.thy ===== *)
theory CellTopology
  imports CellAddress
begin

section \<open>Table cell topology (CellTopology.h, CellTopology.cpp)\<close>

text \<open>
  The physical grid of one table: the cells as the inspector read them, an index by address,
  and the owner of every grid slot. \<open>CellTopology_Build\<close> is the only operation that fills a
  topology; it refuses every table whose cells do not tile a rectangle. On a built topology the
  planners answer which cells a rectangular merge or selection covers and how to reach its last
  cell by right and down moves.
\<close>

subsection \<open>Data\<close>

datatype CellDirection = Right | Down

record CellTopologyCell =
  ct_tableInstanceId :: wstring
  ct_address :: wstring
  ct_listId :: LONG
  ct_rowSpan :: LONG
  ct_columnSpan :: LONG
  ct_pageStart :: LONG
  ct_pageEnd :: LONG
  ct_text :: wstring
  ct_width :: LONG
  ct_height :: LONG
  ct_rightAddress :: wstring
  ct_downAddress :: wstring
  ct_row :: LONG
  ct_column :: LONG

record CellTopologyStep =
  st_direction :: CellDirection
  st_destination :: wstring

text \<open>
  The members of the class. A slot of \<open>ownerBySlot_\<close> is \<open>None\<close> for the sentinel \<open>noOwner\<close>.
\<close>

record CellTopology =
  tp_cells :: "CellTopologyCell list"
  tp_byAddress :: "wstring \<rightharpoonup> nat"
  tp_ownerBySlot :: "nat option list"
  tp_rows :: LONG
  tp_columns :: LONG

definition kMaximumPhysicalSlots :: int where
  "kMaximumPhysicalSlots = 200000"

text \<open>The messages of \<open>Fail\<close>, one constructor each.\<close>

datatype TopologyError =
    NoCells
  | InvalidOrDuplicateCell
  | DimensionsOverflow
  | GridExceedsLimit
  | CellsOverlap
  | GridGap
  | InvalidNeighbour
  | EndpointsNotForward
  | NotGapFreeRectangle
  | MissingPathCell
  | NoNeighbourPath
  | StartListAmbiguous
  | EndListAmbiguous
  | EndpointsNotCells
  | CornersNotCovered
  | NoSelectedAddresses
  | AddressNotCell
  | CornersUnavailable
  | Unexpected

definition Overlaps :: "LONG \<Rightarrow> LONG \<Rightarrow> LONG \<Rightarrow> LONG \<Rightarrow> bool" where
  "Overlaps firstStart firstSpan secondStart secondSpan \<longleftrightarrow>
     firstStart \<le> secondStart + secondSpan - 1 \<and> secondStart \<le> firstStart + firstSpan - 1"

definition covers :: "CellTopologyCell \<Rightarrow> LONG \<Rightarrow> LONG \<Rightarrow> bool" where
  "covers c r k \<longleftrightarrow> ct_row c \<le> r \<and> r < ct_row c + ct_rowSpan c \<and>
     ct_column c \<le> k \<and> k < ct_column c + ct_columnSpan c"

subsection \<open>Building a topology\<close>

text \<open>
  One round of the first loop of \<open>Build\<close>: case folding of the three addresses, and the
  position the address names.
\<close>

definition place_cell :: "CellTopologyCell \<Rightarrow> CellTopologyCell option" where
  "place_cell c =
     (let c1 = c\<lparr>ct_address := Normalize (ct_address c),
                 ct_rightAddress := Normalize (ct_rightAddress c),
                 ct_downAddress := Normalize (ct_downAddress c)\<rparr>
      in case ParseCellAddress (ct_address c1) of
           None \<Rightarrow> None
         | Some (r, k) \<Rightarrow> Some (c1\<lparr>ct_row := r, ct_column := k\<rparr>))"

definition bottom_of :: "CellTopologyCell \<Rightarrow> int" where
  "bottom_of c = ct_row c + ct_rowSpan c - 1"

definition right_of :: "CellTopologyCell \<Rightarrow> int" where
  "right_of c = ct_column c + ct_columnSpan c - 1"

fun build_scan ::
  "nat \<Rightarrow> CellTopologyCell list \<Rightarrow> (wstring \<rightharpoonup> nat) \<Rightarrow> LONG \<Rightarrow> LONG \<Rightarrow>
     TopologyError + CellTopologyCell list \<times> (wstring \<rightharpoonup> nat) \<times> LONG \<times> LONG" where
  "build_scan index [] byAddress rows columns = Inr ([], byAddress, rows, columns)"
| "build_scan index (c # cs) byAddress rows columns =
     (case place_cell c of
        None \<Rightarrow> Inl InvalidOrDuplicateCell
      | Some d \<Rightarrow>
          if ct_rowSpan d < 1 \<or> ct_columnSpan d < 1 \<or> byAddress (ct_address d) \<noteq> None
          then Inl InvalidOrDuplicateCell
          else if bottom_of d > LONG_MAX \<or> right_of d > LONG_MAX then Inl DimensionsOverflow
          else bindE (build_scan (Suc index) cs (byAddress(ct_address d \<mapsto> index))
                        (max rows (bottom_of d)) (max columns (right_of d)))
                     (\<lambda>(ds, result). Inr (d # ds, result)))"

text \<open>
  The slots one cell claims, row by row, and the claiming loop with its overlap test. The
  counter of \<open>claim_cells\<close> is \<open>assignedSlots\<close>.
\<close>

definition slot_of :: "LONG \<Rightarrow> LONG \<Rightarrow> LONG \<Rightarrow> nat" where
  "slot_of columns r k = nat ((r - 1) * columns + (k - 1))"

definition cell_slots :: "LONG \<Rightarrow> CellTopologyCell \<Rightarrow> nat list" where
  "cell_slots columns c =
     concat (map (\<lambda>r. map (slot_of columns r) [ct_column c .. right_of c])
                 [ct_row c .. bottom_of c])"

fun claim_slots :: "nat \<Rightarrow> nat list \<Rightarrow> nat option list \<Rightarrow> nat option list option" where
  "claim_slots index [] owners = Some owners"
| "claim_slots index (slot # slots) owners =
     (if owners ! slot \<noteq> None then None
      else claim_slots index slots (owners[slot := Some index]))"

fun claim_cells ::
  "LONG \<Rightarrow> nat \<Rightarrow> CellTopologyCell list \<Rightarrow> nat option list \<Rightarrow> nat \<Rightarrow>
     (nat option list \<times> nat) option" where
  "claim_cells columns index [] owners assigned = Some (owners, assigned)"
| "claim_cells columns index (c # cs) owners assigned =
     (case claim_slots index (cell_slots columns c) owners of
        None \<Rightarrow> None
      | Some owners' \<Rightarrow>
          claim_cells columns (Suc index) cs owners'
            (assigned + length (cell_slots columns c)))"

definition validateNeighbor ::
  "CellTopologyCell list \<Rightarrow> (wstring \<rightharpoonup> nat) \<Rightarrow> CellTopologyCell \<Rightarrow> wstring \<Rightarrow> CellDirection \<Rightarrow>
     bool" where
  "validateNeighbor cells byAddress c addr direction =
     (if addr = [] then True
      else case byAddress addr of
        None \<Rightarrow> False
      | Some i \<Rightarrow>
          if addr = ct_address c then False
          else let nxt = cells ! i
               in case direction of
                    Right \<Rightarrow> ct_column nxt > ct_column c \<and>
                      Overlaps (ct_row c) (ct_rowSpan c) (ct_row nxt) (ct_rowSpan nxt)
                  | Down \<Rightarrow> ct_row nxt > ct_row c \<and>
                      Overlaps (ct_column c) (ct_columnSpan c) (ct_column nxt) (ct_columnSpan nxt))"

definition neighbours_valid ::
  "CellTopologyCell list \<Rightarrow> (wstring \<rightharpoonup> nat) \<Rightarrow> CellTopologyCell \<Rightarrow> bool" where
  "neighbours_valid cells byAddress c \<longleftrightarrow>
     validateNeighbor cells byAddress c (ct_rightAddress c) Right \<and>
     validateNeighbor cells byAddress c (ct_downAddress c) Down"

definition build_topology :: "CellTopologyCell list \<Rightarrow> TopologyError + CellTopology" where
  "build_topology input =
     (if input = [] then Inl NoCells
      else bindE (build_scan 0 input Map.empty 0 0) (\<lambda>(cells, byAddress, rows, columns).
        let expectedSlots = rows * columns
        in if expectedSlots = 0 \<or> expectedSlots > kMaximumPhysicalSlots
           then Inl GridExceedsLimit
           else case claim_cells columns 0 cells (replicate (nat expectedSlots) None) 0 of
             None \<Rightarrow> Inl CellsOverlap
           | Some (ownerBySlot, assigned) \<Rightarrow>
               if int assigned \<noteq> expectedSlots then Inl GridGap
               else if \<not> list_all (neighbours_valid cells byAddress) cells
               then Inl InvalidNeighbour
               else Inr \<lparr>tp_cells = cells, tp_byAddress = byAddress,
                         tp_ownerBySlot = ownerBySlot, tp_rows = rows, tp_columns = columns\<rparr>))"

text \<open>The members change only when every check has passed.\<close>

definition CellTopology_Build ::
  "CellTopologyCell list \<Rightarrow> CellTopology \<Rightarrow> (TopologyError + unit) \<times> CellTopology" where
  "CellTopology_Build cells t =
     (case build_topology cells of Inl e \<Rightarrow> (Inl e, t) | Inr t' \<Rightarrow> (Inr (), t'))"

definition CellTopology_Clear :: "CellTopology \<Rightarrow> CellTopology" where
  "CellTopology_Clear t =
     \<lparr>tp_cells = [], tp_byAddress = Map.empty, tp_ownerBySlot = [], tp_rows = 0, tp_columns = 0\<rparr>"

definition CellTopology_InvalidateGeometry :: "CellTopology \<Rightarrow> CellTopology" where
  "CellTopology_InvalidateGeometry t =
     t\<lparr>tp_cells := map (\<lambda>c. c\<lparr>ct_width := -1, ct_height := -1\<rparr>) (tp_cells t)\<rparr>"

subsection \<open>Queries\<close>

definition CellTopology_Empty :: "CellTopology \<Rightarrow> bool" where
  "CellTopology_Empty t \<longleftrightarrow> tp_cells t = []"

definition CellTopology_Find :: "CellTopology \<Rightarrow> wstring \<Rightarrow> CellTopologyCell option" where
  "CellTopology_Find t raw =
     (case tp_byAddress t (Normalize raw) of
        None \<Rightarrow> None
      | Some i \<Rightarrow> Some (tp_cells t ! i))"

definition CellTopology_OwnerAt ::
  "CellTopology \<Rightarrow> LONG \<Rightarrow> LONG \<Rightarrow> CellTopologyCell option" where
  "CellTopology_OwnerAt t row column =
     (if row < 1 \<or> column < 1 \<or> row > tp_rows t \<or> column > tp_columns t then None
      else let slot = slot_of (tp_columns t) row column
           in if slot \<ge> length (tp_ownerBySlot t) then None
              else case tp_ownerBySlot t ! slot of
                     None \<Rightarrow> None
                   | Some owner \<Rightarrow>
                       if owner < length (tp_cells t) then Some (tp_cells t ! owner) else None)"

definition same_position :: "CellTopologyCell \<Rightarrow> CellTopologyCell \<Rightarrow> bool" where
  "same_position c d \<longleftrightarrow> ct_row c = ct_row d \<and> ct_column c = ct_column d \<and>
     ct_rowSpan c = ct_rowSpan d \<and> ct_columnSpan c = ct_columnSpan d"

definition CellTopology_HasSamePhysicalShape :: "CellTopology \<Rightarrow> CellTopology \<Rightarrow> bool" where
  "CellTopology_HasSamePhysicalShape t other \<longleftrightarrow>
     tp_rows t = tp_rows other \<and> tp_columns t = tp_columns other \<and>
     length (tp_cells t) = length (tp_cells other) \<and>
     list_all (\<lambda>c. case CellTopology_Find other (ct_address c) of
                     None \<Rightarrow> False
                   | Some d \<Rightarrow> same_position c d) (tp_cells t)"

definition CellTopology_IntersectingColumn :: "CellTopology \<Rightarrow> LONG \<Rightarrow> wstring list" where
  "CellTopology_IntersectingColumn t physicalColumn =
     map ct_address
       (sort_key (\<lambda>c. (ct_row c, ct_column c))
         (filter (\<lambda>c. ct_column c \<le> physicalColumn \<and>
                       physicalColumn < ct_column c + ct_columnSpan c) (tp_cells t)))"

subsection \<open>Placing one cell\<close>

lemma place_cell_Some:
  assumes "place_cell c = Some d"
  shows "Normalize (ct_address d) = ct_address d"
    and "ct_address d = Normalize (ct_address c)"
    and "ParseCellAddress (ct_address d) = Some (ct_row d, ct_column d)"
    and "ct_rowSpan d = ct_rowSpan c" and "ct_columnSpan d = ct_columnSpan c"
    and "1 \<le> ct_row d" and "1 \<le> ct_column d"
  using assms ParseCellAddress_range
  by (auto simp: place_cell_def Let_def split: option.splits)

subsection \<open>The scan loop\<close>

lemma build_scan_Inr:
  assumes "build_scan i cs m R C = Inr (ds, m', R', C')"
  shows "map place_cell cs = map Some ds \<and>
    (\<forall>d \<in> set ds. 1 \<le> ct_rowSpan d \<and> 1 \<le> ct_columnSpan d \<and> m (ct_address d) = None \<and>
       bottom_of d \<le> R' \<and> right_of d \<le> C') \<and>
    distinct (map ct_address ds) \<and>
    (\<forall>a j. m' a = Some j \<longleftrightarrow>
       m a = Some j \<or> (i \<le> j \<and> j < i + length ds \<and> ct_address (ds ! (j - i)) = a)) \<and>
    R' = fold max (map bottom_of ds) R \<and> C' = fold max (map right_of ds) C \<and>
    R \<le> R' \<and> C \<le> C'"
  using assms
proof (induction cs arbitrary: i m R C ds)
  case (Cons c cs)
  from Cons.prems obtain d es where d: "place_cell c = Some d" and ds: "ds = d # es"
    and span: "1 \<le> ct_rowSpan d" "1 \<le> ct_columnSpan d" and fresh: "m (ct_address d) = None"
    and rec: "build_scan (Suc i) cs (m(ct_address d \<mapsto> i)) (max R (bottom_of d))
        (max C (right_of d)) = Inr (es, m', R', C')"
    by (auto simp: bindE_Inr_iff split: option.splits if_splits)
  note IH = Cons.IH [OF rec]
  have notin: "ct_address d \<notin> set (map ct_address es)"
    using IH by auto
  have idx: "m' a = Some j \<longleftrightarrow>
       m a = Some j \<or> (i \<le> j \<and> j < i + length ds \<and> ct_address (ds ! (j - i)) = a)" for a j
  proof -
    have "m' a = Some j \<longleftrightarrow> (m(ct_address d \<mapsto> i)) a = Some j \<or>
        (Suc i \<le> j \<and> j < Suc i + length es \<and> ct_address (es ! (j - Suc i)) = a)"
      using IH by blast
    also have "\<dots> \<longleftrightarrow> m a = Some j \<or> (j = i \<and> ct_address d = a) \<or>
        (Suc i \<le> j \<and> j < Suc i + length es \<and> ct_address (es ! (j - Suc i)) = a)"
      using fresh by auto
    also have "\<dots> \<longleftrightarrow> m a = Some j \<or>
        (i \<le> j \<and> j < i + length ds \<and> ct_address (ds ! (j - i)) = a)"
      by (auto simp: ds nth_Cons' Suc_diff_Suc not_less_eq_eq le_Suc_eq
          intro: le_neq_implies_less)
    finally show ?thesis .
  qed
  have fresh_es: "\<forall>e \<in> set es. m (ct_address e) = None"
    using IH by (auto split: if_splits)
  have bound: "max R (bottom_of d) \<le> R'" "max C (right_of d) \<le> C'"
    using IH by simp_all
  have es: "\<forall>e \<in> set es. 1 \<le> ct_rowSpan e \<and> 1 \<le> ct_columnSpan e \<and> bottom_of e \<le> R' \<and> right_of e \<le> C'"
    using IH by blast
  have "map place_cell (c # cs) = map Some ds"
    using IH d ds by simp
  moreover have "R' = fold max (map bottom_of ds) R" "C' = fold max (map right_of ds) C"
    using IH by (simp_all add: ds max.commute)
  moreover have "distinct (map ct_address ds)"
    using IH notin by (simp add: ds)
  moreover have "\<forall>d \<in> set ds. 1 \<le> ct_rowSpan d \<and> 1 \<le> ct_columnSpan d \<and> m (ct_address d) = None \<and>
       bottom_of d \<le> R' \<and> right_of d \<le> C'"
    using es fresh_es span fresh bound unfolding ds by (metis max.bounded_iff set_ConsD)
  moreover have "R \<le> R'" "C \<le> C'"
    using bound by simp_all
  ultimately show ?case
    using idx by blast
qed auto

subsection \<open>Slots\<close>

lemma slot_of_less:
  assumes "1 \<le> r" "r \<le> rows" "1 \<le> k" "k \<le> columns"
  shows "slot_of columns r k < nat (rows * columns)"
proof -
  have "(r - 1) * columns \<le> (rows - 1) * columns"
    using assms by (intro mult_right_mono) auto
  moreover have "(rows - 1) * columns = rows * columns - columns"
    by (simp add: left_diff_distrib)
  ultimately have "(r - 1) * columns + (k - 1) < rows * columns"
    using assms by linarith
  moreover have "0 \<le> (r - 1) * columns + (k - 1)"
    using assms by simp
  ultimately show ?thesis
    by (simp add: slot_of_def)
qed

lemma slot_of_inj:
  assumes "1 \<le> r" "1 \<le> k" "k \<le> columns" "1 \<le> r'" "1 \<le> k'" "k' \<le> columns"
    and "slot_of columns r k = slot_of columns r' k'"
  shows "r = r' \<and> k = k'"
proof -
  have split: "((x - 1) * columns + (y - 1)) div columns = x - 1 \<and>
      ((x - 1) * columns + (y - 1)) mod columns = y - 1"
    if "1 \<le> y" "y \<le> columns" for x y
    using that by (simp add: div_pos_pos_trivial mod_pos_pos_trivial)
  have eq: "(r - 1) * columns + (k - 1) = (r' - 1) * columns + (k' - 1)"
    using assms by (simp add: slot_of_def nat_eq_iff2 split: if_splits)
  from split [of k r] split [of k' r'] eq assms have "r - 1 = r' - 1"
    by metis
  moreover from split [of k r] split [of k' r'] eq assms have "k - 1 = k' - 1"
    by metis
  ultimately show ?thesis by simp
qed

lemma slot_of_surj:
  assumes "s < nat (rows * columns)" "0 < columns"
  obtains r k where "1 \<le> r" "r \<le> rows" "1 \<le> k" "k \<le> columns" "s = slot_of columns r k"
proof
  let ?r = "int s div columns + 1" and ?k = "int s mod columns + 1"
  have s: "int s < rows * columns"
    using assms(1) by linarith
  show "1 \<le> ?r"
    using assms(2) by (simp add: pos_imp_zdiv_nonneg_iff)
  have "int s div columns < rows"
  proof (rule ccontr)
    assume "\<not> int s div columns < rows"
    then have "rows * columns \<le> int s div columns * columns"
      using assms(2) by (intro mult_right_mono) auto
    also have "\<dots> \<le> int s"
      using assms(2) pos_mod_sign [of columns "int s"] div_mult_mod_eq [of "int s" columns]
      by linarith
    finally show False using s by simp
  qed
  then show "?r \<le> rows" by simp
  show "1 \<le> ?k" "?k \<le> columns"
    using assms(2) pos_mod_bound [of columns "int s"] pos_mod_sign [of columns "int s"]
    by linarith+
  show "s = slot_of columns ?r ?k"
    by (simp add: slot_of_def)
qed

lemma concat_map_product:
  "concat (map (\<lambda>r. map (f r) ks) rs) = map (\<lambda>(r, k). f r k) (List.product rs ks)"
  by (induction rs) (simp_all add: comp_def)

lemma cell_slots_product:
  "cell_slots columns c =
     map (\<lambda>(r, k). slot_of columns r k)
       (List.product [ct_row c .. bottom_of c] [ct_column c .. right_of c])"
  unfolding cell_slots_def by (rule concat_map_product)

lemma covers_iff:
  "covers c r k \<longleftrightarrow> r \<in> {ct_row c .. bottom_of c} \<and> k \<in> {ct_column c .. right_of c}"
  by (auto simp: covers_def bottom_of_def right_of_def)

lemma set_cell_slots: "set (cell_slots columns c) = {slot_of columns r k | r k. covers c r k}"
  unfolding covers_iff image_Times_eq [symmetric] by (simp add: cell_slots_product)

text \<open>A placed cell lies inside a grid of \<open>rows\<close> times \<open>columns\<close> slots.\<close>

definition in_grid :: "LONG \<Rightarrow> LONG \<Rightarrow> CellTopologyCell \<Rightarrow> bool" where
  "in_grid rows columns c \<longleftrightarrow> 1 \<le> ct_row c \<and> 1 \<le> ct_column c \<and>
     1 \<le> ct_rowSpan c \<and> 1 \<le> ct_columnSpan c \<and> bottom_of c \<le> rows \<and> right_of c \<le> columns"

lemma in_grid_covers:
  "in_grid rows columns c \<Longrightarrow> covers c r k \<Longrightarrow> 1 \<le> r \<and> r \<le> rows \<and> 1 \<le> k \<and> k \<le> columns"
  by (auto simp: in_grid_def covers_iff)

lemma slot_mem_iff:
  assumes "in_grid rows columns c" "1 \<le> r" "1 \<le> k" "k \<le> columns"
  shows "slot_of columns r k \<in> set (cell_slots columns c) \<longleftrightarrow> covers c r k"
  unfolding set_cell_slots using assms in_grid_covers slot_of_inj by blast

lemma cell_slots_less:
  "in_grid rows columns c \<Longrightarrow> s \<in> set (cell_slots columns c) \<Longrightarrow> s < nat (rows * columns)"
  unfolding set_cell_slots using in_grid_covers slot_of_less by blast

lemma distinct_cell_slots: "in_grid rows columns c \<Longrightarrow> distinct (cell_slots columns c)"
  unfolding cell_slots_product distinct_map
  by (auto simp: distinct_product inj_on_def in_grid_def dest: slot_of_inj [rotated -1])

lemma length_cell_slots:
  "in_grid rows columns c \<Longrightarrow> int (length (cell_slots columns c)) = ct_rowSpan c * ct_columnSpan c"
  by (simp add: cell_slots_product in_grid_def bottom_of_def right_of_def)

subsection \<open>The claiming loop\<close>

definition filled :: "nat option list \<Rightarrow> nat set" where
  "filled owners = {s. s < length owners \<and> owners ! s \<noteq> None}"

lemma claim_slots_Some:
  assumes "claim_slots i ss owners = Some owners'" "\<forall>s \<in> set ss. s < length owners"
  shows "distinct ss \<and> (\<forall>s \<in> set ss. owners ! s = None) \<and> length owners' = length owners \<and>
    (\<forall>s < length owners. owners' ! s = (if s \<in> set ss then Some i else owners ! s))"
  using assms
proof (induction ss arbitrary: owners)
  case (Cons s ss)
  have free: "owners ! s = None"
    and rec: "claim_slots i ss (owners[s := Some i]) = Some owners'"
    using Cons.prems(1) by (simp_all split: if_splits)
  have IH: "distinct ss \<and> (\<forall>x \<in> set ss. owners[s := Some i] ! x = None) \<and>
      length owners' = length owners \<and>
      (\<forall>x < length owners. owners' ! x =
         (if x \<in> set ss then Some i else owners[s := Some i] ! x))"
    using Cons.IH [OF rec] Cons.prems(2) by simp
  then have "s \<notin> set ss"
    using Cons.prems(2) by (metis list.set_intros(1) nth_list_update_eq option.distinct(1))
  moreover from this have "\<forall>x \<in> set ss. owners ! x = None"
    using IH by (metis nth_list_update_neq)
  ultimately show ?case
    using IH free by (auto simp: nth_list_update split: if_splits)
qed simp

lemma claim_slots_total:
  assumes "distinct ss" "\<forall>s \<in> set ss. s < length owners \<and> owners ! s = None"
  shows "\<exists>owners'. claim_slots i ss owners = Some owners'"
  using assms
proof (induction ss arbitrary: owners)
  case (Cons s ss)
  then have "\<forall>x \<in> set ss. x < length (owners[s := Some i]) \<and> owners[s := Some i] ! x = None"
    by (auto simp: nth_list_update)
  with Cons show ?case by simp
qed simp

lemma claim_cells_Some:
  assumes "claim_cells columns i cs owners n = Some (owners', n')"
    and "\<forall>c \<in> set cs. \<forall>s \<in> set (cell_slots columns c). s < length owners"
  shows "length owners' = length owners \<and>
    (\<forall>s < length owners. \<forall>j. owners' ! s = Some j \<longleftrightarrow> owners ! s = Some j \<or>
       (\<exists>p < length cs. j = i + p \<and> s \<in> set (cell_slots columns (cs ! p)))) \<and>
    n' + card (filled owners) = n + card (filled owners')"
  using assms
proof (induction cs arbitrary: i owners n)
  case (Cons c cs)
  from Cons.prems(1) obtain mid where
    mid: "claim_slots i (cell_slots columns c) owners = Some mid" and
    rec: "claim_cells columns (Suc i) cs mid (n + length (cell_slots columns c)) =
      Some (owners', n')"
    by (auto split: option.splits)
  have less: "\<forall>s \<in> set (cell_slots columns c). s < length owners"
    using Cons.prems(2) by simp
  note S = claim_slots_Some [OF mid less]
  have IH: "length owners' = length mid \<and>
    (\<forall>s < length mid. \<forall>j. owners' ! s = Some j \<longleftrightarrow> mid ! s = Some j \<or>
       (\<exists>p < length cs. j = Suc i + p \<and> s \<in> set (cell_slots columns (cs ! p)))) \<and>
    n' + card (filled mid) = n + length (cell_slots columns c) + card (filled owners')"
    using Cons.IH [OF rec] Cons.prems(2) S by auto
  have "filled mid = filled owners \<union> set (cell_slots columns c)"
    using S less by (auto simp: filled_def split: if_splits)
  moreover have "filled owners \<inter> set (cell_slots columns c) = {}"
    using S by (auto simp: filled_def)
  moreover have "finite (filled owners)"
    by (simp add: filled_def)
  ultimately have card: "card (filled mid) = card (filled owners) + length (cell_slots columns c)"
    using S by (simp add: card_Un_disjoint distinct_card)
  have "owners' ! s = Some j \<longleftrightarrow> owners ! s = Some j \<or>
       (\<exists>p < length (c # cs). j = i + p \<and> s \<in> set (cell_slots columns ((c # cs) ! p)))"
    if "s < length owners" for s j
  proof -
    have "owners' ! s = Some j \<longleftrightarrow> mid ! s = Some j \<or>
       (\<exists>p < length cs. j = Suc i + p \<and> s \<in> set (cell_slots columns (cs ! p)))"
      using IH S that by simp
    moreover have "mid ! s = Some j \<longleftrightarrow>
       owners ! s = Some j \<or> (j = i \<and> s \<in> set (cell_slots columns c))"
      using S that by auto
    ultimately show ?thesis
      by (auto simp: Ex_less_Suc2 length_Cons)
  qed
  with IH card S show ?case
    by simp
qed simp

subsection \<open>What a built topology guarantees\<close>

text \<open>
  The cells tile the grid when every grid position is covered by exactly one of them.
\<close>

definition tiles :: "CellTopologyCell list \<Rightarrow> LONG \<Rightarrow> LONG \<Rightarrow> bool" where
  "tiles cells rows columns \<longleftrightarrow>
     (\<forall>r k. 1 \<le> r \<and> r \<le> rows \<and> 1 \<le> k \<and> k \<le> columns \<longrightarrow>
        (\<exists>!i. i < length cells \<and> covers (cells ! i) r k))"

text \<open>The invariant of the class: the empty topology, or one that \<open>Build\<close> accepted.\<close>

definition topology_ok :: "CellTopology \<Rightarrow> bool" where
  "topology_ok t \<longleftrightarrow>
     tp_cells t \<noteq> [] \<and>
     distinct (map ct_address (tp_cells t)) \<and>
     (\<forall>c \<in> set (tp_cells t). Normalize (ct_address c) = ct_address c \<and>
        ParseCellAddress (ct_address c) = Some (ct_row c, ct_column c) \<and>
        in_grid (tp_rows t) (tp_columns t) c) \<and>
     1 \<le> tp_rows t \<and> 1 \<le> tp_columns t \<and> tp_rows t * tp_columns t \<le> kMaximumPhysicalSlots \<and>
     tiles (tp_cells t) (tp_rows t) (tp_columns t) \<and>
     (\<forall>a i. tp_byAddress t a = Some i \<longleftrightarrow>
        i < length (tp_cells t) \<and> ct_address (tp_cells t ! i) = a) \<and>
     length (tp_ownerBySlot t) = nat (tp_rows t * tp_columns t) \<and>
     (\<forall>r k i. 1 \<le> r \<and> r \<le> tp_rows t \<and> 1 \<le> k \<and> k \<le> tp_columns t \<longrightarrow>
        (tp_ownerBySlot t ! slot_of (tp_columns t) r k = Some i \<longleftrightarrow>
           i < length (tp_cells t) \<and> covers (tp_cells t ! i) r k)) \<and>
     list_all (neighbours_valid (tp_cells t) (tp_byAddress t)) (tp_cells t)"

lemma fold_max_ge: "(x::int) \<le> fold max xs x"
proof (induction xs arbitrary: x)
  case (Cons y xs)
  show ?case using Cons.IH [of "max y x"] by simp
qed simp

lemma claim_cells_tiles:
  assumes claim: "claim_cells columns 0 cells (replicate (nat (rows * columns)) None) 0 =
      Some (owners, assigned)"
    and full: "int assigned = rows * columns"
    and grid: "\<forall>c \<in> set cells. in_grid rows columns c"
  shows "length owners = nat (rows * columns) \<and> tiles cells rows columns \<and>
    (\<forall>r k i. 1 \<le> r \<and> r \<le> rows \<and> 1 \<le> k \<and> k \<le> columns \<longrightarrow>
       (owners ! slot_of columns r k = Some i \<longleftrightarrow> i < length cells \<and> covers (cells ! i) r k))"
proof -
  let ?n = "nat (rows * columns)" and ?start = "replicate (nat (rows * columns)) None"
  have less: "\<forall>c \<in> set cells. \<forall>s \<in> set (cell_slots columns c). s < length ?start"
    using grid cell_slots_less by auto
  note C = claim_cells_Some [OF claim less]
  have len: "length owners = ?n"
    using C by simp
  have "filled ?start = {}"
    by (auto simp: filled_def)
  then have "card (filled owners) = ?n"
    using C full by simp
  then have "filled owners = {s. s < ?n}"
    using len by (intro card_seteq) (auto simp: filled_def)
  then have all: "owners ! s \<noteq> None" if "s < ?n" for s
    using that by (auto simp: filled_def)
  have owner: "owners ! slot_of columns r k = Some i \<longleftrightarrow> i < length cells \<and> covers (cells ! i) r k"
    if "1 \<le> r" "r \<le> rows" "1 \<le> k" "k \<le> columns" for r k i
  proof -
    have "slot_of columns r k < ?n"
      using that by (rule slot_of_less)
    then have "owners ! slot_of columns r k = Some i \<longleftrightarrow>
        i < length cells \<and> slot_of columns r k \<in> set (cell_slots columns (cells ! i))"
      using C by auto
    then show ?thesis
      using slot_mem_iff [OF _ that(1,3,4)] grid nth_mem by blast
  qed
  have "tiles cells rows columns"
    unfolding tiles_def
  proof (intro allI impI)
    fix r k
    assume rk: "1 \<le> r \<and> r \<le> rows \<and> 1 \<le> k \<and> k \<le> columns"
    then have "slot_of columns r k < ?n"
      by (intro slot_of_less) auto
    then obtain i where "owners ! slot_of columns r k = Some i"
      using all by blast
    then show "\<exists>!i. i < length cells \<and> covers (cells ! i) r k"
      using owner rk by (metis option.inject)
  qed
  with len owner show ?thesis
    by blast
qed

lemma build_topology_Inr:
  assumes "build_topology input = Inr t"
  obtains "build_scan 0 input Map.empty 0 0 =
      Inr (tp_cells t, tp_byAddress t, tp_rows t, tp_columns t)"
    and "tp_rows t * tp_columns t \<noteq> 0" "tp_rows t * tp_columns t \<le> kMaximumPhysicalSlots"
    and "claim_cells (tp_columns t) 0 (tp_cells t)
      (replicate (nat (tp_rows t * tp_columns t)) None) 0 =
      Some (tp_ownerBySlot t, nat (tp_rows t * tp_columns t))"
    and "list_all (neighbours_valid (tp_cells t) (tp_byAddress t)) (tp_cells t)"
    and "input \<noteq> []"
  using assms
  by (auto simp: build_topology_def bindE_Inr_iff Let_def split: if_splits option.splits)

lemma build_topology_ok:
  assumes "build_topology input = Inr t"
  shows "topology_ok t"
  using assms
proof (rule build_topology_Inr)
  let ?R = "tp_rows t" and ?C = "tp_columns t" and ?cells = "tp_cells t"
  assume scan: "build_scan 0 input Map.empty 0 0 = Inr (?cells, tp_byAddress t, ?R, ?C)"
    and nz: "?R * ?C \<noteq> 0" and limit: "?R * ?C \<le> kMaximumPhysicalSlots"
    and claim: "claim_cells ?C 0 ?cells (replicate (nat (?R * ?C)) None) 0 =
      Some (tp_ownerBySlot t, nat (?R * ?C))"
    and nb: "list_all (neighbours_valid ?cells (tp_byAddress t)) ?cells"
    and ne: "input \<noteq> []"
  note S = build_scan_Inr [OF scan]
  have pos: "1 \<le> ?R" "1 \<le> ?C"
    using S nz by auto
  have cell: "Normalize (ct_address c) = ct_address c \<and>
      ParseCellAddress (ct_address c) = Some (ct_row c, ct_column c) \<and> in_grid ?R ?C c"
    if "c \<in> set ?cells" for c
  proof -
    from S have "set (map place_cell input) = set (map Some ?cells)"
      by metis
    with that obtain b where "place_cell b = Some c"
      unfolding set_map by (metis imageE imageI)
    moreover have "1 \<le> ct_rowSpan c \<and> 1 \<le> ct_columnSpan c \<and> bottom_of c \<le> ?R \<and> right_of c \<le> ?C"
      using S that by blast
    ultimately show ?thesis
      unfolding in_grid_def using place_cell_Some by blast
  qed
  have T: "length (tp_ownerBySlot t) = nat (?R * ?C) \<and> tiles ?cells ?R ?C \<and>
    (\<forall>r k i. 1 \<le> r \<and> r \<le> ?R \<and> 1 \<le> k \<and> k \<le> ?C \<longrightarrow>
       (tp_ownerBySlot t ! slot_of ?C r k = Some i \<longleftrightarrow> i < length ?cells \<and> covers (?cells ! i) r k))"
    using pos cell by (intro claim_cells_tiles [OF claim]) simp_all
  have "?cells \<noteq> []"
    using S ne by auto
  then show ?thesis
    using S pos limit T cell nb unfolding topology_ok_def by auto
qed

lemma CellTopology_Build_Inr: "CellTopology_Build input t0 = (Inr (), t) \<longleftrightarrow> build_topology input = Inr t"
  by (auto simp: CellTopology_Build_def split: sum.splits)

lemma CellTopology_Build_ok: "CellTopology_Build input t0 = (Inr (), t) \<Longrightarrow> topology_ok t"
  by (simp add: CellTopology_Build_Inr build_topology_ok)

lemma topology_okD:
  assumes "topology_ok t"
  shows "distinct (map ct_address (tp_cells t))"
    and "c \<in> set (tp_cells t) \<Longrightarrow> in_grid (tp_rows t) (tp_columns t) c"
    and "c \<in> set (tp_cells t) \<Longrightarrow> Normalize (ct_address c) = ct_address c"
    and "c \<in> set (tp_cells t) \<Longrightarrow>
      ParseCellAddress (ct_address c) = Some (ct_row c, ct_column c)"
    and "tiles (tp_cells t) (tp_rows t) (tp_columns t)"
    and "tp_byAddress t a = Some i \<longleftrightarrow>
      i < length (tp_cells t) \<and> ct_address (tp_cells t ! i) = a"
    and "length (tp_ownerBySlot t) = nat (tp_rows t * tp_columns t)"
    and "list_all (neighbours_valid (tp_cells t) (tp_byAddress t)) (tp_cells t)"
    and "1 \<le> tp_rows t" and "1 \<le> tp_columns t"
    and "tp_rows t * tp_columns t \<le> kMaximumPhysicalSlots"
    and "1 \<le> r \<Longrightarrow> r \<le> tp_rows t \<Longrightarrow> 1 \<le> k \<Longrightarrow> k \<le> tp_columns t \<Longrightarrow>
      tp_ownerBySlot t ! slot_of (tp_columns t) r k = Some i \<longleftrightarrow>
        i < length (tp_cells t) \<and> covers (tp_cells t ! i) r k"
proof -
  let ?cell = "\<forall>c \<in> set (tp_cells t). Normalize (ct_address c) = ct_address c \<and>
      ParseCellAddress (ct_address c) = Some (ct_row c, ct_column c) \<and>
      in_grid (tp_rows t) (tp_columns t) c"
  have cell: ?cell and index: "\<forall>a i. tp_byAddress t a = Some i \<longleftrightarrow>
      i < length (tp_cells t) \<and> ct_address (tp_cells t ! i) = a"
    and owner: "\<forall>r k i. 1 \<le> r \<and> r \<le> tp_rows t \<and> 1 \<le> k \<and> k \<le> tp_columns t \<longrightarrow>
        (tp_ownerBySlot t ! slot_of (tp_columns t) r k = Some i \<longleftrightarrow>
           i < length (tp_cells t) \<and> covers (tp_cells t ! i) r k)"
    using assms unfolding topology_ok_def by - (elim conjE, assumption)+
  show "c \<in> set (tp_cells t) \<Longrightarrow> in_grid (tp_rows t) (tp_columns t) c"
    and "c \<in> set (tp_cells t) \<Longrightarrow> Normalize (ct_address c) = ct_address c"
    and "c \<in> set (tp_cells t) \<Longrightarrow>
      ParseCellAddress (ct_address c) = Some (ct_row c, ct_column c)"
    using cell by blast+
  show "tp_byAddress t a = Some i \<longleftrightarrow>
      i < length (tp_cells t) \<and> ct_address (tp_cells t ! i) = a"
    using index by blast
  show "1 \<le> r \<Longrightarrow> r \<le> tp_rows t \<Longrightarrow> 1 \<le> k \<Longrightarrow> k \<le> tp_columns t \<Longrightarrow>
      tp_ownerBySlot t ! slot_of (tp_columns t) r k = Some i \<longleftrightarrow>
        i < length (tp_cells t) \<and> covers (tp_cells t ! i) r k"
    using owner by blast
  show "distinct (map ct_address (tp_cells t))"
    and "tiles (tp_cells t) (tp_rows t) (tp_columns t)"
    and "length (tp_ownerBySlot t) = nat (tp_rows t * tp_columns t)"
    and "list_all (neighbours_valid (tp_cells t) (tp_byAddress t)) (tp_cells t)"
    and "1 \<le> tp_rows t" and "1 \<le> tp_columns t"
    and "tp_rows t * tp_columns t \<le> kMaximumPhysicalSlots"
    using assms unfolding topology_ok_def by - (elim conjE, assumption)+
qed

lemma topology_ok_owner:
  assumes "topology_ok t" "1 \<le> r" "r \<le> tp_rows t" "1 \<le> k" "k \<le> tp_columns t"
  obtains i where "i < length (tp_cells t)" "covers (tp_cells t ! i) r k"
    "CellTopology_OwnerAt t r k = Some (tp_cells t ! i)"
    "\<forall>j < length (tp_cells t). covers (tp_cells t ! j) r k \<longrightarrow> j = i"
proof -
  have "\<exists>!i. i < length (tp_cells t) \<and> covers (tp_cells t ! i) r k"
    using topology_okD(5) [OF assms(1)] assms(2-5) unfolding tiles_def by blast
  then obtain i where i: "i < length (tp_cells t)" "covers (tp_cells t ! i) r k"
    and uniq: "\<And>j. j < length (tp_cells t) \<Longrightarrow> covers (tp_cells t ! j) r k \<Longrightarrow> j = i"
    by blast
  have "tp_ownerBySlot t ! slot_of (tp_columns t) r k = Some i"
    using topology_okD(12) [OF assms] i by blast
  moreover have "slot_of (tp_columns t) r k < length (tp_ownerBySlot t)"
    using slot_of_less [OF assms(2-5)] topology_okD(7) [OF assms(1)] by simp
  ultimately have "CellTopology_OwnerAt t r k = Some (tp_cells t ! i)"
    using assms(2-5) i(1) by (simp add: CellTopology_OwnerAt_def)
  with i uniq show thesis
    using that by blast
qed

text \<open>Every table that \<open>CellTopology::Build\<close> accepts is a gap-free, overlap-free
  tiling of its grid: \<open>OwnerAt\<close> returns a cell exactly for the positions of the grid, and it
  is the one cell of the table that covers the position.\<close>

lemma build_owner_unique:
  assumes "CellTopology_Build input t0 = (Inr (), t)"
  shows "case CellTopology_OwnerAt t r k of
      None \<Rightarrow> \<not> (1 \<le> r \<and> r \<le> tp_rows t \<and> 1 \<le> k \<and> k \<le> tp_columns t)
    | Some c \<Rightarrow> c \<in> set (tp_cells t) \<and> covers c r k \<and>
        (\<forall>d. d \<in> set (tp_cells t) \<and> covers d r k \<longrightarrow> d = c)"
proof (cases "1 \<le> r \<and> r \<le> tp_rows t \<and> 1 \<le> k \<and> k \<le> tp_columns t")
  case True
  then have "1 \<le> r" "r \<le> tp_rows t" "1 \<le> k" "k \<le> tp_columns t"
    by simp_all
  then obtain i where i: "i < length (tp_cells t)" and cov: "covers (tp_cells t ! i) r k"
    and own: "CellTopology_OwnerAt t r k = Some (tp_cells t ! i)"
    and uniq: "\<forall>j < length (tp_cells t). covers (tp_cells t ! j) r k \<longrightarrow> j = i"
    by (rule topology_ok_owner [OF CellTopology_Build_ok [OF assms]])
  have only: "d = tp_cells t ! i" if d: "d \<in> set (tp_cells t)" "covers d r k" for d
  proof -
    obtain j where j: "j < length (tp_cells t)" "d = tp_cells t ! j"
      using d(1) by (auto simp: in_set_conv_nth)
    with d(2) uniq have "j = i" by blast
    with j show ?thesis by simp
  qed
  have mem: "tp_cells t ! i \<in> set (tp_cells t)"
    using i by simp
  show ?thesis
    unfolding own option.case by (intro conjI allI impI mem cov) (elim conjE only)
next
  case False
  then show ?thesis
    by (auto simp: CellTopology_OwnerAt_def)
qed

text \<open>A table of two rows whose first cell spans both columns, read in lower case.\<close>

definition blank_cell :: "wstring \<Rightarrow> LONG \<Rightarrow> LONG \<Rightarrow> LONG \<Rightarrow> wstring \<Rightarrow> wstring \<Rightarrow> CellTopologyCell" where
  "blank_cell address listId rowSpan columnSpan rightAddress downAddress =
     \<lparr>ct_tableInstanceId = [], ct_address = address, ct_listId = listId, ct_rowSpan = rowSpan,
      ct_columnSpan = columnSpan, ct_pageStart = 1, ct_pageEnd = 1, ct_text = [], ct_width = -1,
      ct_height = -1, ct_rightAddress = rightAddress, ct_downAddress = downAddress,
      ct_row = 0, ct_column = 0\<rparr>"

definition sample_cells :: "CellTopologyCell list" where
  "sample_cells =
     [blank_cell (L ''a1'') 10 1 2 [] (L ''a2''),
      blank_cell (L ''A2'') 11 1 1 (L ''b2'') [],
      blank_cell (L ''B2'') 12 1 1 [] []]"

definition empty_topology :: CellTopology where
  "empty_topology =
     \<lparr>tp_cells = [], tp_byAddress = Map.empty, tp_ownerBySlot = [], tp_rows = 0, tp_columns = 0\<rparr>"

definition sample_topology :: CellTopology where
  "sample_topology = snd (CellTopology_Build sample_cells empty_topology)"

lemma sample_build: "CellTopology_Build sample_cells empty_topology = (Inr (), sample_topology)"
proof -
  have "fst (CellTopology_Build sample_cells empty_topology) = Inr ()"
    by code_simp
  then show ?thesis
    by (simp add: sample_topology_def prod_eq_iff)
qed

lemma build_owner_unique_witness:
  "\<exists>c. CellTopology_OwnerAt sample_topology 1 2 = Some c \<and> covers c 1 2 \<and> ct_row c = 1 \<and> ct_column c = 1 \<and>
     (\<forall>d. d \<in> set (tp_cells sample_topology) \<and> covers d 1 2 \<longrightarrow> d = c)"
proof -
  have "map_option (\<lambda>c. (ct_row c, ct_column c)) (CellTopology_OwnerAt sample_topology 1 2) = Some (1, 1)"
    by code_simp
  then show ?thesis
    using build_owner_unique [OF sample_build, of 1 2] by auto
qed

subsection \<open>Which tables are accepted\<close>

text \<open>The test of \<open>validateNeighbor\<close> without the index.\<close>

definition neighbour_spec ::
  "CellTopologyCell list \<Rightarrow> CellTopologyCell \<Rightarrow> wstring \<Rightarrow> CellDirection \<Rightarrow> bool" where
  "neighbour_spec cells c addr direction \<longleftrightarrow>
     addr = [] \<or>
     (addr \<noteq> ct_address c \<and>
      (\<exists>d \<in> set cells. ct_address d = addr \<and>
         (case direction of
            Right \<Rightarrow> ct_column d > ct_column c \<and>
              Overlaps (ct_row c) (ct_rowSpan c) (ct_row d) (ct_rowSpan d)
          | Down \<Rightarrow> ct_row d > ct_row c \<and>
              Overlaps (ct_column c) (ct_columnSpan c) (ct_column d) (ct_columnSpan d))))"

text \<open>
  The abstract contract of \<open>Build\<close>: the placed cells have distinct addresses and tile a grid
  of at most 200000 slots, and every neighbour address names another cell on the stated side.
\<close>

definition acceptable :: "CellTopologyCell list \<Rightarrow> bool" where
  "acceptable input \<longleftrightarrow>
     (\<exists>cells rows columns. map place_cell input = map Some cells \<and>
        distinct (map ct_address cells) \<and>
        (\<forall>c \<in> set cells. in_grid rows columns c) \<and>
        1 \<le> rows \<and> 1 \<le> columns \<and> rows * columns \<le> kMaximumPhysicalSlots \<and>
        tiles cells rows columns \<and>
        (\<forall>c \<in> set cells. neighbour_spec cells c (ct_rightAddress c) Right \<and>
           neighbour_spec cells c (ct_downAddress c) Down))"

lemma validateNeighbor_spec:
  assumes "distinct (map ct_address cells)"
    and "\<And>a i. byAddress a = Some i \<longleftrightarrow> i < length cells \<and> ct_address (cells ! i) = a"
  shows "validateNeighbor cells byAddress c addr direction \<longleftrightarrow> neighbour_spec cells c addr direction"
proof (cases "byAddress addr")
  case None
  then have "\<forall>d \<in> set cells. ct_address d \<noteq> addr"
    using assms(2) by (metis in_set_conv_nth option.distinct(1))
  with None show ?thesis
    by (auto simp: validateNeighbor_def neighbour_spec_def)
next
  case (Some i)
  then have i: "i < length cells" "ct_address (cells ! i) = addr"
    using assms(2) by blast+
  have "d = cells ! i" if "d \<in> set cells" "ct_address d = addr" for d
    using that i distinct_map_nth_eq [OF assms(1)] by (metis in_set_conv_nth)
  then have "(\<exists>d \<in> set cells. ct_address d = addr \<and> P d) \<longleftrightarrow> P (cells ! i)" for P
    using i nth_mem by blast
  with Some show ?thesis
    unfolding validateNeighbor_def neighbour_spec_def
    by (cases direction) (simp_all add: Let_def)
qed

lemma build_scan_total:
  assumes "map place_cell cs = map Some ds" "distinct (map ct_address ds)"
    and "\<forall>d \<in> set ds. 1 \<le> ct_rowSpan d \<and> 1 \<le> ct_columnSpan d \<and> m (ct_address d) = None \<and>
      bottom_of d \<le> LONG_MAX \<and> right_of d \<le> LONG_MAX"
  shows "\<exists>m' R' C'. build_scan i cs m R C = Inr (ds, m', R', C')"
  using assms
proof (induction cs arbitrary: i m R C ds)
  case (Cons c cs)
  then obtain d es where ds: "ds = d # es" and d: "place_cell c = Some d"
    and es: "map place_cell cs = map Some es"
    by (cases ds) auto
  have "\<forall>e \<in> set es. 1 \<le> ct_rowSpan e \<and> 1 \<le> ct_columnSpan e \<and>
      (m(ct_address d \<mapsto> i)) (ct_address e) = None \<and>
      bottom_of e \<le> LONG_MAX \<and> right_of e \<le> LONG_MAX"
    using Cons.prems(2,3) by (auto simp: ds) (metis image_eqI)
  then have "\<exists>m' R' C'. build_scan (Suc i) cs (m(ct_address d \<mapsto> i)) (max R (bottom_of d))
      (max C (right_of d)) = Inr (es, m', R', C')"
    using Cons.IH [OF es] Cons.prems(2) ds by simp
  then show ?case
    using Cons.prems(3) d ds by auto
qed simp

lemma claim_cells_total:
  assumes "\<forall>c \<in> set cs. distinct (cell_slots columns c) \<and>
      (\<forall>s \<in> set (cell_slots columns c). s < length owners \<and> owners ! s = None)"
    and "\<forall>p < length cs. \<forall>q < length cs. p \<noteq> q \<longrightarrow>
      set (cell_slots columns (cs ! p)) \<inter> set (cell_slots columns (cs ! q)) = {}"
  shows "\<exists>result. claim_cells columns i cs owners n = Some result"
  using assms
proof (induction cs arbitrary: i owners n)
  case (Cons c cs)
  have c: "distinct (cell_slots columns c)"
      "\<forall>s \<in> set (cell_slots columns c). s < length owners \<and> owners ! s = None"
    using Cons.prems(1) by simp_all
  obtain mid where mid: "claim_slots i (cell_slots columns c) owners = Some mid"
    using claim_slots_total [OF c] by blast
  have S: "length mid = length owners" "\<forall>s < length owners. mid ! s =
      (if s \<in> set (cell_slots columns c) then Some i else owners ! s)"
    using claim_slots_Some [OF mid] c(2) by blast+
  have disj: "set (cell_slots columns c) \<inter> set (cell_slots columns d) = {}" if d: "d \<in> set cs" for d
  proof -
    obtain p where "p < length cs" "d = cs ! p"
      using d by (auto simp: in_set_conv_nth)
    then show ?thesis
      using Cons.prems(2) [rule_format, of 0 "Suc p"] by simp
  qed
  have "\<forall>d \<in> set cs. distinct (cell_slots columns d) \<and>
      (\<forall>s \<in> set (cell_slots columns d). s < length mid \<and> mid ! s = None)"
    using Cons.prems(1) S disj by fastforce
  moreover have "\<forall>p < length cs. \<forall>q < length cs. p \<noteq> q \<longrightarrow>
      set (cell_slots columns (cs ! p)) \<inter> set (cell_slots columns (cs ! q)) = {}"
    using Cons.prems(2) by (metis Suc_less_eq length_Cons nat.inject nth_Cons_Suc)
  ultimately show ?case
    using Cons.IH mid by simp
qed simp

lemma tiles_disjoint:
  assumes "tiles cells rows columns" "\<forall>c \<in> set cells. in_grid rows columns c"
    and "p < length cells" "q < length cells" "p \<noteq> q"
  shows "set (cell_slots columns (cells ! p)) \<inter> set (cell_slots columns (cells ! q)) = {}"
proof (rule ccontr)
  assume "\<not> ?thesis"
  then obtain r k where p: "covers (cells ! p) r k"
    and q: "slot_of columns r k \<in> set (cell_slots columns (cells ! q))"
    unfolding set_cell_slots [of columns "cells ! p"] by blast
  have rk: "1 \<le> r" "r \<le> rows" "1 \<le> k" "k \<le> columns"
    using in_grid_covers p assms(2,3) nth_mem by blast+
  then have "covers (cells ! q) r k"
    using q slot_mem_iff assms(2,4) nth_mem by blast
  moreover have "\<exists>!i. i < length cells \<and> covers (cells ! i) r k"
    using assms(1) rk unfolding tiles_def by blast
  ultimately show False
    using p assms(3-5) by blast
qed

lemma fold_max_eqI:
  assumes "\<forall>x \<in> set xs. x \<le> (m::int)" "m \<in> set xs \<or> m = a" "a \<le> m"
  shows "fold max xs a = m"
  using assms
proof (induction xs arbitrary: a)
  case (Cons x xs)
  have "m \<in> set xs \<or> m = max x a"
    using Cons.prems by auto
  then show ?case
    using Cons.IH [of "max x a"] Cons.prems by simp
qed simp

lemma tiles_grid_size:
  assumes tiles: "tiles cells rows columns" and pos: "1 \<le> rows" "1 \<le> columns"
    and grid: "\<forall>c \<in> set cells. in_grid rows columns c"
  shows "fold max (map bottom_of cells) 0 = rows" "fold max (map right_of cells) 0 = columns"
proof -
  obtain i where i: "i < length cells" "covers (cells ! i) rows columns"
    using tiles pos unfolding tiles_def by blast
  then have "bottom_of (cells ! i) = rows" "right_of (cells ! i) = columns"
    using grid nth_mem [OF i(1)] unfolding covers_iff in_grid_def by fastforce+
  then have "rows \<in> bottom_of ` set cells" "columns \<in> right_of ` set cells"
    using nth_mem [OF i(1)] by blast+
  then show "fold max (map bottom_of cells) 0 = rows" "fold max (map right_of cells) 0 = columns"
    using grid pos by (auto intro!: fold_max_eqI simp: in_grid_def)
qed

lemma acceptable_build:
  assumes "acceptable input"
  shows "\<exists>t. build_topology input = Inr t"
proof -
  obtain cells rows columns where map: "map place_cell input = map Some cells"
    and dist: "distinct (map ct_address cells)"
    and grid: "\<forall>c \<in> set cells. in_grid rows columns c"
    and pos: "1 \<le> rows" "1 \<le> columns" and limit: "rows * columns \<le> kMaximumPhysicalSlots"
    and tiles: "tiles cells rows columns"
    and nb: "\<forall>c \<in> set cells. neighbour_spec cells c (ct_rightAddress c) Right \<and>
           neighbour_spec cells c (ct_downAddress c) Down"
    using assms unfolding acceptable_def by blast
  have size: "rows \<le> rows * columns" "columns \<le> rows * columns"
    using pos mult_left_mono [of 1 columns rows] mult_right_mono [of 1 rows columns] by simp_all
  have "\<forall>d \<in> set cells. 1 \<le> ct_rowSpan d \<and> 1 \<le> ct_columnSpan d \<and> Map.empty (ct_address d) = None \<and>
      bottom_of d \<le> LONG_MAX \<and> right_of d \<le> LONG_MAX"
    using grid size limit unfolding in_grid_def kMaximumPhysicalSlots_def by fastforce
  then obtain m R C where scan: "build_scan 0 input Map.empty 0 0 = Inr (cells, m, R, C)"
    using build_scan_total [OF map dist, where m = Map.empty and i = 0 and R = 0 and C = 0] by auto
  note S = build_scan_Inr [OF scan]
  have RC: "R = rows" "C = columns"
    using S tiles_grid_size [OF tiles pos grid] by simp_all
  let ?start = "replicate (nat (rows * columns)) None"
  have "\<forall>c \<in> set cells. distinct (cell_slots columns c) \<and>
      (\<forall>s \<in> set (cell_slots columns c). s < length ?start \<and> ?start ! s = None)"
    using grid distinct_cell_slots cell_slots_less by fastforce
  then obtain owners n where claim: "claim_cells columns 0 cells ?start 0 = Some (owners, n)"
    using claim_cells_total tiles_disjoint [OF tiles grid] by (metis surj_pair)
  have less: "\<forall>c \<in> set cells. \<forall>s \<in> set (cell_slots columns c). s < length ?start"
    using grid cell_slots_less by auto
  note K = claim_cells_Some [OF claim less]
  have "owners ! s \<noteq> None" if s: "s < nat (rows * columns)" for s
  proof -
    obtain r k where rk: "1 \<le> r" "r \<le> rows" "1 \<le> k" "k \<le> columns" "s = slot_of columns r k"
      using s pos by (auto elim: slot_of_surj)
    then obtain i where "i < length cells" "covers (cells ! i) r k"
      using tiles unfolding tiles_def by blast
    then have "i < length cells" "s \<in> set (cell_slots columns (cells ! i))"
      using slot_mem_iff [OF _ rk(1,3,4)] grid nth_mem rk(5) by blast+
    then have "owners ! s = Some i"
      using K s by auto
    then show ?thesis by simp
  qed
  then have "filled owners = {s. s < nat (rows * columns)}"
    using K by (auto simp: filled_def)
  moreover have "filled ?start = {}"
    by (auto simp: filled_def)
  ultimately have "int n = rows * columns"
    using K pos by simp
  moreover have "list_all (neighbours_valid cells m) cells"
  proof -
    have "m a = Some i \<longleftrightarrow> i < length cells \<and> ct_address (cells ! i) = a" for a i
      using S by auto
    then show ?thesis
      using nb validateNeighbor_spec [OF dist] by (simp add: list_all_iff neighbours_valid_def)
  qed
  moreover have "input \<noteq> []" "rows * columns \<noteq> 0"
    using map tiles pos unfolding tiles_def by fastforce+
  ultimately show ?thesis
    using scan claim limit by (simp add: build_topology_def RC)
qed

lemma topology_ok_acceptable:
  assumes build: "build_topology input = Inr t"
  shows "acceptable input"
proof -
  have ok: "topology_ok t"
    using build by (rule build_topology_ok)
  have "map place_cell input = map Some (tp_cells t)"
    using build by (rule build_topology_Inr) (use build_scan_Inr in blast)
  moreover have "\<forall>c \<in> set (tp_cells t). neighbour_spec (tp_cells t) c (ct_rightAddress c) Right \<and>
           neighbour_spec (tp_cells t) c (ct_downAddress c) Down"
    using topology_okD(8) [OF ok] validateNeighbor_spec [OF topology_okD(1) [OF ok] topology_okD(6) [OF ok]]
    by (simp add: list_all_iff neighbours_valid_def)
  ultimately show ?thesis
    unfolding acceptable_def using topology_okD [OF ok] by blast
qed

text \<open>Claim C1. \<open>CellTopology::Build\<close> accepts exactly the tables of its contract: cells with
  distinct, parsable addresses that tile a rectangular grid of at most 200000 slots and whose
  neighbour addresses name a cell further right (or down) that shares a row (or column). On any
  other input it reports an error and leaves the topology as it was.\<close>

theorem build_accepts_iff:
  "if acceptable input then \<exists>t. CellTopology_Build input t0 = (Inr (), t)
   else \<exists>e. CellTopology_Build input t0 = (Inl e, t0)"
proof (cases "build_topology input")
  case (Inl e)
  then show ?thesis
    using acceptable_build by (fastforce simp: CellTopology_Build_def)
next
  case (Inr t)
  then show ?thesis
    using topology_ok_acceptable by (fastforce simp: CellTopology_Build_def)
qed

subsection \<open>Lookup, shape and column queries on a built topology\<close>

lemma Find_iff:
  assumes ok: "topology_ok t"
  shows "CellTopology_Find t raw = Some c \<longleftrightarrow>
    c \<in> set (tp_cells t) \<and> ct_address c = Normalize raw"
proof
  assume "CellTopology_Find t raw = Some c"
  then obtain i where "tp_byAddress t (Normalize raw) = Some i" "c = tp_cells t ! i"
    by (auto simp: CellTopology_Find_def split: option.splits)
  then show "c \<in> set (tp_cells t) \<and> ct_address c = Normalize raw"
    using topology_okD(6) [OF ok] by auto
next
  assume c: "c \<in> set (tp_cells t) \<and> ct_address c = Normalize raw"
  then obtain i where i: "i < length (tp_cells t)" "c = tp_cells t ! i"
    by (auto simp: in_set_conv_nth)
  with c have "tp_byAddress t (Normalize raw) = Some i"
    using topology_okD(6) [OF ok] by blast
  with i show "CellTopology_Find t raw = Some c"
    by (simp add: CellTopology_Find_def)
qed

lemma Find_None_iff:
  assumes ok: "topology_ok t"
  shows "CellTopology_Find t raw = None \<longleftrightarrow>
    (\<forall>c \<in> set (tp_cells t). ct_address c \<noteq> Normalize raw)"
  using Find_iff [OF ok] by (metis not_Some_eq)

lemma address_inj:
  assumes "topology_ok t" "c \<in> set (tp_cells t)" "d \<in> set (tp_cells t)"
    and "ct_address c = ct_address d"
  shows "c = d"
  using assms topology_okD(1) [OF assms(1)] by (simp add: distinct_map inj_on_def)

lemma owner_outside:
  "\<not> (1 \<le> r \<and> r \<le> tp_rows t \<and> 1 \<le> k \<and> k \<le> tp_columns t) \<Longrightarrow> CellTopology_OwnerAt t r k = None"
  by (auto simp: CellTopology_OwnerAt_def)

lemma owner_None:
  assumes "topology_ok t" "CellTopology_OwnerAt t r k = None"
  shows "\<not> (1 \<le> r \<and> r \<le> tp_rows t \<and> 1 \<le> k \<and> k \<le> tp_columns t)"
  using assms by (metis option.distinct(1) topology_ok_owner)

lemma owner_mem:
  assumes ok: "topology_ok t" and own: "CellTopology_OwnerAt t r k = Some c"
  shows "c \<in> set (tp_cells t)" "covers c r k"
    "1 \<le> r" "r \<le> tp_rows t" "1 \<le> k" "k \<le> tp_columns t"
proof -
  show rk: "1 \<le> r" "r \<le> tp_rows t" "1 \<le> k" "k \<le> tp_columns t"
    using own by (auto simp: CellTopology_OwnerAt_def split: if_splits)
  obtain i where "i < length (tp_cells t)" "covers (tp_cells t ! i) r k"
    "CellTopology_OwnerAt t r k = Some (tp_cells t ! i)"
    by (rule topology_ok_owner [OF ok rk])
  then show "c \<in> set (tp_cells t)" "covers c r k"
    using own by simp_all
qed

lemma owner_iff:
  assumes ok: "topology_ok t" and c: "c \<in> set (tp_cells t)"
  shows "CellTopology_OwnerAt t r k = Some c \<longleftrightarrow> covers c r k"
proof
  assume "CellTopology_OwnerAt t r k = Some c"
  then show "covers c r k"
    using owner_mem [OF ok] by blast
next
  assume cov: "covers c r k"
  then have rk: "1 \<le> r" "r \<le> tp_rows t" "1 \<le> k" "k \<le> tp_columns t"
    using in_grid_covers topology_okD(2) [OF ok c] by blast+
  obtain i where i: "CellTopology_OwnerAt t r k = Some (tp_cells t ! i)"
    and uniq: "\<forall>j < length (tp_cells t). covers (tp_cells t ! j) r k \<longrightarrow> j = i"
    by (rule topology_ok_owner [OF ok rk])
  obtain j where j: "j < length (tp_cells t)" "c = tp_cells t ! j"
    using c by (auto simp: in_set_conv_nth)
  with cov uniq have "j = i" by blast
  with i j show "CellTopology_OwnerAt t r k = Some c"
    by simp
qed

lemma covers_unique:
  assumes "topology_ok t" "c \<in> set (tp_cells t)" "d \<in> set (tp_cells t)"
    and "covers c r k" "covers d r k"
  shows "c = d"
  using owner_iff assms by (metis option.inject)

lemma grid_covered:
  assumes "topology_ok t" "1 \<le> r" "r \<le> tp_rows t" "1 \<le> k" "k \<le> tp_columns t"
  shows "\<exists>c \<in> set (tp_cells t). covers c r k"
  by (rule topology_ok_owner [OF assms]) (use nth_mem in blast)

lemma covers_corners:
  assumes "in_grid rows columns c"
  shows "covers c (ct_row c) (ct_column c)" "covers c (bottom_of c) (right_of c)"
  using assms by (auto simp: covers_def in_grid_def bottom_of_def right_of_def)

lemma same_covers_same_position:
  assumes "in_grid rows columns c" "in_grid rows' columns' d"
    and "\<And>r k. covers c r k \<longleftrightarrow> covers d r k"
  shows "same_position c d"
proof -
  have "covers d (ct_row c) (ct_column c)" "covers d (bottom_of c) (right_of c)"
    "covers c (ct_row d) (ct_column d)" "covers c (bottom_of d) (right_of d)"
    using covers_corners assms by blast+
  then show ?thesis
    by (auto simp: covers_def same_position_def bottom_of_def right_of_def)
qed

lemma same_position_covers: "same_position c d \<Longrightarrow> covers c r k \<longleftrightarrow> covers d r k"
  by (simp add: same_position_def covers_def)

lemma owners_partner:
  assumes T: "topology_ok t" and U: "topology_ok u" and c: "c \<in> set (tp_cells t)"
    and owners: "\<And>r k. map_option ct_address (CellTopology_OwnerAt t r k) =
           map_option ct_address (CellTopology_OwnerAt u r k)"
  shows "\<exists>d \<in> set (tp_cells u). ct_address d = ct_address c \<and> same_position c d"
proof -
  have "CellTopology_OwnerAt t (ct_row c) (ct_column c) = Some c"
    using owner_iff [OF T c] covers_corners(1) topology_okD(2) [OF T c] by blast
  then obtain d where own: "CellTopology_OwnerAt u (ct_row c) (ct_column c) = Some d"
    and addr: "ct_address d = ct_address c"
    using owners [of "ct_row c" "ct_column c", symmetric] by auto
  have d: "d \<in> set (tp_cells u)"
    using owner_mem [OF U own] by blast
  have by_address: "CellTopology_OwnerAt v r k = Some e \<longleftrightarrow>
      map_option ct_address (CellTopology_OwnerAt v r k) = Some (ct_address e)"
    if V: "topology_ok v" "e \<in> set (tp_cells v)" for v r k e
    using owner_mem(1) [OF V(1)] address_inj [OF V(1) _ V(2)]
    by (cases "CellTopology_OwnerAt v r k") auto
  have "covers c r k \<longleftrightarrow> covers d r k" for r k
    using owner_iff [OF T c] owner_iff [OF U d] by_address [OF T c] by_address [OF U d] owners addr
    by simp
  then have "same_position c d"
    using same_covers_same_position [OF topology_okD(2) [OF T c] topology_okD(2) [OF U d]] by blast
  with d addr show ?thesis by blast
qed

text \<open>After a successful \<open>Build\<close>, \<open>Find\<close> is exactly the lookup by address in
  the cells, in any letter case: it returns the one cell whose address is the folded query, and
  null when there is none.\<close>

theorem find_after_build:
  assumes "CellTopology_Build input t0 = (Inr (), t)"
  shows "case CellTopology_Find t raw of
      None \<Rightarrow> \<forall>c \<in> set (tp_cells t). ct_address c \<noteq> Normalize raw
    | Some c \<Rightarrow> c \<in> set (tp_cells t) \<and> ct_address c = Normalize raw \<and>
        (\<forall>d \<in> set (tp_cells t). ct_address d = Normalize raw \<longrightarrow> d = c)"
proof -
  have ok: "topology_ok t"
    using assms by (rule CellTopology_Build_ok)
  show ?thesis
  proof (cases "CellTopology_Find t raw")
    case None
    moreover from this have "\<forall>c \<in> set (tp_cells t). ct_address c \<noteq> Normalize raw"
      using Find_None_iff [OF ok] by blast
    ultimately show ?thesis
      by simp
  next
    case (Some c)
    then have "c \<in> set (tp_cells t)" "ct_address c = Normalize raw"
      using Find_iff [OF ok] by blast+
    with Some show ?thesis
      by (auto intro: address_inj [OF ok])
  qed
qed

theorem find_after_build_witness:
  "map_option ct_listId (CellTopology_Find sample_topology (L ''b2'')) = Some 12 \<and>
   CellTopology_Find sample_topology (L ''c1'') = None \<and>
   L ''C1'' \<notin> ct_address ` set (tp_cells sample_topology)"
proof -
  have "map_option ct_listId (CellTopology_Find sample_topology (L ''b2'')) = Some 12"
    and none: "CellTopology_Find sample_topology (L ''c1'') = None"
    and "Normalize (L ''c1'') = L ''C1''"
    by code_simp+
  then show ?thesis
    using find_after_build [OF sample_build, of "L ''c1''"] by auto
qed

text \<open>On two built topologies \<open>HasSamePhysicalShape\<close> decides whether every grid
  position has an owner of the same address in both: a symmetric relation, although the source
  only loops over the cells of one side.\<close>

theorem same_shape_iff:
  assumes t: "CellTopology_Build input t0 = (Inr (), t)"
    and u: "CellTopology_Build input' u0 = (Inr (), u)"
  shows "CellTopology_HasSamePhysicalShape t u \<longleftrightarrow>
    tp_rows t = tp_rows u \<and> tp_columns t = tp_columns u \<and>
    (\<forall>r k. map_option ct_address (CellTopology_OwnerAt t r k) =
           map_option ct_address (CellTopology_OwnerAt u r k))"
    (is "?same \<longleftrightarrow> ?rows \<and> ?columns \<and> ?owners")
proof -
  have T: "topology_ok t" and U: "topology_ok u"
    using t u by (simp_all add: CellTopology_Build_ok)
  have mem: "CellTopology_Find u (ct_address c) = Some d \<longleftrightarrow>
      d \<in> set (tp_cells u) \<and> ct_address d = ct_address c" if "c \<in> set (tp_cells t)" for c d
    using Find_iff [OF U] topology_okD(3) [OF T that] by simp
  show ?thesis
  proof
    assume same: ?same
    then have dims: ?rows ?columns and len: "length (tp_cells t) = length (tp_cells u)"
      by (auto simp: CellTopology_HasSamePhysicalShape_def)
    have partner: "\<exists>d \<in> set (tp_cells u). ct_address d = ct_address c \<and> same_position c d"
      if c: "c \<in> set (tp_cells t)" for c
    proof -
      obtain d where "CellTopology_Find u (ct_address c) = Some d" "same_position c d"
        using same c
        by (auto simp: CellTopology_HasSamePhysicalShape_def list_all_iff split: option.splits)
      with mem [OF c] show ?thesis by blast
    qed
    have "map_option ct_address (CellTopology_OwnerAt t r k) =
        map_option ct_address (CellTopology_OwnerAt u r k)" for r k
    proof (cases "CellTopology_OwnerAt t r k")
      case None
      then have "\<not> (1 \<le> r \<and> r \<le> tp_rows t \<and> 1 \<le> k \<and> k \<le> tp_columns t)"
        using owner_None [OF T] by blast
      with None dims show ?thesis
        by (simp add: owner_outside)
    next
      case (Some c)
      then have c: "c \<in> set (tp_cells t)" "covers c r k"
        using owner_mem [OF T] by blast+
      obtain d where d: "d \<in> set (tp_cells u)" "ct_address d = ct_address c" "same_position c d"
        using partner c(1) by blast
      then have "CellTopology_OwnerAt u r k = Some d"
        using owner_iff [OF U] same_position_covers c(2) by blast
      with Some d show ?thesis by simp
    qed
    with dims show "?rows \<and> ?columns \<and> ?owners" by blast
  next
    assume R: "?rows \<and> ?columns \<and> ?owners"
    then have owners: "map_option ct_address (CellTopology_OwnerAt t r k) =
           map_option ct_address (CellTopology_OwnerAt u r k)" for r k by blast
    have tu: "\<exists>d \<in> set (tp_cells u). ct_address d = ct_address c \<and> same_position c d"
      if "c \<in> set (tp_cells t)" for c
      using owners_partner [OF T U that owners] .
    have ut: "\<exists>d \<in> set (tp_cells t). ct_address d = ct_address c \<and> same_position c d"
      if "c \<in> set (tp_cells u)" for c
      using owners_partner [OF U T that owners [symmetric]] .
    have "ct_address ` set (tp_cells t) = ct_address ` set (tp_cells u)"
      using tu ut by (metis (no_types, lifting) image_eqI subset_antisym image_subset_iff)
    then have "length (tp_cells t) = length (tp_cells u)"
      using topology_okD(1) [OF T] topology_okD(1) [OF U] by (metis distinct_card length_map set_map)
    moreover have "case CellTopology_Find u (ct_address c) of None \<Rightarrow> False | Some d \<Rightarrow> same_position c d"
      if c: "c \<in> set (tp_cells t)" for c
    proof -
      obtain d where "d \<in> set (tp_cells u)" "ct_address d = ct_address c" "same_position c d"
        using tu [OF c] by blast
      with mem [OF c, of d] show ?thesis by simp
    qed
    ultimately show ?same
      using R by (simp add: CellTopology_HasSamePhysicalShape_def list_all_iff)
  qed
qed

theorem same_shape_iff_witness:
  "\<exists>u. CellTopology_Build (rev sample_cells) empty_topology = (Inr (), u) \<and>
     CellTopology_HasSamePhysicalShape sample_topology u \<and> tp_cells sample_topology \<noteq> tp_cells u \<and>
     (\<forall>r k. map_option ct_address (CellTopology_OwnerAt sample_topology r k) =
            map_option ct_address (CellTopology_OwnerAt u r k))"
proof -
  define u where "u = snd (CellTopology_Build (rev sample_cells) empty_topology)"
  have "fst (CellTopology_Build (rev sample_cells) empty_topology) = Inr ()"
    by code_simp
  then have u: "CellTopology_Build (rev sample_cells) empty_topology = (Inr (), u)"
    by (simp add: u_def prod_eq_iff)
  have same: "CellTopology_HasSamePhysicalShape sample_topology u"
    unfolding u_def by code_simp
  have "map ct_listId (tp_cells sample_topology) \<noteq> map ct_listId (tp_cells u)"
    unfolding u_def by code_simp
  then have "tp_cells sample_topology \<noteq> tp_cells u"
    by auto
  with u same same_shape_iff [OF sample_build u] show ?thesis
    by blast
qed

text \<open>
  The cells of one grid column, top to bottom: the first starts at row \<open>r\<close>, every next one
  starts below the previous one, the last one ends at row \<open>rows\<close>.
\<close>

fun column_strip :: "LONG \<Rightarrow> LONG \<Rightarrow> LONG \<Rightarrow> CellTopologyCell list \<Rightarrow> bool" where
  "column_strip k r rows [] \<longleftrightarrow> r = rows + 1"
| "column_strip k r rows (c # cs) \<longleftrightarrow>
     ct_row c = r \<and> covers c r k \<and> column_strip k (bottom_of c + 1) rows cs"

lemma column_stripI:
  assumes "sorted (map ct_row cs)" "distinct cs" "r \<le> rows + 1"
    and "\<forall>c \<in> set cs. r \<le> ct_row c \<and> 1 \<le> ct_rowSpan c \<and> bottom_of c \<le> rows \<and>
      ct_column c \<le> k \<and> k < ct_column c + ct_columnSpan c"
    and "\<forall>i. r \<le> i \<and> i \<le> rows \<longrightarrow> (\<exists>c \<in> set cs. covers c i k)"
    and "\<forall>c \<in> set cs. \<forall>d \<in> set cs. \<forall>i. covers c i k \<and> covers d i k \<longrightarrow> c = d"
  shows "column_strip k r rows cs"
  using assms
proof (induction cs arbitrary: r)
  case Nil
  show ?case
  proof (rule ccontr)
    assume "\<not> column_strip k r rows []"
    with Nil.prems(3) have "r \<le> rows"
      by simp
    with Nil.prems(5) show False
      by auto
  qed
next
  case (Cons c cs)
  have in_rows: "r \<le> rows"
    using Cons.prems(4) by (auto simp: bottom_of_def)
  obtain d where d: "d \<in> set (c # cs)" "covers d r k"
    using Cons.prems(5) in_rows by blast
  have "ct_row c \<le> ct_row d"
    using Cons.prems(1) d(1) by auto
  with d Cons.prems(4) have row: "ct_row c = r"
    by (force simp: covers_def)
  have cov: "covers c i k \<longleftrightarrow> r \<le> i \<and> i \<le> bottom_of c" for i
    using Cons.prems(4) row by (auto simp: covers_def bottom_of_def)
  have below: "bottom_of c + 1 \<le> ct_row e" if e: "e \<in> set cs" for e
  proof (rule ccontr)
    assume "\<not> ?thesis"
    moreover have "r \<le> ct_row e" "covers e (ct_row e) k"
      using Cons.prems(4) e by (auto simp: covers_def)
    ultimately have "covers c (ct_row e) k"
      using cov by simp
    with \<open>covers e (ct_row e) k\<close> Cons.prems(6) e have "c = e"
      by auto
    with e Cons.prems(2) show False
      by simp
  qed
  have "column_strip k (bottom_of c + 1) rows cs"
  proof (rule Cons.IH)
    show "sorted (map ct_row cs)" "distinct cs" "bottom_of c + 1 \<le> rows + 1"
      using Cons.prems by simp_all
    show "\<forall>e \<in> set cs. bottom_of c + 1 \<le> ct_row e \<and> 1 \<le> ct_rowSpan e \<and> bottom_of e \<le> rows \<and>
        ct_column e \<le> k \<and> k < ct_column e + ct_columnSpan e"
      using Cons.prems(4) below by simp
    show "\<forall>i. bottom_of c + 1 \<le> i \<and> i \<le> rows \<longrightarrow> (\<exists>e \<in> set cs. covers e i k)"
    proof (intro allI impI)
      fix i assume i: "bottom_of c + 1 \<le> i \<and> i \<le> rows"
      have "r \<le> bottom_of c"
        using Cons.prems(4) row by (simp add: bottom_of_def)
      with i have "r \<le> i \<and> i \<le> rows"
        by simp
      then obtain e where "e \<in> set (c # cs)" "covers e i k"
        using Cons.prems(5) by blast
      moreover have "\<not> covers c i k"
        using i cov by simp
      ultimately show "\<exists>e \<in> set cs. covers e i k"
        by auto
    qed
    show "\<forall>e \<in> set cs. \<forall>d \<in> set cs. \<forall>i. covers e i k \<and> covers d i k \<longrightarrow> e = d"
      using Cons.prems(6) by (meson list.set_intros(2))
  qed
  moreover have "covers c r k"
    using cov Cons.prems(4) row by (simp add: bottom_of_def)
  ultimately show ?case
    using row by simp
qed

lemma sorted_fst_key: "sorted (map (\<lambda>c. (f c, g c)) cs) \<Longrightarrow> sorted (map f cs)"
  for f :: "'a \<Rightarrow> int" and g :: "'a \<Rightarrow> int"
  by (induction cs) (auto simp: less_eq_prod_def)

text \<open>On a built topology \<open>IntersectingColumn\<close> lists, for every column of the grid,
  the cells crossed by that column from the first row to the last without a gap or an overlap;
  for any other column it is empty.\<close>

theorem intersecting_column_strip:
  assumes "CellTopology_Build input t0 = (Inr (), t)"
  shows "if 1 \<le> k \<and> k \<le> tp_columns t
    then \<exists>cs. set cs \<subseteq> set (tp_cells t) \<and> column_strip k 1 (tp_rows t) cs \<and>
           CellTopology_IntersectingColumn t k = map ct_address cs
    else CellTopology_IntersectingColumn t k = []"
proof -
  have ok: "topology_ok t"
    using assms by (rule CellTopology_Build_ok)
  let ?P = "\<lambda>c. ct_column c \<le> k \<and> k < ct_column c + ct_columnSpan c"
  define cs where "cs = sort_key (\<lambda>c. (ct_row c, ct_column c)) (filter ?P (tp_cells t))"
  have result: "CellTopology_IntersectingColumn t k = map ct_address cs"
    by (simp add: CellTopology_IntersectingColumn_def cs_def)
  have mem: "c \<in> set cs \<longleftrightarrow> c \<in> set (tp_cells t) \<and> ?P c" for c
    by (auto simp: cs_def)
  have grid: "in_grid (tp_rows t) (tp_columns t) c" if "c \<in> set cs" for c
    using topology_okD(2) [OF ok] that mem by blast
  show ?thesis
  proof (cases "1 \<le> k \<and> k \<le> tp_columns t")
    case True
    have "column_strip k 1 (tp_rows t) cs"
    proof (rule column_stripI)
      have "sorted (map (\<lambda>c. (ct_row c, ct_column c)) cs)"
        unfolding cs_def by (rule sorted_sort_key)
      then show "sorted (map ct_row cs)"
        by (rule sorted_fst_key)
      have "distinct (tp_cells t)"
        using topology_okD(1) [OF ok] by (simp add: distinct_map)
      then show "distinct cs"
        by (simp add: cs_def)
      show "1 \<le> tp_rows t + 1"
        using topology_okD(9) [OF ok] by simp
      show "\<forall>c \<in> set cs. 1 \<le> ct_row c \<and> 1 \<le> ct_rowSpan c \<and> bottom_of c \<le> tp_rows t \<and> ?P c"
        using grid mem by (auto simp: in_grid_def)
      show "\<forall>i. 1 \<le> i \<and> i \<le> tp_rows t \<longrightarrow> (\<exists>c \<in> set cs. covers c i k)"
        using grid_covered [OF ok] True mem by (metis covers_def)
      show "\<forall>c \<in> set cs. \<forall>d \<in> set cs. \<forall>i. covers c i k \<and> covers d i k \<longrightarrow> c = d"
        using covers_unique [OF ok] mem by blast
    qed
    with True result mem show ?thesis
      by (metis subsetI)
  next
    case False
    have "set cs = {}"
    proof (rule equals0I)
      fix c assume "c \<in> set cs"
      with grid [OF this] mem have "1 \<le> k \<and> k \<le> tp_columns t"
        by (auto simp: in_grid_def right_of_def)
      with False show False by simp
    qed
    with False result show ?thesis
      by auto
  qed
qed

theorem intersecting_column_strip_witness:
  "CellTopology_IntersectingColumn sample_topology 2 = [L ''A1'', L ''B2''] \<and>
   (\<exists>cs. set cs \<subseteq> set (tp_cells sample_topology) \<and> column_strip 2 1 2 cs \<and>
      map ct_address cs = [L ''A1'', L ''B2''])"
proof -
  have "CellTopology_IntersectingColumn sample_topology 2 = [L ''A1'', L ''B2'']"
    "tp_rows sample_topology = 2" "tp_columns sample_topology = 2"
    by code_simp+
  then show ?thesis
    using intersecting_column_strip [OF sample_build, of 2] by auto
qed

subsection \<open>The life of a topology object\<close>

text \<open>The operations that change the object, from the value a default-constructed one has.\<close>

inductive topology_reachable :: "CellTopology \<Rightarrow> bool" where
  initial: "topology_reachable empty_topology"
| build: "topology_reachable t \<Longrightarrow> topology_reachable (snd (CellTopology_Build cells t))"
| clear: "topology_reachable t \<Longrightarrow> topology_reachable (CellTopology_Clear t)"
| invalidate: "topology_reachable t \<Longrightarrow> topology_reachable (CellTopology_InvalidateGeometry t)"

lemma geometry_irrelevant [simp]:
  fixes c :: CellTopologyCell
  shows "in_grid rows columns (c\<lparr>ct_width := w, ct_height := h\<rparr>) \<longleftrightarrow> in_grid rows columns c"
    and "covers (c\<lparr>ct_width := w, ct_height := h\<rparr>) r k \<longleftrightarrow> covers c r k"
  by (simp_all add: in_grid_def covers_def bottom_of_def right_of_def)

lemma neighbours_valid_geometry:
  assumes "\<And>a i. byAddress a = Some i \<Longrightarrow> i < length cells"
  shows "neighbours_valid (map (\<lambda>c. c\<lparr>ct_width := w, ct_height := h\<rparr>) cells) byAddress
      (c\<lparr>ct_width := w, ct_height := h\<rparr>) \<longleftrightarrow> neighbours_valid cells byAddress c"
  unfolding neighbours_valid_def validateNeighbor_def
  using assms by (auto simp: Let_def split: option.splits)

lemma InvalidateGeometry_ok:
  assumes ok: "topology_ok t"
  shows "topology_ok (CellTopology_InvalidateGeometry t)"
proof -
  let ?g = "\<lambda>c::CellTopologyCell. c\<lparr>ct_width := -1, ct_height := -1\<rparr>"
  let ?cells = "map ?g (tp_cells t)"
  have below: "\<And>a i. tp_byAddress t a = Some i \<Longrightarrow> i < length (tp_cells t)"
    using topology_okD(6) [OF ok] by blast
  have cov: "i < length ?cells \<and> covers (?cells ! i) r k \<longleftrightarrow>
      i < length (tp_cells t) \<and> covers (tp_cells t ! i) r k" for i r k
    by (auto simp: nth_map)
  have 1: "?cells \<noteq> []" "distinct (map ct_address ?cells)"
    using ok topology_okD(1) [OF ok] by (simp_all add: topology_ok_def comp_def)
  have 2: "\<forall>c \<in> set ?cells. Normalize (ct_address c) = ct_address c \<and>
      ParseCellAddress (ct_address c) = Some (ct_row c, ct_column c) \<and>
      in_grid (tp_rows t) (tp_columns t) c"
  proof
    fix c assume "c \<in> set ?cells"
    then obtain d where d: "d \<in> set (tp_cells t)" "c = ?g d"
      by auto
    have "ct_address c = ct_address d" "ct_row c = ct_row d" "ct_column c = ct_column d"
      "in_grid (tp_rows t) (tp_columns t) c \<longleftrightarrow> in_grid (tp_rows t) (tp_columns t) d"
      by (simp_all add: d(2))
    with topology_okD(2,3,4) [OF ok d(1)]
    show "Normalize (ct_address c) = ct_address c \<and>
      ParseCellAddress (ct_address c) = Some (ct_row c, ct_column c) \<and>
      in_grid (tp_rows t) (tp_columns t) c" by metis
  qed
  have 3: "tiles ?cells (tp_rows t) (tp_columns t)"
    using topology_okD(5) [OF ok] unfolding tiles_def cov .
  have 4: "tp_byAddress t a = Some i \<longleftrightarrow> i < length ?cells \<and> ct_address (?cells ! i) = a" for a i
    using topology_okD(6) [OF ok, of a i] by (cases "i < length (tp_cells t)") simp_all
  have 5: "list_all (neighbours_valid ?cells (tp_byAddress t)) ?cells"
    using topology_okD(8) [OF ok] neighbours_valid_geometry [OF below]
    by (simp add: list_all_iff)
  have 6: "tp_ownerBySlot t ! slot_of (tp_columns t) r k = Some i \<longleftrightarrow>
      i < length ?cells \<and> covers (?cells ! i) r k"
    if "1 \<le> r \<and> r \<le> tp_rows t \<and> 1 \<le> k \<and> k \<le> tp_columns t" for r k i
    unfolding cov using topology_okD(12) [OF ok] that by blast
  have u: "tp_cells (CellTopology_InvalidateGeometry t) = ?cells"
    "tp_byAddress (CellTopology_InvalidateGeometry t) = tp_byAddress t"
    "tp_ownerBySlot (CellTopology_InvalidateGeometry t) = tp_ownerBySlot t"
    "tp_rows (CellTopology_InvalidateGeometry t) = tp_rows t"
    "tp_columns (CellTopology_InvalidateGeometry t) = tp_columns t"
    by (simp_all add: CellTopology_InvalidateGeometry_def)
  show ?thesis
    unfolding topology_ok_def u
    by (intro conjI allI impI 1 2 3 4 5 6 topology_okD(7,9,10,11) [OF ok]) blast+
qed

text \<open>Whatever sequence of \<open>Build\<close>, \<open>Clear\<close> and \<open>InvalidateGeometry\<close> calls a
  topology object has been through, it is either empty, and then every lookup returns null, or
  it is a complete tiling of its grid with a correct index.\<close>

theorem topology_reachable_inv:
  assumes "topology_reachable t"
  shows "topology_ok t \<or>
    (CellTopology_Empty t \<and> (\<forall>raw. CellTopology_Find t raw = None) \<and>
     (\<forall>r k. CellTopology_OwnerAt t r k = None))"
proof -
  have "topology_ok t \<or> t = empty_topology"
    using assms
  proof induction
    case (build t cells)
    then show ?case
      using build_topology_ok by (auto simp: CellTopology_Build_def split: sum.splits)
  next
    case (clear t)
    show ?case
      by (simp add: CellTopology_Clear_def empty_topology_def)
  next
    case (invalidate t)
    then show ?case
      using InvalidateGeometry_ok
      by (auto simp: CellTopology_InvalidateGeometry_def empty_topology_def)
  qed simp
  then show ?thesis
    by (auto simp: empty_topology_def CellTopology_Empty_def CellTopology_Find_def
        CellTopology_OwnerAt_def)
qed

theorem topology_reachable_inv_witness:
  "topology_ok (CellTopology_InvalidateGeometry sample_topology)"
proof -
  have reach: "topology_reachable (CellTopology_InvalidateGeometry sample_topology)"
    unfolding sample_topology_def by (intro topology_reachable.intros)
  have "\<not> CellTopology_Empty (CellTopology_InvalidateGeometry sample_topology)"
    by code_simp
  with topology_reachable_inv [OF reach] show ?thesis
    by blast
qed

subsection \<open>The interface the planners use\<close>

text \<open>
  What the planners need of a topology: a list of cells with distinct addresses, a lookup by
  address, and an owner of every position of the grid that is the cell covering it.
\<close>

locale cell_grid =
  fixes ok :: "'t \<Rightarrow> bool"
    and cells :: "'t \<Rightarrow> CellTopologyCell list"
    and rows :: "'t \<Rightarrow> LONG"
    and columns :: "'t \<Rightarrow> LONG"
    and find_cell :: "'t \<Rightarrow> wstring \<Rightarrow> CellTopologyCell option"
    and owner :: "'t \<Rightarrow> LONG \<Rightarrow> LONG \<Rightarrow> CellTopologyCell option"
  assumes cells_distinct: "ok t \<Longrightarrow> distinct (map ct_address (cells t))"
    and cells_in_grid: "ok t \<Longrightarrow> c \<in> set (cells t) \<Longrightarrow> in_grid (rows t) (columns t) c"
    and find_exact: "ok t \<Longrightarrow>
      find_cell t raw = Some c \<longleftrightarrow> c \<in> set (cells t) \<and> ct_address c = Normalize raw"
    and owner_covers: "ok t \<Longrightarrow> c \<in> set (cells t) \<Longrightarrow> owner t r k = Some c \<longleftrightarrow> covers c r k"
    and owner_total: "ok t \<Longrightarrow> 1 \<le> r \<Longrightarrow> r \<le> rows t \<Longrightarrow> 1 \<le> k \<Longrightarrow> k \<le> columns t \<Longrightarrow>
      \<exists>c \<in> set (cells t). owner t r k = Some c"
begin

lemma one_cover:
  "ok t \<Longrightarrow> c \<in> set (cells t) \<Longrightarrow> d \<in> set (cells t) \<Longrightarrow> covers c r k \<Longrightarrow> covers d r k \<Longrightarrow> c = d"
  by (metis owner_covers option.inject)

lemma some_cover:
  "ok t \<Longrightarrow> 1 \<le> r \<Longrightarrow> r \<le> rows t \<Longrightarrow> 1 \<le> k \<Longrightarrow> k \<le> columns t \<Longrightarrow> \<exists>c \<in> set (cells t). covers c r k"
  using owner_total owner_covers by blast

end

interpretation grid: cell_grid topology_ok tp_cells tp_rows tp_columns CellTopology_Find
    CellTopology_OwnerAt
proof
  fix t r k assume ok: "topology_ok t" and rk: "1 \<le> r" "r \<le> tp_rows t" "1 \<le> k" "k \<le> tp_columns t"
  show "\<exists>c \<in> set (tp_cells t). CellTopology_OwnerAt t r k = Some c"
    by (rule topology_ok_owner [OF ok rk]) (use nth_mem in blast)
qed (simp_all only: topology_okD(1,2) Find_iff owner_iff)

end
