(* ===== verification/CellTopologyPlan.thy ===== *)
theory CellTopologyPlan
  imports CellTopology
begin

section \<open>Merge and selection planning on a cell topology (CellTopology.cpp)\<close>

text \<open>
  The planners of the class: the cells a rectangular merge covers, the breadth-first search
  for a right/down path to its last cell, and the two selection planners that reduce to it.
\<close>

subsection \<open>Planning a rectangular merge\<close>

text \<open>
  \<open>region\<close> is collected cell by cell; the first intersecting cell that is not contained ends
  the loop. \<open>allowed\<close> of the source is the set of the region's addresses. The two output
  vectors are returned on success only: what a failed call leaves in them is not modelled.
\<close>

definition merge_contained :: "CellTopologyCell \<Rightarrow> LONG \<Rightarrow> LONG \<Rightarrow> CellTopologyCell \<Rightarrow> bool" where
  "merge_contained start bottom right c \<longleftrightarrow>
     ct_row c \<ge> ct_row start \<and> ct_column c \<ge> ct_column start \<and>
     ct_row c + ct_rowSpan c - 1 \<le> bottom \<and> ct_column c + ct_columnSpan c - 1 \<le> right"

definition merge_intersects :: "CellTopologyCell \<Rightarrow> LONG \<Rightarrow> LONG \<Rightarrow> CellTopologyCell \<Rightarrow> bool" where
  "merge_intersects start bottom right c \<longleftrightarrow>
     ct_row c \<le> bottom \<and> ct_row start \<le> ct_row c + ct_rowSpan c - 1 \<and>
     ct_column c \<le> right \<and> ct_column start \<le> ct_column c + ct_columnSpan c - 1"

fun collect_region ::
  "CellTopologyCell \<Rightarrow> LONG \<Rightarrow> LONG \<Rightarrow> CellTopologyCell list \<Rightarrow> int \<Rightarrow> wstring list \<Rightarrow>
     TopologyError + int \<times> wstring list" where
  "collect_region start bottom right [] coveredSlots region = Inr (coveredSlots, region)"
| "collect_region start bottom right (c # cs) coveredSlots region =
     (if \<not> merge_intersects start bottom right c
      then collect_region start bottom right cs coveredSlots region
      else if \<not> merge_contained start bottom right c then Inl NotGapFreeRectangle
      else collect_region start bottom right cs
             (coveredSlots + ct_rowSpan c * ct_columnSpan c) (region @ [ct_address c]))"

type_synonym previous_map = "wstring \<rightharpoonup> wstring \<times> CellDirection"

definition relax_edge ::
  "wstring list \<Rightarrow> wstring \<Rightarrow> CellDirection \<Rightarrow> wstring \<Rightarrow> wstring list \<times> previous_map \<Rightarrow>
     wstring list \<times> previous_map" where
  "relax_edge allowed current direction destination queue_state =
     (case queue_state of (pending, previous) \<Rightarrow>
        if destination = [] \<or> destination \<notin> set allowed \<or> previous destination \<noteq> None
        then (pending, previous)
        else (pending @ [destination], previous(destination \<mapsto> (current, direction))))"

definition relax_cell ::
  "wstring list \<Rightarrow> wstring \<Rightarrow> CellTopologyCell \<Rightarrow> wstring list \<times> previous_map \<Rightarrow>
     wstring list \<times> previous_map" where
  "relax_cell allowed current c queue_state =
     relax_edge allowed current Down (ct_downAddress c)
       (relax_edge allowed current Right (ct_rightAddress c) queue_state)"

definition unvisited :: "wstring list \<Rightarrow> previous_map \<Rightarrow> nat" where
  "unvisited allowed previous = length (filter (\<lambda>a. previous a = None) allowed)"

lemma relax_edge_measure:
  "relax_edge allowed current d dest (pending, previous) = (pending', previous') \<Longrightarrow>
     (pending', previous') = (pending, previous) \<or>
     unvisited allowed previous' < unvisited allowed previous"
  unfolding relax_edge_def unvisited_def prod.case
  by (cases "previous dest") (auto split: if_splits intro!: filter_length_less)

lemma relax_cell_measure:
  assumes "relax_cell allowed current c (pending, previous) = (pending', previous')"
  shows "(pending', previous') = (pending, previous) \<or>
     unvisited allowed previous' < unvisited allowed previous"
proof -
  obtain p1 v1 where 1: "relax_edge allowed current Right (ct_rightAddress c) (pending, previous)
      = (p1, v1)" by fastforce
  with assms have 2: "relax_edge allowed current Down (ct_downAddress c) (p1, v1)
      = (pending', previous')" by (simp add: relax_cell_def)
  from relax_edge_measure [OF 1] relax_edge_measure [OF 2] show ?thesis
    by auto
qed

text \<open>The breadth-first search; it stops as soon as the last cell has a predecessor.\<close>

function search_path ::
  "CellTopology \<Rightarrow> wstring list \<Rightarrow> wstring \<Rightarrow> wstring list \<Rightarrow> previous_map \<Rightarrow>
     TopologyError + previous_map" where
  "search_path t allowed target [] previous = Inr previous"
| "search_path t allowed target (current # pending) previous =
     (if previous target \<noteq> None then Inr previous
      else case CellTopology_Find t current of
             None \<Rightarrow> Inl MissingPathCell
           | Some c \<Rightarrow>
               (case relax_cell allowed current c (pending, previous) of (pending', previous') \<Rightarrow>
                  search_path t allowed target pending' previous'))"
  by pat_completeness auto
termination
  by (relation "measures [\<lambda>(t, allowed, target, pending, previous). unvisited allowed previous,
                          \<lambda>(t, allowed, target, pending, previous). length pending]")
    (auto split: prod.splits dest!: relax_cell_measure)

text \<open>
  Walking the predecessors back. \<open>None\<close> is \<open>previous.at\<close> on a missing key, which throws;
  the fuel is the length of the region, which every walk of a search fits (see below).
\<close>

fun walk_back ::
  "nat \<Rightarrow> wstring \<Rightarrow> previous_map \<Rightarrow> wstring \<Rightarrow> CellTopologyStep list \<Rightarrow>
     CellTopologyStep list option" where
  "walk_back fuel start previous current path =
     (if current = start then Some path
      else case fuel of
             0 \<Rightarrow> None
           | Suc fuel' \<Rightarrow>
               (case previous current of
                  None \<Rightarrow> None
                | Some (parent, direction) \<Rightarrow>
                    walk_back fuel' start previous parent
                      (\<lparr>st_direction = direction, st_destination = current\<rparr> # path)))"

declare walk_back.simps [simp del]

definition CellTopology_PlanRectangularMerge ::
  "CellTopology \<Rightarrow> wstring \<Rightarrow> wstring \<Rightarrow>
     TopologyError + CellTopologyStep list \<times> wstring list" where
  "CellTopology_PlanRectangularMerge t first second =
     (case (CellTopology_Find t first, CellTopology_Find t second) of
        (Some start, Some final) \<Rightarrow>
          if ct_row final < ct_row start \<or> ct_column final < ct_column start
          then Inl EndpointsNotForward
          else
            let bottom = ct_row final + ct_rowSpan final - 1;
                right = ct_column final + ct_columnSpan final - 1
            in bindE (collect_region start bottom right (tp_cells t) 0 [])
                (\<lambda>(coveredSlots, region).
                  if coveredSlots \<noteq> (bottom - ct_row start + 1) * (right - ct_column start + 1) \<or>
                     length (remdups region) < 2
                  then Inl NotGapFreeRectangle
                  else bindE (search_path t region (ct_address final) [ct_address start]
                               [ct_address start \<mapsto> ([], Right)])
                    (\<lambda>previous.
                      if previous (ct_address final) = None then Inl NoNeighbourPath
                      else case walk_back (length region) (ct_address start) previous
                                  (ct_address final) [] of
                             None \<Rightarrow> Inl Unexpected
                           | Some path \<Rightarrow> Inr (path, region)))
      | _ \<Rightarrow> Inl EndpointsNotForward)"

subsection \<open>Planning a rectangular selection\<close>

fun find_endpoints ::
  "LONG \<Rightarrow> LONG \<Rightarrow> CellTopologyCell list \<Rightarrow> CellTopologyCell option \<Rightarrow> CellTopologyCell option \<Rightarrow>
     TopologyError + CellTopologyCell option \<times> CellTopologyCell option" where
  "find_endpoints firstListId secondListId [] first second = Inr (first, second)"
| "find_endpoints firstListId secondListId (c # cs) first second =
     (if ct_listId c = firstListId \<and> first \<noteq> None then Inl StartListAmbiguous
      else let first' = (if ct_listId c = firstListId then Some c else first)
           in if ct_listId c = secondListId \<and> second \<noteq> None then Inl EndListAmbiguous
              else find_endpoints firstListId secondListId cs first'
                     (if ct_listId c = secondListId then Some c else second))"

text \<open>The corner loops have no \<open>break\<close>: the last covering cell wins. A corner is an index,
  as the source compares the two corner pointers.\<close>

definition corner_cell :: "CellTopologyCell list \<Rightarrow> LONG \<Rightarrow> LONG \<Rightarrow> nat option" where
  "corner_cell cells r k =
     fold (\<lambda>i found. if covers (cells ! i) r k then Some i else found) [0..<length cells] None"

definition CellTopology_PlanRectangularSelection ::
  "CellTopology \<Rightarrow> LONG \<Rightarrow> LONG \<Rightarrow>
     TopologyError + wstring \<times> wstring \<times> CellTopologyStep list \<times> wstring list" where
  "CellTopology_PlanRectangularSelection t firstListId secondListId =
     bindE (find_endpoints firstListId secondListId (tp_cells t) None None)
       (\<lambda>endpoints. case endpoints of
          (Some first, Some second) \<Rightarrow>
            (let topRow = min (ct_row first) (ct_row second);
                 leftColumn = min (ct_column first) (ct_column second);
                 bottomRow = max (ct_row first + ct_rowSpan first - 1)
                              (ct_row second + ct_rowSpan second - 1);
                 rightColumn = max (ct_column first + ct_columnSpan first - 1)
                             (ct_column second + ct_columnSpan second - 1)
             in case (corner_cell (tp_cells t) topRow leftColumn, corner_cell (tp_cells t) bottomRow rightColumn) of
                  (Some u, Some l) \<Rightarrow>
                    (let upperLeft = ct_address (tp_cells t ! u);
                         lowerRight = ct_address (tp_cells t ! l)
                     in if u = l then Inr (upperLeft, lowerRight, [], [upperLeft])
                        else bindE (CellTopology_PlanRectangularMerge t upperLeft lowerRight)
                               (\<lambda>(path, region). Inr (upperLeft, lowerRight, path, region)))
                | _ \<Rightarrow> Inl CornersNotCovered)
        | _ \<Rightarrow> Inl EndpointsNotCells)"

fun selection_box ::
  "CellTopology \<Rightarrow> wstring list \<Rightarrow> LONG \<Rightarrow> LONG \<Rightarrow> LONG \<Rightarrow> LONG \<Rightarrow>
     TopologyError + LONG \<times> LONG \<times> LONG \<times> LONG" where
  "selection_box t [] topRow leftColumn bottomRow rightColumn = Inr (topRow, leftColumn, bottomRow, rightColumn)"
| "selection_box t (a # as) topRow leftColumn bottomRow rightColumn =
     (case CellTopology_Find t a of
        None \<Rightarrow> Inl AddressNotCell
      | Some c \<Rightarrow>
          selection_box t as (min topRow (ct_row c)) (min leftColumn (ct_column c))
            (max bottomRow (ct_row c + ct_rowSpan c - 1))
            (max rightColumn (ct_column c + ct_columnSpan c - 1)))"

definition CellTopology_PlanAddressSelection ::
  "CellTopology \<Rightarrow> wstring list \<Rightarrow>
     TopologyError + wstring \<times> wstring \<times> CellTopologyStep list \<times> wstring list" where
  "CellTopology_PlanAddressSelection t selectedAddresses =
     (if selectedAddresses = [] then Inl NoSelectedAddresses
      else bindE (selection_box t selectedAddresses LONG_MAX LONG_MAX 0 0)
        (\<lambda>(topRow, leftColumn, bottomRow, rightColumn).
           case (corner_cell (tp_cells t) topRow leftColumn, corner_cell (tp_cells t) bottomRow rightColumn) of
             (Some u, Some l) \<Rightarrow>
               CellTopology_PlanRectangularSelection t
                 (ct_listId (tp_cells t ! u)) (ct_listId (tp_cells t ! l))
           | _ \<Rightarrow> Inl CornersUnavailable))"

subsection \<open>The box of a merge\<close>

text \<open>The positions of a rectangle, and the cells of a table whose addresses form its region.\<close>

definition in_box :: "LONG \<Rightarrow> LONG \<Rightarrow> LONG \<Rightarrow> LONG \<Rightarrow> LONG \<Rightarrow> LONG \<Rightarrow> bool" where
  "in_box r0 k0 r1 k1 r k \<longleftrightarrow> r0 \<le> r \<and> r \<le> r1 \<and> k0 \<le> k \<and> k \<le> k1"

lemma merge_intersects_iff:
  assumes "1 \<le> ct_rowSpan c" "1 \<le> ct_columnSpan c" "ct_row start \<le> bottom" "ct_column start \<le> right"
  shows "merge_intersects start bottom right c \<longleftrightarrow>
    (\<exists>r k. covers c r k \<and> in_box (ct_row start) (ct_column start) bottom right r k)"
proof
  assume "merge_intersects start bottom right c"
  then have "covers c (max (ct_row c) (ct_row start)) (max (ct_column c) (ct_column start)) \<and>
      in_box (ct_row start) (ct_column start) bottom right
        (max (ct_row c) (ct_row start)) (max (ct_column c) (ct_column start))"
    using assms by (auto simp: merge_intersects_def covers_def in_box_def)
  then show "\<exists>r k. covers c r k \<and> in_box (ct_row start) (ct_column start) bottom right r k"
    by blast
qed (auto simp: merge_intersects_def covers_def in_box_def)

lemma merge_contained_covers:
  "merge_contained start bottom right c \<Longrightarrow> covers c r k \<Longrightarrow>
     in_box (ct_row start) (ct_column start) bottom right r k"
  by (auto simp: merge_contained_def covers_def in_box_def)

lemma collect_region_spec:
  "collect_region start bottom right cs n as =
    (if \<exists>c \<in> set cs. merge_intersects start bottom right c \<and> \<not> merge_contained start bottom right c
     then Inl NotGapFreeRectangle
     else Inr (n + (\<Sum>c \<leftarrow> filter (merge_intersects start bottom right) cs. ct_rowSpan c * ct_columnSpan c),
               as @ map ct_address (filter (merge_intersects start bottom right) cs)))"
  by (induction cs arbitrary: n as) (auto simp: add.assoc)

text \<open>The area of a cell is the number of positions it covers.\<close>

lemma covers_area:
  assumes "1 \<le> ct_rowSpan c" "1 \<le> ct_columnSpan c"
  shows "int (card {p. covers c (fst p) (snd p)}) = ct_rowSpan c * ct_columnSpan c"
    and "finite {p. covers c (fst p) (snd p)}"
proof -
  have eq: "{p. covers c (fst p) (snd p)} =
      {ct_row c ..< ct_row c + ct_rowSpan c} \<times> {ct_column c ..< ct_column c + ct_columnSpan c}"
    by (auto simp: covers_def)
  show "int (card {p. covers c (fst p) (snd p)}) = ct_rowSpan c * ct_columnSpan c"
    unfolding eq using assms by (simp add: card_cartesian_product)
  show "finite {p. covers c (fst p) (snd p)}"
    unfolding eq by simp
qed

lemma box_area:
  assumes "r0 \<le> r1" "k0 \<le> k1"
  shows "int (card {p. in_box r0 k0 r1 k1 (fst p) (snd p)}) = (r1 - r0 + 1) * (k1 - k0 + 1)"
proof -
  have "{p. in_box r0 k0 r1 k1 (fst p) (snd p)} = {r0 .. r1} \<times> {k0 .. k1}"
    by (auto simp: in_box_def)
  then show ?thesis
    using assms by (simp add: card_cartesian_product)
qed

context cell_grid
begin

text \<open>
  When every cell that meets a rectangle of the grid lies inside it, those cells tile it: the
  count of the source can then never miss.
\<close>

lemma region_covers:
  assumes "ok t" and box: "1 \<le> ct_row start" "1 \<le> ct_column start" "ct_row start \<le> bottom"
      "ct_column start \<le> right" "bottom \<le> rows t" "right \<le> columns t"
    and contained: "\<forall>c \<in> set (cells t). merge_intersects start bottom right c \<longrightarrow>
      merge_contained start bottom right c"
  shows "in_box (ct_row start) (ct_column start) bottom right r k \<longleftrightarrow>
    (\<exists>c \<in> set (filter (merge_intersects start bottom right) (cells t)). covers c r k)"
proof
  assume in_b: "in_box (ct_row start) (ct_column start) bottom right r k"
  then obtain c where c: "c \<in> set (cells t)" "covers c r k"
    using some_cover [OF assms(1), of r k] box by (auto simp: in_box_def)
  then have "merge_intersects start bottom right c"
    using merge_intersects_iff cells_in_grid [OF assms(1) c(1)] in_b box by (metis in_grid_def)
  with c show "\<exists>c \<in> set (filter (merge_intersects start bottom right) (cells t)). covers c r k"
    by auto
next
  assume "\<exists>c \<in> set (filter (merge_intersects start bottom right) (cells t)). covers c r k"
  then show "in_box (ct_row start) (ct_column start) bottom right r k"
    using contained merge_contained_covers by auto
qed

lemma region_area:
  assumes "ok t" and box: "1 \<le> ct_row start" "1 \<le> ct_column start" "ct_row start \<le> bottom"
      "ct_column start \<le> right" "bottom \<le> rows t" "right \<le> columns t"
    and contained: "\<forall>c \<in> set (cells t). merge_intersects start bottom right c \<longrightarrow>
      merge_contained start bottom right c"
  shows "(\<Sum>c \<leftarrow> filter (merge_intersects start bottom right) (cells t). ct_rowSpan c * ct_columnSpan c) =
    (bottom - ct_row start + 1) * (right - ct_column start + 1)"
proof -
  let ?cs = "filter (merge_intersects start bottom right) (cells t)"
  let ?pos = "\<lambda>c. {p. covers c (fst p) (snd p)}"
  have dist: "distinct ?cs"
    using cells_distinct [OF assms(1)] by (simp add: distinct_map)
  have grid: "1 \<le> ct_rowSpan c \<and> 1 \<le> ct_columnSpan c" if "c \<in> set ?cs" for c
    using cells_in_grid [OF assms(1), of c] that by (simp add: in_grid_def)
  have "(\<Sum>c \<leftarrow> ?cs. ct_rowSpan c * ct_columnSpan c) = (\<Sum>c \<in> set ?cs. ct_rowSpan c * ct_columnSpan c)"
    using dist by (rule sum_list_distinct_conv_sum_set)
  also have "\<dots> = (\<Sum>c \<in> set ?cs. int (card (?pos c)))"
    using grid covers_area(1) by (intro sum.cong) auto
  also have "\<dots> = int (\<Sum>c \<in> set ?cs. card (?pos c))"
    by simp
  also have "(\<Sum>c \<in> set ?cs. card (?pos c)) = card (\<Union>c \<in> set ?cs. ?pos c)"
  proof (rule card_UN_disjoint [symmetric])
    show "\<forall>c \<in> set ?cs. finite (?pos c)"
      using grid covers_area(2) by blast
    show "\<forall>c \<in> set ?cs. \<forall>d \<in> set ?cs. c \<noteq> d \<longrightarrow> ?pos c \<inter> ?pos d = {}"
      using one_cover [OF assms(1)] by auto
  qed simp
  also have "(\<Union>c \<in> set ?cs. ?pos c) =
      {p. in_box (ct_row start) (ct_column start) bottom right (fst p) (snd p)}"
    using region_covers [OF assms] by blast
  finally show ?thesis
    using box_area box(3,4) by simp
qed

end

subsection \<open>The path search\<close>

text \<open>A move of the planner, and a chain of moves inside the region.\<close>

definition plan_edge ::
  "CellTopology \<Rightarrow> wstring list \<Rightarrow> wstring \<Rightarrow> CellDirection \<Rightarrow> wstring \<Rightarrow> bool" where
  "plan_edge t allowed a d b \<longleftrightarrow>
     (case CellTopology_Find t a of
        None \<Rightarrow> False
      | Some c \<Rightarrow> b = (case d of Right \<Rightarrow> ct_rightAddress c | Down \<Rightarrow> ct_downAddress c) \<and>
          b \<noteq> [] \<and> b \<in> set allowed)"

fun neighbour_chain ::
  "CellTopology \<Rightarrow> wstring list \<Rightarrow> wstring \<Rightarrow> CellTopologyStep list \<Rightarrow> wstring \<Rightarrow> bool" where
  "neighbour_chain t allowed a [] z \<longleftrightarrow> a = z"
| "neighbour_chain t allowed a (s # path) z \<longleftrightarrow>
     plan_edge t allowed a (st_direction s) (st_destination s) \<and>
     neighbour_chain t allowed (st_destination s) path z"

lemma neighbour_chain_append:
  "neighbour_chain t allowed a (p @ q) z \<longleftrightarrow>
     (\<exists>b. neighbour_chain t allowed a p b \<and> neighbour_chain t allowed b q z)"
  by (induction p arbitrary: a) auto

text \<open>The walk back from a visited address to the start, as a relation.\<close>

inductive walks_back ::
  "previous_map \<Rightarrow> wstring \<Rightarrow> wstring \<Rightarrow> CellTopologyStep list \<Rightarrow> bool"
  for previous start where
  here: "walks_back previous start start []"
| step: "previous b = Some (p, d) \<Longrightarrow> b \<noteq> start \<Longrightarrow> walks_back previous start p path \<Longrightarrow>
    walks_back previous start b (path @ [\<lparr>st_direction = d, st_destination = b\<rparr>])"

lemma walk_back_complete:
  assumes "walks_back previous start b path" "length path \<le> fuel"
  shows "walk_back fuel start previous b acc = Some (path @ acc)"
  using assms
proof (induction arbitrary: fuel acc)
  case here
  then show ?case
    by (subst walk_back.simps) simp
next
  case (step b p d path)
  then obtain fuel' where "fuel = Suc fuel'" "length path \<le> fuel'"
    by (cases fuel) auto
  with step show ?case
    by (subst walk_back.simps) simp
qed

lemma walks_back_mono:
  assumes "walks_back previous start b path" "previous \<subseteq>\<^sub>m previous'"
  shows "walks_back previous' start b path"
  using assms
proof (induction)
  case (step b p d path)
  then have "previous' b = Some (p, d)"
    by (metis domI map_le_def)
  with step show ?case
    by (intro walks_back.step) auto
qed (rule walks_back.here)

text \<open>
  What the search keeps: every visited address lies in the region, came over an edge from a
  visited one, and walks back to the start in fewer steps than there are visited addresses.
\<close>

definition search_inv ::
  "CellTopology \<Rightarrow> wstring list \<Rightarrow> wstring \<Rightarrow> previous_map \<Rightarrow> bool" where
  "search_inv t allowed start previous \<longleftrightarrow>
     start \<in> dom previous \<and> dom previous \<subseteq> set allowed \<and>
     (\<forall>b \<in> dom previous. \<exists>path. walks_back previous start b path \<and> length path < card (dom previous)) \<and>
     (\<forall>b p d. previous b = Some (p, d) \<longrightarrow> b \<noteq> start \<longrightarrow> plan_edge t allowed p d b)"

lemma search_inv_start:
  "start \<in> set allowed \<Longrightarrow> search_inv t allowed start [start \<mapsto> ([], Right)]"
  by (auto simp: search_inv_def intro: walks_back.here exI [of _ "[]"])

lemma relax_edge_inv:
  assumes inv: "search_inv t allowed start previous" and current: "current \<in> dom previous"
    and edge: "dest \<noteq> [] \<Longrightarrow> dest \<in> set allowed \<Longrightarrow> plan_edge t allowed current d dest"
    and relax: "relax_edge allowed current d dest (pending, previous) = (pending', previous')"
  shows "search_inv t allowed start previous' \<and> previous \<subseteq>\<^sub>m previous' \<and>
    set pending' = set pending \<union> (dom previous' - dom previous) \<and>
    (dest \<noteq> [] \<and> dest \<in> set allowed \<longrightarrow> dest \<in> dom previous')"
proof (cases "dest = [] \<or> dest \<notin> set allowed \<or> previous dest \<noteq> None")
  case True
  with relax inv show ?thesis
    by (auto simp: relax_edge_def)
next
  case False
  then have new: "previous' = previous(dest \<mapsto> (current, d))" "pending' = pending @ [dest]"
    and fresh: "dest \<notin> dom previous"
    using relax by (auto simp: relax_edge_def)
  have le: "previous \<subseteq>\<^sub>m previous'"
    using fresh by (auto simp: new map_le_def)
  have fin: "finite (dom previous)"
    using inv finite_subset unfolding search_inv_def by blast
  have card: "card (dom previous') = Suc (card (dom previous))"
    using fresh fin by (simp add: new)
  have dest_start: "dest \<noteq> start"
    using inv fresh by (auto simp: search_inv_def)
  have walk: "\<exists>path. walks_back previous' start b path \<and> length path < card (dom previous')"
    if b: "b \<in> dom previous'" for b
  proof (cases "b = dest")
    case True
    obtain path where "walks_back previous start current path" "length path < card (dom previous)"
      using inv current unfolding search_inv_def by blast
    then have "walks_back previous' start dest (path @ [\<lparr>st_direction = d, st_destination = dest\<rparr>])"
      using walks_back_mono [OF _ le] dest_start by (intro walks_back.step) (simp_all add: new)
    with \<open>length path < card (dom previous)\<close> card True show ?thesis
      by fastforce
  next
    case False
    with b have "b \<in> dom previous"
      by (simp add: new)
    then obtain path where "walks_back previous start b path" "length path < card (dom previous)"
      using inv unfolding search_inv_def by blast
    with walks_back_mono [OF _ le] card show ?thesis
      by (metis less_Suc_eq)
  qed
  have edges: "plan_edge t allowed p e b" if "previous' b = Some (p, e)" "b \<noteq> start" for b p e
    using that inv edge False unfolding search_inv_def new by (auto split: if_splits)
  have "search_inv t allowed start previous'"
    unfolding search_inv_def
  proof (intro conjI ballI allI impI walk edges)
    show "start \<in> dom previous'" "dom previous' \<subseteq> set allowed"
      using inv False by (auto simp: search_inv_def new)
  qed
  with le fresh show ?thesis
    by (auto simp: new)
qed

lemma relax_cell_inv:
  assumes inv: "search_inv t allowed start previous" and current: "current \<in> dom previous"
    and found: "CellTopology_Find t current = Some c"
    and relax: "relax_cell allowed current c (pending, previous) = (pending', previous')"
  shows "search_inv t allowed start previous' \<and> dom previous \<subseteq> dom previous' \<and>
    set pending' = set pending \<union> (dom previous' - dom previous) \<and>
    (\<forall>d b. plan_edge t allowed current d b \<longrightarrow> b \<in> dom previous')"
proof -
  obtain p1 v1 where 1: "relax_edge allowed current Right (ct_rightAddress c) (pending, previous)
      = (p1, v1)" by fastforce
  with relax have 2: "relax_edge allowed current Down (ct_downAddress c) (p1, v1)
      = (pending', previous')" by (simp add: relax_cell_def)
  have A: "search_inv t allowed start v1 \<and> previous \<subseteq>\<^sub>m v1 \<and>
      set p1 = set pending \<union> (dom v1 - dom previous) \<and>
      (ct_rightAddress c \<noteq> [] \<and> ct_rightAddress c \<in> set allowed \<longrightarrow> ct_rightAddress c \<in> dom v1)"
    by (rule relax_edge_inv [OF inv current _ 1]) (simp add: plan_edge_def found)
  then have inv1: "search_inv t allowed start v1" and le1: "dom previous \<subseteq> dom v1"
    by (simp_all add: map_le_implies_dom_le)
  have B: "search_inv t allowed start previous' \<and> v1 \<subseteq>\<^sub>m previous' \<and>
      set pending' = set p1 \<union> (dom previous' - dom v1) \<and>
      (ct_downAddress c \<noteq> [] \<and> ct_downAddress c \<in> set allowed \<longrightarrow> ct_downAddress c \<in> dom previous')"
    by (rule relax_edge_inv [OF inv1 subsetD [OF le1 current] _ 2]) (simp add: plan_edge_def found)
  then have le2: "dom v1 \<subseteq> dom previous'"
    by (simp add: map_le_implies_dom_le)
  have "b \<in> dom previous'" if "plan_edge t allowed current d b" for d b
    using that A B le2 found by (cases d) (auto simp: plan_edge_def)
  with A B le1 le2 show ?thesis
    by blast
qed

text \<open>
  The search always ends normally; when it ends without the target, the visited addresses are
  closed under moves.
\<close>

lemma search_path_spec:
  assumes "search_inv t allowed start previous" "set pending \<subseteq> dom previous"
    and "\<forall>a \<in> dom previous - set pending. \<forall>d b. plan_edge t allowed a d b \<longrightarrow> b \<in> dom previous"
    and "\<forall>a \<in> set allowed. CellTopology_Find t a \<noteq> None"
  shows "\<exists>previous'. search_path t allowed target pending previous = Inr previous' \<and>
    search_inv t allowed start previous' \<and>
    (previous' target = None \<longrightarrow>
       (\<forall>a \<in> dom previous'. \<forall>d b. plan_edge t allowed a d b \<longrightarrow> b \<in> dom previous'))"
  using assms
proof (induction t allowed target pending previous rule: search_path.induct)
  case (1 t allowed target previous)
  then show ?case by simp
next
  case (2 t allowed target current pending previous)
  show ?case
  proof (cases "previous target")
    case (Some pd)
    with 2(2) show ?thesis by simp
  next
    case None
    have current: "current \<in> dom previous"
      using 2(3) by simp
    then have "current \<in> set allowed"
      using 2(2) by (auto simp: search_inv_def)
    then obtain c where c: "CellTopology_Find t current = Some c"
      using 2(5) by blast
    obtain pending' previous' where
      r: "relax_cell allowed current c (pending, previous) = (pending', previous')"
      by fastforce
    have R: "search_inv t allowed start previous'" "dom previous \<subseteq> dom previous'"
      "set pending' = set pending \<union> (dom previous' - dom previous)"
      "\<And>d b. plan_edge t allowed current d b \<Longrightarrow> b \<in> dom previous'"
      using relax_cell_inv [OF 2(2) current c r] by blast+
    have sub: "set pending' \<subseteq> dom previous'"
      using R(2,3) 2(3) unfolding list.set by blast
    have closed: "\<forall>a \<in> dom previous' - set pending'. \<forall>d b.
        plan_edge t allowed a d b \<longrightarrow> b \<in> dom previous'"
    proof (intro ballI allI impI)
      fix a d b assume a: "a \<in> dom previous' - set pending'" and e: "plan_edge t allowed a d b"
      show "b \<in> dom previous'"
      proof (cases "a = current")
        case True
        with e R(4) show ?thesis by blast
      next
        case False
        with a R(3) have "a \<in> dom previous - set (current # pending)"
          by auto
        with e 2(4) R(2) show ?thesis by blast
      qed
    qed
    have step: "search_path t allowed target (current # pending) previous =
        search_path t allowed target pending' previous'"
      using None c r by simp
    show ?thesis
      unfolding step
      by (rule 2(1) [OF _ c r [symmetric] R(1) sub closed 2(5)]) (simp add: None)
  qed
qed

lemma walks_back_chain:
  assumes inv: "search_inv t allowed start previous" and walk: "walks_back previous start b path"
  shows "neighbour_chain t allowed start path b"
  using walk
proof induction
  case (step b p d path)
  then have "plan_edge t allowed p d b"
    using inv unfolding search_inv_def by blast
  with step show ?case
    by (auto simp: neighbour_chain_append)
qed simp

lemma chain_visited:
  assumes "neighbour_chain t allowed a path z" "a \<in> visited"
    and "\<forall>a \<in> visited. \<forall>d b. plan_edge t allowed a d b \<longrightarrow> b \<in> visited"
  shows "z \<in> visited"
  using assms by (induction path arbitrary: a) auto

text \<open>The search and the walk back together.\<close>

lemma search_outcome:
  assumes start: "start \<in> set allowed" and dist: "distinct allowed"
    and found: "\<forall>a \<in> set allowed. CellTopology_Find t a \<noteq> None"
  obtains (path) previous path where
      "search_path t allowed target [start] [start \<mapsto> ([], Right)] = Inr previous"
      "previous target \<noteq> None" "walk_back (length allowed) start previous target [] = Some path"
      "neighbour_chain t allowed start path target"
    | (no_path) previous where
      "search_path t allowed target [start] [start \<mapsto> ([], Right)] = Inr previous"
      "previous target = None" "\<forall>path. \<not> neighbour_chain t allowed start path target"
proof -
  obtain previous where
    res: "search_path t allowed target [start] [start \<mapsto> ([], Right)] = Inr previous"
    and inv: "search_inv t allowed start previous"
    and closed: "previous target = None \<longrightarrow>
       (\<forall>a \<in> dom previous. \<forall>d b. plan_edge t allowed a d b \<longrightarrow> b \<in> dom previous)"
    using search_path_spec [OF search_inv_start [OF start] _ _ found, of "[start]" target] by auto
  show thesis
  proof (cases "previous target")
    case None
    have start_in: "start \<in> dom previous"
      using inv unfolding search_inv_def by blast
    have "\<not> neighbour_chain t allowed start path target" for path
      using chain_visited [OF _ start_in mp [OF closed None]] None by (metis domIff)
    then show thesis
      using no_path [OF res None] by blast
  next
    case (Some pd)
    then obtain path where walk: "walks_back previous start target path"
      and short: "length path < card (dom previous)"
      using inv unfolding search_inv_def by blast
    have "card (dom previous) \<le> card (set allowed)"
      using inv by (intro card_mono) (simp_all add: search_inv_def)
    then have "length path \<le> length allowed"
      using short distinct_card [OF dist] by simp
    from walk_back_complete [OF walk this, of "[]"]
    have walked: "walk_back (length allowed) start previous target [] = Some path"
      by (simp only: append_Nil2)
    from Some have "previous target \<noteq> None"
      by (simp only: option.distinct(2) not_False_eq_True)
    from path [OF res this walked walks_back_chain [OF inv walk]] show thesis .
  qed
qed

subsection \<open>What the merge planner answers\<close>

text \<open>The addresses of the cells that meet the rectangle from \<open>start\<close> to the end of \<open>final\<close>.\<close>

definition merge_region :: "CellTopology \<Rightarrow> CellTopologyCell \<Rightarrow> CellTopologyCell \<Rightarrow> wstring list" where
  "merge_region t start final =
     map ct_address (filter (merge_intersects start (bottom_of final) (right_of final)) (tp_cells t))"

definition merge_clean :: "CellTopology \<Rightarrow> CellTopologyCell \<Rightarrow> CellTopologyCell \<Rightarrow> bool" where
  "merge_clean t start final \<longleftrightarrow>
     (\<forall>c \<in> set (tp_cells t). merge_intersects start (bottom_of final) (right_of final) c \<longrightarrow>
        merge_contained start (bottom_of final) (right_of final) c)"

lemma merge_region_address:
  assumes ok: "topology_ok t" and c: "c \<in> set (tp_cells t)"
  shows "ct_address c \<in> set (merge_region t start final) \<longleftrightarrow>
    merge_intersects start (bottom_of final) (right_of final) c"
  using c address_inj [OF ok c] by (auto simp: merge_region_def)

lemma region_owner:
  assumes ok: "topology_ok t"
  shows "CellTopology_OwnerAt t r k = Some c \<and> ct_address c \<in> set (merge_region t start final) \<longleftrightarrow>
    c \<in> set (tp_cells t) \<and> merge_intersects start (bottom_of final) (right_of final) c \<and> covers c r k"
  using merge_region_address [OF ok] owner_mem(1) [OF ok] owner_iff [OF ok] by metis

lemma merge_region_ends:
  assumes "in_grid rows columns start" "in_grid rows columns final"
    and "ct_row start \<le> ct_row final" "ct_column start \<le> ct_column final"
  shows "merge_intersects start (bottom_of final) (right_of final) start"
    and "merge_intersects start (bottom_of final) (right_of final) final"
  using assms by (auto simp: merge_intersects_def in_grid_def bottom_of_def right_of_def)

lemma merge_plan_cases:
  assumes ok: "topology_ok t" and found: "CellTopology_Find t first = Some start"
      "CellTopology_Find t second = Some final"
    and forward: "ct_row start \<le> ct_row final" "ct_column start \<le> ct_column final"
    and clean: "merge_clean t start final" and two: "2 \<le> length (merge_region t start final)"
  obtains (path) path where
      "CellTopology_PlanRectangularMerge t first second = Inr (path, merge_region t start final)"
      "neighbour_chain t (merge_region t start final) (ct_address start) path (ct_address final)"
    | (no_path) "CellTopology_PlanRectangularMerge t first second = Inl NoNeighbourPath"
      "\<forall>path. \<not> neighbour_chain t (merge_region t start final) (ct_address start) path (ct_address final)"
proof -
  let ?region = "merge_region t start final"
  have cells: "start \<in> set (tp_cells t)" "final \<in> set (tp_cells t)"
    using found Find_iff [OF ok] by blast+
  then have gs: "in_grid (tp_rows t) (tp_columns t) start" and gf: "in_grid (tp_rows t) (tp_columns t) final"
    using topology_okD(2) [OF ok] by blast+
  have box: "1 \<le> ct_row start" "1 \<le> ct_column start" "ct_row start \<le> bottom_of final"
      "ct_column start \<le> right_of final" "bottom_of final \<le> tp_rows t" "right_of final \<le> tp_columns t"
    using gs gf forward by (auto simp: in_grid_def bottom_of_def right_of_def)
  have area: "(\<Sum>c \<leftarrow> filter (merge_intersects start (bottom_of final) (right_of final)) (tp_cells t).
        ct_rowSpan c * ct_columnSpan c) =
      (bottom_of final - ct_row start + 1) * (right_of final - ct_column start + 1)"
    using clean by (intro grid.region_area [OF ok box]) (simp add: merge_clean_def)
  have collect: "collect_region start (bottom_of final) (right_of final) (tp_cells t) 0 [] =
      Inr ((bottom_of final - ct_row start + 1) * (right_of final - ct_column start + 1), ?region)"
    using clean unfolding collect_region_spec area merge_clean_def by (auto simp: merge_region_def)
  have dist: "distinct ?region"
    using topology_okD(1) [OF ok] unfolding merge_region_def by (rule distinct_map_filter)
  have start_in: "ct_address start \<in> set ?region"
    using merge_region_address [OF ok cells(1)] merge_region_ends(1) [OF gs gf forward] by simp
  have all_found: "\<forall>a \<in> set ?region. CellTopology_Find t a \<noteq> None"
  proof
    fix a assume "a \<in> set ?region"
    then obtain c where "c \<in> set (tp_cells t)" "ct_address c = a"
      by (auto simp: merge_region_def)
    then have "CellTopology_Find t a = Some c"
      using Find_iff [OF ok] topology_okD(3) [OF ok] by metis
    then show "CellTopology_Find t a \<noteq> None"
      by simp
  qed
  have plan: "CellTopology_PlanRectangularMerge t first second =
      bindE (search_path t ?region (ct_address final) [ct_address start]
               [ct_address start \<mapsto> ([], Right)])
        (\<lambda>previous.
          if previous (ct_address final) = None then Inl NoNeighbourPath
          else case walk_back (length ?region) (ct_address start) previous (ct_address final) [] of
                 None \<Rightarrow> Inl Unexpected
               | Some path \<Rightarrow> Inr (path, ?region))"
    using forward two collect
    unfolding CellTopology_PlanRectangularMerge_def found prod.case option.case Let_def
      bottom_of_def [symmetric] right_of_def [symmetric] distinct_remdups_id [OF dist]
    by (simp add: distinct_remdups_id [OF dist])
  show thesis
    by (rule search_outcome [OF start_in dist all_found, of "ct_address final"])
      (use plan path no_path in \<open>simp_all add: bindE_def\<close>)
qed

lemma merge_plan_None:
  assumes "CellTopology_Find t first = None \<or> CellTopology_Find t second = None"
  shows "CellTopology_PlanRectangularMerge t first second = Inl EndpointsNotForward"
  using assms
  by (cases "CellTopology_Find t first")
    (auto simp: CellTopology_PlanRectangularMerge_def split: option.splits)

lemma merge_plan_backward:
  assumes "CellTopology_Find t first = Some start" "CellTopology_Find t second = Some final"
    and "\<not> (ct_row start \<le> ct_row final \<and> ct_column start \<le> ct_column final)"
  shows "CellTopology_PlanRectangularMerge t first second = Inl EndpointsNotForward"
  using assms by (auto simp: CellTopology_PlanRectangularMerge_def)

lemma merge_plan_unclean:
  assumes ok: "topology_ok t" and found: "CellTopology_Find t first = Some start"
      "CellTopology_Find t second = Some final"
    and "ct_row start \<le> ct_row final" "ct_column start \<le> ct_column final"
    and bad: "\<not> merge_clean t start final \<or> length (merge_region t start final) < 2"
  shows "CellTopology_PlanRectangularMerge t first second = Inl NotGapFreeRectangle"
proof -
  have dist: "distinct (merge_region t start final)"
    using topology_okD(1) [OF ok] unfolding merge_region_def by (rule distinct_map_filter)
  show ?thesis
    using assms(4,5) bad
    unfolding CellTopology_PlanRectangularMerge_def found prod.case option.case Let_def
      bottom_of_def [symmetric] right_of_def [symmetric] collect_region_spec
    by (auto simp: merge_clean_def merge_region_def [symmetric] distinct_remdups_id [OF dist])
qed

lemma merge_plan_sound:
  assumes ok: "topology_ok t"
    and plan: "CellTopology_PlanRectangularMerge t first second = Inr (path, region)"
  shows "\<exists>start final.
    CellTopology_Find t first = Some start \<and> CellTopology_Find t second = Some final \<and>
    region = merge_region t start final \<and> distinct region \<and> 2 \<le> length region \<and>
    (\<forall>r k. in_box (ct_row start) (ct_column start) (bottom_of final) (right_of final) r k \<longleftrightarrow>
       (\<exists>c. CellTopology_OwnerAt t r k = Some c \<and> ct_address c \<in> set region)) \<and>
    neighbour_chain t region (ct_address start) path (ct_address final)"
proof -
  obtain start final where found: "CellTopology_Find t first = Some start"
      "CellTopology_Find t second = Some final"
    using merge_plan_None plan by fastforce
  have forward: "ct_row start \<le> ct_row final" "ct_column start \<le> ct_column final"
    using merge_plan_backward [OF found] plan by fastforce+
  have clean: "merge_clean t start final" and two: "2 \<le> length (merge_region t start final)"
    using merge_plan_unclean [OF ok found forward] plan by fastforce+
  have region: "region = merge_region t start final"
    and chain: "neighbour_chain t region (ct_address start) path (ct_address final)"
    using plan by (auto intro: merge_plan_cases [OF ok found forward clean two])
  have dist: "distinct region"
    using topology_okD(1) [OF ok] unfolding region merge_region_def by (rule distinct_map_filter)
  have cells: "start \<in> set (tp_cells t)" "final \<in> set (tp_cells t)"
    using found Find_iff [OF ok] by blast+
  then have "in_grid (tp_rows t) (tp_columns t) start" "in_grid (tp_rows t) (tp_columns t) final"
    using topology_okD(2) [OF ok] by blast+
  then have box: "1 \<le> ct_row start" "1 \<le> ct_column start" "ct_row start \<le> bottom_of final"
      "ct_column start \<le> right_of final" "bottom_of final \<le> tp_rows t" "right_of final \<le> tp_columns t"
    using forward by (auto simp: in_grid_def bottom_of_def right_of_def)
  have "in_box (ct_row start) (ct_column start) (bottom_of final) (right_of final) r k \<longleftrightarrow>
      (\<exists>c. CellTopology_OwnerAt t r k = Some c \<and> ct_address c \<in> set region)" for r k
  proof -
    have "in_box (ct_row start) (ct_column start) (bottom_of final) (right_of final) r k \<longleftrightarrow>
        (\<exists>c \<in> set (filter (merge_intersects start (bottom_of final) (right_of final)) (tp_cells t)).
           covers c r k)"
      using clean by (intro grid.region_covers [OF ok box]) (simp add: merge_clean_def)
    also have "\<dots> \<longleftrightarrow> (\<exists>c. CellTopology_OwnerAt t r k = Some c \<and> ct_address c \<in> set region)"
      using region_owner [OF ok, of r k _ start final] unfolding region by auto
    finally show ?thesis .
  qed
  with found region dist two chain show ?thesis
    by blast
qed

text \<open>Claim C2. A plan that \<open>PlanRectangularMerge\<close> returns on a built topology is right: its
  region lists, in table order and once each, the cells that exactly fill the rectangle from
  the first cell's corner to the last cell's opposite corner, and its path is a chain of right
  and down neighbours inside the region that leads from the first cell to the last.\<close>

theorem plan_merge_sound:
  assumes "CellTopology_Build input t0 = (Inr (), t)"
    and "CellTopology_PlanRectangularMerge t first second = Inr (path, region)"
  shows "\<exists>start final.
    CellTopology_Find t first = Some start \<and> CellTopology_Find t second = Some final \<and>
    region = merge_region t start final \<and> distinct region \<and> 2 \<le> length region \<and>
    (\<forall>r k. in_box (ct_row start) (ct_column start) (bottom_of final) (right_of final) r k \<longleftrightarrow>
       (\<exists>c. CellTopology_OwnerAt t r k = Some c \<and> ct_address c \<in> set region)) \<and>
    neighbour_chain t region (ct_address start) path (ct_address final)"
  by (rule merge_plan_sound [OF CellTopology_Build_ok [OF assms(1)] assms(2)])

definition wide_topology :: CellTopology where
  "wide_topology = snd (CellTopology_Build
     [blank_cell (L ''A1'') 10 1 2 (L ''C1'') (L ''A2''),
      blank_cell (L ''C1'') 11 1 1 [] (L ''C2''),
      blank_cell (L ''A2'') 12 1 1 (L ''B2'') [],
      blank_cell (L ''B2'') 13 1 1 (L ''C2'') [],
      blank_cell (L ''C2'') 14 1 1 [] []] empty_topology)"

lemma wide_build: "\<exists>input. CellTopology_Build input empty_topology = (Inr (), wide_topology)"
proof -
  have "fst (CellTopology_Build
     [blank_cell (L ''A1'') 10 1 2 (L ''C1'') (L ''A2''),
      blank_cell (L ''C1'') 11 1 1 [] (L ''C2''),
      blank_cell (L ''A2'') 12 1 1 (L ''B2'') [],
      blank_cell (L ''B2'') 13 1 1 (L ''C2'') [],
      blank_cell (L ''C2'') 14 1 1 [] []] empty_topology) = Inr ()"
    by code_simp
  then show ?thesis
    unfolding wide_topology_def by (metis prod.collapse)
qed

lemma wide_plan:
  "CellTopology_PlanRectangularMerge wide_topology (L ''a1'') (L ''b2'') =
     Inr ([\<lparr>st_direction = Down, st_destination = L ''A2''\<rparr>,
           \<lparr>st_direction = Right, st_destination = L ''B2''\<rparr>],
          [L ''A1'', L ''A2'', L ''B2''])"
  "CellTopology_PlanRectangularMerge wide_topology (L ''B2'') (L ''A1'') = Inl EndpointsNotForward"
  "CellTopology_PlanRectangularMerge wide_topology (L ''A2'') (L ''B2'') \<noteq> Inl NoNeighbourPath"
  by code_simp+

theorem plan_merge_sound_witness:
  "\<exists>start final. neighbour_chain wide_topology [L ''A1'', L ''A2'', L ''B2''] (ct_address start)
       [\<lparr>st_direction = Down, st_destination = L ''A2''\<rparr>,
        \<lparr>st_direction = Right, st_destination = L ''B2''\<rparr>] (ct_address final) \<and>
     CellTopology_Find wide_topology (L ''a1'') = Some start \<and>
     CellTopology_Find wide_topology (L ''b2'') = Some final"
proof -
  obtain input where "CellTopology_Build input empty_topology = (Inr (), wide_topology)"
    using wide_build by blast
  from plan_merge_sound [OF this wide_plan(1)] show ?thesis
    by blast
qed

text \<open>Claim C3. An error of \<open>PlanRectangularMerge\<close> on a built topology says what is wrong: the
  endpoints are missing or not in forward order, a cell straddles the border of the rectangle
  or it has a single cell, or no chain of neighbours inside the region joins the endpoints. The
  other failures of the code (a count that misses, a path through a missing cell, an exception)
  cannot happen.\<close>

theorem plan_merge_errors:
  assumes "CellTopology_Build input t0 = (Inr (), t)"
    and "CellTopology_PlanRectangularMerge t first second = Inl e"
  shows "case (CellTopology_Find t first, CellTopology_Find t second) of
      (Some start, Some final) \<Rightarrow>
        if \<not> (ct_row start \<le> ct_row final \<and> ct_column start \<le> ct_column final)
        then e = EndpointsNotForward
        else if \<not> merge_clean t start final \<or> length (merge_region t start final) < 2
        then e = NotGapFreeRectangle
        else e = NoNeighbourPath \<and>
          (\<forall>path. \<not> neighbour_chain t (merge_region t start final) (ct_address start) path
                      (ct_address final))
    | _ \<Rightarrow> e = EndpointsNotForward"
proof -
  have ok: "topology_ok t"
    using assms(1) by (rule CellTopology_Build_ok)
  show ?thesis
  proof (cases "CellTopology_Find t first = None \<or> CellTopology_Find t second = None")
    case True
    with merge_plan_None [OF this] assms(2) show ?thesis
      by (auto split: option.splits)
  next
    case False
    then obtain start final where found: "CellTopology_Find t first = Some start"
        "CellTopology_Find t second = Some final"
      by auto
    let ?forward = "ct_row start \<le> ct_row final \<and> ct_column start \<le> ct_column final"
    let ?unclean = "\<not> merge_clean t start final \<or> length (merge_region t start final) < 2"
    consider "\<not> ?forward" | "?forward" "?unclean" | "?forward" "\<not> ?unclean"
      by blast
    then show ?thesis
    proof cases
      case 1
      with merge_plan_backward [OF found] assms(2) found show ?thesis
        by simp
    next
      case 2
      with merge_plan_unclean [OF ok found] assms(2) found show ?thesis
        by simp
    next
      case 3
      then have fwd: "ct_row start \<le> ct_row final" "ct_column start \<le> ct_column final"
        and clean: "merge_clean t start final" "2 \<le> length (merge_region t start final)"
        by simp_all
      from 3 assms(2) found show ?thesis
        by (auto intro: merge_plan_cases [OF ok found fwd clean])
    qed
  qed
qed

theorem plan_merge_errors_witness:
  "\<exists>start final. CellTopology_Find wide_topology (L ''B2'') = Some start \<and>
     CellTopology_Find wide_topology (L ''A1'') = Some final \<and>
     \<not> (ct_row start \<le> ct_row final \<and> ct_column start \<le> ct_column final)"
proof -
  obtain input where "CellTopology_Build input empty_topology = (Inr (), wide_topology)"
    using wide_build by blast
  note errors = plan_merge_errors [OF this wide_plan(2)]
  have "CellTopology_Find wide_topology (L ''B2'') \<noteq> None"
    "CellTopology_Find wide_topology (L ''A1'') \<noteq> None"
    by code_simp+
  then obtain start final where "CellTopology_Find wide_topology (L ''B2'') = Some start"
    "CellTopology_Find wide_topology (L ''A1'') = Some final"
    by blast
  with errors show ?thesis
    by (auto split: if_splits)
qed

subsection \<open>What the selection planners answer\<close>

lemma find_endpoints_Inr:
  assumes "find_endpoints l1 l2 cs f s = Inr (f', s')"
  shows "((f' = f \<and> filter (\<lambda>c. ct_listId c = l1) cs = []) \<or>
      (f = None \<and> (\<exists>c. f' = Some c \<and> filter (\<lambda>c. ct_listId c = l1) cs = [c]))) \<and>
    ((s' = s \<and> filter (\<lambda>c. ct_listId c = l2) cs = []) \<or>
      (s = None \<and> (\<exists>c. s' = Some c \<and> filter (\<lambda>c. ct_listId c = l2) cs = [c])))"
  using assms
proof (induction cs arbitrary: f s)
  case (Cons c cs)
  let ?f = "if ct_listId c = l1 then Some c else f" and ?s = "if ct_listId c = l2 then Some c else s"
  have rec: "find_endpoints l1 l2 cs ?f ?s = Inr (f', s')"
    and "ct_listId c = l1 \<longrightarrow> f = None" "ct_listId c = l2 \<longrightarrow> s = None"
    using Cons.prems by (auto simp: Let_def split: if_splits)
  with Cons.IH [OF rec] show ?case
    by (auto split: if_splits)
qed simp

lemma find_endpoints_unique:
  assumes "find_endpoints l1 l2 cs None None = Inr (Some c, Some d)"
  shows "filter (\<lambda>c. ct_listId c = l1) cs = [c]" "filter (\<lambda>c. ct_listId c = l2) cs = [d]"
  using find_endpoints_Inr [OF assms] by auto

lemma fold_last_match:
  "fold (\<lambda>i found. if P i then Some i else found) xs f = Some j \<Longrightarrow> (j \<in> set xs \<and> P j) \<or> f = Some j"
  by (induction xs arbitrary: f) (auto split: if_splits)

lemma corner_cell_Some:
  "corner_cell cells r k = Some i \<Longrightarrow> i < length cells \<and> covers (cells ! i) r k"
  unfolding corner_cell_def by (drule fold_last_match) auto

lemma filter_singleton: "filter P xs = [x] \<Longrightarrow> x \<in> set xs \<and> P x \<and> (\<forall>y \<in> set xs. P y \<longrightarrow> y = x)"
  by (induction xs) (auto split: if_splits simp: filter_empty_conv)

text \<open>
  A rectangle of cells: \<open>region\<close> lists the owners of the positions from the corner of
  \<open>start\<close> to the opposite corner of \<open>final\<close>.
\<close>

definition region_fills ::
  "CellTopology \<Rightarrow> CellTopologyCell \<Rightarrow> CellTopologyCell \<Rightarrow> wstring list \<Rightarrow> bool" where
  "region_fills t start final region \<longleftrightarrow>
     (\<forall>r k. in_box (ct_row start) (ct_column start) (bottom_of final) (right_of final) r k \<longleftrightarrow>
        (\<exists>c. CellTopology_OwnerAt t r k = Some c \<and> ct_address c \<in> set region))"

lemma Find_address:
  "topology_ok t \<Longrightarrow> c \<in> set (tp_cells t) \<Longrightarrow> CellTopology_Find t (ct_address c) = Some c"
  using Find_iff topology_okD(3) by metis

lemma region_fills_one:
  assumes ok: "topology_ok t" and c: "c \<in> set (tp_cells t)"
  shows "region_fills t c c [ct_address c]"
proof -
  have "in_box (ct_row c) (ct_column c) (bottom_of c) (right_of c) r k \<longleftrightarrow> covers c r k" for r k
    by (auto simp: in_box_def covers_def bottom_of_def right_of_def)
  moreover have "covers c r k \<longleftrightarrow>
      (\<exists>d. CellTopology_OwnerAt t r k = Some d \<and> ct_address d \<in> set [ct_address c])" for r k
    using owner_iff [OF ok c] owner_mem(1) [OF ok] address_inj [OF ok _ c] by fastforce
  ultimately show ?thesis
    by (simp add: region_fills_def)
qed

lemma region_fills_mem:
  assumes ok: "topology_ok t" and fills: "region_fills t start final region"
    and c: "c \<in> set (tp_cells t)"
    and "ct_row start \<le> ct_row c" "ct_column start \<le> ct_column c"
      "bottom_of c \<le> bottom_of final" "right_of c \<le> right_of final"
  shows "ct_address c \<in> set region"
proof -
  have grid: "in_grid (tp_rows t) (tp_columns t) c"
    using topology_okD(2) [OF ok c] .
  then have "CellTopology_OwnerAt t (ct_row c) (ct_column c) = Some c"
    using owner_iff [OF ok c] covers_corners(1) by blast
  moreover have "in_box (ct_row start) (ct_column start) (bottom_of final) (right_of final)
      (ct_row c) (ct_column c)"
    using assms(4-7) grid by (auto simp: in_box_def in_grid_def bottom_of_def right_of_def)
  ultimately show ?thesis
    using fills unfolding region_fills_def by (metis option.inject)
qed

text \<open>The shape of a selection's answer.\<close>

definition selection_answer ::
  "CellTopology \<Rightarrow> wstring \<Rightarrow> wstring \<Rightarrow> CellTopologyStep list \<Rightarrow> wstring list \<Rightarrow>
     CellTopologyCell \<Rightarrow> CellTopologyCell \<Rightarrow> bool" where
  "selection_answer t firstAddress lastAddress path region start final \<longleftrightarrow>
     CellTopology_Find t firstAddress = Some start \<and> CellTopology_Find t lastAddress = Some final \<and>
     region_fills t start final region \<and> distinct region \<and>
     neighbour_chain t region firstAddress path lastAddress"

lemma rectangular_selection_sound:
  assumes ok: "topology_ok t"
    and plan: "CellTopology_PlanRectangularSelection t l1 l2 = Inr (a, b, path, region)"
  obtains c d start final where
    "filter (\<lambda>c. ct_listId c = l1) (tp_cells t) = [c]" "filter (\<lambda>c. ct_listId c = l2) (tp_cells t) = [d]"
    "selection_answer t a b path region start final"
    "ct_row start \<le> min (ct_row c) (ct_row d)" "ct_column start \<le> min (ct_column c) (ct_column d)"
    "max (bottom_of c) (bottom_of d) \<le> bottom_of final" "max (right_of c) (right_of d) \<le> right_of final"
proof -
  let ?corner = "corner_cell (tp_cells t)" and ?at = "\<lambda>i. ct_address (tp_cells t ! i)"
  obtain fs ss where ends0: "find_endpoints l1 l2 (tp_cells t) None None = Inr (fs, ss)"
    using plan by (cases "find_endpoints l1 l2 (tp_cells t) None None")
      (auto simp: CellTopology_PlanRectangularSelection_def)
  obtain c d where fs: "fs = Some c" and ss: "ss = Some d"
    using plan by (cases fs; cases ss) (simp_all add: CellTopology_PlanRectangularSelection_def ends0)
  note ends = ends0 [unfolded fs ss]
  note plan' = plan [unfolded CellTopology_PlanRectangularSelection_def ends bindE_simps prod.case
      option.case Let_def bottom_of_def [symmetric] right_of_def [symmetric]]
  obtain u l where
    cu: "?corner (min (ct_row c) (ct_row d)) (min (ct_column c) (ct_column d)) = Some u"
    and cl: "?corner (max (bottom_of c) (bottom_of d)) (max (right_of c) (right_of d)) = Some l"
    using plan'
    by (cases "?corner (min (ct_row c) (ct_row d)) (min (ct_column c) (ct_column d))";
        cases "?corner (max (bottom_of c) (bottom_of d)) (max (right_of c) (right_of d))") simp_all
  have rest: "(if u = l then Inr (?at u, ?at l, [], [?at u])
        else bindE (CellTopology_PlanRectangularMerge t (?at u) (?at l))
          (\<lambda>(path, region). Inr (?at u, ?at l, path, region)))
       = (Inr (a, b, path, region) :: TopologyError + wstring \<times> wstring \<times> CellTopologyStep list \<times> wstring list)"
    using plan' unfolding cu cl prod.case option.case .
  let ?s = "tp_cells t ! u" and ?f = "tp_cells t ! l"
  have U: "?s \<in> set (tp_cells t)" "covers ?s (min (ct_row c) (ct_row d)) (min (ct_column c) (ct_column d))"
    and F: "?f \<in> set (tp_cells t)" "covers ?f (max (bottom_of c) (bottom_of d)) (max (right_of c) (right_of d))"
    using corner_cell_Some [OF cu] corner_cell_Some [OF cl] nth_mem by blast+
  have ab: "a = ct_address ?s" "b = ct_address ?f"
    using rest by (auto simp: bindE_Inr_iff split: if_splits)
  have answer: "selection_answer t a b path region ?s ?f"
  proof (cases "u = l")
    case True
    with rest ab U(1) show ?thesis
      by (auto simp: selection_answer_def Find_address [OF ok] region_fills_one [OF ok])
  next
    case False
    with rest ab have "CellTopology_PlanRectangularMerge t a b = Inr (path, region)"
      by (auto simp: bindE_Inr_iff)
    from merge_plan_sound [OF ok this] show ?thesis
      unfolding ab Find_address [OF ok U(1)] Find_address [OF ok F(1)] option.inject
      by (auto simp: selection_answer_def region_fills_def Find_address [OF ok] U(1) F(1))
  qed
  show thesis
    using that [OF find_endpoints_unique [OF ends] answer] U(2) F(2) by (simp add: covers_iff)
qed

text \<open>A selection that \<open>PlanRectangularSelection\<close> accepts on a built topology: each
  list id belongs to exactly one cell, the region fills the rectangle between the two returned
  addresses without a gap, both selected cells are in it, and the path joins the addresses
  inside it.\<close>

lemma plan_selection_sound:
  assumes "CellTopology_Build input t0 = (Inr (), t)"
    and "CellTopology_PlanRectangularSelection t l1 l2 = Inr (a, b, path, region)"
  shows "\<exists>c d start final.
    filter (\<lambda>c. ct_listId c = l1) (tp_cells t) = [c] \<and>
    filter (\<lambda>c. ct_listId c = l2) (tp_cells t) = [d] \<and>
    selection_answer t a b path region start final \<and>
    ct_address c \<in> set region \<and> ct_address d \<in> set region"
proof -
  have ok: "topology_ok t"
    using assms(1) by (rule CellTopology_Build_ok)
  show ?thesis
  proof (rule rectangular_selection_sound [OF ok assms(2)])
    fix c d start final
    assume cd: "filter (\<lambda>c. ct_listId c = l1) (tp_cells t) = [c]"
        "filter (\<lambda>c. ct_listId c = l2) (tp_cells t) = [d]"
      and answer: "selection_answer t a b path region start final"
      and box: "ct_row start \<le> min (ct_row c) (ct_row d)" "ct_column start \<le> min (ct_column c) (ct_column d)"
        "max (bottom_of c) (bottom_of d) \<le> bottom_of final" "max (right_of c) (right_of d) \<le> right_of final"
    have fills: "region_fills t start final region"
      using answer by (simp add: selection_answer_def)
    have "c \<in> set (tp_cells t)" "d \<in> set (tp_cells t)"
      using filter_singleton [OF cd(1)] filter_singleton [OF cd(2)] by simp_all
    then have "ct_address c \<in> set region" "ct_address d \<in> set region"
      using box by (auto intro!: region_fills_mem [OF ok fills])
    with cd answer show ?thesis
      by blast
  qed
qed

lemma wide_selection:
  "CellTopology_PlanRectangularSelection wide_topology 13 10 =
     Inr (L ''A1'', L ''B2'',
          [\<lparr>st_direction = Down, st_destination = L ''A2''\<rparr>,
           \<lparr>st_direction = Right, st_destination = L ''B2''\<rparr>],
          [L ''A1'', L ''A2'', L ''B2''])"
  "CellTopology_PlanAddressSelection wide_topology [L ''b2'', L ''a2''] =
     Inr (L ''A2'', L ''B2'', [\<lparr>st_direction = Right, st_destination = L ''B2''\<rparr>],
          [L ''A2'', L ''B2''])"
  by code_simp+

lemma plan_selection_sound_witness:
  "\<exists>c. filter (\<lambda>c. ct_listId c = 13) (tp_cells wide_topology) = [c] \<and>
     ct_address c \<in> {L ''A1'', L ''A2'', L ''B2''}"
proof -
  obtain input where "CellTopology_Build input empty_topology = (Inr (), wide_topology)"
    using wide_build by blast
  from plan_selection_sound [OF this wide_selection(1)] show ?thesis
    by auto
qed

lemma selection_box_Inr:
  assumes "selection_box t as r0 k0 r1 k1 = Inr (r0', k0', r1', k1')"
  shows "r0' \<le> r0 \<and> k0' \<le> k0 \<and> r1 \<le> r1' \<and> k1 \<le> k1' \<and>
    (\<forall>a \<in> set as. \<exists>c. CellTopology_Find t a = Some c \<and> r0' \<le> ct_row c \<and> k0' \<le> ct_column c \<and>
       bottom_of c \<le> r1' \<and> right_of c \<le> k1')"
  using assms
proof (induction as arbitrary: r0 k0 r1 k1)
  case (Cons a as)
  then obtain c where c: "CellTopology_Find t a = Some c"
    and rec: "selection_box t as (min r0 (ct_row c)) (min k0 (ct_column c))
      (max r1 (bottom_of c)) (max k1 (right_of c)) = Inr (r0', k0', r1', k1')"
    by (auto simp: bottom_of_def right_of_def split: option.splits)
  from Cons.IH [OF rec] c show ?case
    by auto
qed simp

text \<open>A selection of addresses that is accepted on a built topology lies in the
  planned region: every address names a cell, and that cell is one of the region, which fills
  the rectangle between the two returned addresses.\<close>

theorem plan_address_selection_sound:
  assumes "CellTopology_Build input t0 = (Inr (), t)"
    and "CellTopology_PlanAddressSelection t selected = Inr (a, b, path, region)"
  shows "selected \<noteq> [] \<and> (\<exists>start final. selection_answer t a b path region start final) \<and>
    (\<forall>s \<in> set selected. \<exists>c. CellTopology_Find t s = Some c \<and> ct_address c \<in> set region)"
proof -
  have ok: "topology_ok t"
    using assms(1) by (rule CellTopology_Build_ok)
  have ne: "selected \<noteq> []"
    using assms(2) by (auto simp: CellTopology_PlanAddressSelection_def)
  obtain r0 k0 r1 k1 where box: "selection_box t selected LONG_MAX LONG_MAX 0 0 = Inr (r0, k0, r1, k1)"
    using assms(2) ne by (cases "selection_box t selected LONG_MAX LONG_MAX 0 0")
      (auto simp: CellTopology_PlanAddressSelection_def)
  let ?corner = "corner_cell (tp_cells t)"
  obtain u l where cu: "?corner r0 k0 = Some u" and cl: "?corner r1 k1 = Some l"
    using assms(2) ne box
    by (cases "?corner r0 k0"; cases "?corner r1 k1") (auto simp: CellTopology_PlanAddressSelection_def)
  let ?u = "tp_cells t ! u" and ?l = "tp_cells t ! l"
  have plan: "CellTopology_PlanRectangularSelection t (ct_listId ?u) (ct_listId ?l) =
      Inr (a, b, path, region)"
    using assms(2) ne box cu cl by (simp add: CellTopology_PlanAddressSelection_def)
  have U: "?u \<in> set (tp_cells t)" "covers ?u r0 k0" and L: "?l \<in> set (tp_cells t)" "covers ?l r1 k1"
    using corner_cell_Some [OF cu] corner_cell_Some [OF cl] nth_mem by blast+
  show ?thesis
  proof (rule rectangular_selection_sound [OF ok plan])
    fix c d start final
    assume cd: "filter (\<lambda>c. ct_listId c = ct_listId ?u) (tp_cells t) = [c]"
        "filter (\<lambda>c. ct_listId c = ct_listId ?l) (tp_cells t) = [d]"
      and answer: "selection_answer t a b path region start final"
      and ends: "ct_row start \<le> min (ct_row c) (ct_row d)" "ct_column start \<le> min (ct_column c) (ct_column d)"
        "max (bottom_of c) (bottom_of d) \<le> bottom_of final" "max (right_of c) (right_of d) \<le> right_of final"
    have "c = ?u" "d = ?l"
      using filter_singleton [OF cd(1)] filter_singleton [OF cd(2)] U L by metis+
    with ends U L have corners: "ct_row start \<le> r0" "ct_column start \<le> k0"
      "r1 \<le> bottom_of final" "k1 \<le> right_of final"
      by (auto simp: covers_iff)
    have fills: "region_fills t start final region"
      using answer by (simp add: selection_answer_def)
    have "\<exists>c. CellTopology_Find t s = Some c \<and> ct_address c \<in> set region" if s: "s \<in> set selected" for s
    proof -
      obtain e where e: "CellTopology_Find t s = Some e" "r0 \<le> ct_row e" "k0 \<le> ct_column e"
        "bottom_of e \<le> r1" "right_of e \<le> k1"
        using selection_box_Inr [OF box] s by blast
      then have "e \<in> set (tp_cells t)"
        using Find_iff [OF ok] by blast
      then have "ct_address e \<in> set region"
        using e corners by (intro region_fills_mem [OF ok fills]) simp_all
      with e(1) show ?thesis by blast
    qed
    with ne answer show ?thesis by blast
  qed
qed

theorem plan_address_selection_sound_witness:
  "\<exists>start final. selection_answer wide_topology (L ''A2'') (L ''B2'')
     [\<lparr>st_direction = Right, st_destination = L ''B2''\<rparr>] [L ''A2'', L ''B2''] start final"
proof -
  obtain input where "CellTopology_Build input empty_topology = (Inr (), wide_topology)"
    using wide_build by blast
  from plan_address_selection_sound [OF this wide_selection(2)] show ?thesis
    by blast
qed

end
