(* ===== verification/GraphSchema.thy ===== *)
theory GraphSchema
  imports Prelude
begin

unbundle bit_operations_syntax

section \<open>The document graph schema (DocumentGraphTypes.h, DocumentGraphSchema.h)\<close>

text \<open>
  The vocabulary of the document graph: node, edge, story, definition and record kinds, the
  profile bits with their dependency closure, the field tables of the wire format, the legality
  rules of primary parents and reference edges, their cardinalities, and the two ordering
  checks of record headers and property keys. Every other graph theory builds on it.
\<close>

subsection \<open>Enumerations\<close>

text \<open>
  The scoped enumerations of the headers. A constructor carries a two-letter prefix for its
  enumeration, since several of them share names.
\<close>

datatype CoverageState =
    CS_Complete | CS_NotRequested | CS_NotApplicable | CS_NotExposed | CS_ReadFailed
  | CS_ProjectionOmitted

datatype ProfileId =
    PF_Structure | PF_EditableText | PF_EditableObjects | PF_Layout | PF_BinaryContent

datatype RecordKind =
    RK_Manifest | RK_Node | RK_Edge | RK_Property | RK_Coverage | RK_Diagnostic
  | RK_AssetChunk | RK_Tombstone | RK_Remap

datatype NodeKind =
    NK_Document | NK_Story | NK_Section | NK_Paragraph | NK_CharacterRun
  | NK_SpecialCharacter | NK_GeneratedText | NK_GenericControl | NK_Table | NK_TableCell
  | NK_Image | NK_BinaryData | NK_Definition

datatype DefinitionKind =
    DK_Style | DK_CharacterShape | DK_ParagraphShape | DK_Numbering | DK_BorderFill
  | DK_TabDef | DK_PageDef | DK_ColumnDef

datatype StoryKind =
    SK_Body | SK_Header | SK_Footer | SK_Footnote | SK_Endnote | SK_Caption | SK_TableCell
  | SK_TextBox | SK_Other

datatype EdgeKind =
    EK_Contains | EK_Anchors | EK_StyleRef | EK_NumberingRef | EK_BorderFillRef
  | EK_TabDefRef | EK_AssetRef | EK_HeaderFooterApplies | EK_CaptionOf | EK_OwnerStory
  | EK_CharacterShapeRef | EK_ParagraphShapeRef | EK_PageDefRef | EK_ColumnDefRef

datatype ScalarTag =
    ST_Sint64 | ST_Uint64 | ST_Bool | ST_Float64 | ST_UTF16 | ST_HWPUNIT64 | ST_BGR
  | ST_Enum | ST_BlobSlice | ST_UUID128 | ST_SHA256 | ST_Struct | ST_RawURC32 | ST_Bytes
  | ST_Uint8 | ST_Uint16 | ST_Uint32 | ST_Sint32

datatype TombstoneReason =
    TR_Delete | TR_MergeAbsorbed | TR_Coalesce | TR_ExternalUnmatched | TR_ReopenNewLineage

datatype RemapDisposition =
    RD_Retained | RD_New | RD_Tombstoned | RD_Ambiguous

datatype RemapReason =
    RR_IdentityRetained | RR_ClientInsert | RR_Split | RR_Coalesce | RR_Move | RR_Merge
  | RR_TableCellSplit | RR_Clone | RR_SaveReopenEqual | RR_ExternalUnique | RR_Ambiguous
  | RR_Delete

datatype RootClass =
    RC_None | RC_Semantic | RC_Layout | RC_Capture

datatype Requirement =
    RQ_Required | RQ_Optional

datatype FieldProfileBinding =
    FB_Fixed | FB_DefinitionOwning

datatype LocatorTag =
    LT_None | LT_Story | LT_Paragraph | LT_Run | LT_Control | LT_Cell

datatype CoverageCoordinateKind =
    CC_Global | CC_Profile | CC_Node | CC_NodeField | CC_Property

datatype EdgeCardinality =
    EC_Zero | EC_ExactlyOne | EC_ZeroOrOne | EC_ZeroOrMany

datatype ObservationState =
    OS_Value | OS_NotApplicable | OS_NotExposed | OS_ReadFailed | OS_InconsistentNativeState
  | OS_NotRequested | OS_ProjectionOmitted

datatype StreamKind =
    SM_Capture | SM_QueryView

datatype SchemaError =
    SE_None | SE_DuplicateField | SE_OutOfOrderField | SE_UnknownRequiredField
  | SE_ReservedField | SE_ProjectionOmittedInCapture | SE_DuplicatePropertyKey
  | SE_PropertyKeyOutOfOrder | SE_IllegalParent | SE_IllegalEdge | SE_WidthOverflow
  | SE_NonFiniteFloat | SE_NegativePublicCoordinate

text \<open>The numeric values of the enumerations that the code casts.\<close>

fun ProfileId_code :: "ProfileId \<Rightarrow> nat" where
  "ProfileId_code PF_Structure = 0"
| "ProfileId_code PF_EditableText = 1"
| "ProfileId_code PF_EditableObjects = 2"
| "ProfileId_code PF_Layout = 3"
| "ProfileId_code PF_BinaryContent = 4"

fun NodeKind_code :: "NodeKind \<Rightarrow> nat" where
  "NodeKind_code NK_Document = 0"
| "NodeKind_code NK_Story = 1"
| "NodeKind_code NK_Section = 2"
| "NodeKind_code NK_Paragraph = 3"
| "NodeKind_code NK_CharacterRun = 4"
| "NodeKind_code NK_SpecialCharacter = 5"
| "NodeKind_code NK_GeneratedText = 6"
| "NodeKind_code NK_GenericControl = 7"
| "NodeKind_code NK_Table = 8"
| "NodeKind_code NK_TableCell = 9"
| "NodeKind_code NK_Image = 10"
| "NodeKind_code NK_BinaryData = 11"
| "NodeKind_code NK_Definition = 12"

text \<open>Node kinds are compared by their numeric values.\<close>

instantiation NodeKind :: linorder
begin

definition less_eq_NodeKind :: "NodeKind \<Rightarrow> NodeKind \<Rightarrow> bool" where
  "less_eq_NodeKind a b \<longleftrightarrow> NodeKind_code a \<le> NodeKind_code b"

definition less_NodeKind :: "NodeKind \<Rightarrow> NodeKind \<Rightarrow> bool" where
  "less_NodeKind a b \<longleftrightarrow> NodeKind_code a < NodeKind_code b"

instance
proof
  fix a b :: NodeKind
  show "a \<le> b \<Longrightarrow> b \<le> a \<Longrightarrow> a = b"
    unfolding less_eq_NodeKind_def by (cases a; cases b) simp_all
qed (auto simp: less_eq_NodeKind_def less_NodeKind_def)

end

subsection \<open>Profiles\<close>

definition ProfileBit :: "ProfileId \<Rightarrow> u64" where
  "ProfileBit profile = push_bit (ProfileId_code profile) 1"

definition kKnownProfileBits :: u64 where
  "kKnownProfileBits = ProfileBit PF_Structure OR ProfileBit PF_EditableText OR
     ProfileBit PF_EditableObjects OR ProfileBit PF_Layout OR ProfileBit PF_BinaryContent"

definition HasOnlyKnownProfiles :: "u64 \<Rightarrow> bool" where
  "HasOnlyKnownProfiles bits \<longleftrightarrow> bits AND NOT kKnownProfileBits = 0"

definition CloseProfileBits :: "u64 \<Rightarrow> u64" where
  "CloseProfileBits bits =
     (let bits1 = (if bits AND ProfileBit PF_EditableObjects \<noteq> 0
                   then bits OR ProfileBit PF_EditableText else bits)
      in if bits1 AND (ProfileBit PF_EditableText OR ProfileBit PF_Layout OR
                       ProfileBit PF_BinaryContent) \<noteq> 0
         then bits1 OR ProfileBit PF_Structure else bits1)"

definition kProfileRules :: "(ProfileId \<times> u64) list" where
  "kProfileRules =
    [(PF_Structure, 0),
     (PF_EditableText, ProfileBit PF_Structure),
     (PF_EditableObjects, ProfileBit PF_EditableText OR ProfileBit PF_Structure),
     (PF_Layout, ProfileBit PF_Structure),
     (PF_BinaryContent, ProfileBit PF_Structure)]"

subsection \<open>Coverage coordinates\<close>

type_synonym FieldTag = u16
type_synonym PropertyKeyId = u32

definition kNoProfile :: u8 where
  "kNoProfile = 255"

definition IsCoverageCoordinate ::
  "CoverageCoordinateKind \<Rightarrow> bool \<Rightarrow> u8 \<Rightarrow> RecordKind \<Rightarrow> FieldTag \<Rightarrow> bool \<Rightarrow> bool" where
  "IsCoverageCoordinate kind ownerPresent profile ownerRecordKind ownerFieldTag propertyKeyPresent =
     (let actualProfile = profile \<le> of_nat (ProfileId_code PF_BinaryContent)
      in case kind of
           CC_Global \<Rightarrow> \<not> ownerPresent \<and> profile = kNoProfile \<and>
             ownerRecordKind = RK_Manifest \<and> ownerFieldTag = 0 \<and> \<not> propertyKeyPresent
         | CC_Profile \<Rightarrow> \<not> ownerPresent \<and> actualProfile \<and>
             ownerRecordKind = RK_Coverage \<and> ownerFieldTag = ucast profile \<and> \<not> propertyKeyPresent
         | CC_Node \<Rightarrow> ownerPresent \<and> profile = kNoProfile \<and>
             ownerRecordKind = RK_Node \<and> ownerFieldTag = 0 \<and> \<not> propertyKeyPresent
         | CC_NodeField \<Rightarrow> ownerPresent \<and> (profile = kNoProfile \<or> actualProfile) \<and>
             ownerRecordKind = RK_Node \<and> ownerFieldTag \<noteq> 0 \<and> \<not> propertyKeyPresent
         | CC_Property \<Rightarrow> ownerPresent \<and> actualProfile \<and>
             ownerRecordKind = RK_Property \<and> ownerFieldTag \<noteq> 0 \<and> propertyKeyPresent)"

definition FixedScalarBytes :: "ScalarTag \<Rightarrow> nat" where
  "FixedScalarBytes scalar =
     (if scalar \<in> {ST_Sint64, ST_Uint64, ST_Float64, ST_HWPUNIT64} then 8
      else if scalar \<in> {ST_BGR, ST_RawURC32, ST_Uint32, ST_Sint32} then 4
      else if scalar = ST_UUID128 then 16
      else if scalar = ST_SHA256 then 32
      else if scalar \<in> {ST_Bool, ST_Uint8} then 1
      else if scalar = ST_Uint16 then 2
      else 0)"

subsection \<open>Field tables\<close>

record RecordFieldRule =
  rf_record :: RecordKind
  rf_tag :: FieldTag
  rf_scalar :: ScalarTag
  rf_requirement :: Requirement

definition record_field :: "RecordKind \<Rightarrow> FieldTag \<Rightarrow> ScalarTag \<Rightarrow> Requirement \<Rightarrow> RecordFieldRule" where
  "record_field kind tag scalar requirement =
     \<lparr>rf_record = kind, rf_tag = tag, rf_scalar = scalar, rf_requirement = requirement\<rparr>"

definition kRecordFieldRules :: "RecordFieldRule list" where
  "kRecordFieldRules =
    [record_field RK_Manifest 1 ST_Struct RQ_Required,
     record_field RK_Manifest 2 ST_Uint8 RQ_Required,
     record_field RK_Manifest 3 ST_Uint64 RQ_Required,
     record_field RK_Manifest 4 ST_Uint64 RQ_Required,
     record_field RK_Manifest 5 ST_SHA256 RQ_Required,
     record_field RK_Manifest 6 ST_Uint8 RQ_Required,
     record_field RK_Node 1 ST_Struct RQ_Required,
     record_field RK_Node 2 ST_Struct RQ_Required,
     record_field RK_Edge 1 ST_Uint16 RQ_Required,
     record_field RK_Edge 2 ST_UUID128 RQ_Required,
     record_field RK_Edge 3 ST_UUID128 RQ_Required,
     record_field RK_Edge 4 ST_Uint64 RQ_Required,
     record_field RK_Property 1 ST_UUID128 RQ_Required,
     record_field RK_Property 2 ST_Uint16 RQ_Required,
     record_field RK_Property 3 ST_Uint32 RQ_Required,
     record_field RK_Property 4 ST_Struct RQ_Required,
     record_field RK_Property 5 ST_Uint8 RQ_Required,
     record_field RK_Coverage 1 ST_UUID128 RQ_Optional,
     record_field RK_Coverage 2 ST_Uint8 RQ_Required,
     record_field RK_Coverage 3 ST_Uint8 RQ_Required,
     record_field RK_Coverage 4 ST_Uint32 RQ_Optional,
     record_field RK_Coverage 5 ST_BlobSlice RQ_Required,
     record_field RK_Coverage 6 ST_Uint16 RQ_Required,
     record_field RK_Coverage 7 ST_Uint16 RQ_Required,
     record_field RK_Diagnostic 1 ST_Uint32 RQ_Required,
     record_field RK_Diagnostic 2 ST_Uint8 RQ_Required,
     record_field RK_Diagnostic 3 ST_UUID128 RQ_Optional,
     record_field RK_Diagnostic 4 ST_Uint32 RQ_Optional,
     record_field RK_Diagnostic 5 ST_Sint32 RQ_Required,
     record_field RK_Diagnostic 6 ST_BlobSlice RQ_Required,
     record_field RK_AssetChunk 1 ST_UUID128 RQ_Required,
     record_field RK_AssetChunk 2 ST_Uint64 RQ_Required,
     record_field RK_AssetChunk 3 ST_Uint64 RQ_Required,
     record_field RK_AssetChunk 4 ST_Bytes RQ_Required,
     record_field RK_AssetChunk 5 ST_SHA256 RQ_Required,
     record_field RK_Tombstone 1 ST_UUID128 RQ_Required,
     record_field RK_Tombstone 2 ST_Uint64 RQ_Required,
     record_field RK_Tombstone 3 ST_Uint16 RQ_Required,
     record_field RK_Remap 1 ST_UUID128 RQ_Required,
     record_field RK_Remap 2 ST_UUID128 RQ_Optional,
     record_field RK_Remap 3 ST_Uint8 RQ_Required,
     record_field RK_Remap 4 ST_Uint16 RQ_Required]"

record NodeFieldRule =
  nf_node :: NodeKind
  nf_tag :: FieldTag
  nf_scalar :: ScalarTag
  nf_requirement :: Requirement
  nf_profile :: ProfileId
  nf_profileBinding :: FieldProfileBinding
  nf_root :: RootClass
  nf_observation :: bool
  nf_array :: bool

definition graph_field ::
  "NodeKind \<Rightarrow> FieldTag \<Rightarrow> ScalarTag \<Rightarrow> Requirement \<Rightarrow> ProfileId \<Rightarrow> RootClass \<Rightarrow> bool \<Rightarrow> bool \<Rightarrow>
     NodeFieldRule" where
  "graph_field node tag scalar requirement profile root observation array =
     \<lparr>nf_node = node, nf_tag = tag, nf_scalar = scalar, nf_requirement = requirement,
      nf_profile = profile, nf_profileBinding = FB_Fixed, nf_root = root,
      nf_observation = observation, nf_array = array\<rparr>"

definition kCommonNodeFieldRules :: "NodeFieldRule list" where
  "kCommonNodeFieldRules =
    [graph_field NK_Document 1 ST_UUID128 RQ_Required PF_Structure RC_None False False,
     graph_field NK_Document 2 ST_Uint16 RQ_Required PF_Structure RC_Semantic False False,
     graph_field NK_Document 3 ST_UUID128 RQ_Optional PF_Structure RC_Semantic False False,
     graph_field NK_Document 4 ST_Uint64 RQ_Required PF_Structure RC_Semantic False False,
     graph_field NK_Document 5 ST_Uint64 RQ_Required PF_Structure RC_None False False,
     graph_field NK_Document 6 ST_Uint64 RQ_Required PF_Structure RC_None False False,
     graph_field NK_Document 7 ST_Struct RQ_Required PF_Structure RC_Capture True False,
     graph_field NK_Document 8 ST_SHA256 RQ_Required PF_Structure RC_None False False,
     graph_field NK_Document 10 ST_Uint64 RQ_Required PF_Layout RC_Layout False True,
     graph_field NK_Document 11 ST_Uint64 RQ_Required PF_BinaryContent RC_Capture False True]"

definition kNodePayloadFieldRules :: "NodeFieldRule list" where
  "kNodePayloadFieldRules =
    [graph_field NK_Document 100 ST_Uint64 RQ_Required PF_Structure RC_Semantic False True,
     graph_field NK_Story 100 ST_Uint16 RQ_Required PF_Structure RC_Semantic False False,
     graph_field NK_Story 101 ST_UUID128 RQ_Required PF_Structure RC_Semantic True False,
     graph_field NK_Story 102 ST_Sint64 RQ_Required PF_Structure RC_Capture True False,
     graph_field NK_Story 103 ST_Bool RQ_Optional PF_EditableText RC_Semantic True False,
     graph_field NK_Story 104 ST_Sint64 RQ_Optional PF_EditableText RC_Capture True False,
     graph_field NK_Story 105 ST_UTF16 RQ_Optional PF_EditableText RC_Capture True False,
     graph_field NK_Section 100 ST_Uint64 RQ_Required PF_Structure RC_Semantic False False,
     graph_field NK_Section 101 ST_Struct RQ_Required PF_Structure RC_Semantic True False,
     graph_field NK_Section 102 ST_Struct RQ_Required PF_Structure RC_Semantic True False,
     graph_field NK_Section 103 ST_Uint64 RQ_Required PF_Structure RC_Semantic False True,
     graph_field NK_Paragraph 100 ST_Struct RQ_Required PF_Structure RC_Semantic True False,
     graph_field NK_Paragraph 101 ST_Struct RQ_Required PF_Structure RC_Semantic True False,
     graph_field NK_Paragraph 102 ST_Sint64 RQ_Required PF_EditableText RC_Capture True False,
     graph_field NK_Paragraph 103 ST_Uint64 RQ_Required PF_EditableText RC_Semantic False True,
     graph_field NK_Paragraph 104 ST_Uint64 RQ_Required PF_EditableText RC_Semantic False True,
     graph_field NK_CharacterRun 100 ST_Struct RQ_Required PF_EditableText RC_Semantic False False,
     graph_field NK_CharacterRun 101 ST_BlobSlice RQ_Required PF_EditableText RC_Semantic True False,
     graph_field NK_CharacterRun 102 ST_Uint64 RQ_Required PF_EditableText RC_Semantic False True,
     graph_field NK_SpecialCharacter 100 ST_Struct RQ_Required PF_EditableText RC_Semantic False False,
     graph_field NK_SpecialCharacter 101 ST_Sint32 RQ_Required PF_EditableText RC_Semantic False False,
     graph_field NK_SpecialCharacter 102 ST_BlobSlice RQ_Required PF_EditableText RC_Semantic True False,
     graph_field NK_SpecialCharacter 103 ST_Bool RQ_Required PF_EditableText RC_Semantic False False,
     graph_field NK_GeneratedText 100 ST_Struct RQ_Required PF_EditableText RC_Semantic True False,
     graph_field NK_GeneratedText 101 ST_Sint32 RQ_Required PF_EditableText RC_Semantic False False,
     graph_field NK_GeneratedText 102 ST_BlobSlice RQ_Required PF_EditableText RC_Semantic True False,
     graph_field NK_GenericControl 100 ST_UTF16 RQ_Required PF_Structure RC_Semantic True False,
     graph_field NK_GenericControl 101 ST_UTF16 RQ_Required PF_Structure RC_Capture True False,
     graph_field NK_GenericControl 102 ST_UTF16 RQ_Required PF_Structure RC_Capture True False,
     graph_field NK_GenericControl 103 ST_Struct RQ_Required PF_Structure RC_Semantic True False,
     graph_field NK_GenericControl 104 ST_Struct RQ_Required PF_Structure RC_Capture True False,
     graph_field NK_GenericControl 105 ST_Uint64 RQ_Required PF_Structure RC_Semantic False False,
     graph_field NK_GenericControl 106 ST_Uint64 RQ_Required PF_EditableObjects RC_Semantic False True,
     graph_field NK_Table 107 ST_Uint64 RQ_Required PF_Structure RC_Semantic True False,
     graph_field NK_Table 108 ST_Uint64 RQ_Required PF_Structure RC_Semantic True False,
     graph_field NK_Table 109 ST_SHA256 RQ_Required PF_Structure RC_Semantic True False,
     graph_field NK_TableCell 100 ST_UUID128 RQ_Required PF_Structure RC_Semantic False False,
     graph_field NK_TableCell 101 ST_UTF16 RQ_Required PF_Structure RC_Semantic True False,
     graph_field NK_TableCell 102 ST_Uint64 RQ_Required PF_Structure RC_Semantic True False,
     graph_field NK_TableCell 103 ST_Uint64 RQ_Required PF_Structure RC_Semantic True False,
     graph_field NK_TableCell 104 ST_Uint64 RQ_Required PF_Structure RC_Semantic True False,
     graph_field NK_TableCell 105 ST_Uint64 RQ_Required PF_Structure RC_Semantic True False,
     graph_field NK_TableCell 106 ST_Sint64 RQ_Required PF_Structure RC_Capture True False,
     graph_field NK_TableCell 107 ST_UUID128 RQ_Required PF_Structure RC_Semantic True False,
     graph_field NK_TableCell 108 ST_Struct RQ_Required PF_EditableObjects RC_Semantic True False,
     graph_field NK_TableCell 109 ST_Uint64 RQ_Required PF_EditableObjects RC_Semantic False True,
     graph_field NK_Image 107 ST_Struct RQ_Required PF_EditableObjects RC_Semantic True False,
     graph_field NK_Image 108 ST_Struct RQ_Required PF_EditableObjects RC_Semantic True False,
     graph_field NK_Image 109 ST_Struct RQ_Required PF_EditableObjects RC_Semantic True False,
     graph_field NK_Image 110 ST_Struct RQ_Required PF_BinaryContent RC_Semantic True False,
     graph_field NK_Image 111 ST_UTF16 RQ_Required PF_BinaryContent RC_Capture True False,
     graph_field NK_Image 112 ST_Uint64 RQ_Required PF_EditableObjects RC_Semantic False True,
     graph_field NK_BinaryData 100 ST_UUID128 RQ_Required PF_BinaryContent RC_None False False,
     graph_field NK_BinaryData 101 ST_Uint64 RQ_Required PF_BinaryContent RC_Semantic False False,
     graph_field NK_BinaryData 102 ST_SHA256 RQ_Required PF_BinaryContent RC_Semantic False False,
     graph_field NK_BinaryData 103 ST_UTF16 RQ_Required PF_BinaryContent RC_Capture True False,
     \<lparr>nf_node = NK_Definition, nf_tag = 100, nf_scalar = ST_Uint16, nf_requirement = RQ_Required,
      nf_profile = PF_Structure, nf_profileBinding = FB_DefinitionOwning, nf_root = RC_Semantic, nf_observation = False,
      nf_array = False\<rparr>,
     \<lparr>nf_node = NK_Definition, nf_tag = 101, nf_scalar = ST_Sint64, nf_requirement = RQ_Required,
      nf_profile = PF_Structure, nf_profileBinding = FB_DefinitionOwning, nf_root = RC_Semantic, nf_observation = True,
      nf_array = False\<rparr>,
     \<lparr>nf_node = NK_Definition, nf_tag = 102, nf_scalar = ST_Uint64, nf_requirement = RQ_Required,
      nf_profile = PF_Structure, nf_profileBinding = FB_DefinitionOwning, nf_root = RC_Semantic, nf_observation = False,
      nf_array = True\<rparr>,
     \<lparr>nf_node = NK_Definition, nf_tag = 103, nf_scalar = ST_SHA256, nf_requirement = RQ_Required,
      nf_profile = PF_Structure, nf_profileBinding = FB_DefinitionOwning, nf_root = RC_None, nf_observation = False,
      nf_array = False\<rparr>]"

definition kLocatorFieldRules :: "(LocatorTag \<times> FieldTag \<times> ScalarTag) list" where
  "kLocatorFieldRules =
    [(LT_Story, 1, ST_Sint64),
     (LT_Paragraph, 1, ST_Sint64),
     (LT_Paragraph, 2, ST_Sint64),
     (LT_Run, 1, ST_Sint64),
     (LT_Run, 2, ST_Sint64),
     (LT_Run, 3, ST_Sint64),
     (LT_Run, 4, ST_Sint64),
     (LT_Control, 1, ST_UTF16),
     (LT_Control, 2, ST_UTF16),
     (LT_Control, 3, ST_Uint64),
     (LT_Control, 4, ST_Struct),
     (LT_Cell, 1, ST_UUID128),
     (LT_Cell, 2, ST_UTF16),
     (LT_Cell, 3, ST_Sint64)]"

subsection \<open>Legal parents and reference edges\<close>

definition IsControlKind :: "NodeKind \<Rightarrow> bool" where
  "IsControlKind kind \<longleftrightarrow> kind = NK_GenericControl \<or> kind = NK_Table \<or> kind = NK_Image"

definition IsLegalPrimaryParent :: "NodeKind \<Rightarrow> NodeKind \<Rightarrow> StoryKind \<Rightarrow> StoryKind \<Rightarrow> bool" where
  "IsLegalPrimaryParent child parent childStory parentStory =
     (if child = NK_Document then False
      else if child = NK_BinaryData \<or> child = NK_Definition then parent = NK_Document
      else if child = NK_Story then
        (if childStory = SK_TableCell then parent = NK_TableCell
         else if childStory = SK_Body \<or> childStory = SK_Other \<or> childStory = SK_Header \<or>
                 childStory = SK_Footer
         then parent = NK_Document
         else IsControlKind parent \<or> parent = NK_TableCell)
      else if child = NK_Section then parent = NK_Story \<and> parentStory = SK_Body
      else if child = NK_Paragraph then
        parent = NK_Section \<or> (parent = NK_Story \<and> parentStory \<noteq> SK_Body)
      else if child = NK_TableCell then parent = NK_Table
      else if child = NK_CharacterRun \<or> child = NK_SpecialCharacter \<or> child = NK_GeneratedText \<or>
              IsControlKind child
      then parent = NK_Paragraph
      else False)"

definition IsDefinition :: "NodeKind \<Rightarrow> DefinitionKind \<Rightarrow> DefinitionKind \<Rightarrow> bool" where
  "IsDefinition kind actual wanted \<longleftrightarrow> kind = NK_Definition \<and> actual = wanted"

definition IsLegalReferenceEdge ::
  "EdgeKind \<Rightarrow> NodeKind \<Rightarrow> NodeKind \<Rightarrow> DefinitionKind \<Rightarrow> DefinitionKind \<Rightarrow> StoryKind \<Rightarrow> StoryKind \<Rightarrow>
     bool" where
  "IsLegalReferenceEdge edge source target sourceDefinition targetDefinition sourceStory targetStory =
     (case edge of
        EK_Contains \<Rightarrow> IsLegalPrimaryParent target source targetStory sourceStory
      | EK_Anchors \<Rightarrow> IsControlKind source \<and> target = NK_Paragraph
      | EK_StyleRef \<Rightarrow> source = NK_Paragraph \<and> IsDefinition target targetDefinition DK_Style
      | EK_CharacterShapeRef \<Rightarrow>
          (source = NK_CharacterRun \<or> IsDefinition source sourceDefinition DK_Style) \<and>
          IsDefinition target targetDefinition DK_CharacterShape
      | EK_ParagraphShapeRef \<Rightarrow>
          (source = NK_Paragraph \<or> IsDefinition source sourceDefinition DK_Style) \<and>
          IsDefinition target targetDefinition DK_ParagraphShape
      | EK_NumberingRef \<Rightarrow>
          (source = NK_Paragraph \<or> IsDefinition source sourceDefinition DK_Style \<or>
           IsDefinition source sourceDefinition DK_ParagraphShape) \<and>
          IsDefinition target targetDefinition DK_Numbering
      | EK_BorderFillRef \<Rightarrow>
          (source = NK_TableCell \<or> source = NK_GenericControl \<or> source = NK_Definition) \<and>
          IsDefinition target targetDefinition DK_BorderFill
      | EK_TabDefRef \<Rightarrow>
          (source = NK_Paragraph \<or> IsDefinition source sourceDefinition DK_Style \<or>
           IsDefinition source sourceDefinition DK_ParagraphShape) \<and>
          IsDefinition target targetDefinition DK_TabDef
      | EK_PageDefRef \<Rightarrow> source = NK_Section \<and> IsDefinition target targetDefinition DK_PageDef
      | EK_ColumnDefRef \<Rightarrow> source = NK_Section \<and> IsDefinition target targetDefinition DK_ColumnDef
      | EK_AssetRef \<Rightarrow> (source = NK_Image \<or> source = NK_GenericControl) \<and> target = NK_BinaryData
      | EK_HeaderFooterApplies \<Rightarrow> source = NK_Section \<and> target = NK_Story \<and>
          (targetStory = SK_Header \<or> targetStory = SK_Footer)
      | EK_CaptionOf \<Rightarrow> source = NK_Story \<and> sourceStory = SK_Caption \<and> IsControlKind target
      | EK_OwnerStory \<Rightarrow> source = NK_Story \<and>
          (sourceStory = SK_TableCell \<or> sourceStory = SK_TextBox \<or> sourceStory = SK_Footnote \<or>
           sourceStory = SK_Endnote \<or> sourceStory = SK_Caption) \<and>
          (target = NK_TableCell \<or> IsControlKind target))"

definition kEdgeCardinalityRules :: "(EdgeKind \<times> EdgeCardinality) list" where
  "kEdgeCardinalityRules =
    [(EK_Contains, EC_ZeroOrMany),
     (EK_Anchors, EC_ExactlyOne),
     (EK_StyleRef, EC_ZeroOrOne),
     (EK_NumberingRef, EC_ZeroOrOne),
     (EK_BorderFillRef, EC_ZeroOrOne),
     (EK_TabDefRef, EC_ZeroOrOne),
     (EK_AssetRef, EC_ZeroOrOne),
     (EK_HeaderFooterApplies, EC_ZeroOrMany),
     (EK_CaptionOf, EC_ExactlyOne),
     (EK_OwnerStory, EC_ExactlyOne),
     (EK_CharacterShapeRef, EC_ExactlyOne),
     (EK_ParagraphShapeRef, EC_ExactlyOne),
     (EK_PageDefRef, EC_ExactlyOne),
     (EK_ColumnDefRef, EC_ExactlyOne)]"

definition OutgoingCardinality ::
  "EdgeKind \<Rightarrow> NodeKind \<Rightarrow> bool \<Rightarrow> DefinitionKind \<Rightarrow> EdgeCardinality" where
  "OutgoingCardinality edge source coverageComplete sourceDefinition =
     (if edge = EK_Contains \<or> edge = EK_HeaderFooterApplies then EC_ZeroOrMany
      else if edge = EK_Anchors then (if IsControlKind source then EC_ExactlyOne else EC_Zero)
      else if edge = EK_CaptionOf \<or> edge = EK_OwnerStory then EC_ExactlyOne
      else if edge = EK_CharacterShapeRef then
        (if source = NK_CharacterRun \<and> coverageComplete then EC_ExactlyOne else EC_ZeroOrOne)
      else if edge = EK_ParagraphShapeRef then
        (if source = NK_Paragraph \<and> coverageComplete then EC_ExactlyOne else EC_ZeroOrOne)
      else if edge = EK_PageDefRef \<or> edge = EK_ColumnDefRef then
        (if coverageComplete then EC_ExactlyOne else EC_ZeroOrOne)
      else EC_ZeroOrOne)"

definition IncomingCardinality :: "EdgeKind \<Rightarrow> NodeKind \<Rightarrow> EdgeCardinality" where
  "IncomingCardinality edge target =
     (if edge = EK_Contains then (if target = NK_Document then EC_Zero else EC_ExactlyOne)
      else if edge = EK_CaptionOf \<and> IsControlKind target then EC_ZeroOrOne
      else EC_ZeroOrMany)"

definition OwningProfile :: "DefinitionKind \<Rightarrow> ProfileId" where
  "OwningProfile kind =
     (if kind = DK_BorderFill then PF_EditableObjects
      else if kind = DK_PageDef \<or> kind = DK_ColumnDef then PF_Layout
      else PF_EditableText)"

definition ResolveNodeFieldProfile :: "NodeFieldRule \<Rightarrow> DefinitionKind \<Rightarrow> ProfileId" where
  "ResolveNodeFieldProfile rule definitionKind =
     (if nf_profileBinding rule = FB_DefinitionOwning then OwningProfile definitionKind
      else nf_profile rule)"

definition IsCoverageStateLegal :: "StreamKind \<Rightarrow> CoverageState \<Rightarrow> bool" where
  "IsCoverageStateLegal stream state \<longleftrightarrow> state \<noteq> CS_ProjectionOmitted \<or> stream = SM_QueryView"

subsection \<open>Header checks\<close>

record FieldHeaderView =
  fh_tag :: FieldTag
  fh_flags :: u16
  fh_valueBytes :: u64

definition kReservedCommonFieldTagV1 :: FieldTag where
  "kReservedCommonFieldTagV1 = 9"

definition kFieldFlagRequired :: u16 where
  "kFieldFlagRequired = 1"

definition IsKnownField :: "FieldTag list \<Rightarrow> FieldTag \<Rightarrow> bool" where
  "IsKnownField known tag \<longleftrightarrow> list_ex (\<lambda>item. item = tag) known"

text \<open>\<open>first\<close> is the test \<open>index == 0\<close> of the loop.\<close>

fun validate_headers ::
  "FieldTag list \<Rightarrow> bool \<Rightarrow> FieldTag \<Rightarrow> FieldHeaderView list \<Rightarrow> SchemaError" where
  "validate_headers known first previous [] = SE_None"
| "validate_headers known first previous (field # headers) =
     (if fh_tag field = kReservedCommonFieldTagV1 then SE_ReservedField
      else if \<not> first \<and> fh_tag field = previous then SE_DuplicateField
      else if \<not> first \<and> fh_tag field < previous then SE_OutOfOrderField
      else if \<not> IsKnownField known (fh_tag field) \<and> fh_flags field AND kFieldFlagRequired \<noteq> 0
      then SE_UnknownRequiredField
      else validate_headers known False (fh_tag field) headers)"

definition ValidateFieldHeaders :: "FieldHeaderView list \<Rightarrow> FieldTag list \<Rightarrow> SchemaError" where
  "ValidateFieldHeaders headers known = validate_headers known True 0 headers"

fun ValidateSortedPropertyKeys :: "PropertyKeyId list \<Rightarrow> SchemaError" where
  "ValidateSortedPropertyKeys (k # k' # keys) =
     (if k' = k then SE_DuplicatePropertyKey
      else if k' < k then SE_PropertyKeyOutOfOrder
      else ValidateSortedPropertyKeys (k' # keys))"
| "ValidateSortedPropertyKeys keys = SE_None"

subsection \<open>Value checks of DocumentGraphTypes.h\<close>

definition IsValidUtf16Slice :: "u64 \<Rightarrow> u64 \<Rightarrow> bool" where
  "IsValidUtf16Slice bytes_length codeUnitCount \<longleftrightarrow>
     codeUnitCount \<le> (- 1) div 2 \<and> bytes_length = codeUnitCount * 2"

record CellCoordinateV1 =
  cc_row1 :: u64
  cc_column1 :: u64
  cc_rowSpan :: u64
  cc_columnSpan :: u64

definition IsValid :: "CellCoordinateV1 \<Rightarrow> bool" where
  "IsValid value \<longleftrightarrow> cc_row1 value \<ge> 1 \<and> cc_column1 value \<ge> 1 \<and>
     cc_rowSpan value \<ge> 1 \<and> cc_columnSpan value \<ge> 1"

definition IsObservationStateLegal :: "StreamKind \<Rightarrow> ObservationState \<Rightarrow> bool" where
  "IsObservationStateLegal stream state \<longleftrightarrow> state \<noteq> OS_ProjectionOmitted \<or> stream = SM_QueryView"

definition IsValidObservation :: "StreamKind \<Rightarrow> ObservationState \<Rightarrow> bool \<Rightarrow> int \<Rightarrow> bool" where
  "IsValidObservation stream state valuePresent hresult =
     (if \<not> IsObservationStateLegal stream state then False
      else if state = OS_Value then valuePresent \<and> hresult = 0
      else \<not> valuePresent)"

definition FitsUnsignedPersistedWidth :: "u64 \<Rightarrow> u8 \<Rightarrow> bool" where
  "FitsUnsignedPersistedWidth value widthBytes \<longleftrightarrow>
     widthBytes = 8 \<or> (widthBytes = 4 \<and> value \<le> 4294967295) \<or>
     (widthBytes = 2 \<and> value \<le> 65535) \<or> (widthBytes = 1 \<and> value \<le> 255)"

subsection \<open>Profile closure\<close>

lemma ProfileId_code_less: "ProfileId_code p < 64"
  by (cases p) simp_all

lemma bit_ProfileBit: "bit (ProfileBit p) n \<longleftrightarrow> n = ProfileId_code p"
  using ProfileId_code_less [of p]
  by (auto simp: ProfileBit_def bit_exp_iff possible_bit_def)

lemma and_ProfileBit: "bits AND ProfileBit p = 0 \<longleftrightarrow> \<not> bit bits (ProfileId_code p)"
  using bit_imp_le_length [of bits "ProfileId_code p"]
  unfolding bit_eq_iff [of "bits AND ProfileBit p" 0]
  by (auto simp: bit_and_iff bit_ProfileBit)

lemma and_or_zero: "a AND (b OR c) = 0 \<longleftrightarrow> a AND b = 0 \<and> a AND c = 0" for a :: u64
  unfolding bit_eq_iff by (auto simp: bit_and_iff bit_or_iff)

lemma or_ProfileBit_same: "bit bits (ProfileId_code p) \<Longrightarrow> bits OR ProfileBit p = bits"
  unfolding bit_eq_iff [of "bits OR ProfileBit p" bits] by (auto simp: bit_or_iff bit_ProfileBit)

text \<open>The set of profiles a bit mask selects, and the dependencies of the rule table.\<close>

definition profiles_of :: "u64 \<Rightarrow> ProfileId set" where
  "profiles_of bits = {p. bits AND ProfileBit p \<noteq> 0}"

definition dependencies :: "ProfileId \<Rightarrow> ProfileId set" where
  "dependencies p = (case map_of kProfileRules p of None \<Rightarrow> {} | Some bits \<Rightarrow> profiles_of bits)"

lemma profiles_of_or [simp]: "profiles_of (a OR b) = profiles_of a \<union> profiles_of b"
  by (auto simp: profiles_of_def and_ProfileBit bit_simps)

lemma ProfileId_code_inj [simp]: "ProfileId_code p = ProfileId_code q \<longleftrightarrow> p = q"
  by (cases p; cases q) simp_all

lemma profiles_of_bit [simp]: "profiles_of (ProfileBit p) = {p}"
  by (auto simp: profiles_of_def and_ProfileBit bit_ProfileBit)

lemma profiles_of_0 [simp]: "profiles_of 0 = {}"
  by (simp add: profiles_of_def)

lemma dependencies_eq:
  "dependencies p = (case p of PF_Structure \<Rightarrow> {} | PF_EditableObjects \<Rightarrow> {PF_EditableText, PF_Structure}
     | _ \<Rightarrow> {PF_Structure})"
  by (cases p) (simp_all add: dependencies_def kProfileRules_def insert_commute)

lemma profiles_of_Close: "profiles_of (CloseProfileBits bits) =
    profiles_of bits \<union> (if PF_EditableObjects \<in> profiles_of bits then {PF_EditableText} else {}) \<union>
    (if profiles_of bits - {PF_Structure} \<noteq> {} then {PF_Structure} else {})"
proof -
  have other: "profiles_of bits - {PF_Structure} \<noteq> {} \<longleftrightarrow>
      PF_EditableObjects \<in> profiles_of bits \<or> PF_EditableText \<in> profiles_of bits \<or>
      PF_Layout \<in> profiles_of bits \<or> PF_BinaryContent \<in> profiles_of bits"
    using ProfileId.exhaust by auto
  have mem: "a AND ProfileBit p = 0 \<longleftrightarrow> p \<notin> profiles_of a" for a p
    by (simp add: profiles_of_def)
  show ?thesis
    unfolding other
    by (cases "PF_EditableObjects \<in> profiles_of bits")
      (auto simp: CloseProfileBits_def Let_def and_or_zero mem)
qed

text \<open>\<open>CloseProfileBits\<close> is the least closure of a profile mask under the dependency
  table \<open>kProfileRules\<close>: it keeps every selected profile, its result is closed under the
  dependencies, and it is contained in every closed superset of the mask.\<close>

lemma CloseProfileBits_least:
  "profiles_of bits \<subseteq> profiles_of (CloseProfileBits bits) \<and>
   (\<Union>p \<in> profiles_of (CloseProfileBits bits). dependencies p) \<subseteq> profiles_of (CloseProfileBits bits) \<and>
   \<Inter>{P. profiles_of bits \<subseteq> P \<and> (\<Union>p \<in> P. dependencies p) \<subseteq> P} = profiles_of (CloseProfileBits bits)"
proof -
  let ?C = "profiles_of (CloseProfileBits bits)"
  have sub: "profiles_of bits \<subseteq> ?C"
    by (auto simp: profiles_of_Close)
  have closed: "(\<Union>p \<in> ?C. dependencies p) \<subseteq> ?C"
    by (auto simp: profiles_of_Close dependencies_eq split: ProfileId.splits if_splits)
  have least: "?C \<subseteq> P" if P: "profiles_of bits \<subseteq> P" "(\<Union>p \<in> P. dependencies p) \<subseteq> P" for P
  proof
    fix p assume "p \<in> ?C"
    then consider "p \<in> profiles_of bits" | "p = PF_EditableText" "PF_EditableObjects \<in> profiles_of bits"
      | q where "p = PF_Structure" "q \<in> profiles_of bits" "q \<noteq> PF_Structure"
      by (auto simp: profiles_of_Close split: if_splits)
    then show "p \<in> P"
    proof cases
      case 2
      have "PF_EditableText \<in> dependencies PF_EditableObjects"
        by (simp add: dependencies_eq)
      with 2 P show ?thesis by blast
    next
      case 3
      then have "PF_Structure \<in> dependencies q"
        by (cases q) (simp_all add: dependencies_eq)
      with 3 P show ?thesis by blast
    qed (use P in blast)
  qed
  show ?thesis
  proof (intro conjI sub closed equalityI)
    show "\<Inter>{P. profiles_of bits \<subseteq> P \<and> (\<Union>p \<in> P. dependencies p) \<subseteq> P} \<subseteq> ?C"
      using sub closed by (intro Inter_lower CollectI conjI)
    show "?C \<subseteq> \<Inter>{P. profiles_of bits \<subseteq> P \<and> (\<Union>p \<in> P. dependencies p) \<subseteq> P}"
      by (rule Inter_greatest) (use least in simp)
  qed
qed

subsection \<open>Header checks accept exactly the ordered lists\<close>

lemma validate_headers_None:
  "validate_headers known first previous headers = SE_None \<longleftrightarrow>
    sorted_wrt (<) (map fh_tag headers) \<and>
    (first \<or> headers = [] \<or> previous < fh_tag (hd headers)) \<and>
    (\<forall>h \<in> set headers. fh_tag h \<noteq> 9 \<and>
       (fh_flags h AND kFieldFlagRequired \<noteq> 0 \<longrightarrow> fh_tag h \<in> set known))"
proof (induction headers arbitrary: first previous)
  case (Cons h hs)
  have known: "IsKnownField known (fh_tag h) \<longleftrightarrow> fh_tag h \<in> set known"
    by (auto simp: IsKnownField_def list_ex_iff)
  have step: "sorted_wrt (<) (map fh_tag (h # hs)) \<longleftrightarrow>
      sorted_wrt (<) (map fh_tag hs) \<and> (hs = [] \<or> fh_tag h < fh_tag (hd hs))"
    by (cases hs) (auto simp: less_trans)
  show ?case
  proof (cases "fh_tag h \<noteq> 9 \<and> (first \<or> previous < fh_tag h) \<and>
      (fh_flags h AND kFieldFlagRequired \<noteq> 0 \<longrightarrow> fh_tag h \<in> set known)")
    case True
    then have rec: "validate_headers known first previous (h # hs) = validate_headers known False (fh_tag h) hs"
      by (auto simp: known kReservedCommonFieldTagV1_def)
    from True show ?thesis
      unfolding rec step Cons.IH [of False "fh_tag h"] by simp
  next
    case False
    then have "validate_headers known first previous (h # hs) \<noteq> SE_None"
      by (auto simp: known kReservedCommonFieldTagV1_def)
    with False show ?thesis
      by auto
  qed
qed simp

text \<open>\<open>ValidateFieldHeaders\<close> accepts a record exactly when its field tags strictly
  increase, the reserved tag 9 does not occur, and every field marked required is a known one.\<close>

lemma ValidateFieldHeaders_iff:
  "ValidateFieldHeaders headers known = SE_None \<longleftrightarrow>
    sorted_wrt (<) (map fh_tag headers) \<and>
    list_all (\<lambda>h. fh_tag h \<noteq> 9 \<and> (fh_flags h AND 1 = 0 \<or> fh_tag h \<in> set known)) headers"
  unfolding ValidateFieldHeaders_def validate_headers_None list_all_iff kFieldFlagRequired_def
  by blast

lemma ValidateSortedPropertyKeys_iff:
  "ValidateSortedPropertyKeys keys = SE_None \<longleftrightarrow> sorted_wrt (<) keys"
proof (induction keys rule: ValidateSortedPropertyKeys.induct)
  case (1 k k' keys)
  have step: "sorted_wrt (<) (k # k' # keys) \<longleftrightarrow> k < k' \<and> sorted_wrt (<) (k' # keys)"
    by (rule sorted_wrt2) (simp add: transp_def)
  show ?case
    unfolding step using 1
    by (cases k k' rule: linorder_cases) (auto simp del: sorted_wrt.simps dest: less_asym)
qed simp_all

subsection \<open>The rule tables fit each other\<close>

text \<open>The cardinalities agree with the legality rules: a node kind may be contained
  (its incoming cardinality is not zero) exactly when some parent is legal for it, and a kind
  must carry an anchor edge exactly when some anchor edge from it is legal.\<close>

theorem cardinality_matches_legality:
  "(IncomingCardinality EK_Contains child = EC_Zero \<longleftrightarrow>
     (\<nexists>parent childStory parentStory. IsLegalPrimaryParent child parent childStory parentStory)) \<and>
   (OutgoingCardinality EK_Anchors source complete definition_kind = EC_ExactlyOne \<longleftrightarrow>
     (\<exists>target. IsLegalReferenceEdge EK_Anchors source target definition_kind targetDefinition
        sourceStory targetStory))"
proof -
  have "\<exists>parent childStory parentStory. IsLegalPrimaryParent child parent childStory parentStory"
    if "child \<noteq> NK_Document"
  proof (cases child)
    case NK_Story
    then have "IsLegalPrimaryParent child NK_Document SK_Body SK_Body"
      by (simp add: IsLegalPrimaryParent_def)
    then show ?thesis by blast
  qed (use that in \<open>auto simp: IsLegalPrimaryParent_def IsControlKind_def\<close>)
  moreover have "\<not> IsLegalPrimaryParent NK_Document parent childStory parentStory"
    for parent childStory parentStory
    by (simp add: IsLegalPrimaryParent_def)
  ultimately show ?thesis
    by (auto simp: IncomingCardinality_def OutgoingCardinality_def IsLegalReferenceEdge_def)
qed

text \<open>The field tables list their tags in the order \<open>ValidateFieldHeaders\<close> demands.\<close>

definition table_headers :: "FieldTag list \<Rightarrow> FieldHeaderView list" where
  "table_headers tags = map (\<lambda>tag. \<lparr>fh_tag = tag, fh_flags = kFieldFlagRequired, fh_valueBytes = 0\<rparr>) tags"

definition record_tags :: "RecordKind \<Rightarrow> FieldTag list" where
  "record_tags kind = map rf_tag (filter (\<lambda>r. rf_record r = kind) kRecordFieldRules)"

definition node_tags :: "NodeKind \<Rightarrow> FieldTag list" where
  "node_tags kind = map nf_tag kCommonNodeFieldRules @
     map nf_tag (filter (\<lambda>r. nf_node r = kind) kNodePayloadFieldRules)"

text \<open>The field tables of the schema are consistent with the header check: a record
  that carries all the fields of its record kind, or a node all the common and payload fields of
  its node kind, in table order, is accepted.\<close>

theorem field_tables_accepted:
  "ValidateFieldHeaders (table_headers (record_tags record_kind)) (record_tags record_kind) = SE_None \<and>
   ValidateFieldHeaders (table_headers (node_tags node_kind)) (node_tags node_kind) = SE_None"
proof
  show "ValidateFieldHeaders (table_headers (record_tags record_kind)) (record_tags record_kind) = SE_None"
    by (cases record_kind; simp only:) code_simp+
  show "ValidateFieldHeaders (table_headers (node_tags node_kind)) (node_tags node_kind) = SE_None"
    by (cases node_kind; simp only:) code_simp+
qed

lemma IsValidUtf16Slice_exact:
  "IsValidUtf16Slice bytes_length codeUnitCount \<longleftrightarrow> unat bytes_length = 2 * unat codeUnitCount"
proof -
  have half: "unat ((- 1 :: u64) div 2) = 9223372036854775807"
    by (simp add: unat_div)
  have "codeUnitCount \<le> (- 1) div 2 \<longleftrightarrow> unat codeUnitCount \<le> 9223372036854775807"
    by (simp add: word_le_nat_alt half)
  moreover have "unat (codeUnitCount * 2) = unat codeUnitCount * 2"
    if "unat codeUnitCount \<le> 9223372036854775807"
    using that by (simp add: unat_mult_lem [THEN iffD1])
  moreover have "unat bytes_length < 18446744073709551616"
    using unsigned_less [of bytes_length] by simp
  ultimately show ?thesis
    unfolding IsValidUtf16Slice_def by (auto simp: word_unat_eq_iff)
qed

end
