(* ===== verification/GraphUuid.thy ===== *)
theory GraphUuid
  imports GraphSchema
begin

section \<open>Identities: UUIDs and their minting (DocumentGraphIdentity.cpp)\<close>

text \<open>
  Equality, the version-4 test, the canonical text form in both directions, and the two minting
  routines over a source of random bytes. The last part is the contract that the stateful
  components keep towards their clients: an identity that was retired never comes back.
\<close>

subsection \<open>Values\<close>

text \<open>\<open>std::array\<close>s of 16 and of 32 bytes.\<close>

type_synonym Uuid128 = "u8 list"
type_synonym Sha256 = "u8 list"

definition EqualUuid :: "Uuid128 \<Rightarrow> Uuid128 \<Rightarrow> bool" where
  "EqualUuid left right \<longleftrightarrow> left = right"

definition IsZeroUuid :: "Uuid128 \<Rightarrow> bool" where
  "IsZeroUuid value \<longleftrightarrow> list_all (\<lambda>byte. byte = 0) value"

definition IsRfc4122V4 :: "Uuid128 \<Rightarrow> bool" where
  "IsRfc4122V4 value \<longleftrightarrow> \<not> IsZeroUuid value \<and> (value ! 6 AND 0xf0) = 0x40 \<and>
     (value ! 8 AND 0xc0) = 0x80"

definition EqualHash :: "Sha256 \<Rightarrow> Sha256 \<Rightarrow> bool" where
  "EqualHash left right \<longleftrightarrow> left = right"

definition ZeroHash :: "Sha256 \<Rightarrow> bool" where
  "ZeroHash value \<longleftrightarrow> list_all (\<lambda>byte. byte = 0) value"

definition ContainsId :: "Uuid128 list \<Rightarrow> Uuid128 \<Rightarrow> bool" where
  "ContainsId values wanted \<longleftrightarrow> list_ex (\<lambda>value. EqualUuid value wanted) values"

lemma ContainsId_iff [simp]: "ContainsId values wanted \<longleftrightarrow> wanted \<in> set values"
  by (auto simp: ContainsId_def EqualUuid_def list_ex_iff)

definition zero_uuid :: Uuid128 where
  "zero_uuid = replicate 16 0"

definition zero_hash :: Sha256 where
  "zero_hash = replicate 32 0"

subsection \<open>The canonical text form\<close>

definition HexValue :: "wchar \<Rightarrow> int" where
  "HexValue character =
     (if ch CHR ''0'' \<le> character \<and> character \<le> ch CHR ''9'' then character - ch CHR ''0''
      else if ch CHR ''a'' \<le> character \<and> character \<le> ch CHR ''f'' then character - ch CHR ''a'' + 10
      else if ch CHR ''A'' \<le> character \<and> character \<le> ch CHR ''F'' then character - ch CHR ''A'' + 10
      else -1)"

text \<open>
  The loop over the 36 characters; \<open>index\<close> is the position of the head of the list. A pair of
  hexadecimal digits that runs into the terminator fails, as \<open>HexValue\<close> of it is negative.
\<close>

fun parse_uuid :: "nat \<Rightarrow> wstring \<Rightarrow> u8 list \<Rightarrow> u8 list option" where
  "parse_uuid index [] parsed = Some parsed"
| "parse_uuid index (c # cs) parsed =
     (if index = 8 \<or> index = 13 \<or> index = 18 \<or> index = 23
      then (if c \<noteq> ch CHR ''-'' then None else parse_uuid (index + 1) cs parsed)
      else case cs of
             [] \<Rightarrow> None
           | d # ds \<Rightarrow>
               let high = HexValue c; low = HexValue d
               in if high < 0 \<or> low < 0 \<or> length parsed \<ge> 16 then None
                  else parse_uuid (index + 2) ds (parsed @ [word_of_int (push_bit 4 high OR low)]))"

definition ParseCanonicalUuid :: "wstring \<Rightarrow> Uuid128 option" where
  "ParseCanonicalUuid t =
     (if length t \<noteq> 36 then None
      else case parse_uuid 0 t [] of
             None \<Rightarrow> None
           | Some parsed \<Rightarrow>
               if length parsed \<noteq> 16 \<or> \<not> IsRfc4122V4 parsed then None else Some parsed)"

definition hex :: "u8 \<Rightarrow> wchar" where
  "hex digit = L ''0123456789abcdef'' ! unat digit"

definition FormatCanonicalUuid :: "Uuid128 \<Rightarrow> wstring" where
  "FormatCanonicalUuid value =
     concat (map (\<lambda>index.
         (if index = 4 \<or> index = 6 \<or> index = 8 \<or> index = 10 then [ch CHR ''-''] else []) @
         [hex (drop_bit 4 (value ! index)), hex (value ! index AND 0x0f)])
       [0..<length value])"

subsection \<open>Minting\<close>

text \<open>
  A \<open>UuidSource\<close> is a function pointer with a context. The function gets the buffer and
  answers whether it succeeded, the bytes it stored and the context it left; the buffer keeps
  its size whatever the function stores. \<open>SystemRandomBytes\<close> is the bridge's own function over
  the system generator, kept apart because the code compares the pointer with it.
\<close>

type_synonym 'c fill = "'c \<Rightarrow> u8 list \<Rightarrow> bool \<times> u8 list \<times> 'c"

datatype 'c UuidSource = NullFill | SystemRandomBytes "'c fill" | InjectedFill "'c fill"

fun source_fill :: "'c UuidSource \<Rightarrow> 'c fill option" where
  "source_fill NullFill = None"
| "source_fill (SystemRandomBytes fill) = Some fill"
| "source_fill (InjectedFill fill) = Some fill"

definition array_store :: "u8 list \<Rightarrow> u8 list \<Rightarrow> u8 list" where
  "array_store buffer bytes = take (length buffer) bytes @ drop (length bytes) buffer"

lemma length_array_store [simp]: "length (array_store buffer bytes) = length buffer"
  by (simp add: array_store_def)

definition stamp_version :: "Uuid128 \<Rightarrow> Uuid128" where
  "stamp_version value =
     (let v6 = value[6 := (value ! 6 AND 0x0f) OR 0x40]
      in v6[8 := (v6 ! 8 AND 0x3f) OR 0x80])"

definition MintUuidV4 :: "'c UuidSource \<Rightarrow> 'c \<Rightarrow> Uuid128 \<Rightarrow> bool \<times> Uuid128 \<times> 'c" where
  "MintUuidV4 source ctx value =
     (case source_fill source of
        None \<Rightarrow> (False, value, ctx)
      | Some fill \<Rightarrow>
          (case fill ctx value of (filled, bytes, ctx') \<Rightarrow>
             if \<not> filled then (False, array_store value bytes, ctx')
             else (True, stamp_version (array_store value bytes), ctx')))"

datatype MintResult = Minted | SourceFailure | MintExhausted

definition kUuidCollisionAttempts :: nat where
  "kUuidCollisionAttempts = 16"

fun mint_attempts ::
  "nat \<Rightarrow> 'c UuidSource \<Rightarrow> 'c \<Rightarrow> Uuid128 list \<Rightarrow> Uuid128 \<Rightarrow> MintResult \<times> Uuid128 \<times> 'c" where
  "mint_attempts 0 source ctx forbidden buffer = (MintExhausted, buffer, ctx)"
| "mint_attempts (Suc attempts) source ctx forbidden buffer =
     (case MintUuidV4 source ctx buffer of (ok, buffer', ctx') \<Rightarrow>
        if \<not> ok then (SourceFailure, buffer', ctx')
        else if \<not> ContainsId forbidden buffer' then (Minted, buffer', ctx')
        else mint_attempts attempts source ctx' forbidden buffer')"

definition MintDistinctUuid ::
  "'c UuidSource \<Rightarrow> 'c \<Rightarrow> Uuid128 list \<Rightarrow> Uuid128 \<Rightarrow> MintResult \<times> Uuid128 \<times> 'c" where
  "MintDistinctUuid source ctx forbidden buffer =
     mint_attempts kUuidCollisionAttempts source ctx forbidden buffer"

definition UsesDefaultUuidSource :: "'c UuidSource \<Rightarrow> bool" where
  "UsesDefaultUuidSource source \<longleftrightarrow>
     (case source of NullFill \<Rightarrow> True | SystemRandomBytes _ \<Rightarrow> True | InjectedFill _ \<Rightarrow> False)"

subsection \<open>What minting guarantees\<close>

text \<open>A 16-byte version-4 identity.\<close>

definition proper_id :: "Uuid128 \<Rightarrow> bool" where
  "proper_id u \<longleftrightarrow> length u = 16 \<and> IsRfc4122V4 u"

lemma stamp_bits:
  "((b AND 0x0f) OR 0x40) AND 0xf0 = (0x40 :: u8)" "((b AND 0x3f) OR 0x80) AND 0xc0 = (0x80 :: u8)"
  "((b AND 0x0f) OR 0x40) \<noteq> (0 :: u8)"
proof -
  show 1: "((b AND 0x0f) OR 0x40) AND 0xf0 = (0x40 :: u8)"
    and "((b AND 0x3f) OR 0x80) AND 0xc0 = (0x80 :: u8)"
    by (simp_all add: bit.conj_disj_distrib2 and.assoc)
  show "((b AND 0x0f) OR 0x40) \<noteq> (0 :: u8)"
    using 1 by auto
qed

lemma stamp_version_proper: "length buffer = 16 \<Longrightarrow> proper_id (stamp_version buffer)"
  by (auto simp: proper_id_def stamp_version_def Let_def IsRfc4122V4_def IsZeroUuid_def list_all_length
      stamp_bits nth_list_update intro!: exI [of _ 6])

lemma MintUuidV4_proper:
  assumes "MintUuidV4 source ctx buffer = (ok, buffer', ctx')" "length buffer = 16"
  shows "length buffer' = 16 \<and> (ok \<longrightarrow> proper_id buffer')"
  using assms stamp_version_proper
  by (auto simp: MintUuidV4_def proper_id_def split: option.splits prod.splits if_splits)

lemma mint_attempts_proper:
  assumes "mint_attempts n source ctx forbidden buffer = (r, buffer', ctx')" "length buffer = 16"
  shows "length buffer' = 16 \<and> (r = Minted \<longrightarrow> proper_id buffer' \<and> buffer' \<notin> set forbidden)"
  using assms
proof (induction n arbitrary: ctx buffer)
  case (Suc n)
  obtain ok v1 c1 where m: "MintUuidV4 source ctx buffer = (ok, v1, c1)"
    by (cases "MintUuidV4 source ctx buffer") auto
  with MintUuidV4_proper [OF m Suc.prems(2)] Suc show ?case
    by (auto split: if_splits)
qed simp

lemma MintDistinctUuid_proper:
  assumes "MintDistinctUuid source ctx forbidden zero_uuid = (Minted, u, ctx')"
  shows "proper_id u" "u \<notin> set forbidden"
  using mint_attempts_proper [OF assms [unfolded MintDistinctUuid_def]] by (simp_all add: zero_uuid_def)

text \<open>The successive candidates of a minting loop.\<close>

fun mint_candidates :: "nat \<Rightarrow> 'c UuidSource \<Rightarrow> 'c \<Rightarrow> Uuid128 \<Rightarrow> (bool \<times> Uuid128) list" where
  "mint_candidates 0 source ctx buffer = []"
| "mint_candidates (Suc n) source ctx buffer =
     (case MintUuidV4 source ctx buffer of (ok, buffer', ctx') \<Rightarrow>
        (ok, buffer') # mint_candidates n source ctx' buffer')"

lemma mint_attempts_candidates:
  "fst (mint_attempts n source ctx forbidden buffer) =
    (case dropWhile (\<lambda>(ok, u). ok \<and> u \<in> set forbidden) (mint_candidates n source ctx buffer) of
       [] \<Rightarrow> MintExhausted
     | (ok, u) # _ \<Rightarrow> if ok then Minted else SourceFailure)"
  by (induction n arbitrary: ctx buffer) (auto split: prod.splits)

text \<open>\<open>MintDistinctUuid\<close> returns an identity only if it is an RFC 4122 version-4 UUID
  outside the forbidden list; it reports exhaustion exactly when all sixteen candidates of the
  source are forbidden, and a source failure exactly when the source fails before it has
  delivered an acceptable candidate.\<close>

lemma MintDistinctUuid_spec:
  "case MintDistinctUuid source ctx forbidden zero_uuid of (r, u, ctx') \<Rightarrow>
     let candidates = mint_candidates 16 source ctx zero_uuid;
         rest = dropWhile (\<lambda>(ok, v). ok \<and> v \<in> set forbidden) candidates
     in if r = Minted then length u = 16 \<and> IsRfc4122V4 u \<and> u \<notin> set forbidden \<and> rest \<noteq> [] \<and> fst (hd rest)
        else if r = MintExhausted
        then list_all (\<lambda>(ok, v). ok \<and> v \<in> set forbidden) candidates
        else rest \<noteq> [] \<and> \<not> fst (hd rest)"
proof -
  obtain r u ctx' where m: "MintDistinctUuid source ctx forbidden zero_uuid = (r, u, ctx')"
    by (cases "MintDistinctUuid source ctx forbidden zero_uuid") auto
  let ?candidates = "mint_candidates 16 source ctx zero_uuid"
  let ?rest = "dropWhile (\<lambda>(ok, v). ok \<and> v \<in> set forbidden) ?candidates"
  have r: "r = (case ?rest of [] \<Rightarrow> MintExhausted | (ok, u) # _ \<Rightarrow> if ok then Minted else SourceFailure)"
    using m mint_attempts_candidates [of 16 source ctx forbidden zero_uuid]
    by (simp add: MintDistinctUuid_def kUuidCollisionAttempts_def)
  have minted: "length u = 16 \<and> IsRfc4122V4 u \<and> u \<notin> set forbidden" if "r = Minted"
    using MintDistinctUuid_proper [OF m [unfolded that]] by (simp add: proper_id_def)
  show ?thesis
  proof (cases ?rest)
    case Nil
    then have "list_all (\<lambda>(ok, v). ok \<and> v \<in> set forbidden) ?candidates"
      unfolding dropWhile_eq_Nil_conv list_all_iff by blast
    moreover have "r = MintExhausted"
      unfolding r Nil by simp
    ultimately show ?thesis
      unfolding m by simp
  next
    case (Cons p ps)
    with r m minted show ?thesis
      by (cases p) (auto split: if_splits)
  qed
qed

subsection \<open>Text round trips\<close>

lemma HexValue_hex:
  assumes "unat d < 16"
  shows "HexValue (hex d) = uint d"
proof -
  have "\<forall>k \<in> set [0..<16]. HexValue (L ''0123456789abcdef'' ! k) = int k"
    by code_simp
  then have "HexValue (L ''0123456789abcdef'' ! unat d) = int (unat d)"
    using assms by (metis atLeastLessThan_iff le0 set_upt)
  then show ?thesis
    by (simp add: hex_def)
qed

lemma nibbles:
  fixes b :: u8
  shows "unat (drop_bit 4 b) < 16" "unat (b AND 0x0f) < 16"
    and "word_of_int (push_bit 4 (uint (drop_bit 4 b)) OR uint (b AND 0x0f)) = b"
proof -
  have "unat b < 256"
    using unsigned_less [of b] by simp
  then show "unat (drop_bit 4 b) < 16"
    by (simp add: drop_bit_eq_div unat_div less_mult_imp_div_less)
  have "b AND 0x0f \<le> 0x0f"
    by (simp add: word_and_le1)
  then show "unat (b AND 0x0f) < 16"
    by (simp add: word_le_nat_alt)
  have low: "b AND 0x0f = take_bit 4 b"
    by (simp add: take_bit_eq_mask mask_eq_exp_minus_1)
  show "word_of_int (push_bit 4 (uint (drop_bit 4 b)) OR uint (b AND 0x0f)) = b"
    unfolding low by (rule bit_word_eqI) (auto simp: bit_simps)
qed

lemma byte_text:
  "0 \<le> HexValue (hex (drop_bit 4 b))" "0 \<le> HexValue (hex (b AND 0x0f))"
  "word_of_int (push_bit 4 (HexValue (hex (drop_bit 4 b))) OR HexValue (hex (b AND 0x0f))) = b"
  unfolding HexValue_hex [OF nibbles(1)] HexValue_hex [OF nibbles(2)] nibbles(3) by simp_all

lemma hex_parse:
  assumes "index \<noteq> 8" "index \<noteq> 13" "index \<noteq> 18" "index \<noteq> 23" "length parsed < 16"
  shows "parse_uuid index (hex (drop_bit 4 b) # hex (b AND 0x0f) # cs) parsed =
    parse_uuid (index + 2) cs (parsed @ [b])"
  using assms byte_text [of b] by (simp add: Let_def)

lemma dash_parse:
  assumes "index = 8 \<or> index = 13 \<or> index = 18 \<or> index = 23"
  shows "parse_uuid index (ch CHR ''-'' # cs) parsed = parse_uuid (index + 1) cs parsed"
  using assms by simp

lemma length_16_cases:
  assumes "length (u :: 'a list) = 16"
  obtains a b c d e f g h i j k l m n p q where "u = [a, b, c, d, e, f, g, h, i, j, k, l, m, n, p, q]"
  using assms that by (auto simp: length_Suc_conv eval_nat_numeral)

definition byte_chars :: "u8 \<Rightarrow> wstring" where
  "byte_chars b = [hex (drop_bit 4 b), hex (b AND 0x0f)]"

text \<open>The same text, written from a character index on.\<close>

fun render :: "nat \<Rightarrow> u8 list \<Rightarrow> wstring" where
  "render index [] = []"
| "render index (b # bs) =
     (if index = 8 \<or> index = 13 \<or> index = 18 \<or> index = 23
      then ch CHR ''-'' # byte_chars b @ render (index + 3) bs
      else byte_chars b @ render (index + 2) bs)"

lemma Format_render: "length u = 16 \<Longrightarrow> FormatCanonicalUuid u = render 0 u"
  by (erule length_16_cases) (simp add: FormatCanonicalUuid_def byte_chars_def upt_rec)

lemma parse_render:
  assumes "length u = 16"
  shows "parse_uuid 0 (render 0 u) [] = Some u"
  using assms
  by (rule length_16_cases)
    (simp add: byte_chars_def hex_parse dash_parse del: parse_uuid.simps(2))

lemma length_render:
  assumes "length u = 16"
  shows "length (render 0 u) = 36"
  using assms by (rule length_16_cases) (simp add: byte_chars_def)

text \<open>The canonical text of a version-4 UUID parses back to it.\<close>

lemma parse_format_uuid:
  assumes "length u = 16" "IsRfc4122V4 u"
  shows "ParseCanonicalUuid (FormatCanonicalUuid u) = Some u"
  using assms by (simp add: ParseCanonicalUuid_def Format_render parse_render length_render)

definition sample_uuid :: Uuid128 where
  "sample_uuid = [0x12, 0x34, 0x56, 0x78, 0x9a, 0xbc, 0x4d, 0xef, 0x80, 0x01, 0x02, 0x03, 0x04, 0x05, 0x06, 0xff]"

lemma parse_format_uuid_witness:
  "ParseCanonicalUuid (FormatCanonicalUuid sample_uuid) = Some sample_uuid \<and>
   FormatCanonicalUuid sample_uuid = L ''12345678-9abc-4def-8001-0203040506ff''"
proof -
  have "length sample_uuid = 16" "IsRfc4122V4 sample_uuid"
    "FormatCanonicalUuid sample_uuid = L ''12345678-9abc-4def-8001-0203040506ff''"
    by code_simp+
  then show ?thesis
    using parse_format_uuid [of sample_uuid] by simp
qed

definition hex_chars :: "wchar list" where
  "hex_chars = [48..57] @ [97..102] @ [65..70]"

lemma HexValue_nonneg: "0 \<le> HexValue c \<Longrightarrow> c \<in> set hex_chars"
  unfolding hex_chars_def set_append set_upto
  by (auto simp: HexValue_def ch_def simp del: atLeastAtMost_iff split: if_splits) simp_all

lemma hex_char:
  assumes "0 \<le> HexValue c"
  shows "HexValue c < 16" "hex (word_of_int (HexValue c)) = towlower c"
proof -
  have "\<forall>c \<in> set hex_chars. HexValue c < 16 \<and> hex (word_of_int (HexValue c)) = towlower c"
    by code_simp
  then show "HexValue c < 16" "hex (word_of_int (HexValue c)) = towlower c"
    using HexValue_nonneg [OF assms] by blast+
qed

lemma nibble_join:
  fixes h l :: int
  assumes "0 \<le> h" "h < 16" "0 \<le> l" "l < 16"
  shows "drop_bit 4 (word_of_int (push_bit 4 h OR l) :: u8) = word_of_int h"
    and "(word_of_int (push_bit 4 h OR l) :: u8) AND 0x0f = word_of_int l"
proof -
  have "take_bit 4 h = h" "take_bit 4 l = l"
    using assms by (simp_all add: take_bit_int_eq_self)
  then have high: "bit h n \<Longrightarrow> n < 4" "bit l n \<Longrightarrow> n < 4" for n
    by (metis bit_take_bit_iff)+
  then have no: "\<not> bit h (4 + n)" "\<not> bit l (4 + n)" for n
    by (meson not_add_less1)+
  show "drop_bit 4 (word_of_int (push_bit 4 h OR l) :: u8) = word_of_int h"
    by (rule bit_word_eqI) (auto simp: bit_simps no dest: high)
  have low: "w AND 0x0f = take_bit 4 w" for w :: u8
    by (simp add: take_bit_eq_mask mask_eq_exp_minus_1)
  show "(word_of_int (push_bit 4 h OR l) :: u8) AND 0x0f = word_of_int l"
    unfolding low by (rule bit_word_eqI) (auto simp: bit_simps dest: high)
qed

lemma byte_chars_value:
  assumes "0 \<le> HexValue c" "0 \<le> HexValue d"
  shows "byte_chars (word_of_int (push_bit 4 (HexValue c) OR HexValue d)) = [towlower c, towlower d]"
  using assms hex_char nibble_join [of "HexValue c" "HexValue d"] by (simp add: byte_chars_def)

lemma parse_uuid_text:
  assumes "parse_uuid index cs parsed = Some u" "index + length cs = 36"
  shows "\<exists>bs. u = parsed @ bs \<and> map towlower cs = render index bs"
  using assms
proof (induction index cs parsed rule: parse_uuid.induct)
  case (2 index c cs parsed)
  show ?case
  proof (cases "index = 8 \<or> index = 13 \<or> index = 18 \<or> index = 23")
    case True
    then have c: "c = ch CHR ''-''" and rec: "parse_uuid (index + 1) cs parsed = Some u"
      using 2(3) by (auto split: if_splits)
    obtain bs where bs: "u = parsed @ bs" "map towlower cs = render (index + 1) bs"
      using 2(1) [OF True _ rec] c 2(4) by auto
    have "cs \<noteq> []"
      using True 2(4) by auto
    then obtain b bs' where "bs = b # bs'"
      using bs(2) by (cases bs) auto
    moreover have "towlower c = ch CHR ''-''"
      by (simp add: c towlower_def ch_def)
    ultimately show ?thesis
      using True bs by (intro exI [of _ bs]) auto
  next
    case False
    then obtain d ds where cs: "cs = d # ds"
      using 2(3) by (cases cs) auto
    have nonneg: "0 \<le> HexValue c" "0 \<le> HexValue d"
      and rec: "parse_uuid (index + 2) ds (parsed @ [word_of_int (push_bit 4 (HexValue c) OR HexValue d)]) = Some u"
      using 2(3) False cs by (auto simp: Let_def split: if_splits)
    obtain bs where bs: "u = (parsed @ [word_of_int (push_bit 4 (HexValue c) OR HexValue d)]) @ bs"
      "map towlower ds = render (index + 2) bs"
      using 2(2) [OF False cs refl refl _ rec] 2(3,4) False cs by (auto simp: Let_def split: if_splits)
    with False cs byte_chars_value [OF nonneg] show ?thesis
      by (intro exI [of _ "word_of_int (push_bit 4 (HexValue c) OR HexValue d) # bs"]) simp
  qed
qed simp

text \<open>A text that \<open>ParseCanonicalUuid\<close> accepts is a version-4 UUID in hexadecimal,
  and formatting the result gives the text back in lower case.\<close>

lemma format_parse_uuid:
  assumes "ParseCanonicalUuid t = Some u"
  shows "length u = 16 \<and> IsRfc4122V4 u \<and> FormatCanonicalUuid u = map towlower t"
proof -
  have parsed: "parse_uuid 0 t [] = Some u" and len: "length t = 36" "length u = 16" and v4: "IsRfc4122V4 u"
    using assms by (auto simp: ParseCanonicalUuid_def split: if_splits option.splits)
  have "map towlower t = render 0 u"
    using parse_uuid_text [OF parsed] len(1) by auto
  with len v4 show ?thesis
    by (simp add: Format_render)
qed

lemma format_parse_uuid_witness:
  "FormatCanonicalUuid sample_uuid = map towlower (L ''12345678-9ABC-4DEF-8001-0203040506FF'')"
proof -
  have "ParseCanonicalUuid (L ''12345678-9ABC-4DEF-8001-0203040506FF'') = Some sample_uuid"
    by code_simp
  from format_parse_uuid [OF this] show ?thesis
    by blast
qed

subsection \<open>Identities that never come back\<close>

text \<open>
  The promise of the components that hand out identities: what is live was handed out, nothing
  handed out is forgotten, and a step brings to life only identities that were live already or
  never handed out before. Hence an identity that is retired stays retired.
\<close>

locale identity_history =
  fixes valid :: "'s \<Rightarrow> bool"
    and live :: "'s \<Rightarrow> Uuid128 set"
    and used :: "'s \<Rightarrow> Uuid128 set"
    and step :: "'s \<Rightarrow> 's \<Rightarrow> bool"
  assumes valid_step: "valid s \<Longrightarrow> step s s' \<Longrightarrow> valid s'"
    and live_used: "valid s \<Longrightarrow> live s \<subseteq> used s"
    and used_mono: "valid s \<Longrightarrow> step s s' \<Longrightarrow> used s \<subseteq> used s'"
    and no_revival: "valid s \<Longrightarrow> step s s' \<Longrightarrow> live s' \<inter> used s \<subseteq> live s"
begin

lemma steps_valid: "step\<^sup>*\<^sup>* s s' \<Longrightarrow> valid s \<Longrightarrow> valid s'"
  by (induction rule: rtranclp_induct) (auto intro: valid_step)

lemma steps_used: "step\<^sup>*\<^sup>* s s' \<Longrightarrow> valid s \<Longrightarrow> used s \<subseteq> used s'"
  by (induction rule: rtranclp_induct) (use used_mono steps_valid in blast)+

lemma retired_forever:
  "step\<^sup>*\<^sup>* s s' \<Longrightarrow> valid s \<Longrightarrow> u \<in> used s \<Longrightarrow> u \<notin> live s \<Longrightarrow> u \<notin> live s' \<and> u \<in> used s'"
proof (induction rule: rtranclp_induct)
  case (step t t')
  have "valid t"
    using step.hyps(1) step.prems(1) by (rule steps_valid)
  with step no_revival used_mono show ?case
    by blast
qed simp

end

end
