(* ===== verification/SessionAliases.thy ===== *)
theory SessionAliases
  imports GraphUuid
begin

section \<open>Document sessions and their aliases (DocumentGraphIdentity.cpp)\<close>

text \<open>
  The registry of open documents: a session has a canonical identity, a minted session id, a
  locator and the list of aliases it is known by. Its contract is a finite map from aliases to
  sessions. Path canonicalization and the case-insensitive comparison are Windows calls and
  parameters of the model.
\<close>

subsection \<open>Locators\<close>

text \<open>
  The Windows functions: \<open>pe_fullPath\<close> is the text \<open>GetFullPathNameW\<close> delivers (\<open>None\<close> when
  either call fails or the buffer is too small), \<open>pe_canonical\<close> that of
  \<open>PathCchCanonicalizeEx\<close>, \<open>pe_equal\<close> tells whether \<open>CompareStringOrdinal\<close> answers
  \<open>CSTR_EQUAL\<close>.
\<close>

record PathApi =
  pe_fullPath :: "wstring \<Rightarrow> wstring option"
  pe_canonical :: "wstring \<Rightarrow> wstring option"
  pe_equal :: "wstring \<Rightarrow> wstring \<Rightarrow> bool"

text \<open>The prefixes \<open>\\?\UNC\\<close> and \<open>\\?\\<close>.\<close>

definition uncPrefix :: wstring where
  "uncPrefix = [92, 92, 63, 92, 85, 78, 67, 92]"

definition longPrefix :: wstring where
  "longPrefix = [92, 92, 63, 92]"

definition starts_with :: "wstring \<Rightarrow> wstring \<Rightarrow> bool" where
  "starts_with prefix s \<longleftrightarrow> take (length prefix) s = prefix"

definition NormalizeDocumentPath :: "PathApi \<Rightarrow> wstring \<Rightarrow> wstring option" where
  "NormalizeDocumentPath api path =
     (if path = [] then Some []
      else case pe_fullPath api path of
             None \<Rightarrow> None
           | Some full \<Rightarrow>
               (case pe_canonical api full of
                  None \<Rightarrow> None
                | Some canonical \<Rightarrow>
                    Some (if starts_with uncPrefix canonical
                          then [92, 92] @ drop (length uncPrefix) canonical
                          else if starts_with longPrefix canonical
                          then drop (length longPrefix) canonical
                          else canonical)))"

record DocumentLocator =
  dl_documentId :: u64
  dl_hwnd :: u64
  dl_path :: wstring

definition LocatorMatches :: "PathApi \<Rightarrow> DocumentLocator \<Rightarrow> DocumentLocator \<Rightarrow> bool" where
  "LocatorMatches api expected presented =
     (if dl_documentId presented \<noteq> 0 \<and> dl_documentId expected \<noteq> dl_documentId presented then False
      else if dl_hwnd presented \<noteq> 0 \<and> dl_hwnd expected \<noteq> dl_hwnd presented then False
      else case (NormalizeDocumentPath api (dl_path expected),
                 NormalizeDocumentPath api (dl_path presented)) of
             (Some expectedPath, Some presentedPath) \<Rightarrow>
               if expectedPath = [] \<or> presentedPath = [] then expectedPath = presentedPath
               else pe_equal api expectedPath presentedPath
           | _ \<Rightarrow> False)"

subsection \<open>The registry\<close>

datatype AliasStatus =
    AS_Ok | InvalidUuidSource | UnknownCanonical | UnknownAlias | LocatorMismatch
  | AliasAlreadyBound | AliasCollisionExhausted

record Session =
  se_canonicalIdentity :: u64
  se_id :: Uuid128
  se_locator :: DocumentLocator
  se_aliases :: "u64 list"

text \<open>The source is fixed at construction; its context is the state of the random generator.\<close>

record 'c SessionAliasRegistry =
  rg_source :: "'c UuidSource"
  rg_context :: 'c
  rg_sessions :: "Session list"

definition has_alias :: "u64 \<Rightarrow> Session \<Rightarrow> bool" where
  "has_alias aliasIdentity current \<longleftrightarrow> aliasIdentity \<in> set (se_aliases current)"

text \<open>The result holds the session id that a successful call writes to its output.\<close>

definition Registry_Open ::
  "u64 \<Rightarrow> u64 \<Rightarrow> DocumentLocator \<Rightarrow> 'c SessionAliasRegistry \<Rightarrow>
     (AliasStatus + Uuid128) \<times> 'c SessionAliasRegistry" where
  "Registry_Open canonicalIdentity aliasIdentity locator r =
     (if source_fill (rg_source r) = None then (Inl InvalidUuidSource, r)
      else if list_ex (\<lambda>current. se_canonicalIdentity current = canonicalIdentity \<or>
                         has_alias aliasIdentity current) (rg_sessions r)
      then (Inl AliasAlreadyBound, r)
      else case MintDistinctUuid (rg_source r) (rg_context r) (map se_id (rg_sessions r)) zero_uuid of
             (mint, u, ctx) \<Rightarrow>
               let r' = r\<lparr>rg_context := ctx\<rparr>
               in case mint of
                    SourceFailure \<Rightarrow> (Inl InvalidUuidSource, r')
                  | MintExhausted \<Rightarrow> (Inl AliasCollisionExhausted, r')
                  | Minted \<Rightarrow>
                      (Inr u, r'\<lparr>rg_sessions := rg_sessions r @
                         [\<lparr>se_canonicalIdentity = canonicalIdentity, se_id = u, se_locator = locator,
                           se_aliases = [aliasIdentity]\<rparr>]\<rparr>))"

fun add_alias :: "u64 \<Rightarrow> u64 \<Rightarrow> Session list \<Rightarrow> Session list option" where
  "add_alias canonicalIdentity aliasIdentity [] = None"
| "add_alias canonicalIdentity aliasIdentity (current # rest) =
     (if se_canonicalIdentity current = canonicalIdentity
      then Some (current\<lparr>se_aliases := se_aliases current @ [aliasIdentity]\<rparr> # rest)
      else map_option (Cons current) (add_alias canonicalIdentity aliasIdentity rest))"

definition Registry_AddAlias ::
  "u64 \<Rightarrow> u64 \<Rightarrow> 'c SessionAliasRegistry \<Rightarrow> AliasStatus \<times> 'c SessionAliasRegistry" where
  "Registry_AddAlias canonicalIdentity aliasIdentity r =
     (if list_ex (has_alias aliasIdentity) (rg_sessions r) then (AliasAlreadyBound, r)
      else case add_alias canonicalIdentity aliasIdentity (rg_sessions r) of
             None \<Rightarrow> (UnknownCanonical, r)
           | Some sessions \<Rightarrow> (AS_Ok, r\<lparr>rg_sessions := sessions\<rparr>))"

definition Registry_Resolve ::
  "PathApi \<Rightarrow> u64 \<Rightarrow> DocumentLocator \<Rightarrow> 'c SessionAliasRegistry \<Rightarrow> AliasStatus + Uuid128" where
  "Registry_Resolve api aliasIdentity locator r =
     (case List.find (has_alias aliasIdentity) (rg_sessions r) of
        None \<Rightarrow> Inl UnknownAlias
      | Some current \<Rightarrow>
          if \<not> LocatorMatches api (se_locator current) locator then Inl LocatorMismatch
          else Inr (se_id current))"

fun erase_session :: "u64 \<Rightarrow> Session list \<Rightarrow> Session list option" where
  "erase_session canonicalIdentity [] = None"
| "erase_session canonicalIdentity (current # rest) =
     (if se_canonicalIdentity current = canonicalIdentity then Some rest
      else map_option (Cons current) (erase_session canonicalIdentity rest))"

definition Registry_Close ::
  "u64 \<Rightarrow> 'c SessionAliasRegistry \<Rightarrow> bool \<times> 'c SessionAliasRegistry" where
  "Registry_Close canonicalIdentity r =
     (case erase_session canonicalIdentity (rg_sessions r) of
        None \<Rightarrow> (False, r)
      | Some sessions \<Rightarrow> (True, r\<lparr>rg_sessions := sessions\<rparr>))"

definition Registry_BridgeRestart :: "'c SessionAliasRegistry \<Rightarrow> 'c SessionAliasRegistry" where
  "Registry_BridgeRestart r = r\<lparr>rg_sessions := []\<rparr>"

subsection \<open>The invariant and the alias map\<close>

definition sessions_ok :: "Session list \<Rightarrow> bool" where
  "sessions_ok ss \<longleftrightarrow> distinct (map se_canonicalIdentity ss) \<and> distinct (concat (map se_aliases ss)) \<and>
     distinct (map se_id ss) \<and> (\<forall>s \<in> set ss. proper_id (se_id s))"

text \<open>The abstract state: what every alias stands for.\<close>

definition alias_map :: "Session list \<Rightarrow> u64 \<rightharpoonup> u64 \<times> Uuid128 \<times> DocumentLocator" where
  "alias_map ss a =
     map_option (\<lambda>s. (se_canonicalIdentity s, se_id s, se_locator s)) (List.find (has_alias a) ss)"

inductive registry_reachable :: "'c UuidSource \<Rightarrow> 'c SessionAliasRegistry \<Rightarrow> bool" for source where
  start: "registry_reachable source \<lparr>rg_source = source, rg_context = ctx, rg_sessions = []\<rparr>"
| open_session: "registry_reachable source r \<Longrightarrow>
    registry_reachable source (snd (Registry_Open canonicalIdentity aliasIdentity locator r))"
| add_alias: "registry_reachable source r \<Longrightarrow>
    registry_reachable source (snd (Registry_AddAlias canonicalIdentity aliasIdentity r))"
| close: "registry_reachable source r \<Longrightarrow>
    registry_reachable source (snd (Registry_Close canonicalIdentity r))"
| restart: "registry_reachable source r \<Longrightarrow> registry_reachable source (Registry_BridgeRestart r)"

lemma sessions_ok_append:
  assumes "sessions_ok ss" "proper_id u" "u \<notin> set (map se_id ss)"
    and "\<not> list_ex (\<lambda>s. se_canonicalIdentity s = c \<or> has_alias a s) ss"
  shows "sessions_ok (ss @ [\<lparr>se_canonicalIdentity = c, se_id = u, se_locator = l, se_aliases = [a]\<rparr>])"
  using assms by (auto simp: sessions_ok_def list_ex_iff has_alias_def)

lemma add_alias_Some:
  assumes "add_alias c a ss = Some ss'"
  shows "\<exists>p s q. ss = p @ s # q \<and> se_canonicalIdentity s = c \<and>
    ss' = p @ s\<lparr>se_aliases := se_aliases s @ [a]\<rparr> # q"
  using assms
proof (induction ss arbitrary: ss')
  case (Cons x ss)
  show ?case
  proof (cases "se_canonicalIdentity x = c")
    case True
    with Cons.prems show ?thesis
      by (intro exI [of _ "[]"] exI [of _ x] exI [of _ ss]) simp
  next
    case False
    with Cons.prems obtain rest where "add_alias c a ss = Some rest" "ss' = x # rest"
      by auto
    with Cons.IH show ?thesis
      by (metis append_Cons)
  qed
qed simp

lemma erase_session_Some:
  assumes "erase_session c ss = Some ss'"
  shows "\<exists>p s q. ss = p @ s # q \<and> se_canonicalIdentity s = c \<and> ss' = p @ q"
  using assms
proof (induction ss arbitrary: ss')
  case (Cons x ss)
  show ?case
  proof (cases "se_canonicalIdentity x = c")
    case True
    with Cons.prems show ?thesis
      by (intro exI [of _ "[]"] exI [of _ x] exI [of _ ss]) simp
  next
    case False
    with Cons.prems obtain rest where "erase_session c ss = Some rest" "ss' = x # rest"
      by auto
    with Cons.IH show ?thesis
      by (metis append_Cons)
  qed
qed simp

lemma sessions_ok_add:
  assumes "sessions_ok ss" "add_alias c a ss = Some ss'" "\<not> list_ex (has_alias a) ss"
  shows "sessions_ok ss'"
proof -
  obtain p s q where "ss = p @ s # q" "ss' = p @ s\<lparr>se_aliases := se_aliases s @ [a]\<rparr> # q"
    using add_alias_Some [OF assms(2)] by blast
  with assms(1,3) show ?thesis
    by (auto simp: sessions_ok_def list_ex_iff has_alias_def)
qed

lemma sessions_ok_erase:
  assumes "sessions_ok ss" "erase_session c ss = Some ss'"
  shows "sessions_ok ss'"
proof -
  obtain p s q where "ss = p @ s # q" "ss' = p @ q"
    using erase_session_Some [OF assms(2)] by blast
  with assms(1) show ?thesis
    by (auto simp: sessions_ok_def)
qed

lemma Registry_Open_Inr:
  assumes "Registry_Open c a l r = (Inr u, r')"
  obtains ctx where
    "MintDistinctUuid (rg_source r) (rg_context r) (map se_id (rg_sessions r)) zero_uuid = (Minted, u, ctx)"
    "\<not> list_ex (\<lambda>s. se_canonicalIdentity s = c \<or> has_alias a s) (rg_sessions r)"
    "rg_sessions r' = rg_sessions r @
       [\<lparr>se_canonicalIdentity = c, se_id = u, se_locator = l, se_aliases = [a]\<rparr>]"
  using assms
  by (auto simp: Registry_Open_def Let_def split: if_splits prod.splits MintResult.splits)

lemma Registry_Open_Inl: "Registry_Open c a l r = (Inl e, r') \<Longrightarrow> rg_sessions r' = rg_sessions r"
  by (auto simp: Registry_Open_def Let_def split: if_splits prod.splits MintResult.splits)

lemma Registry_Open_ok:
  assumes "sessions_ok (rg_sessions r)"
  shows "sessions_ok (rg_sessions (snd (Registry_Open c a l r)))"
proof (cases "Registry_Open c a l r")
  case (Pair res r')
  show ?thesis
  proof (cases res)
    case (Inl e)
    with Pair have "rg_sessions r' = rg_sessions r"
      by (intro Registry_Open_Inl) simp
    with Pair assms show ?thesis by simp
  next
    case (Inr u)
    with Pair have "Registry_Open c a l r = (Inr u, r')" by simp
    then show ?thesis
    proof (rule Registry_Open_Inr)
      fix ctx
      assume mint: "MintDistinctUuid (rg_source r) (rg_context r) (map se_id (rg_sessions r)) zero_uuid
          = (Minted, u, ctx)"
        and free: "\<not> list_ex (\<lambda>s. se_canonicalIdentity s = c \<or> has_alias a s) (rg_sessions r)"
        and r': "rg_sessions r' = rg_sessions r @
          [\<lparr>se_canonicalIdentity = c, se_id = u, se_locator = l, se_aliases = [a]\<rparr>]"
      show ?thesis
        using sessions_ok_append [OF assms MintDistinctUuid_proper [OF mint] free, of l] Pair r' by simp
    qed
  qed
qed

lemma registry_reachable_ok: "registry_reachable source r \<Longrightarrow> sessions_ok (rg_sessions r)"
proof (induction rule: registry_reachable.induct)
  case (open_session r canonicalIdentity aliasIdentity locator)
  then show ?case
    using Registry_Open_ok by blast
next
  case (add_alias r canonicalIdentity aliasIdentity)
  then show ?case
    using sessions_ok_add by (auto simp: Registry_AddAlias_def split: option.splits)
next
  case (close r canonicalIdentity)
  then show ?case
    using sessions_ok_erase by (auto simp: Registry_Close_def split: option.splits)
qed (auto simp: sessions_ok_def Registry_BridgeRestart_def)

lemma alias_map_Cons:
  "alias_map (s # ss) a = (if a \<in> set (se_aliases s)
     then Some (se_canonicalIdentity s, se_id s, se_locator s) else alias_map ss a)"
  by (simp add: alias_map_def has_alias_def)

lemma alias_map_iff:
  assumes "distinct (concat (map se_aliases ss))"
  shows "alias_map ss a = Some e \<longleftrightarrow>
    (\<exists>s \<in> set ss. a \<in> set (se_aliases s) \<and> e = (se_canonicalIdentity s, se_id s, se_locator s))"
  using assms
proof (induction ss)
  case Nil
  show ?case by (simp add: alias_map_def)
next
  case (Cons s ss)
  then show ?case
    by (auto simp: alias_map_Cons)
qed

lemma alias_map_eqI:
  assumes "distinct (concat (map se_aliases ss))"
    and "\<And>a e. (\<exists>s \<in> set ss. a \<in> set (se_aliases s) \<and> e = (se_canonicalIdentity s, se_id s, se_locator s)) \<longleftrightarrow>
      m a = Some e"
  shows "alias_map ss = m"
proof
  fix a
  have "alias_map ss a = Some e \<longleftrightarrow> m a = Some e" for e
    using alias_map_iff [OF assms(1)] assms(2) by simp
  then show "alias_map ss a = m a"
    by (cases "m a"; cases "alias_map ss a") auto
qed

lemma sessions_okD: "sessions_ok ss \<Longrightarrow> distinct (concat (map se_aliases ss))"
  by (simp add: sessions_ok_def)

lemma no_alias_None:
  "\<not> list_ex (has_alias a) ss \<Longrightarrow> alias_map ss a = None"
  by (induction ss) (auto simp: alias_map_Cons has_alias_def alias_map_def)

lemma alias_map_appended:
  assumes "\<not> list_ex (has_alias a) ss"
  shows "alias_map (ss @ [\<lparr>se_canonicalIdentity = c, se_id = u, se_locator = l, se_aliases = [a]\<rparr>]) =
    (alias_map ss)(a \<mapsto> (c, u, l))"
proof
  fix x
  show "alias_map (ss @ [\<lparr>se_canonicalIdentity = c, se_id = u, se_locator = l, se_aliases = [a]\<rparr>]) x =
    ((alias_map ss)(a \<mapsto> (c, u, l))) x"
    using assms
  proof (induction ss)
    case Nil
    show ?case by (simp add: alias_map_def has_alias_def)
  next
    case (Cons s ss)
    then show ?case by (auto simp: alias_map_Cons has_alias_def)
  qed
qed

lemma Open_alias_map:
  assumes "Registry_Open c a l r = (Inr u, r')"
  shows "alias_map (rg_sessions r') = (alias_map (rg_sessions r))(a \<mapsto> (c, u, l)) \<and>
    alias_map (rg_sessions r) a = None"
proof (rule Registry_Open_Inr [OF assms])
  assume "\<not> list_ex (\<lambda>s. se_canonicalIdentity s = c \<or> has_alias a s) (rg_sessions r)"
  then have none: "\<not> list_ex (has_alias a) (rg_sessions r)"
    by (auto simp: list_ex_iff)
  assume "rg_sessions r' = rg_sessions r @
    [\<lparr>se_canonicalIdentity = c, se_id = u, se_locator = l, se_aliases = [a]\<rparr>]"
  with none show ?thesis
    by (simp add: alias_map_appended no_alias_None)
qed

lemma add_alias_map:
  assumes ok: "sessions_ok ss" and add: "add_alias c a ss = Some ss'" and none: "\<not> list_ex (has_alias a) ss"
  shows "\<exists>s \<in> set ss. se_canonicalIdentity s = c \<and>
    alias_map ss' = (alias_map ss)(a \<mapsto> (c, se_id s, se_locator s))"
proof -
  obtain p s q where ss: "ss = p @ s # q" "se_canonicalIdentity s = c"
    and ss': "ss' = p @ s\<lparr>se_aliases := se_aliases s @ [a]\<rparr> # q"
    using add_alias_Some [OF add] by blast
  have dist: "distinct (concat (map se_aliases ss))" "distinct (concat (map se_aliases ss'))"
    using sessions_okD ok sessions_ok_add [OF ok add none] by blast+
  have "alias_map ss' = (alias_map ss)(a \<mapsto> (c, se_id s, se_locator s))"
  proof (rule alias_map_eqI [OF dist(2)])
    fix x e
    have fresh: "\<forall>t \<in> set ss. a \<notin> set (se_aliases t)"
      using none by (auto simp: list_ex_iff has_alias_def)
    show "(\<exists>t \<in> set ss'. x \<in> set (se_aliases t) \<and> e = (se_canonicalIdentity t, se_id t, se_locator t)) \<longleftrightarrow>
        ((alias_map ss)(a \<mapsto> (c, se_id s, se_locator s))) x = Some e"
      using fresh alias_map_iff [OF dist(1), of x e]
      unfolding ss' ss(1) by (cases "x = a") (auto simp: ss(2))
  qed
  with ss show ?thesis by auto
qed

lemma erase_alias_map:
  assumes ok: "sessions_ok ss" and erase: "erase_session c ss = Some ss'"
  shows "alias_map ss' a = (case alias_map ss a of
      None \<Rightarrow> None | Some (c', e) \<Rightarrow> if c' = c then None else Some (c', e))"
proof -
  obtain p s q where ss: "ss = p @ s # q" "se_canonicalIdentity s = c" and ss': "ss' = p @ q"
    using erase_session_Some [OF erase] by blast
  have dist: "distinct (concat (map se_aliases ss))" "distinct (concat (map se_aliases ss'))"
    using sessions_okD ok sessions_ok_erase [OF ok erase] by blast+
  have other: "se_canonicalIdentity t \<noteq> c" if "t \<in> set p \<union> set q" for t
    using ok that ss by (auto simp: sessions_ok_def image_iff)
  have "alias_map ss' = (\<lambda>a. case alias_map ss a of
      None \<Rightarrow> None | Some (c', e) \<Rightarrow> if c' = c then None else Some (c', e))"
  proof (rule alias_map_eqI [OF dist(2)])
    fix x e
    show "(\<exists>t \<in> set ss'. x \<in> set (se_aliases t) \<and> e = (se_canonicalIdentity t, se_id t, se_locator t)) \<longleftrightarrow>
        (case alias_map ss x of None \<Rightarrow> None | Some (c', e) \<Rightarrow> if c' = c then None else Some (c', e)) = Some e"
      (is "?L \<longleftrightarrow> ?R")
    proof
      assume ?L
      then obtain t where t: "t \<in> set p \<union> set q" "x \<in> set (se_aliases t)"
        "e = (se_canonicalIdentity t, se_id t, se_locator t)"
        by (auto simp: ss')
      then have "alias_map ss x = Some e"
        using alias_map_iff [OF dist(1)] ss by auto
      with t other show ?R by simp
    next
      assume R: ?R
      then have "alias_map ss x = Some e" "fst e \<noteq> c"
        by (auto split: option.splits prod.splits if_splits)
      then obtain t where t: "t \<in> set ss" "x \<in> set (se_aliases t)"
          "e = (se_canonicalIdentity t, se_id t, se_locator t)"
        using alias_map_iff [OF dist(1)] by blast
      with \<open>fst e \<noteq> c\<close> ss have "t \<in> set ss'"
        by (auto simp: ss')
      with t show ?L by blast
    qed
  qed
  then show ?thesis by simp
qed

text \<open>In every state the registry can reach, no alias belongs to two sessions, no
  canonical identity or session id occurs twice, and every session id is a version-4 UUID.\<close>

theorem registry_invariant:
  assumes "registry_reachable source r"
  shows "distinct (concat (map se_aliases (rg_sessions r))) \<and>
    distinct (map se_canonicalIdentity (rg_sessions r)) \<and> distinct (map se_id (rg_sessions r)) \<and>
    (\<forall>s \<in> set (rg_sessions r). length (se_id s) = 16 \<and> IsRfc4122V4 (se_id s))"
  using registry_reachable_ok [OF assms] by (simp add: sessions_ok_def proper_id_def)

text \<open>Claim C6. The registry implements a map from aliases to sessions: \<open>Open\<close> binds a fresh
  alias to the new session, \<open>AddAlias\<close> binds a fresh alias to the session of its canonical
  identity, \<open>Close\<close> unbinds exactly the aliases of its session, \<open>BridgeRestart\<close> unbinds all,
  a call that fails binds and unbinds nothing, and \<open>Resolve\<close> is the lookup followed by the
  locator test.\<close>

theorem registry_alias_map:
  assumes "registry_reachable source r"
  defines "m \<equiv> alias_map (rg_sessions r)"
  shows "(case Registry_Open c a l r of
      (Inr u, r') \<Rightarrow> m a = None \<and> alias_map (rg_sessions r') = m(a \<mapsto> (c, u, l))
    | (Inl e, r') \<Rightarrow> alias_map (rg_sessions r') = m) \<and>
    (case Registry_AddAlias c a r of (status, r') \<Rightarrow>
      if status = AS_Ok
      then m a = None \<and> (\<exists>s \<in> set (rg_sessions r). se_canonicalIdentity s = c \<and>
             alias_map (rg_sessions r') = m(a \<mapsto> (c, se_id s, se_locator s)))
      else alias_map (rg_sessions r') = m) \<and>
    (case Registry_Close c r of (closed, r') \<Rightarrow>
      alias_map (rg_sessions r') = (if closed
        then (\<lambda>a. case m a of None \<Rightarrow> None | Some (c', e) \<Rightarrow> if c' = c then None else Some (c', e))
        else m)) \<and>
    alias_map (rg_sessions (Registry_BridgeRestart r)) = Map.empty \<and>
    Registry_Resolve api a presented r =
      (case m a of None \<Rightarrow> Inl UnknownAlias
       | Some (c', u, expected) \<Rightarrow>
           if LocatorMatches api expected presented then Inr u else Inl LocatorMismatch)"
proof (intro conjI)
  have ok: "sessions_ok (rg_sessions r)"
    using assms(1) by (rule registry_reachable_ok)
  show "case Registry_Open c a l r of
      (Inr u, r') \<Rightarrow> m a = None \<and> alias_map (rg_sessions r') = m(a \<mapsto> (c, u, l))
    | (Inl e, r') \<Rightarrow> alias_map (rg_sessions r') = m"
    using Open_alias_map [of c a l r] Registry_Open_Inl [of c a l r]
    by (auto simp: m_def split: prod.splits sum.splits)
  show "case Registry_AddAlias c a r of (status, r') \<Rightarrow>
      if status = AS_Ok
      then m a = None \<and> (\<exists>s \<in> set (rg_sessions r). se_canonicalIdentity s = c \<and>
             alias_map (rg_sessions r') = m(a \<mapsto> (c, se_id s, se_locator s)))
      else alias_map (rg_sessions r') = m"
    using add_alias_map [OF ok] no_alias_None
    by (auto simp: m_def Registry_AddAlias_def split: option.splits)
  show "case Registry_Close c r of (closed, r') \<Rightarrow>
      alias_map (rg_sessions r') = (if closed
        then (\<lambda>a. case m a of None \<Rightarrow> None | Some (c', e) \<Rightarrow> if c' = c then None else Some (c', e))
        else m)"
    using erase_alias_map [OF ok] by (auto simp: m_def Registry_Close_def split: option.splits)
  show "alias_map (rg_sessions (Registry_BridgeRestart r)) = Map.empty"
    by (rule ext) (simp add: Registry_BridgeRestart_def alias_map_def)
  show "Registry_Resolve api a presented r =
      (case m a of None \<Rightarrow> Inl UnknownAlias
       | Some (c', u, expected) \<Rightarrow>
           if LocatorMatches api expected presented then Inr u else Inl LocatorMismatch)"
    by (auto simp: Registry_Resolve_def m_def alias_map_def split: option.splits)
qed

text \<open>A source that counts: byte \<open>0\<close> of each candidate is the context.\<close>

definition counter_source :: "u8 UuidSource" where
  "counter_source = InjectedFill (\<lambda>ctx buffer. (True, replicate 16 ctx, ctx + 1))"

definition plain_locator :: DocumentLocator where
  "plain_locator = \<lparr>dl_documentId = 7, dl_hwnd = 0, dl_path = []\<rparr>"

definition sample_registry :: "u8 SessionAliasRegistry" where
  "sample_registry = snd (Registry_AddAlias 100 2 (snd (Registry_Open 100 1 plain_locator
     \<lparr>rg_source = counter_source, rg_context = 5, rg_sessions = []\<rparr>)))"

lemma sample_registry_reachable: "registry_reachable counter_source sample_registry"
  unfolding sample_registry_def by (intro registry_reachable.intros)

theorem registry_invariant_witness:
  "length (rg_sessions sample_registry) = 1 \<and>
   distinct (concat (map se_aliases (rg_sessions sample_registry)))"
proof -
  have "length (rg_sessions sample_registry) = 1"
    by code_simp
  then show ?thesis
    using registry_invariant [OF sample_registry_reachable] by blast
qed

theorem registry_alias_map_witness:
  "alias_map (rg_sessions sample_registry) 2 \<noteq> None \<and>
   alias_map (rg_sessions (Registry_BridgeRestart sample_registry)) = Map.empty"
proof -
  have "alias_map (rg_sessions sample_registry) 2 \<noteq> None"
    by code_simp
  then show ?thesis
    using registry_alias_map [OF sample_registry_reachable] by blast
qed

end
