(* ===== verification/GraphVersion.thy ===== *)
theory GraphVersion
  imports GraphUuid
begin

section \<open>Graph versions and their wire form (DocumentGraphIdentity.cpp)\<close>

text \<open>
  A graph version names a capture: the session and graph identities, three counters and three
  roots. It is compared by its 168-byte serialization, so the two directions of the codec and
  the validity test decide what a compare-and-swap on versions accepts.
\<close>

subsection \<open>Little-endian fields\<close>

definition Put16 :: "nat \<Rightarrow> u16 \<Rightarrow> u8 list \<Rightarrow> u8 list" where
  "Put16 offset v out = out[offset := ucast v, offset + 1 := ucast (drop_bit 8 v)]"

fun put64_loop :: "nat \<Rightarrow> nat \<Rightarrow> u64 \<Rightarrow> u8 list \<Rightarrow> u8 list" where
  "put64_loop 0 position v out = out"
| "put64_loop (Suc n) position v out =
     put64_loop n (position + 1) (drop_bit 8 v) (out[position := ucast v])"

definition Put64 :: "nat \<Rightarrow> u64 \<Rightarrow> u8 list \<Rightarrow> u8 list" where
  "Put64 offset v out = put64_loop 8 offset v out"

definition Get16 :: "u8 list \<Rightarrow> u16" where
  "Get16 bytes = ucast (bytes ! 0) OR push_bit 8 (ucast (bytes ! 1))"

definition Get64 :: "u8 list \<Rightarrow> u64" where
  "Get64 bytes = fold (\<lambda>index v. v OR push_bit (index * 8) (ucast (bytes ! index))) [0..<8] 0"

text \<open>\<open>std::copy\<close> of \<open>src\<close> to \<open>out + offset\<close>, and the range \<open>[first, last)\<close> of a buffer.\<close>

definition copy_to :: "nat \<Rightarrow> u8 list \<Rightarrow> u8 list \<Rightarrow> u8 list" where
  "copy_to offset src out = take offset out @ src @ drop (offset + length src) out"

definition slice :: "nat \<Rightarrow> nat \<Rightarrow> u8 list \<Rightarrow> u8 list" where
  "slice start stop bytes = take (stop - start) (drop start bytes)"

subsection \<open>Versions\<close>

record GraphVersionV1 =
  gv_schema :: u16
  gv_profileBits :: u64
  gv_semanticCertified :: bool
  gv_layoutPresent :: bool
  gv_documentSessionId :: Uuid128
  gv_graphId :: Uuid128
  gv_semanticRevision :: u64
  gv_layoutRevision :: u64
  gv_locatorEpoch :: u64
  gv_observedSemanticRoot :: Sha256
  gv_layoutRoot :: Sha256
  gv_captureRoot :: Sha256

definition kSchemaVersionV1 :: u16 where
  "kSchemaVersionV1 = 1"

definition kGraphVersionBytesV1 :: nat where
  "kGraphVersionBytesV1 = 168"

text \<open>A default-constructed version.\<close>

definition blank_version :: GraphVersionV1 where
  "blank_version = \<lparr>gv_schema = kSchemaVersionV1, gv_profileBits = 0, gv_semanticCertified = False,
     gv_layoutPresent = False, gv_documentSessionId = zero_uuid, gv_graphId = zero_uuid,
     gv_semanticRevision = 0, gv_layoutRevision = 0, gv_locatorEpoch = 0,
     gv_observedSemanticRoot = zero_hash, gv_layoutRoot = zero_hash, gv_captureRoot = zero_hash\<rparr>"

text \<open>The error codes; \<open>None\<close> of the source is \<open>GV_None\<close>.\<close>

datatype GraphVersionError =
    GV_None | BadSize | BadSchema | BadProfiles | BadBoolean | ReservedNonzero
  | BadDocumentSessionId | BadGraphId | BadRevision | BadLayoutRoot | ReservedIdentityCollision

definition ValidateGraphVersion :: "GraphVersionV1 \<Rightarrow> GraphVersionError" where
  "ValidateGraphVersion version =
     (if gv_schema version \<noteq> kSchemaVersionV1 then BadSchema
      else if \<not> HasOnlyKnownProfiles (gv_profileBits version) \<or>
              CloseProfileBits (gv_profileBits version) \<noteq> gv_profileBits version
      then BadProfiles
      else if \<not> IsRfc4122V4 (gv_documentSessionId version) then BadDocumentSessionId
      else if \<not> IsRfc4122V4 (gv_graphId version) \<or>
              EqualUuid (gv_graphId version) (gv_documentSessionId version)
      then BadGraphId
      else if gv_semanticRevision version = 0 \<or> gv_layoutRevision version = 0 \<or>
              gv_locatorEpoch version = 0
      then BadRevision
      else if gv_layoutPresent version then
        (if \<not> gv_semanticCertified version \<or>
            gv_profileBits version AND ProfileBit PF_Layout = 0 \<or>
            ZeroHash (gv_layoutRoot version)
         then BadLayoutRoot else GV_None)
      else if \<not> ZeroHash (gv_layoutRoot version) then BadLayoutRoot
      else GV_None)"

text \<open>A result is the error code, with the bytes written or the version read on success.\<close>

definition SerializeGraphVersion :: "GraphVersionV1 \<Rightarrow> GraphVersionError + u8 list" where
  "SerializeGraphVersion version =
     (let valid = ValidateGraphVersion version
      in if valid \<noteq> GV_None then Inl valid
         else
           let bytes = replicate kGraphVersionBytesV1 0;
               bytes = Put16 0 (gv_schema version) bytes;
               bytes = Put64 2 (gv_profileBits version) bytes;
               bytes = bytes[10 := (if gv_semanticCertified version then 1 else 0)];
               bytes = bytes[11 := (if gv_layoutPresent version then 1 else 0)];
               bytes = copy_to 16 (gv_documentSessionId version) bytes;
               bytes = copy_to 32 (gv_graphId version) bytes;
               bytes = Put64 48 (gv_semanticRevision version) bytes;
               bytes = Put64 56 (gv_layoutRevision version) bytes;
               bytes = Put64 64 (gv_locatorEpoch version) bytes;
               bytes = copy_to 72 (gv_observedSemanticRoot version) bytes;
               bytes = copy_to 104 (gv_layoutRoot version) bytes;
               bytes = copy_to 136 (gv_captureRoot version) bytes
           in Inr bytes)"

definition DeserializeGraphVersion :: "u8 list \<Rightarrow> GraphVersionError + GraphVersionV1" where
  "DeserializeGraphVersion bytes =
     (if length bytes \<noteq> kGraphVersionBytesV1 then Inl BadSize
      else if Get16 bytes \<noteq> kSchemaVersionV1 then Inl BadSchema
      else if bytes ! 10 > 1 \<or> bytes ! 11 > 1 then Inl BadBoolean
      else if list_ex (\<lambda>index. bytes ! index \<noteq> 0) [12..<16] then Inl ReservedNonzero
      else
        let parsed = \<lparr>gv_schema = Get16 bytes, gv_profileBits = Get64 (drop 2 bytes),
              gv_semanticCertified = (bytes ! 10 \<noteq> 0), gv_layoutPresent = (bytes ! 11 \<noteq> 0),
              gv_documentSessionId = slice 16 32 bytes, gv_graphId = slice 32 48 bytes,
              gv_semanticRevision = Get64 (drop 48 bytes), gv_layoutRevision = Get64 (drop 56 bytes),
              gv_locatorEpoch = Get64 (drop 64 bytes), gv_observedSemanticRoot = slice 72 104 bytes,
              gv_layoutRoot = slice 104 136 bytes, gv_captureRoot = slice 136 168 bytes\<rparr>;
            valid = ValidateGraphVersion parsed
        in if valid \<noteq> GV_None then Inl valid else Inr parsed)"

definition FullVersionCas :: "GraphVersionV1 \<Rightarrow> GraphVersionV1 \<Rightarrow> bool" where
  "FullVersionCas expected current =
     (case (SerializeGraphVersion expected, SerializeGraphVersion current) of
        (Inr expectedBytes, Inr currentBytes) \<Rightarrow> expectedBytes = currentBytes
      | _ \<Rightarrow> False)"

definition CursorVersionCas :: "GraphVersionV1 \<Rightarrow> GraphVersionV1 \<Rightarrow> bool" where
  "CursorVersionCas expected current = FullVersionCas expected current"

definition PatchVersionCas :: "GraphVersionV1 \<Rightarrow> GraphVersionV1 \<Rightarrow> bool" where
  "PatchVersionCas expected current \<longleftrightarrow>
     gv_semanticCertified expected \<and> gv_semanticCertified current \<and> FullVersionCas expected current"

subsection \<open>Fields as byte blocks\<close>

definition bytes16 :: "u16 \<Rightarrow> u8 list" where
  "bytes16 v = [ucast v, ucast (drop_bit 8 v)]"

definition bytes64 :: "u64 \<Rightarrow> u8 list" where
  "bytes64 v = map (\<lambda>i. ucast (drop_bit (8 * i) v)) [0..<8]"

lemma length_bytes [simp]: "length (bytes16 v) = 2" "length (bytes64 w) = 8"
  by (simp_all add: bytes16_def bytes64_def)

lemma bytes64_explicit: "bytes64 v = [ucast v, ucast (drop_bit 8 v), ucast (drop_bit 16 v),
    ucast (drop_bit 24 v), ucast (drop_bit 32 v), ucast (drop_bit 40 v), ucast (drop_bit 48 v),
    ucast (drop_bit 56 v)]"
  by (simp add: bytes64_def upt_rec)

lemma Put16_block: "Put16 (length p) v (p @ a # b # q) = p @ bytes16 v @ q"
  by (simp add: Put16_def bytes16_def list_update_append)

lemma Put64_block:
  assumes "length z = 8"
  shows "Put64 (length p) v (p @ z @ q) = p @ bytes64 v @ q"
proof -
  from assms obtain a b c d e f g h where "z = [a, b, c, d, e, f, g, h]"
    by (auto simp: length_Suc_conv eval_nat_numeral)
  then show ?thesis
    by (simp add: Put64_def bytes64_explicit list_update_append eval_nat_numeral(3) [symmetric]
        drop_bit_drop_bit numeral_eq_Suc)
qed

lemma copy_to_block:
  "length z = length src \<Longrightarrow> copy_to (length p) src (p @ z @ q) = p @ src @ q"
  by (simp add: copy_to_def)

lemma u8_bit_high: "8 \<le> n \<Longrightarrow> \<not> bit (w :: u8) n"
  using bit_imp_le_length [of w n] by auto

lemma Get16_bytes16 [simp]: "Get16 (bytes16 v @ q) = v"
  by (auto simp: Get16_def bytes16_def bit_eq_iff bit_simps)

lemma bytes16_Get16:
  assumes "length b = 2"
  shows "bytes16 (Get16 (b @ q)) = b"
proof -
  from assms obtain x y where b: "b = [x, y]"
    by (auto simp: length_Suc_conv eval_nat_numeral)
  have "ucast (ucast x OR push_bit 8 (ucast y) :: u16) = x"
    "ucast (drop_bit 8 (ucast x OR push_bit 8 (ucast y) :: u16)) = y"
    by (rule bit_word_eqI; auto simp: bit_simps u8_bit_high)+
  then show ?thesis
    by (simp add: b Get16_def bytes16_def)
qed

lemma bit_get_fold:
  "bit (fold (\<lambda>index v. v OR push_bit (index * 8) (ucast (b ! index))) [0..<k] (0 :: u64)) n \<longleftrightarrow>
     n < 64 \<and> n div 8 < k \<and> bit (b ! (n div 8) :: u8) (n mod 8)"
proof (induction k)
  case (Suc k)
  have byte: "bit (push_bit (k * 8) (ucast x :: u64)) n \<longleftrightarrow> n < 64 \<and> n div 8 = k \<and> bit x (n mod 8)"
    for x :: u8
  proof (cases "n div 8 = k")
    case True
    then have "n - k * 8 = n mod 8" "k * 8 \<le> n"
      using div_mult_mod_eq [of n 8] by linarith+
    with True show ?thesis
      by (auto simp: bit_simps)
  next
    case False
    have "\<not> bit x (n - k * 8)" if "k * 8 \<le> n"
    proof -
      have "8 \<le> n - k * 8"
        using False that by (metis div_nat_eqI le_add_diff_inverse mult.commute mult_Suc_right
            add.commute nat_add_left_cancel_less not_le)
      then show ?thesis
        by (rule u8_bit_high)
    qed
    with False show ?thesis
      by (auto simp: bit_simps)
  qed
  show ?case
    using Suc.IH byte by (auto simp: bit_or_iff less_Suc_eq)
qed simp

lemma bit_Get64: "bit (Get64 b) n \<longleftrightarrow> n < 64 \<and> bit (b ! (n div 8)) (n mod 8)"
  unfolding Get64_def bit_get_fold by auto

lemma Get64_bytes64 [simp]: "Get64 (bytes64 v @ q) = v"
proof (rule bit_word_eqI)
  fix n assume "n < LENGTH(64)"
  then have n: "n < 64" by simp
  then have "n div 8 < 8"
    by (simp add: less_mult_imp_div_less)
  then have "(bytes64 v @ q) ! (n div 8) = ucast (drop_bit (8 * (n div 8)) v)"
    by (simp add: nth_append bytes64_def)
  moreover have "bit (ucast (drop_bit (8 * (n div 8)) v) :: u8) (n mod 8) = bit v n"
    by (simp add: bit_simps)
  ultimately show "bit (Get64 (bytes64 v @ q)) n = bit v n"
    using n by (simp add: bit_Get64)
qed

lemma bytes64_Get64:
  assumes "length b = 8"
  shows "bytes64 (Get64 (b @ q)) = b"
proof (rule nth_equalityI)
  fix i assume "i < length (bytes64 (Get64 (b @ q)))"
  then have i: "i < 8" by simp
  have "ucast (drop_bit (8 * i) (Get64 (b @ q))) = b ! i"
  proof (rule bit_word_eqI)
    fix m assume "m < LENGTH(8)"
    then have "m < 8" by simp
    with i assms show "bit (ucast (drop_bit (8 * i) (Get64 (b @ q))) :: u8) m = bit (b ! i) m"
      by (simp add: bit_simps bit_Get64 nth_append)
  qed
  with i show "bytes64 (Get64 (b @ q)) ! i = b ! i"
    by (simp add: bytes64_def)
qed (simp add: assms)

subsection \<open>The layout of the wire form\<close>

definition bool_byte :: "bool \<Rightarrow> u8" where
  "bool_byte b = (if b then 1 else 0)"

text \<open>The shape C++ gives a version by its array types.\<close>

definition version_shape :: "GraphVersionV1 \<Rightarrow> bool" where
  "version_shape v \<longleftrightarrow> length (gv_documentSessionId v) = 16 \<and> length (gv_graphId v) = 16 \<and>
     length (gv_observedSemanticRoot v) = 32 \<and> length (gv_layoutRoot v) = 32 \<and>
     length (gv_captureRoot v) = 32"

definition wire_form :: "GraphVersionV1 \<Rightarrow> u8 list" where
  "wire_form v = bytes16 (gv_schema v) @ bytes64 (gv_profileBits v) @
     [bool_byte (gv_semanticCertified v)] @ [bool_byte (gv_layoutPresent v)] @ replicate 4 0 @
     gv_documentSessionId v @ gv_graphId v @ bytes64 (gv_semanticRevision v) @
     bytes64 (gv_layoutRevision v) @ bytes64 (gv_locatorEpoch v) @ gv_observedSemanticRoot v @
     gv_layoutRoot v @ gv_captureRoot v"

lemma zeros_split: "m \<le> n \<Longrightarrow> replicate n (0 :: u8) = replicate m 0 @ replicate (n - m) 0"
  by (metis le_add_diff_inverse replicate_add)

lemma write_block:
  assumes "length p = k" "length src \<le> n"
  shows "copy_to k src (p @ replicate n 0) = (p @ src) @ replicate (n - length src) 0"
  using copy_to_block [of "replicate (length src) 0" src p "replicate (n - length src) 0"] assms
    zeros_split [of "length src" n] by simp

lemma write64:
  assumes "length p = k" "8 \<le> n"
  shows "Put64 k v (p @ replicate n 0) = (p @ bytes64 v) @ replicate (n - 8) 0"
  using Put64_block [of "replicate 8 0" p v "replicate (n - 8) 0"] assms zeros_split [of 8 n] by simp

lemma write_byte:
  assumes "length p = k" "1 \<le> n"
  shows "(p @ replicate n 0)[k := v] = (p @ [v]) @ replicate (n - 1) 0"
  using assms by (cases n) (simp_all add: list_update_append)

lemma Serialize_wire_form:
  assumes "version_shape v" "ValidateGraphVersion v = GV_None"
  shows "SerializeGraphVersion v = Inr (wire_form v)"
proof -
  have len: "length (gv_documentSessionId v) = 16" "length (gv_graphId v) = 16"
    "length (gv_observedSemanticRoot v) = 32" "length (gv_layoutRoot v) = 32"
    "length (gv_captureRoot v) = 32"
    using assms(1) by (simp_all add: version_shape_def)
  define p0 where "p0 = bytes16 (gv_schema v)"
  define p1 where "p1 = p0 @ bytes64 (gv_profileBits v)"
  define p2 where "p2 = p1 @ [bool_byte (gv_semanticCertified v)]"
  define p3 where "p3 = p2 @ [bool_byte (gv_layoutPresent v)]"
  define p4 where "p4 = p3 @ replicate 4 0"
  define p5 where "p5 = p4 @ gv_documentSessionId v"
  define p6 where "p6 = p5 @ gv_graphId v"
  define p7 where "p7 = p6 @ bytes64 (gv_semanticRevision v)"
  define p8 where "p8 = p7 @ bytes64 (gv_layoutRevision v)"
  define p9 where "p9 = p8 @ bytes64 (gv_locatorEpoch v)"
  define p10 where "p10 = p9 @ gv_observedSemanticRoot v"
  define p11 where "p11 = p10 @ gv_layoutRoot v"
  define p12 where "p12 = p11 @ gv_captureRoot v"
  note defs = p0_def p1_def p2_def p3_def p4_def p5_def p6_def p7_def p8_def p9_def p10_def p11_def p12_def
  have step0: "Put16 0 (gv_schema v) (replicate 168 0) = p0 @ replicate 166 0"
    using Put16_block [of "[]" "gv_schema v" 0 0 "replicate 166 0"]
    by (simp add: p0_def eval_nat_numeral)
  have step1: "Put64 2 (gv_profileBits v) (p0 @ replicate 166 0) = p1 @ replicate 158 0"
    using write64 [of p0 2 166 "gv_profileBits v"] by (simp add: defs)
  have step2: "(p1 @ replicate 158 0)[10 := bool_byte (gv_semanticCertified v)] = p2 @ replicate 157 0"
    using write_byte [of p1 10 158] by (simp add: defs)
  have step3: "(p2 @ replicate 157 0)[11 := bool_byte (gv_layoutPresent v)] = p3 @ replicate 156 0"
    using write_byte [of p2 11 157] by (simp add: defs)
  have pad: "p3 @ replicate 156 0 = p4 @ replicate 152 0"
    using zeros_split [of 4 156] by (simp add: p4_def)
  have step4: "copy_to 16 (gv_documentSessionId v) (p4 @ replicate 152 0) = p5 @ replicate 136 0"
    using write_block [of p4 16 "gv_documentSessionId v" 152] by (simp add: defs len)
  have step5: "copy_to 32 (gv_graphId v) (p5 @ replicate 136 0) = p6 @ replicate 120 0"
    using write_block [of p5 32 "gv_graphId v" 136] by (simp add: defs len)
  have step6: "Put64 48 (gv_semanticRevision v) (p6 @ replicate 120 0) = p7 @ replicate 112 0"
    using write64 [of p6 48 120 "gv_semanticRevision v"] by (simp add: defs len)
  have step7: "Put64 56 (gv_layoutRevision v) (p7 @ replicate 112 0) = p8 @ replicate 104 0"
    using write64 [of p7 56 112 "gv_layoutRevision v"] by (simp add: defs len)
  have step8: "Put64 64 (gv_locatorEpoch v) (p8 @ replicate 104 0) = p9 @ replicate 96 0"
    using write64 [of p8 64 104 "gv_locatorEpoch v"] by (simp add: defs len)
  have step9: "copy_to 72 (gv_observedSemanticRoot v) (p9 @ replicate 96 0) = p10 @ replicate 64 0"
    using write_block [of p9 72 "gv_observedSemanticRoot v" 96] by (simp add: defs len)
  have step10: "copy_to 104 (gv_layoutRoot v) (p10 @ replicate 64 0) = p11 @ replicate 32 0"
    using write_block [of p10 104 "gv_layoutRoot v" 64] by (simp add: defs len)
  have step11: "copy_to 136 (gv_captureRoot v) (p11 @ replicate 32 0) = p12"
    using write_block [of p11 136 "gv_captureRoot v" 32] by (simp add: defs len)
  have "SerializeGraphVersion v = Inr p12"
    unfolding SerializeGraphVersion_def Let_def assms(2) kGraphVersionBytesV1_def
      bool_byte_def [symmetric] step0 step1 step2 step3 pad step4 step5 step6 step7 step8 step9
      step10 step11
    by simp
  then show ?thesis
    by (simp add: wire_form_def defs)
qed

text \<open>Reading the blocks of a buffer back.\<close>

lemma read_blocks:
  fixes c l :: u8
  assumes "length s = 2" "length p = 8" "length r = 4" "length d = 16" "length g = 16" "length a = 8"
    "length b = 8" "length e = 8" "length x = 32" "length y = 32" "length z = 32"
  defines "bytes \<equiv> s @ p @ [c] @ [l] @ r @ d @ g @ a @ b @ e @ x @ y @ z"
  shows "length bytes = 168" "Get16 bytes = Get16 (s @ [])" "Get64 (drop 2 bytes) = Get64 (p @ [])"
    "bytes ! 10 = c" "bytes ! 11 = l" "slice 12 16 bytes = r" "slice 16 32 bytes = d"
    "slice 32 48 bytes = g" "Get64 (drop 48 bytes) = Get64 (a @ [])"
    "Get64 (drop 56 bytes) = Get64 (b @ [])" "Get64 (drop 64 bytes) = Get64 (e @ [])"
    "slice 72 104 bytes = x" "slice 104 136 bytes = y" "slice 136 168 bytes = z"
proof -
  have get64: "Get64 (u @ q) = Get64 (u @ [])" if "length u = 8" for u q
    using that by (auto intro!: fold_cong simp: Get64_def nth_append)
  show "length bytes = 168" "bytes ! 10 = c" "bytes ! 11 = l" "slice 12 16 bytes = r"
    "slice 16 32 bytes = d" "slice 32 48 bytes = g" "slice 72 104 bytes = x"
    "slice 104 136 bytes = y" "slice 136 168 bytes = z" "Get16 bytes = Get16 (s @ [])"
    using assms by (simp_all add: slice_def nth_append Get16_def)
  have "drop 2 bytes = p @ drop 10 bytes" "drop 48 bytes = a @ drop 56 bytes"
    "drop 56 bytes = b @ drop 64 bytes" "drop 64 bytes = e @ drop 72 bytes"
    using assms by simp_all
  then show "Get64 (drop 2 bytes) = Get64 (p @ [])" "Get64 (drop 48 bytes) = Get64 (a @ [])"
    "Get64 (drop 56 bytes) = Get64 (b @ [])" "Get64 (drop 64 bytes) = Get64 (e @ [])"
    using get64 assms by metis+
qed

lemma take_block:
  assumes "length xs = n + m"
  obtains a b where "xs = a @ b" "length a = n" "length b = m"
  using assms that [of "take n xs" "drop n xs"] by simp

lemma split_blocks:
  assumes "length bytes = 168"
  obtains s p c l r d g a b e x y z where
    "bytes = s @ p @ [c] @ [l] @ r @ d @ g @ a @ b @ e @ x @ y @ z"
    "length s = 2" "length p = 8" "length r = 4" "length d = 16" "length g = 16" "length a = 8"
    "length b = 8" "length e = 8" "length x = 32" "length y = 32" "length z = 32"
proof -
  obtain s t1 where 1: "bytes = s @ t1" "length s = 2" "length t1 = 166"
    using take_block [of bytes 2 166] assms by auto
  obtain p t2 where 2: "t1 = p @ t2" "length p = 8" "length t2 = 158"
    using take_block [of t1 8 158] 1 by auto
  obtain c l t3 where 3: "t2 = c # l # t3" "length t3 = 156"
    using 2(3) by (cases t2; cases "tl t2") auto
  obtain r t4 where 4: "t3 = r @ t4" "length r = 4" "length t4 = 152"
    using take_block [of t3 4 152] 3 by auto
  obtain d t5 where 5: "t4 = d @ t5" "length d = 16" "length t5 = 136"
    using take_block [of t4 16 136] 4 by auto
  obtain g t6 where 6: "t5 = g @ t6" "length g = 16" "length t6 = 120"
    using take_block [of t5 16 120] 5 by auto
  obtain a t7 where 7: "t6 = a @ t7" "length a = 8" "length t7 = 112"
    using take_block [of t6 8 112] 6 by auto
  obtain b t8 where 8: "t7 = b @ t8" "length b = 8" "length t8 = 104"
    using take_block [of t7 8 104] 7 by auto
  obtain e t9 where 9: "t8 = e @ t9" "length e = 8" "length t9 = 96"
    using take_block [of t8 8 96] 8 by auto
  obtain x t10 where 10: "t9 = x @ t10" "length x = 32" "length t10 = 64"
    using take_block [of t9 32 64] 9 by auto
  obtain y z where 11: "t10 = y @ z" "length y = 32" "length z = 32"
    using take_block [of t10 32 32] 10 by auto
  have "bytes = s @ p @ [c] @ [l] @ r @ d @ g @ a @ b @ e @ x @ y @ z"
    using 1(1) 2(1) 3(1) 4(1) 5(1) 6(1) 7(1) 8(1) 9(1) 10(1) 11(1) by simp
  then show thesis
    by (rule that) (fact 1(2) 2(2) 4(2) 5(2) 6(2) 7(2) 8(2) 9(2) 10(2) 11(2) 11(3))+
qed

lemma reserved_zero:
  assumes "length bytes = 168"
  shows "list_ex (\<lambda>index. bytes ! index \<noteq> 0) [12..<16] \<longleftrightarrow> slice 12 16 bytes \<noteq> replicate 4 0"
proof -
  have "slice 12 16 bytes = map (\<lambda>i. bytes ! i) [12..<16]"
    using assms by (intro nth_equalityI) (auto simp: slice_def less_Suc_eq eval_nat_numeral)
  then show ?thesis
    by (auto simp: upt_rec numeral_eq_Suc)
qed

lemma bool_byte_simps [simp]: "bool_byte b \<noteq> 0 \<longleftrightarrow> b" "\<not> 1 < bool_byte b"
  by (simp_all add: bool_byte_def)

lemma bool_byte_inverse: "\<not> 1 < (c :: u8) \<Longrightarrow> bool_byte (c \<noteq> 0) = c"
proof -
  assume "\<not> 1 < c"
  then have "unat c \<le> 1"
    by (simp add: word_less_nat_alt not_less)
  then have "unat c = 0 \<or> unat c = 1"
    by linarith
  then have "c = 0 \<or> c = 1"
    by (metis unsigned_0 unsigned_1 word_unat_eq_iff)
  then show "bool_byte (c \<noteq> 0) = c"
    by (auto simp: bool_byte_def)
qed

lemma Deserialize_wire_form:
  assumes shape: "version_shape v" and valid: "ValidateGraphVersion v = GV_None"
  shows "DeserializeGraphVersion (wire_form v) = Inr v"
proof -
  have len: "length (gv_documentSessionId v) = 16" "length (gv_graphId v) = 16"
    "length (gv_observedSemanticRoot v) = 32" "length (gv_layoutRoot v) = 32"
    "length (gv_captureRoot v) = 32"
    using shape by (simp_all add: version_shape_def)
  have schema: "gv_schema v = kSchemaVersionV1"
    using valid by (auto simp: ValidateGraphVersion_def split: if_splits)
  note R = read_blocks [of "bytes16 (gv_schema v)" "bytes64 (gv_profileBits v)" "replicate 4 0"
      "gv_documentSessionId v" "gv_graphId v" "bytes64 (gv_semanticRevision v)"
      "bytes64 (gv_layoutRevision v)" "bytes64 (gv_locatorEpoch v)" "gv_observedSemanticRoot v"
      "gv_layoutRoot v" "gv_captureRoot v" "bool_byte (gv_semanticCertified v)"
      "bool_byte (gv_layoutPresent v)", folded wire_form_def, OF length_bytes(1) length_bytes(2)
      length_replicate len(1,2) length_bytes(2) length_bytes(2) length_bytes(2) len(3-5)]
  have parsed: "\<lparr>gv_schema = gv_schema v, gv_profileBits = gv_profileBits v,
      gv_semanticCertified = gv_semanticCertified v, gv_layoutPresent = gv_layoutPresent v,
      gv_documentSessionId = gv_documentSessionId v, gv_graphId = gv_graphId v,
      gv_semanticRevision = gv_semanticRevision v, gv_layoutRevision = gv_layoutRevision v,
      gv_locatorEpoch = gv_locatorEpoch v, gv_observedSemanticRoot = gv_observedSemanticRoot v,
      gv_layoutRoot = gv_layoutRoot v, gv_captureRoot = gv_captureRoot v\<rparr> = v"
    by simp
  show ?thesis
    unfolding DeserializeGraphVersion_def reserved_zero [OF R(1)] Let_def R kGraphVersionBytesV1_def
      Get16_bytes16 Get64_bytes64 bool_byte_simps parsed valid
    using schema by simp
qed

lemma wire_form_Deserialize:
  assumes "DeserializeGraphVersion bytes = Inr v"
  shows "version_shape v \<and> ValidateGraphVersion v = GV_None \<and> wire_form v = bytes"
proof -
  have len: "length bytes = 168"
    using assms by (simp add: DeserializeGraphVersion_def kGraphVersionBytesV1_def split: if_splits)
  obtain s p c l r d g a b e x y z where
    bytes: "bytes = s @ p @ [c] @ [l] @ r @ d @ g @ a @ b @ e @ x @ y @ z"
    and L: "length s = 2" "length p = 8" "length r = 4" "length d = 16" "length g = 16" "length a = 8"
      "length b = 8" "length e = 8" "length x = 32" "length y = 32" "length z = 32"
    using len by (rule split_blocks)
  note R = read_blocks [of s p r d g a b e x y z c l, folded bytes, OF L]
  have flags: "\<not> 1 < c" "\<not> 1 < l" and pad: "r = replicate 4 0"
    and v: "v = \<lparr>gv_schema = Get16 (s @ []), gv_profileBits = Get64 (p @ []),
      gv_semanticCertified = (c \<noteq> 0), gv_layoutPresent = (l \<noteq> 0), gv_documentSessionId = d,
      gv_graphId = g, gv_semanticRevision = Get64 (a @ []), gv_layoutRevision = Get64 (b @ []),
      gv_locatorEpoch = Get64 (e @ []), gv_observedSemanticRoot = x, gv_layoutRoot = y,
      gv_captureRoot = z\<rparr>"
    and valid: "ValidateGraphVersion v = GV_None"
    using assms unfolding DeserializeGraphVersion_def reserved_zero [OF len] Let_def R
    by (auto split: if_splits)
  have "wire_form v = bytes"
    unfolding wire_form_def v bytes pad
    by (simp add: bytes16_Get16 [of _ "[]", simplified] bytes64_Get64 [of _ "[]", simplified]
        bool_byte_inverse flags L)
  moreover have "version_shape v"
    by (simp add: version_shape_def v L)
  ultimately show ?thesis
    using valid by blast
qed

subsection \<open>Round trips and comparison\<close>

text \<open>Claim C4. The 168-byte wire form is an exact encoding of the valid graph versions: every
  valid version serializes to a buffer that deserializes to it, and whatever deserializes is a
  valid version whose serialization is the buffer, byte for byte.\<close>

theorem version_codec:
  "(DeserializeGraphVersion bytes = Inr v \<longleftrightarrow> version_shape v \<and> SerializeGraphVersion v = Inr bytes)"
proof
  assume "DeserializeGraphVersion bytes = Inr v"
  from wire_form_Deserialize [OF this] show "version_shape v \<and> SerializeGraphVersion v = Inr bytes"
    using Serialize_wire_form [of v] by metis
next
  assume v: "version_shape v \<and> SerializeGraphVersion v = Inr bytes"
  then have valid: "ValidateGraphVersion v = GV_None"
    by (auto simp: SerializeGraphVersion_def Let_def split: if_splits)
  with v Serialize_wire_form [of v] have "bytes = wire_form v"
    by simp
  with v valid show "DeserializeGraphVersion bytes = Inr v"
    by (simp add: Deserialize_wire_form)
qed

lemma wire_form_inj:
  assumes "version_shape v" "ValidateGraphVersion v = GV_None" "version_shape w"
    "ValidateGraphVersion w = GV_None" "wire_form v = wire_form w"
  shows "v = w"
proof -
  have "Inr v = (Inr w :: GraphVersionError + GraphVersionV1)"
    using Deserialize_wire_form [OF assms(1,2)] Deserialize_wire_form [OF assms(3,4)]
    unfolding assms(5) by (rule trans [OF sym])
  then show ?thesis
    by (rule sum.inject(2) [THEN iffD1])
qed

text \<open>The version compare-and-swap succeeds exactly on equal valid versions: no two
  different versions have the same bytes, and an invalid version never matches, not even
  itself. The patch variant demands in addition that the version is certified.\<close>

lemma version_cas_iff:
  assumes "version_shape expected" "version_shape current"
  shows "(FullVersionCas expected current \<longleftrightarrow>
      expected = current \<and> ValidateGraphVersion current = GV_None) \<and>
    (PatchVersionCas expected current \<longleftrightarrow>
      expected = current \<and> ValidateGraphVersion current = GV_None \<and> gv_semanticCertified current)"
proof -
  have fails: "\<exists>e. SerializeGraphVersion v = Inl e" if "ValidateGraphVersion v \<noteq> GV_None" for v
    using that by (simp add: SerializeGraphVersion_def)
  have "FullVersionCas expected current \<longleftrightarrow>
      expected = current \<and> ValidateGraphVersion current = GV_None"
  proof (cases "ValidateGraphVersion expected = GV_None \<and> ValidateGraphVersion current = GV_None")
    case True
    with Serialize_wire_form assms wire_form_inj show ?thesis
      by (auto simp: FullVersionCas_def)
  next
    case False
    then obtain e where "SerializeGraphVersion expected = Inl e \<or> SerializeGraphVersion current = Inl e"
      using fails by blast
    then have "\<not> FullVersionCas expected current"
      by (auto simp: FullVersionCas_def split: sum.splits)
    with False show ?thesis by blast
  qed
  then show ?thesis
    by (auto simp: PatchVersionCas_def)
qed

definition sample_version :: GraphVersionV1 where
  "sample_version = blank_version\<lparr>gv_profileBits := 3, gv_semanticCertified := True,
     gv_documentSessionId := sample_uuid, gv_graphId := sample_uuid[15 := 1],
     gv_semanticRevision := 5, gv_layoutRevision := 1, gv_locatorEpoch := 2\<rparr>"

lemma version_cas_iff_witness:
  "FullVersionCas sample_version sample_version \<and>
   \<not> FullVersionCas sample_version (sample_version\<lparr>gv_locatorEpoch := 3\<rparr>)"
proof -
  have "version_shape sample_version" "version_shape (sample_version\<lparr>gv_locatorEpoch := 3\<rparr>)"
    "ValidateGraphVersion sample_version = GV_None" "gv_locatorEpoch sample_version \<noteq> 3"
    by code_simp+
  moreover from this have "sample_version \<noteq> sample_version\<lparr>gv_locatorEpoch := 3\<rparr>"
    by (metis GraphVersionV1.select_convs(9) GraphVersionV1.surjective GraphVersionV1.update_convs(9))
  ultimately show ?thesis
    using version_cas_iff by blast
qed

end
