(* ===== verification/GraphLifecycle.thy ===== *)
theory GraphLifecycle
  imports GraphVersion
begin

section \<open>The lifecycle of a graph lineage (DocumentGraphIdentity.cpp)\<close>

text \<open>
  The state machine that owns the current graph version: a lineage starts with fresh
  identities, publishes move its counters, an authorized reopen gives it a new session, and a
  version can be resumed. The list of used identities keeps every one it has ever handed out.
\<close>

subsection \<open>State and operations\<close>

record PublishIdentity =
  pi_profileBits :: u64
  pi_semanticCertified :: bool
  pi_layoutPresent :: bool
  pi_semanticRoot :: Sha256
  pi_layoutRoot :: Sha256
  pi_captureRoot :: Sha256

definition ValidPublishIdentity :: "PublishIdentity \<Rightarrow> bool" where
  "ValidPublishIdentity publish =
     (if \<not> HasOnlyKnownProfiles (pi_profileBits publish) \<or>
         CloseProfileBits (pi_profileBits publish) \<noteq> pi_profileBits publish then False
      else if pi_layoutPresent publish
      then pi_semanticCertified publish \<and>
           pi_profileBits publish AND ProfileBit PF_Layout \<noteq> 0 \<and>
           \<not> ZeroHash (pi_layoutRoot publish)
      else ZeroHash (pi_layoutRoot publish))"

datatype PublishOutcome =
    PO_Success | PO_NoOp | PO_Failed | PO_ExactRollback | PO_Save | PO_CaretOnly | PO_ModifiedFlagOnly

datatype LifecycleResult =
    LR_Applied | LR_Unchanged | LR_Inactive | LR_InvalidPublish | LR_CounterOverflow

datatype LineageResult = LN_Started | LN_InvalidInput | LN_CollisionExhausted | LN_IdentityCollision

datatype ReopenResult =
    RO_Retained | RO_RejectedUncertified | RO_RejectedDifferentRoot | RO_RejectedCanonicalPairing
  | RO_RejectedCounterOverflow | RO_RejectedIdentityCollision

record 'c GraphLifecycle =
  gl_source :: "'c UuidSource"
  gl_context :: 'c
  gl_version :: GraphVersionV1
  gl_active :: bool
  gl_used :: "Uuid128 list"

definition new_lifecycle :: "'c UuidSource \<Rightarrow> 'c \<Rightarrow> 'c GraphLifecycle" where
  "new_lifecycle source ctx = \<lparr>gl_source = source, gl_context = ctx, gl_version = blank_version,
     gl_active = False, gl_used = []\<rparr>"

text \<open>The guarded \<open>push_back\<close> the routines share.\<close>

definition remember :: "Uuid128 list \<Rightarrow> Uuid128 \<Rightarrow> Uuid128 list" where
  "remember ids u = (if ContainsId ids u then ids else ids @ [u])"

definition StartNewLineage ::
  "Uuid128 \<Rightarrow> PublishIdentity \<Rightarrow> 'c GraphLifecycle \<Rightarrow> LineageResult \<times> 'c GraphLifecycle" where
  "StartNewLineage session publish g =
     (if \<not> IsRfc4122V4 session \<or> \<not> ValidPublishIdentity publish then (LN_InvalidInput, g)
      else if ContainsId (gl_used g) session then (LN_IdentityCollision, g)
      else
        let forbidden = remember (gl_used g) session
        in case MintDistinctUuid (gl_source g) (gl_context g) forbidden zero_uuid of
             (mint, graph, ctx) \<Rightarrow>
               let g' = g\<lparr>gl_context := ctx\<rparr>
               in case mint of
                    SourceFailure \<Rightarrow> (LN_InvalidInput, g')
                  | MintExhausted \<Rightarrow> (LN_CollisionExhausted, g')
                  | Minted \<Rightarrow>
                      let next_version = blank_version\<lparr>
                            gv_profileBits := pi_profileBits publish,
                            gv_semanticCertified := pi_semanticCertified publish,
                            gv_layoutPresent := pi_layoutPresent publish,
                            gv_documentSessionId := session, gv_graphId := graph,
                            gv_semanticRevision := 1, gv_layoutRevision := 1, gv_locatorEpoch := 1,
                            gv_observedSemanticRoot := pi_semanticRoot publish,
                            gv_layoutRoot := pi_layoutRoot publish,
                            gv_captureRoot := pi_captureRoot publish\<rparr>;
                          nextUsed = (if gl_active g
                            then remember (remember (gl_used g) (gv_documentSessionId (gl_version g)))
                                   (gv_graphId (gl_version g))
                            else gl_used g);
                          nextUsed = remember nextUsed session @ [graph]
                      in (LN_Started, g'\<lparr>gl_version := next_version, gl_used := nextUsed,
                                       gl_active := True\<rparr>))"

fun reserve_ids :: "Uuid128 list \<Rightarrow> Uuid128 list \<Rightarrow> Uuid128 list option" where
  "reserve_ids nextUsed [] = Some nextUsed"
| "reserve_ids nextUsed (u # ids) =
     (if \<not> IsRfc4122V4 u \<or> ContainsId nextUsed u then None else reserve_ids (nextUsed @ [u]) ids)"

definition Lifecycle_ReserveIdentityIds ::
  "Uuid128 list \<Rightarrow> 'c GraphLifecycle \<Rightarrow> bool \<times> 'c GraphLifecycle" where
  "Lifecycle_ReserveIdentityIds ids g =
     (case reserve_ids (gl_used g) ids of
        None \<Rightarrow> (False, g)
      | Some nextUsed \<Rightarrow> (True, g\<lparr>gl_used := nextUsed\<rparr>))"

definition Lifecycle_Resume ::
  "GraphVersionV1 \<Rightarrow> 'c GraphLifecycle \<Rightarrow> GraphVersionError \<times> 'c GraphLifecycle" where
  "Lifecycle_Resume version g =
     (let valid = ValidateGraphVersion version
      in if valid \<noteq> GV_None then (valid, g)
         else
           let sameActivePair = gl_active g \<and>
                 EqualUuid (gv_documentSessionId version) (gv_documentSessionId (gl_version g)) \<and>
                 EqualUuid (gv_graphId version) (gv_graphId (gl_version g))
           in if \<not> sameActivePair \<and> (ContainsId (gl_used g) (gv_documentSessionId version) \<or>
                                       ContainsId (gl_used g) (gv_graphId version))
              then (ReservedIdentityCollision, g)
              else (GV_None, g\<lparr>gl_version := version,
                      gl_used := remember (remember (gl_used g) (gv_documentSessionId version))
                                   (gv_graphId version),
                      gl_active := True\<rparr>))"

definition ApplyPublish ::
  "PublishIdentity \<Rightarrow> PublishOutcome \<Rightarrow> 'c GraphLifecycle \<Rightarrow> LifecycleResult \<times> 'c GraphLifecycle" where
  "ApplyPublish publish outcome g =
     (let version = gl_version g
      in if \<not> gl_active g then (LR_Inactive, g)
         else if outcome \<noteq> PO_Success then (LR_Unchanged, g)
         else if \<not> ValidPublishIdentity publish then (LR_InvalidPublish, g)
         else
           let semanticChanged = (\<not> EqualHash (gv_observedSemanticRoot version) (pi_semanticRoot publish));
               layoutChanged = (gv_layoutPresent version \<noteq> pi_layoutPresent publish \<or>
                 \<not> EqualHash (gv_layoutRoot version) (pi_layoutRoot publish));
               maximum = (- 1 :: u64)
           in if (semanticChanged \<and> gv_semanticRevision version = maximum) \<or>
                 (layoutChanged \<and> gv_layoutRevision version = maximum)
              then (LR_CounterOverflow, g)
              else (LR_Applied, g\<lparr>gl_version := version\<lparr>
                      gv_semanticRevision := gv_semanticRevision version + (if semanticChanged then 1 else 0),
                      gv_layoutRevision := gv_layoutRevision version + (if layoutChanged then 1 else 0),
                      gv_profileBits := pi_profileBits publish,
                      gv_semanticCertified := pi_semanticCertified publish,
                      gv_layoutPresent := pi_layoutPresent publish,
                      gv_observedSemanticRoot := pi_semanticRoot publish,
                      gv_layoutRoot := pi_layoutRoot publish,
                      gv_captureRoot := pi_captureRoot publish\<rparr>\<rparr>))"

definition AuthorizedReopen ::
  "Uuid128 \<Rightarrow> PublishIdentity \<Rightarrow> bool \<Rightarrow> bool \<Rightarrow> 'c GraphLifecycle \<Rightarrow> ReopenResult \<times> 'c GraphLifecycle" where
  "AuthorizedReopen newSession fresh completeGraph exactCanonicalTreeAndPayload g =
     (let version = gl_version g
      in if \<not> gl_active g \<or> \<not> IsRfc4122V4 newSession \<or> \<not> completeGraph \<or>
            \<not> gv_semanticCertified version \<or> \<not> pi_semanticCertified fresh
         then (RO_RejectedUncertified, g)
         else if ContainsId (gl_used g) newSession then (RO_RejectedIdentityCollision, g)
         else if \<not> ValidPublishIdentity fresh \<or> pi_profileBits fresh \<noteq> gv_profileBits version
         then (RO_RejectedCanonicalPairing, g)
         else if \<not> EqualHash (gv_observedSemanticRoot version) (pi_semanticRoot fresh)
         then (RO_RejectedDifferentRoot, g)
         else if \<not> exactCanonicalTreeAndPayload then (RO_RejectedCanonicalPairing, g)
         else if gv_locatorEpoch version = - 1 then (RO_RejectedCounterOverflow, g)
         else (RO_Retained, g\<lparr>gl_version := version\<lparr>gv_documentSessionId := newSession,
                                  gv_locatorEpoch := gv_locatorEpoch version + 1\<rparr>,
                               gl_used := remember (gl_used g) newSession\<rparr>))"

subsection \<open>Steps and the invariant\<close>

text \<open>
  One call of the class. The length premises are the array types of the arguments.
\<close>

definition publish_shape :: "PublishIdentity \<Rightarrow> bool" where
  "publish_shape publish \<longleftrightarrow> length (pi_semanticRoot publish) = 32 \<and>
     length (pi_layoutRoot publish) = 32 \<and> length (pi_captureRoot publish) = 32"

inductive lifecycle_step :: "'c GraphLifecycle \<Rightarrow> 'c GraphLifecycle \<Rightarrow> bool" where
  start: "length session = 16 \<Longrightarrow> publish_shape publish \<Longrightarrow>
    lifecycle_step g (snd (StartNewLineage session publish g))"
| reserve: "\<forall>u \<in> set ids. length u = 16 \<Longrightarrow>
    lifecycle_step g (snd (Lifecycle_ReserveIdentityIds ids g))"
| resume: "version_shape version \<Longrightarrow> lifecycle_step g (snd (Lifecycle_Resume version g))"
| publish: "publish_shape publish \<Longrightarrow> lifecycle_step g (snd (ApplyPublish publish outcome g))"
| reopen: "length newSession = 16 \<Longrightarrow>
    lifecycle_step g (snd (AuthorizedReopen newSession fresh complete exact g))"

inductive_cases lifecycle_stepE: "lifecycle_step g g'"

definition lifecycle_ok :: "'c GraphLifecycle \<Rightarrow> bool" where
  "lifecycle_ok g \<longleftrightarrow>
     (gl_active g \<longrightarrow> ValidateGraphVersion (gl_version g) = GV_None \<and> version_shape (gl_version g) \<and>
        gv_documentSessionId (gl_version g) \<in> set (gl_used g) \<and>
        gv_graphId (gl_version g) \<in> set (gl_used g)) \<and>
     distinct (gl_used g) \<and> (\<forall>u \<in> set (gl_used g). proper_id u)"

definition lifecycle_live :: "'c GraphLifecycle \<Rightarrow> Uuid128 set" where
  "lifecycle_live g = (if gl_active g
     then {gv_documentSessionId (gl_version g), gv_graphId (gl_version g)} else {})"

lemma set_remember [simp]: "set (remember ids u) = insert u (set ids)"
  by (auto simp: remember_def)

lemma distinct_remember [simp]: "distinct ids \<Longrightarrow> distinct (remember ids u)"
  by (simp add: remember_def)

lemma ValidateGraphVersion_iff:
  "ValidateGraphVersion v = GV_None \<longleftrightarrow>
    gv_schema v = kSchemaVersionV1 \<and> HasOnlyKnownProfiles (gv_profileBits v) \<and>
    CloseProfileBits (gv_profileBits v) = gv_profileBits v \<and>
    IsRfc4122V4 (gv_documentSessionId v) \<and> IsRfc4122V4 (gv_graphId v) \<and>
    gv_graphId v \<noteq> gv_documentSessionId v \<and>
    gv_semanticRevision v \<noteq> 0 \<and> gv_layoutRevision v \<noteq> 0 \<and> gv_locatorEpoch v \<noteq> 0 \<and>
    (if gv_layoutPresent v
     then gv_semanticCertified v \<and> gv_profileBits v AND ProfileBit PF_Layout \<noteq> 0 \<and>
          \<not> ZeroHash (gv_layoutRoot v)
     else ZeroHash (gv_layoutRoot v))"
  unfolding ValidateGraphVersion_def EqualUuid_def
  by (cases "gv_layoutPresent v"; simp del: de_Morgan_conj; blast)

lemma reserve_ids_Some:
  assumes "reserve_ids used ids = Some used'" "distinct used"
  shows "used' = used @ ids \<and> distinct used' \<and> (\<forall>u \<in> set ids. IsRfc4122V4 u)"
  using assms
proof (induction ids arbitrary: used)
  case (Cons u ids)
  have u: "IsRfc4122V4 u" "u \<notin> set used" and rec: "reserve_ids (used @ [u]) ids = Some used'"
    using Cons.prems(1) by (simp_all split: if_splits)
  have "distinct (used @ [u])"
    using u(2) Cons.prems(2) by simp
  from Cons.IH [OF rec this] u(1) show ?case
    by auto
qed simp

lemma u64_inc: "(x :: u64) \<noteq> - 1 \<Longrightarrow> unat (x + 1) = unat x + 1"
proof -
  assume x: "x \<noteq> - 1"
  have "unat x \<noteq> 18446744073709551615"
  proof
    assume "unat x = 18446744073709551615"
    then have "unat x = unat (- 1 :: u64)"
      by (simp add: unsigned_minus_1_eq_mask mask_eq_exp_minus_1)
    with x show False
      by (simp add: word_unat_eq_iff)
  qed
  moreover have "unat x < 18446744073709551616"
    using unsigned_less [of x] by simp
  ultimately have "unat x + unat (1 :: u64) < 2 ^ LENGTH(64)"
    by simp
  then show ?thesis
    using unat_add_lem [of x 1] by simp
qed

lemma StartNewLineage_cases:
  obtains (kept) r ctx where "StartNewLineage session publish g = (r, g\<lparr>gl_context := ctx\<rparr>)" "r \<noteq> LN_Started"
    | (started) graph ctx where
      "StartNewLineage session publish g = (LN_Started, g\<lparr>gl_context := ctx,
         gl_version := blank_version\<lparr>
            gv_profileBits := pi_profileBits publish,
            gv_semanticCertified := pi_semanticCertified publish,
            gv_layoutPresent := pi_layoutPresent publish,
            gv_documentSessionId := session, gv_graphId := graph,
            gv_semanticRevision := 1, gv_layoutRevision := 1, gv_locatorEpoch := 1,
            gv_observedSemanticRoot := pi_semanticRoot publish,
            gv_layoutRoot := pi_layoutRoot publish, gv_captureRoot := pi_captureRoot publish\<rparr>,
         gl_used := remember (if gl_active g
            then remember (remember (gl_used g) (gv_documentSessionId (gl_version g)))
                   (gv_graphId (gl_version g))
            else gl_used g) session @ [graph],
         gl_active := True\<rparr>)"
      "IsRfc4122V4 session" "ValidPublishIdentity publish" "session \<notin> set (gl_used g)"
      "proper_id graph" "graph \<notin> set (gl_used g)" "graph \<noteq> session"
proof (cases "\<not> IsRfc4122V4 session \<or> \<not> ValidPublishIdentity publish \<or> ContainsId (gl_used g) session")
  case True
  define r where "r = (if \<not> IsRfc4122V4 session \<or> \<not> ValidPublishIdentity publish
    then LN_InvalidInput else LN_IdentityCollision)"
  have "StartNewLineage session publish g = (r, g\<lparr>gl_context := gl_context g\<rparr>)" "r \<noteq> LN_Started"
    using True by (simp_all add: StartNewLineage_def r_def)
  then show thesis
    by (rule kept)
next
  case False
  obtain mint graph ctx where
    m: "MintDistinctUuid (gl_source g) (gl_context g) (remember (gl_used g) session) zero_uuid =
      (mint, graph, ctx)"
    by (cases "MintDistinctUuid (gl_source g) (gl_context g) (remember (gl_used g) session) zero_uuid") auto
  show thesis
  proof (cases mint)
    case Minted
    then have "proper_id graph" "graph \<notin> set (gl_used g)" "graph \<noteq> session"
      using MintDistinctUuid_proper [OF m [unfolded Minted]] by auto
    with False Minted m show thesis
      by (intro started [of graph ctx]) (simp_all add: StartNewLineage_def Let_def)
  next
    case SourceFailure
    with False m show thesis
      by (intro kept [of LN_InvalidInput ctx]) (simp_all add: StartNewLineage_def Let_def)
  next
    case MintExhausted
    with False m show thesis
      by (intro kept [of LN_CollisionExhausted ctx]) (simp_all add: StartNewLineage_def Let_def)
  qed
qed

lemma Resume_cases:
  obtains (kept) e where "Lifecycle_Resume version g = (e, g)" "e \<noteq> GV_None"
    | (resumed) "Lifecycle_Resume version g = (GV_None, g\<lparr>gl_version := version,
         gl_used := remember (remember (gl_used g) (gv_documentSessionId version)) (gv_graphId version),
         gl_active := True\<rparr>)"
      "ValidateGraphVersion version = GV_None"
      "(gl_active g \<and> gv_documentSessionId version = gv_documentSessionId (gl_version g) \<and>
         gv_graphId version = gv_graphId (gl_version g)) \<or>
       (gv_documentSessionId version \<notin> set (gl_used g) \<and> gv_graphId version \<notin> set (gl_used g))"
proof (cases "ValidateGraphVersion version = GV_None \<and>
    ((gl_active g \<and> gv_documentSessionId version = gv_documentSessionId (gl_version g) \<and>
         gv_graphId version = gv_graphId (gl_version g)) \<or>
       (gv_documentSessionId version \<notin> set (gl_used g) \<and> gv_graphId version \<notin> set (gl_used g)))")
  case True
  then show thesis
    by (intro resumed) (auto simp: Lifecycle_Resume_def EqualUuid_def Let_def)
next
  case False
  show thesis
  proof (cases "ValidateGraphVersion version")
    case GV_None
    with False show thesis
      by (intro kept [of ReservedIdentityCollision]) (auto simp: Lifecycle_Resume_def EqualUuid_def Let_def)
  qed (auto simp: Lifecycle_Resume_def intro: kept)
qed

lemma ApplyPublish_cases:
  obtains (kept) r where "ApplyPublish publish outcome g = (r, g)" "r \<noteq> LR_Applied"
    | (applied) s l where
      "ApplyPublish publish outcome g = (LR_Applied, g\<lparr>gl_version := (gl_version g)\<lparr>
          gv_semanticRevision := s, gv_layoutRevision := l,
          gv_profileBits := pi_profileBits publish,
          gv_semanticCertified := pi_semanticCertified publish,
          gv_layoutPresent := pi_layoutPresent publish,
          gv_observedSemanticRoot := pi_semanticRoot publish,
          gv_layoutRoot := pi_layoutRoot publish,
          gv_captureRoot := pi_captureRoot publish\<rparr>\<rparr>)"
      "gl_active g" "outcome = PO_Success" "ValidPublishIdentity publish"
      "unat s = unat (gv_semanticRevision (gl_version g)) +
         (if gv_observedSemanticRoot (gl_version g) = pi_semanticRoot publish then 0 else 1)"
      "unat l = unat (gv_layoutRevision (gl_version g)) +
         (if gv_layoutPresent (gl_version g) = pi_layoutPresent publish \<and>
             gv_layoutRoot (gl_version g) = pi_layoutRoot publish then 0 else 1)"
proof -
  let ?v = "gl_version g"
  let ?sc = "gv_observedSemanticRoot ?v \<noteq> pi_semanticRoot publish"
  let ?lc = "gv_layoutPresent ?v \<noteq> pi_layoutPresent publish \<or> gv_layoutRoot ?v \<noteq> pi_layoutRoot publish"
  let ?over = "(?sc \<and> gv_semanticRevision ?v = - 1) \<or> (?lc \<and> gv_layoutRevision ?v = - 1)"
  have inc: "unat (x + (if b then 1 else 0)) = unat x + (if b then 1 else 0)"
    if "\<not> (b \<and> x = - 1)" for x :: u64 and b
    using that u64_inc [of x] by auto
  show thesis
  proof (cases "\<not> gl_active g \<or> outcome \<noteq> PO_Success \<or> \<not> ValidPublishIdentity publish \<or> ?over")
    case True
    define r where "r = (if \<not> gl_active g then LR_Inactive else if outcome \<noteq> PO_Success then LR_Unchanged
      else if \<not> ValidPublishIdentity publish then LR_InvalidPublish else LR_CounterOverflow)"
    have "ApplyPublish publish outcome g = (r, g)" "r \<noteq> LR_Applied"
      using True by (auto simp: ApplyPublish_def Let_def EqualHash_def r_def)
    then show thesis
      by (rule kept)
  next
    case False
    have result: "ApplyPublish publish outcome g = (LR_Applied, g\<lparr>gl_version := ?v\<lparr>
          gv_semanticRevision := gv_semanticRevision ?v + (if ?sc then 1 else 0),
          gv_layoutRevision := gv_layoutRevision ?v + (if ?lc then 1 else 0),
          gv_profileBits := pi_profileBits publish,
          gv_semanticCertified := pi_semanticCertified publish,
          gv_layoutPresent := pi_layoutPresent publish,
          gv_observedSemanticRoot := pi_semanticRoot publish,
          gv_layoutRoot := pi_layoutRoot publish,
          gv_captureRoot := pi_captureRoot publish\<rparr>\<rparr>)"
      using False by (auto simp: ApplyPublish_def Let_def EqualHash_def)
    have s: "unat (gv_semanticRevision ?v + (if ?sc then 1 else 0)) = unat (gv_semanticRevision ?v) +
        (if gv_observedSemanticRoot ?v = pi_semanticRoot publish then 0 else 1)"
      and l: "unat (gv_layoutRevision ?v + (if ?lc then 1 else 0)) = unat (gv_layoutRevision ?v) +
        (if gv_layoutPresent ?v = pi_layoutPresent publish \<and>
            gv_layoutRoot ?v = pi_layoutRoot publish then 0 else 1)"
      using False inc [of ?sc "gv_semanticRevision ?v"] inc [of ?lc "gv_layoutRevision ?v"] by auto
    show thesis
      by (rule applied [OF result _ _ _ s l]) (use False in auto)
  qed
qed

lemma Reopen_cases:
  obtains (kept) r where "AuthorizedReopen newSession fresh complete exact g = (r, g)" "r \<noteq> RO_Retained"
    | (retained) e where
      "AuthorizedReopen newSession fresh complete exact g = (RO_Retained, g\<lparr>
         gl_version := (gl_version g)\<lparr>gv_documentSessionId := newSession, gv_locatorEpoch := e\<rparr>,
         gl_used := remember (gl_used g) newSession\<rparr>)"
      "gl_active g" "IsRfc4122V4 newSession" "newSession \<notin> set (gl_used g)" "complete" "exact"
      "gv_semanticCertified (gl_version g)" "pi_semanticCertified fresh" "ValidPublishIdentity fresh"
      "pi_profileBits fresh = gv_profileBits (gl_version g)"
      "gv_observedSemanticRoot (gl_version g) = pi_semanticRoot fresh"
      "unat e = unat (gv_locatorEpoch (gl_version g)) + 1"
proof -
  let ?v = "gl_version g"
  let ?guard = "gl_active g \<and> IsRfc4122V4 newSession \<and> newSession \<notin> set (gl_used g) \<and> complete \<and> exact \<and>
      gv_semanticCertified ?v \<and> pi_semanticCertified fresh \<and> ValidPublishIdentity fresh \<and>
      pi_profileBits fresh = gv_profileBits ?v \<and> gv_observedSemanticRoot ?v = pi_semanticRoot fresh \<and>
      gv_locatorEpoch ?v \<noteq> - 1"
  show thesis
  proof (cases ?guard)
    case True
    then show thesis
      using u64_inc [of "gv_locatorEpoch ?v"]
      by (intro retained [of "gv_locatorEpoch ?v + 1"]) (auto simp: AuthorizedReopen_def EqualHash_def Let_def)
  next
    case False
    define r where "r = fst (AuthorizedReopen newSession fresh complete exact g)"
    have "AuthorizedReopen newSession fresh complete exact g = (r, g)" "r \<noteq> RO_Retained"
      using False by (auto simp: AuthorizedReopen_def EqualHash_def Let_def r_def)
    then show thesis
      by (rule kept)
  qed
qed

lemmas lifecycle_cases = StartNewLineage_cases Resume_cases ApplyPublish_cases Reopen_cases

lemma not_zero_unat: "unat (x :: u64) = unat y + k \<Longrightarrow> y \<noteq> 0 \<Longrightarrow> x \<noteq> 0"
  by (auto simp: unat_eq_zero)

lemma start_ok:
  assumes ok: "lifecycle_ok g" and shape: "length session = 16" "publish_shape publish"
  shows "lifecycle_ok (snd (StartNewLineage session publish g))"
proof (rule StartNewLineage_cases [of session publish g])
  fix r ctx assume "StartNewLineage session publish g = (r, g\<lparr>gl_context := ctx\<rparr>)"
  with ok show ?thesis
    by (simp add: lifecycle_ok_def)
next
  fix graph ctx
  let ?old = "if gl_active g
      then remember (remember (gl_used g) (gv_documentSessionId (gl_version g))) (gv_graphId (gl_version g))
      else gl_used g"
  let ?v = "blank_version\<lparr>
            gv_profileBits := pi_profileBits publish,
            gv_semanticCertified := pi_semanticCertified publish,
            gv_layoutPresent := pi_layoutPresent publish,
            gv_documentSessionId := session, gv_graphId := graph,
            gv_semanticRevision := 1, gv_layoutRevision := 1, gv_locatorEpoch := 1,
            gv_observedSemanticRoot := pi_semanticRoot publish,
            gv_layoutRoot := pi_layoutRoot publish, gv_captureRoot := pi_captureRoot publish\<rparr>"
  assume start: "StartNewLineage session publish g = (LN_Started, g\<lparr>gl_context := ctx, gl_version := ?v,
         gl_used := remember ?old session @ [graph], gl_active := True\<rparr>)"
    and pub: "ValidPublishIdentity publish" and v4: "IsRfc4122V4 session"
    and fresh: "session \<notin> set (gl_used g)" "proper_id graph" "graph \<notin> set (gl_used g)" "graph \<noteq> session"
  have old: "set ?old = set (gl_used g)" "distinct ?old"
    using ok by (auto simp: lifecycle_ok_def)
  have "ValidateGraphVersion ?v = GV_None"
    using pub v4 fresh unfolding ValidateGraphVersion_iff
    by (auto simp: ValidPublishIdentity_def blank_version_def proper_id_def split: if_splits)
  moreover have "version_shape ?v"
    using shape fresh by (simp add: version_shape_def publish_shape_def proper_id_def)
  ultimately show ?thesis
    unfolding start snd_conv lifecycle_ok_def using ok old fresh v4 shape(1)
    by (auto simp: lifecycle_ok_def proper_id_def)
qed

lemma reserve_ok:
  assumes ok: "lifecycle_ok g" and shape: "\<forall>u \<in> set ids. length u = 16"
  shows "lifecycle_ok (snd (Lifecycle_ReserveIdentityIds ids g))"
proof (cases "reserve_ids (gl_used g) ids")
  case None
  with ok show ?thesis
    by (simp add: Lifecycle_ReserveIdentityIds_def)
next
  case (Some used)
  have "distinct (gl_used g)"
    using ok by (simp add: lifecycle_ok_def)
  from reserve_ids_Some [OF Some this] Some ok shape show ?thesis
    by (auto simp: Lifecycle_ReserveIdentityIds_def lifecycle_ok_def proper_id_def)
qed

lemma resume_ok:
  assumes ok: "lifecycle_ok g" and shape: "version_shape version"
  shows "lifecycle_ok (snd (Lifecycle_Resume version g))"
proof (rule Resume_cases [of version g])
  assume res: "Lifecycle_Resume version g = (GV_None, g\<lparr>gl_version := version,
         gl_used := remember (remember (gl_used g) (gv_documentSessionId version)) (gv_graphId version),
         gl_active := True\<rparr>)"
    and valid: "ValidateGraphVersion version = GV_None"
  have "IsRfc4122V4 (gv_documentSessionId version)" "IsRfc4122V4 (gv_graphId version)"
    using valid unfolding ValidateGraphVersion_iff by blast+
  then show ?thesis
    using ok shape valid by (auto simp: res lifecycle_ok_def proper_id_def version_shape_def)
qed (use ok in simp)

lemma publish_ok:
  assumes ok: "lifecycle_ok g" and shape: "publish_shape publish"
  shows "lifecycle_ok (snd (ApplyPublish publish outcome g))"
proof (rule ApplyPublish_cases [of publish outcome g])
  fix s l
  let ?v = "(gl_version g)\<lparr>
          gv_semanticRevision := s, gv_layoutRevision := l,
          gv_profileBits := pi_profileBits publish,
          gv_semanticCertified := pi_semanticCertified publish,
          gv_layoutPresent := pi_layoutPresent publish,
          gv_observedSemanticRoot := pi_semanticRoot publish,
          gv_layoutRoot := pi_layoutRoot publish,
          gv_captureRoot := pi_captureRoot publish\<rparr>"
  assume res: "ApplyPublish publish outcome g = (LR_Applied, g\<lparr>gl_version := ?v\<rparr>)"
    and active: "gl_active g" and pub: "ValidPublishIdentity publish"
    and s: "unat s = unat (gv_semanticRevision (gl_version g)) +
         (if gv_observedSemanticRoot (gl_version g) = pi_semanticRoot publish then 0 else 1)"
    and l: "unat l = unat (gv_layoutRevision (gl_version g)) +
         (if gv_layoutPresent (gl_version g) = pi_layoutPresent publish \<and>
             gv_layoutRoot (gl_version g) = pi_layoutRoot publish then 0 else 1)"
  have old: "ValidateGraphVersion (gl_version g) = GV_None" "version_shape (gl_version g)"
    using ok active by (simp_all add: lifecycle_ok_def)
  have "gv_semanticRevision (gl_version g) \<noteq> 0" "gv_layoutRevision (gl_version g) \<noteq> 0"
    using old(1) unfolding ValidateGraphVersion_iff by blast+
  note nonzero = not_zero_unat [OF s this(1)] not_zero_unat [OF l this(2)]
  have "ValidateGraphVersion ?v = GV_None"
    using nonzero old(1) pub unfolding ValidateGraphVersion_iff
    by (auto simp: ValidPublishIdentity_def split: if_splits)
  moreover have "version_shape ?v"
    using old(2) shape by (simp add: version_shape_def publish_shape_def)
  ultimately show ?thesis
    using ok active by (simp add: res lifecycle_ok_def)
qed (use ok in simp)

lemma reopen_ok:
  assumes ok: "lifecycle_ok g" and shape: "length newSession = 16"
  shows "lifecycle_ok (snd (AuthorizedReopen newSession fresh complete exact g))"
proof (rule Reopen_cases [of newSession fresh complete exact g])
  fix e
  let ?v = "(gl_version g)\<lparr>gv_documentSessionId := newSession, gv_locatorEpoch := e\<rparr>"
  assume res: "AuthorizedReopen newSession fresh complete exact g = (RO_Retained,
      g\<lparr>gl_version := ?v, gl_used := remember (gl_used g) newSession\<rparr>)"
    and active: "gl_active g" and v4: "IsRfc4122V4 newSession" and new: "newSession \<notin> set (gl_used g)"
    and e: "unat e = unat (gv_locatorEpoch (gl_version g)) + 1"
  have old: "ValidateGraphVersion (gl_version g) = GV_None" "version_shape (gl_version g)"
    "gv_graphId (gl_version g) \<in> set (gl_used g)"
    using ok active by (simp_all add: lifecycle_ok_def)
  have "e \<noteq> 0"
    using e by (auto simp: unat_eq_zero)
  moreover have "gv_graphId (gl_version g) \<noteq> newSession"
    using new old(3) by blast
  ultimately have "ValidateGraphVersion ?v = GV_None"
    using old(1) v4 unfolding ValidateGraphVersion_iff by simp
  moreover have "version_shape ?v"
    using old(2) shape by (simp add: version_shape_def)
  ultimately show ?thesis
    using ok active v4 shape old(3) by (auto simp: res lifecycle_ok_def proper_id_def)
qed (use ok in simp)

lemma lifecycle_step_ok:
  assumes "lifecycle_step g g'" "lifecycle_ok g"
  shows "lifecycle_ok g'"
  using assms(1)
  by (rule lifecycle_stepE) (use assms(2) start_ok reserve_ok resume_ok publish_ok reopen_ok in simp_all)

lemma lifecycle_step_used:
  assumes "lifecycle_step g g'" "lifecycle_ok g"
  shows "set (gl_used g) \<subseteq> set (gl_used g') \<and> lifecycle_live g' \<inter> set (gl_used g) \<subseteq> lifecycle_live g"
  using assms(1)
proof (rule lifecycle_stepE)
  fix session publish assume g': "g' = snd (StartNewLineage session publish g)"
  show ?thesis
    by (rule StartNewLineage_cases [of session publish g]) (auto simp: g' lifecycle_live_def)
next
  fix ids assume g': "g' = snd (Lifecycle_ReserveIdentityIds ids g)"
  have "distinct (gl_used g)"
    using assms(2) by (simp add: lifecycle_ok_def)
  then show ?thesis
    using reserve_ids_Some [of "gl_used g" ids]
    by (auto simp: g' Lifecycle_ReserveIdentityIds_def lifecycle_live_def split: option.splits if_splits)
next
  fix version :: GraphVersionV1 assume g': "g' = snd (Lifecycle_Resume version g)"
  show ?thesis
    by (rule Resume_cases [of version g]) (auto simp: g' lifecycle_live_def)
next
  fix publish outcome assume g': "g' = snd (ApplyPublish publish outcome g)"
  show ?thesis
    by (rule ApplyPublish_cases [of publish outcome g]) (auto simp: g' lifecycle_live_def)
next
  fix newSession fresh complete exact
  assume g': "g' = snd (AuthorizedReopen newSession fresh complete exact g)"
  show ?thesis
    by (rule Reopen_cases [of newSession fresh complete exact g]) (auto simp: g' lifecycle_live_def)
qed

interpretation lifecycle: identity_history lifecycle_ok lifecycle_live "\<lambda>g. set (gl_used g)" lifecycle_step
proof
  show "lifecycle_ok g \<Longrightarrow> lifecycle_live g \<subseteq> set (gl_used g)" for g :: "'a GraphLifecycle"
    by (auto simp: lifecycle_ok_def lifecycle_live_def)
qed (use lifecycle_step_ok lifecycle_step_used in blast)+

subsection \<open>Properties\<close>

lemma new_lifecycle_ok: "lifecycle_ok (new_lifecycle source ctx)"
  by (simp add: lifecycle_ok_def new_lifecycle_def)

text \<open>Claim C7. Whatever calls a lifecycle object has been through, an active one holds a valid
  version, whose two identities are recorded as used; the record has no duplicates and consists
  of version-4 UUIDs.\<close>

theorem lifecycle_invariant:
  assumes "lifecycle_step\<^sup>*\<^sup>* (new_lifecycle source ctx) g"
  shows "(gl_active g \<longrightarrow> ValidateGraphVersion (gl_version g) = GV_None \<and>
      {gv_documentSessionId (gl_version g), gv_graphId (gl_version g)} \<subseteq> set (gl_used g)) \<and>
    distinct (gl_used g) \<and> (\<forall>u \<in> set (gl_used g). length u = 16 \<and> IsRfc4122V4 u)"
  using lifecycle.steps_valid [OF assms new_lifecycle_ok]
  by (simp add: lifecycle_ok_def proper_id_def)

text \<open>Claim C5. An identity a lifecycle object has used and given up (the session replaced by a
  reopen, the graph of an earlier lineage, a reserved id) is never the session or the graph of a
  later version.\<close>

theorem lifecycle_never_reuses:
  assumes "lifecycle_step\<^sup>*\<^sup>* (new_lifecycle source ctx) g" "lifecycle_step\<^sup>*\<^sup>* g g'"
    and "u \<in> set (gl_used g)" "u \<notin> lifecycle_live g"
  shows "u \<notin> lifecycle_live g'"
  using lifecycle.retired_forever [OF assms(2) lifecycle.steps_valid [OF assms(1) new_lifecycle_ok] assms(3,4)]
  by blast

text \<open>Claim C8. A publish that is applied moves each revision by one exactly when its root (or
  the presence of a layout) changed, without wrap-around, and stores the published identity; one
  that is not applied leaves the whole state as it was.\<close>

theorem apply_publish_counters:
  "case ApplyPublish publish outcome g of (result, g') \<Rightarrow>
     if result = LR_Applied
     then gl_active g \<and> outcome = PO_Success \<and> ValidPublishIdentity publish \<and>
       unat (gv_semanticRevision (gl_version g')) = unat (gv_semanticRevision (gl_version g)) +
         (if gv_observedSemanticRoot (gl_version g) = pi_semanticRoot publish then 0 else 1) \<and>
       unat (gv_layoutRevision (gl_version g')) = unat (gv_layoutRevision (gl_version g)) +
         (if gv_layoutPresent (gl_version g) = pi_layoutPresent publish \<and>
             gv_layoutRoot (gl_version g) = pi_layoutRoot publish then 0 else 1) \<and>
       gv_observedSemanticRoot (gl_version g') = pi_semanticRoot publish \<and>
       gv_layoutRoot (gl_version g') = pi_layoutRoot publish \<and>
       gv_documentSessionId (gl_version g') = gv_documentSessionId (gl_version g) \<and>
       gv_graphId (gl_version g') = gv_graphId (gl_version g) \<and>
       gv_locatorEpoch (gl_version g') = gv_locatorEpoch (gl_version g) \<and> gl_used g' = gl_used g
     else g' = g"
  by (rule ApplyPublish_cases [of publish outcome g]) simp_all

definition sample_publish :: PublishIdentity where
  "sample_publish = \<lparr>pi_profileBits = 3, pi_semanticCertified = True, pi_layoutPresent = False,
     pi_semanticRoot = replicate 32 1, pi_layoutRoot = zero_hash, pi_captureRoot = zero_hash\<rparr>"

definition counting_source :: "u8 UuidSource" where
  "counting_source = InjectedFill (\<lambda>ctx buffer. (True, replicate 16 ctx, ctx + 1))"

definition started_lifecycle :: "u8 GraphLifecycle" where
  "started_lifecycle = snd (StartNewLineage sample_uuid sample_publish (new_lifecycle counting_source 5))"

definition reopened_lifecycle :: "u8 GraphLifecycle" where
  "reopened_lifecycle = snd (AuthorizedReopen (sample_uuid[15 := 7]) sample_publish True True started_lifecycle)"

lemma sample_steps:
  "lifecycle_step\<^sup>*\<^sup>* (new_lifecycle counting_source 5) started_lifecycle"
  "lifecycle_step\<^sup>*\<^sup>* started_lifecycle reopened_lifecycle"
  "lifecycle_step\<^sup>*\<^sup>* (new_lifecycle counting_source 5) reopened_lifecycle"
proof -
  have "length sample_uuid = 16" "publish_shape sample_publish"
    by code_simp+
  then have 1: "lifecycle_step (new_lifecycle counting_source 5) started_lifecycle"
    unfolding started_lifecycle_def by (rule lifecycle_step.start)
  have "length (sample_uuid[15 := 7]) = 16"
    by code_simp
  then have 2: "lifecycle_step started_lifecycle reopened_lifecycle"
    unfolding reopened_lifecycle_def by (rule lifecycle_step.reopen)
  from 1 2 show "lifecycle_step\<^sup>*\<^sup>* (new_lifecycle counting_source 5) started_lifecycle"
    "lifecycle_step\<^sup>*\<^sup>* started_lifecycle reopened_lifecycle"
    "lifecycle_step\<^sup>*\<^sup>* (new_lifecycle counting_source 5) reopened_lifecycle"
    by auto
qed

theorem lifecycle_invariant_witness:
  "gl_active reopened_lifecycle \<and> ValidateGraphVersion (gl_version reopened_lifecycle) = GV_None"
proof -
  have "gl_active reopened_lifecycle"
    by code_simp
  with lifecycle_invariant [OF sample_steps(3)] show ?thesis
    by blast
qed

theorem lifecycle_never_reuses_witness:
  "sample_uuid \<notin> lifecycle_live (snd (StartNewLineage sample_uuid sample_publish reopened_lifecycle))"
proof -
  have shape: "length sample_uuid = 16" "publish_shape sample_publish"
    by code_simp+
  have "sample_uuid \<in> set (gl_used reopened_lifecycle)" "sample_uuid \<notin> lifecycle_live reopened_lifecycle"
    by code_simp+
  moreover have "lifecycle_step\<^sup>*\<^sup>* reopened_lifecycle
      (snd (StartNewLineage sample_uuid sample_publish reopened_lifecycle))"
    by (rule r_into_rtranclp) (rule lifecycle_step.start [OF shape])
  ultimately show ?thesis
    using lifecycle_never_reuses [OF sample_steps(3)] by blast
qed

end
