(* ===== verification/MutationIdentity.thy ===== *)
theory MutationIdentity
  imports GraphUuid
begin

section \<open>Node identities under mutation (DocumentGraphIdentity.cpp)\<close>

text \<open>
  The class keeps the identity tree of a document: a list of nodes with their parents, the
  tombstones, and several lists of identities that must not be handed out again. Every
  operation reports what it did in a receipt. This theory holds the state, the operations on
  single nodes and subtrees, and their invariants; the table transitions are in their own
  theory.
\<close>

subsection \<open>Receipts\<close>

record RemapEntry =
  re_source :: Uuid128
  re_targetPresent :: bool
  re_target :: Uuid128
  re_disposition :: RemapDisposition
  re_reason :: RemapReason

record TombstoneEntry =
  te_node :: Uuid128
  te_semanticRevision :: u64
  te_reason :: TombstoneReason

record IdentityReceipt =
  rc_remaps :: "RemapEntry list"
  rc_tombstones :: "TombstoneEntry list"

definition empty_receipt :: IdentityReceipt where
  "empty_receipt = \<lparr>rc_remaps = [], rc_tombstones = []\<rparr>"

definition Remap :: "Uuid128 \<Rightarrow> Uuid128 option \<Rightarrow> RemapDisposition \<Rightarrow> RemapReason \<Rightarrow> RemapEntry" where
  "Remap source target disposition reason =
     \<lparr>re_source = source, re_targetPresent = (target \<noteq> None),
      re_target = (case target of None \<Rightarrow> zero_uuid | Some t \<Rightarrow> t),
      re_disposition = disposition, re_reason = reason\<rparr>"

definition push_remap :: "RemapEntry \<Rightarrow> IdentityReceipt \<Rightarrow> IdentityReceipt" where
  "push_remap entry receipt = receipt\<lparr>rc_remaps := rc_remaps receipt @ [entry]\<rparr>"

definition add_id :: "Uuid128 \<Rightarrow> Uuid128 list \<Rightarrow> Uuid128 list" where
  "add_id u ids = (if ContainsId ids u then ids else ids @ [u])"

definition ReceiptReservedIds :: "IdentityReceipt \<Rightarrow> Uuid128 list" where
  "ReceiptReservedIds receipt =
     fold (\<lambda>entry ids. add_id (te_node entry) ids) (rc_tombstones receipt)
       (fold (\<lambda>entry ids.
            let ids = add_id (re_source entry) ids
            in if re_targetPresent entry then add_id (re_target entry) ids else ids)
          (rc_remaps receipt) [])"

subsection \<open>State\<close>

record IdentityNode =
  in_id :: Uuid128
  in_parent :: Uuid128
  in_kind :: NodeKind
  in_cell :: CellCoordinateV1

definition default_cell :: CellCoordinateV1 where
  "default_cell = \<lparr>cc_row1 = 1, cc_column1 = 1, cc_rowSpan = 1, cc_columnSpan = 1\<rparr>"

datatype MutationResult = MR_Applied | MR_InvalidInput | MR_CollisionExhausted

record 'c MutationIdentity =
  mi_source :: "'c UuidSource"
  mi_context :: 'c
  mi_nodes :: "IdentityNode list"
  mi_tombstoned :: "Uuid128 list"
  mi_clientIds :: "Uuid128 list"
  mi_receiptIds :: "Uuid128 list"
  mi_reserved :: "Uuid128 list"
  mi_allTime :: "Uuid128 list"
  mi_semanticRevision :: u64
  mi_lastResult :: MutationResult

definition new_mutation :: "'c UuidSource \<Rightarrow> 'c \<Rightarrow> u64 \<Rightarrow> 'c MutationIdentity" where
  "new_mutation source ctx semanticRevision =
     \<lparr>mi_source = source, mi_context = ctx, mi_nodes = [], mi_tombstoned = [], mi_clientIds = [],
      mi_receiptIds = [], mi_reserved = [], mi_allTime = [],
      mi_semanticRevision = semanticRevision, mi_lastResult = MR_InvalidInput\<rparr>"

definition find_node :: "IdentityNode list \<Rightarrow> Uuid128 \<Rightarrow> IdentityNode option" where
  "find_node nodes u = List.find (\<lambda>node. EqualUuid (in_id node) u) nodes"

text \<open>The walk of \<open>IsDescendant\<close>: its guard allows one round more than there are nodes.\<close>

fun ancestor_walk :: "nat \<Rightarrow> IdentityNode list \<Rightarrow> IdentityNode option \<Rightarrow> Uuid128 \<Rightarrow> bool" where
  "ancestor_walk rounds nodes None possibleAncestor = False"
| "ancestor_walk 0 nodes (Some current) possibleAncestor = False"
| "ancestor_walk (Suc rounds) nodes (Some current) possibleAncestor =
     (if EqualUuid (in_id current) possibleAncestor then True
      else ancestor_walk rounds nodes (find_node nodes (in_parent current)) possibleAncestor)"

definition IsDescendant :: "IdentityNode list \<Rightarrow> Uuid128 \<Rightarrow> Uuid128 \<Rightarrow> bool" where
  "IsDescendant nodes node possibleAncestor =
     ancestor_walk (length nodes + 1) nodes (find_node nodes node) possibleAncestor"

subsection \<open>Seeding, reserving, minting\<close>

fun seed_ids_ok :: "'c MutationIdentity \<Rightarrow> Uuid128 list \<Rightarrow> IdentityNode list \<Rightarrow> bool" where
  "seed_ids_ok m ids [] = True"
| "seed_ids_ok m ids (node # nodes) =
     (let retained = (find_node (mi_nodes m) (in_id node) \<noteq> None)
      in if \<not> IsRfc4122V4 (in_id node) \<or> ContainsId ids (in_id node) \<or>
            ContainsId (mi_reserved m) (in_id node) \<or>
            (ContainsId (mi_allTime m) (in_id node) \<and> \<not> retained)
         then False
         else seed_ids_ok m (ids @ [in_id node]) nodes)"

fun seed_parents :: "Uuid128 list \<Rightarrow> IdentityNode list \<Rightarrow> Uuid128 list option" where
  "seed_parents allTime [] = Some allTime"
| "seed_parents allTime (node # nodes) =
     (if \<not> IsZeroUuid (in_parent node) \<and> \<not> IsRfc4122V4 (in_parent node) then None
      else
        let allTime = add_id (in_id node) allTime;
            allTime = (if \<not> IsZeroUuid (in_parent node) then add_id (in_parent node) allTime else allTime)
        in seed_parents allTime nodes)"

definition Mutation_Seed :: "IdentityNode list \<Rightarrow> 'c MutationIdentity \<Rightarrow> bool \<times> 'c MutationIdentity" where
  "Mutation_Seed nodes m =
     (let m = m\<lparr>mi_lastResult := MR_InvalidInput\<rparr>
      in if \<not> seed_ids_ok m [] nodes then (False, m)
         else case seed_parents (mi_allTime m) nodes of
                None \<Rightarrow> (False, m)
              | Some nextAllTime \<Rightarrow>
                  (True, m\<lparr>mi_nodes := nodes, mi_tombstoned := [], mi_clientIds := [],
                           mi_receiptIds := [], mi_allTime := nextAllTime,
                           mi_lastResult := MR_Applied\<rparr>))"

fun reserve_loop ::
  "IdentityNode list \<Rightarrow> Uuid128 list \<Rightarrow> Uuid128 list \<Rightarrow> Uuid128 list \<Rightarrow>
     (Uuid128 list \<times> Uuid128 list) option" where
  "reserve_loop nodes reserved allTime [] = Some (reserved, allTime)"
| "reserve_loop nodes reserved allTime (u # ids) =
     (if \<not> IsRfc4122V4 u \<or> find_node nodes u \<noteq> None then None
      else if ContainsId reserved u then reserve_loop nodes reserved allTime ids
      else if ContainsId allTime u then None
      else reserve_loop nodes (reserved @ [u]) (allTime @ [u]) ids)"

definition Mutation_ReserveIdentityIds ::
  "Uuid128 list \<Rightarrow> 'c MutationIdentity \<Rightarrow> bool \<times> 'c MutationIdentity" where
  "Mutation_ReserveIdentityIds ids m =
     (case reserve_loop (mi_nodes m) (mi_reserved m) (mi_allTime m) ids of
        None \<Rightarrow> (False, m)
      | Some (reserved, allTime) \<Rightarrow> (True, m\<lparr>mi_reserved := reserved, mi_allTime := allTime\<rparr>))"

text \<open>The minted identity, or the result to report.\<close>

definition MintUnused ::
  "Uuid128 list \<Rightarrow> 'c MutationIdentity \<Rightarrow> (MutationResult + Uuid128) \<times> 'c MutationIdentity" where
  "MintUnused operationReserved m =
     (let forbidden = mi_allTime m @ mi_reserved m @ mi_tombstoned m @ mi_clientIds m @
            mi_receiptIds m @ operationReserved @ map in_id (mi_nodes m)
      in case MintDistinctUuid (mi_source m) (mi_context m) forbidden zero_uuid of
           (mint, u, ctx) \<Rightarrow>
             let m = m\<lparr>mi_context := ctx\<rparr>
             in case mint of
                  Minted \<Rightarrow> (Inr u, m\<lparr>mi_allTime := add_id u (mi_allTime m)\<rparr>)
                | MintExhausted \<Rightarrow> (Inl MR_CollisionExhausted, m)
                | SourceFailure \<Rightarrow> (Inl MR_InvalidInput, m))"

text \<open>The loop that mints several identities, each reserved against the next.\<close>

fun mint_many ::
  "nat \<Rightarrow> Uuid128 list \<Rightarrow> Uuid128 list \<Rightarrow> 'c MutationIdentity \<Rightarrow>
     (MutationResult + Uuid128 list) \<times> 'c MutationIdentity" where
  "mint_many 0 reserved minted m = (Inr minted, m)"
| "mint_many (Suc n) reserved minted m =
     (case MintUnused reserved m of
        (Inl r, m') \<Rightarrow> (Inl r, m')
      | (Inr u, m') \<Rightarrow> mint_many n (reserved @ [u]) (minted @ [u]) m')"

definition RememberReceiptIds :: "IdentityReceipt \<Rightarrow> 'c MutationIdentity \<Rightarrow> 'c MutationIdentity" where
  "RememberReceiptIds receipt m =
     fold (\<lambda>u m. m\<lparr>mi_receiptIds := add_id u (mi_receiptIds m), mi_allTime := add_id u (mi_allTime m)\<rparr>)
       (ReceiptReservedIds receipt) m"

definition Mutation_Tombstone ::
  "Uuid128 \<Rightarrow> TombstoneReason \<Rightarrow> IdentityReceipt \<times> 'c MutationIdentity \<Rightarrow>
     (IdentityReceipt \<times> 'c MutationIdentity) option" where
  "Mutation_Tombstone u reason rm =
     (case rm of (receipt, m) \<Rightarrow>
        if find_node (mi_nodes m) u = None \<or> ContainsId (mi_tombstoned m) u then None
        else Some (receipt\<lparr>rc_tombstones := rc_tombstones receipt @
                     [\<lparr>te_node = u, te_semanticRevision = mi_semanticRevision m, te_reason = reason\<rparr>]\<rparr>,
                   m\<lparr>mi_tombstoned := mi_tombstoned m @ [u]\<rparr>))"

subsection \<open>Operations on nodes\<close>

text \<open>
  Every operation maps the receipt and the state to its verdict and the new receipt and state;
  both change only as far as the source has got when it returns.
\<close>

definition finish :: "IdentityReceipt \<Rightarrow> 'c MutationIdentity \<Rightarrow> bool \<times> IdentityReceipt \<times> 'c MutationIdentity" where
  "finish receipt m = (True, receipt, (RememberReceiptIds receipt m)\<lparr>mi_lastResult := MR_Applied\<rparr>)"

definition Mutation_Insert ::
  "Uuid128 \<Rightarrow> Uuid128 \<Rightarrow> NodeKind \<Rightarrow> IdentityReceipt \<Rightarrow> 'c MutationIdentity \<Rightarrow>
     bool \<times> IdentityReceipt \<times> 'c MutationIdentity" where
  "Mutation_Insert client parent kind receipt m =
     (let m = m\<lparr>mi_lastResult := MR_InvalidInput\<rparr>
      in if \<not> IsRfc4122V4 client \<or> find_node (mi_nodes m) parent = None \<or>
            ContainsId (mi_clientIds m) client
         then (False, receipt, m)
         else case MintUnused (ReceiptReservedIds receipt @ [client]) m of
                (Inl r, m) \<Rightarrow> (False, receipt, m\<lparr>mi_lastResult := r\<rparr>)
              | (Inr u, m) \<Rightarrow>
                  finish (push_remap (Remap client (Some u) RD_New RR_ClientInsert) receipt)
                    (m\<lparr>mi_clientIds := mi_clientIds m @ [client],
                       mi_nodes := mi_nodes m @ [\<lparr>in_id = u, in_parent = parent, in_kind = kind,
                                                  in_cell = default_cell\<rparr>]\<rparr>))"

definition Mutation_Split ::
  "Uuid128 \<Rightarrow> u64 \<Rightarrow> IdentityReceipt \<Rightarrow> 'c MutationIdentity \<Rightarrow>
     bool \<times> IdentityReceipt \<times> 'c MutationIdentity" where
  "Mutation_Split original pieceCount receipt m =
     (let m = m\<lparr>mi_lastResult := MR_InvalidInput\<rparr>
      in case find_node (mi_nodes m) original of
           None \<Rightarrow> (False, receipt, m)
         | Some snapshot \<Rightarrow>
             if pieceCount < 2 \<or> (in_kind snapshot \<noteq> NK_Paragraph \<and> in_kind snapshot \<noteq> NK_CharacterRun)
             then (False, receipt, m)
             else case mint_many (unat (pieceCount - 1)) (ReceiptReservedIds receipt) [] m of
                    (Inl r, m) \<Rightarrow> (False, receipt, m\<lparr>mi_lastResult := r\<rparr>)
                  | (Inr minted, m) \<Rightarrow>
                      finish
                        (fold (\<lambda>u. push_remap (Remap u (Some u) RD_New RR_Split)) minted
                          (push_remap (Remap original (Some original) RD_Retained RR_Split) receipt))
                        (m\<lparr>mi_nodes := mi_nodes m @
                             map (\<lambda>u. \<lparr>in_id = u, in_parent = in_parent snapshot,
                                        in_kind = in_kind snapshot, in_cell = default_cell\<rparr>) minted\<rparr>))"

fun node_position :: "IdentityNode list \<Rightarrow> Uuid128 \<Rightarrow> nat option" where
  "node_position [] u = None"
| "node_position (node # nodes) u =
     (if EqualUuid (in_id node) u then Some 0 else map_option Suc (node_position nodes u))"

text \<open>
  The first loop of \<open>Coalesce\<close>: \<open>previous\<close> holds the survivor's kind and parent and the last
  position, or \<open>None\<close> before the first node. The answer is the survivor's kind.
\<close>

fun coalesce_check ::
  "'c MutationIdentity \<Rightarrow> (NodeKind \<times> Uuid128 \<times> nat) option \<Rightarrow> Uuid128 list \<Rightarrow> NodeKind option" where
  "coalesce_check m previous [] = map_option fst previous"
| "coalesce_check m previous (u # ids) =
     (if ContainsId (mi_tombstoned m) u then None
      else case node_position (mi_nodes m) u of
             None \<Rightarrow> None
           | Some position \<Rightarrow>
               let found = mi_nodes m ! position
               in case previous of
                    None \<Rightarrow>
                      if in_kind found \<noteq> NK_Paragraph \<and> in_kind found \<noteq> NK_CharacterRun then None
                      else coalesce_check m (Some (in_kind found, in_parent found, position)) ids
                  | Some (survivorKind, commonParent, last_position) \<Rightarrow>
                      if in_kind found \<noteq> survivorKind \<or> \<not> EqualUuid (in_parent found) commonParent \<or>
                         position \<le> last_position
                      then None
                      else coalesce_check m (Some (survivorKind, commonParent, position)) ids)"

fun absorb_loop ::
  "NodeKind \<Rightarrow> Uuid128 \<Rightarrow> Uuid128 list \<Rightarrow> IdentityReceipt \<times> 'c MutationIdentity \<Rightarrow>
     bool \<times> IdentityReceipt \<times> 'c MutationIdentity" where
  "absorb_loop survivorKind survivorId [] rm = (True, rm)"
| "absorb_loop survivorKind survivorId (u # ids) (receipt, m) =
     (case find_node (mi_nodes m) u of
        None \<Rightarrow> (False, receipt, m)
      | Some absorbed \<Rightarrow>
          if in_kind absorbed \<noteq> survivorKind then (False, receipt, m)
          else
            let children = filter (\<lambda>child. EqualUuid (in_parent child) u) (mi_nodes m);
                (receipt1, m1) =
                  (if survivorKind = NK_Paragraph
                   then (fold (\<lambda>child. push_remap (Remap (in_id child) (Some (in_id child)) RD_Retained RR_Coalesce))
                           children receipt,
                         m\<lparr>mi_nodes := map (\<lambda>child. if EqualUuid (in_parent child) u
                             then child\<lparr>in_parent := survivorId\<rparr> else child) (mi_nodes m)\<rparr>)
                   else (receipt, m))
            in case Mutation_Tombstone u TR_Coalesce (receipt1, m1) of
                 None \<Rightarrow> (False, receipt1, m1)
               | Some (receipt2, m2) \<Rightarrow>
                   absorb_loop survivorKind survivorId ids
                     (push_remap (Remap u None RD_Tombstoned RR_Coalesce) receipt2, m2))"

definition erase_ids :: "Uuid128 list \<Rightarrow> IdentityNode list \<Rightarrow> IdentityNode list" where
  "erase_ids ids nodes = filter (\<lambda>node. \<not> ContainsId ids (in_id node)) nodes"

definition Mutation_Coalesce ::
  "Uuid128 list \<Rightarrow> IdentityReceipt \<Rightarrow> 'c MutationIdentity \<Rightarrow>
     bool \<times> IdentityReceipt \<times> 'c MutationIdentity" where
  "Mutation_Coalesce orderedNodes receipt m =
     (let m = m\<lparr>mi_lastResult := MR_InvalidInput\<rparr>
      in case orderedNodes of
           survivorId # second # others \<Rightarrow>
             (case coalesce_check m None orderedNodes of
                None \<Rightarrow> (False, receipt, m)
              | Some survivorKind \<Rightarrow>
                  (case absorb_loop survivorKind survivorId (second # others)
                          (push_remap (Remap survivorId (Some survivorId) RD_Retained RR_Coalesce) receipt, m) of
                     (done, receipt, m) \<Rightarrow>
                       if \<not> done then (False, receipt, m)
                       else finish receipt (m\<lparr>mi_nodes := erase_ids (mi_tombstoned m) (mi_nodes m)\<rparr>)))
         | _ \<Rightarrow> (False, receipt, m))"

subsection \<open>Operations on subtrees\<close>

text \<open>\<open>moved\<close> points at the first node with the identity.\<close>

fun set_parent :: "Uuid128 \<Rightarrow> Uuid128 \<Rightarrow> IdentityNode list \<Rightarrow> IdentityNode list" where
  "set_parent u newParent [] = []"
| "set_parent u newParent (node # nodes) =
     (if EqualUuid (in_id node) u then node\<lparr>in_parent := newParent\<rparr> # nodes
      else node # set_parent u newParent nodes)"

definition subtree :: "IdentityNode list \<Rightarrow> Uuid128 \<Rightarrow> IdentityNode list" where
  "subtree nodes root = filter (\<lambda>node. IsDescendant nodes (in_id node) root) nodes"

definition Mutation_MoveSubtree ::
  "Uuid128 \<Rightarrow> Uuid128 \<Rightarrow> IdentityReceipt \<Rightarrow> 'c MutationIdentity \<Rightarrow>
     bool \<times> IdentityReceipt \<times> 'c MutationIdentity" where
  "Mutation_MoveSubtree root newParent receipt m =
     (let m = m\<lparr>mi_lastResult := MR_InvalidInput\<rparr>
      in if find_node (mi_nodes m) root = None \<or> find_node (mi_nodes m) newParent = None \<or>
            IsDescendant (mi_nodes m) newParent root
         then (False, receipt, m)
         else
           let nodes = set_parent root newParent (mi_nodes m)
           in finish
                (fold (\<lambda>node. push_remap (Remap (in_id node) (Some (in_id node)) RD_Retained RR_Move))
                   (subtree nodes root) receipt)
                (m\<lparr>mi_nodes := nodes\<rparr>))"

fun delete_loop ::
  "Uuid128 list \<Rightarrow> IdentityReceipt \<times> 'c MutationIdentity \<Rightarrow> bool \<times> IdentityReceipt \<times> 'c MutationIdentity" where
  "delete_loop [] rm = (True, rm)"
| "delete_loop (u # ids) rm =
     (case Mutation_Tombstone u TR_Delete rm of
        None \<Rightarrow> (False, rm)
      | Some (receipt, m) \<Rightarrow>
          delete_loop ids (push_remap (Remap u None RD_Tombstoned RR_Delete) receipt, m))"

definition Mutation_DeleteSubtree ::
  "Uuid128 \<Rightarrow> IdentityReceipt \<Rightarrow> 'c MutationIdentity \<Rightarrow> bool \<times> IdentityReceipt \<times> 'c MutationIdentity" where
  "Mutation_DeleteSubtree root receipt m =
     (let m = m\<lparr>mi_lastResult := MR_InvalidInput\<rparr>
      in if find_node (mi_nodes m) root = None then (False, receipt, m)
         else
           let removed = map in_id (subtree (mi_nodes m) root)
           in case delete_loop removed (receipt, m) of
                (done, receipt, m) \<Rightarrow>
                  if \<not> done then (False, receipt, m)
                  else finish receipt (m\<lparr>mi_nodes := erase_ids removed (mi_nodes m)\<rparr>))"

text \<open>
  The clones are appended one by one; the parent of a clone is looked up in the mappings made
  so far, which end with the clone's own.
\<close>

fun clone_loop ::
  "Uuid128 \<Rightarrow> Uuid128 \<Rightarrow> (Uuid128 \<times> Uuid128) list \<Rightarrow> (IdentityNode \<times> Uuid128) list \<Rightarrow>
     IdentityNode list \<times> IdentityReceipt \<Rightarrow> IdentityNode list \<times> IdentityReceipt" where
  "clone_loop root newParent mappings [] nr = nr"
| "clone_loop root newParent mappings ((original, u) # rest) (nodes, receipt) =
     (let mappings = mappings @ [(in_id original, u)];
          parent0 = (if EqualUuid (in_id original) root then newParent else in_parent original);
          parent = fold (\<lambda>(old, new) parent. if EqualUuid old (in_parent original) then new else parent)
                     mappings parent0
      in clone_loop root newParent mappings rest
           (nodes @ [\<lparr>in_id = u, in_parent = parent, in_kind = in_kind original, in_cell = in_cell original\<rparr>],
            push_remap (Remap (in_id original) (Some u) RD_New RR_Clone) receipt))"

definition Mutation_CloneSubtree ::
  "Uuid128 \<Rightarrow> Uuid128 \<Rightarrow> IdentityReceipt \<Rightarrow> 'c MutationIdentity \<Rightarrow>
     bool \<times> IdentityReceipt \<times> 'c MutationIdentity" where
  "Mutation_CloneSubtree root newParent receipt m =
     (let m = m\<lparr>mi_lastResult := MR_InvalidInput\<rparr>
      in if find_node (mi_nodes m) root = None \<or> find_node (mi_nodes m) newParent = None
         then (False, receipt, m)
         else
           let originals = subtree (mi_nodes m) root
           in case mint_many (length originals) (ReceiptReservedIds receipt) [] m of
                (Inl r, m) \<Rightarrow> (False, receipt, m\<lparr>mi_lastResult := r\<rparr>)
              | (Inr minted, m) \<Rightarrow>
                  (case clone_loop root newParent [] (zip originals minted) (mi_nodes m, receipt) of
                     (nodes, receipt) \<Rightarrow> finish receipt (m\<lparr>mi_nodes := nodes\<rparr>)))"

subsection \<open>The invariant\<close>

text \<open>
  Between calls: the identities of the nodes are distinct version-4 UUIDs recorded in the list
  of all identities ever seen, and none of them is reserved or tombstoned.
\<close>

definition mutation_ok :: "'c MutationIdentity \<Rightarrow> bool" where
  "mutation_ok m \<longleftrightarrow>
     distinct (map in_id (mi_nodes m)) \<and>
     (\<forall>u \<in> set (map in_id (mi_nodes m)). IsRfc4122V4 u) \<and>
     set (map in_id (mi_nodes m)) \<subseteq> set (mi_allTime m) - set (mi_reserved m) - set (mi_tombstoned m) \<and>
     set (mi_tombstoned m) \<subseteq> set (mi_allTime m)"

definition mutation_live :: "'c MutationIdentity \<Rightarrow> Uuid128 set" where
  "mutation_live m = in_id ` set (mi_nodes m)"

lemma set_add_id [simp]: "set (add_id u ids) = insert u (set ids)"
  by (auto simp: add_id_def)

lemma find_node_None: "find_node nodes u = None \<longleftrightarrow> u \<notin> in_id ` set nodes"
  by (auto simp: find_node_def EqualUuid_def find_None_iff_all)

lemma find_node_Some: "find_node nodes u = Some node \<Longrightarrow> node \<in> set nodes \<and> in_id node = u"
  using find_Some_in by (fastforce simp: find_node_def EqualUuid_def)

lemma find_node_iff:
  assumes "distinct (map in_id nodes)"
  shows "find_node nodes u = Some node \<longleftrightarrow> node \<in> set nodes \<and> in_id node = u"
proof
  assume "node \<in> set nodes \<and> in_id node = u"
  moreover from this obtain node' where "find_node nodes u = Some node'"
    using find_node_None by (cases "find_node nodes u") auto
  moreover from this have "node' \<in> set nodes" "in_id node' = u"
    using find_node_Some by blast+
  ultimately show "find_node nodes u = Some node"
    using assms by (auto simp: distinct_map inj_on_def)
qed (rule find_node_Some)

lemma MintUnused_Inr:
  assumes "MintUnused reserved m = (Inr u, m')"
  shows "proper_id u" "u \<notin> set (mi_allTime m)" "u \<notin> set reserved" "u \<notin> in_id ` set (mi_nodes m)"
    "u \<notin> set (mi_tombstoned m)" "u \<notin> set (mi_reserved m)" "u \<notin> set (mi_clientIds m)"
    "\<exists>ctx. m' = m\<lparr>mi_context := ctx, mi_allTime := mi_allTime m @ [u]\<rparr>"
proof -
  let ?forbidden = "mi_allTime m @ mi_reserved m @ mi_tombstoned m @ mi_clientIds m @
            mi_receiptIds m @ reserved @ map in_id (mi_nodes m)"
  obtain ctx where mint: "MintDistinctUuid (mi_source m) (mi_context m) ?forbidden zero_uuid = (Minted, u, ctx)"
    and m': "m' = m\<lparr>mi_context := ctx, mi_allTime := add_id u (mi_allTime m)\<rparr>"
    using assms by (auto simp: MintUnused_def Let_def split: prod.splits MintResult.splits)
  from MintDistinctUuid_proper [OF mint]
  show "proper_id u" "u \<notin> set (mi_allTime m)" "u \<notin> set reserved" "u \<notin> in_id ` set (mi_nodes m)"
    "u \<notin> set (mi_tombstoned m)" "u \<notin> set (mi_reserved m)" "u \<notin> set (mi_clientIds m)"
    by simp_all
  with m' show "\<exists>ctx. m' = m\<lparr>mi_context := ctx, mi_allTime := mi_allTime m @ [u]\<rparr>"
    by (auto simp: add_id_def)
qed

lemma MintUnused_Inl: "MintUnused reserved m = (Inl r, m') \<Longrightarrow> \<exists>ctx. m' = m\<lparr>mi_context := ctx\<rparr>"
  by (auto simp: MintUnused_def Let_def split: prod.splits MintResult.splits)

text \<open>A state that differs from another only in what minting touches.\<close>

definition minted_from :: "'c MutationIdentity \<Rightarrow> Uuid128 list \<Rightarrow> 'c MutationIdentity \<Rightarrow> bool" where
  "minted_from m us m' \<longleftrightarrow> (\<exists>ctx. m' = m\<lparr>mi_context := ctx, mi_allTime := mi_allTime m @ us\<rparr>)"

lemma minted_from_refl: "minted_from m [] m"
  unfolding minted_from_def by (intro exI [of _ "mi_context m"]) simp

lemma minted_from_trans: "minted_from m us m' \<Longrightarrow> minted_from m' vs m'' \<Longrightarrow> minted_from m (us @ vs) m''"
  by (auto simp: minted_from_def)

lemma mint_many_Inr:
  assumes "mint_many n reserved minted m = (Inr result, m')"
  shows "\<exists>us. result = minted @ us \<and> length us = n \<and> distinct us \<and> minted_from m us m' \<and>
    (\<forall>u \<in> set us. proper_id u \<and> u \<notin> set (mi_allTime m) \<and> u \<notin> set reserved \<and>
       u \<notin> in_id ` set (mi_nodes m) \<and> u \<notin> set (mi_tombstoned m) \<and> u \<notin> set (mi_reserved m))"
  using assms
proof (induction n arbitrary: reserved minted m)
  case 0
  then show ?case
    using minted_from_refl by auto
next
  case (Suc n)
  then obtain u m1 where mint: "MintUnused reserved m = (Inr u, m1)"
    and rec: "mint_many n (reserved @ [u]) (minted @ [u]) m1 = (Inr result, m')"
    by (auto split: prod.splits sum.splits)
  from MintUnused_Inr [OF mint] have step: "minted_from m [u] m1"
    by (auto simp: minted_from_def)
  then have same: "mi_nodes m1 = mi_nodes m" "mi_tombstoned m1 = mi_tombstoned m"
    "mi_reserved m1 = mi_reserved m" "set (mi_allTime m1) = insert u (set (mi_allTime m))"
    by (auto simp: minted_from_def)
  from Suc.IH [OF rec] obtain us where us: "result = (minted @ [u]) @ us" "length us = n" "distinct us"
    "minted_from m1 us m'"
    "\<forall>u' \<in> set us. proper_id u' \<and> u' \<notin> set (mi_allTime m1) \<and> u' \<notin> set (reserved @ [u]) \<and>
       u' \<notin> in_id ` set (mi_nodes m1) \<and> u' \<notin> set (mi_tombstoned m1) \<and> u' \<notin> set (mi_reserved m1)"
    by blast
  have "minted_from m (u # us) m'"
    using minted_from_trans [OF step us(4)] by simp
  with us same MintUnused_Inr(1-6) [OF mint] show ?case
    by (intro exI [of _ "u # us"]) auto
qed

lemma mint_many_Inl:
  assumes "mint_many n reserved minted m = (Inl r, m')"
  shows "\<exists>us. minted_from m us m'"
  using assms
proof (induction n arbitrary: reserved minted m)
  case (Suc n)
  show ?case
  proof (cases "MintUnused reserved m")
    case (Pair res m1)
    show ?thesis
    proof (cases res)
      case (Inl r')
      then obtain ctx where "m1 = m\<lparr>mi_context := ctx\<rparr>"
        using Pair MintUnused_Inl by blast
      moreover have "m' = m1"
        using Pair Inl Suc.prems by simp
      ultimately show ?thesis
        by (auto simp: minted_from_def intro!: exI [of _ "[]"])
    next
      case (Inr u)
      with Pair MintUnused_Inr(8) [of reserved m u m1] have "minted_from m [u] m1"
        by (auto simp: minted_from_def)
      moreover have "mint_many n (reserved @ [u]) (minted @ [u]) m1 = (Inl r, m')"
        using Suc.prems Pair Inr by simp
      ultimately show ?thesis
        using Suc.IH minted_from_trans by blast
    qed
  qed
qed simp

text \<open>What every call guarantees about identities, whatever its verdict.\<close>

definition well_step :: "'c MutationIdentity \<Rightarrow> 'c MutationIdentity \<Rightarrow> bool" where
  "well_step m m' \<longleftrightarrow> mutation_ok m' \<and> set (mi_allTime m) \<subseteq> set (mi_allTime m') \<and>
     mutation_live m' \<inter> set (mi_allTime m) \<subseteq> mutation_live m"

lemma RememberReceiptIds_eq:
  "\<exists>receiptIds allTime. RememberReceiptIds receipt m =
     m\<lparr>mi_receiptIds := receiptIds, mi_allTime := allTime\<rparr> \<and>
     set allTime = set (mi_allTime m) \<union> set (ReceiptReservedIds receipt)"
proof -
  have "\<exists>receiptIds allTime.
      fold (\<lambda>u m. m\<lparr>mi_receiptIds := add_id u (mi_receiptIds m), mi_allTime := add_id u (mi_allTime m)\<rparr>) us m =
        m\<lparr>mi_receiptIds := receiptIds, mi_allTime := allTime\<rparr> \<and>
      set allTime = set (mi_allTime m) \<union> set us" for us
  proof (induction us arbitrary: m)
    case Nil
    show ?case
      by (intro exI [of _ "mi_receiptIds m"] exI [of _ "mi_allTime m"]) simp
  next
    case (Cons u us)
    let ?m = "m\<lparr>mi_receiptIds := add_id u (mi_receiptIds m), mi_allTime := add_id u (mi_allTime m)\<rparr>"
    obtain r a where "fold (\<lambda>u m. m\<lparr>mi_receiptIds := add_id u (mi_receiptIds m), mi_allTime := add_id u (mi_allTime m)\<rparr>) us ?m =
        ?m\<lparr>mi_receiptIds := r, mi_allTime := a\<rparr>" "set a = set (mi_allTime ?m) \<union> set us"
      using Cons.IH by blast
    then show ?case
      by (intro exI [of _ r] exI [of _ a]) simp
  qed
  then show ?thesis
    unfolding RememberReceiptIds_def .
qed

lemma finish_state:
  obtains receiptIds allTime where
    "finish receipt m = (True, receipt, m\<lparr>mi_receiptIds := receiptIds, mi_allTime := allTime,
       mi_lastResult := MR_Applied\<rparr>)"
    "set (mi_allTime m) \<subseteq> set allTime"
proof -
  obtain r a where "RememberReceiptIds receipt m = m\<lparr>mi_receiptIds := r, mi_allTime := a\<rparr>"
    "set a = set (mi_allTime m) \<union> set (ReceiptReservedIds receipt)"
    using RememberReceiptIds_eq by blast
  then show thesis
    by (intro that [of a r]) (simp_all add: finish_def)
qed

lemma finish_well_step:
  assumes "well_step m0 m"
  shows "well_step m0 (snd (snd (finish receipt m)))"
  by (rule finish_state [of receipt m]) (use assms in \<open>auto simp: well_step_def mutation_ok_def mutation_live_def\<close>)

lemma mutation_ok_same:
  assumes "mutation_ok m" "map in_id (mi_nodes m') = map in_id (mi_nodes m)"
    "mi_reserved m' = mi_reserved m" "mi_tombstoned m' = mi_tombstoned m" "set (mi_allTime m) \<subseteq> set (mi_allTime m')"
  shows "well_step m m'"
proof -
  have "in_id ` set (mi_nodes m') = in_id ` set (mi_nodes m)"
    using assms(2) by (metis list.set_map)
  with assms show ?thesis
    by (auto simp: well_step_def mutation_ok_def mutation_live_def)
qed

lemma well_step_append:
  assumes ok: "mutation_ok m" and "minted_from m us m1" and "distinct us"
    and us: "\<forall>u \<in> set us. proper_id u \<and> u \<notin> set (mi_allTime m) \<and> u \<notin> in_id ` set (mi_nodes m) \<and>
      u \<notin> set (mi_tombstoned m) \<and> u \<notin> set (mi_reserved m)"
    and new: "map in_id new = us" and m2: "mi_nodes m2 = mi_nodes m1 @ new"
      "mi_reserved m2 = mi_reserved m1" "mi_tombstoned m2 = mi_tombstoned m1" "mi_allTime m2 = mi_allTime m1"
  shows "well_step m m2"
proof -
  obtain ctx where m1: "m1 = m\<lparr>mi_context := ctx, mi_allTime := mi_allTime m @ us\<rparr>"
    using assms(2) by (auto simp: minted_from_def)
  have ids: "map in_id (mi_nodes m2) = map in_id (mi_nodes m) @ us"
    using m2 new m1 by simp
  then have live: "mutation_live m2 = mutation_live m \<union> set us"
    by (metis mutation_live_def list.set_map set_append)
  have "mutation_ok m2"
    unfolding mutation_ok_def ids using ok us \<open>distinct us\<close>
    by (auto simp: m2 m1 mutation_ok_def proper_id_def)
  moreover have "mutation_live m2 \<inter> set (mi_allTime m) \<subseteq> mutation_live m"
    unfolding live using us by blast
  ultimately show ?thesis
    by (simp add: well_step_def m2 m1)
qed

lemma seed_ids_ok_iff:
  "seed_ids_ok m ids nodes \<longleftrightarrow> distinct (map in_id nodes) \<and> set ids \<inter> in_id ` set nodes = {} \<and>
    (\<forall>u \<in> in_id ` set nodes. IsRfc4122V4 u \<and> u \<notin> set (mi_reserved m) \<and>
       (u \<in> set (mi_allTime m) \<longrightarrow> u \<in> mutation_live m))"
proof (induction nodes arbitrary: ids)
  case (Cons node nodes)
  show ?case
    unfolding seed_ids_ok.simps Let_def Cons.IH find_node_None mutation_live_def ContainsId_iff
    by auto
qed simp

lemma seed_parents_Some:
  assumes "seed_parents allTime nodes = Some allTime'"
  shows "set allTime \<union> in_id ` set nodes \<subseteq> set allTime'"
  using assms
proof (induction nodes arbitrary: allTime)
  case (Cons node nodes)
  let ?a = "add_id (in_id node) allTime"
  let ?b = "if \<not> IsZeroUuid (in_parent node) then add_id (in_parent node) ?a else ?a"
  have "seed_parents ?b nodes = Some allTime'"
    using Cons.prems by (simp add: Let_def split: if_splits)
  from Cons.IH [OF this] show ?case
    by auto
qed simp

lemma Seed_well_step:
  assumes ok: "mutation_ok m"
  shows "well_step m (snd (Mutation_Seed nodes m))"
proof -
  have keep: "well_step m (m\<lparr>mi_lastResult := MR_InvalidInput\<rparr>)"
    using ok by (intro mutation_ok_same) simp_all
  show ?thesis
  proof (cases "seed_ids_ok (m\<lparr>mi_lastResult := MR_InvalidInput\<rparr>) [] nodes")
    case True
    show ?thesis
    proof (cases "seed_parents (mi_allTime m) nodes")
      case None
      with True keep show ?thesis by (simp add: Mutation_Seed_def Let_def)
    next
      case (Some allTime)
      note S = seed_parents_Some [OF Some]
      have ids: "distinct (map in_id nodes)" "\<forall>u \<in> in_id ` set nodes. IsRfc4122V4 u \<and>
          u \<notin> set (mi_reserved m) \<and> (u \<in> set (mi_allTime m) \<longrightarrow> u \<in> mutation_live m)"
        using True unfolding seed_ids_ok_iff by (simp_all add: mutation_live_def)
      have result: "snd (Mutation_Seed nodes m) = m\<lparr>mi_nodes := nodes, mi_tombstoned := [],
          mi_clientIds := [], mi_receiptIds := [], mi_allTime := allTime, mi_lastResult := MR_Applied\<rparr>"
        using True Some by (simp add: Mutation_Seed_def Let_def)
      show ?thesis
        unfolding result using S ids by (auto simp: well_step_def mutation_ok_def mutation_live_def)
    qed
  next
    case False
    with keep show ?thesis by (simp add: Mutation_Seed_def Let_def)
  qed
qed

lemma reserve_loop_Some:
  assumes "reserve_loop nodes reserved allTime ids = Some (reserved', allTime')"
  shows "set allTime \<subseteq> set allTime' \<and> set reserved' \<subseteq> set reserved \<union> set ids \<and>
    set ids \<inter> in_id ` set nodes = {}"
  using assms
proof (induction ids arbitrary: reserved allTime)
  case (Cons u ids)
  have u: "u \<notin> in_id ` set nodes"
    using Cons.prems find_node_None by (auto split: if_splits)
  show ?case
  proof (cases "ContainsId reserved u")
    case True
    then have "reserve_loop nodes reserved allTime ids = Some (reserved', allTime')"
      using Cons.prems by (simp split: if_splits)
    from Cons.IH [OF this] u show ?thesis by auto
  next
    case False
    then have "reserve_loop nodes (reserved @ [u]) (allTime @ [u]) ids = Some (reserved', allTime')"
      using Cons.prems by (simp split: if_splits)
    from Cons.IH [OF this] u show ?thesis by auto
  qed
qed simp

lemma Reserve_well_step:
  assumes ok: "mutation_ok m"
  shows "well_step m (snd (Mutation_ReserveIdentityIds ids m))"
proof (cases "reserve_loop (mi_nodes m) (mi_reserved m) (mi_allTime m) ids")
  case None
  with ok show ?thesis
    by (simp add: Mutation_ReserveIdentityIds_def well_step_def)
next
  case (Some ra)
  obtain r a where "ra = (r, a)" by fastforce
  with Some have loop: "reserve_loop (mi_nodes m) (mi_reserved m) (mi_allTime m) ids = Some (r, a)"
    by simp
  have result: "snd (Mutation_ReserveIdentityIds ids m) = m\<lparr>mi_reserved := r, mi_allTime := a\<rparr>"
    using loop by (simp add: Mutation_ReserveIdentityIds_def)
  note L = reserve_loop_Some [OF loop]
  from ok have "set (map in_id (mi_nodes m)) \<inter> set (mi_reserved m) = {}"
    unfolding mutation_ok_def by blast
  then have "set (map in_id (mi_nodes m)) \<inter> set r = {}"
    using L unfolding set_map by blast
  then have "mutation_ok (m\<lparr>mi_reserved := r, mi_allTime := a\<rparr>)"
    using ok L unfolding mutation_ok_def by simp blast
  then show ?thesis
    unfolding result well_step_def mutation_live_def using L by simp
qed

lemma well_step_from:
  assumes "mi_nodes m0 = mi_nodes m" "mi_allTime m0 = mi_allTime m"
  shows "well_step m0 m' = well_step m m'"
  using assms by (simp add: well_step_def mutation_live_def)

lemma well_step_trans: "well_step m m1 \<Longrightarrow> well_step m1 m2 \<Longrightarrow> well_step m m2"
  unfolding well_step_def by blast

lemma minted_from_well_step:
  assumes "mutation_ok m" "minted_from m us m'"
  shows "well_step m (m'\<lparr>mi_lastResult := r\<rparr>)"
  using assms by (intro mutation_ok_same) (auto simp: minted_from_def)

lemma invalid_well_step: "mutation_ok m \<Longrightarrow> well_step m (m\<lparr>mi_lastResult := r\<rparr>)"
  by (intro mutation_ok_same) simp_all

lemma Insert_well_step:
  assumes ok: "mutation_ok m"
  shows "well_step m (snd (snd (Mutation_Insert client parent kind receipt m)))"
proof -
  define m0 where "m0 = m\<lparr>mi_lastResult := MR_InvalidInput\<rparr>"
  have from0: "well_step m0 m' = well_step m m'" for m'
    by (rule well_step_from) (simp_all add: m0_def)
  have ok0: "mutation_ok m0" and step0: "well_step m m0"
    using ok invalid_well_step unfolding m0_def well_step_def by blast+
  let ?reserved = "ReceiptReservedIds receipt @ [client]"
  let ?guard = "\<not> IsRfc4122V4 client \<or> find_node (mi_nodes m0) parent = None \<or> ContainsId (mi_clientIds m0) client"
  have unfolded: "Mutation_Insert client parent kind receipt m =
      (if ?guard then (False, receipt, m0)
       else case MintUnused ?reserved m0 of
                (Inl r, m) \<Rightarrow> (False, receipt, m\<lparr>mi_lastResult := r\<rparr>)
              | (Inr u, m) \<Rightarrow>
                  finish (push_remap (Remap client (Some u) RD_New RR_ClientInsert) receipt)
                    (m\<lparr>mi_clientIds := mi_clientIds m @ [client],
                       mi_nodes := mi_nodes m @ [\<lparr>in_id = u, in_parent = parent, in_kind = kind,
                                                  in_cell = default_cell\<rparr>]\<rparr>))"
    unfolding Mutation_Insert_def m0_def Let_def ..
  show ?thesis
  proof (cases ?guard)
    case True
    with step0 show ?thesis unfolding unfolded by simp
  next
    case guard: False
    obtain res m1 where mint: "MintUnused ?reserved m0 = (res, m1)"
      by fastforce
    show ?thesis
    proof (cases res)
      case (Inl r)
      obtain ctx where m1: "m1 = m0\<lparr>mi_context := ctx\<rparr>"
        using MintUnused_Inl mint Inl by blast
      have "well_step m0 (m1\<lparr>mi_lastResult := r\<rparr>)"
        using ok0 by (intro mutation_ok_same) (simp_all add: m1)
      with guard mint Inl from0 step0 show ?thesis unfolding unfolded by simp
    next
      case (Inr u)
      note U = MintUnused_Inr [OF mint [unfolded Inr]]
      have "minted_from m0 [u] m1"
        using U(8) by (auto simp: minted_from_def)
      then have "well_step m0 (m1\<lparr>mi_clientIds := mi_clientIds m1 @ [client],
                       mi_nodes := mi_nodes m1 @ [\<lparr>in_id = u, in_parent = parent, in_kind = kind,
                                                  in_cell = default_cell\<rparr>]\<rparr>)"
        by (rule well_step_append [OF ok0, where new = "[\<lparr>in_id = u, in_parent = parent, in_kind = kind,
              in_cell = default_cell\<rparr>]"]) (use U in simp_all)
      from finish_well_step [OF this] guard mint Inr from0 step0 show ?thesis
        unfolding unfolded by simp
    qed
  qed
qed

lemma minting_op_well_step:
  assumes ok: "mutation_ok m" and mint: "mint_many n reserved [] m = (res, m1)"
    and new: "\<And>us. res = Inr us \<Longrightarrow> map in_id (new us) = us"
  shows "well_step m (snd (snd (case res of
     Inl r \<Rightarrow> (False, receipt, m1\<lparr>mi_lastResult := r\<rparr>)
   | Inr us \<Rightarrow> finish (receipt' us) (m1\<lparr>mi_nodes := mi_nodes m1 @ new us\<rparr>))))"
proof (cases res)
  case (Inl r)
  then obtain us where "minted_from m us m1"
    using mint mint_many_Inl by blast
  then show ?thesis
    using minted_from_well_step [OF ok] Inl by simp
next
  case (Inr us)
  have "us = [] @ us" by simp
  from mint_many_Inr [OF mint [unfolded Inr]]
  have "distinct us" "minted_from m us m1"
    "\<forall>u \<in> set us. proper_id u \<and> u \<notin> set (mi_allTime m) \<and> u \<notin> set reserved \<and>
       u \<notin> in_id ` set (mi_nodes m) \<and> u \<notin> set (mi_tombstoned m) \<and> u \<notin> set (mi_reserved m)"
    by auto
  then have "well_step m (m1\<lparr>mi_nodes := mi_nodes m1 @ new us\<rparr>)"
    by (intro well_step_append [OF ok, where new = "new us" and us = us and ?m1.0 = m1]) (use new [OF Inr] in simp_all)
  from finish_well_step [OF this] Inr show ?thesis by simp
qed

lemma Split_well_step:
  assumes ok: "mutation_ok m"
  shows "well_step m (snd (snd (Mutation_Split original pieceCount receipt m)))"
proof -
  define m0 where "m0 = m\<lparr>mi_lastResult := MR_InvalidInput\<rparr>"
  have from0: "well_step m0 m' = well_step m m'" for m'
    by (rule well_step_from) (simp_all add: m0_def)
  have ok0: "mutation_ok m0" and step0: "well_step m m0"
    using ok invalid_well_step unfolding m0_def well_step_def by blast+
  show ?thesis
  proof (cases "find_node (mi_nodes m0) original")
    case None
    with step0 show ?thesis
      unfolding Mutation_Split_def Let_def m0_def [symmetric] by simp
  next
    case (Some snapshot)
    let ?guard = "pieceCount < 2 \<or> (in_kind snapshot \<noteq> NK_Paragraph \<and> in_kind snapshot \<noteq> NK_CharacterRun)"
    obtain res m1 where mint: "mint_many (unat (pieceCount - 1)) (ReceiptReservedIds receipt) [] m0 = (res, m1)"
      by fastforce
    define new where "new = map (\<lambda>u. \<lparr>in_id = u, in_parent = in_parent snapshot,
                                        in_kind = in_kind snapshot, in_cell = default_cell\<rparr>)"
    define receipt' where "receipt' us = fold (\<lambda>u. push_remap (Remap u (Some u) RD_New RR_Split)) us
                          (push_remap (Remap original (Some original) RD_Retained RR_Split) receipt)" for us
    have "Mutation_Split original pieceCount receipt m =
        (if ?guard then (False, receipt, m0) else
           case res of Inl r \<Rightarrow> (False, receipt, m1\<lparr>mi_lastResult := r\<rparr>)
           | Inr us \<Rightarrow> finish (receipt' us) (m1\<lparr>mi_nodes := mi_nodes m1 @ new us\<rparr>))"
      unfolding Mutation_Split_def Let_def m0_def [symmetric] using Some mint
      by (simp add: new_def receipt'_def split: sum.splits)
    moreover have "well_step m0 (snd (snd (case res of Inl r \<Rightarrow> (False, receipt, m1\<lparr>mi_lastResult := r\<rparr>)
           | Inr us \<Rightarrow> finish (receipt' us) (m1\<lparr>mi_nodes := mi_nodes m1 @ new us\<rparr>))))"
      by (rule minting_op_well_step [OF ok0 mint]) (simp add: new_def comp_def)
    ultimately show ?thesis
      using step0 from0 by simp
  qed
qed

lemma clone_loop_eq:
  assumes "length originals = length us"
  shows "\<exists>new receipt'. clone_loop root newParent mappings (zip originals us) (nodes, receipt) =
     (nodes @ new, receipt') \<and> map in_id new = us"
  using assms
proof (induction originals us arbitrary: mappings nodes receipt rule: list_induct2)
  case (Cons original originals u us)
  let ?mappings = "mappings @ [(in_id original, u)]"
  define node where "node = \<lparr>in_id = u, in_parent =
       fold (\<lambda>(old, new) parent. if EqualUuid old (in_parent original) then new else parent) ?mappings
         (if EqualUuid (in_id original) root then newParent else in_parent original),
       in_kind = in_kind original, in_cell = in_cell original\<rparr>"
  obtain new receipt' where "clone_loop root newParent ?mappings (zip originals us)
      (nodes @ [node], push_remap (Remap (in_id original) (Some u) RD_New RR_Clone) receipt) =
      ((nodes @ [node]) @ new, receipt')" "map in_id new = us"
    using Cons.IH by blast
  moreover have "in_id node = u"
    by (simp add: node_def)
  moreover have "clone_loop root newParent mappings (zip (original # originals) (u # us)) (nodes, receipt) =
      clone_loop root newParent ?mappings (zip originals us)
        (nodes @ [node], push_remap (Remap (in_id original) (Some u) RD_New RR_Clone) receipt)"
    unfolding zip_Cons_Cons clone_loop.simps Let_def node_def ..
  ultimately show ?case
    by (intro exI [of _ "node # new"] exI [of _ receipt']) simp
qed simp

lemma Clone_well_step:
  assumes ok: "mutation_ok m"
  shows "well_step m (snd (snd (Mutation_CloneSubtree root newParent receipt m)))"
proof -
  define m0 where "m0 = m\<lparr>mi_lastResult := MR_InvalidInput\<rparr>"
  have from0: "well_step m0 m' = well_step m m'" for m'
    by (rule well_step_from) (simp_all add: m0_def)
  have ok0: "mutation_ok m0" and step0: "well_step m m0"
    using ok invalid_well_step unfolding m0_def well_step_def by blast+
  let ?guard = "find_node (mi_nodes m0) root = None \<or> find_node (mi_nodes m0) newParent = None"
  let ?originals = "subtree (mi_nodes m0) root"
  obtain res m1 where mint: "mint_many (length ?originals) (ReceiptReservedIds receipt) [] m0 = (res, m1)"
    by fastforce
  define cloned where "cloned us = clone_loop root newParent [] (zip ?originals us) (mi_nodes m1, receipt)" for us
  define new where "new us = drop (length (mi_nodes m1)) (fst (cloned us))" for us
  have "res = Inr us \<Longrightarrow> length ?originals = length us" for us
    using mint by (auto dest!: mint_many_Inr)
  then have cloned: "res = Inr us \<Longrightarrow> map in_id (new us) = us \<and> fst (cloned us) = mi_nodes m1 @ new us" for us
    using clone_loop_eq [of ?originals us root newParent "[]" "mi_nodes m1" receipt]
    unfolding new_def cloned_def by fastforce
  have "Mutation_CloneSubtree root newParent receipt m =
        (if ?guard then (False, receipt, m0) else
           case res of Inl r \<Rightarrow> (False, receipt, m1\<lparr>mi_lastResult := r\<rparr>)
           | Inr us \<Rightarrow> finish (snd (cloned us)) (m1\<lparr>mi_nodes := fst (cloned us)\<rparr>))"
      unfolding Mutation_CloneSubtree_def Let_def m0_def [symmetric] using mint
      by (simp add: cloned_def split: sum.splits prod.splits)
  also have "\<dots> = (if ?guard then (False, receipt, m0) else
           case res of Inl r \<Rightarrow> (False, receipt, m1\<lparr>mi_lastResult := r\<rparr>)
           | Inr us \<Rightarrow> finish (snd (cloned us)) (m1\<lparr>mi_nodes := mi_nodes m1 @ new us\<rparr>))"
    using cloned by (simp split: sum.splits)
  finally have unfolded: "Mutation_CloneSubtree root newParent receipt m = \<dots>" .
  have "well_step m0 (snd (snd (case res of Inl r \<Rightarrow> (False, receipt, m1\<lparr>mi_lastResult := r\<rparr>)
           | Inr us \<Rightarrow> finish (snd (cloned us)) (m1\<lparr>mi_nodes := mi_nodes m1 @ new us\<rparr>))))"
    by (rule minting_op_well_step [OF ok0 mint]) (use cloned in blast)
  then show ?thesis
    unfolding unfolded using step0 from0 by simp
qed

lemma map_in_id_set_parent [simp]: "map in_id (set_parent u p nodes) = map in_id nodes"
  by (induction nodes) auto

lemma in_id_set_parent [simp]: "in_id ` set (set_parent u p nodes) = in_id ` set nodes"
  by (metis map_in_id_set_parent list.set_map)

lemma Move_well_step:
  assumes ok: "mutation_ok m"
  shows "well_step m (snd (snd (Mutation_MoveSubtree root newParent receipt m)))"
proof -
  have "well_step m (m\<lparr>mi_lastResult := MR_InvalidInput, mi_nodes := set_parent root newParent (mi_nodes m)\<rparr>)"
    using ok by (intro mutation_ok_same) simp_all
  from finish_well_step [OF this] invalid_well_step [OF ok] show ?thesis
    unfolding Mutation_MoveSubtree_def Let_def by simp
qed

lemma Tombstone_Some:
  assumes "u \<in> in_id ` set (mi_nodes m)" "u \<notin> set (mi_tombstoned m)"
  shows "\<exists>receipt'. Mutation_Tombstone u reason (receipt, m) =
    Some (receipt', m\<lparr>mi_tombstoned := mi_tombstoned m @ [u]\<rparr>)"
proof -
  have "find_node (mi_nodes m) u \<noteq> None"
    using assms(1) find_node_None by blast
  with assms(2) show ?thesis
    by (simp add: Mutation_Tombstone_def)
qed

lemma delete_loop_ok:
  assumes "distinct ids" "set ids \<subseteq> in_id ` set (mi_nodes m)" "set ids \<inter> set (mi_tombstoned m) = {}"
  shows "\<exists>receipt'. delete_loop ids (receipt, m) =
    (True, receipt', m\<lparr>mi_tombstoned := mi_tombstoned m @ ids\<rparr>)"
  using assms
proof (induction ids arbitrary: m receipt)
  case (Cons u ids)
  let ?m = "m\<lparr>mi_tombstoned := mi_tombstoned m @ [u]\<rparr>"
  have here: "u \<in> in_id ` set (mi_nodes m)" "u \<notin> set (mi_tombstoned m)"
    using Cons.prems(2,3) by simp_all
  obtain receipt1 where "Mutation_Tombstone u TR_Delete (receipt, m) = Some (receipt1, ?m)"
    using Tombstone_Some [OF here] by blast
  moreover have "distinct ids" "set ids \<subseteq> in_id ` set (mi_nodes ?m)" "set ids \<inter> set (mi_tombstoned ?m) = {}"
    using Cons.prems by auto
  from Cons.IH [OF this] obtain receipt2 where
    "delete_loop ids (push_remap (Remap u None RD_Tombstoned RR_Delete) receipt1, ?m) =
      (True, receipt2, ?m\<lparr>mi_tombstoned := mi_tombstoned ?m @ ids\<rparr>)"
    by blast
  ultimately show ?case by simp
qed simp

lemma mutation_ok_alive: "mutation_ok m \<Longrightarrow> in_id ` set (mi_nodes m) \<inter> set (mi_tombstoned m) = {}"
  unfolding mutation_ok_def list.set_map by blast

lemma in_id_erase_ids: "in_id ` set (erase_ids ids nodes) = in_id ` set nodes - set ids"
  by (auto simp: erase_ids_def)

lemma erase_well_step:
  assumes ok: "mutation_ok m" and nodes: "map in_id nodes = map in_id (mi_nodes m)"
    and ids: "set ids \<subseteq> in_id ` set (mi_nodes m)"
    and erased: "in_id ` set (mi_nodes m) \<inter> set erased = set ids"
    and m': "mi_nodes m' = erase_ids erased nodes" "mi_tombstoned m' = mi_tombstoned m @ ids"
      "mi_reserved m' = mi_reserved m" "mi_allTime m' = mi_allTime m"
  shows "well_step m m'"
proof -
  have set_nodes: "in_id ` set nodes = in_id ` set (mi_nodes m)"
    using nodes by (metis list.set_map)
  have live: "in_id ` set (mi_nodes m') = in_id ` set (mi_nodes m) - set ids"
    unfolding m' in_id_erase_ids set_nodes using erased by blast
  have "distinct (map in_id (mi_nodes m'))"
    using ok nodes unfolding mutation_ok_def m' erase_ids_def by (metis distinct_map_filter)
  moreover have "set ids \<subseteq> set (mi_allTime m)"
    using ok ids unfolding mutation_ok_def by auto
  ultimately have "mutation_ok m'"
    using ok unfolding mutation_ok_def set_map live m'(2-4) by auto
  then show ?thesis
    unfolding well_step_def mutation_live_def live m'(2-4) by blast
qed

lemma Delete_state:
  assumes ok: "mutation_ok m" and root: "find_node (mi_nodes m) root \<noteq> None"
  defines "removed \<equiv> map in_id (subtree (mi_nodes m) root)"
  shows "\<exists>receipt'. Mutation_DeleteSubtree root receipt m = finish receipt'
    (m\<lparr>mi_lastResult := MR_InvalidInput, mi_tombstoned := mi_tombstoned m @ removed,
       mi_nodes := erase_ids removed (mi_nodes m)\<rparr>)"
proof -
  have "distinct removed"
    using ok unfolding mutation_ok_def removed_def subtree_def by (simp add: distinct_map_filter)
  moreover have live: "set removed \<subseteq> in_id ` set (mi_nodes m)"
    by (auto simp: removed_def subtree_def)
  moreover have "set removed \<inter> set (mi_tombstoned m) = {}"
    using mutation_ok_alive [OF ok] live by blast
  ultimately obtain receipt' where "delete_loop removed (receipt, m\<lparr>mi_lastResult := MR_InvalidInput\<rparr>) =
      (True, receipt', m\<lparr>mi_lastResult := MR_InvalidInput, mi_tombstoned := mi_tombstoned m @ removed\<rparr>)"
    using delete_loop_ok [of removed "m\<lparr>mi_lastResult := MR_InvalidInput\<rparr>" receipt] by auto
  then show ?thesis
    using root by (intro exI [of _ receipt']) (auto simp: Mutation_DeleteSubtree_def Let_def removed_def)
qed

lemma Delete_well_step:
  assumes ok: "mutation_ok m"
  shows "well_step m (snd (snd (Mutation_DeleteSubtree root receipt m)))"
proof (cases "find_node (mi_nodes m) root = None")
  case True
  with invalid_well_step [OF ok] show ?thesis
    by (simp add: Mutation_DeleteSubtree_def)
next
  case False
  let ?removed = "map in_id (subtree (mi_nodes m) root)"
  let ?m = "m\<lparr>mi_lastResult := MR_InvalidInput, mi_tombstoned := mi_tombstoned m @ ?removed,
       mi_nodes := erase_ids ?removed (mi_nodes m)\<rparr>"
  obtain receipt' where result: "Mutation_DeleteSubtree root receipt m = finish receipt' ?m"
    using Delete_state [OF ok False] by blast
  have "well_step m ?m"
    by (rule erase_well_step [OF ok refl, of ?removed ?removed]) (auto simp: subtree_def)
  from finish_well_step [OF this] show ?thesis
    unfolding result .
qed

lemma node_position_Some:
  "node_position nodes u = Some p \<Longrightarrow> p < length nodes \<and> in_id (nodes ! p) = u"
proof (induction nodes arbitrary: p)
  case (Cons node nodes)
  then show ?case
    by (cases "in_id node = u") (auto simp: EqualUuid_def)
qed simp

text \<open>What the first loop of \<open>Coalesce\<close> establishes.\<close>

definition coalescable :: "'c MutationIdentity \<Rightarrow> NodeKind \<Rightarrow> Uuid128 \<Rightarrow> Uuid128 list \<Rightarrow> bool" where
  "coalescable m kind parent ids \<longleftrightarrow> distinct ids \<and> set ids \<inter> set (mi_tombstoned m) = {} \<and>
     (\<forall>u \<in> set ids. \<exists>node \<in> set (mi_nodes m). in_id node = u \<and> in_kind node = kind \<and> in_parent node = parent)"

lemma coalesce_check_later:
  assumes "coalesce_check m (Some (kind, parent, pos)) ids = Some k"
  shows "k = kind \<and> coalescable m kind parent ids \<and> (\<forall>u \<in> set ids. \<exists>p > pos. node_position (mi_nodes m) u = Some p)"
  using assms
proof (induction ids arbitrary: pos)
  case Nil
  then show ?case by (simp add: coalescable_def)
next
  case (Cons u ids)
  obtain p where p: "node_position (mi_nodes m) u = Some p" "u \<notin> set (mi_tombstoned m)"
    using Cons.prems by (auto split: if_splits option.splits)
  have here: "in_kind (mi_nodes m ! p) = kind" "in_parent (mi_nodes m ! p) = parent" "p > pos"
    and rec: "coalesce_check m (Some (kind, parent, p)) ids = Some k"
    using Cons.prems p by (auto simp: Let_def EqualUuid_def split: if_splits)
  note IH = Cons.IH [OF rec]
  have "u \<notin> set ids"
    using IH p by force
  moreover have "mi_nodes m ! p \<in> set (mi_nodes m)" "in_id (mi_nodes m ! p) = u"
    using node_position_Some [OF p(1)] by auto
  ultimately have "coalescable m kind parent (u # ids)"
    using IH p(2) here unfolding coalescable_def by auto
  moreover have "\<exists>p' > pos. node_position (mi_nodes m) w = Some p'" if "w \<in> set (u # ids)" for w
  proof (cases "w = u")
    case False
    with that obtain p' where "p' > p" "node_position (mi_nodes m) w = Some p'"
      using IH by auto
    with here show ?thesis
      by (intro exI [of _ p']) simp
  qed (use p here in blast)
  ultimately show ?case
    using IH by blast
qed

lemma coalesce_check_Some:
  assumes check: "coalesce_check m None (u # ids) = Some kind"
  shows "\<exists>parent. coalescable m kind parent (u # ids) \<and> kind \<in> {NK_Paragraph, NK_CharacterRun}"
proof -
  obtain p where p: "node_position (mi_nodes m) u = Some p" "u \<notin> set (mi_tombstoned m)"
    using check by (auto split: if_splits option.splits)
  let ?found = "mi_nodes m ! p"
  have kind: "in_kind ?found \<in> {NK_Paragraph, NK_CharacterRun}"
    and later: "coalesce_check m (Some (in_kind ?found, in_parent ?found, p)) ids = Some kind"
    using check p by (auto simp: Let_def split: if_splits)
  note L = coalesce_check_later [OF later]
  have "u \<notin> set ids"
    using L p by force
  moreover have "?found \<in> set (mi_nodes m)" "in_id ?found = u"
    using node_position_Some [OF p(1)] by auto
  ultimately have "coalescable m kind (in_parent ?found) (u # ids)"
    using L p(2) unfolding coalescable_def by auto
  with L kind show ?thesis by auto
qed

lemma map_in_id_reparent:
  "map (\<lambda>n. (in_id n, in_kind n)) (map (\<lambda>child. if b child then child\<lparr>in_parent := p\<rparr> else child) nodes) =
   map (\<lambda>n. (in_id n, in_kind n)) nodes"
  by simp

text \<open>
  The second loop never fails after the first has accepted. Its effect on the nodes: a child of
  an absorbed paragraph becomes a child of the survivor.
\<close>

definition reparented :: "NodeKind \<Rightarrow> Uuid128 \<Rightarrow> Uuid128 list \<Rightarrow> IdentityNode list \<Rightarrow> IdentityNode list" where
  "reparented kind survivor ids nodes = (if kind = NK_Paragraph
     then map (\<lambda>child. if in_parent child \<in> set ids then child\<lparr>in_parent := survivor\<rparr> else child) nodes
     else nodes)"

lemma absorb_loop_ok:
  assumes "distinct ids" "set ids \<inter> set (mi_tombstoned m) = {}" "survivor \<notin> set ids"
    "\<forall>u \<in> set ids. (u, kind) \<in> (\<lambda>n. (in_id n, in_kind n)) ` set (mi_nodes m)"
    "distinct (map in_id (mi_nodes m))"
  shows "\<exists>receipt'. absorb_loop kind survivor ids (receipt, m) =
    (True, receipt', m\<lparr>mi_nodes := reparented kind survivor ids (mi_nodes m),
                       mi_tombstoned := mi_tombstoned m @ ids\<rparr>)"
  using assms
proof (induction ids arbitrary: m receipt)
  case Nil
  show ?case
    by (simp add: reparented_def)
next
  case (Cons u ids)
  obtain absorbed where node: "absorbed \<in> set (mi_nodes m)" "in_id absorbed = u" "in_kind absorbed = kind"
    using Cons.prems(4) by auto
  then have found: "find_node (mi_nodes m) u = Some absorbed"
    using Cons.prems(5) find_node_iff by blast
  let ?m1 = "m\<lparr>mi_nodes := reparented kind survivor [u] (mi_nodes m)\<rparr>"
  let ?m2 = "?m1\<lparr>mi_tombstoned := mi_tombstoned m @ [u]\<rparr>"
  define receipt1 where "receipt1 = (if kind = NK_Paragraph
       then fold (\<lambda>child. push_remap (Remap (in_id child) (Some (in_id child)) RD_Retained RR_Coalesce))
              (filter (\<lambda>child. EqualUuid (in_parent child) u) (mi_nodes m)) receipt
       else receipt)"
  have ids1: "map (\<lambda>n. (in_id n, in_kind n)) (mi_nodes ?m1) = map (\<lambda>n. (in_id n, in_kind n)) (mi_nodes m)"
    by (simp add: reparented_def)
  then have "map fst (map (\<lambda>n. (in_id n, in_kind n)) (mi_nodes ?m1)) =
      map fst (map (\<lambda>n. (in_id n, in_kind n)) (mi_nodes m))"
    by simp
  then have ids1': "map in_id (mi_nodes ?m1) = map in_id (mi_nodes m)"
    by (simp add: comp_def)
  have here: "u \<in> in_id ` set (mi_nodes ?m1)" "u \<notin> set (mi_tombstoned ?m1)"
    using node ids1' Cons.prems(2) by (metis image_eqI list.set_map, simp)
  obtain receipt2 where t: "Mutation_Tombstone u TR_Coalesce (receipt1, ?m1) = Some (receipt2, ?m2)"
    using Tombstone_Some [OF here] by auto
  have step: "absorb_loop kind survivor (u # ids) (receipt, m) =
      absorb_loop kind survivor ids (push_remap (Remap u None RD_Tombstoned RR_Coalesce) receipt2, ?m2)"
    using found node t
    by (cases "kind = NK_Paragraph") (simp_all add: Let_def receipt1_def reparented_def EqualUuid_def)
  have "set (map (\<lambda>n. (in_id n, in_kind n)) (mi_nodes ?m2)) = set (map (\<lambda>n. (in_id n, in_kind n)) (mi_nodes m))"
    using ids1 by simp
  then obtain receipt3 where "absorb_loop kind survivor ids (push_remap (Remap u None RD_Tombstoned RR_Coalesce) receipt2, ?m2) =
      (True, receipt3, ?m2\<lparr>mi_nodes := reparented kind survivor ids (mi_nodes ?m2),
                          mi_tombstoned := mi_tombstoned ?m2 @ ids\<rparr>)"
    using Cons.IH [of ?m2 "push_remap (Remap u None RD_Tombstoned RR_Coalesce) receipt2"] Cons.prems ids1' by fastforce
  moreover have "reparented kind survivor ids (reparented kind survivor [u] nodes) =
      reparented kind survivor (u # ids) nodes" for nodes
    using Cons.prems(3) by (auto simp: reparented_def)
  ultimately show ?case
    using step by simp
qed

lemma Coalesce_state:
  assumes ok: "mutation_ok m" and check: "coalesce_check (m\<lparr>mi_lastResult := MR_InvalidInput\<rparr>) None ids = Some kind"
    and ids: "ids = survivor # absorbed" "absorbed \<noteq> []"
  shows "\<exists>receipt'. Mutation_Coalesce ids receipt m = finish receipt'
    (m\<lparr>mi_lastResult := MR_InvalidInput, mi_tombstoned := mi_tombstoned m @ absorbed,
       mi_nodes := erase_ids (mi_tombstoned m @ absorbed) (reparented kind survivor absorbed (mi_nodes m))\<rparr>)"
proof -
  let ?m = "m\<lparr>mi_lastResult := MR_InvalidInput\<rparr>"
  obtain second others where absorbed: "absorbed = second # others"
    using ids(2) by (cases absorbed) auto
  obtain parent where C: "coalescable ?m kind parent ids"
    using coalesce_check_Some check ids(1) by blast
  then have "\<forall>u \<in> set absorbed. (u, kind) \<in> (\<lambda>n. (in_id n, in_kind n)) ` set (mi_nodes ?m)"
    unfolding coalescable_def ids(1) by force
  then obtain receipt' where "absorb_loop kind survivor absorbed
      (push_remap (Remap survivor (Some survivor) RD_Retained RR_Coalesce) receipt, ?m) =
      (True, receipt', ?m\<lparr>mi_nodes := reparented kind survivor absorbed (mi_nodes ?m),
                         mi_tombstoned := mi_tombstoned ?m @ absorbed\<rparr>)"
    using absorb_loop_ok [of absorbed ?m survivor kind] C ok
    unfolding coalescable_def mutation_ok_def ids(1) by fastforce
  then show ?thesis
    using check unfolding Mutation_Coalesce_def Let_def ids(1) absorbed
    by (intro exI [of _ receipt']) simp
qed

lemma Coalesce_well_step:
  assumes ok: "mutation_ok m"
  shows "well_step m (snd (snd (Mutation_Coalesce ids receipt m)))"
proof (cases "\<exists>survivor second others kind. ids = survivor # second # others \<and>
    coalesce_check (m\<lparr>mi_lastResult := MR_InvalidInput\<rparr>) None ids = Some kind")
  case False
  then have "snd (snd (Mutation_Coalesce ids receipt m)) = m\<lparr>mi_lastResult := MR_InvalidInput\<rparr>"
    unfolding Mutation_Coalesce_def Let_def by (auto split: list.split option.split)
  with invalid_well_step [OF ok] show ?thesis by simp
next
  case True
  then obtain survivor absorbed kind where ids: "ids = survivor # absorbed" "absorbed \<noteq> []"
    and check: "coalesce_check (m\<lparr>mi_lastResult := MR_InvalidInput\<rparr>) None ids = Some kind"
    by blast
  let ?m = "m\<lparr>mi_lastResult := MR_InvalidInput, mi_tombstoned := mi_tombstoned m @ absorbed,
       mi_nodes := erase_ids (mi_tombstoned m @ absorbed) (reparented kind survivor absorbed (mi_nodes m))\<rparr>"
  obtain receipt' where result: "Mutation_Coalesce ids receipt m = finish receipt' ?m"
    using Coalesce_state [OF ok check ids] by blast
  obtain parent where "coalescable (m\<lparr>mi_lastResult := MR_InvalidInput\<rparr>) kind parent ids"
    using coalesce_check_Some check ids(1) by blast
  then have live: "set absorbed \<subseteq> in_id ` set (mi_nodes m)"
    unfolding coalescable_def ids(1) by auto
  note mutation_ok_alive [OF ok]
  then have "well_step m ?m"
    by (intro erase_well_step [OF ok _ live, of "reparented kind survivor absorbed (mi_nodes m)"
          "mi_tombstoned m @ absorbed"]) (use live in \<open>auto simp: reparented_def\<close>)
  from finish_well_step [OF this] show ?thesis
    unfolding result .
qed

end
