(* ===== verification/MutationTable.thy ===== *)
theory MutationTable
  imports MutationIdentity
begin

section \<open>Table transitions (MutationIdentity::ApplyTableCellTransitions)\<close>

text \<open>
  One call replaces the cells of a table: cells are retained, deleted, merged, split, cloned or
  inserted. The checks are functions of their own, in the order of the source; then identities
  are minted for the new cells and the transitions are applied one by one. The properties: a
  call that succeeds leaves the cells of the table tiling a rectangle, and one that fails
  leaves every node where it was.
\<close>

subsection \<open>Transitions and rectangles\<close>

datatype CellAction =
    CA_Retain | CA_Insert | CA_Delete | CA_MergeSurvivor | CA_MergeAbsorbed
  | CA_SplitTopLeft | CA_SplitNew | CA_Clone

record CellTransition =
  tr_action :: CellAction
  tr_oldCell :: Uuid128
  tr_client :: Uuid128
  tr_after :: CellCoordinateV1

definition u64_maximum :: u64 where
  "u64_maximum = 0xFFFFFFFFFFFFFFFF"

definition sameCoordinate :: "CellCoordinateV1 \<Rightarrow> CellCoordinateV1 \<Rightarrow> bool" where
  "sameCoordinate left right \<longleftrightarrow>
     cc_row1 left = cc_row1 right \<and> cc_column1 left = cc_column1 right \<and>
     cc_rowSpan left = cc_rowSpan right \<and> cc_columnSpan left = cc_columnSpan right"

definition coordinateLess :: "CellCoordinateV1 \<Rightarrow> CellCoordinateV1 \<Rightarrow> bool" where
  "coordinateLess left right \<longleftrightarrow>
     (if cc_row1 left \<noteq> cc_row1 right then cc_row1 left < cc_row1 right
      else if cc_column1 left \<noteq> cc_column1 right then cc_column1 left < cc_column1 right
      else if cc_rowSpan left \<noteq> cc_rowSpan right then cc_rowSpan left < cc_rowSpan right
      else cc_columnSpan left < cc_columnSpan right)"

definition validRectangle :: "CellCoordinateV1 \<Rightarrow> bool" where
  "validRectangle value \<longleftrightarrow> IsValid value \<and> cc_rowSpan value - 1 \<le> u64_maximum - cc_row1 value \<and>
     cc_columnSpan value - 1 \<le> u64_maximum - cc_column1 value"

definition rowLast :: "CellCoordinateV1 \<Rightarrow> u64" where
  "rowLast value = cc_row1 value + cc_rowSpan value - 1"

definition columnLast :: "CellCoordinateV1 \<Rightarrow> u64" where
  "columnLast value = cc_column1 value + cc_columnSpan value - 1"

definition cell_overlaps :: "CellCoordinateV1 \<Rightarrow> CellCoordinateV1 \<Rightarrow> bool" where
  "cell_overlaps left right \<longleftrightarrow> cc_row1 left \<le> rowLast right \<and> cc_row1 right \<le> rowLast left \<and>
     cc_column1 left \<le> columnLast right \<and> cc_column1 right \<le> columnLast left"

text \<open>The double loops over pairs of different positions.\<close>

fun no_pair :: "('a \<Rightarrow> 'a \<Rightarrow> bool) \<Rightarrow> 'a list \<Rightarrow> bool" where
  "no_pair clash [] = True"
| "no_pair clash (x # xs) = (list_all (\<lambda>y. \<not> clash x y) xs \<and> no_pair clash xs)"

definition same_transition :: "CellTransition \<Rightarrow> CellTransition \<Rightarrow> bool" where
  "same_transition left right \<longleftrightarrow> tr_action left = tr_action right \<and>
     EqualUuid (tr_oldCell left) (tr_oldCell right) \<and> EqualUuid (tr_client left) (tr_client right) \<and>
     sameCoordinate (tr_after left) (tr_after right)"

definition is_kept :: "CellAction \<Rightarrow> bool" where
  "is_kept action \<longleftrightarrow> action = CA_Retain \<or> action = CA_MergeSurvivor \<or> action = CA_SplitTopLeft"

definition is_removed :: "CellAction \<Rightarrow> bool" where
  "is_removed action \<longleftrightarrow> action = CA_Delete \<or> action = CA_MergeAbsorbed"

definition is_new :: "CellAction \<Rightarrow> bool" where
  "is_new action \<longleftrightarrow> action = CA_Insert \<or> action = CA_SplitNew \<or> action = CA_Clone"

subsection \<open>The checks\<close>

definition validOldCell :: "'c MutationIdentity \<Rightarrow> Uuid128 \<Rightarrow> Uuid128 \<Rightarrow> bool" where
  "validOldCell m table u =
     (case find_node (mi_nodes m) u of
        None \<Rightarrow> False
      | Some old \<Rightarrow> in_kind old = NK_TableCell \<and> EqualUuid (in_parent old) table \<and>
          \<not> ContainsId (mi_tombstoned m) u \<and> validRectangle (in_cell old))"

record TransitionScan =
  ts_consumed :: "Uuid128 list"
  ts_cloned :: "Uuid128 list"
  ts_inserted :: "Uuid128 list"
  ts_survivors :: nat
  ts_absorbed :: nat
  ts_topLeft :: nat

definition scan_one :: "'c MutationIdentity \<Rightarrow> Uuid128 \<Rightarrow> CellTransition \<Rightarrow> TransitionScan \<Rightarrow> TransitionScan option" where
  "scan_one m table t s =
     (if \<not> validRectangle (tr_after t) \<and> tr_action t \<noteq> CA_Delete \<and> tr_action t \<noteq> CA_MergeAbsorbed then None
      else if is_kept (tr_action t) \<or> is_removed (tr_action t) then
        (if \<not> validOldCell m table (tr_oldCell t) \<or> ContainsId (ts_consumed s) (tr_oldCell t) then None
         else Some (s\<lparr>ts_consumed := ts_consumed s @ [tr_oldCell t],
                      ts_survivors := ts_survivors s + (if tr_action t = CA_MergeSurvivor then 1 else 0),
                      ts_absorbed := ts_absorbed s + (if tr_action t = CA_MergeAbsorbed then 1 else 0),
                      ts_topLeft := ts_topLeft s + (if tr_action t = CA_SplitTopLeft then 1 else 0)\<rparr>))
      else if tr_action t = CA_Insert then
        (if \<not> IsRfc4122V4 (tr_client t) \<or> ContainsId (mi_clientIds m) (tr_client t) \<or>
            ContainsId (ts_inserted s) (tr_client t) then None
         else Some (s\<lparr>ts_inserted := ts_inserted s @ [tr_client t]\<rparr>))
      else if tr_action t = CA_SplitNew then
        (if \<not> validOldCell m table (tr_oldCell t) then None else Some s)
      else
        (if \<not> validOldCell m table (tr_oldCell t) \<or> ContainsId (ts_cloned s) (tr_oldCell t) then None
         else Some (s\<lparr>ts_cloned := ts_cloned s @ [tr_oldCell t]\<rparr>)))"

fun scan_transitions ::
  "'c MutationIdentity \<Rightarrow> Uuid128 \<Rightarrow> CellTransition list \<Rightarrow> TransitionScan \<Rightarrow> TransitionScan option" where
  "scan_transitions m table [] s = Some s"
| "scan_transitions m table (t # ts) s =
     (case scan_one m table t s of None \<Rightarrow> None | Some s \<Rightarrow> scan_transitions m table ts s)"

definition empty_scan :: TransitionScan where
  "empty_scan = \<lparr>ts_consumed = [], ts_cloned = [], ts_inserted = [], ts_survivors = 0, ts_absorbed = 0, ts_topLeft = 0\<rparr>"

text \<open>The transitions come in coordinate order; a removed cell counts with its old rectangle.\<close>

fun ordered_transitions :: "IdentityNode list \<Rightarrow> CellCoordinateV1 option \<Rightarrow> CellTransition list \<Rightarrow> bool" where
  "ordered_transitions nodes previous [] = True"
| "ordered_transitions nodes previous (t # ts) =
     (case (if is_removed (tr_action t) then map_option in_cell (find_node nodes (tr_oldCell t))
            else Some (tr_after t)) of
        None \<Rightarrow> False
      | Some coordinate \<Rightarrow>
          (case previous of None \<Rightarrow> True | Some p \<Rightarrow> coordinateLess p coordinate) \<and>
          ordered_transitions nodes (Some coordinate) ts)"

record MergeScan =
  ms_survivor :: "CellTransition option"
  ms_minimumRow :: u64
  ms_minimumColumn :: u64
  ms_maximumRowLast :: u64
  ms_maximumColumnLast :: u64
  ms_sourceArea :: u64

fun merge_scan :: "IdentityNode list \<Rightarrow> CellTransition list \<Rightarrow> MergeScan \<Rightarrow> MergeScan option" where
  "merge_scan nodes [] s = Some s"
| "merge_scan nodes (t # ts) s =
     (if tr_action t \<noteq> CA_MergeSurvivor \<and> tr_action t \<noteq> CA_MergeAbsorbed then merge_scan nodes ts s
      else case find_node nodes (tr_oldCell t) of
             None \<Rightarrow> None
           | Some old \<Rightarrow>
               let cell = in_cell old; area = cc_rowSpan cell * cc_columnSpan cell
               in if \<not> validRectangle cell \<or> cc_rowSpan cell > u64_maximum div cc_columnSpan cell \<or>
                     ms_sourceArea s > u64_maximum - area
                  then None
                  else merge_scan nodes ts
                    \<lparr>ms_survivor = (if tr_action t = CA_MergeSurvivor then Some t else ms_survivor s),
                     ms_minimumRow = min (ms_minimumRow s) (cc_row1 cell),
                     ms_minimumColumn = min (ms_minimumColumn s) (cc_column1 cell),
                     ms_maximumRowLast = max (ms_maximumRowLast s) (rowLast cell),
                     ms_maximumColumnLast = max (ms_maximumColumnLast s) (columnLast cell),
                     ms_sourceArea = ms_sourceArea s + area\<rparr>)"

definition merge_ok :: "IdentityNode list \<Rightarrow> CellTransition list \<Rightarrow> bool" where
  "merge_ok nodes transitions =
     (case merge_scan nodes transitions \<lparr>ms_survivor = None, ms_minimumRow = u64_maximum,
             ms_minimumColumn = u64_maximum, ms_maximumRowLast = 0, ms_maximumColumnLast = 0,
             ms_sourceArea = 0\<rparr> of
        None \<Rightarrow> False
      | Some s \<Rightarrow>
          (case ms_survivor s of
             None \<Rightarrow> False
           | Some survivor \<Rightarrow>
               if ms_maximumRowLast s < ms_minimumRow s \<or> ms_maximumColumnLast s < ms_minimumColumn s then False
               else case find_node nodes (tr_oldCell survivor) of
                 None \<Rightarrow> False
               | Some survivorOld \<Rightarrow>
                   let old = in_cell survivorOld;
                       merged = \<lparr>cc_row1 = ms_minimumRow s, cc_column1 = ms_minimumColumn s,
                         cc_rowSpan = ms_maximumRowLast s - ms_minimumRow s + 1,
                         cc_columnSpan = ms_maximumColumnLast s - ms_minimumColumn s + 1\<rparr>
                   in \<not> (ms_minimumRow s < cc_row1 old \<or> ms_minimumRow s > rowLast old \<or>
                          ms_minimumColumn s < cc_column1 old \<or> ms_minimumColumn s > columnLast old) \<and>
                      \<not> (\<not> sameCoordinate (tr_after survivor) merged \<or>
                          cc_rowSpan merged > u64_maximum div cc_columnSpan merged \<or>
                          ms_sourceArea s \<noteq> cc_rowSpan merged * cc_columnSpan merged)))"

text \<open>The outputs of a split, relative to the old rectangle.\<close>

record RelativeRectangle =
  rr_row :: u64
  rr_column :: u64
  rr_rowSpan :: u64
  rr_columnSpan :: u64

definition relative_overlap :: "RelativeRectangle \<Rightarrow> RelativeRectangle \<Rightarrow> bool" where
  "relative_overlap a b \<longleftrightarrow>
     (rr_row a < rr_row b + rr_rowSpan b \<and> rr_row b < rr_row a + rr_rowSpan a) \<and>
     (rr_column a < rr_column b + rr_columnSpan b \<and> rr_column b < rr_column a + rr_columnSpan a)"

fun split_scan ::
  "Uuid128 \<Rightarrow> CellCoordinateV1 \<Rightarrow> CellCoordinateV1 option \<Rightarrow> CellTransition list \<Rightarrow>
     u64 \<times> RelativeRectangle list \<Rightarrow> (u64 \<times> RelativeRectangle list) option" where
  "split_scan oldCell old previous [] s = Some s"
| "split_scan oldCell old previous (t # ts) (coveredArea, relatives) =
     (let after = tr_after t;
          rowOffset = cc_row1 after - cc_row1 old;
          columnOffset = cc_column1 after - cc_column1 old;
          area = cc_rowSpan after * cc_columnSpan after
      in if \<not> EqualUuid (tr_oldCell t) oldCell \<or>
            (case previous of None \<Rightarrow> False | Some p \<Rightarrow> \<not> coordinateLess p after) \<or>
            cc_row1 after < cc_row1 old \<or> cc_column1 after < cc_column1 old
         then None
         else if rowOffset \<ge> cc_rowSpan old \<or> columnOffset \<ge> cc_columnSpan old \<or>
            cc_rowSpan after > cc_rowSpan old - rowOffset \<or>
            cc_columnSpan after > cc_columnSpan old - columnOffset \<or>
            cc_rowSpan after > u64_maximum div cc_columnSpan after \<or>
            coveredArea > u64_maximum - area
         then None
         else split_scan oldCell old (Some after) ts
           (coveredArea + area, relatives @ [\<lparr>rr_row = rowOffset, rr_column = columnOffset,
              rr_rowSpan = cc_rowSpan after, rr_columnSpan = cc_columnSpan after\<rparr>]))"

definition split_ok :: "IdentityNode list \<Rightarrow> nat \<Rightarrow> CellTransition list \<Rightarrow> bool" where
  "split_ok nodes splitTopLeft transitions =
     (case filter (\<lambda>t. tr_action t = CA_SplitTopLeft \<or> tr_action t = CA_SplitNew) transitions of
        [] \<Rightarrow> True
      | front # others \<Rightarrow>
          if splitTopLeft \<noteq> 1 \<or> others = [] \<or> tr_action front \<noteq> CA_SplitTopLeft then False
          else case find_node nodes (tr_oldCell front) of
            None \<Rightarrow> False
          | Some oldMergedCell \<Rightarrow>
              let old = in_cell oldMergedCell
              in if \<not> IsValid old \<or> cc_row1 (tr_after front) \<noteq> cc_row1 old \<or>
                    cc_column1 (tr_after front) \<noteq> cc_column1 old \<or>
                    cc_rowSpan old > u64_maximum div cc_columnSpan old
                 then False
                 else case split_scan (tr_oldCell front) old None (front # others) (0, []) of
                   None \<Rightarrow> False
                 | Some (coveredArea, relatives) \<Rightarrow>
                     no_pair relative_overlap relatives \<and> coveredArea = cc_rowSpan old * cc_columnSpan old)"

definition references_ok :: "CellTransition list \<Rightarrow> bool" where
  "references_ok transitions \<longleftrightarrow> list_all (\<lambda>t.
     (tr_action t = CA_SplitNew \<longrightarrow> list_ex (\<lambda>candidate. tr_action candidate = CA_SplitTopLeft \<and>
        EqualUuid (tr_oldCell candidate) (tr_oldCell t)) transitions) \<and>
     (tr_action t = CA_Clone \<longrightarrow> \<not> list_ex (\<lambda>candidate. is_removed (tr_action candidate) \<and>
        EqualUuid (tr_oldCell candidate) (tr_oldCell t)) transitions)) transitions"

definition is_table_cell :: "Uuid128 \<Rightarrow> IdentityNode \<Rightarrow> bool" where
  "is_table_cell table node \<longleftrightarrow> in_kind node = NK_TableCell \<and> EqualUuid (in_parent node) table"

definition resulting_cell :: "CellTransition list \<Rightarrow> IdentityNode \<Rightarrow> CellCoordinateV1 option" where
  "resulting_cell transitions node =
     (case List.find (\<lambda>candidate. (is_kept (tr_action candidate) \<or> is_removed (tr_action candidate)) \<and>
             EqualUuid (tr_oldCell candidate) (in_id node)) transitions of
        None \<Rightarrow> Some (in_cell node)
      | Some t \<Rightarrow> if is_kept (tr_action t) then Some (tr_after t) else None)"

definition resulting_cells :: "'c MutationIdentity \<Rightarrow> Uuid128 \<Rightarrow> CellTransition list \<Rightarrow> CellCoordinateV1 list" where
  "resulting_cells m table transitions =
     List.map_filter (resulting_cell transitions)
       (filter (\<lambda>node. is_table_cell table node \<and> \<not> ContainsId (mi_tombstoned m) (in_id node)) (mi_nodes m)) @
     map tr_after (filter (\<lambda>t. is_new (tr_action t)) transitions)"

fun area_scan :: "CellCoordinateV1 list \<Rightarrow> u64 \<times> u64 \<times> u64 \<Rightarrow> (u64 \<times> u64 \<times> u64) option" where
  "area_scan [] s = Some s"
| "area_scan (cell # cells) (maximumRowLast, maximumColumnLast, physicalArea) =
     (let area = cc_rowSpan cell * cc_columnSpan cell
      in if cc_rowSpan cell > u64_maximum div cc_columnSpan cell \<or> physicalArea > u64_maximum - area then None
         else area_scan cells (max maximumRowLast (rowLast cell), max maximumColumnLast (columnLast cell),
                physicalArea + area))"

definition tiling_ok :: "CellCoordinateV1 list \<Rightarrow> bool" where
  "tiling_ok cells \<longleftrightarrow> list_all validRectangle cells \<and> no_pair cell_overlaps cells \<and> cells \<noteq> [] \<and>
     (case area_scan cells (0, 0, 0) of
        None \<Rightarrow> False
      | Some (maximumRowLast, maximumColumnLast, physicalArea) \<Rightarrow>
          \<not> (maximumRowLast > u64_maximum div maximumColumnLast \<or>
             physicalArea \<noteq> maximumRowLast * maximumColumnLast))"

text \<open>All checks; the answer is the list of inserted clients.\<close>

definition check_transitions :: "'c MutationIdentity \<Rightarrow> Uuid128 \<Rightarrow> CellTransition list \<Rightarrow> Uuid128 list option" where
  "check_transitions m table transitions =
     (if \<not> no_pair same_transition transitions then None
      else case scan_transitions m table transitions empty_scan of
        None \<Rightarrow> None
      | Some s \<Rightarrow>
          if (ts_absorbed s \<noteq> 0 \<and> ts_survivors s \<noteq> 1) \<or> ts_survivors s > 1 \<or> ts_topLeft s > 1 \<or>
             \<not> ordered_transitions (mi_nodes m) None transitions \<or>
             (ts_survivors s = 1 \<and> \<not> merge_ok (mi_nodes m) transitions) \<or>
             \<not> split_ok (mi_nodes m) (ts_topLeft s) transitions \<or>
             \<not> references_ok transitions \<or>
             \<not> tiling_ok (resulting_cells m table transitions)
          then None else Some (ts_inserted s))"

subsection \<open>Applying the transitions\<close>

fun set_cell :: "Uuid128 \<Rightarrow> CellCoordinateV1 \<Rightarrow> IdentityNode list \<Rightarrow> IdentityNode list" where
  "set_cell u after [] = []"
| "set_cell u after (node # nodes) =
     (if EqualUuid (in_id node) u then node\<lparr>in_cell := after\<rparr> # nodes else node # set_cell u after nodes)"

definition kept_reason :: "CellAction \<Rightarrow> RemapReason" where
  "kept_reason action = (if action = CA_MergeSurvivor then RR_Merge
     else if action = CA_SplitTopLeft then RR_TableCellSplit else RR_IdentityRetained)"

definition new_reason :: "CellAction \<Rightarrow> RemapReason" where
  "new_reason action = (if action = CA_Insert then RR_ClientInsert
     else if action = CA_SplitNew then RR_TableCellSplit else RR_Clone)"

text \<open>\<open>minted\<close> holds the identities from \<open>mintedIndex\<close> on: one for every new cell that is left.\<close>

fun apply_loop ::
  "Uuid128 \<Rightarrow> CellTransition list \<Rightarrow> Uuid128 list \<Rightarrow> IdentityReceipt \<times> 'c MutationIdentity \<Rightarrow>
     bool \<times> IdentityReceipt \<times> 'c MutationIdentity" where
  "apply_loop table [] minted rm = (True, rm)"
| "apply_loop table (t # ts) minted (receipt, m) =
     (let old = find_node (mi_nodes m) (tr_oldCell t); action = tr_action t
      in if is_kept action then
           (case old of
              None \<Rightarrow> (False, receipt, m)
            | Some node \<Rightarrow>
                if in_kind node \<noteq> NK_TableCell \<or> \<not> EqualUuid (in_parent node) table then (False, receipt, m)
                else apply_loop table ts minted
                  (push_remap (Remap (in_id node) (Some (in_id node)) RD_Retained (kept_reason action)) receipt,
                   m\<lparr>mi_nodes := set_cell (tr_oldCell t) (tr_after t) (mi_nodes m)\<rparr>))
         else if is_removed action then
           (case old of
              None \<Rightarrow> (False, receipt, m)
            | Some node \<Rightarrow>
                if in_kind node \<noteq> NK_TableCell then (False, receipt, m)
                else case Mutation_Tombstone (in_id node)
                            (if action = CA_Delete then TR_Delete else TR_MergeAbsorbed) (receipt, m) of
                       None \<Rightarrow> (False, receipt, m)
                     | Some (receipt, m) \<Rightarrow>
                         apply_loop table ts minted
                           (push_remap (Remap (in_id node) None RD_Tombstoned
                              (if action = CA_Delete then RR_Delete else RR_Merge)) receipt, m))
         else
           apply_loop table ts (tl minted)
             (push_remap (Remap (if action = CA_Insert then tr_client t else tr_oldCell t)
                 (Some (hd minted)) RD_New (new_reason action)) receipt,
              m\<lparr>mi_clientIds := (if action = CA_Insert then mi_clientIds m @ [tr_client t] else mi_clientIds m),
                mi_nodes := mi_nodes m @ [\<lparr>in_id = hd minted, in_parent = table, in_kind = NK_TableCell,
                                           in_cell = tr_after t\<rparr>]\<rparr>))"

definition Mutation_ApplyTableCellTransitions ::
  "Uuid128 \<Rightarrow> CellTransition list \<Rightarrow> IdentityReceipt \<Rightarrow> 'c MutationIdentity \<Rightarrow>
     bool \<times> IdentityReceipt \<times> 'c MutationIdentity" where
  "Mutation_ApplyTableCellTransitions table transitions receipt m =
     (let m = m\<lparr>mi_lastResult := MR_InvalidInput\<rparr>
      in case find_node (mi_nodes m) table of
           None \<Rightarrow> (False, receipt, m)
         | Some tableNode \<Rightarrow>
             if in_kind tableNode \<noteq> NK_Table then (False, receipt, m)
             else case check_transitions m table transitions of
               None \<Rightarrow> (False, receipt, m)
             | Some insertedClients \<Rightarrow>
                 (case mint_many (length (filter (\<lambda>t. is_new (tr_action t)) transitions))
                         (ReceiptReservedIds receipt @ insertedClients) [] m of
                    (Inl r, m) \<Rightarrow> (False, receipt, m\<lparr>mi_lastResult := r\<rparr>)
                  | (Inr minted, m) \<Rightarrow>
                      (case apply_loop table transitions minted (receipt, m) of
                         (done, receipt, m) \<Rightarrow>
                           if \<not> done then (False, receipt, m)
                           else finish receipt (m\<lparr>mi_nodes := erase_ids (mi_tombstoned m) (mi_nodes m)\<rparr>))))"

subsection \<open>Rectangles as sets of grid positions\<close>

definition cell_slots_of :: "CellCoordinateV1 \<Rightarrow> (nat \<times> nat) set" where
  "cell_slots_of cell =
     {unat (cc_row1 cell) ..< unat (cc_row1 cell) + unat (cc_rowSpan cell)} \<times>
     {unat (cc_column1 cell) ..< unat (cc_column1 cell) + unat (cc_columnSpan cell)}"

definition cells_tile :: "CellCoordinateV1 list \<Rightarrow> nat \<Rightarrow> nat \<Rightarrow> bool" where
  "cells_tile cells rows columns \<longleftrightarrow>
     no_pair (\<lambda>a b. cell_slots_of a \<inter> cell_slots_of b \<noteq> {}) cells \<and>
     (\<Union>cell \<in> set cells. cell_slots_of cell) = {1..rows} \<times> {1..columns}"

lemma u64_less: "unat (w :: u64) < 18446744073709551616"
  using unsigned_less [where 'b = 64 and 'a = nat, of w] by simp

lemma unat_maximum [simp]: "unat u64_maximum = 18446744073709551615"
  by (simp add: u64_maximum_def)

lemma u64_last:
  fixes r s :: u64
  assumes "s \<ge> 1" "s - 1 \<le> u64_maximum - r"
  shows "unat (r + s - 1) = unat r + unat s - 1" "unat s \<ge> 1"
proof -
  show s: "unat s \<ge> 1"
    using assms(1) by (simp add: word_le_nat_alt)
  have "unat (s - 1) = unat s - 1"
    using assms(1) by (simp add: unat_sub)
  moreover have "r \<le> u64_maximum"
    unfolding word_le_nat_alt using u64_less [of r] by simp
  then have "unat (u64_maximum - r) = 18446744073709551615 - unat r"
    by (simp add: unat_sub)
  ultimately have "unat s - 1 \<le> 18446744073709551615 - unat r"
    using assms(2) by (simp add: word_le_nat_alt)
  moreover have "unat r < 18446744073709551616"
    using u64_less [of r] by simp
  ultimately have small: "unat r + unat (s - 1) < 18446744073709551616"
    using \<open>unat (s - 1) = unat s - 1\<close> by linarith
  have "unat (r + s - 1) = unat (r + (s - 1))"
    by (simp add: algebra_simps)
  also have "\<dots> = unat r + unat (s - 1)"
    using small by (simp add: unat_add_lem [THEN iffD1])
  finally show "unat (r + s - 1) = unat r + unat s - 1"
    using \<open>unat (s - 1) = unat s - 1\<close> s by simp
qed

lemma validRectangle_last:
  assumes "validRectangle cell"
  shows "unat (rowLast cell) = unat (cc_row1 cell) + unat (cc_rowSpan cell) - 1"
    "unat (columnLast cell) = unat (cc_column1 cell) + unat (cc_columnSpan cell) - 1"
    "1 \<le> unat (cc_rowSpan cell)" "1 \<le> unat (cc_columnSpan cell)"
    "1 \<le> unat (cc_row1 cell)" "1 \<le> unat (cc_column1 cell)"
proof -
  have v: "cc_rowSpan cell \<ge> 1" "cc_columnSpan cell \<ge> 1" "cc_row1 cell \<ge> 1" "cc_column1 cell \<ge> 1"
    "cc_rowSpan cell - 1 \<le> u64_maximum - cc_row1 cell" "cc_columnSpan cell - 1 \<le> u64_maximum - cc_column1 cell"
    using assms by (simp_all add: validRectangle_def IsValid_def)
  show "unat (rowLast cell) = unat (cc_row1 cell) + unat (cc_rowSpan cell) - 1" "1 \<le> unat (cc_rowSpan cell)"
    unfolding rowLast_def by (rule u64_last [OF v(1,5)])+
  show "unat (columnLast cell) = unat (cc_column1 cell) + unat (cc_columnSpan cell) - 1" "1 \<le> unat (cc_columnSpan cell)"
    unfolding columnLast_def by (rule u64_last [OF v(2,6)])+
  show "1 \<le> unat (cc_row1 cell)" "1 \<le> unat (cc_column1 cell)"
    using v(3,4) by (simp_all add: word_le_nat_alt)
qed

lemma nat_interval_meet:
  "{a..<a + n} \<inter> {b..<b + k} \<noteq> {} \<longleftrightarrow> a \<le> b + k - 1 \<and> b \<le> a + n - 1" if "1 \<le> n" "1 \<le> k" for a b n k :: nat
proof
  assume "a \<le> b + k - 1 \<and> b \<le> a + n - 1"
  then have "max a b \<in> {a..<a + n} \<inter> {b..<b + k}"
    using that by auto
  then show "{a..<a + n} \<inter> {b..<b + k} \<noteq> {}" by blast
qed auto

lemma overlaps_slots:
  assumes "validRectangle left" "validRectangle right"
  shows "cell_overlaps left right \<longleftrightarrow> cell_slots_of left \<inter> cell_slots_of right \<noteq> {}"
proof -
  note l = validRectangle_last [OF assms(1)] and r = validRectangle_last [OF assms(2)]
  have "cell_slots_of left \<inter> cell_slots_of right \<noteq> {} \<longleftrightarrow>
      {unat (cc_row1 left) ..< unat (cc_row1 left) + unat (cc_rowSpan left)} \<inter>
        {unat (cc_row1 right) ..< unat (cc_row1 right) + unat (cc_rowSpan right)} \<noteq> {} \<and>
      {unat (cc_column1 left) ..< unat (cc_column1 left) + unat (cc_columnSpan left)} \<inter>
        {unat (cc_column1 right) ..< unat (cc_column1 right) + unat (cc_columnSpan right)} \<noteq> {}"
    unfolding cell_slots_of_def Times_Int_Times by blast
  then show ?thesis
    unfolding nat_interval_meet [OF l(3) r(3)] nat_interval_meet [OF l(4) r(4)]
      cell_overlaps_def word_le_nat_alt l(1,2) r(1,2) by blast
qed

lemma no_pair_mono:
  assumes "no_pair f xs" "\<And>x y. x \<in> set xs \<Longrightarrow> y \<in> set xs \<Longrightarrow> g x y \<Longrightarrow> f x y"
  shows "no_pair g xs"
  using assms by (induction xs) (auto simp: list_all_iff)

lemma card_cell_slots: "card (cell_slots_of cell) = unat (cc_rowSpan cell) * unat (cc_columnSpan cell)"
  by (simp add: cell_slots_of_def)

lemma finite_cell_slots [simp]: "finite (cell_slots_of cell)"
  by (simp add: cell_slots_of_def)

lemma card_disjoint_cells:
  assumes "no_pair (\<lambda>a b. cell_slots_of a \<inter> cell_slots_of b \<noteq> {}) cells"
  shows "card (\<Union>cell \<in> set cells. cell_slots_of cell) = sum_list (map (\<lambda>cell. card (cell_slots_of cell)) cells)"
  using assms
proof (induction cells)
  case (Cons cell cells)
  have "cell_slots_of cell \<inter> (\<Union>cell \<in> set cells. cell_slots_of cell) = {}"
    using Cons.prems by (auto simp: list_all_iff)
  then have "card (cell_slots_of cell \<union> (\<Union>cell \<in> set cells. cell_slots_of cell)) =
      card (cell_slots_of cell) + card (\<Union>cell \<in> set cells. cell_slots_of cell)"
    by (intro card_Un_disjoint) simp_all
  with Cons show ?case by simp
qed simp

lemma u64_area:
  fixes a b :: u64
  assumes "a \<le> u64_maximum div b"
  shows "unat (a * b) = unat a * unat b"
proof -
  have "unat a \<le> 18446744073709551615 div unat b"
    using assms by (simp add: word_le_nat_alt unat_div)
  then have "unat a * unat b \<le> (18446744073709551615 div unat b) * unat b"
    by (rule mult_right_mono) simp
  also have "\<dots> \<le> 18446744073709551615"
    by simp
  finally have "unat a * unat b < 2 ^ 64"
    by simp
  then show ?thesis
    by (simp add: unat_mult_lem [THEN iffD1])
qed

lemma u64_sum:
  fixes a b :: u64
  assumes "a \<le> u64_maximum - b"
  shows "unat (a + b) = unat a + unat b"
proof -
  have "b \<le> u64_maximum"
    unfolding word_le_nat_alt using u64_less [of b] by simp
  then have "unat (u64_maximum - b) = 18446744073709551615 - unat b"
    by (simp add: unat_sub)
  then have "unat a \<le> 18446744073709551615 - unat b"
    using assms by (simp add: word_le_nat_alt)
  moreover have "unat b < 18446744073709551616"
    using u64_less [of b] by simp
  ultimately have "unat a + unat b < 2 ^ 64"
    by simp
  then show ?thesis
    by (simp add: unat_add_lem [THEN iffD1])
qed

lemma area_scan_Some:
  assumes "area_scan cells (R, C, A) = Some (R', C', A')" "list_all validRectangle cells"
  shows "unat A' = unat A + sum_list (map (\<lambda>cell. card (cell_slots_of cell)) cells) \<and>
    R \<le> R' \<and> C \<le> C' \<and> (\<forall>cell \<in> set cells. rowLast cell \<le> R' \<and> columnLast cell \<le> C')"
  using assms
proof (induction cells arbitrary: R C A)
  case (Cons cell cells)
  let ?area = "cc_rowSpan cell * cc_columnSpan cell"
  have small: "cc_rowSpan cell \<le> u64_maximum div cc_columnSpan cell" "A \<le> u64_maximum - ?area"
    and rec: "area_scan cells (max R (rowLast cell), max C (columnLast cell), A + ?area) = Some (R', C', A')"
    using Cons.prems(1) by (auto simp: Let_def not_less split: if_splits)
  have "unat (A + ?area) = unat A + card (cell_slots_of cell)"
    using u64_sum [OF small(2)] u64_area [OF small(1)] by (simp add: card_cell_slots)
  with Cons.IH [OF rec] Cons.prems(2) show ?case
    by auto
qed simp

lemma tiling_ok_tiles:
  assumes "tiling_ok cells"
  shows "\<exists>rows columns. 1 \<le> rows \<and> 1 \<le> columns \<and> cells_tile cells rows columns"
proof -
  obtain R C A where valid: "list_all validRectangle cells" and "no_pair cell_overlaps cells" "cells \<noteq> []"
    and scan: "area_scan cells (0, 0, 0) = Some (R, C, A)"
    and fits: "R \<le> u64_maximum div C" and area: "A = R * C"
    using assms by (auto simp: tiling_ok_def not_less split: option.splits)
  note S = area_scan_Some [OF scan valid]
  have disjoint: "no_pair (\<lambda>a b. cell_slots_of a \<inter> cell_slots_of b \<noteq> {}) cells"
    using \<open>no_pair cell_overlaps cells\<close>
    by (rule no_pair_mono) (use valid overlaps_slots in \<open>auto simp: list_all_iff\<close>)
  have "unat A = unat R * unat C"
    using area u64_area [OF fits] by simp
  then have card: "card (\<Union>cell \<in> set cells. cell_slots_of cell) = unat R * unat C"
    using S card_disjoint_cells [OF disjoint] by simp
  have inside: "cell_slots_of cell \<subseteq> {1..unat R} \<times> {1..unat C}" if "cell \<in> set cells" for cell
  proof -
    have "validRectangle cell"
      using valid that by (simp add: list_all_iff)
    note v = validRectangle_last [OF this]
    have "unat (rowLast cell) \<le> unat R" "unat (columnLast cell) \<le> unat C"
      using S that by (simp_all add: word_le_nat_alt)
    with v show ?thesis
      by (auto simp: cell_slots_of_def)
  qed
  have cover: "(\<Union>cell \<in> set cells. cell_slots_of cell) = {1..unat R} \<times> {1..unat C}"
    by (rule card_subset_eq) (use inside card in auto)
  obtain cell where "cell \<in> set cells"
    using \<open>cells \<noteq> []\<close> by (cases cells) auto
  then have "validRectangle cell"
    using valid by (simp add: list_all_iff)
  note v = validRectangle_last [OF this]
  have "(unat (cc_row1 cell), unat (cc_column1 cell)) \<in> cell_slots_of cell"
    using v by (simp add: cell_slots_of_def)
  then have "1 \<le> unat R" "1 \<le> unat C"
    using inside [OF \<open>cell \<in> set cells\<close>] by auto
  with disjoint cover show ?thesis
    unfolding cells_tile_def by blast
qed

subsection \<open>The second half never fails\<close>

definition consumes :: "CellTransition \<Rightarrow> bool" where
  "consumes t \<longleftrightarrow> is_kept (tr_action t) \<or> is_removed (tr_action t)"

abbreviation consumed_ids :: "CellTransition list \<Rightarrow> Uuid128 list" where
  "consumed_ids ts \<equiv> map tr_oldCell (filter consumes ts)"

abbreviation removed_ids :: "CellTransition list \<Rightarrow> Uuid128 list" where
  "removed_ids ts \<equiv> map tr_oldCell (filter (\<lambda>t. is_removed (tr_action t)) ts)"

lemma consumes_not_new: "consumes t \<longleftrightarrow> \<not> is_new (tr_action t)"
  by (cases "tr_action t") (simp_all add: consumes_def is_kept_def is_removed_def is_new_def)

lemma kept_not_removed: "is_kept a \<Longrightarrow> \<not> is_removed a"
  by (auto simp: is_kept_def is_removed_def)

lemma removed_ids_consumed: "set (removed_ids ts) \<subseteq> set (consumed_ids ts)"
  by (auto simp: consumes_def)

lemma scan_one_Some:
  assumes "scan_one m table t s = Some s'"
  shows "if consumes t then validOldCell m table (tr_oldCell t) \<and> tr_oldCell t \<notin> set (ts_consumed s) \<and>
      ts_consumed s' = ts_consumed s @ [tr_oldCell t] else ts_consumed s' = ts_consumed s"
  using assms by (auto simp: scan_one_def consumes_def split: if_splits)

lemma scan_transitions_Some:
  assumes "scan_transitions m table ts s = Some s'"
  shows "ts_consumed s' = ts_consumed s @ consumed_ids ts \<and>
    (distinct (ts_consumed s) \<longrightarrow> distinct (ts_consumed s')) \<and>
    (\<forall>u \<in> set (consumed_ids ts). validOldCell m table u)"
  using assms
proof (induction ts arbitrary: s)
  case (Cons t ts)
  obtain s1 where one: "scan_one m table t s = Some s1" and rec: "scan_transitions m table ts s1 = Some s'"
    using Cons.prems by (auto split: option.splits)
  note IH = Cons.IH [OF rec] and head = scan_one_Some [OF one]
  show ?case
  proof (intro conjI)
    show "ts_consumed s' = ts_consumed s @ consumed_ids (t # ts)"
      using IH head by (cases "consumes t") simp_all
    have "distinct (ts_consumed s) \<longrightarrow> distinct (ts_consumed s1)"
      using head by (cases "consumes t") simp_all
    then show "distinct (ts_consumed s) \<longrightarrow> distinct (ts_consumed s')"
      using IH by blast
    show "\<forall>u \<in> set (consumed_ids (t # ts)). validOldCell m table u"
      using IH head by (cases "consumes t") simp_all
  qed
qed simp

lemma set_cell_map:
  "distinct (map in_id nodes) \<Longrightarrow>
   set_cell u after nodes = map (\<lambda>n. if in_id n = u then n\<lparr>in_cell := after\<rparr> else n) nodes"
proof (induction nodes)
  case (Cons node nodes)
  have "in_id node \<notin> in_id ` set nodes"
    using Cons.prems by simp
  then have "in_id n \<noteq> in_id node" if "n \<in> set nodes" for n
    using that by (metis image_eqI)
  then have "map (\<lambda>n. if in_id n = u then n\<lparr>in_cell := after\<rparr> else n) nodes = nodes" if "in_id node = u"
    using that by (intro map_idI) simp
  with Cons show ?case
    by (simp add: EqualUuid_def)
qed simp

definition updated :: "CellTransition list \<Rightarrow> IdentityNode \<Rightarrow> IdentityNode" where
  "updated ts node = (case List.find (\<lambda>t. is_kept (tr_action t) \<and> tr_oldCell t = in_id node) ts of
     None \<Rightarrow> node | Some t \<Rightarrow> node\<lparr>in_cell := tr_after t\<rparr>)"

fun new_nodes :: "Uuid128 \<Rightarrow> CellTransition list \<Rightarrow> Uuid128 list \<Rightarrow> IdentityNode list" where
  "new_nodes table [] minted = []"
| "new_nodes table (t # ts) minted =
     (if is_new (tr_action t)
      then \<lparr>in_id = hd minted, in_parent = table, in_kind = NK_TableCell, in_cell = tr_after t\<rparr> #
        new_nodes table ts (tl minted)
      else new_nodes table ts minted)"

lemma updated_simps [simp]:
  "in_id (updated ts node) = in_id node" "in_kind (updated ts node) = in_kind node"
  "in_parent (updated ts node) = in_parent node"
  by (simp_all add: updated_def split: option.split)

lemma updated_Nil [simp]: "updated [] node = node"
  by (simp add: updated_def)

lemma updated_same: "in_id node \<notin> set (consumed_ids ts) \<Longrightarrow> updated ts node = node"
  using find_None_iff_all [of "\<lambda>t. is_kept (tr_action t) \<and> tr_oldCell t = in_id node" ts]
  by (force simp: updated_def consumes_def split: option.split)

text \<open>What the transitions still to be applied need of the state.\<close>

definition appliable :: "Uuid128 \<Rightarrow> CellTransition list \<Rightarrow> Uuid128 list \<Rightarrow> 'c MutationIdentity \<Rightarrow> bool" where
  "appliable table ts minted m \<longleftrightarrow>
     distinct (map in_id (mi_nodes m)) \<and> distinct (consumed_ids ts) \<and>
     (\<forall>u \<in> set (consumed_ids ts). u \<notin> set (mi_tombstoned m) \<and>
        (\<exists>node \<in> set (mi_nodes m). in_id node = u \<and> in_kind node = NK_TableCell \<and> in_parent node = table)) \<and>
     length minted = length (filter (\<lambda>t. is_new (tr_action t)) ts) \<and> distinct minted \<and>
     set minted \<inter> in_id ` set (mi_nodes m) = {}"

lemma appliable_ids: "appliable table ts minted m \<Longrightarrow> set (consumed_ids ts) \<subseteq> in_id ` set (mi_nodes m)"
proof
  fix u
  assume "appliable table ts minted m" "u \<in> set (consumed_ids ts)"
  then obtain node where "node \<in> set (mi_nodes m)" "in_id node = u"
    unfolding appliable_def by blast
  then show "u \<in> in_id ` set (mi_nodes m)" by blast
qed

lemma consumed_ids_tl: "set (consumed_ids ts) \<subseteq> set (consumed_ids (t # ts))"
  by auto

lemma appliable_new:
  assumes "appliable table (t # ts) minted m" "is_new (tr_action t)"
  shows "appliable table ts (tl minted)
    (m\<lparr>mi_clientIds := clients, mi_nodes := mi_nodes m @ [\<lparr>in_id = hd minted, in_parent = table,
        in_kind = NK_TableCell, in_cell = cell\<rparr>]\<rparr>)"
    and "hd minted \<notin> in_id ` set (mi_nodes m)" "hd minted \<notin> set (consumed_ids ts)"
proof -
  obtain u us where minted: "minted = u # us"
    using assms by (cases minted) (auto simp: appliable_def)
  show "hd minted \<notin> in_id ` set (mi_nodes m)"
    using assms(1) by (simp add: appliable_def minted)
  then show "hd minted \<notin> set (consumed_ids ts)"
    using appliable_ids [OF assms(1)] consumed_ids_tl [of ts t] by blast
  show "appliable table ts (tl minted)
    (m\<lparr>mi_clientIds := clients, mi_nodes := mi_nodes m @ [\<lparr>in_id = hd minted, in_parent = table,
        in_kind = NK_TableCell, in_cell = cell\<rparr>]\<rparr>)"
    using assms consumes_not_new [of t] unfolding appliable_def minted by auto
qed

lemma appliable_old:
  assumes "appliable table (t # ts) minted m" "consumes t"
  shows "\<exists>node. find_node (mi_nodes m) (tr_oldCell t) = Some node \<and> in_id node = tr_oldCell t \<and>
      in_kind node = NK_TableCell \<and> in_parent node = table"
    and "tr_oldCell t \<notin> set (consumed_ids ts)" "tr_oldCell t \<notin> set (mi_tombstoned m)"
proof -
  obtain node where "node \<in> set (mi_nodes m)" "in_id node = tr_oldCell t" "in_kind node = NK_TableCell"
    "in_parent node = table"
    using assms by (auto simp: appliable_def)
  moreover have "distinct (map in_id (mi_nodes m))"
    using assms(1) by (simp add: appliable_def)
  ultimately show "\<exists>node. find_node (mi_nodes m) (tr_oldCell t) = Some node \<and> in_id node = tr_oldCell t \<and>
      in_kind node = NK_TableCell \<and> in_parent node = table"
    using find_node_iff by blast
  show "tr_oldCell t \<notin> set (consumed_ids ts)" "tr_oldCell t \<notin> set (mi_tombstoned m)"
    using assms by (auto simp: appliable_def)
qed

lemma appliable_keep:
  assumes "appliable table (t # ts) minted m" "is_kept (tr_action t)"
  shows "appliable table ts minted (m\<lparr>mi_nodes := map (\<lambda>n. if in_id n = tr_oldCell t then n\<lparr>in_cell := c\<rparr> else n) (mi_nodes m)\<rparr>)"
proof -
  let ?f = "\<lambda>n. if in_id n = tr_oldCell t then n\<lparr>in_cell := c\<rparr> else n"
  let ?m = "m\<lparr>mi_nodes := map ?f (mi_nodes m)\<rparr>"
  have ids: "map in_id (mi_nodes ?m) = map in_id (mi_nodes m)"
    by simp
  have live: "in_id ` set (mi_nodes ?m) = in_id ` set (mi_nodes m)"
    using arg_cong [OF ids, of set] unfolding list.set_map .
  have "\<not> is_new (tr_action t)" "consumes t"
    using assms(2) consumes_not_new [of t] by (simp_all add: consumes_def)
  then have news: "length minted = length (filter (\<lambda>t. is_new (tr_action t)) ts)" and "distinct (consumed_ids ts)"
    using assms(1) by (simp_all add: appliable_def)
  have cells: "u \<notin> set (mi_tombstoned ?m) \<and>
      (\<exists>node \<in> set (mi_nodes ?m). in_id node = u \<and> in_kind node = NK_TableCell \<and> in_parent node = table)"
    if "u \<in> set (consumed_ids ts)" for u
  proof -
    have "u \<in> set (consumed_ids (t # ts))"
      using that consumed_ids_tl by blast
    then have "u \<notin> set (mi_tombstoned m) \<and> (\<exists>node \<in> set (mi_nodes m).
        in_id node = u \<and> in_kind node = NK_TableCell \<and> in_parent node = table)"
      using assms(1) unfolding appliable_def by (elim conjE) (drule bspec)
    then obtain node where "u \<notin> set (mi_tombstoned m)" "node \<in> set (mi_nodes m)" "in_id node = u"
      "in_kind node = NK_TableCell" "in_parent node = table"
      by blast
    then show ?thesis
      by (intro conjI bexI [of _ "?f node"]) auto
  qed
  show ?thesis
    unfolding appliable_def ids live using assms(1) news \<open>distinct (consumed_ids ts)\<close> cells
    unfolding appliable_def by (intro conjI ballI) simp_all
qed

lemma appliable_remove:
  assumes "appliable table (t # ts) minted m" "is_removed (tr_action t)"
  shows "appliable table ts minted (m\<lparr>mi_tombstoned := mi_tombstoned m @ [tr_oldCell t]\<rparr>)"
proof -
  have t: "\<not> is_new (tr_action t)" "consumes t"
    using assms(2) consumes_not_new [of t] by (simp_all add: consumes_def)
  have fresh: "u \<noteq> tr_oldCell t" if "u \<in> set (consumed_ids ts)" for u
    using appliable_old(2) [OF assms(1) t(2)] that by blast
  have "appliable table ts minted m"
    using assms(1) t unfolding appliable_def by simp
  then show ?thesis
    using fresh unfolding appliable_def by simp
qed

definition applied_clients :: "CellTransition list \<Rightarrow> Uuid128 list" where
  "applied_clients ts = map tr_client (filter (\<lambda>t. tr_action t = CA_Insert) ts)"

lemma apply_loop_ok:
  assumes "appliable table ts minted m"
  shows "\<exists>receipt'. apply_loop table ts minted (receipt, m) = (True, receipt',
    m\<lparr>mi_nodes := map (updated ts) (mi_nodes m) @ new_nodes table ts minted,
      mi_tombstoned := mi_tombstoned m @ removed_ids ts,
      mi_clientIds := mi_clientIds m @ applied_clients ts\<rparr>)"
  using assms
proof (induction ts arbitrary: minted m receipt)
  case Nil
  show ?case
    by (simp add: applied_clients_def)
next
  case (Cons t ts)
  have dist: "distinct (map in_id (mi_nodes m))"
    using Cons.prems by (simp add: appliable_def)
  consider "is_kept (tr_action t)" | "is_removed (tr_action t)" | "is_new (tr_action t)"
    using consumes_not_new [of t] by (auto simp: consumes_def)
  then show ?case
  proof cases
    case 1
    then have t: "consumes t" "\<not> is_removed (tr_action t)" "\<not> is_new (tr_action t)" "tr_action t \<noteq> CA_Insert"
      using consumes_not_new [of t] kept_not_removed [OF 1] by (auto simp: consumes_def is_kept_def)
    let ?f = "\<lambda>n. if in_id n = tr_oldCell t then n\<lparr>in_cell := tr_after t\<rparr> else n"
    let ?m = "m\<lparr>mi_nodes := map ?f (mi_nodes m)\<rparr>"
    obtain node where node: "find_node (mi_nodes m) (tr_oldCell t) = Some node" "in_id node = tr_oldCell t"
      "in_kind node = NK_TableCell" "in_parent node = table"
      using appliable_old(1) [OF Cons.prems t(1)] by blast
    have step: "apply_loop table (t # ts) minted (receipt, m) = apply_loop table ts minted
        (push_remap (Remap (in_id node) (Some (in_id node)) RD_Retained (kept_reason (tr_action t))) receipt, ?m)"
      using node 1 set_cell_map [OF dist] by (simp add: Let_def EqualUuid_def)
    have "updated ts (?f n) = updated (t # ts) n" for n
    proof (cases "in_id n = tr_oldCell t")
      case True
      then have "in_id (n\<lparr>in_cell := tr_after t\<rparr>) \<notin> set (consumed_ids ts)"
        using appliable_old(2) [OF Cons.prems t(1)] by simp
      then have "updated ts (n\<lparr>in_cell := tr_after t\<rparr>) = n\<lparr>in_cell := tr_after t\<rparr>"
        by (rule updated_same)
      with True 1 show ?thesis
        by (simp add: updated_def [of "t # ts"])
    next
      case False
      then show ?thesis
        by (simp add: updated_def)
    qed
    then have upd: "map (updated ts) (map ?f (mi_nodes m)) = map (updated (t # ts)) (mi_nodes m)"
      by simp
    obtain r where IH: "apply_loop table ts minted
        (push_remap (Remap (in_id node) (Some (in_id node)) RD_Retained (kept_reason (tr_action t))) receipt, ?m) =
      (True, r, ?m\<lparr>mi_nodes := map (updated ts) (mi_nodes ?m) @ new_nodes table ts minted,
         mi_tombstoned := mi_tombstoned ?m @ removed_ids ts,
         mi_clientIds := mi_clientIds ?m @ applied_clients ts\<rparr>)"
      using Cons.IH [OF appliable_keep [OF Cons.prems 1]] by blast
    show ?thesis
      unfolding step IH using t upd
      by (intro exI [of _ r]) (simp add: applied_clients_def del: map_map)
  next
    case 2
    then have t: "consumes t" "\<not> is_kept (tr_action t)" "\<not> is_new (tr_action t)" "tr_action t \<noteq> CA_Insert"
      using consumes_not_new [of t] kept_not_removed by (auto simp: consumes_def is_removed_def)
    let ?m = "m\<lparr>mi_tombstoned := mi_tombstoned m @ [tr_oldCell t]\<rparr>"
    obtain node where node: "find_node (mi_nodes m) (tr_oldCell t) = Some node" "in_id node = tr_oldCell t"
      "in_kind node = NK_TableCell"
      using appliable_old(1) [OF Cons.prems t(1)] by blast
    then have live: "tr_oldCell t \<in> in_id ` set (mi_nodes m)"
      using find_node_Some by (metis image_eqI)
    obtain receipt1 where tomb: "Mutation_Tombstone (tr_oldCell t)
        (if tr_action t = CA_Delete then TR_Delete else TR_MergeAbsorbed) (receipt, m) = Some (receipt1, ?m)"
      using Tombstone_Some [OF live appliable_old(3) [OF Cons.prems t(1)]] by blast
    have step: "apply_loop table (t # ts) minted (receipt, m) = apply_loop table ts minted
        (push_remap (Remap (tr_oldCell t) None RD_Tombstoned (if tr_action t = CA_Delete then RR_Delete else RR_Merge)) receipt1, ?m)"
      using node 2 t tomb by (simp add: Let_def)
    have upd: "updated (t # ts) = updated ts"
      using t by (intro ext) (simp add: updated_def)
    obtain r where IH: "apply_loop table ts minted
        (push_remap (Remap (tr_oldCell t) None RD_Tombstoned (if tr_action t = CA_Delete then RR_Delete else RR_Merge)) receipt1, ?m) =
      (True, r, ?m\<lparr>mi_nodes := map (updated ts) (mi_nodes ?m) @ new_nodes table ts minted,
         mi_tombstoned := mi_tombstoned ?m @ removed_ids ts,
         mi_clientIds := mi_clientIds ?m @ applied_clients ts\<rparr>)"
      using Cons.IH [OF appliable_remove [OF Cons.prems 2]] by blast
    show ?thesis
      unfolding step IH upd using t 2
      by (intro exI [of _ r]) (simp add: applied_clients_def)
  next
    case 3
    then have t: "\<not> consumes t" "\<not> is_kept (tr_action t)" "\<not> is_removed (tr_action t)"
      using consumes_not_new [of t] by (auto simp: consumes_def)
    define clients where "clients = (if tr_action t = CA_Insert then mi_clientIds m @ [tr_client t] else mi_clientIds m)"
    define new where "new = \<lparr>in_id = hd minted, in_parent = table, in_kind = NK_TableCell, in_cell = tr_after t\<rparr>"
    let ?m = "m\<lparr>mi_clientIds := clients, mi_nodes := mi_nodes m @ [new]\<rparr>"
    note A = appliable_new [OF Cons.prems 3]
    have step: "apply_loop table (t # ts) minted (receipt, m) = apply_loop table ts (tl minted)
        (push_remap (Remap (if tr_action t = CA_Insert then tr_client t else tr_oldCell t)
                 (Some (hd minted)) RD_New (new_reason (tr_action t))) receipt, ?m)"
      using t by (simp add: Let_def clients_def new_def)
    have same: "updated ts new = new"
      using A(3) by (intro updated_same) (simp add: new_def)
    have upd: "updated (t # ts) = updated ts"
      using t by (intro ext) (simp add: updated_def)
    have clients: "clients @ applied_clients ts = mi_clientIds m @ applied_clients (t # ts)"
      by (simp add: clients_def applied_clients_def)
    have "appliable table ts (tl minted) ?m"
      using A(1) unfolding new_def .
    then obtain r where IH: "apply_loop table ts (tl minted)
        (push_remap (Remap (if tr_action t = CA_Insert then tr_client t else tr_oldCell t)
                 (Some (hd minted)) RD_New (new_reason (tr_action t))) receipt, ?m) =
      (True, r, ?m\<lparr>mi_nodes := map (updated ts) (mi_nodes ?m) @ new_nodes table ts (tl minted),
         mi_tombstoned := mi_tombstoned ?m @ removed_ids ts,
         mi_clientIds := mi_clientIds ?m @ applied_clients ts\<rparr>)"
      using Cons.IH by blast
    show ?thesis
      unfolding step IH upd using t 3 same clients
      by (intro exI [of _ r]) (simp add: new_def)
  qed
qed

lemma new_nodes_props:
  assumes "length minted = length (filter (\<lambda>t. is_new (tr_action t)) ts)"
  shows "map in_id (new_nodes table ts minted) = minted"
    "map in_cell (new_nodes table ts minted) = map tr_after (filter (\<lambda>t. is_new (tr_action t)) ts)"
    "\<forall>node \<in> set (new_nodes table ts minted). is_table_cell table node"
  using assms
proof (induction ts arbitrary: minted)
  case (Cons t ts)
  { case 1 with Cons.IH(1) [of minted] Cons.IH(1) [of "tl minted"] show ?case
      by (cases minted) (auto split: if_splits)
  next
    case 2 with Cons.IH(2) [of minted] Cons.IH(2) [of "tl minted"] show ?case
      by (cases minted) (auto split: if_splits)
  next
    case 3 with Cons.IH(3) [of minted] Cons.IH(3) [of "tl minted"] show ?case
      by (cases minted) (auto simp: is_table_cell_def EqualUuid_def split: if_splits)
  }
qed simp_all

lemma resulting_cell_eq:
  assumes "distinct (consumed_ids ts)"
  shows "resulting_cell ts node =
    (if in_id node \<in> set (removed_ids ts) then None else Some (in_cell (updated ts node)))"
  using assms
proof (induction ts)
  case Nil
  show ?case by (simp add: resulting_cell_def)
next
  case (Cons t ts)
  show ?case
  proof (cases "consumes t \<and> tr_oldCell t = in_id node")
    case True
    then have "in_id node \<notin> set (consumed_ids ts)"
      using Cons.prems by auto
    then have "in_id node \<notin> set (removed_ids ts)"
      using removed_ids_consumed by blast
    with True show ?thesis
      by (auto simp: resulting_cell_def updated_def EqualUuid_def consumes_def dest: kept_not_removed)
  next
    case False
    then have "resulting_cell (t # ts) node = resulting_cell ts node"
      by (auto simp: resulting_cell_def EqualUuid_def consumes_def)
    moreover have "updated (t # ts) node = updated ts node"
      using False by (auto simp: updated_def consumes_def)
    moreover have "in_id node \<in> set (removed_ids (t # ts)) \<longleftrightarrow> in_id node \<in> set (removed_ids ts)"
      using False by (auto simp: consumes_def)
    moreover have "distinct (consumed_ids ts)"
      using Cons.prems by (simp split: if_splits)
    ultimately show ?thesis
      using Cons.IH by simp
  qed
qed

definition table_cells :: "Uuid128 \<Rightarrow> IdentityNode list \<Rightarrow> CellCoordinateV1 list" where
  "table_cells table nodes = map in_cell (filter (is_table_cell table) nodes)"

lemma table_cells_old:
  assumes "distinct (consumed_ids ts)"
  shows "table_cells table (erase_ids (tomb @ removed_ids ts) (map (updated ts) nodes)) =
    List.map_filter (resulting_cell ts) (filter (\<lambda>node. is_table_cell table node \<and> \<not> ContainsId tomb (in_id node)) nodes)"
proof (induction nodes)
  case (Cons node nodes)
  then show ?case
    using resulting_cell_eq [OF assms, of node]
    by (auto simp: table_cells_def erase_ids_def is_table_cell_def map_filter_simps)
qed (simp add: table_cells_def erase_ids_def map_filter_simps)

lemma check_transitions_Some:
  assumes "check_transitions m table ts = Some inserted"
  shows "distinct (consumed_ids ts)" "\<forall>u \<in> set (consumed_ids ts). validOldCell m table u"
    "tiling_ok (resulting_cells m table ts)"
proof -
  obtain s where scan: "scan_transitions m table ts empty_scan = Some s"
    and "tiling_ok (resulting_cells m table ts)"
    using assms by (auto simp: check_transitions_def split: if_splits option.splits)
  then show "tiling_ok (resulting_cells m table ts)"
    by blast
  note S = scan_transitions_Some [OF scan]
  have empty: "ts_consumed empty_scan = []"
    by (simp add: empty_scan_def)
  have "ts_consumed s = consumed_ids ts" "distinct (ts_consumed s)"
    using S empty by (metis append_Nil, metis distinct.simps(1))
  then show "distinct (consumed_ids ts)"
    by metis
  show "\<forall>u \<in> set (consumed_ids ts). validOldCell m table u"
    using S by blast
qed

lemma validOldCell_node:
  assumes "validOldCell m table u"
  shows "u \<notin> set (mi_tombstoned m) \<and> (\<exists>node \<in> set (mi_nodes m). in_id node = u \<and>
    in_kind node = NK_TableCell \<and> in_parent node = table)"
  using assms find_node_Some by (fastforce simp: validOldCell_def EqualUuid_def split: option.splits)

lemma erase_ids_append: "erase_ids ids (xs @ ys) = erase_ids ids xs @ erase_ids ids ys"
  by (simp add: erase_ids_def)

text \<open>The outcome of a call whose checks and minting succeed.\<close>

lemma table_applied:
  assumes ok: "mutation_ok m" and check: "check_transitions m table ts = Some inserted"
    and mint: "mint_many (length (filter (\<lambda>t. is_new (tr_action t)) ts)) reserved [] m = (Inr minted, m1)"
  shows "\<exists>receipt' m'. apply_loop table ts minted (receipt, m1) = (True, receipt', m') \<and>
    table_cells table (erase_ids (mi_tombstoned m') (mi_nodes m')) = resulting_cells m table ts \<and>
    well_step m (m'\<lparr>mi_nodes := erase_ids (mi_tombstoned m') (mi_nodes m')\<rparr>)"
proof -
  note C = check_transitions_Some [OF check]
  obtain ctx where m1: "m1 = m\<lparr>mi_context := ctx, mi_allTime := mi_allTime m @ minted\<rparr>"
    and len: "length minted = length (filter (\<lambda>t. is_new (tr_action t)) ts)" and dist: "distinct minted"
    and from_m: "minted_from m minted m1"
    and fresh: "\<forall>u \<in> set minted. proper_id u \<and> u \<notin> set (mi_allTime m) \<and> u \<notin> set reserved \<and>
       u \<notin> in_id ` set (mi_nodes m) \<and> u \<notin> set (mi_tombstoned m) \<and> u \<notin> set (mi_reserved m)"
    using mint_many_Inr [OF mint] by (auto simp: minted_from_def)
  have live_ids: "distinct (map in_id (mi_nodes m))"
    using ok by (simp add: mutation_ok_def)
  have "appliable table ts minted m1"
    unfolding appliable_def m1 using C(1) validOldCell_node C(2) live_ids len dist fresh
    by (intro conjI ballI) auto
  note ids = appliable_ids [OF this] and loop = apply_loop_ok [OF this, of receipt]
  let ?new = "new_nodes table ts minted"
  let ?nodes = "map (updated ts) (mi_nodes m) @ ?new"
  let ?tomb = "mi_tombstoned m @ removed_ids ts"
  let ?m' = "m1\<lparr>mi_nodes := ?nodes, mi_tombstoned := ?tomb, mi_clientIds := mi_clientIds m1 @ applied_clients ts\<rparr>"
  obtain receipt' where applied: "apply_loop table ts minted (receipt, m1) = (True, receipt', ?m')"
    using loop by (auto simp: m1)
  note N = new_nodes_props [OF len, of table]
  have removed_live: "set (removed_ids ts) \<subseteq> in_id ` set (mi_nodes m)"
    using ids removed_ids_consumed [of ts] by (auto simp: m1)
  have new_live: "in_id ` set ?new = set minted"
    using N(1) by (metis list.set_map)
  have "erase_ids ?tomb ?new = ?new"
  proof -
    have "in_id node \<notin> set ?tomb" if "node \<in> set ?new" for node
    proof -
      have "in_id node \<in> set minted"
        using that new_live by blast
      then have "in_id node \<notin> set (mi_tombstoned m)" "in_id node \<notin> in_id ` set (mi_nodes m)"
        using fresh by blast+
      then show ?thesis
        using removed_live by (simp only: set_append Un_iff) blast
    qed
    then show ?thesis
      by (simp add: erase_ids_def)
  qed
  moreover have "table_cells table ?new = map tr_after (filter (\<lambda>t. is_new (tr_action t)) ts)"
    using N(2,3) by (simp add: table_cells_def)
  ultimately have cells: "table_cells table (erase_ids ?tomb ?nodes) = resulting_cells m table ts"
    using table_cells_old [OF C(1), of table "mi_tombstoned m" "mi_nodes m"]
    unfolding resulting_cells_def erase_ids_append by (simp add: table_cells_def)
  let ?m2 = "m1\<lparr>mi_nodes := mi_nodes m1 @ ?new, mi_clientIds := mi_clientIds m1 @ applied_clients ts\<rparr>"
  have step2: "well_step m ?m2"
    by (rule well_step_append [OF ok from_m dist, where new = ?new]) (use fresh N(1) in simp_all)
  then have ok2: "mutation_ok ?m2"
    by (simp add: well_step_def)
  have "map in_id ?nodes = map in_id (mi_nodes ?m2)"
    by (simp add: m1 comp_def)
  moreover have "set (removed_ids ts) \<subseteq> in_id ` set (mi_nodes ?m2)"
    using removed_live by (auto simp: m1)
  moreover have "in_id ` set (mi_nodes ?m2) \<inter> set ?tomb = set (removed_ids ts)"
    using mutation_ok_alive [OF ok2] \<open>set (removed_ids ts) \<subseteq> in_id ` set (mi_nodes ?m2)\<close>
    unfolding m1 set_append by auto
  ultimately have "well_step ?m2 (?m'\<lparr>mi_nodes := erase_ids ?tomb ?nodes\<rparr>)"
    by (rule erase_well_step [OF ok2]) (simp_all add: m1)
  with step2 have "well_step m (?m'\<lparr>mi_nodes := erase_ids ?tomb ?nodes\<rparr>)"
    by (rule well_step_trans)
  with applied cells show ?thesis
    by (intro exI [of _ receipt'] exI [of _ ?m']) simp
qed

lemma Table_call:
  assumes ok: "mutation_ok m"
  shows "case Mutation_ApplyTableCellTransitions table ts receipt m of (done, receipt', m') \<Rightarrow>
    well_step m m' \<and>
    (if done then tiling_ok (table_cells table (mi_nodes m'))
     else mi_nodes m' = mi_nodes m \<and> mi_tombstoned m' = mi_tombstoned m \<and> receipt' = receipt)"
proof -
  define m0 where "m0 = m\<lparr>mi_lastResult := MR_InvalidInput\<rparr>"
  have from0: "well_step m0 m' = well_step m m'" for m'
    by (rule well_step_from) (simp_all add: m0_def)
  have ok0: "mutation_ok m0" and step0: "well_step m m0"
    using ok invalid_well_step unfolding m0_def well_step_def by blast+
  have same0: "mi_nodes m0 = mi_nodes m" "mi_tombstoned m0 = mi_tombstoned m"
    by (simp_all add: m0_def)
  let ?reserved = "\<lambda>inserted. ReceiptReservedIds receipt @ inserted"
  let ?n = "length (filter (\<lambda>t. is_new (tr_action t)) ts)"
  consider (reject) "Mutation_ApplyTableCellTransitions table ts receipt m = (False, receipt, m0)"
    | (run) inserted res m1 where "check_transitions m0 table ts = Some inserted"
      "mint_many ?n (?reserved inserted) [] m0 = (res, m1)"
      "Mutation_ApplyTableCellTransitions table ts receipt m =
        (case res of Inl r \<Rightarrow> (False, receipt, m1\<lparr>mi_lastResult := r\<rparr>)
         | Inr minted \<Rightarrow> (case apply_loop table ts minted (receipt, m1) of
             (done, receipt, m) \<Rightarrow> if \<not> done then (False, receipt, m)
               else finish receipt (m\<lparr>mi_nodes := erase_ids (mi_tombstoned m) (mi_nodes m)\<rparr>)))"
  proof -
    assume reject: "Mutation_ApplyTableCellTransitions table ts receipt m = (False, receipt, m0) \<Longrightarrow> thesis"
      and run: "\<And>inserted res m1. check_transitions m0 table ts = Some inserted \<Longrightarrow>
        mint_many ?n (?reserved inserted) [] m0 = (res, m1) \<Longrightarrow>
        Mutation_ApplyTableCellTransitions table ts receipt m =
          (case res of Inl r \<Rightarrow> (False, receipt, m1\<lparr>mi_lastResult := r\<rparr>)
           | Inr minted \<Rightarrow> (case apply_loop table ts minted (receipt, m1) of
               (done, receipt, m) \<Rightarrow> if \<not> done then (False, receipt, m)
                 else finish receipt (m\<lparr>mi_nodes := erase_ids (mi_tombstoned m) (mi_nodes m)\<rparr>))) \<Longrightarrow> thesis"
    show thesis
    proof (cases "find_node (mi_nodes m0) table")
      case None
      then show thesis
        by (intro reject) (simp add: Mutation_ApplyTableCellTransitions_def m0_def)
    next
      case (Some node)
      show thesis
      proof (cases "in_kind node = NK_Table \<and> check_transitions m0 table ts \<noteq> None")
        case False
        with Some show thesis
          by (intro reject) (unfold Mutation_ApplyTableCellTransitions_def Let_def m0_def [symmetric], auto)
      next
        case True
        then obtain inserted where inserted: "check_transitions m0 table ts = Some inserted"
          by blast
        obtain res m1 where mint: "mint_many ?n (?reserved inserted) [] m0 = (res, m1)"
          by fastforce
        show thesis
          by (rule run [OF inserted mint])
            (use Some True inserted mint in \<open>simp add: Mutation_ApplyTableCellTransitions_def m0_def [symmetric] split: sum.split\<close>)
      qed
    qed
  qed
  then show ?thesis
  proof cases
    case reject
    with step0 same0 show ?thesis by simp
  next
    case run
    show ?thesis
    proof (cases res)
      case (Inl r)
      then obtain us where "minted_from m0 us m1"
        using run(2) mint_many_Inl by blast
      with minted_from_well_step [OF ok0] have "well_step m0 (m1\<lparr>mi_lastResult := r\<rparr>)"
        "mi_nodes m1 = mi_nodes m0" "mi_tombstoned m1 = mi_tombstoned m0"
        by (auto simp: minted_from_def)
      with run(3) Inl from0 same0 show ?thesis by simp
    next
      case (Inr minted)
      obtain receipt' m' where applied: "apply_loop table ts minted (receipt, m1) = (True, receipt', m')"
        and cells: "table_cells table (erase_ids (mi_tombstoned m') (mi_nodes m')) = resulting_cells m0 table ts"
        and step: "well_step m0 (m'\<lparr>mi_nodes := erase_ids (mi_tombstoned m') (mi_nodes m')\<rparr>)"
        using table_applied [OF ok0 run(1) run(2) [unfolded Inr], of receipt] by blast
      let ?m' = "m'\<lparr>mi_nodes := erase_ids (mi_tombstoned m') (mi_nodes m')\<rparr>"
      obtain a r where F: "finish receipt' ?m' = (True, receipt', ?m'\<lparr>mi_receiptIds := r, mi_allTime := a,
          mi_lastResult := MR_Applied\<rparr>)"
        by (rule finish_state)
      have "well_step m (snd (snd (finish receipt' ?m')))"
        using finish_well_step [OF step] from0 by blast
      moreover have "tiling_ok (table_cells table (erase_ids (mi_tombstoned m') (mi_nodes m')))"
        unfolding cells by (rule check_transitions_Some(3) [OF run(1)])
      ultimately show ?thesis
        using run(3) Inr applied F by simp
    qed
  qed
qed

end
