(* ===== verification/MutationProperties.thy ===== *)
theory MutationProperties
  imports MutationTable
begin

section \<open>Properties of MutationIdentity\<close>

text \<open>
  The object as a transition system over all its public operations, its invariant, and the
  effect of the subtree operations on the tree: \<open>IsDescendant\<close> is the ancestor relation, a
  move keeps the nodes a forest, a deletion removes a subtree and leaves no orphan, a coalesce
  hands the children of the absorbed nodes to the survivor.
\<close>

subsection \<open>The transition system\<close>

inductive mutation_step :: "'c MutationIdentity \<Rightarrow> 'c MutationIdentity \<Rightarrow> bool" where
  seed: "mutation_step m (snd (Mutation_Seed nodes m))"
| reserve: "mutation_step m (snd (Mutation_ReserveIdentityIds ids m))"
| insert_node: "mutation_step m (snd (snd (Mutation_Insert client parent kind receipt m)))"
| split_node: "mutation_step m (snd (snd (Mutation_Split original pieceCount receipt m)))"
| coalesce: "mutation_step m (snd (snd (Mutation_Coalesce ids receipt m)))"
| move: "mutation_step m (snd (snd (Mutation_MoveSubtree root newParent receipt m)))"
| delete: "mutation_step m (snd (snd (Mutation_DeleteSubtree root receipt m)))"
| clone: "mutation_step m (snd (snd (Mutation_CloneSubtree root newParent receipt m)))"
| table_cells: "mutation_step m (snd (snd (Mutation_ApplyTableCellTransitions table ts receipt m)))"

inductive_cases mutation_stepE: "mutation_step m m'"

lemma Table_well_step:
  assumes "mutation_ok m"
  shows "well_step m (snd (snd (Mutation_ApplyTableCellTransitions table ts receipt m)))"
  using Table_call [OF assms, where table = table and ts = ts and receipt = receipt] by (auto split: prod.splits)

lemmas well_steps = Seed_well_step Reserve_well_step Insert_well_step Split_well_step
  Coalesce_well_step Move_well_step Delete_well_step Clone_well_step Table_well_step

lemma mutation_step_well:
  assumes "mutation_step m m'" "mutation_ok m"
  shows "well_step m m'"
  using assms by (induction rule: mutation_step.induct) (erule well_steps)+

lemma mutation_step_facts:
  assumes "mutation_ok m" "mutation_step m m'"
  shows "mutation_ok m'" "set (mi_allTime m) \<subseteq> set (mi_allTime m')"
    "mutation_live m' \<inter> set (mi_allTime m) \<subseteq> mutation_live m"
  using mutation_step_well [OF assms(2,1)] by (simp_all add: well_step_def)

lemma mutation_ok_sets:
  assumes "mutation_ok m"
  shows "mutation_live m \<subseteq> set (mi_allTime m)" "mutation_live m \<inter> set (mi_reserved m) = {}"
    "mutation_live m \<inter> set (mi_tombstoned m) = {}"
proof -
  have "mutation_live m \<subseteq> set (mi_allTime m) - set (mi_reserved m) - set (mi_tombstoned m)"
    using assms by (simp add: mutation_ok_def mutation_live_def)
  then show "mutation_live m \<subseteq> set (mi_allTime m)" "mutation_live m \<inter> set (mi_reserved m) = {}"
    "mutation_live m \<inter> set (mi_tombstoned m) = {}"
    by blast+
qed

interpretation mutation: identity_history mutation_ok mutation_live "\<lambda>m. set (mi_allTime m)" mutation_step
proof
  show "mutation_ok m \<Longrightarrow> mutation_live m \<subseteq> set (mi_allTime m)" for m :: "'a MutationIdentity"
    by (rule mutation_ok_sets)
qed (rule mutation_step_facts; assumption)+

lemma new_mutation_ok: "mutation_ok (new_mutation source ctx revision)"
  by (simp add: mutation_ok_def new_mutation_def)

lemma reachable_mutation_ok: "mutation_step\<^sup>*\<^sup>* (new_mutation source ctx revision) m \<Longrightarrow> mutation_ok m"
  by (erule mutation.steps_valid) (rule new_mutation_ok)

text \<open>Claim C9. After any sequence of calls, accepted or refused, the nodes have distinct
  version-4 identities, each recorded among all identities ever seen, and none of them is
  reserved for something else or tombstoned.\<close>

theorem mutation_invariant:
  assumes "mutation_step\<^sup>*\<^sup>* (new_mutation source ctx revision) m"
  shows "distinct (map in_id (mi_nodes m)) \<and> (\<forall>u \<in> mutation_live m. IsRfc4122V4 u) \<and>
    mutation_live m \<subseteq> set (mi_allTime m) \<and>
    mutation_live m \<inter> (set (mi_reserved m) \<union> set (mi_tombstoned m)) = {}"
proof -
  have ok: "mutation_ok m"
    by (rule reachable_mutation_ok [OF assms])
  then show ?thesis
    using mutation_ok_sets [OF ok] by (auto simp: mutation_ok_def mutation_live_def)
qed

text \<open>Claim C10. An identity that was ever recorded and is not the identity of a node (it was
  deleted, absorbed, reserved, or only a client's name) never becomes the identity of a node
  again, whatever calls follow; not even a new \<open>Seed\<close>, which clears the tombstones, revives
  it.\<close>

theorem mutation_never_reuses:
  assumes "mutation_step\<^sup>*\<^sup>* (new_mutation source ctx revision) m" "mutation_step\<^sup>*\<^sup>* m m'"
    and "u \<in> set (mi_allTime m)" "u \<notin> mutation_live m"
  shows "u \<notin> mutation_live m'"
  using mutation.retired_forever [OF assms(2) reachable_mutation_ok [OF assms(1)] assms(3,4)] by blast

text \<open>Claim C11. When \<open>ApplyTableCellTransitions\<close> succeeds, the cells of the table tile a
  rectangle of the grid without gap or overlap (although no cell is compared with the table's
  size, which is not stored); when it fails, for whatever reason and at whatever point, nodes,
  tombstones and receipt are as before.\<close>

theorem table_transitions_tile:
  assumes "mutation_step\<^sup>*\<^sup>* (new_mutation source ctx revision) m"
    and "Mutation_ApplyTableCellTransitions table ts receipt m = (applied, receipt', m')"
  shows "if applied
    then \<exists>rows columns. 1 \<le> rows \<and> 1 \<le> columns \<and> cells_tile (table_cells table (mi_nodes m')) rows columns
    else mi_nodes m' = mi_nodes m \<and> mi_tombstoned m' = mi_tombstoned m \<and> receipt' = receipt"
  using Table_call [OF reachable_mutation_ok [OF assms(1)], where table = table and ts = ts and receipt = receipt]
    assms(2) tiling_ok_tiles
  by auto

subsection \<open>The tree\<close>

definition parent_edges :: "IdentityNode list \<Rightarrow> (Uuid128 \<times> Uuid128) set" where
  "parent_edges nodes = {(in_id n, in_parent n) | n. n \<in> set nodes \<and> in_parent n \<in> in_id ` set nodes}"

lemma parent_edges_image: "parent_edges nodes = (\<lambda>n. (in_id n, in_parent n)) ` {n \<in> set nodes. in_parent n \<in> in_id ` set nodes}"
  by (auto simp: parent_edges_def)

lemma finite_parent_edges [simp]: "finite (parent_edges nodes)"
  by (simp add: parent_edges_image)

lemma card_parent_edges: "card (parent_edges nodes) \<le> length nodes"
proof -
  have "card (parent_edges nodes) \<le> card {n \<in> set nodes. in_parent n \<in> in_id ` set nodes}"
    unfolding parent_edges_image by (rule card_image_le) simp
  also have "\<dots> \<le> card (set nodes)"
    by (rule card_mono) auto
  also have "\<dots> \<le> length nodes"
    by (rule card_length)
  finally show ?thesis .
qed

lemma parent_edge_iff:
  assumes "distinct (map in_id nodes)" "n \<in> set nodes"
  shows "(in_id n, p) \<in> parent_edges nodes \<longleftrightarrow> p = in_parent n \<and> in_parent n \<in> in_id ` set nodes"
  using assms by (auto simp: parent_edges_def distinct_map inj_on_def)

lemma ancestor_walk_iff:
  assumes "distinct (map in_id nodes)" "n \<in> set nodes"
  shows "ancestor_walk k nodes (Some n) a \<longleftrightarrow> (\<exists>i < k. (in_id n, a) \<in> parent_edges nodes ^^ i)"
  using assms(2)
proof (induction k arbitrary: n)
  case (Suc k)
  have step: "(\<exists>i < Suc k. (in_id n, a) \<in> parent_edges nodes ^^ i) \<longleftrightarrow>
      in_id n = a \<or> (\<exists>i < k. (in_id n, a) \<in> parent_edges nodes O parent_edges nodes ^^ i)"
    unfolding Ex_less_Suc2 relpow.simps(1) relpow_commute [symmetric] relpow.simps(2) by simp
  show ?case
  proof (cases "find_node nodes (in_parent n)")
    case None
    then have "in_parent n \<notin> in_id ` set nodes"
      by (simp add: find_node_None)
    then have "(in_id n, p) \<notin> parent_edges nodes" for p
      using parent_edge_iff [OF assms(1) Suc.prems] by simp
    with None step show ?thesis
      by (auto simp: EqualUuid_def)
  next
    case (Some p)
    then have p: "p \<in> set nodes" "in_id p = in_parent n"
      using find_node_Some by blast+
    then have "in_parent n \<in> in_id ` set nodes"
      by (metis image_eqI)
    then have edge: "(in_id n, q) \<in> parent_edges nodes \<longleftrightarrow> q = in_id p" for q
      using parent_edge_iff [OF assms(1) Suc.prems] p(2) by simp
    have "(in_id n, a) \<in> parent_edges nodes O r \<longleftrightarrow> (in_id p, a) \<in> r" for r
      by (simp add: relcomp_unfold edge)
    with Suc.IH [OF p(1)] Some step show ?thesis
      by (simp add: EqualUuid_def)
  qed
qed simp

lemma IsDescendant_iff:
  assumes "distinct (map in_id nodes)"
  shows "IsDescendant nodes u a \<longleftrightarrow> u \<in> in_id ` set nodes \<and> (u, a) \<in> (parent_edges nodes)\<^sup>*"
proof (cases "find_node nodes u")
  case None
  then have "u \<notin> in_id ` set nodes"
    using find_node_None by blast
  with None show ?thesis
    by (simp add: IsDescendant_def)
next
  case (Some n)
  then have n: "n \<in> set nodes" "in_id n = u"
    using find_node_Some by blast+
  have "(u, a) \<in> (parent_edges nodes)\<^sup>* \<longleftrightarrow> (\<exists>i < length nodes + 1. (u, a) \<in> parent_edges nodes ^^ i)"
  proof
    assume "(u, a) \<in> (parent_edges nodes)\<^sup>*"
    then obtain i where "i \<le> card (parent_edges nodes)" "(u, a) \<in> parent_edges nodes ^^ i"
      unfolding rtrancl_finite_eq_relpow [OF finite_parent_edges] by blast
    then show "\<exists>i < length nodes + 1. (u, a) \<in> parent_edges nodes ^^ i"
      using card_parent_edges [of nodes] by (intro exI [of _ i]) simp
  qed (use relpow_imp_rtrancl in blast)
  with Some n ancestor_walk_iff [OF assms n(1)] show ?thesis
    unfolding IsDescendant_def by auto
qed

text \<open>\<open>IsDescendant\<close> decides the ancestor relation: the bound of its loop, one more
  round than there are nodes, always suffices, even when the parents form a cycle.\<close>

lemma IsDescendant_ancestor:
  assumes "mutation_step\<^sup>*\<^sup>* (new_mutation source ctx revision) m"
  shows "IsDescendant (mi_nodes m) u a \<longleftrightarrow>
    u \<in> mutation_live m \<and> (u, a) \<in> (parent_edges (mi_nodes m))\<^sup>*"
  using IsDescendant_iff reachable_mutation_ok [OF assms]
  unfolding mutation_ok_def mutation_live_def by blast

definition forest :: "IdentityNode list \<Rightarrow> bool" where
  "forest nodes \<longleftrightarrow> acyclic (parent_edges nodes)"

lemma set_parent_map:
  "distinct (map in_id nodes) \<Longrightarrow>
   set_parent u p nodes = map (\<lambda>n. if in_id n = u then n\<lparr>in_parent := p\<rparr> else n) nodes"
proof (induction nodes)
  case (Cons node nodes)
  have "in_id node \<notin> in_id ` set nodes"
    using Cons.prems by simp
  then have "in_id n \<noteq> in_id node" if "n \<in> set nodes" for n
    using that by (metis image_eqI)
  then have "map (\<lambda>n. if in_id n = u then n\<lparr>in_parent := p\<rparr> else n) nodes = nodes" if "in_id node = u"
    using that by (intro map_idI) simp
  with Cons show ?case
    by (simp add: EqualUuid_def)
qed simp

lemma parent_edges_set_parent:
  assumes "distinct (map in_id nodes)"
  shows "parent_edges (set_parent u p nodes) \<subseteq> insert (u, p) (parent_edges nodes)"
  unfolding parent_edges_def in_id_set_parent set_parent_map [OF assms] by (auto split: if_splits)

text \<open>Claim C12. \<open>MoveSubtree\<close> accepts a move exactly when both ends exist and the new parent
  is not the root of the moved subtree or below it; it then changes the parent of that root and
  nothing else in the tree, and a forest stays a forest.\<close>

theorem move_keeps_forest:
  assumes "mutation_step\<^sup>*\<^sup>* (new_mutation source ctx revision) m"
    and "Mutation_MoveSubtree root newParent receipt m = (moved, receipt', m')"
  shows "(moved \<longleftrightarrow> root \<in> mutation_live m \<and> newParent \<in> mutation_live m \<and>
      (newParent, root) \<notin> (parent_edges (mi_nodes m))\<^sup>*) \<and>
    mi_nodes m' = (if moved
      then map (\<lambda>n. if in_id n = root then n\<lparr>in_parent := newParent\<rparr> else n) (mi_nodes m) else mi_nodes m) \<and>
    (forest (mi_nodes m) \<longrightarrow> forest (mi_nodes m'))"
proof -
  have dist: "distinct (map in_id (mi_nodes m))"
    using reachable_mutation_ok [OF assms(1)] by (simp add: mutation_ok_def)
  note D = IsDescendant_iff [OF dist, of newParent root]
  show ?thesis
  proof (cases "root \<in> mutation_live m \<and> newParent \<in> mutation_live m \<and>
      (newParent, root) \<notin> (parent_edges (mi_nodes m))\<^sup>*")
    case True
    then have accept: "\<not> (find_node (mi_nodes m) root = None \<or> find_node (mi_nodes m) newParent = None \<or>
        IsDescendant (mi_nodes m) newParent root)"
      using D by (simp add: find_node_None mutation_live_def)
    let ?nodes = "set_parent root newParent (mi_nodes m)"
    define receipt1 where "receipt1 =
      fold (\<lambda>node. push_remap (Remap (in_id node) (Some (in_id node)) RD_Retained RR_Move)) (subtree ?nodes root) receipt"
    obtain a r where F: "finish receipt1 (m\<lparr>mi_lastResult := MR_InvalidInput, mi_nodes := ?nodes\<rparr>) =
      (True, receipt1, m\<lparr>mi_lastResult := MR_InvalidInput, mi_nodes := ?nodes, mi_receiptIds := r,
         mi_allTime := a, mi_lastResult := MR_Applied\<rparr>)"
      by (rule finish_state)
    have "moved" "mi_nodes m' = ?nodes"
      using assms(2) accept F unfolding Mutation_MoveSubtree_def Let_def receipt1_def by auto
    moreover have "forest ?nodes" if "forest (mi_nodes m)"
      using acyclic_subset [OF _ parent_edges_set_parent [OF dist]] that True
      unfolding forest_def acyclic_insert by blast
    ultimately show ?thesis
      using True set_parent_map [OF dist] by simp
  next
    case False
    then have "find_node (mi_nodes m) root = None \<or> find_node (mi_nodes m) newParent = None \<or>
        IsDescendant (mi_nodes m) newParent root"
      using D by (auto simp: find_node_None mutation_live_def)
    then have "\<not> moved" "mi_nodes m' = mi_nodes m"
      using assms(2) unfolding Mutation_MoveSubtree_def Let_def by auto
    with False show ?thesis by simp
  qed
qed

lemma Delete_result:
  assumes ok: "mutation_ok m" and False: "find_node (mi_nodes m) root \<noteq> None"
    and result: "Mutation_DeleteSubtree root receipt m = (deleted, receipt', m')"
  shows "deleted" "mi_nodes m' = erase_ids (map in_id (subtree (mi_nodes m) root)) (mi_nodes m)"
    "mi_tombstoned m' = mi_tombstoned m @ map in_id (subtree (mi_nodes m) root)"
proof -
  let ?removed = "map in_id (subtree (mi_nodes m) root)"
  obtain receipt1 where "Mutation_DeleteSubtree root receipt m = finish receipt1
      (m\<lparr>mi_lastResult := MR_InvalidInput, mi_tombstoned := mi_tombstoned m @ ?removed,
         mi_nodes := erase_ids ?removed (mi_nodes m)\<rparr>)"
    using Delete_state [OF ok False] by blast
  moreover obtain a r where "finish receipt1
      (m\<lparr>mi_lastResult := MR_InvalidInput, mi_tombstoned := mi_tombstoned m @ ?removed,
         mi_nodes := erase_ids ?removed (mi_nodes m)\<rparr>) = (True, receipt1,
      m\<lparr>mi_lastResult := MR_InvalidInput, mi_tombstoned := mi_tombstoned m @ ?removed,
         mi_nodes := erase_ids ?removed (mi_nodes m), mi_receiptIds := r, mi_allTime := a,
         mi_lastResult := MR_Applied\<rparr>)"
    by (rule finish_state)
  ultimately show "deleted" "mi_nodes m' = erase_ids ?removed (mi_nodes m)"
    "mi_tombstoned m' = mi_tombstoned m @ ?removed"
    using result by auto
qed

text \<open>\<open>DeleteSubtree\<close> removes and tombstones exactly the nodes below the root, the
  root included; every node that is left keeps its parent if it had one.\<close>

lemma delete_removes_subtree:
  assumes "mutation_step\<^sup>*\<^sup>* (new_mutation source ctx revision) m"
    and "Mutation_DeleteSubtree root receipt m = (deleted, receipt', m')"
  shows "(deleted \<longleftrightarrow> root \<in> mutation_live m) \<and>
    (if deleted then
       mi_nodes m' = filter (\<lambda>n. (in_id n, root) \<notin> (parent_edges (mi_nodes m))\<^sup>*) (mi_nodes m) \<and>
       set (mi_tombstoned m') = set (mi_tombstoned m) \<union> (mutation_live m - mutation_live m') \<and>
       (\<forall>n \<in> set (mi_nodes m'). in_parent n \<in> mutation_live m \<longrightarrow> in_parent n \<in> mutation_live m')
     else mi_nodes m' = mi_nodes m \<and> mi_tombstoned m' = mi_tombstoned m)"
proof (cases "find_node (mi_nodes m) root = None")
  case True
  with assms(2) show ?thesis
    by (auto simp: Mutation_DeleteSubtree_def find_node_None mutation_live_def)
next
  case False
  have ok: "mutation_ok m"
    by (rule reachable_mutation_ok [OF assms(1)])
  then have dist: "distinct (map in_id (mi_nodes m))"
    by (simp add: mutation_ok_def)
  let ?E = "parent_edges (mi_nodes m)"
  let ?removed = "map in_id (subtree (mi_nodes m) root)"
  note result = Delete_result [OF ok False assms(2)]
  have removed: "set ?removed = {u \<in> mutation_live m. (u, root) \<in> ?E\<^sup>*}"
    using IsDescendant_iff [OF dist] by (auto simp: subtree_def mutation_live_def)
  have nodes: "mi_nodes m' = filter (\<lambda>n. (in_id n, root) \<notin> ?E\<^sup>*) (mi_nodes m)"
    unfolding result(2) erase_ids_def ContainsId_iff removed
    by (rule filter_cong) (auto simp: mutation_live_def)
  then have live: "mutation_live m' = {u \<in> mutation_live m. (u, root) \<notin> ?E\<^sup>*}"
    by (auto simp: mutation_live_def)
  have "in_parent n \<in> mutation_live m'" if "n \<in> set (mi_nodes m')" "in_parent n \<in> mutation_live m" for n
  proof -
    have n: "n \<in> set (mi_nodes m)" "(in_id n, root) \<notin> ?E\<^sup>*"
      using that(1) nodes by auto
    have "(in_id n, in_parent n) \<in> ?E"
      using parent_edge_iff [OF dist n(1)] that(2) by (simp add: mutation_live_def)
    with n(2) have "(in_parent n, root) \<notin> ?E\<^sup>*"
      by (meson converse_rtrancl_into_rtrancl)
    with that(2) live show ?thesis by blast
  qed
  moreover have "root \<in> mutation_live m"
    using False by (simp add: find_node_None mutation_live_def)
  moreover have "set (mi_tombstoned m') = set (mi_tombstoned m) \<union> (mutation_live m - mutation_live m')"
    unfolding result(3) set_append removed live by blast
  ultimately show ?thesis
    using result(1) nodes by simp
qed

text \<open>\<open>Coalesce\<close> succeeds only on two or more sibling paragraphs (or sibling runs);
  it keeps the first, tombstones and removes exactly the others, and every child of an absorbed
  paragraph becomes a child of the survivor.\<close>

lemma coalesce_adopts_children:
  assumes "mutation_step\<^sup>*\<^sup>* (new_mutation source ctx revision) m"
    and "Mutation_Coalesce ids receipt m = (True, receipt', m')"
  shows "\<exists>survivor absorbed kind parent. ids = survivor # absorbed \<and> absorbed \<noteq> [] \<and>
    kind \<in> {NK_Paragraph, NK_CharacterRun} \<and> coalescable m kind parent ids \<and>
    mi_tombstoned m' = mi_tombstoned m @ absorbed \<and>
    mutation_live m' = mutation_live m - set absorbed \<and> survivor \<in> mutation_live m' \<and>
    mi_nodes m' = erase_ids absorbed (reparented kind survivor absorbed (mi_nodes m))"
proof -
  have ok: "mutation_ok m"
    by (rule reachable_mutation_ok [OF assms(1)])
  let ?m = "m\<lparr>mi_lastResult := MR_InvalidInput\<rparr>"
  obtain survivor absorbed kind where ids: "ids = survivor # absorbed" "absorbed \<noteq> []"
    and check: "coalesce_check ?m None ids = Some kind"
    using assms(2) unfolding Mutation_Coalesce_def Let_def
    by (auto simp del: coalesce_check.simps split: list.splits option.splits)
  obtain parent where C: "coalescable ?m kind parent ids" "kind \<in> {NK_Paragraph, NK_CharacterRun}"
    using coalesce_check_Some check ids(1) by blast
  let ?nodes = "reparented kind survivor absorbed (mi_nodes m)"
  let ?erased = "erase_ids (mi_tombstoned m @ absorbed) ?nodes"
  obtain receipt1 where "Mutation_Coalesce ids receipt m = finish receipt1
      (?m\<lparr>mi_tombstoned := mi_tombstoned m @ absorbed, mi_nodes := ?erased\<rparr>)"
    using Coalesce_state [OF ok check ids] by blast
  moreover obtain a r where "finish receipt1 (?m\<lparr>mi_tombstoned := mi_tombstoned m @ absorbed, mi_nodes := ?erased\<rparr>) =
      (True, receipt1, ?m\<lparr>mi_tombstoned := mi_tombstoned m @ absorbed, mi_nodes := ?erased,
        mi_receiptIds := r, mi_allTime := a, mi_lastResult := MR_Applied\<rparr>)"
    by (rule finish_state)
  ultimately have result: "mi_tombstoned m' = mi_tombstoned m @ absorbed" "mi_nodes m' = ?erased"
    using assms(2) by auto
  have "map in_id ?nodes = map in_id (mi_nodes m)"
    by (simp add: reparented_def)
  then have live_nodes: "in_id ` set ?nodes = mutation_live m"
    unfolding mutation_live_def list.set_map [symmetric] by simp
  have "?erased = erase_ids absorbed ?nodes"
    unfolding erase_ids_def
  proof (rule filter_cong [OF refl])
    fix n assume "n \<in> set ?nodes"
    then have "in_id n \<notin> set (mi_tombstoned m)"
      using live_nodes mutation_ok_sets(3) [OF ok] by blast
    then show "(\<not> ContainsId (mi_tombstoned m @ absorbed) (in_id n)) = (\<not> ContainsId absorbed (in_id n))"
      by simp
  qed
  moreover have live: "mutation_live m' = mutation_live m - set absorbed"
    using live_nodes in_id_erase_ids [of absorbed ?nodes] calculation result(2)
    by (simp add: mutation_live_def)
  moreover have "survivor \<in> mutation_live m" "survivor \<notin> set absorbed"
    using C(1) ids(1) by (auto simp: coalescable_def mutation_live_def)
  moreover have "coalescable m kind parent ids"
    using C(1) by (simp add: coalescable_def)
  ultimately show ?thesis
    using ids C(2) result by (intro exI [of _ survivor] exI [of _ absorbed] exI [of _ kind] exI [of _ parent]) simp
qed

subsection \<open>A clone that loses its place\<close>

text \<open>
  \<open>CloneSubtree\<close> looks a clone's parent up among the mappings made so far. That is enough while
  a parent precedes its children in the list, but \<open>MoveSubtree\<close> does not reorder the list:
  after paragraph 5 has been moved below paragraph 6, cloning 6 attaches the clone of 5 to the
  original 6.
\<close>

definition node_uuid :: "u8 \<Rightarrow> Uuid128" where
  "node_uuid k = sample_uuid[15 := k]"

definition ticking_source :: "u8 UuidSource" where
  "ticking_source = InjectedFill (\<lambda>ctx buffer. (True, replicate 16 ctx, ctx + 1))"

definition sample_nodes :: "IdentityNode list" where
  "sample_nodes =
    [\<lparr>in_id = node_uuid 1, in_parent = zero_uuid, in_kind = NK_Document, in_cell = default_cell\<rparr>,
     \<lparr>in_id = node_uuid 2, in_parent = node_uuid 1, in_kind = NK_Table, in_cell = default_cell\<rparr>,
     \<lparr>in_id = node_uuid 3, in_parent = node_uuid 2, in_kind = NK_TableCell, in_cell = default_cell\<rparr>,
     \<lparr>in_id = node_uuid 4, in_parent = node_uuid 2, in_kind = NK_TableCell,
       in_cell = default_cell\<lparr>cc_column1 := 2\<rparr>\<rparr>,
     \<lparr>in_id = node_uuid 5, in_parent = node_uuid 1, in_kind = NK_Paragraph, in_cell = default_cell\<rparr>,
     \<lparr>in_id = node_uuid 6, in_parent = node_uuid 1, in_kind = NK_Paragraph, in_cell = default_cell\<rparr>,
     \<lparr>in_id = node_uuid 7, in_parent = node_uuid 6, in_kind = NK_CharacterRun, in_cell = default_cell\<rparr>]"

definition sample_mutation :: "u8 MutationIdentity" where
  "sample_mutation = snd (Mutation_Seed sample_nodes (new_mutation ticking_source 9 1))"

definition moved_mutation :: "u8 MutationIdentity" where
  "moved_mutation = snd (snd (Mutation_MoveSubtree (node_uuid 5) (node_uuid 6) empty_receipt sample_mutation))"

definition reordered_mutation :: "u8 MutationIdentity" where
  "reordered_mutation = snd (Mutation_Seed
    [\<lparr>in_id = node_uuid 1, in_parent = zero_uuid, in_kind = NK_Document, in_cell = default_cell\<rparr>,
     \<lparr>in_id = node_uuid 5, in_parent = node_uuid 6, in_kind = NK_Paragraph, in_cell = default_cell\<rparr>,
     \<lparr>in_id = node_uuid 6, in_parent = node_uuid 1, in_kind = NK_Paragraph, in_cell = default_cell\<rparr>]
    (new_mutation ticking_source 9 1))"

lemma clone_misplaces_child:
  "map in_parent (mi_nodes (snd (snd
     (Mutation_CloneSubtree (node_uuid 6) (node_uuid 1) empty_receipt reordered_mutation)))) =
   [zero_uuid, node_uuid 6, node_uuid 1, node_uuid 6, node_uuid 1]"
  by code_simp

lemma sample_reachable: "mutation_step\<^sup>*\<^sup>* (new_mutation ticking_source 9 1) sample_mutation"
  unfolding sample_mutation_def by (rule r_into_rtranclp) (rule mutation_step.seed)

definition sample_transitions :: "CellTransition list" where
  "sample_transitions =
    [\<lparr>tr_action = CA_Retain, tr_oldCell = node_uuid 3, tr_client = zero_uuid, tr_after = default_cell\<rparr>,
     \<lparr>tr_action = CA_Delete, tr_oldCell = node_uuid 4, tr_client = zero_uuid, tr_after = default_cell\<rparr>,
     \<lparr>tr_action = CA_Insert, tr_oldCell = zero_uuid, tr_client = node_uuid 99,
       tr_after = default_cell\<lparr>cc_column1 := 2, cc_columnSpan := 2\<rparr>\<rparr>]"

theorem mutation_invariant_witness:
  "node_uuid 7 \<in> mutation_live sample_mutation \<and>
   mutation_live sample_mutation \<inter> (set (mi_reserved sample_mutation) \<union> set (mi_tombstoned sample_mutation)) = {}"
proof -
  have "node_uuid 7 \<in> mutation_live sample_mutation"
    by code_simp
  with mutation_invariant [OF sample_reachable] show ?thesis by blast
qed

definition deleted_mutation :: "u8 MutationIdentity" where
  "deleted_mutation = snd (snd (Mutation_DeleteSubtree (node_uuid 6) empty_receipt sample_mutation))"

theorem mutation_never_reuses_witness:
  "node_uuid 7 \<notin> mutation_live (snd (Mutation_Seed sample_nodes deleted_mutation))"
proof -
  have "mutation_step sample_mutation deleted_mutation"
    unfolding deleted_mutation_def by (rule mutation_step.delete)
  with sample_reachable have reach: "mutation_step\<^sup>*\<^sup>* (new_mutation ticking_source 9 1) deleted_mutation"
    by (rule rtranclp.rtrancl_into_rtrancl)
  have "node_uuid 7 \<in> set (mi_allTime deleted_mutation)" "node_uuid 7 \<notin> mutation_live deleted_mutation"
    by code_simp+
  moreover have "mutation_step\<^sup>*\<^sup>* deleted_mutation (snd (Mutation_Seed sample_nodes deleted_mutation))"
    by (rule r_into_rtranclp) (rule mutation_step.seed)
  ultimately show ?thesis
    using mutation_never_reuses [OF reach] by blast
qed

theorem table_transitions_tile_witness:
  "\<exists>rows columns. 1 \<le> rows \<and> 1 \<le> columns \<and> cells_tile (table_cells (node_uuid 2) (mi_nodes
     (snd (snd (Mutation_ApplyTableCellTransitions (node_uuid 2) sample_transitions empty_receipt sample_mutation)))))
     rows columns"
proof -
  obtain applied receipt' m' where call:
    "Mutation_ApplyTableCellTransitions (node_uuid 2) sample_transitions empty_receipt sample_mutation =
      (applied, receipt', m')"
    by (metis prod_cases3)
  have "fst (Mutation_ApplyTableCellTransitions (node_uuid 2) sample_transitions empty_receipt sample_mutation)"
    by code_simp
  with call have applied by simp
  with table_transitions_tile [OF sample_reachable call] call show ?thesis
    by simp
qed

lemma IsDescendant_ancestor_witness: "(node_uuid 7, node_uuid 1) \<in> (parent_edges (mi_nodes sample_mutation))\<^sup>*"
proof -
  have "IsDescendant (mi_nodes sample_mutation) (node_uuid 7) (node_uuid 1)"
    by code_simp
  with IsDescendant_ancestor [OF sample_reachable] show ?thesis by blast
qed

theorem move_keeps_forest_witness:
  "mi_nodes moved_mutation =
   map (\<lambda>n. if in_id n = node_uuid 5 then n\<lparr>in_parent := node_uuid 6\<rparr> else n) (mi_nodes sample_mutation)"
proof -
  obtain moved receipt' m' where call:
    "Mutation_MoveSubtree (node_uuid 5) (node_uuid 6) empty_receipt sample_mutation = (moved, receipt', m')"
    by (metis prod_cases3)
  have "fst (Mutation_MoveSubtree (node_uuid 5) (node_uuid 6) empty_receipt sample_mutation)"
    by code_simp
  with call have moved by simp
  with move_keeps_forest [OF sample_reachable call] call show ?thesis
    by (simp add: moved_mutation_def)
qed

lemma delete_removes_subtree_witness:
  "set (mi_tombstoned deleted_mutation) =
   set (mi_tombstoned sample_mutation) \<union> (mutation_live sample_mutation - mutation_live deleted_mutation) \<and>
   node_uuid 7 \<in> set (mi_tombstoned deleted_mutation)"
proof -
  obtain deleted receipt' m' where call:
    "Mutation_DeleteSubtree (node_uuid 6) empty_receipt sample_mutation = (deleted, receipt', m')"
    by (metis prod_cases3)
  have "fst (Mutation_DeleteSubtree (node_uuid 6) empty_receipt sample_mutation)"
    and tomb: "node_uuid 7 \<in> set (mi_tombstoned deleted_mutation)"
    by code_simp+
  with call have deleted by simp
  with delete_removes_subtree [OF sample_reachable call] call tomb show ?thesis
    by (simp add: deleted_mutation_def)
qed

lemma coalesce_adopts_children_witness:
  "mutation_live (snd (snd (Mutation_Coalesce [node_uuid 5, node_uuid 6] empty_receipt sample_mutation))) =
   mutation_live sample_mutation - {node_uuid 6}"
proof -
  obtain done' receipt' m' where call:
    "Mutation_Coalesce [node_uuid 5, node_uuid 6] empty_receipt sample_mutation = (done', receipt', m')"
    by (metis prod_cases3)
  have "fst (Mutation_Coalesce [node_uuid 5, node_uuid 6] empty_receipt sample_mutation)"
    by code_simp
  with call have "done' = True" by simp
  with coalesce_adopts_children [OF sample_reachable] call show ?thesis
    by fastforce
qed

end
