(* ===== verification/Reconcile.thy ===== *)
theory Reconcile
  imports MutationIdentity GraphVersion "HOL-Library.Multiset"
begin

section \<open>Reconciling the children of a node (ReconcileChildren)\<close>

text \<open>
  After a new capture the children of a known node are matched with the children seen before.
  In the external mode a child keeps its identity when its key is unique on both sides, or when
  it fills the only gap of its partition; every other fresh child gets a new identity and every
  other old one a tombstone. In the reopen mode the two lists must agree position by position.
\<close>

subsection \<open>Data\<close>

datatype ReconcileMode = RM_External | RM_AuthorizedEqualRoot

record ReconcileCandidate =
  rcd_id :: Uuid128
  rcd_kind :: NodeKind
  rcd_ordinal :: u64
  rcd_fingerprint :: Sha256
  rcd_primaryKey :: wstring
  rcd_secondaryKey :: wstring
  rcd_partition :: u64
  rcd_topologyUnchanged :: bool
  rcd_canonicalPayload :: Sha256
  rcd_mappedAuthorityIds :: "Uuid128 list"

record ReconciledNode =
  rn_freshIndex :: nat
  rn_id :: Uuid128
  rn_retained :: bool

record ReconcileResult =
  rr_nodes :: "ReconciledNode list"
  rr_receipt :: IdentityReceipt

subsection \<open>Minting\<close>

text \<open>
  The codec's length-prefixed little-endian text, and the identity derived from the stable keys
  of a candidate. \<open>hash\<close> is the codec's \<open>DomainHash\<close>: SHA-256, computed by the operating
  system, over the domain and the bytes.
\<close>

definition codec_Utf16 :: "wstring \<Rightarrow> u8 list" where
  "codec_Utf16 s = bytes64 (of_nat (length s)) @ concat (map (\<lambda>c. bytes16 (word_of_int c)) s)"

definition reconcile_buffer :: "ReconcileCandidate \<Rightarrow> nat \<Rightarrow> u8 list" where
  "reconcile_buffer candidate attempt =
     bytes64 (of_nat attempt) @ bytes64 (word_of_int (int (NodeKind_code (rcd_kind candidate)))) @
     bytes64 (rcd_ordinal candidate) @ bytes64 (rcd_partition candidate) @
     codec_Utf16 (rcd_primaryKey candidate) @ codec_Utf16 (rcd_secondaryKey candidate)"

type_synonym domain_hash = "u8 list \<Rightarrow> u8 list \<Rightarrow> Sha256"

definition reconcile_domain :: "u8 list" where
  "reconcile_domain = map of_char ''HGN1-TODO18-RECONCILE-NODEID-V1''"

definition DeterministicReconcileNodeId :: "domain_hash \<Rightarrow> ReconcileCandidate \<Rightarrow> nat \<Rightarrow> Uuid128" where
  "DeterministicReconcileNodeId hash candidate attempt =
     stamp_version (take 16 (hash reconcile_domain (reconcile_buffer candidate attempt)))"

fun derive_attempts ::
  "domain_hash \<Rightarrow> ReconcileCandidate \<Rightarrow> Uuid128 list \<Rightarrow> nat list \<Rightarrow> Uuid128 option" where
  "derive_attempts hash candidate forbidden [] = None"
| "derive_attempts hash candidate forbidden (attempt # attempts) =
     (let value = DeterministicReconcileNodeId hash candidate attempt
      in if \<not> ContainsId forbidden value then Some value
         else derive_attempts hash candidate forbidden attempts)"

definition MintReconciledUuid ::
  "domain_hash \<Rightarrow> 'c UuidSource \<Rightarrow> 'c \<Rightarrow> ReconcileCandidate \<Rightarrow> Uuid128 list \<Rightarrow> Uuid128 option \<times> 'c" where
  "MintReconciledUuid hash source ctx candidate forbidden =
     (if \<not> UsesDefaultUuidSource source then
        (case MintDistinctUuid source ctx forbidden zero_uuid of
           (mint, u, ctx) \<Rightarrow> (if mint = Minted then Some u else None, ctx))
      else (derive_attempts hash candidate forbidden [0..<kUuidCollisionAttempts], ctx))"

subsection \<open>Reopening with an equal root\<close>

definition canonicalLess :: "ReconcileCandidate \<Rightarrow> ReconcileCandidate \<Rightarrow> bool" where
  "canonicalLess left right \<longleftrightarrow>
     (if rcd_partition left \<noteq> rcd_partition right then rcd_partition left < rcd_partition right
      else if rcd_kind left \<noteq> rcd_kind right
      then NodeKind_code (rcd_kind left) < NodeKind_code (rcd_kind right)
      else rcd_ordinal left < rcd_ordinal right)"

fun pair_authorities ::
  "Uuid128 list \<Rightarrow> Uuid128 list \<Rightarrow> Uuid128 list \<Rightarrow> Uuid128 list \<Rightarrow> Uuid128 list \<Rightarrow> Uuid128 list option" where
  "pair_authorities tombs pairs mapped (old # olds) (now # nows) =
     (if \<not> IsRfc4122V4 old \<or> \<not> EqualUuid old now \<or> ContainsId tombs old \<or> ContainsId pairs old then None
      else pair_authorities tombs (pairs @ [old]) (add_id old mapped) olds nows)"
| "pair_authorities tombs pairs mapped _ _ = Some mapped"

fun reopen_scan ::
  "Uuid128 list \<Rightarrow> (ReconcileCandidate \<times> ReconcileCandidate) option \<Rightarrow>
     (ReconcileCandidate \<times> ReconcileCandidate) list \<Rightarrow> Uuid128 list \<times> Uuid128 list \<times> Uuid128 list \<Rightarrow>
     (Uuid128 list \<times> Uuid128 list \<times> Uuid128 list) option" where
  "reopen_scan tombs previous [] s = Some s"
| "reopen_scan tombs previous ((old, now) # pairs) (oldIds, freshIds, mapped) =
     (if \<not> IsRfc4122V4 (rcd_id old) \<or> ContainsId tombs (rcd_id old) \<or> ContainsId oldIds (rcd_id old) \<or>
         \<not> IsRfc4122V4 (rcd_id now) \<or> ContainsId tombs (rcd_id now) \<or> ContainsId freshIds (rcd_id now) \<or>
         rcd_kind old \<noteq> rcd_kind now \<or> rcd_partition old \<noteq> rcd_partition now \<or>
         rcd_ordinal old \<noteq> rcd_ordinal now \<or>
         \<not> EqualHash (rcd_canonicalPayload old) (rcd_canonicalPayload now) \<or>
         length (rcd_mappedAuthorityIds old) \<noteq> length (rcd_mappedAuthorityIds now)
      then None
      else case pair_authorities tombs [] mapped (rcd_mappedAuthorityIds old) (rcd_mappedAuthorityIds now) of
             None \<Rightarrow> None
           | Some mapped \<Rightarrow>
               if (case previous of None \<Rightarrow> False
                   | Some (pold, pnow) \<Rightarrow> \<not> canonicalLess pold old \<or> \<not> canonicalLess pnow now)
               then None
               else reopen_scan tombs (Some (old, now)) pairs
                 (oldIds @ [rcd_id old], freshIds @ [rcd_id now], mapped))"

definition reconcile_reopen ::
  "Uuid128 \<Rightarrow> ReconcileCandidate list \<Rightarrow> ReconcileCandidate list \<Rightarrow> Uuid128 list \<Rightarrow> ReconcileResult option" where
  "reconcile_reopen mappedParent existing fresh tombs =
     (if length existing \<noteq> length fresh then None
      else case reopen_scan tombs None (zip existing fresh) ([], [], [mappedParent]) of
             None \<Rightarrow> None
           | Some (oldIds, freshIds, mapped) \<Rightarrow>
               if list_ex (\<lambda>u. ContainsId freshIds u \<or> ContainsId mapped u) oldIds \<or>
                  list_ex (\<lambda>u. ContainsId oldIds u \<or> ContainsId mapped u) freshIds
               then None
               else Some \<lparr>rr_nodes = map (\<lambda>i. \<lparr>rn_freshIndex = i, rn_id = rcd_id (existing ! i), rn_retained = True\<rparr>)
                            [0..<length existing],
                          rr_receipt = fold (\<lambda>old. push_remap (Remap (rcd_id old) (Some (rcd_id old))
                            RD_Retained RR_SaveReopenEqual)) existing empty_receipt\<rparr>)"

subsection \<open>External changes\<close>

definition keyEqual :: "ReconcileCandidate \<Rightarrow> ReconcileCandidate \<Rightarrow> bool" where
  "keyEqual old now \<longleftrightarrow>
     (if rcd_kind old \<noteq> rcd_kind now \<or> rcd_partition old \<noteq> rcd_partition now then False
      else if IsControlKind (rcd_kind old) \<or> rcd_kind old = NK_Story then
        rcd_primaryKey old = rcd_primaryKey now \<and> rcd_secondaryKey old = rcd_secondaryKey now
      else if rcd_kind old = NK_TableCell then
        (if rcd_primaryKey old \<noteq> [] \<and> rcd_primaryKey old = rcd_primaryKey now then True
         else rcd_topologyUnchanged old \<and> rcd_topologyUnchanged now \<and>
           rcd_secondaryKey old \<noteq> [] \<and> rcd_secondaryKey old = rcd_secondaryKey now)
      else EqualHash (rcd_fingerprint old) (rcd_fingerprint now))"

record ReconcileState =
  rs_oldUsed :: "bool list"
  rs_freshUsed :: "bool list"
  rs_oldAmbiguous :: "bool list"
  rs_freshAmbiguous :: "bool list"
  rs_nodes :: "ReconciledNode list"
  rs_receipt :: IdentityReceipt

definition retain_pair ::
  "ReconcileCandidate list \<Rightarrow> nat \<Rightarrow> nat \<Rightarrow> ReconcileState \<Rightarrow> ReconcileState" where
  "retain_pair existing oldIndex freshIndex s =
     (let u = rcd_id (existing ! oldIndex)
      in s\<lparr>rs_oldUsed := (rs_oldUsed s)[oldIndex := True],
           rs_freshUsed := (rs_freshUsed s)[freshIndex := True],
           rs_nodes := rs_nodes s @ [\<lparr>rn_freshIndex = freshIndex, rn_id = u, rn_retained = True\<rparr>],
           rs_receipt := push_remap (Remap u (Some u) RD_Retained RR_ExternalUnique) (rs_receipt s)\<rparr>)"

definition match_fresh ::
  "ReconcileCandidate list \<Rightarrow> ReconcileCandidate list \<Rightarrow> nat \<Rightarrow> ReconcileState \<Rightarrow> ReconcileState" where
  "match_fresh existing fresh freshIndex s =
     (let now = fresh ! freshIndex;
          oldMatches = filter (\<lambda>oldIndex. keyEqual (existing ! oldIndex) now) [0..<length existing];
          probe = (if existing = [] then now else if oldMatches = [] then now else existing ! hd oldMatches);
          freshCount = length (filter (keyEqual probe) fresh)
      in if length oldMatches = 1 \<and> freshCount = 1 \<and> \<not> rs_oldUsed s ! hd oldMatches then
           retain_pair existing (hd oldMatches) freshIndex s
         else if length oldMatches > 1 \<or> freshCount > 1 then
           s\<lparr>rs_freshAmbiguous := (rs_freshAmbiguous s)[freshIndex := True],
             rs_oldAmbiguous := fold (\<lambda>oldIndex flags. flags[oldIndex := True]) oldMatches (rs_oldAmbiguous s)\<rparr>
         else s)"

definition is_text_kind :: "NodeKind \<Rightarrow> bool" where
  "is_text_kind kind \<longleftrightarrow> kind = NK_Paragraph \<or> kind = NK_CharacterRun"

definition gap_of :: "bool list \<Rightarrow> bool list \<Rightarrow> ReconcileCandidate list \<Rightarrow> u64 \<Rightarrow> nat list" where
  "gap_of used ambiguous candidates part =
     filter (\<lambda>i. \<not> used ! i \<and> \<not> ambiguous ! i \<and> rcd_partition (candidates ! i) = part \<and>
        is_text_kind (rcd_kind (candidates ! i))) [0..<length candidates]"

definition fill_gap ::
  "ReconcileCandidate list \<Rightarrow> ReconcileCandidate list \<Rightarrow> u64 \<Rightarrow> ReconcileState \<Rightarrow> ReconcileState" where
  "fill_gap existing fresh part s =
     (let oldGap = gap_of (rs_oldUsed s) (rs_oldAmbiguous s) existing part;
          freshGap = gap_of (rs_freshUsed s) (rs_freshAmbiguous s) fresh part
      in if length oldGap = 1 \<and> length freshGap = 1 \<and>
            rcd_kind (existing ! hd oldGap) = rcd_kind (fresh ! hd freshGap)
         then retain_pair existing (hd oldGap) (hd freshGap) s else s)"

definition partitions_of :: "ReconcileCandidate list \<Rightarrow> ReconcileCandidate list \<Rightarrow> u64 list" where
  "partitions_of existing fresh = remdups_adj (sort (map rcd_partition existing @ map rcd_partition fresh))"

fun mint_fresh ::
  "domain_hash \<Rightarrow> 'c UuidSource \<Rightarrow> Uuid128 list \<Rightarrow> ReconcileCandidate list \<Rightarrow> nat list \<Rightarrow>
     ReconcileState \<Rightarrow> 'c \<Rightarrow> ReconcileState option \<times> 'c" where
  "mint_fresh hash source forbidden fresh [] s ctx = (Some s, ctx)"
| "mint_fresh hash source forbidden fresh (index # rest) s ctx =
     (if rs_freshUsed s ! index then mint_fresh hash source forbidden fresh rest s ctx
      else case MintReconciledUuid hash source ctx (fresh ! index) (forbidden @ map rn_id (rs_nodes s)) of
             (None, ctx) \<Rightarrow> (None, ctx)
           | (Some u, ctx) \<Rightarrow> mint_fresh hash source forbidden fresh rest
               (s\<lparr>rs_nodes := rs_nodes s @ [\<lparr>rn_freshIndex = index, rn_id = u, rn_retained = False\<rparr>],
                  rs_receipt := push_remap (Remap u (Some u) RD_New
                    (if rs_freshAmbiguous s ! index then RR_Ambiguous else RR_ExternalUnique)) (rs_receipt s)\<rparr>) ctx)"

definition bury_old ::
  "ReconcileCandidate list \<Rightarrow> u64 \<Rightarrow> nat \<Rightarrow> ReconcileState \<Rightarrow> ReconcileState" where
  "bury_old existing semanticRevision index s =
     (if rs_oldUsed s ! index then s
      else let u = rcd_id (existing ! index);
               receipt = (rs_receipt s)\<lparr>rc_tombstones := rc_tombstones (rs_receipt s) @
                 [\<lparr>te_node = u, te_semanticRevision = semanticRevision, te_reason = TR_ExternalUnmatched\<rparr>]\<rparr>
           in s\<lparr>rs_receipt := push_remap (Remap u None
                (if rs_oldAmbiguous s ! index then RD_Ambiguous else RD_Tombstoned)
                (if rs_oldAmbiguous s ! index then RR_Ambiguous else RR_Delete)) receipt\<rparr>)"

definition reconcile_external ::
  "domain_hash \<Rightarrow> Uuid128 \<Rightarrow> ReconcileCandidate list \<Rightarrow> ReconcileCandidate list \<Rightarrow> 'c UuidSource \<Rightarrow>
     Uuid128 list \<Rightarrow> u64 \<Rightarrow> 'c \<Rightarrow> ReconcileResult option \<times> 'c" where
  "reconcile_external hash mappedParent existing fresh source tombs semanticRevision ctx =
     (let s0 = \<lparr>rs_oldUsed = replicate (length existing) False, rs_freshUsed = replicate (length fresh) False,
                rs_oldAmbiguous = replicate (length existing) False,
                rs_freshAmbiguous = replicate (length fresh) False,
                rs_nodes = [], rs_receipt = empty_receipt\<rparr>;
          s1 = fold (match_fresh existing fresh) [0..<length fresh] s0;
          s2 = fold (fill_gap existing fresh) (partitions_of existing fresh) s1
      in case mint_fresh hash source (tombs @ [mappedParent] @ map rcd_id existing) fresh
                [0..<length fresh] s2 ctx of
           (None, ctx) \<Rightarrow> (None, ctx)
         | (Some s3, ctx) \<Rightarrow>
             let s4 = fold (bury_old existing semanticRevision) [0..<length existing] s3
             in (Some \<lparr>rr_nodes = sort_key rn_freshIndex (rs_nodes s4), rr_receipt = rs_receipt s4\<rparr>, ctx))"

definition ReconcileChildren ::
  "domain_hash \<Rightarrow> Uuid128 \<Rightarrow> ReconcileCandidate list \<Rightarrow> ReconcileCandidate list \<Rightarrow> ReconcileMode \<Rightarrow>
     'c UuidSource \<Rightarrow> Uuid128 list \<Rightarrow> u64 \<Rightarrow> 'c \<Rightarrow> ReconcileResult option \<times> 'c" where
  "ReconcileChildren hash mappedParent existing fresh mode source tombs semanticRevision ctx =
     (if \<not> IsRfc4122V4 mappedParent then (None, ctx)
      else if mode = RM_AuthorizedEqualRoot then (reconcile_reopen mappedParent existing fresh tombs, ctx)
      else reconcile_external hash mappedParent existing fresh source tombs semanticRevision ctx)"

subsection \<open>What the phases establish\<close>

text \<open>The pairs of fresh and old positions matched so far, and the flags that record them.\<close>

definition matched ::
  "ReconcileCandidate list \<Rightarrow> ReconcileCandidate list \<Rightarrow> (nat \<times> nat) list \<Rightarrow> ReconcileState \<Rightarrow> bool" where
  "matched existing fresh ms s \<longleftrightarrow>
     length (rs_oldUsed s) = length existing \<and> length (rs_freshUsed s) = length fresh \<and>
     rs_nodes s = map (\<lambda>(f, k). \<lparr>rn_freshIndex = f, rn_id = rcd_id (existing ! k), rn_retained = True\<rparr>) ms \<and>
     distinct (map fst ms) \<and> distinct (map snd ms) \<and>
     (\<forall>(f, k) \<in> set ms. f < length fresh \<and> k < length existing \<and>
        rcd_kind (existing ! k) = rcd_kind (fresh ! f) \<and>
        rcd_partition (existing ! k) = rcd_partition (fresh ! f)) \<and>
     (\<forall>k < length existing. rs_oldUsed s ! k \<longleftrightarrow> k \<in> snd ` set ms) \<and>
     (\<forall>f < length fresh. rs_freshUsed s ! f \<longleftrightarrow> f \<in> fst ` set ms) \<and>
     rc_tombstones (rs_receipt s) = []"

lemma matched_retain:
  assumes m: "matched existing fresh ms s"
    and "k < length existing" "f < length fresh" "\<not> rs_oldUsed s ! k" "\<not> rs_freshUsed s ! f"
    and "rcd_kind (existing ! k) = rcd_kind (fresh ! f)" "rcd_partition (existing ! k) = rcd_partition (fresh ! f)"
  shows "matched existing fresh (ms @ [(f, k)]) (retain_pair existing k f s)"
proof -
  have "k \<notin> snd ` set ms" "f \<notin> fst ` set ms"
    using assms unfolding matched_def by blast+
  then show ?thesis
    using assms unfolding matched_def retain_pair_def
    by (auto simp: Let_def nth_list_update push_remap_def)
qed

lemma matched_ambiguous:
  "matched existing fresh ms (s\<lparr>rs_freshAmbiguous := a, rs_oldAmbiguous := b\<rparr>) = matched existing fresh ms s"
  by (simp add: matched_def)

lemma retain_pair_freshUsed: "rs_freshUsed (retain_pair existing k f s) = (rs_freshUsed s)[f := True]"
  by (simp add: retain_pair_def Let_def)

lemma filter_hd:
  assumes "length (filter P xs) = 1"
  shows "hd (filter P xs) \<in> set xs \<and> P (hd (filter P xs))"
proof -
  have "hd (filter P xs) \<in> set (filter P xs)"
    using assms by (intro hd_in_set) auto
  then show ?thesis by simp
qed

lemma keyEqual_kind:
  assumes "keyEqual old now"
  shows "rcd_kind old = rcd_kind now" "rcd_partition old = rcd_partition now"
  using assms by (auto simp: keyEqual_def split: if_splits)

lemma match_fresh_step:
  assumes "matched existing fresh ms s" "i < length fresh" "\<forall>j < length fresh. i \<le> j \<longrightarrow> \<not> rs_freshUsed s ! j"
  shows "\<exists>ms'. matched existing fresh ms' (match_fresh existing fresh i s) \<and>
    (\<forall>j < length fresh. Suc i \<le> j \<longrightarrow> \<not> rs_freshUsed (match_fresh existing fresh i s) ! j)"
proof -
  let ?P = "\<lambda>k. keyEqual (existing ! k) (fresh ! i)"
  let ?old = "filter ?P [0..<length existing]"
  let ?k = "hd ?old"
  let ?probe = "if existing = [] then fresh ! i else if ?old = [] then fresh ! i else existing ! ?k"
  let ?count = "length (filter (keyEqual ?probe) fresh)"
  consider (keep) "length ?old = 1" "\<not> rs_oldUsed s ! ?k"
      "match_fresh existing fresh i s = retain_pair existing ?k i s"
    | (same) a b where "match_fresh existing fresh i s = s\<lparr>rs_freshAmbiguous := a, rs_oldAmbiguous := b\<rparr>"
  proof (cases "length ?old = 1 \<and> ?count = 1 \<and> \<not> rs_oldUsed s ! ?k")
    case True
    then show ?thesis
      by (intro keep) (simp_all add: match_fresh_def Let_def)
  next
    case False
    have "s = s\<lparr>rs_freshAmbiguous := rs_freshAmbiguous s, rs_oldAmbiguous := rs_oldAmbiguous s\<rparr>"
      by simp
    with False show ?thesis
      using same unfolding match_fresh_def Let_def by metis
  qed
  then show ?thesis
  proof cases
    case keep
    have k: "?k < length existing" "keyEqual (existing ! ?k) (fresh ! i)"
      using filter_hd [OF keep(1)] by simp_all
    note same = keyEqual_kind [OF k(2)]
    then have "matched existing fresh (ms @ [(i, ?k)]) (match_fresh existing fresh i s)"
      unfolding keep(3) using assms keep(2) k by (intro matched_retain) auto
    moreover have "\<not> rs_freshUsed (match_fresh existing fresh i s) ! j" if "j < length fresh" "Suc i \<le> j" for j
      using assms(3) that unfolding keep(3) retain_pair_freshUsed by auto
    ultimately show ?thesis by blast
  next
    case same
    with assms show ?thesis
      unfolding same by (intro exI [of _ ms]) (simp add: matched_def)
  qed
qed

lemma match_all:
  assumes "matched existing fresh [] s" "n \<le> length fresh"
  shows "\<exists>ms. matched existing fresh ms (fold (match_fresh existing fresh) [0..<n] s) \<and>
    (\<forall>j < length fresh. n \<le> j \<longrightarrow> \<not> rs_freshUsed (fold (match_fresh existing fresh) [0..<n] s) ! j)"
  using assms(2)
proof (induction n)
  case 0
  have "\<forall>j < length fresh. \<not> rs_freshUsed s ! j"
    using assms(1) by (simp add: matched_def)
  with assms(1) show ?case
    by (intro exI [of _ "[]"]) simp
next
  case (Suc n)
  then obtain ms where "matched existing fresh ms (fold (match_fresh existing fresh) [0..<n] s)"
    "\<forall>j < length fresh. n \<le> j \<longrightarrow> \<not> rs_freshUsed (fold (match_fresh existing fresh) [0..<n] s) ! j"
    by auto
  from match_fresh_step [OF this(1) _ this(2)] Suc.prems show ?case
    by simp
qed

lemma gap_hd:
  assumes "length (gap_of used ambiguous candidates part) = 1"
  shows "hd (gap_of used ambiguous candidates part) < length candidates \<and>
    \<not> used ! hd (gap_of used ambiguous candidates part) \<and>
    rcd_partition (candidates ! hd (gap_of used ambiguous candidates part)) = part"
  using filter_hd [OF assms [unfolded gap_of_def]] unfolding gap_of_def by simp

lemma fill_gap_step:
  assumes "matched existing fresh ms s"
  shows "\<exists>ms'. matched existing fresh ms' (fill_gap existing fresh part s)"
proof -
  let ?old = "gap_of (rs_oldUsed s) (rs_oldAmbiguous s) existing part"
  let ?new = "gap_of (rs_freshUsed s) (rs_freshAmbiguous s) fresh part"
  show ?thesis
  proof (cases "length ?old = 1 \<and> length ?new = 1 \<and> rcd_kind (existing ! hd ?old) = rcd_kind (fresh ! hd ?new)")
    case True
    then have "fill_gap existing fresh part s = retain_pair existing (hd ?old) (hd ?new) s"
      by (simp add: fill_gap_def Let_def)
    moreover have "matched existing fresh (ms @ [(hd ?new, hd ?old)]) (retain_pair existing (hd ?old) (hd ?new) s)"
      using True gap_hd [of "rs_oldUsed s"] gap_hd [of "rs_freshUsed s"] by (intro matched_retain [OF assms]) simp_all
    ultimately show ?thesis by auto
  next
    case False
    then have "fill_gap existing fresh part s = s"
      by (auto simp: fill_gap_def Let_def)
    with assms show ?thesis by auto
  qed
qed

lemma fill_all:
  assumes "matched existing fresh ms s"
  shows "\<exists>ms'. matched existing fresh ms' (fold (fill_gap existing fresh) parts s)"
  using assms
proof (induction parts arbitrary: ms s)
  case (Cons part parts)
  then obtain ms' where "matched existing fresh ms' (fill_gap existing fresh part s)"
    using fill_gap_step by blast
  with Cons.IH show ?case by simp
qed auto

lemma derive_attempts_Some: "derive_attempts hash candidate forbidden attempts = Some u \<Longrightarrow> u \<notin> set forbidden"
  by (induction attempts) (auto simp: Let_def split: if_splits)

lemma MintReconciledUuid_Some:
  assumes "MintReconciledUuid hash source ctx candidate forbidden = (Some u, ctx')"
  shows "u \<notin> set forbidden"
proof (cases "UsesDefaultUuidSource source")
  case True
  with assms show ?thesis
    using derive_attempts_Some by (auto simp: MintReconciledUuid_def)
next
  case False
  with assms have "MintDistinctUuid source ctx forbidden zero_uuid = (Minted, u, ctx')"
    by (auto simp: MintReconciledUuid_def split: prod.splits if_splits)
  then show ?thesis
    by (rule MintDistinctUuid_proper)
qed

lemma mint_fresh_Some:
  assumes "mint_fresh hash source forbidden fresh indices s ctx = (Some s', ctx')"
  shows "\<exists>new. rs_nodes s' = rs_nodes s @ new \<and>
    map rn_freshIndex new = filter (\<lambda>i. \<not> rs_freshUsed s ! i) indices \<and>
    (\<forall>n \<in> set new. \<not> rn_retained n \<and> rn_id n \<notin> set forbidden \<and> rn_id n \<notin> rn_id ` set (rs_nodes s)) \<and>
    distinct (map rn_id new) \<and> rs_oldUsed s' = rs_oldUsed s \<and>
    rc_tombstones (rs_receipt s') = rc_tombstones (rs_receipt s)"
  using assms
proof (induction indices arbitrary: s ctx)
  case (Cons index rest)
  show ?case
  proof (cases "rs_freshUsed s ! index")
    case True
    with Cons.IH Cons.prems show ?thesis by simp
  next
    case False
    obtain u ctx1 where mint: "MintReconciledUuid hash source ctx (fresh ! index) (forbidden @ map rn_id (rs_nodes s)) = (Some u, ctx1)"
      using Cons.prems False by (auto split: prod.splits option.splits)
    let ?n = "\<lparr>rn_freshIndex = index, rn_id = u, rn_retained = False\<rparr>"
    let ?s = "s\<lparr>rs_nodes := rs_nodes s @ [?n],
                rs_receipt := push_remap (Remap u (Some u) RD_New
                    (if rs_freshAmbiguous s ! index then RR_Ambiguous else RR_ExternalUnique)) (rs_receipt s)\<rparr>"
    have "mint_fresh hash source forbidden fresh rest ?s ctx1 = (Some s', ctx')"
      using Cons.prems False mint by simp
    from Cons.IH [OF this] obtain new where new: "rs_nodes s' = rs_nodes ?s @ new"
      "map rn_freshIndex new = filter (\<lambda>i. \<not> rs_freshUsed ?s ! i) rest"
      "\<forall>n \<in> set new. \<not> rn_retained n \<and> rn_id n \<notin> set forbidden \<and> rn_id n \<notin> rn_id ` set (rs_nodes ?s)"
      "distinct (map rn_id new)" "rs_oldUsed s' = rs_oldUsed ?s"
      "rc_tombstones (rs_receipt s') = rc_tombstones (rs_receipt ?s)"
      by blast
    have "u \<notin> set forbidden" "u \<notin> rn_id ` set (rs_nodes s)"
      using MintReconciledUuid_Some [OF mint] by simp_all
    moreover have "u \<notin> rn_id ` set new"
      using new(3) by auto
    ultimately show ?thesis
      using new False by (intro exI [of _ "?n # new"]) (auto simp: push_remap_def)
  qed
qed (intro exI [of _ "[]"], simp)

lemma bury_all:
  "rs_nodes (fold (bury_old existing revision) ks s) = rs_nodes s \<and>
   map te_node (rc_tombstones (rs_receipt (fold (bury_old existing revision) ks s))) =
     map te_node (rc_tombstones (rs_receipt s)) @
     map (\<lambda>k. rcd_id (existing ! k)) (filter (\<lambda>k. \<not> rs_oldUsed s ! k) ks)"
proof (induction ks arbitrary: s)
  case (Cons k ks)
  have "rs_oldUsed (bury_old existing revision k s) = rs_oldUsed s"
    by (simp add: bury_old_def Let_def)
  with Cons.IH [of "bury_old existing revision k s"] show ?case
    by (simp add: bury_old_def Let_def push_remap_def)
qed simp

subsection \<open>Properties\<close>

lemma sorted_indices:
  assumes "distinct (map f xs)" "f ` set xs = {..<n :: nat}"
  shows "map f (sort_key f xs) = [0..<n]"
proof (rule sorted_distinct_set_unique)
  show "set (map f (sort_key f xs)) = set [0..<n]"
    using assms(2) by auto
  have "mset (map f (sort_key f xs)) = mset (map f xs)"
    by simp
  then show "distinct (map f (sort_key f xs))"
    using assms(1) by (metis mset_eq_imp_distinct_iff)
qed simp_all

lemma distinct_nth_inj: "distinct (map f xs) \<Longrightarrow> i < length xs \<Longrightarrow> j < length xs \<Longrightarrow> f (xs ! i) = f (xs ! j) \<longleftrightarrow> i = j"
  using distinct_map_nth_eq by blast

lemma reconcile_external_Some:
  assumes "reconcile_external hash parent existing fresh source tombs revision ctx = (Some r, ctx')"
  obtains ms new where
    "distinct (map fst ms)" "distinct (map snd ms)"
    "\<forall>(f, k) \<in> set ms. f < length fresh \<and> k < length existing \<and>
        rcd_kind (existing ! k) = rcd_kind (fresh ! f) \<and> rcd_partition (existing ! k) = rcd_partition (fresh ! f)"
    "rr_nodes r = sort_key rn_freshIndex
       (map (\<lambda>(f, k). \<lparr>rn_freshIndex = f, rn_id = rcd_id (existing ! k), rn_retained = True\<rparr>) ms @ new)"
    "map rn_freshIndex new = filter (\<lambda>i. i \<notin> fst ` set ms) [0..<length fresh]"
    "\<forall>n \<in> set new. \<not> rn_retained n \<and> rn_id n \<notin> set tombs \<and> rn_id n \<noteq> parent \<and>
       rn_id n \<notin> rcd_id ` set existing"
    "distinct (map rn_id new)"
    "map te_node (rc_tombstones (rr_receipt r)) =
       map (\<lambda>k. rcd_id (existing ! k)) (filter (\<lambda>k. k \<notin> snd ` set ms) [0..<length existing])"
proof -
  define s0 where "s0 = \<lparr>rs_oldUsed = replicate (length existing) False, rs_freshUsed = replicate (length fresh) False,
                rs_oldAmbiguous = replicate (length existing) False,
                rs_freshAmbiguous = replicate (length fresh) False,
                rs_nodes = [], rs_receipt = empty_receipt\<rparr>"
  define s1 where "s1 = fold (match_fresh existing fresh) [0..<length fresh] s0"
  define s2 where "s2 = fold (fill_gap existing fresh) (partitions_of existing fresh) s1"
  have "matched existing fresh [] s0"
    by (simp add: matched_def s0_def empty_receipt_def)
  then obtain ms1 where "matched existing fresh ms1 s1"
    using match_all [of existing fresh s0 "length fresh"] unfolding s1_def by auto
  then obtain ms where ms: "matched existing fresh ms s2"
    using fill_all unfolding s2_def by blast
  obtain s3 where mint: "mint_fresh hash source (tombs @ [parent] @ map rcd_id existing) fresh
      [0..<length fresh] s2 ctx = (Some s3, ctx')"
    and r: "r = \<lparr>rr_nodes = sort_key rn_freshIndex (rs_nodes (fold (bury_old existing revision) [0..<length existing] s3)),
      rr_receipt = rs_receipt (fold (bury_old existing revision) [0..<length existing] s3)\<rparr>"
    using assms unfolding reconcile_external_def Let_def s0_def [symmetric] s1_def [symmetric] s2_def [symmetric]
    by (auto split: prod.splits option.splits)
  from mint_fresh_Some [OF mint] obtain new where new: "rs_nodes s3 = rs_nodes s2 @ new"
    "map rn_freshIndex new = filter (\<lambda>i. \<not> rs_freshUsed s2 ! i) [0..<length fresh]"
    "\<forall>n \<in> set new. \<not> rn_retained n \<and> rn_id n \<notin> set (tombs @ [parent] @ map rcd_id existing) \<and>
      rn_id n \<notin> rn_id ` set (rs_nodes s2)"
    "distinct (map rn_id new)" "rs_oldUsed s3 = rs_oldUsed s2"
    "rc_tombstones (rs_receipt s3) = rc_tombstones (rs_receipt s2)"
    by blast
  note B = bury_all [of existing revision "[0..<length existing]" s3]
  have fresh_flags: "filter (\<lambda>i. \<not> rs_freshUsed s2 ! i) [0..<length fresh] = filter (\<lambda>i. i \<notin> fst ` set ms) [0..<length fresh]"
    and old_flags: "filter (\<lambda>k. \<not> rs_oldUsed s2 ! k) [0..<length existing] = filter (\<lambda>k. k \<notin> snd ` set ms) [0..<length existing]"
    using ms unfolding matched_def by (intro filter_cong; simp)+
  show thesis
  proof (rule that [of ms new])
    show "distinct (map fst ms)" "distinct (map snd ms)"
      "\<forall>(f, k) \<in> set ms. f < length fresh \<and> k < length existing \<and>
        rcd_kind (existing ! k) = rcd_kind (fresh ! f) \<and> rcd_partition (existing ! k) = rcd_partition (fresh ! f)"
      using ms unfolding matched_def by blast+
    show "rr_nodes r = sort_key rn_freshIndex
       (map (\<lambda>(f, k). \<lparr>rn_freshIndex = f, rn_id = rcd_id (existing ! k), rn_retained = True\<rparr>) ms @ new)"
      using ms new(1) B unfolding r matched_def by simp
    show "map rn_freshIndex new = filter (\<lambda>i. i \<notin> fst ` set ms) [0..<length fresh]"
      unfolding new(2) fresh_flags ..
    show "map te_node (rc_tombstones (rr_receipt r)) =
       map (\<lambda>k. rcd_id (existing ! k)) (filter (\<lambda>k. k \<notin> snd ` set ms) [0..<length existing])"
      using ms B new(5,6) old_flags unfolding r matched_def by simp
  qed (use new in auto)
qed

text \<open>What the matching of an external reconciliation gives, from which its receipt is read.\<close>

definition matched_ok :: "ReconcileCandidate list \<Rightarrow> ReconcileCandidate list \<Rightarrow> (nat \<times> nat) list \<Rightarrow> bool" where
  "matched_ok existing fresh ms \<longleftrightarrow> distinct (map fst ms) \<and> distinct (map snd ms) \<and>
    (\<forall>(f, k) \<in> set ms. f < length fresh \<and> k < length existing \<and>
       rcd_kind (existing ! k) = rcd_kind (fresh ! f) \<and> rcd_partition (existing ! k) = rcd_partition (fresh ! f))"

definition kept_nodes :: "ReconcileCandidate list \<Rightarrow> (nat \<times> nat) list \<Rightarrow> ReconciledNode list" where
  "kept_nodes existing ms = map (\<lambda>(f, k). \<lparr>rn_freshIndex = f, rn_id = rcd_id (existing ! k), rn_retained = True\<rparr>) ms"

lemma kept_nodes_simps:
  "map rn_freshIndex (kept_nodes existing ms) = map fst ms"
  "map rn_id (kept_nodes existing ms) = map (\<lambda>k. rcd_id (existing ! k)) (map snd ms)"
  "n \<in> set (kept_nodes existing ms) \<Longrightarrow> rn_retained n"
  by (auto simp: kept_nodes_def comp_def case_prod_beta)

lemma matched_bounds:
  assumes "matched_ok existing fresh ms" "(f, k) \<in> set ms"
  shows "k < length existing" "f < length fresh" "existing ! k \<in> set existing"
    "rcd_kind (existing ! k) = rcd_kind (fresh ! f)" "rcd_partition (existing ! k) = rcd_partition (fresh ! f)"
  using assms by (auto simp: matched_ok_def)

lemma matched_index:
  assumes ms: "matched_ok existing fresh ms"
    and new: "map rn_freshIndex new = filter (\<lambda>i. i \<notin> fst ` set ms) [0..<length fresh]"
  shows "map rn_freshIndex (sort_key rn_freshIndex (kept_nodes existing ms @ new)) = [0..<length fresh]"
proof (rule sorted_indices)
  have new_set: "rn_freshIndex ` set new = {..<length fresh} - fst ` set ms"
    using arg_cong [OF new, of set] by auto
  have "distinct (map rn_freshIndex new)"
    unfolding new by simp
  then show "distinct (map rn_freshIndex (kept_nodes existing ms @ new))"
    unfolding map_append kept_nodes_simps distinct_append list.set_map new_set using ms by (auto simp: matched_ok_def)
  have "rn_freshIndex ` set (kept_nodes existing ms) = fst ` set ms"
    using arg_cong [OF kept_nodes_simps(1), of set existing ms] unfolding list.set_map .
  moreover have "fst ` set ms \<subseteq> {..<length fresh}"
    using matched_bounds(2) [OF ms] by auto
  ultimately show "rn_freshIndex ` set (kept_nodes existing ms @ new) = {..<length fresh}"
    unfolding set_append image_Un new_set by blast
qed

lemma matched_ids:
  assumes ms: "matched_ok existing fresh ms" and "distinct (map rcd_id existing)" "distinct (map rn_id new)"
    and fresh_ids: "\<forall>n \<in> set new. rn_id n \<notin> rcd_id ` set existing"
  shows "distinct (map rn_id (sort_key rn_freshIndex (kept_nodes existing ms @ new)))"
proof -
  have "distinct (map (\<lambda>k. rcd_id (existing ! k)) (map snd ms))"
  proof (subst distinct_map, intro conjI inj_onI)
    fix k k' assume "k \<in> set (map snd ms)" "k' \<in> set (map snd ms)" "rcd_id (existing ! k) = rcd_id (existing ! k')"
    then show "k = k'"
      using distinct_map_nth_eq [OF assms(2)] matched_bounds(1) [OF ms] by auto
  qed (use ms in \<open>simp add: matched_ok_def\<close>)
  moreover have "set (map (\<lambda>k. rcd_id (existing ! k)) (map snd ms)) \<subseteq> rcd_id ` set existing"
    using matched_bounds(1) [OF ms] by auto
  then have "set (map (\<lambda>k. rcd_id (existing ! k)) (map snd ms)) \<inter> rn_id ` set new = {}"
    using fresh_ids by blast
  ultimately have "distinct (map rn_id (kept_nodes existing ms @ new))"
    unfolding map_append kept_nodes_simps distinct_append using assms(3) by simp
  moreover have "mset (map rn_id (sort_key rn_freshIndex (kept_nodes existing ms @ new))) =
      mset (map rn_id (kept_nodes existing ms @ new))"
    unfolding mset_map mset_sort ..
  ultimately show ?thesis
    by (metis mset_eq_imp_distinct_iff)
qed

lemma matched_kept:
  assumes "matched_ok existing fresh ms" "n \<in> set (kept_nodes existing ms)"
  shows "rn_retained n" "\<exists>old \<in> set existing. rcd_id old = rn_id n \<and> rcd_kind old = rcd_kind (fresh ! rn_freshIndex n) \<and>
    rcd_partition old = rcd_partition (fresh ! rn_freshIndex n)"
proof -
  obtain f k where fk: "(f, k) \<in> set ms" "n = \<lparr>rn_freshIndex = f, rn_id = rcd_id (existing ! k), rn_retained = True\<rparr>"
    using assms(2) by (force simp: kept_nodes_def)
  with matched_bounds [OF assms(1) fk(1)]
  show "rn_retained n" "\<exists>old \<in> set existing. rcd_id old = rn_id n \<and> rcd_kind old = rcd_kind (fresh ! rn_freshIndex n) \<and>
    rcd_partition old = rcd_partition (fresh ! rn_freshIndex n)" by auto
qed

lemma matched_tombs:
  assumes ms: "matched_ok existing fresh ms" and "distinct (map rcd_id existing)"
  shows "filter (\<lambda>u. u \<notin> (\<lambda>k. rcd_id (existing ! k)) ` snd ` set ms) (map rcd_id existing) =
    map (\<lambda>k. rcd_id (existing ! k)) (filter (\<lambda>k. k \<notin> snd ` set ms) [0..<length existing])"
proof -
  have kept: "rcd_id (existing ! k) \<in> (\<lambda>k. rcd_id (existing ! k)) ` snd ` set ms \<longleftrightarrow> k \<in> snd ` set ms"
    if k: "k < length existing" for k
  proof
    assume "rcd_id (existing ! k) \<in> (\<lambda>k. rcd_id (existing ! k)) ` snd ` set ms"
    then obtain f k' where "(f, k') \<in> set ms" "rcd_id (existing ! k) = rcd_id (existing ! k')"
      by auto
    moreover from this have "k = k'"
      using distinct_map_nth_eq [OF assms(2) k] matched_bounds(1) [OF ms] by blast
    ultimately show "k \<in> snd ` set ms"
      by force
  qed auto
  have "filter (\<lambda>k. rcd_id (existing ! k) \<notin> (\<lambda>k. rcd_id (existing ! k)) ` snd ` set ms) [0..<length existing] =
      filter (\<lambda>k. k \<notin> snd ` set ms) [0..<length existing]"
    by (rule filter_cong [OF refl]) (use kept in simp)
  moreover have "map rcd_id existing = map (\<lambda>k. rcd_id (existing ! k)) [0..<length existing]"
    by (rule nth_equalityI) simp_all
  ultimately show ?thesis
    by (simp add: filter_map comp_def)
qed

text \<open>Claim C13. An external reconciliation that succeeds accounts for every child once: each
  fresh child, in order, has exactly one identity, and no two have the same; a child marked
  retained has the identity of an old child of its own kind and partition; any other identity
  is new, neither tombstoned before nor the parent's nor an old child's; and the tombstones are
  exactly the old children that were not retained.\<close>

theorem reconcile_external_accounts:
  assumes "ReconcileChildren hash parent existing fresh RM_External source tombs revision ctx = (Some r, ctx')"
    and "distinct (map rcd_id existing)"
  shows "map rn_freshIndex (rr_nodes r) = [0..<length fresh] \<and> distinct (map rn_id (rr_nodes r)) \<and>
    (\<forall>n \<in> set (rr_nodes r). if rn_retained n
       then \<exists>old \<in> set existing. rcd_id old = rn_id n \<and> rcd_kind old = rcd_kind (fresh ! rn_freshIndex n) \<and>
              rcd_partition old = rcd_partition (fresh ! rn_freshIndex n)
       else rn_id n \<notin> set tombs \<union> {parent} \<union> rcd_id ` set existing) \<and>
    map te_node (rc_tombstones (rr_receipt r)) =
      filter (\<lambda>u. u \<notin> rn_id ` {n \<in> set (rr_nodes r). rn_retained n}) (map rcd_id existing)"
proof -
  have "reconcile_external hash parent existing fresh source tombs revision ctx = (Some r, ctx')"
    using assms(1) by (simp add: ReconcileChildren_def split: if_splits)
  then obtain ms new where ms: "matched_ok existing fresh ms"
    and nodes: "rr_nodes r = sort_key rn_freshIndex (kept_nodes existing ms @ new)"
    and new: "map rn_freshIndex new = filter (\<lambda>i. i \<notin> fst ` set ms) [0..<length fresh]"
    "\<forall>n \<in> set new. \<not> rn_retained n \<and> rn_id n \<notin> set tombs \<and> rn_id n \<noteq> parent \<and> rn_id n \<notin> rcd_id ` set existing"
    "distinct (map rn_id new)"
    and tombstones: "map te_node (rc_tombstones (rr_receipt r)) =
       map (\<lambda>k. rcd_id (existing ! k)) (filter (\<lambda>k. k \<notin> snd ` set ms) [0..<length existing])"
    unfolding matched_ok_def kept_nodes_def by (rule reconcile_external_Some) simp
  have set_nodes: "set (rr_nodes r) = set (kept_nodes existing ms) \<union> set new"
    unfolding nodes by simp
  have "{n \<in> set (rr_nodes r). rn_retained n} = set (kept_nodes existing ms)"
    unfolding set_nodes using new(2) kept_nodes_simps(3) by blast
  then have kept: "rn_id ` {n \<in> set (rr_nodes r). rn_retained n} = (\<lambda>k. rcd_id (existing ! k)) ` snd ` set ms"
    using arg_cong [OF kept_nodes_simps(2) [of existing ms], of set] by (simp add: image_image)
  have nodes_ok: "if rn_retained n
       then \<exists>old \<in> set existing. rcd_id old = rn_id n \<and> rcd_kind old = rcd_kind (fresh ! rn_freshIndex n) \<and>
              rcd_partition old = rcd_partition (fresh ! rn_freshIndex n)
       else rn_id n \<notin> set tombs \<union> {parent} \<union> rcd_id ` set existing" if "n \<in> set (rr_nodes r)" for n
    using that new(2) matched_kept [OF ms] unfolding set_nodes by auto
  show ?thesis
    unfolding kept
    by (intro conjI ballI nodes_ok trans [OF tombstones matched_tombs [OF ms assms(2), symmetric]])
      (use matched_index [OF ms new(1)] matched_ids [OF ms assms(2) new(3)] new(2) in \<open>simp_all add: nodes\<close>)
qed

lemma pair_authorities_Some:
  assumes "pair_authorities tombs pairs mapped olds nows = Some mapped'" "length olds = length nows"
  shows "olds = nows \<and> set mapped \<subseteq> set mapped'"
  using assms(2,1)
proof (induction olds nows arbitrary: pairs mapped rule: list_induct2)
  case (Cons old olds now nows)
  have "old = now" "pair_authorities tombs (pairs @ [old]) (add_id old mapped) olds nows = Some mapped'"
    using Cons.prems by (auto simp: EqualUuid_def split: if_splits)
  with Cons.IH show ?case by fastforce
qed simp

definition reopen_pair :: "Uuid128 list \<Rightarrow> ReconcileCandidate \<Rightarrow> ReconcileCandidate \<Rightarrow> bool" where
  "reopen_pair tombs old now \<longleftrightarrow>
     IsRfc4122V4 (rcd_id old) \<and> IsRfc4122V4 (rcd_id now) \<and> rcd_id old \<notin> set tombs \<and> rcd_id now \<notin> set tombs \<and>
     rcd_kind old = rcd_kind now \<and> rcd_partition old = rcd_partition now \<and> rcd_ordinal old = rcd_ordinal now \<and>
     rcd_canonicalPayload old = rcd_canonicalPayload now \<and>
     rcd_mappedAuthorityIds old = rcd_mappedAuthorityIds now"

lemma reopen_scan_Some:
  assumes "reopen_scan tombs previous pairs (oldIds, freshIds, mapped) = Some (oldIds', freshIds', mapped')"
  shows "oldIds' = oldIds @ map (rcd_id \<circ> fst) pairs \<and> freshIds' = freshIds @ map (rcd_id \<circ> snd) pairs \<and>
    (distinct oldIds \<longrightarrow> distinct oldIds') \<and> set mapped \<subseteq> set mapped' \<and>
    (\<forall>(old, now) \<in> set pairs. reopen_pair tombs old now)"
  using assms
proof (induction pairs arbitrary: previous oldIds freshIds mapped)
  case (Cons pair pairs)
  obtain old now where pair: "pair = (old, now)" by fastforce
  have checks: "IsRfc4122V4 (rcd_id old)" "rcd_id old \<notin> set tombs" "rcd_id old \<notin> set oldIds" "IsRfc4122V4 (rcd_id now)"
    "rcd_id now \<notin> set tombs" "rcd_kind old = rcd_kind now" "rcd_partition old = rcd_partition now"
    "rcd_ordinal old = rcd_ordinal now" "rcd_canonicalPayload old = rcd_canonicalPayload now"
    "length (rcd_mappedAuthorityIds old) = length (rcd_mappedAuthorityIds now)"
    using Cons.prems by (simp_all add: pair EqualHash_def split: if_splits)
  obtain mapped1 where auth: "pair_authorities tombs [] mapped (rcd_mappedAuthorityIds old) (rcd_mappedAuthorityIds now) = Some mapped1"
    and rec: "reopen_scan tombs (Some (old, now)) pairs (oldIds @ [rcd_id old], freshIds @ [rcd_id now], mapped1) =
      Some (oldIds', freshIds', mapped')"
    using Cons.prems by (auto simp: pair split: if_splits option.splits)
  note A = pair_authorities_Some [OF auth checks(10)]
  note IH = Cons.IH [OF rec]
  show ?case
  proof (intro conjI)
    show "oldIds' = oldIds @ map (rcd_id \<circ> fst) (pair # pairs)" "freshIds' = freshIds @ map (rcd_id \<circ> snd) (pair # pairs)"
      using IH by (simp_all add: pair)
    have "distinct oldIds \<longrightarrow> distinct (oldIds @ [rcd_id old])"
      using checks(3) by simp
    then show "distinct oldIds \<longrightarrow> distinct oldIds'"
      using IH by blast
    show "set mapped \<subseteq> set mapped'"
      using IH A by blast
    have "reopen_pair tombs old now"
      using checks A by (simp add: reopen_pair_def)
    then show "\<forall>(old, now) \<in> set (pair # pairs). reopen_pair tombs old now"
      using IH by (simp add: pair)
  qed
qed simp

lemma zip_ids:
  assumes "length existing = length fresh"
  shows "map (rcd_id \<circ> fst) (zip existing fresh) = map rcd_id existing"
    "map (rcd_id \<circ> snd) (zip existing fresh) = map rcd_id fresh"
  using assms by (metis map_fst_zip map_map, metis map_snd_zip map_map)

lemma retained_no_tombstones:
  "rc_tombstones (fold (\<lambda>old. push_remap (Remap (rcd_id old) (Some (rcd_id old)) RD_Retained RR_SaveReopenEqual)) cs receipt) =
    rc_tombstones receipt"
  by (induction cs arbitrary: receipt) (simp_all add: push_remap_def)

text \<open>Claim C14. A reopen that is accepted keeps the tree: position by position the old and the
  fresh child agree in kind, partition, ordinal, payload and authorities, every child keeps its
  old identity, nothing is minted and nothing tombstoned; and no old identity is tombstoned,
  repeated, the parent's, or in use by a fresh child.\<close>

theorem reconcile_reopen_exact:
  assumes "ReconcileChildren hash parent existing fresh RM_AuthorizedEqualRoot source tombs revision ctx = (Some r, ctx')"
  shows "ctx' = ctx \<and> length existing = length fresh \<and>
    (\<forall>i < length existing. reopen_pair tombs (existing ! i) (fresh ! i)) \<and>
    rr_nodes r = map (\<lambda>i. \<lparr>rn_freshIndex = i, rn_id = rcd_id (existing ! i), rn_retained = True\<rparr>) [0..<length fresh] \<and>
    rc_tombstones (rr_receipt r) = [] \<and> distinct (map rcd_id existing) \<and>
    rcd_id ` set existing \<inter> (rcd_id ` set fresh \<union> set tombs \<union> {parent}) = {}"
proof -
  have ctx: "ctx' = ctx" and reopen: "reconcile_reopen parent existing fresh tombs = Some r"
    using assms by (auto simp: ReconcileChildren_def split: if_splits)
  then have len: "length existing = length fresh"
    by (auto simp: reconcile_reopen_def split: if_splits)
  obtain oldIds freshIds mapped where
    scan: "reopen_scan tombs None (zip existing fresh) ([], [], [parent]) = Some (oldIds, freshIds, mapped)"
    and disjoint: "\<forall>u \<in> set oldIds. u \<notin> set freshIds \<and> u \<notin> set mapped"
    and r: "rr_nodes r = map (\<lambda>i. \<lparr>rn_freshIndex = i, rn_id = rcd_id (existing ! i), rn_retained = True\<rparr>) [0..<length existing]"
      "rr_receipt r = fold (\<lambda>old. push_remap (Remap (rcd_id old) (Some (rcd_id old))
                            RD_Retained RR_SaveReopenEqual)) existing empty_receipt"
    using reopen len by (auto simp: reconcile_reopen_def list_ex_iff split: option.splits if_splits)
  note S = reopen_scan_Some [OF scan]
  have ids: "oldIds = map rcd_id existing" "freshIds = map rcd_id fresh"
    using S by (simp_all add: zip_ids [OF len])
  have pairs: "reopen_pair tombs (existing ! i) (fresh ! i)" if "i < length existing" for i
  proof -
    have "(existing ! i, fresh ! i) \<in> set (zip existing fresh)"
      using that len by (force simp: set_zip)
    with S show ?thesis by blast
  qed
  have "rc_tombstones (rr_receipt r) = []"
    unfolding r(2) retained_no_tombstones by (simp add: empty_receipt_def)
  moreover have "distinct (map rcd_id existing)"
    using S ids by (metis distinct.simps(1))
  moreover have "u \<notin> rcd_id ` set fresh \<union> set tombs \<union> {parent}" if "u \<in> rcd_id ` set existing" for u
  proof -
    have "set oldIds = rcd_id ` set existing" "set freshIds = rcd_id ` set fresh"
      unfolding ids by simp_all
    moreover have "parent \<in> set mapped"
      using S by simp
    ultimately have "u \<notin> rcd_id ` set fresh" "u \<noteq> parent"
      using that disjoint by blast+
    moreover have "\<exists>old \<in> set existing. u = rcd_id old"
      using that by blast
    then obtain i where "i < length existing" "u = rcd_id (existing ! i)"
      by (metis in_set_conv_nth)
    then have "u \<notin> set tombs"
      using pairs by (simp add: reopen_pair_def)
    ultimately show ?thesis by simp
  qed
  ultimately show ?thesis
    using ctx len pairs r(1) by auto
qed

subsection \<open>Witnesses\<close>

definition child :: "u8 \<Rightarrow> u8 \<Rightarrow> u64 \<Rightarrow> ReconcileCandidate" where
  "child k print ordinal = \<lparr>rcd_id = sample_uuid[15 := k], rcd_kind = NK_Paragraph, rcd_ordinal = ordinal,
     rcd_fingerprint = replicate 32 print, rcd_primaryKey = [], rcd_secondaryKey = [], rcd_partition = 0,
     rcd_topologyUnchanged = False, rcd_canonicalPayload = zero_hash, rcd_mappedAuthorityIds = []\<rparr>"

definition letter_source :: "u8 UuidSource" where
  "letter_source = InjectedFill (\<lambda>ctx buffer. (True, replicate 16 ctx, ctx + 1))"

definition external_call :: "ReconcileResult option \<times> u8" where
  "external_call = ReconcileChildren (\<lambda>domain bytes. bytes) (sample_uuid[15 := 99]) [child 1 10 0, child 2 20 1]
     [child 0 20 0, child 0 30 1, child 0 40 2] RM_External letter_source [] 3 9"

theorem reconcile_external_accounts_witness:
  "\<exists>r ctx'. external_call = (Some r, ctx') \<and> map rn_freshIndex (rr_nodes r) = [0, 1, 2] \<and> distinct (map rn_id (rr_nodes r))"
proof -
  have "fst external_call \<noteq> None"
    by code_simp
  then obtain r ctx' where call: "external_call = (Some r, ctx')"
    by (metis not_Some_eq prod.collapse)
  have "distinct (map rcd_id [child 1 10 0, child 2 20 1])"
    by code_simp
  from reconcile_external_accounts [OF call [unfolded external_call_def] this] call show ?thesis
    by (auto simp: upt_rec)
qed

definition reopen_call :: "ReconcileResult option \<times> u8" where
  "reopen_call = ReconcileChildren (\<lambda>domain bytes. bytes) (sample_uuid[15 := 99]) [child 1 10 0, child 2 20 1]
     [child 3 10 0, child 4 20 1] RM_AuthorizedEqualRoot letter_source [] 3 9"

theorem reconcile_reopen_exact_witness:
  "\<exists>r. reopen_call = (Some r, 9) \<and> rc_tombstones (rr_receipt r) = []"
proof -
  have "fst reopen_call \<noteq> None"
    by code_simp
  then obtain r ctx' where call: "reopen_call = (Some r, ctx')"
    by (metis not_Some_eq prod.collapse)
  from reconcile_reopen_exact [OF call [unfolded reopen_call_def]]
  have "ctx' = 9" "rc_tombstones (rr_receipt r) = []"
    by blast+
  with call show ?thesis by (intro exI [of _ r]) simp
qed

end
