(* ===== verification/ActionTypes.thy ===== *)
theory ActionTypes
  imports Complex_Main Prelude
begin

section \<open>Action commands and the runtime they are read with\<close>

text \<open>
  The data of ActionProtocol.h, and the functions of the C runtime and of Windows that the
  request parsers call. A finite \<open>double\<close> is the rational number it denotes; the parsers keep
  no other value. What depends on the system's character tables, on its base64 and UTF-8
  converters or on the correct rounding of \<open>wcstod\<close> is a field of \<open>Runtime\<close>;
  \<open>wcstoll\<close> is written out over the character tables.
\<close>

subsection \<open>Values and commands\<close>

type_synonym double = rat

datatype ValueKind = VK_Integer | VK_Boolean | VK_Text | VK_Millimeter | VK_Enumeration

record Value =
  v_kind :: ValueKind
  v_integer :: LONG
  v_boolean :: bool
  v_millimeter :: double
  v_text :: wstring
  v_converter :: wstring

definition new_value :: Value where
  "new_value = \<lparr>v_kind = VK_Integer, v_integer = 0, v_boolean = False, v_millimeter = 0, v_text = [], v_converter = []\<rparr>"

record Setter =
  set_path :: wstring
  set_value :: Value

record ArrayValue =
  av_name :: wstring
  av_index :: LONG
  av_value :: Value

record PictureCrop =
  crop_left :: double
  crop_top :: double
  crop_right :: double
  crop_bottom :: double

datatype CommandKind =
  CK_Run | CK_Action | CK_Call | CK_MovePage | CK_MovePosition | CK_SelectControl | CK_DeleteControl |
  CK_CopyControl | CK_SaveDocumentFile | CK_RestoreDocumentFile | CK_CaptureDocumentBlockProbe |
  CK_ApplyCopiedTableAnchor | CK_PasteTable | CK_CaptureTable | CK_MoveDocumentEnd | CK_DeleteTail |
  CK_InsertText | CK_ReplaceSelection | CK_TextPatch | CK_InsertPicture | CK_Cell | CK_SetCellText |
  CK_Merge | CK_Caption | CK_LeaveTable

text \<open>
  The caption members of \<open>Command\<close> and its text range are records of their own here; the rest
  is one field per member, in the order of the source.
\<close>

record CaptionFormat =
  cf_faceName :: wstring
  cf_height :: LONG
  cf_bold :: bool
  cf_textColor :: LONG
  cf_alignment :: LONG
  cf_lineSpacing :: LONG
  cf_leftMargin :: LONG
  cf_rightMargin :: LONG
  cf_indentation :: LONG
  cf_previousSpacing :: LONG
  cf_nextSpacing :: LONG

record Position =
  pos_list :: LONG
  pos_paragraph :: LONG
  pos_character :: LONG

record Command =
  cmd_kind :: CommandKind
  cmd_name :: wstring
  cmd_parameterSet :: wstring
  cmd_setters :: "Setter list"
  cmd_arrays :: "(wstring \<times> LONG) list"
  cmd_arrayValues :: "ArrayValue list"
  cmd_arguments :: "Value list"
  cmd_start :: Position
  cmd_finish :: Position
  cmd_occurrence :: LONG
  cmd_page :: LONG
  cmd_styleId :: LONG
  cmd_hasCaptionFormat :: bool
  cmd_captionFormat :: CaptionFormat
  cmd_hasCaptionFormatSource :: bool
  cmd_captionFormatSource :: Position
  cmd_hasPictureBox :: bool
  cmd_hasPictureCrop :: bool
  cmd_hasExpectedText :: bool
  cmd_matchCase :: bool
  cmd_preserveFormat :: bool
  cmd_preflightOnly :: bool
  cmd_pictureWidthMm :: double
  cmd_pictureHeightMm :: double
  cmd_pictureCrop :: PictureCrop
  cmd_first :: wstring
  cmd_second :: wstring
  cmd_expectedText :: wstring
  cmd_tableInstanceId :: wstring
  cmd_cellAddress :: wstring

definition origin :: Position where
  "origin = \<lparr>pos_list = 0, pos_paragraph = 0, pos_character = 0\<rparr>"

definition new_caption :: CaptionFormat where
  "new_caption = \<lparr>cf_faceName = [], cf_height = 0, cf_bold = False, cf_textColor = 0, cf_alignment = 0,
     cf_lineSpacing = 0, cf_leftMargin = 0, cf_rightMargin = 0, cf_indentation = 0, cf_previousSpacing = 0,
     cf_nextSpacing = 0\<rparr>"

definition new_crop :: PictureCrop where
  "new_crop = \<lparr>crop_left = 0, crop_top = 0, crop_right = 0, crop_bottom = 0\<rparr>"

definition new_command :: Command where
  "new_command =
    \<lparr>cmd_kind = CK_Run, cmd_name = [], cmd_parameterSet = [], cmd_setters = [], cmd_arrays = [],
     cmd_arrayValues = [], cmd_arguments = [], cmd_start = origin, cmd_finish = origin, cmd_occurrence = 0,
     cmd_page = 0, cmd_styleId = -1, cmd_hasCaptionFormat = False, cmd_captionFormat = new_caption,
     cmd_hasCaptionFormatSource = False, cmd_captionFormatSource = origin, cmd_hasPictureBox = False,
     cmd_hasPictureCrop = False, cmd_hasExpectedText = False, cmd_matchCase = False,
     cmd_preserveFormat = False, cmd_preflightOnly = False, cmd_pictureWidthMm = 0, cmd_pictureHeightMm = 0,
     cmd_pictureCrop = new_crop, cmd_first = [], cmd_second = [], cmd_expectedText = [],
     cmd_tableInstanceId = [], cmd_cellAddress = []\<rparr>"

record Error =
  er_code :: wstring
  er_location :: wstring
  er_message :: wstring

subsection \<open>The C runtime and Windows\<close>

text \<open>
  \<open>rt_digit\<close> is the value \<open>wcstoll\<close> gives a decimal digit, \<open>rt_wcstod\<close> returns the value
  (\<open>None\<close> for an infinity or a NaN), whether \<open>errno\<close> was set, and the text at \<open>end\<close>.
\<close>

record Runtime =
  rt_iswspace :: "wchar \<Rightarrow> bool"
  rt_iswalnum :: "wchar \<Rightarrow> bool"
  rt_digit :: "wchar \<Rightarrow> int option"
  rt_wcstod :: "wstring \<Rightarrow> double option \<times> bool \<times> wstring"
  rt_fromBase64 :: "wstring \<Rightarrow> u8 list option"
  rt_fromUtf8 :: "u8 list \<Rightarrow> wstring option"
  rt_toUtf8 :: "wstring \<Rightarrow> u8 list option"
  rt_toBase64 :: "u8 list \<Rightarrow> wstring option"

abbreviation LLONG_MAX :: int where
  "LLONG_MAX \<equiv> 9223372036854775807"

abbreviation LLONG_MIN :: int where
  "LLONG_MIN \<equiv> -9223372036854775808"

text \<open>\<open>c_str()\<close> ends at the first null character of the string.\<close>

definition c_str :: "wstring \<Rightarrow> wstring" where
  "c_str s = takeWhile (\<lambda>c. c \<noteq> 0) s"

definition is_digit :: "Runtime \<Rightarrow> wchar \<Rightarrow> bool" where
  "is_digit rt c \<longleftrightarrow> rt_digit rt c \<noteq> None"

definition decimal_value :: "Runtime \<Rightarrow> wstring \<Rightarrow> int" where
  "decimal_value rt ds = fold (\<lambda>c v. v * 10 + the (rt_digit rt c)) ds 0"

text \<open>
  \<open>wcstoll\<close> with base 10: white space, a sign, digits; no digits convert nothing and leave
  \<open>end\<close> at the start, a value outside \<open>long long\<close> is clamped and sets \<open>errno\<close>. The result is
  the value, whether \<open>errno\<close> was set, and the text at \<open>end\<close>.
\<close>

definition wcstoll :: "Runtime \<Rightarrow> wstring \<Rightarrow> int \<times> bool \<times> wstring" where
  "wcstoll rt s =
    (let s1 = dropWhile (rt_iswspace rt) s;
         negative = (s1 \<noteq> [] \<and> hd s1 = ch CHR ''-'');
         s2 = (if s1 \<noteq> [] \<and> (hd s1 = ch CHR ''-'' \<or> hd s1 = ch CHR ''+'') then tl s1 else s1);
         ds = takeWhile (is_digit rt) s2;
         v = (if negative then - decimal_value rt ds else decimal_value rt ds)
     in if ds = [] then (0, False, s)
        else if v > LLONG_MAX then (LLONG_MAX, True, dropWhile (is_digit rt) s2)
        else if v < LLONG_MIN then (LLONG_MIN, True, dropWhile (is_digit rt) s2)
        else (v, False, dropWhile (is_digit rt) s2))"

text \<open>\<open>std::to_wstring\<close> of an index.\<close>

function to_wstring :: "nat \<Rightarrow> wstring" where
  "to_wstring n = (if n < 10 then [48 + int n] else to_wstring (n div 10) @ [48 + int (n mod 10)])"
  by pat_completeness auto
termination by (relation "measure id") auto

declare to_wstring.simps [simp del]

subsection \<open>What the documentation promises of the runtime\<close>

definition ascii_digits :: "Runtime \<Rightarrow> bool" where
  "ascii_digits rt \<longleftrightarrow> (\<forall>d \<in> {0..9}. rt_digit rt (48 + d) = Some d \<and> \<not> rt_iswspace rt (48 + d))"

definition codec_inverse :: "Runtime \<Rightarrow> bool" where
  "codec_inverse rt \<longleftrightarrow>
     (\<forall>bytes text. rt_toBase64 rt bytes = Some text \<longrightarrow> rt_fromBase64 rt text = Some bytes \<and>
        set text \<inter> {0, 9, 10, 13} = {}) \<and>
     (\<forall>s bytes. rt_toUtf8 rt s = Some bytes \<longrightarrow> (bytes = [] \<longleftrightarrow> s = []) \<and> (s \<noteq> [] \<longrightarrow> rt_fromUtf8 rt bytes = Some s))"

end
