(* ===== verification/ProtocolText.thy ===== *)
theory ProtocolText
  imports ActionTypes
begin

section \<open>The text layer of the request protocols\<close>

text \<open>
  Fields and lines (\<open>Split\<close>), base64 text, decimal numbers, booleans and names, as
  ActionProtocol.cpp and BatchProtocol.cpp read them and ProtocolEncoding.cpp writes them.
\<close>

subsection \<open>Operations\<close>

text \<open>\<open>find\<close> and \<open>substr\<close> up to the next separator, until there is none.\<close>

fun Split :: "wstring \<Rightarrow> wchar \<Rightarrow> wstring list" where
  "Split [] separator = [[]]"
| "Split (c # value) separator =
     (if c = separator then [] # Split value separator
      else (case Split value separator of
              [] \<Rightarrow> [[c]]
            | field # rest \<Rightarrow> (c # field) # rest))"

definition TAB :: wchar where "TAB = 9"
definition LF :: wchar where "LF = 10"
definition CR :: wchar where "CR = 13"

definition strip_cr :: "wstring \<Rightarrow> wstring" where
  "strip_cr line = (if line \<noteq> [] \<and> last line = CR then butlast line else line)"

definition payload_lines :: "wstring \<Rightarrow> wstring list" where
  "payload_lines payload = map strip_cr (Split payload LF)"

text \<open>The two calls of each converter get the same arguments, so one result stands for both.\<close>

definition DecodeUtf8Base64 :: "Runtime \<Rightarrow> wstring \<Rightarrow> wstring option" where
  "DecodeUtf8Base64 rt encoded =
    (case rt_fromBase64 rt encoded of
       None \<Rightarrow> None
     | Some bytes \<Rightarrow>
         if bytes = [] then Some []
         else case rt_fromUtf8 rt bytes of
                None \<Rightarrow> None
              | Some decoded \<Rightarrow> if decoded = [] then None else Some decoded)"

definition EncodeUtf8Base64 :: "Runtime \<Rightarrow> wstring \<Rightarrow> wstring" where
  "EncodeUtf8Base64 rt value =
    (if int (length value) > LONG_MAX then []
     else case rt_toUtf8 rt value of
            None \<Rightarrow> []
          | Some bytes \<Rightarrow>
              if bytes = [] \<and> value \<noteq> [] then []
              else case rt_toBase64 rt bytes of None \<Rightarrow> [] | Some encoded \<Rightarrow> c_str encoded)"

definition ParseLong :: "Runtime \<Rightarrow> wstring \<Rightarrow> bool \<Rightarrow> LONG option" where
  "ParseLong rt value allowNegative =
    (if value = [] then None
     else let (parsed, range, rest) = wcstoll rt (c_str value);
              minimum = (if allowNegative then LONG_MIN else 0)
          in if range \<or> rest \<noteq> [] \<or> parsed < minimum \<or> parsed > LONG_MAX then None
             else Some parsed)"

definition ParseBoolean :: "wstring \<Rightarrow> bool option" where
  "ParseBoolean value =
    (if value = L ''0'' then Some False
     else if value = L ''1'' then Some True
     else None)"

definition PlainName :: "Runtime \<Rightarrow> wstring \<Rightarrow> bool" where
  "PlainName rt value \<longleftrightarrow>
     value \<noteq> [] \<and> length value \<le> 128 \<and>
     (\<forall>c \<in> set value. rt_iswalnum rt c \<or> c = ch CHR ''_'' \<or> c = ch CHR ''.'')"

definition PropertyPath :: "Runtime \<Rightarrow> wstring \<Rightarrow> bool" where
  "PropertyPath rt value \<longleftrightarrow>
     value \<noteq> [] \<and> length value \<le> 512 \<and> hd value \<noteq> ch CHR ''/'' \<and> last value \<noteq> ch CHR ''/'' \<and>
     (\<forall>segment \<in> set (Split value (ch CHR ''/'')). PlainName rt segment)"

text \<open>The checks on lengths and ratios; a sum of two doubles in \<open>[0, 1)\<close> rounds to at least
  \<open>1\<close> exactly from \<open>1 - 2\<^sup>-\<^sup>5\<^sup>4\<close> on, the half-way point below it.\<close>

definition strtod_whole :: "Runtime \<Rightarrow> wstring \<Rightarrow> double option" where
  "strtod_whole rt value =
    (case rt_wcstod rt (c_str value) of
       (Some parsed, False, []) \<Rightarrow> Some parsed
     | _ \<Rightarrow> None)"

definition ParsePositiveMillimeter :: "Runtime \<Rightarrow> wstring \<Rightarrow> double option" where
  "ParsePositiveMillimeter rt value =
    (if value = [] then None
     else case strtod_whole rt value of
            None \<Rightarrow> None
          | Some parsed \<Rightarrow> if parsed \<le> 0 \<or> parsed > 1000 then None else Some parsed)"

definition ParseCropFraction :: "Runtime \<Rightarrow> wstring \<Rightarrow> double option" where
  "ParseCropFraction rt value =
    (if value = [] then None
     else case strtod_whole rt value of
            None \<Rightarrow> None
          | Some parsed \<Rightarrow> if parsed < 0 \<or> parsed \<ge> 1 then None else Some parsed)"

definition sum_reaches_one :: "double \<Rightarrow> double \<Rightarrow> bool" where
  "sum_reaches_one a b \<longleftrightarrow> a + b \<ge> 1 - 1 / 18014398509481984"

definition ParseValue :: "Runtime \<Rightarrow> wstring list \<Rightarrow> nat \<Rightarrow> Value option" where
  "ParseValue rt items typeIndex =
    (case drop typeIndex items of
       kind # encoded # rest \<Rightarrow>
         if kind = L ''I4'' then
           map_option (\<lambda>i. new_value\<lparr>v_kind := VK_Integer, v_integer := i\<rparr>) (ParseLong rt encoded True)
         else if kind = L ''BOOL'' then
           map_option (\<lambda>b. new_value\<lparr>v_kind := VK_Boolean, v_boolean := b\<rparr>) (ParseBoolean encoded)
         else if kind = L ''BSTR'' then
           map_option (\<lambda>t. new_value\<lparr>v_kind := VK_Text, v_text := t\<rparr>) (DecodeUtf8Base64 rt encoded)
         else if kind = L ''MM'' then
           (case strtod_whole rt encoded of
              Some d \<Rightarrow> if - 1000 \<le> d \<and> d \<le> 10000
                        then Some (new_value\<lparr>v_kind := VK_Millimeter, v_millimeter := d\<rparr>) else None
            | None \<Rightarrow> None)
         else if kind = L ''ENUM'' \<and> rest \<noteq> [] \<and> PlainName rt encoded then
           map_option (\<lambda>t. new_value\<lparr>v_kind := VK_Enumeration, v_converter := encoded, v_text := t\<rparr>)
             (DecodeUtf8Base64 rt (hd rest))
         else None
     | _ \<Rightarrow> None)"

subsection \<open>Splitting and joining\<close>

fun join :: "wchar \<Rightarrow> wstring list \<Rightarrow> wstring" where
  "join c [] = []"
| "join c [f] = f"
| "join c (f # g # fs) = f @ c # join c (g # fs)"

lemma Split_not_Nil [simp]: "Split s c \<noteq> []"
  by (induction s) (auto split: list.splits)

lemma join_Cons: "fs \<noteq> [] \<Longrightarrow> join c (f # fs) = f @ c # join c fs"
  by (cases fs) simp_all

lemma join_push: "fs \<noteq> [] \<Longrightarrow> join c ((x # hd fs) # tl fs) = x # join c fs"
  by (cases fs; cases "tl fs") simp_all

lemma join_Split: "join c (Split s c) = s"
proof (induction s)
  case (Cons x s)
  then show ?case
    by (cases "Split s c"; cases "tl (Split s c)") (auto simp: join_Cons)
qed simp

lemma Split_fields: "f \<in> set (Split s c) \<Longrightarrow> c \<notin> set f"
  by (induction s arbitrary: f) (auto split: list.splits if_splits)

lemma Split_no_sep: "c \<notin> set s \<Longrightarrow> Split s c = [s]"
  by (induction s) auto

lemma Split_append: "c \<notin> set f \<Longrightarrow> Split (f @ c # s) c = f # Split s c"
  by (induction f) (auto split: list.splits)

lemma Split_join: "fs \<noteq> [] \<Longrightarrow> \<forall>f \<in> set fs. c \<notin> set f \<Longrightarrow> Split (join c fs) c = fs"
  by (induction c fs rule: join.induct) (auto simp: Split_no_sep Split_append)

text \<open>Splitting is exact in both directions: the fields of a text joined with the
  separator give the text back, no field contains the separator, and every list of fields
  without it is what splitting its join returns.\<close>

theorem Split_join_exact:
  "join c (Split s c) = s \<and> (\<forall>f \<in> set (Split s c). c \<notin> set f) \<and>
   (\<forall>fs. fs \<noteq> [] \<and> (\<forall>f \<in> set fs. c \<notin> set f) \<longrightarrow> Split (join c fs) c = fs)"
  by (auto simp: join_Split Split_fields Split_join)

theorem Split_join_exact_witness:
  "Split (join TAB [L ''RUN'', [], L ''Cancel'']) TAB = [L ''RUN'', [], L ''Cancel'']"
proof -
  have "\<forall>f \<in> set [L ''RUN'', [], L ''Cancel'']. TAB \<notin> set f"
    by (simp add: TAB_def L_def)
  then show ?thesis
    using Split_join_exact [of TAB "[]"] by blast
qed

subsection \<open>Numbers\<close>

lemma ParseLong_range:
  "ParseLong rt s b = Some v \<Longrightarrow> (if b then LONG_MIN else 0) \<le> v \<and> v \<le> LONG_MAX"
  by (auto simp: ParseLong_def Let_def split: prod.splits if_splits)

definition decimal_text :: "wstring \<Rightarrow> bool" where
  "decimal_text s \<longleftrightarrow> (\<forall>c \<in> set s. 48 \<le> c \<and> c \<le> 57)"

lemma to_wstring_decimal: "decimal_text (to_wstring n)" and to_wstring_not_Nil: "to_wstring n \<noteq> []"
proof (induction n rule: to_wstring.induct)
  case (1 n)
  { case 1 show ?case using "1.IH"(1) by (subst to_wstring.simps) (auto simp: decimal_text_def) }
  { case 2 show ?case by (subst to_wstring.simps) simp }
qed

lemma is_digit_decimal:
  assumes "ascii_digits rt" "decimal_text s" "c \<in> set s"
  shows "is_digit rt c" "\<not> rt_iswspace rt c" "the (rt_digit rt c) = c - 48" "c \<noteq> 0" "c \<noteq> 45" "c \<noteq> 43"
proof -
  have "c = 48 + (c - 48)" "c - 48 \<in> {0..9}"
    using assms(2,3) by (auto simp: decimal_text_def)
  then have "rt_digit rt c = Some (c - 48) \<and> \<not> rt_iswspace rt c"
    using assms(1) unfolding ascii_digits_def by metis
  then show "is_digit rt c" "\<not> rt_iswspace rt c" "the (rt_digit rt c) = c - 48"
    by (simp_all add: is_digit_def)
  show "c \<noteq> 0" "c \<noteq> 45" "c \<noteq> 43"
    using assms(2,3) by (auto simp: decimal_text_def)
qed

lemma decimal_value_to_wstring:
  assumes "ascii_digits rt"
  shows "decimal_value rt (to_wstring n) = int n"
proof (induction n rule: to_wstring.induct)
  case (1 n)
  have digit: "rt_digit rt (48 + int d) = Some (int d)" if "d < 10" for d
    using assms that unfolding ascii_digits_def by force
  show ?case
  proof (cases "n < 10")
    case True
    then show ?thesis
      by (subst to_wstring.simps) (simp add: decimal_value_def digit)
  next
    case False
    then have "decimal_value rt (to_wstring n) = int (n div 10) * 10 + int (n mod 10)"
      using 1 by (subst to_wstring.simps) (simp add: decimal_value_def digit)
    also have "\<dots> = int (n div 10 * 10 + n mod 10)"
      by (simp only: of_nat_add of_nat_mult of_nat_numeral)
    finally show ?thesis by simp
  qed
qed

lemma wcstoll_decimal:
  assumes rt: "ascii_digits rt" and s: "decimal_text s" "s \<noteq> []" "0 \<le> decimal_value rt s" "decimal_value rt s \<le> LONG_MAX"
  shows "wcstoll rt s = (decimal_value rt s, False, [])"
    and "\<not> rt_iswspace rt 45 \<Longrightarrow> wcstoll rt (45 # s) = (- decimal_value rt s, False, [])"
proof -
  note D = is_digit_decimal [OF rt s(1)]
  have "dropWhile (rt_iswspace rt) s = s" "hd s \<noteq> 45" "hd s \<noteq> 43"
    using s(2) D(2,5,6) by (cases s; simp)+
  moreover have "takeWhile (is_digit rt) s = s" "dropWhile (is_digit rt) s = []"
    using D(1) by (simp_all add: takeWhile_eq_all_conv)
  ultimately show "wcstoll rt s = (decimal_value rt s, False, [])"
    and "\<not> rt_iswspace rt 45 \<Longrightarrow> wcstoll rt (45 # s) = (- decimal_value rt s, False, [])"
    using s(2-) by (simp_all add: wcstoll_def Let_def ch_def del: takeWhile_eq_all_conv)
qed

lemma ParseLong_decimal_value:
  assumes "ascii_digits rt" "int n \<le> LONG_MAX"
  shows "ParseLong rt (to_wstring n) negative = Some (int n)"
    and "\<not> rt_iswspace rt 45 \<Longrightarrow> ParseLong rt (45 # to_wstring n) True = Some (- int n)"
proof -
  have "\<forall>c \<in> set (to_wstring n). c \<noteq> 0"
    using is_digit_decimal(4) [OF assms(1) to_wstring_decimal] by blast
  then have c_str: "c_str (to_wstring n) = to_wstring n" "c_str (45 # to_wstring n) = 45 # to_wstring n"
    by (simp_all add: c_str_def takeWhile_eq_all_conv)
  note W = wcstoll_decimal [OF assms(1) to_wstring_decimal to_wstring_not_Nil, of n, unfolded decimal_value_to_wstring [OF assms(1)]]
  show "ParseLong rt (to_wstring n) negative = Some (int n)"
    using assms(2) W(1) by (simp add: ParseLong_def c_str to_wstring_not_Nil)
  show "\<not> rt_iswspace rt 45 \<Longrightarrow> ParseLong rt (45 # to_wstring n) True = Some (- int n)"
    using assms(2) W(2) by (simp add: ParseLong_def c_str)
qed

text \<open>\<open>ParseLong\<close> reads back the decimal text of every \<open>LONG\<close>, with a minus sign where
  the caller allows one, and never returns a value outside the range it promises.\<close>

theorem ParseLong_decimal:
  assumes "ascii_digits rt" "\<not> rt_iswspace rt 45"
  shows "(int n \<le> LONG_MAX \<longrightarrow> ParseLong rt (to_wstring n) negative = Some (int n) \<and>
           ParseLong rt (45 # to_wstring n) True = Some (- int n)) \<and>
    (\<forall>v. ParseLong rt s negative = Some v \<longrightarrow> (if negative then LONG_MIN else 0) \<le> v \<and> v \<le> LONG_MAX)"
  using ParseLong_decimal_value [OF assms(1)] assms(2) ParseLong_range by blast

text \<open>The number is read from the C string, which ends at the first null character: text after
  it is accepted unread.\<close>

lemma ParseLong_null:
  "s \<noteq> [] \<Longrightarrow> 0 \<notin> set s \<Longrightarrow> ParseLong rt (s @ 0 # junk) negative = ParseLong rt s negative"
proof -
  assume s: "s \<noteq> []" "0 \<notin> set s"
  from s(2) have "c_str (s @ 0 # junk) = c_str s"
    unfolding c_str_def by (induction s) auto
  then show ?thesis
    using s(1) by (simp add: ParseLong_def)
qed

subsection \<open>Base64 text\<close>

lemma Decode_Encode:
  assumes rt: "codec_inverse rt" and s: "rt_toUtf8 rt s = Some bytes" "rt_toBase64 rt bytes = Some encoded"
    and len: "int (length s) \<le> LONG_MAX"
  shows "DecodeUtf8Base64 rt (EncodeUtf8Base64 rt s) = Some s"
proof -
  have bytes: "bytes = [] \<longleftrightarrow> s = []" "s \<noteq> [] \<Longrightarrow> rt_fromUtf8 rt bytes = Some s"
    and encoded: "rt_fromBase64 rt encoded = Some bytes" "0 \<notin> set encoded"
    using rt s unfolding codec_inverse_def by (blast, blast, blast, blast)
  have "c_str encoded = encoded"
    using encoded(2) unfolding c_str_def by (intro takeWhile_eq_all_conv [THEN iffD2]) blast
  then have "EncodeUtf8Base64 rt s = encoded"
    using s len bytes by (auto simp: EncodeUtf8Base64_def)
  then show ?thesis
    using bytes encoded by (cases "s = []") (simp_all add: DecodeUtf8Base64_def)
qed

subsection \<open>A sample runtime\<close>

text \<open>ASCII character tables, ASCII text for UTF-8 and two letters per byte for base64.\<close>

fun nibble_text :: "u8 list \<Rightarrow> wstring" where
  "nibble_text [] = []"
| "nibble_text (b # bs) = (65 + uint b div 16) # (65 + uint b mod 16) # nibble_text bs"

fun text_nibbles :: "wstring \<Rightarrow> u8 list option" where
  "text_nibbles [] = Some []"
| "text_nibbles (hi # lo # s) =
     (if 65 \<le> hi \<and> hi \<le> 80 \<and> 65 \<le> lo \<and> lo \<le> 80
      then map_option ((#) (word_of_int ((hi - 65) * 16 + (lo - 65)))) (text_nibbles s) else None)"
| "text_nibbles _ = None"

definition ascii_digit :: "wchar \<Rightarrow> int option" where
  "ascii_digit c = (if 48 \<le> c \<and> c \<le> 57 then Some (c - 48) else None)"

definition sample_runtime :: Runtime where
  "sample_runtime =
    \<lparr>rt_iswspace = (\<lambda>c. c = 32 \<or> 9 \<le> c \<and> c \<le> 13),
     rt_iswalnum = (\<lambda>c. 48 \<le> c \<and> c \<le> 57 \<or> 65 \<le> c \<and> c \<le> 90 \<or> 97 \<le> c \<and> c \<le> 122),
     rt_digit = ascii_digit,
     rt_wcstod = (\<lambda>s. (Some (of_int (fold (\<lambda>c v. v * 10 + (c - 48)) (takeWhile (\<lambda>c. ascii_digit c \<noteq> None) s) 0)),
                      False, dropWhile (\<lambda>c. ascii_digit c \<noteq> None) s)),
     rt_fromBase64 = text_nibbles,
     rt_fromUtf8 = (\<lambda>bs. Some (map uint bs)),
     rt_toUtf8 = (\<lambda>s. if list_all (\<lambda>c. 0 \<le> c \<and> c < 128) s then Some (map word_of_int s) else None),
     rt_toBase64 = (\<lambda>bs. Some (nibble_text bs))\<rparr>"

lemma text_nibbles_text: "text_nibbles (nibble_text bs) = Some bs"
proof (induction bs)
  case (Cons b bs)
  have "0 \<le> uint b" "uint b < 256"
    using unsigned_less [where 'b = 8 and 'a = int, of b] by simp_all
  then have "uint b div 16 \<le> 15" "0 \<le> uint b div 16" "uint b mod 16 \<le> 15" "0 \<le> uint b mod 16"
    by (simp_all add: pos_imp_zdiv_nonneg_iff)
  moreover have "word_of_int (uint b div 16 * 16 + uint b mod 16) = b"
    by (simp only: div_mult_mod_eq word_of_int_uint)
  ultimately show ?case
    using Cons.IH by simp
qed simp

lemma nibble_text_letters: "set (nibble_text bs) \<inter> {0, 9, 10, 13} = {}"
proof (induction bs)
  case (Cons b bs)
  have "0 \<le> uint b div 16" "0 \<le> uint b mod 16"
    by (simp_all add: pos_imp_zdiv_nonneg_iff)
  with Cons.IH show ?case by auto
qed simp

lemma sample_runtime_ok: "ascii_digits sample_runtime" "\<not> rt_iswspace sample_runtime 45" "codec_inverse sample_runtime"
proof -
  show "ascii_digits sample_runtime" "\<not> rt_iswspace sample_runtime 45"
    by (auto simp: ascii_digits_def sample_runtime_def ascii_digit_def)
  have "map uint (map word_of_int s :: u8 list) = s" if "list_all (\<lambda>c. 0 \<le> c \<and> c < 128) s" for s :: wstring
    using that by (induction s) (simp_all add: unsigned_of_int take_bit_int_eq_self)
  then show "codec_inverse sample_runtime"
    using text_nibbles_text nibble_text_letters unfolding codec_inverse_def by (auto simp: sample_runtime_def)
qed

theorem ParseLong_decimal_witness:
  "ParseLong sample_runtime (to_wstring 2147483647) False = Some 2147483647"
  using ParseLong_decimal [OF sample_runtime_ok(1,2), of 2147483647] by simp

end
