(* ===== verification/ActionProtocol.thy ===== *)
theory ActionProtocol
  imports ProtocolText
begin

section \<open>The action protocol (ActionProtocol.cpp)\<close>

text \<open>
  \<open>ParseRequest\<close> reads an HCA1 payload: a header, a document record, three optional
  expectation records, the command records and \<open>END\<close>. A record is the list of its fields. The
  conditions of the record chain exclude each other by name, size and second field, so a record
  whose condition fails half-way matches no later one; what such a condition has already stored
  in the command is dropped with it. The model covers the parse; allocation failures, which the
  source reports as an error, do not occur in it.
\<close>

subsection \<open>Requests\<close>

record Request =
  rq_documentId :: LONG
  rq_fullName :: wstring
  rq_atomic :: bool
  rq_expectedCursor :: "Position option"
  rq_expectedSelection :: "(bool \<times> Position \<times> Position) option"
  rq_commands :: "Command list"

definition kMaximumPayloadCharacters :: int where
  "kMaximumPayloadCharacters = 8000000"

definition kMaximumCommands :: int where
  "kMaximumCommands = 20000"

definition bad_request :: "wstring \<Rightarrow> string \<Rightarrow> Error" where
  "bad_request location message =
     \<lparr>er_code = L ''BAD_REQUEST'', er_location = location, er_message = L message\<rparr>"

definition guard :: "bool \<Rightarrow> unit option" where
  "guard b = (if b then Some () else None)"

definition parse_position :: "Runtime \<Rightarrow> wstring list \<Rightarrow> nat \<Rightarrow> Position option" where
  "parse_position rt f i = do {
     l \<leftarrow> ParseLong rt (f ! i) False;
     p \<leftarrow> ParseLong rt (f ! (i + 1)) False;
     c \<leftarrow> ParseLong rt (f ! (i + 2)) False;
     Some \<lparr>pos_list = l, pos_paragraph = p, pos_character = c\<rparr>
   }"

definition decode_nonempty :: "Runtime \<Rightarrow> wstring \<Rightarrow> wstring option" where
  "decode_nonempty rt encoded = do {
     t \<leftarrow> DecodeUtf8Base64 rt encoded;
     guard (t \<noteq> []);
     Some t
   }"

text \<open>The last field of a text patch, where the record has it.\<close>

definition optional_boolean :: "wstring list \<Rightarrow> nat \<Rightarrow> bool option" where
  "optional_boolean f i = (if length f = i then Some False else ParseBoolean (f ! i))"

subsection \<open>Records that are one line\<close>

definition parse_control :: "Runtime \<Rightarrow> CommandKind \<Rightarrow> wstring \<Rightarrow> Command option" where
  "parse_control rt kind encoded =
     map_option (\<lambda>t. new_command\<lparr>cmd_kind := kind, cmd_first := t\<rparr>) (decode_nonempty rt encoded)"

definition parse_navigation :: "Runtime \<Rightarrow> wstring list \<Rightarrow> Command option" where
  "parse_navigation rt f =
    (let n = length f; name = hd f in
     if name = L ''RUN'' \<and> n = 2 then do {
       guard (PlainName rt (f ! 1));
       Some (new_command\<lparr>cmd_kind := CK_Run, cmd_name := f ! 1\<rparr>) }
     else if name = L ''MOVE_PAGE'' \<and> n = 2 then do {
       page \<leftarrow> ParseLong rt (f ! 1) False;
       guard (page > 0);
       Some (new_command\<lparr>cmd_kind := CK_MovePage, cmd_page := page\<rparr>) }
     else if name = L ''MOVE_POSITION'' \<and> n = 4 then do {
       p \<leftarrow> parse_position rt f 1;
       Some (new_command\<lparr>cmd_kind := CK_MovePosition, cmd_start := p\<rparr>) }
     else if name = L ''SELECT_CONTROL'' \<and> n = 2 then parse_control rt CK_SelectControl (f ! 1)
     else if name = L ''DELETE_CONTROL'' \<and> n = 2 then parse_control rt CK_DeleteControl (f ! 1)
     else if name = L ''COPY_CONTROL'' \<and> n = 2 then parse_control rt CK_CopyControl (f ! 1)
     else if name = L ''SAVE_DOCUMENT_FILE'' \<and> n = 2 then parse_control rt CK_SaveDocumentFile (f ! 1)
     else if name = L ''CAPTURE_DOCUMENT_BLOCK_PROBE'' \<and> n = 2 then
       parse_control rt CK_CaptureDocumentBlockProbe (f ! 1)
     else if name = L ''RESTORE_DOCUMENT_FILE'' \<and> n = 3 then do {
       t \<leftarrow> decode_nonempty rt (f ! 1);
       page \<leftarrow> ParseLong rt (f ! 2) False;
       guard (page > 0);
       Some (new_command\<lparr>cmd_kind := CK_RestoreDocumentFile, cmd_first := t, cmd_page := page\<rparr>) }
     else if name = L ''APPLY_COPIED_TABLE_ANCHOR'' \<and> n = 2 then
       parse_control rt CK_ApplyCopiedTableAnchor (f ! 1)
     else if name = L ''PASTE_TABLE'' \<and> n = 1 then Some (new_command\<lparr>cmd_kind := CK_PasteTable\<rparr>)
     else if name = L ''CAPTURE_TABLE'' \<and> n = 1 then Some (new_command\<lparr>cmd_kind := CK_CaptureTable\<rparr>)
     else if name = L ''MOVE_DOC_END'' \<and> n = 1 then Some (new_command\<lparr>cmd_kind := CK_MoveDocumentEnd\<rparr>)
     else if name = L ''DELETE_TAIL'' \<and> n = 5 then do {
       p \<leftarrow> parse_position rt f 1;
       t \<leftarrow> decode_nonempty rt (f ! 4);
       Some (new_command\<lparr>cmd_kind := CK_DeleteTail, cmd_start := p, cmd_first := t\<rparr>) }
     else None)"

definition parse_insertion :: "Runtime \<Rightarrow> wstring list \<Rightarrow> Command option" where
  "parse_insertion rt f =
    (let n = length f; name = hd f in
     if name = L ''INSERT_TEXT'' \<and> n = 2 then do {
       t \<leftarrow> DecodeUtf8Base64 rt (f ! 1);
       Some (new_command\<lparr>cmd_kind := CK_InsertText, cmd_first := t\<rparr>) }
     else if name = L ''REPLACE_SELECTION'' \<and> n = 3 then do {
       t \<leftarrow> DecodeUtf8Base64 rt (f ! 1);
       u \<leftarrow> DecodeUtf8Base64 rt (f ! 2);
       Some (new_command\<lparr>cmd_kind := CK_ReplaceSelection, cmd_first := t, cmd_second := u\<rparr>) }
     else if name = L ''PREPARE_TEXT'' \<and> n = 9 \<and> f ! 1 = L ''RANGE'' then do {
       p \<leftarrow> parse_position rt f 2;
       q \<leftarrow> parse_position rt f 5;
       u \<leftarrow> DecodeUtf8Base64 rt (f ! 8);
       Some (new_command\<lparr>cmd_kind := CK_TextPatch, cmd_name := f ! 1, cmd_start := p, cmd_finish := q,
                         cmd_second := u, cmd_preflightOnly := True\<rparr>) }
     else if name = L ''PREPARE_TEXT'' \<and> n = 7 \<and> f ! 1 = L ''CELL'' then do {
       table \<leftarrow> decode_nonempty rt (f ! 2);
       guard (f ! 3 \<noteq> []);
       occurrence \<leftarrow> ParseLong rt (f ! 4) False;
       matchCase \<leftarrow> ParseBoolean (f ! 5);
       u \<leftarrow> DecodeUtf8Base64 rt (f ! 6);
       Some (new_command\<lparr>cmd_kind := CK_TextPatch, cmd_name := f ! 1, cmd_tableInstanceId := table,
                         cmd_cellAddress := f ! 3, cmd_occurrence := occurrence, cmd_matchCase := matchCase,
                         cmd_second := u, cmd_preflightOnly := True\<rparr>) }
     else None)"

text \<open>The record \<open>PATCH_TEXT FIND\<close> or \<open>PATCH_TEXT CELL\<close> of a table cell.\<close>

definition parse_cell_patch :: "Runtime \<Rightarrow> wstring list \<Rightarrow> Command option" where
  "parse_cell_patch rt f = do {
     table \<leftarrow> decode_nonempty rt (f ! 2);
     guard (f ! 3 \<noteq> []);
     occurrence \<leftarrow> ParseLong rt (f ! 4) False;
     matchCase \<leftarrow> ParseBoolean (f ! 5);
     t \<leftarrow> decode_nonempty rt (f ! 6);
     u \<leftarrow> DecodeUtf8Base64 rt (f ! 7);
     preserve \<leftarrow> optional_boolean f 8;
     Some (new_command\<lparr>cmd_kind := CK_TextPatch, cmd_name := f ! 1, cmd_tableInstanceId := table,
                       cmd_cellAddress := f ! 3, cmd_occurrence := occurrence, cmd_matchCase := matchCase,
                       cmd_first := t, cmd_second := u, cmd_preserveFormat := preserve,
                       cmd_hasExpectedText := True\<rparr>)
   }"

definition parse_patch :: "Runtime \<Rightarrow> wstring list \<Rightarrow> Command option" where
  "parse_patch rt f =
    (let n = length f in
     if hd f \<noteq> L ''PATCH_TEXT'' then None
     else if (n = 5 \<or> n = 6) \<and> f ! 1 = L ''CURRENT'' then do {
       expected \<leftarrow> ParseBoolean (f ! 2);
       t \<leftarrow> DecodeUtf8Base64 rt (f ! 3);
       u \<leftarrow> DecodeUtf8Base64 rt (f ! 4);
       guard (expected \<or> t = []);
       preserve \<leftarrow> optional_boolean f 5;
       Some (new_command\<lparr>cmd_kind := CK_TextPatch, cmd_name := f ! 1, cmd_hasExpectedText := expected,
                         cmd_first := t, cmd_second := u, cmd_preserveFormat := preserve\<rparr>) }
     else if (n = 10 \<or> n = 11) \<and> f ! 1 = L ''RANGE'' then do {
       p \<leftarrow> parse_position rt f 2;
       q \<leftarrow> parse_position rt f 5;
       t \<leftarrow> decode_nonempty rt (f ! 8);
       u \<leftarrow> DecodeUtf8Base64 rt (f ! 9);
       preserve \<leftarrow> optional_boolean f 10;
       Some (new_command\<lparr>cmd_kind := CK_TextPatch, cmd_name := f ! 1, cmd_start := p, cmd_finish := q,
                         cmd_first := t, cmd_second := u, cmd_preserveFormat := preserve,
                         cmd_hasExpectedText := True\<rparr>) }
     else if (n = 6 \<or> n = 7) \<and> f ! 1 = L ''FIND'' then do {
       occurrence \<leftarrow> ParseLong rt (f ! 2) False;
       matchCase \<leftarrow> ParseBoolean (f ! 3);
       t \<leftarrow> decode_nonempty rt (f ! 4);
       u \<leftarrow> DecodeUtf8Base64 rt (f ! 5);
       preserve \<leftarrow> optional_boolean f 6;
       Some (new_command\<lparr>cmd_kind := CK_TextPatch, cmd_name := f ! 1, cmd_occurrence := occurrence,
                         cmd_matchCase := matchCase, cmd_first := t, cmd_second := u,
                         cmd_preserveFormat := preserve, cmd_hasExpectedText := True\<rparr>) }
     else if (n = 8 \<or> n = 9) \<and> f ! 1 = L ''FIND'' then parse_cell_patch rt f
     else if (n = 8 \<or> n = 9) \<and> f ! 1 = L ''CELL'' then parse_cell_patch rt f
     else None)"

definition parse_cell_record :: "Runtime \<Rightarrow> wstring list \<Rightarrow> Command option" where
  "parse_cell_record rt f =
    (let n = length f; name = hd f in
     if name = L ''CELL'' \<and> n = 2 then do {
       guard (f ! 1 \<noteq> []);
       Some (new_command\<lparr>cmd_kind := CK_Cell, cmd_first := f ! 1\<rparr>) }
     else if name = L ''SET_CELL_TEXT'' \<and> n = 5 then do {
       guard (f ! 1 \<noteq> []);
       expected \<leftarrow> DecodeUtf8Base64 rt (f ! 2);
       u \<leftarrow> DecodeUtf8Base64 rt (f ! 3);
       preserve \<leftarrow> ParseBoolean (f ! 4);
       Some (new_command\<lparr>cmd_kind := CK_SetCellText, cmd_first := f ! 1, cmd_expectedText := expected,
                         cmd_second := u, cmd_preserveFormat := preserve, cmd_hasExpectedText := True\<rparr>) }
     else if name = L ''SET_CELL_TEXT'' \<and> n = 3 then do {
       guard (f ! 1 \<noteq> []);
       u \<leftarrow> DecodeUtf8Base64 rt (f ! 2);
       Some (new_command\<lparr>cmd_kind := CK_SetCellText, cmd_first := f ! 1, cmd_second := u\<rparr>) }
     else if name = L ''MERGE'' \<and> n = 3 then do {
       guard (f ! 1 \<noteq> [] \<and> f ! 2 \<noteq> []);
       Some (new_command\<lparr>cmd_kind := CK_Merge, cmd_first := f ! 1, cmd_second := f ! 2\<rparr>) }
     else if name = L ''LEAVE_TABLE'' \<and> n = 1 then Some (new_command\<lparr>cmd_kind := CK_LeaveTable\<rparr>)
     else None)"

subsection \<open>Pictures and captions\<close>

text \<open>These two records report their own errors once the record is recognised: \<open>None\<close> means
  that the record is not one of them.\<close>

definition parse_crop :: "Runtime \<Rightarrow> wstring list \<Rightarrow> PictureCrop option" where
  "parse_crop rt f = do {
     l \<leftarrow> ParseCropFraction rt (f ! 4);
     t \<leftarrow> ParseCropFraction rt (f ! 5);
     r \<leftarrow> ParseCropFraction rt (f ! 6);
     b \<leftarrow> ParseCropFraction rt (f ! 7);
     guard (\<not> sum_reaches_one l r \<and> \<not> sum_reaches_one t b);
     Some \<lparr>crop_left = l, crop_top = t, crop_right = r, crop_bottom = b\<rparr>
   }"

definition picture_box :: "Runtime \<Rightarrow> wstring list \<Rightarrow> (double \<times> double) option" where
  "picture_box rt f =
    (if length f \<ge> 4 then do {
       w \<leftarrow> ParsePositiveMillimeter rt (f ! 2);
       h \<leftarrow> ParsePositiveMillimeter rt (f ! 3);
       Some (w, h)
     } else Some (0, 0))"

definition picture_crop :: "Runtime \<Rightarrow> wstring list \<Rightarrow> PictureCrop option" where
  "picture_crop rt f = (if length f = 8 then parse_crop rt f else Some new_crop)"

definition parse_picture :: "Runtime \<Rightarrow> wstring list \<Rightarrow> (Error + Command) option" where
  "parse_picture rt f =
    (if hd f = L ''INSERT_PICTURE'' \<and> length f \<in> {2, 4, 8} then
       (case decode_nonempty rt (f ! 1) of
          None \<Rightarrow> None
        | Some t \<Rightarrow> Some (
            case picture_box rt f of
              None \<Rightarrow> Inl (bad_request (L ''INSERT_PICTURE'') ''picture box is invalid'')
            | Some (w, h) \<Rightarrow>
                case picture_crop rt f of
                  None \<Rightarrow> Inl (bad_request (L ''INSERT_PICTURE'') ''picture crop is invalid'')
                | Some crop \<Rightarrow>
                    Inr (new_command\<lparr>cmd_kind := CK_InsertPicture, cmd_first := t, cmd_pictureWidthMm := w,
                                     cmd_pictureHeightMm := h, cmd_pictureCrop := crop,
                                     cmd_hasPictureBox := length f \<ge> 4, cmd_hasPictureCrop := length f = 8\<rparr>)))
     else None)"

definition parse_caption_format :: "Runtime \<Rightarrow> wstring list \<Rightarrow> CaptionFormat option" where
  "parse_caption_format rt f = do {
     face \<leftarrow> decode_nonempty rt (f ! 3);
     height \<leftarrow> ParseLong rt (f ! 4) False;
     guard (height > 0);
     bold \<leftarrow> ParseBoolean (f ! 5);
     color \<leftarrow> ParseLong rt (f ! 6) False;
     alignment \<leftarrow> ParseLong rt (f ! 7) False;
     guard (alignment \<le> 3);
     lineSpacing \<leftarrow> ParseLong rt (f ! 8) False;
     guard (lineSpacing > 0);
     leftMargin \<leftarrow> ParseLong rt (f ! 9) True;
     rightMargin \<leftarrow> ParseLong rt (f ! 10) True;
     indentation \<leftarrow> ParseLong rt (f ! 11) True;
     previous \<leftarrow> ParseLong rt (f ! 12) True;
     following \<leftarrow> ParseLong rt (f ! 13) True;
     Some \<lparr>cf_faceName = face, cf_height = height, cf_bold = bold, cf_textColor = color,
           cf_alignment = alignment, cf_lineSpacing = lineSpacing, cf_leftMargin = leftMargin,
           cf_rightMargin = rightMargin, cf_indentation = indentation, cf_previousSpacing = previous,
           cf_nextSpacing = following\<rparr>
   }"

definition caption_direct :: "wstring list \<Rightarrow> bool" where
  "caption_direct f \<longleftrightarrow> length f = 14 \<or> length f = 17"

definition caption_source :: "wstring list \<Rightarrow> bool" where
  "caption_source f \<longleftrightarrow> length f = 6 \<or> length f = 17"

definition caption_format :: "Runtime \<Rightarrow> wstring list \<Rightarrow> CaptionFormat option" where
  "caption_format rt f = (if caption_direct f then parse_caption_format rt f else Some new_caption)"

definition caption_position :: "Runtime \<Rightarrow> wstring list \<Rightarrow> Position option" where
  "caption_position rt f =
    (if caption_source f then parse_position rt f (if caption_direct f then 14 else 3) else Some origin)"

definition parse_caption :: "Runtime \<Rightarrow> wstring list \<Rightarrow> (Error + Command) option" where
  "parse_caption rt f =
    (if hd f = L ''CAPTION'' \<and> length f \<in> {3, 6, 14, 17} then
       (case (ParseLong rt (f ! 1) False, decode_nonempty rt (f ! 2)) of
          (Some style, Some t) \<Rightarrow> Some (
            case caption_format rt f of
              None \<Rightarrow> Inl (bad_request (L ''CAPTION'') ''caption direct format is invalid'')
            | Some format \<Rightarrow>
                case caption_position rt f of
                  None \<Rightarrow> Inl (bad_request (L ''CAPTION'') ''caption format source is invalid'')
                | Some p \<Rightarrow>
                    Inr (new_command\<lparr>cmd_kind := CK_Caption, cmd_styleId := style, cmd_first := t,
                                     cmd_hasCaptionFormat := caption_direct f, cmd_captionFormat := format,
                                     cmd_hasCaptionFormatSource := caption_source f,
                                     cmd_captionFormatSource := p\<rparr>))
        | _ \<Rightarrow> None)
     else None)"

subsection \<open>Records of several lines\<close>

text \<open>A value must use up its item: one field more for an enumeration.\<close>

definition value_of_item :: "Runtime \<Rightarrow> wstring list \<Rightarrow> nat \<Rightarrow> Value option" where
  "value_of_item rt item i =
    (case ParseValue rt item i of
       None \<Rightarrow> None
     | Some v \<Rightarrow>
         if v_kind v = VK_Enumeration \<and> length item \<noteq> i + 3 \<or>
            v_kind v \<noteq> VK_Enumeration \<and> length item \<noteq> i + 2
         then None else Some v)"

text \<open>
  One line of an \<open>ACTION\<close>: a property, the declaration of an array, or an element of a declared
  array. \<open>arrays\<close> holds the declared lengths, \<open>number\<close> is the line number of the message.
\<close>

definition array_count :: "Runtime \<Rightarrow> wstring list \<Rightarrow> (wstring \<rightharpoonup> LONG) \<Rightarrow> LONG option" where
  "array_count rt item arrays = do {
     count \<leftarrow> ParseLong rt (item ! 2) False;
     guard (1 \<le> count \<and> count \<le> 10000 \<and> arrays (item ! 1) = None);
     Some count
   }"

definition array_element :: "Runtime \<Rightarrow> wstring list \<Rightarrow> (wstring \<rightharpoonup> LONG) \<Rightarrow> ArrayValue option" where
  "array_element rt item arrays = do {
     count \<leftarrow> arrays (item ! 1);
     index \<leftarrow> ParseLong rt (item ! 2) False;
     guard (0 \<le> index \<and> index < count);
     v \<leftarrow> value_of_item rt item 3;
     Some \<lparr>av_name = item ! 1, av_index = index, av_value = v\<rparr>
   }"

definition action_item ::
  "Runtime \<Rightarrow> nat \<Rightarrow> wstring list \<Rightarrow> (wstring \<rightharpoonup> LONG) \<Rightarrow> Command \<Rightarrow> Error + ((wstring \<rightharpoonup> LONG) \<times> Command)" where
  "action_item rt number item arrays cmd =
    (if length item \<ge> 4 \<and> item ! 0 = L ''SET'' \<and> PropertyPath rt (item ! 1) then
       (case value_of_item rt item 2 of
          None \<Rightarrow> Inl (bad_request (item ! 1) ''ACTION SET value is invalid'')
        | Some v \<Rightarrow> Inr (arrays, cmd\<lparr>cmd_setters := cmd_setters cmd @ [\<lparr>set_path = item ! 1, set_value = v\<rparr>]\<rparr>))
     else if length item = 3 \<and> item ! 0 = L ''ARRAY'' \<and> PlainName rt (item ! 1) then
       (case array_count rt item arrays of
          None \<Rightarrow> Inl (bad_request (item ! 1) ''ACTION ARRAY is invalid'')
        | Some count \<Rightarrow>
            Inr (arrays(item ! 1 \<mapsto> count), cmd\<lparr>cmd_arrays := cmd_arrays cmd @ [(item ! 1, count)]\<rparr>))
     else if length item \<ge> 5 \<and> item ! 0 = L ''ASET'' \<and> PlainName rt (item ! 1) then
       (case array_element rt item arrays of
          None \<Rightarrow> Inl (bad_request (item ! 1) ''ACTION ASET is invalid'')
        | Some v \<Rightarrow> Inr (arrays, cmd\<lparr>cmd_arrayValues := cmd_arrayValues cmd @ [v]\<rparr>))
     else Inl (bad_request (to_wstring (number + 1)) ''ACTION item is invalid''))"

text \<open>The lines up to \<open>ENDACTION\<close>; the result is the command, and the lines after the record
  with the number of the first of them.\<close>

fun action_items ::
  "Runtime \<Rightarrow> nat \<Rightarrow> wstring list \<Rightarrow> (wstring \<rightharpoonup> LONG) \<Rightarrow> Command \<Rightarrow> Error + (Command \<times> nat \<times> wstring list)" where
  "action_items rt index [] arrays cmd = Inl (bad_request (cmd_name cmd) ''ACTION has no ENDACTION'')"
| "action_items rt index (line # rest) arrays cmd =
     (if line = L ''ENDACTION'' then Inr (cmd, index + 1, rest)
      else case action_item rt index (Split line TAB) arrays cmd of
             Inl e \<Rightarrow> Inl e
           | Inr (arrays', cmd') \<Rightarrow> action_items rt (index + 1) rest arrays' cmd')"

definition call_argument :: "Runtime \<Rightarrow> wstring list \<Rightarrow> Value option" where
  "call_argument rt item =
    (if length item < 3 \<or> item ! 0 \<noteq> L ''ARG'' then None else value_of_item rt item 1)"

fun call_items ::
  "Runtime \<Rightarrow> nat \<Rightarrow> wstring list \<Rightarrow> Command \<Rightarrow> Error + (Command \<times> nat \<times> wstring list)" where
  "call_items rt index [] cmd = Inl (bad_request (cmd_name cmd) ''CALL has no ENDCALL'')"
| "call_items rt index (line # rest) cmd =
     (if line = L ''ENDCALL'' then Inr (cmd, index + 1, rest)
      else case call_argument rt (Split line TAB) of
             None \<Rightarrow> Inl (bad_request (cmd_name cmd) ''CALL argument is invalid'')
           | Some v \<Rightarrow> call_items rt (index + 1) rest (cmd\<lparr>cmd_arguments := cmd_arguments cmd @ [v]\<rparr>))"

subsection \<open>The command loop\<close>

fun first_some :: "'a option list \<Rightarrow> 'a option" where
  "first_some [] = None"
| "first_some (None # xs) = first_some xs"
| "first_some (Some x # xs) = Some x"

text \<open>The records that are one line.\<close>

definition line_record :: "Runtime \<Rightarrow> wstring list \<Rightarrow> (Error + Command) option" where
  "line_record rt f =
     first_some [map_option Inr (parse_navigation rt f), map_option Inr (parse_insertion rt f),
                 map_option Inr (parse_patch rt f), parse_picture rt f,
                 map_option Inr (parse_cell_record rt f), parse_caption rt f]"

text \<open>The record that starts at \<open>line\<close>, the line of number \<open>index\<close>.\<close>

definition parse_command ::
  "Runtime \<Rightarrow> nat \<Rightarrow> wstring \<Rightarrow> wstring list \<Rightarrow> Error + (Command \<times> nat \<times> wstring list)" where
  "parse_command rt index line rest =
    (let f = Split line TAB
     in if hd f = L ''ACTION'' \<and> length f = 3 \<and> PlainName rt (f ! 1) \<and> PlainName rt (f ! 2) then
          action_items rt (index + 1) rest Map.empty
            (new_command\<lparr>cmd_kind := CK_Action, cmd_name := f ! 1, cmd_parameterSet := f ! 2\<rparr>)
        else if hd f = L ''CALL'' \<and> length f = 2 \<and> PlainName rt (f ! 1) then
          call_items rt (index + 1) rest (new_command\<lparr>cmd_kind := CK_Call, cmd_name := f ! 1\<rparr>)
        else case line_record rt f of
               None \<Rightarrow> Inl (bad_request (to_wstring (index + 1)) ''command record is invalid'')
             | Some (Inl e) \<Rightarrow> Inl e
             | Some (Inr cmd) \<Rightarrow> Inr (cmd, index + 1, rest))"

lemma action_items_length:
  "action_items rt index lines arrays cmd = Inr (cmd', index', rest) \<Longrightarrow> length rest < length lines"
  by (induction rt index lines arrays cmd rule: action_items.induct)
     (auto split: if_splits sum.splits prod.splits intro: less_SucI)

lemma call_items_length:
  "call_items rt index lines cmd = Inr (cmd', index', rest) \<Longrightarrow> length rest < length lines"
  by (induction rt index lines cmd rule: call_items.induct)
     (auto split: if_splits option.splits intro: less_SucI)

lemma parse_command_length:
  assumes "parse_command rt index line lines = Inr (cmd, index', rest)"
  shows "length rest \<le> length lines"
  using assms
  by (auto simp: parse_command_def Let_def split: if_splits option.splits sum.splits
      dest!: action_items_length call_items_length)

function commands_loop ::
  "Runtime \<Rightarrow> nat \<Rightarrow> wstring list \<Rightarrow> Command list \<Rightarrow> Error + (Command list \<times> wstring list)" where
  "commands_loop rt index [] commands = Inr (commands, [])"
| "commands_loop rt index (line # rest) commands =
     (if line = L ''END'' then Inr (commands, line # rest)
      else case parse_command rt index line rest of
             Inl e \<Rightarrow> Inl e
           | Inr (cmd, index', rest') \<Rightarrow>
               if int (length (commands @ [cmd])) > kMaximumCommands
               then Inl (bad_request [] ''script exceeds the 20000-command limit'')
               else commands_loop rt index' rest' (commands @ [cmd]))"
  by pat_completeness auto
termination
  by (relation "measure (\<lambda>(rt, index, lines, commands). length lines)")
     (auto dest!: parse_command_length)

subsection \<open>The whole request\<close>

definition ParseDocument :: "Runtime \<Rightarrow> wstring list \<Rightarrow> (LONG \<times> wstring) option" where
  "ParseDocument rt f =
    (if length f = 3 \<and> f ! 0 = L ''DOC'' then do {
       i \<leftarrow> ParseLong rt (f ! 1) False;
       t \<leftarrow> DecodeUtf8Base64 rt (f ! 2);
       Some (i, t)
     } else None)"

text \<open>The optional records: each looks at the next line, if there is one, and takes it when its
  name and size fit.\<close>

definition next_fields :: "wstring list \<Rightarrow> wstring list" where
  "next_fields lines = (case lines of [] \<Rightarrow> [] | line # _ \<Rightarrow> Split line TAB)"

definition parse_policy :: "wstring list \<Rightarrow> Error + (bool \<times> wstring list)" where
  "parse_policy lines =
    (let f = next_fields lines in
     if length f = 3 \<and> f ! 0 = L ''POLICY'' \<and> f ! 1 = L ''ATOMIC'' then
       (case ParseBoolean (f ! 2) of
          None \<Rightarrow> Inl (bad_request (L ''POLICY'') ''atomic policy is invalid'')
        | Some atomic \<Rightarrow> Inr (atomic, tl lines))
     else Inr (False, lines))"

definition parse_cursor :: "Runtime \<Rightarrow> wstring list \<Rightarrow> Error + (Position option \<times> wstring list)" where
  "parse_cursor rt lines =
    (let f = next_fields lines in
     if length f = 4 \<and> f ! 0 = L ''EXPECT_CURSOR'' then
       (case parse_position rt f 1 of
          None \<Rightarrow> Inl (bad_request (L ''EXPECT_CURSOR'') ''cursor expectation is invalid'')
        | Some p \<Rightarrow> Inr (Some p, tl lines))
     else Inr (None, lines))"

definition parse_selection ::
  "Runtime \<Rightarrow> wstring list \<Rightarrow> Error + ((bool \<times> Position \<times> Position) option \<times> wstring list)" where
  "parse_selection rt lines =
    (let f = next_fields lines in
     if length f = 8 \<and> f ! 0 = L ''EXPECT_SELECTION'' then
       (case do { selected \<leftarrow> ParseBoolean (f ! 1); p \<leftarrow> parse_position rt f 2; q \<leftarrow> parse_position rt f 5;
                  Some (selected, p, q) } of
          None \<Rightarrow> Inl (bad_request (L ''EXPECT_SELECTION'') ''selection expectation is invalid'')
        | Some s \<Rightarrow> Inr (Some s, tl lines))
     else Inr (None, lines))"

definition ParseRequest :: "Runtime \<Rightarrow> wstring \<Rightarrow> Error + Request" where
  "ParseRequest rt payload =
    (if payload = [] \<or> int (length payload) > kMaximumPayloadCharacters
     then Inl (bad_request [] ''payload is empty or exceeds the 8MB limit'')
     else
       let lines = payload_lines payload;
           document = (if length lines < 4 \<or> hd lines \<noteq> L ''HCA1'' then None
                       else ParseDocument rt (Split (lines ! 1) TAB))
       in case document of
            None \<Rightarrow> Inl (bad_request [] ''HCA1 header or DOC record is invalid'')
          | Some (documentId, fullName) \<Rightarrow>
              bindE (parse_policy (drop 2 lines)) (\<lambda>(atomic, l1).
              bindE (parse_cursor rt l1) (\<lambda>(cursor, l2).
              bindE (parse_selection rt l2) (\<lambda>(selection, l3).
              bindE (commands_loop rt (length lines - length l3) l3 []) (\<lambda>(commands, l4).
              if commands = [] \<or> l4 \<noteq> [L ''END'']
              then Inl (bad_request [] ''script has no commands or malformed END'')
              else Inr \<lparr>rq_documentId = documentId, rq_fullName = fullName, rq_atomic = atomic,
                        rq_expectedCursor = cursor, rq_expectedSelection = selection,
                        rq_commands = commands\<rparr>)))))"

definition ErrorResponse :: "Runtime \<Rightarrow> Error \<Rightarrow> wstring" where
  "ErrorResponse rt e =
     L ''HCA1'' @ [TAB] @ L ''ERROR'' @ [TAB] @ er_code e @ [TAB] @ EncodeUtf8Base64 rt (er_location e) @
     [TAB] @ EncodeUtf8Base64 rt (er_message e)"

subsection \<open>Accepted requests are well formed\<close>

lemma guard_Some [simp]: "guard b = Some u \<longleftrightarrow> b"
  by (simp add: guard_def)

lemma first_some_Some: "first_some xs = Some x \<Longrightarrow> Some x \<in> set xs"
  by (induction xs rule: first_some.induct) auto

definition position_ok :: "Position \<Rightarrow> bool" where
  "position_ok p \<longleftrightarrow> (\<forall>i \<in> {pos_list p, pos_paragraph p, pos_character p}. 0 \<le> i \<and> i \<le> LONG_MAX)"

definition crop_ok :: "PictureCrop \<Rightarrow> bool" where
  "crop_ok c \<longleftrightarrow> (\<forall>d \<in> {crop_left c, crop_top c, crop_right c, crop_bottom c}. 0 \<le> d \<and> d < 1) \<and>
     crop_left c + crop_right c < 1 \<and> crop_top c + crop_bottom c < 1"

definition caption_format_ok :: "CaptionFormat \<Rightarrow> bool" where
  "caption_format_ok c \<longleftrightarrow> cf_faceName c \<noteq> [] \<and> 0 < cf_height c \<and> 0 < cf_lineSpacing c \<and> 0 \<le> cf_textColor c \<and>
     0 \<le> cf_alignment c \<and> cf_alignment c \<le> 3"

definition arrays_ok :: "Runtime \<Rightarrow> Command \<Rightarrow> bool" where
  "arrays_ok rt cmd \<longleftrightarrow>
     distinct (map fst (cmd_arrays cmd)) \<and>
     (\<forall>(name, count) \<in> set (cmd_arrays cmd). PlainName rt name \<and> 1 \<le> count \<and> count \<le> 10000) \<and>
     (\<forall>v \<in> set (cmd_arrayValues cmd). \<exists>count. (av_name v, count) \<in> set (cmd_arrays cmd) \<and>
        0 \<le> av_index v \<and> av_index v < count) \<and>
     (\<forall>s \<in> set (cmd_setters cmd). PropertyPath rt (set_path s))"

definition command_ok :: "Runtime \<Rightarrow> Command \<Rightarrow> bool" where
  "command_ok rt cmd \<longleftrightarrow>
     (cmd_kind cmd \<in> {CK_Run, CK_Action, CK_Call} \<longrightarrow> PlainName rt (cmd_name cmd)) \<and>
     (cmd_kind cmd \<in> {CK_MovePage, CK_RestoreDocumentFile} \<longrightarrow> 0 < cmd_page cmd) \<and>
     (cmd_kind cmd \<in> {CK_SelectControl, CK_DeleteControl, CK_CopyControl, CK_SaveDocumentFile, CK_RestoreDocumentFile,
        CK_CaptureDocumentBlockProbe, CK_ApplyCopiedTableAnchor, CK_DeleteTail, CK_InsertPicture, CK_Cell,
        CK_SetCellText, CK_Merge, CK_Caption} \<longrightarrow> cmd_first cmd \<noteq> []) \<and>
     (cmd_kind cmd = CK_TextPatch \<and> \<not> cmd_preflightOnly cmd \<and> cmd_first cmd = [] \<longrightarrow> cmd_name cmd = L ''CURRENT'') \<and>
     position_ok (cmd_start cmd) \<and> position_ok (cmd_finish cmd) \<and> position_ok (cmd_captionFormatSource cmd) \<and>
     0 \<le> cmd_occurrence cmd \<and> crop_ok (cmd_pictureCrop cmd) \<and>
     (cmd_hasPictureBox cmd \<longrightarrow> 0 < cmd_pictureWidthMm cmd \<and> 0 < cmd_pictureHeightMm cmd) \<and>
     (cmd_hasCaptionFormat cmd \<longrightarrow> caption_format_ok (cmd_captionFormat cmd)) \<and>
     arrays_ok rt cmd"

lemma parse_position_ok: "parse_position rt f i = Some p \<Longrightarrow> position_ok p"
  by (auto simp: parse_position_def position_ok_def Option.bind_eq_Some_conv dest!: ParseLong_range)

lemma decode_nonempty_ok: "decode_nonempty rt s = Some t \<Longrightarrow> t \<noteq> []"
  by (auto simp: decode_nonempty_def Option.bind_eq_Some_conv)

lemma new_command_sel [simp]:
  "cmd_kind new_command = CK_Run" "cmd_name new_command = []" "cmd_setters new_command = []"
  "cmd_arrays new_command = []" "cmd_arrayValues new_command = []" "cmd_arguments new_command = []"
  "cmd_start new_command = origin" "cmd_finish new_command = origin" "cmd_captionFormatSource new_command = origin"
  "cmd_occurrence new_command = 0" "cmd_page new_command = 0" "cmd_pictureCrop new_command = new_crop"
  "cmd_hasPictureBox new_command = False" "cmd_hasCaptionFormat new_command = False" "cmd_preflightOnly new_command = False" "cmd_first new_command = []"
  by (simp_all add: new_command_def)

lemma defaults_ok [simp]: "position_ok origin" "crop_ok new_crop" "cmd_arrays cmd = [] \<Longrightarrow> cmd_arrayValues cmd = [] \<Longrightarrow>
   cmd_setters cmd = [] \<Longrightarrow> arrays_ok rt cmd"
  by (simp_all add: position_ok_def origin_def crop_ok_def new_crop_def arrays_ok_def)

lemma navigation_ok: "parse_navigation rt f = Some cmd \<Longrightarrow> command_ok rt cmd"
  unfolding parse_navigation_def Let_def parse_control_def
  by (auto split: if_split_asm simp: Option.bind_eq_Some_conv)
     (auto simp: command_ok_def dest: parse_position_ok decode_nonempty_ok)

lemma insertion_ok: "parse_insertion rt f = Some cmd \<Longrightarrow> command_ok rt cmd"
  unfolding parse_insertion_def Let_def
  by (auto split: if_split_asm simp: Option.bind_eq_Some_conv)
     (auto simp: command_ok_def dest: parse_position_ok decode_nonempty_ok ParseLong_range)

lemma cell_patch_ok: "parse_cell_patch rt f = Some cmd \<Longrightarrow> command_ok rt cmd"
  unfolding parse_cell_patch_def
  by (auto simp: Option.bind_eq_Some_conv)
     (auto simp: command_ok_def dest: decode_nonempty_ok ParseLong_range)

lemma patch_ok: "parse_patch rt f = Some cmd \<Longrightarrow> command_ok rt cmd"
  unfolding parse_patch_def Let_def
  by (auto split: if_split_asm simp: Option.bind_eq_Some_conv cell_patch_ok)
     (auto simp: command_ok_def dest: parse_position_ok decode_nonempty_ok ParseLong_range)

lemma cell_record_ok: "parse_cell_record rt f = Some cmd \<Longrightarrow> command_ok rt cmd"
  unfolding parse_cell_record_def Let_def
  by (auto split: if_split_asm simp: Option.bind_eq_Some_conv)
     (auto simp: command_ok_def)

lemma parse_crop_ok: "parse_crop rt f = Some c \<Longrightarrow> crop_ok c"
  by (auto simp: parse_crop_def Option.bind_eq_Some_conv ParseCropFraction_def crop_ok_def sum_reaches_one_def
      split: if_splits option.splits)

lemma millimeter_pos: "ParsePositiveMillimeter rt s = Some d \<Longrightarrow> 0 < d"
  by (auto simp: ParsePositiveMillimeter_def split: if_splits option.splits)

lemma picture_box_pos: "picture_box rt f = Some (w, h) \<Longrightarrow> length f \<ge> 4 \<Longrightarrow> 0 < w \<and> 0 < h"
  by (auto simp: picture_box_def Option.bind_eq_Some_conv dest: millimeter_pos)

lemma picture_crop_ok: "picture_crop rt f = Some c \<Longrightarrow> crop_ok c"
  by (auto simp: picture_crop_def parse_crop_ok split: if_splits)

lemma picture_ok:
  assumes "parse_picture rt f = Some (Inr cmd)"
  shows "command_ok rt cmd"
proof -
  obtain t w h crop where "decode_nonempty rt (f ! 1) = Some t" "picture_box rt f = Some (w, h)" "picture_crop rt f = Some crop"
    and "cmd = new_command\<lparr>cmd_kind := CK_InsertPicture, cmd_first := t, cmd_pictureWidthMm := w,
               cmd_pictureHeightMm := h, cmd_pictureCrop := crop, cmd_hasPictureBox := length f \<ge> 4,
               cmd_hasPictureCrop := length f = 8\<rparr>"
    using assms by (auto simp: parse_picture_def split: if_split_asm option.split_asm)
  then show ?thesis
    by (auto simp: command_ok_def decode_nonempty_ok picture_box_pos picture_crop_ok)
qed

lemma caption_format_ok: "parse_caption_format rt f = Some c \<Longrightarrow> caption_format_ok c"
  by (auto simp: parse_caption_format_def Option.bind_eq_Some_conv caption_format_ok_def
      dest: decode_nonempty_ok ParseLong_range)

lemma caption_ok:
  assumes "parse_caption rt f = Some (Inr cmd)"
  shows "command_ok rt cmd"
proof -
  obtain style t format p where "decode_nonempty rt (f ! 2) = Some t" "caption_format rt f = Some format"
      "caption_position rt f = Some p"
    and "cmd = new_command\<lparr>cmd_kind := CK_Caption, cmd_styleId := style, cmd_first := t,
               cmd_hasCaptionFormat := caption_direct f, cmd_captionFormat := format,
               cmd_hasCaptionFormatSource := caption_source f, cmd_captionFormatSource := p\<rparr>"
    using assms by (auto simp: parse_caption_def split: if_split_asm option.split_asm)
  then show ?thesis
    by (auto simp: command_ok_def decode_nonempty_ok caption_format_def caption_position_def caption_format_ok
        parse_position_ok split: if_splits)
qed

text \<open>The local map of declared arrays mirrors the declarations of the command.\<close>

lemma map_of_append_new: "map_of ps k = None \<Longrightarrow> map_of (ps @ [(k, v)]) = (map_of ps)(k \<mapsto> v)"
  by (rule ext) (auto simp: map_add_def split: option.splits)

lemma action_item_cases:
  assumes "action_item rt number item arrays cmd = Inr (arrays', cmd')"
  obtains (set) v where "PropertyPath rt (item ! 1)" "arrays' = arrays"
      "cmd' = cmd\<lparr>cmd_setters := cmd_setters cmd @ [\<lparr>set_path = item ! 1, set_value = v\<rparr>]\<rparr>"
  | (array) count where "PlainName rt (item ! 1)" "array_count rt item arrays = Some count"
      "arrays' = arrays(item ! 1 \<mapsto> count)" "cmd' = cmd\<lparr>cmd_arrays := cmd_arrays cmd @ [(item ! 1, count)]\<rparr>"
  | (element) v where "array_element rt item arrays = Some v" "arrays' = arrays"
      "cmd' = cmd\<lparr>cmd_arrayValues := cmd_arrayValues cmd @ [v]\<rparr>"
proof (cases "length item \<ge> 4 \<and> item ! 0 = L ''SET'' \<and> PropertyPath rt (item ! 1)")
  case True
  then obtain v where v: "value_of_item rt item 2 = Some v"
    using assms by (auto simp: action_item_def split: option.splits)
  show thesis
    by (rule that(1) [of v]) (use assms True v in \<open>auto simp: action_item_def\<close>)
next
  case not_set: False
  show thesis
  proof (cases "length item = 3 \<and> item ! 0 = L ''ARRAY'' \<and> PlainName rt (item ! 1)")
    case True
    then obtain count where count: "array_count rt item arrays = Some count"
      using assms not_set by (auto simp: action_item_def split: option.splits)
    show thesis
      by (rule that(2) [of count]) (use assms True not_set count in \<open>auto simp: action_item_def\<close>)
  next
    case False
    then obtain v where v: "array_element rt item arrays = Some v"
      using assms not_set unfolding action_item_def by (auto split: if_split_asm option.splits)
    show thesis
      by (rule that(3) [of v]) (use assms False not_set v in \<open>auto simp: action_item_def split: if_split_asm\<close>)
  qed
qed

lemma command_ok_update:
  assumes "command_ok rt cmd"
  shows "arrays_ok rt (cmd\<lparr>cmd_setters := s\<rparr>) \<Longrightarrow> command_ok rt (cmd\<lparr>cmd_setters := s\<rparr>)"
    and "arrays_ok rt (cmd\<lparr>cmd_arrays := a\<rparr>) \<Longrightarrow> command_ok rt (cmd\<lparr>cmd_arrays := a\<rparr>)"
    and "arrays_ok rt (cmd\<lparr>cmd_arrayValues := v\<rparr>) \<Longrightarrow> command_ok rt (cmd\<lparr>cmd_arrayValues := v\<rparr>)"
    and "command_ok rt (cmd\<lparr>cmd_arguments := g\<rparr>)" "arrays_ok rt cmd"
  using assms by (simp_all add: command_ok_def arrays_ok_def)

lemma action_item_ok:
  assumes "action_item rt number item arrays cmd = Inr (arrays', cmd')"
    and arrays: "arrays = map_of (cmd_arrays cmd)" and cmd: "command_ok rt cmd"
  shows "arrays' = map_of (cmd_arrays cmd') \<and> command_ok rt cmd'"
  using assms(1)
proof (cases rule: action_item_cases)
  case (set v)
  then have "arrays_ok rt cmd'"
    using command_ok_update(5) [OF cmd] by (auto simp: arrays_ok_def)
  then show ?thesis
    using set arrays command_ok_update(1) [OF cmd] by simp
next
  case (array count)
  then have new: "item ! 1 \<notin> fst ` set (cmd_arrays cmd)" "1 \<le> count" "count \<le> 10000"
    unfolding arrays by (auto simp: array_count_def Option.bind_eq_Some_conv map_of_eq_None_iff)
  have "arrays_ok rt cmd'"
    using array new command_ok_update(5) [OF cmd] by (auto simp: arrays_ok_def)
  then show ?thesis
    using array arrays new(1) map_of_append_new [of "cmd_arrays cmd" "item ! 1" count] command_ok_update(2) [OF cmd]
    by (simp add: map_of_eq_None_iff del: map_of_append)
next
  case (element v)
  then obtain count where "(av_name v, count) \<in> set (cmd_arrays cmd)" "0 \<le> av_index v" "av_index v < count"
    unfolding arrays by (auto simp: array_element_def Option.bind_eq_Some_conv dest: map_of_SomeD)
  then have "arrays_ok rt cmd'"
    using element command_ok_update(5) [OF cmd] by (auto simp: arrays_ok_def)
  then show ?thesis
    using element arrays command_ok_update(3) [OF cmd] by simp
qed

lemma action_items_ok:
  assumes "action_items rt index lines arrays cmd = Inr (cmd', index', rest)"
    and "arrays = map_of (cmd_arrays cmd)" "command_ok rt cmd"
  shows "command_ok rt cmd'"
  using assms
proof (induction rt index lines arrays cmd rule: action_items.induct)
  case (2 rt index line rest0 arrays cmd)
  show ?case
  proof (cases "line = L ''ENDACTION''")
    case False
    then obtain arrays1 cmd1 where item: "action_item rt index (Split line TAB) arrays cmd = Inr (arrays1, cmd1)"
      and rec: "action_items rt (index + 1) rest0 arrays1 cmd1 = Inr (cmd', index', rest)"
      using "2.prems"(1) by (auto split: sum.splits prod.splits)
    show ?thesis
      using "2.IH" [OF False item refl rec] action_item_ok [OF item "2.prems"(2,3)] by simp
  qed (use "2.prems" in simp)
qed simp

lemma call_items_ok:
  "call_items rt index lines cmd = Inr (cmd', index', rest) \<Longrightarrow> command_ok rt cmd \<Longrightarrow> command_ok rt cmd'"
  by (induction rt index lines cmd rule: call_items.induct)
     (auto split: if_splits option.splits intro: command_ok_update(4))

lemma Some_Inr_map: "Some (Inr c) = map_option Inr x \<longleftrightarrow> x = Some c"
  by (cases x) auto

lemma line_record_ok:
  assumes "line_record rt f = Some (Inr cmd)"
  shows "command_ok rt cmd"
  using first_some_Some [OF assms [unfolded line_record_def]]
  unfolding list.set insert_iff empty_iff Some_Inr_map
  by (elim disjE FalseE)
     (simp_all add: navigation_ok insertion_ok patch_ok cell_record_ok picture_ok [OF sym] caption_ok [OF sym])

lemma parse_command_cases:
  assumes "parse_command rt index line lines = Inr (cmd, index', rest)"
  obtains (action) name set where "PlainName rt name"
      "\<And>i l. parse_command rt i line l = action_items rt (i + 1) l Map.empty
            (new_command\<lparr>cmd_kind := CK_Action, cmd_name := name, cmd_parameterSet := set\<rparr>)"
    | (call) name where "PlainName rt name"
      "\<And>i l. parse_command rt i line l = call_items rt (i + 1) l (new_command\<lparr>cmd_kind := CK_Call, cmd_name := name\<rparr>)"
    | (line) "line_record rt (Split line TAB) = Some (Inr cmd)" "\<And>i l. parse_command rt i line l = Inr (cmd, i + 1, l)"
proof -
  let ?f = "Split line TAB"
  let ?action = "hd ?f = L ''ACTION'' \<and> length ?f = 3 \<and> PlainName rt (?f ! 1) \<and> PlainName rt (?f ! 2)"
  let ?call = "hd ?f = L ''CALL'' \<and> length ?f = 2 \<and> PlainName rt (?f ! 1)"
  consider "?action" | "\<not> ?action" "?call" | "\<not> ?action" "\<not> ?call" by blast
  then show thesis
  proof cases
    case 1
    then show thesis
      by (intro that(1) [of "?f ! 1" "?f ! 2"]) (simp_all add: parse_command_def Let_def)
  next
    case 2
    then show thesis
      by (intro that(2) [of "?f ! 1"]) (auto simp: parse_command_def Let_def)
  next
    case 3
    then have eq: "parse_command rt i line l = (case line_record rt ?f of
               None \<Rightarrow> Inl (bad_request (to_wstring (i + 1)) ''command record is invalid'')
             | Some (Inl e) \<Rightarrow> Inl e
             | Some (Inr cmd) \<Rightarrow> Inr (cmd, i + 1, l))" for i l
      unfolding parse_command_def Let_def by (simp only: if_False)
    then have "line_record rt ?f = Some (Inr cmd)"
      using assms by (auto split: option.split_asm sum.split_asm)
    then show thesis
      by (intro that(3)) (simp_all add: eq)
  qed
qed

lemma parse_command_ok:
  assumes "parse_command rt index line lines = Inr (cmd, index', rest)"
  shows "command_ok rt cmd"
  using assms
proof (cases rule: parse_command_cases)
  case (action name set)
  show ?thesis
    by (rule action_items_ok [OF assms [unfolded action(2)]]) (use action(1) in \<open>simp_all add: command_ok_def\<close>)
next
  case (call name)
  show ?thesis
    by (rule call_items_ok [OF assms [unfolded call(2)]]) (use call(1) in \<open>simp add: command_ok_def\<close>)
qed (rule line_record_ok)

lemma commands_loop_ok:
  assumes "commands_loop rt index lines commands = Inr (commands', rest)"
    and "\<forall>c \<in> set commands. command_ok rt c" "int (length commands) \<le> kMaximumCommands"
  shows "(\<forall>c \<in> set commands'. command_ok rt c) \<and> int (length commands') \<le> kMaximumCommands"
  using assms
proof (induction rt index lines commands rule: commands_loop.induct)
  case (2 rt index line rest0 commands)
  show ?case
  proof (cases "line = L ''END''")
    case False
    then obtain cmd index1 rest1 where one: "parse_command rt index line rest0 = Inr (cmd, index1, rest1)"
      and small: "\<not> int (length (commands @ [cmd])) > kMaximumCommands"
      and rec: "commands_loop rt index1 rest1 (commands @ [cmd]) = Inr (commands', rest)"
      using "2.prems"(1) by (auto split: sum.splits prod.splits if_splits)
    show ?thesis
      by (rule "2.IH" [OF False one refl refl small rec])
         (use "2.prems"(2) parse_command_ok [OF one] small in auto)
  qed (use "2.prems" in simp)
qed simp

definition request_ok :: "Runtime \<Rightarrow> Request \<Rightarrow> bool" where
  "request_ok rt rq \<longleftrightarrow>
     0 \<le> rq_documentId rq \<and> rq_documentId rq \<le> LONG_MAX \<and>
     (\<forall>p \<in> set_option (rq_expectedCursor rq). position_ok p) \<and>
     (\<forall>(s, p, q) \<in> set_option (rq_expectedSelection rq). position_ok p \<and> position_ok q) \<and>
     rq_commands rq \<noteq> [] \<and> int (length (rq_commands rq)) \<le> kMaximumCommands \<and>
     (\<forall>c \<in> set (rq_commands rq). command_ok rt c)"

lemma parse_cursor_ok: "parse_cursor rt lines = Inr (c, rest) \<Longrightarrow> \<forall>p \<in> set_option c. position_ok p"
  by (auto simp: parse_cursor_def Let_def parse_position_ok split: if_splits option.splits)

lemma parse_selection_ok:
  "parse_selection rt lines = Inr (c, rest) \<Longrightarrow> \<forall>(s, p, q) \<in> set_option c. position_ok p \<and> position_ok q"
  by (auto simp: parse_selection_def Let_def parse_position_ok Option.bind_eq_Some_conv split: if_split_asm option.split_asm)

lemma ParseRequest_Inr:
  assumes "ParseRequest rt payload = Inr rq"
  obtains l1 l2 l3 where "ParseDocument rt (Split (payload_lines payload ! 1) TAB) = Some (rq_documentId rq, rq_fullName rq)"
    "4 \<le> length (payload_lines payload)" "hd (payload_lines payload) = L ''HCA1''"
    "parse_policy (drop 2 (payload_lines payload)) = Inr (rq_atomic rq, l1)"
    "parse_cursor rt l1 = Inr (rq_expectedCursor rq, l2)" "parse_selection rt l2 = Inr (rq_expectedSelection rq, l3)"
    "commands_loop rt (length (payload_lines payload) - length l3) l3 [] = Inr (rq_commands rq, [L ''END''])"
    "rq_commands rq \<noteq> []"
proof -
  let ?lines = "payload_lines payload"
  obtain documentId fullName where doc: "4 \<le> length ?lines" "hd ?lines = L ''HCA1''"
    "ParseDocument rt (Split (?lines ! 1) TAB) = Some (documentId, fullName)"
    and rest: "bindE (parse_policy (drop 2 ?lines)) (\<lambda>(atomic, l1).
              bindE (parse_cursor rt l1) (\<lambda>(cursor, l2).
              bindE (parse_selection rt l2) (\<lambda>(selection, l3).
              bindE (commands_loop rt (length ?lines - length l3) l3 []) (\<lambda>(commands, l4).
              if commands = [] \<or> l4 \<noteq> [L ''END'']
              then Inl (bad_request [] ''script has no commands or malformed END'')
              else Inr \<lparr>rq_documentId = documentId, rq_fullName = fullName, rq_atomic = atomic,
                        rq_expectedCursor = cursor, rq_expectedSelection = selection,
                        rq_commands = commands\<rparr>)))) = Inr rq"
    using assms unfolding ParseRequest_def Let_def by (auto split: if_split_asm option.split_asm)
  show thesis
    using rest by (auto simp: bindE_Inr_iff simp del: One_nat_def split: if_split_asm intro!: that doc)
qed

text \<open>Claim C15. Whatever the payload, an accepted request is well formed: between one and 20000
  commands; every position, page and document number in the range of a \<open>LONG\<close> and not negative;
  texts that must not be empty are not; a picture crop leaves part of each side; every array
  element of an action lies in an array of 1 to 10000 elements declared once before it.\<close>

theorem ParseRequest_well_formed:
  assumes "ParseRequest rt payload = Inr rq"
  shows "request_ok rt rq"
proof (rule ParseRequest_Inr [OF assms])
  fix l1 l2 l3
  assume A: "ParseDocument rt (Split (payload_lines payload ! 1) TAB) = Some (rq_documentId rq, rq_fullName rq)"
    "parse_cursor rt l1 = Inr (rq_expectedCursor rq, l2)" "parse_selection rt l2 = Inr (rq_expectedSelection rq, l3)"
    "commands_loop rt (length (payload_lines payload) - length l3) l3 [] = Inr (rq_commands rq, [L ''END''])"
    "rq_commands rq \<noteq> []"
  have "0 \<le> rq_documentId rq \<and> rq_documentId rq \<le> LONG_MAX"
    using A(1) by (auto simp: ParseDocument_def Option.bind_eq_Some_conv split: if_splits dest: ParseLong_range)
  then show "request_ok rt rq"
    unfolding request_ok_def
    using parse_cursor_ok [OF A(2)] parse_selection_ok [OF A(3)] commands_loop_ok [OF A(4)] A(5)
    by (simp add: kMaximumCommands_def)
qed

subsection \<open>The grammar of a script\<close>










subsection \<open>A sample request\<close>

definition sample_lines :: "wstring list" where
  "sample_lines =
     [L ''HCA1'', join TAB [L ''DOC'', L ''7'', []], join TAB [L ''RUN'', L ''Cancel''],
      join TAB [L ''ACTION'', L ''TableCreate'', L ''HTableCreation''],
      join TAB [L ''SET'', L ''Rows'', L ''I4'', L ''2''], join TAB [L ''ARRAY'', L ''ColWidth'', L ''1''],
      join TAB [L ''ASET'', L ''ColWidth'', L ''0'', L ''I4'', L ''500''], L ''ENDACTION'', L ''END'']"

theorem ParseRequest_well_formed_witness:
  "\<exists>rq. ParseRequest sample_runtime (join LF sample_lines) = Inr rq \<and> request_ok sample_runtime rq \<and>
     map cmd_kind (rq_commands rq) = [CK_Run, CK_Action]"
proof -
  have "case ParseRequest sample_runtime (join LF sample_lines) of
      Inl e \<Rightarrow> False | Inr rq \<Rightarrow> map cmd_kind (rq_commands rq) = [CK_Run, CK_Action]"
    by code_simp
  then show ?thesis
    using ParseRequest_well_formed [of sample_runtime "join LF sample_lines"] by (auto split: sum.splits)
qed

end
