(* ===== verification/BatchProtocol.thy ===== *)
theory BatchProtocol
  imports ProtocolText
begin

section \<open>The batch protocol (BatchProtocol.cpp)\<close>

text \<open>
  An HCB1 payload lists tables, and for each table the text and image updates of its cells. The
  parser bounds the number of updates, refuses a cell that is named twice in a table, and wants
  every table closed and non-empty. Every failure has the same code and location, so an error is
  its message here.
\<close>

subsection \<open>Data\<close>

datatype OperationKind = OK_Text | OK_Image

record CellOperation =
  co_kind :: OperationKind
  co_address :: wstring
  co_expectedText :: wstring
  co_value :: wstring

record TableBatch =
  tb_controlId :: wstring
  tb_operations :: "CellOperation list"

record BatchRequest =
  br_documentId :: LONG
  br_fullName :: wstring
  br_tables :: "TableBatch list"

type_synonym BatchError = wstring

definition kMaximumOperations :: int where
  "kMaximumOperations = 5000"

definition kMaximumBatchCharacters :: int where
  "kMaximumBatchCharacters = 8000000"

subsection \<open>Parsing\<close>

text \<open>\<open>ParseDocumentId\<close> is \<open>ParseLong\<close> without negative numbers.\<close>

definition ParseDocumentId :: "Runtime \<Rightarrow> wstring \<Rightarrow> LONG option" where
  "ParseDocumentId rt value =
    (if value = [] then None
     else let (parsed, range, rest) = wcstoll rt (c_str value)
          in if range \<or> rest \<noteq> [] \<or> parsed < 0 \<or> parsed > LONG_MAX then None else Some parsed)"

definition batch_document :: "Runtime \<Rightarrow> wstring list \<Rightarrow> (LONG \<times> wstring) option" where
  "batch_document rt f =
    (if length f \<noteq> 3 \<or> f ! 0 \<noteq> L ''DOC'' then None
     else case ParseDocumentId rt (f ! 1) of
            None \<Rightarrow> None
          | Some i \<Rightarrow> map_option (\<lambda>name. (i, name)) (DecodeUtf8Base64 rt (f ! 2)))"

text \<open>One line of a table; \<open>addresses\<close> are the cells named so far.\<close>

definition cell_operation :: "Runtime \<Rightarrow> wstring list \<Rightarrow> wstring list \<Rightarrow> BatchError + CellOperation" where
  "cell_operation rt addresses f =
    (if length f \<noteq> 4 \<or> f ! 1 = [] \<or> f ! 0 \<noteq> L ''TEXT'' \<and> f ! 0 \<noteq> L ''IMAGE''
     then Inl (L ''cell operation record is invalid'')
     else if f ! 1 \<in> set addresses then Inl (L ''a table contains a duplicate cell address'')
     else case (DecodeUtf8Base64 rt (f ! 2), DecodeUtf8Base64 rt (f ! 3)) of
            (Some expected, Some value) \<Rightarrow>
              Inr \<lparr>co_kind = (if f ! 0 = L ''TEXT'' then OK_Text else OK_Image), co_address = f ! 1,
                   co_expectedText = expected, co_value = value\<rparr>
          | _ \<Rightarrow> Inl (L ''cell operation contains invalid UTF-8 base64''))"

text \<open>The lines of a table up to \<open>ENDTABLE\<close>: the table, the number of operations so far, and
  the lines after the table.\<close>

fun table_items ::
  "Runtime \<Rightarrow> TableBatch \<Rightarrow> int \<Rightarrow> wstring list \<Rightarrow> BatchError + (TableBatch \<times> int \<times> wstring list)" where
  "table_items rt table count [] = Inl (L ''TABLE has no ENDTABLE or no operations'')"
| "table_items rt table count (line # rest) =
     (if line = L ''ENDTABLE'' then
        (if tb_operations table = [] then Inl (L ''TABLE has no ENDTABLE or no operations'')
         else Inr (table, count, rest))
      else case cell_operation rt (map co_address (tb_operations table)) (Split line TAB) of
             Inl e \<Rightarrow> Inl e
           | Inr op \<Rightarrow>
               if count + 1 > kMaximumOperations then Inl (L ''batch exceeds the 5000-operation limit'')
               else table_items rt (table\<lparr>tb_operations := tb_operations table @ [op]\<rparr>) (count + 1) rest)"

lemma table_items_length:
  "table_items rt table count lines = Inr (table', count', rest) \<Longrightarrow> length rest < length lines"
  by (induction rt table count lines rule: table_items.induct)
     (auto split: if_splits sum.splits intro: less_SucI)

function tables_loop ::
  "Runtime \<Rightarrow> int \<Rightarrow> wstring list \<Rightarrow> TableBatch list \<Rightarrow> BatchError + (TableBatch list \<times> wstring list)" where
  "tables_loop rt count [] tables = Inr (tables, [])"
| "tables_loop rt count (line # rest) tables =
     (if line = L ''END'' then Inr (tables, line # rest)
      else let f = Split line TAB in
        if length f \<noteq> 2 \<or> f ! 0 \<noteq> L ''TABLE'' \<or> f ! 1 = [] then Inl (L ''TABLE record is invalid'')
        else case table_items rt \<lparr>tb_controlId = f ! 1, tb_operations = []\<rparr> count rest of
               Inl e \<Rightarrow> Inl e
             | Inr (table, count', rest') \<Rightarrow> tables_loop rt count' rest' (tables @ [table]))"
  by pat_completeness auto
termination
  by (relation "measure (\<lambda>(rt, count, lines, tables). length lines)")
     (auto dest!: table_items_length)

definition Batch_ParseRequest :: "Runtime \<Rightarrow> wstring \<Rightarrow> BatchError + BatchRequest" where
  "Batch_ParseRequest rt payload =
    (if payload = [] \<or> int (length payload) > kMaximumBatchCharacters
     then Inl (L ''payload is empty or exceeds the 8MB limit'')
     else let lines = payload_lines payload in
       if length lines < 5 \<or> hd lines \<noteq> L ''HCB1'' then Inl (L ''protocol header is not HCB1'')
       else case batch_document rt (Split (lines ! 1) TAB) of
              None \<Rightarrow> Inl (L ''DOC record is invalid'')
            | Some (documentId, fullName) \<Rightarrow>
                bindE (tables_loop rt 0 (drop 2 lines) []) (\<lambda>(tables, rest).
                if tables = [] \<or> rest \<noteq> [L ''END'']
                then Inl (L ''request has no tables or a malformed END record'')
                else Inr \<lparr>br_documentId = documentId, br_fullName = fullName, br_tables = tables\<rparr>))"

subsection \<open>Responses\<close>

record TimingEvidence =
  ti_total :: int
  ti_validation :: int
  ti_locate :: int
  ti_text :: int
  ti_image :: int
  ti_verify :: int
  ti_imageCount :: nat
  ti_imageMaximum :: int
  ti_imageTotal :: int

definition integer_text :: "int \<Rightarrow> wstring" where
  "integer_text i = (if i < 0 then ch CHR ''-'' # to_wstring (nat (- i)) else to_wstring (nat i))"

definition SuccessResponse :: "nat \<Rightarrow> nat \<Rightarrow> TimingEvidence \<Rightarrow> wstring" where
  "SuccessResponse textUpdates imageUpdates t =
     join TAB ([L ''HCB1'', L ''OK''] @
       map integer_text [int textUpdates, int imageUpdates, ti_total t, ti_validation t, ti_locate t, ti_text t, ti_image t,
                       ti_verify t, int (ti_imageCount t), ti_imageMaximum t, ti_imageTotal t])"

definition Batch_ErrorResponse :: "Runtime \<Rightarrow> wstring \<Rightarrow> wstring \<Rightarrow> wstring \<Rightarrow> wstring" where
  "Batch_ErrorResponse rt code address message =
     L ''HCB1'' @ [TAB] @ L ''ERROR'' @ [TAB] @ code @ [TAB] @ EncodeUtf8Base64 rt address @ [TAB] @
     EncodeUtf8Base64 rt message"

subsection \<open>What a batch text is\<close>

text \<open>
  The lines of an operation, a table and a whole batch, written with \<open>EncodeUtf8Base64\<close>. A
  batch is renderable when its texts survive the encoding and its names contain no separator.
\<close>

definition op_line :: "Runtime \<Rightarrow> CellOperation \<Rightarrow> wstring" where
  "op_line rt op =
     join TAB [if co_kind op = OK_Text then L ''TEXT'' else L ''IMAGE'', co_address op,
               EncodeUtf8Base64 rt (co_expectedText op), EncodeUtf8Base64 rt (co_value op)]"

definition table_lines :: "Runtime \<Rightarrow> TableBatch \<Rightarrow> wstring list" where
  "table_lines rt t =
     join TAB [L ''TABLE'', tb_controlId t] # map (op_line rt) (tb_operations t) @ [L ''ENDTABLE'']"

definition batch_lines :: "Runtime \<Rightarrow> BatchRequest \<Rightarrow> wstring list" where
  "batch_lines rt r =
     [L ''HCB1'', join TAB [L ''DOC'', to_wstring (nat (br_documentId r)), EncodeUtf8Base64 rt (br_fullName r)]] @
     concat (map (table_lines rt) (br_tables r)) @ [L ''END'']"

definition text_survives :: "Runtime \<Rightarrow> wstring \<Rightarrow> bool" where
  "text_survives rt s \<longleftrightarrow> DecodeUtf8Base64 rt (EncodeUtf8Base64 rt s) = Some s \<and>
     set (EncodeUtf8Base64 rt s) \<inter> {TAB, LF, CR} = {}"

definition plain_field :: "wstring \<Rightarrow> bool" where
  "plain_field s \<longleftrightarrow> s \<noteq> [] \<and> set s \<inter> {TAB, LF, CR} = {}"

definition table_ok :: "TableBatch \<Rightarrow> bool" where
  "table_ok t \<longleftrightarrow> tb_controlId t \<noteq> [] \<and> tb_operations t \<noteq> [] \<and> distinct (map co_address (tb_operations t)) \<and>
     (\<forall>op \<in> set (tb_operations t). co_address op \<noteq> [])"

definition operation_count :: "TableBatch list \<Rightarrow> int" where
  "operation_count ts = sum_list (map (\<lambda>t. int (length (tb_operations t))) ts)"

definition batch_ok :: "BatchRequest \<Rightarrow> bool" where
  "batch_ok r \<longleftrightarrow> 0 \<le> br_documentId r \<and> br_documentId r \<le> LONG_MAX \<and> br_tables r \<noteq> [] \<and>
     (\<forall>t \<in> set (br_tables r). table_ok t) \<and> operation_count (br_tables r) \<le> kMaximumOperations"

definition renderable :: "Runtime \<Rightarrow> BatchRequest \<Rightarrow> bool" where
  "renderable rt r \<longleftrightarrow> text_survives rt (br_fullName r) \<and>
     (\<forall>t \<in> set (br_tables r). plain_field (tb_controlId t) \<and>
        (\<forall>op \<in> set (tb_operations t). plain_field (co_address op) \<and> text_survives rt (co_expectedText op) \<and>
           text_survives rt (co_value op))) \<and>
     int (length (join LF (batch_lines rt r))) \<le> kMaximumBatchCharacters"

subsection \<open>Accepted batches are well formed\<close>

lemma ParseDocumentId_eq: "ParseDocumentId rt value = ParseLong rt value False"
  by (simp add: ParseDocumentId_def ParseLong_def Let_def)

lemma table_items_ok:
  assumes "table_items rt table count lines = Inr (table', count', rest)"
    and "distinct (map co_address (tb_operations table))" "\<forall>op \<in> set (tb_operations table). co_address op \<noteq> []"
    and "count \<le> kMaximumOperations" "tb_controlId table \<noteq> []"
  shows "table_ok table' \<and> count' \<le> kMaximumOperations \<and>
    count' = count + int (length (tb_operations table')) - int (length (tb_operations table))"
  using assms
proof (induction rt table count lines rule: table_items.induct)
  case (2 rt table count line rest0)
  show ?case
  proof (cases "line = L ''ENDTABLE''")
    case True
    with "2.prems" show ?thesis by (auto simp: table_ok_def split: if_splits)
  next
    case False
    then obtain op where op: "cell_operation rt (map co_address (tb_operations table)) (Split line TAB) = Inr op"
      and small: "\<not> count + 1 > kMaximumOperations"
      and rec: "table_items rt (table\<lparr>tb_operations := tb_operations table @ [op]\<rparr>) (count + 1) rest0 = Inr (table', count', rest)"
      using "2.prems"(1) by (auto split: sum.splits if_splits)
    have "co_address op \<noteq> []" "co_address op \<notin> co_address ` set (tb_operations table)"
      using op by (auto simp: cell_operation_def split: if_split_asm option.split_asm)
    then have "table_ok table' \<and> count' \<le> kMaximumOperations \<and> count' = count + 1 + int (length (tb_operations table')) -
        int (length (tb_operations (table\<lparr>tb_operations := tb_operations table @ [op]\<rparr>)))"
      using "2.prems"(2-) small by (intro "2.IH" [OF False op small rec]) auto
    then show ?thesis by simp
  qed
qed simp

lemma tables_loop_ok:
  assumes "tables_loop rt count lines tables = Inr (tables', rest)"
    and "\<forall>t \<in> set tables. table_ok t" "count \<le> kMaximumOperations" "operation_count tables = count"
  shows "(\<forall>t \<in> set tables'. table_ok t) \<and> operation_count tables' \<le> kMaximumOperations"
  using assms
proof (induction rt count lines tables rule: tables_loop.induct)
  case (2 rt count line rest0 tables)
  let ?f = "Split line TAB"
  show ?case
  proof (cases "line = L ''END''")
    case True
    with "2.prems" show ?thesis by auto
  next
    case False
    then obtain table count1 rest1 where head: "\<not> (length ?f \<noteq> 2 \<or> ?f ! 0 \<noteq> L ''TABLE'' \<or> ?f ! 1 = [])"
      and items: "table_items rt \<lparr>tb_controlId = ?f ! 1, tb_operations = []\<rparr> count rest0 = Inr (table, count1, rest1)"
      and rec: "tables_loop rt count1 rest1 (tables @ [table]) = Inr (tables', rest)"
      using "2.prems"(1) by (auto simp: Let_def split: sum.splits if_splits)
    note T = table_items_ok [OF items]
    show ?thesis
      by (rule "2.IH" [OF False refl head items refl refl rec])
         (use T head "2.prems" in \<open>auto simp: operation_count_def\<close>)
  qed
qed auto

text \<open>Whatever the payload, an accepted batch has at least one table, at most 5000
  operations in all, and in every table at least one operation and no cell named twice.\<close>

lemma batch_well_formed:
  assumes "Batch_ParseRequest rt payload = Inr r"
  shows "batch_ok r"
proof -
  let ?lines = "payload_lines payload"
  obtain rest where doc: "batch_document rt (Split (?lines ! 1) TAB) = Some (br_documentId r, br_fullName r)"
    and loop: "tables_loop rt 0 (drop 2 ?lines) [] = Inr (br_tables r, rest)" and "br_tables r \<noteq> []"
    using assms unfolding Batch_ParseRequest_def Let_def
    by (auto simp: bindE_Inr_iff split: if_split_asm option.split_asm)
  moreover have "0 \<le> br_documentId r \<and> br_documentId r \<le> LONG_MAX"
    using doc by (auto simp: batch_document_def ParseDocumentId_eq split: if_splits option.splits dest: ParseLong_range)
  ultimately show ?thesis
    using tables_loop_ok [OF loop] by (simp add: batch_ok_def operation_count_def kMaximumOperations_def)
qed

subsection \<open>Every well-formed batch has a text that parses back to it\<close>

lemma set_join: "set (join c fs) \<subseteq> insert c (\<Union> (set ` set fs))"
  by (induction c fs rule: join.induct) auto

lemma payload_lines_join:
  assumes "ls \<noteq> []" "\<forall>l \<in> set ls. LF \<notin> set l \<and> CR \<notin> set l"
  shows "payload_lines (join LF ls) = ls"
proof -
  have "strip_cr l = l" if "l \<in> set ls" for l
    using assms(2) that last_in_set [of l] by (metis strip_cr_def)
  then show ?thesis
    using assms by (simp add: payload_lines_def Split_join map_idI)
qed

lemma L_letters:
  "TAB \<notin> set (L ''HCB1'') \<and> TAB \<notin> set (L ''DOC'') \<and> TAB \<notin> set (L ''TABLE'') \<and> TAB \<notin> set (L ''TEXT'') \<and>
   TAB \<notin> set (L ''IMAGE'') \<and> TAB \<notin> set (L ''END'') \<and> TAB \<notin> set (L ''ENDTABLE'')"
  "set (L ''HCB1'') \<inter> {LF, CR} = {}" "set (L ''DOC'') \<inter> {LF, CR} = {}" "set (L ''TABLE'') \<inter> {LF, CR} = {}"
  "set (L ''TEXT'') \<inter> {LF, CR} = {}" "set (L ''IMAGE'') \<inter> {LF, CR} = {}" "set (L ''END'') \<inter> {LF, CR} = {}"
  "set (L ''ENDTABLE'') \<inter> {LF, CR} = {}" "L ''TEXT'' \<noteq> L ''IMAGE''"
  by (simp_all add: L_def TAB_def LF_def CR_def)

lemma to_wstring_plain: "set (to_wstring n) \<inter> {TAB, LF, CR} = {}"
  using to_wstring_decimal [of n] by (auto simp: decimal_text_def TAB_def LF_def CR_def)

lemma no_break_join:
  assumes "\<forall>f \<in> set fs. set f \<inter> {LF, CR} = {}"
  shows "LF \<notin> set (join TAB fs) \<and> CR \<notin> set (join TAB fs)"
proof -
  have "LF \<noteq> TAB" "CR \<noteq> TAB"
    by (simp_all add: TAB_def LF_def CR_def)
  then show ?thesis
    using assms set_join [of TAB fs] by blast
qed

lemma one_field:
  assumes "TAB \<notin> set w" "length fs \<noteq> 1" "\<forall>f \<in> set fs. TAB \<notin> set f" "fs \<noteq> []"
  shows "join TAB fs \<noteq> w"
proof
  assume "join TAB fs = w"
  then have "fs = [w]"
    using Split_join [OF assms(4,3)] Split_no_sep [OF assms(1)] by simp
  with assms(2) show False by simp
qed

definition op_fields :: "Runtime \<Rightarrow> CellOperation \<Rightarrow> wstring list" where
  "op_fields rt op =
     [if co_kind op = OK_Text then L ''TEXT'' else L ''IMAGE'', co_address op,
      EncodeUtf8Base64 rt (co_expectedText op), EncodeUtf8Base64 rt (co_value op)]"

lemma op_line_fields:
  assumes "plain_field (co_address op)" "text_survives rt (co_expectedText op)" "text_survives rt (co_value op)"
  shows "Split (op_line rt op) TAB = op_fields rt op" "op_line rt op \<noteq> L ''ENDTABLE''"
    "LF \<notin> set (op_line rt op) \<and> CR \<notin> set (op_line rt op)"
proof -
  have line: "op_line rt op = join TAB (op_fields rt op)"
    by (simp add: op_line_def op_fields_def)
  have fields: "\<forall>f \<in> set (op_fields rt op). TAB \<notin> set f \<and> set f \<inter> {LF, CR} = {}"
    using assms L_letters by (auto simp: op_fields_def plain_field_def text_survives_def)
  have more: "op_fields rt op \<noteq> []" "length (op_fields rt op) \<noteq> 1"
    by (simp_all add: op_fields_def)
  show "Split (op_line rt op) TAB = op_fields rt op"
    unfolding line by (rule Split_join) (use fields more in auto)
  show "op_line rt op \<noteq> L ''ENDTABLE''"
    unfolding line using one_field [of "L ''ENDTABLE''" "op_fields rt op"] fields more L_letters(1) by auto
  show "LF \<notin> set (op_line rt op) \<and> CR \<notin> set (op_line rt op)"
    unfolding line by (rule no_break_join) (use fields in blast)
qed

lemma cell_operation_op_line:
  assumes "plain_field (co_address op)" "text_survives rt (co_expectedText op)" "text_survives rt (co_value op)"
    and "co_address op \<notin> set addresses"
  shows "cell_operation rt addresses (op_fields rt op) = Inr op"
  using assms L_letters(9)
  by (cases op; cases "co_kind op") (auto simp: cell_operation_def op_fields_def plain_field_def text_survives_def)

lemma table_items_lines:
  assumes "\<forall>op \<in> set ops. plain_field (co_address op) \<and> text_survives rt (co_expectedText op) \<and> text_survives rt (co_value op)"
    and "distinct (map co_address (tb_operations table @ ops))" "tb_operations table @ ops \<noteq> []"
    and "count + int (length ops) \<le> kMaximumOperations"
  shows "table_items rt table count (map (op_line rt) ops @ L ''ENDTABLE'' # rest) =
    Inr (table\<lparr>tb_operations := tb_operations table @ ops\<rparr>, count + int (length ops), rest)"
  using assms
proof (induction ops arbitrary: table count)
  case (Cons op ops)
  have "co_address op \<notin> set (map co_address (tb_operations table))"
    using Cons.prems(2) by auto
  then have op: "op_line rt op \<noteq> L ''ENDTABLE''"
    "cell_operation rt (map co_address (tb_operations table)) (Split (op_line rt op) TAB) = Inr op"
    using Cons.prems(1) op_line_fields cell_operation_op_line by simp_all
  have "table_items rt (table\<lparr>tb_operations := tb_operations table @ [op]\<rparr>) (count + 1) (map (op_line rt) ops @ L ''ENDTABLE'' # rest) =
    Inr (table\<lparr>tb_operations := tb_operations table @ [op]\<rparr>\<lparr>tb_operations := (tb_operations table @ [op]) @ ops\<rparr>,
         count + 1 + int (length ops), rest)"
    using Cons.prems Cons.IH [of "table\<lparr>tb_operations := tb_operations table @ [op]\<rparr>" "count + 1"] by simp
  then show ?case
    using op Cons.prems(4) by simp
qed simp

lemma tables_loop_lines:
  assumes "\<forall>t \<in> set ts. table_ok t \<and> plain_field (tb_controlId t) \<and>
      (\<forall>op \<in> set (tb_operations t). plain_field (co_address op) \<and> text_survives rt (co_expectedText op) \<and>
           text_survives rt (co_value op))"
    and "count + operation_count ts \<le> kMaximumOperations"
  shows "tables_loop rt count (concat (map (table_lines rt) ts) @ [L ''END'']) tables = Inr (tables @ ts, [L ''END''])"
  using assms
proof (induction ts arbitrary: count tables)
  case (Cons t ts)
  let ?head = "join TAB [L ''TABLE'', tb_controlId t]" and ?rest = "concat (map (table_lines rt) ts) @ [L ''END'']"
  have t: "table_ok t" "plain_field (tb_controlId t)"
    using Cons.prems(1) by simp_all
  have "0 \<le> operation_count ts"
    unfolding operation_count_def by (rule sum_list_nonneg) auto
  then have small: "count + int (length (tb_operations t)) \<le> kMaximumOperations"
    using Cons.prems(2) by (simp add: operation_count_def)
  have "\<forall>f \<in> set [L ''TABLE'', tb_controlId t]. TAB \<notin> set f"
    using t(2) L_letters(1) by (auto simp: plain_field_def)
  then have head: "Split ?head TAB = [L ''TABLE'', tb_controlId t]" "?head \<noteq> L ''END''"
    using Split_join [of "[L ''TABLE'', tb_controlId t]" TAB] one_field [of "L ''END''" "[L ''TABLE'', tb_controlId t]"] L_letters(1)
    by auto
  have "table_items rt \<lparr>tb_controlId = tb_controlId t, tb_operations = []\<rparr> count
      (map (op_line rt) (tb_operations t) @ L ''ENDTABLE'' # ?rest) =
    Inr (\<lparr>tb_controlId = tb_controlId t, tb_operations = []\<rparr>\<lparr>tb_operations := [] @ tb_operations t\<rparr>,
         count + int (length (tb_operations t)), ?rest)"
    using Cons.prems(1) t(1) small table_items_lines [of "tb_operations t" rt "\<lparr>tb_controlId = tb_controlId t, tb_operations = []\<rparr>"]
    by (simp add: table_ok_def)
  then have "tables_loop rt count (table_lines rt t @ ?rest) tables =
      tables_loop rt (count + int (length (tb_operations t))) ?rest (tables @ [t])"
    using head t(2) by (cases t) (simp add: table_lines_def plain_field_def Let_def)
  then show ?case
    using Cons.IH [of "count + int (length (tb_operations t))" "tables @ [t]"] Cons.prems
    by (simp add: operation_count_def)
qed simp

lemma batch_lines_plain:
  assumes "batch_ok r" "renderable rt r" "l \<in> set (batch_lines rt r)"
  shows "LF \<notin> set l \<and> CR \<notin> set l"
proof -
  have doc: "LF \<notin> set (join TAB [L ''DOC'', to_wstring (nat (br_documentId r)), EncodeUtf8Base64 rt (br_fullName r)]) \<and>
      CR \<notin> set (join TAB [L ''DOC'', to_wstring (nat (br_documentId r)), EncodeUtf8Base64 rt (br_fullName r)])"
    by (rule no_break_join)
       (use assms(2) L_letters(3) to_wstring_plain in \<open>auto simp: renderable_def text_survives_def\<close>)
  have table: "LF \<notin> set l \<and> CR \<notin> set l" if "t \<in> set (br_tables r)" "l \<in> set (table_lines rt t)" for t
  proof -
    have t: "plain_field (tb_controlId t)" "\<forall>op \<in> set (tb_operations t). plain_field (co_address op) \<and>
        text_survives rt (co_expectedText op) \<and> text_survives rt (co_value op)"
      using assms(2) that(1) by (auto simp: renderable_def)
    have "LF \<notin> set (join TAB [L ''TABLE'', tb_controlId t]) \<and> CR \<notin> set (join TAB [L ''TABLE'', tb_controlId t])"
      by (rule no_break_join) (use t(1) L_letters(4) in \<open>auto simp: plain_field_def\<close>)
    then show ?thesis
      using that(2) t(2) op_line_fields(3) L_letters(8) by (auto simp: table_lines_def)
  qed
  consider "l = L ''HCB1''" | "l = join TAB [L ''DOC'', to_wstring (nat (br_documentId r)), EncodeUtf8Base64 rt (br_fullName r)]"
    | t where "t \<in> set (br_tables r)" "l \<in> set (table_lines rt t)" | "l = L ''END''"
    using assms(3) unfolding batch_lines_def by auto
  then show ?thesis
    by cases (use doc table L_letters(2,7) in auto)
qed

text \<open>Claim C17. The parser is complete: every well-formed batch whose texts the encoder and the
  decoder preserve has a payload, its lines joined, from which exactly that batch is read.\<close>

theorem batch_round_trip:
  assumes "batch_ok r" "renderable rt r" "ascii_digits rt" "\<not> rt_iswspace rt 45"
  shows "Batch_ParseRequest rt (join LF (batch_lines rt r)) = Inr r"
proof -
  let ?ls = "batch_lines rt r"
  let ?doc = "[L ''DOC'', to_wstring (nat (br_documentId r)), EncodeUtf8Base64 rt (br_fullName r)]"
  have lines: "payload_lines (join LF ?ls) = ?ls"
    by (rule payload_lines_join) (use batch_lines_plain [OF assms(1,2)] in \<open>auto simp: batch_lines_def\<close>)
  have "\<forall>f \<in> set ?doc. TAB \<notin> set f"
    using assms(2) L_letters(1) to_wstring_plain by (auto simp: renderable_def text_survives_def)
  then have "Split (join TAB ?doc) TAB = ?doc"
    by (intro Split_join) simp_all
  moreover have "ParseDocumentId rt (to_wstring (nat (br_documentId r))) = Some (br_documentId r)"
    using assms(1) ParseLong_decimal_value(1) [OF assms(3), of "nat (br_documentId r)" False]
    by (simp add: ParseDocumentId_eq batch_ok_def)
  ultimately have doc: "batch_document rt (Split (?ls ! 1) TAB) = Some (br_documentId r, br_fullName r)"
    using assms(2) by (simp add: batch_lines_def batch_document_def renderable_def text_survives_def)
  have "tables_loop rt 0 (concat (map (table_lines rt) (br_tables r)) @ [L ''END'']) [] = Inr ([] @ br_tables r, [L ''END''])"
    by (rule tables_loop_lines) (use assms(1,2) in \<open>auto simp: batch_ok_def renderable_def\<close>)
  then have loop: "tables_loop rt 0 (drop 2 ?ls) [] = Inr (br_tables r, [L ''END''])"
    by (simp add: batch_lines_def)
  obtain t ts op ops where first: "br_tables r = t # ts" "tb_operations t = op # ops"
    using assms(1) unfolding batch_ok_def table_ok_def by (metis list.exhaust list.set_intros(1))
  have "5 \<le> length ?ls" "join LF ?ls \<noteq> []"
    by (simp_all add: batch_lines_def table_lines_def first L_def)
  then show ?thesis
    using doc loop lines assms(1,2)
    by (simp add: Batch_ParseRequest_def batch_ok_def renderable_def) (simp add: batch_lines_def)
qed

subsection \<open>A sample batch\<close>

definition sample_batch :: BatchRequest where
  "sample_batch =
     \<lparr>br_documentId = 7, br_fullName = L ''a.hwp'',
      br_tables = [\<lparr>tb_controlId = L ''t1'', tb_operations =
        [\<lparr>co_kind = OK_Text, co_address = L ''A1'', co_expectedText = [], co_value = L ''x''\<rparr>,
         \<lparr>co_kind = OK_Image, co_address = L ''B1'', co_expectedText = [], co_value = L ''p''\<rparr>]\<rparr>]\<rparr>"

lemma sample_batch_ok: "batch_ok sample_batch" "renderable sample_runtime sample_batch"
  by code_simp+

theorem batch_round_trip_witness:
  "Batch_ParseRequest sample_runtime (join LF (batch_lines sample_runtime sample_batch)) = Inr sample_batch"
  by (rule batch_round_trip [OF sample_batch_ok sample_runtime_ok(1,2)])

definition sample_payload :: wstring where
  "sample_payload = join LF (map (join TAB) [[L ''HCB1''], [L ''DOC'', L ''7'', []], [L ''TABLE'', L ''t1''],
     [L ''IMAGE'', L ''A1'', [], []], [L ''ENDTABLE''], [L ''END'']])"

lemma batch_well_formed_witness:
  "\<exists>r. Batch_ParseRequest sample_runtime sample_payload = Inr r \<and> batch_ok r"
proof -
  have "case Batch_ParseRequest sample_runtime sample_payload of Inl e \<Rightarrow> False | Inr r \<Rightarrow> True"
    by code_simp
  then show ?thesis
    using batch_well_formed [of sample_runtime sample_payload] by (auto split: sum.splits)
qed

end
