(* ===== verification/LayoutSpec.thy ===== *)
theory LayoutSpec
  imports ActionTypes "HOL-Library.List_Lexorder"
begin

section \<open>Reference layouts: reading the payload (ReferenceLayoutSpec.cpp)\<close>

text \<open>
  A reference layout is an action whose setters and arrays describe a table: its grid, merged
  cells, edges, styles, styled regions, texts and gaps that must stay free. The arrays come as
  single elements; \<open>PayloadArrays\<close> puts them together, and \<open>parse_spec\<close> zips parallel arrays
  into records. Validation is in LayoutValidation.
\<close>

subsection \<open>Data\<close>

record Merge =
  mg_row :: LONG
  mg_column :: LONG
  mg_rowSpan :: LONG
  mg_columnSpan :: LONG

record Edge =
  eg_orientation :: LONG
  eg_line :: LONG
  eg_start :: LONG
  eg_end :: LONG
  eg_style :: wstring
  eg_width :: wstring
  eg_color :: LONG

record Style =
  sy_key :: wstring
  sy_fontName :: wstring
  sy_fontSize :: LONG
  sy_bold :: LONG
  sy_textColor :: LONG
  sy_fillColor :: LONG
  sy_alignment :: LONG
  sy_verticalAlignment :: LONG
  sy_widthRatio :: LONG
  sy_letterSpacing :: LONG
  sy_lineSpacingType :: LONG
  sy_lineSpacing :: LONG
  sy_previousSpacing :: LONG
  sy_nextSpacing :: LONG
  sy_paddingLeft :: LONG
  sy_paddingRight :: LONG
  sy_paddingTop :: LONG
  sy_paddingBottom :: LONG

record Region =
  rg_top :: LONG
  rg_left :: LONG
  rg_bottom :: LONG
  rg_right :: LONG
  rg_styleIndex :: LONG

record LayoutText =
  tx_row :: LONG
  tx_column :: LONG
  tx_styleIndex :: LONG
  tx_breakMode :: LONG
  tx_value :: wstring

record ProtectedGap =
  gp_axis :: LONG
  gp_top :: LONG
  gp_left :: LONG
  gp_bottom :: LONG
  gp_right :: LONG
  gp_minimum :: LONG

record Spec =
  sp_patch :: bool
  sp_targetControlId :: wstring
  sp_rows :: LONG
  sp_columns :: LONG
  sp_baseStyleId :: LONG
  sp_bodyLeft :: LONG
  sp_bodyTop :: LONG
  sp_bodyWidth :: LONG
  sp_bodyHeight :: LONG
  sp_columnWidths :: "LONG list"
  sp_rowHeights :: "LONG list"
  sp_patchColumns :: "LONG list"
  sp_patchRows :: "LONG list"
  sp_merges :: "Merge list"
  sp_edges :: "Edge list"
  sp_styles :: "Style list"
  sp_regions :: "Region list"
  sp_texts :: "LayoutText list"
  sp_protectedGaps :: "ProtectedGap list"

subsection \<open>Setters (ReferenceLayoutSpecSetters.cpp)\<close>

definition payload_error :: "string \<Rightarrow> wstring \<Rightarrow> Error" where
  "payload_error location message =
     \<lparr>er_code = L ''REFERENCE_LAYOUT_PAYLOAD'', er_location = L location, er_message = message\<rparr>"

definition IntegerSetter :: "Command \<Rightarrow> string \<Rightarrow> Error + LONG" where
  "IntegerSetter command path =
    (case List.find (\<lambda>s. set_path s = L path \<and> v_kind (set_value s) = VK_Integer) (cmd_setters command) of
       Some s \<Rightarrow> Inr (v_integer (set_value s))
     | None \<Rightarrow> Inl (payload_error ''ReferenceLayoutBulk'' (L ''missing integer setter: '' @ L path)))"

definition TextSetter :: "Command \<Rightarrow> string \<Rightarrow> Error + wstring" where
  "TextSetter command path =
    (case List.find (\<lambda>s. set_path s = L path \<and> v_kind (set_value s) = VK_Text) (cmd_setters command) of
       Some s \<Rightarrow> Inr (v_text (set_value s))
     | None \<Rightarrow> Inl (payload_error ''ReferenceLayoutBulk'' (L ''missing text setter: '' @ L path)))"

definition DefaultMissing :: "LONG list \<Rightarrow> nat \<Rightarrow> LONG \<Rightarrow> LONG list" where
  "DefaultMissing xs count fallback = (if xs = [] \<and> count > 0 then replicate count fallback else xs)"

subsection \<open>Arrays (ReferenceLayoutPayloadArrays.cpp)\<close>

text \<open>
  The map from names to arrays is an association list in the order of the declarations; a null
  pointer of the source, an element that has no value yet, is \<open>None\<close>.
\<close>

definition array_error :: "wstring \<Rightarrow> Error" where
  "array_error message = payload_error ''ReferenceLayout'' message"

fun load_declarations ::
  "(wstring \<times> LONG) list \<Rightarrow> (wstring \<times> Value option list) list \<Rightarrow> Error + (wstring \<times> Value option list) list" where
  "load_declarations [] arrays = Inr arrays"
| "load_declarations ((name, count) # rest) arrays =
     (if count < 0 \<or> name \<in> fst ` set arrays then Inl (array_error (L ''array declaration is invalid or duplicated''))
      else load_declarations rest (arrays @ [(name, replicate (nat count) None)]))"

fun set_element ::
  "wstring \<Rightarrow> nat \<Rightarrow> Value \<Rightarrow> (wstring \<times> Value option list) list \<Rightarrow> (wstring \<times> Value option list) list" where
  "set_element name i v [] = []"
| "set_element name i v ((n, vs) # rest) =
     (if n = name then (n, vs[i := Some v]) # rest else (n, vs) # set_element name i v rest)"

fun load_values ::
  "ArrayValue list \<Rightarrow> (wstring \<times> Value option list) list \<Rightarrow> Error + (wstring \<times> Value option list) list" where
  "load_values [] arrays = Inr arrays"
| "load_values (e # rest) arrays =
     (case map_of arrays (av_name e) of
        Some vs \<Rightarrow>
          if av_index e < 0 \<or> nat (av_index e) \<ge> length vs \<or> vs ! nat (av_index e) \<noteq> None
          then Inl (array_error (L ''array value is missing its declaration or duplicated''))
          else load_values rest (set_element (av_name e) (nat (av_index e)) (av_value e) arrays)
      | None \<Rightarrow> Inl (array_error (L ''array value is missing its declaration or duplicated'')))"

text \<open>The map is visited in the order of its keys: the message names the least of the arrays that
  have an unset element.\<close>

definition Arrays_Load :: "Command \<Rightarrow> Error + (wstring \<times> Value list) list" where
  "Arrays_Load command =
     bindE (load_declarations (cmd_arrays command) []) (\<lambda>declared.
     bindE (load_values (cmd_arrayValues command) declared) (\<lambda>arrays.
     case sort (map fst (filter (\<lambda>(n, vs). None \<in> set vs) arrays)) of
       name # _ \<Rightarrow> Inl (array_error (L ''array has an unset item: '' @ name))
     | [] \<Rightarrow> Inr (map (\<lambda>(n, vs). (n, map the vs)) arrays)))"

definition Arrays_Integers :: "(wstring \<times> Value list) list \<Rightarrow> string \<Rightarrow> Error + LONG list" where
  "Arrays_Integers arrays name =
    (case map_of arrays (L name) of
       None \<Rightarrow> Inl (array_error (L ''missing array: '' @ L name))
     | Some vs \<Rightarrow>
         if \<exists>v \<in> set vs. v_kind v \<noteq> VK_Integer then Inl (array_error (L ''array is not integer: '' @ L name))
         else Inr (map v_integer vs))"

definition Arrays_Texts :: "(wstring \<times> Value list) list \<Rightarrow> string \<Rightarrow> Error + wstring list" where
  "Arrays_Texts arrays name =
    (case map_of arrays (L name) of
       None \<Rightarrow> Inl (array_error (L ''missing array: '' @ L name))
     | Some vs \<Rightarrow>
         if \<exists>v \<in> set vs. v_kind v \<noteq> VK_Text then Inl (array_error (L ''array is not text: '' @ L name))
         else Inr (map v_text vs))"

definition Arrays_OptionalIntegers :: "(wstring \<times> Value list) list \<Rightarrow> string \<Rightarrow> Error + LONG list" where
  "Arrays_OptionalIntegers arrays name =
     (if map_of arrays (L name) = None then Inr [] else Arrays_Integers arrays name)"

definition Arrays_OptionalTexts :: "(wstring \<times> Value list) list \<Rightarrow> string \<Rightarrow> Error + wstring list" where
  "Arrays_OptionalTexts arrays name =
     (if map_of arrays (L name) = None then Inr [] else Arrays_Texts arrays name)"

definition SameSize :: "nat \<Rightarrow> nat list \<Rightarrow> Error + unit" where
  "SameSize expected sizes =
     failIf (\<exists>s \<in> set sizes. s \<noteq> expected) (array_error (L ''parallel reference-layout arrays have different sizes''))"

subsection \<open>Groups of parallel arrays\<close>

text \<open>Reads several optional arrays in order and stops at the first error.\<close>

fun integer_arrays :: "(wstring \<times> Value list) list \<Rightarrow> string list \<Rightarrow> Error + LONG list list" where
  "integer_arrays arrays [] = Inr []"
| "integer_arrays arrays (name # names) =
     bindE (Arrays_OptionalIntegers arrays name) (\<lambda>xs.
     bindE (integer_arrays arrays names) (\<lambda>rest. Inr (xs # rest)))"

fun text_arrays :: "(wstring \<times> Value list) list \<Rightarrow> string list \<Rightarrow> Error + wstring list list" where
  "text_arrays arrays [] = Inr []"
| "text_arrays arrays (name # names) =
     bindE (Arrays_OptionalTexts arrays name) (\<lambda>xs.
     bindE (text_arrays arrays names) (\<lambda>rest. Inr (xs # rest)))"

definition parse_merges :: "(wstring \<times> Value list) list \<Rightarrow> Error + Merge list" where
  "parse_merges arrays =
     bindE (integer_arrays arrays [''MergeRows'', ''MergeColumns'', ''MergeRowSpans'', ''MergeColumnSpans'']) (\<lambda>xs.
     bindE (SameSize (length (xs ! 0)) (map length (tl xs))) (\<lambda>_.
     Inr (map (\<lambda>i. \<lparr>mg_row = xs ! 0 ! i, mg_column = xs ! 1 ! i, mg_rowSpan = xs ! 2 ! i, mg_columnSpan = xs ! 3 ! i\<rparr>)
       [0..<length (xs ! 0)])))"

definition parse_edges :: "(wstring \<times> Value list) list \<Rightarrow> Error + Edge list" where
  "parse_edges arrays =
     bindE (integer_arrays arrays [''EdgeOrientations'', ''EdgeLines'', ''EdgeStarts'', ''EdgeEnds'', ''EdgeColors'']) (\<lambda>xs.
     bindE (text_arrays arrays [''EdgeStyles'', ''EdgeWidths'']) (\<lambda>ts.
     bindE (SameSize (length (xs ! 1)) (map length [xs ! 0, xs ! 2, xs ! 3, xs ! 4] @ map length ts)) (\<lambda>_.
     Inr (map (\<lambda>i. \<lparr>eg_orientation = xs ! 0 ! i, eg_line = xs ! 1 ! i, eg_start = xs ! 2 ! i, eg_end = xs ! 3 ! i,
                    eg_style = ts ! 0 ! i, eg_width = ts ! 1 ! i, eg_color = xs ! 4 ! i\<rparr>)
       [0..<length (xs ! 1)]))))"

definition parse_styles :: "(wstring \<times> Value list) list \<Rightarrow> Error + Style list" where
  "parse_styles arrays =
     bindE (text_arrays arrays [''StyleKeys'', ''StyleFontNames'']) (\<lambda>ts.
     bindE (integer_arrays arrays
       [''StyleFontSizes'', ''StyleBold'', ''StyleTextColors'', ''StyleFillColors'', ''StyleAlignments'',
        ''StyleVerticalAlignments'', ''StyleWidthRatios'', ''StyleLetterSpacings'', ''StyleLineSpacingTypes'',
        ''StyleLineSpacings'', ''StylePreviousSpacings'', ''StyleNextSpacings'', ''StylePaddingLeft'',
        ''StylePaddingRight'', ''StylePaddingTop'', ''StylePaddingBottom'']) (\<lambda>raw.
     let n = length (ts ! 0);
         xs = raw[6 := DefaultMissing (raw ! 6) n (-1), 7 := DefaultMissing (raw ! 7) n (-1000),
                  8 := DefaultMissing (raw ! 8) n (-1), 10 := DefaultMissing (raw ! 10) n (-1),
                  11 := DefaultMissing (raw ! 11) n (-1)]
     in bindE (SameSize n (length (ts ! 1) # map length xs)) (\<lambda>_.
        Inr (map (\<lambda>i. \<lparr>sy_key = ts ! 0 ! i, sy_fontName = ts ! 1 ! i, sy_fontSize = xs ! 0 ! i, sy_bold = xs ! 1 ! i,
                       sy_textColor = xs ! 2 ! i, sy_fillColor = xs ! 3 ! i, sy_alignment = xs ! 4 ! i,
                       sy_verticalAlignment = xs ! 5 ! i, sy_widthRatio = xs ! 6 ! i, sy_letterSpacing = xs ! 7 ! i,
                       sy_lineSpacingType = xs ! 8 ! i, sy_lineSpacing = xs ! 9 ! i, sy_previousSpacing = xs ! 10 ! i,
                       sy_nextSpacing = xs ! 11 ! i, sy_paddingLeft = xs ! 12 ! i, sy_paddingRight = xs ! 13 ! i,
                       sy_paddingTop = xs ! 14 ! i, sy_paddingBottom = xs ! 15 ! i\<rparr>)
          [0..<n]))))"

definition parse_regions :: "(wstring \<times> Value list) list \<Rightarrow> Error + Region list" where
  "parse_regions arrays =
     bindE (integer_arrays arrays [''RegionTop'', ''RegionLeft'', ''RegionBottom'', ''RegionRight'', ''RegionStyleIndexes'']) (\<lambda>xs.
     bindE (SameSize (length (xs ! 0)) (map length (tl xs))) (\<lambda>_.
     Inr (map (\<lambda>i. \<lparr>rg_top = xs ! 0 ! i, rg_left = xs ! 1 ! i, rg_bottom = xs ! 2 ! i, rg_right = xs ! 3 ! i,
                    rg_styleIndex = xs ! 4 ! i\<rparr>)
       [0..<length (xs ! 0)])))"

definition parse_texts :: "(wstring \<times> Value list) list \<Rightarrow> Error + LayoutText list" where
  "parse_texts arrays =
     bindE (integer_arrays arrays [''TextRows'', ''TextColumns'', ''TextStyleIndexes'', ''TextBreakModes'']) (\<lambda>raw.
     bindE (Arrays_OptionalTexts arrays ''TextValues'') (\<lambda>ts.
     let n = length (raw ! 0); xs = raw[3 := DefaultMissing (raw ! 3) n 0]
     in bindE (SameSize n (map length (tl xs) @ [length ts])) (\<lambda>_.
        Inr (map (\<lambda>i. \<lparr>tx_row = xs ! 0 ! i, tx_column = xs ! 1 ! i, tx_styleIndex = xs ! 2 ! i,
                       tx_breakMode = xs ! 3 ! i, tx_value = ts ! i\<rparr>)
          [0..<n]))))"

definition ParseProtectedGaps :: "(wstring \<times> Value list) list \<Rightarrow> Error + ProtectedGap list" where
  "ParseProtectedGaps arrays =
     bindE (integer_arrays arrays [''GapAxes'', ''GapTop'', ''GapLeft'', ''GapBottom'', ''GapRight'', ''GapMinimums'']) (\<lambda>xs.
     bindE (SameSize (length (xs ! 0)) (map length (tl xs))) (\<lambda>_.
     Inr (map (\<lambda>i. \<lparr>gp_axis = xs ! 0 ! i, gp_top = xs ! 1 ! i, gp_left = xs ! 2 ! i, gp_bottom = xs ! 3 ! i,
                    gp_right = xs ! 4 ! i, gp_minimum = xs ! 5 ! i\<rparr>)
       [0..<length (xs ! 0)])))"

definition parse_patch_target ::
  "Command \<Rightarrow> (wstring \<times> Value list) list \<Rightarrow> bool \<Rightarrow> Error + (wstring \<times> LONG list \<times> LONG list)" where
  "parse_patch_target command arrays patch =
    (if \<not> patch then Inr ([], [], [])
     else bindE (TextSetter command ''TargetControlId'') (\<lambda>target.
          bindE (Arrays_OptionalIntegers arrays ''PatchColumnIndexes'') (\<lambda>columns.
          bindE (Arrays_OptionalIntegers arrays ''PatchRowIndexes'') (\<lambda>rows.
          Inr (target, columns, rows)))))"

text \<open>Everything \<open>Parse\<close> does before it validates; another command name fails without an error.\<close>

definition parse_spec :: "Command \<Rightarrow> Error option + Spec" where
  "parse_spec command =
    (if cmd_name command \<noteq> L ''ReferenceLayoutBulk'' \<and> cmd_name command \<noteq> L ''ReferenceLayoutPatch'' then Inl None
     else map_sum Some id (
       let patch = cmd_name command = L ''ReferenceLayoutPatch'' in
       bindE (IntegerSetter command ''Rows'') (\<lambda>rows.
       bindE (IntegerSetter command ''Columns'') (\<lambda>columns.
       bindE (IntegerSetter command ''BaseStyleId'') (\<lambda>baseStyleId.
       bindE (IntegerSetter command ''BodyLeft'') (\<lambda>bodyLeft.
       bindE (IntegerSetter command ''BodyTop'') (\<lambda>bodyTop.
       bindE (IntegerSetter command ''BodyWidth'') (\<lambda>bodyWidth.
       bindE (IntegerSetter command ''BodyHeight'') (\<lambda>bodyHeight.
       bindE (Arrays_Load command) (\<lambda>arrays.
       bindE (Arrays_Integers arrays ''ColumnWidths'') (\<lambda>columnWidths.
       bindE (Arrays_Integers arrays ''RowHeights'') (\<lambda>rowHeights.
       bindE (parse_patch_target command arrays patch) (\<lambda>(target, patchColumns, patchRows).
       bindE (parse_merges arrays) (\<lambda>merges.
       bindE (parse_edges arrays) (\<lambda>edges.
       bindE (parse_styles arrays) (\<lambda>styles.
       bindE (parse_regions arrays) (\<lambda>regions.
       bindE (parse_texts arrays) (\<lambda>texts.
       bindE (ParseProtectedGaps arrays) (\<lambda>gaps.
       Inr \<lparr>sp_patch = patch, sp_targetControlId = target, sp_rows = rows, sp_columns = columns,
            sp_baseStyleId = baseStyleId, sp_bodyLeft = bodyLeft, sp_bodyTop = bodyTop,
            sp_bodyWidth = bodyWidth, sp_bodyHeight = bodyHeight, sp_columnWidths = columnWidths,
            sp_rowHeights = rowHeights, sp_patchColumns = patchColumns, sp_patchRows = patchRows,
            sp_merges = merges, sp_edges = edges, sp_styles = styles, sp_regions = regions,
            sp_texts = texts, sp_protectedGaps = gaps\<rparr>)))))))))))))))))))"

subsection \<open>When the arrays load\<close>

definition element_key :: "ArrayValue \<Rightarrow> wstring \<times> int" where
  "element_key e = (av_name e, av_index e)"

definition free_slot :: "(wstring \<times> Value option list) list \<Rightarrow> ArrayValue \<Rightarrow> bool" where
  "free_slot arrays e \<longleftrightarrow> 0 \<le> av_index e \<and>
     (\<exists>vs. map_of arrays (av_name e) = Some vs \<and> nat (av_index e) < length vs \<and> vs ! nat (av_index e) = None)"

lemma map_of_set_element:
  "map_of (set_element name i v arrays) n =
     (if n = name then map_option (\<lambda>vs. vs[i := Some v]) (map_of arrays name) else map_of arrays n)"
  by (induction arrays) auto

lemma fst_set_element [simp]: "map fst (set_element name i v arrays) = map fst arrays"
  by (induction arrays) auto

lemma load_values_free:
  "(\<exists>arrays'. load_values es arrays = Inr arrays') \<longleftrightarrow> (\<forall>e \<in> set es. free_slot arrays e) \<and> distinct (map element_key es)"
proof (induction es arbitrary: arrays)
  case (Cons e es)
  show ?case
  proof (cases "free_slot arrays e")
    case True
    then obtain vs where vs: "map_of arrays (av_name e) = Some vs" "0 \<le> av_index e" "nat (av_index e) < length vs"
      "vs ! nat (av_index e) = None"
      by (auto simp: free_slot_def)
    let ?arrays' = "set_element (av_name e) (nat (av_index e)) (av_value e) arrays"
    have "free_slot ?arrays' e' \<longleftrightarrow> free_slot arrays e' \<and> element_key e' \<noteq> element_key e" for e'
      using vs by (auto simp: free_slot_def map_of_set_element element_key_def nth_list_update)
    then have "(\<forall>x \<in> set es. free_slot ?arrays' x) \<longleftrightarrow>
        (\<forall>x \<in> set es. free_slot arrays x) \<and> element_key e \<notin> set (map element_key es)"
      unfolding set_map image_iff by metis
    moreover have "load_values (e # es) arrays = load_values es ?arrays'"
      using vs by simp
    ultimately show ?thesis
      using True Cons.IH [of ?arrays'] by auto
  next
    case False
    then have "\<exists>m. load_values (e # es) arrays = Inl m"
      by (auto simp: free_slot_def not_le split: option.splits)
    with False show ?thesis by auto
  qed
qed simp

text \<open>What loading leaves in each slot.\<close>

lemma load_values_slots:
  assumes "load_values es arrays = Inr arrays'" "map_of arrays n = Some vs"
  shows "\<exists>vs'. map_of arrays' n = Some vs' \<and> length vs' = length vs \<and>
    (\<forall>i < length vs. vs' ! i = (case List.find (\<lambda>e. element_key e = (n, int i)) es of
        Some e \<Rightarrow> Some (av_value e) | None \<Rightarrow> vs ! i))"
  using assms
proof (induction es arbitrary: arrays vs)
  case (Cons e es)
  let ?i = "nat (av_index e)"
  let ?arrays1 = "set_element (av_name e) ?i (av_value e) arrays"
  have slots: "\<forall>x \<in> set (e # es). free_slot arrays x" "distinct (map element_key (e # es))"
    using load_values_free [of "e # es" arrays] Cons.prems(1) by auto
  then obtain ws where ws: "map_of arrays (av_name e) = Some ws" "0 \<le> av_index e" "?i < length ws" "ws ! ?i = None"
    by (auto simp: free_slot_def)
  then have rec: "load_values es ?arrays1 = Inr arrays'"
    using Cons.prems(1) by simp
  show ?case
  proof (cases "n = av_name e")
    case True
    then have vs: "vs = ws" "map_of ?arrays1 n = Some (vs[?i := Some (av_value e)])"
      using Cons.prems(2) ws(1) by (simp_all add: map_of_set_element)
    have later: "List.find (\<lambda>x. element_key x = (n, av_index e)) es = None"
    proof -
      have "(n, av_index e) = element_key e" "element_key e \<notin> element_key ` set es"
        using slots(2) True by (simp_all add: element_key_def)
      then show ?thesis
        unfolding find_None_iff by (metis imageI)
    qed
    obtain vs' where "map_of arrays' n = Some vs'" "length vs' = length vs"
      "\<forall>i < length vs. vs' ! i = (case List.find (\<lambda>e. element_key e = (n, int i)) es of
         Some e \<Rightarrow> Some (av_value e) | None \<Rightarrow> vs[?i := Some (av_value e)] ! i)"
      using Cons.IH [OF rec vs(2)] by auto
    moreover have "(case List.find (\<lambda>e. element_key e = (n, int i)) es of
         Some e \<Rightarrow> Some (av_value e) | None \<Rightarrow> vs[?i := Some (av_value e)] ! i) =
       (case List.find (\<lambda>e. element_key e = (n, int i)) (e # es) of
         Some e \<Rightarrow> Some (av_value e) | None \<Rightarrow> vs ! i)" if "i < length vs" for i
    proof (cases "i = ?i")
      case True
      then show ?thesis
        using later \<open>n = av_name e\<close> ws(2) that by (simp add: element_key_def)
    next
      case False
      then have "element_key e \<noteq> (n, int i)"
        by (auto simp: element_key_def)
      moreover have "vs[?i := Some (av_value e)] ! i = vs ! i"
        using False by (metis nth_list_update_neq)
      ultimately show ?thesis by (simp split: option.split)
    qed
    ultimately show ?thesis by simp
  next
    case False
    then have "map_of ?arrays1 n = Some vs"
      using Cons.prems(2) by (simp add: map_of_set_element)
    then show ?thesis
      using Cons.IH [OF rec] False by (simp add: element_key_def)
  qed
qed simp

lemma load_values_names: "load_values es arrays = Inr arrays' \<Longrightarrow> map fst arrays' = map fst arrays"
  by (induction es arbitrary: arrays) (auto split: option.splits if_splits)

lemma load_declarations_iff:
  "load_declarations ds arrays = Inr arrays' \<longleftrightarrow>
     arrays' = arrays @ map (\<lambda>(n, c). (n, replicate (nat c) None)) ds \<and> (\<forall>(n, c) \<in> set ds. 0 \<le> c) \<and>
     distinct (map fst ds) \<and> fst ` set ds \<inter> fst ` set arrays = {}"
  by (induction ds arrays rule: load_declarations.induct) (auto split: if_splits)

definition declared_slots :: "Command \<Rightarrow> (wstring \<times> int) set" where
  "declared_slots command = {(n, i). \<exists>c. (n, c) \<in> set (cmd_arrays command) \<and> 0 \<le> i \<and> i < c}"

definition find_value :: "Command \<Rightarrow> wstring \<Rightarrow> nat \<Rightarrow> Value option" where
  "find_value command n i =
     map_option av_value (List.find (\<lambda>e. element_key e = (n, int i)) (cmd_arrayValues command))"

lemma declared_slots_filled:
  assumes "load_values (cmd_arrayValues command) declared = Inr filled" "map_of declared n = Some (replicate k None)"
  shows "\<exists>vs. map_of filled n = Some vs \<and> length vs = k \<and> (\<forall>i < k. vs ! i = find_value command n i)"
proof -
  obtain vs where vs: "map_of filled n = Some vs" "length vs = k"
    "\<forall>i < k. vs ! i = (case List.find (\<lambda>e. element_key e = (n, int i)) (cmd_arrayValues command) of
        Some e \<Rightarrow> Some (av_value e) | None \<Rightarrow> replicate k None ! i)"
    using load_values_slots [OF assms] by (auto simp del: nth_replicate)
  have "\<forall>i < k. vs ! i = find_value command n i"
    using vs(3) by (auto simp: find_value_def split: option.splits)
  with vs show ?thesis by blast
qed

lemma Arrays_Load_Inr:
  assumes "Arrays_Load command = Inr arrays"
  obtains declared filled where "declared = map (\<lambda>(n, c). (n, replicate (nat c) None)) (cmd_arrays command)"
    "load_values (cmd_arrayValues command) declared = Inr filled" "\<forall>(n, c) \<in> set (cmd_arrays command). 0 \<le> c"
    "distinct (map fst (cmd_arrays command))" "\<forall>(n, vs) \<in> set filled. None \<notin> set vs"
    "arrays = map (\<lambda>(n, vs). (n, map the vs)) filled"
proof -
  obtain declared filled where D: "load_declarations (cmd_arrays command) [] = Inr declared"
    and F: "load_values (cmd_arrayValues command) declared = Inr filled"
    and C: "(case sort (map fst (filter (\<lambda>(n, vs). None \<in> set vs) filled)) of
       name # _ \<Rightarrow> Inl (array_error (L ''array has an unset item: '' @ name))
     | [] \<Rightarrow> Inr (map (\<lambda>(n, vs). (n, map the vs)) filled)) = Inr arrays"
    using assms unfolding Arrays_Load_def by (auto simp: bindE_Inr_iff)
  have "sort (map fst (filter (\<lambda>(n, vs). None \<in> set vs) filled)) = []"
    using C by (auto split: list.splits)
  then have "set (sort (map fst (filter (\<lambda>(n, vs). None \<in> set vs) filled))) = {}"
    by simp
  then have none: "\<forall>(n, vs) \<in> set filled. None \<notin> set vs"
    by auto
  show thesis
    by (rule that [of declared filled])
       (use D F C none in \<open>auto simp: load_declarations_iff split: list.splits\<close>)
qed

lemma declared_lookup:
  assumes "distinct (map fst (cmd_arrays command))" "(n, c) \<in> set (cmd_arrays command)"
  shows "map_of (map (\<lambda>(n, c). (n, replicate (nat c) None)) (cmd_arrays command)) n = Some (replicate (nat c) None)"
  using assms by (intro map_of_is_SomeI) (force simp: comp_def case_prod_unfold)+

lemma free_slot_declared:
  assumes "distinct (map fst (cmd_arrays command))"
  shows "free_slot (map (\<lambda>(n, c). (n, replicate (nat c) None)) (cmd_arrays command)) e \<longleftrightarrow>
    element_key e \<in> declared_slots command"
proof
  assume "element_key e \<in> declared_slots command"
  then obtain c where c: "(av_name e, c) \<in> set (cmd_arrays command)" "0 \<le> av_index e" "av_index e < c"
    by (auto simp: declared_slots_def element_key_def)
  then show "free_slot (map (\<lambda>(n, c). (n, replicate (nat c) None)) (cmd_arrays command)) e"
    using declared_lookup [OF assms c(1)] by (auto simp: free_slot_def)
next
  assume "free_slot (map (\<lambda>(n, c). (n, replicate (nat c) None)) (cmd_arrays command)) e"
  then obtain vs :: "Value option list" where vs: "map_of (map (\<lambda>(n, c). (n, replicate (nat c) None)) (cmd_arrays command)) (av_name e) = Some vs"
    "0 \<le> av_index e" "nat (av_index e) < length vs"
    by (auto simp: free_slot_def)
  then obtain c where "(av_name e, c) \<in> set (cmd_arrays command)" "vs = replicate (nat c) None"
    by (auto dest!: map_of_SomeD)
  with vs show "element_key e \<in> declared_slots command"
    by (auto simp: declared_slots_def element_key_def)
qed

text \<open>The elements that loading reports, one by one.\<close>

lemma Arrays_Load_content:
  assumes "Arrays_Load command = Inr arrays" and "(n, c) \<in> set (cmd_arrays command)"
  shows "\<exists>vs. map_of arrays n = Some vs \<and> int (length vs) = c \<and>
    (\<forall>i < length vs. \<exists>e \<in> set (cmd_arrayValues command). element_key e = (n, int i) \<and> vs ! i = av_value e)"
proof -
  obtain declared filled where D: "declared = map (\<lambda>(n, c). (n, replicate (nat c) None)) (cmd_arrays command)"
    "load_values (cmd_arrayValues command) declared = Inr filled" "\<forall>(n, c) \<in> set (cmd_arrays command). 0 \<le> c"
    "distinct (map fst (cmd_arrays command))" "\<forall>(n, vs) \<in> set filled. None \<notin> set vs"
    "arrays = map (\<lambda>(n, vs). (n, map the vs)) filled"
    by (rule Arrays_Load_Inr [OF assms(1)])
  have decl: "map_of declared n = Some (replicate (nat c) None)"
    using declared_lookup [OF D(4) assms(2)] D(1) by simp
  obtain vs where vs: "map_of filled n = Some vs" "length vs = nat c"
    "\<forall>i < nat c. vs ! i = find_value command n i"
    using declared_slots_filled [OF D(2) decl] by blast
  have "(n, vs) \<in> set filled"
    using vs(1) by (rule map_of_SomeD)
  then have full: "None \<notin> set vs"
    using D(5) by blast
  have elements: "\<exists>e \<in> set (cmd_arrayValues command). element_key e = (n, int i) \<and> map the vs ! i = av_value e"
    if i: "i < length vs" for i
  proof -
    have "vs ! i \<noteq> None"
      using full i by (metis nth_mem)
    then obtain e where e: "List.find (\<lambda>e. element_key e = (n, int i)) (cmd_arrayValues command) = Some e" "vs ! i = Some (av_value e)"
      using vs(2,3) i by (auto simp: find_value_def split: option.splits)
    then show ?thesis
      using find_Some_in [OF e(1)] i by auto
  qed
  have lookup: "map_of arrays n = Some (map the vs)"
    unfolding D(6) using vs(1) by (simp add: map_of_map)
  have size: "int (length (map the vs)) = c"
    using vs(2) assms(2) D(3) by auto
  show ?thesis
    by (intro exI [of _ "map the vs"] conjI allI impI lookup size elements) (simp only: length_map)
qed

lemma Arrays_Load_slots:
  assumes arrays: "Arrays_Load command = Inr arrays"
  shows "distinct (map fst (cmd_arrays command)) \<and> (\<forall>(n, c) \<in> set (cmd_arrays command). 0 \<le> c) \<and>
    distinct (map element_key (cmd_arrayValues command)) \<and>
    set (map element_key (cmd_arrayValues command)) = declared_slots command"
proof -
  let ?declared = "map (\<lambda>(n, c). (n, replicate (nat c) None)) (cmd_arrays command) :: (wstring \<times> Value option list) list"
  obtain filled where D: "load_values (cmd_arrayValues command) ?declared = Inr filled"
    "\<forall>(n, c) \<in> set (cmd_arrays command). 0 \<le> c" "distinct (map fst (cmd_arrays command))"
    using arrays by (metis Arrays_Load_Inr)
  have slots: "\<forall>e \<in> set (cmd_arrayValues command). element_key e \<in> declared_slots command"
    "distinct (map element_key (cmd_arrayValues command))"
    using load_values_free [of "cmd_arrayValues command" ?declared] D(1) unfolding free_slot_declared [OF D(3)] by auto
  moreover have "declared_slots command \<subseteq> set (map element_key (cmd_arrayValues command))"
  proof (rule subsetI, clarify)
    fix n i assume "(n, i) \<in> declared_slots command"
    then obtain c where c: "(n, c) \<in> set (cmd_arrays command)" "0 \<le> i" "i < c"
      by (auto simp: declared_slots_def)
    obtain vs where "int (length vs) = c"
      "\<forall>i < length vs. \<exists>e \<in> set (cmd_arrayValues command). element_key e = (n, int i) \<and> vs ! i = av_value e"
      using Arrays_Load_content [OF arrays c(1)] by blast
    then obtain e where "e \<in> set (cmd_arrayValues command)" "element_key e = (n, int (nat i))"
      using c(2,3) by (metis nat_0_le nat_less_iff)
    then show "(n, i) \<in> set (map element_key (cmd_arrayValues command))"
      using c(2) by force
  qed
  ultimately show ?thesis
    using D(2,3) by auto
qed

lemma loaded_full:
  assumes ok: "distinct (map fst (cmd_arrays command)) \<and> (\<forall>(n, c) \<in> set (cmd_arrays command). 0 \<le> c) \<and>
      distinct (map element_key (cmd_arrayValues command)) \<and>
      set (map element_key (cmd_arrayValues command)) = declared_slots command"
    and fill: "load_values (cmd_arrayValues command) (map (\<lambda>(n, c). (n, replicate (nat c) None)) (cmd_arrays command)) = Inr filled"
    and n: "(n, vs) \<in> set filled"
  shows "None \<notin> set vs"
proof -
  let ?declared = "map (\<lambda>(n, c). (n, replicate (nat c) None)) (cmd_arrays command) :: (wstring \<times> Value option list) list"
  have names: "map fst filled = map fst (cmd_arrays command)"
    using load_values_names [OF fill] by (simp add: comp_def case_prod_unfold)
  then have lookup: "map_of filled n = Some vs"
    using n ok by (intro map_of_is_SomeI) simp_all
  have "n \<in> set (map fst filled)"
    using n by force
  then obtain c where c: "(n, c) \<in> set (cmd_arrays command)"
    unfolding names by auto
  have decl_n: "map_of ?declared n = Some (replicate (nat c) None)"
    using declared_lookup ok c by blast
  obtain vs' where vs': "map_of filled n = Some vs'" "length vs' = nat c" "\<forall>i < nat c. vs' ! i = find_value command n i"
    using declared_slots_filled [OF fill decl_n] by blast
  have "vs' ! i \<noteq> None" if i: "i < nat c" for i
  proof -
    have "(n, int i) \<in> set (map element_key (cmd_arrayValues command))"
      using ok c i by (auto simp: declared_slots_def)
    then have "List.find (\<lambda>e. element_key e = (n, int i)) (cmd_arrayValues command) \<noteq> None"
      by (auto simp: find_None_iff)
    then show ?thesis
      using vs'(3) i by (auto simp: find_value_def)
  qed
  then show ?thesis
    using lookup vs'(1,2) by (metis in_set_conv_nth option.inject)
qed

text \<open>Claim C19. The arrays of a command load exactly when the declarations have distinct names and
  no negative size, and the elements are a bijection onto the declared slots: each slot is set
  once and nothing else is. Loading then gives every slot the value of its element.\<close>

theorem Arrays_Load_iff:
  "((\<exists>arrays. Arrays_Load command = Inr arrays) \<longleftrightarrow>
      distinct (map fst (cmd_arrays command)) \<and> (\<forall>(n, c) \<in> set (cmd_arrays command). 0 \<le> c) \<and>
      distinct (map element_key (cmd_arrayValues command)) \<and>
      set (map element_key (cmd_arrayValues command)) = declared_slots command) \<and>
   (\<forall>arrays n c. Arrays_Load command = Inr arrays \<and> (n, c) \<in> set (cmd_arrays command) \<longrightarrow>
      (\<exists>vs. map_of arrays n = Some vs \<and> int (length vs) = c \<and>
        (\<forall>i < length vs. \<exists>e \<in> set (cmd_arrayValues command). element_key e = (n, int i) \<and> vs ! i = av_value e)))"
  (is "(?load \<longleftrightarrow> ?ok) \<and> ?content")
proof (intro conjI)
  let ?declared = "map (\<lambda>(n, c). (n, replicate (nat c) None)) (cmd_arrays command) :: (wstring \<times> Value option list) list"
  show "?load \<longleftrightarrow> ?ok"
  proof
    assume ?load
    then show ?ok
      using Arrays_Load_slots by blast
  next
    assume ok: ?ok
    then have decl: "load_declarations (cmd_arrays command) [] = Inr ?declared"
      by (simp add: load_declarations_iff)
    have "(\<forall>e \<in> set (cmd_arrayValues command). free_slot ?declared e) \<and> distinct (map element_key (cmd_arrayValues command))"
      using ok free_slot_declared [of command] by auto
    then obtain filled where fill: "load_values (cmd_arrayValues command) ?declared = Inr filled"
      using load_values_free [of "cmd_arrayValues command" ?declared] by blast
    have "None \<notin> set vs" if "(n, vs) \<in> set filled" for n vs
      by (rule loaded_full [OF ok fill that])
    then have "filter (\<lambda>(n, vs). None \<in> set vs) filled = []"
      by (auto simp: filter_empty_conv)
    then show ?load
      using decl fill by (simp add: Arrays_Load_def)
  qed
qed (use Arrays_Load_content in blast)

definition sample_arrays :: Command where
  "sample_arrays = new_command\<lparr>cmd_arrays := [(L ''W'', 2)],
     cmd_arrayValues := [\<lparr>av_name = L ''W'', av_index = 1, av_value = new_value\<rparr>,
                         \<lparr>av_name = L ''W'', av_index = 0, av_value = new_value\<rparr>]\<rparr>"

theorem Arrays_Load_iff_witness: "\<exists>arrays. Arrays_Load sample_arrays = Inr arrays"
proof -
  have "declared_slots sample_arrays = {(L ''W'', 1), (L ''W'', 0)}"
    by (auto simp: declared_slots_def sample_arrays_def)
  then have "distinct (map fst (cmd_arrays sample_arrays)) \<and> (\<forall>(n, c) \<in> set (cmd_arrays sample_arrays). 0 \<le> c) \<and>
      distinct (map element_key (cmd_arrayValues sample_arrays)) \<and>
      set (map element_key (cmd_arrayValues sample_arrays)) = declared_slots sample_arrays"
    by (simp add: sample_arrays_def element_key_def)
  then show ?thesis
    using Arrays_Load_iff [of sample_arrays] by blast
qed

end
