(* ===== verification/LayoutCommands.thy ===== *)
theory LayoutCommands
  imports LayoutSpec
begin

section \<open>Reference layouts: the commands (ReferenceLayoutCommands.cpp, ReferenceLayoutStyleCommands.cpp)\<close>

text \<open>
  The actions a layout is built with: each function fills a \<open>Command\<close> of kind \<open>Action\<close> with the
  setters, and for the table creation the arrays, that the word processor expects.
\<close>

subsection \<open>Values and actions\<close>

definition IntegerValue :: "LONG \<Rightarrow> Value" where
  "IntegerValue i = new_value\<lparr>v_kind := VK_Integer, v_integer := i\<rparr>"

definition BooleanValue :: "bool \<Rightarrow> Value" where
  "BooleanValue b = new_value\<lparr>v_kind := VK_Boolean, v_boolean := b\<rparr>"

definition TextValue :: "wstring \<Rightarrow> Value" where
  "TextValue t = new_value\<lparr>v_kind := VK_Text, v_text := t\<rparr>"

definition Enumeration :: "string \<Rightarrow> wstring \<Rightarrow> Value" where
  "Enumeration converter t = new_value\<lparr>v_kind := VK_Enumeration, v_converter := L converter, v_text := t\<rparr>"

definition SetField :: "string \<Rightarrow> Value \<Rightarrow> Setter" where
  "SetField path v = \<lparr>set_path = L path, set_value = v\<rparr>"

definition Action :: "string \<Rightarrow> string \<Rightarrow> Setter list \<Rightarrow> Command" where
  "Action name parameterSet setters =
     new_command\<lparr>cmd_kind := CK_Action, cmd_name := L name, cmd_parameterSet := L parameterSet, cmd_setters := setters\<rparr>"

fun lookup_text :: "(string \<times> string) list \<Rightarrow> string \<Rightarrow> wstring \<Rightarrow> wstring" where
  "lookup_text [] fallback s = L fallback"
| "lookup_text ((k, v) # rest) fallback s = (if s = L k then L v else lookup_text rest fallback s)"

definition LineType :: "wstring \<Rightarrow> wstring" where
  "LineType = lookup_text
     [(''none'', ''None''), (''solid'', ''Solid''), (''dash'', ''Dash''), (''dot'', ''Dot''),
      (''dash_dot'', ''DashDot''), (''dash_dot_dot'', ''DashDotDot''), (''long_dash'', ''LongDash''),
      (''circle'', ''Circle''), (''double_slim'', ''DoubleSlim''), (''slim_thick'', ''SlimThick''),
      (''thick_slim'', ''ThickSlim'')] ''SlimThickSlim''"

subsection \<open>Creation\<close>

definition AnchorParagraphCommand :: Command where
  "AnchorParagraphCommand = Action ''ParagraphShape'' ''HParaShape''
     [SetField ''AlignType'' (Enumeration ''HAlign'' (L ''Center'')), SetField ''LeftMargin'' (IntegerValue 0),
      SetField ''RightMargin'' (IntegerValue 0), SetField ''Indentation'' (IntegerValue 0), SetField ''PrevSpacing'' (IntegerValue 0),
      SetField ''NextSpacing'' (IntegerValue 0), SetField ''LineSpacingType'' (IntegerValue 0), SetField ''LineSpacing'' (IntegerValue 100)]"

definition BaseStyleCommand :: "LONG \<Rightarrow> Command" where
  "BaseStyleCommand styleId = Action ''Style'' ''HStyle'' [SetField ''Apply'' (IntegerValue styleId)]"

definition TableSeedCharacterCommand :: Command where
  "TableSeedCharacterCommand = Action ''CharShape'' ''HCharShape'' [SetField ''Height'' (IntegerValue 100)]"

definition TextBreakAction :: "LONG \<Rightarrow> wstring" where
  "TextBreakAction breakMode = (if breakMode = 1 then L ''BreakPara'' else L ''BreakLine'')"

text \<open>The elements of an array of the given length, taken from a list of sizes.\<close>

definition size_elements :: "string \<Rightarrow> LONG \<Rightarrow> LONG list \<Rightarrow> ArrayValue list" where
  "size_elements name count sizes =
     map (\<lambda>i. \<lparr>av_name = L name, av_index = i, av_value = IntegerValue (sizes ! nat i)\<rparr>) [0 .. count - 1]"

definition TableCreateCommand :: "Spec \<Rightarrow> Command" where
  "TableCreateCommand s =
     (Action ''TableCreate'' ''HTableCreation''
       [SetField ''Rows'' (IntegerValue (sp_rows s)), SetField ''Cols'' (IntegerValue (sp_columns s)),
        SetField ''WidthType'' (IntegerValue 2), SetField ''HeightType'' (IntegerValue 1),
        SetField ''WidthValue'' (IntegerValue (sp_bodyWidth s)), SetField ''HeightValue'' (IntegerValue (sp_bodyHeight s)),
        SetField ''TableProperties/TreatAsChar'' (BooleanValue True), SetField ''TableProperties/ProtectSize'' (BooleanValue False),
        SetField ''TableProperties/Width'' (IntegerValue (sp_bodyWidth s)),
        SetField ''TableProperties/Height'' (IntegerValue (sp_bodyHeight s)),
        SetField ''TableProperties/CellMarginLeft'' (IntegerValue 0), SetField ''TableProperties/CellMarginRight'' (IntegerValue 0),
        SetField ''TableProperties/CellMarginTop'' (IntegerValue 0), SetField ''TableProperties/CellMarginBottom'' (IntegerValue 0)])
     \<lparr>cmd_arrays := [(L ''ColWidth'', sp_columns s), (L ''RowHeight'', sp_rows s)],
      cmd_arrayValues := size_elements ''ColWidth'' (sp_columns s) (sp_columnWidths s) @
                         size_elements ''RowHeight'' (sp_rows s) (sp_rowHeights s)\<rparr>"

definition ClearAllBordersCommand :: Command where
  "ClearAllBordersCommand = Action ''CellBorderFill'' ''HCellBorderFill''
     (map (\<lambda>axis. SetField (''HSet/Type'' @ axis) (Enumeration ''HwpLineType'' (L ''None''))) [''Vert'', ''Horz''] @
      map (\<lambda>side. SetField (''HSet/BorderType'' @ side) (Enumeration ''HwpLineType'' (L ''None'')))
        [''Left'', ''Right'', ''Top'', ''Bottom''])"

definition VisibleEdgeCommand :: "Edge \<Rightarrow> string \<Rightarrow> Command" where
  "VisibleEdgeCommand e side = Action ''CellZoneBorder'' ''HCellBorderFill''
     [SetField ''ApplyTo'' (IntegerValue 2), SetField ''NoNeighborCell'' (IntegerValue 0),
      SetField (''SelCellsBorderFill/'' @ ''BorderType'' @ side) (Enumeration ''HwpLineType'' (LineType (eg_style e))),
      SetField (''SelCellsBorderFill/'' @ ''BorderWidth'' @ side) (Enumeration ''HwpLineWidth'' (eg_width e)),
      SetField (''SelCellsBorderFill/'' @ (if side = ''Left'' then ''BorderCorlorLeft'' else ''BorderColor'' @ side))
        (IntegerValue (eg_color e))]"

definition UnlockTableSizeCommand :: Command where
  "UnlockTableSizeCommand = Action ''TablePropertyDialog'' ''HShapeObject'' [SetField ''ProtectSize'' (BooleanValue False)]"

definition CellSizeCommand :: "bool \<Rightarrow> LONG \<Rightarrow> Command" where
  "CellSizeCommand column extent = Action ''TablePropertyDialog'' ''HShapeObject''
     [SetField ''HSet/ShapeType'' (IntegerValue 3), SetField ''HSet/ShapeCellSize'' (IntegerValue 1),
      SetField (if column then ''ShapeTableCell/Width'' else ''ShapeTableCell/Height'') (IntegerValue extent)]"

definition SplitMergedCellCommand :: "Merge \<Rightarrow> bool \<Rightarrow> bool \<Rightarrow> Command" where
  "SplitMergedCellCommand m splitColumns splitRows = Action ''TableSplitCell'' ''HTableSplitCell''
     [SetField ''Cols'' (IntegerValue (if splitColumns then mg_columnSpan m else 1)),
      SetField ''Rows'' (IntegerValue (if splitRows then mg_rowSpan m else 1)),
      SetField ''DistributeHeight'' (IntegerValue 0), SetField ''Merge'' (IntegerValue 0), SetField ''Mode2'' (IntegerValue 1)]"

subsection \<open>Styles\<close>

definition AlignmentName :: "LONG \<Rightarrow> wstring" where
  "AlignmentName a = (if a = 0 then L ''Left'' else if a = 1 then L ''Center'' else if a = 2 then L ''Right'' else L ''Justify'')"

definition languages :: "string list" where
  "languages = [''Hangul'', ''Latin'', ''Hanja'', ''Japanese'', ''Other'', ''Symbol'', ''User'']"

definition optional :: "bool \<Rightarrow> Setter \<Rightarrow> Setter list" where
  "optional b s = (if b then [s] else [])"

definition character_setters :: "Style \<Rightarrow> Setter list" where
  "character_setters y =
     optional (sy_bold y \<ge> 0) (SetField ''Bold'' (BooleanValue (sy_bold y \<noteq> 0))) @
     optional (sy_fontSize y \<ge> 0) (SetField ''Height'' (IntegerValue (sy_fontSize y))) @
     optional (sy_textColor y \<ge> 0) (SetField ''TextColor'' (IntegerValue (sy_textColor y))) @
     concat (map (\<lambda>l. optional (sy_widthRatio y \<ge> 0) (SetField (''Ratio'' @ l) (IntegerValue (sy_widthRatio y))) @
                      optional (sy_letterSpacing y \<ge> -50) (SetField (''Spacing'' @ l) (IntegerValue (sy_letterSpacing y)))) languages) @
     (if sy_fontName y = [] then []
      else concat (map (\<lambda>l. [SetField (''FaceName'' @ l) (TextValue (sy_fontName y)), SetField (''FontType'' @ l) (IntegerValue 1)]) languages))"

definition paragraph_setters :: "Style \<Rightarrow> Setter list" where
  "paragraph_setters y =
     optional (sy_alignment y \<ge> 0) (SetField ''AlignType'' (Enumeration ''HAlign'' (AlignmentName (sy_alignment y)))) @
     optional (sy_lineSpacing y \<ge> 0) (SetField ''LineSpacing'' (IntegerValue (sy_lineSpacing y))) @
     optional (sy_lineSpacingType y \<ge> 0) (SetField ''LineSpacingType'' (IntegerValue (sy_lineSpacingType y))) @
     optional (sy_previousSpacing y \<ge> 0) (SetField ''PrevSpacing'' (IntegerValue (sy_previousSpacing y))) @
     optional (sy_nextSpacing y \<ge> 0) (SetField ''NextSpacing'' (IntegerValue (sy_nextSpacing y)))"

definition fill_setters :: "Style \<Rightarrow> bool \<Rightarrow> Setter list" where
  "fill_setters y singleCell =
     optional (\<not> singleCell) (SetField ''ApplyTo'' (IntegerValue 0)) @
     [SetField ''FillAttr/Type'' (Enumeration ''BrushType'' (L ''NullBrush|WinBrush'')),
      SetField ''FillAttr/WinBrushFaceColor'' (IntegerValue (sy_fillColor y)),
      SetField ''FillAttr/WinBrushHatchColor'' (IntegerValue 10066329),
      SetField ''FillAttr/WinBrushFaceStyle'' (Enumeration ''HatchStyle'' (L ''None'')),
      SetField ''FillAttr/WindowsBrush'' (IntegerValue 1)]"

definition padding_setters :: "Style \<Rightarrow> Setter list" where
  "padding_setters y =
     [SetField ''HSet/ShapeType'' (IntegerValue 3), SetField ''HSet/ShapeCellSize'' (IntegerValue 0),
      SetField ''ShapeTableCell/HasMargin'' (IntegerValue 1),
      SetField ''ShapeTableCell/MarginLeft'' (IntegerValue (sy_paddingLeft y)),
      SetField ''ShapeTableCell/MarginRight'' (IntegerValue (sy_paddingRight y)),
      SetField ''ShapeTableCell/MarginTop'' (IntegerValue (sy_paddingTop y)),
      SetField ''ShapeTableCell/MarginBottom'' (IntegerValue (sy_paddingBottom y))]"

definition StyleCommands :: "Style \<Rightarrow> bool \<Rightarrow> Command list" where
  "StyleCommands y singleCell =
     (if character_setters y = [] then [] else [Action ''CharShape'' ''HCharShape'' (character_setters y)]) @
     (if paragraph_setters y = [] then [] else [Action ''ParagraphShape'' ''HParaShape'' (paragraph_setters y)]) @
     (if sy_fillColor y \<ge> 0 then [Action ''CellFill'' ''HCellBorderFill'' (fill_setters y singleCell)] else []) @
     (if sy_paddingLeft y \<ge> 0 then [Action ''TablePropertyDialog'' ''HShapeObject'' (padding_setters y)] else [])"

subsection \<open>What the commands carry\<close>

text \<open>A setter that would send a value below zero for a size, a colour or a spacing. Letter
  spacing is the one value a style may set below zero.\<close>

definition sends_sentinel :: "Setter \<Rightarrow> bool" where
  "sends_sentinel s \<longleftrightarrow> v_kind (set_value s) = VK_Integer \<and> v_integer (set_value s) < 0 \<and>
     (\<forall>l \<in> set languages. set_path s \<noteq> L (''Spacing'' @ l))"

lemma SetField_path [simp]: "set_path (SetField p v) = L p" "set_value (SetField p v) = v"
  by (simp_all add: SetField_def)

lemma sends_sentinel_simps [simp]:
  "\<not> sends_sentinel (SetField p (BooleanValue b))" "\<not> sends_sentinel (SetField p (TextValue t))"
  "\<not> sends_sentinel (SetField p (Enumeration c t))"
  "0 \<le> i \<Longrightarrow> \<not> sends_sentinel (SetField p (IntegerValue i))"
  by (auto simp: sends_sentinel_def BooleanValue_def TextValue_def Enumeration_def IntegerValue_def new_value_def)

lemma spacing_sent: "l \<in> set languages \<Longrightarrow> \<not> sends_sentinel (SetField (''Spacing'' @ l) v)"
  by (auto simp: sends_sentinel_def)

lemma set_optional [simp]: "x \<in> set (optional b s) \<longleftrightarrow> b \<and> x = s"
  by (auto simp: optional_def)

text \<open>The commands of a style send only what the style sets, except through its padding: the left
  padding alone decides that all four are sent.\<close>

lemma style_sends:
  assumes "c \<in> set (StyleCommands y singleCell)" "s \<in> set (cmd_setters c)" "sends_sentinel s"
  shows "0 \<le> sy_paddingLeft y \<and> (sy_paddingRight y < 0 \<or> sy_paddingTop y < 0 \<or> sy_paddingBottom y < 0)"
proof -
  have char: "\<not> sends_sentinel s" if "s \<in> set (character_setters y)" for s
    using that by (auto simp: character_setters_def spacing_sent [unfolded append.simps] split: if_split_asm)
  have para: "\<not> sends_sentinel s" if "s \<in> set (paragraph_setters y)" for s
    using that by (auto simp: paragraph_setters_def)
  have fill: "\<not> sends_sentinel s" if "s \<in> set (fill_setters y singleCell)" "0 \<le> sy_fillColor y" for s
    using that by (auto simp: fill_setters_def)
  have pad: "sy_paddingRight y < 0 \<or> sy_paddingTop y < 0 \<or> sy_paddingBottom y < 0"
    if "s \<in> set (padding_setters y)" "sends_sentinel s" "0 \<le> sy_paddingLeft y" for s
    using that by (auto simp: padding_setters_def not_less [symmetric] intro: ccontr)
  show ?thesis
    using assms char para fill pad
    by (auto simp: StyleCommands_def Action_def split: if_split_asm)
qed

text \<open>A style sends one of its "not set" values exactly when its left padding is set and
  another padding is not: the left padding alone decides that all four paddings are sent.\<close>

lemma style_sends_unset_iff:
  "(\<exists>c \<in> set (StyleCommands y singleCell). \<exists>s \<in> set (cmd_setters c). sends_sentinel s) \<longleftrightarrow>
     0 \<le> sy_paddingLeft y \<and> (sy_paddingRight y < 0 \<or> sy_paddingTop y < 0 \<or> sy_paddingBottom y < 0)"
proof
  assume unset: "0 \<le> sy_paddingLeft y \<and> (sy_paddingRight y < 0 \<or> sy_paddingTop y < 0 \<or> sy_paddingBottom y < 0)"
  have sent: "sends_sentinel (SetField (''ShapeTableCell/Margin'' @ side) (IntegerValue i))" if "i < 0" for side i
    using that by (simp add: sends_sentinel_def IntegerValue_def new_value_def languages_def L_def)
  have "\<exists>s \<in> set (padding_setters y). sends_sentinel s"
    using unset sent [of "sy_paddingRight y" "''Right''"] sent [of "sy_paddingTop y" "''Top''"]
      sent [of "sy_paddingBottom y" "''Bottom''"] by (auto simp: padding_setters_def)
  then show "\<exists>c \<in> set (StyleCommands y singleCell). \<exists>s \<in> set (cmd_setters c). sends_sentinel s"
    using unset by (intro bexI [of _ "Action ''TablePropertyDialog'' ''HShapeObject'' (padding_setters y)"])
      (simp_all add: StyleCommands_def Action_def)
qed (use style_sends in blast)

end
