(* ===== verification/LayoutValidation.thy ===== *)
theory LayoutValidation
  imports LayoutSpec
begin

section \<open>Reference layouts: validation (ReferenceLayoutValidation.cpp, ReferenceLayoutGapSpec.cpp)\<close>

text \<open>
  \<open>Validate\<close> checks a layout in the order of the source. Sums of \<open>LONG\<close> values are those of the
  32-bit machine (\<open>long_wrap\<close>). \<open>layout_ok\<close> says without loops what a usable layout is, and
  \<open>Validate_iff\<close> that the two agree as long as no merge reaches beyond \<open>LONG_MAX\<close>; the lemma
  \<open>Validate_wraps\<close> shows what happens when one does.
\<close>

subsection \<open>The checks\<close>

definition layout_invalid :: "string \<Rightarrow> Error" where
  "layout_invalid message =
     \<lparr>er_code = L ''REFERENCE_LAYOUT_INVALID'', er_location = L ''ReferenceLayoutBulk'', er_message = L message\<rparr>"

definition StyleIndex :: "LONG \<Rightarrow> nat \<Rightarrow> bool" where
  "StyleIndex value count \<longleftrightarrow> value = -1 \<or> value \<ge> 0 \<and> nat value < count"

definition grid_invalid :: "Spec \<Rightarrow> bool" where
  "grid_invalid s \<longleftrightarrow> sp_rows s < 1 \<or> sp_rows s > 50 \<or> sp_columns s < 1 \<or> sp_columns s > 50 \<or>
     length (sp_columnWidths s) \<noteq> nat (sp_columns s) \<or> length (sp_rowHeights s) \<noteq> nat (sp_rows s)"

definition body_invalid :: "Spec \<Rightarrow> bool" where
  "body_invalid s \<longleftrightarrow> sp_bodyLeft s < 0 \<or> sp_bodyTop s < 0 \<or> sp_bodyWidth s \<le> 0 \<or> sp_bodyHeight s \<le> 0"

definition geometry_invalid :: "Spec \<Rightarrow> bool" where
  "geometry_invalid s \<longleftrightarrow> (\<exists>v \<in> set (sp_columnWidths s). v \<le> 0) \<or> (\<exists>v \<in> set (sp_rowHeights s). v \<le> 0) \<or>
     sum_list (sp_columnWidths s) \<noteq> sp_bodyWidth s \<or> sum_list (sp_rowHeights s) \<noteq> sp_bodyHeight s"

definition patch_set_invalid :: "Spec \<Rightarrow> bool" where
  "patch_set_invalid s \<longleftrightarrow> sp_targetControlId s = [] \<or>
     sp_patchColumns s = [] \<and> sp_patchRows s = [] \<and> sp_regions s = [] \<and> sp_edges s = [] \<and> sp_texts s = [] \<or>
     length (sp_patchColumns s) > nat (sp_columns s) \<or> length (sp_patchRows s) > nat (sp_rows s)"

definition patch_indexes_invalid :: "Spec \<Rightarrow> bool" where
  "patch_indexes_invalid s \<longleftrightarrow>
     card (set (sp_patchColumns s)) \<noteq> length (sp_patchColumns s) \<or> card (set (sp_patchRows s)) \<noteq> length (sp_patchRows s) \<or>
     (\<exists>v \<in> set (sp_patchColumns s). v < 0 \<or> v \<ge> sp_columns s) \<or> (\<exists>v \<in> set (sp_patchRows s). v < 0 \<or> v \<ge> sp_rows s)"

definition check_patch :: "Spec \<Rightarrow> Error + unit" where
  "check_patch s =
    (if sp_patch s then
       bindE (failIf (patch_set_invalid s) (layout_invalid ''reference-layout patch target or change set is invalid'')) (\<lambda>_.
       failIf (patch_indexes_invalid s) (layout_invalid ''reference-layout patch indexes are invalid''))
     else failIf (sp_targetControlId s \<noteq> [] \<or> sp_patchColumns s \<noteq> [] \<or> sp_patchRows s \<noteq> [])
       (layout_invalid ''reference-layout creation cannot contain patch state''))"

definition style_values_invalid :: "Style \<Rightarrow> bool" where
  "style_values_invalid y \<longleftrightarrow> sy_fontSize y < -1 \<or> sy_bold y < -1 \<or> sy_bold y > 1 \<or>
     sy_alignment y < -1 \<or> sy_alignment y > 3 \<or> sy_verticalAlignment y < -1 \<or> sy_verticalAlignment y > 2 \<or>
     sy_widthRatio y \<noteq> -1 \<and> (sy_widthRatio y < 50 \<or> sy_widthRatio y > 200) \<or>
     sy_letterSpacing y \<noteq> -1000 \<and> (sy_letterSpacing y < -50 \<or> sy_letterSpacing y > 50) \<or>
     sy_lineSpacingType y < -1 \<or> sy_lineSpacingType y > 2 \<or> sy_lineSpacing y < -1 \<or> sy_previousSpacing y < -1 \<or>
     sy_nextSpacing y < -1 \<or> sy_paddingLeft y < -1 \<or> sy_paddingRight y < -1 \<or> sy_paddingTop y < -1 \<or>
     sy_paddingBottom y < -1"

fun check_styles :: "wstring list \<Rightarrow> Style list \<Rightarrow> Error + unit" where
  "check_styles keys [] = Inr ()"
| "check_styles keys (y # ys) =
     (if sy_key y = [] \<or> sy_key y \<in> set keys \<or> style_values_invalid y
      then Inl (layout_invalid ''reference-layout style is invalid or duplicated'')
      else check_styles (sy_key y # keys) ys)"

definition merge_rowEnd :: "Merge \<Rightarrow> LONG" where
  "merge_rowEnd m = long_wrap (mg_row m + mg_rowSpan m)"

definition merge_columnEnd :: "Merge \<Rightarrow> LONG" where
  "merge_columnEnd m = long_wrap (mg_column m + mg_columnSpan m)"

definition merge_invalid :: "Spec \<Rightarrow> Merge \<Rightarrow> bool" where
  "merge_invalid s m \<longleftrightarrow> mg_row m < 0 \<or> mg_column m < 0 \<or> mg_rowSpan m < 1 \<or> mg_columnSpan m < 1 \<or>
     mg_rowSpan m = 1 \<and> mg_columnSpan m = 1 \<or> merge_rowEnd m > sp_rows s \<or> merge_columnEnd m > sp_columns s"

definition merge_cells :: "Merge \<Rightarrow> (LONG \<times> LONG) list" where
  "merge_cells m = [(r, c). r \<leftarrow> [mg_row m .. merge_rowEnd m - 1], c \<leftarrow> [mg_column m .. merge_columnEnd m - 1]]"

definition merge_anchor :: "Merge \<Rightarrow> LONG \<times> LONG" where
  "merge_anchor m = (mg_row m, mg_column m)"

text \<open>\<open>occupied\<close> holds the cells of the merges so far; the result is the cells a merge covers
  other than its own first cell.\<close>

fun check_merges :: "Spec \<Rightarrow> (LONG \<times> LONG) list \<Rightarrow> Merge list \<Rightarrow> Error + (LONG \<times> LONG) list" where
  "check_merges s occupied [] = Inr []"
| "check_merges s occupied (m # ms) =
     (if merge_invalid s m then Inl (layout_invalid ''reference-layout merge is outside the grid'')
      else if \<exists>cell \<in> set (merge_cells m). cell \<in> set occupied then Inl (layout_invalid ''reference-layout merges overlap'')
      else bindE (check_merges s (merge_cells m @ occupied) ms) (\<lambda>covered.
           Inr (filter (\<lambda>cell. cell \<noteq> merge_anchor m) (merge_cells m) @ covered)))"

definition region_invalid :: "Spec \<Rightarrow> Region \<Rightarrow> bool" where
  "region_invalid s r \<longleftrightarrow> rg_top r < 0 \<or> rg_left r < 0 \<or> rg_top r \<ge> rg_bottom r \<or> rg_left r \<ge> rg_right r \<or>
     rg_bottom r > sp_rows s \<or> rg_right r > sp_columns s \<or> \<not> StyleIndex (rg_styleIndex r) (length (sp_styles s)) \<or>
     rg_styleIndex r < 0"

definition text_invalid :: "Spec \<Rightarrow> (LONG \<times> LONG) list \<Rightarrow> LayoutText \<Rightarrow> bool" where
  "text_invalid s covered t \<longleftrightarrow> tx_row t < 0 \<or> tx_row t \<ge> sp_rows s \<or> tx_column t < 0 \<or> tx_column t \<ge> sp_columns s \<or>
     tx_value t = [] \<or> \<not> StyleIndex (tx_styleIndex t) (length (sp_styles s)) \<or> tx_breakMode t < 0 \<or> tx_breakMode t > 1 \<or>
     (tx_row t, tx_column t) \<in> set covered"

definition edge_invalid :: "Spec \<Rightarrow> Edge \<Rightarrow> bool" where
  "edge_invalid s e \<longleftrightarrow>
    (let intervalLimit = (if eg_orientation e = 0 then sp_columns s else sp_rows s);
         lineLimit = (if eg_orientation e = 0 then sp_rows s else sp_columns s)
     in eg_orientation e \<noteq> 0 \<and> eg_orientation e \<noteq> 1 \<or> eg_line e < 0 \<or> eg_line e > lineLimit \<or>
        eg_start e < 0 \<or> eg_start e \<ge> eg_end e \<or> eg_end e > intervalLimit \<or> eg_style e = [] \<or> eg_width e = [])"

definition edge_crosses_merge :: "Edge \<Rightarrow> Merge \<Rightarrow> bool" where
  "edge_crosses_merge e m \<longleftrightarrow>
    (if eg_orientation e = 1
     then mg_column m < eg_line e \<and> eg_line e < merge_columnEnd m \<and> eg_start e < merge_rowEnd m \<and> mg_row m < eg_end e
     else mg_row m < eg_line e \<and> eg_line e < merge_rowEnd m \<and> eg_start e < merge_columnEnd m \<and> mg_column m < eg_end e)"

fun check_edges :: "Spec \<Rightarrow> Edge list \<Rightarrow> Error + unit" where
  "check_edges s [] = Inr ()"
| "check_edges s (e # es) =
     (if edge_invalid s e then Inl (layout_invalid ''reference-layout visible edge is invalid'')
      else if \<exists>m \<in> set (sp_merges s). edge_crosses_merge e m
      then Inl (layout_invalid ''reference-layout visible edge crosses a merge'')
      else check_edges s es)"

subsection \<open>Protected gaps\<close>

definition gap_overlaps :: "LONG \<Rightarrow> LONG \<Rightarrow> LONG \<Rightarrow> LONG \<Rightarrow> ProtectedGap \<Rightarrow> bool" where
  "gap_overlaps t l b r g \<longleftrightarrow> t < gp_bottom g \<and> gp_top g < b \<and> l < gp_right g \<and> gp_left g < r"

definition CellInside :: "LONG \<Rightarrow> LONG \<Rightarrow> ProtectedGap \<Rightarrow> bool" where
  "CellInside row column g \<longleftrightarrow> gp_top g \<le> row \<and> row < gp_bottom g \<and> gp_left g \<le> column \<and> column < gp_right g"

definition EdgeCrosses :: "Edge \<Rightarrow> ProtectedGap \<Rightarrow> bool" where
  "EdgeCrosses e g \<longleftrightarrow>
    (if eg_orientation e = 0
     then gp_top g < eg_line e \<and> eg_line e < gp_bottom g \<and> eg_start e < gp_right g \<and> gp_left g < eg_end e
     else gp_left g < eg_line e \<and> eg_line e < gp_right g \<and> eg_start e < gp_bottom g \<and> gp_top g < eg_end e)"

type_synonym gap_key = "LONG \<times> LONG \<times> LONG \<times> LONG \<times> LONG"

definition gap_key :: "ProtectedGap \<Rightarrow> gap_key" where
  "gap_key g = (gp_axis g, gp_top g, gp_left g, gp_bottom g, gp_right g)"

definition gap_invalid :: "Spec \<Rightarrow> gap_key list \<Rightarrow> ProtectedGap \<Rightarrow> bool" where
  "gap_invalid s seen g \<longleftrightarrow> gp_axis g \<noteq> 0 \<and> gp_axis g \<noteq> 1 \<or> gp_top g < 0 \<or> gp_left g < 0 \<or>
     gp_top g \<ge> gp_bottom g \<or> gp_left g \<ge> gp_right g \<or> gp_bottom g > sp_rows s \<or> gp_right g > sp_columns s \<or>
     gp_minimum g \<le> 0 \<or> gap_key g \<in> set seen"

text \<open>\<open>std::accumulate\<close> over the elements from index \<open>a\<close> up to \<open>b\<close> with a \<open>LONG\<close> sum.\<close>

definition accumulate_long :: "LONG list \<Rightarrow> LONG \<Rightarrow> LONG \<Rightarrow> LONG" where
  "accumulate_long xs a b = fold (\<lambda>v acc. long_wrap (acc + v)) (take (nat b - nat a) (drop (nat a) xs)) 0"

definition gap_measured :: "Spec \<Rightarrow> ProtectedGap \<Rightarrow> LONG" where
  "gap_measured s g =
    (if gp_axis g = 0 then accumulate_long (sp_rowHeights s) (gp_top g) (gp_bottom g)
     else accumulate_long (sp_columnWidths s) (gp_left g) (gp_right g))"

definition gap_hits_merge :: "ProtectedGap \<Rightarrow> Merge \<Rightarrow> bool" where
  "gap_hits_merge g m \<longleftrightarrow> gap_overlaps (mg_row m) (mg_column m) (merge_rowEnd m) (merge_columnEnd m) g"

definition gap_hits_fill :: "Spec \<Rightarrow> ProtectedGap \<Rightarrow> Region \<Rightarrow> bool" where
  "gap_hits_fill s g r \<longleftrightarrow> sy_fillColor (sp_styles s ! nat (rg_styleIndex r)) \<ge> 0 \<and>
     gap_overlaps (rg_top r) (rg_left r) (rg_bottom r) (rg_right r) g"

fun check_gaps :: "Spec \<Rightarrow> gap_key list \<Rightarrow> ProtectedGap list \<Rightarrow> Error + unit" where
  "check_gaps s seen [] = Inr ()"
| "check_gaps s seen (g # gs) =
     (if gap_invalid s seen g then Inl (layout_invalid ''reference-layout protected gap is invalid'')
      else if gap_measured s g < gp_minimum g then Inl (layout_invalid ''reference-layout protected gap is below its minimum size'')
      else if \<exists>m \<in> set (sp_merges s). gap_hits_merge g m
      then Inl (layout_invalid ''reference-layout merge intersects a protected gap'')
      else if \<exists>t \<in> set (sp_texts s). CellInside (tx_row t) (tx_column t) g
      then Inl (layout_invalid ''reference-layout text intersects a protected gap'')
      else if \<exists>r \<in> set (sp_regions s). gap_hits_fill s g r
      then Inl (layout_invalid ''reference-layout fill intersects a protected gap'')
      else if \<exists>e \<in> set (sp_edges s). EdgeCrosses e g
      then Inl (layout_invalid ''reference-layout edge crosses a protected gap'')
      else check_gaps s (gap_key g # seen) gs)"

definition ValidateProtectedGaps :: "Spec \<Rightarrow> Error + unit" where
  "ValidateProtectedGaps s = check_gaps s [] (sp_protectedGaps s)"

definition Validate :: "Spec \<Rightarrow> Error + unit" where
  "Validate s =
     bindE (failIf (grid_invalid s) (layout_invalid ''reference-layout grid dimensions are invalid'')) (\<lambda>_.
     bindE (failIf (body_invalid s) (layout_invalid ''reference-layout body rectangle is invalid'')) (\<lambda>_.
     bindE (failIf (geometry_invalid s) (layout_invalid ''reference-layout geometry does not exactly fill the body'')) (\<lambda>_.
     bindE (check_patch s) (\<lambda>_.
     bindE (check_styles [] (sp_styles s)) (\<lambda>_.
     bindE (check_merges s [] (sp_merges s)) (\<lambda>covered.
     bindE (failIf (\<exists>r \<in> set (sp_regions s). region_invalid s r) (layout_invalid ''reference-layout style region is invalid'')) (\<lambda>_.
     bindE (failIf (\<exists>t \<in> set (sp_texts s). text_invalid s covered t) (layout_invalid ''reference-layout text anchor is invalid'')) (\<lambda>_.
     bindE (check_edges s (sp_edges s)) (\<lambda>_.
     ValidateProtectedGaps s)))))))))"

text \<open>\<open>Parse\<close>: the payload, then the validation.\<close>

definition Layout_Parse :: "Command \<Rightarrow> Error option + Spec" where
  "Layout_Parse command =
     bindE (parse_spec command) (\<lambda>s. bindE (map_sum Some id (Validate s)) (\<lambda>_. Inr s))"

subsection \<open>What a usable layout is\<close>

definition rect :: "LONG \<Rightarrow> LONG \<Rightarrow> LONG \<Rightarrow> LONG \<Rightarrow> (LONG \<times> LONG) set" where
  "rect t l b r = {t..<b} \<times> {l..<r}"

definition merge_area :: "Merge \<Rightarrow> (LONG \<times> LONG) set" where
  "merge_area m = rect (mg_row m) (mg_column m) (mg_row m + mg_rowSpan m) (mg_column m + mg_columnSpan m)"

definition region_area :: "Region \<Rightarrow> (LONG \<times> LONG) set" where
  "region_area r = rect (rg_top r) (rg_left r) (rg_bottom r) (rg_right r)"

definition gap_area :: "ProtectedGap \<Rightarrow> (LONG \<times> LONG) set" where
  "gap_area g = rect (gp_top g) (gp_left g) (gp_bottom g) (gp_right g)"

text \<open>An edge cuts an area when it runs between two neighbouring cells of it.\<close>

definition edge_cuts :: "Edge \<Rightarrow> (LONG \<times> LONG) set \<Rightarrow> bool" where
  "edge_cuts e A \<longleftrightarrow>
    (if eg_orientation e = 0
     then \<exists>c. eg_start e \<le> c \<and> c < eg_end e \<and> (eg_line e - 1, c) \<in> A \<and> (eg_line e, c) \<in> A
     else \<exists>r. eg_start e \<le> r \<and> r < eg_end e \<and> (r, eg_line e - 1) \<in> A \<and> (r, eg_line e) \<in> A)"

definition merge_ok :: "Spec \<Rightarrow> Merge \<Rightarrow> bool" where
  "merge_ok s m \<longleftrightarrow> 0 \<le> mg_row m \<and> 0 \<le> mg_column m \<and> 1 \<le> mg_rowSpan m \<and> 1 \<le> mg_columnSpan m \<and>
     (mg_rowSpan m > 1 \<or> mg_columnSpan m > 1) \<and> mg_row m + mg_rowSpan m \<le> sp_rows s \<and>
     mg_column m + mg_columnSpan m \<le> sp_columns s"

definition patch_ok :: "Spec \<Rightarrow> bool" where
  "patch_ok s \<longleftrightarrow>
    (if sp_patch s
     then sp_targetControlId s \<noteq> [] \<and>
       (sp_patchColumns s \<noteq> [] \<or> sp_patchRows s \<noteq> [] \<or> sp_regions s \<noteq> [] \<or> sp_edges s \<noteq> [] \<or> sp_texts s \<noteq> []) \<and>
       distinct (sp_patchColumns s) \<and> distinct (sp_patchRows s) \<and>
       set (sp_patchColumns s) \<subseteq> {0..<sp_columns s} \<and> set (sp_patchRows s) \<subseteq> {0..<sp_rows s}
     else sp_targetControlId s = [] \<and> sp_patchColumns s = [] \<and> sp_patchRows s = [])"

definition region_ok :: "Spec \<Rightarrow> Region \<Rightarrow> bool" where
  "region_ok s r \<longleftrightarrow> region_area r \<noteq> {} \<and> region_area r \<subseteq> rect 0 0 (sp_rows s) (sp_columns s) \<and>
     0 \<le> rg_styleIndex r \<and> nat (rg_styleIndex r) < length (sp_styles s)"

definition text_ok :: "Spec \<Rightarrow> LayoutText \<Rightarrow> bool" where
  "text_ok s t \<longleftrightarrow> (tx_row t, tx_column t) \<in> rect 0 0 (sp_rows s) (sp_columns s) \<and> tx_value t \<noteq> [] \<and>
     StyleIndex (tx_styleIndex t) (length (sp_styles s)) \<and> tx_breakMode t \<in> {0, 1} \<and>
     (\<forall>m \<in> set (sp_merges s). (tx_row t, tx_column t) \<in> merge_area m \<longrightarrow> (tx_row t, tx_column t) = merge_anchor m)"

definition edge_ok :: "Spec \<Rightarrow> Edge \<Rightarrow> bool" where
  "edge_ok s e \<longleftrightarrow> \<not> edge_invalid s e \<and> (\<forall>m \<in> set (sp_merges s). \<not> edge_cuts e (merge_area m))"

definition gap_size :: "Spec \<Rightarrow> ProtectedGap \<Rightarrow> int" where
  "gap_size s g =
    (if gp_axis g = 0 then sum_list (take (nat (gp_bottom g) - nat (gp_top g)) (drop (nat (gp_top g)) (sp_rowHeights s)))
     else sum_list (take (nat (gp_right g) - nat (gp_left g)) (drop (nat (gp_left g)) (sp_columnWidths s))))"

definition gap_ok :: "Spec \<Rightarrow> ProtectedGap \<Rightarrow> bool" where
  "gap_ok s g \<longleftrightarrow> gp_axis g \<in> {0, 1} \<and> gap_area g \<noteq> {} \<and> gap_area g \<subseteq> rect 0 0 (sp_rows s) (sp_columns s) \<and>
     0 < gp_minimum g \<and> gp_minimum g \<le> gap_size s g \<and>
     (\<forall>m \<in> set (sp_merges s). merge_area m \<inter> gap_area g = {}) \<and>
     (\<forall>t \<in> set (sp_texts s). (tx_row t, tx_column t) \<notin> gap_area g) \<and>
     (\<forall>r \<in> set (sp_regions s). 0 \<le> sy_fillColor (sp_styles s ! nat (rg_styleIndex r)) \<longrightarrow> region_area r \<inter> gap_area g = {}) \<and>
     (\<forall>e \<in> set (sp_edges s). \<not> edge_cuts e (gap_area g))"

definition layout_ok :: "Spec \<Rightarrow> bool" where
  "layout_ok s \<longleftrightarrow>
     sp_rows s \<in> {1..50} \<and> sp_columns s \<in> {1..50} \<and> int (length (sp_columnWidths s)) = sp_columns s \<and>
     int (length (sp_rowHeights s)) = sp_rows s \<and> 0 \<le> sp_bodyLeft s \<and> 0 \<le> sp_bodyTop s \<and>
     (\<forall>v \<in> set (sp_columnWidths s) \<union> set (sp_rowHeights s). 0 < v) \<and>
     sum_list (sp_columnWidths s) = sp_bodyWidth s \<and> sum_list (sp_rowHeights s) = sp_bodyHeight s \<and>
     patch_ok s \<and>
     distinct (map sy_key (sp_styles s)) \<and> (\<forall>y \<in> set (sp_styles s). sy_key y \<noteq> [] \<and> \<not> style_values_invalid y) \<and>
     (\<forall>m \<in> set (sp_merges s). merge_ok s m) \<and> sorted_wrt (\<lambda>a b. merge_area a \<inter> merge_area b = {}) (sp_merges s) \<and>
     (\<forall>r \<in> set (sp_regions s). region_ok s r) \<and> (\<forall>t \<in> set (sp_texts s). text_ok s t) \<and>
     (\<forall>e \<in> set (sp_edges s). edge_ok s e) \<and>
     distinct (map gap_key (sp_protectedGaps s)) \<and> (\<forall>g \<in> set (sp_protectedGaps s). gap_ok s g)"

text \<open>The values that keep the sums of the validation in range.\<close>

definition spans_fit :: "Spec \<Rightarrow> bool" where
  "spans_fit s \<longleftrightarrow> sp_bodyWidth s \<le> LONG_MAX \<and> sp_bodyHeight s \<le> LONG_MAX \<and>
     (\<forall>m \<in> set (sp_merges s). mg_row m + mg_rowSpan m \<le> LONG_MAX \<and> mg_column m + mg_columnSpan m \<le> LONG_MAX)"

subsection \<open>The checks decide it\<close>

lemma rect_overlap_iff:
  "t < b \<Longrightarrow> l < r \<Longrightarrow> t' < b' \<Longrightarrow> l' < r' \<Longrightarrow>
   (t < b' \<and> t' < b \<and> l < r' \<and> l' < r) \<longleftrightarrow> rect t l b r \<inter> rect t' l' b' r' \<noteq> {}"
proof -
  assume ne: "t < b" "l < r" "t' < b'" "l' < r'"
  show ?thesis
  proof
    assume "t < b' \<and> t' < b \<and> l < r' \<and> l' < r"
    with ne have "(max t t', max l l') \<in> rect t l b r \<inter> rect t' l' b' r'"
      by (simp add: rect_def)
    then show "rect t l b r \<inter> rect t' l' b' r' \<noteq> {}" by blast
  qed (auto simp: rect_def)
qed

lemma edge_cuts_rect:
  assumes "eg_start e < eg_end e" "t < b" "l < r"
  shows "edge_cuts e (rect t l b r) \<longleftrightarrow>
    (if eg_orientation e = 0 then t < eg_line e \<and> eg_line e < b \<and> eg_start e < r \<and> l < eg_end e
     else l < eg_line e \<and> eg_line e < r \<and> eg_start e < b \<and> t < eg_end e)"
proof -
  have ex: "(\<exists>c. eg_start e \<le> c \<and> c < eg_end e \<and> x \<le> c \<and> c < y) \<longleftrightarrow> eg_start e < y \<and> x < eg_end e" if "x < y" for x y
  proof
    assume "eg_start e < y \<and> x < eg_end e"
    with assms(1) that show "\<exists>c. eg_start e \<le> c \<and> c < eg_end e \<and> x \<le> c \<and> c < y"
      by (intro exI [of _ "max (eg_start e) x"]) auto
  qed auto
  show ?thesis
    using ex [OF assms(2)] ex [OF assms(3)] by (auto simp: edge_cuts_def rect_def)
qed

lemma merge_ends:
  assumes "0 \<le> mg_row m" "0 \<le> mg_column m" "1 \<le> mg_rowSpan m" "1 \<le> mg_columnSpan m"
    and "mg_row m + mg_rowSpan m \<le> LONG_MAX" "mg_column m + mg_columnSpan m \<le> LONG_MAX"
  shows "merge_rowEnd m = mg_row m + mg_rowSpan m" "merge_columnEnd m = mg_column m + mg_columnSpan m"
  using assms by (simp_all add: merge_rowEnd_def merge_columnEnd_def long_range_def)

lemma merge_invalid_iff:
  assumes "mg_row m + mg_rowSpan m \<le> LONG_MAX" "mg_column m + mg_columnSpan m \<le> LONG_MAX"
  shows "merge_invalid s m \<longleftrightarrow> \<not> merge_ok s m"
proof (cases "0 \<le> mg_row m \<and> 0 \<le> mg_column m \<and> 1 \<le> mg_rowSpan m \<and> 1 \<le> mg_columnSpan m")
  case True
  with merge_ends [of m] assms show ?thesis
    unfolding merge_invalid_def merge_ok_def by auto
qed (auto simp: merge_invalid_def merge_ok_def)

lemma set_merge_cells:
  assumes "mg_row m + mg_rowSpan m \<le> LONG_MAX" "mg_column m + mg_columnSpan m \<le> LONG_MAX" "merge_ok s m"
  shows "set (merge_cells m) = merge_area m"
  using merge_ends [of m] assms unfolding merge_ok_def
  by (auto simp: merge_cells_def merge_area_def rect_def)

lemma check_merges_covered:
  assumes "\<forall>m \<in> set ms. mg_row m + mg_rowSpan m \<le> LONG_MAX \<and> mg_column m + mg_columnSpan m \<le> LONG_MAX"
    and "check_merges s occupied ms = Inr covered"
  shows "set covered = (\<Union>m \<in> set ms. merge_area m - {merge_anchor m})"
  using assms
proof (induction ms arbitrary: occupied covered)
  case (Cons m ms)
  have fits: "mg_row m + mg_rowSpan m \<le> LONG_MAX" "mg_column m + mg_columnSpan m \<le> LONG_MAX"
    using Cons.prems(1) by simp_all
  have ok: "merge_ok s m"
    using Cons.prems(2) merge_invalid_iff [OF fits] by (auto split: if_splits)
  obtain rest where "check_merges s (merge_cells m @ occupied) ms = Inr rest"
    "covered = filter (\<lambda>cell. cell \<noteq> merge_anchor m) (merge_cells m) @ rest"
    using Cons.prems(2) by (auto simp: bindE_Inr_iff split: if_splits)
  then show ?case
    using Cons.IH [of "merge_cells m @ occupied" rest] set_merge_cells [OF fits ok] Cons.prems(1) by auto
qed simp

lemma check_merges_iff:
  assumes "\<forall>m \<in> set ms. mg_row m + mg_rowSpan m \<le> LONG_MAX \<and> mg_column m + mg_columnSpan m \<le> LONG_MAX"
  shows "(\<exists>covered. check_merges s occupied ms = Inr covered) \<longleftrightarrow>
      (\<forall>m \<in> set ms. merge_ok s m \<and> merge_area m \<inter> set occupied = {}) \<and>
      sorted_wrt (\<lambda>a b. merge_area a \<inter> merge_area b = {}) ms"
  using assms
proof (induction ms arbitrary: occupied)
  case (Cons m ms)
  have fits: "mg_row m + mg_rowSpan m \<le> LONG_MAX" "mg_column m + mg_columnSpan m \<le> LONG_MAX"
    using Cons.prems(1) by simp_all
  note inv = merge_invalid_iff [OF fits, of s]
  show ?case
  proof (cases "merge_ok s m")
    case True
    have cells: "set (merge_cells m) = merge_area m"
      by (rule set_merge_cells [OF fits True])
    have "(\<exists>covered. check_merges s (merge_cells m @ occupied) ms = Inr covered) \<longleftrightarrow>
        (\<forall>x \<in> set ms. merge_ok s x \<and> merge_area x \<inter> (merge_area m \<union> set occupied) = {}) \<and>
        sorted_wrt (\<lambda>a b. merge_area a \<inter> merge_area b = {}) ms"
      using Cons.IH [of "merge_cells m @ occupied"] Cons.prems cells by simp
    moreover have "(\<exists>covered. check_merges s occupied (m # ms) = Inr covered) \<longleftrightarrow>
        merge_area m \<inter> set occupied = {} \<and> (\<exists>covered. check_merges s (merge_cells m @ occupied) ms = Inr covered)"
      using inv True cells by (auto simp: bindE_Inr_iff)
    ultimately show ?thesis
      using True by auto
  next
    case False
    then show ?thesis using inv by simp
  qed
qed auto

lemma check_styles_iff:
  "check_styles keys ys = Inr () \<longleftrightarrow>
     distinct (map sy_key ys) \<and> (\<forall>y \<in> set ys. sy_key y \<noteq> [] \<and> sy_key y \<notin> set keys \<and> \<not> style_values_invalid y)"
proof (induction keys ys rule: check_styles.induct)
  case (2 keys y ys)
  show ?case
  proof (cases "sy_key y = [] \<or> sy_key y \<in> set keys \<or> style_values_invalid y")
    case False
    then have "check_styles keys (y # ys) = Inr () \<longleftrightarrow> check_styles (sy_key y # keys) ys = Inr ()"
      by simp
    also have "\<dots> \<longleftrightarrow> distinct (map sy_key ys) \<and>
        (\<forall>z \<in> set ys. sy_key z \<noteq> [] \<and> sy_key z \<notin> set (sy_key y # keys) \<and> \<not> style_values_invalid z)"
      by (rule "2.IH" [OF False])
    finally show ?thesis
      using False by (simp add: image_iff) metis
  qed auto
qed simp

lemma fold_long_sum:
  assumes "\<forall>v \<in> set xs. 0 \<le> v" "0 \<le> acc" "acc + sum_list xs \<le> LONG_MAX"
  shows "fold (\<lambda>v acc. long_wrap (acc + v)) xs acc = acc + sum_list xs"
  using assms
proof (induction xs arbitrary: acc)
  case (Cons v xs)
  have "0 \<le> sum_list xs"
    using Cons.prems(1) by (intro sum_list_nonneg) simp
  then have "long_wrap (acc + v) = acc + v"
    using Cons.prems by (intro long_wrap_id) (simp add: long_range_def)
  then show ?case
    using Cons.IH [of "acc + v"] Cons.prems by simp
qed simp

text \<open>The measured size of a gap is the true sum: no partial sum leaves the range.\<close>

lemma accumulate_long_sum:
  assumes "\<forall>v \<in> set xs. (0 :: int) < v" "sum_list xs \<le> LONG_MAX"
  shows "accumulate_long xs a b = sum_list (take (nat b - nat a) (drop (nat a) xs))"
proof -
  let ?ys = "take (nat b - nat a) (drop (nat a) xs)"
  have "sum_list xs = sum_list (take (nat a) xs) + (sum_list ?ys + sum_list (drop (nat b - nat a) (drop (nat a) xs)))"
    by (metis append_take_drop_id sum_list_append)
  moreover have "0 \<le> sum_list (take (nat a) xs)" "0 \<le> sum_list (drop (nat b - nat a) (drop (nat a) xs))"
    using assms(1) by (auto intro!: sum_list_nonneg dest!: in_set_takeD in_set_dropD less_imp_le)
  ultimately have "sum_list ?ys \<le> LONG_MAX"
    using assms(2) by linarith
  then show ?thesis
    unfolding accumulate_long_def using assms(1)
    by (subst fold_long_sum) (auto dest!: in_set_takeD in_set_dropD less_imp_le)
qed

lemma gap_hits:
  assumes "gp_top g < gp_bottom g" "gp_left g < gp_right g"
  shows "merge_ok s m \<Longrightarrow> mg_row m + mg_rowSpan m \<le> LONG_MAX \<Longrightarrow> mg_column m + mg_columnSpan m \<le> LONG_MAX \<Longrightarrow>
      gap_hits_merge g m \<longleftrightarrow> merge_area m \<inter> gap_area g \<noteq> {}"
    and "region_area r \<noteq> {} \<Longrightarrow> gap_hits_fill s g r \<longleftrightarrow>
      0 \<le> sy_fillColor (sp_styles s ! nat (rg_styleIndex r)) \<and> region_area r \<inter> gap_area g \<noteq> {}"
    and "CellInside row column g \<longleftrightarrow> (row, column) \<in> gap_area g"
    and "eg_start e < eg_end e \<Longrightarrow> EdgeCrosses e g \<longleftrightarrow> edge_cuts e (gap_area g)"
proof -
  show "merge_ok s m \<Longrightarrow> mg_row m + mg_rowSpan m \<le> LONG_MAX \<Longrightarrow> mg_column m + mg_columnSpan m \<le> LONG_MAX \<Longrightarrow>
      gap_hits_merge g m \<longleftrightarrow> merge_area m \<inter> gap_area g \<noteq> {}"
    using assms merge_ends [of m]
    unfolding merge_ok_def gap_hits_merge_def gap_overlaps_def merge_area_def gap_area_def
    by (subst rect_overlap_iff [symmetric]) auto
  show "region_area r \<noteq> {} \<Longrightarrow> gap_hits_fill s g r \<longleftrightarrow>
      0 \<le> sy_fillColor (sp_styles s ! nat (rg_styleIndex r)) \<and> region_area r \<inter> gap_area g \<noteq> {}"
    using assms unfolding gap_hits_fill_def gap_overlaps_def region_area_def gap_area_def
    by (subst rect_overlap_iff [symmetric]) (auto simp: rect_def)
  show "CellInside row column g \<longleftrightarrow> (row, column) \<in> gap_area g"
    by (auto simp: CellInside_def gap_area_def rect_def)
  show "eg_start e < eg_end e \<Longrightarrow> EdgeCrosses e g \<longleftrightarrow> edge_cuts e (gap_area g)"
    using assms by (simp add: EdgeCrosses_def gap_area_def edge_cuts_rect)
qed

lemma rect_inside:
  "rect t l b r \<noteq> {} \<and> rect t l b r \<subseteq> rect 0 0 R C \<longleftrightarrow> 0 \<le> t \<and> 0 \<le> l \<and> t < b \<and> l < r \<and> b \<le> R \<and> r \<le> C"
proof
  assume A: "rect t l b r \<noteq> {} \<and> rect t l b r \<subseteq> rect 0 0 R C"
  then have ne: "t < b" "l < r"
    by (auto simp: rect_def)
  then have "(t, l) \<in> rect t l b r" "(b - 1, r - 1) \<in> rect t l b r"
    by (auto simp: rect_def)
  then have "(t, l) \<in> rect 0 0 R C" "(b - 1, r - 1) \<in> rect 0 0 R C"
    using A by blast+
  with ne show "0 \<le> t \<and> 0 \<le> l \<and> t < b \<and> l < r \<and> b \<le> R \<and> r \<le> C"
    by (auto simp: rect_def)
qed (auto simp: rect_def)

lemma region_ok_iff: "region_ok s r \<longleftrightarrow> \<not> region_invalid s r"
  unfolding region_ok_def region_invalid_def region_area_def
  using rect_inside [of "rg_top r" "rg_left r" "rg_bottom r" "rg_right r" "sp_rows s" "sp_columns s"]
  by (auto simp: StyleIndex_def)

lemma edge_ok_iff:
  assumes "\<forall>m \<in> set (sp_merges s). merge_ok s m" "spans_fit s" "\<not> edge_invalid s e"
  shows "(\<exists>m \<in> set (sp_merges s). edge_crosses_merge e m) \<longleftrightarrow> \<not> edge_ok s e"
proof -
  have e: "eg_start e < eg_end e" "eg_orientation e = 0 \<or> eg_orientation e = 1"
    using assms(3) by (auto simp: edge_invalid_def Let_def)
  have "edge_crosses_merge e m \<longleftrightarrow> edge_cuts e (merge_area m)" if "m \<in> set (sp_merges s)" for m
  proof -
    have m: "merge_ok s m" "mg_row m + mg_rowSpan m \<le> LONG_MAX" "mg_column m + mg_columnSpan m \<le> LONG_MAX"
      using assms(1,2) that by (auto simp: spans_fit_def)
    then show ?thesis
      using merge_ends [of m] e unfolding merge_area_def merge_ok_def
      by (subst edge_cuts_rect) (auto simp: edge_crosses_merge_def)
  qed
  then show ?thesis
    using assms(3) by (auto simp: edge_ok_def)
qed

lemma check_edges_iff:
  assumes "\<forall>m \<in> set (sp_merges s). merge_ok s m" "spans_fit s"
  shows "check_edges s es = Inr () \<longleftrightarrow> (\<forall>e \<in> set es. edge_ok s e)"
proof (induction es)
  case (Cons e es)
  show ?case
  proof (cases "edge_invalid s e")
    case True
    then show ?thesis by (simp add: edge_ok_def)
  next
    case False
    then show ?thesis
      using Cons.IH edge_ok_iff [OF assms False] by auto
  qed
qed simp

definition gap_accepted :: "Spec \<Rightarrow> gap_key list \<Rightarrow> ProtectedGap \<Rightarrow> bool" where
  "gap_accepted s seen g \<longleftrightarrow> \<not> gap_invalid s seen g \<and> gp_minimum g \<le> gap_measured s g \<and>
     (\<forall>m \<in> set (sp_merges s). \<not> gap_hits_merge g m) \<and> (\<forall>t \<in> set (sp_texts s). \<not> CellInside (tx_row t) (tx_column t) g) \<and>
     (\<forall>r \<in> set (sp_regions s). \<not> gap_hits_fill s g r) \<and> (\<forall>e \<in> set (sp_edges s). \<not> EdgeCrosses e g)"

lemma check_gaps_accepted:
  "check_gaps s seen gs = Inr () \<longleftrightarrow>
     (case gs of [] \<Rightarrow> True | g # gs' \<Rightarrow> gap_accepted s seen g \<and> check_gaps s (gap_key g # seen) gs' = Inr ())"
  by (cases gs) (auto simp: gap_accepted_def)

lemma gap_accepted_iff:
  assumes "\<forall>m \<in> set (sp_merges s). merge_ok s m" "spans_fit s" "\<forall>r \<in> set (sp_regions s). region_ok s r"
    "\<forall>e \<in> set (sp_edges s). edge_ok s e"
    and sums: "\<forall>v \<in> set (sp_columnWidths s) \<union> set (sp_rowHeights s). 0 < v"
    "sum_list (sp_columnWidths s) = sp_bodyWidth s" "sum_list (sp_rowHeights s) = sp_bodyHeight s"
  shows "gap_accepted s seen g \<longleftrightarrow> gap_ok s g \<and> gap_key g \<notin> set seen"
proof -
  have size: "gap_measured s g = gap_size s g"
    using assms(2,5-) by (simp add: gap_measured_def gap_size_def accumulate_long_sum spans_fit_def)
  have edges: "\<forall>e \<in> set (sp_edges s). eg_start e < eg_end e"
    using assms(4) by (auto simp: edge_ok_def edge_invalid_def Let_def)
  have inside: "\<not> gap_invalid s seen g \<longleftrightarrow> gp_axis g \<in> {0, 1} \<and> gap_area g \<noteq> {} \<and>
      gap_area g \<subseteq> rect 0 0 (sp_rows s) (sp_columns s) \<and> 0 < gp_minimum g \<and> gap_key g \<notin> set seen"
    unfolding gap_invalid_def gap_area_def
    using rect_inside [of "gp_top g" "gp_left g" "gp_bottom g" "gp_right g" "sp_rows s" "sp_columns s"] by auto
  show ?thesis
  proof (cases "gp_top g < gp_bottom g \<and> gp_left g < gp_right g")
    case True
    then have ne: "gp_top g < gp_bottom g" "gp_left g < gp_right g" by simp_all
    have "(\<forall>m \<in> set (sp_merges s). \<not> gap_hits_merge g m) \<longleftrightarrow> (\<forall>m \<in> set (sp_merges s). merge_area m \<inter> gap_area g = {})"
      using assms(1,2) gap_hits(1) [OF ne] unfolding spans_fit_def by metis
    moreover have "(\<forall>r \<in> set (sp_regions s). \<not> gap_hits_fill s g r) \<longleftrightarrow>
        (\<forall>r \<in> set (sp_regions s). 0 \<le> sy_fillColor (sp_styles s ! nat (rg_styleIndex r)) \<longrightarrow> region_area r \<inter> gap_area g = {})"
      using assms(3) gap_hits(2) [OF ne] by (auto simp: region_ok_def)
    moreover have "(\<forall>e \<in> set (sp_edges s). \<not> EdgeCrosses e g) \<longleftrightarrow> (\<forall>e \<in> set (sp_edges s). \<not> edge_cuts e (gap_area g))"
      using edges gap_hits(4) [OF ne] by auto
    ultimately show ?thesis
      unfolding gap_accepted_def gap_ok_def inside size gap_hits(3) [OF ne] by blast
  next
    case False
    then have "gap_area g = {}"
      by (auto simp: gap_area_def rect_def)
    then show ?thesis
      unfolding gap_accepted_def gap_ok_def inside by simp
  qed
qed

lemma check_gaps_iff:
  assumes "\<And>seen g. gap_accepted s seen g \<longleftrightarrow> gap_ok s g \<and> gap_key g \<notin> set seen"
  shows "check_gaps s seen gs = Inr () \<longleftrightarrow>
    distinct (map gap_key gs) \<and> (\<forall>g \<in> set gs. gap_ok s g \<and> gap_key g \<notin> set seen)"
proof (induction gs arbitrary: seen)
  case (Cons g gs)
  show ?case
    unfolding check_gaps_accepted [of s seen "g # gs"] list.case assms Cons.IH by (simp add: image_iff) metis
qed simp

lemma check_patch_iff: "check_patch s = Inr () \<longleftrightarrow> patch_ok s" if "0 \<le> sp_rows s" "0 \<le> sp_columns s"
proof -
  have size: "length xs \<le> nat n" if "distinct xs" "set xs \<subseteq> {0..<n}" for xs :: "int list" and n
    using card_mono [OF _ that(2)] distinct_card [OF that(1)] by simp
  have "card (set xs) \<noteq> length xs \<longleftrightarrow> \<not> distinct xs" for xs :: "int list"
    using card_distinct distinct_card by blast
  moreover have "(\<exists>v \<in> set xs. v < 0 \<or> v \<ge> n) \<longleftrightarrow> \<not> set xs \<subseteq> {0..<n}" for xs :: "int list" and n
    unfolding subset_iff atLeastLessThan_iff by (metis not_le)
  ultimately show ?thesis
    using size [of "sp_patchColumns s" "sp_columns s"] size [of "sp_patchRows s" "sp_rows s"]
    unfolding check_patch_def patch_ok_def patch_set_invalid_def patch_indexes_invalid_def
    by (auto simp: bindE_Inr_iff not_less)
qed

lemma text_ok_iff:
  assumes "set covered = (\<Union>m \<in> set (sp_merges s). merge_area m - {merge_anchor m})"
  shows "\<not> text_invalid s covered t \<longleftrightarrow> text_ok s t"
proof -
  have "(tx_row t, tx_column t) \<in> set covered \<longleftrightarrow>
      (\<exists>m \<in> set (sp_merges s). (tx_row t, tx_column t) \<in> merge_area m \<and> (tx_row t, tx_column t) \<noteq> merge_anchor m)"
    unfolding assms by auto
  moreover have "\<not> (tx_breakMode t < 0 \<or> tx_breakMode t > 1) \<longleftrightarrow> tx_breakMode t \<in> {0, 1}"
    by auto
  ultimately show ?thesis
    unfolding text_invalid_def text_ok_def rect_def by auto
qed

lemma grid_valid_iff:
  "\<not> grid_invalid s \<and> \<not> body_invalid s \<and> \<not> geometry_invalid s \<longleftrightarrow>
     sp_rows s \<in> {1..50} \<and> sp_columns s \<in> {1..50} \<and> int (length (sp_columnWidths s)) = sp_columns s \<and>
     int (length (sp_rowHeights s)) = sp_rows s \<and> 0 \<le> sp_bodyLeft s \<and> 0 \<le> sp_bodyTop s \<and>
     (\<forall>v \<in> set (sp_columnWidths s) \<union> set (sp_rowHeights s). 0 < v) \<and>
     sum_list (sp_columnWidths s) = sp_bodyWidth s \<and> sum_list (sp_rowHeights s) = sp_bodyHeight s"
  (is "?grid \<longleftrightarrow> ?dims")
proof
  assume dims: ?dims
  have pos: "0 < sum_list xs" if "xs \<noteq> []" "\<forall>v \<in> set xs. 0 < v" for xs :: "int list"
    using that by (induction xs rule: list_nonempty_induct) auto
  have "sp_columnWidths s \<noteq> []" "sp_rowHeights s \<noteq> []"
    using dims by auto
  then have "0 < sp_bodyWidth s" "0 < sp_bodyHeight s"
    using dims pos [of "sp_columnWidths s"] pos [of "sp_rowHeights s"] by auto
  with dims show ?grid
    unfolding grid_invalid_def body_invalid_def geometry_invalid_def by (auto simp: not_le not_less)
next
  assume ?grid
  then show ?dims
    unfolding grid_invalid_def body_invalid_def geometry_invalid_def by (auto simp: not_le not_less)
qed

text \<open>Claim C18. As long as the body and the merges stay below \<open>LONG_MAX\<close>, \<open>Validate\<close> accepts
  exactly the usable layouts: a grid of 1 to 50 rows and columns that fills the body; distinct
  named styles in range; merges inside the grid and disjoint; regions, texts and edges on the
  grid, no text under a merge and no edge through one; and every protected gap large enough and
  free of merges, texts, fills and edges.\<close>

theorem Validate_iff:
  assumes "spans_fit s"
  shows "Validate s = Inr () \<longleftrightarrow> layout_ok s"
proof -
  let ?grid = "\<not> grid_invalid s \<and> \<not> body_invalid s \<and> \<not> geometry_invalid s"
  note grid = grid_valid_iff [of s]
  note fits = assms [unfolded spans_fit_def, THEN conjunct2, THEN conjunct2]
  have split: "Validate s = Inr () \<longleftrightarrow> ?grid \<and> check_patch s = Inr () \<and> check_styles [] (sp_styles s) = Inr () \<and>
      (\<exists>covered. check_merges s [] (sp_merges s) = Inr covered \<and> (\<forall>t \<in> set (sp_texts s). \<not> text_invalid s covered t)) \<and>
      (\<forall>r \<in> set (sp_regions s). region_ok s r) \<and> check_edges s (sp_edges s) = Inr () \<and>
      check_gaps s [] (sp_protectedGaps s) = Inr ()"
    unfolding Validate_def ValidateProtectedGaps_def region_ok_iff by (auto simp: bindE_Inr_iff)
  have texts: "(\<exists>covered. check_merges s [] (sp_merges s) = Inr covered \<and> (\<forall>t \<in> set (sp_texts s). \<not> text_invalid s covered t)) \<longleftrightarrow>
      (\<forall>m \<in> set (sp_merges s). merge_ok s m) \<and> sorted_wrt (\<lambda>a b. merge_area a \<inter> merge_area b = {}) (sp_merges s) \<and>
      (\<forall>t \<in> set (sp_texts s). text_ok s t)"
    using check_merges_iff [OF fits, of s "[]"] check_merges_covered [OF fits, of s "[]"] text_ok_iff [of _ s] by auto
  show ?thesis
  proof (cases "?grid \<and> (\<forall>m \<in> set (sp_merges s). merge_ok s m) \<and> (\<forall>r \<in> set (sp_regions s). region_ok s r)")
    case True
    have edges: "check_edges s (sp_edges s) = Inr () \<longleftrightarrow> (\<forall>e \<in> set (sp_edges s). edge_ok s e)"
      by (rule check_edges_iff) (use True assms in auto)
    have gaps: "check_gaps s [] (sp_protectedGaps s) = Inr () \<longleftrightarrow>
        distinct (map gap_key (sp_protectedGaps s)) \<and> (\<forall>g \<in> set (sp_protectedGaps s). gap_ok s g)"
      if "\<forall>e \<in> set (sp_edges s). edge_ok s e"
      using check_gaps_iff [where s = s and gs = "sp_protectedGaps s" and seen = "[]"] gap_accepted_iff [OF _ assms _ that] True grid by auto
    have patch: "check_patch s = Inr () \<longleftrightarrow> patch_ok s"
      by (rule check_patch_iff) (use True grid in auto)
    show ?thesis
      unfolding split texts edges patch layout_ok_def using grid gaps check_styles_iff [of "[]" "sp_styles s"] True by auto
  next
    case False
    then show ?thesis
      unfolding split texts layout_ok_def using grid by blast
  qed
qed

subsection \<open>Sample layouts\<close>

definition sample_style :: Style where
  "sample_style =
     \<lparr>sy_key = L ''body'', sy_fontName = [], sy_fontSize = 900, sy_bold = 1, sy_textColor = -1, sy_fillColor = 255,
      sy_alignment = 1, sy_verticalAlignment = 1, sy_widthRatio = -1, sy_letterSpacing = -1000,
      sy_lineSpacingType = -1, sy_lineSpacing = -1, sy_previousSpacing = -1, sy_nextSpacing = -1,
      sy_paddingLeft = -1, sy_paddingRight = -1, sy_paddingTop = -1, sy_paddingBottom = -1\<rparr>"

definition sample_spec :: Spec where
  "sample_spec =
     \<lparr>sp_patch = False, sp_targetControlId = [], sp_rows = 2, sp_columns = 3, sp_baseStyleId = 0, sp_bodyLeft = 0,
      sp_bodyTop = 0, sp_bodyWidth = 60, sp_bodyHeight = 11, sp_columnWidths = [10, 20, 30], sp_rowHeights = [5, 6],
      sp_patchColumns = [], sp_patchRows = [],
      sp_merges = [\<lparr>mg_row = 0, mg_column = 0, mg_rowSpan = 1, mg_columnSpan = 2\<rparr>],
      sp_edges = [\<lparr>eg_orientation = 0, eg_line = 1, eg_start = 0, eg_end = 2, eg_style = L ''solid'', eg_width = L ''0.1'', eg_color = 0\<rparr>],
      sp_styles = [sample_style],
      sp_regions = [\<lparr>rg_top = 0, rg_left = 0, rg_bottom = 1, rg_right = 3, rg_styleIndex = 0\<rparr>],
      sp_texts = [\<lparr>tx_row = 0, tx_column = 0, tx_styleIndex = 0, tx_breakMode = 0, tx_value = L ''x''\<rparr>],
      sp_protectedGaps = [\<lparr>gp_axis = 0, gp_top = 1, gp_left = 1, gp_bottom = 2, gp_right = 3, gp_minimum = 6\<rparr>]\<rparr>"

lemma sample_spec_valid: "Validate sample_spec = Inr ()" "spans_fit sample_spec"
  by code_simp+

theorem Validate_iff_witness: "layout_ok sample_spec"
  using Validate_iff [OF sample_spec_valid(2)] sample_spec_valid(1) by blast

text \<open>A merge that starts at the largest \<open>LONG\<close>: its end wraps below zero, so the comparison with
  the number of rows holds, its loop visits no cell, and the layout is accepted.\<close>

definition wrapping_spec :: Spec where
  "wrapping_spec = sample_spec\<lparr>sp_merges := [\<lparr>mg_row = 2147483647, mg_column = 0, mg_rowSpan = 1, mg_columnSpan = 2\<rparr>]\<rparr>"

lemma Validate_wraps: "Validate wrapping_spec = Inr () \<and> \<not> layout_ok wrapping_spec"
proof -
  have "Validate wrapping_spec = Inr ()"
    by code_simp
  moreover have "\<exists>m \<in> set (sp_merges wrapping_spec). \<not> merge_ok wrapping_spec m"
    by code_simp
  ultimately show ?thesis
    unfolding layout_ok_def by blast
qed

end
