(* ===== verification/LayoutExecutor.thy ===== *)
theory LayoutExecutor
  imports LayoutCommands LayoutValidation "HOL-Library.While_Combinator"
begin

section \<open>Reference layouts: execution (ReferenceLayoutExecutor.cpp)\<close>

text \<open>
  The executor turns a validated layout into calls on a host, the word processor behind an
  interface of 15 operations. The host is a parameter: a function from a call and the host's
  state to the answer and the next state; it may answer as it likes. Every function of the
  source is written with the calls in its order, and it returns at the first call that answers
  false. A host that throws, or a failed allocation, is not modelled: the catch block of
  \<open>Execute\<close> answers those.

  \<open>static_cast<size_t>\<close> of an index and the vector access behind it are \<open>! nat i\<close>; that every such
  index is inside its vector is proved, not assumed.
\<close>

subsection \<open>The host\<close>

datatype HostCall =
    Fail Error
  | ExecuteParameter Command
  | CaptureCreatedTable
  | CaptureExistingTable wstring
  | ResizeColumn LONG LONG
  | ResizeRow LONG LONG
  | SelectRegion LONG LONG LONG LONG
  | GoToCell LONG LONG
  | Run wstring wstring
  | InsertText LayoutText "Style option"
  | MergeCells Merge
  | ReconcileFinalGeometry Spec
  | VerifyFinalTopology Spec
  | VerifyPatchedTopology Spec
  | LeaveTable bool

type_synonym 'h Host = "HostCall \<Rightarrow> 'h \<Rightarrow> bool \<times> 'h"
type_synonym 'h operation = "'h \<Rightarrow> bool \<times> 'h"

text \<open>\<open>&&\<close> of two operations, and a loop that returns false at the first one that does.\<close>

definition and_then :: "'h operation \<Rightarrow> 'h operation \<Rightarrow> 'h operation" where
  "and_then f g h = (case f h of (True, h') \<Rightarrow> g h' | (False, h') \<Rightarrow> (False, h'))"

definition succeed :: "'h operation" where
  "succeed h = (True, h)"

fun each :: "('a \<Rightarrow> 'h operation) \<Rightarrow> 'a list \<Rightarrow> 'h operation" where
  "each f [] = succeed"
| "each f (x # xs) = and_then (f x) (each f xs)"

definition guarded :: "bool \<Rightarrow> 'h operation \<Rightarrow> 'h operation" where
  "guarded b f = (if b then f else succeed)"

subsection \<open>Styles\<close>

definition ApplyRegionStyle :: "'h Host \<Rightarrow> Spec \<Rightarrow> Region \<Rightarrow> 'h operation" where
  "ApplyRegionStyle host s r =
    (let style = sp_styles s ! nat (rg_styleIndex r);
         singleCell = (rg_bottom r - rg_top r = 1 \<and> rg_right r - rg_left r = 1)
     in and_then (host (SelectRegion (rg_top r) (rg_left r) (rg_bottom r) (rg_right r)))
       (and_then (each (\<lambda>c. host (ExecuteParameter c)) (StyleCommands style singleCell))
       (and_then (guarded (sy_verticalAlignment style \<ge> 0)
          (host (Run (if sy_verticalAlignment style = 0 then L ''TableVAlignTop''
                      else if sy_verticalAlignment style = 1 then L ''TableVAlignCenter''
                      else L ''TableVAlignBottom'') (sy_key style))))
       (host (Run (L ''Cancel'') (sy_key style))))))"

definition ApplyTextStyle :: "'h Host \<Rightarrow> Style \<Rightarrow> 'h operation" where
  "ApplyTextStyle host style =
     each (\<lambda>c. guarded (cmd_name c = L ''CharShape'' \<or> cmd_name c = L ''ParagraphShape'') (host (ExecuteParameter c)))
       (StyleCommands style False)"

subsection \<open>Visible edges\<close>

text \<open>The row or column the segments of an edge lie in, and the side of it that is drawn.\<close>

definition edge_row :: "Spec \<Rightarrow> Edge \<Rightarrow> LONG" where
  "edge_row s e = (if eg_orientation e = 0 then if eg_line e = sp_rows s then sp_rows s - 1 else eg_line e else 0)"

definition edge_column :: "Spec \<Rightarrow> Edge \<Rightarrow> LONG" where
  "edge_column s e =
     (if eg_orientation e = 0 then 0 else if eg_line e = sp_columns s then sp_columns s - 1 else eg_line e)"

definition edge_side :: "Spec \<Rightarrow> Edge \<Rightarrow> string" where
  "edge_side s e =
     (if eg_orientation e = 0 then if eg_line e = sp_rows s then ''Bottom'' else ''Top''
      else if eg_line e = sp_columns s then ''Right'' else ''Left'')"

definition segment_target :: "Spec \<Rightarrow> Edge \<Rightarrow> LONG \<Rightarrow> LONG \<times> LONG" where
  "segment_target s e segment =
     (if eg_orientation e = 0 then edge_row s e else segment,
      if eg_orientation e = 0 then segment else edge_column s e)"

definition segment_owner :: "Spec \<Rightarrow> LONG \<times> LONG \<Rightarrow> LONG \<times> LONG" where
  "segment_owner s target =
     (case List.find (\<lambda>m. mg_row m \<le> fst target \<and> fst target < merge_rowEnd m \<and>
                         mg_column m \<le> snd target \<and> snd target < merge_columnEnd m) (sp_merges s) of
        Some m \<Rightarrow> (mg_row m, mg_column m)
      | None \<Rightarrow> target)"

fun edge_segments :: "'h Host \<Rightarrow> Spec \<Rightarrow> Edge \<Rightarrow> (LONG \<times> LONG) list \<Rightarrow> LONG list \<Rightarrow> 'h operation" where
  "edge_segments host s e selectedOwners [] = succeed"
| "edge_segments host s e selectedOwners (segment # segments) =
    (let target = segment_target s e segment; owner = segment_owner s target
     in if owner \<in> set selectedOwners then edge_segments host s e selectedOwners segments
        else and_then (host (SelectRegion (fst target) (snd target) (fst target + 1) (snd target + 1)))
            (and_then (host (ExecuteParameter (VisibleEdgeCommand e (edge_side s e))))
            (and_then (host (Run (L ''Cancel'') (L ''visible edge'')))
              (edge_segments host s e (owner # selectedOwners) segments))))"

definition ApplyVisibleEdge :: "'h Host \<Rightarrow> Spec \<Rightarrow> Edge \<Rightarrow> 'h operation" where
  "ApplyVisibleEdge host s e = edge_segments host s e [] [eg_start e .. eg_end e - 1]"

subsection \<open>The axes a patch resizes\<close>

text \<open>The lines a merge spans on the axis of the patch.\<close>

definition span_start :: "bool \<Rightarrow> Merge \<Rightarrow> LONG" where
  "span_start column m = (if column then mg_column m else mg_row m)"

definition span_size :: "bool \<Rightarrow> Merge \<Rightarrow> LONG" where
  "span_size column m = (if column then mg_columnSpan m else mg_rowSpan m)"

definition span_end :: "bool \<Rightarrow> Merge \<Rightarrow> LONG" where
  "span_end column m = (if column then merge_columnEnd m else merge_rowEnd m)"

definition IntersectsPatchedAxis :: "bool \<Rightarrow> Merge \<Rightarrow> LONG list \<Rightarrow> bool" where
  "IntersectsPatchedAxis column m patched \<longleftrightarrow> (\<exists>v \<in> set patched. span_start column m \<le> v \<and> v < span_end column m)"

fun push_missing :: "LONG list \<Rightarrow> LONG list \<Rightarrow> LONG list \<times> bool" where
  "push_missing [] expanded = (expanded, False)"
| "push_missing (v # vs) expanded =
     (if v \<in> set expanded then push_missing vs expanded
      else (fst (push_missing vs (expanded @ [v])), True))"

fun expand_pass :: "bool \<Rightarrow> Merge list \<Rightarrow> LONG list \<Rightarrow> LONG list \<times> bool" where
  "expand_pass column [] expanded = (expanded, False)"
| "expand_pass column (m # ms) expanded =
     (if span_size column m \<le> 1 \<or> \<not> IntersectsPatchedAxis column m expanded then expand_pass column ms expanded
      else let (expanded1, changed1) = push_missing [span_start column m .. span_end column m - 1] expanded;
               (expanded2, changed2) = expand_pass column ms expanded1
           in (expanded2, changed1 \<or> changed2))"

text \<open>The do-while loop: the first pass runs unconditionally, and another one follows every pass
  that changed the list. \<open>None\<close> would be a loop that never ends.\<close>

definition expand_loop :: "bool \<Rightarrow> Merge list \<Rightarrow> LONG list \<Rightarrow> (LONG list \<times> bool) option" where
  "expand_loop column merges patched =
     while_option snd (\<lambda>(expanded, _). expand_pass column merges expanded) (patched, True)"

definition ExpandPatchedAxis :: "LONG list \<Rightarrow> Merge list \<Rightarrow> bool \<Rightarrow> LONG list" where
  "ExpandPatchedAxis patched merges column = sort (fst (the (expand_loop column merges patched)))"

record AffectedMerge =
  am_merge :: Merge
  am_splitColumns :: bool
  am_splitRows :: bool

text \<open>
  The sort compares the first cells in descending order; they are distinct in a valid layout, so
  that \<open>std::sort\<close> has one result.
\<close>

definition affected_merge :: "LONG list \<Rightarrow> LONG list \<Rightarrow> Merge \<Rightarrow> AffectedMerge" where
  "affected_merge patchColumns patchRows m =
     \<lparr>am_merge = m,
      am_splitColumns = (mg_columnSpan m > 1 \<and> IntersectsPatchedAxis True m patchColumns),
      am_splitRows = (mg_rowSpan m > 1 \<and> IntersectsPatchedAxis False m patchRows)\<rparr>"

definition AffectedMerges :: "Spec \<Rightarrow> LONG list \<Rightarrow> LONG list \<Rightarrow> AffectedMerge list" where
  "AffectedMerges s patchColumns patchRows =
     rev (sort_key (\<lambda>a. merge_anchor (am_merge a))
       (filter (\<lambda>a. am_splitColumns a \<or> am_splitRows a) (map (affected_merge patchColumns patchRows) (sp_merges s))))"

subsection \<open>Patches\<close>

definition text_style :: "Spec \<Rightarrow> LayoutText \<Rightarrow> Style option" where
  "text_style s t = (if tx_styleIndex t \<ge> 0 then Some (sp_styles s ! nat (tx_styleIndex t)) else None)"

definition style_text :: "'h Host \<Rightarrow> Style option \<Rightarrow> 'h operation" where
  "style_text host style = (case style of None \<Rightarrow> succeed | Some y \<Rightarrow> ApplyTextStyle host y)"

definition split_merge :: "'h Host \<Rightarrow> AffectedMerge \<Rightarrow> 'h operation" where
  "split_merge host a =
     and_then (host (GoToCell (mg_row (am_merge a)) (mg_column (am_merge a))))
       (host (ExecuteParameter (SplitMergedCellCommand (am_merge a) (am_splitColumns a) (am_splitRows a))))"

definition patch_text :: "'h Host \<Rightarrow> Spec \<Rightarrow> LayoutText \<Rightarrow> 'h operation" where
  "patch_text host s t =
     and_then (host (GoToCell (tx_row t) (tx_column t)))
    (and_then (host (Run (L ''SelectAll'') (L ''reference text patch'')))
    (and_then (style_text host (text_style s t))
       (host (InsertText t (text_style s t)))))"

definition ExecutePatch :: "'h Host \<Rightarrow> Spec \<Rightarrow> 'h operation" where
  "ExecutePatch host s =
    (let patchColumns = ExpandPatchedAxis (sp_patchColumns s) (sp_merges s) True;
         patchRows = ExpandPatchedAxis (sp_patchRows s) (sp_merges s) False;
         affectedMerges = AffectedMerges s patchColumns patchRows;
         verifiedSpec = s\<lparr>sp_patchColumns := patchColumns, sp_patchRows := patchRows\<rparr>
     in and_then (host (CaptureExistingTable (sp_targetControlId s)))
       (and_then (each (split_merge host) affectedMerges)
       (and_then (guarded (affectedMerges \<noteq> []) (host (CaptureExistingTable (sp_targetControlId s))))
       (and_then (guarded (patchColumns \<noteq> [] \<or> patchRows \<noteq> []) (host (ExecuteParameter UnlockTableSizeCommand)))
       (and_then (each (\<lambda>column. host (ResizeColumn column (sp_columnWidths s ! nat column))) patchColumns)
       (and_then (each (\<lambda>row. host (ResizeRow row (sp_rowHeights s ! nat row))) patchRows)
       (and_then (each (\<lambda>a. host (MergeCells (am_merge a))) affectedMerges)
       (and_then (each (ApplyRegionStyle host s) (sp_regions s))
       (and_then (each (ApplyVisibleEdge host s) (sp_edges s))
       (and_then (each (patch_text host s) (sp_texts s))
       (and_then (host (VerifyPatchedTopology verifiedSpec))
         (host (LeaveTable False)))))))))))))"

subsection \<open>Creation\<close>

definition create_text :: "'h Host \<Rightarrow> Spec \<Rightarrow> LayoutText \<Rightarrow> 'h operation" where
  "create_text host s t =
     and_then (host (GoToCell (tx_row t) (tx_column t)))
    (and_then (style_text host (text_style s t))
       (host (InsertText t (text_style s t))))"

definition creation_merges :: "Spec \<Rightarrow> Merge list" where
  "creation_merges s = rev (sort_key merge_anchor (sp_merges s))"

definition execute_creation :: "'h Host \<Rightarrow> Spec \<Rightarrow> 'h operation" where
  "execute_creation host s =
     and_then (host (ExecuteParameter (BaseStyleCommand (sp_baseStyleId s))))
    (and_then (host (ExecuteParameter AnchorParagraphCommand))
    (and_then (host (ExecuteParameter TableSeedCharacterCommand))
    (and_then (host (ExecuteParameter (TableCreateCommand s)))
    (and_then (host CaptureCreatedTable)
    (and_then (each (ApplyRegionStyle host s) (sp_regions s))
    (and_then (host (SelectRegion 0 0 (sp_rows s) (sp_columns s)))
    (and_then (host (ExecuteParameter ClearAllBordersCommand))
    (and_then (host (Run (L ''Cancel'') (L ''clear all borders'')))
    (and_then (each (\<lambda>m. host (MergeCells m)) (creation_merges s))
    (and_then (each (create_text host s) (sp_texts s))
    (and_then (each (ApplyVisibleEdge host s) (sp_edges s))
    (and_then (host (ExecuteParameter UnlockTableSizeCommand))
    (and_then (host (ReconcileFinalGeometry s))
    (and_then (host (VerifyFinalTopology s))
       (host (LeaveTable False))))))))))))))))"

text \<open>An action of another name fails with an empty error: \<open>Parse\<close> leaves the error as it was.\<close>

definition empty_error :: Error where
  "empty_error = \<lparr>er_code = [], er_location = [], er_message = []\<rparr>"

definition Execute :: "'h Host \<Rightarrow> Command \<Rightarrow> 'h operation" where
  "Execute host command =
    (case Layout_Parse command of
       Inl error \<Rightarrow> host (Fail (case error of Some e \<Rightarrow> e | None \<Rightarrow> empty_error))
     | Inr s \<Rightarrow> if sp_patch s then ExecutePatch host s else execute_creation host s)"

subsection \<open>The axes a patch resizes: the least closed set\<close>

text \<open>A set of lines is closed when it holds every line of a wide merge it meets.\<close>

definition axis_closed :: "bool \<Rightarrow> Merge list \<Rightarrow> int set \<Rightarrow> bool" where
  "axis_closed column merges A \<longleftrightarrow>
     (\<forall>m \<in> set merges. 1 < span_size column m \<and> {span_start column m..<span_end column m} \<inter> A \<noteq> {} \<longrightarrow>
        {span_start column m..<span_end column m} \<subseteq> A)"

lemma interval_int [simp]: "{a .. b - 1} = {a..<b}" for a b :: int
  by auto

lemma upto_set: "set [a .. b - 1] = {a..<b}" for a b :: int
  by simp

lemma IntersectsPatchedAxis_iff:
  "IntersectsPatchedAxis column m patched \<longleftrightarrow> {span_start column m..<span_end column m} \<inter> set patched \<noteq> {}"
  by (auto simp: IntersectsPatchedAxis_def)

lemma push_missing_set: "set (fst (push_missing vs expanded)) = set expanded \<union> set vs"
  by (induction vs expanded rule: push_missing.induct) auto

lemma push_missing_changed: "snd (push_missing vs expanded) \<longleftrightarrow> \<not> set vs \<subseteq> set expanded"
  by (induction vs expanded rule: push_missing.induct) auto

lemma push_missing_same: "set vs \<subseteq> set expanded \<Longrightarrow> fst (push_missing vs expanded) = expanded"
  by (induction vs expanded rule: push_missing.induct) auto

lemma push_missing_distinct: "distinct (fst (push_missing vs expanded)) = distinct expanded"
  by (induction vs expanded rule: push_missing.induct) auto

lemma expand_pass_step:
  assumes "\<not> (span_size column m \<le> 1 \<or> \<not> IntersectsPatchedAxis column m expanded)"
  obtains expanded1 where
    "set expanded1 = set expanded \<union> {span_start column m..<span_end column m}"
    "distinct expanded1 = distinct expanded"
    "fst (expand_pass column (m # ms) expanded) = fst (expand_pass column ms expanded1)"
    "snd (expand_pass column (m # ms) expanded) \<longleftrightarrow>
       \<not> {span_start column m..<span_end column m} \<subseteq> set expanded \<or> snd (expand_pass column ms expanded1)"
proof
  let ?p = "push_missing [span_start column m .. span_end column m - 1] expanded"
  show "set (fst ?p) = set expanded \<union> {span_start column m..<span_end column m}"
    "distinct (fst ?p) = distinct expanded"
    by (simp_all only: push_missing_set push_missing_distinct upto_set)
  show "fst (expand_pass column (m # ms) expanded) = fst (expand_pass column ms (fst ?p))"
    "snd (expand_pass column (m # ms) expanded) \<longleftrightarrow>
       \<not> {span_start column m..<span_end column m} \<subseteq> set expanded \<or> snd (expand_pass column ms (fst ?p))"
    using assms by (simp_all add: case_prod_unfold Let_def push_missing_changed)
qed

lemma expand_pass_grows: "set expanded \<subseteq> set (fst (expand_pass column merges expanded))"
proof (induction merges arbitrary: expanded)
  case (Cons m ms)
  show ?case
  proof (cases "span_size column m \<le> 1 \<or> \<not> IntersectsPatchedAxis column m expanded")
    case False
    then obtain expanded1 where "set expanded1 = set expanded \<union> {span_start column m..<span_end column m}"
        "fst (expand_pass column (m # ms) expanded) = fst (expand_pass column ms expanded1)"
      by (rule expand_pass_step)
    with Cons.IH [of expanded1] show ?thesis by simp
  qed (use Cons.IH in simp)
qed simp

lemma expand_pass_distinct: "distinct (fst (expand_pass column merges expanded)) = distinct expanded"
proof (induction merges arbitrary: expanded)
  case (Cons m ms)
  show ?case
  proof (cases "span_size column m \<le> 1 \<or> \<not> IntersectsPatchedAxis column m expanded")
    case False
    then obtain expanded1 where "distinct expanded1 = distinct expanded"
        "fst (expand_pass column (m # ms) expanded) = fst (expand_pass column ms expanded1)"
      by (rule expand_pass_step)
    with Cons.IH [of expanded1] show ?thesis by simp
  qed (use Cons.IH in simp)
qed simp

lemma expand_pass_within:
  "axis_closed column merges A \<Longrightarrow> set expanded \<subseteq> A \<Longrightarrow> set (fst (expand_pass column merges expanded)) \<subseteq> A"
proof (induction merges arbitrary: expanded)
  case (Cons m ms)
  have closed: "axis_closed column ms A"
    using Cons.prems(1) by (simp add: axis_closed_def)
  show ?case
  proof (cases "span_size column m \<le> 1 \<or> \<not> IntersectsPatchedAxis column m expanded")
    case True
    with Cons.IH [OF closed Cons.prems(2)] show ?thesis by simp
  next
    case False
    then obtain expanded1 where e1: "set expanded1 = set expanded \<union> {span_start column m..<span_end column m}"
        "fst (expand_pass column (m # ms) expanded) = fst (expand_pass column ms expanded1)"
      by (rule expand_pass_step)
    have "{span_start column m..<span_end column m} \<subseteq> A"
      using False Cons.prems unfolding axis_closed_def IntersectsPatchedAxis_iff by fastforce
    with e1 Cons.prems(2) have "set expanded1 \<subseteq> A" by simp
    from Cons.IH [OF closed this] e1(2) show ?thesis by simp
  qed
qed simp

text \<open>A pass that reports no change leaves the list alone and has found it closed; one that reports
  a change has added a line.\<close>

lemma expand_pass_unchanged:
  "\<not> snd (expand_pass column merges expanded) \<Longrightarrow>
     set (fst (expand_pass column merges expanded)) = set expanded \<and> axis_closed column merges (set expanded)"
proof (induction merges arbitrary: expanded)
  case (Cons m ms)
  show ?case
  proof (cases "span_size column m \<le> 1 \<or> \<not> IntersectsPatchedAxis column m expanded")
    case True
    with Cons.IH [of expanded] Cons.prems show ?thesis
      by (auto simp: axis_closed_def IntersectsPatchedAxis_iff)
  next
    case False
    then obtain expanded1 where e1: "set expanded1 = set expanded \<union> {span_start column m..<span_end column m}"
        "fst (expand_pass column (m # ms) expanded) = fst (expand_pass column ms expanded1)"
        "snd (expand_pass column (m # ms) expanded) \<longleftrightarrow>
           \<not> {span_start column m..<span_end column m} \<subseteq> set expanded \<or> snd (expand_pass column ms expanded1)"
      by (rule expand_pass_step)
    with Cons.prems have sub: "{span_start column m..<span_end column m} \<subseteq> set expanded"
      and "\<not> snd (expand_pass column ms expanded1)"
      by simp_all
    with Cons.IH [of expanded1] e1(1,2) show ?thesis
      by (auto simp: axis_closed_def Un_absorb2)
  qed
qed (simp add: axis_closed_def)

lemma expand_pass_changed:
  "snd (expand_pass column merges expanded) \<Longrightarrow> set (fst (expand_pass column merges expanded)) \<noteq> set expanded"
proof (induction merges arbitrary: expanded)
  case (Cons m ms)
  show ?case
  proof (cases "span_size column m \<le> 1 \<or> \<not> IntersectsPatchedAxis column m expanded")
    case True
    with Cons.IH [of expanded] Cons.prems show ?thesis by simp
  next
    case False
    then obtain expanded1 where e1: "set expanded1 = set expanded \<union> {span_start column m..<span_end column m}"
        "fst (expand_pass column (m # ms) expanded) = fst (expand_pass column ms expanded1)"
        "snd (expand_pass column (m # ms) expanded) \<longleftrightarrow>
           \<not> {span_start column m..<span_end column m} \<subseteq> set expanded \<or> snd (expand_pass column ms expanded1)"
      by (rule expand_pass_step)
    show ?thesis
    proof (cases "{span_start column m..<span_end column m} \<subseteq> set expanded")
      case True
      with e1 Cons.prems Cons.IH [of expanded1] show ?thesis by (simp add: Un_absorb2)
    next
      case False
      with e1(1,2) expand_pass_grows [of expanded1 column ms] show ?thesis by auto
    qed
  qed
qed simp

text \<open>Everything the loop keeps: the list grows inside every closed set around the start.\<close>

definition expand_inv :: "bool \<Rightarrow> Merge list \<Rightarrow> LONG list \<Rightarrow> LONG list \<times> bool \<Rightarrow> bool" where
  "expand_inv column merges patched state \<longleftrightarrow>
     set patched \<subseteq> set (fst state) \<and> distinct (fst state) = distinct patched \<and>
     (\<forall>A. set patched \<subseteq> A \<and> axis_closed column merges A \<longrightarrow> set (fst state) \<subseteq> A) \<and>
     (\<not> snd state \<longrightarrow> axis_closed column merges (set (fst state)))"

definition axis_lines :: "bool \<Rightarrow> Merge list \<Rightarrow> LONG list \<Rightarrow> int set" where
  "axis_lines column merges patched =
     set patched \<union> (\<Union>m \<in> set merges. {span_start column m..<span_end column m})"

lemma axis_lines_closed: "axis_closed column merges (axis_lines column merges patched)"
  by (auto simp: axis_closed_def axis_lines_def)

lemma axis_lines_finite: "finite (axis_lines column merges patched)"
  by (simp add: axis_lines_def)

lemma expand_inv_step:
  assumes "expand_inv column merges patched (expanded, changed)"
  shows "expand_inv column merges patched (expand_pass column merges expanded)"
  unfolding expand_inv_def
proof (intro conjI allI impI)
  show "set patched \<subseteq> set (fst (expand_pass column merges expanded))"
    using assms expand_pass_grows [of expanded column merges] by (auto simp: expand_inv_def)
  show "distinct (fst (expand_pass column merges expanded)) = distinct patched"
    using assms by (simp add: expand_inv_def expand_pass_distinct)
  show "set (fst (expand_pass column merges expanded)) \<subseteq> A"
    if "set patched \<subseteq> A \<and> axis_closed column merges A" for A
    using assms that expand_pass_within [of column merges A expanded] by (simp add: expand_inv_def)
  show "axis_closed column merges (set (fst (expand_pass column merges expanded)))"
    if "\<not> snd (expand_pass column merges expanded)"
    using expand_pass_unchanged [OF that] by simp
qed

lemma expand_loop_ends:
  obtains expanded where "expand_loop column merges patched = Some (expanded, False)"
    "expand_inv column merges patched (expanded, False)"
proof -
  let ?U = "axis_lines column merges patched"
  let ?f = "\<lambda>(expanded, changed). card (?U - set expanded) + (if changed then 1 else 0 :: nat)"
  have "\<exists>t. expand_loop column merges patched = Some t"
    unfolding expand_loop_def
  proof (rule measure_while_option_Some [where P = "expand_inv column merges patched" and f = ?f, THEN exE])
    fix state :: "LONG list \<times> bool"
    assume inv: "expand_inv column merges patched state" and changed: "snd state"
    obtain expanded where state: "state = (expanded, True)"
      using changed by (cases state) simp
    obtain expanded' changed' where pass: "expand_pass column merges expanded = (expanded', changed')"
      by force
    have step: "expand_inv column merges patched (expanded', changed')"
      using expand_inv_step [of column merges patched expanded True] inv state pass by simp
    have grows: "set expanded \<subseteq> set expanded'"
      using expand_pass_grows [of expanded column merges] pass by simp
    have within: "set expanded' \<subseteq> ?U"
      using step axis_lines_closed unfolding expand_inv_def by (auto simp: axis_lines_def)
    have "card (?U - set expanded') + (if changed' then 1 else 0) < card (?U - set expanded) + 1"
    proof (cases changed')
      case True
      with expand_pass_changed [of column merges expanded] pass grows within
      have "?U - set expanded' \<subset> ?U - set expanded" by auto
      with True show ?thesis
        by (simp add: psubset_card_mono [OF finite_Diff [OF axis_lines_finite]])
    next
      case False
      have "card (?U - set expanded') \<le> card (?U - set expanded)"
        using grows by (intro card_mono) (auto simp: axis_lines_finite)
      with False show ?thesis by simp
    qed
    with step show "expand_inv column merges patched ((\<lambda>(expanded, _). expand_pass column merges expanded) state) \<and>
        ?f ((\<lambda>(expanded, _). expand_pass column merges expanded) state) < ?f state"
      by (simp add: state pass)
  qed (auto simp: expand_inv_def)
  then obtain expanded changed where loop: "expand_loop column merges patched = Some (expanded, changed)"
    by force
  have "\<not> changed"
    using while_option_stop [OF loop [unfolded expand_loop_def]] by simp
  moreover have "expand_inv column merges patched (expanded, changed)"
    by (rule while_option_rule [OF _ loop [unfolded expand_loop_def]])
      (auto simp: expand_inv_step, simp add: expand_inv_def)
  ultimately show thesis
    using that loop by simp
qed

text \<open>Claim C23. The do-while loop of \<open>ExpandPatchedAxis\<close> ends, for every list of lines and every
  list of merged cells, valid or not, and its last pass found nothing to add.\<close>

theorem expand_loop_terminates:
  "\<exists>expanded. expand_loop column merges patched = Some (expanded, False) \<and>
     expand_pass column merges expanded = (expanded, False)"
proof -
  obtain expanded where e: "expand_loop column merges patched = Some (expanded, False)"
      "expand_inv column merges patched (expanded, False)"
    by (rule expand_loop_ends)
  have "expand_pass column ms expanded = (expanded, False)" if "set ms \<subseteq> set merges" for ms
    using that
  proof (induction ms)
    case (Cons m ms)
    then have "expand_pass column ms expanded = (expanded, False)"
      and "1 < span_size column m \<and> {span_start column m..<span_end column m} \<inter> set expanded \<noteq> {} \<longrightarrow>
        {span_start column m..<span_end column m} \<subseteq> set expanded"
      using e(2) by (simp_all add: expand_inv_def axis_closed_def)
    then show ?case
      using push_missing_same [of "[span_start column m .. span_end column m - 1]" expanded]
        push_missing_changed [of "[span_start column m .. span_end column m - 1]" expanded]
      by (auto simp: IntersectsPatchedAxis_iff prod_eq_iff Let_def split: prod.split)
  qed simp
  with e(1) show ?thesis by blast
qed

lemma ExpandPatchedAxis_inv:
  "sorted (ExpandPatchedAxis patched merges column)"
  "expand_inv column merges patched (ExpandPatchedAxis patched merges column, False)"
proof -
  obtain expanded where "expand_loop column merges patched = Some (expanded, False)"
      "expand_inv column merges patched (expanded, False)"
    by (rule expand_loop_ends)
  then show "sorted (ExpandPatchedAxis patched merges column)"
    "expand_inv column merges patched (ExpandPatchedAxis patched merges column, False)"
    by (simp_all add: ExpandPatchedAxis_def expand_inv_def)
qed

text \<open>Claim C22. The lines a patch resizes are sorted, each once when the request names each once, and they
  are the least set that holds the requested lines and, with any line of a merged cell wider than
  one, all lines of that cell.\<close>

theorem ExpandPatchedAxis_least:
  "sorted (ExpandPatchedAxis patched merges column) \<and>
   distinct (ExpandPatchedAxis patched merges column) = distinct patched \<and>
   set (ExpandPatchedAxis patched merges column) = \<Inter> {A. set patched \<subseteq> A \<and> axis_closed column merges A}"
proof -
  note inv = ExpandPatchedAxis_inv(2) [where column = column and merges = merges and patched = patched, unfolded expand_inv_def, simplified]
  have "set (ExpandPatchedAxis patched merges column) = \<Inter> {A. set patched \<subseteq> A \<and> axis_closed column merges A}"
    using inv by (intro equalityI) blast+
  with inv ExpandPatchedAxis_inv(1) show ?thesis by simp
qed

subsection \<open>The calls of a layout\<close>

text \<open>
  What the host's answers decide is only where the executor stops: the calls themselves are fixed
  by the layout. The lists below are that contract, and the theorem at the end of the section says
  that the executor makes them in order until one answers false.
\<close>

definition run_calls :: "'h Host \<Rightarrow> HostCall list \<Rightarrow> 'h operation" where
  "run_calls host = each host"

lemma and_then_succeed [simp]: "and_then succeed f = f" "and_then f succeed = f"
  by (auto simp: and_then_def succeed_def fun_eq_iff split: prod.split bool.split)

lemma and_then_assoc [simp]: "and_then (and_then f g) k = and_then f (and_then g k)"
  by (auto simp: and_then_def fun_eq_iff split: prod.split bool.split)

lemma run_calls_simps [simp]:
  "run_calls host [] = succeed"
  "run_calls host (c # cs) = and_then (host c) (run_calls host cs)"
  by (simp_all add: run_calls_def)

lemma run_calls_append [simp]: "run_calls host (cs @ ds) = and_then (run_calls host cs) (run_calls host ds)"
  by (induction cs) simp_all

lemma each_calls: "(\<And>x. f x = run_calls host (g x)) \<Longrightarrow> each f xs = run_calls host (concat (map g xs))"
  by (induction xs) simp_all

lemma guarded_calls: "guarded b (run_calls host cs) = run_calls host (if b then cs else [])"
  by (simp add: guarded_def)

lemma host_call: "host c = run_calls host [c]"
  by simp

definition region_calls :: "Spec \<Rightarrow> Region \<Rightarrow> HostCall list" where
  "region_calls s r =
    (let style = sp_styles s ! nat (rg_styleIndex r)
     in [SelectRegion (rg_top r) (rg_left r) (rg_bottom r) (rg_right r)] @
        map ExecuteParameter (StyleCommands style (rg_bottom r - rg_top r = 1 \<and> rg_right r - rg_left r = 1)) @
        (if sy_verticalAlignment style \<ge> 0
         then [Run (if sy_verticalAlignment style = 0 then L ''TableVAlignTop''
                    else if sy_verticalAlignment style = 1 then L ''TableVAlignCenter''
                    else L ''TableVAlignBottom'') (sy_key style)] else []) @
        [Run (L ''Cancel'') (sy_key style)])"

definition text_style_calls :: "Style option \<Rightarrow> HostCall list" where
  "text_style_calls style =
    (case style of None \<Rightarrow> []
     | Some y \<Rightarrow> map ExecuteParameter
         (filter (\<lambda>c. cmd_name c = L ''CharShape'' \<or> cmd_name c = L ''ParagraphShape'') (StyleCommands y False)))"

text \<open>The cells an edge selects: for each owner along the edge, the first cell of it the edge meets.\<close>

fun first_of_owner :: "Spec \<Rightarrow> (LONG \<times> LONG) set \<Rightarrow> (LONG \<times> LONG) list \<Rightarrow> (LONG \<times> LONG) list" where
  "first_of_owner s seen [] = []"
| "first_of_owner s seen (target # targets) =
     (if segment_owner s target \<in> seen then first_of_owner s seen targets
      else target # first_of_owner s (insert (segment_owner s target) seen) targets)"

definition edge_targets :: "Spec \<Rightarrow> Edge \<Rightarrow> (LONG \<times> LONG) list" where
  "edge_targets s e = first_of_owner s {} (map (segment_target s e) [eg_start e .. eg_end e - 1])"

definition draw_edge :: "Spec \<Rightarrow> Edge \<Rightarrow> LONG \<times> LONG \<Rightarrow> HostCall list" where
  "draw_edge s e target =
     [SelectRegion (fst target) (snd target) (fst target + 1) (snd target + 1),
      ExecuteParameter (VisibleEdgeCommand e (edge_side s e)), Run (L ''Cancel'') (L ''visible edge'')]"

definition edge_calls :: "Spec \<Rightarrow> Edge \<Rightarrow> HostCall list" where
  "edge_calls s e = concat (map (draw_edge s e) (edge_targets s e))"

definition split_calls :: "AffectedMerge \<Rightarrow> HostCall list" where
  "split_calls a =
     [GoToCell (mg_row (am_merge a)) (mg_column (am_merge a)),
      ExecuteParameter (SplitMergedCellCommand (am_merge a) (am_splitColumns a) (am_splitRows a))]"

definition text_calls :: "Spec \<Rightarrow> HostCall list \<Rightarrow> LayoutText \<Rightarrow> HostCall list" where
  "text_calls s before t =
     [GoToCell (tx_row t) (tx_column t)] @ before @ text_style_calls (text_style s t) @ [InsertText t (text_style s t)]"

definition patch_columns :: "Spec \<Rightarrow> LONG list" where
  "patch_columns s = ExpandPatchedAxis (sp_patchColumns s) (sp_merges s) True"

definition patch_rows :: "Spec \<Rightarrow> LONG list" where
  "patch_rows s = ExpandPatchedAxis (sp_patchRows s) (sp_merges s) False"

definition patch_merges :: "Spec \<Rightarrow> AffectedMerge list" where
  "patch_merges s = AffectedMerges s (patch_columns s) (patch_rows s)"

definition patch_calls :: "Spec \<Rightarrow> HostCall list" where
  "patch_calls s =
     [CaptureExistingTable (sp_targetControlId s)] @
     concat (map split_calls (patch_merges s)) @
     (if patch_merges s \<noteq> [] then [CaptureExistingTable (sp_targetControlId s)] else []) @
     (if patch_columns s \<noteq> [] \<or> patch_rows s \<noteq> [] then [ExecuteParameter UnlockTableSizeCommand] else []) @
     map (\<lambda>column. ResizeColumn column (sp_columnWidths s ! nat column)) (patch_columns s) @
     map (\<lambda>row. ResizeRow row (sp_rowHeights s ! nat row)) (patch_rows s) @
     map (\<lambda>a. MergeCells (am_merge a)) (patch_merges s) @
     concat (map (region_calls s) (sp_regions s)) @ concat (map (edge_calls s) (sp_edges s)) @
     concat (map (text_calls s [Run (L ''SelectAll'') (L ''reference text patch'')]) (sp_texts s)) @
     [VerifyPatchedTopology (s\<lparr>sp_patchColumns := patch_columns s, sp_patchRows := patch_rows s\<rparr>), LeaveTable False]"

definition creation_calls :: "Spec \<Rightarrow> HostCall list" where
  "creation_calls s =
     [ExecuteParameter (BaseStyleCommand (sp_baseStyleId s)), ExecuteParameter AnchorParagraphCommand,
      ExecuteParameter TableSeedCharacterCommand, ExecuteParameter (TableCreateCommand s), CaptureCreatedTable] @
     concat (map (region_calls s) (sp_regions s)) @
     [SelectRegion 0 0 (sp_rows s) (sp_columns s), ExecuteParameter ClearAllBordersCommand,
      Run (L ''Cancel'') (L ''clear all borders'')] @
     map MergeCells (creation_merges s) @
     concat (map (text_calls s []) (sp_texts s)) @ concat (map (edge_calls s) (sp_edges s)) @
     [ExecuteParameter UnlockTableSizeCommand, ReconcileFinalGeometry s, VerifyFinalTopology s, LeaveTable False]"

definition layout_calls :: "Command \<Rightarrow> HostCall list" where
  "layout_calls command =
    (case Layout_Parse command of
       Inl None \<Rightarrow> [Fail empty_error]
     | Inl (Some e) \<Rightarrow> [Fail e]
     | Inr s \<Rightarrow> if sp_patch s then patch_calls s else creation_calls s)"

subsection \<open>The executor makes these calls\<close>

lemma ApplyRegionStyle_calls: "ApplyRegionStyle host s r = run_calls host (region_calls s r)"
  unfolding ApplyRegionStyle_def region_calls_def Let_def
  by (simp add: each_calls [where g = "\<lambda>c. [ExecuteParameter c]"] guarded_def concat_map_singleton)

lemma style_text_calls: "style_text host style = run_calls host (text_style_calls style)"
proof (cases style)
  case (Some y)
  have "each (\<lambda>c. guarded (P c) (host (ExecuteParameter c))) cs = run_calls host (map ExecuteParameter (filter P cs))"
    for P cs
    by (induction cs) (simp_all add: guarded_def)
  with Some show ?thesis
    by (simp add: style_text_def ApplyTextStyle_def text_style_calls_def)
qed (simp add: style_text_def text_style_calls_def)

lemma edge_segments_calls:
  "edge_segments host s e selectedOwners segments =
     run_calls host (concat (map (draw_edge s e) (first_of_owner s (set selectedOwners) (map (segment_target s e) segments))))"
  by (induction host s e selectedOwners segments rule: edge_segments.induct) (simp_all add: Let_def draw_edge_def)

lemma ApplyVisibleEdge_calls: "ApplyVisibleEdge host s e = run_calls host (edge_calls s e)"
  by (simp add: ApplyVisibleEdge_def edge_calls_def edge_targets_def edge_segments_calls)

lemma text_calls_run:
  "create_text host s t = run_calls host (text_calls s [] t)"
  "patch_text host s t = run_calls host (text_calls s [Run (L ''SelectAll'') (L ''reference text patch'')] t)"
  by (simp_all add: create_text_def patch_text_def text_calls_def style_text_calls)

lemma split_merge_calls: "split_merge host a = run_calls host (split_calls a)"
  by (simp add: split_merge_def split_calls_def)

lemmas each_of_calls =
  each_calls [OF ApplyRegionStyle_calls] each_calls [OF ApplyVisibleEdge_calls] each_calls [OF split_merge_calls]
  each_calls [OF text_calls_run(1)] each_calls [OF text_calls_run(2)]

lemma each_host: "each (\<lambda>x. host (f x)) xs = run_calls host (map f xs)"
  by (induction xs) simp_all

lemma ExecutePatch_calls: "ExecutePatch host s = run_calls host (patch_calls s)"
  unfolding ExecutePatch_def patch_calls_def Let_def patch_columns_def [symmetric] patch_rows_def [symmetric]
    patch_merges_def [symmetric] each_of_calls each_host [of host]
  by (simp add: guarded_def)

lemma execute_creation_calls: "execute_creation host s = run_calls host (creation_calls s)"
  unfolding execute_creation_def creation_calls_def each_of_calls each_host [of host] by simp

text \<open>Claim C20. On any host, \<open>Execute\<close> makes the calls of the layout in their order, stops at the
  first that answers false and then answers false itself; a request that does not parse makes the
  one call that reports its error.\<close>

theorem Execute_calls: "Execute host command = run_calls host (layout_calls command)"
  by (simp add: Execute_def layout_calls_def ExecutePatch_calls execute_creation_calls split: sum.split option.split)

subsection \<open>Every index is inside its vector\<close>

lemma check_merges_valid: "check_merges s occupied ms = Inr covered \<Longrightarrow> \<forall>m \<in> set ms. \<not> merge_invalid s m"
  by (induction s occupied ms arbitrary: covered rule: check_merges.induct)
    (fastforce simp: bindE_Inr_iff split: if_splits)+

lemma check_edges_valid: "check_edges s es = Inr u \<Longrightarrow> \<forall>e \<in> set es. \<not> edge_invalid s e"
  by (induction s es rule: check_edges.induct) (auto split: if_splits)

lemma Validate_facts:
  assumes "Validate s = Inr ()"
  shows "\<not> grid_invalid s" "\<not> geometry_invalid s" "check_patch s = Inr ()"
    "\<forall>m \<in> set (sp_merges s). \<not> merge_invalid s m" "\<forall>r \<in> set (sp_regions s). \<not> region_invalid s r"
    "\<forall>e \<in> set (sp_edges s). \<not> edge_invalid s e"
    "\<exists>covered. \<forall>t \<in> set (sp_texts s). \<not> text_invalid s covered t"
  using assms unfolding Validate_def
  by (auto simp: bindE_Inr_iff dest: check_merges_valid check_edges_valid)

lemma patch_indexes:
  assumes "Validate s = Inr ()"
  shows "set (sp_patchColumns s) \<subseteq> {0..<sp_columns s}" "set (sp_patchRows s) \<subseteq> {0..<sp_rows s}"
  using Validate_facts(3) [OF assms]
  by (auto simp: check_patch_def patch_indexes_invalid_def bindE_Inr_iff not_less not_le split: if_splits)

lemma patch_lines:
  assumes "Validate s = Inr ()"
  shows "set (patch_columns s) \<subseteq> {0..<sp_columns s}" "set (patch_rows s) \<subseteq> {0..<sp_rows s}"
proof -
  have "axis_closed True (sp_merges s) {0..<sp_columns s}" "axis_closed False (sp_merges s) {0..<sp_rows s}"
    using Validate_facts(4) [OF assms]
    by (auto simp: axis_closed_def merge_invalid_def span_start_def span_end_def)
  then show "set (patch_columns s) \<subseteq> {0..<sp_columns s}" "set (patch_rows s) \<subseteq> {0..<sp_rows s}"
    using patch_indexes [OF assms] ExpandPatchedAxis_inv(2) [of True "sp_merges s" "sp_patchColumns s"]
      ExpandPatchedAxis_inv(2) [of False "sp_merges s" "sp_patchRows s"]
    by (simp_all add: patch_columns_def patch_rows_def expand_inv_def)
qed

lemma layout_sizes:
  assumes "Validate s = Inr ()"
  shows "c \<in> {0..<sp_columns s} \<Longrightarrow> nat c < length (sp_columnWidths s) \<and> 0 < sp_columnWidths s ! nat c"
    "r \<in> {0..<sp_rows s} \<Longrightarrow> nat r < length (sp_rowHeights s) \<and> 0 < sp_rowHeights s ! nat r"
proof -
  have grid: "length (sp_columnWidths s) = nat (sp_columns s)" "length (sp_rowHeights s) = nat (sp_rows s)"
    using Validate_facts(1) [OF assms] by (simp_all add: grid_invalid_def)
  have pos: "\<forall>v \<in> set (sp_columnWidths s) \<union> set (sp_rowHeights s). 0 < v"
    using Validate_facts(2) [OF assms] by (auto simp: geometry_invalid_def not_le)
  show "nat c < length (sp_columnWidths s) \<and> 0 < sp_columnWidths s ! nat c" if "c \<in> {0..<sp_columns s}"
  proof -
    have "nat c < length (sp_columnWidths s)" using that grid by auto
    then show ?thesis using pos nth_mem by blast
  qed
  show "nat r < length (sp_rowHeights s) \<and> 0 < sp_rowHeights s ! nat r" if "r \<in> {0..<sp_rows s}"
  proof -
    have "nat r < length (sp_rowHeights s)" using that grid by auto
    then show ?thesis using pos nth_mem by blast
  qed
qed

text \<open>In an accepted layout every access of the executor to a vector is inside it: the style of
  each region and of each styled text, and the width or height of each column and row a patch
  resizes.\<close>

lemma executor_indexes:
  assumes "Validate s = Inr ()"
  shows "(\<forall>r \<in> set (sp_regions s). 0 \<le> rg_styleIndex r \<and> nat (rg_styleIndex r) < length (sp_styles s)) \<and>
    (\<forall>t \<in> set (sp_texts s). 0 \<le> tx_styleIndex t \<longrightarrow> nat (tx_styleIndex t) < length (sp_styles s)) \<and>
    (\<forall>c \<in> set (patch_columns s). 0 \<le> c \<and> nat c < length (sp_columnWidths s)) \<and>
    (\<forall>r \<in> set (patch_rows s). 0 \<le> r \<and> nat r < length (sp_rowHeights s))"
  using Validate_facts(5,7) [OF assms] patch_lines [OF assms] layout_sizes [OF assms]
  by (auto simp: region_invalid_def text_invalid_def StyleIndex_def subset_iff)

text \<open>A patch of one column of the merged cell: both its columns are resized.\<close>

definition sample_patch :: Spec where
  "sample_patch = sample_spec\<lparr>sp_patch := True, sp_targetControlId := L ''t'', sp_patchColumns := [1]\<rparr>"

lemma sample_patch_valid: "Validate sample_patch = Inr ()"
  by code_simp

lemma sample_patch_columns: "patch_columns sample_patch = [0, 1]"
  by code_simp

lemma executor_indexes_witness:
  "nat 1 < length (sp_columnWidths sample_patch) \<and> nat 0 < length (sp_styles sample_patch)"
proof -
  have "\<exists>r \<in> set (sp_regions sample_patch). rg_styleIndex r = 0" by code_simp
  then show ?thesis
    using executor_indexes [OF sample_patch_valid] unfolding sample_patch_columns by fastforce
qed

subsection \<open>The cells an edge is drawn on\<close>

lemma first_of_owner:
  "set (first_of_owner s seen targets) \<subseteq> set targets"
  "segment_owner s ` set (first_of_owner s seen targets) = segment_owner s ` set targets - seen"
  "distinct (map (segment_owner s) (first_of_owner s seen targets))"
  by (induction s seen targets rule: first_of_owner.induct) auto

text \<open>An edge of an accepted layout is drawn from inside the grid, on one cell of every
  merged or plain cell along it, and on no merged cell twice.\<close>

lemma edge_drawn_once:
  assumes "Validate s = Inr ()" "e \<in> set (sp_edges s)"
  shows "set (edge_targets s e) \<subseteq> rect 0 0 (sp_rows s) (sp_columns s) \<and>
    distinct (map (segment_owner s) (edge_targets s e)) \<and>
    segment_owner s ` set (edge_targets s e) = segment_owner s ` segment_target s e ` {eg_start e..<eg_end e}"
proof -
  have "\<not> edge_invalid s e" "1 \<le> sp_rows s" "1 \<le> sp_columns s"
    using Validate_facts(1,6) [OF assms(1)] assms(2) by (auto simp: grid_invalid_def)
  then have "segment_target s e ` {eg_start e..<eg_end e} \<subseteq> rect 0 0 (sp_rows s) (sp_columns s)"
    by (auto simp: segment_target_def edge_row_def edge_column_def edge_invalid_def rect_def Let_def split: if_splits)
  then show ?thesis
    using first_of_owner [of s "{}" "map (segment_target s e) [eg_start e .. eg_end e - 1]"]
    by (auto simp: edge_targets_def)
qed

lemma edge_drawn_once_witness:
  "edge_targets sample_spec (hd (sp_edges sample_spec)) = [(1, 0), (1, 1)] \<and>
   {(1, 0), (1, 1)} \<subseteq> rect 0 0 (sp_rows sample_spec) (sp_columns sample_spec)"
proof -
  have "hd (sp_edges sample_spec) \<in> set (sp_edges sample_spec)"
    and targets: "edge_targets sample_spec (hd (sp_edges sample_spec)) = [(1, 0), (1, 1)]"
    by code_simp+
  with edge_drawn_once [OF sample_spec_valid(1)] show ?thesis by fastforce
qed

subsection \<open>A patch resizes no line inside a merged cell\<close>

lemma middle_of_append:
  assumes "before @ x # after = A @ B @ C" "x \<notin> set A" "x \<notin> set C"
  shows "x \<in> set B" "set A \<subseteq> set before" "set C \<subseteq> set after"
proof -
  show "x \<in> set B" using assms by (metis Un_iff in_set_conv_decomp set_append)
  show "set A \<subseteq> set before"
    using assms(1,2) by (auto simp: append_eq_append_conv2 Cons_eq_append_conv)
  show "set C \<subseteq> set after"
    using assms by (auto simp: append_eq_append_conv2 Cons_eq_append_conv append_eq_Cons_conv)
qed

lemma not_resize [simp]:
  "ResizeColumn c w \<notin> set (region_calls s r)" "ResizeColumn c w \<notin> set (edge_calls s e)"
  "ResizeColumn c w \<notin> set (text_calls s [Run x y] t)" "ResizeColumn c w \<notin> set (split_calls a)"
  "ResizeRow c w \<notin> set (region_calls s r)" "ResizeRow c w \<notin> set (edge_calls s e)"
  "ResizeRow c w \<notin> set (text_calls s [Run x y] t)" "ResizeRow c w \<notin> set (split_calls a)"
  by (auto simp: region_calls_def edge_calls_def draw_edge_def text_calls_def text_style_calls_def split_calls_def
      Let_def split: option.splits)

text \<open>The calls before and after those that resize.\<close>

definition calls_before :: "Spec \<Rightarrow> HostCall list" where
  "calls_before s =
     [CaptureExistingTable (sp_targetControlId s)] @
     concat (map split_calls (patch_merges s)) @
     (if patch_merges s \<noteq> [] then [CaptureExistingTable (sp_targetControlId s)] else []) @
     (if patch_columns s \<noteq> [] \<or> patch_rows s \<noteq> [] then [ExecuteParameter UnlockTableSizeCommand] else [])"

definition calls_after :: "Spec \<Rightarrow> HostCall list" where
  "calls_after s =
     map (\<lambda>a. MergeCells (am_merge a)) (patch_merges s) @
     concat (map (region_calls s) (sp_regions s)) @ concat (map (edge_calls s) (sp_edges s)) @
     concat (map (text_calls s [Run (L ''SelectAll'') (L ''reference text patch'')]) (sp_texts s)) @
     [VerifyPatchedTopology (s\<lparr>sp_patchColumns := patch_columns s, sp_patchRows := patch_rows s\<rparr>), LeaveTable False]"

definition resize_columns :: "Spec \<Rightarrow> HostCall list" where
  "resize_columns s = map (\<lambda>column. ResizeColumn column (sp_columnWidths s ! nat column)) (patch_columns s)"

definition resize_rows :: "Spec \<Rightarrow> HostCall list" where
  "resize_rows s = map (\<lambda>row. ResizeRow row (sp_rowHeights s ! nat row)) (patch_rows s)"

lemma patch_calls_parts:
  "patch_calls s = calls_before s @ resize_columns s @ resize_rows s @ calls_after s"
  by (simp add: patch_calls_def calls_before_def calls_after_def resize_columns_def resize_rows_def)

lemma resize_not_around:
  "ResizeColumn c w \<notin> set (calls_before s)" "ResizeColumn c w \<notin> set (calls_after s)"
  "ResizeRow c w \<notin> set (calls_before s)" "ResizeRow c w \<notin> set (calls_after s)"
  "ResizeColumn c w \<notin> set (resize_rows s)" "ResizeRow c w \<notin> set (resize_columns s)"
  by (auto simp: calls_before_def calls_after_def resize_rows_def resize_columns_def)

text \<open>A merged cell wider than one column that a resized column runs through is among the split
  ones, with the flag for its columns; the same for rows.\<close>

lemma affected_in_patch:
  assumes "m \<in> set (sp_merges s)"
  shows "1 < mg_columnSpan m \<Longrightarrow> c \<in> set (patch_columns s) \<Longrightarrow> mg_column m \<le> c \<Longrightarrow> c < merge_columnEnd m \<Longrightarrow>
      \<exists>a \<in> set (patch_merges s). am_merge a = m \<and> am_splitColumns a"
    and "1 < mg_rowSpan m \<Longrightarrow> c \<in> set (patch_rows s) \<Longrightarrow> mg_row m \<le> c \<Longrightarrow> c < merge_rowEnd m \<Longrightarrow>
      \<exists>a \<in> set (patch_merges s). am_merge a = m \<and> am_splitRows a"
  using assms
  by (auto simp: patch_merges_def AffectedMerges_def affected_merge_def IntersectsPatchedAxis_def span_start_def
      span_end_def intro!: exI [of _ "affected_merge (patch_columns s) (patch_rows s) m"])

lemma split_before_merge_after:
  assumes "a \<in> set (patch_merges s)"
  shows "ExecuteParameter (SplitMergedCellCommand (am_merge a) (am_splitColumns a) (am_splitRows a)) \<in> set (calls_before s)"
    and "MergeCells (am_merge a) \<in> set (calls_after s)"
  using assms by (auto simp: calls_before_def calls_after_def split_calls_def)

text \<open>Claim C21. The calls of \<open>ExecutePatch\<close> are those of \<open>patch_calls\<close>, on every word processor; and in an accepted
  patch every column that is resized exists and gets the width the layout names, above zero; each merged cell
  wider than one column that the column runs through has been split into columns before, and is merged again after.\<close>

theorem patch_resizes_columns:
  assumes "Validate s = Inr ()" "patch_calls s = before @ ResizeColumn c w # after"
  shows "ExecutePatch host s =
      and_then (run_calls host before) (and_then (host (ResizeColumn c w)) (run_calls host after)) \<and>
    0 \<le> c \<and> c < sp_columns s \<and> w = sp_columnWidths s ! nat c \<and> 0 < w \<and>
    (\<forall>m \<in> set (sp_merges s). 1 < mg_columnSpan m \<and> mg_column m \<le> c \<and> c < merge_columnEnd m \<longrightarrow>
       (\<exists>rows. ExecuteParameter (SplitMergedCellCommand m True rows) \<in> set before) \<and> MergeCells m \<in> set after)"
proof -
  have parts: "before @ ResizeColumn c w # after = calls_before s @ resize_columns s @ (resize_rows s @ calls_after s)"
    using assms(2) patch_calls_parts by simp
  have mid: "ResizeColumn c w \<in> set (resize_columns s)"
    and around: "set (calls_before s) \<subseteq> set before" "set (calls_after s) \<subseteq> set after"
    using middle_of_append [OF parts] resize_not_around by auto
  from mid have c: "c \<in> set (patch_columns s)" and w: "w = sp_columnWidths s ! nat c"
    by (auto simp: resize_columns_def)
  have "c \<in> {0..<sp_columns s}"
    using c patch_lines(1) [OF assms(1)] by blast
  with layout_sizes(1) [OF assms(1)] affected_in_patch(1) [OF _ _ c] split_before_merge_after around w
  have "0 \<le> c \<and> c < sp_columns s \<and> w = sp_columnWidths s ! nat c \<and> 0 < w \<and>
    (\<forall>m \<in> set (sp_merges s). 1 < mg_columnSpan m \<and> mg_column m \<le> c \<and> c < merge_columnEnd m \<longrightarrow>
       (\<exists>rows. ExecuteParameter (SplitMergedCellCommand m True rows) \<in> set before) \<and> MergeCells m \<in> set after)"
    by (fastforce simp: subset_iff)
  then show ?thesis
    unfolding ExecutePatch_calls assms(2) by simp
qed

theorem patch_resizes_columns_witness:
  "\<exists>rows before. ExecuteParameter (SplitMergedCellCommand (hd (sp_merges sample_patch)) True rows) \<in> set before \<and>
     (\<exists>w after. patch_calls sample_patch = before @ ResizeColumn 1 w # after)"
proof -
  have "ResizeColumn 1 20 \<in> set (patch_calls sample_patch)"
    unfolding patch_calls_parts resize_columns_def sample_patch_columns
    by (simp add: sample_patch_def sample_spec_def)
  then obtain before after where calls: "patch_calls sample_patch = before @ ResizeColumn 1 20 # after"
    by (meson in_set_conv_decomp)
  have "hd (sp_merges sample_patch) \<in> set (sp_merges sample_patch)" "1 < mg_columnSpan (hd (sp_merges sample_patch))"
    "mg_column (hd (sp_merges sample_patch)) \<le> 1" "1 < merge_columnEnd (hd (sp_merges sample_patch))"
    by code_simp+
  with patch_resizes_columns [OF sample_patch_valid calls] calls show ?thesis by blast
qed

text \<open>The same for rows: a resized row exists, gets the height the layout names, and no
  merged cell higher than one row is whole while a row inside it is resized.\<close>

lemma patch_resizes_rows:
  assumes "Validate s = Inr ()" "patch_calls s = before @ ResizeRow r h # after"
  shows "0 \<le> r \<and> r < sp_rows s \<and> h = sp_rowHeights s ! nat r \<and> 0 < h \<and>
    (\<forall>m \<in> set (sp_merges s). 1 < mg_rowSpan m \<and> mg_row m \<le> r \<and> r < merge_rowEnd m \<longrightarrow>
       (\<exists>columns. ExecuteParameter (SplitMergedCellCommand m columns True) \<in> set before) \<and> MergeCells m \<in> set after)"
proof -
  have parts: "before @ ResizeRow r h # after = (calls_before s @ resize_columns s) @ resize_rows s @ calls_after s"
    using assms(2) patch_calls_parts by simp
  have mid: "ResizeRow r h \<in> set (resize_rows s)"
    and around: "set (calls_before s) \<subseteq> set before" "set (calls_after s) \<subseteq> set after"
    using middle_of_append [OF parts] resize_not_around by auto
  from mid have r: "r \<in> set (patch_rows s)" and h: "h = sp_rowHeights s ! nat r"
    by (auto simp: resize_rows_def)
  have "r \<in> {0..<sp_rows s}"
    using r patch_lines(2) [OF assms(1)] by blast
  with layout_sizes(2) [OF assms(1)] affected_in_patch(2) [OF _ _ r] split_before_merge_after around h
  show ?thesis by (fastforce simp: subset_iff)
qed

end
