(* ===== verification/BridgeStatus.thy ===== *)
theory BridgeStatus
  imports Prelude "HOL-Library.Signed_Division"
begin

section \<open>The status block (BridgeStatus.cpp)\<close>

text \<open>
  The bridge publishes counters, the last action and the latest clicks on its slots in a block of
  memory that it shares with a worker process. The worker reads while the bridge writes, so every
  store is a step of its own here: a \<open>Note\<close> function is the list of its stores, and the block a
  reader sees is the one between two of them. A sequence number that is odd while a note is being
  written tells the reader to try again.

  The block exists only when the system could map it; without it every function returns at once
  (\<open>GetStatus\<close>). Clock readings are arguments. A write outside the ring of clicks would be
  undefined behaviour; it is the value \<open>None\<close>.
\<close>

subsection \<open>The block\<close>

definition kMagic :: u32 where "kMagic = 0x31534248"
definition kVersion :: u32 where "kVersion = 2"
definition kSlotCount :: LONG where "kSlotCount = 32"
definition kClickRingCapacity :: LONG where "kClickRingCapacity = 16"
definition kDefaultHeartbeatStaleMilliseconds :: u32 where "kDefaultHeartbeatStaleMilliseconds = 6000"
definition kMinimumHeartbeatStaleMilliseconds :: u32 where "kMinimumHeartbeatStaleMilliseconds = 1000"
definition kMaximumHeartbeatStaleMilliseconds :: u32 where "kMaximumHeartbeatStaleMilliseconds = 60000"

text \<open>\<open>sizeof(Snapshot)\<close>, as the source asserts it.\<close>

definition snapshot_size :: u32 where "snapshot_size = 384"

definition E_UNEXPECTED :: LONG where "E_UNEXPECTED = -2147418113"

record SlotClickRecord =
  sc_sequence :: LONG
  sc_slotIndex :: LONG
  sc_tick :: LONG

record Snapshot =
  ss_magic :: u32
  ss_version :: u32
  ss_size :: u32
  ss_processId :: u32
  ss_sequence :: LONG
  ss_queryCount :: LONG
  ss_enumCount :: LONG
  ss_updateUiCount :: LONG
  ss_doActionCount :: LONG
  ss_publishCount :: LONG
  ss_publishSuccessCount :: LONG
  ss_revokeCount :: LONG
  ss_lastResult :: LONG
  ss_rawCookie :: LONG
  ss_batchCookie :: LONG
  ss_lastAction :: string
  ss_slotCount :: LONG
  ss_slotClickCount :: LONG
  ss_lastSlotIndex :: LONG
  ss_lastSlotSequence :: LONG
  ss_heartbeatWorkerPid :: LONG
  ss_heartbeatTick :: LONG
  ss_heartbeatStaleAfterMs :: LONG
  ss_slotUiEnabled :: LONG
  ss_clickRingCapacity :: LONG
  ss_clickRing :: "SlotClickRecord list"

definition zero_click :: SlotClickRecord where
  "zero_click = \<lparr>sc_sequence = 0, sc_slotIndex = 0, sc_tick = 0\<rparr>"

definition InitializeStatus :: "u32 \<Rightarrow> Snapshot" where
  "InitializeStatus processId =
     \<lparr>ss_magic = kMagic, ss_version = kVersion, ss_size = snapshot_size, ss_processId = processId, ss_sequence = 0,
      ss_queryCount = 0, ss_enumCount = 0, ss_updateUiCount = 0, ss_doActionCount = 0, ss_publishCount = 0,
      ss_publishSuccessCount = 0, ss_revokeCount = 0, ss_lastResult = E_UNEXPECTED, ss_rawCookie = 0,
      ss_batchCookie = 0, ss_lastAction = replicate 64 (CHR 0x00), ss_slotCount = kSlotCount, ss_slotClickCount = 0,
      ss_lastSlotIndex = -1, ss_lastSlotSequence = 0, ss_heartbeatWorkerPid = 0, ss_heartbeatTick = 0,
      ss_heartbeatStaleAfterMs = 0, ss_slotUiEnabled = 0, ss_clickRingCapacity = kClickRingCapacity,
      ss_clickRing = replicate 16 zero_click\<rparr>"

subsection \<open>Stores\<close>

type_synonym store = "Snapshot \<Rightarrow> Snapshot"

definition increment :: "LONG \<Rightarrow> LONG" where
  "increment i = long_wrap (i + 1)"

definition BeginWrite :: store where
  "BeginWrite s = s\<lparr>ss_sequence := increment (ss_sequence s)\<rparr>"

definition EndWrite :: store where
  "EndWrite s = s\<lparr>ss_sequence := increment (ss_sequence s)\<rparr>"

definition locked :: "store list \<Rightarrow> store list" where
  "locked stores = [BeginWrite] @ stores @ [EndWrite]"

text \<open>\<open>strncpy_s\<close> with \<open>_TRUNCATE\<close> writes at most 63 characters and the null character after them.\<close>

definition put_char :: "nat \<Rightarrow> char \<Rightarrow> store" where
  "put_char i c s = s\<lparr>ss_lastAction := (ss_lastAction s)[i := c]\<rparr>"

definition SetLastAction :: "string option \<Rightarrow> store list" where
  "SetLastAction action =
    (case action of
       None \<Rightarrow> [put_char 0 (CHR 0x00)]
     | Some a \<Rightarrow> let n = min 63 (length a) in map (\<lambda>i. put_char i (a ! i)) [0..<n] @ [put_char n (CHR 0x00)])"

definition NoteQuery :: "store list" where
  "NoteQuery = [\<lambda>s. s\<lparr>ss_queryCount := increment (ss_queryCount s)\<rparr>]"

definition NoteEnum :: "string option \<Rightarrow> store list" where
  "NoteEnum action = locked ([\<lambda>s. s\<lparr>ss_enumCount := increment (ss_enumCount s)\<rparr>] @ SetLastAction action)"

definition NoteUpdateUi :: "string option \<Rightarrow> store list" where
  "NoteUpdateUi action = locked ([\<lambda>s. s\<lparr>ss_updateUiCount := increment (ss_updateUiCount s)\<rparr>] @ SetLastAction action)"

definition NoteDoAction :: "string option \<Rightarrow> store list" where
  "NoteDoAction action = locked ([\<lambda>s. s\<lparr>ss_doActionCount := increment (ss_doActionCount s)\<rparr>] @ SetLastAction action)"

definition NotePublish :: "LONG \<Rightarrow> u32 \<Rightarrow> u32 \<Rightarrow> store list" where
  "NotePublish result rawCookie batchCookie = locked
     ([\<lambda>s. s\<lparr>ss_publishCount := increment (ss_publishCount s)\<rparr>] @
      (if result \<ge> 0 then [\<lambda>s. s\<lparr>ss_publishSuccessCount := increment (ss_publishSuccessCount s)\<rparr>] else []) @
      [\<lambda>s. s\<lparr>ss_lastResult := result\<rparr>, \<lambda>s. s\<lparr>ss_rawCookie := sint rawCookie\<rparr>,
       \<lambda>s. s\<lparr>ss_batchCookie := sint batchCookie\<rparr>])"

definition NoteRevoke :: "LONG \<Rightarrow> store list" where
  "NoteRevoke result = locked
     [\<lambda>s. s\<lparr>ss_revokeCount := increment (ss_revokeCount s)\<rparr>, \<lambda>s. s\<lparr>ss_lastResult := result\<rparr>,
      \<lambda>s. s\<lparr>ss_rawCookie := 0\<rparr>, \<lambda>s. s\<lparr>ss_batchCookie := 0\<rparr>]"

text \<open>The index of a click in the ring: the remainder of C, which takes the sign of the dividend. The
  difference is a 32-bit one.\<close>

definition ring_index :: "LONG \<Rightarrow> LONG" where
  "ring_index sequence = long_wrap (sequence - 1) smod kClickRingCapacity"

definition put_click :: "nat \<Rightarrow> (SlotClickRecord \<Rightarrow> SlotClickRecord) \<Rightarrow> store" where
  "put_click i f s = s\<lparr>ss_clickRing := (ss_clickRing s)[i := f (ss_clickRing s ! i)]\<rparr>"

definition NoteSlotClick :: "LONG \<Rightarrow> u32 \<Rightarrow> Snapshot \<Rightarrow> store list option" where
  "NoteSlotClick slotIndex tick s =
    (if slotIndex < 0 \<or> slotIndex \<ge> kSlotCount then Some []
     else let sequence = increment (ss_slotClickCount s); i = ring_index sequence
       in if i < 0 then None
          else Some (locked
            [\<lambda>s. s\<lparr>ss_slotClickCount := increment (ss_slotClickCount s)\<rparr>, \<lambda>s. s\<lparr>ss_lastSlotIndex := slotIndex\<rparr>,
             \<lambda>s. s\<lparr>ss_lastSlotSequence := sequence\<rparr>, put_click (nat i) (sc_slotIndex_update (\<lambda>_. slotIndex)),
             put_click (nat i) (sc_tick_update (\<lambda>_. sint tick)),
             put_click (nat i) (sc_sequence_update (\<lambda>_. sequence))]))"

subsection \<open>The heartbeat\<close>

definition heartbeat_window :: "u32 \<Rightarrow> u32" where
  "heartbeat_window declared =
    (let window = (if declared = 0 then kDefaultHeartbeatStaleMilliseconds else declared);
         window = (if window < kMinimumHeartbeatStaleMilliseconds then kMinimumHeartbeatStaleMilliseconds else window)
     in if window > kMaximumHeartbeatStaleMilliseconds then kMaximumHeartbeatStaleMilliseconds else window)"

definition slots_enabled :: "u32 \<Rightarrow> Snapshot \<Rightarrow> bool" where
  "slots_enabled now s \<longleftrightarrow> ss_heartbeatWorkerPid s \<noteq> 0 \<and>
     now - word_of_int (ss_heartbeatTick s) \<le> heartbeat_window (word_of_int (ss_heartbeatStaleAfterMs s))"

definition note_enabled :: "bool \<Rightarrow> store" where
  "note_enabled b s = s\<lparr>ss_slotUiEnabled := (if b then 1 else 0)\<rparr>"

text \<open>\<open>GetStatus\<close>: without a block a note does nothing, and the slots are disabled.\<close>

definition SlotsEnabled :: "u32 \<Rightarrow> Snapshot option \<Rightarrow> bool \<times> Snapshot option" where
  "SlotsEnabled now status =
    (case status of
       None \<Rightarrow> (False, None)
     | Some s \<Rightarrow> (slots_enabled now s, Some (note_enabled (slots_enabled now s) s)))"

subsection \<open>Notes and the writer\<close>

datatype Note =
    Query
  | Enum "string option"
  | UpdateUi "string option"
  | DoAction "string option"
  | Publish LONG u32 u32
  | Revoke LONG
  | SlotClick LONG u32
  | AskEnabled u32

fun note_stores :: "Note \<Rightarrow> Snapshot \<Rightarrow> store list option" where
  "note_stores Query s = Some NoteQuery"
| "note_stores (Enum action) s = Some (NoteEnum action)"
| "note_stores (UpdateUi action) s = Some (NoteUpdateUi action)"
| "note_stores (DoAction action) s = Some (NoteDoAction action)"
| "note_stores (Publish result raw batch) s = Some (NotePublish result raw batch)"
| "note_stores (Revoke result) s = Some (NoteRevoke result)"
| "note_stores (SlotClick slotIndex tick) s = NoteSlotClick slotIndex tick s"
| "note_stores (AskEnabled now) s = Some [note_enabled (slots_enabled now s)]"

definition apply_stores :: "store list \<Rightarrow> Snapshot \<Rightarrow> Snapshot" where
  "apply_stores stores s = fold (\<lambda>f s. f s) stores s"

definition apply_note :: "Note \<Rightarrow> Snapshot \<Rightarrow> Snapshot option" where
  "apply_note note s = map_option (\<lambda>stores. apply_stores stores s) (note_stores note s)"

fun apply_notes :: "Note list \<Rightarrow> Snapshot \<Rightarrow> Snapshot option" where
  "apply_notes [] s = Some s"
| "apply_notes (n # ns) s = Option.bind (apply_note n s) (apply_notes ns)"

text \<open>
  The shared memory at work: the bridge, one note at a time and one store per step, and the worker
  process, which writes its heartbeat whenever it likes. A state is the block and the stores that
  the current note has still to make.
\<close>

type_synonym memory = "Snapshot \<times> store list"

inductive memory_step :: "memory \<Rightarrow> memory \<Rightarrow> bool" where
  note_starts: "note_stores n s = Some stores \<Longrightarrow> memory_step (s, []) (s, stores)"
| note_stores: "memory_step (s, f # stores) (f s, stores)"
| worker_beats:
    "memory_step (s, stores)
       (s\<lparr>ss_heartbeatWorkerPid := pid, ss_heartbeatTick := tick, ss_heartbeatStaleAfterMs := stale\<rparr>, stores)"

inductive_cases memory_stepE: "memory_step m m'"

inductive memory_reachable :: "memory \<Rightarrow> bool" where
  initial: "memory_reachable (InitializeStatus processId, [])"
| step: "memory_reachable m \<Longrightarrow> memory_step m m' \<Longrightarrow> memory_reachable m'"

subsection \<open>The ring of clicks\<close>

fun clicks :: "Note list \<Rightarrow> (LONG \<times> u32) list" where
  "clicks [] = []"
| "clicks (SlotClick slotIndex tick # ns) =
     (if slotIndex < 0 \<or> slotIndex \<ge> kSlotCount then clicks ns else (slotIndex, tick) # clicks ns)"
| "clicks (_ # ns) = clicks ns"

text \<open>The ring holds the last 16 of the given clicks, each at its place, with the number it was given.\<close>

definition ring_holds :: "(LONG \<times> u32) list \<Rightarrow> Snapshot \<Rightarrow> bool" where
  "ring_holds cs s \<longleftrightarrow> ss_slotClickCount s = int (length cs) \<and> length (ss_clickRing s) = 16 \<and>
     (cs \<noteq> [] \<longrightarrow> ss_lastSlotIndex s = fst (last cs) \<and> ss_lastSlotSequence s = int (length cs)) \<and>
     (\<forall>k < length cs. length cs \<le> k + 16 \<longrightarrow>
        ss_clickRing s ! (k mod 16) = \<lparr>sc_sequence = int k + 1, sc_slotIndex = fst (cs ! k), sc_tick = sint (snd (cs ! k))\<rparr>)"

lemma apply_stores_simps [simp]:
  "apply_stores [] s = s" "apply_stores (f # fs) s = apply_stores fs (f s)"
  "apply_stores (fs @ gs) s = apply_stores gs (apply_stores fs s)"
  by (simp_all add: apply_stores_def)

lemma apply_stores_locked: "apply_stores (locked fs) s = EndWrite (apply_stores fs (BeginWrite s))"
  by (simp add: locked_def)

text \<open>What the clicks depend on; every other note leaves it alone.\<close>

definition click_part :: "Snapshot \<Rightarrow> LONG \<times> LONG \<times> LONG \<times> SlotClickRecord list" where
  "click_part s = (ss_slotClickCount s, ss_lastSlotIndex s, ss_lastSlotSequence s, ss_clickRing s)"

lemma ring_holds_cong: "click_part s = click_part t \<Longrightarrow> ring_holds cs s = ring_holds cs t"
  by (simp add: click_part_def ring_holds_def)

lemma click_part_updates [simp]:
  "click_part (s\<lparr>ss_sequence := i\<rparr>) = click_part s" "click_part (s\<lparr>ss_queryCount := i\<rparr>) = click_part s"
  "click_part (s\<lparr>ss_enumCount := i\<rparr>) = click_part s" "click_part (s\<lparr>ss_updateUiCount := i\<rparr>) = click_part s"
  "click_part (s\<lparr>ss_doActionCount := i\<rparr>) = click_part s" "click_part (s\<lparr>ss_publishCount := i\<rparr>) = click_part s"
  "click_part (s\<lparr>ss_publishSuccessCount := i\<rparr>) = click_part s" "click_part (s\<lparr>ss_revokeCount := i\<rparr>) = click_part s"
  "click_part (s\<lparr>ss_lastResult := i\<rparr>) = click_part s" "click_part (s\<lparr>ss_rawCookie := i\<rparr>) = click_part s"
  "click_part (s\<lparr>ss_batchCookie := i\<rparr>) = click_part s" "click_part (s\<lparr>ss_lastAction := a\<rparr>) = click_part s"
  "click_part (s\<lparr>ss_slotUiEnabled := i\<rparr>) = click_part s"
  by (simp_all add: click_part_def)

lemmas note_defs = NoteQuery_def NoteEnum_def NoteUpdateUi_def NoteDoAction_def NotePublish_def NoteRevoke_def
  SetLastAction_def

lemmas store_defs = BeginWrite_def EndWrite_def put_char_def note_enabled_def

lemma click_part_store:
  assumes "note_stores n s = Some fs" "f \<in> set fs" "\<not> (\<exists>i tick. n = SlotClick i tick)"
  shows "click_part (f s') = click_part s'"
  using assms by (cases n) (auto simp: note_defs store_defs locked_def Let_def split: option.splits if_splits)

lemma click_part_stores:
  "(\<And>f s. f \<in> set fs \<Longrightarrow> click_part (f s) = click_part s) \<Longrightarrow> click_part (apply_stores fs s) = click_part s"
  by (induction fs arbitrary: s) simp_all

lemma click_part_other:
  assumes "\<not> (\<exists>i tick. n = SlotClick i tick)"
  shows "\<exists>t. apply_note n s = Some t \<and> click_part t = click_part s"
proof -
  have "\<exists>fs. note_stores n s = Some fs"
    using assms by (cases n) simp_all
  then obtain fs where fs: "note_stores n s = Some fs" by blast
  have "click_part (apply_stores fs s) = click_part s"
    by (rule click_part_stores) (rule click_part_store [OF fs _ assms])
  with fs show ?thesis by (simp add: apply_note_def)
qed

lemma mod_16_distinct:
  fixes k n :: nat
  assumes "k < n" "n < k + 16"
  shows "k mod 16 \<noteq> n mod 16"
proof
  assume "k mod 16 = n mod 16"
  then have "16 dvd n - k"
    using assms(1) by (metis less_imp_le_nat mod_eq_dvd_iff_nat)
  moreover have "0 < n - k" "n - k < 16"
    using assms by auto
  ultimately show False
    by (auto dest: nat_dvd_not_less)
qed

lemma full_click:
  "r\<lparr>sc_slotIndex := i, sc_tick := tick, sc_sequence := q\<rparr> = \<lparr>sc_sequence = q, sc_slotIndex = i, sc_tick = tick\<rparr>"
  by (cases r) simp

lemma apply_click:
  assumes "ring_holds cs s" "0 \<le> i" "i < kSlotCount" "length cs < 2147483647"
  shows "\<exists>t. apply_note (SlotClick i tick) s = Some t \<and> ring_holds (cs @ [(i, tick)]) t"
proof -
  let ?n = "length cs"
  have count: "ss_slotClickCount s = int ?n" "length (ss_clickRing s) = 16"
    using assms(1) by (simp_all add: ring_holds_def)
  have seq: "increment (int ?n) = int ?n + 1"
    using assms(4) by (simp add: increment_def long_range_def)
  have "int ?n smod 16 = int (?n mod 16)"
    by (simp add: smod_mod_positive zmod_int)
  then have index: "ring_index (int ?n + 1) = int (?n mod 16)"
    using assms(4) by (simp add: ring_index_def kClickRingCapacity_def long_range_def)
  let ?click = "\<lparr>sc_sequence = int ?n + 1, sc_slotIndex = i, sc_tick = sint tick\<rparr>"
  obtain t where t: "apply_note (SlotClick i tick) s = Some t"
    "ss_slotClickCount t = int ?n + 1" "ss_lastSlotIndex t = i" "ss_lastSlotSequence t = int ?n + 1"
    "ss_clickRing t = (ss_clickRing s)[?n mod 16 := ?click]"
    using assms(2,3) count
    by (simp add: apply_note_def NoteSlotClick_def seq index Let_def apply_stores_locked put_click_def BeginWrite_def
        EndWrite_def full_click)
  have "ss_clickRing t ! (k mod 16) = \<lparr>sc_sequence = int k + 1, sc_slotIndex = fst ((cs @ [(i, tick)]) ! k),
      sc_tick = sint (snd ((cs @ [(i, tick)]) ! k))\<rparr>" if k: "k < ?n + 1" "?n + 1 \<le> k + 16" for k
  proof (cases "k = ?n")
    case True
    then show ?thesis using t(5) count by simp
  next
    case False
    then have "k < ?n" using k by simp
    then have "k mod 16 \<noteq> ?n mod 16"
      using k(2) by (intro mod_16_distinct) auto
    then show ?thesis
      using t(5) assms(1) k \<open>k < ?n\<close> by (simp add: ring_holds_def nth_append)
  qed
  with t count show ?thesis
    by (simp add: ring_holds_def)
qed

lemma clicks_length_Cons: "length (clicks ns) \<le> length (clicks (n # ns))"
  by (cases n) simp_all

lemma apply_notes_ring:
  "ring_holds cs s \<Longrightarrow> length cs + length (clicks ns) \<le> 2147483647 \<Longrightarrow>
     \<exists>t. apply_notes ns s = Some t \<and> ring_holds (cs @ clicks ns) t"
proof (induction ns arbitrary: cs s)
  case (Cons n ns)
  show ?case
  proof (cases "\<exists>i tick. n = SlotClick i tick \<and> 0 \<le> i \<and> i < kSlotCount")
    case True
    then obtain i tick where n: "n = SlotClick i tick" "0 \<le> i" "i < kSlotCount" by blast
    then have cs: "clicks (n # ns) = (i, tick) # clicks ns" by simp
    obtain t where t: "apply_note n s = Some t" "ring_holds (cs @ [(i, tick)]) t"
      using apply_click [OF Cons.prems(1) n(2,3)] Cons.prems(2) n(1) cs by auto
    have "length (cs @ [(i, tick)]) + length (clicks ns) \<le> 2147483647"
      using Cons.prems(2) cs by simp
    from Cons.IH [OF t(2) this] t(1) cs show ?thesis by simp
  next
    case False
    then have same: "clicks (n # ns) = clicks ns" by (cases n) auto
    have "\<exists>t. apply_note n s = Some t \<and> click_part t = click_part s"
    proof (cases "\<exists>i tick. n = SlotClick i tick")
      case True
      with False show ?thesis by (auto simp: apply_note_def NoteSlotClick_def)
    qed (rule click_part_other)
    then obtain t where t: "apply_note n s = Some t" "ring_holds cs t"
      using Cons.prems(1) ring_holds_cong by metis
    from Cons.IH [OF t(2)] Cons.prems(2) t(1) same show ?thesis by simp
  qed
qed simp

text \<open>Claim C24. Whatever notes the bridge takes, up to \<open>LONG_MAX\<close> clicks, no write leaves the ring, and the
  ring holds the last 16 clicks on slots that exist, each with its number, its slot and its tick.\<close>

theorem ring_holds_last_clicks:
  assumes "length (clicks ns) \<le> 2147483647"
  shows "\<exists>s. apply_notes ns (InitializeStatus processId) = Some s \<and> ring_holds (clicks ns) s"
  using apply_notes_ring [of "[]" "InitializeStatus processId" ns] assms
  by (simp add: ring_holds_def InitializeStatus_def)

theorem ring_holds_last_clicks_witness:
  "\<exists>s. apply_notes [SlotClick 3 7, Query, SlotClick 40 8, SlotClick 5 9] (InitializeStatus 1) = Some s \<and>
     ring_holds [(3, 7), (5, 9)] s"
  using ring_holds_last_clicks [of "[SlotClick 3 7, Query, SlotClick 40 8, SlotClick 5 9]" 1]
  by (simp add: kSlotCount_def)

text \<open>Two clicks past \<open>LONG_MAX\<close> the counter is negative and so is the index.\<close>

lemma click_leaves_ring:
  "ss_slotClickCount s = -2147483647 \<Longrightarrow> apply_note (SlotClick 0 tick) s = None"
  by (simp add: apply_note_def NoteSlotClick_def kSlotCount_def increment_def ring_index_def kClickRingCapacity_def
      long_range_def)

subsection \<open>Reading while the bridge writes\<close>

text \<open>
  The part of the block that the sequence number guards: all of it but the count of queries, the
  last answer on the slots and what the worker writes itself.
\<close>

definition published where
  "published (s :: Snapshot) =
     ((ss_magic s, ss_version s, ss_size s, ss_processId s, ss_sequence s),
      (ss_enumCount s, ss_updateUiCount s, ss_doActionCount s, ss_publishCount s, ss_publishSuccessCount s, ss_revokeCount s),
      (ss_lastResult s, ss_rawCookie s, ss_batchCookie s, ss_lastAction s),
      (ss_slotCount s, ss_slotClickCount s, ss_lastSlotIndex s, ss_lastSlotSequence s, ss_clickRingCapacity s, ss_clickRing s))"

definition keeps_sequence :: "store \<Rightarrow> bool" where
  "keeps_sequence f \<longleftrightarrow> (\<forall>s. ss_sequence (f s) = ss_sequence s)"

definition invisible :: "store \<Rightarrow> bool" where
  "invisible f \<longleftrightarrow> (\<forall>s. published (f s) = published s)"

definition uniform :: "store \<Rightarrow> bool" where
  "uniform f \<longleftrightarrow> (\<forall>s t. published s = published t \<longrightarrow> published (f s) = published (f t))"

lemma published_sequence: "published s = published t \<Longrightarrow> ss_sequence s = ss_sequence t"
  by (simp add: published_def)

lemma uniformD: "uniform f \<Longrightarrow> published s = published t \<Longrightarrow> published (f s) = published (f t)"
  unfolding uniform_def by blast

lemma uniform_apply:
  "\<forall>f \<in> set fs. uniform f \<Longrightarrow> published s = published t \<Longrightarrow> published (apply_stores fs s) = published (apply_stores fs t)"
proof (induction fs arbitrary: s t)
  case (Cons f fs)
  have "published (f s) = published (f t)"
    by (rule uniformD [OF _ Cons.prems(2)]) (use Cons.prems(1) in simp)
  from Cons.IH [OF _ this] Cons.prems(1) show ?case by simp
qed simp

lemma invisible_apply:
  "\<forall>f \<in> set fs. invisible f \<Longrightarrow> published (apply_stores fs s) = published s"
  by (induction fs arbitrary: s) (simp_all add: invisible_def)

lemma invisible_uniform: "invisible f \<Longrightarrow> uniform f"
  by (simp add: invisible_def uniform_def)

lemma uniform_ends [simp]: "uniform BeginWrite" "uniform EndWrite"
  by (simp_all add: uniform_def published_def BeginWrite_def EndWrite_def)

text \<open>What a note writes: either nothing that is guarded, or a locked list of stores that leave the
  sequence alone.\<close>

definition body_ok :: "store list \<Rightarrow> bool" where
  "body_ok fs \<longleftrightarrow> (\<forall>f \<in> set fs. keeps_sequence f \<and> uniform f)"

lemma body_ok_simps [simp]: "body_ok []" "body_ok (f # fs) \<longleftrightarrow> keeps_sequence f \<and> uniform f \<and> body_ok fs"
  "body_ok (fs @ gs) \<longleftrightarrow> body_ok fs \<and> body_ok gs"
  by (auto simp: body_ok_def)

lemma body_ok_SetLastAction: "body_ok (SetLastAction action)"
  by (auto simp: body_ok_def SetLastAction_def put_char_def keeps_sequence_def uniform_def published_def Let_def
      split: option.splits)

lemma note_stores_kind:
  assumes "note_stores n s = Some fs"
  obtains (unguarded) "\<forall>f \<in> set fs. invisible f"
    | (guarded) b where "fs = locked b" "body_ok b" "\<And>t. published s = published t \<Longrightarrow> note_stores n t = Some fs"
proof (cases n)
  case Query
  with assms show ?thesis
    by (intro unguarded) (auto simp: NoteQuery_def invisible_def published_def)
next
  case (AskEnabled now)
  with assms show ?thesis
    by (intro unguarded) (auto simp: note_enabled_def invisible_def published_def)
next
  case (Enum action)
  with assms show ?thesis
    by (intro guarded) (auto simp: NoteEnum_def body_ok_SetLastAction keeps_sequence_def uniform_def published_def)
next
  case (UpdateUi action)
  with assms show ?thesis
    by (intro guarded) (auto simp: NoteUpdateUi_def body_ok_SetLastAction keeps_sequence_def uniform_def published_def)
next
  case (DoAction action)
  with assms show ?thesis
    by (intro guarded) (auto simp: NoteDoAction_def body_ok_SetLastAction keeps_sequence_def uniform_def published_def)
next
  case (Publish result raw batch)
  with assms show ?thesis
    by (intro guarded) (auto simp: NotePublish_def keeps_sequence_def uniform_def published_def)
next
  case (Revoke result)
  with assms show ?thesis
    by (intro guarded) (auto simp: NoteRevoke_def keeps_sequence_def uniform_def published_def)
next
  case (SlotClick i tick)
  show ?thesis
  proof (cases "i < 0 \<or> i \<ge> kSlotCount")
    case True
    with assms SlotClick show ?thesis by (intro unguarded) (simp add: NoteSlotClick_def)
  next
    case False
    have same: "note_stores n t = note_stores n s" if "published s = published t" for t
      using that SlotClick by (simp add: NoteSlotClick_def published_def)
    have "\<exists>b. fs = locked b \<and> body_ok b"
      using assms SlotClick False
      by (auto simp: NoteSlotClick_def Let_def keeps_sequence_def uniform_def published_def put_click_def split: if_split_asm)
    with assms same show ?thesis by (metis guarded)
  qed
qed

text \<open>The sequence is even outside a note and inside an unguarded one, odd while a guarded note writes.\<close>

fun phase_ok :: "memory \<Rightarrow> bool" where
  "phase_ok (s, p) \<longleftrightarrow> long_range (ss_sequence s) \<and>
     (if even (ss_sequence s) then (\<forall>f \<in> set p. invisible f) \<or> (\<exists>b. p = locked b \<and> body_ok b)
      else \<exists>b. p = b @ [EndWrite] \<and> body_ok b)"

text \<open>The block is that of a list of notes when the sequence is even, and the stores still to make
  complete the block of another list.\<close>

definition atomic :: "Snapshot \<Rightarrow> store list \<Rightarrow> bool" where
  "atomic s p \<longleftrightarrow> (\<exists>pid ns t ns' t'. apply_notes ns (InitializeStatus pid) = Some t \<and>
     (even (ss_sequence s) \<longrightarrow> published s = published t) \<and>
     apply_notes ns' (InitializeStatus pid) = Some t' \<and> published (apply_stores p s) = published t')"

lemma increment_parity [simp]: "even (increment i) \<longleftrightarrow> odd i"
proof -
  have "even ((i + 1 + 2147483648) mod 4294967296) \<longleftrightarrow> even (i + 1 + 2147483648)"
    by (rule dvd_mod_iff) simp
  then show ?thesis by (simp add: increment_def long_wrap_def)
qed

lemma increment_range [simp]: "long_range (increment i)"
  by (simp add: increment_def)

lemma bind_apply_nothing [simp]: "Option.bind x (apply_notes []) = x"
  by (cases x) simp_all

lemma apply_notes_snoc: "apply_notes ns s = Some t \<Longrightarrow> apply_notes (ns @ [n]) s = apply_note n t"
  by (induction ns arbitrary: s) (auto simp: bind_eq_Some_conv)

lemma step_phase:
  assumes "memory_step (s, p) (s', p')" "phase_ok (s, p)"
  shows "phase_ok (s', p')"
    and "even (ss_sequence s) \<and> published s' = published s \<or> ss_sequence s' = increment (ss_sequence s) \<or>
      odd (ss_sequence s) \<and> ss_sequence s' = ss_sequence s"
proof -
  have "phase_ok (s', p') \<and> (even (ss_sequence s) \<and> published s' = published s \<or>
      ss_sequence s' = increment (ss_sequence s) \<or> odd (ss_sequence s) \<and> ss_sequence s' = ss_sequence s)"
    using assms(1)
  proof cases
    case (note_starts n)
    have "even (ss_sequence s)"
      using assms(2) note_starts by (auto split: if_splits)
    moreover have "(\<forall>f \<in> set p'. invisible f) \<or> (\<exists>b. p' = locked b \<and> body_ok b)"
      using note_stores_kind [OF note_starts(3)] by metis
    ultimately show ?thesis using note_starts assms(2) by simp
  next
    case (note_stores f)
    show ?thesis
    proof (cases "even (ss_sequence s)")
      case True
      with assms(2) consider "\<forall>g \<in> set p. invisible g" | b where "p = locked b" "body_ok b" by auto
      then show ?thesis
      proof cases
        case 1
        then have "published s' = published s" using note_stores by (simp add: invisible_def)
        moreover have "\<forall>g \<in> set p'. invisible g" using 1 note_stores by simp
        ultimately show ?thesis
          using True assms(2) published_sequence [of s' s] by simp
      next
        case 2
        then have "f = BeginWrite" "p' = b @ [EndWrite]" using note_stores by (simp_all add: locked_def)
        with 2 True note_stores have "ss_sequence s' = increment (ss_sequence s)" "p' = b @ [EndWrite] \<and> body_ok b"
          by (simp_all add: BeginWrite_def)
        with True show ?thesis by auto
      qed
    next
      case False
      with assms(2) obtain b where b: "p = b @ [EndWrite]" "body_ok b" by auto
      show ?thesis
      proof (cases b)
        case Nil
        then have "ss_sequence s' = increment (ss_sequence s)" "p' = []"
          using b note_stores by (simp_all add: EndWrite_def)
        with False show ?thesis by simp
      next
        case (Cons g b')
        then have "ss_sequence s' = ss_sequence s" "p' = b' @ [EndWrite] \<and> body_ok b'"
          using b note_stores by (simp_all add: keeps_sequence_def)
        with False assms(2) show ?thesis by auto
      qed
    qed
  next
    case (worker_beats pid tick stale)
    then have "published s' = published s" by (simp add: published_def)
    with assms(2) worker_beats published_sequence [of s' s] show ?thesis by auto
  qed
  then show "phase_ok (s', p')"
    and "even (ss_sequence s) \<and> published s' = published s \<or> ss_sequence s' = increment (ss_sequence s) \<or>
      odd (ss_sequence s) \<and> ss_sequence s' = ss_sequence s" by blast+
qed

lemma reachable_phase: "memory_reachable m \<Longrightarrow> phase_ok m"
proof (induction rule: memory_reachable.induct)
  case (step m m')
  then show ?case using step_phase(1) by (metis surj_pair)
qed (simp add: InitializeStatus_def)

lemma phase_uniform: "phase_ok (s, p) \<Longrightarrow> \<forall>f \<in> set p. uniform f"
  by (auto simp: body_ok_def locked_def invisible_uniform split: if_split_asm)

lemma step_atomic:
  assumes "memory_step (s, p) (s', p')" "phase_ok (s, p)" "atomic s p"
  shows "atomic s' p'"
proof -
  obtain pid ns t ns' t' where
      t: "apply_notes ns (InitializeStatus pid) = Some t" "even (ss_sequence s) \<longrightarrow> published s = published t" and
      t': "apply_notes ns' (InitializeStatus pid) = Some t'" "published (apply_stores p s) = published t'"
    using assms(3) unfolding atomic_def by metis
  have witness: "atomic s' p'" if "apply_notes ms (InitializeStatus pid) = Some u"
    "even (ss_sequence s') \<longrightarrow> published s' = published u" "apply_notes ms' (InitializeStatus pid) = Some u'"
    "published (apply_stores p' s') = published u'" for ms u ms' u'
    using that unfolding atomic_def by metis
  show ?thesis
    using assms(1)
  proof cases
    case (note_starts n)
    have even: "even (ss_sequence s)"
      using assms(2) note_starts by (auto split: if_splits)
    then have st: "published s = published t" using t(2) by simp
    from note_starts(3) show ?thesis
    proof (cases rule: note_stores_kind)
      case unguarded
      then have "published (apply_stores p' s') = published t"
        using note_starts st invisible_apply by metis
      with t(1) st note_starts show ?thesis by (intro witness) auto
    next
      case (guarded b)
      then have "apply_note n t = Some (apply_stores p' t)"
        using note_starts st by (simp add: apply_note_def)
      then have more: "apply_notes (ns @ [n]) (InitializeStatus pid) = Some (apply_stores p' t)"
        using apply_notes_snoc [OF t(1)] by simp
      have "published (apply_stores p' s') = published (apply_stores p' t)"
      proof (rule uniform_apply)
        show "\<forall>f \<in> set p'. uniform f"
          using guarded(1,2) by (auto simp: locked_def body_ok_def)
        show "published s' = published t" using st note_starts by simp
      qed
      then show ?thesis
        using witness [OF t(1) _ more] st note_starts by simp
    qed
  next
    case (note_stores f)
    have done': "published (apply_stores p' s') = published t'"
      using t'(2) note_stores by simp
    show ?thesis
    proof (cases "even (ss_sequence s')")
      case False
      then show ?thesis using witness [OF t(1) _ t'(1) done'] by simp
    next
      case True
      show ?thesis
      proof (cases "even (ss_sequence s)")
        case even: True
        then have "published s' = published s"
          using step_phase(2) [OF assms(1,2)] True by auto
        with t even show ?thesis
          using witness [OF t(1) _ t'(1) done'] by simp
      next
        case False
        with assms(2) obtain b where b: "p = b @ [EndWrite]" "body_ok b" by auto
        have "b = []"
          using b note_stores True False by (cases b) (auto simp: keeps_sequence_def)
        then have "p' = []" using b note_stores by simp
        with done' show ?thesis
          using witness [OF t'(1) _ t'(1) done'] by simp
      qed
    qed
  next
    case (worker_beats pid' tick stale)
    have same: "published s' = published s" using worker_beats by (simp add: published_def)
    have "published (apply_stores p' s') = published (apply_stores p s)"
      using uniform_apply [OF phase_uniform [OF assms(2)] same] worker_beats by simp
    with same t t' published_sequence [OF same] show ?thesis
      by (intro witness [OF t(1) _ t'(1)]) simp_all
  qed
qed

lemma reachable_atomic: "memory_reachable m \<Longrightarrow> atomic (fst m) (snd m)"
proof (induction rule: memory_reachable.induct)
  case (initial pid)
  have "apply_notes [] (InitializeStatus pid) = Some (InitializeStatus pid)" by simp
  then show ?case unfolding atomic_def fst_conv snd_conv apply_stores_simps by blast
next
  case (step m m')
  then show ?case using step_atomic reachable_phase by (metis prod.collapse)
qed

text \<open>How far the sequence can move in a number of steps.\<close>

lemma increment_wrap: "increment (long_wrap i) = long_wrap (i + 1)"
  by (simp add: increment_def long_wrap_def mod_simps algebra_simps)

lemma path_sequence:
  assumes "(memory_step ^^ n) m m'" "phase_ok m"
  shows "phase_ok m' \<and> (\<exists>k. k \<le> n \<and> ss_sequence (fst m') = long_wrap (ss_sequence (fst m) + int k) \<and>
    (k = 0 \<and> even (ss_sequence (fst m)) \<longrightarrow> published (fst m') = published (fst m)))"
  using assms(1)
proof (induction n arbitrary: m')
  case 0
  then show ?case using assms(2) by (cases m) auto
next
  case (Suc n)
  then obtain m1 where path: "(memory_step ^^ n) m m1" and last: "memory_step m1 m'" by auto
  obtain k where IH: "phase_ok m1" "k \<le> n" "ss_sequence (fst m1) = long_wrap (ss_sequence (fst m) + int k)"
      "k = 0 \<and> even (ss_sequence (fst m)) \<longrightarrow> published (fst m1) = published (fst m)"
    using Suc.IH [OF path] by blast
  obtain s p s' p' where eqs: "m1 = (s, p)" "m' = (s', p')" by (cases m1; cases m') simp
  note step = step_phase [OF last [unfolded eqs] IH(1) [unfolded eqs]]
  from step(2) consider "published s' = published s" | "ss_sequence s' = increment (ss_sequence s)"
    | "odd (ss_sequence s)" "ss_sequence s' = ss_sequence s" by blast
  then show ?case
  proof cases
    case 1
    with IH eqs step(1) published_sequence [OF 1] show ?thesis
      by (intro conjI exI [of _ k]) (auto simp del: phase_ok.simps)
  next
    case 2
    with IH eqs step(1) increment_wrap [of "ss_sequence (fst m) + int k"] show ?thesis
      by (intro conjI exI [of _ "Suc k"]) (auto simp: algebra_simps simp del: phase_ok.simps)
  next
    case 3
    have "\<not> (k = 0 \<and> even (ss_sequence (fst m)))"
    proof
      assume "k = 0 \<and> even (ss_sequence (fst m))"
      then have "even (ss_sequence (fst m1))"
        using IH(4) published_sequence by metis
      with 3(1) eqs show False by simp
    qed
    with 3 IH eqs step(1) show ?thesis
      by (intro conjI exI [of _ k]) (auto simp del: phase_ok.simps)
  qed
qed

text \<open>Claim C25. A reader that finds the sequence even, reads the guarded part in any way, piece by piece,
  and then finds the same sequence, within fewer than 2^32 stores of the writer, has read the block
  as it is after a whole number of notes.\<close>

theorem consistent_read:
  assumes "memory_reachable before" "even (ss_sequence (fst before))"
    and "(memory_step ^^ a) before now" "(memory_step ^^ b) now after"
    and "ss_sequence (fst after) = ss_sequence (fst before)" "a + b < 4294967296"
  shows "\<exists>processId notes s. apply_notes notes (InitializeStatus processId) = Some s \<and>
    published (fst now) = published s \<and> published (fst before) = published s"
proof -
  let ?q = "ss_sequence (fst before)"
  have phase: "phase_ok before" by (rule reachable_phase [OF assms(1)])
  then have q: "long_range ?q" by (cases before) simp
  obtain j where j: "phase_ok now" "j \<le> a" "ss_sequence (fst now) = long_wrap (?q + int j)"
      "j = 0 \<and> even ?q \<longrightarrow> published (fst now) = published (fst before)"
    using path_sequence [OF assms(3) phase] by blast
  obtain k where k: "k \<le> b" "?q = long_wrap (long_wrap (?q + int j) + int k)"
    using path_sequence [OF assms(4) j(1)] assms(5) j(3) by metis
  then have "?q = long_wrap (?q + int (j + k))"
    by (simp add: long_wrap_def mod_simps algebra_simps)
  then have "(?q + 2147483648) mod 4294967296 = (?q + 2147483648 + int (j + k)) mod 4294967296"
    using q by (simp add: long_wrap_def long_range_def algebra_simps)
  then have "(4294967296 :: int) dvd int (j + k)"
    by (metis add_diff_cancel_left' mod_eq_dvd_iff)
  then have "4294967296 dvd j + k"
    by (metis of_nat_dvd_iff of_nat_numeral)
  moreover have "j + k < 4294967296"
    using j(2) k(1) assms(6) by simp
  ultimately have "j = 0"
    using nat_dvd_not_less by fastforce
  with j(4) assms(2) have same: "published (fst now) = published (fst before)" by simp
  have "\<exists>processId notes s. apply_notes notes (InitializeStatus processId) = Some s \<and> published (fst before) = published s"
    using reachable_atomic [OF assms(1)] assms(2) unfolding atomic_def by blast
  with same show ?thesis by metis
qed

lemma steps_stores: "(memory_step ^^ length p) (s, p) (apply_stores p s, [])"
proof (induction p arbitrary: s)
  case (Cons f p)
  have "memory_step (s, f # p) (f s, p)" by (rule memory_step.note_stores)
  with Cons.IH [of "f s"] show ?case
    by (auto simp: relpowp_Suc_left simp del: relpowp.simps(2))
qed simp

lemma reachable_steps: "(memory_step ^^ n) m m' \<Longrightarrow> memory_reachable m \<Longrightarrow> memory_reachable m'"
  by (induction n arbitrary: m') (auto intro: memory_reachable.step)

lemma reachable_notes:
  "apply_notes ns s = Some t \<Longrightarrow> memory_reachable (s, []) \<Longrightarrow> memory_reachable (t, [])"
proof (induction ns arbitrary: s)
  case (Cons n ns)
  then obtain p where p: "note_stores n s = Some p" "apply_notes ns (apply_stores p s) = Some t"
    by (auto simp: apply_note_def bind_eq_Some_conv)
  have "memory_reachable (apply_stores p s, [])"
    using memory_reachable.step [OF Cons.prems(2) memory_step.note_starts [OF p(1)]] reachable_steps [OF steps_stores]
    by blast
  from Cons.IH [OF p(2) this] show ?case .
qed simp

definition sample_block :: Snapshot where
  "sample_block = the (apply_notes [DoAction (Some ''x''), SlotClick 3 7] (InitializeStatus 1))"

lemma sample_block_reachable: "memory_reachable (sample_block, [])" "even (ss_sequence sample_block)"
proof -
  have "\<not> Option.is_none (apply_notes [DoAction (Some ''x''), SlotClick 3 7] (InitializeStatus 1))"
    by code_simp
  then have "apply_notes [DoAction (Some ''x''), SlotClick 3 7] (InitializeStatus 1) = Some sample_block"
    unfolding sample_block_def Option.is_none_def by (metis option.collapse)
  then show "memory_reachable (sample_block, [])"
    by (rule reachable_notes) (rule memory_reachable.initial)
  show "even (ss_sequence sample_block)" by code_simp
qed

theorem consistent_read_witness:
  "\<exists>processId notes s. apply_notes notes (InitializeStatus processId) = Some s \<and>
    published (sample_block\<lparr>ss_heartbeatWorkerPid := 5, ss_heartbeatTick := 6, ss_heartbeatStaleAfterMs := 0\<rparr>) = published s \<and>
    published sample_block = published s"
proof -
  let ?beat = "sample_block\<lparr>ss_heartbeatWorkerPid := 5, ss_heartbeatTick := 6, ss_heartbeatStaleAfterMs := 0\<rparr>"
  have "(memory_step ^^ 1) (sample_block, []) (?beat, [])" "(memory_step ^^ 0) (?beat, []) (?beat, [])"
    by (simp_all add: memory_step.worker_beats relcompp_apply)
  from consistent_read [OF sample_block_reachable(1) _ this] sample_block_reachable(2) show ?thesis by simp
qed

lemma note_stores_length: "note_stores n s = Some p \<Longrightarrow> length p \<le> 67"
  by (cases n) (auto simp: note_defs NoteSlotClick_def locked_def Let_def split: option.splits if_split_asm)

lemma reachable_length: "memory_reachable m \<Longrightarrow> length (snd m) \<le> 67"
proof (induction rule: memory_reachable.induct)
  case (step m m')
  from step.hyps(2) step.IH show ?case
    by (cases rule: memory_step.cases) (auto dest: note_stores_length)
qed simp

text \<open>Claim C26. The bridge never leaves a note half written: from every reachable block, the stores it has
  still to make, at most 67, lead to a reachable block without any, whose sequence is even.\<close>

theorem writer_settles:
  assumes "memory_reachable (s, p)"
  shows "length p \<le> 67 \<and> (memory_step ^^ length p) (s, p) (apply_stores p s, []) \<and>
    memory_reachable (apply_stores p s, []) \<and> even (ss_sequence (apply_stores p s))"
proof -
  have "memory_reachable (apply_stores p s, [])"
    by (rule reachable_steps [OF steps_stores assms])
  then show ?thesis
    using reachable_phase [OF \<open>memory_reachable (apply_stores p s, [])\<close>] reachable_length [OF assms] steps_stores
    by (auto split: if_split_asm)
qed

theorem writer_settles_witness:
  "even (ss_sequence (apply_stores (NoteRevoke 0) (InitializeStatus 1)))"
proof -
  have "memory_reachable (InitializeStatus 1, NoteRevoke 0)"
    by (rule memory_reachable.step [OF memory_reachable.initial [of 1]])
      (simp add: memory_step.note_starts [where n = "Revoke 0"])
  from writer_settles [OF this] show ?thesis by blast
qed

subsection \<open>The heartbeat across the rollover of the clock\<close>

text \<open>Claim C27. The slots are enabled exactly while a worker has announced itself and its last beat is no
  older than the window it declared, within 1 and 60 seconds, 6 seconds when it declared none; also
  when the 32-bit clock has rolled over in between.\<close>

theorem slots_enabled_window:
  assumes "word_of_int (ss_heartbeatTick s) = (word_of_nat beat :: u32)" "elapsed < 4294967296"
  shows "fst (SlotsEnabled (word_of_nat (beat + elapsed)) (Some s)) \<longleftrightarrow>
    ss_heartbeatWorkerPid s \<noteq> 0 \<and>
    elapsed \<le> (let declared = unat (word_of_int (ss_heartbeatStaleAfterMs s) :: u32)
                in min 60000 (max 1000 (if declared = 0 then 6000 else declared)))"
proof -
  let ?declared = "word_of_int (ss_heartbeatStaleAfterMs s) :: u32"
  have "word_of_nat (beat + elapsed) - word_of_int (ss_heartbeatTick s) = (word_of_nat elapsed :: u32)"
    using assms(1) by simp
  moreover have "unat (word_of_nat elapsed :: u32) = elapsed"
    using assms(2) by (simp add: unat_of_nat take_bit_nat_eq_self)
  moreover have "unat (heartbeat_window ?declared) =
      min 60000 (max 1000 (if unat ?declared = 0 then 6000 else unat ?declared))"
    by (auto simp: heartbeat_window_def Let_def kDefaultHeartbeatStaleMilliseconds_def word_less_nat_alt
        kMinimumHeartbeatStaleMilliseconds_def kMaximumHeartbeatStaleMilliseconds_def unat_eq_zero)
  ultimately show ?thesis
    by (simp add: SlotsEnabled_def slots_enabled_def word_le_nat_alt Let_def)
qed

theorem slots_enabled_window_witness:
  "fst (SlotsEnabled (word_of_nat (4294967290 + 5000))
     (Some ((InitializeStatus 1)\<lparr>ss_heartbeatWorkerPid := 9, ss_heartbeatTick := -6\<rparr>)))"
  by (subst slots_enabled_window) (simp_all add: InitializeStatus_def Let_def)

end
