(* ===== verification/TextPatchReadback.thy ===== *)
theory TextPatchReadback
  imports Prelude "HOL-Library.Sublist"
begin

section \<open>Reading a patched text back (TextPatchReadback.cpp, ParagraphText.h)\<close>

text \<open>
  After a text is selected or replaced, the executor reads it back and compares it with what it
  expected: as a whole, up to the form of line ends, or as the only occurrence in a single
  paragraph. \<open>towlower\<close> is that of the "C" locale. An offset is a natural number; the sums of the
  source stay far below the largest \<open>size_t\<close>, because the length of a wide string in bytes does.
\<close>

datatype ReadbackPolicy = Exact | Find

definition CR :: wchar where "CR = 13"
definition LF :: wchar where "LF = 10"

fun NormalizeParagraphText :: "wstring \<Rightarrow> wstring" where
  "NormalizeParagraphText [] = []"
| "NormalizeParagraphText [c] = (if c = CR then [LF] else [c])"
| "NormalizeParagraphText (c # d # cs) =
     (if c = CR then LF # NormalizeParagraphText (if d = LF then cs else d # cs)
      else c # NormalizeParagraphText (d # cs))"

definition SameParagraphText :: "wstring \<Rightarrow> wstring \<Rightarrow> bool" where
  "SameParagraphText left right \<longleftrightarrow> NormalizeParagraphText left = NormalizeParagraphText right"

definition MatchesAt :: "wstring \<Rightarrow> wstring \<Rightarrow> nat \<Rightarrow> bool \<Rightarrow> bool" where
  "MatchesAt actual expected offset matchCase \<longleftrightarrow>
     \<not> (offset > length actual \<or> length expected > length actual - offset) \<and>
     (\<forall>i \<in> set [0..<length expected].
        \<not> (matchCase \<and> actual ! (offset + i) \<noteq> expected ! i \<or>
           \<not> matchCase \<and> towlower (actual ! (offset + i)) \<noteq> towlower (expected ! i)))"

definition MatchesExactExpected :: "wstring \<Rightarrow> wstring \<Rightarrow> bool \<Rightarrow> bool" where
  "MatchesExactExpected readback expected matchCase \<longleftrightarrow>
     length (NormalizeParagraphText readback) = length (NormalizeParagraphText expected) \<and>
     MatchesAt (NormalizeParagraphText readback) (NormalizeParagraphText expected) 0 matchCase"

text \<open>The loop over the offsets: the second match ends it.\<close>

fun count_matches :: "wstring \<Rightarrow> wstring \<Rightarrow> bool \<Rightarrow> nat \<Rightarrow> nat list \<Rightarrow> bool" where
  "count_matches readback literal matchCase found [] = (found = 1)"
| "count_matches readback literal matchCase found (offset # offsets) =
     (if MatchesAt readback literal offset matchCase
      then if found + 1 > 1 then False else count_matches readback literal matchCase (found + 1) offsets
      else count_matches readback literal matchCase found offsets)"

definition has_line_end :: "wstring \<Rightarrow> bool" where
  "has_line_end s \<longleftrightarrow> (\<exists>c \<in> set s. c = CR \<or> c = LF)"

definition MatchesUniqueSingleParagraphLiteral :: "wstring \<Rightarrow> wstring \<Rightarrow> bool \<Rightarrow> bool" where
  "MatchesUniqueSingleParagraphLiteral readback literal matchCase \<longleftrightarrow>
     \<not> (literal = [] \<or> has_line_end readback \<or> has_line_end literal) \<and>
     count_matches readback literal matchCase 0 [0..<length readback + 1 - length literal]"

definition WithoutAutomaticNumber :: "wstring \<Rightarrow> wstring \<Rightarrow> wstring" where
  "WithoutAutomaticNumber readback automaticNumber =
    (if automaticNumber = [] then []
     else let lead = automaticNumber @ [32]
       in if length readback \<le> length lead \<or> take (length lead) readback \<noteq> lead then []
          else drop (length lead) readback)"

definition MatchesExpectedReadback :: "wstring \<Rightarrow> wstring \<Rightarrow> bool \<Rightarrow> ReadbackPolicy \<Rightarrow> bool" where
  "MatchesExpectedReadback readback expected matchCase policy \<longleftrightarrow>
     MatchesExactExpected readback expected matchCase \<or>
     policy = Find \<and> MatchesUniqueSingleParagraphLiteral readback expected matchCase"

definition MatchesReplacementReadback :: "wstring \<Rightarrow> wstring \<Rightarrow> ReadbackPolicy \<Rightarrow> bool" where
  "MatchesReplacementReadback readback replacement policy \<longleftrightarrow>
     SameParagraphText readback replacement \<or>
     policy = Find \<and> MatchesUniqueSingleParagraphLiteral readback replacement True"

definition MatchesNumberedExpectedReadback :: "wstring \<Rightarrow> wstring \<Rightarrow> wstring \<Rightarrow> bool \<Rightarrow> ReadbackPolicy \<Rightarrow> bool" where
  "MatchesNumberedExpectedReadback readback expected automaticNumber matchCase policy \<longleftrightarrow>
    (let body = WithoutAutomaticNumber readback automaticNumber
     in body \<noteq> [] \<and> MatchesExpectedReadback body expected matchCase policy)"

definition MatchesNumberedReplacementReadback :: "wstring \<Rightarrow> wstring \<Rightarrow> wstring \<Rightarrow> ReadbackPolicy \<Rightarrow> bool" where
  "MatchesNumberedReplacementReadback readback replacement automaticNumber policy \<longleftrightarrow>
    (let body = WithoutAutomaticNumber readback automaticNumber
     in body \<noteq> [] \<and> MatchesReplacementReadback body replacement policy)"

subsection \<open>What a match means\<close>

text \<open>Two texts agree up to line ends and, when the case does not count, up to case.\<close>

definition fold_case :: "bool \<Rightarrow> wstring \<Rightarrow> wstring" where
  "fold_case matchCase s = (if matchCase then s else map towlower s)"

text \<open>The occurrences of a text in another: the ways to write it as a middle part.\<close>

definition occurrences :: "bool \<Rightarrow> wstring \<Rightarrow> wstring \<Rightarrow> (wstring \<times> wstring \<times> wstring) set" where
  "occurrences matchCase literal readback =
     {(before, found, after). before @ found @ after = readback \<and> fold_case matchCase found = fold_case matchCase literal}"

lemma length_fold_case [simp]: "length (fold_case matchCase s) = length s"
  by (simp add: fold_case_def)

lemma fold_case_eq_iff:
  "fold_case matchCase s = fold_case matchCase t \<longleftrightarrow>
     length s = length t \<and> (\<forall>i < length t. if matchCase then s ! i = t ! i else towlower (s ! i) = towlower (t ! i))"
  by (auto simp: fold_case_def list_eq_iff_nth_eq)

lemma MatchesAt_iff:
  "MatchesAt actual expected offset matchCase \<longleftrightarrow> offset + length expected \<le> length actual \<and>
     fold_case matchCase (take (length expected) (drop offset actual)) = fold_case matchCase expected"
  by (auto simp: MatchesAt_def fold_case_eq_iff)

lemma MatchesExactExpected_iff:
  "MatchesExactExpected readback expected matchCase \<longleftrightarrow>
     fold_case matchCase (NormalizeParagraphText readback) = fold_case matchCase (NormalizeParagraphText expected)"
proof (cases "length (NormalizeParagraphText readback) = length (NormalizeParagraphText expected)")
  case True
  then show ?thesis by (simp add: MatchesExactExpected_def MatchesAt_iff flip: True)
next
  case False
  then show ?thesis by (metis MatchesExactExpected_def length_fold_case)
qed

lemma count_matches_iff:
  "found \<le> 1 \<Longrightarrow> count_matches readback literal matchCase found offsets \<longleftrightarrow>
     found + length (filter (\<lambda>offset. MatchesAt readback literal offset matchCase) offsets) = 1"
  by (induction readback literal matchCase found offsets rule: count_matches.induct) auto

lemma occurrences_offsets:
  assumes "literal \<noteq> []"
  shows "bij_betw (\<lambda>offset. (take offset readback, take (length literal) (drop offset readback), drop (offset + length literal) readback))
    {offset. MatchesAt readback literal offset matchCase} (occurrences matchCase literal readback)"
    (is "bij_betw ?f ?A _")
proof (rule bij_betw_imageI)
  show "inj_on ?f ?A"
  proof (rule inj_onI)
    fix m n assume "m \<in> ?A" "n \<in> ?A" "?f m = ?f n"
    then have "length (take m readback) = length (take n readback)" "m \<le> length readback" "n \<le> length readback"
      by (simp_all add: MatchesAt_iff)
    then show "m = n" by simp
  qed
  show "?f ` ?A = occurrences matchCase literal readback"
  proof (intro equalityI subsetI)
    fix x assume "x \<in> ?f ` ?A"
    then show "x \<in> occurrences matchCase literal readback"
      by (auto simp: occurrences_def MatchesAt_iff) (metis add.commute append_take_drop_id drop_drop)
  next
    fix x assume "x \<in> occurrences matchCase literal readback"
    then obtain before found after where x: "x = (before, found, after)" "before @ found @ after = readback"
        "fold_case matchCase found = fold_case matchCase literal"
      by (auto simp: occurrences_def)
    then have "length found = length literal" by (metis length_fold_case)
    with x have "x = ?f (length before)" "length before \<in> ?A"
      by (auto simp: MatchesAt_iff simp flip: x(2))
    then show "x \<in> ?f ` ?A" by blast
  qed
qed

lemma card_1_iff_ex1: "card A = 1 \<longleftrightarrow> (\<exists>!x. x \<in> A)"
  unfolding One_nat_def card_1_singleton_iff by blast

text \<open>A readback is accepted exactly when it agrees with the expected text up to line ends
  (and case, where case does not count), or, for a find, when both are free of line ends and the
  expected text occurs in it exactly once, overlapping occurrences counted.\<close>

lemma MatchesExpectedReadback_iff:
  "MatchesExpectedReadback readback expected matchCase policy \<longleftrightarrow>
     fold_case matchCase (NormalizeParagraphText readback) = fold_case matchCase (NormalizeParagraphText expected) \<or>
     policy = Find \<and> expected \<noteq> [] \<and> set (readback @ expected) \<inter> {CR, LF} = {} \<and>
     (\<exists>!occurrence. occurrence \<in> occurrences matchCase expected readback)"
proof -
  have unique: "count_matches readback expected matchCase 0 [0..<length readback + 1 - length expected] \<longleftrightarrow>
      (\<exists>!occurrence. occurrence \<in> occurrences matchCase expected readback)" if "expected \<noteq> []"
  proof -
    let ?hits = "filter (\<lambda>offset. MatchesAt readback expected offset matchCase) [0..<length readback + 1 - length expected]"
    have "set ?hits = {offset. MatchesAt readback expected offset matchCase}"
      by (auto simp: MatchesAt_iff)
    then have "card (occurrences matchCase expected readback) = length ?hits"
      using bij_betw_same_card [OF occurrences_offsets [OF that, of readback matchCase]] distinct_card [of ?hits] by simp
    then have "length ?hits = 1 \<longleftrightarrow> (\<exists>!x. x \<in> occurrences matchCase expected readback)"
      using card_1_iff_ex1 [of "occurrences matchCase expected readback"] by simp
    then show ?thesis
      using count_matches_iff [of 0 readback expected matchCase "[0..<length readback + 1 - length expected]"] by simp
  qed
  then show ?thesis
    unfolding MatchesExpectedReadback_def MatchesExactExpected_iff MatchesUniqueSingleParagraphLiteral_def has_line_end_def
    by auto
qed

text \<open>A numbered paragraph: the number and one space are removed, and nothing else is.\<close>

lemma WithoutAutomaticNumber_iff:
  "body \<noteq> [] \<Longrightarrow> WithoutAutomaticNumber readback number = body \<longleftrightarrow> number \<noteq> [] \<and> readback = number @ [32] @ body"
proof
  assume "body \<noteq> []" and body: "WithoutAutomaticNumber readback number = body"
  then have "number \<noteq> []" "take (length (number @ [32])) readback = number @ [32]"
      "body = drop (length (number @ [32])) readback"
    by (auto simp: WithoutAutomaticNumber_def Let_def split: if_split_asm)
  then show "number \<noteq> [] \<and> readback = number @ [32] @ body"
    using append_take_drop_id [of "length (number @ [32])" readback] by simp
qed (auto simp: WithoutAutomaticNumber_def Let_def)

text \<open>Normalising twice is normalising once, and a normalised text has no carriage return.\<close>

lemma NormalizeParagraphText_no_CR: "CR \<notin> set (NormalizeParagraphText s)"
  by (induction s rule: NormalizeParagraphText.induct) (auto simp: CR_def LF_def)

lemma NormalizeParagraphText_id: "CR \<notin> set s \<Longrightarrow> NormalizeParagraphText s = s"
  by (induction s rule: NormalizeParagraphText.induct) auto

lemma NormalizeParagraphText_idem: "NormalizeParagraphText (NormalizeParagraphText s) = NormalizeParagraphText s"
  by (rule NormalizeParagraphText_id [OF NormalizeParagraphText_no_CR])

end
