(* ===== verification/FieldCodec.thy ===== *)
theory FieldCodec
  imports GraphVersion GraphSchema
begin

section \<open>Scalars, observations and fields on the wire (DocumentGraphCodec.cpp, DocumentGraphProtocol.cpp)\<close>

text \<open>
  Records and messages are lists of fields; a field is a 24-byte header and a canonical value. A
  \<open>ByteView\<close> is the list of its bytes, and advancing a pointer drops bytes from the front; the
  output parameters of the encoders are their results. Sizes are taken as \<open>uint64_t\<close>, as in the
  source; a vector is shorter than \<open>2 ^ 64\<close> bytes, which the decoders' theorems state where they
  need it.
\<close>

type_synonym bytes = "u8 list"

subsection \<open>Integers\<close>

definition bytes32 :: "u32 \<Rightarrow> bytes" where
  "bytes32 v = map (\<lambda>i. ucast (drop_bit (8 * i) v)) [0..<4]"

definition Get32 :: "bytes \<Rightarrow> u32" where
  "Get32 b = fold (\<lambda>index v. v OR push_bit (index * 8) (ucast (b ! index))) [0..<4] 0"

definition size64 :: "'a list \<Rightarrow> u64" where
  "size64 xs = word_of_nat (length xs)"

subsection \<open>Scalar tags\<close>

definition scalar_tags :: "ScalarTag list" where
  "scalar_tags = [ST_Sint64, ST_Uint64, ST_Bool, ST_Float64, ST_UTF16, ST_HWPUNIT64, ST_BGR, ST_Enum, ST_BlobSlice,
     ST_UUID128, ST_SHA256, ST_Struct, ST_RawURC32, ST_Bytes, ST_Uint8, ST_Uint16, ST_Uint32, ST_Sint32]"

fun index_of :: "'a \<Rightarrow> 'a list \<Rightarrow> nat" where
  "index_of x [] = 0"
| "index_of x (y # ys) = (if x = y then 0 else Suc (index_of x ys))"

definition scalar_raw :: "ScalarTag \<Rightarrow> u16" where
  "scalar_raw t = word_of_nat (index_of t scalar_tags)"

definition scalar_of :: "u16 \<Rightarrow> ScalarTag" where
  "scalar_of raw = scalar_tags ! unat raw"

subsection \<open>Values\<close>

datatype CodecError =
    CE_None | CE_Truncated | CE_LengthOverflow | CE_BadRecordVersion | CE_BadFlags | CE_DuplicateField
  | CE_OutOfOrderField | CE_UnknownRequiredField | CE_ReservedNonzero | CE_BadScalar | CE_NonFiniteFloat
  | CE_BadObservation | CE_BadArray | CE_RecordIdMismatch | CE_MissingRequiredField | CE_BadNestedStruct
  | CE_BadRecordOrder | CE_IllegalStreamState | CE_IllegalLayoutState

definition Frame :: "bytes \<Rightarrow> bytes" where
  "Frame v = bytes64 (size64 v) @ v"

definition Utf16 :: "u16 list \<Rightarrow> bytes" where
  "Utf16 units = bytes64 (size64 units) @ concat (map bytes16 units)"

definition BytesValue :: "bytes \<Rightarrow> bytes" where
  "BytesValue v = bytes64 (size64 v) @ v"

definition Sint64 :: "64 word \<Rightarrow> bytes" where
  "Sint64 v = bytes64 v"

definition BoolValue :: "bool \<Rightarrow> bytes" where
  "BoolValue b = [if b then 1 else 0]"

text \<open>A double is its 64 bits: exponent all ones is not finite, and \<open>v == 0.0\<close> holds for both zeros.\<close>

definition float_finite :: "u64 \<Rightarrow> bool" where
  "float_finite bits \<longleftrightarrow> drop_bit 52 bits AND 0x7ff \<noteq> 0x7ff"

definition float_zero :: "u64 \<Rightarrow> bool" where
  "float_zero bits \<longleftrightarrow> bits = 0 \<or> bits = push_bit 63 1"

definition Float64 :: "u64 \<Rightarrow> CodecError + bytes" where
  "Float64 bits =
    (if \<not> float_finite bits then Inl CE_NonFiniteFloat
     else Inr (bytes64 (if float_zero bits then 0 else bits)))"

text \<open>\<open>None\<close> is a null pointer to the symbol.\<close>

definition EnumValue :: "64 word \<Rightarrow> u16 list option \<Rightarrow> bytes" where
  "EnumValue raw symbol =
     Sint64 raw @ [if symbol = None then 0 else 1] @ replicate 7 0 @
     (case symbol of None \<Rightarrow> [] | Some units \<Rightarrow> Utf16 units)"

definition BlobSliceValue :: "bytes \<Rightarrow> u64 \<Rightarrow> u64 \<Rightarrow> Sha256 \<Rightarrow> bytes" where
  "BlobSliceValue contentId off len digest = contentId @ bytes64 off @ bytes64 len @ digest"

definition ArrayValue :: "ScalarTag \<Rightarrow> u16 \<Rightarrow> bytes list \<Rightarrow> bytes" where
  "ArrayValue t flags elements =
     bytes16 (scalar_raw t) @ bytes16 flags @ bytes32 0 @ bytes64 (size64 elements) @ concat (map Frame elements)"

text \<open>An observation: the state, a flag for the value, the result code, a detail text and the value.\<close>

definition Observation :: "u8 \<Rightarrow> u32 \<Rightarrow> u16 list \<Rightarrow> bytes \<Rightarrow> CodecError + bytes" where
  "Observation state hresult detail v =
    (let p = (state = 0)
     in if state > 6 \<or> p \<and> hresult \<noteq> 0 \<or> \<not> p \<and> v \<noteq> [] then Inl CE_BadObservation
        else Inr ([state, if p then 1 else 0] @ bytes16 0 @ bytes32 hresult @ bytes64 (size64 detail) @
                  bytes64 (if p then size64 v else 0) @ concat (map bytes16 detail) @ (if p then v else [])))"

subsection \<open>Canonical values\<close>

text \<open>A counted value: a length in units of \<open>width\<close> bytes and nothing after it.\<close>

definition counted_ok :: "nat \<Rightarrow> bytes \<Rightarrow> bool" where
  "counted_ok width v \<longleftrightarrow> \<not> length v < 8 \<and>
     (let n = unat (Get64 v) in \<not> (n > (2 ^ 64 - 1) div width \<or> n * width \<noteq> length v - 8))"

definition fixed_scalar :: "ScalarTag \<Rightarrow> bytes \<Rightarrow> CodecError" where
  "fixed_scalar t v =
    (if length v \<noteq> FixedScalarBytes t then CE_BadScalar
     else if t = ST_Bool \<and> v ! 0 > 1 then CE_BadScalar
     else if t = ST_Float64 then
       (if \<not> float_finite (Get64 v) then CE_NonFiniteFloat
        else if float_zero (Get64 v) \<and> Get64 v \<noteq> 0 then CE_BadScalar else CE_None)
     else CE_None)"

definition ValidateCanonicalScalar :: "ScalarTag \<Rightarrow> bytes \<Rightarrow> CodecError" where
  "ValidateCanonicalScalar t v =
    (if FixedScalarBytes t \<noteq> 0 then fixed_scalar t v
     else if t = ST_UTF16 \<or> t = ST_Bytes then
       (if counted_ok (if t = ST_UTF16 then 2 else 1) v then CE_None else CE_BadScalar)
     else if t = ST_Enum then
       (if length v < 16 \<or> v ! 8 > 1 then CE_BadScalar
        else if \<exists>i \<in> set [9..<16]. v ! i \<noteq> 0 then CE_ReservedNonzero
        else if v ! 8 = 0 then (if length v = 16 then CE_None else CE_BadScalar)
        else if counted_ok 2 (drop 16 v) then CE_None else CE_BadScalar)
     else if t = ST_BlobSlice then (if length v = 64 then CE_None else CE_BadScalar)
     else if t = ST_Struct then CE_None
     else CE_BadScalar)"

text \<open>The sums of the observation's sizes cannot wrap: each is compared with the size before it is
  formed (\<open>Fits\<close>).\<close>

definition Fits :: "nat \<Rightarrow> nat \<Rightarrow> nat \<Rightarrow> bool" where
  "Fits p n z \<longleftrightarrow> p \<le> z \<and> n \<le> z - p"

definition ValidateObservation :: "bytes \<Rightarrow> ScalarTag \<Rightarrow> CodecError" where
  "ValidateObservation v scalar =
    (if length v < 24 then CE_BadObservation
     else if v ! 0 > 6 \<or> v ! 1 > 1 \<or> Get16 (drop 2 v) \<noteq> 0 then CE_BadObservation
     else let detail = unat (Get64 (drop 8 v)); val = unat (Get64 (drop 16 v))
       in if detail > (2 ^ 64 - 1) div 2 \<or> \<not> Fits 24 (detail * 2) (length v) \<or>
            \<not> Fits (24 + detail * 2) val (length v) \<or> 24 + detail * 2 + val \<noteq> length v then CE_BadObservation
          else if v ! 0 = 0 then
            (if v ! 1 \<noteq> 1 \<or> Get32 (drop 4 v) \<noteq> 0 then CE_BadObservation
             else ValidateCanonicalScalar scalar (take val (drop (24 + detail * 2) v)))
          else if v ! 1 = 0 \<and> val = 0 then CE_None else CE_BadObservation)"

subsection \<open>Arrays\<close>

text \<open>The elements of an array; the rest of the value is the argument.\<close>

fun check_elements :: "ScalarTag \<Rightarrow> nat \<Rightarrow> bytes \<Rightarrow> CodecError" where
  "check_elements t 0 v = (if v = [] then CE_None else CE_BadArray)"
| "check_elements t (Suc count) v =
    (if length v < 8 then CE_BadArray
     else let n = unat (Get64 v); v = drop 8 v
       in if n > length v then CE_BadArray
          else let e = ValidateCanonicalScalar t (take n v)
            in if e \<noteq> CE_None then e else check_elements t count (drop n v))"

definition CheckArrayView :: "ScalarTag \<Rightarrow> u64 \<Rightarrow> bytes \<Rightarrow> CodecError" where
  "CheckArrayView t elementCount v =
    (if length v < 16 then CE_BadArray
     else if Get16 v > 17 \<or> Get16 v \<noteq> scalar_raw t \<or> Get16 (drop 2 v) \<noteq> 0 \<or> Get32 (drop 4 v) \<noteq> 0 \<or>
       Get64 (drop 8 v) \<noteq> elementCount then CE_BadArray
     else check_elements t (unat elementCount) (drop 16 v))"

definition ValidateFieldView :: "u16 \<Rightarrow> ScalarTag \<Rightarrow> u64 \<Rightarrow> bytes \<Rightarrow> CodecError" where
  "ValidateFieldView flags t elementCount v =
    (if flags AND 2 \<noteq> 0 then CheckArrayView t elementCount v
     else if elementCount \<noteq> 1 then CE_BadArray
     else let scalarError = ValidateCanonicalScalar t v
       in if scalarError = CE_None then CE_None
          else if length v \<ge> 24 \<and> ValidateObservation v t = CE_None then CE_None
          else scalarError)"

subsection \<open>Fields and logical records\<close>

record Field =
  fl_tag :: FieldTag
  fl_flags :: u16
  fl_scalar :: ScalarTag
  fl_elementCount :: u64
  fl_value :: bytes

definition field_bytes :: "Field \<Rightarrow> bytes" where
  "field_bytes f = bytes16 (fl_tag f) @ bytes16 (fl_flags f) @ bytes16 (scalar_raw (fl_scalar f)) @ bytes16 0 @
     bytes64 (fl_elementCount f) @ bytes64 (size64 (fl_value f)) @ fl_value f"

definition ValidateFieldBytes :: "Field \<Rightarrow> CodecError" where
  "ValidateFieldBytes f = ValidateFieldView (fl_flags f) (fl_scalar f) (fl_elementCount f) (fl_value f)"

text \<open>The encoders append to their output: they return what they append.\<close>

definition Codec_EncodeField :: "Field \<Rightarrow> CodecError + bytes" where
  "Codec_EncodeField f =
    (if fl_tag f = 0 \<or> fl_flags f AND NOT 3 \<noteq> 0 then Inl CE_BadFlags
     else if fl_elementCount f \<noteq> 1 \<and> fl_flags f AND 2 = 0 then Inl CE_BadArray
     else if ValidateFieldBytes f \<noteq> CE_None then Inl (ValidateFieldBytes f)
     else Inr (field_bytes f))"

record LogicalRecord =
  lr_kind :: u16
  lr_flags :: u16
  lr_id :: u64
  lr_fields :: "Field list"

fun encode_fields :: "FieldTag option \<Rightarrow> Field list \<Rightarrow> CodecError + bytes" where
  "encode_fields prior [] = Inr []"
| "encode_fields prior (f # fs) =
    (if prior = Some (fl_tag f) then Inl CE_DuplicateField
     else if (case prior of Some t \<Rightarrow> fl_tag f < t | None \<Rightarrow> False) then Inl CE_OutOfOrderField
     else bindE (Codec_EncodeField f) (\<lambda>b. bindE (encode_fields (Some (fl_tag f)) fs) (\<lambda>bs. Inr (b @ bs))))"

definition EncodeLogicalRecord :: "LogicalRecord \<Rightarrow> CodecError + bytes" where
  "EncodeLogicalRecord r =
    (if lr_flags r AND NOT 1 \<noteq> 0 \<or> length (lr_fields r) > 65535 then Inl CE_BadFlags
     else bindE (encode_fields None (lr_fields r)) (\<lambda>p.
       Inr (bytes16 (lr_kind r) @ bytes16 1 @ bytes16 (lr_flags r) @ bytes16 (word_of_nat (length (lr_fields r))) @
            bytes64 (lr_id r) @ bytes64 (size64 p) @ p)))"

text \<open>The loop over the fields of a record: the number of fields still to come, the tag of the last
  one, and the bytes after it.\<close>

fun validate_fields :: "FieldTag list \<Rightarrow> nat \<Rightarrow> FieldTag option \<Rightarrow> bytes \<Rightarrow> CodecError" where
  "validate_fields known 0 prior b = (if b = [] then CE_None else CE_Truncated)"
| "validate_fields known (Suc count) prior b =
    (if length b < 24 then CE_Truncated
     else let t = Get16 b; flags = Get16 (drop 2 b); raw = Get16 (drop 4 b)
       in if t = 0 then CE_BadFlags
          else if Get16 (drop 6 b) \<noteq> 0 then CE_ReservedNonzero
          else if flags AND NOT 3 \<noteq> 0 then CE_BadFlags
          else if prior = Some t then CE_DuplicateField
          else if (case prior of Some t' \<Rightarrow> t < t' | None \<Rightarrow> False) then CE_OutOfOrderField
          else if t \<notin> set known \<and> flags AND 1 \<noteq> 0 then CE_UnknownRequiredField
          else if raw > 17 then CE_BadScalar
          else let n = unat (Get64 (drop 16 b)); elementCount = Get64 (drop 8 b); b = drop 24 b
            in if n > length b then CE_Truncated
               else if flags AND 2 = 0 \<and> elementCount \<noteq> 1 then CE_BadArray
               else let e = ValidateFieldView flags (scalar_of raw) elementCount (take n b)
                 in if e \<noteq> CE_None then e else validate_fields known count (Some t) (drop n b))"

definition ValidateLogicalRecord :: "bytes \<Rightarrow> FieldTag list \<Rightarrow> u64 \<Rightarrow> bool \<Rightarrow> CodecError" where
  "ValidateLogicalRecord b known expectedId exact =
    (if length b < 24 then CE_Truncated
     else if Get16 b > 8 then CE_BadFlags
     else if Get16 (drop 2 b) \<noteq> 1 then CE_BadRecordVersion
     else if Get16 (drop 4 b) \<noteq> 1 then CE_BadFlags
     else if exact \<and> Get64 (drop 8 b) \<noteq> expectedId then CE_RecordIdMismatch
     else if unat (Get64 (drop 16 b)) \<noteq> length b - 24 then CE_Truncated
     else validate_fields known (unat (Get16 (drop 6 b))) None (drop 24 b))"

subsection \<open>Fields of messages (DocumentGraphProtocol.cpp)\<close>

fun protocol_elements :: "ScalarTag \<Rightarrow> nat \<Rightarrow> bytes \<Rightarrow> bool" where
  "protocol_elements t 0 v = (v = [])"
| "protocol_elements t (Suc count) v =
    (if length v < 8 then False
     else let n = unat (Get64 v); v = drop 8 v
       in if n > length v \<or> ValidateCanonicalScalar t (take n v) \<noteq> CE_None then False
          else protocol_elements t count (drop n v))"

definition ValidateFieldValue :: "u16 \<Rightarrow> ScalarTag \<Rightarrow> u64 \<Rightarrow> bytes \<Rightarrow> bool" where
  "ValidateFieldValue flags t elementCount v \<longleftrightarrow>
    (if flags AND 2 = 0
     then elementCount = 1 \<and> (ValidateCanonicalScalar t v = CE_None \<or> ValidateObservation v t = CE_None)
     else if length v < 16 \<or> Get16 v \<noteq> scalar_raw t \<or> Get16 (drop 2 v) \<noteq> 0 \<or> Get32 (drop 4 v) \<noteq> 0 \<or>
       Get64 (drop 8 v) \<noteq> elementCount then False
     else protocol_elements t (unat elementCount) (drop 16 v))"

definition EncodeCanonicalFieldHeaderV1 :: "FieldTag \<Rightarrow> u16 \<Rightarrow> ScalarTag \<Rightarrow> u64 \<Rightarrow> u64 \<Rightarrow> bytes option" where
  "EncodeCanonicalFieldHeaderV1 tag flags t elementCount valueBytes =
    (if tag = 0 \<or> flags AND NOT 3 \<noteq> 0 \<or> flags AND 2 = 0 \<and> elementCount \<noteq> 1 then None
     else Some (bytes16 tag @ bytes16 flags @ bytes16 (scalar_raw t) @ bytes16 0 @ bytes64 elementCount @
                bytes64 valueBytes))"

definition EncodeField :: "FieldTag \<Rightarrow> u16 \<Rightarrow> ScalarTag \<Rightarrow> bytes \<Rightarrow> u64 \<Rightarrow> bytes" where
  "EncodeField tag flags t v elementCount =
    (if \<not> ValidateFieldValue flags t elementCount v then []
     else case EncodeCanonicalFieldHeaderV1 tag flags t elementCount (size64 v) of
         None \<Rightarrow> []
       | Some header \<Rightarrow> header @ v)"

text \<open>\<open>ParseFields\<close>: \<open>None\<close> is the answer false with \<open>BadField\<close>.\<close>

function parse_fields :: "FieldTag option \<Rightarrow> bytes \<Rightarrow> Field list option" where
  "parse_fields prior b =
    (if b = [] then Some []
     else if length b < 24 then None
     else let tag = Get16 b; flags = Get16 (drop 2 b); scalar = Get16 (drop 4 b);
              count = Get64 (drop 8 b); n = unat (Get64 (drop 16 b)); rest = drop 24 b
       in if tag = 0 \<or> flags AND NOT 3 \<noteq> 0 \<or> Get16 (drop 6 b) \<noteq> 0 \<or> scalar > 17 \<or>
            (case prior of Some t \<Rightarrow> tag \<le> t | None \<Rightarrow> False) \<or> flags AND 2 = 0 \<and> count \<noteq> 1 then None
          else if n > length rest \<or> \<not> ValidateFieldValue flags (scalar_of scalar) count (take n rest) then None
          else map_option
            (\<lambda>fs. \<lparr>fl_tag = tag, fl_flags = flags, fl_scalar = scalar_of scalar, fl_elementCount = count,
                   fl_value = take n rest\<rparr> # fs) (parse_fields (Some tag) (drop n rest)))"
  by pat_completeness auto
termination by (relation "measure (\<lambda>(prior, b). length b)") auto

declare parse_fields.simps [simp del]

definition ParseFields :: "bytes \<Rightarrow> Field list option" where
  "ParseFields payload = parse_fields None payload"

definition Find_field :: "Field list \<Rightarrow> FieldTag \<Rightarrow> Field option" where
  "Find_field fs tag = List.find (\<lambda>f. fl_tag f = tag) fs"

subsection \<open>Integers and tags read back\<close>

lemma length_bytes32 [simp]: "length (bytes32 v) = 4"
  by (simp add: bytes32_def)

lemma bytes32_explicit: "bytes32 v = [ucast v, ucast (drop_bit 8 v), ucast (drop_bit 16 v), ucast (drop_bit 24 v)]"
  by (simp add: bytes32_def upt_rec)

lemma Get32_bytes32 [simp]: "Get32 (bytes32 v @ q) = v"
proof (rule bit_word_eqI)
  fix n assume "n < LENGTH(32)"
  then show "bit (Get32 (bytes32 v @ q)) n = bit v n"
    by (cases "n < 8"; cases "n < 16"; cases "n < 24") (auto simp: Get32_def bytes32_explicit bit_simps upt_rec)
qed

lemma bytes32_Get32:
  assumes "length b = 4"
  shows "bytes32 (Get32 (b @ q)) = b"
proof -
  from assms obtain x y z w where b: "b = [x, y, z, w]"
    by (auto simp: length_Suc_conv eval_nat_numeral)
  show ?thesis
    unfolding b Get32_def bytes32_explicit
    by (simp add: upt_rec) (intro conjI bit_word_eqI; auto simp: bit_simps u8_bit_high)
qed

lemma Get16_2 [simp]: "Get16 (a # b # q) = Get16 [a, b]"
  by (simp add: Get16_def)

lemma scalar_index: "index_of (scalar_tags ! n) scalar_tags = n" if "n < 18"
proof -
  have "\<forall>n \<in> set [0..<18]. index_of (scalar_tags ! n) scalar_tags = n"
    by code_simp
  with that show ?thesis by simp
qed

lemma scalar_tag_index: "index_of t scalar_tags < 18 \<and> scalar_tags ! index_of t scalar_tags = t"
  by (cases t) (simp_all add: scalar_tags_def)

lemma scalar_of_raw [simp]: "scalar_of (scalar_raw t) = t"
  using scalar_tag_index [of t] by (simp add: scalar_of_def scalar_raw_def unat_of_nat)

lemma scalar_raw_of [simp]: "raw \<le> 17 \<Longrightarrow> scalar_raw (scalar_of raw) = raw"
proof -
  assume "raw \<le> 17"
  then have "unat raw < 18" by (simp add: word_le_nat_alt)
  then show ?thesis by (simp add: scalar_of_def scalar_raw_def scalar_index)
qed

lemma scalar_raw_le [simp]: "\<not> 17 < scalar_raw t"
  using scalar_tag_index [of t] by (simp add: scalar_raw_def word_less_nat_alt unat_of_nat)

lemma unat_size64: "length xs < 2 ^ 64 \<Longrightarrow> unat (size64 xs) = length xs"
  by (simp add: size64_def unat_of_nat take_bit_nat_eq_self)

subsection \<open>The fields of a message\<close>

definition field_ok :: "Field \<Rightarrow> bool" where
  "field_ok f \<longleftrightarrow> fl_tag f \<noteq> 0 \<and> fl_flags f AND NOT 3 = 0 \<and> (fl_flags f AND 2 = 0 \<longrightarrow> fl_elementCount f = 1) \<and>
     ValidateFieldValue (fl_flags f) (fl_scalar f) (fl_elementCount f) (fl_value f) \<and> length (fl_value f) < 2 ^ 64"

definition encode_field :: "Field \<Rightarrow> bytes" where
  "encode_field f = EncodeField (fl_tag f) (fl_flags f) (fl_scalar f) (fl_value f) (fl_elementCount f)"

lemma encode_field_bytes: "field_ok f \<Longrightarrow> encode_field f = field_bytes f"
  by (auto simp: field_ok_def encode_field_def EncodeField_def EncodeCanonicalFieldHeaderV1_def field_bytes_def)

lemma length_field_bytes [simp]: "length (field_bytes f) = 24 + length (fl_value f)"
  by (simp add: field_bytes_def)

text \<open>What the header of a field reads as, when bytes \<open>q\<close> follow the field.\<close>

lemma field_bytes_reads:
  "Get16 (field_bytes f @ q) = fl_tag f"
  "Get16 (drop 2 (field_bytes f @ q)) = fl_flags f"
  "Get16 (drop 4 (field_bytes f @ q)) = scalar_raw (fl_scalar f)"
  "Get16 (drop 6 (field_bytes f @ q)) = 0"
  "Get64 (drop 8 (field_bytes f @ q)) = fl_elementCount f"
  "Get64 (drop 16 (field_bytes f @ q)) = size64 (fl_value f)"
  "drop 24 (field_bytes f @ q) = fl_value f @ q"
  by (simp_all add: field_bytes_def drop_append)

lemma chop: "n \<le> length b \<Longrightarrow> \<exists>p q. b = p @ q \<and> length p = n"
  by (metis append_take_drop_id length_take min.absorb2)

text \<open>Conversely, 24 bytes and the value they announce are a field.\<close>

lemma field_of_bytes:
  assumes "\<not> length b < 24" "unat (Get64 (drop 16 b)) \<le> length (drop 24 b)"
    and "Get16 (drop 6 b) = 0" "\<not> Get16 (drop 4 b) > 17"
  shows "field_bytes \<lparr>fl_tag = Get16 b, fl_flags = Get16 (drop 2 b), fl_scalar = scalar_of (Get16 (drop 4 b)),
      fl_elementCount = Get64 (drop 8 b), fl_value = take (unat (Get64 (drop 16 b))) (drop 24 b)\<rparr> @
    drop (unat (Get64 (drop 16 b))) (drop 24 b) = b"
proof -
  obtain p1 p2 p3 p4 p5 p6 q where b: "b = p1 @ p2 @ p3 @ p4 @ p5 @ p6 @ q"
    and len: "length p1 = 2" "length p2 = 2" "length p3 = 2" "length p4 = 2" "length p5 = 8" "length p6 = 8"
  proof -
    obtain p1 b1 where 1: "b = p1 @ b1" "length p1 = 2" using chop [of 2 b] assms(1) by auto
    obtain p2 b2 where 2: "b1 = p2 @ b2" "length p2 = 2" using chop [of 2 b1] assms(1) 1 by auto
    obtain p3 b3 where 3: "b2 = p3 @ b3" "length p3 = 2" using chop [of 2 b2] assms(1) 1 2 by auto
    obtain p4 b4 where 4: "b3 = p4 @ b4" "length p4 = 2" using chop [of 2 b3] assms(1) 1 2 3 by auto
    obtain p5 b5 where 5: "b4 = p5 @ b5" "length p5 = 8" using chop [of 8 b4] assms(1) 1 2 3 4 by auto
    obtain p6 b6 where 6: "b5 = p6 @ b6" "length p6 = 8" using chop [of 8 b5] assms(1) 1 2 3 4 5 by auto
    show thesis using that 1 2 3 4 5 6 by simp
  qed
  have d: "drop 2 b = p2 @ p3 @ p4 @ p5 @ p6 @ q" "drop 4 b = p3 @ p4 @ p5 @ p6 @ q"
    "drop 6 b = p4 @ p5 @ p6 @ q" "drop 8 b = p5 @ p6 @ q" "drop 16 b = p6 @ q" "drop 24 b = q"
    using len by (simp_all add: b)
  define n where "n = unat (Get64 (p6 @ q))"
  have n: "n \<le> length q" using assms(2) by (simp add: d n_def)
  have count: "size64 (take n q) = Get64 (p6 @ q)"
    using n by (simp add: size64_def n_def)
  have "bytes16 (Get16 b) = p1" "bytes16 (Get16 (drop 2 b)) = p2" "bytes16 (Get16 (drop 4 b)) = p3"
    "bytes16 0 = p4" "bytes64 (Get64 (drop 8 b)) = p5" "bytes64 (Get64 (p6 @ q)) = p6"
    using assms(3) len bytes16_Get16 [of p1] bytes16_Get16 [of p2] bytes16_Get16 [of p3] bytes16_Get16 [of p4]
      bytes64_Get64 [of p5] bytes64_Get64 [of p6] d by (simp_all add: b) metis
  with assms(4) count n show ?thesis
    unfolding field_bytes_def d n_def [symmetric] by (simp add: b)
qed

fun ascending :: "FieldTag option \<Rightarrow> Field list \<Rightarrow> bool" where
  "ascending prior [] = True"
| "ascending prior (f # fs) \<longleftrightarrow> (case prior of Some t \<Rightarrow> t < fl_tag f | None \<Rightarrow> True) \<and> ascending (Some (fl_tag f)) fs"

lemma ascending_sorted:
  "ascending prior fs \<longleftrightarrow> sorted_wrt (<) (map fl_tag fs) \<and> (\<forall>t. prior = Some t \<longrightarrow> (\<forall>f \<in> set fs. t < fl_tag f))"
  by (induction prior fs rule: ascending.induct) (auto split: option.splits intro: order.strict_trans)

lemma parse_fields_field:
  assumes "field_ok f" "case prior of Some t \<Rightarrow> t < fl_tag f | None \<Rightarrow> True"
  shows "parse_fields prior (field_bytes f @ q) = map_option (\<lambda>fs. f # fs) (parse_fields (Some (fl_tag f)) q)"
proof -
  have ok: "fl_tag f \<noteq> 0" "fl_flags f AND NOT 3 = 0" "fl_flags f AND 2 = 0 \<Longrightarrow> fl_elementCount f = 1"
    "ValidateFieldValue (fl_flags f) (fl_scalar f) (fl_elementCount f) (fl_value f)" "length (fl_value f) < 2 ^ 64"
    using assms(1) by (auto simp: field_ok_def)
  have len: "field_bytes f \<noteq> []" "\<not> length (field_bytes f @ q) < 24"
    by (auto simp: field_bytes_def bytes16_def)
  have order: "\<not> (case prior of Some t \<Rightarrow> fl_tag f \<le> t | None \<Rightarrow> False)"
    using assms(2) by (simp split: option.splits)
  have count: "\<not> (fl_flags f AND 2 = 0 \<and> fl_elementCount f \<noteq> 1)"
    using ok(3) by blast
  have eta: "\<lparr>fl_tag = fl_tag f, fl_flags = fl_flags f, fl_scalar = fl_scalar f,
      fl_elementCount = fl_elementCount f, fl_value = fl_value f\<rparr> = f" by simp
  show ?thesis
    using len order ok(1,2,4) count unfolding parse_fields.simps [of prior "field_bytes f @ q"] field_bytes_reads Let_def
    by (simp add: unat_size64 [OF ok(5)] eta) blast
qed

lemma parse_fields_Some:
  "parse_fields prior b = Some fs \<Longrightarrow>
     b = concat (map field_bytes fs) \<and> ascending prior fs \<and> (\<forall>f \<in> set fs. field_ok f)"
proof (induction prior b arbitrary: fs rule: parse_fields.induct)
  case (1 prior b)
  show ?case
  proof (cases "b = []")
    case True
    with "1.prems" show ?thesis by (simp add: parse_fields.simps [of prior "[]"])
  next
    case False
    let ?tag = "Get16 b" and ?flags = "Get16 (drop 2 b)" and ?scalar = "Get16 (drop 4 b)"
    let ?count = "Get64 (drop 8 b)" and ?n = "unat (Get64 (drop 16 b))" and ?rest = "drop 24 b"
    let ?f = "\<lparr>fl_tag = ?tag, fl_flags = ?flags, fl_scalar = scalar_of ?scalar, fl_elementCount = ?count,
      fl_value = take ?n ?rest\<rparr>"
    from "1.prems" False have len: "\<not> length b < 24"
      and shape: "\<not> (?tag = 0 \<or> ?flags AND NOT 3 \<noteq> 0 \<or> Get16 (drop 6 b) \<noteq> 0 \<or> ?scalar > 17 \<or>
        (case prior of Some t \<Rightarrow> ?tag \<le> t | None \<Rightarrow> False) \<or> ?flags AND 2 = 0 \<and> ?count \<noteq> 1)"
      and val: "\<not> (?n > length ?rest \<or> \<not> ValidateFieldValue ?flags (scalar_of ?scalar) ?count (take ?n ?rest))"
      unfolding parse_fields.simps [of prior b] Let_def by (auto split: if_split_asm)
    with "1.prems" False obtain gs where gs: "parse_fields (Some ?tag) (drop ?n ?rest) = Some gs" "fs = ?f # gs"
      unfolding parse_fields.simps [of prior b] Let_def by (auto split: if_split_asm)
    have IH: "drop ?n ?rest = concat (map field_bytes gs) \<and> ascending (Some ?tag) gs \<and> (\<forall>f \<in> set gs. field_ok f)"
      by (rule "1.IH" [OF False len refl refl refl refl refl refl shape val gs(1)])
    have "?n < 2 ^ 64"
      using unsigned_less [of "Get64 (drop 16 b)"] by simp
    then have "field_ok ?f"
      using shape val by (auto simp: field_ok_def)
    moreover have "field_bytes ?f @ drop ?n ?rest = b"
      using field_of_bytes [OF len] shape val by auto
    ultimately show ?thesis
      using IH gs(2) shape by (auto split: option.splits)
  qed
qed

lemma parse_fields_concat:
  "ascending prior fs \<Longrightarrow> \<forall>f \<in> set fs. field_ok f \<Longrightarrow> parse_fields prior (concat (map field_bytes fs)) = Some fs"
proof (induction fs arbitrary: prior)
  case Nil
  then show ?case by (simp add: parse_fields.simps)
next
  case (Cons f fs)
  then show ?case by (simp add: parse_fields_field)
qed

text \<open>Claim C28. A payload parses to a list of fields exactly when the fields are well formed, in ascending
  order of their tags, and the payload is their encodings, one after the other: the two directions
  of the field codec are inverse and nothing else is accepted.\<close>

theorem ParseFields_iff:
  "ParseFields payload = Some fs \<longleftrightarrow>
     payload = concat (map encode_field fs) \<and> sorted_wrt (<) (map fl_tag fs) \<and> list_all field_ok fs"
proof -
  have same: "map encode_field fs = map field_bytes fs" if "list_all field_ok fs"
    using that encode_field_bytes by (simp add: list_all_iff)
  show ?thesis
  proof (cases "list_all field_ok fs")
    case True
    then show ?thesis
      using parse_fields_Some [of None payload fs] parse_fields_concat [of None fs]
      unfolding same [OF True] ParseFields_def ascending_sorted list_all_iff by auto
  next
    case False
    then show ?thesis
      using parse_fields_Some [of None payload fs] by (auto simp: ParseFields_def list_all_iff)
  qed
qed

text \<open>A message of one field, for the witnesses of the theorems that start from an accepted payload.\<close>

definition sample_field :: Field where
  "sample_field = \<lparr>fl_tag = 7, fl_flags = 1, fl_scalar = ST_Uint16, fl_elementCount = 1, fl_value = [5, 0]\<rparr>"

subsection \<open>Logical records\<close>

definition codec_ok :: "Field \<Rightarrow> bool" where
  "codec_ok f \<longleftrightarrow> fl_tag f \<noteq> 0 \<and> fl_flags f AND NOT 3 = 0 \<and> (fl_flags f AND 2 = 0 \<longrightarrow> fl_elementCount f = 1) \<and>
     ValidateFieldBytes f = CE_None"

lemma Codec_EncodeField_Inr: "Codec_EncodeField f = Inr b \<longleftrightarrow> codec_ok f \<and> b = field_bytes f"
  by (auto simp: Codec_EncodeField_def codec_ok_def)

lemma encode_fields_Inr:
  "encode_fields prior fs = Inr p \<longleftrightarrow> p = concat (map field_bytes fs) \<and> ascending prior fs \<and> (\<forall>f \<in> set fs. codec_ok f)"
proof (induction prior fs arbitrary: p rule: encode_fields.induct)
  case (2 prior f fs)
  show ?case
  proof (cases "prior = Some (fl_tag f) \<or> (case prior of Some t \<Rightarrow> fl_tag f < t | None \<Rightarrow> False)")
    case True
    then show ?thesis by (auto split: option.splits)
  next
    case False
    have "(case prior of Some t \<Rightarrow> t < fl_tag f | None \<Rightarrow> True)"
      using False by (auto split: option.splits)
    with False "2.IH" show ?thesis
      by (auto simp: bindE_Inr_iff Codec_EncodeField_Inr)
  qed
qed auto

lemma validate_fields_field:
  assumes "codec_ok f" "length (fl_value f) < 2 ^ 64" "case prior of Some t \<Rightarrow> t < fl_tag f | None \<Rightarrow> True"
  shows "validate_fields known (Suc n) prior (field_bytes f @ q) =
    (if fl_tag f \<notin> set known \<and> fl_flags f AND 1 \<noteq> 0 then CE_UnknownRequiredField
     else validate_fields known n (Some (fl_tag f)) q)"
proof -
  have ok: "fl_tag f \<noteq> 0" "fl_flags f AND NOT 3 = 0"
    "ValidateFieldView (fl_flags f) (fl_scalar f) (fl_elementCount f) (fl_value f) = CE_None"
    and count: "\<not> (fl_flags f AND 2 = 0 \<and> fl_elementCount f \<noteq> 1)"
    using assms(1) by (auto simp: codec_ok_def ValidateFieldBytes_def)
  have order: "prior \<noteq> Some (fl_tag f)" "\<not> (case prior of Some t \<Rightarrow> fl_tag f < t | None \<Rightarrow> False)"
    using assms(3) by (auto split: option.splits)
  have len: "\<not> length (field_bytes f @ q) < 24" by simp
  show ?thesis
    unfolding validate_fields.simps field_bytes_reads Let_def unat_size64 [OF assms(2)]
    using ok count order len by auto
qed

lemma validate_fields_concat:
  "ascending prior fs \<Longrightarrow> \<forall>f \<in> set fs. codec_ok f \<and> length (fl_value f) < 2 ^ 64 \<Longrightarrow>
     validate_fields known (length fs) prior (concat (map field_bytes fs)) = CE_None \<longleftrightarrow>
     (\<forall>f \<in> set fs. fl_flags f AND 1 \<noteq> 0 \<longrightarrow> fl_tag f \<in> set known)"
proof (induction fs arbitrary: prior)
  case (Cons f fs)
  then have "validate_fields known (Suc (length fs)) prior (field_bytes f @ concat (map field_bytes fs)) =
      (if fl_tag f \<notin> set known \<and> fl_flags f AND 1 \<noteq> 0 then CE_UnknownRequiredField
       else validate_fields known (length fs) (Some (fl_tag f)) (concat (map field_bytes fs)))"
    by (intro validate_fields_field) auto
  with Cons show ?case
    by (simp del: validate_fields.simps)
qed simp

lemma length_concat_member: "x \<in> set xs \<Longrightarrow> length (f x) \<le> length (concat (map f xs))"
  by (induction xs) auto

text \<open>Claim C29. An encoded record validates exactly when its kind is one of the nine, it carries the flag
  of a required record, and every required field of it is known to the reader; in particular a
  record without that flag is written but never read.\<close>

theorem record_validates_iff:
  assumes "EncodeLogicalRecord r = Inr b" "length b < 2 ^ 64"
  shows "ValidateLogicalRecord b known (lr_id r) exact = CE_None \<longleftrightarrow>
    lr_kind r \<le> 8 \<and> lr_flags r = 1 \<and> (\<forall>f \<in> set (lr_fields r). fl_flags f AND 1 \<noteq> 0 \<longrightarrow> fl_tag f \<in> set known)"
proof -
  let ?p = "concat (map field_bytes (lr_fields r))"
  have fields: "ascending None (lr_fields r)" "\<forall>f \<in> set (lr_fields r). codec_ok f"
    and count: "length (lr_fields r) \<le> 65535"
    and b: "b = bytes16 (lr_kind r) @ bytes16 1 @ bytes16 (lr_flags r) @ bytes16 (word_of_nat (length (lr_fields r))) @
      bytes64 (lr_id r) @ bytes64 (size64 ?p) @ ?p"
    using assms(1) by (auto simp: EncodeLogicalRecord_def bindE_Inr_iff encode_fields_Inr split: if_split_asm)
  have size: "unat (size64 ?p) = length ?p"
    using assms(2) by (intro unat_size64) (simp add: b)
  have small: "length (fl_value f) < 2 ^ 64" if "f \<in> set (lr_fields r)" for f
    using length_concat_member [OF that, of field_bytes] assms(2) by (simp add: b)
  have n: "unat (word_of_nat (length (lr_fields r)) :: u16) = length (lr_fields r)"
    using count by (simp add: unat_of_nat take_bit_nat_eq_self)
  have reads: "Get16 b = lr_kind r" "Get16 (drop 2 b) = 1" "Get16 (drop 4 b) = lr_flags r"
    "Get16 (drop 6 b) = word_of_nat (length (lr_fields r))" "Get64 (drop 8 b) = lr_id r"
    "Get64 (drop 16 b) = size64 ?p" "drop 24 b = ?p" "length b - 24 = length ?p" "\<not> length b < 24"
    by (simp_all add: b drop_append)
  show ?thesis
    unfolding ValidateLogicalRecord_def reads size n
    using validate_fields_concat [of None "lr_fields r" known] fields small reads(9) by (auto simp: not_less)
qed

definition sample_record :: LogicalRecord where
  "sample_record = \<lparr>lr_kind = 1, lr_flags = 1, lr_id = 5, lr_fields = [sample_field]\<rparr>"

theorem record_validates_iff_witness:
  "\<exists>b. EncodeLogicalRecord sample_record = Inr b \<and> ValidateLogicalRecord b [7] 5 True = CE_None"
proof -
  have "codec_ok sample_field" by code_simp
  then obtain b where b: "EncodeLogicalRecord sample_record = Inr b" "length b = 50"
    by (simp add: EncodeLogicalRecord_def sample_record_def Codec_EncodeField_Inr [THEN iffD2, OF conjI, OF _ refl]
        sample_field_def)
  then show ?thesis
    using record_validates_iff [OF b(1), of "[7]" True] by (simp add: sample_record_def sample_field_def)
qed

subsection \<open>Canonical scalars of the encoders\<close>

lemma counted_BytesValue: "length v < 2 ^ 64 \<Longrightarrow> counted_ok 1 (BytesValue v)"
  by (simp add: counted_ok_def BytesValue_def unat_size64)

lemma length_concat_bytes16 [simp]: "length (concat (map bytes16 units)) = 2 * length units"
  by (induction units) simp_all

lemma counted_Utf16: "length units < 2 ^ 63 \<Longrightarrow> counted_ok 2 (Utf16 units)"
  by (simp add: counted_ok_def Utf16_def unat_size64)

lemma canonical_BytesValue: "length v < 2 ^ 64 \<Longrightarrow> ValidateCanonicalScalar ST_Bytes (BytesValue v) = CE_None"
  using counted_BytesValue [of v] by (simp add: ValidateCanonicalScalar_def FixedScalarBytes_def)

lemma canonical_Utf16: "length units < 2 ^ 63 \<Longrightarrow> ValidateCanonicalScalar ST_UTF16 (Utf16 units) = CE_None"
  using counted_Utf16 [of units] by (simp add: ValidateCanonicalScalar_def FixedScalarBytes_def)

lemma canonical_fixed:
  assumes "FixedScalarBytes t \<noteq> 0" "length v = FixedScalarBytes t" "t \<notin> {ST_Bool, ST_Float64}"
  shows "ValidateCanonicalScalar t v = CE_None"
  using assms by (simp add: ValidateCanonicalScalar_def fixed_scalar_def)

lemma canonical_Struct [simp]: "ValidateCanonicalScalar ST_Struct v = CE_None"
  by (simp add: ValidateCanonicalScalar_def FixedScalarBytes_def)

subsection \<open>Required fields of one element\<close>

definition req_field :: "FieldTag \<Rightarrow> ScalarTag \<Rightarrow> bytes \<Rightarrow> Field" where
  "req_field tag t v = \<lparr>fl_tag = tag, fl_flags = 1, fl_scalar = t, fl_elementCount = 1, fl_value = v\<rparr>"

lemma field_ok_req:
  "tag \<noteq> 0 \<Longrightarrow> ValidateCanonicalScalar t v = CE_None \<Longrightarrow> length v < 2 ^ 64 \<Longrightarrow> field_ok (req_field tag t v)"
  by (simp add: field_ok_def req_field_def ValidateFieldValue_def)

lemma EncodeField_req: "field_ok (req_field tag t v) \<Longrightarrow> EncodeField tag 1 t v 1 = field_bytes (req_field tag t v)"
  using encode_field_bytes [of "req_field tag t v"] by (simp add: encode_field_def req_field_def)

lemma tag_req [simp]: "fl_tag (req_field tag t v) = tag"
  by (simp add: req_field_def)

lemma req_field_simps [simp]: "fl_value (req_field tag t v) = v" "fl_scalar (req_field tag t v) = t"
  by (simp_all add: req_field_def)

lemma ParseFields_req:
  assumes "\<forall>f \<in> set fs. field_ok f" "sorted_wrt (<) (map fl_tag fs)"
  shows "ParseFields (concat (map field_bytes fs)) = Some fs"
  using assms parse_fields_concat [of None fs] by (simp add: ParseFields_def ascending_sorted)

end
