(* ===== verification/PropertyRegistry.thy ===== *)
theory PropertyRegistry
  imports GraphSchema
begin

section \<open>The registry of properties (DocumentGraphProperties.h)\<close>

text \<open>
  Every property the document graph can hold has a row in one table: its key, its member in the
  word processor's object model, its scalar type, the nodes it applies to, the profiles that ask
  for it and whether it may be written. The functions below are the lookups and the rules of
  completeness that the capture, the query and the patches use.
\<close>

subsection \<open>Enumerations\<close>

datatype PropertyDomain =
    PD_CharacterShape | PD_ParagraphShape | PD_Style | PD_Numbering | PD_BorderFill | PD_TabDef | PD_PageSetup
  | PD_Section | PD_Control | PD_Table | PD_Cell | PD_Image | PD_Layout | PD_NativeExtension | PD_DocumentMetadata

datatype PropertyValueShape =
    VS_Scalar | VS_NumberingLevelArray | VS_TabItemArray | VS_ColumnWidthArray | VS_Uint16Array

datatype Writability = WR_ReadOnly | WR_Writable

datatype RequirementClass = RQC_RequiredWhenApplicable | RQC_OptionalObserved

definition kQualifierNone :: u8 where "kQualifierNone = 0"
definition kQualifierVersionGated :: u8 where "kQualifierVersionGated = 1"
definition kQualifierOwnerQualificationRequired :: u8 where "kQualifierOwnerQualificationRequired = 2"
definition kQualifierWindowsBrushFillCondition :: u8 where "kQualifierWindowsBrushFillCondition = 4"

definition HasQualifier :: "u8 \<Rightarrow> u8 \<Rightarrow> bool" where
  "HasQualifier flags qualifier \<longleftrightarrow> flags AND qualifier \<noteq> 0"

datatype RegistryOrigin = RO_Direct | RO_Effective | RO_Generated

datatype PropertyOrigin =
    PO_Direct | PO_Inherited | PO_Generated | PO_Unknown | PO_UserOverride | PO_LocalStyle | PO_NamedStyle
  | PO_DocumentDefault | PO_ImplicitDefault | PO_NotApplicable | PO_Unavailable

datatype PropertySourceContract = SC_DirectValue | SC_LowHighUint32

datatype PropertyApplicabilitySet =
    AS_CharacterShape | AS_ParagraphShape | AS_StyleDefinition | AS_NumberingDefinition | AS_BorderFillDefinition
  | AS_TabDefDefinition | AS_PageDefDefinition | AS_ColumnDefDefinition | AS_Control | AS_Table | AS_Cell | AS_Image
  | AS_ImageBinary | AS_LayoutAll | AS_LayoutControl | AS_DocumentMetadata

subsection \<open>Origins of an observed value\<close>

definition kEffectiveValueOriginsV1 :: "PropertyOrigin list" where
  "kEffectiveValueOriginsV1 = [PO_Direct, PO_Inherited, PO_Unknown, PO_UserOverride, PO_LocalStyle, PO_NamedStyle,
     PO_DocumentDefault, PO_ImplicitDefault, PO_Unavailable]"

definition PropertyOriginAllowedForObservation :: "RegistryOrigin \<Rightarrow> ObservationState \<Rightarrow> PropertyOrigin \<Rightarrow> bool" where
  "PropertyOriginAllowedForObservation registryOrigin state orig =
    (if registryOrigin = RO_Direct then
       orig = PO_Direct \<or> orig = PO_Unknown \<or> state \<noteq> OS_Value \<and> (orig = PO_NotApplicable \<or> orig = PO_Unavailable)
     else if registryOrigin = RO_Generated then
       orig = PO_Generated \<or> state \<noteq> OS_Value \<and> (orig = PO_NotApplicable \<or> orig = PO_Unavailable)
     else if state = OS_NotApplicable then
       orig = PO_NotApplicable \<or> orig = PO_Direct \<or> orig = PO_Inherited \<or> orig = PO_Unknown
     else if orig = PO_NotApplicable then False
     else if state \<noteq> OS_Value then
       orig = PO_Unavailable \<or> orig = PO_Direct \<or> orig = PO_Inherited \<or> orig = PO_Unknown
     else orig \<in> set kEffectiveValueOriginsV1)"

definition CombinePropertyTimeLowHigh :: "u32 \<Rightarrow> u32 \<Rightarrow> u64" where
  "CombinePropertyTimeLowHigh low high = ucast low OR push_bit 32 (ucast high)"

subsection \<open>The table\<close>

record PropertyRule =
  pr_id :: PropertyKeyId
  pr_domain :: PropertyDomain
  pr_path :: string
  pr_scalar :: ScalarTag
  pr_valueShape :: PropertyValueShape
  pr_applicabilitySet :: PropertyApplicabilitySet
  pr_origin :: RegistryOrigin
  pr_profileBits :: u64
  pr_root :: RootClass
  pr_writability :: Writability
  pr_requirement :: RequirementClass
  pr_qualifiers :: u8
  pr_sourceContract :: PropertySourceContract
  pr_lowPath :: "string option"
  pr_highPath :: "string option"

text \<open>A row with the members of the source that have defaults at their defaults.\<close>

definition rule ::
  "PropertyKeyId \<Rightarrow> PropertyDomain \<Rightarrow> string \<Rightarrow> ScalarTag \<Rightarrow> PropertyValueShape \<Rightarrow> PropertyApplicabilitySet \<Rightarrow>
   RegistryOrigin \<Rightarrow> u64 \<Rightarrow> RootClass \<Rightarrow> Writability \<Rightarrow> PropertyRule" where
  "rule key domain path scalar shape applicability orig profiles root writability =
     \<lparr>pr_id = key, pr_domain = domain, pr_path = path, pr_scalar = scalar, pr_valueShape = shape,
      pr_applicabilitySet = applicability, pr_origin = orig, pr_profileBits = profiles, pr_root = root,
      pr_writability = writability, pr_requirement = RQC_RequiredWhenApplicable, pr_qualifiers = kQualifierNone,
      pr_sourceContract = SC_DirectValue, pr_lowPath = None, pr_highPath = None\<rparr>"

type_synonym applicability_tuple = "NodeKind \<times> FieldTag \<times> bool \<times> DefinitionKind"

definition kPropertyApplicabilityRulesV1 :: "(PropertyApplicabilitySet \<times> applicability_tuple list) list" where
  "kPropertyApplicabilityRulesV1 =
   [
    (AS_CharacterShape, [(NK_CharacterRun, 102, False, DK_Style), (NK_Paragraph, 104, False, DK_Style), (NK_Definition, 102, True, DK_CharacterShape)]),
    (AS_ParagraphShape, [(NK_Paragraph, 103, False, DK_Style), (NK_Definition, 102, True, DK_ParagraphShape)]),
    (AS_StyleDefinition, [(NK_Definition, 102, True, DK_Style)]),
    (AS_NumberingDefinition, [(NK_Definition, 102, True, DK_Numbering)]),
    (AS_BorderFillDefinition, [(NK_Definition, 102, True, DK_BorderFill)]),
    (AS_TabDefDefinition, [(NK_Definition, 102, True, DK_TabDef)]),
    (AS_PageDefDefinition, [(NK_Definition, 102, True, DK_PageDef)]),
    (AS_ColumnDefDefinition, [(NK_Definition, 102, True, DK_ColumnDef)]),
    (AS_Control, [(NK_GenericControl, 106, False, DK_Style), (NK_Table, 106, False, DK_Style), (NK_Image, 106, False, DK_Style)]),
    (AS_Table, [(NK_Table, 106, False, DK_Style)]),
    (AS_Cell, [(NK_TableCell, 109, False, DK_Style)]),
    (AS_Image, [(NK_Image, 112, False, DK_Style)]),
    (AS_ImageBinary, [(NK_Image, 11, False, DK_Style)]),
    (AS_LayoutAll, [(NK_Paragraph, 10, False, DK_Style), (NK_GenericControl, 10, False, DK_Style), (NK_Table, 10, False, DK_Style), (NK_TableCell, 10, False, DK_Style), (NK_Image, 10, False, DK_Style)]),
    (AS_LayoutControl, [(NK_GenericControl, 10, False, DK_Style), (NK_Table, 10, False, DK_Style), (NK_Image, 10, False, DK_Style)]),
    (AS_DocumentMetadata, [(NK_Document, 100, False, DK_Style)])]"

definition kPropertyRegistryV1 :: "PropertyRule list" where
  "kPropertyRegistryV1 =
   [
    rule 1000 PD_CharacterShape ''HCharShape.FaceNameHangul'' ST_UTF16 VS_Scalar AS_CharacterShape RO_Effective (ProfileBit PF_EditableText) RC_Semantic WR_ReadOnly,
    rule 1001 PD_CharacterShape ''HCharShape.FaceNameLatin'' ST_UTF16 VS_Scalar AS_CharacterShape RO_Effective (ProfileBit PF_EditableText) RC_Semantic WR_ReadOnly,
    rule 1002 PD_CharacterShape ''HCharShape.FaceNameHanja'' ST_UTF16 VS_Scalar AS_CharacterShape RO_Effective (ProfileBit PF_EditableText) RC_Semantic WR_ReadOnly,
    rule 1003 PD_CharacterShape ''HCharShape.FaceNameJapanese'' ST_UTF16 VS_Scalar AS_CharacterShape RO_Effective (ProfileBit PF_EditableText) RC_Semantic WR_ReadOnly,
    rule 1004 PD_CharacterShape ''HCharShape.FaceNameOther'' ST_UTF16 VS_Scalar AS_CharacterShape RO_Effective (ProfileBit PF_EditableText) RC_Semantic WR_ReadOnly,
    rule 1005 PD_CharacterShape ''HCharShape.FaceNameSymbol'' ST_UTF16 VS_Scalar AS_CharacterShape RO_Effective (ProfileBit PF_EditableText) RC_Semantic WR_ReadOnly,
    rule 1006 PD_CharacterShape ''HCharShape.FaceNameUser'' ST_UTF16 VS_Scalar AS_CharacterShape RO_Effective (ProfileBit PF_EditableText) RC_Semantic WR_ReadOnly,
    rule 1007 PD_CharacterShape ''HCharShape.Height'' ST_HWPUNIT64 VS_Scalar AS_CharacterShape RO_Effective (ProfileBit PF_EditableText) RC_Semantic WR_ReadOnly,
    rule 1008 PD_CharacterShape ''HCharShape.Bold'' ST_Bool VS_Scalar AS_CharacterShape RO_Effective (ProfileBit PF_EditableText) RC_Semantic WR_ReadOnly,
    rule 1009 PD_CharacterShape ''HCharShape.Italic'' ST_Bool VS_Scalar AS_CharacterShape RO_Effective (ProfileBit PF_EditableText) RC_Semantic WR_ReadOnly,
    rule 1010 PD_CharacterShape ''HCharShape.TextColor'' ST_BGR VS_Scalar AS_CharacterShape RO_Effective (ProfileBit PF_EditableText) RC_Semantic WR_ReadOnly,
    rule 1011 PD_CharacterShape ''HCharShape.ShadeColor'' ST_BGR VS_Scalar AS_CharacterShape RO_Effective (ProfileBit PF_EditableText) RC_Semantic WR_ReadOnly,
    rule 1012 PD_CharacterShape ''HCharShape.UnderlineType'' ST_Enum VS_Scalar AS_CharacterShape RO_Effective (ProfileBit PF_EditableText) RC_Semantic WR_ReadOnly,
    rule 1013 PD_CharacterShape ''HCharShape.UnderlineColor'' ST_BGR VS_Scalar AS_CharacterShape RO_Effective (ProfileBit PF_EditableText) RC_Semantic WR_ReadOnly,
    rule 1014 PD_CharacterShape ''HCharShape.StrikeOutType'' ST_Enum VS_Scalar AS_CharacterShape RO_Effective (ProfileBit PF_EditableText) RC_Semantic WR_ReadOnly,
    rule 1018 PD_CharacterShape ''HCharShape.OutlineType'' ST_Enum VS_Scalar AS_CharacterShape RO_Effective (ProfileBit PF_EditableText) RC_Semantic WR_ReadOnly,
    rule 1019 PD_CharacterShape ''HCharShape.ShadowType'' ST_Enum VS_Scalar AS_CharacterShape RO_Effective (ProfileBit PF_EditableText) RC_Semantic WR_ReadOnly,
    (rule 1020 PD_CharacterShape ''HCharShape.SpacingHangul'' ST_Sint64 VS_Scalar AS_CharacterShape RO_Effective (ProfileBit PF_EditableText) RC_Semantic WR_ReadOnly)\<lparr>pr_requirement := RQC_OptionalObserved, pr_qualifiers := kQualifierNone\<rparr>,
    (rule 1021 PD_CharacterShape ''HCharShape.SpacingLatin'' ST_Sint64 VS_Scalar AS_CharacterShape RO_Effective (ProfileBit PF_EditableText) RC_Semantic WR_ReadOnly)\<lparr>pr_requirement := RQC_OptionalObserved, pr_qualifiers := kQualifierNone\<rparr>,
    (rule 1022 PD_CharacterShape ''HCharShape.SpacingHanja'' ST_Sint64 VS_Scalar AS_CharacterShape RO_Effective (ProfileBit PF_EditableText) RC_Semantic WR_ReadOnly)\<lparr>pr_requirement := RQC_OptionalObserved, pr_qualifiers := kQualifierNone\<rparr>,
    (rule 1023 PD_CharacterShape ''HCharShape.SpacingJapanese'' ST_Sint64 VS_Scalar AS_CharacterShape RO_Effective (ProfileBit PF_EditableText) RC_Semantic WR_ReadOnly)\<lparr>pr_requirement := RQC_OptionalObserved, pr_qualifiers := kQualifierNone\<rparr>,
    (rule 1024 PD_CharacterShape ''HCharShape.SpacingOther'' ST_Sint64 VS_Scalar AS_CharacterShape RO_Effective (ProfileBit PF_EditableText) RC_Semantic WR_ReadOnly)\<lparr>pr_requirement := RQC_OptionalObserved, pr_qualifiers := kQualifierNone\<rparr>,
    (rule 1025 PD_CharacterShape ''HCharShape.SpacingSymbol'' ST_Sint64 VS_Scalar AS_CharacterShape RO_Effective (ProfileBit PF_EditableText) RC_Semantic WR_ReadOnly)\<lparr>pr_requirement := RQC_OptionalObserved, pr_qualifiers := kQualifierNone\<rparr>,
    (rule 1026 PD_CharacterShape ''HCharShape.SpacingUser'' ST_Sint64 VS_Scalar AS_CharacterShape RO_Effective (ProfileBit PF_EditableText) RC_Semantic WR_ReadOnly)\<lparr>pr_requirement := RQC_OptionalObserved, pr_qualifiers := kQualifierNone\<rparr>,
    (rule 1027 PD_CharacterShape ''HCharShape.RatioHangul'' ST_Uint8 VS_Scalar AS_CharacterShape RO_Effective (ProfileBit PF_EditableText) RC_Semantic WR_ReadOnly)\<lparr>pr_requirement := RQC_OptionalObserved, pr_qualifiers := kQualifierNone\<rparr>,
    (rule 1028 PD_CharacterShape ''HCharShape.RatioLatin'' ST_Uint8 VS_Scalar AS_CharacterShape RO_Effective (ProfileBit PF_EditableText) RC_Semantic WR_ReadOnly)\<lparr>pr_requirement := RQC_OptionalObserved, pr_qualifiers := kQualifierNone\<rparr>,
    (rule 1029 PD_CharacterShape ''HCharShape.RatioHanja'' ST_Uint8 VS_Scalar AS_CharacterShape RO_Effective (ProfileBit PF_EditableText) RC_Semantic WR_ReadOnly)\<lparr>pr_requirement := RQC_OptionalObserved, pr_qualifiers := kQualifierNone\<rparr>,
    (rule 1030 PD_CharacterShape ''HCharShape.RatioJapanese'' ST_Uint8 VS_Scalar AS_CharacterShape RO_Effective (ProfileBit PF_EditableText) RC_Semantic WR_ReadOnly)\<lparr>pr_requirement := RQC_OptionalObserved, pr_qualifiers := kQualifierNone\<rparr>,
    (rule 1031 PD_CharacterShape ''HCharShape.RatioOther'' ST_Uint8 VS_Scalar AS_CharacterShape RO_Effective (ProfileBit PF_EditableText) RC_Semantic WR_ReadOnly)\<lparr>pr_requirement := RQC_OptionalObserved, pr_qualifiers := kQualifierNone\<rparr>,
    (rule 1032 PD_CharacterShape ''HCharShape.RatioSymbol'' ST_Uint8 VS_Scalar AS_CharacterShape RO_Effective (ProfileBit PF_EditableText) RC_Semantic WR_ReadOnly)\<lparr>pr_requirement := RQC_OptionalObserved, pr_qualifiers := kQualifierNone\<rparr>,
    (rule 1033 PD_CharacterShape ''HCharShape.RatioUser'' ST_Uint8 VS_Scalar AS_CharacterShape RO_Effective (ProfileBit PF_EditableText) RC_Semantic WR_ReadOnly)\<lparr>pr_requirement := RQC_OptionalObserved, pr_qualifiers := kQualifierNone\<rparr>,
    (rule 1034 PD_CharacterShape ''HCharShape.OffsetHangul'' ST_Sint64 VS_Scalar AS_CharacterShape RO_Effective (ProfileBit PF_EditableText) RC_Semantic WR_ReadOnly)\<lparr>pr_requirement := RQC_OptionalObserved, pr_qualifiers := kQualifierNone\<rparr>,
    (rule 1035 PD_CharacterShape ''HCharShape.OffsetLatin'' ST_Sint64 VS_Scalar AS_CharacterShape RO_Effective (ProfileBit PF_EditableText) RC_Semantic WR_ReadOnly)\<lparr>pr_requirement := RQC_OptionalObserved, pr_qualifiers := kQualifierNone\<rparr>,
    (rule 1036 PD_CharacterShape ''HCharShape.OffsetHanja'' ST_Sint64 VS_Scalar AS_CharacterShape RO_Effective (ProfileBit PF_EditableText) RC_Semantic WR_ReadOnly)\<lparr>pr_requirement := RQC_OptionalObserved, pr_qualifiers := kQualifierNone\<rparr>,
    (rule 1037 PD_CharacterShape ''HCharShape.OffsetJapanese'' ST_Sint64 VS_Scalar AS_CharacterShape RO_Effective (ProfileBit PF_EditableText) RC_Semantic WR_ReadOnly)\<lparr>pr_requirement := RQC_OptionalObserved, pr_qualifiers := kQualifierNone\<rparr>,
    (rule 1038 PD_CharacterShape ''HCharShape.OffsetOther'' ST_Sint64 VS_Scalar AS_CharacterShape RO_Effective (ProfileBit PF_EditableText) RC_Semantic WR_ReadOnly)\<lparr>pr_requirement := RQC_OptionalObserved, pr_qualifiers := kQualifierNone\<rparr>,
    (rule 1039 PD_CharacterShape ''HCharShape.OffsetSymbol'' ST_Sint64 VS_Scalar AS_CharacterShape RO_Effective (ProfileBit PF_EditableText) RC_Semantic WR_ReadOnly)\<lparr>pr_requirement := RQC_OptionalObserved, pr_qualifiers := kQualifierNone\<rparr>,
    (rule 1040 PD_CharacterShape ''HCharShape.OffsetUser'' ST_Sint64 VS_Scalar AS_CharacterShape RO_Effective (ProfileBit PF_EditableText) RC_Semantic WR_ReadOnly)\<lparr>pr_requirement := RQC_OptionalObserved, pr_qualifiers := kQualifierNone\<rparr>,
    rule 2000 PD_ParagraphShape ''HParaShape.AlignType'' ST_Enum VS_Scalar AS_ParagraphShape RO_Effective (ProfileBit PF_EditableText) RC_Semantic WR_ReadOnly,
    rule 2001 PD_ParagraphShape ''HParaShape.LineSpacingType'' ST_Enum VS_Scalar AS_ParagraphShape RO_Effective (ProfileBit PF_EditableText) RC_Semantic WR_ReadOnly,
    rule 2002 PD_ParagraphShape ''HParaShape.LineSpacing'' ST_Sint64 VS_Scalar AS_ParagraphShape RO_Effective (ProfileBit PF_EditableText) RC_Semantic WR_ReadOnly,
    rule 2003 PD_ParagraphShape ''HParaShape.LeftMargin'' ST_RawURC32 VS_Scalar AS_ParagraphShape RO_Effective (ProfileBit PF_EditableText) RC_Semantic WR_ReadOnly,
    rule 2004 PD_ParagraphShape ''HParaShape.RightMargin'' ST_RawURC32 VS_Scalar AS_ParagraphShape RO_Effective (ProfileBit PF_EditableText) RC_Semantic WR_ReadOnly,
    rule 2005 PD_ParagraphShape ''HParaShape.Indentation'' ST_RawURC32 VS_Scalar AS_ParagraphShape RO_Effective (ProfileBit PF_EditableText) RC_Semantic WR_ReadOnly,
    rule 2006 PD_ParagraphShape ''HParaShape.PrevSpacing'' ST_RawURC32 VS_Scalar AS_ParagraphShape RO_Effective (ProfileBit PF_EditableText) RC_Semantic WR_ReadOnly,
    rule 2007 PD_ParagraphShape ''HParaShape.NextSpacing'' ST_RawURC32 VS_Scalar AS_ParagraphShape RO_Effective (ProfileBit PF_EditableText) RC_Semantic WR_ReadOnly,
    rule 2008 PD_ParagraphShape ''HParaShape.KeepWithNext'' ST_Bool VS_Scalar AS_ParagraphShape RO_Effective (ProfileBit PF_EditableText) RC_Semantic WR_ReadOnly,
    rule 2009 PD_ParagraphShape ''HParaShape.KeepLinesTogether'' ST_Bool VS_Scalar AS_ParagraphShape RO_Effective (ProfileBit PF_EditableText) RC_Semantic WR_ReadOnly,
    rule 2010 PD_ParagraphShape ''HParaShape.PagebreakBefore'' ST_Bool VS_Scalar AS_ParagraphShape RO_Effective (ProfileBit PF_EditableText) RC_Semantic WR_ReadOnly,
    rule 2011 PD_ParagraphShape ''HParaShape.WidowOrphan'' ST_Bool VS_Scalar AS_ParagraphShape RO_Effective (ProfileBit PF_EditableText) RC_Semantic WR_ReadOnly,
    rule 2012 PD_ParagraphShape ''HParaShape.HeadingType'' ST_Enum VS_Scalar AS_ParagraphShape RO_Effective (ProfileBit PF_EditableText) RC_Semantic WR_ReadOnly,
    rule 2013 PD_ParagraphShape ''HParaShape.Level'' ST_Sint64 VS_Scalar AS_ParagraphShape RO_Effective (ProfileBit PF_EditableText) RC_Semantic WR_ReadOnly,
    rule 3000 PD_Style ''HStyle.Name'' ST_UTF16 VS_Scalar AS_StyleDefinition RO_Direct (ProfileBit PF_EditableText) RC_Semantic WR_ReadOnly,
    rule 3001 PD_Style ''HStyle.Type'' ST_Enum VS_Scalar AS_StyleDefinition RO_Direct (ProfileBit PF_EditableText) RC_Semantic WR_ReadOnly,
    rule 3002 PD_Style ''HStyle.NextStyle'' ST_Sint64 VS_Scalar AS_StyleDefinition RO_Direct (ProfileBit PF_EditableText) RC_Semantic WR_ReadOnly,
    rule 3003 PD_Style ''HStyle.CharShape'' ST_Sint64 VS_Scalar AS_StyleDefinition RO_Direct (ProfileBit PF_EditableText) RC_Semantic WR_ReadOnly,
    rule 3004 PD_Style ''HStyle.ParaShape'' ST_Sint64 VS_Scalar AS_StyleDefinition RO_Direct (ProfileBit PF_EditableText) RC_Semantic WR_ReadOnly,
    rule 4000 PD_Numbering ''HNumbering.StartNumber'' ST_Sint64 VS_Scalar AS_NumberingDefinition RO_Direct (ProfileBit PF_EditableText) RC_Semantic WR_ReadOnly,
    rule 4001 PD_Numbering ''HNumbering.Level[]'' ST_Struct VS_NumberingLevelArray AS_NumberingDefinition RO_Direct (ProfileBit PF_EditableText) RC_Semantic WR_ReadOnly,
    rule 5000 PD_BorderFill ''HCellBorderFill.BorderTypeLeft'' ST_Enum VS_Scalar AS_BorderFillDefinition RO_Direct (ProfileBit PF_EditableObjects) RC_Semantic WR_ReadOnly,
    rule 5001 PD_BorderFill ''HCellBorderFill.BorderWidthLeft'' ST_Enum VS_Scalar AS_BorderFillDefinition RO_Direct (ProfileBit PF_EditableObjects) RC_Semantic WR_ReadOnly,
    rule 5002 PD_BorderFill ''HCellBorderFill.BorderCorlorLeft'' ST_BGR VS_Scalar AS_BorderFillDefinition RO_Direct (ProfileBit PF_EditableObjects) RC_Semantic WR_ReadOnly,
    rule 5003 PD_BorderFill ''HCellBorderFill.BorderTypeRight'' ST_Enum VS_Scalar AS_BorderFillDefinition RO_Direct (ProfileBit PF_EditableObjects) RC_Semantic WR_ReadOnly,
    rule 5004 PD_BorderFill ''HCellBorderFill.BorderWidthRight'' ST_Enum VS_Scalar AS_BorderFillDefinition RO_Direct (ProfileBit PF_EditableObjects) RC_Semantic WR_ReadOnly,
    rule 5005 PD_BorderFill ''HCellBorderFill.BorderColorRight'' ST_BGR VS_Scalar AS_BorderFillDefinition RO_Direct (ProfileBit PF_EditableObjects) RC_Semantic WR_ReadOnly,
    rule 5006 PD_BorderFill ''HCellBorderFill.BorderTypeTop'' ST_Enum VS_Scalar AS_BorderFillDefinition RO_Direct (ProfileBit PF_EditableObjects) RC_Semantic WR_ReadOnly,
    rule 5007 PD_BorderFill ''HCellBorderFill.BorderWidthTop'' ST_Enum VS_Scalar AS_BorderFillDefinition RO_Direct (ProfileBit PF_EditableObjects) RC_Semantic WR_ReadOnly,
    rule 5008 PD_BorderFill ''HCellBorderFill.BorderColorTop'' ST_BGR VS_Scalar AS_BorderFillDefinition RO_Direct (ProfileBit PF_EditableObjects) RC_Semantic WR_ReadOnly,
    rule 5009 PD_BorderFill ''HCellBorderFill.BorderTypeBottom'' ST_Enum VS_Scalar AS_BorderFillDefinition RO_Direct (ProfileBit PF_EditableObjects) RC_Semantic WR_ReadOnly,
    rule 5010 PD_BorderFill ''HCellBorderFill.BorderWidthBottom'' ST_Enum VS_Scalar AS_BorderFillDefinition RO_Direct (ProfileBit PF_EditableObjects) RC_Semantic WR_ReadOnly,
    rule 5011 PD_BorderFill ''HCellBorderFill.BorderColorBottom'' ST_BGR VS_Scalar AS_BorderFillDefinition RO_Direct (ProfileBit PF_EditableObjects) RC_Semantic WR_ReadOnly,
    rule 5012 PD_BorderFill ''HCellBorderFill.FillAttr.WinBrushFaceColor'' ST_BGR VS_Scalar AS_BorderFillDefinition RO_Direct (ProfileBit PF_EditableObjects) RC_Semantic WR_ReadOnly,
    rule 5013 PD_BorderFill ''HCellBorderFill.FillAttr.WinBrushHatchColor'' ST_BGR VS_Scalar AS_BorderFillDefinition RO_Direct (ProfileBit PF_EditableObjects) RC_Semantic WR_ReadOnly,
    rule 5014 PD_BorderFill ''HCellBorderFill.FillAttr.WinBrushAlpha'' ST_Sint64 VS_Scalar AS_BorderFillDefinition RO_Direct (ProfileBit PF_EditableObjects) RC_Semantic WR_ReadOnly,
    (rule 5015 PD_BorderFill ''HCellBorderFill.FillAttr.WindowsBrush'' ST_Uint8 VS_Scalar AS_BorderFillDefinition RO_Direct (ProfileBit PF_EditableObjects) RC_Semantic WR_ReadOnly)\<lparr>pr_requirement := RQC_RequiredWhenApplicable, pr_qualifiers := kQualifierWindowsBrushFillCondition\<rparr>,
    rule 6000 PD_TabDef ''HTabDef.AutoTabLeft'' ST_Bool VS_Scalar AS_TabDefDefinition RO_Direct (ProfileBit PF_EditableText) RC_Semantic WR_ReadOnly,
    rule 6001 PD_TabDef ''HTabDef.AutoTabRight'' ST_Bool VS_Scalar AS_TabDefDefinition RO_Direct (ProfileBit PF_EditableText) RC_Semantic WR_ReadOnly,
    rule 6002 PD_TabDef ''HTabDef.TabItem[]'' ST_Struct VS_TabItemArray AS_TabDefDefinition RO_Direct (ProfileBit PF_EditableText) RC_Semantic WR_ReadOnly,
    rule 7000 PD_PageSetup ''HPageDef.PaperWidth'' ST_HWPUNIT64 VS_Scalar AS_PageDefDefinition RO_Direct (ProfileBit PF_Structure OR ProfileBit PF_Layout) RC_Semantic WR_ReadOnly,
    rule 7001 PD_PageSetup ''HPageDef.PaperHeight'' ST_HWPUNIT64 VS_Scalar AS_PageDefDefinition RO_Direct (ProfileBit PF_Structure OR ProfileBit PF_Layout) RC_Semantic WR_ReadOnly,
    rule 7002 PD_PageSetup ''HPageDef.LeftMargin'' ST_HWPUNIT64 VS_Scalar AS_PageDefDefinition RO_Direct (ProfileBit PF_Structure OR ProfileBit PF_Layout) RC_Semantic WR_ReadOnly,
    rule 7003 PD_PageSetup ''HPageDef.RightMargin'' ST_HWPUNIT64 VS_Scalar AS_PageDefDefinition RO_Direct (ProfileBit PF_Structure OR ProfileBit PF_Layout) RC_Semantic WR_ReadOnly,
    rule 7004 PD_PageSetup ''HPageDef.TopMargin'' ST_HWPUNIT64 VS_Scalar AS_PageDefDefinition RO_Direct (ProfileBit PF_Structure OR ProfileBit PF_Layout) RC_Semantic WR_ReadOnly,
    rule 7005 PD_PageSetup ''HPageDef.BottomMargin'' ST_HWPUNIT64 VS_Scalar AS_PageDefDefinition RO_Direct (ProfileBit PF_Structure OR ProfileBit PF_Layout) RC_Semantic WR_ReadOnly,
    rule 7006 PD_PageSetup ''HPageDef.HeaderLen'' ST_HWPUNIT64 VS_Scalar AS_PageDefDefinition RO_Direct (ProfileBit PF_Structure OR ProfileBit PF_Layout) RC_Semantic WR_ReadOnly,
    rule 7007 PD_PageSetup ''HPageDef.FooterLen'' ST_HWPUNIT64 VS_Scalar AS_PageDefDefinition RO_Direct (ProfileBit PF_Structure OR ProfileBit PF_Layout) RC_Semantic WR_ReadOnly,
    rule 7008 PD_PageSetup ''HPageDef.GutterLen'' ST_HWPUNIT64 VS_Scalar AS_PageDefDefinition RO_Direct (ProfileBit PF_Structure OR ProfileBit PF_Layout) RC_Semantic WR_ReadOnly,
    rule 7009 PD_PageSetup ''HPageDef.Landscape'' ST_Bool VS_Scalar AS_PageDefDefinition RO_Direct (ProfileBit PF_Structure OR ProfileBit PF_Layout) RC_Semantic WR_ReadOnly,
    rule 7010 PD_PageSetup ''HPageDef.GutterType'' ST_Enum VS_Scalar AS_PageDefDefinition RO_Direct (ProfileBit PF_Structure OR ProfileBit PF_Layout) RC_Semantic WR_ReadOnly,
    rule 7100 PD_Section ''HColDef.Count'' ST_Uint64 VS_Scalar AS_ColumnDefDefinition RO_Direct (ProfileBit PF_Structure OR ProfileBit PF_Layout) RC_Semantic WR_ReadOnly,
    rule 7101 PD_Section ''HColDef.SameSize'' ST_Bool VS_Scalar AS_ColumnDefDefinition RO_Direct (ProfileBit PF_Structure OR ProfileBit PF_Layout) RC_Semantic WR_ReadOnly,
    rule 7102 PD_Section ''HColDef.SameGap'' ST_HWPUNIT64 VS_Scalar AS_ColumnDefDefinition RO_Direct (ProfileBit PF_Structure OR ProfileBit PF_Layout) RC_Semantic WR_ReadOnly,
    (rule 7104 PD_Section ''HColDef.WidthGap[]'' ST_Uint16 VS_Uint16Array AS_ColumnDefDefinition RO_Direct (ProfileBit PF_Structure OR ProfileBit PF_Layout) RC_Semantic WR_ReadOnly)\<lparr>pr_requirement := RQC_OptionalObserved, pr_qualifiers := kQualifierVersionGated OR kQualifierOwnerQualificationRequired\<rparr>,
    rule 8000 PD_Control ''HShapeObject.Width'' ST_HWPUNIT64 VS_Scalar AS_Control RO_Direct (ProfileBit PF_EditableObjects) RC_Semantic WR_ReadOnly,
    rule 8001 PD_Control ''HShapeObject.Height'' ST_HWPUNIT64 VS_Scalar AS_Control RO_Direct (ProfileBit PF_EditableObjects) RC_Semantic WR_ReadOnly,
    rule 8002 PD_Control ''HShapeObject.TreatAsChar'' ST_Bool VS_Scalar AS_Control RO_Direct (ProfileBit PF_EditableObjects) RC_Semantic WR_ReadOnly,
    rule 8003 PD_Control ''HShapeObject.TextWrap'' ST_Enum VS_Scalar AS_Control RO_Direct (ProfileBit PF_EditableObjects) RC_Semantic WR_ReadOnly,
    rule 8004 PD_Control ''HShapeObject.VertRelTo'' ST_Enum VS_Scalar AS_Control RO_Direct (ProfileBit PF_EditableObjects) RC_Semantic WR_ReadOnly,
    rule 8005 PD_Control ''HShapeObject.HorzRelTo'' ST_Enum VS_Scalar AS_Control RO_Direct (ProfileBit PF_EditableObjects) RC_Semantic WR_ReadOnly,
    rule 8006 PD_Control ''HShapeObject.VertAlign'' ST_Enum VS_Scalar AS_Control RO_Direct (ProfileBit PF_EditableObjects) RC_Semantic WR_ReadOnly,
    rule 8007 PD_Control ''HShapeObject.HorzAlign'' ST_Enum VS_Scalar AS_Control RO_Direct (ProfileBit PF_EditableObjects) RC_Semantic WR_ReadOnly,
    rule 8008 PD_Control ''HShapeObject.VertOffset'' ST_HWPUNIT64 VS_Scalar AS_Control RO_Direct (ProfileBit PF_EditableObjects) RC_Semantic WR_ReadOnly,
    rule 8009 PD_Control ''HShapeObject.HorzOffset'' ST_HWPUNIT64 VS_Scalar AS_Control RO_Direct (ProfileBit PF_EditableObjects) RC_Semantic WR_ReadOnly,
    rule 8010 PD_Control ''HShapeObject.ZOrder'' ST_Sint64 VS_Scalar AS_Control RO_Direct (ProfileBit PF_EditableObjects) RC_Semantic WR_ReadOnly,
    rule 8011 PD_Control ''HShapeObject.MarginLeft'' ST_HWPUNIT64 VS_Scalar AS_Control RO_Direct (ProfileBit PF_EditableObjects) RC_Semantic WR_ReadOnly,
    rule 8012 PD_Control ''HShapeObject.MarginRight'' ST_HWPUNIT64 VS_Scalar AS_Control RO_Direct (ProfileBit PF_EditableObjects) RC_Semantic WR_ReadOnly,
    rule 8013 PD_Control ''HShapeObject.MarginTop'' ST_HWPUNIT64 VS_Scalar AS_Control RO_Direct (ProfileBit PF_EditableObjects) RC_Semantic WR_ReadOnly,
    rule 8014 PD_Control ''HShapeObject.MarginBottom'' ST_HWPUNIT64 VS_Scalar AS_Control RO_Direct (ProfileBit PF_EditableObjects) RC_Semantic WR_ReadOnly,
    rule 9000 PD_Table ''TablePropertyDialog.RowCount'' ST_Uint64 VS_Scalar AS_Table RO_Direct (ProfileBit PF_EditableObjects) RC_Semantic WR_ReadOnly,
    rule 9001 PD_Table ''TablePropertyDialog.ColCount'' ST_Uint64 VS_Scalar AS_Table RO_Direct (ProfileBit PF_EditableObjects) RC_Semantic WR_ReadOnly,
    rule 9002 PD_Table ''HShapeObject.CellSpacing'' ST_HWPUNIT64 VS_Scalar AS_Table RO_Direct (ProfileBit PF_EditableObjects) RC_Semantic WR_ReadOnly,
    rule 9003 PD_Table ''HShapeObject.PageBreak'' ST_Enum VS_Scalar AS_Table RO_Direct (ProfileBit PF_EditableObjects) RC_Semantic WR_ReadOnly,
    rule 9004 PD_Table ''HShapeObject.RepeatHeader'' ST_Bool VS_Scalar AS_Table RO_Direct (ProfileBit PF_EditableObjects) RC_Semantic WR_ReadOnly,
    rule 10000 PD_Cell ''CellShape.Width'' ST_HWPUNIT64 VS_Scalar AS_Cell RO_Direct (ProfileBit PF_EditableObjects) RC_Semantic WR_ReadOnly,
    rule 10001 PD_Cell ''CellShape.Height'' ST_HWPUNIT64 VS_Scalar AS_Cell RO_Direct (ProfileBit PF_EditableObjects) RC_Semantic WR_ReadOnly,
    rule 10002 PD_Cell ''ShapeTableCell.MarginLeft'' ST_HWPUNIT64 VS_Scalar AS_Cell RO_Direct (ProfileBit PF_EditableObjects) RC_Semantic WR_ReadOnly,
    rule 10003 PD_Cell ''ShapeTableCell.MarginRight'' ST_HWPUNIT64 VS_Scalar AS_Cell RO_Direct (ProfileBit PF_EditableObjects) RC_Semantic WR_ReadOnly,
    rule 10004 PD_Cell ''ShapeTableCell.MarginTop'' ST_HWPUNIT64 VS_Scalar AS_Cell RO_Direct (ProfileBit PF_EditableObjects) RC_Semantic WR_ReadOnly,
    rule 10005 PD_Cell ''ShapeTableCell.MarginBottom'' ST_HWPUNIT64 VS_Scalar AS_Cell RO_Direct (ProfileBit PF_EditableObjects) RC_Semantic WR_ReadOnly,
    rule 10006 PD_Cell ''ShapeTableCell.VertAlign'' ST_Enum VS_Scalar AS_Cell RO_Direct (ProfileBit PF_EditableObjects) RC_Semantic WR_ReadOnly,
    rule 10007 PD_Cell ''ShapeTableCell.Protect'' ST_Bool VS_Scalar AS_Cell RO_Direct (ProfileBit PF_EditableObjects) RC_Semantic WR_ReadOnly,
    rule 10008 PD_Cell ''CellFill.WinBrushFaceColor'' ST_BGR VS_Scalar AS_Cell RO_Direct (ProfileBit PF_EditableObjects) RC_Semantic WR_ReadOnly,
    rule 10009 PD_Cell ''CellFill.WinBrushFaceStyle'' ST_Sint64 VS_Scalar AS_Cell RO_Direct (ProfileBit PF_EditableObjects) RC_Semantic WR_ReadOnly,
    rule 10010 PD_Cell ''CellBorder.Left.Type'' ST_Enum VS_Scalar AS_Cell RO_Direct (ProfileBit PF_EditableObjects) RC_Semantic WR_ReadOnly,
    rule 10011 PD_Cell ''CellBorder.Left.Width'' ST_Sint64 VS_Scalar AS_Cell RO_Direct (ProfileBit PF_EditableObjects) RC_Semantic WR_ReadOnly,
    rule 10012 PD_Cell ''CellBorder.Left.Color'' ST_BGR VS_Scalar AS_Cell RO_Direct (ProfileBit PF_EditableObjects) RC_Semantic WR_ReadOnly,
    rule 10013 PD_Cell ''CellBorder.Right.Type'' ST_Enum VS_Scalar AS_Cell RO_Direct (ProfileBit PF_EditableObjects) RC_Semantic WR_ReadOnly,
    rule 10014 PD_Cell ''CellBorder.Right.Width'' ST_Sint64 VS_Scalar AS_Cell RO_Direct (ProfileBit PF_EditableObjects) RC_Semantic WR_ReadOnly,
    rule 10015 PD_Cell ''CellBorder.Right.Color'' ST_BGR VS_Scalar AS_Cell RO_Direct (ProfileBit PF_EditableObjects) RC_Semantic WR_ReadOnly,
    rule 10016 PD_Cell ''CellBorder.Top.Type'' ST_Enum VS_Scalar AS_Cell RO_Direct (ProfileBit PF_EditableObjects) RC_Semantic WR_ReadOnly,
    rule 10017 PD_Cell ''CellBorder.Top.Width'' ST_Sint64 VS_Scalar AS_Cell RO_Direct (ProfileBit PF_EditableObjects) RC_Semantic WR_ReadOnly,
    rule 10018 PD_Cell ''CellBorder.Top.Color'' ST_BGR VS_Scalar AS_Cell RO_Direct (ProfileBit PF_EditableObjects) RC_Semantic WR_ReadOnly,
    rule 10019 PD_Cell ''CellBorder.Bottom.Type'' ST_Enum VS_Scalar AS_Cell RO_Direct (ProfileBit PF_EditableObjects) RC_Semantic WR_ReadOnly,
    rule 10020 PD_Cell ''CellBorder.Bottom.Width'' ST_Sint64 VS_Scalar AS_Cell RO_Direct (ProfileBit PF_EditableObjects) RC_Semantic WR_ReadOnly,
    rule 10021 PD_Cell ''CellBorder.Bottom.Color'' ST_BGR VS_Scalar AS_Cell RO_Direct (ProfileBit PF_EditableObjects) RC_Semantic WR_ReadOnly,
    rule 10022 PD_Cell ''CellText.ParagraphAlignment'' ST_Enum VS_Scalar AS_Cell RO_Direct (ProfileBit PF_EditableObjects) RC_Semantic WR_ReadOnly,
    rule 10023 PD_Cell ''CellText.FaceName'' ST_UTF16 VS_Scalar AS_Cell RO_Direct (ProfileBit PF_EditableObjects) RC_Semantic WR_ReadOnly,
    rule 10024 PD_Cell ''CellText.CharacterHeight'' ST_HWPUNIT64 VS_Scalar AS_Cell RO_Direct (ProfileBit PF_EditableObjects) RC_Semantic WR_ReadOnly,
    rule 10025 PD_Cell ''CellText.Bold'' ST_Bool VS_Scalar AS_Cell RO_Direct (ProfileBit PF_EditableObjects) RC_Semantic WR_ReadOnly,
    rule 11000 PD_Image ''ShapeDrawImageAttr.OriginalSizeX'' ST_HWPUNIT64 VS_Scalar AS_Image RO_Direct (ProfileBit PF_EditableObjects) RC_Semantic WR_ReadOnly,
    rule 11001 PD_Image ''ShapeDrawImageAttr.OriginalSizeY'' ST_HWPUNIT64 VS_Scalar AS_Image RO_Direct (ProfileBit PF_EditableObjects) RC_Semantic WR_ReadOnly,
    rule 11002 PD_Image ''ShapeDrawImageAttr.SkipLeft'' ST_HWPUNIT64 VS_Scalar AS_Image RO_Direct (ProfileBit PF_EditableObjects) RC_Semantic WR_ReadOnly,
    rule 11003 PD_Image ''ShapeDrawImageAttr.SkipRight'' ST_HWPUNIT64 VS_Scalar AS_Image RO_Direct (ProfileBit PF_EditableObjects) RC_Semantic WR_ReadOnly,
    rule 11004 PD_Image ''ShapeDrawImageAttr.SkipTop'' ST_HWPUNIT64 VS_Scalar AS_Image RO_Direct (ProfileBit PF_EditableObjects) RC_Semantic WR_ReadOnly,
    rule 11005 PD_Image ''ShapeDrawImageAttr.SkipBottom'' ST_HWPUNIT64 VS_Scalar AS_Image RO_Direct (ProfileBit PF_EditableObjects) RC_Semantic WR_ReadOnly,
    rule 11006 PD_Image ''HShapeObject.Rotation'' ST_Sint64 VS_Scalar AS_Image RO_Direct (ProfileBit PF_EditableObjects) RC_Semantic WR_ReadOnly,
    rule 11007 PD_Image ''HShapeObject.FlipHorizontal'' ST_Bool VS_Scalar AS_Image RO_Direct (ProfileBit PF_EditableObjects) RC_Semantic WR_ReadOnly,
    rule 11008 PD_Image ''HShapeObject.FlipVertical'' ST_Bool VS_Scalar AS_Image RO_Direct (ProfileBit PF_EditableObjects) RC_Semantic WR_ReadOnly,
    rule 11009 PD_Image ''ShapeDrawImageAttr.Transparency'' ST_Sint64 VS_Scalar AS_Image RO_Direct (ProfileBit PF_EditableObjects) RC_Semantic WR_ReadOnly,
    rule 11010 PD_Image ''ShapeDrawImageAttr.FileName'' ST_UTF16 VS_Scalar AS_ImageBinary RO_Direct (ProfileBit PF_BinaryContent) RC_Capture WR_ReadOnly,
    rule 12000 PD_Layout ''Hwp.CurrentPage@NodeStart'' ST_Uint64 VS_Scalar AS_LayoutAll RO_Generated (ProfileBit PF_Layout) RC_Layout WR_ReadOnly,
    rule 12001 PD_Layout ''Hwp.CurrentPage@NodeEnd'' ST_Uint64 VS_Scalar AS_LayoutAll RO_Generated (ProfileBit PF_Layout) RC_Layout WR_ReadOnly,
    rule 12002 PD_Layout ''HShapeObject.Width@Readback'' ST_HWPUNIT64 VS_Scalar AS_LayoutControl RO_Generated (ProfileBit PF_Layout) RC_Layout WR_ReadOnly,
    rule 12003 PD_Layout ''HShapeObject.Height@Readback'' ST_HWPUNIT64 VS_Scalar AS_LayoutControl RO_Generated (ProfileBit PF_Layout) RC_Layout WR_ReadOnly,
    (rule 13000 PD_DocumentMetadata ''SummaryInfo.Title'' ST_UTF16 VS_Scalar AS_DocumentMetadata RO_Direct (ProfileBit PF_Structure) RC_Semantic WR_ReadOnly)\<lparr>pr_requirement := RQC_OptionalObserved, pr_qualifiers := kQualifierNone\<rparr>,
    (rule 13001 PD_DocumentMetadata ''SummaryInfo.Subject'' ST_UTF16 VS_Scalar AS_DocumentMetadata RO_Direct (ProfileBit PF_Structure) RC_Semantic WR_ReadOnly)\<lparr>pr_requirement := RQC_OptionalObserved, pr_qualifiers := kQualifierNone\<rparr>,
    (rule 13002 PD_DocumentMetadata ''SummaryInfo.Author'' ST_UTF16 VS_Scalar AS_DocumentMetadata RO_Direct (ProfileBit PF_Structure) RC_Semantic WR_ReadOnly)\<lparr>pr_requirement := RQC_OptionalObserved, pr_qualifiers := kQualifierNone\<rparr>,
    (rule 13003 PD_DocumentMetadata ''SummaryInfo.Date'' ST_UTF16 VS_Scalar AS_DocumentMetadata RO_Direct (ProfileBit PF_Structure) RC_Semantic WR_ReadOnly)\<lparr>pr_requirement := RQC_OptionalObserved, pr_qualifiers := kQualifierNone\<rparr>,
    (rule 13004 PD_DocumentMetadata ''SummaryInfo.KeyWords'' ST_UTF16 VS_Scalar AS_DocumentMetadata RO_Direct (ProfileBit PF_Structure) RC_Semantic WR_ReadOnly)\<lparr>pr_requirement := RQC_OptionalObserved, pr_qualifiers := kQualifierNone\<rparr>,
    (rule 13005 PD_DocumentMetadata ''SummaryInfo.Comments'' ST_UTF16 VS_Scalar AS_DocumentMetadata RO_Direct (ProfileBit PF_Structure) RC_Semantic WR_ReadOnly)\<lparr>pr_requirement := RQC_OptionalObserved, pr_qualifiers := kQualifierNone\<rparr>,
    (rule 13006 PD_DocumentMetadata ''SummaryInfo.CreationTime'' ST_Uint64 VS_Scalar AS_DocumentMetadata RO_Direct (ProfileBit PF_Structure) RC_Capture WR_ReadOnly)\<lparr>pr_requirement := RQC_OptionalObserved, pr_qualifiers := kQualifierNone, pr_sourceContract := SC_LowHighUint32, pr_lowPath := Some ''SummaryInfo.CreationTimeLow'', pr_highPath := Some ''SummaryInfo.CreationTimeHigh''\<rparr>,
    (rule 13007 PD_DocumentMetadata ''SummaryInfo.ModifiedTime'' ST_Uint64 VS_Scalar AS_DocumentMetadata RO_Direct (ProfileBit PF_Structure) RC_Capture WR_ReadOnly)\<lparr>pr_requirement := RQC_OptionalObserved, pr_qualifiers := kQualifierNone, pr_sourceContract := SC_LowHighUint32, pr_lowPath := Some ''SummaryInfo.ModifiedTimeLow'', pr_highPath := Some ''SummaryInfo.ModifiedTimeHigh''\<rparr>,
    (rule 13008 PD_DocumentMetadata ''SummaryInfo.PrintedTime'' ST_Uint64 VS_Scalar AS_DocumentMetadata RO_Direct (ProfileBit PF_Structure) RC_Capture WR_ReadOnly)\<lparr>pr_requirement := RQC_OptionalObserved, pr_qualifiers := kQualifierNone, pr_sourceContract := SC_LowHighUint32, pr_lowPath := Some ''SummaryInfo.PrintedTimeLow'', pr_highPath := Some ''SummaryInfo.PrintedTimeHigh''\<rparr>,
    (rule 13009 PD_DocumentMetadata ''SummaryInfo.LastSavedBy'' ST_UTF16 VS_Scalar AS_DocumentMetadata RO_Direct (ProfileBit PF_Structure) RC_Capture WR_ReadOnly)\<lparr>pr_requirement := RQC_OptionalObserved, pr_qualifiers := kQualifierNone\<rparr>,
    (rule 13010 PD_DocumentMetadata ''SummaryInfo.DocVersion'' ST_UTF16 VS_Scalar AS_DocumentMetadata RO_Direct (ProfileBit PF_Structure) RC_Capture WR_ReadOnly)\<lparr>pr_requirement := RQC_OptionalObserved, pr_qualifiers := kQualifierNone\<rparr>]"

definition kWithdrawnPropertyKeyIdsV1 :: "PropertyKeyId list" where
  "kWithdrawnPropertyKeyIdsV1 = [1015, 1016, 1017, 7103]"

definition kPropertyAliasesV1 :: "(string \<times> PropertyKeyId) list" where
  "kPropertyAliasesV1 =
     [(''HCharShape.OutLineType'', 1018), (''HParaShape.KeepLines'', 2009), (''HParaShape.PageBreakBefore'', 2010),
      (''HCellBorderFill.BorderColorLeft'', 5002)]"

subsection \<open>Lookups\<close>

definition FindPropertyRule :: "PropertyKeyId \<Rightarrow> PropertyRule option" where
  "FindPropertyRule key = List.find (\<lambda>r. pr_id r = key) kPropertyRegistryV1"

text \<open>Strings that end at a null character; \<open>None\<close> is a null pointer.\<close>

fun wide_equal :: "wstring \<Rightarrow> wstring \<Rightarrow> bool" where
  "wide_equal [] [] = True"
| "wide_equal [] (d # ds) = (d = 0)"
| "wide_equal (c # cs) [] = (c = 0)"
| "wide_equal (c # cs) (d # ds) = (if c \<noteq> 0 \<and> c = d then wide_equal cs ds else c = d)"

definition WideEqual :: "wstring option \<Rightarrow> wstring option \<Rightarrow> bool" where
  "WideEqual left right =
    (case (left, right) of (Some l, Some r) \<Rightarrow> wide_equal l r | _ \<Rightarrow> False)"

definition FindPropertyRuleByMemberPath :: "wstring option \<Rightarrow> PropertyRule option" where
  "FindPropertyRuleByMemberPath path =
    (case List.find (\<lambda>r. WideEqual (Some (L (pr_path r))) path) kPropertyRegistryV1 of
       Some r \<Rightarrow> Some r
     | None \<Rightarrow> case List.find (\<lambda>(alias, key). WideEqual (Some (L alias)) path) kPropertyAliasesV1 of
         Some (alias, key) \<Rightarrow> FindPropertyRule key
       | None \<Rightarrow> None)"

definition MissingPropertySatisfiesCompleteness :: "PropertyRule \<Rightarrow> bool \<Rightarrow> bool" where
  "MissingPropertySatisfiesCompleteness r applicable \<longleftrightarrow> \<not> applicable \<or> pr_requirement r = RQC_OptionalObserved"

definition ObservationSatisfiesCompleteness :: "PropertyRule \<Rightarrow> ObservationState \<Rightarrow> bool \<Rightarrow> bool" where
  "ObservationSatisfiesCompleteness r state applicable =
    (if \<not> applicable then True
     else if pr_requirement r = RQC_OptionalObserved then True
     else state = OS_Value)"

definition FindPropertyApplicabilityRule :: "PropertyApplicabilitySet \<Rightarrow> applicability_tuple list option" where
  "FindPropertyApplicabilityRule s = map_option snd (List.find (\<lambda>(s', tuples). s' = s) kPropertyApplicabilityRulesV1)"

fun applicable_tuples :: "applicability_tuple list \<Rightarrow> NodeKind \<Rightarrow> FieldTag \<Rightarrow> bool \<Rightarrow> DefinitionKind \<Rightarrow> bool" where
  "applicable_tuples [] node ownerField hasDefinitionKind definitionKind = False"
| "applicable_tuples ((n, tag, restricted, d) # tuples) node ownerField hasDefinitionKind definitionKind =
    (if n \<noteq> node \<or> tag \<noteq> ownerField then applicable_tuples tuples node ownerField hasDefinitionKind definitionKind
     else if \<not> restricted then True
     else if hasDefinitionKind \<and> d = definitionKind then True
     else applicable_tuples tuples node ownerField hasDefinitionKind definitionKind)"

definition IsPropertyApplicable :: "PropertyRule \<Rightarrow> NodeKind \<Rightarrow> FieldTag \<Rightarrow> bool \<Rightarrow> DefinitionKind \<Rightarrow> bool" where
  "IsPropertyApplicable r node ownerField hasDefinitionKind definitionKind =
    (case FindPropertyApplicabilityRule (pr_applicabilitySet r) of
       None \<Rightarrow> False
     | Some tuples \<Rightarrow> applicable_tuples tuples node ownerField hasDefinitionKind definitionKind)"

fun sorted_ids :: "PropertyKeyId \<Rightarrow> PropertyRule list \<Rightarrow> bool" where
  "sorted_ids prior [] = True"
| "sorted_ids prior (r # rs) = (if prior \<ge> pr_id r then False else sorted_ids (pr_id r) rs)"

definition IsRegistrySortedUnique :: bool where
  "IsRegistrySortedUnique = sorted_ids (pr_id (hd kPropertyRegistryV1)) (tl kPropertyRegistryV1)"

subsection \<open>What the table guarantees\<close>

lemma registry_sorted: IsRegistrySortedUnique
  by code_simp

lemma sorted_ids_wrt: "sorted_ids prior rs \<Longrightarrow> sorted_wrt (<) (map pr_id rs) \<and> (\<forall>r \<in> set rs. prior < pr_id r)"
proof (induction prior rs rule: sorted_ids.induct)
  case (2 prior r rs)
  then have "prior < pr_id r" "sorted_wrt (<) (map pr_id rs)" "\<forall>x \<in> set rs. pr_id r < pr_id x"
    by (auto simp: not_le split: if_split_asm)
  then show ?case by (auto intro: order.strict_trans)
qed simp

lemma registry_ids: "distinct (map pr_id kPropertyRegistryV1)"
proof -
  obtain r rs where table: "kPropertyRegistryV1 = r # rs"
    by (simp add: kPropertyRegistryV1_def)
  have "sorted_wrt (<) (map pr_id (r # rs))"
    using registry_sorted sorted_ids_wrt [of "pr_id r" rs] by (simp add: IsRegistrySortedUnique_def table)
  then show ?thesis
    unfolding table by (simp only: strict_sorted_iff)
qed

lemma find_distinct:
  "distinct (map f xs) \<Longrightarrow> List.find (\<lambda>x. f x = k) xs = Some x \<longleftrightarrow> x \<in> set xs \<and> f x = k"
  by (induction xs) (auto simp: image_iff)

lemma FindPropertyRule_iff: "FindPropertyRule key = Some r \<longleftrightarrow> r \<in> set kPropertyRegistryV1 \<and> pr_id r = key"
  unfolding FindPropertyRule_def by (rule find_distinct [OF registry_ids])

lemma registry_read_only: "r \<in> set kPropertyRegistryV1 \<Longrightarrow> pr_writability r = WR_ReadOnly"
proof -
  have "list_all (\<lambda>r. pr_writability r = WR_ReadOnly) kPropertyRegistryV1"
    by (simp add: kPropertyRegistryV1_def rule_def)
  then show "r \<in> set kPropertyRegistryV1 \<Longrightarrow> pr_writability r = WR_ReadOnly"
    by (simp add: list_all_iff)
qed

lemma registry_applicability:
  "r \<in> set kPropertyRegistryV1 \<Longrightarrow> \<exists>tuples. FindPropertyApplicabilityRule (pr_applicabilitySet r) = Some tuples \<and> tuples \<noteq> []"
  by (cases "pr_applicabilitySet r") (simp_all add: FindPropertyApplicabilityRule_def kPropertyApplicabilityRulesV1_def)

lemma withdrawn_keys: "list_all (\<lambda>key. FindPropertyRule key = None) kWithdrawnPropertyKeyIdsV1"
  by code_simp

lemma alias_keys: "list_all (\<lambda>(alias, key). FindPropertyRule key \<noteq> None) kPropertyAliasesV1"
  by code_simp

end
