(* ===== verification/GraphPatch.thy ===== *)
theory GraphPatch
  imports FieldCodec PropertyRegistry "HOL-Library.List_Lexorder" "HOL-Library.Multiset"
begin

section \<open>Document patches (DocumentGraphPatch.cpp)\<close>

text \<open>
  A patch names a certified version of the graph, the identities its author has made up, and a list
  of operations; each replaces one value of one node, and states the value it expects to find. A
  patch has one canonical form: identities and operations sorted, operations without effect dropped,
  several operations on one value chained. \<open>Normalize\<close> computes and checks it,
  \<open>EncodeCanonicalPatchV1\<close> writes it, \<open>ParseCanonicalPatchV1\<close> reads nothing else, and
  \<open>InvertPatchV1\<close> computes the patch that undoes it.

  An operation's property key is \<open>None\<close> where the source's flag says that there is none. The kinds
  and scalar tags are the values of their enumerations, so the range checks of \<open>Normalize\<close> on them
  have nothing to refuse. Failed allocations (\<open>StorageFailure\<close>) and null pointers are not modelled.
\<close>

subsection \<open>Patches\<close>

datatype OperationKind = ReplaceText | ReplaceProperties | ReplaceReferences | ReplaceChildren | ReplaceBlob

definition kind_code :: "OperationKind \<Rightarrow> u8" where
  "kind_code k = (case k of ReplaceText \<Rightarrow> 0 | ReplaceProperties \<Rightarrow> 1 | ReplaceReferences \<Rightarrow> 2 | ReplaceChildren \<Rightarrow> 3
     | ReplaceBlob \<Rightarrow> 4)"

definition kind_of :: "u8 \<Rightarrow> OperationKind" where
  "kind_of c = (if c = 0 then ReplaceText else if c = 1 then ReplaceProperties else if c = 2 then ReplaceReferences
     else if c = 3 then ReplaceChildren else ReplaceBlob)"

datatype PatchError =
    PE_None | PE_StorageFailure | PE_LengthOverflow | PE_BadField | PE_BadSchema | PE_CrossVersion | PE_NotAtomic
  | PE_BadOperation | PE_MissingBefore | PE_OutOfOrder | PE_ReadOnlyProperty | PE_SequentialCas | PE_BadReference
  | PE_BadClientLocalId

record OperationV1 =
  op_kind :: OperationKind
  op_target :: Uuid128
  op_subject :: FieldTag
  op_propertyKey :: "PropertyKeyId option"
  op_scalar :: ScalarTag
  op_before :: bytes
  op_after :: bytes

record DocumentPatchV1 =
  dp_version :: GraphVersionV1
  dp_clientLocalIds :: "Uuid128 list"
  dp_operations :: "OperationV1 list"

type_synonym op_key = "Uuid128 \<times> u8 \<times> u16 \<times> u32"

definition OperationKey :: "OperationV1 \<Rightarrow> op_key" where
  "OperationKey opn = (op_target opn, kind_code (op_kind opn), op_subject opn,
     case op_propertyKey opn of Some k \<Rightarrow> k | None \<Rightarrow> 0)"

definition SameOperation :: "OperationV1 \<Rightarrow> OperationV1 \<Rightarrow> bool" where
  "SameOperation left right \<longleftrightarrow> OperationKey left = OperationKey right \<and> op_scalar left = op_scalar right \<and>
     (op_propertyKey left = None \<longleftrightarrow> op_propertyKey right = None) \<and> op_before left = op_before right \<and>
     op_after left = op_after right"

subsection \<open>The canonical form\<close>

definition ValidId :: "Uuid128 \<Rightarrow> bool" where
  "ValidId uuid = IsRfc4122V4 uuid"

fun check_locals :: "Uuid128 option \<Rightarrow> Uuid128 list \<Rightarrow> bool" where
  "check_locals prior [] = True"
| "check_locals prior (u # us) = (if \<not> ValidId u \<or> prior = Some u then False else check_locals (Some u) us)"

text \<open>The identities of a list of references: blocks of 16 bytes.\<close>

fun uuid_blocks :: "nat \<Rightarrow> bytes \<Rightarrow> Uuid128 list" where
  "uuid_blocks 0 v = []"
| "uuid_blocks (Suc n) v = take 16 v # uuid_blocks n (drop 16 v)"

definition references :: "bytes \<Rightarrow> Uuid128 list" where
  "references v = uuid_blocks (length v div 16) v"

definition has_references :: "OperationV1 \<Rightarrow> bool" where
  "has_references opn \<longleftrightarrow> op_kind opn = ReplaceReferences \<or> op_kind opn = ReplaceChildren"

definition check_property :: "OperationV1 \<Rightarrow> PatchError" where
  "check_property opn =
    (if op_kind opn = ReplaceProperties then
       (case Option.bind (op_propertyKey opn) FindPropertyRule of
          None \<Rightarrow> PE_BadOperation
        | Some r \<Rightarrow> if pr_writability r \<noteq> WR_Writable then PE_ReadOnlyProperty else PE_None)
     else if op_propertyKey opn \<noteq> None then PE_BadOperation
     else PE_None)"

definition check_values :: "OperationV1 \<Rightarrow> PatchError" where
  "check_values opn =
    (if has_references opn then
       (if op_scalar opn \<noteq> ST_UUID128 \<or> length (op_before opn) mod 16 \<noteq> 0 \<or> length (op_after opn) mod 16 \<noteq> 0 then PE_BadReference
        else if \<exists>u \<in> set (references (op_before opn) @ references (op_after opn)). \<not> ValidId u then PE_BadReference
        else PE_None)
     else if op_kind opn = ReplaceBlob then
       (if op_scalar opn \<noteq> ST_Struct \<or> length (op_before opn) \<noteq> 56 \<or> length (op_after opn) \<noteq> 56 then PE_BadOperation else PE_None)
     else if ValidateCanonicalScalar (op_scalar opn) (op_before opn) \<noteq> CE_None \<or>
       ValidateCanonicalScalar (op_scalar opn) (op_after opn) \<noteq> CE_None then PE_BadOperation
     else PE_None)"

text \<open>\<open>prior\<close> maps the key of each value changed so far to what it was changed to; the result is the
  identities made up by the patch that its references name.\<close>

fun check_operations ::
  "Uuid128 list \<Rightarrow> (op_key \<rightharpoonup> bytes) \<Rightarrow> OperationV1 list \<Rightarrow> PatchError + Uuid128 list" where
  "check_operations locals prior [] = Inr []"
| "check_operations locals prior (opn # ops) =
    (if \<not> ValidId (op_target opn) \<or> op_target opn \<in> set locals then Inl PE_BadOperation
     else if check_property opn \<noteq> PE_None then Inl (check_property opn)
     else if (case prior (OperationKey opn) of Some after \<Rightarrow> after \<noteq> op_before opn | None \<Rightarrow> False) then Inl PE_SequentialCas
     else if check_values opn \<noteq> PE_None then Inl (check_values opn)
     else bindE (check_operations locals (prior(OperationKey opn \<mapsto> op_after opn)) ops) (\<lambda>observed.
       Inr ((if has_references opn
             then filter (\<lambda>u. u \<in> set locals) (references (op_before opn) @ references (op_after opn)) else []) @ observed)))"

definition Patch_Normalize :: "DocumentPatchV1 \<Rightarrow> PatchError + DocumentPatchV1" where
  "Patch_Normalize patch =
    (if \<not> gv_semanticCertified (dp_version patch) then Inl PE_CrossVersion
     else let locals = sort (dp_clientLocalIds patch);
              ops = sort_key OperationKey (filter (\<lambda>opn. op_before opn \<noteq> op_after opn) (dp_operations patch))
       in if \<not> check_locals None locals then Inl PE_BadClientLocalId
          else bindE (check_operations locals Map.empty ops) (\<lambda>observed.
            if set observed = set locals then Inr (patch\<lparr>dp_clientLocalIds := locals, dp_operations := ops\<rparr>)
            else Inl PE_BadClientLocalId))"

definition InvertPatchV1 :: "DocumentPatchV1 \<Rightarrow> PatchError + DocumentPatchV1" where
  "InvertPatchV1 patch =
     bindE (Patch_Normalize patch) (\<lambda>canonical.
       Inr (canonical\<lparr>dp_operations := sort_key OperationKey
         (map (\<lambda>opn. opn\<lparr>op_before := op_after opn, op_after := op_before opn\<rparr>) (rev (dp_operations canonical)))\<rparr>))"

subsection \<open>What the canonical form is\<close>

definition key_ops :: "op_key \<Rightarrow> OperationV1 list \<Rightarrow> OperationV1 list" where
  "key_ops k ops = filter (\<lambda>opn. OperationKey opn = k) ops"

text \<open>The operations on one value are chained: each expects what the one before it wrote.\<close>

fun chain_from :: "bytes option \<Rightarrow> OperationV1 list \<Rightarrow> bool" where
  "chain_from p [] = True"
| "chain_from p (opn # ops) \<longleftrightarrow> (case p of Some after \<Rightarrow> after = op_before opn | None \<Rightarrow> True) \<and>
     chain_from (Some (op_after opn)) ops"

definition op_ok :: "Uuid128 list \<Rightarrow> OperationV1 \<Rightarrow> bool" where
  "op_ok locals opn \<longleftrightarrow> ValidId (op_target opn) \<and> op_target opn \<notin> set locals \<and> check_property opn = PE_None \<and>
     check_values opn = PE_None"

definition named_locals :: "Uuid128 list \<Rightarrow> OperationV1 \<Rightarrow> Uuid128 set" where
  "named_locals locals opn =
     (if has_references opn then set locals \<inter> set (references (op_before opn) @ references (op_after opn)) else {})"

lemma key_ops_Cons: "key_ops k (opn # ops) = (if OperationKey opn = k then opn # key_ops k ops else key_ops k ops)"
  by (simp add: key_ops_def)

lemma check_operations_iff:
  "(\<exists>observed. check_operations locals prior ops = Inr observed \<and> set observed = names) \<longleftrightarrow>
     (\<forall>opn \<in> set ops. op_ok locals opn) \<and> (\<forall>k. chain_from (prior k) (key_ops k ops)) \<and>
     names = (\<Union>opn \<in> set ops. named_locals locals opn)"
proof (induction ops arbitrary: prior names)
  case (Cons opn ops)
  let ?prior = "prior(OperationKey opn \<mapsto> op_after opn)"
  show ?case
  proof (cases "op_ok locals opn \<and> (case prior (OperationKey opn) of Some after \<Rightarrow> after = op_before opn | None \<Rightarrow> True)")
    case False
    then have "\<not> (\<exists>observed. check_operations locals prior (opn # ops) = Inr observed)"
      by (auto simp: op_ok_def split: option.splits)
    moreover have "\<not> (op_ok locals opn \<and> chain_from (prior (OperationKey opn)) (key_ops (OperationKey opn) (opn # ops)))"
      using False by (auto simp: key_ops_Cons)
    ultimately show ?thesis by (metis list.set_intros(1))
  next
    case True
    let ?named = "if has_references opn
      then filter (\<lambda>u. u \<in> set locals) (references (op_before opn) @ references (op_after opn)) else []"
    have named: "set ?named = named_locals locals opn"
      by (auto simp: named_locals_def)
    have step: "check_operations locals prior (opn # ops) =
        bindE (check_operations locals ?prior ops) (\<lambda>observed. Inr (?named @ observed))"
      using True by (auto simp: op_ok_def split: option.splits)
    have "chain_from (prior k) (key_ops k (opn # ops)) \<longleftrightarrow> chain_from (?prior k) (key_ops k ops)" for k
      using True by (cases "OperationKey opn = k") (auto simp: key_ops_Cons)
    then have chain: "(\<forall>k. chain_from (prior k) (key_ops k (opn # ops))) \<longleftrightarrow> (\<forall>k. chain_from (?prior k) (key_ops k ops))"
      by (simp only:)
    have "(\<exists>observed. check_operations locals prior (opn # ops) = Inr observed \<and> set observed = names) \<longleftrightarrow>
        (\<exists>rest. (\<exists>observed. check_operations locals ?prior ops = Inr observed \<and> set observed = rest) \<and>
          names = named_locals locals opn \<union> rest)"
      unfolding step using named by (auto simp: bindE_Inr_iff)
    also have "\<dots> \<longleftrightarrow> (\<forall>opn \<in> set ops. op_ok locals opn) \<and> (\<forall>k. chain_from (?prior k) (key_ops k ops)) \<and>
        names = named_locals locals opn \<union> (\<Union>opn \<in> set ops. named_locals locals opn)"
      unfolding Cons.IH by blast
    finally show ?thesis
      using True chain by (simp del: split_paired_All check_operations.simps)
  qed
qed (auto simp: key_ops_def)

definition canonical :: "DocumentPatchV1 \<Rightarrow> bool" where
  "canonical p \<longleftrightarrow> gv_semanticCertified (dp_version p) \<and> sorted (dp_clientLocalIds p) \<and>
     check_locals None (dp_clientLocalIds p) \<and> sorted (map OperationKey (dp_operations p)) \<and>
     (\<forall>opn \<in> set (dp_operations p). op_before opn \<noteq> op_after opn \<and> op_ok (dp_clientLocalIds p) opn) \<and>
     (\<forall>k. chain_from None (key_ops k (dp_operations p))) \<and>
     set (dp_clientLocalIds p) = (\<Union>opn \<in> set (dp_operations p). named_locals (dp_clientLocalIds p) opn)"

lemma Normalize_canonical:
  assumes "Patch_Normalize p = Inr c"
  shows "canonical c" "dp_version c = dp_version p" "dp_clientLocalIds c = sort (dp_clientLocalIds p)"
    "dp_operations c = sort_key OperationKey (filter (\<lambda>opn. op_before opn \<noteq> op_after opn) (dp_operations p))"
proof -
  let ?locals = "sort (dp_clientLocalIds p)"
  let ?ops = "sort_key OperationKey (filter (\<lambda>opn. op_before opn \<noteq> op_after opn) (dp_operations p))"
  obtain observed where "gv_semanticCertified (dp_version p)" "check_locals None ?locals"
      "check_operations ?locals Map.empty ?ops = Inr observed" "set observed = set ?locals"
      and c: "c = p\<lparr>dp_clientLocalIds := ?locals, dp_operations := ?ops\<rparr>"
    using assms by (auto simp: Patch_Normalize_def Let_def bindE_Inr_iff split: if_split_asm)
  then show "canonical c"
    using check_operations_iff [of ?locals Map.empty ?ops "set ?locals"] by (auto simp: canonical_def)
  show "dp_version c = dp_version p" "dp_clientLocalIds c = ?locals" "dp_operations c = ?ops"
    by (simp_all add: c)
qed

lemma canonical_Normalize: "canonical c \<Longrightarrow> Patch_Normalize c = Inr c"
proof -
  assume c: "canonical c"
  then have ops: "sort_key OperationKey (filter (\<lambda>opn. op_before opn \<noteq> op_after opn) (dp_operations c)) = dp_operations c"
    by (simp add: canonical_def filter_id_conv [THEN iffD2] sorted_sort_id sort_key_id_if_sorted)
  have locals: "sort (dp_clientLocalIds c) = dp_clientLocalIds c"
    using c by (simp add: canonical_def sorted_sort_id)
  obtain observed where "check_operations (dp_clientLocalIds c) Map.empty (dp_operations c) = Inr observed"
      "set observed = set (dp_clientLocalIds c)"
    using c check_operations_iff [of "dp_clientLocalIds c" Map.empty "dp_operations c" "set (dp_clientLocalIds c)"]
    by (auto simp: canonical_def)
  then show "Patch_Normalize c = Inr c"
    using c unfolding Patch_Normalize_def locals ops Let_def by (simp add: canonical_def)
qed

subsection \<open>The inverse of a patch\<close>

definition swap_values :: "OperationV1 \<Rightarrow> OperationV1" where
  "swap_values opn = opn\<lparr>op_before := op_after opn, op_after := op_before opn\<rparr>"

definition invert_ops :: "OperationV1 list \<Rightarrow> OperationV1 list" where
  "invert_ops ops = sort_key OperationKey (map swap_values (rev ops))"

lemma InvertPatchV1_alt: "InvertPatchV1 p = map_sum id (\<lambda>c. c\<lparr>dp_operations := invert_ops (dp_operations c)\<rparr>) (Patch_Normalize p)"
  by (simp add: InvertPatchV1_def invert_ops_def swap_values_def [abs_def] bindE_def split: sum.split)

lemma swap_simps [simp]:
  "op_before (swap_values opn) = op_after opn" "op_after (swap_values opn) = op_before opn"
  "OperationKey (swap_values opn) = OperationKey opn" "op_target (swap_values opn) = op_target opn"
  "has_references (swap_values opn) = has_references opn" "swap_values (swap_values opn) = opn"
  "check_property (swap_values opn) = check_property opn"
  by (simp_all add: swap_values_def OperationKey_def has_references_def check_property_def)

lemma swap_op_ok [simp]: "op_ok locals (swap_values opn) = op_ok locals opn"
proof -
  have "check_values (swap_values opn) = PE_None \<longleftrightarrow> check_values opn = PE_None"
    by (cases "has_references opn"; cases "op_kind opn = ReplaceBlob")
      (auto simp: check_values_def swap_values_def has_references_def)
  then show ?thesis by (simp add: op_ok_def)
qed

lemma swap_named [simp]: "named_locals locals (swap_values opn) = named_locals locals opn"
  by (auto simp: named_locals_def)

lemma set_invert_ops [simp]: "set (invert_ops ops) = swap_values ` set ops"
  by (simp add: invert_ops_def)

lemma key_ops_swap_rev: "key_ops k (map swap_values (rev ops)) = map swap_values (rev (key_ops k ops))"
  by (simp add: key_ops_def filter_map rev_filter comp_def)

lemma key_ops_invert: "key_ops k (invert_ops ops) = map swap_values (rev (key_ops k ops))"
  unfolding key_ops_swap_rev [symmetric] by (simp add: key_ops_def invert_ops_def sort_key_stable)

lemma chain_from_chain: "chain_from None ops \<longleftrightarrow> successively (\<lambda>x y. op_after x = op_before y) ops"
proof -
  have "chain_from (Some (op_after x)) zs \<longleftrightarrow> successively (\<lambda>x y. op_after x = op_before y) (x # zs)" for x zs
    by (induction zs arbitrary: x) auto
  then show ?thesis by (cases ops) auto
qed

lemma chain_from_invert: "chain_from None (map swap_values (rev ops)) \<longleftrightarrow> chain_from None ops"
proof -
  have "successively (\<lambda>x y. op_before y = op_after x) ops = successively (\<lambda>x y. op_after x = op_before y) ops"
    by (rule arg_cong [where f = "\<lambda>P. successively P ops"]) (auto simp: fun_eq_iff)
  then show ?thesis
    by (simp add: chain_from_chain successively_map successively_rev)
qed

lemma canonical_invert:
  assumes "canonical c"
  shows "canonical (c\<lparr>dp_operations := invert_ops (dp_operations c)\<rparr>)"
  using assms by (auto simp: canonical_def key_ops_invert chain_from_invert simp del: split_paired_All intro: sorted_sort_key)
    (auto simp: invert_ops_def)

lemma same_by_key:
  assumes "sorted (map f xs)" "\<And>k. filter (\<lambda>x. f x = k) ys = filter (\<lambda>x. f x = k) xs"
  shows "sort_key f ys = xs"
proof (rule properties_for_sort_key)
  show "mset xs = mset ys"
  proof (rule multiset_eqI)
    fix a
    have "count (mset zs) a = count (mset (filter (\<lambda>x. f x = f a) zs)) a" for zs
      by (simp add: mset_filter)
    then show "count (mset xs) a = count (mset ys) a" by (metis assms(2))
  qed
  show "filter (\<lambda>x. f k = f x) xs = filter (\<lambda>x. f k = f x) ys" if "k \<in> set xs" for k
    using assms(2) [of "f k"] by (simp add: eq_commute)
  show "sorted (map f xs)" by (rule assms(1))
qed

lemma invert_invert:
  assumes "sorted (map OperationKey ops)"
  shows "invert_ops (invert_ops ops) = ops"
proof -
  have "key_ops k (map swap_values (rev (invert_ops ops))) = key_ops k ops" for k
    by (simp add: key_ops_swap_rev key_ops_invert rev_map comp_def)
  then show ?thesis
    unfolding invert_ops_def [of "invert_ops ops"] by (intro same_by_key [OF assms]) (simp add: key_ops_def)
qed

text \<open>
  A document, as far as patches see it, is the value at every key. An operation replaces one value
  and fails when it finds another than the one it states.
\<close>

fun apply_ops :: "OperationV1 list \<Rightarrow> (op_key \<Rightarrow> bytes) \<Rightarrow> (op_key \<Rightarrow> bytes) option" where
  "apply_ops [] s = Some s"
| "apply_ops (opn # ops) s =
     (if s (OperationKey opn) = op_before opn then apply_ops ops (s(OperationKey opn := op_after opn)) else None)"

fun walk :: "OperationV1 list \<Rightarrow> bytes \<Rightarrow> bytes option" where
  "walk [] v = Some v"
| "walk (opn # ops) v = (if v = op_before opn then walk ops (op_after opn) else None)"

lemma apply_ops_walk: "apply_ops ops s = Some s' \<longleftrightarrow> (\<forall>k. walk (key_ops k ops) (s k) = Some (s' k))"
proof (induction ops arbitrary: s)
  case Nil
  then show ?case by (auto simp: key_ops_def fun_eq_iff simp del: split_paired_All)
next
  case (Cons opn ops)
  let ?s = "s(OperationKey opn := op_after opn)"
  show ?case
  proof (cases "s (OperationKey opn) = op_before opn")
    case True
    have "walk (key_ops k (opn # ops)) (s k) = walk (key_ops k ops) (?s k)" for k
      using True by (simp add: key_ops_Cons)
    then have "(\<forall>k. walk (key_ops k (opn # ops)) (s k) = Some (s' k)) \<longleftrightarrow> apply_ops ops ?s = Some s'"
      by (simp only: Cons.IH [of ?s])
    moreover have "apply_ops (opn # ops) s = apply_ops ops ?s" using True by simp
    ultimately show ?thesis by (simp only:)
  next
    case False
    then have "walk (key_ops (OperationKey opn) (opn # ops)) (s (OperationKey opn)) = None"
      by (simp add: key_ops_Cons)
    with False show ?thesis by (metis apply_ops.simps(2) option.distinct(1))
  qed
qed

lemma walk_append: "walk (xs @ ys) v = Option.bind (walk xs v) (walk ys)"
  by (induction xs arbitrary: v) auto

lemma walk_invert: "walk xs v = Some v' \<longleftrightarrow> walk (map swap_values (rev xs)) v' = Some v"
  by (induction xs arbitrary: v) (auto simp: walk_append bind_eq_Some_conv split: if_splits)

text \<open>Claim C30. Inverting a patch twice gives its canonical form, and a patch and its inverse undo each other:
  whenever the patch leads from one document to another, the inverse leads back.\<close>

theorem InvertPatch_undoes:
  assumes "InvertPatchV1 p = Inr q"
  shows "\<exists>c. Patch_Normalize p = Inr c \<and> InvertPatchV1 q = Inr c \<and>
    (\<forall>s s'. apply_ops (dp_operations c) s = Some s' \<longleftrightarrow> apply_ops (dp_operations q) s' = Some s)"
proof -
  obtain c where c: "Patch_Normalize p = Inr c" "q = c\<lparr>dp_operations := invert_ops (dp_operations c)\<rparr>"
    using assms by (cases "Patch_Normalize p") (auto simp: InvertPatchV1_alt)
  have canon: "canonical c" by (rule Normalize_canonical(1) [OF c(1)])
  then have "Patch_Normalize q = Inr q"
    using canonical_Normalize [OF canonical_invert] by (simp add: c(2))
  then have "InvertPatchV1 q = Inr c"
    using canon invert_invert [of "dp_operations c"] by (simp add: InvertPatchV1_alt c(2) canonical_def)
  moreover have "apply_ops (dp_operations c) s = Some s' \<longleftrightarrow> apply_ops (dp_operations q) s' = Some s" for s s'
    unfolding apply_ops_walk c(2) by (simp add: key_ops_invert walk_invert [symmetric] del: split_paired_All)
  ultimately show ?thesis
    using c(1) by blast
qed

text \<open>No property of the registry may be written, so a patch that changes a property is refused.\<close>

lemma no_property_patch:
  assumes "Patch_Normalize p = Inr c" "opn \<in> set (dp_operations c)"
  shows "op_kind opn \<noteq> ReplaceProperties"
proof
  assume kind: "op_kind opn = ReplaceProperties"
  have "check_property opn = PE_None"
    using Normalize_canonical(1) [OF assms(1)] assms(2) by (simp add: canonical_def op_ok_def)
  then obtain k r where "FindPropertyRule k = Some r" "pr_writability r = WR_Writable"
    using kind by (auto simp: check_property_def bind_eq_Some_conv split: option.splits if_split_asm)
  then show False
    using registry_read_only FindPropertyRule_iff by fastforce
qed

text \<open>A patch with two chained operations on one text and one on another, in the wrong order.\<close>

definition sample_text :: "OperationV1" where
  "sample_text = \<lparr>op_kind = ReplaceText, op_target = sample_uuid, op_subject = 3, op_propertyKey = None,
     op_scalar = ST_Uint8, op_before = [1], op_after = [2]\<rparr>"

definition sample_document_patch :: DocumentPatchV1 where
  "sample_document_patch = \<lparr>dp_version = sample_version, dp_clientLocalIds = [],
     dp_operations = [sample_text\<lparr>op_subject := 4\<rparr>, sample_text, sample_text\<lparr>op_before := [2], op_after := [9]\<rparr>]\<rparr>"

lemma sample_document_patch_normalizes: "\<exists>c. Patch_Normalize sample_document_patch = Inr c"
proof -
  have "isl (Patch_Normalize sample_document_patch) = False" by code_simp
  then show ?thesis by (cases "Patch_Normalize sample_document_patch") auto
qed

theorem InvertPatch_undoes_witness:
  "\<exists>q c. InvertPatchV1 sample_document_patch = Inr q \<and> InvertPatchV1 q = Inr c \<and>
     (\<forall>s s'. apply_ops (dp_operations c) s = Some s' \<longleftrightarrow> apply_ops (dp_operations q) s' = Some s)"
proof -
  obtain c where "Patch_Normalize sample_document_patch = Inr c"
    using sample_document_patch_normalizes by blast
  then obtain q where q: "InvertPatchV1 sample_document_patch = Inr q"
    by (simp add: InvertPatchV1_alt)
  from InvertPatch_undoes [OF q] q show ?thesis by blast
qed

end
