(* ===== verification/PatchCodec.thy ===== *)
theory PatchCodec
  imports GraphPatch
begin

section \<open>The wire form of patches (DocumentGraphPatch.cpp)\<close>

text \<open>
  A patch is a message of five fields: schema, the atomic flag, the serialized version, the array of
  identities and the array of operations, each operation a message of its own. The parser refuses
  every byte string that is not what the encoder writes for some canonical patch.
\<close>

subsection \<open>Reading fields\<close>

definition Exact :: "Field option \<Rightarrow> ScalarTag \<Rightarrow> nat \<Rightarrow> bool" where
  "Exact field t n \<longleftrightarrow>
    (case field of None \<Rightarrow> False
     | Some f \<Rightarrow> fl_flags f = 1 \<and> fl_scalar f = t \<and> fl_elementCount f = 1 \<and> length (fl_value f) = n)"

definition field_value :: "Field option \<Rightarrow> bytes" where
  "field_value field = (case field of None \<Rightarrow> [] | Some f \<Rightarrow> fl_value f)"

definition ExactTags :: "Field list \<Rightarrow> FieldTag list \<Rightarrow> bool" where
  "ExactTags fs tags \<longleftrightarrow> length fs = length tags \<and> list_all2 (\<lambda>f t. fl_tag f = t) fs tags"

definition ReadId :: "Field option \<Rightarrow> Uuid128 option" where
  "ReadId field =
    (if \<not> Exact field ST_UUID128 16 then None
     else if ValidId (take 16 (field_value field)) then Some (take 16 (field_value field)) else None)"

subsection \<open>Arrays\<close>

fun array_elements :: "nat \<Rightarrow> bytes \<Rightarrow> bytes list option" where
  "array_elements 0 v = (if v = [] then Some [] else None)"
| "array_elements (Suc k) v =
    (if length v < 8 then None
     else let n = unat (Get64 v); v = drop 8 v
       in if n > length v then None else map_option (\<lambda>es. take n v # es) (array_elements k (drop n v)))"

definition ParseArray :: "Field option \<Rightarrow> ScalarTag \<Rightarrow> bytes list option" where
  "ParseArray field t =
    (case field of None \<Rightarrow> None
     | Some f \<Rightarrow>
         if fl_flags f \<noteq> 3 \<or> fl_scalar f \<noteq> t \<or> length (fl_value f) < 16 \<or> Get16 (fl_value f) \<noteq> scalar_raw t \<or>
           Get16 (drop 2 (fl_value f)) \<noteq> 0 \<or> Get32 (drop 4 (fl_value f)) \<noteq> 0 \<or>
           Get64 (drop 8 (fl_value f)) \<noteq> fl_elementCount f then None
         else array_elements (unat (fl_elementCount f)) (drop 16 (fl_value f)))"

definition Array :: "ScalarTag \<Rightarrow> bytes list \<Rightarrow> bytes" where
  "Array t vs = bytes16 (scalar_raw t) @ bytes16 0 @ bytes32 0 @ bytes64 (size64 vs) @
     concat (map (\<lambda>v. bytes64 (size64 v) @ v) vs)"

subsection \<open>Operations\<close>

definition BytesScalar :: "bytes \<Rightarrow> bytes" where
  "BytesScalar v = bytes64 (size64 v) @ v"

definition EncodeOperation :: "OperationV1 \<Rightarrow> bytes" where
  "EncodeOperation opn =
     EncodeField 1 1 ST_Uint8 [kind_code (op_kind opn)] 1 @
     EncodeField 2 1 ST_UUID128 (op_target opn) 1 @
     EncodeField 3 1 ST_Uint16 (bytes16 (op_subject opn)) 1 @
     (case op_propertyKey opn of None \<Rightarrow> [] | Some key \<Rightarrow> EncodeField 4 1 ST_Uint32 (bytes32 key) 1) @
     EncodeField 5 1 ST_Uint16 (bytes16 (scalar_raw (op_scalar opn))) 1 @
     EncodeField 6 1 ST_Bytes (BytesScalar (op_before opn)) 1 @
     EncodeField 7 1 ST_Bytes (BytesScalar (op_after opn)) 1"

definition bytes_field_ok :: "Field option \<Rightarrow> bool" where
  "bytes_field_ok field \<longleftrightarrow>
    (case field of None \<Rightarrow> False
     | Some f \<Rightarrow> fl_scalar f = ST_Bytes \<and> fl_flags f = 1 \<and> \<not> length (fl_value f) < 8 \<and>
         unat (Get64 (fl_value f)) = length (fl_value f) - 8)"

definition decode_operation_fields :: "Field list \<Rightarrow> PatchError + OperationV1" where
  "decode_operation_fields fs =
    (let kind = Find_field fs 1; subject = Find_field fs 3; scalar = Find_field fs 5;
         before = Find_field fs 6; after = Find_field fs 7; prop = Find_field fs 4
     in if \<not> Exact kind ST_Uint8 1 \<or> ReadId (Find_field fs 2) = None \<or> \<not> Exact subject ST_Uint16 2 \<or>
          \<not> Exact scalar ST_Uint16 2 \<or> \<not> bytes_field_ok before \<or> \<not> bytes_field_ok after \<or>
          field_value kind ! 0 > 4 then Inl PE_MissingBefore
        else if Get16 (field_value scalar) > 17 then Inl PE_BadOperation
        else if prop \<noteq> None \<and> \<not> Exact prop ST_Uint32 4 then Inl PE_BadOperation
        else Inr
          \<lparr>op_kind = kind_of (field_value kind ! 0), op_target = the (ReadId (Find_field fs 2)),
           op_subject = Get16 (field_value subject), op_propertyKey = map_option (\<lambda>f. Get32 (fl_value f)) prop,
           op_scalar = scalar_of (Get16 (field_value scalar)), op_before = drop 8 (field_value before),
           op_after = drop 8 (field_value after)\<rparr>)"

definition DecodeOperation :: "bytes \<Rightarrow> PatchError + OperationV1" where
  "DecodeOperation encoded =
    (case ParseFields encoded of
       None \<Rightarrow> Inl PE_BadOperation
     | Some fs \<Rightarrow>
         if \<not> ExactTags fs [1, 2, 3, 5, 6, 7] \<and> \<not> ExactTags fs [1, 2, 3, 4, 5, 6, 7] then Inl PE_BadOperation
         else decode_operation_fields fs)"

fun decode_operations :: "bytes list \<Rightarrow> PatchError + OperationV1 list" where
  "decode_operations [] = Inr []"
| "decode_operations (e # es) = bindE (DecodeOperation e) (\<lambda>opn. bindE (decode_operations es) (\<lambda>ops. Inr (opn # ops)))"

subsection \<open>Patches\<close>

definition encode_patch_fields :: "DocumentPatchV1 \<Rightarrow> bytes \<Rightarrow> bytes" where
  "encode_patch_fields p versionBytes =
     EncodeField 1 1 ST_Uint16 (bytes16 1) 1 @
     EncodeField 2 1 ST_Bool [1] 1 @
     EncodeField 3 1 ST_Struct versionBytes 1 @
     EncodeField 4 3 ST_UUID128 (Array ST_UUID128 (dp_clientLocalIds p)) (size64 (dp_clientLocalIds p)) @
     EncodeField 5 3 ST_Struct (Array ST_Struct (map EncodeOperation (dp_operations p))) (size64 (dp_operations p))"

definition EncodeCanonicalPatchV1 :: "DocumentPatchV1 \<Rightarrow> PatchError + bytes" where
  "EncodeCanonicalPatchV1 patch =
     bindE (Patch_Normalize patch) (\<lambda>canonical.
       case SerializeGraphVersion (dp_version canonical) of
         Inl _ \<Rightarrow> Inl PE_CrossVersion
       | Inr version \<Rightarrow> Inr (encode_patch_fields canonical version))"

text \<open>The version, the identities and the operations of a message of five fields.\<close>

definition read_patch_fields :: "Field list \<Rightarrow> GraphVersionV1 \<Rightarrow> PatchError + DocumentPatchV1" where
  "read_patch_fields fs expectedVersion =
    (let schema = Find_field fs 1; atomic = Find_field fs 2; versionField = Find_field fs 3
     in if \<not> Exact schema ST_Uint16 2 \<or> Get16 (field_value schema) \<noteq> 1 then Inl PE_BadSchema
        else if \<not> Exact atomic ST_Bool 1 \<or> field_value atomic ! 0 \<noteq> 1 then Inl PE_NotAtomic
        else if \<not> Exact versionField ST_Struct kGraphVersionBytesV1 then Inl PE_CrossVersion
        else case DeserializeGraphVersion (field_value versionField) of
            Inl _ \<Rightarrow> Inl PE_CrossVersion
          | Inr version \<Rightarrow>
              if \<not> PatchVersionCas version expectedVersion then Inl PE_CrossVersion
              else case (ParseArray (Find_field fs 4) ST_UUID128, ParseArray (Find_field fs 5) ST_Struct) of
                  (Some locals, Some operations) \<Rightarrow>
                    if \<exists>l \<in> set locals. length l \<noteq> 16 then Inl PE_BadClientLocalId
                    else bindE (decode_operations operations) (\<lambda>ops.
                      Inr \<lparr>dp_version = version, dp_clientLocalIds = locals, dp_operations = ops\<rparr>)
                | _ \<Rightarrow> Inl PE_BadField)"

definition same_patch :: "DocumentPatchV1 \<Rightarrow> DocumentPatchV1 \<Rightarrow> bool" where
  "same_patch original parsed \<longleftrightarrow>
     length (dp_clientLocalIds original) = length (dp_clientLocalIds parsed) \<and>
     length (dp_operations original) = length (dp_operations parsed) \<and>
     list_all2 EqualUuid (dp_clientLocalIds original) (dp_clientLocalIds parsed) \<and>
     list_all2 SameOperation (dp_operations original) (dp_operations parsed)"

definition ParseCanonicalPatchV1 :: "bytes \<Rightarrow> GraphVersionV1 \<Rightarrow> PatchError + DocumentPatchV1" where
  "ParseCanonicalPatchV1 b expectedVersion =
    (case ParseFields b of
       None \<Rightarrow> Inl PE_BadField
     | Some fs \<Rightarrow>
         if \<not> ExactTags fs [1, 2, 3, 4, 5] then Inl PE_BadField
         else bindE (read_patch_fields fs expectedVersion) (\<lambda>original.
              bindE (Patch_Normalize original) (\<lambda>parsed.
              if \<not> same_patch original parsed then Inl PE_OutOfOrder
              else case EncodeCanonicalPatchV1 parsed of
                  Inl _ \<Rightarrow> Inl PE_OutOfOrder
                | Inr written \<Rightarrow> if written \<noteq> b then Inl PE_OutOfOrder else Inr parsed)))"

subsection \<open>Receipts\<close>

definition EncodeValidationReceiptPayloadV1 :: "Uuid128 \<Rightarrow> Sha256 \<Rightarrow> u64 \<Rightarrow> Sha256 \<Rightarrow> bytes option" where
  "EncodeValidationReceiptPayloadV1 upload canonicalDigest operationCount inverseDigest =
    (if \<not> ValidId upload then None
     else Some (EncodeField 1 1 ST_UUID128 upload 1 @ EncodeField 2 1 ST_Uint8 [2] 1 @
       EncodeField 3 1 ST_SHA256 canonicalDigest 1 @ EncodeField 4 1 ST_Uint64 (bytes64 operationCount) 1 @
       EncodeField 5 1 ST_SHA256 inverseDigest 1))"

subsection \<open>What the encoders write\<close>

definition arr_field :: "FieldTag \<Rightarrow> ScalarTag \<Rightarrow> bytes list \<Rightarrow> Field" where
  "arr_field tag t vs = \<lparr>fl_tag = tag, fl_flags = 3, fl_scalar = t, fl_elementCount = size64 vs, fl_value = Array t vs\<rparr>"

lemma length_frames: "length (concat (map (\<lambda>v. bytes64 (size64 v) @ v) vs)) = sum_list (map (\<lambda>v. 8 + length v) vs)"
  by (induction vs) simp_all

lemma length_Array: "length (Array t vs) = 16 + sum_list (map (\<lambda>v. 8 + length v) vs)"
  by (simp add: Array_def length_frames)

lemma member_size: "v \<in> set vs \<Longrightarrow> length v \<le> sum_list (map (\<lambda>v. 8 + length v) vs)"
  by (induction vs) auto

lemma list_size: "length vs \<le> sum_list (map (\<lambda>v. 8 + length v) vs)"
  by (induction vs) auto

lemma protocol_elements_frames:
  "\<forall>v \<in> set vs. length v < 2 ^ 64 \<and> ValidateCanonicalScalar t v = CE_None \<Longrightarrow>
     protocol_elements t (length vs) (concat (map (\<lambda>v. bytes64 (size64 v) @ v) vs))"
  by (induction vs) (simp_all add: unat_size64 Let_def)

lemma array_elements_frames:
  "\<forall>v \<in> set vs. length v < 2 ^ 64 \<Longrightarrow>
     array_elements (length vs) (concat (map (\<lambda>v. bytes64 (size64 v) @ v) vs)) = Some vs"
  by (induction vs) (simp_all add: unat_size64 Let_def)

lemma Array_reads:
  "Get16 (Array t vs) = scalar_raw t" "Get16 (drop 2 (Array t vs)) = 0" "Get32 (drop 4 (Array t vs)) = 0"
  "Get64 (drop 8 (Array t vs)) = size64 vs" "drop 16 (Array t vs) = concat (map (\<lambda>v. bytes64 (size64 v) @ v) vs)"
  by (simp_all add: Array_def drop_append)

lemma field_ok_arr:
  assumes "tag \<noteq> 0" "\<forall>v \<in> set vs. ValidateCanonicalScalar t v = CE_None" "length (Array t vs) < 2 ^ 64"
  shows "field_ok (arr_field tag t vs)"
proof -
  have small: "\<forall>v \<in> set vs. length v < 2 ^ 64" "length vs < 2 ^ 64"
    using assms(3) member_size [of _ vs] list_size [of vs] by (force simp: length_Array)+
  have "protocol_elements t (unat (size64 vs)) (drop 16 (Array t vs))"
    using protocol_elements_frames [of vs t] assms(2) small by (simp add: Array_reads(5) unat_size64)
  then show ?thesis
    using assms by (simp add: field_ok_def arr_field_def ValidateFieldValue_def Array_reads(1-4) length_Array)
qed

lemma ParseArray_arr:
  assumes "length (Array t vs) < 2 ^ 64"
  shows "ParseArray (Some (arr_field tag t vs)) t = Some vs"
proof -
  have small: "\<forall>v \<in> set vs. length v < 2 ^ 64" "length vs < 2 ^ 64"
    using assms member_size [of _ vs] list_size [of vs] by (force simp: length_Array)+
  then have "array_elements (unat (size64 vs)) (drop 16 (Array t vs)) = Some vs"
    by (simp add: Array_reads(5) unat_size64 array_elements_frames)
  then show ?thesis
    by (simp add: ParseArray_def arr_field_def Array_reads(1-4) length_Array)
qed

lemma EncodeField_arr:
  "field_ok (arr_field tag t vs) \<Longrightarrow> EncodeField tag 3 t (Array t vs) (size64 vs) = field_bytes (arr_field tag t vs)"
  using encode_field_bytes [of "arr_field tag t vs"] by (simp add: encode_field_def arr_field_def)

subsection \<open>An operation read back\<close>

definition op_fields :: "OperationV1 \<Rightarrow> Field list" where
  "op_fields opn =
     [req_field 1 ST_Uint8 [kind_code (op_kind opn)], req_field 2 ST_UUID128 (op_target opn),
      req_field 3 ST_Uint16 (bytes16 (op_subject opn))] @
     (case op_propertyKey opn of None \<Rightarrow> [] | Some key \<Rightarrow> [req_field 4 ST_Uint32 (bytes32 key)]) @
     [req_field 5 ST_Uint16 (bytes16 (scalar_raw (op_scalar opn))), req_field 6 ST_Bytes (BytesScalar (op_before opn)),
      req_field 7 ST_Bytes (BytesScalar (op_after opn))]"

definition op_shape :: "OperationV1 \<Rightarrow> bool" where
  "op_shape opn \<longleftrightarrow> length (op_target opn) = 16 \<and> length (op_before opn) + 8 < 2 ^ 64 \<and> length (op_after opn) + 8 < 2 ^ 64"

lemma BytesScalar_BytesValue: "BytesScalar v = BytesValue v"
  by (simp add: BytesScalar_def BytesValue_def)

lemma op_fields_ok:
  assumes "op_shape opn"
  shows "\<forall>f \<in> set (op_fields opn). field_ok f"
proof -
  have bytes: "field_ok (req_field tag ST_Bytes (BytesScalar v))" if "tag \<noteq> 0" "length v + 8 < 2 ^ 64" for tag v
    using that by (intro field_ok_req) (simp_all add: BytesScalar_BytesValue canonical_BytesValue, simp add: BytesValue_def)
  have fixed: "field_ok (req_field tag t v)"
    if "tag \<noteq> 0" "FixedScalarBytes t \<noteq> 0" "length v = FixedScalarBytes t" "t \<notin> {ST_Bool, ST_Float64}" "length v < 2 ^ 64"
    for tag t v
    using that by (intro field_ok_req canonical_fixed)
  show ?thesis
    using assms by (auto simp: op_fields_def op_shape_def FixedScalarBytes_def intro!: bytes fixed split: option.splits)
qed

lemma EncodeOperation_bytes:
  assumes "op_shape opn"
  shows "EncodeOperation opn = concat (map field_bytes (op_fields opn))"
  using op_fields_ok [OF assms] unfolding EncodeOperation_def op_fields_def
  by (cases "op_propertyKey opn") (simp_all add: EncodeField_req)

lemma op_fields_ascending: "ascending None (op_fields opn)"
  by (simp add: op_fields_def req_field_def split: option.splits)

lemma ParseFields_operation:
  "op_shape opn \<Longrightarrow> ParseFields (EncodeOperation opn) = Some (op_fields opn)"
  unfolding ParseFields_def by (simp add: EncodeOperation_bytes parse_fields_concat op_fields_ascending op_fields_ok)

lemma Exact_req [simp]: "Exact (Some (req_field tag t v)) t' n \<longleftrightarrow> t = t' \<and> length v = n"
  by (auto simp: Exact_def req_field_def)

lemma field_value_req [simp]: "field_value (Some (req_field tag t v)) = v"
  by (simp add: field_value_def req_field_def)

lemma ReadId_req: "length u = 16 \<Longrightarrow> ValidId u \<Longrightarrow> ReadId (Some (req_field tag ST_UUID128 u)) = Some u"
  by (simp add: ReadId_def)

lemma bytes_field_req: "length v + 8 < 2 ^ 64 \<Longrightarrow> bytes_field_ok (Some (req_field tag ST_Bytes (BytesScalar v)))"
  by (simp add: bytes_field_ok_def) (simp add: req_field_def BytesScalar_def unat_size64)

lemma kind_code_inverse [simp]: "kind_of (kind_code k) = k" "\<not> 4 < kind_code k"
  by (cases k; simp add: kind_code_def kind_of_def)+

lemma op_fields_find:
  "Find_field (op_fields opn) 1 = Some (req_field 1 ST_Uint8 [kind_code (op_kind opn)])"
  "Find_field (op_fields opn) 2 = Some (req_field 2 ST_UUID128 (op_target opn))"
  "Find_field (op_fields opn) 3 = Some (req_field 3 ST_Uint16 (bytes16 (op_subject opn)))"
  "Find_field (op_fields opn) 4 = map_option (\<lambda>key. req_field 4 ST_Uint32 (bytes32 key)) (op_propertyKey opn)"
  "Find_field (op_fields opn) 5 = Some (req_field 5 ST_Uint16 (bytes16 (scalar_raw (op_scalar opn))))"
  "Find_field (op_fields opn) 6 = Some (req_field 6 ST_Bytes (BytesScalar (op_before opn)))"
  "Find_field (op_fields opn) 7 = Some (req_field 7 ST_Bytes (BytesScalar (op_after opn)))"
  by (simp_all add: Find_field_def op_fields_def split: option.splits)

lemma Get16_self [simp]: "Get16 (bytes16 v) = v"
  using Get16_bytes16 [of v "[]"] by simp

lemma Get32_self [simp]: "Get32 (bytes32 v) = v"
  using Get32_bytes32 [of v "[]"] by simp

lemma drop_BytesScalar [simp]: "drop 8 (BytesScalar v) = v"
  by (simp add: BytesScalar_def)

lemma op_fields_tags: "ExactTags (op_fields opn) [1, 2, 3, 5, 6, 7] \<or> ExactTags (op_fields opn) [1, 2, 3, 4, 5, 6, 7]"
  by (cases "op_propertyKey opn") (simp_all add: ExactTags_def op_fields_def)

lemma decode_op_fields:
  assumes "op_shape opn" "ValidId (op_target opn)"
  shows "decode_operation_fields (op_fields opn) = Inr opn"
proof -
  have "op_propertyKey opn = map_option (\<lambda>f. Get32 (fl_value f)) (Find_field (op_fields opn) 4)"
    by (cases "op_propertyKey opn") (simp_all add: op_fields_find)
  moreover have "Find_field (op_fields opn) 4 = None \<or> Exact (Find_field (op_fields opn) 4) ST_Uint32 4"
    by (cases "op_propertyKey opn") (simp_all add: op_fields_find)
  ultimately show ?thesis
    using assms unfolding decode_operation_fields_def op_fields_find(1,2,3,5,6,7) op_shape_def Let_def
    by (simp add: ReadId_req bytes_field_req)
qed

lemma DecodeOperation_Encode:
  "op_shape opn \<Longrightarrow> ValidId (op_target opn) \<Longrightarrow> DecodeOperation (EncodeOperation opn) = Inr opn"
  using op_fields_tags [of opn] by (auto simp: DecodeOperation_def ParseFields_operation decode_op_fields)

lemma decode_operations_Encode:
  "\<forall>opn \<in> set ops. op_shape opn \<and> ValidId (op_target opn) \<Longrightarrow> decode_operations (map EncodeOperation ops) = Inr ops"
  by (induction ops) (simp_all add: DecodeOperation_Encode bindE_def)

subsection \<open>A patch read back\<close>

definition patch_fields :: "DocumentPatchV1 \<Rightarrow> Field list" where
  "patch_fields p =
     [req_field 1 ST_Uint16 (bytes16 1), req_field 2 ST_Bool [1], req_field 3 ST_Struct (wire_form (dp_version p)),
      arr_field 4 ST_UUID128 (dp_clientLocalIds p), arr_field 5 ST_Struct (map EncodeOperation (dp_operations p))]"

definition patch_size :: "DocumentPatchV1 \<Rightarrow> nat" where
  "patch_size p = 512 + 24 * length (dp_clientLocalIds p) +
     sum_list (map (\<lambda>opn. 256 + length (op_before opn) + length (op_after opn)) (dp_operations p))"

text \<open>A patch whose parts have the lengths of their types and that fits in the address space.\<close>

definition patch_shape :: "DocumentPatchV1 \<Rightarrow> bool" where
  "patch_shape p \<longleftrightarrow> version_shape (dp_version p) \<and> (\<forall>u \<in> set (dp_clientLocalIds p). length u = 16) \<and>
     (\<forall>opn \<in> set (dp_operations p). length (op_target opn) = 16) \<and> patch_size p < 2 ^ 64"

lemma patch_op_size:
  "opn \<in> set (dp_operations p) \<Longrightarrow> 512 + 256 + length (op_before opn) + length (op_after opn) \<le> patch_size p"
  using member_le_sum_list [of "256 + length (op_before opn) + length (op_after opn)"
      "map (\<lambda>opn. 256 + length (op_before opn) + length (op_after opn)) (dp_operations p)"]
  by (force simp: patch_size_def)

lemma patch_ops_shape: "patch_shape p \<Longrightarrow> opn \<in> set (dp_operations p) \<Longrightarrow> op_shape opn"
  using patch_op_size [of opn p] by (auto simp: patch_shape_def op_shape_def)

lemma length_operation:
  "op_shape opn \<Longrightarrow> length (EncodeOperation opn) \<le> 248 + length (op_before opn) + length (op_after opn)"
  unfolding EncodeOperation_bytes
  by (auto simp: op_shape_def op_fields_def req_field_def BytesScalar_def split: option.splits)

lemma length_operations:
  "\<forall>opn \<in> set ops. op_shape opn \<Longrightarrow> length (Array ST_Struct (map EncodeOperation ops)) \<le>
     16 + sum_list (map (\<lambda>opn. 256 + length (op_before opn) + length (op_after opn)) ops)"
proof (induction ops)
  case (Cons opn ops)
  then show ?case
    using length_operation [of opn] by (simp add: length_Array)
qed (simp add: length_Array)

lemma length_locals:
  "\<forall>u \<in> set us. length u = 16 \<Longrightarrow> length (Array t us) = 16 + 24 * length us"
  by (induction us) (simp_all add: length_Array)

lemma length_wire_form: "version_shape v \<Longrightarrow> length (wire_form v) = 168"
  by (simp add: version_shape_def wire_form_def)

lemma patch_lengths:
  assumes "patch_shape p"
  shows "length (Array ST_UUID128 (dp_clientLocalIds p)) < 2 ^ 64"
    "length (Array ST_Struct (map EncodeOperation (dp_operations p))) < 2 ^ 64"
  using assms patch_ops_shape [OF assms] length_operations [of "dp_operations p"]
    length_locals [of "dp_clientLocalIds p" ST_UUID128]
  by (auto simp: patch_shape_def patch_size_def)

lemma patch_fields_ok:
  assumes "patch_shape p"
  shows "\<forall>f \<in> set (patch_fields p). field_ok f"
proof -
  have "length (wire_form (dp_version p)) = 168"
    using assms by (simp add: patch_shape_def length_wire_form)
  moreover have "\<forall>u \<in> set (dp_clientLocalIds p). ValidateCanonicalScalar ST_UUID128 u = CE_None"
    using assms by (auto simp: patch_shape_def FixedScalarBytes_def intro!: canonical_fixed)
  moreover have "ValidateCanonicalScalar ST_Bool [1] = CE_None" "ValidateCanonicalScalar ST_Uint16 (bytes16 1) = CE_None"
    by code_simp+
  ultimately show ?thesis
    using patch_lengths [OF assms] by (auto simp: patch_fields_def intro!: field_ok_req field_ok_arr)
qed

lemma encode_patch_bytes:
  assumes "patch_shape p"
  shows "encode_patch_fields p (wire_form (dp_version p)) = concat (map field_bytes (patch_fields p))"
  using patch_fields_ok [OF assms] unfolding encode_patch_fields_def patch_fields_def
  by (simp add: EncodeField_req) (metis EncodeField_arr length_map size64_def)

lemma tag_arr [simp]: "fl_tag (arr_field tag t vs) = tag"
  by (simp add: arr_field_def)

lemma ParseFields_patch:
  assumes "patch_shape p"
  shows "ParseFields (encode_patch_fields p (wire_form (dp_version p))) = Some (patch_fields p)"
proof -
  have "ascending None (patch_fields p)" by (simp add: patch_fields_def)
  then show ?thesis
    using patch_fields_ok [OF assms] by (simp add: ParseFields_def encode_patch_bytes assms parse_fields_concat)
qed

lemma patch_fields_find:
  "Find_field (patch_fields p) 1 = Some (req_field 1 ST_Uint16 (bytes16 1))"
  "Find_field (patch_fields p) 2 = Some (req_field 2 ST_Bool [1])"
  "Find_field (patch_fields p) 3 = Some (req_field 3 ST_Struct (wire_form (dp_version p)))"
  "Find_field (patch_fields p) 4 = Some (arr_field 4 ST_UUID128 (dp_clientLocalIds p))"
  "Find_field (patch_fields p) 5 = Some (arr_field 5 ST_Struct (map EncodeOperation (dp_operations p)))"
  by (simp_all add: Find_field_def patch_fields_def)

lemma read_patch_Encode:
  assumes "patch_shape p" "ValidateGraphVersion (dp_version p) = GV_None" "PatchVersionCas (dp_version p) v"
    and "\<forall>opn \<in> set (dp_operations p). ValidId (op_target opn)"
  shows "read_patch_fields (patch_fields p) v = Inr p"
proof -
  have shape: "version_shape (dp_version p)" "\<not> (\<exists>u \<in> set (dp_clientLocalIds p). length u \<noteq> 16)"
    using assms(1) by (auto simp: patch_shape_def)
  have ops: "decode_operations (map EncodeOperation (dp_operations p)) = Inr (dp_operations p)"
    using assms(4) patch_ops_shape [OF assms(1)] by (intro decode_operations_Encode) auto
  show ?thesis
    using shape assms(3) unfolding read_patch_fields_def patch_fields_find Let_def
    by (simp add: length_wire_form kGraphVersionBytesV1_def Deserialize_wire_form assms(2)
        ParseArray_arr [OF patch_lengths(1) [OF assms(1)]] ParseArray_arr [OF patch_lengths(2) [OF assms(1)]] ops bindE_def)
qed

lemma same_patch_refl [simp]: "same_patch p p"
  by (auto simp: same_patch_def SameOperation_def EqualUuid_def list_all2_same)

lemma Encode_Inr:
  "EncodeCanonicalPatchV1 p = Inr b \<longleftrightarrow>
    (\<exists>c w. Patch_Normalize p = Inr c \<and> SerializeGraphVersion (dp_version c) = Inr w \<and> b = encode_patch_fields c w)"
  unfolding EncodeCanonicalPatchV1_def bindE_Inr_iff
  by (intro ex_cong1 conj_cong refl) (auto split: sum.splits)


lemma canonical_targets: "canonical p \<Longrightarrow> \<forall>opn \<in> set (dp_operations p). ValidId (op_target opn)"
  by (auto simp: canonical_def op_ok_def)

lemma Parse_of_Encode:
  assumes "patch_shape p" "EncodeCanonicalPatchV1 p = Inr b" "Patch_Normalize p = Inr p" "PatchVersionCas (dp_version p) v"
  shows "ParseCanonicalPatchV1 b v = Inr p"
proof -
  obtain w where w: "SerializeGraphVersion (dp_version p) = Inr w" "b = encode_patch_fields p w"
    using assms(2,3) by (auto simp: Encode_Inr)
  then have valid: "ValidateGraphVersion (dp_version p) = GV_None"
    by (auto simp: SerializeGraphVersion_def Let_def split: if_splits)
  have "w = wire_form (dp_version p)"
    using w(1) Serialize_wire_form [of "dp_version p"] valid assms(1) by (simp add: patch_shape_def)
  then have parsed: "ParseFields b = Some (patch_fields p)"
    using w(2) assms(1) by (simp add: ParseFields_patch)
  have "read_patch_fields (patch_fields p) v = Inr p"
    using assms valid canonical_targets [OF Normalize_canonical(1)] by (intro read_patch_Encode) auto
  moreover have "ExactTags (patch_fields p) [1, 2, 3, 4, 5]"
    by (simp add: ExactTags_def patch_fields_def)
  ultimately show ?thesis
    using assms(2,3) parsed by (simp add: ParseCanonicalPatchV1_def bindE_def)
qed

lemma read_patch_version:
  assumes "read_patch_fields fs v = Inr p"
  shows "PatchVersionCas (dp_version p) v"
  using assms unfolding read_patch_fields_def Let_def
  by (auto simp: bindE_Inr_iff split: if_split_asm sum.splits option.splits)

lemma Encode_of_Parse:
  assumes "ParseCanonicalPatchV1 b v = Inr p"
  shows "EncodeCanonicalPatchV1 p = Inr b \<and> Patch_Normalize p = Inr p \<and> PatchVersionCas (dp_version p) v"
proof -
  obtain fs original where o: "read_patch_fields fs v = Inr original" "Patch_Normalize original = Inr p"
    "EncodeCanonicalPatchV1 p = Inr b"
    using assms by (auto simp: ParseCanonicalPatchV1_def bindE_Inr_iff split: option.splits if_split_asm sum.splits)
  then show ?thesis
    using read_patch_version [OF o(1)] Normalize_canonical [OF o(2)] canonical_Normalize [of p] by metis
qed

text \<open>Claim C31. Patches round trip and have one wire form: for a patch that fits in the address space, the
  parser reads it from a message exactly when the patch is in canonical form, its version is the
  certified one that the reader expects, and the message is the one that the encoder writes. No
  other spelling of it is accepted.\<close>

theorem patch_codec:
  assumes "patch_shape p"
  shows "ParseCanonicalPatchV1 b v = Inr p \<longleftrightarrow>
    EncodeCanonicalPatchV1 p = Inr b \<and> Patch_Normalize p = Inr p \<and> PatchVersionCas (dp_version p) v"
  using Encode_of_Parse Parse_of_Encode [OF assms] by blast

definition sample_text_patch :: DocumentPatchV1 where
  "sample_text_patch = \<lparr>dp_version = sample_version, dp_clientLocalIds = [], dp_operations =
     [\<lparr>op_kind = ReplaceText, op_target = sample_uuid, op_subject = 9, op_propertyKey = None, op_scalar = ST_Uint16,
       op_before = [1, 0], op_after = [2, 0]\<rparr>]\<rparr>"

lemma sample_patch_facts:
  "patch_shape sample_text_patch" "Patch_Normalize sample_text_patch = Inr sample_text_patch"
  "PatchVersionCas (dp_version sample_text_patch) sample_version"
  "\<exists>b. EncodeCanonicalPatchV1 sample_text_patch = Inr b"
proof -
  have version: "version_shape sample_version" "length sample_uuid = 16" "ValidateGraphVersion sample_version = GV_None"
    by code_simp+
  then show "patch_shape sample_text_patch"
    by (simp add: patch_shape_def patch_size_def sample_text_patch_def)
  have "isl (Patch_Normalize sample_text_patch) = False" by code_simp
  then obtain c where c: "Patch_Normalize sample_text_patch = Inr c"
    by (cases "Patch_Normalize sample_text_patch") auto
  from Normalize_canonical(2-4) [OF this] have "c = sample_text_patch"
    by (simp add: sample_text_patch_def)
  with c show normal: "Patch_Normalize sample_text_patch = Inr sample_text_patch" by simp
  show "PatchVersionCas (dp_version sample_text_patch) sample_version" by code_simp
  show "\<exists>b. EncodeCanonicalPatchV1 sample_text_patch = Inr b"
    using normal Serialize_wire_form [of sample_version] version by (auto simp: Encode_Inr sample_text_patch_def)
qed

theorem patch_codec_witness:
  "\<exists>b. EncodeCanonicalPatchV1 sample_text_patch = Inr b \<and>
       ParseCanonicalPatchV1 b sample_version = Inr sample_text_patch"
  using sample_patch_facts patch_codec [OF sample_patch_facts(1), of _ sample_version] by blast

end
