(* ===== verification/WireQuery.thy ===== *)
theory WireQuery
  imports FieldCodec PropertyRegistry
begin

section \<open>Queries on the wire (DocumentGraphProtocol.cpp)\<close>

text \<open>
  A query selects nodes of a captured graph. On the wire it is a message of fields with an array of
  predicates; the decoder reads it, and \<open>RequiredClosedProfileBits\<close> computes the capture profiles it
  needs. The readers of fields that the whole protocol shares come first. Where a function answers
  false, the model answers \<open>None\<close>; the error code that it leaves is given only where a caller
  reports it.
\<close>

subsection \<open>Readers of fields\<close>

definition ExactField :: "Field option \<Rightarrow> ScalarTag \<Rightarrow> nat \<Rightarrow> bool \<Rightarrow> bool" where
  "ExactField field t n required \<longleftrightarrow>
    (case field of None \<Rightarrow> False
     | Some f \<Rightarrow> fl_scalar f = t \<and> length (fl_value f) = n \<and> fl_elementCount f = 1 \<and>
         fl_flags f = (if required then 1 else 0))"

definition Protocol_ExactTags :: "Field list \<Rightarrow> FieldTag list \<Rightarrow> FieldTag list \<Rightarrow> bool" where
  "Protocol_ExactTags fs required optional \<longleftrightarrow>
     (\<forall>tag \<in> set required. case Find_field fs tag of None \<Rightarrow> False | Some f \<Rightarrow> fl_flags f AND 1 \<noteq> 0) \<and>
     (\<forall>f \<in> set fs. fl_tag f \<in> set required \<or> fl_tag f \<in> set optional)"

definition the_value :: "Field option \<Rightarrow> bytes" where
  "the_value field = (case field of None \<Rightarrow> [] | Some f \<Rightarrow> fl_value f)"

text \<open>An optional field: absent, of the right shape with its value, or wrong.\<close>

definition optional_field :: "Field option \<Rightarrow> ScalarTag \<Rightarrow> nat \<Rightarrow> bytes option option" where
  "optional_field field t n =
    (if field = None then Some None
     else if ExactField field t n False then Some (Some (the_value field)) else None)"

subsection \<open>Queries\<close>

datatype Axis = AX_Self | AX_Children | AX_Descendants | AX_DocumentOrder | AX_References

definition axis_of :: "u8 \<Rightarrow> Axis" where
  "axis_of c = (if c = 0 then AX_Self else if c = 1 then AX_Children else if c = 2 then AX_Descendants
     else if c = 3 then AX_DocumentOrder else AX_References)"

datatype QueryOperator = QO_Eq | QO_Ne | QO_Lt | QO_Le | QO_Gt | QO_Ge | QO_ContainsUTF16

definition operator_of :: "u8 \<Rightarrow> QueryOperator" where
  "operator_of c = (if c = 0 then QO_Eq else if c = 1 then QO_Ne else if c = 2 then QO_Lt else if c = 3 then QO_Le
     else if c = 4 then QO_Gt else if c = 5 then QO_Ge else QO_ContainsUTF16)"

record QueryPredicateV1 =
  qp_propertyKey :: "PropertyKeyId option"
  qp_operation :: QueryOperator
  qp_scalar :: ScalarTag
  qp_canonicalScalar :: bytes

record QueryV1 =
  qy_root :: "Uuid128 option"
  qy_axis :: Axis
  qy_nodeKindBits :: u64
  qy_edgeKindBits :: u64
  qy_firstPage :: "u64 option"
  qy_lastPage :: "u64 option"
  qy_predicates :: "QueryPredicateV1 list"
  qy_projectionBits :: u64
  qy_order :: u8

subsection \<open>Decoding\<close>

definition decode_predicate :: "bytes \<Rightarrow> QueryPredicateV1 option" where
  "decode_predicate b =
    (case ParseFields b of
       None \<Rightarrow> None
     | Some fs \<Rightarrow>
         if \<not> Protocol_ExactTags fs [2, 3] [1] then None
         else case optional_field (Find_field fs 1) ST_Uint32 4 of
             None \<Rightarrow> None
           | Some key \<Rightarrow>
               let operation = Find_field fs 2
               in if \<not> ExactField operation ST_Uint8 1 True \<or> the_value operation ! 0 > 6 then None
                  else case Find_field fs 3 of
                      None \<Rightarrow> None
                    | Some scalar \<Rightarrow>
                        if fl_flags scalar \<noteq> 1 \<or> fl_elementCount scalar \<noteq> 1 then None
                        else Some \<lparr>qp_propertyKey = map_option Get32 key, qp_operation = operator_of (the_value operation ! 0),
                               qp_scalar = fl_scalar scalar, qp_canonicalScalar = fl_value scalar\<rparr>)"

fun decode_predicates :: "nat \<Rightarrow> bytes \<Rightarrow> QueryPredicateV1 list option" where
  "decode_predicates 0 v = (if v = [] then Some [] else None)"
| "decode_predicates (Suc k) v =
    (if length v < 8 then None
     else let n = unat (Get64 v); v = drop 8 v
       in if n > length v then None
          else case decode_predicate (take n v) of
              None \<Rightarrow> None
            | Some p \<Rightarrow> map_option (\<lambda>ps. p # ps) (decode_predicates k (drop n v)))"

definition predicate_array_ok :: "Field option \<Rightarrow> bool" where
  "predicate_array_ok field \<longleftrightarrow>
    (case field of None \<Rightarrow> False
     | Some f \<Rightarrow> fl_flags f = 3 \<and> fl_scalar f = ST_Struct \<and> \<not> length (fl_value f) < 16)"

definition predicate_header_ok :: "Field \<Rightarrow> bool" where
  "predicate_header_ok f \<longleftrightarrow> Get16 (fl_value f) = scalar_raw ST_Struct \<and> Get16 (drop 2 (fl_value f)) = 0 \<and>
     Get32 (drop 4 (fl_value f)) = 0 \<and> Get64 (drop 8 (fl_value f)) = fl_elementCount f"

definition DecodeQueryV1 :: "bytes \<Rightarrow> QueryV1 option" where
  "DecodeQueryV1 b =
    (case ParseFields b of
       None \<Rightarrow> None
     | Some fs \<Rightarrow>
         if \<not> Protocol_ExactTags fs [2, 3, 4, 7, 8, 9] [1, 5, 6] then None
         else case optional_field (Find_field fs 1) ST_UUID128 16 of
             None \<Rightarrow> None
           | Some root \<Rightarrow>
               let axis = Find_field fs 2; nodes = Find_field fs 3; edges = Find_field fs 4;
                   predicates = Find_field fs 7; projection = Find_field fs 8; order = Find_field fs 9
               in if \<not> ExactField axis ST_Uint8 1 True \<or> the_value axis ! 0 > 4 \<or>
                    \<not> ExactField nodes ST_Uint64 8 True \<or> \<not> ExactField edges ST_Uint64 8 True \<or>
                    \<not> predicate_array_ok predicates \<or> \<not> ExactField projection ST_Uint64 8 True \<or>
                    \<not> ExactField order ST_Uint8 1 True \<or> the_value order ! 0 \<noteq> 0 then None
                  else case (optional_field (Find_field fs 5) ST_Uint64 8, optional_field (Find_field fs 6) ST_Uint64 8) of
                      (Some first, Some final) \<Rightarrow>
                        if \<not> predicate_header_ok (the predicates) then None
                        else map_option (\<lambda>ps.
                          \<lparr>qy_root = root, qy_axis = axis_of (the_value axis ! 0),
                           qy_nodeKindBits = Get64 (the_value nodes), qy_edgeKindBits = Get64 (the_value edges),
                           qy_firstPage = map_option Get64 first, qy_lastPage = map_option Get64 final,
                           qy_predicates = ps, qy_projectionBits = Get64 (the_value projection),
                           qy_order = the_value order ! 0\<rparr>)
                          (decode_predicates (unat (fl_elementCount (the predicates))) (drop 16 (the_value predicates)))
                    | _ \<Rightarrow> None)"

subsection \<open>The profiles a query needs\<close>

definition bit_set :: "u64 \<Rightarrow> nat \<Rightarrow> bool" where
  "bit_set bits n \<longleftrightarrow> bits AND push_bit n 1 \<noteq> 0"

definition any_bit :: "u64 \<Rightarrow> nat list \<Rightarrow> bool" where
  "any_bit bits ns \<longleftrightarrow> bits AND fold (\<lambda>n m. m OR push_bit n 1) ns 0 \<noteq> 0"

definition low_bits :: "nat \<Rightarrow> u64" where
  "low_bits n = push_bit n 1 - 1"

definition query_shape_bad :: "QueryV1 \<Rightarrow> bool" where
  "query_shape_bad q \<longleftrightarrow> qy_projectionBits q AND NOT (low_bits 12) \<noteq> 0 \<or> qy_nodeKindBits q AND NOT (low_bits 13) \<noteq> 0 \<or>
     qy_edgeKindBits q AND NOT (low_bits 14) \<noteq> 0 \<or> qy_order q \<noteq> 0 \<or>
     qy_axis q \<noteq> AX_References \<and> qy_edgeKindBits q \<noteq> 0 \<or> (qy_firstPage q = None) \<noteq> (qy_lastPage q = None) \<or>
     (case (qy_firstPage q, qy_lastPage q) of (Some first, Some final) \<Rightarrow> first = 0 \<or> final < first | _ \<Rightarrow> False)"

definition need :: "bool \<Rightarrow> ProfileId \<Rightarrow> u64" where
  "need b p = (if b then ProfileBit p else 0)"

text \<open>The projections are numbered as in the enumeration: structure 0, text 1, character and paragraph
  format 2 and 3, control properties 4, table topology 5, cell format 6, image metadata 7, binary
  content 8, layout 9, coverage 10, diagnostics 11.\<close>

definition projection_profiles :: "QueryV1 \<Rightarrow> u64" where
  "projection_profiles q =
    (let projection = bit_set (qy_projectionBits q)
     in need (projection 0 \<or> projection 10 \<or> projection 11 \<or> qy_nodeKindBits q \<noteq> 0 \<or> qy_edgeKindBits q \<noteq> 0) PF_Structure OR
        need (projection 1 \<or> projection 2 \<or> projection 3) PF_EditableText OR
        need (projection 4 \<or> projection 5 \<or> projection 6 \<or> projection 7) PF_EditableObjects OR
        need (projection 8) PF_BinaryContent OR need (projection 9 \<or> qy_firstPage q \<noteq> None) PF_Layout)"

definition node_profiles :: "u64 \<Rightarrow> u64" where
  "node_profiles bits =
     need (any_bit bits [0, 1, 2, 3, 7, 8, 9, 10]) PF_Structure OR need (any_bit bits [4, 5, 6]) PF_EditableText OR
     need (bit_set bits 11) PF_BinaryContent OR need (bit_set bits 12) PF_Structure OR
     need (bit_set bits 12) PF_EditableText OR need (bit_set bits 12) PF_EditableObjects"

definition edge_profiles :: "u64 \<Rightarrow> u64" where
  "edge_profiles bits =
     need (any_bit bits [0, 1, 7, 8, 9, 12, 13]) PF_Structure OR need (any_bit bits [2, 3, 5, 10, 11]) PF_EditableText OR
     need (bit_set bits 4) PF_EditableObjects OR need (bit_set bits 6) PF_BinaryContent"

definition predicate_profiles :: "QueryPredicateV1 \<Rightarrow> u64 option" where
  "predicate_profiles p =
    (if ValidateCanonicalScalar (qp_scalar p) (qp_canonicalScalar p) \<noteq> CE_None then None
     else let needed =
         (case qp_propertyKey p of
            Some key \<Rightarrow>
              (case FindPropertyRule key of
                 None \<Rightarrow> None
               | Some r \<Rightarrow> if qp_scalar p \<noteq> pr_scalar r then None else Some (pr_profileBits r))
          | None \<Rightarrow>
              if qp_operation p = QO_ContainsUTF16 \<and> qp_scalar p = ST_UTF16 then Some (ProfileBit PF_EditableText) else None);
         relational = qp_operation p \<in> {QO_Lt, QO_Le, QO_Gt, QO_Ge};
         numeric = qp_scalar p \<in> {ST_Sint64, ST_Uint64, ST_Float64, ST_HWPUNIT64, ST_BGR, ST_RawURC32, ST_Enum}
       in if relational \<and> \<not> numeric \<or> qp_operation p = QO_ContainsUTF16 \<and> qp_scalar p \<noteq> ST_UTF16 then None
          else needed)"

fun predicates_profiles :: "QueryPredicateV1 list \<Rightarrow> u64 \<Rightarrow> u64 option" where
  "predicates_profiles [] required = Some required"
| "predicates_profiles (p # ps) required =
    (case predicate_profiles p of None \<Rightarrow> None | Some bits \<Rightarrow> predicates_profiles ps (required OR bits))"

definition RequiredClosedProfileBits :: "QueryV1 \<Rightarrow> u64 option" where
  "RequiredClosedProfileBits q =
    (if query_shape_bad q then None
     else map_option CloseProfileBits
       (predicates_profiles (qy_predicates q)
         (projection_profiles q OR node_profiles (qy_nodeKindBits q) OR edge_profiles (qy_edgeKindBits q))))"

definition ValidateQueryV1 :: "QueryV1 \<Rightarrow> u64 \<Rightarrow> bool" where
  "ValidateQueryV1 q closedProfileBits \<longleftrightarrow>
    (case RequiredClosedProfileBits q of
       None \<Rightarrow> False
     | Some required \<Rightarrow> \<not> (required \<noteq> closedProfileBits \<or> \<not> HasOnlyKnownProfiles closedProfileBits \<or>
         CloseProfileBits closedProfileBits \<noteq> closedProfileBits))"

end
