(* ===== verification/WireFragments.thy ===== *)
theory WireFragments
  imports FieldCodec
begin

section \<open>Fragments of records (DocumentGraphProtocol.cpp)\<close>

text \<open>
  A logical record travels as fragments, each with a 56-byte header and a piece of one field's value.
  Two bits of the header's flags mark the first and the last piece of a field, two later the first and
  the last fragment of the record. Kind and scalar are the numbers of the wire, which the code casts
  to its enumerations before it checks their range.
\<close>

subsection \<open>Headers\<close>

record FragmentHeader =
  fr_recordKind :: u16
  fr_logicalRecordFlags :: u16
  fr_fieldTag :: FieldTag
  fr_fieldFlags :: u16
  fr_scalar :: u16
  fr_logicalRecordFieldCount :: u16
  fr_recordId :: u64
  fr_elementCount :: u64
  fr_totalFieldBytes :: u64
  fr_fragmentOffset :: u64
  fr_fragmentBytes :: u64

definition fragment_bad :: "FragmentHeader \<Rightarrow> nat \<Rightarrow> bool" where
  "fragment_bad h n \<longleftrightarrow>
     fr_recordKind h > 8 \<or> fr_logicalRecordFlags h AND NOT 1 \<noteq> 0 \<or> fr_fieldTag h = 0 \<or> fr_fieldFlags h AND NOT 0x3f \<noteq> 0 \<or>
     fr_scalar h > 17 \<or> fr_logicalRecordFieldCount h = 0 \<or> unat (fr_fragmentBytes h) \<noteq> n \<or>
     fr_fragmentOffset h > fr_totalFieldBytes h \<or> fr_fragmentBytes h > fr_totalFieldBytes h - fr_fragmentOffset h \<or>
     fr_totalFieldBytes h > 0 \<and> fr_fragmentBytes h = 0 \<or>
     fr_totalFieldBytes h = 0 \<and> (fr_fragmentOffset h \<noteq> 0 \<or> fr_fragmentBytes h \<noteq> 0 \<or> fr_fieldFlags h AND 12 \<noteq> 12)"

definition fragment_header_bytes :: "FragmentHeader \<Rightarrow> bytes" where
  "fragment_header_bytes h =
     bytes16 (fr_recordKind h) @ bytes16 (fr_logicalRecordFlags h) @ bytes16 (fr_fieldTag h) @ bytes16 (fr_fieldFlags h) @
     bytes16 (fr_scalar h) @ bytes16 (fr_logicalRecordFieldCount h) @ bytes32 56 @ bytes64 (fr_recordId h) @
     bytes64 (fr_elementCount h) @ bytes64 (fr_totalFieldBytes h) @ bytes64 (fr_fragmentOffset h) @
     bytes64 (fr_fragmentBytes h)"

definition EncodeFragment :: "FragmentHeader \<Rightarrow> bytes \<Rightarrow> bytes option" where
  "EncodeFragment h b = (if fragment_bad h (length b) then None else Some (fragment_header_bytes h @ b))"

definition read_fragment :: "bytes \<Rightarrow> FragmentHeader" where
  "read_fragment b =
    \<lparr>fr_recordKind = Get16 b, fr_logicalRecordFlags = Get16 (drop 2 b), fr_fieldTag = Get16 (drop 4 b),
     fr_fieldFlags = Get16 (drop 6 b), fr_scalar = Get16 (drop 8 b), fr_logicalRecordFieldCount = Get16 (drop 10 b),
     fr_recordId = Get64 (drop 16 b), fr_elementCount = Get64 (drop 24 b), fr_totalFieldBytes = Get64 (drop 32 b),
     fr_fragmentOffset = Get64 (drop 40 b), fr_fragmentBytes = Get64 (drop 48 b)\<rparr>"

definition firstField :: "FragmentHeader \<Rightarrow> bool" where "firstField h \<longleftrightarrow> fr_fieldFlags h AND 4 \<noteq> 0"
definition lastField :: "FragmentHeader \<Rightarrow> bool" where "lastField h \<longleftrightarrow> fr_fieldFlags h AND 8 \<noteq> 0"
definition firstRecord :: "FragmentHeader \<Rightarrow> bool" where "firstRecord h \<longleftrightarrow> fr_fieldFlags h AND 16 \<noteq> 0"
definition lastRecord :: "FragmentHeader \<Rightarrow> bool" where "lastRecord h \<longleftrightarrow> fr_fieldFlags h AND 32 \<noteq> 0"

subsection \<open>Putting a record together again\<close>

datatype ErrorCode =
    EC_BufferTooSmall | EC_BadArray | EC_BadHeader | EC_BadSchema | EC_BadMessageKind | EC_BadField | EC_DigestMismatch
  | EC_SequenceMismatch | EC_CursorNotFound | EC_CursorClosed | EC_RouteChanged | EC_StaleGraph | EC_UploadNotFound
  | EC_UploadState | EC_LengthMismatch | EC_FinalDigestMismatch | EC_Cancelled | EC_StorageFailure | EC_Internal
  | EC_UnsupportedCapability

type_synonym AssembledField = "FragmentHeader \<times> bytes"

text \<open>The asm put together so far, the kind, flags and field count of the record, and whether the
  first and the last fragment of the record have been seen.\<close>

record Assembly =
  as_fields :: "AssembledField list"
  as_kind :: u16
  as_recordFlags :: u16
  as_fieldCount :: u16
  as_firstRecord :: bool
  as_lastRecord :: bool

definition empty_assembly :: Assembly where
  "empty_assembly = \<lparr>as_fields = [], as_kind = 0, as_recordFlags = 0, as_fieldCount = 0,
     as_firstRecord = False, as_lastRecord = False\<rparr>"

definition bind_record :: "FragmentHeader \<Rightarrow> Assembly \<Rightarrow> Assembly" where
  "bind_record h a =
    (if as_fields a = []
     then a\<lparr>as_kind := fr_recordKind h, as_recordFlags := fr_logicalRecordFlags h,
            as_fieldCount := fr_logicalRecordFieldCount h\<rparr> else a)"

definition append_piece :: "FragmentHeader \<Rightarrow> bytes \<Rightarrow> AssembledField list \<Rightarrow> ErrorCode + AssembledField list" where
  "append_piece h piece asm =
    (if firstField h \<and> asm \<noteq> [] \<and> fr_fieldTag h \<le> fr_fieldTag (fst (last asm)) then Inl EC_BadField
     else let asm = (if firstField h then asm @ [(h, [])] else asm)
       in if asm = [] then Inl EC_BadField
          else let (header, val) = last asm
            in if \<not> firstField h \<and> length val = unat (fr_totalFieldBytes header) then Inl EC_LengthMismatch
               else if fr_fieldTag header \<noteq> fr_fieldTag h \<or> fr_scalar header \<noteq> fr_scalar h \<or>
                 fr_elementCount header \<noteq> fr_elementCount h \<or> fr_totalFieldBytes header \<noteq> fr_totalFieldBytes h \<or>
                 unat (fr_fragmentOffset h) \<noteq> length val \<or> (fr_fieldFlags h XOR fr_fieldFlags header) AND 3 \<noteq> 0
               then Inl EC_LengthMismatch
               else if lastField h \<noteq> (length (val @ piece) = unat (fr_totalFieldBytes h)) then Inl EC_LengthMismatch
               else Inr (butlast asm @ [(header, val @ piece)]))"

definition reassemble_step :: "u64 \<Rightarrow> nat \<Rightarrow> nat \<Rightarrow> bytes \<Rightarrow> Assembly \<Rightarrow> ErrorCode + Assembly" where
  "reassemble_step expectedRecordId number index fragment a =
    (if length fragment < 56 \<or> Get32 (drop 12 fragment) \<noteq> 56 then Inl EC_BadField
     else let h = read_fragment fragment
       in if fr_recordId h \<noteq> expectedRecordId \<or> fragment_bad h (length fragment - 56) then Inl EC_BadField
          else let a = bind_record h a
            in if fr_recordKind h \<noteq> as_kind a \<or> fr_logicalRecordFlags h \<noteq> as_recordFlags a \<or>
                 fr_logicalRecordFieldCount h \<noteq> as_fieldCount a then Inl EC_BadField
               else if firstField h \<noteq> (fr_fragmentOffset h = 0) \<or>
                 lastField h \<noteq> (fr_fragmentOffset h + fr_fragmentBytes h = fr_totalFieldBytes h) then Inl EC_LengthMismatch
               else bindE (append_piece h (drop 56 fragment) (as_fields a)) (\<lambda>asm.
                 let exactFirstRecord = (index = 0 \<and> firstField h \<and> length asm = 1);
                     exactLastRecord = (index + 1 = number \<and> lastField h \<and> length asm = unat (as_fieldCount a))
                 in if firstRecord h \<noteq> exactFirstRecord \<or> lastRecord h \<noteq> exactLastRecord then Inl EC_BadField
                    else Inr (a\<lparr>as_fields := asm, as_firstRecord := as_firstRecord a \<or> firstRecord h,
                                as_lastRecord := as_lastRecord a \<or> lastRecord h\<rparr>)))"

fun reassemble_loop :: "u64 \<Rightarrow> nat \<Rightarrow> nat \<Rightarrow> bytes list \<Rightarrow> Assembly \<Rightarrow> ErrorCode + Assembly" where
  "reassemble_loop expectedRecordId number index [] a = Inr a"
| "reassemble_loop expectedRecordId number index (fragment # fragments) a =
     bindE (reassemble_step expectedRecordId number index fragment a)
       (reassemble_loop expectedRecordId number (Suc index) fragments)"

text \<open>\<open>EncodeField\<close> answers no bytes for a field that is not canonical.\<close>

fun encode_assembled :: "AssembledField list \<Rightarrow> ErrorCode + bytes" where
  "encode_assembled [] = Inr []"
| "encode_assembled ((h, v) # asm) =
    (let encoded = EncodeField (fr_fieldTag h) (fr_fieldFlags h AND 3) (scalar_of (fr_scalar h)) v (fr_elementCount h)
     in if encoded = [] then Inl EC_BadField else bindE (encode_assembled asm) (\<lambda>bs. Inr (encoded @ bs)))"

definition EncodeCanonicalRecordHeaderV1 :: "u16 \<Rightarrow> u16 \<Rightarrow> u16 \<Rightarrow> u64 \<Rightarrow> u64 \<Rightarrow> bytes option" where
  "EncodeCanonicalRecordHeaderV1 kind recordFlags fieldCount recordId encodedFieldBytes =
    (if fieldCount = 0 then None
     else Some (bytes16 kind @ bytes16 1 @ bytes16 recordFlags @ bytes16 fieldCount @ bytes64 recordId @
                bytes64 encodedFieldBytes))"

text \<open>No fragments are refused without an error code of their own; the callers never pass none.\<close>

definition ReassembleFragments :: "bytes list \<Rightarrow> u64 \<Rightarrow> ErrorCode + bytes" where
  "ReassembleFragments fragments expectedRecordId =
    (if fragments = [] then Inl EC_BadField
     else bindE (reassemble_loop expectedRecordId (length fragments) 0 fragments empty_assembly) (\<lambda>a.
       if \<not> as_firstRecord a \<or> \<not> as_lastRecord a \<or> length (as_fields a) \<noteq> unat (as_fieldCount a) then Inl EC_LengthMismatch
       else bindE (encode_assembled (as_fields a)) (\<lambda>fieldBytes.
         case EncodeCanonicalRecordHeaderV1 (as_kind a) (as_recordFlags a) (as_fieldCount a) expectedRecordId (size64 fieldBytes) of
           None \<Rightarrow> Inl EC_Internal
         | Some header \<Rightarrow> Inr (header @ fieldBytes))))"

subsection \<open>A fragment read back\<close>

lemma length_fragment_header [simp]: "length (fragment_header_bytes h) = 56"
  by (simp add: fragment_header_bytes_def)

lemma fragment_reads:
  "read_fragment (fragment_header_bytes h @ b) = h" "Get32 (drop 12 (fragment_header_bytes h @ b)) = 56"
  "drop 56 (fragment_header_bytes h @ b) = b"
  by (simp_all add: fragment_header_bytes_def read_fragment_def drop_append)

lemma flag_bits:
  "firstField h \<longleftrightarrow> bit (fr_fieldFlags h) 2" "lastField h \<longleftrightarrow> bit (fr_fieldFlags h) 3"
  "firstRecord h \<longleftrightarrow> bit (fr_fieldFlags h) 4" "lastRecord h \<longleftrightarrow> bit (fr_fieldFlags h) 5"
  using and_exp_eq_0_iff_not_bit [of "fr_fieldFlags h" 2] and_exp_eq_0_iff_not_bit [of "fr_fieldFlags h" 3]
    and_exp_eq_0_iff_not_bit [of "fr_fieldFlags h" 4] and_exp_eq_0_iff_not_bit [of "fr_fieldFlags h" 5]
  by (simp_all add: firstField_def lastField_def firstRecord_def lastRecord_def)

subsection \<open>The pieces of a record\<close>

definition marks :: "bool \<Rightarrow> bool \<Rightarrow> bool \<Rightarrow> bool \<Rightarrow> u16" where
  "marks a b c d = (if a then 4 else 0) OR (if b then 8 else 0) OR (if c then 16 else 0) OR (if d then 32 else 0)"

text \<open>The header of the piece at \<open>off\<close>; \<open>first\<close> and \<open>final\<close> say whether the field is the first and the
  last of its record, \<open>ending\<close> whether the piece is the last of its field.\<close>

definition piece_header :: "LogicalRecord \<Rightarrow> Field \<Rightarrow> bool \<Rightarrow> bool \<Rightarrow> nat \<Rightarrow> bytes \<Rightarrow> bool \<Rightarrow> FragmentHeader" where
  "piece_header r f first final off piece ending =
    \<lparr>fr_recordKind = lr_kind r, fr_logicalRecordFlags = lr_flags r, fr_fieldTag = fl_tag f,
     fr_fieldFlags = fl_flags f OR marks (off = 0) ending (first \<and> off = 0) (final \<and> ending),
     fr_scalar = scalar_raw (fl_scalar f), fr_logicalRecordFieldCount = word_of_nat (length (lr_fields r)),
     fr_recordId = lr_id r, fr_elementCount = fl_elementCount f, fr_totalFieldBytes = size64 (fl_value f),
     fr_fragmentOffset = word_of_nat off, fr_fragmentBytes = size64 piece\<rparr>"

fun field_pieces :: "LogicalRecord \<Rightarrow> Field \<Rightarrow> bool \<Rightarrow> bool \<Rightarrow> nat \<Rightarrow> bytes list \<Rightarrow> (FragmentHeader \<times> bytes) list" where
  "field_pieces r f first final off [] = []"
| "field_pieces r f first final off (p # ps) =
     (piece_header r f first final off p (ps = []), p) # field_pieces r f first final (off + length p) ps"

fun record_pieces :: "LogicalRecord \<Rightarrow> bool \<Rightarrow> (Field \<times> bytes list) list \<Rightarrow> (FragmentHeader \<times> bytes) list" where
  "record_pieces r first [] = []"
| "record_pieces r first ((f, ps) # fps) = field_pieces r f first (fps = []) 0 ps @ record_pieces r False fps"

text \<open>A value is cut into pieces that are not empty; an empty value is one empty piece.\<close>

definition cut_ok :: "bytes \<Rightarrow> bytes list \<Rightarrow> bool" where
  "cut_ok v ps \<longleftrightarrow> ps \<noteq> [] \<and> concat ps = v \<and> ([] \<in> set ps \<longrightarrow> ps = [[]])"

lemma bit_three: "bit (3 :: u16) n \<longleftrightarrow> n < 2"
proof -
  have "(3 :: u16) = mask 2" by (simp add: mask_eq_exp_minus_1)
  then show ?thesis by (simp only: bit_mask_iff) auto
qed

lemma flags_high:
  fixes w :: u16
  assumes "w AND NOT 3 = 0" "2 \<le> n"
  shows "\<not> bit w n"
proof
  assume b: "bit w n"
  then have "n < 16" using bit_imp_le_length [of w n] by simp
  then have "bit (w AND NOT 3) n"
    unfolding bit_and_iff bit_not_iff bit_three using b assms(2) by simp
  then show False using assms(1) by simp
qed

lemma flags_parts:
  fixes w m :: u16
  assumes "w AND NOT 3 = 0" "m AND 3 = 0" "m AND NOT 0x3f = 0"
  shows "(w OR m) AND 3 = w" "(w OR m) AND NOT 0x3f = 0"
proof -
  have low: "w AND 3 = w"
    by (rule bit_word_eqI) (unfold bit_and_iff bit_three, use flags_high [OF assms(1)] in \<open>metis not_less\<close>)
  show "(w OR m) AND 3 = w"
    using low assms(2) by (simp add: bit.conj_disj_distrib2)
  have "w AND NOT 0x3f = w AND (3 AND NOT 0x3f)"
    using low by (metis and.assoc)
  also have "\<dots> = 0" by simp
  finally show "(w OR m) AND NOT 0x3f = 0"
    using assms(3) by (simp add: bit.conj_disj_distrib2)
qed

lemma marks_parts: "marks a b c d AND 3 = 0" "marks a b c d AND NOT 0x3f = 0"
  by (cases a; cases b; cases c; cases d; simp add: marks_def)+

lemma marks_bits:
  "bit (marks a b c d) 2 \<longleftrightarrow> a" "bit (marks a b c d) 3 \<longleftrightarrow> b" "bit (marks a b c d) 4 \<longleftrightarrow> c" "bit (marks a b c d) 5 \<longleftrightarrow> d"
  by (cases a; cases b; cases c; cases d; simp add: marks_def bit_iff_odd)+

lemma piece_flags:
  assumes "fl_flags f AND NOT 3 = 0"
  shows "fr_fieldFlags (piece_header r f first final off p e) AND 3 = fl_flags f"
    "fr_fieldFlags (piece_header r f first final off p e) AND NOT 0x3f = 0"
    "firstField (piece_header r f first final off p e) \<longleftrightarrow> off = 0"
    "lastField (piece_header r f first final off p e) \<longleftrightarrow> e"
    "firstRecord (piece_header r f first final off p e) \<longleftrightarrow> first \<and> off = 0"
    "lastRecord (piece_header r f first final off p e) \<longleftrightarrow> final \<and> e"
  unfolding flag_bits piece_header_def FragmentHeader.simps
  using flags_parts [OF assms marks_parts] by (simp_all add: bit_or_iff marks_bits flags_high [OF assms])

definition record_ok :: "LogicalRecord \<Rightarrow> bool" where
  "record_ok r \<longleftrightarrow> lr_kind r \<le> 8 \<and> lr_flags r AND NOT 1 = 0 \<and> lr_fields r \<noteq> [] \<and> length (lr_fields r) \<le> 65535"

lemma record_count:
  assumes "record_ok r"
  shows "unat (word_of_nat (length (lr_fields r)) :: u16) = length (lr_fields r)" "word_of_nat (length (lr_fields r)) \<noteq> (0 :: u16)"
proof -
  show n: "unat (word_of_nat (length (lr_fields r)) :: u16) = length (lr_fields r)"
    using assms by (simp add: record_ok_def unat_of_nat take_bit_nat_eq_self)
  show "word_of_nat (length (lr_fields r)) \<noteq> (0 :: u16)"
  proof
    assume "word_of_nat (length (lr_fields r)) = (0 :: u16)"
    with n have "length (lr_fields r) = 0" by simp
    with assms show False by (simp add: record_ok_def)
  qed
qed

text \<open>A piece that lies where the pieces before it end.\<close>

definition piece_ok :: "Field \<Rightarrow> nat \<Rightarrow> bytes \<Rightarrow> bool \<Rightarrow> bool" where
  "piece_ok f off p e \<longleftrightarrow> length (fl_value f) < 2 ^ 64 \<and> off + length p \<le> length (fl_value f) \<and>
     (e \<longleftrightarrow> off + length p = length (fl_value f)) \<and> (fl_value f \<noteq> [] \<longrightarrow> p \<noteq> [])"

lemma word_of_nat_64: "n < 2 ^ 64 \<Longrightarrow> unat (word_of_nat n :: u64) = n"
  by (simp add: unat_of_nat take_bit_nat_eq_self)

lemma piece_words:
  assumes "piece_ok f off p e"
  shows "unat (size64 p) = length p" "unat (word_of_nat off :: u64) = off" "unat (size64 (fl_value f)) = length (fl_value f)"
    "size64 (fl_value f) - word_of_nat off = word_of_nat (length (fl_value f) - off)"
    "unat (word_of_nat (length (fl_value f) - off) :: u64) = length (fl_value f) - off"
    "word_of_nat off + size64 p = size64 (fl_value f) \<longleftrightarrow> e"
proof -
  have small: "length (fl_value f) < 2 ^ 64" "off + length p \<le> length (fl_value f)"
    and e: "e \<longleftrightarrow> off + length p = length (fl_value f)"
    using assms by (auto simp: piece_ok_def)
  show "unat (size64 p) = length p" "unat (size64 (fl_value f)) = length (fl_value f)"
    "unat (word_of_nat off :: u64) = off"
    using small by (auto simp: unat_size64 intro!: word_of_nat_64)
  show "unat (word_of_nat (length (fl_value f) - off) :: u64) = length (fl_value f) - off"
    by (rule word_of_nat_64) (use small in simp)
  show "size64 (fl_value f) - word_of_nat off = word_of_nat (length (fl_value f) - off)"
    using small by (simp add: size64_def of_nat_diff)
  have "word_of_nat off + size64 p = size64 (fl_value f) \<longleftrightarrow>
      (word_of_nat (off + length p) :: u64) = word_of_nat (length (fl_value f))"
    by (simp add: size64_def)
  also have "\<dots> \<longleftrightarrow> off + length p = length (fl_value f)"
  proof
    assume eq: "(word_of_nat (off + length p) :: u64) = word_of_nat (length (fl_value f))"
    have "unat (word_of_nat (off + length p) :: u64) = off + length p"
      by (rule word_of_nat_64) (use small in linarith)
    then show "off + length p = length (fl_value f)"
      unfolding eq word_of_nat_64 [OF small(1)] by (rule sym)
  qed simp
  finally show "word_of_nat off + size64 p = size64 (fl_value f) \<longleftrightarrow> e" using e by simp
qed

lemma piece_not_bad:
  assumes "record_ok r" "fl_flags f AND NOT 3 = 0" "fl_tag f \<noteq> 0" "piece_ok f off p e"
  shows "\<not> fragment_bad (piece_header r f first final off p e) (length p)"
proof -
  have ends: "fr_fieldFlags (piece_header r f first final off p e) AND 12 = 12" if "fl_value f = []"
  proof -
    have "off = 0" "e" using assms(4) that by (auto simp: piece_ok_def)
    then have "marks (off = 0) e c d AND 12 = 12" for c d
      by (cases c; cases d; simp add: marks_def)
    then show ?thesis by (simp add: piece_header_def bit.conj_disj_distrib2)
  qed
  have zero: "size64 (fl_value f) = 0 \<longleftrightarrow> fl_value f = []" "size64 p = 0 \<longleftrightarrow> p = []"
    unfolding length_0_conv [symmetric] piece_words(1,3) [OF assms(4), symmetric] unsigned_eq_0_iff by (rule refl)+
  have "\<not> 17 < unat (scalar_raw (fl_scalar f))"
    using scalar_raw_le [of "fl_scalar f"] by (simp add: word_less_nat_alt)
  then show ?thesis
    using assms(1,3,4) piece_flags(2) [OF assms(2)] record_count(2) [OF assms(1)] ends piece_words [OF assms(4)]
    unfolding fragment_bad_def
    by (auto simp: piece_header_def record_ok_def word_less_nat_alt word_le_nat_alt zero piece_ok_def word_gt_0)
qed

definition assembled :: "Field \<Rightarrow> bytes \<Rightarrow> AssembledField \<Rightarrow> bool" where
  "assembled f v x \<longleftrightarrow> snd x = v \<and> fr_fieldTag (fst x) = fl_tag f \<and> fr_fieldFlags (fst x) AND 3 = fl_flags f \<and>
     fr_scalar (fst x) = scalar_raw (fl_scalar f) \<and> fr_elementCount (fst x) = fl_elementCount f \<and>
     fr_totalFieldBytes (fst x) = size64 (fl_value f)"

lemma xor_low: "x AND 3 = y AND 3 \<Longrightarrow> (x XOR y) AND (3 :: u16) = 0"
proof (rule bit_word_eqI)
  fix n assume "x AND 3 = y AND 3"
  then have "bit (x AND 3) n = bit (y AND 3) n" by simp
  then show "bit ((x XOR y) AND 3) n = bit (0 :: u16) n"
    unfolding bit_and_iff bit_xor_iff bit_three by auto
qed

lemma append_first:
  assumes "fl_flags f AND NOT 3 = 0" "piece_ok f 0 p e" "asm \<noteq> [] \<Longrightarrow> fr_fieldTag (fst (last asm)) < fl_tag f"
    and h: "h = piece_header r f first final 0 p e"
  shows "append_piece h p asm = Inr (asm @ [(h, p)])"
proof -
  have "firstField h" "lastField h \<longleftrightarrow> length p = unat (fr_totalFieldBytes h)"
    using piece_flags [OF assms(1)] assms(2) piece_words(3) [OF assms(2)]
    by (auto simp: h piece_ok_def) (simp_all add: piece_header_def)
  moreover have "fr_fragmentOffset h = 0" "fr_fieldTag h = fl_tag f"
    by (simp_all add: h piece_header_def)
  ultimately show ?thesis
    using assms(3) unfolding append_piece_def Let_def by auto
qed

lemma append_next:
  assumes "fl_flags f AND NOT 3 = 0" "piece_ok f off p e" "off \<noteq> 0" "assembled f v x" "length v = off" "p \<noteq> []"
    and h: "h = piece_header r f first final off p e"
  shows "append_piece h p (asm @ [x]) = Inr (asm @ [(fst x, v @ p)])"
proof -
  have "\<not> firstField h" "lastField h \<longleftrightarrow> length (v @ p) = unat (fr_totalFieldBytes h)"
    using piece_flags [OF assms(1)] assms(2,3,5) piece_words(3) [OF assms(2)]
    by (auto simp: h piece_ok_def) (simp_all add: piece_header_def)
  moreover have "unat (fr_fragmentOffset h) = length v" "length v \<noteq> unat (fr_totalFieldBytes (fst x))"
    using assms(2,4-6) piece_words(2,3) [OF assms(2)]
    by (auto simp: h piece_header_def assembled_def piece_ok_def)
  moreover have "(fr_fieldFlags h XOR fr_fieldFlags (fst x)) AND 3 = 0"
    using piece_flags(1) [OF assms(1)] assms(4) by (intro xor_low) (simp add: h assembled_def)
  moreover have "fr_fieldTag h = fl_tag f" "fr_scalar h = scalar_raw (fl_scalar f)" "fr_elementCount h = fl_elementCount f"
    "fr_totalFieldBytes h = size64 (fl_value f)"
    by (simp_all add: h piece_header_def)
  ultimately show ?thesis
    using assms(4) unfolding append_piece_def Let_def by (auto simp: assembled_def split: prod.splits)
qed

subsection \<open>Putting the pieces of a record together\<close>

definition fragment_bytes :: "FragmentHeader \<times> bytes \<Rightarrow> bytes" where
  "fragment_bytes x = fragment_header_bytes (fst x) @ snd x"

definition rec_state :: "LogicalRecord \<Rightarrow> AssembledField list \<Rightarrow> bool \<Rightarrow> bool \<Rightarrow> Assembly" where
  "rec_state r asm seenFirst seenLast =
     \<lparr>as_fields = asm, as_kind = lr_kind r, as_recordFlags = lr_flags r,
      as_fieldCount = word_of_nat (length (lr_fields r)), as_firstRecord = seenFirst, as_lastRecord = seenLast\<rparr>"

lemma reassemble_step_piece:
  assumes "record_ok r" "fl_flags f AND NOT 3 = 0" "fl_tag f \<noteq> 0" "piece_ok f off p e"
    and h: "h = piece_header r f first final off p e"
    and ap: "append_piece h p (as_fields a) = Inr asm"
    and bound: "bind_record h a = rec_state r (as_fields a) b c"
    and first: "first \<and> off = 0 \<longleftrightarrow> index = 0 \<and> off = 0 \<and> length asm = 1"
    and final: "final \<and> e \<longleftrightarrow> index + 1 = number \<and> e \<and> length asm = length (lr_fields r)"
  shows "reassemble_step (lr_id r) number index (fragment_bytes (h, p)) a = Inr (rec_state r asm (b \<or> first \<and> off = 0) (c \<or> final \<and> e))"
proof -
  have flags: "firstField h \<longleftrightarrow> off = 0" "lastField h \<longleftrightarrow> e" "firstRecord h \<longleftrightarrow> first \<and> off = 0" "lastRecord h \<longleftrightarrow> final \<and> e"
    using piece_flags [OF assms(2)] by (simp_all add: h)
  have fields: "fr_recordId h = lr_id r" "fr_recordKind h = lr_kind r" "fr_logicalRecordFlags h = lr_flags r"
    "fr_logicalRecordFieldCount h = word_of_nat (length (lr_fields r))" "fr_fragmentOffset h = word_of_nat off"
    "fr_fragmentBytes h = size64 p" "fr_totalFieldBytes h = size64 (fl_value f)"
    by (simp_all add: h piece_header_def)
  have reads: "read_fragment (fragment_bytes (h, p)) = h" "Get32 (drop 12 (fragment_bytes (h, p))) = 56"
    "drop 56 (fragment_bytes (h, p)) = p" "length (fragment_bytes (h, p)) - 56 = length p" "\<not> length (fragment_bytes (h, p)) < 56"
    unfolding fragment_bytes_def fst_conv snd_conv fragment_reads by simp_all
  have off: "fr_fragmentOffset h = 0 \<longleftrightarrow> off = 0"
    unfolding fields(5) using piece_words(2) [OF assms(4)] by (metis unsigned_0 unsigned_eq_0_iff)
  have sum: "fr_fragmentOffset h + fr_fragmentBytes h = fr_totalFieldBytes h \<longleftrightarrow> e"
    unfolding fields by (rule piece_words(6) [OF assms(4)])
  have count: "unat (as_fieldCount (rec_state r (as_fields a) b c)) = length (lr_fields r)"
    using record_count(1) [OF assms(1)] by (simp add: rec_state_def)
  show ?thesis
    using piece_not_bad [OF assms(1-4), of first final, folded h] ap first final reads(5)
    unfolding reassemble_step_def reads(1-4) Let_def bound flags off sum count
    by (simp add: fields) (auto simp: rec_state_def)
qed

lemma append_pieces_loop:
  assumes "record_ok r" "fl_flags f AND NOT 3 = 0" "fl_tag f \<noteq> 0" "length (fl_value f) < 2 ^ 64"
    and "final \<longleftrightarrow> Suc (length asm) = length (lr_fields r)" "final \<longleftrightarrow> later = []"
  shows "v @ concat ps = fl_value f \<Longrightarrow> v \<noteq> [] \<Longrightarrow> [] \<notin> set ps \<Longrightarrow> assembled f v x \<Longrightarrow> index \<noteq> 0 \<Longrightarrow> ps \<noteq> [] \<Longrightarrow>
     number = index + length ps + length later \<Longrightarrow>
     reassemble_loop (lr_id r) number index (map fragment_bytes (field_pieces r f first final (length v) ps) @ later)
       (rec_state r (asm @ [x]) b c) =
     reassemble_loop (lr_id r) number (index + length ps) later (rec_state r (asm @ [(fst x, fl_value f)]) b (c \<or> final))"
proof (induction ps arbitrary: v x index c)
  case (Cons p ps)
  let ?e = "ps = []" and ?h = "piece_header r f first final (length v) p (ps = [])"
  have ok: "piece_ok f (length v) p ?e"
  proof -
    have "?e \<longleftrightarrow> concat ps = []" using Cons.prems(3) by (cases ps) auto
    then show ?thesis
      using Cons.prems(1,3) assms(4) by (auto simp: piece_ok_def simp flip: Cons.prems(1))
  qed
  have ap: "append_piece ?h p (asm @ [x]) = Inr (asm @ [(fst x, v @ p)])"
    by (rule append_next [OF assms(2) ok _ Cons.prems(4) refl _ refl]) (use Cons.prems(2,3) in auto)
  have step: "reassemble_step (lr_id r) number index (fragment_bytes (?h, p)) (rec_state r (asm @ [x]) b c) =
      Inr (rec_state r (asm @ [(fst x, v @ p)]) b (c \<or> final \<and> ?e))"
  proof -
    have "bind_record ?h (rec_state r (asm @ [x]) b c) = rec_state r (as_fields (rec_state r (asm @ [x]) b c)) b c"
      by (simp add: bind_record_def rec_state_def)
    from reassemble_step_piece [OF assms(1-3) ok refl _ this, of "asm @ [(fst x, v @ p)]" index number] ap show ?thesis
      using Cons.prems(2,5,7) assms(5,6) by (auto simp: rec_state_def)
  qed
  show ?case
  proof (cases "ps = []")
    case True
    then show ?thesis using step Cons.prems(1) by simp
  next
    case False
    have "reassemble_loop (lr_id r) number (Suc index) (map fragment_bytes (field_pieces r f first final (length (v @ p)) ps) @ later)
        (rec_state r (asm @ [(fst x, v @ p)]) b c) =
      reassemble_loop (lr_id r) number (Suc index + length ps) later (rec_state r (asm @ [(fst (fst x, v @ p), fl_value f)]) b (c \<or> final))"
      by (rule Cons.IH) (use Cons.prems False in \<open>auto simp: assembled_def\<close>)
    then show ?thesis using step False by simp
  qed
qed simp

lemma append_field_loop:
  assumes "record_ok r" "fl_flags f AND NOT 3 = 0" "fl_tag f \<noteq> 0" "length (fl_value f) < 2 ^ 64" "cut_ok (fl_value f) ps"
    and "final \<longleftrightarrow> Suc (length asm) = length (lr_fields r)" "final \<longleftrightarrow> later = []"
    and "as_fields a = asm" "\<And>h. h = piece_header r f first final 0 (hd ps) (tl ps = []) \<Longrightarrow> bind_record h a = rec_state r asm b c"
    and "first \<longleftrightarrow> asm = []" "first \<longleftrightarrow> index = 0" "asm \<noteq> [] \<Longrightarrow> fr_fieldTag (fst (last asm)) < fl_tag f"
    and "number = index + length ps + length later"
  obtains x where "assembled f (fl_value f) x"
    "reassemble_loop (lr_id r) number index (map fragment_bytes (field_pieces r f first final 0 ps) @ later) a =
     reassemble_loop (lr_id r) number (index + length ps) later (rec_state r (asm @ [x]) (b \<or> first) (c \<or> final))"
proof -
  obtain p qs where ps: "ps = p # qs" using assms(5) by (cases ps) (auto simp: cut_ok_def)
  let ?e = "qs = []" and ?h = "piece_header r f first final 0 p (qs = [])"
  have val: "fl_value f = p @ concat qs" using assms(5) by (auto simp: cut_ok_def ps)
  have nonempty: "p \<noteq> []" "[] \<notin> set qs" if "qs \<noteq> [] \<or> fl_value f \<noteq> []"
    using assms(5) that by (auto simp: cut_ok_def ps)
  have ok: "piece_ok f 0 p ?e"
  proof -
    have "?e \<longleftrightarrow> concat qs = []" using nonempty by (cases qs) auto
    then show ?thesis
      using assms(4) nonempty by (auto simp: piece_ok_def val)
  qed
  have ap: "append_piece ?h p (as_fields a) = Inr (asm @ [(?h, p)])"
    using append_first [OF assms(2) ok assms(12) refl] by (simp add: assms(8))
  have bound: "bind_record ?h a = rec_state r (as_fields a) b c"
    using assms(9) by (simp add: ps assms(8))
  have step: "reassemble_step (lr_id r) number index (fragment_bytes (?h, p)) a =
      Inr (rec_state r (asm @ [(?h, p)]) (b \<or> first) (c \<or> final \<and> ?e))"
    using reassemble_step_piece [OF assms(1-3) ok refl ap bound, of index number] assms(6,7,10,11,13)
    by (auto simp: ps)
  have asmb: "assembled f p (?h, p)"
    using piece_flags(1) [OF assms(2)] by (simp add: assembled_def) (simp add: piece_header_def)
  show thesis
  proof (cases "qs = []")
    case True
    then show thesis
      using that [of "(?h, p)"] step asmb by (simp add: ps val)
  next
    case False
    have "reassemble_loop (lr_id r) number (Suc index) (map fragment_bytes (field_pieces r f first final (length p) qs) @ later)
        (rec_state r (asm @ [(?h, p)]) (b \<or> first) c) =
      reassemble_loop (lr_id r) number (Suc index + length qs) later (rec_state r (asm @ [(fst (?h, p), fl_value f)]) (b \<or> first) (c \<or> final))"
      by (rule append_pieces_loop [OF assms(1-4,6,7)])
        (use asmb False nonempty val assms(13) in \<open>auto simp: ps\<close>)
    moreover have "assembled f (fl_value f) (?h, fl_value f)"
      using asmb by (simp add: assembled_def)
    ultimately show thesis
      using that [of "(?h, fl_value f)"] step False by (simp add: ps)
  qed
qed

definition assembled_fields :: "AssembledField list \<Rightarrow> Field list \<Rightarrow> bool" where
  "assembled_fields = list_all2 (\<lambda>x f. assembled f (fl_value f) x)"

lemma length_field_pieces [simp]: "length (field_pieces r f first final off ps) = length ps"
  by (induction ps arbitrary: off) simp_all

lemma record_pieces_Nil: "\<forall>(f, ps) \<in> set fps. cut_ok (fl_value f) ps \<Longrightarrow> record_pieces r first fps = [] \<longleftrightarrow> fps = []"
proof (cases fps)
  case (Cons x fps')
  assume "\<forall>(f, ps) \<in> set fps. cut_ok (fl_value f) ps"
  then obtain f p ps where "x = (f, p # ps)" using Cons by (cases x; cases "snd x") (auto simp: cut_ok_def)
  with Cons show ?thesis by simp
qed simp

lemma record_loop:
  assumes "record_ok r" "\<forall>f \<in> set (lr_fields r). field_ok f" "sorted_wrt (<) (map fl_tag (lr_fields r))"
  shows "lr_fields r = gs @ map fst fps \<Longrightarrow> fps \<noteq> [] \<Longrightarrow> \<forall>(f, ps) \<in> set fps. cut_ok (fl_value f) ps \<Longrightarrow>
    assembled_fields asm gs \<Longrightarrow> (first \<longleftrightarrow> gs = []) \<Longrightarrow> (first \<longleftrightarrow> index = 0) \<Longrightarrow> as_fields a = asm \<Longrightarrow>
    (\<And>h. fr_recordKind h = lr_kind r \<Longrightarrow> fr_logicalRecordFlags h = lr_flags r \<Longrightarrow>
       fr_logicalRecordFieldCount h = word_of_nat (length (lr_fields r)) \<Longrightarrow> bind_record h a = rec_state r asm b c) \<Longrightarrow>
    number = index + length (record_pieces r first fps) \<Longrightarrow>
    \<exists>asm'. assembled_fields asm' (lr_fields r) \<and>
      reassemble_loop (lr_id r) number index (map fragment_bytes (record_pieces r first fps)) a = Inr (rec_state r asm' (b \<or> first) True)"
proof (induction fps arbitrary: gs asm first index a b c)
  case (Cons x fps)
  obtain f ps where x: "x = (f, ps)" by (cases x)
  let ?final = "fps = []" and ?later = "map fragment_bytes (record_pieces r False fps)"
  have f: "f \<in> set (lr_fields r)" using Cons.prems(1) x by auto
  then have ok: "fl_flags f AND NOT 3 = 0" "fl_tag f \<noteq> 0" "length (fl_value f) < 2 ^ 64"
    using assms(2) by (auto simp: field_ok_def)
  have len: "length asm = length gs" using Cons.prems(4) by (auto simp: assembled_fields_def dest: list_all2_lengthD)
  have cuts: "\<forall>(f, ps) \<in> set fps. cut_ok (fl_value f) ps" using Cons.prems(3) by auto
  have tag: "fr_fieldTag (fst (last asm)) < fl_tag f" if "asm \<noteq> []"
  proof -
    have gs: "gs \<noteq> []" using that len by auto
    then have "last gs \<in> set gs" "assembled (last gs) (fl_value (last gs)) (last asm)"
      using list_all2_nthD [OF Cons.prems(4) [unfolded assembled_fields_def], of "length asm - 1"] that len
      by (auto simp: last_conv_nth)
    then show ?thesis
      using assms(3) unfolding Cons.prems(1) by (auto simp: x sorted_wrt_append assembled_def)
  qed
  obtain y where y: "assembled f (fl_value f) y"
    and loop: "reassemble_loop (lr_id r) number index (map fragment_bytes (field_pieces r f first ?final 0 ps) @ ?later) a =
      reassemble_loop (lr_id r) number (index + length ps) ?later (rec_state r (asm @ [y]) (b \<or> first) (c \<or> ?final))"
  proof (rule append_field_loop [OF assms(1) ok, where ps = ps and final = ?final and asm = asm and later = ?later
        and a = a and b = b and c = c and first = first and index = index and number = number])
    show "cut_ok (fl_value f) ps" using Cons.prems(3) x by auto
    show "?final \<longleftrightarrow> Suc (length asm) = length (lr_fields r)" unfolding Cons.prems(1) len by auto
    show "?final \<longleftrightarrow> ?later = []" using record_pieces_Nil [OF cuts] by auto
    show "bind_record h a = rec_state r asm b c" if "h = piece_header r f first ?final 0 (hd ps) (tl ps = [])" for h
      using Cons.prems(8) that by (simp add: piece_header_def)
    show "first \<longleftrightarrow> asm = []" using Cons.prems(5) len by auto
  qed (use Cons.prems tag in \<open>auto simp: x\<close>)
  have asm': "assembled_fields (asm @ [y]) (gs @ [f])"
    using Cons.prems(4) y by (simp add: assembled_fields_def list_all2_appendI)
  show ?case
  proof (cases "fps = []")
    case True
    then show ?thesis
      using loop asm' Cons.prems(1) by (auto simp: x)
  next
    case False
    have "ps \<noteq> []" using Cons.prems(3) x by (auto simp: cut_ok_def)
    then have "\<exists>asm'. assembled_fields asm' (lr_fields r) \<and>
        reassemble_loop (lr_id r) number (index + length ps) ?later (rec_state r (asm @ [y]) (b \<or> first) (c \<or> ?final)) =
        Inr (rec_state r asm' ((b \<or> first) \<or> False) True)"
      by (intro Cons.IH [OF _ False cuts asm', where c = "c \<or> ?final"])
        (use Cons.prems(1,9) in \<open>auto simp: x rec_state_def bind_record_def\<close>)
    then show ?thesis using loop by (simp add: x)
  qed
qed simp

lemma encode_assembled_Cons:
  assumes "fr_fieldTag h = fl_tag f" "fr_fieldFlags h AND 3 = fl_flags f" "fr_scalar h = scalar_raw (fl_scalar f)"
    "fr_elementCount h = fl_elementCount f" "v = fl_value f" "field_ok f"
  shows "encode_assembled ((h, v) # asm) = bindE (encode_assembled asm) (\<lambda>bs. Inr (field_bytes f @ bs))"
proof -
  have "encode_field f = field_bytes f" using assms(6) by (simp add: encode_field_bytes)
  moreover have "field_bytes f \<noteq> []" using length_field_bytes [of f] by (auto simp del: length_field_bytes)
  ultimately show ?thesis
    using assms(1-5) by (simp add: encode_field_def)
qed

lemma encode_assembled_fields:
  assumes "assembled_fields asm fs" "\<forall>f \<in> set fs. field_ok f"
  shows "encode_assembled asm = Inr (concat (map field_bytes fs))"
  using assms unfolding assembled_fields_def
proof (induction asm fs rule: list_all2_induct)
  case (Cons x asm f fs)
  then have "encode_assembled ((fst x, snd x) # asm) = bindE (encode_assembled asm) (\<lambda>bs. Inr (field_bytes f @ bs))"
    by (intro encode_assembled_Cons) (auto simp: assembled_def)
  with Cons show ?case by simp
qed simp

lemma Reassemble_pieces:
  assumes "record_ok r" "\<forall>f \<in> set (lr_fields r). field_ok f" "sorted_wrt (<) (map fl_tag (lr_fields r))"
    and "map fst fps = lr_fields r" "\<forall>(f, ps) \<in> set fps. cut_ok (fl_value f) ps"
  shows "ReassembleFragments (map fragment_bytes (record_pieces r True fps)) (lr_id r) =
    (let p = concat (map field_bytes (lr_fields r))
     in Inr (bytes16 (lr_kind r) @ bytes16 1 @ bytes16 (lr_flags r) @ bytes16 (word_of_nat (length (lr_fields r))) @
             bytes64 (lr_id r) @ bytes64 (size64 p) @ p))"
proof -
  have fps: "fps \<noteq> []" using assms(1,4) by (auto simp: record_ok_def)
  let ?fs = "map fragment_bytes (record_pieces r True fps)"
  have "\<exists>asm. assembled_fields asm (lr_fields r) \<and>
      reassemble_loop (lr_id r) (length ?fs) 0 ?fs empty_assembly = Inr (rec_state r asm (False \<or> True) True)"
    by (rule record_loop [OF assms(1-3), where gs = "[]" and asm = "[]" and c = False])
      (use assms(4,5) fps in \<open>auto simp: assembled_fields_def empty_assembly_def bind_record_def rec_state_def\<close>)
  then obtain asm where asm: "assembled_fields asm (lr_fields r)"
    "reassemble_loop (lr_id r) (length ?fs) 0 ?fs empty_assembly = Inr (rec_state r asm True True)" by auto
  have "length asm = length (lr_fields r)" using asm(1) by (auto simp: assembled_fields_def dest: list_all2_lengthD)
  moreover have "?fs \<noteq> []" using record_pieces_Nil [OF assms(5)] fps by simp
  ultimately show ?thesis
    using encode_assembled_fields [OF asm(1) assms(2)] asm(2) record_count [OF assms(1)]
    unfolding ReassembleFragments_def by (simp add: rec_state_def EncodeCanonicalRecordHeaderV1_def Let_def)
qed

text \<open>The two validators of fields, that of records and that of messages, agree.\<close>

lemma check_elements_protocol: "check_elements t n v = CE_None \<longleftrightarrow> protocol_elements t n v"
  by (induction t n v rule: check_elements.induct) (auto simp: Let_def)

lemma field_ok_codec: "field_ok f \<longleftrightarrow> codec_ok f \<and> length (fl_value f) < 2 ^ 64"
proof -
  have short: "ValidateObservation v t = CE_None \<Longrightarrow> \<not> length v < 24" for v t
    by (auto simp: ValidateObservation_def split: if_split_asm)
  have raw: "\<not> w > 17" if "w = scalar_raw t" for w t
    using that by simp
  show ?thesis
    using short [of "fl_value f" "fl_scalar f"] raw [of _ "fl_scalar f"]
    by (auto simp: field_ok_def codec_ok_def ValidateFieldBytes_def ValidateFieldView_def ValidateFieldValue_def
        CheckArrayView_def check_elements_protocol Let_def split: if_split_asm)
qed

lemma pieces_encode:
  assumes "record_ok r" "fl_flags f AND NOT 3 = 0" "fl_tag f \<noteq> 0" "length (fl_value f) < 2 ^ 64"
  shows "v @ concat ps = fl_value f \<Longrightarrow> [] \<in> set ps \<longrightarrow> v = [] \<and> ps = [[]] \<Longrightarrow>
    \<forall>x \<in> set (field_pieces r f first final (length v) ps). EncodeFragment (fst x) (snd x) = Some (fragment_bytes x)"
proof (induction ps arbitrary: v)
  case (Cons p ps)
  have "ps = [] \<longleftrightarrow> concat ps = []" using Cons.prems(2) by (cases ps) auto
  then have "piece_ok f (length v) p (ps = [])"
    using Cons.prems assms(4) by (auto simp: piece_ok_def simp flip: Cons.prems(1))
  then have "EncodeFragment (piece_header r f first final (length v) p (ps = [])) p =
      Some (fragment_bytes (piece_header r f first final (length v) p (ps = []), p))"
    using piece_not_bad [OF assms(1-3)] by (simp add: EncodeFragment_def fragment_bytes_def)
  moreover have "\<forall>x \<in> set (field_pieces r f first final (length (v @ p)) ps). EncodeFragment (fst x) (snd x) = Some (fragment_bytes x)"
    by (rule Cons.IH) (use Cons.prems in auto)
  ultimately show ?case by simp
qed simp

lemma record_pieces_encode:
  assumes "record_ok r" "\<forall>(f, ps) \<in> set fps. field_ok f \<and> cut_ok (fl_value f) ps"
  shows "\<forall>x \<in> set (record_pieces r first fps). EncodeFragment (fst x) (snd x) = Some (fragment_bytes x)"
  using assms(2)
proof (induction fps arbitrary: first)
  case (Cons y fps)
  obtain f ps where y: "y = (f, ps)" by (cases y)
  have "\<forall>x \<in> set (field_pieces r f first (fps = []) (length ([] :: bytes)) ps). EncodeFragment (fst x) (snd x) = Some (fragment_bytes x)"
    by (rule pieces_encode [OF assms(1)]) (use Cons.prems y in \<open>auto simp: field_ok_def cut_ok_def\<close>)
  then show ?case
    using Cons by (auto simp: y)
qed simp

text \<open>Claim C32. A record of a defined kind with at least one field that the record encoder writes survives
  fragmentation: cut the value of each field
  into non-empty pieces in any way, write every piece as a fragment, and the fragments are accepted
  and put together to the bytes of the record.\<close>

theorem fragments_round_trip:
  assumes "EncodeLogicalRecord r = Inr b" "length b < 2 ^ 64" "lr_kind r \<le> 8" "lr_fields r \<noteq> []"
    and "map fst cuts = lr_fields r" "\<forall>(f, ps) \<in> set cuts. cut_ok (fl_value f) ps"
  shows "\<exists>fragments. map (\<lambda>(h, p). EncodeFragment h p) (record_pieces r True cuts) = map Some fragments \<and>
    ReassembleFragments fragments (lr_id r) = Inr b"
proof -
  let ?p = "concat (map field_bytes (lr_fields r))"
  have fields: "ascending None (lr_fields r)" "\<forall>f \<in> set (lr_fields r). codec_ok f"
    and count: "length (lr_fields r) \<le> 65535" "lr_flags r AND NOT 1 = 0"
    and b: "b = bytes16 (lr_kind r) @ bytes16 1 @ bytes16 (lr_flags r) @ bytes16 (word_of_nat (length (lr_fields r))) @
      bytes64 (lr_id r) @ bytes64 (size64 ?p) @ ?p"
    using assms(1) by (auto simp: EncodeLogicalRecord_def bindE_Inr_iff encode_fields_Inr split: if_split_asm)
  have ok: "\<forall>f \<in> set (lr_fields r). field_ok f"
  proof
    fix f assume f: "f \<in> set (lr_fields r)"
    have "length (fl_value f) < 2 ^ 64"
      using length_concat_member [OF f, of field_bytes] assms(2) by (simp add: b)
    with f fields show "field_ok f" by (simp add: field_ok_codec)
  qed
  have rec: "record_ok r" using assms(3,4) count by (simp add: record_ok_def)
  have "\<forall>(f, ps) \<in> set cuts. field_ok f \<and> cut_ok (fl_value f) ps"
  proof (intro ballI, clarify)
    fix f ps assume "(f, ps) \<in> set cuts"
    then have "f \<in> set (map fst cuts)" by force
    then show "field_ok f \<and> cut_ok (fl_value f) ps"
      using ok assms(5,6) \<open>(f, ps) \<in> set cuts\<close> by auto
  qed
  from record_pieces_encode [OF rec this, of True]
  have "map (\<lambda>(h, p). EncodeFragment h p) (record_pieces r True cuts) = map Some (map fragment_bytes (record_pieces r True cuts))"
    by (auto simp: split_def)
  moreover have "ReassembleFragments (map fragment_bytes (record_pieces r True cuts)) (lr_id r) = Inr b"
    using Reassemble_pieces [OF rec ok _ assms(5,6)] fields(1) by (simp add: ascending_sorted b Let_def)
  ultimately show ?thesis by blast
qed

theorem fragments_round_trip_witness:
  "\<exists>b fragments. EncodeLogicalRecord sample_record = Inr b \<and> length fragments = 2 \<and>
     ReassembleFragments fragments 5 = Inr b"
proof -
  have "codec_ok sample_field" by code_simp
  then obtain b where b: "EncodeLogicalRecord sample_record = Inr b" "length b = 50"
    by (simp add: EncodeLogicalRecord_def sample_record_def Codec_EncodeField_Inr [THEN iffD2, OF conjI, OF _ refl]
        sample_field_def)
  let ?cuts = "[(sample_field, [[5], [0 :: u8]])]"
  have "\<exists>fragments. map (\<lambda>(h, p). EncodeFragment h p) (record_pieces sample_record True ?cuts) = map Some fragments \<and>
      ReassembleFragments fragments (lr_id sample_record) = Inr b"
    by (rule fragments_round_trip [OF b(1)]) (use b(2) in \<open>auto simp: sample_record_def sample_field_def cut_ok_def\<close>)
  then obtain fragments where f: "map (\<lambda>(h, p). EncodeFragment h p) (record_pieces sample_record True ?cuts) = map Some fragments"
    "ReassembleFragments fragments (lr_id sample_record) = Inr b" by blast
  from f(1) [THEN arg_cong, of length] have "length fragments = 2" by simp
  with b f show ?thesis by (auto simp: sample_record_def)
qed

subsection \<open>A field that does not end\<close>

text \<open>The first piece of a field is not refused while the field before it still misses bytes: a record
  is put together although the fragments carry one of the two bytes that its first field announces.\<close>

definition cut_field :: Field where
  "cut_field = \<lparr>fl_tag = 1, fl_flags = 1, fl_scalar = ST_Struct, fl_elementCount = 1, fl_value = [7, 9]\<rparr>"

definition cut_record :: LogicalRecord where
  "cut_record = \<lparr>lr_kind = 1, lr_flags = 1, lr_id = 5, lr_fields = [cut_field, sample_field]\<rparr>"

lemma truncated_field_accepted:
  "\<exists>b. ReassembleFragments
      [fragment_bytes (piece_header cut_record cut_field True False 0 [7] False, [7]),
       fragment_bytes (piece_header cut_record sample_field False True 0 [5, 0] True, [5, 0])] 5 = Inr b \<and>
     EncodeLogicalRecord (cut_record\<lparr>lr_fields := [cut_field\<lparr>fl_value := [7]\<rparr>, sample_field]\<rparr>) = Inr b"
proof -
  let ?h1 = "piece_header cut_record cut_field True False 0 [7] False"
    and ?h2 = "piece_header cut_record sample_field False True 0 [5, 0] True"
    and ?cut = "cut_field\<lparr>fl_value := [7]\<rparr>"
  have rec: "record_ok cut_record" by (simp add: record_ok_def cut_record_def)
  have flags: "fl_flags cut_field AND NOT 3 = 0" "fl_flags sample_field AND NOT 3 = 0"
    by (simp_all add: cut_field_def sample_field_def)
  have pieces: "piece_ok cut_field 0 [7] False" "piece_ok sample_field 0 [5, 0] True"
    by (simp_all add: piece_ok_def cut_field_def sample_field_def)
  have step1: "reassemble_step 5 2 0 (fragment_bytes (?h1, [7])) empty_assembly = Inr (rec_state cut_record [(?h1, [7])] True False)"
  proof -
    have "append_piece ?h1 [7] (as_fields empty_assembly) = Inr [(?h1, [7])]"
      using append_first [OF flags(1) pieces(1) _ refl, of "[]"] by (simp add: empty_assembly_def)
    moreover have "bind_record ?h1 empty_assembly = rec_state cut_record (as_fields empty_assembly) False False"
      by (simp add: bind_record_def empty_assembly_def rec_state_def piece_header_def)
    ultimately show ?thesis
      using reassemble_step_piece [OF rec flags(1) _ pieces(1) refl, of True False empty_assembly "[(?h1, [7])]" False False 0 2]
      by (simp add: cut_field_def cut_record_def)
  qed
  have step2: "reassemble_step 5 2 1 (fragment_bytes (?h2, [5, 0])) (rec_state cut_record [(?h1, [7])] True False) =
      Inr (rec_state cut_record [(?h1, [7]), (?h2, [5, 0])] True True)"
  proof -
    let ?a = "rec_state cut_record [(?h1, [7])] True False"
    have "append_piece ?h2 [5, 0] (as_fields ?a) = Inr [(?h1, [7]), (?h2, [5, 0])]"
      using append_first [OF flags(2) pieces(2) _ refl, of "[(?h1, [7])]"]
      by (simp add: rec_state_def piece_header_def cut_field_def sample_field_def)
    moreover have "bind_record ?h2 ?a = rec_state cut_record (as_fields ?a) True False"
      by (simp add: bind_record_def rec_state_def)
    ultimately show ?thesis
      using reassemble_step_piece [OF rec flags(2) _ pieces(2) refl, of False True ?a "[(?h1, [7]), (?h2, [5, 0])]" True False 1 2]
      by (simp add: sample_field_def cut_record_def)
  qed
  have "codec_ok ?cut" "codec_ok sample_field" by code_simp+
  then have ok: "field_ok ?cut" "field_ok sample_field" by (simp_all add: field_ok_codec cut_field_def sample_field_def)
  have "encode_assembled [(?h1, [7]), (?h2, [5, 0])] = Inr (concat (map field_bytes [?cut, sample_field]))"
  proof -
    have "encode_assembled ((?h1, [7]) # asm) = bindE (encode_assembled asm) (\<lambda>bs. Inr (field_bytes ?cut @ bs))" for asm
      by (rule encode_assembled_Cons [OF _ _ _ _ _ ok(1)])
        (use piece_flags(1) [OF flags(1)] in \<open>simp_all add: cut_field_def\<close>, simp_all add: piece_header_def)
    moreover have "encode_assembled ((?h2, [5, 0]) # asm) = bindE (encode_assembled asm) (\<lambda>bs. Inr (field_bytes sample_field @ bs))" for asm
      by (rule encode_assembled_Cons [OF _ _ _ _ _ ok(2)])
        (use piece_flags(1) [OF flags(2)] in \<open>simp_all add: sample_field_def\<close>, simp_all add: piece_header_def)
    ultimately show ?thesis by simp
  qed
  note enc = this
  let ?asm = "[(?h1, [7 :: u8]), (?h2, [5, 0])]" and ?p = "concat (map field_bytes [?cut, sample_field])"
  let ?final = "rec_state cut_record ?asm True True"
  have sel: "as_fields ?final = ?asm" "as_kind ?final = 1" "as_recordFlags ?final = 1" "as_fieldCount ?final = 2"
    "as_firstRecord ?final" "as_lastRecord ?final"
    by (simp_all add: rec_state_def cut_record_def)
  have loop: "reassemble_loop 5 (length [fragment_bytes (?h1, [7]), fragment_bytes (?h2, [5, 0])]) 0
      [fragment_bytes (?h1, [7]), fragment_bytes (?h2, [5, 0])] empty_assembly = Inr ?final"
    using step1 step2 by (simp add: numeral_2_eq_2)
  have "ReassembleFragments [fragment_bytes (?h1, [7]), fragment_bytes (?h2, [5, 0])] 5 =
      Inr (bytes16 1 @ bytes16 1 @ bytes16 1 @ bytes16 2 @ bytes64 5 @ bytes64 (size64 ?p) @ ?p)"
    unfolding ReassembleFragments_def loop by (simp add: sel enc EncodeCanonicalRecordHeaderV1_def del: encode_assembled.simps)
  moreover have "EncodeLogicalRecord (cut_record\<lparr>lr_fields := [?cut, sample_field]\<rparr>) =
      Inr (bytes16 1 @ bytes16 1 @ bytes16 1 @ bytes16 2 @ bytes64 5 @ bytes64 (size64 ?p) @ ?p)"
  proof -
    have "encode_fields None [?cut, sample_field] = Inr ?p"
      unfolding encode_fields_Inr using \<open>codec_ok ?cut\<close> \<open>codec_ok sample_field\<close>
      by (simp add: cut_field_def sample_field_def)
    then show ?thesis
      unfolding EncodeLogicalRecord_def by (simp add: cut_record_def)
  qed
  ultimately show ?thesis by blast
qed

end
