(* ===== verification/WireFrame.thy ===== *)
theory WireFrame
  imports WireQuery WireFragments
begin

section \<open>Frames of the graph protocol (DocumentGraphProtocol.cpp)\<close>

text \<open>
  Every message is a frame: a header of 320 bytes and a payload. The header names the message, the
  graph version it is about, its place in the sequence of the conversation, and two digests: one of the
  frame, one that chains it to the frame before. \<open>sha\<close> stands for the SHA-256 of the operating
  system; a failing hash, for which the code uses a digest of zeros, is not modelled.
\<close>

subsection \<open>Constants\<close>

definition kGraphProtocolVersion :: u32 where "kGraphProtocolVersion = 15"
definition kFrameSchema :: u16 where "kFrameSchema = 1"
definition kHeaderBytes :: nat where "kHeaderBytes = 320"
definition kMaximumFrameBytes :: u64 where "kMaximumFrameBytes = 4194304"
definition kMaximumPayloadBytes :: u64 where "kMaximumPayloadBytes = 4193984"
definition kMaximumTotalBytes :: u64 where "kMaximumTotalBytes = - 1"
definition kCapabilityGraphRead :: u64 where "kCapabilityGraphRead = 1"
definition kCapabilityAssetRead :: u64 where "kCapabilityAssetRead = 8"
definition kCapabilityPatchWrite :: u64 where "kCapabilityPatchWrite = 16"
definition kCapabilityPatchValidate :: u64 where "kCapabilityPatchValidate = 32"

definition kCapabilityBits :: u64 where
  "kCapabilityBits = kCapabilityGraphRead OR kCapabilityAssetRead OR kCapabilityPatchWrite OR kCapabilityPatchValidate"

definition kMaximumErrorFrameBytes :: nat where "kMaximumErrorFrameBytes = 4096"

definition kFlagLayoutPresent :: u32 where "kFlagLayoutPresent = 1"
definition kFlagTerminal :: u32 where "kFlagTerminal = 2"
definition kFlagError :: u32 where "kFlagError = 4"
definition kFlagFragmented :: u32 where "kFlagFragmented = 8"
definition kFlagPatch :: u32 where "kFlagPatch = 16"
definition kFlagSemanticCertified :: u32 where "kFlagSemanticCertified = 32"
definition kKnownFlags :: u32 where "kKnownFlags = 0x3f"

lemmas flag_defs = kFlagLayoutPresent_def kFlagTerminal_def kFlagError_def kFlagFragmented_def kFlagPatch_def
  kFlagSemanticCertified_def

subsection \<open>Messages\<close>

datatype MessageKind =
    MK_Capabilities | MK_OpenReceipt | MK_GraphChunk | MK_GraphTerminal | MK_Error | MK_PatchBeginReceipt
  | MK_PatchChunkReceipt | MK_PatchSealReceipt | MK_CursorClosedReceipt | MK_PatchAbortReceipt
  | MK_PatchValidationReceipt | MK_PatchApplyReceipt | MK_BlobChunk | MK_BlobPack
  | MK_GraphOpenRequest | MK_GraphNextRequest | MK_GraphCancelRequest | MK_GraphCloseRequest | MK_PatchBeginRequest
  | MK_PatchChunkRequest | MK_PatchCommitRequest | MK_PatchAbortRequest | MK_PatchValidateRequest
  | MK_PatchApplyRequest | MK_BlobReadRequest | MK_BlobPackRequest

definition message_kinds :: "(u16 \<times> MessageKind) list" where
  "message_kinds =
    [(1, MK_Capabilities), (2, MK_OpenReceipt), (3, MK_GraphChunk), (4, MK_GraphTerminal), (5, MK_Error),
     (6, MK_PatchBeginReceipt), (7, MK_PatchChunkReceipt), (8, MK_PatchSealReceipt), (9, MK_CursorClosedReceipt),
     (10, MK_PatchAbortReceipt), (11, MK_PatchValidationReceipt), (12, MK_PatchApplyReceipt), (13, MK_BlobChunk),
     (14, MK_BlobPack), (101, MK_GraphOpenRequest), (102, MK_GraphNextRequest), (103, MK_GraphCancelRequest),
     (104, MK_GraphCloseRequest), (105, MK_PatchBeginRequest), (106, MK_PatchChunkRequest), (107, MK_PatchCommitRequest),
     (108, MK_PatchAbortRequest), (109, MK_PatchValidateRequest), (110, MK_PatchApplyRequest), (111, MK_BlobReadRequest),
     (112, MK_BlobPackRequest)]"

definition message_code :: "MessageKind \<Rightarrow> u16" where
  "message_code m = the (map_of (map prod.swap message_kinds) m)"

text \<open>The message of a code that \<open>KnownMessage\<close> accepts.\<close>

definition message_of :: "u16 \<Rightarrow> MessageKind option" where
  "message_of raw = map_of message_kinds raw"

definition KnownMessage :: "u16 \<Rightarrow> bool" where
  "KnownMessage raw \<longleftrightarrow> raw \<ge> 1 \<and> raw \<le> 14 \<or> raw \<ge> 101 \<and> raw \<le> 112"

record Header =
  fh_message :: MessageKind
  fh_flags :: u32
  fh_payloadBytes :: u64
  fh_sequence :: u64
  fh_fragmentOffset :: u64
  fh_fragmentTotal :: u64
  fh_session :: Uuid128
  fh_graph :: Uuid128
  fh_profileBits :: u64
  fh_semanticRevision :: u64
  fh_layoutRevision :: u64
  fh_locatorEpoch :: u64
  fh_observedSemanticRoot :: Sha256
  fh_layoutRoot :: Sha256
  fh_captureRoot :: Sha256
  fh_cursorOrUpload :: Uuid128
  fh_previousChain :: Sha256
  fh_chunkDigest :: Sha256
  fh_chainDigest :: Sha256

definition zero_digest :: Sha256 where "zero_digest = replicate 32 0"

definition empty_header :: Header where
  "empty_header =
    \<lparr>fh_message = MK_Capabilities, fh_flags = 0, fh_payloadBytes = 0, fh_sequence = 0, fh_fragmentOffset = 0,
     fh_fragmentTotal = 0, fh_session = zero_uuid, fh_graph = zero_uuid, fh_profileBits = 0, fh_semanticRevision = 0,
     fh_layoutRevision = 0, fh_locatorEpoch = 0, fh_observedSemanticRoot = zero_digest, fh_layoutRoot = zero_digest,
     fh_captureRoot = zero_digest, fh_cursorOrUpload = zero_uuid, fh_previousChain = zero_digest,
     fh_chunkDigest = zero_digest, fh_chainDigest = zero_digest\<rparr>"

subsection \<open>The shape of a message\<close>

definition Zero :: "u8 list \<Rightarrow> bool" where
  "Zero v \<longleftrightarrow> list_all (\<lambda>byte. byte = 0) v"

definition VersionFlags :: "Header \<Rightarrow> u32" where
  "VersionFlags h = fh_flags h AND (kFlagLayoutPresent OR kFlagSemanticCertified)"

definition VersionFieldsZero :: "Header \<Rightarrow> bool" where
  "VersionFieldsZero h \<longleftrightarrow> Zero (fh_graph h) \<and> fh_profileBits h = 0 \<and> fh_semanticRevision h = 0 \<and> fh_layoutRevision h = 0 \<and>
     fh_locatorEpoch h = 0 \<and> Zero (fh_observedSemanticRoot h) \<and> Zero (fh_layoutRoot h) \<and> Zero (fh_captureRoot h) \<and>
     VersionFlags h = 0"

definition HasVersion :: "Header \<Rightarrow> bool" where
  "HasVersion h \<longleftrightarrow> \<not> Zero (fh_graph h) \<or> fh_semanticRevision h \<noteq> 0 \<or> fh_layoutRevision h \<noteq> 0 \<or> fh_locatorEpoch h \<noteq> 0 \<or>
     \<not> Zero (fh_observedSemanticRoot h) \<or> \<not> Zero (fh_layoutRoot h) \<or> \<not> Zero (fh_captureRoot h) \<or> VersionFlags h \<noteq> 0"

definition FullVersionShape :: "Header \<Rightarrow> bool" where
  "FullVersionShape h \<longleftrightarrow> \<not> Zero (fh_session h) \<and> \<not> Zero (fh_graph h) \<and> fh_profileBits h \<noteq> 0 \<and>
     fh_semanticRevision h \<noteq> 0 \<and> fh_layoutRevision h \<noteq> 0 \<and> fh_locatorEpoch h \<noteq> 0"

definition header_version :: "Header \<Rightarrow> GraphVersionV1" where
  "header_version h =
    \<lparr>gv_schema = kSchemaVersionV1, gv_profileBits = fh_profileBits h,
     gv_semanticCertified = (fh_flags h AND kFlagSemanticCertified \<noteq> 0),
     gv_layoutPresent = (fh_flags h AND kFlagLayoutPresent \<noteq> 0), gv_documentSessionId = fh_session h,
     gv_graphId = fh_graph h, gv_semanticRevision = fh_semanticRevision h, gv_layoutRevision = fh_layoutRevision h,
     gv_locatorEpoch = fh_locatorEpoch h, gv_observedSemanticRoot = fh_observedSemanticRoot h,
     gv_layoutRoot = fh_layoutRoot h, gv_captureRoot = fh_captureRoot h\<rparr>"

definition FullVersionHeader :: "Header \<Rightarrow> bool" where
  "FullVersionHeader h \<longleftrightarrow> ValidateGraphVersion (header_version h) = GV_None"

definition GraphOpenVersionAbsent :: "Header \<Rightarrow> bool" where
  "GraphOpenVersionAbsent h \<longleftrightarrow> Zero (fh_graph h) \<and> fh_semanticRevision h = 0 \<and> fh_layoutRevision h = 0 \<and>
     fh_locatorEpoch h = 0 \<and> Zero (fh_observedSemanticRoot h) \<and> Zero (fh_layoutRoot h) \<and> Zero (fh_captureRoot h) \<and>
     VersionFlags h = 0"

definition Independent :: "Header \<Rightarrow> bool" where
  "Independent h \<longleftrightarrow> fh_sequence h = 0 \<and> Zero (fh_previousChain h)"

definition ZeroRange :: "Header \<Rightarrow> bool" where
  "ZeroRange h \<longleftrightarrow> fh_fragmentOffset h = 0 \<and> fh_fragmentTotal h = 0"

fun message_shape :: "MessageKind \<Rightarrow> u32 \<Rightarrow> Header \<Rightarrow> bool" where
  "message_shape MK_Capabilities version h \<longleftrightarrow> fh_flags h = kFlagTerminal \<and> Zero (fh_session h) \<and> VersionFieldsZero h \<and>
     Zero (fh_cursorOrUpload h) \<and> Independent h \<and> ZeroRange h"
| "message_shape MK_GraphOpenRequest version h \<longleftrightarrow> fh_flags h = version \<and> \<not> Zero (fh_session h) \<and> Zero (fh_cursorOrUpload h) \<and>
     Independent h \<and> ZeroRange h \<and> (GraphOpenVersionAbsent h \<or> FullVersionShape h)"
| "message_shape MK_OpenReceipt version h \<longleftrightarrow> fh_flags h = version \<and> FullVersionShape h \<and> \<not> Zero (fh_cursorOrUpload h) \<and>
     Independent h \<and> ZeroRange h"
| "message_shape MK_GraphNextRequest version h \<longleftrightarrow> fh_flags h = version \<and> FullVersionShape h \<and> \<not> Zero (fh_cursorOrUpload h) \<and>
     ZeroRange h"
| "message_shape MK_GraphChunk version h \<longleftrightarrow> (fh_flags h = version \<or> fh_flags h = version OR kFlagFragmented) \<and>
     FullVersionShape h \<and> \<not> Zero (fh_cursorOrUpload h) \<and> fh_fragmentOffset h \<le> fh_fragmentTotal h"
| "message_shape MK_GraphTerminal version h \<longleftrightarrow> fh_flags h = version OR kFlagTerminal \<and> FullVersionShape h \<and>
     \<not> Zero (fh_cursorOrUpload h) \<and> fh_fragmentOffset h = fh_fragmentTotal h"
| "message_shape MK_BlobReadRequest version h \<longleftrightarrow> fh_flags h = version \<and> FullVersionShape h \<and> \<not> Zero (fh_cursorOrUpload h) \<and>
     Independent h \<and> ZeroRange h"
| "message_shape MK_BlobPackRequest version h \<longleftrightarrow> fh_flags h = version \<and> FullVersionShape h \<and> \<not> Zero (fh_cursorOrUpload h) \<and>
     Independent h \<and> ZeroRange h"
| "message_shape MK_BlobChunk version h \<longleftrightarrow> (fh_flags h = version \<or> fh_flags h = version OR kFlagTerminal) \<and>
     FullVersionShape h \<and> \<not> Zero (fh_cursorOrUpload h) \<and> Independent h \<and> fh_fragmentOffset h \<le> fh_fragmentTotal h"
| "message_shape MK_BlobPack version h \<longleftrightarrow> fh_flags h = version OR kFlagTerminal \<and> FullVersionShape h \<and>
     \<not> Zero (fh_cursorOrUpload h) \<and> Independent h \<and> ZeroRange h"
| "message_shape MK_Error version h \<longleftrightarrow> fh_flags h = version OR kFlagError \<and> ZeroRange h \<and>
     (VersionFieldsZero h \<or> FullVersionShape h)"
| "message_shape MK_GraphCancelRequest version h \<longleftrightarrow> fh_flags h = 0 \<and> \<not> Zero (fh_session h) \<and> \<not> Zero (fh_cursorOrUpload h) \<and>
     VersionFieldsZero h \<and> Independent h \<and> ZeroRange h"
| "message_shape MK_GraphCloseRequest version h \<longleftrightarrow> fh_flags h = 0 \<and> \<not> Zero (fh_session h) \<and> \<not> Zero (fh_cursorOrUpload h) \<and>
     VersionFieldsZero h \<and> Independent h \<and> ZeroRange h"
| "message_shape MK_CursorClosedReceipt version h \<longleftrightarrow> fh_flags h = kFlagTerminal \<and> \<not> Zero (fh_session h) \<and>
     \<not> Zero (fh_cursorOrUpload h) \<and> VersionFieldsZero h \<and> Independent h \<and> ZeroRange h"
| "message_shape MK_PatchBeginRequest version h \<longleftrightarrow> fh_flags h = version OR kFlagPatch \<and> FullVersionShape h \<and>
     Zero (fh_cursorOrUpload h) \<and> Independent h \<and> fh_fragmentOffset h = 0"
| "message_shape MK_PatchBeginReceipt version h \<longleftrightarrow> fh_flags h = version OR kFlagPatch \<and> FullVersionShape h \<and>
     version AND kFlagSemanticCertified \<noteq> 0 \<and> \<not> Zero (fh_cursorOrUpload h) \<and> Independent h \<and> fh_fragmentOffset h = 0"
| "message_shape MK_PatchChunkRequest version h \<longleftrightarrow>
     (fh_flags h = version OR kFlagPatch \<or> fh_flags h = version OR kFlagPatch OR kFlagFragmented) \<and> FullVersionShape h \<and>
     version AND kFlagSemanticCertified \<noteq> 0 \<and> \<not> Zero (fh_cursorOrUpload h) \<and> fh_fragmentOffset h \<le> fh_fragmentTotal h"
| "message_shape MK_PatchChunkReceipt version h \<longleftrightarrow> fh_flags h = version OR kFlagPatch \<and> FullVersionShape h \<and>
     version AND kFlagSemanticCertified \<noteq> 0 \<and> \<not> Zero (fh_cursorOrUpload h) \<and> fh_fragmentOffset h \<le> fh_fragmentTotal h"
| "message_shape MK_PatchCommitRequest version h \<longleftrightarrow> fh_flags h = version OR kFlagPatch OR kFlagTerminal \<and> FullVersionShape h \<and>
     version AND kFlagSemanticCertified \<noteq> 0 \<and> \<not> Zero (fh_cursorOrUpload h) \<and> fh_fragmentOffset h = fh_fragmentTotal h"
| "message_shape MK_PatchSealReceipt version h \<longleftrightarrow> fh_flags h = version OR kFlagPatch OR kFlagTerminal \<and> FullVersionShape h \<and>
     version AND kFlagSemanticCertified \<noteq> 0 \<and> \<not> Zero (fh_cursorOrUpload h) \<and> fh_fragmentOffset h = fh_fragmentTotal h"
| "message_shape MK_PatchAbortRequest version h \<longleftrightarrow> fh_flags h = kFlagPatch OR kFlagTerminal \<and> \<not> Zero (fh_session h) \<and>
     \<not> Zero (fh_cursorOrUpload h) \<and> VersionFieldsZero h \<and> fh_fragmentOffset h = 0"
| "message_shape MK_PatchAbortReceipt version h \<longleftrightarrow> fh_flags h = kFlagPatch OR kFlagTerminal \<and> \<not> Zero (fh_session h) \<and>
     \<not> Zero (fh_cursorOrUpload h) \<and> VersionFieldsZero h \<and> fh_fragmentOffset h = 0"
| "message_shape MK_PatchValidateRequest version h \<longleftrightarrow> fh_flags h = version OR kFlagPatch \<and> FullVersionShape h \<and>
     version AND kFlagSemanticCertified \<noteq> 0 \<and> \<not> Zero (fh_cursorOrUpload h) \<and> Independent h \<and> fh_fragmentOffset h = 0 \<and>
     fh_fragmentTotal h = 0"
| "message_shape MK_PatchValidationReceipt version h \<longleftrightarrow> fh_flags h = version OR kFlagPatch OR kFlagTerminal \<and>
     FullVersionShape h \<and> version AND kFlagSemanticCertified \<noteq> 0 \<and> \<not> Zero (fh_cursorOrUpload h) \<and> Independent h \<and>
     fh_fragmentOffset h = 0 \<and> fh_fragmentTotal h = 0"
| "message_shape MK_PatchApplyReceipt version h \<longleftrightarrow> False"
| "message_shape MK_PatchApplyRequest version h \<longleftrightarrow> False"

definition ValidateMessageShape :: "Header \<Rightarrow> bool" where
  "ValidateMessageShape h \<longleftrightarrow> message_shape (fh_message h) (VersionFlags h) h"

subsection \<open>The version of a header\<close>

definition ApplyVersionToHeader :: "GraphVersionV1 \<Rightarrow> Header \<Rightarrow> Header option" where
  "ApplyVersionToHeader version h =
    (if ValidateGraphVersion version \<noteq> GV_None then None
     else Some (h\<lparr>fh_session := gv_documentSessionId version, fh_graph := gv_graphId version,
       fh_profileBits := gv_profileBits version, fh_semanticRevision := gv_semanticRevision version,
       fh_layoutRevision := gv_layoutRevision version, fh_locatorEpoch := gv_locatorEpoch version,
       fh_observedSemanticRoot := gv_observedSemanticRoot version, fh_layoutRoot := gv_layoutRoot version,
       fh_captureRoot := gv_captureRoot version,
       fh_flags := fh_flags h AND NOT (kFlagSemanticCertified OR kFlagLayoutPresent)
         OR (if gv_semanticCertified version then kFlagSemanticCertified else 0)
         OR (if gv_layoutPresent version then kFlagLayoutPresent else 0)\<rparr>))"

definition HeaderMatchesVersion :: "Header \<Rightarrow> GraphVersionV1 \<Rightarrow> bool" where
  "HeaderMatchesVersion h version \<longleftrightarrow>
    (case ApplyVersionToHeader version empty_header of
       None \<Rightarrow> False
     | Some expected \<Rightarrow>
         fh_session h = fh_session expected \<and> fh_graph h = fh_graph expected \<and> fh_profileBits h = fh_profileBits expected \<and>
         fh_semanticRevision h = fh_semanticRevision expected \<and> fh_layoutRevision h = fh_layoutRevision expected \<and>
         fh_locatorEpoch h = fh_locatorEpoch expected \<and>
         EqualHash (fh_observedSemanticRoot h) (fh_observedSemanticRoot expected) \<and>
         EqualHash (fh_layoutRoot h) (fh_layoutRoot expected) \<and> EqualHash (fh_captureRoot h) (fh_captureRoot expected) \<and>
         VersionFlags h = VersionFlags expected)"

subsection \<open>Readers of fields\<close>

definition ReadVersion :: "Field option \<Rightarrow> bool \<Rightarrow> GraphVersionV1 option" where
  "ReadVersion field required =
    (case field of None \<Rightarrow> None
     | Some f \<Rightarrow>
         if fl_scalar f = ST_Struct \<and> fl_flags f = (if required then 1 else 0)
         then (case DeserializeGraphVersion (fl_value f) of Inl _ \<Rightarrow> None | Inr version \<Rightarrow> Some version) else None)"

definition Protocol_ReadId :: "Field option \<Rightarrow> Uuid128 option" where
  "Protocol_ReadId field =
    (if \<not> ExactField field ST_UUID128 16 True then None
     else let u = take 16 (the_value field) in if Zero u then None else Some u)"

definition ReadDigest :: "Field option \<Rightarrow> Sha256 option" where
  "ReadDigest field = (if \<not> ExactField field ST_SHA256 32 True then None else Some (take 32 (the_value field)))"

definition FieldIdEquals :: "Field option \<Rightarrow> Uuid128 \<Rightarrow> bool" where
  "FieldIdEquals field u \<longleftrightarrow> ExactField field ST_UUID128 16 True \<and> the_value field = u"

definition FieldU64Equals :: "Field option \<Rightarrow> u64 \<Rightarrow> bool" where
  "FieldU64Equals field v \<longleftrightarrow> ExactField field ST_Uint64 8 True \<and> Get64 (the_value field) = v"

definition PayloadVersion :: "Field option \<Rightarrow> Header \<Rightarrow> bool \<Rightarrow> GraphVersionV1 option" where
  "PayloadVersion field h required =
    (case ReadVersion field required of
       None \<Rightarrow> None
     | Some version \<Rightarrow> if HeaderMatchesVersion h version then Some version else None)"

text \<open>A field of counted bytes.\<close>

definition counted_bytes :: "Field option \<Rightarrow> bool" where
  "counted_bytes field \<longleftrightarrow> (case field of None \<Rightarrow> False
     | Some f \<Rightarrow> fl_flags f = 1 \<and> fl_scalar f = ST_Bytes \<and> \<not> length (fl_value f) < 8)"

subsection \<open>The fragments in a chunk\<close>

text \<open>The state of the loop over the fragments of a payload; the rest of the payload is an argument.\<close>

record StreamScan =
  sc_reconstructedBytes :: u64
  sc_currentFieldBytes :: u64
  sc_currentRecord :: u64
  sc_currentField :: FieldTag
  sc_fieldCount :: u16
  sc_fieldsSeen :: u16
  sc_currentScalar :: u16
  sc_currentValueFlags :: u16
  sc_currentElementCount :: u64
  sc_currentFieldTotal :: u64
  sc_haveRecord :: bool
  sc_recordStartedHere :: bool
  sc_recordEnded :: bool
  sc_completeRecordFragments :: "bytes list"

definition empty_scan :: StreamScan where
  "empty_scan = \<lparr>sc_reconstructedBytes = 0, sc_currentFieldBytes = 0, sc_currentRecord = 0, sc_currentField = 0,
     sc_fieldCount = 0, sc_fieldsSeen = 0, sc_currentScalar = scalar_raw ST_Bytes, sc_currentValueFlags = 0,
     sc_currentElementCount = 0, sc_currentFieldTotal = 0, sc_haveRecord = False, sc_recordStartedHere = False,
     sc_recordEnded = False, sc_completeRecordFragments = []\<rparr>"

definition scan_field :: "FragmentHeader \<Rightarrow> u64 \<Rightarrow> StreamScan \<Rightarrow> StreamScan" where
  "scan_field h bytes s = s\<lparr>sc_currentField := fr_fieldTag h, sc_currentScalar := fr_scalar h,
     sc_currentValueFlags := fr_fieldFlags h AND 3, sc_currentElementCount := fr_elementCount h,
     sc_currentFieldTotal := fr_totalFieldBytes h, sc_currentFieldBytes := bytes\<rparr>"

definition scan_enter_record :: "u64 \<Rightarrow> FragmentHeader \<Rightarrow> StreamScan \<Rightarrow> StreamScan option" where
  "scan_enter_record headerOffset h s =
    (if \<not> sc_haveRecord s \<or> fr_recordId h \<noteq> sc_currentRecord s then
       (if \<not> sc_haveRecord s \<and> headerOffset = 0 \<and> (\<not> firstRecord h \<or> fr_recordId h \<noteq> 0) \<or>
          sc_haveRecord s \<and> (\<not> sc_recordEnded s \<or> fr_recordId h \<noteq> sc_currentRecord s + 1 \<or> \<not> firstRecord h) then None
        else
          let s = s\<lparr>sc_currentRecord := fr_recordId h, sc_currentField := 0, sc_fieldCount := fr_logicalRecordFieldCount h,
                    sc_fieldsSeen := 0, sc_haveRecord := True, sc_recordStartedHere := firstRecord h,
                    sc_recordEnded := False, sc_completeRecordFragments := []\<rparr>
          in Some (if \<not> firstField h then scan_field h (fr_fragmentOffset h) s else s))
     else if sc_recordEnded s \<or> fr_logicalRecordFieldCount h \<noteq> sc_fieldCount s \<or> firstRecord h then None
     else Some s)"

definition scan_enter_field :: "FragmentHeader \<Rightarrow> StreamScan \<Rightarrow> StreamScan option" where
  "scan_enter_field h s =
    (if firstField h then
       (if fr_fieldTag h \<le> sc_currentField s then None
        else Some ((scan_field h 0 s)\<lparr>sc_fieldsSeen := sc_fieldsSeen s + 1,
          sc_reconstructedBytes := sc_reconstructedBytes s + 24\<rparr>))
     else if fr_fieldTag h \<noteq> sc_currentField s \<or> fr_scalar h \<noteq> sc_currentScalar s \<or>
       fr_fieldFlags h AND 3 \<noteq> sc_currentValueFlags s \<or> fr_elementCount h \<noteq> sc_currentElementCount s \<or>
       fr_totalFieldBytes h \<noteq> sc_currentFieldTotal s \<or> fr_fragmentOffset h \<noteq> sc_currentFieldBytes s then None
     else Some s)"

definition scan_take :: "FragmentHeader \<Rightarrow> bytes \<Rightarrow> StreamScan \<Rightarrow> StreamScan" where
  "scan_take h fragment s =
    s\<lparr>sc_currentFieldBytes := sc_currentFieldBytes s + fr_fragmentBytes h,
      sc_reconstructedBytes := sc_reconstructedBytes s + (if firstRecord h then 24 else 0) + fr_fragmentBytes h,
      sc_completeRecordFragments := sc_completeRecordFragments s @ [fragment]\<rparr>"

text \<open>The end of a record: what started in this payload is put together.\<close>

definition scan_end_record :: "StreamScan \<Rightarrow> StreamScan option" where
  "scan_end_record s =
    (if sc_recordStartedHere s \<and> sc_fieldsSeen s \<noteq> sc_fieldCount s then None
     else if sc_recordStartedHere s \<and> isl (ReassembleFragments (sc_completeRecordFragments s) (sc_currentRecord s)) then None
     else Some (s\<lparr>sc_recordEnded := True\<rparr>))"

definition scan_step :: "u64 \<Rightarrow> bytes \<Rightarrow> StreamScan \<Rightarrow> (StreamScan \<times> bytes) option" where
  "scan_step headerOffset payload s =
    (if length payload < 56 \<or> Get32 (drop 12 payload) \<noteq> 56 then None
     else let h = read_fragment payload; n = unat (fr_fragmentBytes h); rest = drop 56 payload
       in if fragment_bad h n \<or> n > length rest then None
          else if firstField h \<noteq> (fr_fragmentOffset h = 0) \<or>
            lastField h \<noteq> (fr_fragmentOffset h + fr_fragmentBytes h = fr_totalFieldBytes h) \<or>
            firstRecord h \<and> \<not> firstField h \<or> lastRecord h \<and> \<not> lastField h then None
          else Option.bind (scan_enter_record headerOffset h s) (\<lambda>s. Option.bind (scan_enter_field h s) (\<lambda>s.
            let s = scan_take h (take (56 + n) payload) s
            in if lastField h \<and> fr_fragmentOffset h = 0 \<and>
                 EncodeField (fr_fieldTag h) (fr_fieldFlags h AND 3) (scalar_of (fr_scalar h))
                   (take (unat (fr_totalFieldBytes h)) rest) (fr_elementCount h) = [] then None
               else Option.bind (if lastRecord h then scan_end_record s else Some s) (\<lambda>s. Some (s, drop n rest)))))"

lemma scan_step_shorter: "scan_step headerOffset payload s = Some (s', rest) \<Longrightarrow> length rest < length payload"
  by (auto simp: scan_step_def Let_def bind_eq_Some_conv split: if_split_asm)

function scan_loop :: "u64 \<Rightarrow> bytes \<Rightarrow> StreamScan \<Rightarrow> StreamScan option" where
  "scan_loop headerOffset payload s =
    (if payload = [] then Some s
     else case scan_step headerOffset payload s of None \<Rightarrow> None | Some (s', rest) \<Rightarrow> scan_loop headerOffset rest s')"
  by pat_completeness auto
termination by (relation "measure (\<lambda>(headerOffset, payload, s). length payload)") (auto dest: scan_step_shorter)

declare scan_loop.simps [simp del]

definition ValidateFragmentStream :: "Header \<Rightarrow> bytes \<Rightarrow> bool" where
  "ValidateFragmentStream h payload \<longleftrightarrow> \<not> length payload < 56 \<and>
    (case scan_loop (fh_fragmentOffset h) payload empty_scan of
       None \<Rightarrow> False
     | Some s \<Rightarrow>
         sc_haveRecord s \<and> \<not> (fh_fragmentOffset h = 0 \<and> \<not> sc_recordStartedHere s) \<and>
         fh_fragmentOffset h \<le> fh_fragmentTotal h \<and>
         sc_reconstructedBytes s \<le> fh_fragmentTotal h - fh_fragmentOffset h \<and>
         (let further = fh_fragmentOffset h + sc_reconstructedBytes s < fh_fragmentTotal h
          in (fh_flags h AND kFlagFragmented \<noteq> 0 \<longleftrightarrow> further) \<and> (further \<or> sc_recordEnded s)))"

subsection \<open>The shape of a payload\<close>

definition version_bound :: "Header \<Rightarrow> bool" where
  "version_bound h \<longleftrightarrow>
     fh_message h \<in> {MK_OpenReceipt, MK_GraphNextRequest, MK_GraphChunk, MK_GraphTerminal, MK_BlobReadRequest,
       MK_BlobPackRequest, MK_BlobChunk, MK_BlobPack, MK_PatchBeginRequest, MK_PatchBeginReceipt, MK_PatchChunkRequest,
       MK_PatchChunkReceipt, MK_PatchCommitRequest, MK_PatchSealReceipt, MK_PatchValidateRequest,
       MK_PatchValidationReceipt} \<or>
     fh_message h \<in> {MK_GraphOpenRequest, MK_Error} \<and> HasVersion h"

definition open_request_payload :: "Header \<Rightarrow> Field list \<Rightarrow> bool" where
  "open_request_payload h fs \<longleftrightarrow>
    (let profileField = Find_field fs 3
     in Protocol_ExactTags fs [1, 3, 4, 5] [2] \<and> FieldIdEquals (Find_field fs 1) (fh_session h) \<and>
        ExactField profileField ST_Uint64 8 True \<and>
        (case Find_field fs 4 of None \<Rightarrow> False
         | Some queryField \<Rightarrow> fl_flags queryField = 1 \<and> fl_scalar queryField = ST_Struct \<and>
             ExactField (Find_field fs 5) ST_Uint64 8 True \<and>
             (let closedProfiles = Get64 (the_value profileField)
              in (case DecodeQueryV1 (fl_value queryField) of None \<Rightarrow> False | Some query \<Rightarrow> ValidateQueryV1 query closedProfiles) \<and>
                 (if Find_field fs 2 = None then GraphOpenVersionAbsent h \<and> fh_profileBits h = closedProfiles
                  else case PayloadVersion (Find_field fs 2) h False of None \<Rightarrow> False
                     | Some source \<Rightarrow> closedProfiles AND NOT (gv_profileBits source) = 0))))"

definition blob_chunk_payload :: "Header \<Rightarrow> Field list \<Rightarrow> bool" where
  "blob_chunk_payload h fs \<longleftrightarrow>
    (let b = Find_field fs 6
     in Protocol_ExactTags fs [1, 2, 3, 4, 5, 6] [] \<and> ExactField (Find_field fs 1) ST_UUID128 16 True \<and>
        ExactField (Find_field fs 2) ST_Uint64 8 True \<and> FieldU64Equals (Find_field fs 3) (fh_fragmentTotal h) \<and>
        ExactField (Find_field fs 4) ST_SHA256 32 True \<and> FieldU64Equals (Find_field fs 5) (fh_fragmentOffset h) \<and>
        counted_bytes b \<and>
        (let len = Get64 (the_value b)
         in len \<le> 32768 \<and> unat len = length (the_value b) - 8 \<and> fh_fragmentOffset h \<le> fh_fragmentTotal h \<and>
            len \<le> fh_fragmentTotal h - fh_fragmentOffset h \<and>
            (fh_flags h AND kFlagTerminal \<noteq> 0 \<longleftrightarrow> fh_fragmentOffset h + len = fh_fragmentTotal h)))"

definition patch_chunk_payload :: "Header \<Rightarrow> Field list \<Rightarrow> bool" where
  "patch_chunk_payload h fs \<longleftrightarrow>
    (let b = Find_field fs 3
     in Protocol_ExactTags fs [1, 2, 3] [] \<and> FieldIdEquals (Find_field fs 1) (fh_cursorOrUpload h) \<and>
        FieldU64Equals (Find_field fs 2) (fh_fragmentOffset h) \<and> counted_bytes b \<and>
        (let len = Get64 (the_value b)
         in unat len = length (the_value b) - 8 \<and> fh_fragmentOffset h \<le> fh_fragmentTotal h \<and>
            len \<le> fh_fragmentTotal h - fh_fragmentOffset h \<and>
            (fh_flags h AND kFlagFragmented \<noteq> 0 \<longleftrightarrow> fh_fragmentOffset h + len < fh_fragmentTotal h)))"

fun fields_shape :: "MessageKind \<Rightarrow> Header \<Rightarrow> Field list \<Rightarrow> bool" where
  "fields_shape MK_Capabilities h fs \<longleftrightarrow> Protocol_ExactTags fs [1, 2, 3, 4, 5, 6] [] \<and>
     ExactField (Find_field fs 1) ST_Uint32 4 True \<and> Get32 (the_value (Find_field fs 1)) = kGraphProtocolVersion \<and>
     ExactField (Find_field fs 2) ST_Uint16 2 True \<and> Get16 (the_value (Find_field fs 2)) = kFrameSchema \<and>
     FieldU64Equals (Find_field fs 3) kMaximumFrameBytes \<and> FieldU64Equals (Find_field fs 4) kMaximumPayloadBytes \<and>
     FieldU64Equals (Find_field fs 5) kMaximumTotalBytes \<and> FieldU64Equals (Find_field fs 6) kCapabilityBits"
| "fields_shape MK_GraphOpenRequest h fs \<longleftrightarrow> open_request_payload h fs"
| "fields_shape MK_OpenReceipt h fs \<longleftrightarrow> Protocol_ExactTags fs [1, 2] [] \<and>
     FieldIdEquals (Find_field fs 1) (fh_cursorOrUpload h) \<and> PayloadVersion (Find_field fs 2) h True \<noteq> None"
| "fields_shape MK_GraphNextRequest h fs \<longleftrightarrow> Protocol_ExactTags fs [1, 2, 3, 4, 5] [] \<and>
     FieldIdEquals (Find_field fs 1) (fh_cursorOrUpload h) \<and> PayloadVersion (Find_field fs 2) h True \<noteq> None \<and>
     ExactField (Find_field fs 3) ST_Uint64 8 True \<and> FieldU64Equals (Find_field fs 4) (fh_sequence h) \<and>
     ExactField (Find_field fs 5) ST_SHA256 32 True \<and> the_value (Find_field fs 5) = fh_previousChain h"
| "fields_shape MK_GraphTerminal h fs \<longleftrightarrow> Protocol_ExactTags fs [1, 2, 3] [] \<and>
     ExactField (Find_field fs 1) ST_Uint64 8 True \<and> FieldU64Equals (Find_field fs 2) (fh_fragmentTotal h) \<and>
     ExactField (Find_field fs 3) ST_SHA256 32 True"
| "fields_shape MK_BlobReadRequest h fs \<longleftrightarrow> Protocol_ExactTags fs [1, 2, 3, 4, 5, 6, 7, 8] [] \<and>
     FieldIdEquals (Find_field fs 1) (fh_cursorOrUpload h) \<and> PayloadVersion (Find_field fs 2) h True \<noteq> None \<and>
     ExactField (Find_field fs 3) ST_UUID128 16 True \<and> ExactField (Find_field fs 4) ST_Uint64 8 True \<and>
     ExactField (Find_field fs 5) ST_Uint64 8 True \<and> ExactField (Find_field fs 6) ST_SHA256 32 True \<and>
     ExactField (Find_field fs 7) ST_Uint64 8 True \<and> ExactField (Find_field fs 8) ST_Uint64 8 True \<and>
     Get64 (the_value (Find_field fs 8)) \<ge> 1 \<and> Get64 (the_value (Find_field fs 8)) \<le> 32768"
| "fields_shape MK_BlobPackRequest h fs \<longleftrightarrow> Protocol_ExactTags fs [1, 2, 3, 4, 5] [] \<and>
     FieldIdEquals (Find_field fs 1) (fh_cursorOrUpload h) \<and> PayloadVersion (Find_field fs 2) h True \<noteq> None \<and>
     ExactField (Find_field fs 3) ST_UUID128 16 True \<and> counted_bytes (Find_field fs 4) \<and>
     ExactField (Find_field fs 5) ST_Uint64 8 True \<and> Get64 (the_value (Find_field fs 5)) \<le> kMaximumPayloadBytes"
| "fields_shape MK_BlobChunk h fs \<longleftrightarrow> blob_chunk_payload h fs"
| "fields_shape MK_BlobPack h fs \<longleftrightarrow> Protocol_ExactTags fs [1, 2, 3, 4] [] \<and> ExactField (Find_field fs 1) ST_UUID128 16 True \<and>
     ExactField (Find_field fs 2) ST_Uint64 8 True \<and> counted_bytes (Find_field fs 3) \<and>
     ExactField (Find_field fs 4) ST_SHA256 32 True"
| "fields_shape MK_Error h fs \<longleftrightarrow> Protocol_ExactTags fs [1, 2, 3, 4] [] \<and> ExactField (Find_field fs 1) ST_Uint32 4 True \<and>
     ExactField (Find_field fs 2) ST_Sint32 4 True \<and> ExactField (Find_field fs 3) ST_Uint64 8 True \<and>
     ExactField (Find_field fs 4) ST_UTF16 (length (the_value (Find_field fs 4))) True"
| "fields_shape MK_GraphCancelRequest h fs \<longleftrightarrow> Protocol_ExactTags fs [1, 2] [] \<and>
     FieldIdEquals (Find_field fs 1) (fh_cursorOrUpload h) \<and> FieldIdEquals (Find_field fs 2) (fh_session h)"
| "fields_shape MK_GraphCloseRequest h fs \<longleftrightarrow> Protocol_ExactTags fs [1, 2] [] \<and>
     FieldIdEquals (Find_field fs 1) (fh_cursorOrUpload h) \<and> FieldIdEquals (Find_field fs 2) (fh_session h)"
| "fields_shape MK_CursorClosedReceipt h fs \<longleftrightarrow> Protocol_ExactTags fs [1, 2] [] \<and>
     FieldIdEquals (Find_field fs 1) (fh_cursorOrUpload h) \<and> ExactField (Find_field fs 2) ST_Uint8 1 True"
| "fields_shape MK_PatchAbortReceipt h fs \<longleftrightarrow> Protocol_ExactTags fs [1, 2] [] \<and>
     FieldIdEquals (Find_field fs 1) (fh_cursorOrUpload h) \<and> ExactField (Find_field fs 2) ST_Uint8 1 True"
| "fields_shape MK_PatchBeginRequest h fs \<longleftrightarrow> Protocol_ExactTags fs [1, 2, 3, 4] [] \<and>
     FieldIdEquals (Find_field fs 1) (fh_session h) \<and> PayloadVersion (Find_field fs 2) h True \<noteq> None \<and>
     FieldU64Equals (Find_field fs 3) (fh_fragmentTotal h) \<and> ExactField (Find_field fs 4) ST_SHA256 32 True"
| "fields_shape MK_PatchBeginReceipt h fs \<longleftrightarrow> Protocol_ExactTags fs [1, 2, 3] [] \<and>
     FieldIdEquals (Find_field fs 1) (fh_cursorOrUpload h) \<and> FieldU64Equals (Find_field fs 2) (fh_fragmentTotal h) \<and>
     ExactField (Find_field fs 3) ST_SHA256 32 True"
| "fields_shape MK_PatchChunkRequest h fs \<longleftrightarrow> patch_chunk_payload h fs"
| "fields_shape MK_PatchChunkReceipt h fs \<longleftrightarrow> Protocol_ExactTags fs [1, 2] [] \<and>
     FieldIdEquals (Find_field fs 1) (fh_cursorOrUpload h) \<and> FieldU64Equals (Find_field fs 2) (fh_fragmentOffset h)"
| "fields_shape MK_PatchCommitRequest h fs \<longleftrightarrow> Protocol_ExactTags fs [1, 2, 3] [] \<and>
     FieldIdEquals (Find_field fs 1) (fh_cursorOrUpload h) \<and> FieldU64Equals (Find_field fs 2) (fh_fragmentTotal h) \<and>
     ExactField (Find_field fs 3) ST_SHA256 32 True"
| "fields_shape MK_PatchSealReceipt h fs \<longleftrightarrow> Protocol_ExactTags fs [1, 2, 3] [] \<and>
     FieldIdEquals (Find_field fs 1) (fh_cursorOrUpload h) \<and> FieldU64Equals (Find_field fs 2) (fh_fragmentTotal h) \<and>
     ExactField (Find_field fs 3) ST_SHA256 32 True"
| "fields_shape MK_PatchAbortRequest h fs \<longleftrightarrow> Protocol_ExactTags fs [1] [] \<and>
     FieldIdEquals (Find_field fs 1) (fh_cursorOrUpload h)"
| "fields_shape MK_PatchValidateRequest h fs \<longleftrightarrow> Protocol_ExactTags fs [1, 2] [] \<and>
     FieldIdEquals (Find_field fs 1) (fh_cursorOrUpload h) \<and>
     (case PayloadVersion (Find_field fs 2) h True of None \<Rightarrow> False | Some version \<Rightarrow> gv_semanticCertified version)"
| "fields_shape MK_PatchValidationReceipt h fs \<longleftrightarrow> Protocol_ExactTags fs [1, 2, 3, 4, 5] [] \<and>
     FieldIdEquals (Find_field fs 1) (fh_cursorOrUpload h) \<and> ExactField (Find_field fs 2) ST_Uint8 1 True \<and>
     the_value (Find_field fs 2) ! 0 = 2 \<and> ExactField (Find_field fs 3) ST_SHA256 32 True \<and>
     ExactField (Find_field fs 4) ST_Uint64 8 True \<and> ExactField (Find_field fs 5) ST_SHA256 32 True"
| "fields_shape MK_PatchApplyReceipt h fs \<longleftrightarrow> False"
| "fields_shape MK_PatchApplyRequest h fs \<longleftrightarrow> False"
| "fields_shape MK_GraphChunk h fs \<longleftrightarrow> False"

definition ValidatePayloadShape :: "Header \<Rightarrow> bytes \<Rightarrow> bool" where
  "ValidatePayloadShape h payload \<longleftrightarrow>
    (if version_bound h \<and> \<not> FullVersionHeader h then False
     else if fh_message h = MK_GraphChunk then ValidateFragmentStream h payload
     else case ParseFields payload of None \<Rightarrow> False | Some fs \<Rightarrow> fields_shape (fh_message h) h fs)"

subsection \<open>Frames\<close>

definition ascii :: "string \<Rightarrow> bytes" where
  "ascii cs = map of_char cs"

definition kChunkDomain :: bytes where
  "kChunkDomain = ascii ''HWPGRAPH'' @ [0] @ ascii ''CHUNK'' @ [0] @ ascii ''V1''"

definition kChainDomain :: bytes where
  "kChainDomain = ascii ''HWPGRAPH'' @ [0] @ ascii ''CHAIN'' @ [0] @ ascii ''V1''"

definition DomainParts :: "(bytes \<Rightarrow> Sha256) \<Rightarrow> bytes \<Rightarrow> bytes list \<Rightarrow> Sha256" where
  "DomainParts sha domain parts = sha (domain @ concat parts)"

text \<open>The digest fields of the header count as zeros.\<close>

definition ChunkDigest :: "(bytes \<Rightarrow> Sha256) \<Rightarrow> bytes \<Rightarrow> bytes \<Rightarrow> Sha256" where
  "ChunkDigest sha header payload = DomainParts sha kChunkDomain [take 256 header @ replicate 64 0, payload]"

definition ChainDigest :: "(bytes \<Rightarrow> Sha256) \<Rightarrow> Sha256 \<Rightarrow> Sha256 \<Rightarrow> u64 \<Rightarrow> Sha256" where
  "ChainDigest sha previous chunk sequence = DomainParts sha kChainDomain [previous, chunk, bytes64 sequence]"

text \<open>The first 256 bytes of a frame.\<close>

definition frame_prefix :: "Header \<Rightarrow> bytes" where
  "frame_prefix h =
     ascii ''HGN1'' @ bytes16 kFrameSchema @ bytes16 (message_code (fh_message h)) @ bytes32 (fh_flags h) @
     bytes32 (word_of_nat kHeaderBytes) @ bytes64 (fh_payloadBytes h) @ bytes64 (fh_sequence h) @
     bytes64 (fh_fragmentOffset h) @ bytes64 (fh_fragmentTotal h) @ fh_session h @ fh_graph h @ bytes64 (fh_profileBits h) @
     bytes64 (fh_semanticRevision h) @ bytes64 (fh_layoutRevision h) @ bytes64 (fh_locatorEpoch h) @
     fh_observedSemanticRoot h @ fh_layoutRoot h @ fh_captureRoot h @ fh_cursorOrUpload h @ fh_previousChain h"

definition FinalizeFrameInPlace :: "(bytes \<Rightarrow> Sha256) \<Rightarrow> Header \<Rightarrow> bytes \<Rightarrow> bytes option" where
  "FinalizeFrameInPlace sha source payload =
    (if kHeaderBytes + length payload > unat kMaximumFrameBytes then None
     else if fh_payloadBytes source \<noteq> 0 \<and> fh_payloadBytes source \<noteq> size64 payload then None
     else let h = source\<lparr>fh_payloadBytes := size64 payload\<rparr>
       in if \<not> ValidateMessageShape h \<or> \<not> ValidatePayloadShape h payload then None
          else let chunk = DomainParts sha kChunkDomain [frame_prefix h, replicate 64 0, payload];
                   chain = ChainDigest sha (fh_previousChain h) chunk (fh_sequence h)
            in Some (frame_prefix h @ chunk @ chain @ payload))"

definition EncodeFrame :: "(bytes \<Rightarrow> Sha256) \<Rightarrow> Header \<Rightarrow> bytes \<Rightarrow> bytes option" where
  "EncodeFrame sha source payload =
    (if length payload > unat kMaximumPayloadBytes then None else FinalizeFrameInPlace sha source payload)"

definition parsed_header :: "MessageKind \<Rightarrow> bytes \<Rightarrow> Header" where
  "parsed_header message frame =
    \<lparr>fh_message = message, fh_flags = Get32 (drop 8 frame), fh_payloadBytes = Get64 (drop 16 frame),
     fh_sequence = Get64 (drop 24 frame), fh_fragmentOffset = Get64 (drop 32 frame),
     fh_fragmentTotal = Get64 (drop 40 frame), fh_session = slice 48 64 frame, fh_graph = slice 64 80 frame,
     fh_profileBits = Get64 (drop 80 frame), fh_semanticRevision = Get64 (drop 88 frame),
     fh_layoutRevision = Get64 (drop 96 frame), fh_locatorEpoch = Get64 (drop 104 frame),
     fh_observedSemanticRoot = slice 112 144 frame, fh_layoutRoot = slice 144 176 frame,
     fh_captureRoot = slice 176 208 frame, fh_cursorOrUpload = slice 208 224 frame,
     fh_previousChain = slice 224 256 frame, fh_chunkDigest = slice 256 288 frame, fh_chainDigest = slice 288 320 frame\<rparr>"

definition DecodeFrame :: "(bytes \<Rightarrow> Sha256) \<Rightarrow> bytes \<Rightarrow> ErrorCode + Header \<times> bytes" where
  "DecodeFrame sha frame =
    (if length frame < kHeaderBytes \<or> length frame > unat kMaximumFrameBytes \<or> take 4 frame \<noteq> ascii ''HGN1'' then Inl EC_BadHeader
     else if Get16 (drop 4 frame) \<noteq> kFrameSchema then Inl EC_BadSchema
     else case message_of (Get16 (drop 6 frame)) of
         None \<Rightarrow> Inl EC_BadMessageKind
       | Some message \<Rightarrow>
           if Get32 (drop 12 frame) \<noteq> word_of_nat kHeaderBytes then Inl EC_BadHeader
           else let parsed = parsed_header message frame; payload = drop kHeaderBytes frame
             in if fh_flags parsed AND NOT kKnownFlags \<noteq> 0 \<or> fh_payloadBytes parsed > kMaximumPayloadBytes \<or>
                  unat (fh_payloadBytes parsed) \<noteq> length payload then Inl EC_BadHeader
                else if \<not> ValidateMessageShape parsed then Inl EC_BadHeader
                else if \<not> ValidatePayloadShape parsed payload then Inl EC_BadField
                else let chunk = ChunkDigest sha (take kHeaderBytes frame) payload;
                         chain = ChainDigest sha (fh_previousChain parsed) chunk (fh_sequence parsed)
                  in if \<not> EqualHash chunk (fh_chunkDigest parsed) \<or> \<not> EqualHash chain (fh_chainDigest parsed)
                     then Inl EC_DigestMismatch else Inr (parsed, payload))"

definition CapabilitiesFrame :: "(bytes \<Rightarrow> Sha256) \<Rightarrow> bytes" where
  "CapabilitiesFrame sha =
    (let payload = concat
       [EncodeField 1 1 ST_Uint32 (bytes32 kGraphProtocolVersion) 1, EncodeField 2 1 ST_Uint16 (bytes16 kFrameSchema) 1,
        EncodeField 3 1 ST_Uint64 (bytes64 kMaximumFrameBytes) 1, EncodeField 4 1 ST_Uint64 (bytes64 kMaximumPayloadBytes) 1,
        EncodeField 5 1 ST_Uint64 (bytes64 kMaximumTotalBytes) 1, EncodeField 6 1 ST_Uint64 (bytes64 kCapabilityBits) 1]
     in case EncodeFrame sha (empty_header\<lparr>fh_message := MK_Capabilities, fh_flags := kFlagTerminal\<rparr>) payload of
          None \<Rightarrow> [] | Some frame \<Rightarrow> frame)"

definition error_code :: "ErrorCode \<Rightarrow> u32" where
  "error_code e = (case e of EC_BufferTooSmall \<Rightarrow> 0 | EC_BadArray \<Rightarrow> 1 | EC_BadHeader \<Rightarrow> 2 | EC_BadSchema \<Rightarrow> 3
     | EC_BadMessageKind \<Rightarrow> 4 | EC_BadField \<Rightarrow> 5 | EC_DigestMismatch \<Rightarrow> 6 | EC_SequenceMismatch \<Rightarrow> 7 | EC_CursorNotFound \<Rightarrow> 8
     | EC_CursorClosed \<Rightarrow> 9 | EC_RouteChanged \<Rightarrow> 10 | EC_StaleGraph \<Rightarrow> 11 | EC_UploadNotFound \<Rightarrow> 12 | EC_UploadState \<Rightarrow> 13
     | EC_LengthMismatch \<Rightarrow> 14 | EC_FinalDigestMismatch \<Rightarrow> 15 | EC_Cancelled \<Rightarrow> 16 | EC_StorageFailure \<Rightarrow> 17
     | EC_Internal \<Rightarrow> 18 | EC_UnsupportedCapability \<Rightarrow> 19)"

text \<open>The header of an error reply copies from the request where it is in the conversation and, if the
  request has one, its version.\<close>

definition error_header :: "Header option \<Rightarrow> Header" where
  "error_header request =
    (let h = empty_header\<lparr>fh_message := MK_Error, fh_flags := kFlagError\<rparr>
     in case request of None \<Rightarrow> h
        | Some r \<Rightarrow>
            let h = h\<lparr>fh_sequence := fh_sequence r, fh_previousChain := fh_previousChain r, fh_session := fh_session r\<rparr>;
                h = (if HasVersion r
                     then h\<lparr>fh_graph := fh_graph r, fh_profileBits := fh_profileBits r,
                            fh_semanticRevision := fh_semanticRevision r, fh_layoutRevision := fh_layoutRevision r,
                            fh_locatorEpoch := fh_locatorEpoch r, fh_observedSemanticRoot := fh_observedSemanticRoot r,
                            fh_layoutRoot := fh_layoutRoot r, fh_captureRoot := fh_captureRoot r,
                            fh_flags := fh_flags h OR VersionFlags r\<rparr> else h)
            in h\<lparr>fh_cursorOrUpload := fh_cursorOrUpload r\<rparr>)"

definition error_payload :: "ErrorCode \<Rightarrow> u32 \<Rightarrow> u64 \<Rightarrow> u16 list \<Rightarrow> bytes" where
  "error_payload code hresult requiredBytes detail = concat
     [EncodeField 1 1 ST_Uint32 (bytes32 (error_code code)) 1, EncodeField 2 1 ST_Sint32 (bytes32 hresult) 1,
      EncodeField 3 1 ST_Uint64 (bytes64 requiredBytes) 1, EncodeField 4 1 ST_UTF16 (Utf16 detail) 1]"

definition ErrorFrame :: "(bytes \<Rightarrow> Sha256) \<Rightarrow> ErrorCode \<Rightarrow> u32 \<Rightarrow> u64 \<Rightarrow> u16 list \<Rightarrow> Header option \<Rightarrow> bytes" where
  "ErrorFrame sha code hresult requiredBytes detail request =
    (case EncodeFrame sha (error_header request) (error_payload code hresult requiredBytes detail) of
       None \<Rightarrow> []
     | Some frame \<Rightarrow> if length frame > kMaximumErrorFrameBytes then [] else frame)"

subsection \<open>A frame read back\<close>

definition header_shape :: "Header \<Rightarrow> bool" where
  "header_shape h \<longleftrightarrow> length (fh_session h) = 16 \<and> length (fh_graph h) = 16 \<and> length (fh_observedSemanticRoot h) = 32 \<and>
     length (fh_layoutRoot h) = 32 \<and> length (fh_captureRoot h) = 32 \<and> length (fh_cursorOrUpload h) = 16 \<and>
     length (fh_previousChain h) = 32"

lemma message_codes: "distinct (map fst message_kinds) \<and> distinct (map snd message_kinds)"
  by code_simp

lemma message_of_code [simp]: "message_of (message_code m) = Some m"
proof -
  have "\<forall>m \<in> set (map snd message_kinds). message_of (message_code m) = Some m" by code_simp
  moreover have "m \<in> set (map snd message_kinds)" by (cases m) (simp_all add: message_kinds_def)
  ultimately show ?thesis by blast
qed

lemma message_code_of: "message_of raw = Some m \<Longrightarrow> message_code m = raw"
proof -
  assume "message_of raw = Some m"
  then have "(raw, m) \<in> set message_kinds" by (simp add: message_of_def map_of_SomeD)
  moreover have "\<forall>(raw, m) \<in> set message_kinds. message_code m = raw" by code_simp
  ultimately show ?thesis by auto
qed

lemma length_prefix: "header_shape h \<Longrightarrow> length (frame_prefix h) = 256"
  by (simp add: header_shape_def frame_prefix_def ascii_def)

lemma ascii_HGN1: "ascii ''HGN1'' = [0x48, 0x47, 0x4e, 0x31]"
  by code_simp

lemma parsed_frame:
  assumes "header_shape h" "length c = 32" "length d = 32"
    and frame_def: "frame = frame_prefix h @ c @ d @ p"
  shows "take 4 frame = ascii ''HGN1''" "Get16 (drop 4 frame) = kFrameSchema" "Get16 (drop 6 frame) = message_code (fh_message h)"
    "Get32 (drop 12 frame) = word_of_nat kHeaderBytes"
    "parsed_header m frame = h\<lparr>fh_message := m, fh_chunkDigest := c, fh_chainDigest := d\<rparr>"
    "drop 320 frame = p" "take 256 frame = frame_prefix h" "length frame = 320 + length p"
  using assms(1-3) unfolding frame_def frame_prefix_def ascii_HGN1 header_shape_def parsed_header_def slice_def
  by (simp_all add: drop_append take_append)

lemma take_glue: "m = n + a \<Longrightarrow> take a (drop n xs) @ take b (drop m xs) = take (a + b) (drop n xs)"
  by (simp add: take_add add.commute)

lemma bytes_at:
  "n + 2 \<le> length b \<Longrightarrow> bytes16 (Get16 (drop n b)) = take 2 (drop n b)"
  "n + 4 \<le> length b \<Longrightarrow> bytes32 (Get32 (drop n b)) = take 4 (drop n b)"
  "n + 8 \<le> length b \<Longrightarrow> bytes64 (Get64 (drop n b)) = take 8 (drop n b)"
  using bytes16_Get16 [of "take 2 (drop n b)" "drop 2 (drop n b)"] bytes32_Get32 [of "take 4 (drop n b)" "drop 4 (drop n b)"]
    bytes64_Get64 [of "take 8 (drop n b)" "drop 8 (drop n b)"]
  by (simp_all del: drop_drop)

lemma prefix_of_parsed:
  assumes "320 \<le> length frame" "take 4 frame = ascii ''HGN1''" "Get16 (drop 4 frame) = kFrameSchema"
    "message_of (Get16 (drop 6 frame)) = Some m" "Get32 (drop 12 frame) = word_of_nat kHeaderBytes"
  shows "frame_prefix (parsed_header m frame) = take 256 frame"
proof -
  have heads: "ascii ''HGN1'' = take 4 (drop 0 frame)" "bytes16 kFrameSchema = take 2 (drop 4 frame)"
    "bytes16 (message_code m) = take 2 (drop 6 frame)" "bytes32 (word_of_nat kHeaderBytes) = take 4 (drop 12 frame)"
    using assms(1,2) bytes_at(1) [of 4 frame] bytes_at(1) [of 6 frame] bytes_at(2) [of 12 frame]
      message_code_of [OF assms(4)] by (simp_all add: assms(3,5))
  show ?thesis
    unfolding frame_prefix_def parsed_header_def Header.simps slice_def heads
    using assms(1) take_add [of 4 252 frame] by (simp add: bytes_at take_glue del: drop_0)
qed

lemma shape_of_parsed: "320 \<le> length frame \<Longrightarrow> header_shape (parsed_header m frame)"
  by (simp add: header_shape_def parsed_header_def slice_def)

lemma known_flags:
  assumes "ValidateMessageShape h"
  shows "fh_flags h AND NOT kKnownFlags = 0"
proof -
  have version: "VersionFlags h AND NOT kKnownFlags = 0"
    unfolding VersionFlags_def flag_defs kKnownFlags_def and.assoc by simp
  have flags: "\<exists>k \<in> {0, 2, 4, 8, 16, 18, 24}. fh_flags h = VersionFlags h OR k \<or> fh_flags h = k"
    using assms unfolding ValidateMessageShape_def
    by (cases "fh_message h") (auto simp: flag_defs or.assoc)
  show ?thesis
    using flags version by (auto simp: bit.conj_disj_distrib2 kKnownFlags_def)
qed

lemma frame_sizes: "unat kMaximumFrameBytes = 4194304" "unat kMaximumPayloadBytes = 4193984" "kHeaderBytes = 320"
  by (simp_all add: kMaximumFrameBytes_def kMaximumPayloadBytes_def kHeaderBytes_def)

text \<open>The frame of a header and a payload that have the right shape.\<close>

definition frame_chunk :: "(bytes \<Rightarrow> Sha256) \<Rightarrow> Header \<Rightarrow> bytes \<Rightarrow> Sha256" where
  "frame_chunk sha h payload = DomainParts sha kChunkDomain [frame_prefix h, replicate 64 0, payload]"

definition frame_chain :: "(bytes \<Rightarrow> Sha256) \<Rightarrow> Header \<Rightarrow> bytes \<Rightarrow> Sha256" where
  "frame_chain sha h payload = ChainDigest sha (fh_previousChain h) (frame_chunk sha h payload) (fh_sequence h)"

definition sendable :: "Header \<Rightarrow> bytes \<Rightarrow> bool" where
  "sendable h payload \<longleftrightarrow> length payload \<le> 4193984 \<and> ValidateMessageShape h \<and> ValidatePayloadShape h payload"

lemma EncodeFrame_Some:
  assumes "fh_payloadBytes h = size64 p"
  shows "EncodeFrame sha h p = Some frame \<longleftrightarrow>
    sendable h p \<and> frame = frame_prefix h @ frame_chunk sha h p @ frame_chain sha h p @ p"
proof -
  have eq: "h\<lparr>fh_payloadBytes := size64 p\<rparr> = h" by (simp flip: assms)
  show ?thesis
    unfolding EncodeFrame_def FinalizeFrameInPlace_def frame_sizes Let_def sendable_def eq frame_chunk_def frame_chain_def
    using assms by (auto simp: not_less)
qed

lemma frame_chunk_cong:
  "frame_chunk sha (h\<lparr>fh_chunkDigest := c, fh_chainDigest := d\<rparr>) p = frame_chunk sha h p"
  "frame_chain sha (h\<lparr>fh_chunkDigest := c, fh_chainDigest := d\<rparr>) p = frame_chain sha h p"
  by (simp_all add: frame_chunk_def frame_chain_def frame_prefix_def)

lemma unat_payload: "length p \<le> 4193984 \<Longrightarrow> unat (size64 p) = length p"
  by (intro unat_size64) simp

lemma Decode_of_Encode:
  assumes "\<forall>x. length (sha x) = 32" "header_shape h" "fh_payloadBytes h = size64 p" "EncodeFrame sha h p = Some frame"
    and "fh_chunkDigest h = frame_chunk sha h p" "fh_chainDigest h = frame_chain sha h p"
  shows "DecodeFrame sha frame = Inr (h, p)"
proof -
  have ok: "sendable h p" and frame: "frame = frame_prefix h @ frame_chunk sha h p @ frame_chain sha h p @ p"
    using assms(3,4) by (simp_all add: EncodeFrame_Some)
  have len: "length (frame_chunk sha h p) = 32" "length (frame_chain sha h p) = 32"
    by (simp_all add: assms(1) [rule_format] frame_chunk_def frame_chain_def ChainDigest_def DomainParts_def)
  note R = parsed_frame [OF assms(2) len frame]
  have parsed: "parsed_header (fh_message h) frame = h"
    using R(5) [of "fh_message h"] assms(5,6) by simp
  have chunk: "ChunkDigest sha (take 320 frame) p = frame_chunk sha h p"
    using R(7) by (simp add: ChunkDigest_def frame_chunk_def DomainParts_def min_def)
  have size: "\<not> fh_payloadBytes h > kMaximumPayloadBytes" "unat (fh_payloadBytes h) = length p"
    using ok by (simp_all add: assms(3) unat_payload sendable_def word_less_nat_alt frame_sizes)
  have bounds: "\<not> length frame < 320" "\<not> length frame > 4194304"
    using ok R(8) by (simp_all add: sendable_def)
  show ?thesis
    unfolding DecodeFrame_def frame_sizes R(1-4) message_of_code option.case Let_def parsed R(6) chunk
    using ok size bounds known_flags [of h] by (simp add: sendable_def assms(5,6) EqualHash_def frame_chain_def)
qed

lemma Encode_of_Decode:
  assumes "DecodeFrame sha frame = Inr (h, p)"
  shows "header_shape h" "fh_payloadBytes h = size64 p" "EncodeFrame sha h p = Some frame"
    "fh_chunkDigest h = frame_chunk sha h p" "fh_chainDigest h = frame_chain sha h p"
proof -
  obtain m where 1: "\<not> length frame < 320" "\<not> length frame > 4194304" "take 4 frame = ascii ''HGN1''"
    "Get16 (drop 4 frame) = kFrameSchema" "message_of (Get16 (drop 6 frame)) = Some m"
    "Get32 (drop 12 frame) = word_of_nat kHeaderBytes" and h: "h = parsed_header m frame" and p: "p = drop 320 frame"
    and size: "unat (fh_payloadBytes h) = length p" and shape: "ValidateMessageShape h" "ValidatePayloadShape h p"
    and chunk: "ChunkDigest sha (take 320 frame) p = fh_chunkDigest h"
    and chain: "ChainDigest sha (fh_previousChain h) (ChunkDigest sha (take 320 frame) p) (fh_sequence h) = fh_chainDigest h"
    using assms unfolding DecodeFrame_def frame_sizes EqualHash_def Let_def
    by (auto split: if_split_asm option.split_asm)
  have prefix: "frame_prefix h = take 256 frame"
    unfolding h by (rule prefix_of_parsed) (use 1 in auto)
  show "header_shape h" unfolding h by (rule shape_of_parsed) (use 1 in simp)
  show bytes: "fh_payloadBytes h = size64 p" unfolding size64_def size [symmetric] by simp
  have c: "frame_chunk sha h p = fh_chunkDigest h"
    using chunk by (simp add: frame_chunk_def ChunkDigest_def prefix DomainParts_def min_def)
  then show "fh_chunkDigest h = frame_chunk sha h p" by simp
  show d: "fh_chainDigest h = frame_chain sha h p"
    using chain by (simp add: frame_chain_def c chunk)
  have "frame = take 256 frame @ slice 256 288 frame @ slice 288 320 frame @ p"
    using append_take_drop_id [of 256 frame] append_take_drop_id [of 32 "drop 256 frame"]
      append_take_drop_id [of 32 "drop 288 frame"] by (simp add: slice_def p)
  moreover have "fh_chunkDigest h = slice 256 288 frame" "fh_chainDigest h = slice 288 320 frame"
    by (simp_all add: h parsed_header_def)
  ultimately have "frame = frame_prefix h @ frame_chunk sha h p @ frame_chain sha h p @ p"
    unfolding prefix c d [symmetric] by simp
  then show "EncodeFrame sha h p = Some frame"
    unfolding EncodeFrame_Some [OF bytes] using shape 1(2) p by (simp add: sendable_def)
qed

text \<open>Claim C33. Frames round trip: a frame decodes to a header and a payload exactly when the encoder makes
  this frame of them, the header states the length of the payload, and its digests are those in the
  frame. In particular no two frames decode to the same message.\<close>

theorem frame_codec:
  assumes "\<forall>x. length (sha x) = 32"
  shows "DecodeFrame sha frame = Inr (h, p) \<longleftrightarrow>
    header_shape h \<and> fh_payloadBytes h = size64 p \<and> EncodeFrame sha h p = Some frame \<and>
    fh_chunkDigest h = frame_chunk sha h p \<and> fh_chainDigest h = frame_chain sha h p"
  using Decode_of_Encode [OF assms, of h p frame] Encode_of_Decode [of sha frame h p] by blast

subsection \<open>Error replies\<close>

lemma ExactField_req [simp]: "ExactField (Some (req_field tag t v)) t' n b \<longleftrightarrow> t = t' \<and> length v = n \<and> b"
  by (auto simp: ExactField_def req_field_def)

lemma the_value_req [simp]: "the_value (Some (req_field tag t v)) = v"
  by (simp add: the_value_def)

lemma flags_req [simp]: "fl_flags (req_field tag t v) = 1"
  by (simp add: req_field_def)

definition error_fields :: "ErrorCode \<Rightarrow> u32 \<Rightarrow> u64 \<Rightarrow> u16 list \<Rightarrow> Field list" where
  "error_fields code hresult requiredBytes detail =
     [req_field 1 ST_Uint32 (bytes32 (error_code code)), req_field 2 ST_Sint32 (bytes32 hresult),
      req_field 3 ST_Uint64 (bytes64 requiredBytes), req_field 4 ST_UTF16 (Utf16 detail)]"

lemma error_fields_ok: "length detail < 2 ^ 62 \<Longrightarrow> \<forall>f \<in> set (error_fields code hresult requiredBytes detail). field_ok f"
  by (auto simp: error_fields_def FixedScalarBytes_def Utf16_def intro!: field_ok_req canonical_fixed
      canonical_Utf16 [unfolded Utf16_def])

lemma error_payload_fields:
  assumes "length detail < 2 ^ 62"
  shows "error_payload code hresult requiredBytes detail =
    concat (map field_bytes (error_fields code hresult requiredBytes detail))"
    "ParseFields (error_payload code hresult requiredBytes detail) = Some (error_fields code hresult requiredBytes detail)"
    "length (error_payload code hresult requiredBytes detail) = 120 + 2 * length detail"
proof -
  show *: "error_payload code hresult requiredBytes detail =
      concat (map field_bytes (error_fields code hresult requiredBytes detail))"
    using error_fields_ok [OF assms] by (simp add: error_payload_def error_fields_def EncodeField_req)
  show "ParseFields (error_payload code hresult requiredBytes detail) = Some (error_fields code hresult requiredBytes detail)"
    unfolding * by (rule ParseFields_req [OF error_fields_ok [OF assms]]) (simp add: error_fields_def)
  show "length (error_payload code hresult requiredBytes detail) = 120 + 2 * length detail"
    unfolding * by (simp add: error_fields_def Utf16_def)
qed

lemma error_fields_shape: "fields_shape MK_Error h (error_fields code hresult requiredBytes detail)"
  by (simp add: error_fields_def Protocol_ExactTags_def Find_field_def)

lemma HasVersion_absent: "HasVersion h \<longleftrightarrow> \<not> GraphOpenVersionAbsent h"
  by (auto simp: HasVersion_def GraphOpenVersionAbsent_def)

text \<open>A message that passes the checks has a whole version or none.\<close>

lemma sendable_version:
  assumes "ValidateMessageShape r" "ValidatePayloadShape r p" "HasVersion r"
  shows "FullVersionShape r" "FullVersionHeader r"
proof -
  have zero: "\<not> VersionFieldsZero r"
    using assms(3) by (auto simp: HasVersion_def VersionFieldsZero_def)
  show "FullVersionShape r"
    using assms(1,3) zero unfolding ValidateMessageShape_def
    by (cases "fh_message r") (auto simp: HasVersion_absent)
  have "version_bound r"
    using assms(1,3) zero unfolding ValidateMessageShape_def version_bound_def by (cases "fh_message r") auto
  then show "FullVersionHeader r"
    using assms(2) by (simp add: ValidatePayloadShape_def split: if_split_asm)
qed

definition in_conversation :: "(bytes \<Rightarrow> Sha256) \<Rightarrow> Header option \<Rightarrow> bool" where
  "in_conversation sha request \<longleftrightarrow> (case request of None \<Rightarrow> True | Some r \<Rightarrow> \<exists>frame p. DecodeFrame sha frame = Inr (r, p))"

lemma version_flags_error: "(4 OR (f AND 33)) AND 33 = f AND (33 :: u32)"
  by (simp add: bit.conj_disj_distrib2 and.assoc)

lemma Zero_replicate [simp]: "Zero (replicate n 0)"
  by (simp add: Zero_def list_all_iff)

lemma error_header_sendable:
  assumes "in_conversation sha request" "length detail < 2 ^ 20"
  shows "header_shape (error_header request)"
    "sendable ((error_header request)\<lparr>fh_payloadBytes := n\<rparr>) (error_payload code hresult requiredBytes detail)"
proof -
  have shape: "header_shape (error_header request) \<and> ValidateMessageShape ((error_header request)\<lparr>fh_payloadBytes := n\<rparr>) \<and>
      (version_bound ((error_header request)\<lparr>fh_payloadBytes := n\<rparr>) \<longrightarrow> FullVersionHeader ((error_header request)\<lparr>fh_payloadBytes := n\<rparr>))"
  proof (cases request)
    case None
    then show ?thesis
      by (simp add: error_header_def empty_header_def header_shape_def zero_uuid_def zero_digest_def ValidateMessageShape_def
          VersionFlags_def flag_defs ZeroRange_def VersionFieldsZero_def version_bound_def HasVersion_def)
  next
    case (Some r)
    obtain frame p where "DecodeFrame sha frame = Inr (r, p)"
      using assms(1) Some by (auto simp: in_conversation_def)
    from Encode_of_Decode [OF this] have r: "header_shape r" "ValidateMessageShape r" "ValidatePayloadShape r p"
      by (auto simp: EncodeFrame_Some sendable_def)
    show ?thesis
    proof (cases "HasVersion r")
      case True
      from sendable_version [OF r(2,3) True] have full: "FullVersionShape r" "FullVersionHeader r" .
      let ?h = "(error_header request)\<lparr>fh_payloadBytes := n\<rparr>"
      have "header_version ?h = header_version r"
        using True Some by (simp add: header_version_def error_header_def empty_header_def VersionFlags_def flag_defs
            bit.conj_disj_distrib2 and.assoc)
      then have "FullVersionHeader ?h" using full(2) by (simp add: FullVersionHeader_def)
      moreover have "ValidateMessageShape ?h"
        using True full(1) Some by (simp add: ValidateMessageShape_def error_header_def empty_header_def FullVersionShape_def
            VersionFlags_def flag_defs ZeroRange_def version_flags_error or.commute)
      moreover have "header_shape (error_header request)"
        using True r(1) Some by (simp add: header_shape_def error_header_def empty_header_def)
      ultimately show ?thesis by blast
    next
      case False
      with Some r(1) show ?thesis
        by (simp add: error_header_def empty_header_def header_shape_def zero_uuid_def zero_digest_def ValidateMessageShape_def
          VersionFlags_def flag_defs ZeroRange_def VersionFieldsZero_def version_bound_def HasVersion_def)
    qed
  qed
  then show "header_shape (error_header request)" by blast
  have message: "fh_message ((error_header request)\<lparr>fh_payloadBytes := n\<rparr>) = MK_Error"
    by (cases request) (simp_all add: error_header_def empty_header_def Let_def)
  have "length detail < 2 ^ 62" using assms(2) by simp
  note payload = error_payload_fields [OF this, of code hresult requiredBytes]
  show "sendable ((error_header request)\<lparr>fh_payloadBytes := n\<rparr>) (error_payload code hresult requiredBytes detail)"
    unfolding sendable_def ValidatePayloadShape_def message payload(2,3)
    using shape assms(2) error_fields_shape by simp
qed

definition framed :: "(bytes \<Rightarrow> Sha256) \<Rightarrow> Header \<Rightarrow> bytes \<Rightarrow> Header" where
  "framed sha h p = (let h = h\<lparr>fh_payloadBytes := size64 p\<rparr>
     in h\<lparr>fh_chunkDigest := frame_chunk sha h p, fh_chainDigest := frame_chain sha h p\<rparr>)"

text \<open>Whatever is sent is received: a frame that could be made decodes to what went into it.\<close>

lemma digest_irrelevant:
  fixes h :: Header and c d :: Sha256
  defines "h' \<equiv> h\<lparr>fh_chunkDigest := c, fh_chainDigest := d\<rparr>"
  shows "VersionFlags h' = VersionFlags h" "VersionFieldsZero h' = VersionFieldsZero h" "HasVersion h' = HasVersion h"
    "FullVersionShape h' = FullVersionShape h" "FullVersionHeader h' = FullVersionHeader h"
    "GraphOpenVersionAbsent h' = GraphOpenVersionAbsent h" "Independent h' = Independent h" "ZeroRange h' = ZeroRange h"
    "HeaderMatchesVersion h' v = HeaderMatchesVersion h v" "ValidateFragmentStream h' p = ValidateFragmentStream h p"
proof -
  show 1: "VersionFlags h' = VersionFlags h" by (simp add: h'_def VersionFlags_def)
  show "VersionFieldsZero h' = VersionFieldsZero h" "HasVersion h' = HasVersion h"
    "GraphOpenVersionAbsent h' = GraphOpenVersionAbsent h" "HeaderMatchesVersion h' v = HeaderMatchesVersion h v"
    unfolding VersionFieldsZero_def HasVersion_def GraphOpenVersionAbsent_def HeaderMatchesVersion_def 1
    by (simp_all add: h'_def split: option.split)
  show "FullVersionShape h' = FullVersionShape h" "FullVersionHeader h' = FullVersionHeader h"
    "Independent h' = Independent h" "ZeroRange h' = ZeroRange h" "ValidateFragmentStream h' p = ValidateFragmentStream h p"
    by (simp_all add: h'_def FullVersionShape_def FullVersionHeader_def header_version_def Independent_def ZeroRange_def
        ValidateFragmentStream_def Let_def split: option.split)
qed

lemma shape_digests:
  "ValidatePayloadShape (h\<lparr>fh_chunkDigest := c, fh_chainDigest := d\<rparr>) p = ValidatePayloadShape h p"
  "ValidateMessageShape (h\<lparr>fh_chunkDigest := c, fh_chainDigest := d\<rparr>) = ValidateMessageShape h"
proof -
  let ?h = "h\<lparr>fh_chunkDigest := c, fh_chainDigest := d\<rparr>"
  have version: "PayloadVersion field ?h required = PayloadVersion field h required" for field required
    by (simp add: PayloadVersion_def digest_irrelevant split: option.splits)
  have "fields_shape m ?h fs = fields_shape m h fs" for m fs
    by (cases m) (simp_all add: version open_request_payload_def blob_chunk_payload_def patch_chunk_payload_def digest_irrelevant
        Let_def split: option.split)
  moreover have "version_bound ?h = version_bound h"
    by (simp add: version_bound_def digest_irrelevant)
  ultimately show "ValidatePayloadShape ?h p = ValidatePayloadShape h p"
    by (simp add: ValidatePayloadShape_def digest_irrelevant split: option.split)
  have "message_shape m v ?h = message_shape m v h" for m v
    by (cases m) (simp_all add: digest_irrelevant)
  then show "ValidateMessageShape ?h = ValidateMessageShape h"
    by (simp add: ValidateMessageShape_def digest_irrelevant)
qed

lemma EncodeFrame_update:
  assumes "fh_payloadBytes h = 0 \<or> fh_payloadBytes h = size64 p"
  shows "EncodeFrame sha h p = EncodeFrame sha (h\<lparr>fh_payloadBytes := size64 p\<rparr>) p"
  using assms by (auto simp: EncodeFrame_def FinalizeFrameInPlace_def)

lemma EncodeFrame_digests: "EncodeFrame sha (h\<lparr>fh_chunkDigest := c, fh_chainDigest := d\<rparr>) p = EncodeFrame sha h p"
proof -
  have "h\<lparr>fh_chunkDigest := c, fh_chainDigest := d, fh_payloadBytes := n\<rparr> =
      (h\<lparr>fh_payloadBytes := n\<rparr>)\<lparr>fh_chunkDigest := c, fh_chainDigest := d\<rparr>" for n by simp
  moreover have "frame_prefix (h\<lparr>fh_chunkDigest := c, fh_chainDigest := d\<rparr>) = frame_prefix h" for h
    by (simp add: frame_prefix_def)
  ultimately show ?thesis
    by (simp only: EncodeFrame_def FinalizeFrameInPlace_def shape_digests Let_def) simp
qed

text \<open>Whatever is sent is received: a frame that can be made decodes to what went into it.\<close>

lemma Decode_sendable:
  assumes "\<forall>x. length (sha x) = 32" "header_shape h" "fh_payloadBytes h = 0 \<or> fh_payloadBytes h = size64 p"
    "sendable (h\<lparr>fh_payloadBytes := size64 p\<rparr>) p"
  obtains frame where "EncodeFrame sha h p = Some frame" "DecodeFrame sha frame = Inr (framed sha h p, p)"
    "length frame = 320 + length p"
proof -
  let ?h = "h\<lparr>fh_payloadBytes := size64 p\<rparr>"
  let ?frame = "frame_prefix ?h @ frame_chunk sha ?h p @ frame_chain sha ?h p @ p"
  have len: "length (frame_chunk sha ?h p) = 32" "length (frame_chain sha ?h p) = 32"
    by (simp_all add: assms(1) [rule_format] frame_chunk_def frame_chain_def ChainDigest_def DomainParts_def)
  have enc: "EncodeFrame sha ?h p = Some ?frame"
    using assms(4) by (simp add: EncodeFrame_Some)
  have shape: "header_shape ?h" using assms(2) by (simp add: header_shape_def)
  have framed: "framed sha h p = ?h\<lparr>fh_chunkDigest := frame_chunk sha ?h p, fh_chainDigest := frame_chain sha ?h p\<rparr>"
    by (simp add: framed_def Let_def)
  have "DecodeFrame sha ?frame = Inr (framed sha h p, p)"
    unfolding framed
    by (rule Decode_of_Encode [OF assms(1)])
      (use assms(2) enc in \<open>simp_all add: EncodeFrame_digests frame_chunk_cong header_shape_def\<close>)
  moreover have "length ?frame = 320 + length p"
    using length_prefix [OF shape] len by simp
  ultimately show thesis
    using that [of ?frame] enc EncodeFrame_update [OF assms(3)] by metis
qed

text \<open>Claim C34. An error reply always reaches its reader: for a request that was decoded, or none, and a
  detail of at most 1828 characters, the error frame is not empty and decodes to an error message with
  the given code and detail that names the request's session, cursor and place in its sequence.\<close>

theorem error_reply_decodes:
  assumes "\<forall>x. length (sha x) = 32" "in_conversation sha request" "length detail \<le> 1828"
  shows "\<exists>h. DecodeFrame sha (ErrorFrame sha code hresult requiredBytes detail request) =
      Inr (h, error_payload code hresult requiredBytes detail) \<and> fh_message h = MK_Error \<and>
    (\<forall>r. request = Some r \<longrightarrow> fh_session h = fh_session r \<and> fh_cursorOrUpload h = fh_cursorOrUpload r \<and>
       fh_sequence h = fh_sequence r \<and> fh_previousChain h = fh_previousChain r \<and>
       (HasVersion r \<longrightarrow> header_version h = header_version r))"
proof -
  let ?h = "error_header request" and ?p = "error_payload code hresult requiredBytes detail"
  have small: "length detail < 2 ^ 20" "length detail < 2 ^ 62" using assms(3) by simp_all
  note sendable = error_header_sendable [OF assms(2) small(1)]
  have "fh_payloadBytes ?h = 0"
    by (cases request) (simp_all add: error_header_def empty_header_def Let_def)
  then obtain frame where frame: "EncodeFrame sha ?h ?p = Some frame" "DecodeFrame sha frame = Inr (framed sha ?h ?p, ?p)"
    "length frame = 320 + length ?p"
    using Decode_sendable [OF assms(1) sendable(1) _ sendable(2)] by blast
  have "length frame \<le> kMaximumErrorFrameBytes"
    using frame(3) error_payload_fields(3) [OF small(2)] assms(3) by (simp add: kMaximumErrorFrameBytes_def)
  then have reply: "ErrorFrame sha code hresult requiredBytes detail request = frame"
    by (simp add: ErrorFrame_def frame(1))
  have header: "fh_message (framed sha ?h ?p) = MK_Error \<and> (\<forall>r. request = Some r \<longrightarrow>
      fh_session (framed sha ?h ?p) = fh_session r \<and> fh_cursorOrUpload (framed sha ?h ?p) = fh_cursorOrUpload r \<and>
      fh_sequence (framed sha ?h ?p) = fh_sequence r \<and> fh_previousChain (framed sha ?h ?p) = fh_previousChain r \<and>
      (HasVersion r \<longrightarrow> header_version (framed sha ?h ?p) = header_version r))"
    by (cases request) (simp_all add: framed_def error_header_def empty_header_def Let_def header_version_def
        VersionFlags_def flag_defs bit.conj_disj_distrib2 and.assoc)
  show ?thesis
    unfolding reply using frame(2) header by blast
qed

subsection \<open>The capabilities\<close>

definition capability_fields :: "Field list" where
  "capability_fields =
     [req_field 1 ST_Uint32 (bytes32 kGraphProtocolVersion), req_field 2 ST_Uint16 (bytes16 kFrameSchema),
      req_field 3 ST_Uint64 (bytes64 kMaximumFrameBytes), req_field 4 ST_Uint64 (bytes64 kMaximumPayloadBytes),
      req_field 5 ST_Uint64 (bytes64 kMaximumTotalBytes), req_field 6 ST_Uint64 (bytes64 kCapabilityBits)]"

lemma Get_self [simp]: "Get16 (bytes16 v) = v" "Get32 (bytes32 w) = w" "Get64 (bytes64 x) = x"
  using Get16_bytes16 [of v "[]"] Get32_bytes32 [of w "[]"] Get64_bytes64 [of x "[]"] by simp_all

lemma capability_find:
  "Find_field capability_fields 1 = Some (req_field 1 ST_Uint32 (bytes32 kGraphProtocolVersion))"
  "Find_field capability_fields 2 = Some (req_field 2 ST_Uint16 (bytes16 kFrameSchema))"
  "Find_field capability_fields 3 = Some (req_field 3 ST_Uint64 (bytes64 kMaximumFrameBytes))"
  "Find_field capability_fields 4 = Some (req_field 4 ST_Uint64 (bytes64 kMaximumPayloadBytes))"
  "Find_field capability_fields 5 = Some (req_field 5 ST_Uint64 (bytes64 kMaximumTotalBytes))"
  "Find_field capability_fields 6 = Some (req_field 6 ST_Uint64 (bytes64 kCapabilityBits))"
  by (simp_all add: Find_field_def capability_fields_def req_field_def)

lemma capability_tags: "Protocol_ExactTags capability_fields [1, 2, 3, 4, 5, 6] []"
  by (simp add: Protocol_ExactTags_def capability_find) (simp add: capability_fields_def req_field_def)

lemma capability_shape: "fields_shape MK_Capabilities h capability_fields"
  by (simp add: capability_find capability_tags FieldU64Equals_def the_value_def ExactField_def req_field_def)

lemma capabilities_decode:
  assumes "\<forall>x. length (sha x) = 32"
  shows "\<exists>h. DecodeFrame sha (CapabilitiesFrame sha) = Inr (h, concat (map field_bytes capability_fields)) \<and>
    fh_message h = MK_Capabilities"
proof -
  let ?h = "empty_header\<lparr>fh_message := MK_Capabilities, fh_flags := kFlagTerminal\<rparr>"
  let ?p = "concat (map field_bytes capability_fields)"
  have ok: "\<forall>f \<in> set capability_fields. field_ok f"
    by (auto simp: capability_fields_def FixedScalarBytes_def intro!: field_ok_req canonical_fixed)
  have fields: "ParseFields ?p = Some capability_fields"
    by (rule ParseFields_req [OF ok]) (simp add: capability_fields_def)
  have length: "length ?p = 182" by (simp add: capability_fields_def)
  have "sendable (?h\<lparr>fh_payloadBytes := size64 ?p\<rparr>) ?p"
    unfolding sendable_def ValidatePayloadShape_def fields length
    by (simp add: ValidateMessageShape_def VersionFlags_def version_bound_def capability_shape empty_header_def VersionFieldsZero_def
        Independent_def ZeroRange_def zero_uuid_def zero_digest_def flag_defs del: fields_shape.simps)
  moreover have "header_shape ?h" "fh_payloadBytes ?h = 0"
    by (simp_all add: header_shape_def empty_header_def zero_uuid_def zero_digest_def)
  ultimately obtain frame where frame: "EncodeFrame sha ?h ?p = Some frame" "DecodeFrame sha frame = Inr (framed sha ?h ?p, ?p)"
    using Decode_sendable [OF assms, of ?h ?p] by blast
  have "CapabilitiesFrame sha = frame"
    using ok frame(1) by (simp add: CapabilitiesFrame_def capability_fields_def EncodeField_req)
  then show ?thesis
    using frame(2) by (simp add: framed_def Let_def)
qed

definition sample_hash :: "bytes \<Rightarrow> Sha256" where
  "sample_hash b = replicate 32 (of_nat (length b))"

theorem frame_codec_witness:
  "\<exists>h p. EncodeFrame sample_hash h p = Some (CapabilitiesFrame sample_hash) \<and> fh_message h = MK_Capabilities \<and>
     fh_payloadBytes h = size64 p"
proof -
  have sha: "\<forall>x. length (sample_hash x) = 32" by (simp add: sample_hash_def)
  obtain h where h: "DecodeFrame sample_hash (CapabilitiesFrame sample_hash) = Inr (h, concat (map field_bytes capability_fields))"
    "fh_message h = MK_Capabilities"
    using capabilities_decode [OF sha] by blast
  then show ?thesis
    using frame_codec [OF sha] by blast
qed

theorem error_reply_decodes_witness:
  "\<exists>h. DecodeFrame sample_hash (ErrorFrame sample_hash EC_BadField 0 0 [0x41] None) =
     Inr (h, error_payload EC_BadField 0 0 [0x41]) \<and> fh_message h = MK_Error"
proof -
  have "\<forall>x. length (sample_hash x) = 32" by (simp add: sample_hash_def)
  from error_reply_decodes [OF this, of None "[0x41]" EC_BadField 0 0] show ?thesis
    by (auto simp: in_conversation_def)
qed

end
