(* ===== verification/StreamHash.thy ===== *)
theory StreamHash
  imports WireFrame
begin

section \<open>The stream hash (DocumentGraphProtocol.cpp)\<close>

text \<open>
  The reader and the writer of a graph stream hash every record they pass on, in pieces of any size.
  The program has its own SHA-256 for this: the state is eight words, a block of 64 bytes of which the
  first \<open>bufferedBytes\<close> wait to be hashed, and the number of bytes so far. The theory models that
  code and proves that it computes the SHA-256 of FIPS 180-4, defined here from the standard, of the
  bytes of all updates together.
\<close>

subsection \<open>The code\<close>

definition kStreamDomain :: bytes where
  "kStreamDomain = ascii ''HWPGRAPH'' @ [0] @ ascii ''STREAM'' @ [0] @ ascii ''V1''"

record GraphStreamSha256V1 =
  sh_state :: "u32 list"
  sh_block :: "u8 list"
  sh_totalBytes :: u64
  sh_bufferedBytes :: u32
  sh_initialized :: bool

definition new_hash :: GraphStreamSha256V1 where
  "new_hash = \<lparr>sh_state = replicate 8 0, sh_block = replicate 64 0, sh_totalBytes = 0, sh_bufferedBytes = 0,
     sh_initialized = False\<rparr>"

definition kSha256Round :: "u32 list" where
  "kSha256Round = concat
    [[0x428a2f98, 0x71374491, 0xb5c0fbcf, 0xe9b5dba5, 0x3956c25b, 0x59f111f1, 0x923f82a4, 0xab1c5ed5],
     [0xd807aa98, 0x12835b01, 0x243185be, 0x550c7dc3, 0x72be5d74, 0x80deb1fe, 0x9bdc06a7, 0xc19bf174],
     [0xe49b69c1, 0xefbe4786, 0x0fc19dc6, 0x240ca1cc, 0x2de92c6f, 0x4a7484aa, 0x5cb0a9dc, 0x76f988da],
     [0x983e5152, 0xa831c66d, 0xb00327c8, 0xbf597fc7, 0xc6e00bf3, 0xd5a79147, 0x06ca6351, 0x14292967],
     [0x27b70a85, 0x2e1b2138, 0x4d2c6dfc, 0x53380d13, 0x650a7354, 0x766a0abb, 0x81c2c92e, 0x92722c85],
     [0xa2bfe8a1, 0xa81a664b, 0xc24b8b70, 0xc76c51a3, 0xd192e819, 0xd6990624, 0xf40e3585, 0x106aa070],
     [0x19a4c116, 0x1e376c08, 0x2748774c, 0x34b0bcb5, 0x391c0cb3, 0x4ed8aa4a, 0x5b9cca4f, 0x682e6ff3],
     [0x748f82ee, 0x78a5636f, 0x84c87814, 0x8cc70208, 0x90befffa, 0xa4506ceb, 0xbef9a3f7, 0xc67178f2]]"

definition RotateRight :: "u32 \<Rightarrow> nat \<Rightarrow> u32" where
  "RotateRight v bits = drop_bit bits v OR push_bit (32 - bits) v"

definition block_word :: "u8 list \<Rightarrow> nat \<Rightarrow> u32" where
  "block_word block index =
    (let p = drop (index * 4) block
     in push_bit 24 (ucast (p ! 0)) OR push_bit 16 (ucast (p ! 1)) OR push_bit 8 (ucast (p ! 2)) OR ucast (p ! 3))"

definition next_word :: "u32 list \<Rightarrow> nat \<Rightarrow> u32" where
  "next_word words index =
    (let s0 = RotateRight (words ! (index - 15)) 7 XOR RotateRight (words ! (index - 15)) 18 XOR drop_bit 3 (words ! (index - 15));
         s1 = RotateRight (words ! (index - 2)) 17 XOR RotateRight (words ! (index - 2)) 19 XOR drop_bit 10 (words ! (index - 2))
     in words ! (index - 16) + s0 + words ! (index - 7) + s1)"

definition block_words :: "u8 list \<Rightarrow> u32 list" where
  "block_words block =
    fold (\<lambda>index words. words[index := next_word words index]) [16..<64]
      (fold (\<lambda>index words. words[index := block_word block index]) [0..<16] (replicate 64 0))"

type_synonym HashVars = "u32 \<times> u32 \<times> u32 \<times> u32 \<times> u32 \<times> u32 \<times> u32 \<times> u32"

fun hash_round :: "u32 list \<Rightarrow> nat \<Rightarrow> HashVars \<Rightarrow> HashVars" where
  "hash_round words index (a, b, c, d, e, f, g, h) =
    (let sum1 = RotateRight e 6 XOR RotateRight e 11 XOR RotateRight e 25;
         choice = (e AND f) XOR (NOT e AND g);
         temporary1 = h + sum1 + choice + kSha256Round ! index + words ! index;
         sum0 = RotateRight a 2 XOR RotateRight a 13 XOR RotateRight a 22;
         majority = (a AND b) XOR (a AND c) XOR (b AND c);
         temporary2 = sum0 + majority
     in (temporary1 + temporary2, a, b, c, d + temporary1, e, f, g))"

definition TransformStreamHash :: "GraphStreamSha256V1 \<Rightarrow> u8 list \<Rightarrow> GraphStreamSha256V1" where
  "TransformStreamHash hash block =
    (let s = sh_state hash;
         (a, b, c, d, e, f, g, h) = fold (hash_round (block_words block)) [0..<64]
           (s ! 0, s ! 1, s ! 2, s ! 3, s ! 4, s ! 5, s ! 6, s ! 7)
     in hash\<lparr>sh_state := [s ! 0 + a, s ! 1 + b, s ! 2 + c, s ! 3 + d, s ! 4 + e, s ! 5 + f, s ! 6 + g, s ! 7 + h]\<rparr>)"

text \<open>
  The loop of an update. It copies at most what the block has room for; every state the program
  makes has room (\<open>absorbs_buffered\<close>), and on another state the copy of the source would leave its
  block, which has no defined meaning: the model stops there.
\<close>

function update_loop :: "bytes \<Rightarrow> GraphStreamSha256V1 \<Rightarrow> GraphStreamSha256V1" where
  "update_loop input hash =
    (if input = [] \<or> \<not> sh_bufferedBytes hash < 64 then hash
     else
       let buffered = unat (sh_bufferedBytes hash);
           count = min (length input) (64 - buffered);
           hash = hash\<lparr>sh_block := take buffered (sh_block hash) @ take count input @ drop (buffered + count) (sh_block hash),
                       sh_bufferedBytes := sh_bufferedBytes hash + word_of_nat count\<rparr>
       in update_loop (drop count input)
            (if sh_bufferedBytes hash = 64 then (TransformStreamHash hash (sh_block hash))\<lparr>sh_bufferedBytes := 0\<rparr> else hash))"
  by pat_completeness auto

termination
  by (relation "measure (\<lambda>(input, _). length input)") (auto simp: word_less_nat_alt)

declare update_loop.simps [simp del]

definition UpdateStreamHash :: "GraphStreamSha256V1 \<Rightarrow> bytes \<Rightarrow> GraphStreamSha256V1" where
  "UpdateStreamHash hash b = update_loop b (hash\<lparr>sh_totalBytes := sh_totalBytes hash + size64 b\<rparr>)"

definition InitializeStreamHash :: GraphStreamSha256V1 where
  "InitializeStreamHash = UpdateStreamHash
     \<lparr>sh_state = [0x6a09e667, 0xbb67ae85, 0x3c6ef372, 0xa54ff53a, 0x510e527f, 0x9b05688c, 0x1f83d9ab, 0x5be0cd19],
      sh_block = replicate 64 0, sh_totalBytes = 0, sh_bufferedBytes = 0, sh_initialized = True\<rparr> kStreamDomain"

lemma word_numbers: "(w :: u32) = 64 \<longleftrightarrow> unat w = 64" "w = 56 \<longleftrightarrow> unat w = 56" "w < 64 \<longleftrightarrow> unat w < 64"
  by (simp_all add: word_unat_eq_iff word_less_nat_alt)

text \<open>One byte more in the block.\<close>

lemma update_byte_buffered:
  assumes "sh_bufferedBytes hash < 64"
  shows "unat (sh_bufferedBytes (UpdateStreamHash hash [b])) = Suc (unat (sh_bufferedBytes hash)) mod 64"
proof -
  have b: "unat (sh_bufferedBytes hash) < 64"
    using assms by (simp add: word_less_nat_alt)
  have "unat (sh_bufferedBytes hash + 1) = Suc (unat (sh_bufferedBytes hash))"
    using b by (simp add: unat_word_ariths)
  moreover from this have "sh_bufferedBytes hash + 1 = 64 \<longleftrightarrow> Suc (unat (sh_bufferedBytes hash)) = 64"
    by (simp add: word_numbers)
  ultimately show ?thesis
    using assms b unfolding UpdateStreamHash_def
    by (subst update_loop.simps, subst update_loop.simps) (auto simp: Let_def TransformStreamHash_def min_def split: prod.splits)
qed

text \<open>The loop that fills the block with zeros up to the place of the length. It ends on every state with
  room in its block; on another the source would not.\<close>

function pad_loop :: "GraphStreamSha256V1 \<Rightarrow> GraphStreamSha256V1" where
  "pad_loop hash =
    (if sh_bufferedBytes hash = 56 \<or> \<not> sh_bufferedBytes hash < 64 then hash else pad_loop (UpdateStreamHash hash [0]))"
  by pat_completeness auto

termination
proof (relation "measure (\<lambda>hash. (120 - unat (sh_bufferedBytes hash)) mod 64)")
  fix hash :: GraphStreamSha256V1
  assume h: "\<not> (sh_bufferedBytes hash = 56 \<or> \<not> sh_bufferedBytes hash < 64)"
  then have "unat (sh_bufferedBytes hash) < 64" "unat (sh_bufferedBytes hash) \<noteq> 56"
    by (auto simp: word_numbers)
  moreover have "unat (sh_bufferedBytes (UpdateStreamHash hash [0])) = Suc (unat (sh_bufferedBytes hash)) mod 64"
    using update_byte_buffered h by blast
  ultimately show "(UpdateStreamHash hash [0], hash) \<in> measure (\<lambda>hash. (120 - unat (sh_bufferedBytes hash)) mod 64)"
    by (auto simp: mod_if)
qed simp

declare pad_loop.simps [simp del]

definition length_bytes_be :: "u64 \<Rightarrow> bytes" where
  "length_bytes_be bitLength = fold (\<lambda>index b. b[7 - index := ucast (drop_bit (index * 8) bitLength)]) [0..<8] (replicate 8 0)"

definition state_bytes :: "u32 list \<Rightarrow> bytes" where
  "state_bytes s = concat (map (\<lambda>i. map (\<lambda>j. ucast (drop_bit (24 - j * 8) (s ! i))) [0..<4]) [0..<8])"

definition FinalizeStreamHash :: "GraphStreamSha256V1 \<Rightarrow> Sha256" where
  "FinalizeStreamHash source =
    (let bitLength = sh_totalBytes source * 8;
         hash = pad_loop (UpdateStreamHash source [0x80])
     in state_bytes (sh_state (UpdateStreamHash hash (length_bytes_be bitLength))))"

definition InitializeGraphStreamHashV1 :: GraphStreamSha256V1 where
  "InitializeGraphStreamHashV1 = InitializeStreamHash"

definition UpdateGraphStreamHashV1 :: "GraphStreamSha256V1 \<Rightarrow> bytes \<Rightarrow> GraphStreamSha256V1 option" where
  "UpdateGraphStreamHashV1 hash b =
    (if \<not> sh_initialized hash \<or> length b > unat (- 1 - sh_totalBytes hash) then None
     else Some (UpdateStreamHash hash b))"

definition FinalizeGraphStreamHashV1 :: "GraphStreamSha256V1 \<Rightarrow> Sha256 option" where
  "FinalizeGraphStreamHashV1 hash = (if \<not> sh_initialized hash then None else Some (FinalizeStreamHash hash))"

subsection \<open>SHA-256 of the standard\<close>

definition fips_Ch :: "u32 \<Rightarrow> u32 \<Rightarrow> u32 \<Rightarrow> u32" where
  "fips_Ch x y z = (x AND y) XOR (NOT x AND z)"

definition fips_Maj :: "u32 \<Rightarrow> u32 \<Rightarrow> u32 \<Rightarrow> u32" where
  "fips_Maj x y z = (x AND y) XOR (x AND z) XOR (y AND z)"

definition fips_Sum0 :: "u32 \<Rightarrow> u32" where
  "fips_Sum0 x = word_rotr 2 x XOR word_rotr 13 x XOR word_rotr 22 x"

definition fips_Sum1 :: "u32 \<Rightarrow> u32" where
  "fips_Sum1 x = word_rotr 6 x XOR word_rotr 11 x XOR word_rotr 25 x"

definition fips_sigma0 :: "u32 \<Rightarrow> u32" where
  "fips_sigma0 x = word_rotr 7 x XOR word_rotr 18 x XOR drop_bit 3 x"

definition fips_sigma1 :: "u32 \<Rightarrow> u32" where
  "fips_sigma1 x = word_rotr 17 x XOR word_rotr 19 x XOR drop_bit 10 x"

text \<open>The message schedule of a block of 64 bytes.\<close>

fun fips_W :: "u8 list \<Rightarrow> nat \<Rightarrow> u32" where
  "fips_W block t =
    (if t < 16 then word_rcat (take 4 (drop (4 * t) block))
     else fips_sigma1 (fips_W block (t - 2)) + fips_W block (t - 7) + fips_sigma0 (fips_W block (t - 15)) + fips_W block (t - 16))"

declare fips_W.simps [simp del]

fun fips_step :: "u8 list \<Rightarrow> nat \<Rightarrow> HashVars \<Rightarrow> HashVars" where
  "fips_step block t (a, b, c, d, e, f, g, h) =
    (let T1 = h + fips_Sum1 e + fips_Ch e f g + kSha256Round ! t + fips_W block t;
         T2 = fips_Sum0 a + fips_Maj a b c
     in (T1 + T2, a, b, c, d + T1, e, f, g))"

fun fips_add :: "HashVars \<Rightarrow> HashVars \<Rightarrow> HashVars" where
  "fips_add (a, b, c, d, e, f, g, h) (a', b', c', d', e', f', g', h') =
    (a + a', b + b', c + c', d + d', e + e', f + f', g + g', h + h')"

definition fips_compress :: "HashVars \<Rightarrow> u8 list \<Rightarrow> HashVars" where
  "fips_compress H block = fips_add H (fold (fips_step block) [0..<64] H)"

fun fips_blocks :: "HashVars \<Rightarrow> bytes \<Rightarrow> HashVars" where
  "fips_blocks H m = (if length m < 64 then H else fips_blocks (fips_compress H (take 64 m)) (drop 64 m))"

declare fips_blocks.simps [simp del]

definition fips_start :: HashVars where
  "fips_start = (0x6a09e667, 0xbb67ae85, 0x3c6ef372, 0xa54ff53a, 0x510e527f, 0x9b05688c, 0x1f83d9ab, 0x5be0cd19)"

text \<open>The padding: a one bit, zeros up to eight bytes before the end of a block, the length in bits.\<close>

definition fips_length :: "nat \<Rightarrow> bytes" where
  "fips_length n = (let w = word_of_nat (8 * n) :: u64
     in map (\<lambda>i. ucast (drop_bit i w)) [56, 48, 40, 32, 24, 16, 8, 0])"

definition fips_pad :: "bytes \<Rightarrow> bytes" where
  "fips_pad m = m @ [0x80] @ replicate ((119 - length m mod 64) mod 64) 0 @ fips_length (length m)"

definition word_bytes :: "u32 \<Rightarrow> bytes" where
  "word_bytes w = map (\<lambda>i. ucast (drop_bit i w)) [24, 16, 8, 0]"

fun digest_bytes :: "HashVars \<Rightarrow> Sha256" where
  "digest_bytes (a, b, c, d, e, f, g, h) = concat (map word_bytes [a, b, c, d, e, f, g, h])"

definition SHA_256 :: "bytes \<Rightarrow> Sha256" where
  "SHA_256 m = digest_bytes (fips_blocks fips_start (fips_pad m))"

subsection \<open>One block\<close>

lemma RotateRight_rotr:
  assumes "0 < n" "n < 32"
  shows "RotateRight v n = word_rotr n v"
proof (rule bit_word_eqI)
  fix i assume "i < LENGTH(32)"
  then have i: "i < 32" by simp
  show "bit (RotateRight v n) i \<longleftrightarrow> bit (word_rotr n v) i"
  proof (cases "i + n < 32")
    case True
    then have "\<not> 32 - n \<le> i" by simp
    with i True show ?thesis
      by (simp add: RotateRight_def bit_word_rotr_iff bit_or_iff bit_drop_bit_eq bit_push_bit_iff add.commute)
  next
    case False
    then have "\<not> bit v (n + i)" "(i + n) mod 32 = i + n - 32" "32 - n \<le> i"
      using assms i bit_imp_le_length [of v "n + i"] by (auto simp: mod_if)
    with i False assms show ?thesis
      by (simp add: RotateRight_def bit_word_rotr_iff bit_or_iff bit_drop_bit_eq bit_push_bit_iff add.commute)
  qed
qed

lemma length_ge_4: "4 \<le> length xs \<Longrightarrow> \<exists>a b c d r. xs = a # b # c # d # r"
  by (auto simp: Suc_le_length_iff numeral_eq_Suc)

lemma byte_place:
  fixes a :: u8
  shows "bit (push_bit k (ucast a) :: u32) n \<Longrightarrow> k \<le> n \<and> n < k + 8"
  using bit_imp_le_length [of a "n - k"] by (auto simp: bit_push_bit_iff bit_ucast_iff)

lemma disjoint_or:
  fixes a b :: u32
  assumes "\<And>n. bit a n \<Longrightarrow> \<not> bit b n"
  shows "a OR b = a + b"
  by (rule disjunctive_add_eq_or [symmetric]) (use assms in \<open>auto simp: bit_eq_iff bit_and_iff\<close>)

lemma rcat_four:
  fixes a b c d :: u8
  shows "push_bit 24 (ucast a) OR push_bit 16 (ucast b) OR push_bit 8 (ucast c) OR ucast d = (word_rcat [a, b, c, d] :: u32)"
proof -
  have d: "bit (ucast d :: u32) n \<Longrightarrow> n < 8" for n
    using byte_place [of 0 d n] by simp
  have "push_bit 8 (ucast c) OR ucast d = (push_bit 8 (ucast c) + ucast d :: u32)"
    by (rule disjoint_or) (use d byte_place [of 8 c] in fastforce)
  moreover have "push_bit 16 (ucast b) OR (push_bit 8 (ucast c) OR ucast d) = (push_bit 16 (ucast b) + (push_bit 8 (ucast c) OR ucast d) :: u32)"
    by (rule disjoint_or) (use d byte_place [of 8 c] byte_place [of 16 b] in \<open>fastforce simp: bit_or_iff\<close>)
  moreover have "push_bit 24 (ucast a) OR (push_bit 16 (ucast b) OR (push_bit 8 (ucast c) OR ucast d)) =
      (push_bit 24 (ucast a) + (push_bit 16 (ucast b) OR (push_bit 8 (ucast c) OR ucast d)) :: u32)"
    by (rule disjoint_or)
      (use d byte_place [of 8 c] byte_place [of 16 b] byte_place [of 24 a] in \<open>fastforce simp: bit_or_iff\<close>)
  moreover have "(word_rcat [a, b, c, d] :: u32) = ucast d + 256 * (ucast c + 256 * (ucast b + 256 * ucast a))"
    by (simp add: word_rcat_def algebra_simps)
  ultimately show ?thesis
    by (simp add: push_bit_eq_mult algebra_simps)
qed

lemma block_word_rcat:
  assumes "length block = 64" "t < 16"
  shows "block_word block t = word_rcat (take 4 (drop (4 * t) block))"
proof -
  obtain a b c d r where p: "drop (4 * t) block = a # b # c # d # r"
  proof -
    have "4 \<le> length (drop (4 * t) block)"
      using assms by simp
    then show ?thesis
      using length_ge_4 that by blast
  qed
  then show ?thesis
    using rcat_four [of a b c d] by (simp add: block_word_def p mult.commute Let_def)
qed

lemma length_fold_update: "length (fold (\<lambda>i xs. xs[i := g i xs]) is xs) = length xs"
  by (induction "is" arbitrary: xs) auto

lemma nth_fold_update:
  assumes "m \<le> n" "n \<le> length xs" "i < length xs"
  shows "fold (\<lambda>i xs. xs[i := f i]) [m..<n] xs ! i = (if m \<le> i \<and> i < n then f i else xs ! i)"
  using assms(1,2)
proof (induction n rule: dec_induct)
  case (step k)
  then show ?case
    using assms(3) length_fold_update [of "\<lambda>i _. f i" "[m..<k]" xs] by (auto simp: nth_list_update less_Suc_eq)
qed auto

lemma next_word_W:
  assumes "16 \<le> n" "\<And>t. t < n \<Longrightarrow> ws ! t = fips_W block t"
  shows "next_word ws n = fips_W block n"
proof -
  have "ws ! (n - 15) = fips_W block (n - 15)" "ws ! (n - 2) = fips_W block (n - 2)"
    "ws ! (n - 7) = fips_W block (n - 7)" "ws ! (n - 16) = fips_W block (n - 16)"
    using assms by simp_all
  moreover have "\<not> n < 16"
    using assms(1) by simp
  ultimately show ?thesis
    unfolding fips_W.simps [of block n] by (simp add: next_word_def RotateRight_rotr fips_sigma0_def fips_sigma1_def Let_def)
qed

lemma schedule_words:
  assumes "length ws = 64" "\<And>t. t < 16 \<Longrightarrow> ws ! t = fips_W block t" "16 \<le> n" "n \<le> 64"
  shows "\<forall>t < n. fold (\<lambda>index words. words[index := next_word words index]) [16..<n] ws ! t = fips_W block t"
  using assms(3,4)
proof (induction n rule: dec_induct)
  case base
  with assms(2) show ?case by simp
next
  case (step n)
  let ?ws = "fold (\<lambda>index words. words[index := next_word words index]) [16..<n] ws"
  have IH: "\<And>t. t < n \<Longrightarrow> ?ws ! t = fips_W block t"
    using step.IH step.prems by simp
  have "length ?ws = 64"
    using assms(1) length_fold_update [of "\<lambda>index words. next_word words index" "[16..<n]" ws] by simp
  moreover have "next_word ?ws n = fips_W block n"
    by (rule next_word_W [OF step.hyps(1) IH])
  moreover have "[16..<Suc n] = [16..<n] @ [n]"
    using step.hyps(1) by simp
  ultimately show ?case
    using IH step.prems by (auto simp: nth_list_update less_Suc_eq)
qed

lemma block_words_W:
  assumes "length block = 64" "t < 64"
  shows "block_words block ! t = fips_W block t"
proof -
  define first where "first = fold (\<lambda>index words. words[index := block_word block index]) [0..<16] (replicate 64 0)"
  have "length first = 64"
    using length_fold_update [of "\<lambda>i _. block_word block i" "[0..<16]" "replicate 64 0"] by (simp only: first_def length_replicate)
  moreover have "first ! t = fips_W block t" if "t < 16" for t
    using that nth_fold_update [of 0 16 "replicate 64 0" t "block_word block"] block_word_rcat [OF assms(1) that]
    unfolding first_def by (simp add: fips_W.simps [of block t] del: upt_rec_numeral)
  ultimately have "\<forall>t < 64. fold (\<lambda>index words. words[index := next_word words index]) [16..<64] first ! t = fips_W block t"
    by (rule schedule_words) simp_all
  then show ?thesis
    using assms(2) unfolding block_words_def first_def by blast
qed

lemma hash_rounds:
  assumes "length block = 64"
  shows "fold (hash_round (block_words block)) [0..<64] v = fold (fips_step block) [0..<64] v"
proof (rule fold_cong [OF refl refl])
  fix t assume "t \<in> set [0..<64]"
  then have "block_words block ! t = fips_W block t"
    using block_words_W [OF assms] by simp
  then show "hash_round (block_words block) t = fips_step block t"
    by (intro ext) (auto simp: RotateRight_rotr fips_Sum0_def fips_Sum1_def fips_Ch_def fips_Maj_def Let_def split_paired_all)
qed

fun vars_list :: "HashVars \<Rightarrow> u32 list" where
  "vars_list (a, b, c, d, e, f, g, h) = [a, b, c, d, e, f, g, h]"

lemma hash_vars_cases:
  fixes v :: HashVars
  obtains a b c d e f g h where "v = (a, b, c, d, e, f, g, h)"
  by (cases v rule: prod_cases7) (metis surj_pair)

lemma Transform_state:
  assumes "length block = 64" "sh_state hash = vars_list H"
  shows "sh_state (TransformStreamHash hash block) = vars_list (fips_compress H block)"
proof -
  obtain a b c d e f g h where H: "H = (a, b, c, d, e, f, g, h)"
    by (rule hash_vars_cases)
  obtain a' b' c' d' e' f' g' h' where v: "fold (fips_step block) [0..<64] H = (a', b', c', d', e', f', g', h')"
    by (rule hash_vars_cases)
  show ?thesis
    using assms(2) v unfolding TransformStreamHash_def hash_rounds [OF assms(1)]
    by (simp add: H fips_compress_def nth_Cons_numeral Let_def del: fips_step.simps upt_conv_Cons)
qed

lemma Transform_rest [simp]:
  "sh_block (TransformStreamHash hash b) = sh_block hash" "sh_totalBytes (TransformStreamHash hash b) = sh_totalBytes hash"
  "sh_bufferedBytes (TransformStreamHash hash b) = sh_bufferedBytes hash"
  "sh_initialized (TransformStreamHash hash b) = sh_initialized hash"
  by (simp_all add: TransformStreamHash_def Let_def split: prod.split)

subsection \<open>Any number of bytes\<close>

lemma fips_blocks_append:
  "64 dvd length m \<Longrightarrow> fips_blocks H (m @ m') = fips_blocks (fips_blocks H m) m'"
proof (induction H m rule: fips_blocks.induct)
  case (1 H m)
  show ?case
  proof (cases "length m < 64")
    case True
    with 1(2) have "m = []"
      by (auto dest: dvd_imp_le)
    then show ?thesis
      by (simp add: fips_blocks.simps [of H "[]"])
  next
    case False
    then have "64 dvd length (drop 64 m)" "\<not> length (m @ m') < 64"
      using 1(2) by (auto simp: dvd_diff_nat)
    with False 1(1) show ?thesis
      using fips_blocks.simps [of H m] fips_blocks.simps [of H "m @ m'"] by simp
  qed
qed

lemma fips_blocks_block: "length b = 64 \<Longrightarrow> fips_blocks H b = fips_compress H b"
  using fips_blocks.simps [of H b] fips_blocks.simps [of "fips_compress H b" "[]"] by simp

text \<open>The state has taken in the bytes \<open>m\<close>: its words are the hash of the full blocks, its block starts with
  the rest.\<close>

definition absorbs :: "GraphStreamSha256V1 \<Rightarrow> bytes \<Rightarrow> bool" where
  "absorbs hash m \<longleftrightarrow>
    (\<exists>done_part. m = done_part @ take (unat (sh_bufferedBytes hash)) (sh_block hash) \<and> 64 dvd length done_part \<and>
       sh_state hash = vars_list (fips_blocks fips_start done_part)) \<and>
    unat (sh_bufferedBytes hash) < 64 \<and> length (sh_block hash) = 64 \<and> sh_initialized hash"

lemma absorbs_buffered:
  assumes "absorbs hash m"
  shows "sh_bufferedBytes hash < 64" "unat (sh_bufferedBytes hash) = length m mod 64"
  using assms by (auto simp: absorbs_def word_numbers mod_eq_0_iff_dvd elim!: dvdE)

text \<open>One round of the loop.\<close>

lemma absorb_chunk:
  fixes hash input
  defines "count \<equiv> min (length input) (64 - unat (sh_bufferedBytes hash))"
  assumes "absorbs hash m" "sh_initialized hash'"
    and "sh_block hash' = take (unat (sh_bufferedBytes hash)) (sh_block hash) @ take count input @
      drop (unat (sh_bufferedBytes hash) + count) (sh_block hash)"
    and "sh_bufferedBytes hash' = sh_bufferedBytes hash + word_of_nat count" "sh_state hash' = sh_state hash"
  shows "absorbs (if sh_bufferedBytes hash' = 64 then (TransformStreamHash hash' (sh_block hash'))\<lparr>sh_bufferedBytes := 0\<rparr> else hash')
    (m @ take count input)"
proof -
  let ?n = "unat (sh_bufferedBytes hash)"
  obtain dn where dn: "m = dn @ take ?n (sh_block hash)" "64 dvd length dn"
    "sh_state hash = vars_list (fips_blocks fips_start dn)" "?n < 64" "length (sh_block hash) = 64"
    using assms(2) by (auto simp: absorbs_def)
  have count: "?n + count \<le> 64" "count \<le> length input"
    using dn(4) by (auto simp: count_def)
  then have buffered: "unat (sh_bufferedBytes hash') = ?n + count"
    unfolding assms(5) by (simp add: unat_word_ariths unat_of_nat)
  have block: "take (?n + count) (sh_block hash') = take ?n (sh_block hash) @ take count input" "length (sh_block hash') = 64"
    unfolding assms(4) using count dn(4,5) by simp_all
  show ?thesis
  proof (cases "sh_bufferedBytes hash' = 64")
    case True
    then have full: "?n + count = 64"
      using buffered by (simp add: word_numbers)
    then have whole: "sh_block hash' = take ?n (sh_block hash) @ take count input"
      using block by (metis order.refl take_all)
    have "fips_compress (fips_blocks fips_start dn) (sh_block hash') = fips_blocks fips_start (dn @ sh_block hash')"
      using block(2) dn(2) by (simp add: fips_blocks_append fips_blocks_block)
    moreover have "m @ take count input = dn @ sh_block hash'"
      unfolding dn(1) whole by simp
    moreover have "64 dvd length (dn @ sh_block hash')"
      using dn(2) block(2) by simp
    ultimately show ?thesis
      using True Transform_state [OF block(2), of hash' "fips_blocks fips_start dn"] dn(3) assms(3,6) block(2)
      by (simp add: absorbs_def)
  next
    case False
    then have "?n + count < 64"
      using buffered count by (simp add: word_numbers)
    with False show ?thesis
      unfolding absorbs_def using dn block buffered assms(3,6) by auto
  qed
qed

lemma update_loop_absorbs:
  "absorbs hash m \<Longrightarrow> absorbs (update_loop input hash) (m @ input) \<and>
     sh_totalBytes (update_loop input hash) = sh_totalBytes hash"
proof (induction input hash arbitrary: m rule: update_loop.induct)
  case (1 input hash)
  note room = absorbs_buffered(1) [OF 1(2)]
  show ?case
  proof (cases "input = []")
    case True
    with 1(2) show ?thesis
      by (simp add: update_loop.simps)
  next
    case False
    let ?n = "unat (sh_bufferedBytes hash)"
    let ?count = "min (length input) (64 - ?n)"
    let ?hash = "hash\<lparr>sh_block := take ?n (sh_block hash) @ take ?count input @ drop (?n + ?count) (sh_block hash),
                       sh_bufferedBytes := sh_bufferedBytes hash + word_of_nat ?count\<rparr>"
    let ?next = "if sh_bufferedBytes ?hash = 64 then (TransformStreamHash ?hash (sh_block ?hash))\<lparr>sh_bufferedBytes := 0\<rparr> else ?hash"
    have step: "update_loop input hash = update_loop (drop ?count input) ?next"
      by (subst update_loop.simps) (simp add: False room Let_def)
    have "absorbs ?next (m @ take ?count input)"
      by (rule absorb_chunk [OF 1(2)]) (use 1(2) in \<open>simp_all add: absorbs_def\<close>)
    moreover have "sh_totalBytes ?next = sh_totalBytes hash"
      by simp
    ultimately show ?thesis
      unfolding step using 1(1) [of ?n ?count ?hash "m @ take ?count input"] False room by simp
  qed
qed

lemma Update_absorbs:
  assumes "absorbs hash m"
  shows "absorbs (UpdateStreamHash hash b) (m @ b)"
    "sh_totalBytes (UpdateStreamHash hash b) = sh_totalBytes hash + size64 b"
  using update_loop_absorbs [of "hash\<lparr>sh_totalBytes := sh_totalBytes hash + size64 b\<rparr>" m b] assms
  by (simp_all add: UpdateStreamHash_def absorbs_def)

lemma Initialize_absorbs:
  "absorbs InitializeStreamHash kStreamDomain" "sh_totalBytes InitializeStreamHash = size64 kStreamDomain"
proof -
  let ?h = "\<lparr>sh_state = vars_list fips_start, sh_block = replicate 64 0, sh_totalBytes = 0, sh_bufferedBytes = 0, sh_initialized = True\<rparr>"
  have "absorbs ?h []"
    by (simp add: absorbs_def fips_blocks.simps)
  moreover have "InitializeStreamHash = UpdateStreamHash ?h kStreamDomain"
    by (simp add: InitializeStreamHash_def fips_start_def)
  ultimately show "absorbs InitializeStreamHash kStreamDomain" "sh_totalBytes InitializeStreamHash = size64 kStreamDomain"
    using Update_absorbs [of ?h "[]" kStreamDomain] by simp_all
qed

subsection \<open>The padding\<close>

lemma pad_mod:
  fixes r :: nat
  shows "r \<le> 56 \<Longrightarrow> (120 - r) mod 64 = 56 - r" "56 < r \<Longrightarrow> (120 - r) mod 64 = 120 - r"
proof -
  assume "r \<le> 56"
  then have "120 - r = 64 + (56 - r)" by simp
  then show "(120 - r) mod 64 = 56 - r" by (simp only: mod_add_self1) simp
qed simp

lemma pad_counts:
  fixes n :: nat
  shows "(120 - Suc n mod 64) mod 64 = (119 - n mod 64) mod 64"
    "n mod 64 \<noteq> 56 \<Longrightarrow> Suc ((120 - Suc n mod 64) mod 64) = (120 - n mod 64) mod 64"
    "(n + 9 + (119 - n mod 64) mod 64) mod 64 = 0"
proof -
  define r where "r = n mod 64"
  have r: "r < 64" "Suc n mod 64 = (if r = 63 then 0 else Suc r)"
    by (simp_all add: r_def mod_Suc)
  show one: "(120 - Suc n mod 64) mod 64 = (119 - n mod 64) mod 64"
    using r by (simp add: r_def [symmetric])
  show "Suc ((120 - Suc n mod 64) mod 64) = (120 - n mod 64) mod 64" if "n mod 64 \<noteq> 56"
    using r that pad_mod [of r] pad_mod [of "Suc r"] unfolding r_def [symmetric] by (cases "r < 56") auto
  have "(n + 9 + (119 - n mod 64) mod 64) mod 64 = (r + 9 + (119 - n mod 64) mod 64) mod 64"
    unfolding r_def by (metis mod_add_left_eq)
  moreover have "(119 - n mod 64) mod 64 = (if r \<le> 55 then 55 - r else 119 - r)"
    using r pad_mod [of "Suc r"] unfolding r_def [symmetric] by auto
  ultimately show "(n + 9 + (119 - n mod 64) mod 64) mod 64 = 0"
    using r(1) by auto
qed

lemma pad_loop_absorbs:
  "absorbs hash m \<Longrightarrow> absorbs (pad_loop hash) (m @ replicate ((120 - length m mod 64) mod 64) 0)"
proof (induction hash arbitrary: m rule: pad_loop.induct)
  case (1 hash)
  note room = absorbs_buffered [OF 1(2)]
  show ?case
  proof (cases "sh_bufferedBytes hash = 56")
    case True
    with 1(2) room(2) show ?thesis
      by (simp add: pad_loop.simps)
  next
    case False
    then have "length m mod 64 \<noteq> 56"
      using room(2) by (simp add: word_numbers)
    then have k: "(120 - length m mod 64) mod 64 = Suc ((120 - length (m @ [0]) mod 64) mod 64)"
      using pad_counts(2) [of "length m"] by simp
    have "pad_loop hash = pad_loop (UpdateStreamHash hash [0])"
      using False room(1) by (subst pad_loop.simps) simp
    moreover have "absorbs (pad_loop (UpdateStreamHash hash [0])) ((m @ [0]) @ replicate ((120 - length (m @ [0]) mod 64) mod 64) 0)"
      by (rule 1(1) [OF _ Update_absorbs(1) [OF 1(2)]]) (use False room(1) in simp)
    ultimately show ?thesis
      unfolding k by simp
  qed
qed

lemma small_ranges: "[0..<8] = [0, 1, 2, 3, 4, 5, 6, 7]" "[0..<4] = [0, 1, 2, 3]" "replicate 8 x = [x, x, x, x, x, x, x, x]"
  by (simp_all add: upt_conv_Cons numeral_eq_Suc)

lemma length_bytes_be_eq: "length_bytes_be (size64 m * 8) = fips_length (length m)"
proof -
  have "size64 m * 8 = word_of_nat (8 * length m)"
    by (simp add: size64_def mult.commute)
  then show ?thesis
    by (simp add: length_bytes_be_def fips_length_def Let_def small_ranges)
qed

lemma state_bytes_eq: "state_bytes (vars_list H) = digest_bytes H"
  by (cases H rule: hash_vars_cases) (simp add: state_bytes_def word_bytes_def small_ranges)

lemma Finalize_absorbs:
  assumes "absorbs hash m" "sh_totalBytes hash = size64 m"
  shows "FinalizeStreamHash hash = SHA_256 m"
proof -
  let ?m = "m @ [0x80]" and ?k = "(119 - length m mod 64) mod 64"
  let ?padded = "UpdateStreamHash (pad_loop (UpdateStreamHash hash [0x80])) (length_bytes_be (size64 m * 8))"
  have k: "(120 - length ?m mod 64) mod 64 = ?k"
    using pad_counts(1) [of "length m"] by simp
  have "absorbs (pad_loop (UpdateStreamHash hash [0x80])) (?m @ replicate ?k 0)"
    using pad_loop_absorbs [OF Update_absorbs(1) [OF assms(1), of "[0x80]"]] unfolding k .
  from Update_absorbs(1) [OF this, of "fips_length (length m)"]
  have padded: "absorbs ?padded (fips_pad m)"
    unfolding length_bytes_be_eq by (simp add: fips_pad_def)
  have "length (fips_pad m) mod 64 = 0"
    using pad_counts(3) [of "length m"] by (simp add: fips_pad_def fips_length_def Let_def ac_simps)
  then have "unat (sh_bufferedBytes ?padded) = 0"
    using absorbs_buffered(2) [OF padded] by simp
  then have "sh_state ?padded = vars_list (fips_blocks fips_start (fips_pad m))"
    using padded by (simp add: absorbs_def)
  then show ?thesis
    by (simp add: FinalizeStreamHash_def assms(2) Let_def state_bytes_eq SHA_256_def)
qed

subsection \<open>The hash of a stream\<close>

text \<open>A stream is hashed by one initialisation, one update per piece and one end.\<close>

fun update_pieces :: "bytes list \<Rightarrow> GraphStreamSha256V1 \<Rightarrow> GraphStreamSha256V1 option" where
  "update_pieces [] hash = Some hash"
| "update_pieces (b # bs) hash = Option.bind (UpdateGraphStreamHashV1 hash b) (update_pieces bs)"

definition hash_pieces :: "bytes list \<Rightarrow> Sha256 option" where
  "hash_pieces bs = Option.bind (update_pieces bs InitializeGraphStreamHashV1) FinalizeGraphStreamHashV1"

lemma minus_one_sub: "unat (- 1 - (w :: u64)) = 2 ^ 64 - 1 - unat w"
proof -
  have "w \<le> - 1" by simp
  then show ?thesis
    by (simp only: unat_sub) (simp add: unsigned_minus_1_eq_mask mask_eq_exp_minus_1)
qed

lemma Update_accepted:
  assumes "absorbs hash m" "sh_totalBytes hash = size64 m" "length m < 2 ^ 64"
  shows "UpdateGraphStreamHashV1 hash b = (if length (m @ b) < 2 ^ 64 then Some (UpdateStreamHash hash b) else None)"
proof -
  have "unat (- 1 - sh_totalBytes hash) = 2 ^ 64 - 1 - length m"
    using assms(2,3) by (simp add: minus_one_sub unat_size64)
  then show ?thesis
    using assms(1,3) by (auto simp: UpdateGraphStreamHashV1_def absorbs_def)
qed

lemma update_pieces_absorbs:
  assumes "absorbs hash m" "sh_totalBytes hash = size64 m" "length m < 2 ^ 64"
  shows "if length (m @ concat bs) < 2 ^ 64
    then \<exists>hash'. update_pieces bs hash = Some hash' \<and> absorbs hash' (m @ concat bs) \<and> sh_totalBytes hash' = size64 (m @ concat bs)
    else update_pieces bs hash = None"
  using assms
proof (induction bs arbitrary: hash m)
  case (Cons b bs)
  show ?case
  proof (cases "length (m @ b) < 2 ^ 64")
    case True
    have "sh_totalBytes (UpdateStreamHash hash b) = size64 (m @ b)"
      using Update_absorbs(2) [OF Cons.prems(1)] Cons.prems(2) by (simp add: size64_def)
    from Cons.IH [OF Update_absorbs(1) [OF Cons.prems(1)] this True] show ?thesis
      using Update_accepted [OF Cons.prems, of b] True by (auto split: if_splits)
  next
    case False
    then show ?thesis
      using Update_accepted [OF Cons.prems, of b] by simp
  qed
qed simp

text \<open>The constants of the rounds are those of the standard: the first 32 bits of the fractional parts of
  the cube roots of the first 64 primes; those of the start are the same of the square roots of the
  first eight.\<close>

definition fips_primes :: "int list" where
  "fips_primes = [2, 3, 5, 7, 11, 13, 17, 19, 23, 29, 31, 37, 41, 43, 47, 53, 59, 61, 67, 71, 73, 79, 83, 89, 97, 101, 103, 107,
     109, 113, 127, 131, 137, 139, 149, 151, 157, 163, 167, 173, 179, 181, 191, 193, 197, 199, 211, 223, 227, 229, 233, 239,
     241, 251, 257, 263, 269, 271, 277, 281, 283, 293, 307, 311]"

definition root_fraction :: "nat \<Rightarrow> int \<Rightarrow> u32 \<Rightarrow> bool" where
  "root_fraction e p k \<longleftrightarrow>
    list_ex (\<lambda>n. (n * 2 ^ 32 + uint k) ^ e \<le> p * 2 ^ (32 * e) \<and> p * 2 ^ (32 * e) < (n * 2 ^ 32 + uint k + 1) ^ e) [1..6]"

lemma round_constants: "list_all2 (root_fraction 3) fips_primes kSha256Round"
  by code_simp

lemma start_constants:
  "list_all2 (root_fraction 2) (take 8 fips_primes) (case fips_start of (a, b, c, d, e, f, g, h) \<Rightarrow> [a, b, c, d, e, f, g, h])"
  by code_simp

text \<open>Claim C35. The stream hash is SHA-256: whatever pieces a stream is hashed in, the digest is the SHA-256 of
  the standard of the domain and the pieces one after the other; a stream is refused exactly when the
  number of bytes leaves the 64-bit counter.\<close>

theorem stream_hash_is_sha256:
  "hash_pieces bs =
    (if length (kStreamDomain @ concat bs) < 2 ^ 64 then Some (SHA_256 (kStreamDomain @ concat bs)) else None)"
proof -
  have "length kStreamDomain < 2 ^ 64"
    by (simp add: kStreamDomain_def ascii_def)
  from update_pieces_absorbs [OF Initialize_absorbs this, of bs] show ?thesis
    by (auto simp: hash_pieces_def InitializeGraphStreamHashV1_def FinalizeGraphStreamHashV1_def Finalize_absorbs absorbs_def
        split: if_splits)
qed

end
