(* ===== verification/GraphStream.thy ===== *)
theory GraphStream
  imports StreamHash
begin

section \<open>The reader of a graph stream (DocumentGraphProtocol.cpp)\<close>

text \<open>
  A graph is sent as a sequence of frames: one that opens the stream, chunks of fragments, and a terminal
  frame with the number of records, their bytes and their digest. \<open>AcceptGraphResponseFrame\<close> takes the
  frames one at a time. It answers the continuation after an accepted frame, or an error; on an error
  the continuation of the caller keeps its value. The model returns with it what the code stores in
  \<open>requiredBytes\<close>. Record kinds and scalars are kept as the numbers on the wire, as in the fragments.
\<close>

subsection \<open>The code\<close>

record GraphFragmentContinuationV1 =
  gc_active :: bool
  gc_terminal :: bool
  gc_currentRecordId :: u64
  gc_nextRecordId :: u64
  gc_currentRecordKind :: u16
  gc_logicalRecordFlags :: u16
  gc_logicalRecordFieldCount :: u16
  gc_currentFieldOrdinal :: u16
  gc_currentFieldTag :: FieldTag
  gc_currentFieldFlags :: u16
  gc_currentFieldScalar :: u16
  gc_currentElementCount :: u64
  gc_totalFieldBytes :: u64
  gc_nextFieldFragmentOffset :: u64
  gc_nextReconstructedOffset :: u64
  gc_expectFirstFieldMarker :: bool
  gc_expectLastFieldMarker :: bool
  gc_expectFirstRecordMarker :: bool
  gc_expectLastRecordMarker :: bool
  gc_nextResponseSequence :: u64
  gc_previousChain :: Sha256
  gc_identityBound :: bool
  gc_boundCursor :: Uuid128
  gc_boundVersion :: bytes
  gc_completedRecordCount :: u64
  gc_completedLogicalBytes :: u64
  gc_streamHash :: GraphStreamSha256V1
  gc_currentFieldValue :: bytes
  gc_currentRecordFieldBytes :: bytes
  gc_cachedFrame :: bytes

definition new_continuation :: GraphFragmentContinuationV1 where
  "new_continuation =
    \<lparr>gc_active = False, gc_terminal = False, gc_currentRecordId = 0, gc_nextRecordId = 0, gc_currentRecordKind = 0,
     gc_logicalRecordFlags = 0, gc_logicalRecordFieldCount = 0, gc_currentFieldOrdinal = 0, gc_currentFieldTag = 0,
     gc_currentFieldFlags = 0, gc_currentFieldScalar = scalar_raw ST_Bytes, gc_currentElementCount = 0,
     gc_totalFieldBytes = 0, gc_nextFieldFragmentOffset = 0, gc_nextReconstructedOffset = 0,
     gc_expectFirstFieldMarker = True, gc_expectLastFieldMarker = False, gc_expectFirstRecordMarker = True,
     gc_expectLastRecordMarker = False, gc_nextResponseSequence = 0, gc_previousChain = zero_digest,
     gc_identityBound = False, gc_boundCursor = zero_uuid, gc_boundVersion = replicate kGraphVersionBytesV1 0,
     gc_completedRecordCount = 0, gc_completedLogicalBytes = 0, gc_streamHash = new_hash, gc_currentFieldValue = [],
     gc_currentRecordFieldBytes = [], gc_cachedFrame = []\<rparr>"

definition start_field :: "FragmentHeader \<Rightarrow> GraphFragmentContinuationV1 \<Rightarrow> GraphFragmentContinuationV1" where
  "start_field h c = c\<lparr>gc_currentFieldTag := fr_fieldTag h, gc_currentFieldFlags := fr_fieldFlags h AND 3,
     gc_currentFieldScalar := fr_scalar h, gc_currentElementCount := fr_elementCount h,
     gc_totalFieldBytes := fr_totalFieldBytes h, gc_nextFieldFragmentOffset := 0, gc_currentFieldValue := []\<rparr>"

text \<open>A fragment begins a record, begins a field of the current record, or goes on with the current field.\<close>

definition start_piece :: "FragmentHeader \<Rightarrow> GraphFragmentContinuationV1 \<Rightarrow> ErrorCode + GraphFragmentContinuationV1" where
  "start_piece h c =
    (if \<not> gc_active c then
       if fr_recordId h \<noteq> gc_nextRecordId c \<or> \<not> firstRecord h \<or> \<not> firstField h then Inl EC_BadField
       else Inr (start_field h (c\<lparr>gc_active := True, gc_currentRecordId := fr_recordId h,
              gc_currentRecordKind := fr_recordKind h, gc_logicalRecordFlags := fr_logicalRecordFlags h,
              gc_logicalRecordFieldCount := fr_logicalRecordFieldCount h, gc_currentFieldOrdinal := 0,
              gc_currentRecordFieldBytes := []\<rparr>))
     else if gc_expectFirstFieldMarker c then
       if fr_recordId h \<noteq> gc_currentRecordId c \<or> fr_recordKind h \<noteq> gc_currentRecordKind c \<or>
         fr_logicalRecordFlags h \<noteq> gc_logicalRecordFlags c \<or>
         fr_logicalRecordFieldCount h \<noteq> gc_logicalRecordFieldCount c \<or> \<not> firstField h \<or> firstRecord h \<or>
         fr_fieldTag h \<le> gc_currentFieldTag c then Inl EC_BadField
       else Inr (start_field h c)
     else if fr_recordId h \<noteq> gc_currentRecordId c \<or> fr_recordKind h \<noteq> gc_currentRecordKind c \<or>
       fr_logicalRecordFlags h \<noteq> gc_logicalRecordFlags c \<or>
       fr_logicalRecordFieldCount h \<noteq> gc_logicalRecordFieldCount c \<or> fr_fieldTag h \<noteq> gc_currentFieldTag c \<or>
       fr_fieldFlags h AND 3 \<noteq> gc_currentFieldFlags c \<or> fr_scalar h \<noteq> gc_currentFieldScalar c \<or>
       fr_elementCount h \<noteq> gc_currentElementCount c \<or> fr_totalFieldBytes h \<noteq> gc_totalFieldBytes c \<or>
       firstField h \<or> firstRecord h \<or> fr_fragmentOffset h \<noteq> gc_nextFieldFragmentOffset c then Inl EC_BadField
     else Inr c)"

definition take_piece :: "FragmentHeader \<Rightarrow> bytes \<Rightarrow> GraphFragmentContinuationV1 \<Rightarrow> ErrorCode + GraphFragmentContinuationV1" where
  "take_piece h piece c =
    (if fr_fragmentOffset h \<noteq> gc_nextFieldFragmentOffset c \<or> fr_totalFieldBytes h > 0 \<and> fr_fragmentBytes h = 0
     then Inl EC_LengthMismatch
     else Inr (c\<lparr>gc_currentFieldValue := gc_currentFieldValue c @ piece,
            gc_nextFieldFragmentOffset := gc_nextFieldFragmentOffset c + fr_fragmentBytes h,
            gc_nextReconstructedOffset := gc_nextReconstructedOffset c + fr_fragmentBytes h +
              (if firstField h then 24 else 0) + (if firstRecord h then 24 else 0)\<rparr>))"

text \<open>The end of a record: its header and its fields go into the stream hash.\<close>

definition end_record :: "GraphFragmentContinuationV1 \<Rightarrow> ErrorCode + GraphFragmentContinuationV1" where
  "end_record c =
    (if unat (gc_currentFieldOrdinal c) + 1 \<noteq> unat (gc_logicalRecordFieldCount c) then Inl EC_BadField
     else case EncodeCanonicalRecordHeaderV1 (gc_currentRecordKind c) (gc_logicalRecordFlags c) (gc_logicalRecordFieldCount c)
            (gc_currentRecordId c) (size64 (gc_currentRecordFieldBytes c)) of
         None \<Rightarrow> Inl EC_Internal
       | Some recordHeader \<Rightarrow>
           if unat (gc_completedLogicalBytes c) > unat kMaximumTotalBytes - length recordHeader \<or>
             unat (gc_completedLogicalBytes c) + length recordHeader >
               unat kMaximumTotalBytes - length (gc_currentRecordFieldBytes c) then Inl EC_LengthMismatch
           else case Option.bind (UpdateGraphStreamHashV1 (gc_streamHash c) recordHeader)
                  (\<lambda>hash. UpdateGraphStreamHashV1 hash (gc_currentRecordFieldBytes c)) of
               None \<Rightarrow> Inl EC_Internal
             | Some hash \<Rightarrow> Inr (c\<lparr>gc_streamHash := hash,
                 gc_completedLogicalBytes := gc_completedLogicalBytes c +
                   (size64 recordHeader + size64 (gc_currentRecordFieldBytes c)),
                 gc_completedRecordCount := gc_completedRecordCount c + 1, gc_active := False,
                 gc_nextRecordId := gc_currentRecordId c + 1, gc_expectFirstRecordMarker := True,
                 gc_expectFirstFieldMarker := True, gc_currentFieldValue := [], gc_currentRecordFieldBytes := []\<rparr>))"

definition end_field :: "FragmentHeader \<Rightarrow> GraphFragmentContinuationV1 \<Rightarrow> ErrorCode + GraphFragmentContinuationV1" where
  "end_field h c =
    (if lastField h then
       let encodedField = EncodeField (gc_currentFieldTag c) (gc_currentFieldFlags c) (scalar_of (gc_currentFieldScalar c))
             (gc_currentFieldValue c) (gc_currentElementCount c)
       in if gc_nextFieldFragmentOffset c \<noteq> gc_totalFieldBytes c \<or> encodedField = [] then Inl EC_BadField
          else let c = c\<lparr>gc_currentRecordFieldBytes := gc_currentRecordFieldBytes c @ encodedField\<rparr>
            in if lastRecord h then end_record c
               else if unat (gc_currentFieldOrdinal c) + 1 \<ge> unat (gc_logicalRecordFieldCount c) then Inl EC_BadField
               else Inr (c\<lparr>gc_currentFieldOrdinal := gc_currentFieldOrdinal c + 1, gc_expectFirstFieldMarker := True,
                      gc_expectFirstRecordMarker := False, gc_currentFieldValue := []\<rparr>)
     else if lastRecord h then Inl EC_BadField
     else Inr (c\<lparr>gc_expectFirstFieldMarker := False, gc_expectFirstRecordMarker := False\<rparr>))"

definition expect_markers :: "GraphFragmentContinuationV1 \<Rightarrow> GraphFragmentContinuationV1" where
  "expect_markers c =
    (let lastf = (gc_nextFieldFragmentOffset c = gc_totalFieldBytes c)
     in c\<lparr>gc_expectLastFieldMarker := lastf,
          gc_expectLastRecordMarker := lastf \<and> unat (gc_currentFieldOrdinal c) + 1 = unat (gc_logicalRecordFieldCount c)\<rparr>)"

definition accept_piece :: "FragmentHeader \<Rightarrow> bytes \<Rightarrow> GraphFragmentContinuationV1 \<Rightarrow> ErrorCode + GraphFragmentContinuationV1" where
  "accept_piece h piece c =
    bindE (start_piece h c) (\<lambda>c. bindE (take_piece h piece c) (\<lambda>c. bindE (end_field h c) (\<lambda>c. Inr (expect_markers c))))"

text \<open>The fragments of a payload; the frame decoder has checked that they fill it.\<close>

function accept_pieces :: "bytes \<Rightarrow> GraphFragmentContinuationV1 \<Rightarrow> ErrorCode + GraphFragmentContinuationV1" where
  "accept_pieces payload c =
    (if payload = [] then Inr c
     else let h = read_fragment payload; n = unat (fr_fragmentBytes h)
       in bindE (accept_piece h (take n (drop 56 payload)) c) (accept_pieces (drop (56 + n) payload)))"
  by pat_completeness auto
termination by (relation "measure (\<lambda>(payload, c). length payload)") auto

declare accept_pieces.simps [simp del]

definition accept_chunk :: "Header \<Rightarrow> bytes \<Rightarrow> GraphFragmentContinuationV1 \<Rightarrow> ErrorCode + GraphFragmentContinuationV1" where
  "accept_chunk h payload c =
    bindE (accept_pieces payload c) (\<lambda>c.
      if gc_nextReconstructedOffset c > fh_fragmentTotal h \<or>
        (fh_flags h AND kFlagFragmented \<noteq> 0) \<noteq> (gc_nextReconstructedOffset c < fh_fragmentTotal h)
      then Inl EC_LengthMismatch else Inr c)"

definition accept_terminal :: "Header \<Rightarrow> bytes \<Rightarrow> GraphFragmentContinuationV1 \<Rightarrow> ErrorCode + GraphFragmentContinuationV1" where
  "accept_terminal h payload c =
    (if gc_active c \<or> fh_fragmentOffset h \<noteq> fh_fragmentTotal h \<or>
       gc_completedLogicalBytes c \<noteq> gc_nextReconstructedOffset c then Inl EC_LengthMismatch
     else case ParseFields payload of
         None \<Rightarrow> Inl EC_LengthMismatch
       | Some fs \<Rightarrow>
           if \<not> Protocol_ExactTags fs [1, 2, 3] [] \<or> \<not> FieldU64Equals (Find_field fs 1) (gc_completedRecordCount c) \<or>
             \<not> FieldU64Equals (Find_field fs 2) (gc_completedLogicalBytes c) \<or>
             gc_completedLogicalBytes c \<noteq> fh_fragmentTotal h \<or> \<not> ExactField (Find_field fs 3) ST_SHA256 32 True
           then Inl EC_LengthMismatch
           else case FinalizeGraphStreamHashV1 (gc_streamHash c) of
               None \<Rightarrow> Inl EC_Internal
             | Some streamDigest \<Rightarrow>
                 if the_value (Find_field fs 3) \<noteq> streamDigest then Inl EC_DigestMismatch
                 else Inr (c\<lparr>gc_terminal := True\<rparr>))"

text \<open>The first frame binds the stream to a cursor and a version.\<close>

definition bind_identity :: "Header \<Rightarrow> bytes \<Rightarrow> GraphFragmentContinuationV1 \<Rightarrow> ErrorCode + GraphFragmentContinuationV1" where
  "bind_identity h serializedVersion c =
    (if \<not> gc_identityBound c then
       Inr (c\<lparr>gc_identityBound := True, gc_boundCursor := fh_cursorOrUpload h, gc_boundVersion := serializedVersion,
              gc_streamHash := InitializeGraphStreamHashV1\<rparr>)
     else if gc_boundCursor c \<noteq> fh_cursorOrUpload h then Inl EC_CursorNotFound
     else if gc_boundVersion c \<noteq> serializedVersion then Inl EC_StaleGraph
     else Inr c)"

definition accept_message :: "Header \<Rightarrow> bytes \<Rightarrow> bool \<Rightarrow> GraphFragmentContinuationV1 \<Rightarrow> ErrorCode + GraphFragmentContinuationV1" where
  "accept_message h payload wasBound c =
    (if fh_message h = MK_OpenReceipt then
       (if wasBound \<or> fh_fragmentOffset h \<noteq> 0 \<or> fh_fragmentTotal h \<noteq> 0 then Inl EC_BadField else Inr c)
     else if fh_message h = MK_GraphTerminal then accept_terminal h payload c
     else if fh_message h = MK_GraphChunk then accept_chunk h payload c
     else Inl EC_BadMessageKind)"

definition accept_frame :: "Header \<Rightarrow> bytes \<Rightarrow> bytes \<Rightarrow> GraphFragmentContinuationV1 \<Rightarrow> ErrorCode + GraphFragmentContinuationV1" where
  "accept_frame h payload frame c =
    (if gc_terminal c then Inl EC_CursorClosed
     else if fh_sequence h \<noteq> gc_nextResponseSequence c \<or> \<not> EqualHash (fh_previousChain h) (gc_previousChain c)
     then Inl EC_SequenceMismatch
     else if fh_fragmentOffset h \<noteq> gc_nextReconstructedOffset c then Inl EC_LengthMismatch
     else case SerializeGraphVersion (header_version h) of
         Inl _ \<Rightarrow> Inl EC_BadField
       | Inr serializedVersion \<Rightarrow>
           bindE (bind_identity h serializedVersion c) (\<lambda>next.
             bindE (accept_message h payload (gc_identityBound c) next) (\<lambda>next.
               Inr (next\<lparr>gc_nextResponseSequence := gc_nextResponseSequence next + 1,
                         gc_previousChain := fh_chainDigest h, gc_cachedFrame := frame\<rparr>))))"

definition AcceptGraphResponseFrame ::
  "(bytes \<Rightarrow> Sha256) \<Rightarrow> bytes \<Rightarrow> u64 \<Rightarrow> GraphFragmentContinuationV1 \<Rightarrow> (ErrorCode + GraphFragmentContinuationV1) \<times> u64" where
  "AcceptGraphResponseFrame sha frame callerBudget c =
    ((if unat callerBudget < kHeaderBytes \<or> callerBudget > kMaximumFrameBytes then Inl EC_BadField
      else if length frame > unat callerBudget then Inl EC_BufferTooSmall
      else if gc_cachedFrame c \<noteq> [] \<and> gc_cachedFrame c = frame then Inr c
      else bindE (DecodeFrame sha frame) (\<lambda>(h, payload). accept_frame h payload frame c)), size64 frame)"

subsection \<open>The pieces of a payload\<close>

function payload_pieces :: "bytes \<Rightarrow> (FragmentHeader \<times> bytes) list" where
  "payload_pieces payload =
    (if payload = [] then []
     else let h = read_fragment payload; n = unat (fr_fragmentBytes h)
       in (h, take n (drop 56 payload)) # payload_pieces (drop (56 + n) payload))"
  by pat_completeness auto
termination by (relation "measure length") auto

declare payload_pieces.simps [simp del]

fun accept_list :: "(FragmentHeader \<times> bytes) list \<Rightarrow> GraphFragmentContinuationV1 \<Rightarrow> ErrorCode + GraphFragmentContinuationV1" where
  "accept_list [] c = Inr c"
| "accept_list ((h, p) # ps) c = bindE (accept_piece h p c) (accept_list ps)"

lemma accept_pieces_list: "accept_pieces payload c = accept_list (payload_pieces payload) c"
proof (induction payload c rule: accept_pieces.induct)
  case (1 payload c)
  then show ?case
    by (subst accept_pieces.simps, subst payload_pieces.simps)
      (auto simp: Let_def bindE_def split: sum.split)
qed

text \<open>What the frame decoder has checked of every piece.\<close>

definition good_piece :: "FragmentHeader \<Rightarrow> bytes \<Rightarrow> bool" where
  "good_piece h p \<longleftrightarrow> \<not> fragment_bad h (length p) \<and> (firstField h \<longleftrightarrow> fr_fragmentOffset h = 0) \<and>
    (lastField h \<longleftrightarrow> fr_fragmentOffset h + fr_fragmentBytes h = fr_totalFieldBytes h) \<and>
    (firstRecord h \<longrightarrow> firstField h) \<and> (lastRecord h \<longrightarrow> lastField h)"

lemma scan_step_good:
  assumes "scan_step headerOffset payload s = Some (s', rest)"
  defines "h \<equiv> read_fragment payload"
  shows "payload \<noteq> []" "rest = drop (56 + unat (fr_fragmentBytes h)) payload"
    "good_piece h (take (unat (fr_fragmentBytes h)) (drop 56 payload))"
  using assms by (auto simp: scan_step_def Let_def bind_eq_Some_conv good_piece_def h_def drop_drop ac_simps split: if_split_asm)

lemma scan_loop_good:
  "scan_loop headerOffset payload s = Some s' \<Longrightarrow> \<forall>(h, p) \<in> set (payload_pieces payload). good_piece h p"
proof (induction headerOffset payload s rule: scan_loop.induct)
  case (1 headerOffset payload s)
  show ?case
  proof (cases "payload = []")
    case True
    then show ?thesis by (simp add: payload_pieces.simps)
  next
    case False
    with 1(2) obtain t rest where step: "scan_step headerOffset payload s = Some (t, rest)"
      "scan_loop headerOffset rest t = Some s'"
      by (subst (asm) scan_loop.simps) (auto split: option.splits)
    with 1(1) [OF False step(1) refl] scan_step_good [OF step(1)] False show ?thesis
      by (subst payload_pieces.simps) (auto simp: Let_def)
  qed
qed

lemma chunk_pieces_good:
  assumes "ValidatePayloadShape h payload" "fh_message h = MK_GraphChunk"
  shows "\<forall>(h, p) \<in> set (payload_pieces payload). good_piece h p"
  using assms scan_loop_good by (auto simp: ValidatePayloadShape_def ValidateFragmentStream_def split: if_splits option.splits)

lemma good_piece_facts:
  assumes "good_piece h p"
  shows "fr_recordKind h \<le> 8" "fr_logicalRecordFlags h AND NOT 1 = 0" "fr_fieldTag h \<noteq> 0" "fr_scalar h \<le> 17"
    "fr_logicalRecordFieldCount h \<noteq> 0" "unat (fr_fragmentBytes h) = length p"
    "unat (fr_fragmentOffset h) + length p \<le> unat (fr_totalFieldBytes h)"
    "lastField h \<longleftrightarrow> unat (fr_fragmentOffset h) + length p = unat (fr_totalFieldBytes h)"
    "firstField h \<longleftrightarrow> fr_fragmentOffset h = 0"
proof -
  have bad: "\<not> fragment_bad h (length p)" and last: "lastField h \<longleftrightarrow> fr_fragmentOffset h + fr_fragmentBytes h = fr_totalFieldBytes h"
    using assms by (simp_all add: good_piece_def)
  show n: "unat (fr_fragmentBytes h) = length p"
    using bad by (simp add: fragment_bad_def)
  have off: "fr_fragmentOffset h \<le> fr_totalFieldBytes h" "fr_fragmentBytes h \<le> fr_totalFieldBytes h - fr_fragmentOffset h"
    using bad by (auto simp: fragment_bad_def)
  then show le: "unat (fr_fragmentOffset h) + length p \<le> unat (fr_totalFieldBytes h)"
    unfolding n [symmetric] by (auto simp: word_le_nat_alt unat_sub)
  have total: "unat (fr_totalFieldBytes h) < 2 ^ LENGTH(64)"
    by (rule unsigned_less)
  from le have "unat (fr_fragmentOffset h + fr_fragmentBytes h) = unat (fr_fragmentOffset h) + length p"
    using total n by (simp add: unat_word_ariths)
  then show "lastField h \<longleftrightarrow> unat (fr_fragmentOffset h) + length p = unat (fr_totalFieldBytes h)"
    unfolding last word_unat_eq_iff by simp
qed (use assms in \<open>auto simp: good_piece_def fragment_bad_def not_less\<close>)

subsection \<open>The records of a stream\<close>

definition rec_bytes :: "LogicalRecord \<Rightarrow> bytes" where
  "rec_bytes r = (let p = concat (map field_bytes (lr_fields r))
     in bytes16 (lr_kind r) @ bytes16 1 @ bytes16 (lr_flags r) @ bytes16 (word_of_nat (length (lr_fields r))) @
        bytes64 (lr_id r) @ bytes64 (size64 p) @ p)"

definition stream_bytes :: "LogicalRecord list \<Rightarrow> bytes" where
  "stream_bytes recs = concat (map rec_bytes recs)"

definition field_values :: "Field list \<Rightarrow> bytes" where
  "field_values fs = concat (map fl_value fs)"

definition stream_values :: "LogicalRecord list \<Rightarrow> bytes" where
  "stream_values recs = concat (map (\<lambda>r. field_values (lr_fields r)) recs)"

text \<open>Records that the record encoder writes, numbered from 0.\<close>

definition proper_records :: "LogicalRecord list \<Rightarrow> bool" where
  "proper_records recs \<longleftrightarrow> (\<forall>r \<in> set recs. EncodeLogicalRecord r = Inr (rec_bytes r)) \<and>
    map lr_id recs = map word_of_nat [0..<length recs]"

text \<open>The fields of the current record that are complete, and the value of the one that is open.\<close>

definition fields_part :: "GraphFragmentContinuationV1 \<Rightarrow> Field list \<Rightarrow> bool" where
  "fields_part c fs \<longleftrightarrow> gc_currentRecordKind c \<le> 8 \<and> gc_logicalRecordFlags c AND NOT 1 = 0 \<and>
    length fs = unat (gc_currentFieldOrdinal c) \<and> length fs < unat (gc_logicalRecordFieldCount c) \<and>
    gc_currentRecordFieldBytes c = concat (map field_bytes fs) \<and> (\<forall>f \<in> set fs. field_ok f) \<and>
    sorted_wrt (<) (map fl_tag fs)"

definition open_field :: "GraphFragmentContinuationV1 \<Rightarrow> Field list \<Rightarrow> bool" where
  "open_field c fs \<longleftrightarrow> (\<forall>f \<in> set fs. fl_tag f < gc_currentFieldTag c) \<and> gc_currentFieldScalar c \<le> 17 \<and>
    length (gc_currentFieldValue c) = unat (gc_nextFieldFragmentOffset c)"

definition between_fields :: "GraphFragmentContinuationV1 \<Rightarrow> Field list \<Rightarrow> bool" where
  "between_fields c fs \<longleftrightarrow> (\<forall>f \<in> set fs. fl_tag f \<le> gc_currentFieldTag c) \<and> gc_currentFieldValue c = []"

definition record_part :: "GraphFragmentContinuationV1 \<Rightarrow> LogicalRecord list \<Rightarrow> Field list \<Rightarrow> bool" where
  "record_part c recs fs \<longleftrightarrow>
    (if gc_active c
     then gc_currentRecordId c = word_of_nat (length recs) \<and> fields_part c fs \<and>
       (if gc_expectFirstFieldMarker c then between_fields c fs else open_field c fs)
     else gc_nextRecordId c = word_of_nat (length recs) \<and> fs = [] \<and> gc_currentFieldValue c = [])"

definition hashed_part :: "GraphFragmentContinuationV1 \<Rightarrow> LogicalRecord list \<Rightarrow> bool" where
  "hashed_part c recs \<longleftrightarrow> proper_records recs \<and> length (stream_bytes recs) < 2 ^ 64 \<and>
    gc_completedRecordCount c = word_of_nat (length recs) \<and> gc_completedLogicalBytes c = size64 (stream_bytes recs) \<and>
    absorbs (gc_streamHash c) (kStreamDomain @ stream_bytes recs) \<and>
    sh_totalBytes (gc_streamHash c) = size64 (kStreamDomain @ stream_bytes recs) \<and>
    length (kStreamDomain @ stream_bytes recs) < 2 ^ 64"

definition received :: "GraphFragmentContinuationV1 \<Rightarrow> bytes \<Rightarrow> bool" where
  "received c vals \<longleftrightarrow> (\<exists>recs fs. hashed_part c recs \<and> record_part c recs fs \<and>
    vals = stream_values recs @ field_values fs @ gc_currentFieldValue c)"

subsection \<open>One piece\<close>

lemma hashed_part_cong:
  assumes "hashed_part c recs" "gc_completedRecordCount c' = gc_completedRecordCount c"
    "gc_completedLogicalBytes c' = gc_completedLogicalBytes c" "gc_streamHash c' = gc_streamHash c"
  shows "hashed_part c' recs"
  using assms by (simp add: hashed_part_def)

text \<open>Once a piece is begun, its field is open.\<close>

lemma start_piece_open:
  assumes "start_piece h c = Inr c'" "good_piece h p" "record_part c recs fs"
  shows "gc_currentRecordId c' = word_of_nat (length recs)" "fields_part c' fs" "open_field c' fs"
    "gc_currentFieldValue c' = gc_currentFieldValue c" "gc_active c'" "gc_totalFieldBytes c' = fr_totalFieldBytes h"
    "gc_completedRecordCount c' = gc_completedRecordCount c" "gc_completedLogicalBytes c' = gc_completedLogicalBytes c"
    "gc_streamHash c' = gc_streamHash c"
proof -
  note good = good_piece_facts [OF assms(2)]
  have count: "0 < unat (fr_logicalRecordFieldCount h)"
    using good(5) by (simp add: word_gt_0 unat_gt_0)
  consider (fresh) "\<not> gc_active c" | (nextf) "gc_active c" "gc_expectFirstFieldMarker c" | (further) "gc_active c" "\<not> gc_expectFirstFieldMarker c"
    by blast
  then have "gc_currentRecordId c' = word_of_nat (length recs) \<and> fields_part c' fs \<and> open_field c' fs \<and>
    gc_currentFieldValue c' = gc_currentFieldValue c \<and> gc_active c' \<and> gc_totalFieldBytes c' = fr_totalFieldBytes h \<and>
    gc_completedRecordCount c' = gc_completedRecordCount c \<and> gc_completedLogicalBytes c' = gc_completedLogicalBytes c \<and>
    gc_streamHash c' = gc_streamHash c"
  proof cases
    case fresh
    with assms(1,3) good count show ?thesis
      by (auto simp: start_piece_def start_field_def record_part_def fields_part_def open_field_def split: if_splits)
  next
    case nextf
    with assms(1,3) good show ?thesis
      by (auto simp: start_piece_def start_field_def record_part_def fields_part_def open_field_def between_fields_def
          not_le intro: order.strict_trans1 split: if_splits)
  next
    case further
    with assms(1,3) show ?thesis
      by (auto simp: start_piece_def record_part_def split: if_splits)
  qed
  then show "gc_currentRecordId c' = word_of_nat (length recs)" "fields_part c' fs" "open_field c' fs"
    "gc_currentFieldValue c' = gc_currentFieldValue c" "gc_active c'" "gc_totalFieldBytes c' = fr_totalFieldBytes h"
    "gc_completedRecordCount c' = gc_completedRecordCount c" "gc_completedLogicalBytes c' = gc_completedLogicalBytes c"
    "gc_streamHash c' = gc_streamHash c"
    by blast+
qed

lemma take_piece_open:
  assumes "take_piece h p c = Inr c'" "good_piece h p" "fields_part c fs" "open_field c fs" "gc_totalFieldBytes c = fr_totalFieldBytes h"
  shows "fields_part c' fs" "open_field c' fs" "gc_currentFieldValue c' = gc_currentFieldValue c @ p"
    "gc_totalFieldBytes c' = fr_totalFieldBytes h" "gc_currentRecordId c' = gc_currentRecordId c" "gc_active c' = gc_active c"
    "gc_completedRecordCount c' = gc_completedRecordCount c" "gc_completedLogicalBytes c' = gc_completedLogicalBytes c"
    "gc_streamHash c' = gc_streamHash c"
proof -
  note good = good_piece_facts [OF assms(2)]
  have offset: "gc_nextFieldFragmentOffset c = fr_fragmentOffset h"
    using assms(1) by (simp add: take_piece_def split: if_splits)
  have "unat (fr_totalFieldBytes h) < 2 ^ LENGTH(64)"
    by (rule unsigned_less)
  with good(6,7) have "unat (fr_fragmentOffset h + fr_fragmentBytes h) = unat (fr_fragmentOffset h) + length p"
    by (simp add: unat_word_ariths)
  with assms offset show "fields_part c' fs" "open_field c' fs" "gc_currentFieldValue c' = gc_currentFieldValue c @ p"
    "gc_totalFieldBytes c' = fr_totalFieldBytes h" "gc_currentRecordId c' = gc_currentRecordId c" "gc_active c' = gc_active c"
    "gc_completedRecordCount c' = gc_completedRecordCount c" "gc_completedLogicalBytes c' = gc_completedLogicalBytes c"
    "gc_streamHash c' = gc_streamHash c"
    by (auto simp: take_piece_def fields_part_def open_field_def split: if_splits)
qed

lemma word_bounds: "unat (w :: u16) < 2 ^ 16" "unat (x :: u64) < 2 ^ 64"
  using unsigned_less [of w] unsigned_less [of x] by simp_all

lemma closed_field:
  fixes tag flags t v n
  defines "f \<equiv> \<lparr>fl_tag = tag, fl_flags = flags, fl_scalar = t, fl_elementCount = n, fl_value = v\<rparr>"
  assumes "EncodeField tag flags t v n \<noteq> []" "length v < 2 ^ 64"
  shows "field_ok f" "EncodeField tag flags t v n = field_bytes f"
proof -
  show ok: "field_ok f"
    using assms(2,3) by (auto simp: f_def field_ok_def EncodeField_def EncodeCanonicalFieldHeaderV1_def split: if_splits)
  from encode_field_bytes [OF ok] show "EncodeField tag flags t v n = field_bytes f"
    by (simp add: encode_field_def f_def)
qed

text \<open>Two updates of the stream hash that are accepted.\<close>

lemma two_updates:
  assumes "Option.bind (UpdateGraphStreamHashV1 hash a) (\<lambda>hash. UpdateGraphStreamHashV1 hash b) = Some hash'"
    and "absorbs hash m" "sh_totalBytes hash = size64 m" "length m < 2 ^ 64"
  shows "absorbs hash' (m @ a @ b)" "sh_totalBytes hash' = size64 (m @ a @ b)" "length (m @ a @ b) < 2 ^ 64"
proof -
  note one = Update_accepted [OF assms(2-4), of a]
  have a: "length (m @ a) < 2 ^ 64" "UpdateGraphStreamHashV1 (UpdateStreamHash hash a) b = Some hash'"
    using assms(1) one by (simp_all split: if_splits)
  have mid: "absorbs (UpdateStreamHash hash a) (m @ a)" "sh_totalBytes (UpdateStreamHash hash a) = size64 (m @ a)"
    using Update_absorbs [OF assms(2)] assms(3) by (simp_all add: size64_def)
  have b: "length ((m @ a) @ b) < 2 ^ 64" "hash' = UpdateStreamHash (UpdateStreamHash hash a) b"
    using a(2) Update_accepted [OF mid a(1), of b] by (simp_all split: if_splits)
  show "absorbs hash' (m @ a @ b)" "sh_totalBytes hash' = size64 (m @ a @ b)" "length (m @ a @ b) < 2 ^ 64"
    using Update_absorbs [OF mid(1), of b] mid(2) b by (simp_all add: size64_def)
qed

lemma proper_records_snoc:
  assumes "proper_records recs" "lr_id r = word_of_nat (length recs)" "lr_flags r AND NOT 1 = 0" "length (lr_fields r) \<le> 65535"
    and "\<forall>f \<in> set (lr_fields r). field_ok f" "sorted_wrt (<) (map fl_tag (lr_fields r))"
  shows "proper_records (recs @ [r])"
proof -
  have "encode_fields None (lr_fields r) = Inr (concat (map field_bytes (lr_fields r)))"
    using assms(5,6) by (simp add: encode_fields_Inr ascending_sorted field_ok_codec)
  then have "EncodeLogicalRecord r = Inr (rec_bytes r)"
    using assms(3,4) by (simp add: EncodeLogicalRecord_def rec_bytes_def Let_def)
  with assms(1,2) show ?thesis
    by (simp add: proper_records_def)
qed

lemma end_record_hashed:
  assumes "end_record c = Inr c'" "hashed_part c recs" "gc_currentRecordId c = word_of_nat (length recs)"
    and "gc_logicalRecordFlags c AND NOT 1 = 0" "length gs = unat (gc_currentFieldOrdinal c) + 1"
    and "gc_currentRecordFieldBytes c = concat (map field_bytes gs)" "\<forall>f \<in> set gs. field_ok f" "sorted_wrt (<) (map fl_tag gs)"
  defines "r \<equiv> \<lparr>lr_kind = gc_currentRecordKind c, lr_flags = gc_logicalRecordFlags c, lr_id = gc_currentRecordId c, lr_fields = gs\<rparr>"
  shows "hashed_part c' (recs @ [r])" "record_part c' (recs @ [r]) []" "gc_currentFieldValue c' = []"
proof -
  let ?p = "concat (map field_bytes gs)" and ?count = "gc_logicalRecordFieldCount c"
  let ?header = "bytes16 (gc_currentRecordKind c) @ bytes16 1 @ bytes16 (gc_logicalRecordFlags c) @ bytes16 ?count @
    bytes64 (gc_currentRecordId c) @ bytes64 (size64 ?p)"
  have count: "unat ?count = length gs" "?count \<noteq> 0"
    using assms(1,5) by (auto simp: end_record_def split: if_splits)
  then have word_count: "word_of_nat (length gs) = ?count"
    unfolding count(1) [symmetric] by simp
  have encode: "EncodeCanonicalRecordHeaderV1 (gc_currentRecordKind c) (gc_logicalRecordFlags c) ?count (gc_currentRecordId c) (size64 ?p) = Some ?header"
    using count(2) by (simp add: EncodeCanonicalRecordHeaderV1_def)
  have bytes: "rec_bytes r = ?header @ ?p"
    by (simp add: rec_bytes_def r_def Let_def word_count)
  have completed: "gc_completedLogicalBytes c = size64 (stream_bytes recs)" "length (stream_bytes recs) < 2 ^ 64"
    using assms(2) by (simp_all add: hashed_part_def)
  obtain hash where room: "\<not> unat (gc_completedLogicalBytes c) + 24 > unat kMaximumTotalBytes - length ?p"
    and hash: "Option.bind (UpdateGraphStreamHashV1 (gc_streamHash c) ?header) (\<lambda>hash. UpdateGraphStreamHashV1 hash ?p) = Some hash"
    and c': "c' = c\<lparr>gc_streamHash := hash, gc_completedLogicalBytes := gc_completedLogicalBytes c + (size64 ?header + size64 ?p),
      gc_completedRecordCount := gc_completedRecordCount c + 1, gc_active := False, gc_nextRecordId := gc_currentRecordId c + 1,
      gc_expectFirstRecordMarker := True, gc_expectFirstFieldMarker := True, gc_currentFieldValue := [],
      gc_currentRecordFieldBytes := []\<rparr>"
    using assms(1) unfolding end_record_def assms(6) encode by (auto split: if_splits option.splits)
  have m: "stream_bytes (recs @ [r]) = stream_bytes recs @ ?header @ ?p"
    by (simp add: stream_bytes_def bytes)
  have H: "absorbs hash ((kStreamDomain @ stream_bytes recs) @ ?header @ ?p)"
    "sh_totalBytes hash = size64 ((kStreamDomain @ stream_bytes recs) @ ?header @ ?p)"
    "length ((kStreamDomain @ stream_bytes recs) @ ?header @ ?p) < 2 ^ 64"
    by (rule two_updates [OF hash]; use assms(2) in \<open>simp add: hashed_part_def\<close>)+
  have "proper_records (recs @ [r])"
    using assms(2-4,7,8) word_bounds(1) [of ?count] count(1)
    by (intro proper_records_snoc) (simp_all add: hashed_part_def r_def)
  then show "hashed_part c' (recs @ [r])"
    unfolding hashed_part_def m using H completed assms(2)
    by (auto simp: c' hashed_part_def size64_def)
  show "record_part c' (recs @ [r]) []" "gc_currentFieldValue c' = []"
    using assms(3) by (simp_all add: c' record_part_def)
qed

lemma end_field_received:
  assumes "end_field h c = Inr c'" "good_piece h p" "hashed_part c recs" "gc_currentRecordId c = word_of_nat (length recs)"
    and "fields_part c fs" "open_field c fs" "gc_active c"
  shows "\<exists>recs' fs'. hashed_part c' recs' \<and> record_part c' recs' fs' \<and>
    stream_values recs' @ field_values fs' @ gc_currentFieldValue c' = stream_values recs @ field_values fs @ gc_currentFieldValue c"
proof (cases "lastField h")
  case False
  then have c': "c' = c\<lparr>gc_expectFirstFieldMarker := False, gc_expectFirstRecordMarker := False\<rparr>"
    using assms(1) by (simp add: end_field_def split: if_splits)
  have "hashed_part c' recs"
    by (rule hashed_part_cong [OF assms(3)]) (simp_all add: c')
  moreover have "record_part c' recs fs"
    using assms(4-7) by (simp add: c' record_part_def fields_part_def open_field_def)
  ultimately show ?thesis
    by (auto simp: c')
next
  case True
  let ?f = "\<lparr>fl_tag = gc_currentFieldTag c, fl_flags = gc_currentFieldFlags c, fl_scalar = scalar_of (gc_currentFieldScalar c),
    fl_elementCount = gc_currentElementCount c, fl_value = gc_currentFieldValue c\<rparr>"
  let ?encoded = "EncodeField (gc_currentFieldTag c) (gc_currentFieldFlags c) (scalar_of (gc_currentFieldScalar c))
    (gc_currentFieldValue c) (gc_currentElementCount c)"
  let ?c = "c\<lparr>gc_currentRecordFieldBytes := gc_currentRecordFieldBytes c @ ?encoded\<rparr>"
  have encoded: "?encoded \<noteq> []"
    using assms(1) True by (auto simp: end_field_def Let_def split: if_splits)
  have "length (gc_currentFieldValue c) < 2 ^ 64"
    using assms(6) word_bounds(2) [of "gc_nextFieldFragmentOffset c"] by (simp add: open_field_def)
  from closed_field [OF encoded this] have f: "field_ok ?f" "?encoded = field_bytes ?f"
    by simp_all
  have gs: "gc_currentRecordFieldBytes ?c = concat (map field_bytes (fs @ [?f]))" "\<forall>g \<in> set (fs @ [?f]). field_ok g"
    "sorted_wrt (<) (map fl_tag (fs @ [?f]))" "length (fs @ [?f]) = unat (gc_currentFieldOrdinal c) + 1"
    using assms(5,6) f by (simp_all add: fields_part_def open_field_def sorted_wrt_append)
  have hashed: "hashed_part ?c recs"
    by (rule hashed_part_cong [OF assms(3)]) simp_all
  show ?thesis
  proof (cases "lastRecord h")
    case final: True
    then have "end_record ?c = Inr c'"
      using assms(1) True by (auto simp: end_field_def Let_def split: if_splits)
    note E = end_record_hashed [OF this hashed _ _ _ gs(1-3)]
    let ?r = "\<lparr>lr_kind = gc_currentRecordKind ?c, lr_flags = gc_logicalRecordFlags ?c, lr_id = gc_currentRecordId ?c, lr_fields = fs @ [?f]\<rparr>"
    have "hashed_part c' (recs @ [?r])" "record_part c' (recs @ [?r]) []" "gc_currentFieldValue c' = []"
      by (rule E; use assms(4,5) gs(4) in \<open>simp add: fields_part_def\<close>)+
    then show ?thesis
      by (intro exI [of _ "recs @ [?r]"] exI [of _ "[]"]) (simp add: stream_values_def field_values_def)
  next
    case inner: False
    then have room: "unat (gc_currentFieldOrdinal c) + 1 < unat (gc_logicalRecordFieldCount c)"
      and c': "c' = ?c\<lparr>gc_currentFieldOrdinal := gc_currentFieldOrdinal c + 1, gc_expectFirstFieldMarker := True,
        gc_expectFirstRecordMarker := False, gc_currentFieldValue := []\<rparr>"
      using assms(1) True by (auto simp: end_field_def Let_def split: if_splits)
    have "unat (gc_currentFieldOrdinal c + 1) = unat (gc_currentFieldOrdinal c) + 1"
      using room word_bounds(1) [of "gc_logicalRecordFieldCount c"] by (simp add: unat_word_ariths)
    then have "fields_part c' (fs @ [?f])"
      using assms(5) gs room by (simp add: c' fields_part_def)
    moreover have "between_fields c' (fs @ [?f])"
      using assms(6) by (auto simp: c' between_fields_def open_field_def intro: less_imp_le)
    ultimately have "record_part c' recs (fs @ [?f])"
      using assms(4,7) by (simp add: c' record_part_def)
    moreover have "hashed_part c' recs"
      by (rule hashed_part_cong [OF hashed]) (simp_all add: c')
    ultimately show ?thesis
      by (intro exI [of _ recs] exI [of _ "fs @ [?f]"]) (simp add: c' field_values_def)
  qed
qed

lemma expect_markers_part: "record_part (expect_markers c) recs fs = record_part c recs fs"
  by (simp add: expect_markers_def Let_def record_part_def fields_part_def open_field_def between_fields_def)

lemma accept_piece_received:
  assumes "accept_piece h p c = Inr c'" "good_piece h p" "received c vals"
  shows "received c' (vals @ p)"
proof -
  obtain recs fs where R: "hashed_part c recs" "record_part c recs fs"
    "vals = stream_values recs @ field_values fs @ gc_currentFieldValue c"
    using assms(3) by (auto simp: received_def)
  obtain c1 c2 c3 where steps: "start_piece h c = Inr c1" "take_piece h p c1 = Inr c2" "end_field h c2 = Inr c3"
    and c': "c' = expect_markers c3"
    using assms(1) by (auto simp: accept_piece_def bindE_Inr_iff)
  note S = start_piece_open [OF steps(1) assms(2) R(2)]
  note T = take_piece_open [OF steps(2) assms(2) S(2,3,6)]
  have "hashed_part c2 recs"
    by (rule hashed_part_cong [OF R(1)]) (simp_all add: S T)
  from end_field_received [OF steps(3) assms(2) this _ T(1,2)] S T
  obtain recs' fs' where E: "hashed_part c3 recs'" "record_part c3 recs' fs'"
    "stream_values recs' @ field_values fs' @ gc_currentFieldValue c3 = stream_values recs @ field_values fs @ gc_currentFieldValue c2"
    by auto
  have "hashed_part c' recs'"
    by (rule hashed_part_cong [OF E(1)]) (simp_all add: c' expect_markers_def Let_def)
  moreover have "record_part c' recs' fs'"
    using E(2) unfolding c' expect_markers_part .
  moreover have "vals @ p = stream_values recs' @ field_values fs' @ gc_currentFieldValue c'"
    unfolding R(3) using E(3) S(4) T(3) by (simp add: c' expect_markers_def Let_def)
  ultimately show ?thesis
    unfolding received_def by blast
qed

lemma accept_list_received:
  "accept_list ps c = Inr c' \<Longrightarrow> \<forall>(h, p) \<in> set ps. good_piece h p \<Longrightarrow> received c vals \<Longrightarrow>
    received c' (vals @ concat (map snd ps))"
proof (induction ps c arbitrary: vals rule: accept_list.induct)
  case (2 h p ps c)
  then obtain c1 where "accept_piece h p c = Inr c1" "accept_list ps c1 = Inr c'"
    by (auto simp: bindE_Inr_iff)
  with 2 accept_piece_received [of h p c c1 vals] show ?case
    by (metis (no_types, lifting) append_assoc case_prodD concat.simps(2) list.set_intros list.simps(9) snd_conv)
qed simp

subsection \<open>A stream of frames\<close>

text \<open>The bytes of field values that a frame carries.\<close>

definition frame_values :: "(bytes \<Rightarrow> Sha256) \<Rightarrow> bytes \<Rightarrow> bytes" where
  "frame_values sha frame =
    (case DecodeFrame sha frame of
       Inl _ \<Rightarrow> []
     | Inr (h, p) \<Rightarrow> if fh_message h = MK_GraphChunk then concat (map snd (payload_pieces p)) else [])"

text \<open>A reader fed with frames, refused ones left out: the frames it took in, and where it stands. A frame
  that comes again is answered from the cache.\<close>

inductive stream_run :: "(bytes \<Rightarrow> Sha256) \<Rightarrow> bytes list \<Rightarrow> GraphFragmentContinuationV1 \<Rightarrow> bool" for sha where
  stream_start: "stream_run sha [] new_continuation"
| stream_accept: "stream_run sha frames c \<Longrightarrow> fst (AcceptGraphResponseFrame sha frame budget c) = Inr c' \<Longrightarrow>
    gc_cachedFrame c \<noteq> frame \<Longrightarrow> stream_run sha (frames @ [frame]) c'"
| stream_again: "stream_run sha frames c \<Longrightarrow> fst (AcceptGraphResponseFrame sha frame budget c) = Inr c' \<Longrightarrow>
    gc_cachedFrame c = frame \<Longrightarrow> stream_run sha frames c'"

lemma accepted_again:
  assumes "fst (AcceptGraphResponseFrame sha frame budget c) = Inr c'" "gc_cachedFrame c = frame"
  shows "c' = c"
proof -
  have "frame \<noteq> []"
  proof
    assume "frame = []"
    then have "DecodeFrame sha frame = Inl EC_BadHeader"
      by (simp add: DecodeFrame_def kHeaderBytes_def)
    then show False
      using assms \<open>frame = []\<close> by (simp add: AcceptGraphResponseFrame_def split: if_splits)
  qed
  then show ?thesis
    using assms by (simp add: AcceptGraphResponseFrame_def split: if_splits)
qed

lemma accepted_new:
  assumes "fst (AcceptGraphResponseFrame sha frame budget c) = Inr c'" "gc_cachedFrame c \<noteq> frame"
  obtains h p where "DecodeFrame sha frame = Inr (h, p)" "accept_frame h p frame c = Inr c'"
  using assms that by (auto simp: AcceptGraphResponseFrame_def bindE_Inr_iff split: if_splits)

lemma accept_frame_Inr:
  assumes "accept_frame h p frame c = Inr c'"
  obtains v b m where "\<not> gc_terminal c" "fh_sequence h = gc_nextResponseSequence c" "fh_previousChain h = gc_previousChain c"
    "SerializeGraphVersion (header_version h) = Inr v" "bind_identity h v c = Inr b"
    "accept_message h p (gc_identityBound c) b = Inr m"
    "c' = m\<lparr>gc_nextResponseSequence := gc_nextResponseSequence m + 1, gc_previousChain := fh_chainDigest h, gc_cachedFrame := frame\<rparr>"
  using assms that by (auto simp: accept_frame_def bindE_Inr_iff EqualHash_def split: if_splits sum.splits)

subsection \<open>What the reader has when the stream ends\<close>

definition unbound :: "GraphFragmentContinuationV1 \<Rightarrow> bool" where
  "unbound c \<longleftrightarrow> \<not> gc_active c \<and> gc_nextRecordId c = 0 \<and> gc_currentFieldValue c = [] \<and> gc_completedRecordCount c = 0 \<and>
    gc_completedLogicalBytes c = 0"

definition stream_inv :: "GraphFragmentContinuationV1 \<Rightarrow> bytes \<Rightarrow> bool" where
  "stream_inv c vals \<longleftrightarrow> (if gc_identityBound c then received c vals else unbound c \<and> vals = [])"

lemma bind_received:
  assumes "bind_identity h v c = Inr b" "stream_inv c vals"
  shows "received b vals" "gc_identityBound b" "gc_terminal b = gc_terminal c"
proof -
  have "length kStreamDomain < 2 ^ 64"
    by (simp add: kStreamDomain_def ascii_def)
  then have "received (c\<lparr>gc_identityBound := True, gc_boundCursor := u, gc_boundVersion := v, gc_streamHash := InitializeGraphStreamHashV1\<rparr>) []"
    if "unbound c" for u
    using that Initialize_absorbs unfolding received_def
    by (intro exI [of _ "[]"]) (simp add: hashed_part_def record_part_def unbound_def proper_records_def stream_bytes_def
        stream_values_def field_values_def InitializeGraphStreamHashV1_def size64_def)
  then show "received b vals" "gc_identityBound b" "gc_terminal b = gc_terminal c"
    using assms by (auto simp: bind_identity_def stream_inv_def split: if_splits)
qed

lemma frame_part:
  "hashed_part (c\<lparr>gc_nextResponseSequence := s, gc_previousChain := d, gc_cachedFrame := f\<rparr>) recs = hashed_part c recs"
  "record_part (c\<lparr>gc_nextResponseSequence := s, gc_previousChain := d, gc_cachedFrame := f\<rparr>) recs fs = record_part c recs fs"
  "hashed_part (c\<lparr>gc_terminal := t\<rparr>) recs = hashed_part c recs"
  "record_part (c\<lparr>gc_terminal := t\<rparr>) recs fs = record_part c recs fs"
  by (simp_all add: hashed_part_def record_part_def fields_part_def open_field_def between_fields_def)

lemma received_cong:
  "received (c\<lparr>gc_nextResponseSequence := s, gc_previousChain := d, gc_cachedFrame := f\<rparr>) vals = received c vals"
  "received (c\<lparr>gc_terminal := t\<rparr>) vals = received c vals"
  unfolding received_def frame_part by simp_all

text \<open>What an accepted terminal frame says of the records.\<close>

definition terminal_says :: "(bytes \<Rightarrow> Sha256) \<Rightarrow> bytes \<Rightarrow> LogicalRecord list \<Rightarrow> bool" where
  "terminal_says sha frame recs \<longleftrightarrow>
    (\<exists>h p fs. DecodeFrame sha frame = Inr (h, p) \<and> fh_message h = MK_GraphTerminal \<and> ParseFields p = Some fs \<and>
       FieldU64Equals (Find_field fs 1) (word_of_nat (length recs)) \<and>
       FieldU64Equals (Find_field fs 2) (size64 (stream_bytes recs)) \<and>
       the_value (Find_field fs 3) = SHA_256 (kStreamDomain @ stream_bytes recs))"

lemma accept_terminal_says:
  assumes "accept_terminal h p c = Inr c'" "received c vals" "DecodeFrame sha frame = Inr (h, p)" "fh_message h = MK_GraphTerminal"
  shows "c' = c\<lparr>gc_terminal := True\<rparr>"
    "\<exists>recs. proper_records recs \<and> vals = stream_values recs \<and> length (stream_bytes recs) < 2 ^ 64 \<and> terminal_says sha frame recs"
proof -
  obtain recs fs where R: "hashed_part c recs" "record_part c recs fs" "vals = stream_values recs @ field_values fs @ gc_currentFieldValue c"
    using assms(2) by (auto simp: received_def)
  have T: "\<not> gc_active c" "c' = c\<lparr>gc_terminal := True\<rparr>"
    using assms(1) by (auto simp: accept_terminal_def split: if_splits option.splits)
  then show "c' = c\<lparr>gc_terminal := True\<rparr>" by simp
  have "FinalizeGraphStreamHashV1 (gc_streamHash c) = Some (SHA_256 (kStreamDomain @ stream_bytes recs))"
    using R(1) Finalize_absorbs by (auto simp: hashed_part_def FinalizeGraphStreamHashV1_def absorbs_def)
  then have "terminal_says sha frame recs"
    using assms(1,3,4) R(1)
    by (auto simp: accept_terminal_def terminal_says_def hashed_part_def split: if_splits option.splits)
  moreover have "vals = stream_values recs"
    using R(2,3) T(1) by (simp add: record_part_def field_values_def)
  ultimately show "\<exists>recs. proper_records recs \<and> vals = stream_values recs \<and> length (stream_bytes recs) < 2 ^ 64 \<and> terminal_says sha frame recs"
    using R(1) by (auto simp: hashed_part_def)
qed

lemma accept_piece_kept:
  "accept_piece h p c = Inr c' \<Longrightarrow> gc_terminal c' = gc_terminal c \<and> gc_identityBound c' = gc_identityBound c \<and>
     gc_boundCursor c' = gc_boundCursor c \<and> gc_boundVersion c' = gc_boundVersion c \<and>
     gc_nextResponseSequence c' = gc_nextResponseSequence c"
  by (auto simp: accept_piece_def bindE_Inr_iff start_piece_def take_piece_def end_field_def end_record_def Let_def
      start_field_def expect_markers_def split: if_splits option.splits)

lemma accept_list_kept:
  "accept_list ps c = Inr c' \<Longrightarrow> gc_terminal c' = gc_terminal c \<and> gc_identityBound c' = gc_identityBound c \<and>
     gc_boundCursor c' = gc_boundCursor c \<and> gc_boundVersion c' = gc_boundVersion c \<and>
     gc_nextResponseSequence c' = gc_nextResponseSequence c"
proof (induction ps c rule: accept_list.induct)
  case (2 h p ps c)
  then show ?case
    using accept_piece_kept by (fastforce simp: bindE_Inr_iff)
qed simp

lemma accept_message_kept:
  "accept_message h p w c = Inr c' \<Longrightarrow> gc_identityBound c' = gc_identityBound c \<and>
     gc_boundCursor c' = gc_boundCursor c \<and> gc_boundVersion c' = gc_boundVersion c \<and>
     gc_nextResponseSequence c' = gc_nextResponseSequence c"
  by (auto simp: accept_message_def accept_terminal_def accept_chunk_def accept_pieces_list bindE_Inr_iff
      dest!: accept_list_kept split: if_splits option.splits)

lemma accept_message_inv:
  assumes "accept_message h p w c = Inr c'" "received c vals" "\<not> gc_terminal c" "DecodeFrame sha frame = Inr (h, p)"
  shows "received c' (vals @ frame_values sha frame)" "fh_message h \<in> {MK_OpenReceipt, MK_GraphTerminal, MK_GraphChunk}"
    "gc_terminal c' \<longleftrightarrow> fh_message h = MK_GraphTerminal"
    "gc_terminal c' \<longrightarrow> (\<exists>recs. proper_records recs \<and> vals @ frame_values sha frame = stream_values recs \<and>
       length (stream_bytes recs) < 2 ^ 64 \<and> terminal_says sha frame recs)"
proof -
  have shape: "ValidatePayloadShape h p"
    using assms(4) by (auto simp: DecodeFrame_def Let_def split: if_splits option.splits)
  consider (receipt) "fh_message h = MK_OpenReceipt" "c' = c"
    | (terminal) "fh_message h = MK_GraphTerminal" "accept_terminal h p c = Inr c'"
    | (chunk) "fh_message h = MK_GraphChunk" "accept_chunk h p c = Inr c'"
    using assms(1) by (auto simp: accept_message_def split: if_splits)
  then have "received c' (vals @ frame_values sha frame) \<and> fh_message h \<in> {MK_OpenReceipt, MK_GraphTerminal, MK_GraphChunk} \<and>
    (gc_terminal c' \<longleftrightarrow> fh_message h = MK_GraphTerminal) \<and>
    (gc_terminal c' \<longrightarrow> (\<exists>recs. proper_records recs \<and> vals @ frame_values sha frame = stream_values recs \<and>
       length (stream_bytes recs) < 2 ^ 64 \<and> terminal_says sha frame recs))"
  proof cases
    case receipt
    with assms(2-4) show ?thesis
      by (simp add: frame_values_def)
  next
    case terminal
    from accept_terminal_says [OF this(2) assms(2,4) this(1)] assms(2) terminal(1) show ?thesis
      by (auto simp: frame_values_def assms(4) received_cong)
  next
    case chunk
    then have "accept_list (payload_pieces p) c = Inr c'"
      by (auto simp: accept_chunk_def bindE_Inr_iff accept_pieces_list split: if_splits)
    with accept_list_received [OF this chunk_pieces_good [OF shape chunk(1)] assms(2)] accept_list_kept [OF this]
    show ?thesis
      using assms(3) chunk(1) by (simp add: frame_values_def assms(4))
  qed
  then show "received c' (vals @ frame_values sha frame)" "fh_message h \<in> {MK_OpenReceipt, MK_GraphTerminal, MK_GraphChunk}"
    "gc_terminal c' \<longleftrightarrow> fh_message h = MK_GraphTerminal"
    "gc_terminal c' \<longrightarrow> (\<exists>recs. proper_records recs \<and> vals @ frame_values sha frame = stream_values recs \<and>
       length (stream_bytes recs) < 2 ^ 64 \<and> terminal_says sha frame recs)"
    by blast+
qed

definition stream_values_of :: "(bytes \<Rightarrow> Sha256) \<Rightarrow> bytes list \<Rightarrow> bytes" where
  "stream_values_of sha frames = concat (map (frame_values sha) frames)"

lemma stream_run_inv:
  "stream_run sha frames c \<Longrightarrow> stream_inv c (stream_values_of sha frames) \<and>
     (gc_terminal c \<longrightarrow> frames \<noteq> [] \<and> (\<exists>recs. proper_records recs \<and> stream_values_of sha frames = stream_values recs \<and>
        length (stream_bytes recs) < 2 ^ 64 \<and> terminal_says sha (last frames) recs))"
proof (induction rule: stream_run.induct)
  case stream_start
  show ?case
    by (simp add: stream_inv_def unbound_def new_continuation_def stream_values_of_def)
next
  case (stream_accept frames c frame budget c')
  obtain h p where dec: "DecodeFrame sha frame = Inr (h, p)" and acc: "accept_frame h p frame c = Inr c'"
    by (rule accepted_new [OF stream_accept.hyps(2,3)])
  obtain v b m where F: "\<not> gc_terminal c" "bind_identity h v c = Inr b" "accept_message h p (gc_identityBound c) b = Inr m"
    and c': "c' = m\<lparr>gc_nextResponseSequence := gc_nextResponseSequence m + 1, gc_previousChain := fh_chainDigest h, gc_cachedFrame := frame\<rparr>"
    by (rule accept_frame_Inr [OF acc])
  from stream_accept.IH have "stream_inv c (stream_values_of sha frames)" ..
  note B = bind_received [OF F(2) this]
  from F(1) B(3) have "\<not> gc_terminal b" by simp
  note M = accept_message_inv [OF F(3) B(1) this dec]
  have "gc_identityBound m"
    using accept_message_kept [OF F(3)] B(2) by simp
  with M(1,4) show ?case
    by (simp add: c' stream_inv_def received_cong stream_values_of_def)
next
  case (stream_again frames c frame budget c')
  with accepted_again [OF stream_again.hyps(2,3)] show ?case by simp
qed

text \<open>Claim C36. A reader that has accepted the terminal frame of a stream has the whole stream: the bytes
  that came in are the values of the fields, in their order, of records that the record encoder writes,
  numbered from 0; the terminal frame names their number, the length of their encodings and the SHA-256
  of the encodings.\<close>

theorem stream_complete:
  assumes "stream_run sha frames c" "gc_terminal c"
  shows "frames \<noteq> [] \<and> (\<exists>recs. proper_records recs \<and> stream_values_of sha frames = stream_values recs \<and>
    length (stream_bytes recs) < 2 ^ 64 \<and> terminal_says sha (last frames) recs)"
  using stream_run_inv [OF assms(1)] assms(2) by blast

subsection \<open>The order of the frames\<close>

definition frame_header :: "(bytes \<Rightarrow> Sha256) \<Rightarrow> bytes \<Rightarrow> Header" where
  "frame_header sha frame = fst (projr (DecodeFrame sha frame))"

definition in_place :: "(bytes \<Rightarrow> Sha256) \<Rightarrow> bytes list \<Rightarrow> GraphFragmentContinuationV1 \<Rightarrow> nat \<Rightarrow> bool" where
  "in_place sha frames c i \<longleftrightarrow>
    (let h = frame_header sha (frames ! i)
     in \<not> isl (DecodeFrame sha (frames ! i)) \<and> fh_sequence h = word_of_nat i \<and>
        fh_previousChain h = (if i = 0 then zero_digest else fh_chainDigest (frame_header sha (frames ! (i - 1)))) \<and>
        fh_cursorOrUpload h = gc_boundCursor c \<and> SerializeGraphVersion (header_version h) = Inr (gc_boundVersion c) \<and>
        fh_message h \<in> {MK_OpenReceipt, MK_GraphTerminal, MK_GraphChunk} \<and> (fh_message h = MK_OpenReceipt \<longrightarrow> i = 0) \<and>
        (fh_message h = MK_GraphTerminal \<longleftrightarrow> gc_terminal c \<and> Suc i = length frames))"

lemma bind_identity_Inr:
  assumes "bind_identity h v c = Inr b"
  shows "gc_boundCursor b = fh_cursorOrUpload h" "gc_boundVersion b = v" "gc_identityBound b"
    "gc_identityBound c \<Longrightarrow> b = c" "gc_nextResponseSequence b = gc_nextResponseSequence c" "gc_terminal b = gc_terminal c"
  using assms by (auto simp: bind_identity_def split: if_splits)

lemma accept_message_kind:
  assumes "accept_message h p w c = Inr c'" "\<not> gc_terminal c"
  shows "fh_message h \<in> {MK_OpenReceipt, MK_GraphTerminal, MK_GraphChunk}" "fh_message h = MK_OpenReceipt \<longrightarrow> \<not> w"
    "gc_terminal c' \<longleftrightarrow> fh_message h = MK_GraphTerminal"
  using assms by (auto simp: accept_message_def accept_terminal_def accept_chunk_def accept_pieces_list bindE_Inr_iff
      dest!: accept_list_kept split: if_splits option.splits)

lemma stream_run_order:
  "stream_run sha frames c \<Longrightarrow> (\<forall>i < length frames. in_place sha frames c i) \<and>
     gc_nextResponseSequence c = word_of_nat (length frames) \<and> (gc_identityBound c \<longleftrightarrow> frames \<noteq> []) \<and>
     gc_previousChain c = (if frames = [] then zero_digest else fh_chainDigest (frame_header sha (last frames))) \<and>
     gc_cachedFrame c = (if frames = [] then [] else last frames) \<and> (frames = [] \<longrightarrow> \<not> gc_terminal c)"
proof (induction rule: stream_run.induct)
  case stream_start
  show ?case by (simp add: new_continuation_def)
next
  case (stream_accept frames c frame budget c')
  obtain h p where dec: "DecodeFrame sha frame = Inr (h, p)" and acc: "accept_frame h p frame c = Inr c'"
    by (rule accepted_new [OF stream_accept.hyps(2,3)])
  obtain v b m where F: "\<not> gc_terminal c" "fh_sequence h = gc_nextResponseSequence c" "fh_previousChain h = gc_previousChain c"
    "SerializeGraphVersion (header_version h) = Inr v" "bind_identity h v c = Inr b" "accept_message h p (gc_identityBound c) b = Inr m"
    and c': "c' = m\<lparr>gc_nextResponseSequence := gc_nextResponseSequence m + 1, gc_previousChain := fh_chainDigest h, gc_cachedFrame := frame\<rparr>"
    by (rule accept_frame_Inr [OF acc])
  note B = bind_identity_Inr [OF F(5)] and K = accept_message_kept [OF F(6)]
  from F(1) B(6) have "\<not> gc_terminal b" by simp
  note M = accept_message_kind [OF F(6) this]
  have h: "frame_header sha frame = h"
    by (simp add: frame_header_def dec)
  have new: "in_place sha (frames @ [frame]) c' (length frames)"
    using stream_accept.IH F(2-4) B K M
    by (auto simp: in_place_def Let_def h dec c' nth_append last_conv_nth)
  have old: "in_place sha (frames @ [frame]) c' i" if "i < length frames" for i
  proof -
    have "in_place sha frames c i" "gc_identityBound c"
      using that stream_accept.IH by auto
    moreover from this(2) have "gc_boundCursor c' = gc_boundCursor c" "gc_boundVersion c' = gc_boundVersion c"
      using B(4) K by (simp_all add: c')
    ultimately show ?thesis
      using that F(1) by (auto simp: in_place_def Let_def nth_append)
  qed
  have "\<forall>i < length (frames @ [frame]). in_place sha (frames @ [frame]) c' i"
    using new old by (simp add: less_Suc_eq all_conj_distrib)
  moreover have "gc_nextResponseSequence c' = word_of_nat (length (frames @ [frame]))"
    using stream_accept.IH B(5) K by (simp add: c')
  ultimately show ?case
    using B(3) K h by (simp add: c')
next
  case (stream_again frames c frame budget c')
  with accepted_again [OF stream_again.hyps(2,3)] show ?case by simp
qed

text \<open>Claim C37. The frames a reader takes in are one conversation in its order: they carry the sequence numbers
  0, 1, 2 and so on, each names the chain digest of the one before, all have the cursor and the graph
  version of the first, only the first can open the stream, and the terminal one is the last. After it
  every frame but its repetition is refused.\<close>

theorem stream_in_order:
  assumes "stream_run sha frames c"
  shows "(\<forall>i < length frames. in_place sha frames c i) \<and>
    (gc_terminal c \<longrightarrow> (\<forall>frame budget. frame \<noteq> last frames \<longrightarrow> isl (fst (AcceptGraphResponseFrame sha frame budget c))))"
proof (intro conjI impI allI)
  note order = stream_run_order [OF assms]
  then show "in_place sha frames c i" if "i < length frames" for i
    using that by blast
  fix frame budget
  assume "gc_terminal c" "frame \<noteq> last frames"
  moreover from this(1) order have "gc_cachedFrame c = last frames" by auto
  ultimately show "isl (fst (AcceptGraphResponseFrame sha frame budget c))"
    using accepted_new [of sha frame budget c] accept_frame_Inr [of _ _ frame c]
    by (metis isl_def sum.exhaust_sel)
qed

subsection \<open>A stream of no records\<close>

lemma stream_hash_start: "FinalizeGraphStreamHashV1 InitializeGraphStreamHashV1 = Some (SHA_256 kStreamDomain)"
  using Initialize_absorbs Finalize_absorbs
  by (auto simp: FinalizeGraphStreamHashV1_def InitializeGraphStreamHashV1_def absorbs_def)

definition empty_terminal :: Header where
  "empty_terminal = the (ApplyVersionToHeader sample_version
     (empty_header\<lparr>fh_message := MK_GraphTerminal, fh_flags := kFlagTerminal, fh_cursorOrUpload := sample_uuid\<rparr>))"

definition terminal_fields :: "Field list" where
  "terminal_fields = [req_field 1 ST_Uint64 (bytes64 0), req_field 2 ST_Uint64 (bytes64 0),
     req_field 3 ST_SHA256 (SHA_256 kStreamDomain)]"

lemma length_SHA_256 [simp]: "length (SHA_256 m) = 32"
  unfolding SHA_256_def
  by (cases "fips_blocks fips_start (fips_pad m)" rule: hash_vars_cases) (simp add: word_bytes_def)

lemma empty_terminal_facts:
  "fh_message empty_terminal = MK_GraphTerminal" "fh_flags empty_terminal = 34" "fh_payloadBytes empty_terminal = 0"
  "fh_sequence empty_terminal = 0" "fh_fragmentOffset empty_terminal = 0" "fh_fragmentTotal empty_terminal = 0"
  "fh_previousChain empty_terminal = zero_digest" "header_shape empty_terminal" "FullVersionShape empty_terminal"
  "FullVersionHeader empty_terminal" "\<not> Zero (fh_cursorOrUpload empty_terminal)" "fh_cursorOrUpload empty_terminal = sample_uuid"
  by code_simp+

lemma terminal_fields_facts:
  "ParseFields (concat (map field_bytes terminal_fields)) = Some terminal_fields"
  "Find_field terminal_fields 1 = Some (req_field 1 ST_Uint64 (bytes64 0))"
  "Find_field terminal_fields 2 = Some (req_field 2 ST_Uint64 (bytes64 0))"
  "Find_field terminal_fields 3 = Some (req_field 3 ST_SHA256 (SHA_256 kStreamDomain))"
  "Protocol_ExactTags terminal_fields [1, 2, 3] []"
proof -
  have ok: "\<forall>f \<in> set terminal_fields. field_ok f"
    by (auto simp: terminal_fields_def FixedScalarBytes_def intro!: field_ok_req canonical_fixed)
  show "ParseFields (concat (map field_bytes terminal_fields)) = Some terminal_fields"
    by (rule ParseFields_req [OF ok]) (simp add: terminal_fields_def)
  show find: "Find_field terminal_fields 1 = Some (req_field 1 ST_Uint64 (bytes64 0))"
    "Find_field terminal_fields 2 = Some (req_field 2 ST_Uint64 (bytes64 0))"
    "Find_field terminal_fields 3 = Some (req_field 3 ST_SHA256 (SHA_256 kStreamDomain))"
    by (simp_all add: Find_field_def terminal_fields_def)
  show "Protocol_ExactTags terminal_fields [1, 2, 3] []"
    by (simp add: Protocol_ExactTags_def find) (simp add: terminal_fields_def)
qed

lemma empty_terminal_sendable:
  "sendable (empty_terminal\<lparr>fh_payloadBytes := size64 (concat (map field_bytes terminal_fields))\<rparr>) (concat (map field_bytes terminal_fields))"
proof -
  let ?p = "concat (map field_bytes terminal_fields)"
  let ?h = "empty_terminal\<lparr>fh_payloadBytes := size64 ?p\<rparr>"
  note parse = terminal_fields_facts(1) and find = terminal_fields_facts(2-4) and tags = terminal_fields_facts(5)
  note facts = empty_terminal_facts
  have "ValidateMessageShape ?h"
    using facts by (simp add: ValidateMessageShape_def VersionFlags_def FullVersionShape_def flag_defs)
  moreover have "FullVersionHeader ?h"
    using facts(10) by (simp add: FullVersionHeader_def header_version_def)
  then have "ValidatePayloadShape ?h ?p"
    using facts find tags by (simp add: ValidatePayloadShape_def parse FieldU64Equals_def)
  moreover have "length ?p \<le> 4193984"
    by (simp add: terminal_fields_def)
  ultimately show ?thesis
    by (simp add: sendable_def)
qed

lemma empty_stream:
  assumes "\<forall>x. length (sha x) = 32"
  obtains frame c where "stream_run sha [frame] c" "gc_terminal c"
proof -
  let ?p = "concat (map field_bytes terminal_fields)"
  note facts = empty_terminal_facts
  obtain frame where dec: "DecodeFrame sha frame = Inr (framed sha empty_terminal ?p, ?p)" and len: "length frame = 320 + length ?p"
    using Decode_sendable [OF assms facts(8) _ empty_terminal_sendable] facts(3) by blast
  let ?h = "framed sha empty_terminal ?p"
  have h: "fh_message ?h = MK_GraphTerminal" "fh_sequence ?h = 0" "fh_fragmentOffset ?h = 0" "fh_fragmentTotal ?h = 0"
    "fh_previousChain ?h = zero_digest" "header_version ?h = header_version empty_terminal"
    using facts by (simp_all add: framed_def Let_def header_version_def)
  obtain v where v: "SerializeGraphVersion (header_version ?h) = Inr v"
    using facts(10) unfolding h(6) FullVersionHeader_def by (auto simp: SerializeGraphVersion_def Let_def)
  note parse = terminal_fields_facts(1) and find = terminal_fields_facts(2-4) and tags = terminal_fields_facts(5)
  have hash: "FinalizeGraphStreamHashV1 InitializeGraphStreamHashV1 = Some (SHA_256 kStreamDomain)"
    using stream_hash_start by simp
  obtain c where "accept_frame ?h ?p frame new_continuation = Inr c" "gc_terminal c"
    using parse find tags hash v h
    by (simp add: accept_frame_def bind_identity_def accept_message_def accept_terminal_def new_continuation_def EqualHash_def
        FieldU64Equals_def)
  moreover from this(1) have "fst (AcceptGraphResponseFrame sha frame kMaximumFrameBytes new_continuation) = Inr c"
    using len by (simp add: AcceptGraphResponseFrame_def dec kHeaderBytes_def kMaximumFrameBytes_def terminal_fields_def new_continuation_def)
  moreover have "gc_cachedFrame new_continuation \<noteq> frame"
    using len by (auto simp: new_continuation_def)
  ultimately show thesis
    using that stream_run.stream_accept [OF stream_run.stream_start] by fastforce
qed

theorem stream_complete_witness:
  "\<exists>frame recs. terminal_says sample_hash frame recs \<and> proper_records recs"
proof -
  have "\<forall>x. length (sample_hash x) = 32" by (simp add: sample_hash_def)
  then obtain frame c where "stream_run sample_hash [frame] c" "gc_terminal c"
    by (rule empty_stream)
  from stream_complete [OF this] show ?thesis by auto
qed

theorem stream_in_order_witness:
  "\<exists>frame c. gc_terminal c \<and> in_place sample_hash [frame] c 0 \<and>
     isl (fst (AcceptGraphResponseFrame sample_hash (frame @ [0]) kMaximumFrameBytes c))"
proof -
  have "\<forall>x. length (sample_hash x) = 32" by (simp add: sample_hash_def)
  then obtain frame c where run: "stream_run sample_hash [frame] c" "gc_terminal c"
    by (rule empty_stream)
  from stream_in_order [OF run(1)] run(2) show ?thesis
    by (intro exI [of _ frame] exI [of _ c]) simp
qed

end
