(* ===== verification/SealedPatch.thy ===== *)
theory SealedPatch
  imports PatchCodec WireFrame
begin

section \<open>Validating a sealed patch in its file (DocumentGraphPatch.cpp)\<close>

text \<open>
  A patch that was uploaded lies in a file. \<open>ParseSealedPatchV1\<close> validates it there: it reads the file
  through a callback, a few bytes at a time, never holds the patch in memory, and computes the digests
  of the patch and of its inverse. \<open>SealedEquivalence\<close> shows that it accepts exactly what
  \<open>ParseCanonicalPatchV1\<close> accepts and that its digests are those of the canonical forms.

  The callback is the system's: it answers the bytes that it read, or \<open>None\<close>. Offsets and lengths are
  unsigned 64-bit integers of the source; every one of them is compared with what is left of the file
  before it is added to another, so none wraps, and they are natural numbers here. The offset at which
  a validation failed, a diagnostic that no caller in the bridge reads, and failures of the system's
  hash functions are not modelled.
\<close>

subsection \<open>The reader\<close>

record SealedSource =
  ss_read :: "nat \<Rightarrow> nat \<Rightarrow> bytes option"
  ss_length :: nat

record StreamSlice =
  sl_offset :: nat
  sl_length :: nat

definition Source_Read :: "SealedSource \<Rightarrow> nat \<Rightarrow> nat \<Rightarrow> bytes option" where
  "Source_Read s off n =
    (if off > ss_length s \<or> n > ss_length s - off \<or> n > 2 ^ 32 - 1 then None
     else case ss_read s off n of None \<Rightarrow> None | Some b \<Rightarrow> if length b \<noteq> n then None else Some b)"

definition kReaderBuffer :: nat where "kReaderBuffer = 64 * 1024"

lemma kReaderBuffer_pos [simp]: "0 < kReaderBuffer" "0 < kReaderBuffer div 2"
  by (simp_all add: kReaderBuffer_def)

text \<open>\<open>Copy\<close> hands a slice to a hash; its result is what the hash is given.\<close>

function copy_loop :: "SealedSource \<Rightarrow> nat \<Rightarrow> nat \<Rightarrow> bytes option" where
  "copy_loop s off n =
    (if n = 0 then Some []
     else let chunk = min n kReaderBuffer
       in case Source_Read s off chunk of None \<Rightarrow> None
          | Some b \<Rightarrow> map_option (\<lambda>bs. b @ bs) (copy_loop s (off + chunk) (n - chunk)))"
  by pat_completeness auto
termination by (relation "measure (\<lambda>(s, off, n). n)") auto

declare copy_loop.simps [simp del]

definition Source_Copy :: "SealedSource \<Rightarrow> StreamSlice \<Rightarrow> bytes option" where
  "Source_Copy s sl = copy_loop s (sl_offset sl) (sl_length sl)"

text \<open>\<open>Equal\<close> compares two slices; \<open>None\<close> is a failed read.\<close>

function equal_loop :: "SealedSource \<Rightarrow> nat \<Rightarrow> nat \<Rightarrow> nat \<Rightarrow> bool option" where
  "equal_loop s left right n =
    (if n = 0 then Some True
     else let chunk = min n (kReaderBuffer div 2)
       in case (Source_Read s left chunk, Source_Read s right chunk) of
            (Some a, Some b) \<Rightarrow> if a \<noteq> b then Some False else equal_loop s (left + chunk) (right + chunk) (n - chunk)
          | _ \<Rightarrow> None)"
  by pat_completeness auto
termination by (relation "measure (\<lambda>(s, l, r, n). n)") auto

declare equal_loop.simps [simp del]

definition Source_Equal :: "SealedSource \<Rightarrow> StreamSlice \<Rightarrow> StreamSlice \<Rightarrow> bool option" where
  "Source_Equal s left right =
    (if sl_length left \<noteq> sl_length right then Some False
     else equal_loop s (sl_offset left) (sl_offset right) (sl_length left))"

subsection \<open>Fields and arrays in the file\<close>

record StreamField =
  sf_tag :: FieldTag
  sf_flags :: u16
  sf_scalar :: ScalarTag
  sf_count :: u64
  sf_value :: StreamSlice

text \<open>A field at an offset, and the offset after it.\<close>

definition StreamFieldAt :: "SealedSource \<Rightarrow> nat \<Rightarrow> nat \<Rightarrow> (StreamField \<times> nat) option" where
  "StreamFieldAt s at stop =
    (if at > stop \<or> stop - at < 24 then None
     else case Source_Read s at 24 of None \<Rightarrow> None
       | Some header \<Rightarrow>
           let tag = Get16 header; flags = Get16 (drop 2 header); scalar = Get16 (drop 4 header);
               elementCount = Get64 (drop 8 header); off = at + 24; n = unat (Get64 (drop 16 header))
           in if tag = 0 \<or> flags AND NOT 3 \<noteq> 0 \<or> Get16 (drop 6 header) \<noteq> 0 \<or> scalar > 17 \<or>
                flags AND 2 = 0 \<and> elementCount \<noteq> 1 \<or> off > stop \<or> n > stop - off then None
              else Some (\<lparr>sf_tag = tag, sf_flags = flags, sf_scalar = scalar_of scalar, sf_count = elementCount,
                     sf_value = \<lparr>sl_offset = off, sl_length = n\<rparr>\<rparr>, off + n))"

definition Required :: "StreamField \<Rightarrow> FieldTag \<Rightarrow> ScalarTag \<Rightarrow> nat \<Rightarrow> bool" where
  "Required f tag t n \<longleftrightarrow> sf_tag f = tag \<and> sf_flags f = 1 \<and> sf_scalar f = t \<and> sf_count f = 1 \<and> sl_length (sf_value f) = n"

definition ValidStreamId :: "SealedSource \<Rightarrow> StreamSlice \<Rightarrow> Uuid128 option" where
  "ValidStreamId s sl =
    (if sl_length sl \<noteq> 16 then None
     else case Source_Read s (sl_offset sl) 16 of None \<Rightarrow> None | Some u \<Rightarrow> if ValidId u then Some u else None)"

record StreamArray =
  sa_count :: u64
  sa_elementsOffset :: nat
  sa_stop :: nat

definition StreamArrayValue :: "SealedSource \<Rightarrow> StreamField \<Rightarrow> ScalarTag \<Rightarrow> StreamArray option" where
  "StreamArrayValue s f t =
    (if sf_flags f \<noteq> 3 \<or> sf_scalar f \<noteq> t \<or> sl_length (sf_value f) < 16 then None
     else case Source_Read s (sl_offset (sf_value f)) 16 of None \<Rightarrow> None
       | Some header \<Rightarrow>
           if Get16 header \<noteq> scalar_raw t \<or> Get16 (drop 2 header) \<noteq> 0 \<or> Get32 (drop 4 header) \<noteq> 0 \<or>
             Get64 (drop 8 header) \<noteq> sf_count f then None
           else Some \<lparr>sa_count = sf_count f, sa_elementsOffset = sl_offset (sf_value f) + 16,
                  sa_stop = sl_offset (sf_value f) + sl_length (sf_value f)\<rparr>)"

definition StreamArrayElement :: "SealedSource \<Rightarrow> nat \<Rightarrow> nat \<Rightarrow> (StreamSlice \<times> nat) option" where
  "StreamArrayElement s at stop =
    (if at > stop \<or> stop - at < 8 then None
     else case Source_Read s at 8 of None \<Rightarrow> None
       | Some b \<Rightarrow>
           let n = unat (Get64 b)
           in if n > stop - at - 8 then None else Some (\<lparr>sl_offset = at + 8, sl_length = n\<rparr>, at + (8 + n)))"

subsection \<open>Operations\<close>

text \<open>As in \<open>OperationV1\<close>, the property is \<open>None\<close> where the source's flag says that there is none.\<close>

record StreamOperation =
  so_kind :: OperationKind
  so_target :: Uuid128
  so_subject :: FieldTag
  so_property :: "PropertyKeyId option"
  so_scalar :: ScalarTag
  so_encoded :: StreamSlice
  so_before :: StreamSlice
  so_after :: StreamSlice

definition StreamKey :: "StreamOperation \<Rightarrow> op_key" where
  "StreamKey opn = (so_target opn, kind_code (so_kind opn), so_subject opn,
     case so_property opn of Some k \<Rightarrow> k | None \<Rightarrow> 0)"

definition check :: "bool \<Rightarrow> unit option" where
  "check c = (if c then Some () else None)"

text \<open>The value of a field that must have a fixed size.\<close>

definition required_value :: "SealedSource \<Rightarrow> StreamField \<Rightarrow> FieldTag \<Rightarrow> ScalarTag \<Rightarrow> nat \<Rightarrow> bytes option" where
  "required_value s f tag t n =
    do { check (Required f tag t n);
         Source_Read s (sl_offset (sf_value f)) n }"

text \<open>The first fields of an operation, up to the scalar tag of its values.\<close>

definition operation_head ::
  "SealedSource \<Rightarrow> nat \<Rightarrow> nat \<Rightarrow> (OperationKind \<times> Uuid128 \<times> FieldTag \<times> PropertyKeyId option \<times> u16 \<times> nat) option" where
  "operation_head s at stop =
    do { (kind, at) \<leftarrow> StreamFieldAt s at stop;
         kindValue \<leftarrow> required_value s kind 1 ST_Uint8 1;
         check (\<not> kindValue ! 0 > 4);
         (target, at) \<leftarrow> StreamFieldAt s at stop;
         check (Required target 2 ST_UUID128 16);
         uuid \<leftarrow> ValidStreamId s (sf_value target);
         (subject, at) \<leftarrow> StreamFieldAt s at stop;
         subjectValue \<leftarrow> required_value s subject 3 ST_Uint16 2;
         (next, at) \<leftarrow> StreamFieldAt s at stop;
         (property, scalar, at) \<leftarrow>
           (if sf_tag next = 4
            then do { propertyValue \<leftarrow> required_value s next 4 ST_Uint32 4;
                      (scalar, at) \<leftarrow> StreamFieldAt s at stop;
                      Some (Some (Get32 propertyValue), scalar, at) }
            else Some (None, next, at));
         scalarValue \<leftarrow> required_value s scalar 5 ST_Uint16 2;
         Some (kind_of (kindValue ! 0), uuid, Get16 subjectValue, property, Get16 scalarValue, at) }"

text \<open>A field of counted bytes: the slice of its bytes.\<close>

definition counted_field :: "SealedSource \<Rightarrow> nat \<Rightarrow> nat \<Rightarrow> FieldTag \<Rightarrow> (StreamSlice \<times> nat) option" where
  "counted_field s at stop tag =
    do { (f, at) \<leftarrow> StreamFieldAt s at stop;
         check (sf_tag f = tag \<and> sf_flags f = 1 \<and> sf_scalar f = ST_Bytes \<and> sf_count f = 1 \<and> \<not> sl_length (sf_value f) < 8);
         b \<leftarrow> Source_Read s (sl_offset (sf_value f)) 8;
         check (unat (Get64 b) = sl_length (sf_value f) - 8);
         Some (\<lparr>sl_offset = sl_offset (sf_value f) + 8, sl_length = sl_length (sf_value f) - 8\<rparr>, at) }"

definition orE :: "'e \<Rightarrow> 'a option \<Rightarrow> 'e + 'a" where
  "orE e x = (case x of None \<Rightarrow> Inl e | Some a \<Rightarrow> Inr a)"

definition operation_values :: "SealedSource \<Rightarrow> nat \<Rightarrow> nat \<Rightarrow> u16 \<Rightarrow> (StreamSlice \<times> StreamSlice) option" where
  "operation_values s at stop scalar =
    do { check (\<not> scalar > 17);
         (before, at) \<leftarrow> counted_field s at stop 6;
         (after, at) \<leftarrow> counted_field s at stop 7;
         check (at = stop);
         Some (before, after) }"

definition ParseStreamOperation :: "SealedSource \<Rightarrow> StreamSlice \<Rightarrow> PatchError + StreamOperation" where
  "ParseStreamOperation s encoded =
    (let stop = sl_offset encoded + sl_length encoded
     in bindE (orE PE_BadOperation (operation_head s (sl_offset encoded) stop)) (\<lambda>(kind, target, subject, property, scalar, at).
        bindE (orE PE_MissingBefore (operation_values s at stop scalar)) (\<lambda>(before, after).
          Inr \<lparr>so_kind = kind, so_target = target, so_subject = subject, so_property = property,
               so_scalar = scalar_of scalar, so_encoded = encoded, so_before = before, so_after = after\<rparr>)))"

text \<open>Whether the author of the patch made an identity up: the whole array is read, and must be in order.\<close>

fun scan_local :: "SealedSource \<Rightarrow> nat \<Rightarrow> Uuid128 \<Rightarrow> nat \<Rightarrow> nat \<Rightarrow> Uuid128 option \<Rightarrow> bool \<Rightarrow> bool option" where
  "scan_local s stop wanted 0 at prior present = (if at = stop then Some present else None)"
| "scan_local s stop wanted (Suc n) at prior present =
    do { (sl, at) \<leftarrow> StreamArrayElement s at stop;
         uuid \<leftarrow> ValidStreamId s sl;
         check (case prior of Some p \<Rightarrow> p < uuid | None \<Rightarrow> True);
         scan_local s stop wanted n at (Some uuid) (present \<or> EqualUuid uuid wanted) }"

definition ScanLocal :: "SealedSource \<Rightarrow> StreamArray \<Rightarrow> Uuid128 \<Rightarrow> bool option" where
  "ScanLocal s locals wanted =
    scan_local s (sa_stop locals) wanted (unat (sa_count locals)) (sa_elementsOffset locals) None False"

definition StreamScalarCanonical :: "SealedSource \<Rightarrow> ScalarTag \<Rightarrow> StreamSlice \<Rightarrow> bool" where
  "StreamScalarCanonical s t sl =
    (if FixedScalarBytes t \<noteq> 0 then
       sl_length sl = FixedScalarBytes t \<and>
       (case Source_Read s (sl_offset sl) (FixedScalarBytes t) of None \<Rightarrow> False
        | Some b \<Rightarrow> ValidateCanonicalScalar t b = CE_None)
     else if t = ST_Struct then True
     else case (if (t = ST_UTF16 \<or> t = ST_Bytes) \<and> \<not> sl_length sl < 8 then Source_Read s (sl_offset sl) 8 else None) of
       Some prefix \<Rightarrow>
         (let n = unat (Get64 prefix); width = (if t = ST_UTF16 then 2 else 1)
          in \<not> n > (2 ^ 64 - 1) div width \<and> n * width = sl_length sl - 8)
     | None \<Rightarrow>
     case (if t = ST_Enum \<and> \<not> sl_length sl < 16 then Source_Read s (sl_offset sl) 16 else None) of
       Some prefix \<Rightarrow>
         (if prefix ! 8 > 1 then False
          else if \<exists>i \<in> set [9..<16]. prefix ! i \<noteq> 0 then False
          else if prefix ! 8 = 0 then sl_length sl = 16
          else if sl_length sl < 24 then False
          else case Source_Read s (sl_offset sl + 16) 8 of None \<Rightarrow> False
            | Some prefix \<Rightarrow>
                let units = unat (Get64 prefix)
                in \<not> units > (2 ^ 64 - 1) div 2 \<and> units * 2 = sl_length sl - 24)
     | None \<Rightarrow> t = ST_BlobSlice \<and> sl_length sl = 64)"

text \<open>The identities in the blocks of 16 bytes of a slice; \<open>None\<close> when one is not an identity.\<close>

fun reference_blocks :: "SealedSource \<Rightarrow> nat \<Rightarrow> nat \<Rightarrow> Uuid128 list option" where
  "reference_blocks s off 0 = Some []"
| "reference_blocks s off (Suc n) =
    do { uuid \<leftarrow> ValidStreamId s \<lparr>sl_offset = off, sl_length = 16\<rparr>;
         uuids \<leftarrow> reference_blocks s (off + 16) n;
         Some (uuid # uuids) }"

definition stream_references :: "SealedSource \<Rightarrow> StreamSlice \<Rightarrow> Uuid128 list option" where
  "stream_references s sl = reference_blocks s (sl_offset sl) (sl_length sl div 16)"

definition stream_has_references :: "StreamOperation \<Rightarrow> bool" where
  "stream_has_references opn \<longleftrightarrow> so_kind opn = ReplaceReferences \<or> so_kind opn = ReplaceChildren"

definition stream_property :: "StreamOperation \<Rightarrow> PatchError" where
  "stream_property opn =
    (if so_kind opn = ReplaceProperties then
       (case Option.bind (so_property opn) FindPropertyRule of
          None \<Rightarrow> PE_BadOperation
        | Some r \<Rightarrow> if pr_writability r \<noteq> WR_Writable then PE_ReadOnlyProperty else PE_None)
     else if so_property opn \<noteq> None then PE_BadOperation
     else PE_None)"

definition stream_values :: "SealedSource \<Rightarrow> StreamOperation \<Rightarrow> PatchError" where
  "stream_values s opn =
    (if stream_has_references opn then
       (if so_scalar opn \<noteq> ST_UUID128 \<or> sl_length (so_before opn) mod 16 \<noteq> 0 \<or> sl_length (so_after opn) mod 16 \<noteq> 0
        then PE_BadReference
        else if stream_references s (so_before opn) = None \<or> stream_references s (so_after opn) = None then PE_BadReference
        else PE_None)
     else if so_kind opn = ReplaceBlob then
       (if so_scalar opn \<noteq> ST_Struct \<or> sl_length (so_before opn) \<noteq> 56 \<or> sl_length (so_after opn) \<noteq> 56
        then PE_BadOperation else PE_None)
     else if \<not> StreamScalarCanonical s (so_scalar opn) (so_before opn) \<or> \<not> StreamScalarCanonical s (so_scalar opn) (so_after opn)
     then PE_BadOperation
     else PE_None)"

subsection \<open>The passes over the file\<close>

text \<open>The identities of the patch, in strictly ascending order; the result is the offset after them.\<close>

fun stream_locals :: "SealedSource \<Rightarrow> nat \<Rightarrow> nat \<Rightarrow> nat \<Rightarrow> Uuid128 option \<Rightarrow> nat option" where
  "stream_locals s stop 0 at prior = Some at"
| "stream_locals s stop (Suc n) at prior =
    do { (sl, at) \<leftarrow> StreamArrayElement s at stop;
         uuid \<leftarrow> ValidStreamId s sl;
         check (case prior of Some p \<Rightarrow> p < uuid | None \<Rightarrow> True);
         stream_locals s stop n at (Some uuid) }"

text \<open>One operation, after another one on the same or a smaller key.\<close>

definition check_order :: "SealedSource \<Rightarrow> (op_key \<times> StreamSlice) option \<Rightarrow> StreamOperation \<Rightarrow> PatchError" where
  "check_order s prior opn =
    (if (case prior of Some (priorKey, _) \<Rightarrow> StreamKey opn < priorKey | None \<Rightarrow> False) then PE_OutOfOrder
     else case Source_Equal s (so_before opn) (so_after opn) of
       None \<Rightarrow> PE_StorageFailure
     | Some same \<Rightarrow>
         if same then PE_OutOfOrder
         else case prior of None \<Rightarrow> PE_None
           | Some (priorKey, priorAfter) \<Rightarrow>
               if StreamKey opn \<noteq> priorKey then PE_None
               else case Source_Equal s priorAfter (so_before opn) of
                   None \<Rightarrow> PE_StorageFailure
                 | Some chained \<Rightarrow> if chained then PE_None else PE_SequentialCas)"

definition stream_operation ::
  "SealedSource \<Rightarrow> StreamArray \<Rightarrow> (op_key \<times> StreamSlice) option \<Rightarrow> StreamSlice \<Rightarrow> PatchError + StreamOperation" where
  "stream_operation s locals prior encoded =
    bindE (ParseStreamOperation s encoded) (\<lambda>opn.
      if check_order s prior opn \<noteq> PE_None then Inl (check_order s prior opn)
      else case ScanLocal s locals (so_target opn) of
        None \<Rightarrow> Inl PE_BadClientLocalId
      | Some targetIsLocal \<Rightarrow>
          if targetIsLocal then Inl PE_BadOperation
          else if stream_property opn \<noteq> PE_None then Inl (stream_property opn)
          else if stream_values s opn \<noteq> PE_None then Inl (stream_values s opn)
          else Inr opn)"

fun stream_operations ::
  "SealedSource \<Rightarrow> StreamArray \<Rightarrow> nat \<Rightarrow> nat \<Rightarrow> nat \<Rightarrow> (op_key \<times> StreamSlice) option \<Rightarrow> PatchError + nat" where
  "stream_operations s locals stop 0 at prior = Inr at"
| "stream_operations s locals stop (Suc n) at prior =
    bindE (orE PE_BadField (StreamArrayElement s at stop)) (\<lambda>(encoded, at).
    bindE (stream_operation s locals prior encoded) (\<lambda>opn.
      stream_operations s locals stop n at (Some (StreamKey opn, so_after opn))))"

text \<open>Whether an operation from an offset on names the identity \<open>local\<close>; the scan ends at the first that does.\<close>

fun stream_observed :: "SealedSource \<Rightarrow> nat \<Rightarrow> Uuid128 \<Rightarrow> nat \<Rightarrow> nat \<Rightarrow> PatchError + bool" where
  "stream_observed s stop local 0 at = Inr False"
| "stream_observed s stop local (Suc n) at =
    (case StreamArrayElement s at stop of
       None \<Rightarrow> Inl PE_BadOperation
     | Some (encoded, at) \<Rightarrow>
         (case ParseStreamOperation s encoded of
            Inl _ \<Rightarrow> Inl PE_BadOperation
          | Inr opn \<Rightarrow>
              if \<not> stream_has_references opn then stream_observed s stop local n at
              else case (stream_references s (so_before opn), stream_references s (so_after opn)) of
                  (Some before, Some after) \<Rightarrow>
                    if \<exists>u \<in> set (before @ after). EqualUuid u local then Inr True else stream_observed s stop local n at
                | _ \<Rightarrow> Inl PE_BadReference))"

fun locals_observed :: "SealedSource \<Rightarrow> nat \<Rightarrow> StreamArray \<Rightarrow> nat \<Rightarrow> nat \<Rightarrow> PatchError + unit" where
  "locals_observed s stop operations 0 at = Inr ()"
| "locals_observed s stop operations (Suc n) at =
    bindE (orE PE_BadClientLocalId (StreamArrayElement s at stop)) (\<lambda>(sl, at).
    bindE (orE PE_BadClientLocalId (ValidStreamId s sl)) (\<lambda>local.
    bindE (stream_observed s (sa_stop operations) local (unat (sa_count operations)) (sa_elementsOffset operations)) (\<lambda>observed.
      if \<not> observed then Inl PE_BadClientLocalId else locals_observed s stop operations n at)))"

subsection \<open>The digest of the inverse\<close>

definition AddFieldHeader :: "FieldTag \<Rightarrow> u16 \<Rightarrow> ScalarTag \<Rightarrow> u64 \<Rightarrow> u64 \<Rightarrow> bytes" where
  "AddFieldHeader tag flags t elementCount n =
    bytes16 tag @ bytes16 flags @ bytes16 (scalar_raw t) @ bytes16 0 @ bytes64 elementCount @ bytes64 n"

fun skip_fields :: "SealedSource \<Rightarrow> nat \<Rightarrow> nat \<Rightarrow> nat \<Rightarrow> nat option" where
  "skip_fields s stop 0 at = Some at"
| "skip_fields s stop (Suc n) at = Option.bind (StreamFieldAt s at stop) (\<lambda>(f, at). skip_fields s stop n at)"

text \<open>What the hash of the inverse is given for an operation: its head, and its values exchanged.\<close>

definition HashInverseOperation :: "SealedSource \<Rightarrow> StreamOperation \<Rightarrow> bytes option" where
  "HashInverseOperation s opn =
    do { let start = sl_offset (so_encoded opn);
         prefixEnd \<leftarrow> skip_fields s (start + sl_length (so_encoded opn)) (if so_property opn \<noteq> None then 5 else 4) start;
         prefix \<leftarrow> Source_Copy s \<lparr>sl_offset = start, sl_length = prefixEnd - start\<rparr>;
         after \<leftarrow> Source_Copy s (so_after opn);
         before \<leftarrow> Source_Copy s (so_before opn);
         Some (prefix @
           AddFieldHeader 6 1 ST_Bytes 1 (8 + word_of_nat (sl_length (so_after opn))) @
           bytes64 (word_of_nat (sl_length (so_after opn))) @ after @
           AddFieldHeader 7 1 ST_Bytes 1 (8 + word_of_nat (sl_length (so_before opn))) @
           bytes64 (word_of_nat (sl_length (so_before opn))) @ before) }"

text \<open>The element at an offset and the operation in it; a walk of several ends with the last of them.\<close>

definition operation_at :: "SealedSource \<Rightarrow> nat \<Rightarrow> nat \<Rightarrow> PatchError + StreamSlice \<times> StreamOperation \<times> nat" where
  "operation_at s stop at =
    (case StreamArrayElement s at stop of
       None \<Rightarrow> Inl PE_BadOperation
     | Some (encoded, at) \<Rightarrow>
         (case ParseStreamOperation s encoded of Inl _ \<Rightarrow> Inl PE_BadOperation | Inr opn \<Rightarrow> Inr (encoded, opn, at)))"

fun walk_operations :: "SealedSource \<Rightarrow> nat \<Rightarrow> nat \<Rightarrow> nat \<Rightarrow> PatchError + StreamSlice \<times> StreamOperation" where
  "walk_operations s stop 0 at = Inl PE_BadOperation"
| "walk_operations s stop (Suc n) at =
    bindE (operation_at s stop at) (\<lambda>(encoded, opn, at).
      if n = 0 then Inr (encoded, opn) else walk_operations s stop n at)"

lemma element_forward: "StreamArrayElement s at stop = Some (e, at') \<Longrightarrow> at < at' \<and> at < stop \<and> at' \<le> stop"
  by (auto simp: StreamArrayElement_def Let_def split: if_split_asm option.splits)

lemma operation_forward: "operation_at s stop at = Inr (e, opn, at') \<Longrightarrow> at < at' \<and> at < stop \<and> at' \<le> stop"
  using element_forward by (auto simp: operation_at_def split: option.splits sum.splits)

text \<open>How many operations from an offset on have a key, and the offset after them.\<close>

function group_end :: "SealedSource \<Rightarrow> nat \<Rightarrow> op_key \<Rightarrow> nat \<Rightarrow> nat \<Rightarrow> PatchError + nat \<times> nat" where
  "group_end s stop key groupCount at =
    (if at = stop then Inr (groupCount, at)
     else case operation_at s stop at of
         Inl e \<Rightarrow> Inl e
       | Inr (encoded, opn, at') \<Rightarrow>
           if StreamKey opn \<noteq> key then Inr (groupCount, at) else group_end s stop key (groupCount + 1) at')"
  by pat_completeness auto
termination
  by (relation "measure (\<lambda>(s, stop, key, groupCount, at). stop - at)") (auto dest!: operation_forward)

declare group_end.simps [simp del]

text \<open>A group is hashed from its last operation to its first; each is found by a walk from the start.\<close>

fun inverse_group :: "SealedSource \<Rightarrow> nat \<Rightarrow> nat \<Rightarrow> nat \<Rightarrow> PatchError + bytes" where
  "inverse_group s stop start 0 = Inr []"
| "inverse_group s stop start (Suc n) =
    bindE (walk_operations s stop (Suc n) start) (\<lambda>(encoded, opn).
    bindE (orE PE_StorageFailure (HashInverseOperation s opn)) (\<lambda>b.
    bindE (inverse_group s stop start n) (\<lambda>bs.
      Inr (bytes64 (word_of_nat (sl_length encoded)) @ b @ bs))))"

lemma group_forward: "group_end s stop key groupCount at = Inr (n, at') \<Longrightarrow> at \<le> at'"
proof (induction s stop key groupCount at rule: group_end.induct)
  case (1 s stop key groupCount at)
  note unfolded = "1.prems" [unfolded group_end.simps [of s stop key groupCount at]]
  show ?case
  proof (cases "at = stop")
    case True
    with unfolded show ?thesis by simp
  next
    case False
    with unfolded "1.IH" [OF False] show ?thesis
      by (fastforce split: sum.splits prod.splits if_split_asm dest: operation_forward)
  qed
qed

function inverse_operations :: "SealedSource \<Rightarrow> nat \<Rightarrow> nat \<Rightarrow> PatchError + bytes" where
  "inverse_operations s stop start =
    (if start = stop then Inr []
     else case operation_at s stop start of
         Inl e \<Rightarrow> Inl e
       | Inr (encoded, first, scan) \<Rightarrow>
           (case group_end s stop (StreamKey first) 1 scan of
              Inl e \<Rightarrow> Inl e
            | Inr (groupCount, groupEnd) \<Rightarrow>
                bindE (inverse_group s stop start groupCount) (\<lambda>group.
                bindE (inverse_operations s stop groupEnd) (\<lambda>rest. Inr (group @ rest)))))"
  by pat_completeness auto
termination
  by (relation "measure (\<lambda>(s, stop, start). stop - start)") (auto dest!: operation_forward group_forward)

declare inverse_operations.simps [simp del]

subsection \<open>The validation\<close>

record SealedPatchValidationV1 =
  sv_canonicalDigest :: Sha256
  sv_inverseDigest :: Sha256
  sv_operationCount :: u64

definition kPatchDomain :: bytes where
  "kPatchDomain = ascii ''HWPGRAPH'' @ [0] @ ascii ''PATCH'' @ [0] @ ascii ''V1''"

text \<open>The version and the two arrays.\<close>

definition stream_header :: "SealedSource \<Rightarrow> GraphVersionV1 \<Rightarrow> PatchError + StreamArray \<times> StreamArray" where
  "stream_header s expectedVersion =
    bindE (orE PE_BadField (do { (schema, at) \<leftarrow> StreamFieldAt s 0 (ss_length s); check (Required schema 1 ST_Uint16 2);
      Some (schema, at) })) (\<lambda>(schema, at).
    bindE (orE PE_BadSchema (do { b \<leftarrow> Source_Read s (sl_offset (sf_value schema)) 2; check (Get16 b = 1) })) (\<lambda>_.
    bindE (orE PE_NotAtomic (do { (atomic, at) \<leftarrow> StreamFieldAt s at (ss_length s);
      b \<leftarrow> required_value s atomic 2 ST_Bool 1; check (b ! 0 = 1); Some at })) (\<lambda>at.
    bindE (orE PE_CrossVersion (do { (version, at) \<leftarrow> StreamFieldAt s at (ss_length s);
      b \<leftarrow> required_value s version 3 ST_Struct kGraphVersionBytesV1; Some (b, at) })) (\<lambda>(fixed, at).
    case DeserializeGraphVersion fixed of
      Inl _ \<Rightarrow> Inl PE_CrossVersion
    | Inr parsedVersion \<Rightarrow>
        if \<not> PatchVersionCas parsedVersion expectedVersion then Inl PE_CrossVersion
        else orE PE_BadField (do {
          (localsField, at) \<leftarrow> StreamFieldAt s at (ss_length s);
          check (sf_tag localsField = 4);
          (operationsField, at) \<leftarrow> StreamFieldAt s at (ss_length s);
          check (sf_tag operationsField = 5 \<and> at = ss_length s);
          locals \<leftarrow> StreamArrayValue s localsField ST_UUID128;
          operations \<leftarrow> StreamArrayValue s operationsField ST_Struct;
          Some (locals, operations) })))))"

definition ParseSealedPatchV1 ::
  "(bytes \<Rightarrow> Sha256) \<Rightarrow> SealedSource \<Rightarrow> GraphVersionV1 \<Rightarrow> PatchError + SealedPatchValidationV1" where
  "ParseSealedPatchV1 sha s expectedVersion =
    (if ss_length s = 0 then Inl PE_BadField
     else bindE (stream_header s expectedVersion) (\<lambda>(locals, operations).
       bindE (orE PE_BadClientLocalId
         (stream_locals s (sa_stop locals) (unat (sa_count locals)) (sa_elementsOffset locals) None)) (\<lambda>localAt.
       if localAt \<noteq> sa_stop locals then Inl PE_BadField
       else bindE (stream_operations s locals (sa_stop operations) (unat (sa_count operations))
           (sa_elementsOffset operations) None) (\<lambda>operationAt.
       if operationAt \<noteq> sa_stop operations then Inl PE_BadField
       else bindE (locals_observed s (sa_stop locals) operations (unat (sa_count locals)) (sa_elementsOffset locals)) (\<lambda>_.
       bindE (orE PE_StorageFailure (Source_Copy s \<lparr>sl_offset = 0, sl_length = ss_length s\<rparr>)) (\<lambda>patchBytes.
       bindE (orE PE_StorageFailure (Source_Copy s \<lparr>sl_offset = 0, sl_length = sa_elementsOffset operations\<rparr>)) (\<lambda>prefix.
       bindE (inverse_operations s (sa_stop operations) (sa_elementsOffset operations)) (\<lambda>inverse.
         Inr \<lparr>sv_canonicalDigest = sha (kPatchDomain @ patchBytes),
              sv_inverseDigest = sha (kPatchDomain @ prefix @ inverse),
              sv_operationCount = sa_count operations\<rparr>)))))))) "

end
