(* ===== verification/SealedReader.thy ===== *)
theory SealedReader
  imports SealedPatch
begin

section \<open>What the reader of a sealed patch finds\<close>

text \<open>
  The file holds the bytes \<open>b\<close>. An honest source answers, when it answers, what the file holds; a readable
  one always answers. Each routine of the reader is described on the bytes: what it has found when an
  honest source lets it succeed, and that it succeeds on a readable one.
\<close>

subsection \<open>Sources\<close>

definition honest :: "SealedSource \<Rightarrow> bytes \<Rightarrow> bool" where
  "honest s b \<longleftrightarrow> ss_length s = length b \<and>
    (\<forall>off n x. ss_read s off n = Some x \<longrightarrow> length x = n \<longrightarrow> off + n \<le> length b \<longrightarrow> x = take n (drop off b))"

definition readable :: "SealedSource \<Rightarrow> bytes \<Rightarrow> bool" where
  "readable s b \<longleftrightarrow> ss_length s = length b \<and>
    (\<forall>off n. off + n \<le> length b \<longrightarrow> ss_read s off n = Some (take n (drop off b)))"

lemma readable_honest: "readable s b \<Longrightarrow> honest s b"
  by (auto simp: readable_def honest_def)

definition slice_bytes :: "bytes \<Rightarrow> StreamSlice \<Rightarrow> bytes" where
  "slice_bytes b sl = take (sl_length sl) (drop (sl_offset sl) b)"

definition inside :: "bytes \<Rightarrow> StreamSlice \<Rightarrow> bool" where
  "inside b sl \<longleftrightarrow> sl_offset sl + sl_length sl \<le> length b"

lemma length_slice [simp]: "inside b sl \<Longrightarrow> length (slice_bytes b sl) = sl_length sl"
  by (simp add: inside_def slice_bytes_def)

lemma Read_honest:
  assumes "honest s b" "Source_Read s off n = Some x"
  shows "x = take n (drop off b)" "off + n \<le> length b" "length x = n"
  using assms by (auto simp: Source_Read_def honest_def split: if_split_asm option.splits)

lemma Read_readable:
  "readable s b \<Longrightarrow> off + n \<le> length b \<Longrightarrow> n \<le> kReaderBuffer \<Longrightarrow> Source_Read s off n = Some (take n (drop off b))"
  by (auto simp: Source_Read_def readable_def kReaderBuffer_def)

lemma copy_honest:
  "honest s b \<Longrightarrow> copy_loop s off n = Some x \<Longrightarrow> x = take n (drop off b)"
proof (induction s off n arbitrary: x rule: copy_loop.induct)
  case (1 s off n)
  show ?case
  proof (cases "n = 0")
    case True
    with "1.prems" show ?thesis by (simp add: copy_loop.simps [of s off 0])
  next
    case False
    let ?c = "min n kReaderBuffer"
    obtain u v where u: "Source_Read s off ?c = Some u" and v: "copy_loop s (off + ?c) (n - ?c) = Some v" "x = u @ v"
      using "1.prems"(2) False unfolding copy_loop.simps [of s off n] Let_def by (auto split: option.splits)
    have "v = take (n - ?c) (drop (off + ?c) b)"
      by (rule "1.IH" [OF False refl u "1.prems"(1) v(1)])
    moreover have "take n (drop off b) = take ?c (drop off b) @ take (n - ?c) (drop ?c (drop off b))"
      by (metis le_add_diff_inverse min.cobounded1 take_add)
    ultimately show ?thesis
      using Read_honest(1) [OF "1.prems"(1) u] v(2) by (simp add: add.commute)
  qed
qed

lemma copy_readable:
  "readable s b \<Longrightarrow> off + n \<le> length b \<Longrightarrow> copy_loop s off n \<noteq> None"
proof (induction s off n rule: copy_loop.induct)
  case (1 s off n)
  show ?case
  proof (cases "n = 0")
    case True
    then show ?thesis by (simp add: copy_loop.simps [of s off 0])
  next
    case False
    let ?c = "min n kReaderBuffer"
    have u: "Source_Read s off ?c = Some (take ?c (drop off b))"
      using "1.prems" by (intro Read_readable) auto
    have "copy_loop s (off + ?c) (n - ?c) \<noteq> None"
      by (rule "1.IH" [OF False refl u "1.prems"(1)]) (use "1.prems"(2) in auto)
    then show ?thesis
      using False u unfolding copy_loop.simps [of s off n] Let_def by simp
  qed
qed

lemma Copy_honest: "honest s b \<Longrightarrow> Source_Copy s sl = Some x \<Longrightarrow> x = slice_bytes b sl"
  by (auto simp: Source_Copy_def slice_bytes_def dest: copy_honest)

lemma Copy_readable: "readable s b \<Longrightarrow> inside b sl \<Longrightarrow> Source_Copy s sl = Some (slice_bytes b sl)"
  using copy_readable Copy_honest [OF readable_honest] by (fastforce simp: Source_Copy_def inside_def)

lemma equal_honest:
  "honest s b \<Longrightarrow> equal_loop s l r n = Some e \<Longrightarrow> e \<longleftrightarrow> take n (drop l b) = take n (drop r b)"
proof (induction s l r n rule: equal_loop.induct)
  case (1 s l r n)
  show ?case
  proof (cases "n = 0")
    case True
    with "1.prems" show ?thesis by (simp add: equal_loop.simps [of s l r 0])
  next
    case False
    let ?c = "min n (kReaderBuffer div 2)"
    have split: "take n (drop k b) = take ?c (drop k b) @ take (n - ?c) (drop (k + ?c) b)" for k
      by (metis add.commute drop_drop le_add_diff_inverse min.cobounded1 take_add)
    obtain u v where u: "Source_Read s l ?c = Some u" and v: "Source_Read s r ?c = Some v"
      and e: "(if u \<noteq> v then Some False else equal_loop s (l + ?c) (r + ?c) (n - ?c)) = Some e"
      using "1.prems"(2) False unfolding equal_loop.simps [of s l r n] Let_def by (auto split: option.splits)
    note R = Read_honest [OF "1.prems"(1) u] Read_honest [OF "1.prems"(1) v]
    show ?thesis
    proof (cases "u = v")
      case True
      with e have "e \<longleftrightarrow> take (n - ?c) (drop (l + ?c) b) = take (n - ?c) (drop (r + ?c) b)"
        by (intro "1.IH" [OF False refl refl u v _ "1.prems"(1)]) auto
      with True R(1,4) show ?thesis unfolding split by simp
    next
      case ne: False
      with e R show ?thesis unfolding split by (auto simp: append_eq_append_conv)
    qed
  qed
qed

lemma equal_readable:
  "readable s b \<Longrightarrow> l + n \<le> length b \<Longrightarrow> r + n \<le> length b \<Longrightarrow> equal_loop s l r n \<noteq> None"
proof (induction s l r n rule: equal_loop.induct)
  case (1 s l r n)
  show ?case
  proof (cases "n = 0")
    case True
    then show ?thesis by (simp add: equal_loop.simps [of s l r 0])
  next
    case False
    let ?c = "min n (kReaderBuffer div 2)"
    have u: "Source_Read s l ?c = Some (take ?c (drop l b))" and v: "Source_Read s r ?c = Some (take ?c (drop r b))"
      using "1.prems" by (intro Read_readable; auto simp: min_def)+
    have "take ?c (drop l b) = take ?c (drop r b) \<Longrightarrow> equal_loop s (l + ?c) (r + ?c) (n - ?c) \<noteq> None"
      by (rule "1.IH" [OF False refl refl u v _ "1.prems"(1)]) (use "1.prems"(2,3) in auto)
    then show ?thesis
      using False u v unfolding equal_loop.simps [of s l r n] Let_def by (simp del: not_None_eq)
  qed
qed

lemma Equal_honest:
  assumes "honest s b" "Source_Equal s x y = Some e" "inside b x" "inside b y"
  shows "e \<longleftrightarrow> slice_bytes b x = slice_bytes b y"
proof (cases "sl_length x = sl_length y")
  case True
  with assms(2) equal_honest [OF assms(1)] show ?thesis
    by (auto simp: Source_Equal_def slice_bytes_def)
next
  case False
  with assms have "slice_bytes b x \<noteq> slice_bytes b y"
    using length_slice by metis
  with False assms(2) show ?thesis by (simp add: Source_Equal_def)
qed

lemma Equal_readable:
  assumes "readable s b" "inside b x" "inside b y"
  shows "Source_Equal s x y = Some (slice_bytes b x = slice_bytes b y)"
proof -
  have "Source_Equal s x y \<noteq> None"
    using assms equal_readable [OF assms(1)] by (simp add: Source_Equal_def inside_def del: not_None_eq)
  with Equal_honest [OF readable_honest [OF assms(1)]] assms show ?thesis by blast
qed

subsection \<open>Cuts\<close>

text \<open>The bytes from an offset up to another.\<close>

definition cut :: "bytes \<Rightarrow> nat \<Rightarrow> nat \<Rightarrow> bytes" where
  "cut b at stop = take (stop - at) (drop at b)"

lemma length_cut: "stop \<le> length b \<Longrightarrow> length (cut b at stop) = stop - at"
  by (simp add: cut_def)

lemma cut_slice: "cut b (sl_offset sl) (sl_offset sl + sl_length sl) = slice_bytes b sl"
  by (simp add: cut_def slice_bytes_def)

lemma cut_self [simp]: "cut b at at = []"
  by (simp add: cut_def)

lemma cut_split: "at \<le> mid \<Longrightarrow> mid \<le> stop \<Longrightarrow> cut b at stop = cut b at mid @ cut b mid stop"
proof -
  assume le: "at \<le> mid" "mid \<le> stop"
  then have "stop - at = (mid - at) + (stop - mid)" "drop (mid - at) (drop at b) = drop mid b"
    by simp_all
  then show ?thesis by (metis cut_def take_add)
qed

lemma cut_take: "n \<le> stop - at \<Longrightarrow> take n (drop at b) = take n (cut b at stop)"
  by (simp add: cut_def min_def)

lemma cut_drop: "drop k (cut b at stop) = cut b (at + k) stop"
  by (simp add: cut_def drop_take add.commute)

text \<open>After a prefix of a cut comes the rest of it.\<close>

lemma cut_rest:
  assumes "cut b at stop = x @ q" "stop \<le> length b" "at \<le> stop"
  shows "at + length x \<le> stop" "cut b (at + length x) stop = q" "take (length x) (drop at b) = x"
proof -
  have len: "length x + length q = stop - at"
    using length_cut [OF assms(2), of at] assms(1) by simp
  with assms(3) show le: "at + length x \<le> stop" by linarith
  have "cut b at (at + length x) @ cut b (at + length x) stop = x @ q"
    using cut_split [of at "at + length x" stop b] le assms(1) by simp
  moreover have "length (cut b at (at + length x)) = length x"
    using length_cut [of "at + length x" b at] le assms(2) by simp
  ultimately show "cut b (at + length x) stop = q" "take (length x) (drop at b) = x"
    by (simp_all add: cut_def)
qed

lemma slice_rest:
  assumes "cut b at stop = x @ q" "stop \<le> length b" "at \<le> stop"
  shows "slice_bytes b \<lparr>sl_offset = at, sl_length = length x\<rparr> = x" "inside b \<lparr>sl_offset = at, sl_length = length x\<rparr>"
  using cut_rest [OF assms] assms(2) by (simp_all add: slice_bytes_def inside_def)

subsection \<open>Fields\<close>

definition field_of :: "bytes \<Rightarrow> StreamField \<Rightarrow> Field" where
  "field_of b f = \<lparr>fl_tag = sf_tag f, fl_flags = sf_flags f, fl_scalar = sf_scalar f, fl_elementCount = sf_count f,
     fl_value = slice_bytes b (sf_value f)\<rparr>"

lemma Get_prefix:
  "k + 2 \<le> length x \<Longrightarrow> Get16 (drop k (x @ q)) = Get16 (drop k x)"
  "k + 4 \<le> length x \<Longrightarrow> Get32 (drop k (x @ q)) = Get32 (drop k x)"
  "k + 8 \<le> length x \<Longrightarrow> Get64 (drop k (x @ q)) = Get64 (drop k x)"
  by (auto simp: Get16_def Get32_def Get64_def nth_append upt_rec add.commute intro!: fold_cong)

lemma Get16_prefix: "2 \<le> length x \<Longrightarrow> Get16 (x @ q) = Get16 x"
  using Get_prefix(1) [of 0 x q] by simp

lemma Get64_prefix: "8 \<le> length x \<Longrightarrow> Get64 (x @ q) = Get64 x"
  using Get_prefix(3) [of 0 x q] by simp

lemma header_reads:
  fixes c :: bytes
  assumes "24 \<le> length c"
  shows "Get16 (take 24 c) = Get16 c" "Get16 (drop 2 (take 24 c)) = Get16 (drop 2 c)"
    "Get16 (drop 4 (take 24 c)) = Get16 (drop 4 c)" "Get16 (drop 6 (take 24 c)) = Get16 (drop 6 c)"
    "Get64 (drop 8 (take 24 c)) = Get64 (drop 8 c)" "Get64 (drop 16 (take 24 c)) = Get64 (drop 16 c)"
proof -
  have "c = take 24 c @ drop 24 c" by simp
  then show "Get16 (take 24 c) = Get16 c" "Get16 (drop 2 (take 24 c)) = Get16 (drop 2 c)"
    "Get16 (drop 4 (take 24 c)) = Get16 (drop 4 c)" "Get16 (drop 6 (take 24 c)) = Get16 (drop 6 c)"
    "Get64 (drop 8 (take 24 c)) = Get64 (drop 8 c)" "Get64 (drop 16 (take 24 c)) = Get64 (drop 16 c)"
    using assms Get16_prefix [of "take 24 c" "drop 24 c"] Get_prefix [of _ "take 24 c" "drop 24 c"] by simp_all
qed

definition head_ok :: "Field \<Rightarrow> bool" where
  "head_ok f \<longleftrightarrow> fl_tag f \<noteq> 0 \<and> fl_flags f AND NOT 3 = 0 \<and> (fl_flags f AND 2 = 0 \<longrightarrow> fl_elementCount f = 1) \<and>
    length (fl_value f) < 2 ^ 64"

lemma field_ok_head: "field_ok f \<Longrightarrow> head_ok f"
  by (simp add: field_ok_def head_ok_def)

lemma FieldAt_honest:
  assumes "honest s b" "StreamFieldAt s at stop = Some (f, at')" "stop \<le> length b"
  shows "at \<le> stop" "cut b at stop = field_bytes (field_of b f) @ cut b at' stop"
    "sf_value f = \<lparr>sl_offset = at + 24, sl_length = length (fl_value (field_of b f))\<rparr>"
    "at' = at + length (field_bytes (field_of b f))" "at' \<le> stop" "inside b (sf_value f)"
proof -
  let ?c = "cut b at stop"
  obtain header where le: "at \<le> stop" "24 \<le> stop - at" and read: "Source_Read s at 24 = Some header"
    using assms(2) by (auto simp: StreamFieldAt_def split: if_split_asm option.splits)
  have header: "header = take 24 ?c"
    using Read_honest(1) [OF assms(1) read] cut_take [OF le(2)] by simp
  have len: "24 \<le> length ?c" "length ?c = stop - at"
    using length_cut [OF assms(3), of at] le by simp_all
  let ?n = "unat (Get64 (drop 16 ?c))"
  have shape: "Get16 (drop 6 ?c) = 0" "\<not> Get16 (drop 4 ?c) > 17" "?n \<le> stop - (at + 24)"
    and f: "f = \<lparr>sf_tag = Get16 ?c, sf_flags = Get16 (drop 2 ?c), sf_scalar = scalar_of (Get16 (drop 4 ?c)),
      sf_count = Get64 (drop 8 ?c), sf_value = \<lparr>sl_offset = at + 24, sl_length = ?n\<rparr>\<rparr>"
    and at': "at' = at + 24 + ?n"
    using assms(2) le unfolding StreamFieldAt_def read header Let_def option.case header_reads [OF len(1)]
    by (auto split: if_split_asm)
  have inside: "inside b (sf_value f)"
    using shape(3) assms(3) le by (simp add: f inside_def)
  have val: "slice_bytes b (sf_value f) = take ?n (drop 24 ?c)"
    using cut_take [OF shape(3), of b] by (simp add: f slice_bytes_def cut_drop)
  have split: "field_bytes (field_of b f) @ drop ?n (drop 24 ?c) = ?c"
    using field_of_bytes [of ?c] len shape val by (simp add: field_of_def) (simp add: f)
  have n: "length (fl_value (field_of b f)) = ?n"
    using length_slice [OF inside] by (simp add: field_of_def f)
  show "at \<le> stop" "inside b (sf_value f)" by (rule le inside)+
  show "sf_value f = \<lparr>sl_offset = at + 24, sl_length = length (fl_value (field_of b f))\<rparr>"
    unfolding n by (simp add: f)
  show at_n: "at' = at + length (field_bytes (field_of b f))"
    by (simp add: n at')
  show "at' \<le> stop" "cut b at stop = field_bytes (field_of b f) @ cut b at' stop"
    using cut_rest(1,2) [OF split [symmetric] assms(3) le(1)] split at_n by simp_all
qed

lemma FieldAt_head:
  assumes "honest s b" "StreamFieldAt s at stop = Some (f, at')" "stop \<le> length b" "length b < 2 ^ 62"
  shows "head_ok (field_of b f)"
proof -
  have "sl_length (sf_value f) < 2 ^ 64"
    using FieldAt_honest(6) [OF assms(1-3)] assms(4) by (simp add: inside_def)
  then show ?thesis
    using assms(2) length_slice [OF FieldAt_honest(6) [OF assms(1-3)]]
    by (auto simp: StreamFieldAt_def Let_def head_ok_def field_of_def split: if_split_asm option.splits)
qed

text \<open>A field read where a field is.\<close>

lemma field_bytes_inj:
  assumes "field_bytes f @ p = field_bytes g @ q" "length (fl_value f) < 2 ^ 64" "length (fl_value g) < 2 ^ 64"
  shows "f = g" "p = q"
proof -
  have reads: "fl_tag f = fl_tag g" "fl_flags f = fl_flags g" "scalar_raw (fl_scalar f) = scalar_raw (fl_scalar g)"
    "fl_elementCount f = fl_elementCount g" "size64 (fl_value f) = size64 (fl_value g)" "fl_value f @ p = fl_value g @ q"
    using assms(1) field_bytes_reads [of f p] field_bytes_reads [of g q] by simp_all
  then have "length (fl_value f) = length (fl_value g)"
    using assms(2,3) unat_size64 by metis
  with reads(6) have "fl_value f = fl_value g" "p = q" by simp_all
  moreover have "fl_scalar f = fl_scalar g"
    using reads(3) scalar_of_raw by metis
  ultimately show "f = g" "p = q" using reads by simp_all
qed

lemma FieldAt_known:
  assumes "honest s b" "StreamFieldAt s at stop = Some (f, at')" "stop \<le> length b" "length b < 2 ^ 62"
    and "cut b at stop = field_bytes F @ q" "length (fl_value F) < 2 ^ 64"
  shows "field_of b f = F" "cut b at' stop = q"
proof -
  note H = FieldAt_honest [OF assms(1-3)] FieldAt_head [OF assms(1-4)]
  have "field_bytes (field_of b f) @ cut b at' stop = field_bytes F @ q"
    using H(2) assms(5) by simp
  from field_bytes_inj [OF this] show "field_of b f = F" "cut b at' stop = q"
    using H(7) assms(6) by (simp_all add: head_ok_def)
qed

lemma FieldAt_readable:
  assumes "readable s b" "cut b at stop = field_bytes F @ q" "head_ok F" "at \<le> stop" "stop \<le> length b"
  shows "StreamFieldAt s at stop = Some (\<lparr>sf_tag = fl_tag F, sf_flags = fl_flags F, sf_scalar = fl_scalar F,
      sf_count = fl_elementCount F, sf_value = \<lparr>sl_offset = at + 24, sl_length = length (fl_value F)\<rparr>\<rparr>,
      at + length (field_bytes F))"
proof -
  let ?c = "cut b at stop"
  have len: "24 + length (fl_value F) + length q = stop - at"
    using length_cut [OF assms(5), of at] assms(2) by simp
  then have le: "24 \<le> length ?c" "24 \<le> stop - at"
    using assms(2) by simp_all
  have room: "\<not> stop < at + 24" "\<not> stop - (at + 24) < length (fl_value F)" "\<not> stop < at"
    using len assms(4) by linarith+
  have read: "Source_Read s at 24 = Some (take 24 ?c)"
    using Read_readable [OF assms(1), of at 24] le(2) assms(5) cut_take [OF le(2), of b]
    by (simp add: kReaderBuffer_def)
  show ?thesis
    unfolding StreamFieldAt_def read Let_def option.case header_reads [OF le(1)]
    unfolding assms(2) field_bytes_reads using assms(3) le(2) room
    by (simp add: head_ok_def unat_size64)
qed

lemma FieldAt_at:
  assumes "readable s b" "cut b at stop = field_bytes F @ q" "head_ok F" "at \<le> stop" "stop \<le> length b" "length b < 2 ^ 62"
  obtains f where "StreamFieldAt s at stop = Some (f, at + length (field_bytes F))" "field_of b f = F"
    "inside b (sf_value f)" "cut b (at + length (field_bytes F)) stop = q" "at + length (field_bytes F) \<le> stop"
proof -
  note H = readable_honest [OF assms(1)]
  obtain f where f: "StreamFieldAt s at stop = Some (f, at + length (field_bytes F))"
    using FieldAt_readable [OF assms(1-5)] by blast
  have "length (fl_value F) < 2 ^ 64"
    using assms(3) by (simp add: head_ok_def)
  note known = FieldAt_known [OF H f assms(5,6,2) this]
  show thesis
    by (rule that [OF f known(1) FieldAt_honest(6) [OF H f assms(5)] known(2) FieldAt_honest(5) [OF H f assms(5)]])
qed

lemma head_ok_req: "tag \<noteq> 0 \<Longrightarrow> length v < 2 ^ 64 \<Longrightarrow> head_ok (req_field tag t v)"
  by (simp add: head_ok_def req_field_def)

lemma check_Some [simp]: "check c = Some u \<longleftrightarrow> c"
  by (simp add: check_def)

lemma check_bind [simp]: "Option.bind (check c) g = (if c then g () else None)"
  by (simp add: check_def)

lemma Required_field:
  assumes "inside b (sf_value f)"
  shows "Required f tag t n \<longleftrightarrow> (\<exists>v. field_of b f = req_field tag t v \<and> length v = n)"
  using assms length_slice [OF assms] by (auto simp: Required_def field_of_def req_field_def)

lemma required_honest:
  assumes "honest s b" "required_value s f tag t n = Some v" "inside b (sf_value f)"
  shows "field_of b f = req_field tag t v" "length v = n"
proof -
  have "Required f tag t n" "Source_Read s (sl_offset (sf_value f)) n = Some v"
    using assms(2) by (auto simp: required_value_def split: if_split_asm)
  note R = Required_field [OF assms(3)] Read_honest [OF assms(1) this(2)] this(1)
  then obtain w where w: "field_of b f = req_field tag t w" "length w = n"
    by blast
  then have "w = slice_bytes b (sf_value f)" "sl_length (sf_value f) = n"
    using R(5) by (simp_all add: field_of_def req_field_def Required_def)
  with R(2) w show "field_of b f = req_field tag t v" "length v = n"
    by (simp_all add: slice_bytes_def)
qed

lemma required_readable:
  assumes "readable s b" "field_of b f = req_field tag t v" "inside b (sf_value f)" "length v \<le> kReaderBuffer"
  shows "required_value s f tag t (length v) = Some v"
proof -
  have v: "v = slice_bytes b (sf_value f)" and n: "sl_length (sf_value f) = length v"
    using assms(2) length_slice [OF assms(3)] by (auto simp: field_of_def req_field_def)
  then have "Source_Read s (sl_offset (sf_value f)) (length v) = Some v"
    using Read_readable [OF assms(1), of "sl_offset (sf_value f)" "length v"] assms(3,4)
    by (simp add: inside_def slice_bytes_def)
  then show ?thesis
    using assms(2) Required_field [OF assms(3)] by (auto simp: required_value_def)
qed

lemma Id_honest:
  assumes "honest s b" "ValidStreamId s sl = Some u"
  shows "slice_bytes b sl = u" "length u = 16" "ValidId u" "inside b sl" "sl_length sl = 16"
proof -
  have read: "Source_Read s (sl_offset sl) 16 = Some u" "ValidId u" "sl_length sl = 16"
    using assms(2) by (auto simp: ValidStreamId_def split: if_split_asm option.splits)
  from Read_honest [OF assms(1) read(1)] read(2,3)
  show "slice_bytes b sl = u" "length u = 16" "ValidId u" "inside b sl" "sl_length sl = 16"
    by (simp_all add: slice_bytes_def inside_def)
qed

lemma Id_readable:
  assumes "readable s b" "inside b sl" "sl_length sl = 16" "ValidId (slice_bytes b sl)"
  shows "ValidStreamId s sl = Some (slice_bytes b sl)"
  using assms Read_readable [OF assms(1), of "sl_offset sl" 16]
  by (simp add: ValidStreamId_def slice_bytes_def inside_def kReaderBuffer_def)

lemma counted_honest:
  assumes "honest s b" "counted_field s at stop tag = Some (sl, at')" "stop \<le> length b" "length b < 2 ^ 62"
  shows "cut b at stop = field_bytes (req_field tag ST_Bytes (BytesScalar (slice_bytes b sl))) @ cut b at' stop"
    "at' \<le> stop" "inside b sl"
proof -
  obtain f x where f: "StreamFieldAt s at stop = Some (f, at')"
    and shape: "sf_tag f = tag" "sf_flags f = 1" "sf_scalar f = ST_Bytes" "sf_count f = 1" "8 \<le> sl_length (sf_value f)"
    and x: "Source_Read s (sl_offset (sf_value f)) 8 = Some x" "unat (Get64 x) = sl_length (sf_value f) - 8"
    and sl: "sl = \<lparr>sl_offset = sl_offset (sf_value f) + 8, sl_length = sl_length (sf_value f) - 8\<rparr>"
    using assms(2) by (auto simp: counted_field_def bind_eq_Some_conv split: if_split_asm)
  note F = FieldAt_honest [OF assms(1) f assms(3)]
  obtain m where m: "sl_length (sf_value f) = 8 + m"
    using shape(5) le_Suc_ex by blast
  have v: "slice_bytes b (sf_value f) = x @ slice_bytes b sl"
    using Read_honest(1) [OF assms(1) x(1)] unfolding sl slice_bytes_def m take_add
    by (simp add: add.commute)
  show inside: "inside b sl"
    using F(6) shape(5) by (simp add: sl inside_def)
  have "length (slice_bytes b sl) = sl_length (sf_value f) - 8"
    using length_slice [OF inside] by (simp add: sl)
  then have "bytes64 (size64 (slice_bytes b sl)) = bytes64 (Get64 x)"
    unfolding x(2) [symmetric] by (simp add: size64_def)
  moreover have "bytes64 (Get64 x) = x"
    using bytes64_Get64 [of x "[]"] Read_honest(3) [OF assms(1) x(1)] by simp
  ultimately have "field_of b f = req_field tag ST_Bytes (BytesScalar (slice_bytes b sl))"
    using shape v by (simp add: field_of_def req_field_def BytesScalar_def)
  with F(2) show "cut b at stop = field_bytes (req_field tag ST_Bytes (BytesScalar (slice_bytes b sl))) @ cut b at' stop"
    by simp
  show "at' \<le> stop" by (rule F(5))
qed

lemma counted_readable:
  assumes "readable s b" "cut b at stop = field_bytes (req_field tag ST_Bytes (BytesScalar v)) @ q"
    "at \<le> stop" "stop \<le> length b" "length b < 2 ^ 62" "tag \<noteq> 0"
  obtains sl where "counted_field s at stop tag = Some (sl, at + 32 + length v)" "slice_bytes b sl = v" "inside b sl"
    "cut b (at + 32 + length v) stop = q" "at + 32 + length v \<le> stop"
proof -
  let ?F = "req_field tag ST_Bytes (BytesScalar v)"
  have len: "length (field_bytes ?F) = 32 + length v"
    by (simp add: BytesScalar_def)
  have le: "at + (32 + length v) \<le> stop" and rest: "cut b (at + (32 + length v)) stop = q"
    using cut_rest(1,2) [OF assms(2,4,3)] unfolding len .
  have small: "8 + length v < 2 ^ 64" using le assms(4,5) by simp
  then have "head_ok ?F"
    using assms(6) by (intro head_ok_req) (simp_all add: BytesScalar_def)
  then obtain f where f: "StreamFieldAt s at stop = Some (f, at + (32 + length v))" "field_of b f = ?F" "inside b (sf_value f)"
    using FieldAt_at [OF assms(1,2) _ assms(3-5)] unfolding len by metis
  let ?sl = "\<lparr>sl_offset = sl_offset (sf_value f) + 8, sl_length = sl_length (sf_value f) - 8\<rparr>"
  have val: "slice_bytes b (sf_value f) = bytes64 (size64 v) @ v"
    using f(2) by (simp add: field_of_def req_field_def BytesScalar_def)
  then have n: "sl_length (sf_value f) = 8 + length v"
    using length_slice [OF f(3)] by simp
  have "take 8 (drop (sl_offset (sf_value f)) b) = take 8 (slice_bytes b (sf_value f))"
    using n by (simp add: slice_bytes_def min_def)
  then have read: "Source_Read s (sl_offset (sf_value f)) 8 = Some (bytes64 (size64 v))"
    using Read_readable [OF assms(1), of "sl_offset (sf_value f)" 8] f(3) n val
    by (simp add: inside_def kReaderBuffer_def)
  have "unat (Get64 (bytes64 (size64 v))) = length v"
    using Get64_bytes64 [of "size64 v" "[]"] unat_size64 [of v] small by simp
  then have "counted_field s at stop tag = Some (?sl, at + 32 + length v)"
    using f(1,2) n read by (simp add: counted_field_def field_of_def req_field_def add.assoc)
  moreover have "slice_bytes b ?sl = drop 8 (slice_bytes b (sf_value f))"
    using n by (simp add: slice_bytes_def drop_take add.commute)
  then have "slice_bytes b ?sl = v" using val by simp
  moreover have "inside b ?sl" using f(3) n by (simp add: inside_def)
  ultimately show thesis using that le rest by (simp add: add.assoc)
qed

subsection \<open>Operations\<close>

definition head_fields :: "OperationKind \<Rightarrow> Uuid128 \<Rightarrow> FieldTag \<Rightarrow> PropertyKeyId option \<Rightarrow> u16 \<Rightarrow> Field list" where
  "head_fields kind u subject property raw =
     [req_field 1 ST_Uint8 [kind_code kind], req_field 2 ST_UUID128 u, req_field 3 ST_Uint16 (bytes16 subject)] @
     (case property of None \<Rightarrow> [] | Some key \<Rightarrow> [req_field 4 ST_Uint32 (bytes32 key)]) @
     [req_field 5 ST_Uint16 (bytes16 raw)]"

lemma kind_of_code: "\<not> 4 < c \<Longrightarrow> kind_code (kind_of c) = c"
proof -
  assume "\<not> 4 < c"
  then have "unat c \<le> 4" by (simp add: not_less word_le_nat_alt)
  then have "unat c = 0 \<or> unat c = 1 \<or> unat c = 2 \<or> unat c = 3 \<or> unat c = 4" by linarith
  then have "c = 0 \<or> c = 1 \<or> c = 2 \<or> c = 3 \<or> c = 4" by (simp add: word_unat_eq_iff)
  then show "kind_code (kind_of c) = c" by (auto simp: kind_code_def kind_of_def)
qed

lemma one_byte: "length v = 1 \<Longrightarrow> [v ! 0] = v"
  by (cases v) auto

lemma bytes16_self: "length v = 2 \<Longrightarrow> bytes16 (Get16 v) = v"
  using bytes16_Get16 [of v "[]"] by simp

lemma bytes32_self: "length v = 4 \<Longrightarrow> bytes32 (Get32 v) = v"
  using bytes32_Get32 [of v "[]"] by simp

text \<open>A field at an offset, then a value of a fixed size.\<close>

lemma next_required:
  assumes "honest s b" "StreamFieldAt s at stop = Some (f, at')" "required_value s f tag t n = Some v" "stop \<le> length b"
  shows "cut b at stop = field_bytes (req_field tag t v) @ cut b at' stop" "length v = n" "at' \<le> stop"
  using FieldAt_honest [OF assms(1,2,4)] required_honest [OF assms(1,3)] by simp_all

lemma next_id:
  assumes "honest s b" "StreamFieldAt s at stop = Some (f, at')" "Required f tag ST_UUID128 16"
    "ValidStreamId s (sf_value f) = Some u" "stop \<le> length b"
  shows "cut b at stop = field_bytes (req_field tag ST_UUID128 u) @ cut b at' stop" "length u = 16" "ValidId u" "at' \<le> stop"
proof -
  note F = FieldAt_honest [OF assms(1,2,5)] and I = Id_honest [OF assms(1,4)]
  obtain v where "field_of b f = req_field tag ST_UUID128 v"
    using Required_field [OF F(6)] assms(3) by blast
  moreover from this have "v = u"
    using I(1) by (simp add: field_of_def req_field_def)
  ultimately show "cut b at stop = field_bytes (req_field tag ST_UUID128 u) @ cut b at' stop" "length u = 16" "ValidId u" "at' \<le> stop"
    using F I by simp_all
qed

lemma head_honest:
  assumes "honest s b" "operation_head s at stop = Some (kind, u, subject, property, raw, at')" "stop \<le> length b"
  shows "cut b at stop = concat (map field_bytes (head_fields kind u subject property raw)) @ cut b at' stop"
    "length u = 16" "ValidId u" "at' \<le> stop"
proof -
  obtain kf a1 kv tf a2 sf a3 sv nf a4 f5 v5 where
    A: "StreamFieldAt s at stop = Some (kf, a1)" "required_value s kf 1 ST_Uint8 1 = Some kv" "\<not> 4 < kv ! 0"
      "StreamFieldAt s a1 stop = Some (tf, a2)" "Required tf 2 ST_UUID128 16" "ValidStreamId s (sf_value tf) = Some u"
      "StreamFieldAt s a2 stop = Some (sf, a3)" "required_value s sf 3 ST_Uint16 2 = Some sv"
      "StreamFieldAt s a3 stop = Some (nf, a4)"
    and five: "(if sf_tag nf = 4
      then Option.bind (required_value s nf 4 ST_Uint32 4) (\<lambda>v. Option.bind (StreamFieldAt s a4 stop) (\<lambda>(f, at). Some (Some (Get32 v), f, at)))
      else Some (None, nf, a4)) = Some (property, f5, at')"
    and v5: "required_value s f5 5 ST_Uint16 2 = Some v5"
    and out: "kind = kind_of (kv ! 0)" "subject = Get16 sv" "raw = Get16 v5"
    using assms(2) unfolding operation_head_def by (auto simp: bind_eq_Some_conv split: if_split_asm)
  note K = next_required [OF assms(1) A(1,2) assms(3)] and U = next_id [OF assms(1) A(4-6) assms(3)]
    and S = next_required [OF assms(1) A(7,8) assms(3)]
  have "cut b a3 stop = concat (map field_bytes ((case property of None \<Rightarrow> [] | Some key \<Rightarrow> [req_field 4 ST_Uint32 (bytes32 key)]) @
      [req_field 5 ST_Uint16 v5])) @ cut b at' stop \<and> length v5 = 2 \<and> at' \<le> stop"
  proof (cases "sf_tag nf = 4")
    case True
    with five obtain v4 where v4: "required_value s nf 4 ST_Uint32 4 = Some v4" "StreamFieldAt s a4 stop = Some (f5, at')"
      "property = Some (Get32 v4)"
      by (auto simp: bind_eq_Some_conv)
    show ?thesis
      using next_required [OF assms(1) A(9) v4(1) assms(3)] next_required [OF assms(1) v4(2) v5 assms(3)] v4(3)
      by (simp add: bytes32_self)
  next
    case False
    with five have same: "property = None" "f5 = nf" "at' = a4" by simp_all
    show ?thesis
      using next_required [OF assms(1) A(9) v5 [unfolded same] assms(3)] same by simp
  qed
  with K U S show "cut b at stop = concat (map field_bytes (head_fields kind u subject property raw)) @ cut b at' stop"
    "length u = 16" "ValidId u" "at' \<le> stop"
    unfolding out head_fields_def by (simp_all add: kind_of_code [OF A(3)] one_byte bytes16_self)
qed

text \<open>On a readable source the next required field is found.\<close>

lemma find_required:
  assumes "readable s b" "cut b at stop = field_bytes (req_field tag t v) @ q" "at \<le> stop" "stop \<le> length b" "length b < 2 ^ 62"
    and "tag \<noteq> 0" "length v \<le> kReaderBuffer"
  obtains f where "StreamFieldAt s at stop = Some (f, at + (24 + length v))" "required_value s f tag t (length v) = Some v"
    "cut b (at + (24 + length v)) stop = q" "at + (24 + length v) \<le> stop" "sf_tag f = tag" "Required f tag t (length v)"
    "inside b (sf_value f)" "slice_bytes b (sf_value f) = v" "sl_length (sf_value f) = length v"
proof -
  have "head_ok (req_field tag t v)"
    using assms(6,7) by (intro head_ok_req) (simp_all add: kReaderBuffer_def)
  from FieldAt_at [OF assms(1,2) this assms(3-5)] obtain f where
    f: "StreamFieldAt s at stop = Some (f, at + (24 + length v))" "field_of b f = req_field tag t v" "inside b (sf_value f)"
      "cut b (at + (24 + length v)) stop = q" "at + (24 + length v) \<le> stop"
    by auto
  have val: "sf_tag f = tag" "slice_bytes b (sf_value f) = v"
    using f(2) by (simp_all add: field_of_def req_field_def)
  have "Required f tag t (length v)"
    using Required_field [OF f(3)] f(2) by blast
  with val that [OF f(1) required_readable [OF assms(1) f(2,3) assms(7)] f(4,5)] f(3) length_slice [OF f(3)]
  show thesis by simp
qed

lemma small_values [simp]: "n \<le> 16 \<Longrightarrow> n \<le> kReaderBuffer"
  by (simp add: kReaderBuffer_def)

lemma tail_readable:
  assumes "readable s b" "stop \<le> length b" "length b < 2 ^ 62" "at \<le> stop"
    and "cut b at stop = concat (map field_bytes ((case property of None \<Rightarrow> [] | Some key \<Rightarrow> [req_field 4 ST_Uint32 (bytes32 key)]) @
      [req_field 5 ST_Uint16 (bytes16 raw)])) @ q"
  obtains nf a f5 at' where "StreamFieldAt s at stop = Some (nf, a)"
    "(if sf_tag nf = 4
      then Option.bind (required_value s nf 4 ST_Uint32 4) (\<lambda>v. Option.bind (StreamFieldAt s a stop) (\<lambda>(f, at). Some (Some (Get32 v), f, at)))
      else Some (None, nf, a)) = Some (property, f5, at')"
    "required_value s f5 5 ST_Uint16 2 = Some (bytes16 raw)" "cut b at' stop = q" "at' \<le> stop"
proof (cases property)
  case None
  then have "cut b at stop = field_bytes (req_field 5 ST_Uint16 (bytes16 raw)) @ q"
    using assms(5) by simp
  from find_required [OF assms(1) this assms(4,2,3)] obtain f where
    "StreamFieldAt s at stop = Some (f, at + 26)" "required_value s f 5 ST_Uint16 2 = Some (bytes16 raw)"
    "cut b (at + 26) stop = q" "at + 26 \<le> stop" "sf_tag f = 5"
    by auto
  with None show thesis by (intro that) auto
next
  case (Some key)
  then have "cut b at stop = field_bytes (req_field 4 ST_Uint32 (bytes32 key)) @ field_bytes (req_field 5 ST_Uint16 (bytes16 raw)) @ q"
    using assms(5) by simp
  from find_required [OF assms(1) this assms(4,2,3)] obtain n where
    n: "StreamFieldAt s at stop = Some (n, at + 28)" "required_value s n 4 ST_Uint32 4 = Some (bytes32 key)"
    "cut b (at + 28) stop = field_bytes (req_field 5 ST_Uint16 (bytes16 raw)) @ q" "at + 28 \<le> stop" "sf_tag n = 4"
    by auto
  from find_required [OF assms(1) n(3,4) assms(2,3)] obtain f where
    "StreamFieldAt s (at + 28) stop = Some (f, at + 28 + 26)" "required_value s f 5 ST_Uint16 2 = Some (bytes16 raw)"
    "cut b (at + 28 + 26) stop = q" "at + 28 + 26 \<le> stop"
    by auto
  with n Some show thesis by (intro that) auto
qed

lemma head_readable:
  assumes "readable s b" "stop \<le> length b" "length b < 2 ^ 62" "at \<le> stop" "length u = 16" "ValidId u"
    and "cut b at stop = concat (map field_bytes (head_fields kind u subject property raw)) @ q"
  obtains at' where "operation_head s at stop = Some (kind, u, subject, property, raw, at')" "cut b at' stop = q" "at' \<le> stop"
proof -
  let ?tail = "concat (map field_bytes ((case property of None \<Rightarrow> [] | Some key \<Rightarrow> [req_field 4 ST_Uint32 (bytes32 key)]) @
      [req_field 5 ST_Uint16 (bytes16 raw)])) @ q"
  have "cut b at stop = field_bytes (req_field 1 ST_Uint8 [kind_code kind]) @ field_bytes (req_field 2 ST_UUID128 u) @
      field_bytes (req_field 3 ST_Uint16 (bytes16 subject)) @ ?tail"
    using assms(7) by (simp add: head_fields_def)
  from find_required [OF assms(1) this assms(4,2,3)] obtain k where
    k: "StreamFieldAt s at stop = Some (k, at + 25)" "required_value s k 1 ST_Uint8 1 = Some [kind_code kind]"
      "cut b (at + 25) stop = field_bytes (req_field 2 ST_UUID128 u) @ field_bytes (req_field 3 ST_Uint16 (bytes16 subject)) @ ?tail"
      "at + 25 \<le> stop"
    by auto
  from find_required [OF assms(1) k(3,4) assms(2,3)] assms(5) obtain t where
    t: "StreamFieldAt s (at + 25) stop = Some (t, at + 25 + 40)"
      "cut b (at + 25 + 40) stop = field_bytes (req_field 3 ST_Uint16 (bytes16 subject)) @ ?tail" "at + 25 + 40 \<le> stop"
      "Required t 2 ST_UUID128 16" "inside b (sf_value t)" "slice_bytes b (sf_value t) = u" "sl_length (sf_value t) = 16"
    by auto
  have id: "ValidStreamId s (sf_value t) = Some u"
    using Id_readable [OF assms(1) t(5,7)] t(6) assms(6) by simp
  from find_required [OF assms(1) t(2,3) assms(2,3)] obtain sf where
    sf: "StreamFieldAt s (at + 25 + 40) stop = Some (sf, at + 25 + 40 + 26)"
      "required_value s sf 3 ST_Uint16 2 = Some (bytes16 subject)" "cut b (at + 25 + 40 + 26) stop = ?tail" "at + 25 + 40 + 26 \<le> stop"
    by auto
  from tail_readable [OF assms(1-3) sf(4,3)] obtain nf a f5 at' where
    tail: "StreamFieldAt s (at + 25 + 40 + 26) stop = Some (nf, a)"
    "(if sf_tag nf = 4
      then Option.bind (required_value s nf 4 ST_Uint32 4) (\<lambda>v. Option.bind (StreamFieldAt s a stop) (\<lambda>(f, at). Some (Some (Get32 v), f, at)))
      else Some (None, nf, a)) = Some (property, f5, at')"
    "required_value s f5 5 ST_Uint16 2 = Some (bytes16 raw)" "cut b at' stop = q" "at' \<le> stop" .
  have "operation_head s at stop = Some (kind, u, subject, property, raw, at')"
    unfolding operation_head_def k(1,2) bind.bind_lunit prod.case t(1) id sf(1,2) tail(1-3) check_bind using t(4) by simp
  then show thesis by (rule that [OF _ tail(4,5)])
qed

definition op_of :: "bytes \<Rightarrow> StreamOperation \<Rightarrow> OperationV1" where
  "op_of b opn = \<lparr>op_kind = so_kind opn, op_target = so_target opn, op_subject = so_subject opn,
     op_propertyKey = so_property opn, op_scalar = so_scalar opn, op_before = slice_bytes b (so_before opn),
     op_after = slice_bytes b (so_after opn)\<rparr>"

lemma op_fields_head:
  "op_fields opn = head_fields (op_kind opn) (op_target opn) (op_subject opn) (op_propertyKey opn) (scalar_raw (op_scalar opn)) @
     [req_field 6 ST_Bytes (BytesScalar (op_before opn)), req_field 7 ST_Bytes (BytesScalar (op_after opn))]"
  by (simp add: op_fields_def head_fields_def)

text \<open>An operation of the file, as a slice that holds its encoding.\<close>

definition holds_op :: "bytes \<Rightarrow> StreamOperation \<Rightarrow> OperationV1 \<Rightarrow> bool" where
  "holds_op b opn o' \<longleftrightarrow> op_of b opn = o' \<and> inside b (so_before opn) \<and> inside b (so_after opn) \<and>
     inside b (so_encoded opn) \<and> slice_bytes b (so_encoded opn) = EncodeOperation o' \<and> op_shape o' \<and> ValidId (op_target o')"

lemma Parse_honest:
  assumes "honest s b" "ParseStreamOperation s encoded = Inr opn" "inside b encoded" "length b < 2 ^ 62"
  shows "holds_op b opn (op_of b opn)" "so_encoded opn = encoded"
proof -
  let ?stop = "sl_offset encoded + sl_length encoded"
  have le: "?stop \<le> length b" using assms(3) by (simp add: inside_def)
  obtain kind u subject property raw at before after where
    head: "operation_head s (sl_offset encoded) ?stop = Some (kind, u, subject, property, raw, at)"
    and vals: "operation_values s at ?stop raw = Some (before, after)"
    and opn: "opn = \<lparr>so_kind = kind, so_target = u, so_subject = subject, so_property = property,
      so_scalar = scalar_of raw, so_encoded = encoded, so_before = before, so_after = after\<rparr>"
    using assms(2) by (auto simp: ParseStreamOperation_def orE_def Let_def bindE_Inr_iff split: option.splits)
  obtain a where raw: "\<not> 17 < raw" and 6: "counted_field s at ?stop 6 = Some (before, a)"
    and 7: "counted_field s a ?stop 7 = Some (after, ?stop)"
    using vals by (auto simp: operation_values_def bind_eq_Some_conv split: if_split_asm)
  note H = head_honest [OF assms(1) head le] and B = counted_honest [OF assms(1) 6 le assms(4)]
    and A = counted_honest [OF assms(1) 7 le assms(4)]
  have shape: "op_shape (op_of b opn)"
    using H(2) B(3) A(3) assms(4) by (simp add: op_shape_def op_of_def opn) (simp add: inside_def)
  have "slice_bytes b encoded = concat (map field_bytes (op_fields (op_of b opn)))"
    unfolding op_fields_head cut_slice [symmetric] using H(1) B(1) A(1) raw by (simp add: op_of_def opn)
  with H shape B(3) A(3) assms(3) show "holds_op b opn (op_of b opn)"
    by (simp add: holds_op_def EncodeOperation_bytes) (simp add: op_of_def opn)
  show "so_encoded opn = encoded" by (simp add: opn)
qed

lemma Parse_readable:
  assumes "readable s b" "inside b encoded" "length b < 2 ^ 62" "slice_bytes b encoded = EncodeOperation opn"
    "op_shape opn" "ValidId (op_target opn)"
  obtains sop where "ParseStreamOperation s encoded = Inr sop" "holds_op b sop opn" "so_encoded sop = encoded"
proof -
  let ?stop = "sl_offset encoded + sl_length encoded"
  have le: "?stop \<le> length b" using assms(2) by (simp add: inside_def)
  have "cut b (sl_offset encoded) ?stop = concat (map field_bytes (head_fields (op_kind opn) (op_target opn) (op_subject opn)
      (op_propertyKey opn) (scalar_raw (op_scalar opn)))) @ field_bytes (req_field 6 ST_Bytes (BytesScalar (op_before opn))) @
      field_bytes (req_field 7 ST_Bytes (BytesScalar (op_after opn))) @ []"
    using assms(4,5) by (simp add: cut_slice EncodeOperation_bytes op_fields_head)
  from head_readable [OF assms(1) le assms(3) _ _ assms(6) this] assms(5) obtain at where
    head: "operation_head s (sl_offset encoded) ?stop =
      Some (op_kind opn, op_target opn, op_subject opn, op_propertyKey opn, scalar_raw (op_scalar opn), at)"
    "cut b at ?stop = field_bytes (req_field 6 ST_Bytes (BytesScalar (op_before opn))) @
      field_bytes (req_field 7 ST_Bytes (BytesScalar (op_after opn))) @ []" "at \<le> ?stop"
    by (auto simp: op_shape_def)
  from counted_readable [OF assms(1) head(2,3) le assms(3)] obtain before where
    before: "counted_field s at ?stop 6 = Some (before, at + 32 + length (op_before opn))"
      "slice_bytes b before = op_before opn" "inside b before"
      "cut b (at + 32 + length (op_before opn)) ?stop = field_bytes (req_field 7 ST_Bytes (BytesScalar (op_after opn))) @ []"
      "at + 32 + length (op_before opn) \<le> ?stop"
    by auto
  let ?a = "at + 32 + length (op_before opn) + 32 + length (op_after opn)"
  from counted_readable [OF assms(1) before(4,5) le assms(3)] obtain after where
    after: "counted_field s (at + 32 + length (op_before opn)) ?stop 7 = Some (after, ?a)"
      "slice_bytes b after = op_after opn" "inside b after" "cut b ?a ?stop = []" "?a \<le> ?stop"
    by auto
  have "?a = ?stop"
    using length_cut [OF le, of ?a] after(4,5) by simp
  then have vals: "operation_values s at ?stop (scalar_raw (op_scalar opn)) = Some (before, after)"
    using before(1) after(1) by (simp add: operation_values_def)
  show thesis
  proof (rule that)
    show "ParseStreamOperation s encoded = Inr \<lparr>so_kind = op_kind opn, so_target = op_target opn, so_subject = op_subject opn,
        so_property = op_propertyKey opn, so_scalar = op_scalar opn, so_encoded = encoded, so_before = before, so_after = after\<rparr>"
      using head(1) vals by (simp add: ParseStreamOperation_def orE_def Let_def)
  qed (use before after assms in \<open>simp_all add: holds_op_def op_of_def\<close>)
qed

subsection \<open>Arrays\<close>

definition frame_of :: "bytes \<Rightarrow> bytes" where
  "frame_of v = bytes64 (size64 v) @ v"

definition frames :: "bytes list \<Rightarrow> bytes" where
  "frames vs = concat (map frame_of vs)"

lemma frames_simps [simp]: "frames [] = []" "frames (v # vs) = frame_of v @ frames vs" "frames (xs @ ys) = frames xs @ frames ys"
  by (simp_all add: frames_def)

lemma length_frame [simp]: "length (frame_of v) = 8 + length v"
  by (simp add: frame_of_def)

lemma Element_honest:
  assumes "honest s b" "StreamArrayElement s at stop = Some (e, at')" "stop \<le> length b"
  shows "cut b at stop = frame_of (slice_bytes b e) @ cut b at' stop" "inside b e" "at' \<le> stop"
    "at' = at + length (frame_of (slice_bytes b e))" "at \<le> stop"
proof -
  let ?c = "cut b at stop"
  obtain x where le: "at \<le> stop" "8 \<le> stop - at" and x: "Source_Read s at 8 = Some x"
    and n: "unat (Get64 x) \<le> stop - at - 8" and e: "e = \<lparr>sl_offset = at + 8, sl_length = unat (Get64 x)\<rparr>"
    and at': "at' = at + (8 + unat (Get64 x))"
    using assms(2) by (auto simp: StreamArrayElement_def Let_def split: if_split_asm option.splits)
  have x8: "x = take 8 ?c" "length x = 8"
    using Read_honest [OF assms(1) x] cut_take [OF le(2), of b] by simp_all
  show inside: "inside b e"
    using n le assms(3) by (simp add: e inside_def)
  have len: "length (slice_bytes b e) = unat (Get64 x)"
    using length_slice [OF inside] by (simp add: e)
  then have frame: "frame_of (slice_bytes b e) = x @ slice_bytes b e"
    using bytes64_Get64 [of x "[]"] x8(2) by (simp add: frame_of_def size64_def)
  have "slice_bytes b e = take (unat (Get64 x)) (drop 8 ?c)"
    using cut_take [of "unat (Get64 x)" stop "at + 8" b] n by (simp add: e slice_bytes_def cut_drop)
  then have split: "?c = frame_of (slice_bytes b e) @ drop (unat (Get64 x)) (drop 8 ?c)"
    unfolding frame by (metis append.assoc append_take_drop_id x8(1))
  show at_n: "at' = at + length (frame_of (slice_bytes b e))"
    by (simp add: at' len)
  show "at \<le> stop" by (rule le)
  from cut_rest(1,2) [OF split assms(3) le(1)] split at_n
  show "?c = frame_of (slice_bytes b e) @ cut b at' stop" "at' \<le> stop" by simp_all
qed

lemma frame_inj:
  assumes "frame_of v @ p = frame_of w @ q" "length v < 2 ^ 64" "length w < 2 ^ 64"
  shows "v = w" "p = q"
proof -
  have "Get64 (bytes64 (size64 v) @ v @ p) = Get64 (bytes64 (size64 w) @ w @ q)"
    using assms(1) by (simp add: frame_of_def)
  then have "length v = length w"
    using assms(2,3) unat_size64 [of v] unat_size64 [of w] by simp
  with assms(1) show "v = w" "p = q" by (simp_all add: frame_of_def)
qed

lemma Element_known:
  assumes "honest s b" "StreamArrayElement s at stop = Some (e, at')" "stop \<le> length b" "length b < 2 ^ 62"
    and "cut b at stop = frame_of v @ q" "length v < 2 ^ 64"
  shows "slice_bytes b e = v" "cut b at' stop = q" "inside b e" "at' \<le> stop"
proof -
  note E = Element_honest [OF assms(1-3)]
  have "length (slice_bytes b e) < 2 ^ 64"
    using length_slice [OF E(2)] E(2) assms(4) by (simp add: inside_def)
  from frame_inj [OF trans [OF E(1) [symmetric] assms(5)] this assms(6)] show "slice_bytes b e = v" "cut b at' stop = q" .
  show "inside b e" "at' \<le> stop" by (rule E(2,3))+
qed

lemma Element_readable:
  assumes "readable s b" "cut b at stop = frame_of v @ q" "at \<le> stop" "stop \<le> length b" "length b < 2 ^ 62"
  obtains e where "StreamArrayElement s at stop = Some (e, at + (8 + length v))" "slice_bytes b e = v" "inside b e"
    "cut b (at + (8 + length v)) stop = q" "at + (8 + length v) \<le> stop" "sl_length e = length v"
proof -
  have rest: "at + (8 + length v) \<le> stop" "cut b (at + (8 + length v)) stop = q"
    using cut_rest [OF assms(2,4,3)] by simp_all
  then have "length v < 2 ^ 64" using assms(4,5) by simp
  have "take 8 (drop at b) = bytes64 (size64 v)"
    using cut_take [of 8 stop at b] rest(1) assms(2) by (simp add: frame_of_def)
  then have read: "Source_Read s at 8 = Some (bytes64 (size64 v))"
    using Read_readable [OF assms(1), of at 8] rest(1) assms(4) by simp
  have n: "unat (Get64 (bytes64 (size64 v))) = length v"
    using Get64_bytes64 [of "size64 v" "[]"] unat_size64 [OF \<open>length v < 2 ^ 64\<close>] by simp
  have room: "\<not> stop - at < 8" "\<not> length v > stop - at - 8" "\<not> stop < at"
    using rest(1) by linarith+
  let ?e = "\<lparr>sl_offset = at + 8, sl_length = length v\<rparr>"
  have elem: "StreamArrayElement s at stop = Some (?e, at + (8 + length v))"
    unfolding StreamArrayElement_def read Let_def option.case n using room by simp
  note known = Element_known [OF readable_honest [OF assms(1)] elem assms(4,5,2) \<open>length v < 2 ^ 64\<close>]
  show thesis
    by (rule that [OF elem known(1,3) rest(2,1)]) simp
qed

subsection \<open>The identities of a patch\<close>

fun ids_ok :: "Uuid128 option \<Rightarrow> Uuid128 list \<Rightarrow> bool" where
  "ids_ok prior [] = True"
| "ids_ok prior (u # us) \<longleftrightarrow> ValidId u \<and> length u = 16 \<and> (case prior of Some p \<Rightarrow> p < u | None \<Rightarrow> True) \<and> ids_ok (Some u) us"

lemma locals_honest:
  assumes "honest s b" "stop \<le> length b"
  shows "stream_locals s stop n at prior = Some at' \<Longrightarrow> at \<le> stop \<Longrightarrow>
    \<exists>us. length us = n \<and> cut b at stop = frames us @ cut b at' stop \<and> ids_ok prior us \<and> at' \<le> stop"
proof (induction n arbitrary: at prior)
  case (Suc n)
  obtain sl a u where E: "StreamArrayElement s at stop = Some (sl, a)" and I: "ValidStreamId s sl = Some u"
    and order: "case prior of Some p \<Rightarrow> p < u | None \<Rightarrow> True" and rest: "stream_locals s stop n a (Some u) = Some at'"
    using Suc.prems(1) by (auto simp: bind_eq_Some_conv split: if_split_asm)
  note E' = Element_honest [OF assms(1) E assms(2)] and I' = Id_honest [OF assms(1) I]
  from Suc.IH [OF rest E'(3)] obtain us where
    "length us = n" "cut b a stop = frames us @ cut b at' stop" "ids_ok (Some u) us" "at' \<le> stop" by blast
  then show ?case
    using E'(1) I' order by (intro exI [of _ "u # us"]) simp
qed simp

lemma locals_readable:
  assumes "readable s b" "stop \<le> length b" "length b < 2 ^ 62"
  shows "cut b at stop = frames us @ q \<Longrightarrow> ids_ok prior us \<Longrightarrow> at \<le> stop \<Longrightarrow>
    stream_locals s stop (length us) at prior = Some (at + length (frames us))"
proof (induction us arbitrary: at prior)
  case (Cons u us)
  have "cut b at stop = frame_of u @ frames us @ q" using Cons.prems(1) by simp
  from Element_readable [OF assms(1) this Cons.prems(3) assms(2,3)] obtain e where
    e: "StreamArrayElement s at stop = Some (e, at + (8 + length u))" "slice_bytes b e = u" "inside b e"
      "cut b (at + (8 + length u)) stop = frames us @ q" "at + (8 + length u) \<le> stop" "sl_length e = length u" .
  have "ValidStreamId s e = Some u"
    using Id_readable [OF assms(1) e(3)] e(2,6) Cons.prems(2) by simp
  with e(1,4,5) Cons.IH [OF e(4) _ e(5), of "Some u"] Cons.prems(2) show ?case
    by (simp add: add.assoc)
qed simp

lemma ids_ok_alt:
  "ids_ok prior us \<longleftrightarrow> (\<forall>u \<in> set us. length u = 16) \<and> sorted us \<and> check_locals prior us \<and>
     (\<forall>p. prior = Some p \<longrightarrow> (\<forall>u \<in> set us. p \<le> u))"
proof (induction prior us rule: ids_ok.induct)
  case (2 prior u us)
  then show ?case
    by (cases us; cases prior) (auto simp: order.strict_iff_order intro: order.trans)
qed auto

lemma scan_honest:
  assumes "honest s b" "stop \<le> length b" "length b < 2 ^ 62"
  shows "scan_local s stop wanted (length us) at prior present = Some r \<Longrightarrow> cut b at stop = frames us \<Longrightarrow>
    (\<forall>u \<in> set us. length u = 16) \<Longrightarrow> r \<longleftrightarrow> present \<or> wanted \<in> set us"
proof (induction us arbitrary: at prior present)
  case (Cons u us)
  obtain sl a v where E: "StreamArrayElement s at stop = Some (sl, a)" and I: "ValidStreamId s sl = Some v"
    and rest: "scan_local s stop wanted (length us) a (Some v) (present \<or> EqualUuid v wanted) = Some r"
    using Cons.prems(1) by (auto simp: bind_eq_Some_conv split: if_split_asm)
  have "cut b at stop = frame_of u @ frames us" using Cons.prems(2) by simp
  note E' = Element_known [OF assms(1) E assms(2,3) this]
  have "v = u" "cut b a stop = frames us"
    using E'(1,2) Id_honest(1) [OF assms(1) I] Cons.prems(3) by simp_all
  with Cons.IH [OF rest] Cons.prems(3) show ?case
    by (auto simp: EqualUuid_def)
qed (auto split: if_split_asm)

lemma scan_readable:
  assumes "readable s b" "stop \<le> length b" "length b < 2 ^ 62"
  shows "cut b at stop = frames us \<Longrightarrow> ids_ok prior us \<Longrightarrow> at \<le> stop \<Longrightarrow>
    scan_local s stop wanted (length us) at prior present \<noteq> None"
proof (induction us arbitrary: at prior present)
  case Nil
  then show ?case
    using length_cut [OF assms(2), of at] by simp
next
  case (Cons u us)
  have "cut b at stop = frame_of u @ frames us" using Cons.prems(1) by simp
  from Element_readable [OF assms(1) this Cons.prems(3) assms(2,3)] obtain e where
    e: "StreamArrayElement s at stop = Some (e, at + (8 + length u))" "slice_bytes b e = u" "inside b e"
      "cut b (at + (8 + length u)) stop = frames us" "at + (8 + length u) \<le> stop" "sl_length e = length u" .
  have "ValidStreamId s e = Some u"
    using Id_readable [OF assms(1) e(3)] e(2,6) Cons.prems(2) by simp
  with e(1) Cons.IH [OF e(4) _ e(5), of "Some u"] Cons.prems(2) show ?case
    by (simp del: not_None_eq)
qed

subsection \<open>Values\<close>

lemma slice_read_honest:
  assumes "honest s b" "Source_Read s (sl_offset sl + j) k = Some x" "j + k \<le> sl_length sl"
  shows "x = take k (drop j (slice_bytes b sl))"
proof -
  have "take k (drop j (slice_bytes b sl)) = take k (drop (sl_offset sl + j) b)"
    using assms(3) by (simp add: slice_bytes_def drop_take min_def add.commute)
  with Read_honest(1) [OF assms(1,2)] show ?thesis by simp
qed

lemma slice_read_readable:
  assumes "readable s b" "inside b sl" "j + k \<le> sl_length sl" "k \<le> kReaderBuffer"
  shows "Source_Read s (sl_offset sl + j) k = Some (take k (drop j (slice_bytes b sl)))"
proof -
  have read: "Source_Read s (sl_offset sl + j) k = Some (take k (drop (sl_offset sl + j) b))"
    using assms by (intro Read_readable) (auto simp: inside_def)
  with slice_read_honest [OF readable_honest [OF assms(1)] read assms(3)] show ?thesis by simp
qed

lemma blocks_take: "uuid_blocks n (take (16 * n) w) = uuid_blocks n w"
  by (induction n arbitrary: w) (simp_all add: drop_take min_def)

lemma blocks_honest:
  "honest s b \<Longrightarrow> reference_blocks s off n = Some us \<Longrightarrow> us = uuid_blocks n (drop off b) \<and> (\<forall>u \<in> set us. ValidId u)"
proof (induction n arbitrary: off us)
  case (Suc n)
  obtain u ws where u: "ValidStreamId s \<lparr>sl_offset = off, sl_length = 16\<rparr> = Some u"
    and ws: "reference_blocks s (off + 16) n = Some ws" "us = u # ws"
    using Suc.prems(2) by (auto simp: bind_eq_Some_conv)
  from Suc.IH [OF Suc.prems(1) ws(1)] Id_honest(1,3) [OF Suc.prems(1) u] ws(2) show ?case
    by (simp add: slice_bytes_def add.commute)
qed simp

lemma blocks_readable:
  "readable s b \<Longrightarrow> off + 16 * n \<le> length b \<Longrightarrow> \<forall>u \<in> set (uuid_blocks n (drop off b)). ValidId u \<Longrightarrow>
    reference_blocks s off n = Some (uuid_blocks n (drop off b))"
proof (induction n arbitrary: off)
  case (Suc n)
  let ?sl = "\<lparr>sl_offset = off, sl_length = 16\<rparr>"
  have "ValidStreamId s ?sl = Some (slice_bytes b ?sl)"
    by (rule Id_readable [OF Suc.prems(1)]) (use Suc.prems(2,3) in \<open>simp_all add: inside_def slice_bytes_def\<close>)
  with Suc.IH [of "off + 16"] Suc.prems show ?case
    by (simp add: slice_bytes_def add.commute)
qed simp

lemma references_slice:
  assumes "inside b sl" "sl_length sl mod 16 = 0"
  shows "references (slice_bytes b sl) = uuid_blocks (sl_length sl div 16) (drop (sl_offset sl) b)"
proof -
  have "sl_length sl = 16 * (sl_length sl div 16)" using assms(2) by auto
  then show ?thesis
    using blocks_take [of "sl_length sl div 16" "drop (sl_offset sl) b"] length_slice [OF assms(1)]
    by (simp add: references_def slice_bytes_def)
qed

lemma references_honest:
  assumes "honest s b" "inside b sl" "sl_length sl mod 16 = 0" "stream_references s sl = Some us"
  shows "us = references (slice_bytes b sl)" "\<forall>u \<in> set us. ValidId u"
  using blocks_honest [OF assms(1) assms(4) [unfolded stream_references_def]] references_slice [OF assms(2,3)] by simp_all

lemma references_readable:
  assumes "readable s b" "inside b sl" "sl_length sl mod 16 = 0" "\<forall>u \<in> set (references (slice_bytes b sl)). ValidId u"
  shows "stream_references s sl = Some (references (slice_bytes b sl))"
proof -
  have "16 * (sl_length sl div 16) = sl_length sl" using assms(3) by auto
  then have "sl_offset sl + 16 * (sl_length sl div 16) \<le> length b"
    using assms(2) by (simp add: inside_def)
  from blocks_readable [OF assms(1) this] assms(4) show ?thesis
    unfolding references_slice [OF assms(2,3)] stream_references_def by blast
qed

lemma prefix_reads:
  "8 \<le> length v \<Longrightarrow> Get64 (take 8 v) = Get64 v" "16 \<le> length v \<Longrightarrow> take 16 v ! 8 = v ! 8"
  "16 \<le> length v \<Longrightarrow> (\<exists>i \<in> set [9..<16]. take 16 v ! i \<noteq> 0) \<longleftrightarrow> (\<exists>i \<in> set [9..<16]. v ! i \<noteq> 0)"
  using Get64_prefix [of "take 8 v" "drop 8 v"] by simp_all

lemma counted_slice:
  "8 \<le> length v \<Longrightarrow> counted_ok width v \<longleftrightarrow>
     \<not> (2 ^ 64 - 1) div width < unat (Get64 v) \<and> unat (Get64 v) * width = length v - 8"
  by (auto simp: counted_ok_def Let_def)

lemma scalar_honest:
  assumes "honest s b" "inside b sl" "StreamScalarCanonical s t sl"
  shows "ValidateCanonicalScalar t (slice_bytes b sl) = CE_None"
proof -
  let ?v = "slice_bytes b sl"
  have n: "length ?v = sl_length sl" by (rule length_slice [OF assms(2)])
  note read = slice_read_honest [OF assms(1), of sl 0, simplified] slice_read_honest [OF assms(1), of sl 16]
  consider (fixed) "FixedScalarBytes t \<noteq> 0" | (struct) "t = ST_Struct"
    | (counted) "t = ST_UTF16 \<or> t = ST_Bytes" "FixedScalarBytes t = 0" | (enum) "t = ST_Enum" "FixedScalarBytes t = 0"
    | (slice) "t = ST_BlobSlice" "FixedScalarBytes t = 0" | (other) "FixedScalarBytes t = 0"
      "t \<notin> {ST_Struct, ST_UTF16, ST_Bytes, ST_Enum, ST_BlobSlice}"
    by blast
  then show ?thesis
  proof cases
    case fixed
    with assms(3) obtain x where "Source_Read s (sl_offset sl) (FixedScalarBytes t) = Some x"
      "sl_length sl = FixedScalarBytes t" "ValidateCanonicalScalar t x = CE_None"
      by (auto simp: StreamScalarCanonical_def split: option.splits)
    with read(1) [of "FixedScalarBytes t" x] n show ?thesis by simp
  next
    case counted
    with assms(3) obtain x where x: "Source_Read s (sl_offset sl) 8 = Some x" "\<not> sl_length sl < 8"
      "\<not> unat (Get64 x) > (2 ^ 64 - 1) div (if t = ST_UTF16 then 2 else 1)"
      "unat (Get64 x) * (if t = ST_UTF16 then 2 else 1) = sl_length sl - 8"
      by (auto simp: StreamScalarCanonical_def Let_def split: option.splits if_split_asm)
    then have "Get64 x = Get64 ?v"
      using read(1) [OF x(1)] prefix_reads(1) [of ?v] n by simp
    with x(2-4) counted n show ?thesis
      by (simp add: ValidateCanonicalScalar_def counted_slice)
  next
    case enum
    with assms(3) obtain x where x: "Source_Read s (sl_offset sl) 16 = Some x" "\<not> sl_length sl < 16" "\<not> x ! 8 > 1"
      "\<not> (\<exists>i \<in> set [9..<16]. x ! i \<noteq> 0)"
      and long: "if x ! 8 = 0 then sl_length sl = 16 else \<not> sl_length sl < 24 \<and>
        (\<exists>y. Source_Read s (sl_offset sl + 16) 8 = Some y \<and> \<not> unat (Get64 y) > (2 ^ 64 - 1) div 2 \<and>
          unat (Get64 y) * 2 = sl_length sl - 24)"
      by (auto simp: StreamScalarCanonical_def Let_def simp del: set_upt split: option.splits if_split_asm)
    then have x16: "x = take 16 ?v" using read(1) [OF x(1)] by simp
    have "counted_ok 2 (drop 16 ?v)" if nz: "x ! 8 \<noteq> 0"
    proof -
      obtain y where y: "Source_Read s (sl_offset sl + 16) 8 = Some y" "\<not> sl_length sl < 24"
        "\<not> unat (Get64 y) > (2 ^ 64 - 1) div 2" "unat (Get64 y) * 2 = sl_length sl - 24"
        using long nz by auto
      then have "Get64 y = Get64 (drop 16 ?v)"
        using read(2) [OF y(1)] prefix_reads(1) [of "drop 16 ?v"] n by simp
      with y n show ?thesis by (simp add: counted_slice)
    qed
    moreover have long16: "16 \<le> length ?v" using x(2) n by simp
    note prefix_reads(2,3) [OF long16, folded x16]
    moreover from this x(3,4) have "\<not> ?v ! 8 > 1" "\<not> (\<exists>i \<in> set [9..<16]. ?v ! i \<noteq> 0)"
      by (simp_all del: set_upt)
    moreover have "x ! 8 = 0 \<Longrightarrow> length ?v = 16" using long n by simp
    ultimately show ?thesis
      using enum long16 unfolding ValidateCanonicalScalar_def by (simp del: set_upt)
  qed (use assms(3) n in \<open>auto simp: StreamScalarCanonical_def ValidateCanonicalScalar_def FixedScalarBytes_def\<close>)
qed

lemma fixed_small: "FixedScalarBytes t \<le> 32"
  by (cases t) (simp_all add: FixedScalarBytes_def)

lemma scalar_readable:
  assumes "readable s b" "inside b sl" "ValidateCanonicalScalar t (slice_bytes b sl) = CE_None"
  shows "StreamScalarCanonical s t sl"
proof -
  let ?v = "slice_bytes b sl"
  have n: "length ?v = sl_length sl" by (rule length_slice [OF assms(2)])
  note read = slice_read_readable [OF assms(1,2), of 0, simplified] slice_read_readable [OF assms(1,2), of 16]
  consider (fixed) "FixedScalarBytes t \<noteq> 0" | (struct) "t = ST_Struct" "FixedScalarBytes t = 0"
    | (counted) "t = ST_UTF16 \<or> t = ST_Bytes" "FixedScalarBytes t = 0" | (enum) "t = ST_Enum" "FixedScalarBytes t = 0"
    | (slice) "t = ST_BlobSlice" "FixedScalarBytes t = 0" | (other) "FixedScalarBytes t = 0"
      "t \<notin> {ST_Struct, ST_UTF16, ST_Bytes, ST_Enum, ST_BlobSlice}"
    by blast
  then show ?thesis
  proof cases
    case fixed
    then have len: "sl_length sl = FixedScalarBytes t"
      using assms(3) n by (auto simp: ValidateCanonicalScalar_def fixed_scalar_def split: if_split_asm)
    moreover have "FixedScalarBytes t \<le> kReaderBuffer"
      using fixed_small [of t] by (simp add: kReaderBuffer_def)
    ultimately show ?thesis
      using fixed read(1) [of "FixedScalarBytes t"] assms(3) n by (simp add: StreamScalarCanonical_def)
  next
    case counted
    then have v: "8 \<le> length ?v" "\<not> (2 ^ 64 - 1) div (if t = ST_UTF16 then 2 else 1) < unat (Get64 ?v)"
      "unat (Get64 ?v) * (if t = ST_UTF16 then 2 else 1) = length ?v - 8"
      using assms(3) by (auto simp: ValidateCanonicalScalar_def counted_ok_def Let_def split: if_split_asm)
    then show ?thesis
      using counted n read(1) [of 8] prefix_reads(1) [OF v(1)] by (auto simp: StreamScalarCanonical_def Let_def)
  next
    case enum
    then have v: "16 \<le> length ?v" "\<not> ?v ! 8 > 1" "\<not> (\<exists>i \<in> set [9..<16]. ?v ! i \<noteq> 0)"
      and long: "if ?v ! 8 = 0 then length ?v = 16 else counted_ok 2 (drop 16 ?v)"
      using assms(3) by (auto simp: ValidateCanonicalScalar_def simp del: set_upt split: if_split_asm)
    have head: "Source_Read s (sl_offset sl) 16 = Some (take 16 ?v)"
      using read(1) [of 16] v(1) n by simp
    have "\<not> sl_length sl < 24 \<and> Source_Read s (sl_offset sl + 16) 8 = Some (take 8 (drop 16 ?v)) \<and>
        \<not> unat (Get64 (take 8 (drop 16 ?v))) > (2 ^ 64 - 1) div 2 \<and> unat (Get64 (take 8 (drop 16 ?v))) * 2 = sl_length sl - 24"
      if "?v ! 8 \<noteq> 0"
    proof -
      have c: "counted_ok 2 (drop 16 ?v)" using long that by simp
      then have "24 \<le> sl_length sl" using n by (auto simp: counted_ok_def)
      then show ?thesis
        using c read(2) [of 8] prefix_reads(1) [of "drop 16 ?v"] counted_slice [of "drop 16 ?v" 2] n by simp
    qed
    note tail = this
    have flags: "take 16 ?v ! 8 = ?v ! 8" "\<not> (\<exists>i \<in> set [9..<16]. take 16 ?v ! i \<noteq> 0)"
      using prefix_reads(2,3) [OF v(1)] v(3) by (simp_all del: set_upt)
    show ?thesis
    proof (cases "?v ! 8 = 0")
      case True
      then show ?thesis
        using enum v n long head flags unfolding StreamScalarCanonical_def Let_def by (simp del: set_upt nth_take)
    next
      case False
      then show ?thesis
        using enum v n head flags tail unfolding StreamScalarCanonical_def Let_def by (simp del: set_upt nth_take)
    qed
  qed (use assms(3) n in \<open>auto simp: StreamScalarCanonical_def ValidateCanonicalScalar_def FixedScalarBytes_def split: if_split_asm\<close>)
qed

text \<open>The checks of an operation's property and values.\<close>

lemma op_of_simps [simp]:
  "op_kind (op_of b opn) = so_kind opn" "op_target (op_of b opn) = so_target opn" "op_scalar (op_of b opn) = so_scalar opn"
  "op_propertyKey (op_of b opn) = so_property opn" "op_before (op_of b opn) = slice_bytes b (so_before opn)"
  "op_after (op_of b opn) = slice_bytes b (so_after opn)" "OperationKey (op_of b opn) = StreamKey opn"
  "has_references (op_of b opn) = stream_has_references opn" "check_property (op_of b opn) = stream_property opn"
  by (simp_all add: op_of_def OperationKey_def StreamKey_def has_references_def stream_has_references_def
      check_property_def stream_property_def)

lemma values_honest:
  assumes "honest s b" "inside b (so_before opn)" "inside b (so_after opn)" "stream_values s opn = PE_None"
  shows "check_values (op_of b opn) = PE_None"
proof (cases "stream_has_references opn")
  case True
  with assms(4) obtain us ws where refs: "so_scalar opn = ST_UUID128" "sl_length (so_before opn) mod 16 = 0"
    "sl_length (so_after opn) mod 16 = 0" "stream_references s (so_before opn) = Some us"
    "stream_references s (so_after opn) = Some ws"
    by (auto simp: stream_values_def split: if_split_asm)
  note R = references_honest [OF assms(1,2) refs(2,4)] references_honest [OF assms(1,3) refs(3,5)]
  show ?thesis
    unfolding check_values_def op_of_simps length_slice [OF assms(2)] length_slice [OF assms(3)]
    using True refs(1-3) R by auto
next
  case False
  then show ?thesis
    using assms(4) scalar_honest [OF assms(1,2)] scalar_honest [OF assms(1,3)]
    unfolding check_values_def op_of_simps length_slice [OF assms(2)] length_slice [OF assms(3)] stream_values_def
    by (simp split: if_split_asm)
qed

lemma values_readable:
  assumes "readable s b" "inside b (so_before opn)" "inside b (so_after opn)" "check_values (op_of b opn) = PE_None"
  shows "stream_values s opn = PE_None"
proof (cases "stream_has_references opn")
  case True
  then have "so_scalar opn = ST_UUID128" "sl_length (so_before opn) mod 16 = 0" "sl_length (so_after opn) mod 16 = 0"
    "\<forall>u \<in> set (references (slice_bytes b (so_before opn))). ValidId u"
    "\<forall>u \<in> set (references (slice_bytes b (so_after opn))). ValidId u"
    using assms(4) unfolding check_values_def op_of_simps length_slice [OF assms(2)] length_slice [OF assms(3)]
    by (auto split: if_split_asm)
  then show ?thesis
    using True references_readable [OF assms(1,2)] references_readable [OF assms(1,3)] by (simp add: stream_values_def)
next
  case False
  then show ?thesis
    using assms(4) scalar_readable [OF assms(1,2)] scalar_readable [OF assms(1,3)]
    unfolding check_values_def op_of_simps length_slice [OF assms(2)] length_slice [OF assms(3)] stream_values_def
    by (simp split: if_split_asm)
qed

end
