(* ===== verification/SealedProperties.thy ===== *)
theory SealedProperties
  imports SealedReader
begin

section \<open>What the validation of a sealed patch accepts\<close>

text \<open>
  The passes of \<open>ParseSealedPatchV1\<close> are followed over the array of operations. An honest source makes the
  validator find the operations of a patch in canonical form; on a readable source it finds every one.
  With that, validating a file in place and parsing its bytes in memory are the same.
\<close>

subsection \<open>The operations of a patch, in order\<close>

text \<open>What the first pass checks, from the key and the new value of the operation before on.\<close>

fun ops_ok :: "Uuid128 list \<Rightarrow> (op_key \<times> bytes) option \<Rightarrow> OperationV1 list \<Rightarrow> bool" where
  "ops_ok locals prior [] = True"
| "ops_ok locals prior (opn # ops) \<longleftrightarrow> op_ok locals opn \<and> op_before opn \<noteq> op_after opn \<and>
     (case prior of None \<Rightarrow> True
      | Some (k, a) \<Rightarrow> k \<le> OperationKey opn \<and> (OperationKey opn = k \<longrightarrow> a = op_before opn)) \<and>
     ops_ok locals (Some (OperationKey opn, op_after opn)) ops"

lemma all_at: "(\<And>j. P j \<longleftrightarrow> (j = x \<longrightarrow> c) \<and> Q j) \<Longrightarrow> (\<forall>j. P j) \<longleftrightarrow> c \<and> (\<forall>j. Q j)"
  by blast

lemma ops_ok_from:
  "ops_ok locals (Some (k, a)) ops \<longleftrightarrow>
    (\<forall>opn \<in> set ops. op_ok locals opn \<and> op_before opn \<noteq> op_after opn) \<and> sorted (k # map OperationKey ops) \<and>
    (\<forall>j. chain_from (if j = k then Some a else None) (key_ops j ops))"
proof (induction ops arbitrary: k a)
  case (Cons opn ops)
  let ?k = "OperationKey opn"
  have chain: "(\<forall>j. chain_from (if j = k then Some a else None) (key_ops j (opn # ops))) \<longleftrightarrow>
      (?k = k \<longrightarrow> a = op_before opn) \<and> (\<forall>j. chain_from (if j = ?k then Some (op_after opn) else None) (key_ops j ops))"
    if sorted: "k \<le> ?k" "\<forall>o' \<in> set ops. ?k \<le> OperationKey o'"
  proof (rule all_at)
    have "?k \<noteq> k \<Longrightarrow> key_ops k ops = []"
      using sorted by (auto simp: key_ops_def filter_empty_conv)
    then show "chain_from (if j = k then Some a else None) (key_ops j (opn # ops)) \<longleftrightarrow>
        (j = ?k \<longrightarrow> ?k = k \<longrightarrow> a = op_before opn) \<and> chain_from (if j = ?k then Some (op_after opn) else None) (key_ops j ops)" for j
      by (auto simp: key_ops_Cons)
  qed
  show ?case
  proof (cases "k \<le> ?k \<and> (\<forall>o' \<in> set ops. ?k \<le> OperationKey o')")
    case True
    then show ?thesis
      using chain Cons.IH [of ?k "op_after opn"] by (auto simp del: split_paired_All intro: order.trans)
  next
    case False
    then show ?thesis
      using Cons.IH [of ?k "op_after opn"] by (auto simp del: split_paired_All)
  qed
qed (auto simp: key_ops_def)

lemma ops_ok_alt:
  "ops_ok locals None ops \<longleftrightarrow> (\<forall>opn \<in> set ops. op_ok locals opn \<and> op_before opn \<noteq> op_after opn) \<and>
    sorted (map OperationKey ops) \<and> (\<forall>j. chain_from None (key_ops j ops))"
proof (cases ops)
  case (Cons opn rest)
  let ?k = "OperationKey opn"
  have "(\<forall>j. chain_from None (key_ops j (opn # rest))) \<longleftrightarrow>
      (\<forall>j. chain_from (if j = ?k then Some (op_after opn) else None) (key_ops j rest))"
    by (rule all_cong1) (auto simp: key_ops_Cons)
  then show ?thesis
    using ops_ok_from [of locals ?k "op_after opn" rest] Cons by (auto simp del: split_paired_All)
qed (simp add: key_ops_def)

subsection \<open>The first pass\<close>

text \<open>The array of the identities is where the header says.\<close>

definition holds_ids :: "bytes \<Rightarrow> StreamArray \<Rightarrow> Uuid128 list \<Rightarrow> bool" where
  "holds_ids b locals us \<longleftrightarrow> sa_elementsOffset locals \<le> sa_stop locals \<and> sa_stop locals \<le> length b \<and>
    cut b (sa_elementsOffset locals) (sa_stop locals) = frames us \<and> unat (sa_count locals) = length us \<and> ids_ok None us"

lemma ScanLocal_honest:
  assumes "honest s b" "length b < 2 ^ 62" "holds_ids b locals us" "ScanLocal s locals wanted = Some r"
  shows "r \<longleftrightarrow> wanted \<in> set us"
proof -
  have "\<forall>u \<in> set us. length u = 16"
    using assms(3) ids_ok_alt by (auto simp: holds_ids_def)
  with scan_honest [OF assms(1) _ assms(2)] assms(3,4) show ?thesis
    by (fastforce simp: ScanLocal_def holds_ids_def)
qed

lemma ScanLocal_readable:
  assumes "readable s b" "length b < 2 ^ 62" "holds_ids b locals us"
  shows "ScanLocal s locals wanted = Some (wanted \<in> set us)"
proof -
  have "ScanLocal s locals wanted \<noteq> None"
    using scan_readable [OF assms(1) _ assms(2)] assms(3) by (simp add: ScanLocal_def holds_ids_def del: not_None_eq)
  with ScanLocal_honest [OF readable_honest [OF assms(1)] assms(2,3)] show ?thesis by blast
qed

text \<open>The value that the operation before wrote, as a slice of the file.\<close>

definition prior_bytes :: "bytes \<Rightarrow> (op_key \<times> StreamSlice) option \<Rightarrow> (op_key \<times> bytes) option" where
  "prior_bytes b prior = map_option (\<lambda>(k, sl). (k, slice_bytes b sl)) prior"

definition prior_inside :: "bytes \<Rightarrow> (op_key \<times> StreamSlice) option \<Rightarrow> bool" where
  "prior_inside b prior \<longleftrightarrow> (case prior of Some (k, sl) \<Rightarrow> inside b sl | None \<Rightarrow> True)"

definition in_order :: "(op_key \<times> bytes) option \<Rightarrow> OperationV1 \<Rightarrow> bool" where
  "in_order prior opn \<longleftrightarrow> op_before opn \<noteq> op_after opn \<and>
    (case prior of None \<Rightarrow> True | Some (k, a) \<Rightarrow> k \<le> OperationKey opn \<and> (OperationKey opn = k \<longrightarrow> a = op_before opn))"

lemma order_honest:
  assumes "honest s b" "check_order s prior opn = PE_None" "prior_inside b prior" "inside b (so_before opn)" "inside b (so_after opn)"
  shows "in_order (prior_bytes b prior) (op_of b opn)"
proof -
  obtain same where same: "Source_Equal s (so_before opn) (so_after opn) = Some same" "\<not> same"
    using assms(2) by (auto simp: check_order_def split: if_split_asm option.splits)
  have ne: "slice_bytes b (so_before opn) \<noteq> slice_bytes b (so_after opn)"
    using Equal_honest [OF assms(1) same(1) assms(4,5)] same(2) by blast
  show ?thesis
  proof (cases prior)
    case (Some p)
    obtain k sl where p: "p = (k, sl)" by (cases p)
    then have sl: "inside b sl" using assms(3) Some by (simp add: prior_inside_def)
    have "k \<le> StreamKey opn \<and> (StreamKey opn = k \<longrightarrow> slice_bytes b sl = slice_bytes b (so_before opn))"
      using assms(2) same Some p Equal_honest [OF assms(1) _ sl assms(4)]
      by (auto simp: check_order_def not_less split: if_split_asm option.splits)
    with ne show ?thesis by (simp add: in_order_def prior_bytes_def Some p)
  qed (use ne in \<open>simp add: in_order_def prior_bytes_def\<close>)
qed

lemma order_readable:
  assumes "readable s b" "in_order (prior_bytes b prior) (op_of b opn)" "prior_inside b prior"
    "inside b (so_before opn)" "inside b (so_after opn)"
  shows "check_order s prior opn = PE_None"
proof (cases prior)
  case (Some p)
  obtain k sl where p: "p = (k, sl)" by (cases p)
  then have sl: "inside b sl" using assms(3) Some by (simp add: prior_inside_def)
  show ?thesis
    using assms(2) Equal_readable [OF assms(1) assms(4,5)] Equal_readable [OF assms(1) sl assms(4)]
    by (auto simp: in_order_def prior_bytes_def Some p check_order_def not_less)
qed (use assms(2) Equal_readable [OF assms(1) assms(4,5)] in \<open>auto simp: in_order_def prior_bytes_def check_order_def\<close>)

lemma operation_honest:
  assumes "honest s b" "length b < 2 ^ 62" "holds_ids b locals us" "inside b encoded" "prior_inside b prior"
    and "stream_operation s locals prior encoded = Inr opn"
  shows "ParseStreamOperation s encoded = Inr opn" "holds_op b opn (op_of b opn)" "in_order (prior_bytes b prior) (op_of b opn)"
    "op_ok us (op_of b opn)"
proof -
  have parts: "ParseStreamOperation s encoded = Inr opn" "check_order s prior opn = PE_None"
    "ScanLocal s locals (so_target opn) = Some False" "stream_property opn = PE_None" "stream_values s opn = PE_None"
    using assms(6) by (auto simp: stream_operation_def bindE_Inr_iff split: if_split_asm option.splits)
  note P = Parse_honest(1) [OF assms(1) parts(1) assms(4,2)]
  then have inside: "inside b (so_before opn)" "inside b (so_after opn)" "ValidId (op_target (op_of b opn))"
    by (simp_all add: holds_op_def)
  show "ParseStreamOperation s encoded = Inr opn" "holds_op b opn (op_of b opn)" by (rule parts P)+
  show "in_order (prior_bytes b prior) (op_of b opn)"
    by (rule order_honest [OF assms(1) parts(2) assms(5) inside(1,2)])
  show "op_ok us (op_of b opn)"
    using inside(3) ScanLocal_honest [OF assms(1-3) parts(3)] values_honest [OF assms(1) inside(1,2) parts(5)] parts(4)
    by (simp add: op_ok_def)
qed

lemma operation_readable:
  assumes "readable s b" "length b < 2 ^ 62" "holds_ids b locals us" "inside b encoded" "prior_inside b prior"
    and "slice_bytes b encoded = EncodeOperation o'" "op_shape o'" "in_order (prior_bytes b prior) o'" "op_ok us o'"
  obtains opn where "stream_operation s locals prior encoded = Inr opn" "holds_op b opn o'"
proof -
  have "ValidId (op_target o')" using assms(9) by (simp add: op_ok_def)
  from Parse_readable [OF assms(1,4,2,6,7) this] obtain opn where
    opn: "ParseStreamOperation s encoded = Inr opn" "holds_op b opn o'" "so_encoded opn = encoded" .
  then have o': "o' = op_of b opn" and inside: "inside b (so_before opn)" "inside b (so_after opn)"
    by (auto simp: holds_op_def)
  have "check_order s prior opn = PE_None"
    by (rule order_readable [OF assms(1) assms(8) [unfolded o'] assms(5) inside])
  moreover have "ScanLocal s locals (so_target opn) = Some False"
    using ScanLocal_readable [OF assms(1-3), of "so_target opn"] assms(9) by (simp add: op_ok_def o')
  moreover have "stream_property opn = PE_None" "stream_values s opn = PE_None"
    using assms(9) values_readable [OF assms(1) inside] by (simp_all add: op_ok_def o')
  ultimately have "stream_operation s locals prior encoded = Inr opn"
    using opn(1) by (simp add: stream_operation_def)
  then show thesis using opn(2) by (rule that)
qed

lemma ops_ok_Cons:
  "ops_ok locals prior (opn # ops) \<longleftrightarrow> op_ok locals opn \<and> in_order prior opn \<and>
     ops_ok locals (Some (OperationKey opn, op_after opn)) ops"
  by (auto simp: in_order_def)

declare ops_ok.simps(2) [simp del]

lemma operations_honest:
  assumes "honest s b" "length b < 2 ^ 62" "holds_ids b locals us" "stop \<le> length b"
  shows "stream_operations s locals stop n at prior = Inr at' \<Longrightarrow> at \<le> stop \<Longrightarrow> prior_inside b prior \<Longrightarrow>
    \<exists>ops. length ops = n \<and> cut b at stop = frames (map EncodeOperation ops) @ cut b at' stop \<and> at' \<le> stop \<and>
      ops_ok us (prior_bytes b prior) ops \<and> (\<forall>opn \<in> set ops. op_shape opn)"
proof (induction n arbitrary: at prior)
  case (Suc n)
  obtain e a opn where E: "StreamArrayElement s at stop = Some (e, a)" and P: "stream_operation s locals prior e = Inr opn"
    and rest: "stream_operations s locals stop n a (Some (StreamKey opn, so_after opn)) = Inr at'"
    using Suc.prems(1) by (auto simp: bindE_Inr_iff orE_def split: option.splits)
  note E' = Element_honest [OF assms(1) E assms(4)]
  note P' = operation_honest [OF assms(1-3) E'(2) Suc.prems(3) P]
  have hold: "slice_bytes b e = EncodeOperation (op_of b opn)" "op_shape (op_of b opn)" "inside b (so_after opn)"
    using P'(2) Parse_honest(2) [OF assms(1) P'(1) E'(2) assms(2)] by (simp_all add: holds_op_def)
  from Suc.IH [OF rest E'(3)] hold(3) obtain ops where ops: "length ops = n"
    "cut b a stop = frames (map EncodeOperation ops) @ cut b at' stop" "at' \<le> stop"
    "ops_ok us (Some (StreamKey opn, slice_bytes b (so_after opn))) ops" "\<forall>opn \<in> set ops. op_shape opn"
    by (auto simp: prior_inside_def prior_bytes_def)
  show ?case
    by (rule exI [of _ "op_of b opn # ops"]) (use ops E'(1) hold P'(3,4) in \<open>simp add: ops_ok_Cons\<close>)
qed simp

lemma operations_readable:
  assumes "readable s b" "length b < 2 ^ 62" "holds_ids b locals us" "stop \<le> length b"
  shows "cut b at stop = frames (map EncodeOperation ops) @ q \<Longrightarrow> at \<le> stop \<Longrightarrow> prior_inside b prior \<Longrightarrow>
    ops_ok us (prior_bytes b prior) ops \<Longrightarrow> \<forall>opn \<in> set ops. op_shape opn \<Longrightarrow>
    stream_operations s locals stop (length ops) at prior = Inr (at + length (frames (map EncodeOperation ops)))"
proof (induction ops arbitrary: at prior)
  case (Cons o' ops)
  have "cut b at stop = frame_of (EncodeOperation o') @ frames (map EncodeOperation ops) @ q"
    using Cons.prems(1) by simp
  from Element_readable [OF assms(1) this Cons.prems(2) assms(4,2)] obtain e where
    e: "StreamArrayElement s at stop = Some (e, at + (8 + length (EncodeOperation o')))" "slice_bytes b e = EncodeOperation o'"
      "inside b e" "cut b (at + (8 + length (EncodeOperation o'))) stop = frames (map EncodeOperation ops) @ q"
      "at + (8 + length (EncodeOperation o')) \<le> stop" .
  have ok: "op_ok us o'" "in_order (prior_bytes b prior) o'" "op_shape o'"
    "ops_ok us (Some (OperationKey o', op_after o')) ops"
    using Cons.prems(4,5) by (simp_all add: ops_ok_Cons)
  from operation_readable [OF assms(1-3) e(3) Cons.prems(3) e(2) ok(3,2,1)] obtain opn where
    opn: "stream_operation s locals prior e = Inr opn" "holds_op b opn o'" .
  then have key: "StreamKey opn = OperationKey o'" "slice_bytes b (so_after opn) = op_after o'" "inside b (so_after opn)"
    by (auto simp: holds_op_def)
  have "stream_operations s locals stop (length ops) (at + (8 + length (EncodeOperation o'))) (Some (StreamKey opn, so_after opn)) =
      Inr (at + (8 + length (EncodeOperation o')) + length (frames (map EncodeOperation ops)))"
    by (rule Cons.IH [OF e(4,5)]) (use key ok Cons.prems(5) in \<open>simp_all add: prior_inside_def prior_bytes_def\<close>)
  then show ?case
    using e(1) opn(1) by (simp add: orE_def bindE_def add.assoc)
qed simp

subsection \<open>Operations found again\<close>

text \<open>The later passes read operations that the first has checked.\<close>

definition good_op :: "OperationV1 \<Rightarrow> bool" where
  "good_op opn \<longleftrightarrow> op_shape opn \<and> ValidId (op_target opn) \<and> check_values opn = PE_None"

lemma Encode_inj:
  assumes "EncodeOperation x = EncodeOperation y" "op_shape x" "op_shape y" "ValidId (op_target x)" "ValidId (op_target y)"
  shows "x = y"
  using DecodeOperation_Encode [OF assms(2,4)] DecodeOperation_Encode [OF assms(3,5)] unfolding assms(1) by simp

lemma operation_at_Inr:
  "operation_at s stop at = Inr (e, opn, a) \<longleftrightarrow> StreamArrayElement s at stop = Some (e, a) \<and> ParseStreamOperation s e = Inr opn"
  by (auto simp: operation_at_def split: option.splits sum.splits)

lemma at_known:
  assumes "honest s b" "length b < 2 ^ 62" "stop \<le> length b" "operation_at s stop at = Inr (e, opn, a)"
    and "cut b at stop = frame_of (EncodeOperation o') @ q" "good_op o'"
  shows "holds_op b opn o'" "so_encoded opn = e" "cut b a stop = q" "a \<le> stop" "inside b e"
proof -
  have E: "StreamArrayElement s at stop = Some (e, a)" and P: "ParseStreamOperation s e = Inr opn"
    using assms(4) by (simp_all add: operation_at_Inr)
  have "length (cut b at stop) \<le> length b" by (simp add: cut_def)
  then have "length (EncodeOperation o') < 2 ^ 64"
    using assms(2,5) by simp
  note E' = Element_known [OF assms(1) E assms(3,2,5) this]
  note P' = Parse_honest [OF assms(1) P E'(3) assms(2)]
  have "EncodeOperation (op_of b opn) = EncodeOperation o'"
    using P' E'(1) by (simp add: holds_op_def)
  then have "op_of b opn = o'"
    using P'(1) assms(6) by (intro Encode_inj) (auto simp: holds_op_def good_op_def)
  with P' E' show "holds_op b opn o'" "so_encoded opn = e" "cut b a stop = q" "a \<le> stop" "inside b e"
    by simp_all
qed

lemma at_readable:
  assumes "readable s b" "length b < 2 ^ 62" "stop \<le> length b" "at \<le> stop"
    and "cut b at stop = frame_of (EncodeOperation o') @ q" "good_op o'"
  obtains e opn a where "operation_at s stop at = Inr (e, opn, a)"
proof -
  from Element_readable [OF assms(1,5,4,3,2)] obtain e where
    e: "StreamArrayElement s at stop = Some (e, at + (8 + length (EncodeOperation o')))" "slice_bytes b e = EncodeOperation o'"
      "inside b e" .
  have "op_shape o'" "ValidId (op_target o')"
    using assms(6) by (simp_all add: good_op_def)
  from Parse_readable [OF assms(1) e(3) assms(2) e(2) this] obtain opn where "ParseStreamOperation s e = Inr opn" .
  with e(1) that show thesis by (simp add: operation_at_Inr)
qed

text \<open>The references of a checked operation.\<close>

lemma good_references:
  assumes "holds_op b opn o'" "good_op o'" "stream_has_references opn"
  shows "sl_length (so_before opn) mod 16 = 0" "sl_length (so_after opn) mod 16 = 0"
    "\<forall>u \<in> set (references (op_before o') @ references (op_after o')). ValidId u"
proof -
  have o': "o' = op_of b opn" and inside: "inside b (so_before opn)" "inside b (so_after opn)"
    using assms(1) by (auto simp: holds_op_def)
  show "sl_length (so_before opn) mod 16 = 0" "sl_length (so_after opn) mod 16 = 0"
    "\<forall>u \<in> set (references (op_before o') @ references (op_after o')). ValidId u"
    using assms(2,3) unfolding good_op_def o' check_values_def op_of_simps length_slice [OF inside(1)] length_slice [OF inside(2)]
    by (auto split: if_split_asm)
qed

definition names_id :: "OperationV1 \<Rightarrow> Uuid128 \<Rightarrow> bool" where
  "names_id opn u \<longleftrightarrow> has_references opn \<and> u \<in> set (references (op_before opn) @ references (op_after opn))"

lemma holds_references:
  assumes "honest s b" "holds_op b opn o'" "good_op o'" "stream_has_references opn"
    and "stream_references s (so_before opn) = Some before" "stream_references s (so_after opn) = Some after"
  shows "before = references (op_before o')" "after = references (op_after o')"
proof -
  have o': "o' = op_of b opn" and inside: "inside b (so_before opn)" "inside b (so_after opn)"
    using assms(2) by (auto simp: holds_op_def)
  note G = good_references [OF assms(2-4)]
  show "before = references (op_before o')" "after = references (op_after o')"
    using references_honest(1) [OF assms(1) inside(1) G(1) assms(5)] references_honest(1) [OF assms(1) inside(2) G(2) assms(6)]
    by (simp_all add: o')
qed

lemma observed_honest:
  assumes "honest s b" "length b < 2 ^ 62" "stop \<le> length b"
  shows "stream_observed s stop local (length ops) at = Inr r \<Longrightarrow> cut b at stop = frames (map EncodeOperation ops) \<Longrightarrow>
    \<forall>opn \<in> set ops. good_op opn \<Longrightarrow> r \<longleftrightarrow> (\<exists>opn \<in> set ops. names_id opn local)"
proof (induction ops arbitrary: at)
  case (Cons o' ops)
  obtain e a opn where at: "operation_at s stop at = Inr (e, opn, a)"
    and rest: "(if \<not> stream_has_references opn then stream_observed s stop local (length ops) a
      else case (stream_references s (so_before opn), stream_references s (so_after opn)) of
          (Some before, Some after) \<Rightarrow>
            if \<exists>u \<in> set (before @ after). EqualUuid u local then Inr True else stream_observed s stop local (length ops) a
        | _ \<Rightarrow> Inl PE_BadReference) = Inr r"
    using Cons.prems(1) by (auto simp: operation_at_Inr split: option.splits sum.splits prod.splits)
  have "cut b at stop = frame_of (EncodeOperation o') @ frames (map EncodeOperation ops)" "good_op o'"
    using Cons.prems(2,3) by simp_all
  note K = at_known [OF assms at this]
  have IH: "stream_observed s stop local (length ops) a = Inr r \<Longrightarrow> r \<longleftrightarrow> (\<exists>opn \<in> set ops. names_id opn local)"
    using Cons.IH [OF _ K(3)] Cons.prems(3) by simp
  have refs: "has_references o' = stream_has_references opn"
    using K(1) by (auto simp: holds_op_def)
  show ?case
  proof (cases "stream_has_references opn")
    case False
    with rest IH refs show ?thesis by (simp add: names_id_def)
  next
    case True
    with rest obtain x y where xy: "stream_references s (so_before opn) = Some x" "stream_references s (so_after opn) = Some y"
      by (auto split: option.splits)
    note R = holds_references [OF assms(1) K(1) \<open>good_op o'\<close> True xy]
    show ?thesis
      using rest True xy IH refs R by (auto simp: names_id_def EqualUuid_def split: if_split_asm)
  qed
qed simp

lemma observed_readable:
  assumes "readable s b" "length b < 2 ^ 62" "stop \<le> length b"
  shows "cut b at stop = frames (map EncodeOperation ops) \<Longrightarrow> at \<le> stop \<Longrightarrow> \<forall>opn \<in> set ops. good_op opn \<Longrightarrow>
    \<exists>r. stream_observed s stop local (length ops) at = Inr r"
proof (induction ops arbitrary: at)
  case (Cons o' ops)
  note H = readable_honest [OF assms(1)]
  have c: "cut b at stop = frame_of (EncodeOperation o') @ frames (map EncodeOperation ops)" and good: "good_op o'"
    using Cons.prems(1,3) by simp_all
  from at_readable [OF assms(1-3) Cons.prems(2) c good] obtain e opn a where at: "operation_at s stop at = Inr (e, opn, a)" .
  note K = at_known [OF H assms(2,3) at c good]
  have rest: "\<exists>r. stream_observed s stop local (length ops) a = Inr r"
    using Cons.IH [OF K(3,4)] Cons.prems(3) by simp
  show ?case
  proof (cases "stream_has_references opn")
    case False
    with rest at show ?thesis by (simp add: operation_at_Inr)
  next
    case True
    have o': "o' = op_of b opn" and inside: "inside b (so_before opn)" "inside b (so_after opn)"
      using K(1) by (auto simp: holds_op_def)
    note G = good_references [OF K(1) good True]
    have "stream_references s (so_before opn) \<noteq> None" "stream_references s (so_after opn) \<noteq> None"
      using references_readable [OF assms(1) inside(1) G(1)] references_readable [OF assms(1) inside(2) G(2)] G(3)
      by (simp_all add: o')
    with True rest at show ?thesis by (auto simp: operation_at_Inr)
  qed
qed auto

text \<open>The array of the operations is where the header says.\<close>

definition holds_ops :: "bytes \<Rightarrow> StreamArray \<Rightarrow> OperationV1 list \<Rightarrow> bool" where
  "holds_ops b operations ops \<longleftrightarrow> sa_elementsOffset operations \<le> sa_stop operations \<and> sa_stop operations \<le> length b \<and>
    cut b (sa_elementsOffset operations) (sa_stop operations) = frames (map EncodeOperation ops) \<and>
    unat (sa_count operations) = length ops \<and> (\<forall>opn \<in> set ops. good_op opn)"

lemma locals_observed_honest:
  assumes "honest s b" "length b < 2 ^ 62" "stop \<le> length b" "holds_ops b operations ops"
  shows "locals_observed s stop operations (length us) at = Inr () \<Longrightarrow> cut b at stop = frames us \<Longrightarrow>
    \<forall>u \<in> set us. length u = 16 \<Longrightarrow> \<forall>u \<in> set us. \<exists>opn \<in> set ops. names_id opn u"
proof (induction us arbitrary: at)
  case (Cons u us)
  obtain e a v where E: "StreamArrayElement s at stop = Some (e, a)" and I: "ValidStreamId s e = Some v"
    and O: "stream_observed s (sa_stop operations) v (unat (sa_count operations)) (sa_elementsOffset operations) = Inr True"
    and rest: "locals_observed s stop operations (length us) a = Inr ()"
    using Cons.prems(1) by (auto simp: bindE_Inr_iff orE_def split: option.splits if_split_asm)
  have "cut b at stop = frame_of u @ frames us" "length u < 2 ^ 64"
    using Cons.prems(2,3) by simp_all
  note E' = Element_known [OF assms(1) E assms(3,2) this]
  have "v = u" using Id_honest(1) [OF assms(1) I] E'(1) by simp
  then have "\<exists>opn \<in> set ops. names_id opn u"
    using observed_honest [OF assms(1,2), of "sa_stop operations" v ops "sa_elementsOffset operations" True] O assms(4)
    by (simp add: holds_ops_def)
  with Cons.IH [OF rest E'(2)] Cons.prems(3) show ?case by simp
qed simp

lemma locals_observed_readable:
  assumes "readable s b" "length b < 2 ^ 62" "stop \<le> length b" "holds_ops b operations ops"
  shows "cut b at stop = frames us \<Longrightarrow> at \<le> stop \<Longrightarrow> \<forall>u \<in> set us. length u = 16 \<and> ValidId u \<Longrightarrow>
    \<forall>u \<in> set us. \<exists>opn \<in> set ops. names_id opn u \<Longrightarrow> locals_observed s stop operations (length us) at = Inr ()"
proof (induction us arbitrary: at)
  case (Cons u us)
  have "cut b at stop = frame_of u @ frames us" using Cons.prems(1) by simp
  from Element_readable [OF assms(1) this Cons.prems(2) assms(3,2)] obtain e where
    e: "StreamArrayElement s at stop = Some (e, at + (8 + length u))" "slice_bytes b e = u" "inside b e"
      "cut b (at + (8 + length u)) stop = frames us" "at + (8 + length u) \<le> stop" "sl_length e = length u" .
  have id: "ValidStreamId s e = Some u"
    using Id_readable [OF assms(1) e(3)] e(2,6) Cons.prems(3) by simp
  have O: "cut b (sa_elementsOffset operations) (sa_stop operations) = frames (map EncodeOperation ops)"
    "sa_elementsOffset operations \<le> sa_stop operations" "\<forall>opn \<in> set ops. good_op opn" "sa_stop operations \<le> length b"
    "unat (sa_count operations) = length ops"
    using assms(4) by (simp_all add: holds_ops_def)
  obtain r where r: "stream_observed s (sa_stop operations) u (length ops) (sa_elementsOffset operations) = Inr r"
    using observed_readable [OF assms(1,2) O(4,1,2,3)] by blast
  have "r" using observed_honest [OF readable_honest [OF assms(1)] assms(2) O(4) r O(1,3)] Cons.prems(4) by simp
  moreover have "locals_observed s stop operations (length us) (at + (8 + length u)) = Inr ()"
    by (rule Cons.IH [OF e(4,5)]) (use Cons.prems(3,4) in auto)
  ultimately show ?case
    using e(1) id r O(5) by (simp add: orE_def bindE_def)
qed simp

subsection \<open>The inverse\<close>

lemma skip_honest:
  assumes "honest s b" "length b < 2 ^ 62" "stop \<le> length b"
  shows "skip_fields s stop (length fs) at = Some at' \<Longrightarrow> cut b at stop = concat (map field_bytes fs) @ q \<Longrightarrow>
    \<forall>f \<in> set fs. head_ok f \<Longrightarrow> at' = at + length (concat (map field_bytes fs))"
proof (induction fs arbitrary: at)
  case (Cons f fs)
  obtain g a where F: "StreamFieldAt s at stop = Some (g, a)" and rest: "skip_fields s stop (length fs) a = Some at'"
    using Cons.prems(1) by (auto simp: bind_eq_Some_conv)
  have c: "cut b at stop = field_bytes f @ concat (map field_bytes fs) @ q" "length (fl_value f) < 2 ^ 64"
    using Cons.prems(2,3) by (simp_all add: head_ok_def)
  note K = FieldAt_known [OF assms(1) F assms(3,2) c]
  have "a = at + length (field_bytes f)"
    using FieldAt_honest(4) [OF assms(1) F assms(3)] K(1) by simp
  with Cons.IH [OF rest K(2)] Cons.prems(3) show ?case by simp
qed simp

lemma skip_readable:
  assumes "readable s b" "length b < 2 ^ 62" "stop \<le> length b"
  shows "cut b at stop = concat (map field_bytes fs) @ q \<Longrightarrow> at \<le> stop \<Longrightarrow> \<forall>f \<in> set fs. head_ok f \<Longrightarrow>
    skip_fields s stop (length fs) at \<noteq> None"
proof (induction fs arbitrary: at)
  case (Cons f fs)
  have "cut b at stop = field_bytes f @ concat (map field_bytes fs) @ q" "head_ok f"
    using Cons.prems(1,3) by simp_all
  from FieldAt_at [OF assms(1) this Cons.prems(2) assms(3,2)] obtain g where
    "StreamFieldAt s at stop = Some (g, at + length (field_bytes f))"
    "cut b (at + length (field_bytes f)) stop = concat (map field_bytes fs) @ q" "at + length (field_bytes f) \<le> stop" .
  with Cons.IH [OF this(2,3)] Cons.prems(3) show ?case by (simp del: not_None_eq)
qed simp

lemma header_of_bytes:
  "AddFieldHeader tag 1 ST_Bytes 1 (8 + word_of_nat (length v)) @ bytes64 (word_of_nat (length v)) @ v =
     field_bytes (req_field tag ST_Bytes (BytesScalar v))"
  by (simp add: AddFieldHeader_def field_bytes_def req_field_def BytesScalar_def size64_def)

lemma head_fields_length: "length (head_fields k u f property raw) = (if property \<noteq> None then 5 else 4)"
  by (simp add: head_fields_def split: option.splits)

lemma head_fields_ok: "length u = 16 \<Longrightarrow> \<forall>f \<in> set (head_fields k u t property raw). head_ok f"
  by (auto simp: head_fields_def intro!: head_ok_req split: option.splits)

text \<open>An operation of the file is its head and its values.\<close>

lemma holds_parts:
  fixes opn :: StreamOperation
  assumes "holds_op b opn o'"
  defines "start \<equiv> sl_offset (so_encoded opn)"
  obtains head q where "cut b start (start + sl_length (so_encoded opn)) = concat (map field_bytes head) @ q"
    "length head = (if so_property opn \<noteq> None then 5 else 4)" "\<forall>f \<in> set head. head_ok f"
    "EncodeOperation (swap_values o') = concat (map field_bytes head) @ field_bytes (req_field 6 ST_Bytes (BytesScalar (op_after o'))) @
      field_bytes (req_field 7 ST_Bytes (BytesScalar (op_before o')))"
    "start + sl_length (so_encoded opn) \<le> length b"
proof (rule that)
  let ?head = "head_fields (op_kind o') (op_target o') (op_subject o') (op_propertyKey o') (scalar_raw (op_scalar o'))"
  have shape: "op_shape o'" "op_shape (swap_values o')" "so_property opn = op_propertyKey o'" "length (op_target o') = 16"
    using assms(1) by (auto simp: holds_op_def op_shape_def)
  show "cut b start (start + sl_length (so_encoded opn)) = concat (map field_bytes ?head) @
      field_bytes (req_field 6 ST_Bytes (BytesScalar (op_before o'))) @ field_bytes (req_field 7 ST_Bytes (BytesScalar (op_after o')))"
    using assms(1) shape(1) unfolding start_def cut_slice by (simp add: holds_op_def EncodeOperation_bytes op_fields_head)
  show "length ?head = (if so_property opn \<noteq> None then 5 else 4)"
    unfolding shape(3) by (rule head_fields_length)
  show "\<forall>f \<in> set ?head. head_ok f"
    by (rule head_fields_ok [OF shape(4)])
  show "EncodeOperation (swap_values o') = concat (map field_bytes ?head) @
      field_bytes (req_field 6 ST_Bytes (BytesScalar (op_after o'))) @ field_bytes (req_field 7 ST_Bytes (BytesScalar (op_before o')))"
    unfolding EncodeOperation_bytes [OF shape(2)] by (simp add: op_fields_head swap_values_def)
  show "start + sl_length (so_encoded opn) \<le> length b"
    using assms(1) by (simp add: start_def holds_op_def inside_def)
qed

lemma inverse_bytes_honest:
  assumes "honest s b" "length b < 2 ^ 62" "holds_op b opn o'" "HashInverseOperation s opn = Some x"
  shows "x = EncodeOperation (swap_values o')"
proof -
  let ?start = "sl_offset (so_encoded opn)" and ?stop = "sl_offset (so_encoded opn) + sl_length (so_encoded opn)"
  obtain head q where cut: "cut b ?start ?stop = concat (map field_bytes head) @ q"
    and head: "length head = (if so_property opn \<noteq> None then 5 else 4)" "\<forall>f \<in> set head. head_ok f"
    and swap: "EncodeOperation (swap_values o') = concat (map field_bytes head) @
      field_bytes (req_field 6 ST_Bytes (BytesScalar (op_after o'))) @ field_bytes (req_field 7 ST_Bytes (BytesScalar (op_before o')))"
    and le: "?stop \<le> length b"
    by (rule holds_parts [OF assms(3)])
  obtain e p a c where e: "skip_fields s ?stop (length head) ?start = Some e"
    and p: "Source_Copy s \<lparr>sl_offset = ?start, sl_length = e - ?start\<rparr> = Some p"
    and a: "Source_Copy s (so_after opn) = Some a" and c: "Source_Copy s (so_before opn) = Some c"
    and x: "x = p @ AddFieldHeader 6 1 ST_Bytes 1 (8 + word_of_nat (sl_length (so_after opn))) @
      bytes64 (word_of_nat (sl_length (so_after opn))) @ a @
      AddFieldHeader 7 1 ST_Bytes 1 (8 + word_of_nat (sl_length (so_before opn))) @
      bytes64 (word_of_nat (sl_length (so_before opn))) @ c"
    using assms(4) unfolding HashInverseOperation_def Let_def head(1) by (auto simp: bind_eq_Some_conv)
  have len: "e - ?start = length (concat (map field_bytes head))"
    using skip_honest [OF assms(1,2) le e cut head(2)] by simp
  have "p = concat (map field_bytes head)"
    using Copy_honest [OF assms(1) p] cut_rest(3) [OF cut le] unfolding len by (simp add: slice_bytes_def)
  moreover have "a = op_after o'" "c = op_before o'" "sl_length (so_after opn) = length (op_after o')"
    "sl_length (so_before opn) = length (op_before o')"
    using Copy_honest [OF assms(1) a] Copy_honest [OF assms(1) c] assms(3) length_slice by (auto simp: holds_op_def)
  ultimately show ?thesis
    unfolding x swap header_of_bytes [symmetric] by simp
qed

lemma inverse_bytes_readable:
  assumes "readable s b" "length b < 2 ^ 62" "holds_op b opn o'"
  shows "HashInverseOperation s opn \<noteq> None"
proof -
  let ?start = "sl_offset (so_encoded opn)" and ?stop = "sl_offset (so_encoded opn) + sl_length (so_encoded opn)"
  note H = readable_honest [OF assms(1)]
  obtain head q where cut: "cut b ?start ?stop = concat (map field_bytes head) @ q"
    and head: "length head = (if so_property opn \<noteq> None then 5 else 4)" "\<forall>f \<in> set head. head_ok f"
    and le: "?stop \<le> length b"
    by (rule holds_parts [OF assms(3)])
  obtain e where e: "skip_fields s ?stop (length head) ?start = Some e"
    using skip_readable [OF assms(1,2) le cut _ head(2)] by auto
  have end_e: "e = ?start + length (concat (map field_bytes head))"
    by (rule skip_honest [OF H assms(2) le e cut head(2)])
  have "e \<le> length b"
    using cut_rest(1) [OF cut le] le unfolding end_e by simp
  then have "inside b \<lparr>sl_offset = ?start, sl_length = e - ?start\<rparr>"
    unfolding end_e by (simp add: inside_def)
  moreover have "inside b (so_after opn)" "inside b (so_before opn)"
    using assms(3) by (simp_all add: holds_op_def)
  ultimately show ?thesis
    using e Copy_readable [OF assms(1)] unfolding HashInverseOperation_def Let_def head(1) by simp
qed

text \<open>Walking to the last of several operations.\<close>

lemma walk_honest:
  assumes "honest s b" "length b < 2 ^ 62" "stop \<le> length b"
  shows "walk_operations s stop (Suc n) at = Inr (e, opn) \<Longrightarrow> cut b at stop = frames (map EncodeOperation ops) \<Longrightarrow>
    \<forall>opn \<in> set ops. good_op opn \<Longrightarrow> n < length ops \<Longrightarrow> holds_op b opn (ops ! n) \<and> so_encoded opn = e"
proof (induction n arbitrary: at ops)
  case (0 at ops)
  then obtain o' rest where ops: "ops = o' # rest" by (cases ops) auto
  with 0 have at: "\<exists>a. operation_at s stop at = Inr (e, opn, a)" "cut b at stop = frame_of (EncodeOperation o') @ frames (map EncodeOperation rest)"
    "good_op o'"
    by (auto simp: bindE_Inr_iff)
  then show ?case
    using at_known(1,2) [OF assms] ops by fastforce
next
  case (Suc n at ops)
  then obtain o' rest where ops: "ops = o' # rest" by (cases ops) auto
  obtain e' opn' a where at: "operation_at s stop at = Inr (e', opn', a)" and walk: "walk_operations s stop (Suc n) a = Inr (e, opn)"
    using Suc.prems(1) by (auto simp: bindE_Inr_iff simp del: walk_operations.simps(2) simp: walk_operations.simps(2) [of s stop "Suc n" at])
  have "cut b at stop = frame_of (EncodeOperation o') @ frames (map EncodeOperation rest)" "good_op o'"
    using Suc.prems(2,3) ops by simp_all
  note K = at_known [OF assms at this]
  from Suc.IH [OF walk K(3)] Suc.prems(3,4) ops show ?case by simp
qed

lemma walk_readable:
  assumes "readable s b" "length b < 2 ^ 62" "stop \<le> length b"
  shows "cut b at stop = frames (map EncodeOperation ops) \<Longrightarrow> at \<le> stop \<Longrightarrow>
    \<forall>opn \<in> set ops. good_op opn \<Longrightarrow> n < length ops \<Longrightarrow> \<exists>e opn. walk_operations s stop (Suc n) at = Inr (e, opn)"
proof (induction n arbitrary: at ops)
  case (0 at ops)
  then obtain o' rest where ops: "ops = o' # rest" by (cases ops) auto
  have "cut b at stop = frame_of (EncodeOperation o') @ frames (map EncodeOperation rest)" "good_op o'"
    using 0(1,3) ops by simp_all
  from at_readable [OF assms 0(2) this] obtain e opn a where "operation_at s stop at = Inr (e, opn, a)" .
  then show ?case by simp
next
  case (Suc n at ops)
  then obtain o' rest where ops: "ops = o' # rest" by (cases ops) auto
  have c: "cut b at stop = frame_of (EncodeOperation o') @ frames (map EncodeOperation rest)" "good_op o'"
    using Suc.prems(1,3) ops by simp_all
  from at_readable [OF assms Suc.prems(2) c] obtain e' opn' a where at: "operation_at s stop at = Inr (e', opn', a)" .
  note K = at_known [OF readable_honest [OF assms(1)] assms(2,3) at c]
  obtain e opn where "walk_operations s stop (Suc n) a = Inr (e, opn)"
    using Suc.IH [OF K(3,4)] Suc.prems(3,4) ops by auto
  then show ?case
    using at by (simp del: walk_operations.simps(2) add: walk_operations.simps(2) [of s stop "Suc n" at])
qed

lemma swapped_frame:
  assumes "holds_op b opn o'" "good_op o'"
  shows "bytes64 (word_of_nat (sl_length (so_encoded opn))) @ EncodeOperation (swap_values o') =
    frame_of (EncodeOperation (swap_values o'))"
proof -
  have shape: "op_shape o'" "op_shape (swap_values o')"
    using assms by (simp_all add: holds_op_def op_shape_def)
  have "length (EncodeOperation (swap_values o')) = length (EncodeOperation o')"
    unfolding EncodeOperation_bytes [OF shape(1)] EncodeOperation_bytes [OF shape(2)]
    by (simp add: op_fields_def swap_values_def BytesScalar_def split: option.splits)
  moreover have "sl_length (so_encoded opn) = length (EncodeOperation o')"
    using assms(1) length_slice [of b "so_encoded opn"] by (simp add: holds_op_def)
  ultimately show ?thesis by (simp add: frame_of_def size64_def)
qed

lemma group_honest:
  assumes "honest s b" "length b < 2 ^ 62" "stop \<le> length b"
    and "cut b start stop = frames (map EncodeOperation ops)" "\<forall>opn \<in> set ops. good_op opn"
  shows "inverse_group s stop start n = Inr x \<Longrightarrow> n \<le> length ops \<Longrightarrow>
    x = frames (map EncodeOperation (map swap_values (rev (take n ops))))"
proof (induction n arbitrary: x)
  case (Suc n)
  obtain e opn y z where W: "walk_operations s stop (Suc n) start = Inr (e, opn)" and Y: "HashInverseOperation s opn = Some y"
    and Z: "inverse_group s stop start n = Inr z" and x: "x = bytes64 (word_of_nat (sl_length e)) @ y @ z"
    using Suc.prems(1) by (auto simp: bindE_Inr_iff orE_def simp del: walk_operations.simps split: option.splits)
  have n: "n < length ops" using Suc.prems(2) by simp
  note K = walk_honest [OF assms(1-3) W assms(4,5) n]
  have good: "good_op (ops ! n)" using assms(5) n by simp
  have "y = EncodeOperation (swap_values (ops ! n))"
    using inverse_bytes_honest [OF assms(1,2) _ Y] K by blast
  moreover have "bytes64 (word_of_nat (sl_length e)) @ EncodeOperation (swap_values (ops ! n)) =
      frame_of (EncodeOperation (swap_values (ops ! n)))"
    using swapped_frame [OF _ good] K by blast
  ultimately show ?case
    using Suc.IH [OF Z] n by (simp add: x take_Suc_conv_app_nth flip: append.assoc)
qed simp

lemma group_readable:
  assumes "readable s b" "length b < 2 ^ 62" "stop \<le> length b" "start \<le> stop"
    and "cut b start stop = frames (map EncodeOperation ops)" "\<forall>opn \<in> set ops. good_op opn"
  shows "n \<le> length ops \<Longrightarrow> \<exists>x. inverse_group s stop start n = Inr x"
proof (induction n)
  case (Suc n)
  then have n: "n < length ops" by simp
  obtain e opn where W: "walk_operations s stop (Suc n) start = Inr (e, opn)"
    using walk_readable [OF assms(1-3,5,4,6) n] by blast
  have "holds_op b opn (ops ! n)"
    using walk_honest [OF readable_honest [OF assms(1)] assms(2,3) W assms(5,6) n] by blast
  then have "HashInverseOperation s opn \<noteq> None"
    by (rule inverse_bytes_readable [OF assms(1,2)])
  with W Suc.IH n show ?case by (auto simp: orE_def simp del: walk_operations.simps)
qed simp

text \<open>The end of a group: the operations of one key.\<close>

lemma cut_empty:
  assumes "cut b at stop = frames (map EncodeOperation ops)" "at \<le> stop" "stop \<le> length b"
  shows "at = stop \<longleftrightarrow> ops = []"
proof -
  have "length (frames (map EncodeOperation ops)) = stop - at"
    using length_cut [OF assms(3), of at] assms(1) by simp
  with assms(2) show ?thesis by (cases ops) auto
qed

lemma group_end_honest:
  assumes "honest s b" "length b < 2 ^ 62" "stop \<le> length b"
  shows "group_end s stop key c at = Inr (c', a') \<Longrightarrow> at \<le> stop \<Longrightarrow> cut b at stop = frames (map EncodeOperation ops) \<Longrightarrow>
    \<forall>opn \<in> set ops. good_op opn \<Longrightarrow>
    c' = c + length (takeWhile (\<lambda>opn. OperationKey opn = key) ops) \<and> a' \<le> stop \<and>
    cut b a' stop = frames (map EncodeOperation (dropWhile (\<lambda>opn. OperationKey opn = key) ops))"
proof (induction ops arbitrary: c at)
  case Nil
  then have "at = stop" using cut_empty [OF Nil.prems(3,2) assms(3)] by simp
  with Nil.prems(1) show ?case by (simp add: group_end.simps)
next
  case (Cons o' ops)
  have "at \<noteq> stop" using cut_empty [OF Cons.prems(3,2) assms(3)] by simp
  then obtain e opn a where at: "operation_at s stop at = Inr (e, opn, a)"
    and rest: "(if StreamKey opn \<noteq> key then Inr (c, at) else group_end s stop key (c + 1) a) = Inr (c', a')"
    using Cons.prems(1) by (subst (asm) group_end.simps) (auto split: sum.splits)
  have "cut b at stop = frame_of (EncodeOperation o') @ frames (map EncodeOperation ops)" "good_op o'"
    using Cons.prems(3,4) by simp_all
  note K = at_known [OF assms at this]
  then have key: "OperationKey o' = StreamKey opn" by (auto simp: holds_op_def)
  show ?case
  proof (cases "StreamKey opn = key")
    case True
    with rest Cons.IH [OF _ K(4,3), of "c + 1"] Cons.prems(4) key show ?thesis by simp
  next
    case False
    with rest Cons.prems(2,3) key show ?thesis by simp
  qed
qed

lemma group_end_readable:
  assumes "readable s b" "length b < 2 ^ 62" "stop \<le> length b"
  shows "at \<le> stop \<Longrightarrow> cut b at stop = frames (map EncodeOperation ops) \<Longrightarrow> \<forall>opn \<in> set ops. good_op opn \<Longrightarrow>
    \<exists>c' a'. group_end s stop key c at = Inr (c', a')"
proof (induction ops arbitrary: c at)
  case Nil
  then have "at = stop" using cut_empty [OF Nil.prems(2,1) assms(3)] by simp
  then show ?case by (simp add: group_end.simps)
next
  case (Cons o' ops)
  have ne: "at \<noteq> stop" using cut_empty [OF Cons.prems(2,1) assms(3)] by simp
  have c: "cut b at stop = frame_of (EncodeOperation o') @ frames (map EncodeOperation ops)" "good_op o'"
    using Cons.prems(2,3) by simp_all
  from at_readable [OF assms Cons.prems(1) c] obtain e opn a where at: "operation_at s stop at = Inr (e, opn, a)" .
  note K = at_known [OF readable_honest [OF assms(1)] assms(2,3) at c]
  obtain c' a' where "group_end s stop key (c + 1) a = Inr (c', a')"
    using Cons.IH [OF K(4,3), of "c + 1"] Cons.prems(3) by auto
  with ne at show ?case by (subst group_end.simps) auto
qed

text \<open>Reversing the groups of equal keys one after the other is sorting the reversed list.\<close>

lemma invert_group:
  assumes "sorted (map OperationKey (g @ rest))" "\<forall>opn \<in> set g. OperationKey opn = k" "\<forall>opn \<in> set rest. OperationKey opn \<noteq> k"
  shows "invert_ops (g @ rest) = map swap_values (rev g) @ invert_ops rest"
proof -
  have "key_ops j (map swap_values (rev (g @ rest))) = key_ops j (map swap_values (rev g) @ invert_ops rest)" for j
  proof (cases "j = k")
    case True
    then have "key_ops j rest = []" using assms(3) by (auto simp: key_ops_def filter_empty_conv)
    then show ?thesis using key_ops_swap_rev [of j "g @ rest"] key_ops_swap_rev [of j g] key_ops_invert [of j rest]
      by (simp add: key_ops_def)
  next
    case False
    then have "key_ops j g = []" using assms(2) by (auto simp: key_ops_def filter_empty_conv)
    then show ?thesis using key_ops_swap_rev [of j "g @ rest"] key_ops_swap_rev [of j g] key_ops_invert [of j rest]
      by (simp add: key_ops_def)
  qed
  moreover have "map OperationKey (map swap_values (rev g)) = replicate (length g) k"
    using assms(2) by (intro replicate_eqI) auto
  then have "sorted (map OperationKey (map swap_values (rev g) @ invert_ops rest))"
    using assms(1,2) unfolding map_append sorted_append by (auto simp: invert_ops_def)
  ultimately show ?thesis
    unfolding invert_ops_def [of "g @ rest"] by (intro same_by_key) (simp_all add: key_ops_def)
qed

lemma beyond_group:
  "sorted (map OperationKey ops) \<Longrightarrow> \<forall>opn \<in> set ops. k \<le> OperationKey opn \<Longrightarrow>
    opn \<in> set (dropWhile (\<lambda>opn. OperationKey opn = k) ops) \<Longrightarrow> OperationKey opn \<noteq> k"
proof (induction ops)
  case (Cons o' ops)
  show ?case
  proof (cases "OperationKey o' = k")
    case True
    with Cons show ?thesis by simp
  next
    case False
    with Cons.prems(2) have "k < OperationKey o'" by (simp add: order.strict_iff_order)
    moreover have "OperationKey o' \<le> OperationKey opn"
      using Cons.prems(1,3) False by auto
    ultimately show ?thesis by (meson not_le)
  qed
qed simp

lemma invert_first_group:
  assumes "sorted (map OperationKey (o' # ops))"
  defines "P \<equiv> \<lambda>opn. OperationKey opn = OperationKey o'"
  shows "invert_ops (o' # ops) =
    map swap_values (rev (take (1 + length (takeWhile P ops)) (o' # ops))) @ invert_ops (dropWhile P ops)"
proof -
  have taken: "take (1 + length (takeWhile P ops)) (o' # ops) = o' # takeWhile P ops"
    by (simp add: takeWhile_eq_take [symmetric])
  have whole: "(o' # takeWhile P ops) @ dropWhile P ops = o' # ops" by simp
  have "invert_ops ((o' # takeWhile P ops) @ dropWhile P ops) =
      map swap_values (rev (o' # takeWhile P ops)) @ invert_ops (dropWhile P ops)"
  proof (rule invert_group [where k = "OperationKey o'"])
    show "sorted (map OperationKey ((o' # takeWhile P ops) @ dropWhile P ops))"
      using assms(1) by simp
    show "\<forall>opn \<in> set (o' # takeWhile P ops). OperationKey opn = OperationKey o'"
      using set_takeWhileD by (fastforce simp: P_def)
    show "\<forall>opn \<in> set (dropWhile P ops). OperationKey opn \<noteq> OperationKey o'"
    proof
      fix opn assume "opn \<in> set (dropWhile P ops)"
      moreover have "sorted (map OperationKey ops)" "\<forall>opn \<in> set ops. OperationKey o' \<le> OperationKey opn"
        using assms(1) by simp_all
      ultimately show "OperationKey opn \<noteq> OperationKey o'"
        unfolding P_def by (rule beyond_group [rotated 2])
    qed
  qed
  then show ?thesis unfolding taken whole .
qed

lemma dropWhile_sorted: "sorted (map f xs) \<Longrightarrow> sorted (map f (dropWhile P xs))"
  by (induction xs) auto

lemma inverse_honest:
  assumes "honest s b" "length b < 2 ^ 62" "stop \<le> length b"
  shows "inverse_operations s stop at = Inr x \<Longrightarrow> at \<le> stop \<Longrightarrow> cut b at stop = frames (map EncodeOperation ops) \<Longrightarrow>
    \<forall>opn \<in> set ops. good_op opn \<Longrightarrow> sorted (map OperationKey ops) \<Longrightarrow> x = frames (map EncodeOperation (invert_ops ops))"
proof (induction "length ops" arbitrary: ops at x rule: less_induct)
  case less
  show ?case
  proof (cases ops)
    case Nil
    then have "at = stop" using cut_empty [OF less.prems(3,2) assms(3)] by simp
    with less.prems(1) Nil show ?thesis by (simp add: inverse_operations.simps invert_ops_def)
  next
    case (Cons o' rest)
    have "at \<noteq> stop" using cut_empty [OF less.prems(3,2) assms(3)] Cons by simp
    then obtain e opn a c ge y z where at: "operation_at s stop at = Inr (e, opn, a)"
      and G: "group_end s stop (StreamKey opn) 1 a = Inr (c, ge)" and Y: "inverse_group s stop at c = Inr y"
      and Z: "inverse_operations s stop ge = Inr z" and x: "x = y @ z"
      using less.prems(1) by (subst (asm) inverse_operations.simps) (auto simp: bindE_Inr_iff split: sum.splits)
    have "cut b at stop = frame_of (EncodeOperation o') @ frames (map EncodeOperation rest)" "good_op o'"
      using less.prems(3,4) Cons by simp_all
    note K = at_known [OF assms at this]
    then have key: "StreamKey opn = OperationKey o'" by (auto simp: holds_op_def)
    let ?P = "\<lambda>opn. OperationKey opn = OperationKey o'"
    note E = group_end_honest [OF assms G K(4,3), unfolded key]
    have E': "c = 1 + length (takeWhile ?P rest)" "ge \<le> stop" "cut b ge stop = frames (map EncodeOperation (dropWhile ?P rest))"
      using E less.prems(4) Cons by simp_all
    have "c \<le> length ops"
      using E'(1) length_takeWhile_le [of ?P rest] Cons by simp
    then have y: "y = frames (map EncodeOperation (map swap_values (rev (take c ops))))"
      by (rule group_honest [OF assms less.prems(3,4) Y])
    have "z = frames (map EncodeOperation (invert_ops (dropWhile ?P rest)))"
    proof (rule less.hyps [OF _ Z E'(2,3)])
      show "length (dropWhile ?P rest) < length ops"
        using length_dropWhile_le [of ?P rest] Cons by simp
      show "\<forall>opn \<in> set (dropWhile ?P rest). good_op opn"
        using less.prems(4) Cons set_dropWhileD by fastforce
      show "sorted (map OperationKey (dropWhile ?P rest))"
        using less.prems(5) Cons by (simp add: dropWhile_sorted)
    qed
    then show ?thesis
      using x y invert_first_group [of o' rest] less.prems(5) Cons E'(1) by simp
  qed
qed

lemma inverse_readable:
  assumes "readable s b" "length b < 2 ^ 62" "stop \<le> length b"
  shows "at \<le> stop \<Longrightarrow> cut b at stop = frames (map EncodeOperation ops) \<Longrightarrow> \<forall>opn \<in> set ops. good_op opn \<Longrightarrow>
    \<exists>x. inverse_operations s stop at = Inr x"
proof (induction "length ops" arbitrary: ops at rule: less_induct)
  case less
  note H = readable_honest [OF assms(1)]
  show ?case
  proof (cases ops)
    case Nil
    then have "at = stop" using cut_empty [OF less.prems(2,1) assms(3)] by simp
    then show ?thesis by (simp add: inverse_operations.simps)
  next
    case (Cons o' rest)
    have ne: "at \<noteq> stop" using cut_empty [OF less.prems(2,1) assms(3)] Cons by simp
    have c: "cut b at stop = frame_of (EncodeOperation o') @ frames (map EncodeOperation rest)" "good_op o'"
      and rest: "\<forall>opn \<in> set rest. good_op opn"
      using less.prems(2,3) Cons by simp_all
    from at_readable [OF assms less.prems(1) c] obtain e opn a where at: "operation_at s stop at = Inr (e, opn, a)" .
    note K = at_known [OF H assms(2,3) at c]
    obtain c ge where G: "group_end s stop (StreamKey opn) 1 a = Inr (c, ge)"
      using group_end_readable [OF assms K(4,3) rest] by blast
    let ?P = "\<lambda>o'. OperationKey o' = StreamKey opn"
    note E = group_end_honest [OF H assms(2,3) G K(4,3) rest]
    have "c \<le> length ops"
      using E length_takeWhile_le [of ?P rest] Cons by simp
    then obtain y where Y: "inverse_group s stop at c = Inr y"
      using group_readable [OF assms less.prems(1-3)] by blast
    have "length (dropWhile ?P rest) < length ops" "\<forall>opn \<in> set (dropWhile ?P rest). good_op opn"
      using length_dropWhile_le [of ?P rest] Cons rest set_dropWhileD [of _ ?P rest] by auto
    then obtain z where "inverse_operations s stop ge = Inr z"
      using less.hyps [of "dropWhile ?P rest" ge] E by blast
    with ne at G Y show ?thesis by (subst inverse_operations.simps) simp
  qed
qed

end
