(* ===== verification/SealedEquivalence.thy ===== *)
theory SealedEquivalence
  imports SealedProperties
begin

section \<open>Validating in the file is parsing in memory\<close>

subsection \<open>The two arrays\<close>

definition raw_array :: "FieldTag \<Rightarrow> ScalarTag \<Rightarrow> u64 \<Rightarrow> bytes \<Rightarrow> Field" where
  "raw_array tag t n body = \<lparr>fl_tag = tag, fl_flags = 3, fl_scalar = t, fl_elementCount = n,
     fl_value = bytes16 (scalar_raw t) @ bytes16 0 @ bytes32 0 @ bytes64 n @ body\<rparr>"

lemma raw_array_arr: "raw_array tag t (size64 vs) (frames vs) = arr_field tag t vs"
  by (simp add: raw_array_def arr_field_def Array_def frames_def frame_of_def [abs_def])

lemma array_header:
  assumes "length x = 16" "Get16 x = r" "Get16 (drop 2 x) = 0" "Get32 (drop 4 x) = 0" "Get64 (drop 8 x) = n"
  shows "x = bytes16 r @ bytes16 0 @ bytes32 0 @ bytes64 n"
proof -
  obtain p1 p2 p3 p4 where x: "x = p1 @ p2 @ p3 @ p4" and len: "length p1 = 2" "length p2 = 2" "length p3 = 4" "length p4 = 8"
  proof -
    obtain p1 b1 where 1: "x = p1 @ b1" "length p1 = 2" using chop [of 2 x] assms(1) by auto
    obtain p2 b2 where 2: "b1 = p2 @ b2" "length p2 = 2" using chop [of 2 b1] assms(1) 1 by auto
    obtain p3 b3 where 3: "b2 = p3 @ b3" "length p3 = 4" using chop [of 4 b2] assms(1) 1 2 by auto
    show thesis using that [of p1 p2 p3 b3] 1 2 3 assms(1) by simp
  qed
  have d: "drop 2 x = p2 @ p3 @ p4" "drop 4 x = p3 @ p4" "drop 8 x = p4"
    using len by (simp_all add: x)
  have "bytes16 r = p1"
    using bytes16_Get16 [OF len(1), of "p2 @ p3 @ p4"] assms(2) by (simp add: x)
  moreover have "bytes16 0 = p2"
    using bytes16_Get16 [OF len(2), of "p3 @ p4"] assms(3) by (simp add: d)
  moreover have "bytes32 0 = p3"
    using bytes32_Get32 [OF len(3), of p4] assms(4) by (simp add: d)
  moreover have "bytes64 n = p4"
    using bytes64_Get64 [OF len(4), of "[]"] assms(5) by (simp add: d)
  ultimately show ?thesis by (simp add: x)
qed

lemma array_honest:
  assumes "honest s b" "StreamArrayValue s f t = Some a" "inside b (sf_value f)"
  shows "field_of b f = raw_array (sf_tag f) t (sa_count a) (cut b (sa_elementsOffset a) (sa_stop a))"
    "sa_elementsOffset a \<le> sa_stop a" "sa_stop a \<le> length b"
    "sa_elementsOffset a = sl_offset (sf_value f) + 16" "sa_stop a = sl_offset (sf_value f) + sl_length (sf_value f)"
proof -
  let ?v = "slice_bytes b (sf_value f)"
  obtain x where shape: "sf_flags f = 3" "sf_scalar f = t" "16 \<le> sl_length (sf_value f)"
    and x: "Source_Read s (sl_offset (sf_value f)) 16 = Some x"
    and reads: "Get16 x = scalar_raw t" "Get16 (drop 2 x) = 0" "Get32 (drop 4 x) = 0" "Get64 (drop 8 x) = sf_count f"
    and a: "a = \<lparr>sa_count = sf_count f, sa_elementsOffset = sl_offset (sf_value f) + 16,
      sa_stop = sl_offset (sf_value f) + sl_length (sf_value f)\<rparr>"
    using assms(2) by (auto simp: StreamArrayValue_def split: if_split_asm option.splits)
  have x16: "x = take 16 ?v" "length x = 16"
    using slice_read_honest [OF assms(1), of "sf_value f" 0 16 x] Read_honest(3) [OF assms(1) x] x shape(3) by simp_all
  have "drop 16 ?v = cut b (sa_elementsOffset a) (sa_stop a)"
    by (simp add: a cut_def slice_bytes_def drop_take add.commute)
  then have "?v = x @ cut b (sa_elementsOffset a) (sa_stop a)"
    using append_take_drop_id [of 16 ?v] x16(1) by simp
  then show "field_of b f = raw_array (sf_tag f) t (sa_count a) (cut b (sa_elementsOffset a) (sa_stop a))"
    using array_header [OF x16(2) reads] shape by (simp add: field_of_def raw_array_def a)
  show "sa_elementsOffset a \<le> sa_stop a" "sa_stop a \<le> length b"
    "sa_elementsOffset a = sl_offset (sf_value f) + 16" "sa_stop a = sl_offset (sf_value f) + sl_length (sf_value f)"
    using shape(3) assms(3) by (simp_all add: a inside_def)
qed

lemma array_readable:
  assumes "readable s b" "field_of b f = raw_array tag t n body" "inside b (sf_value f)"
  obtains a where "StreamArrayValue s f t = Some a" "sa_count a = n" "cut b (sa_elementsOffset a) (sa_stop a) = body"
proof -
  let ?v = "slice_bytes b (sf_value f)"
  have v: "?v = bytes16 (scalar_raw t) @ bytes16 0 @ bytes32 0 @ bytes64 n @ body"
    and f: "sf_flags f = 3" "sf_scalar f = t" "sf_count f = n"
    using assms(2) by (simp_all add: field_of_def raw_array_def)
  then have len: "sl_length (sf_value f) = 16 + length body"
    using length_slice [OF assms(3)] by simp
  have read: "Source_Read s (sl_offset (sf_value f)) 16 = Some (bytes16 (scalar_raw t) @ bytes16 0 @ bytes32 0 @ bytes64 n)"
    using slice_read_readable [OF assms(1,3), of 0 16] len v by simp
  let ?a = "\<lparr>sa_count = n, sa_elementsOffset = sl_offset (sf_value f) + 16,
    sa_stop = sl_offset (sf_value f) + sl_length (sf_value f)\<rparr>"
  have reads: "Get16 (bytes16 (scalar_raw t) @ bytes16 0 @ bytes32 0 @ bytes64 n) = scalar_raw t"
    "Get16 (drop 2 (bytes16 (scalar_raw t) @ bytes16 0 @ bytes32 0 @ bytes64 n)) = 0"
    "Get32 (drop 4 (bytes16 (scalar_raw t) @ bytes16 0 @ bytes32 0 @ bytes64 n)) = 0"
    "Get64 (drop 8 (bytes16 (scalar_raw t) @ bytes16 0 @ bytes32 0 @ bytes64 n)) = n"
    by (simp_all add: drop_append)
  have arr: "StreamArrayValue s f t = Some ?a"
    unfolding StreamArrayValue_def read option.case reads using f len by simp
  have "cut b (sa_elementsOffset ?a) (sa_stop ?a) = drop 16 ?v"
    by (simp add: cut_def slice_bytes_def drop_take add.commute)
  then have "cut b (sa_elementsOffset ?a) (sa_stop ?a) = body"
    using v by (simp add: drop_append)
  with arr show thesis using that by simp
qed

subsection \<open>The header\<close>

definition patch_head :: "GraphVersionV1 \<Rightarrow> bytes" where
  "patch_head version = concat (map field_bytes
     [req_field 1 ST_Uint16 (bytes16 1), req_field 2 ST_Bool [1], req_field 3 ST_Struct (wire_form version)])"

lemma patch_bytes_split:
  "concat (map field_bytes (patch_fields p)) = patch_head (dp_version p) @
     field_bytes (raw_array 4 ST_UUID128 (size64 (dp_clientLocalIds p)) (frames (dp_clientLocalIds p))) @
     field_bytes (raw_array 5 ST_Struct (size64 (dp_operations p)) (frames (map EncodeOperation (dp_operations p))))"
proof -
  have "size64 (dp_operations p) = size64 (map EncodeOperation (dp_operations p))"
    by (simp add: size64_def)
  then show ?thesis by (simp add: patch_fields_def patch_head_def raw_array_arr)
qed

lemma orE_Inr: "orE e x = Inr a \<longleftrightarrow> x = Some a"
  by (simp add: orE_def split: option.split)

lemma case_sum_Inr: "case_sum (\<lambda>_. Inl e) f x = Inr r \<longleftrightarrow> (\<exists>a. x = Inr a \<and> f a = Inr r)"
  by (simp split: sum.split)

lemma header_honest:
  assumes "honest s b" "length b < 2 ^ 62" "stream_header s v = Inr (locals, operations)"
  shows "\<exists>version. version_shape version \<and> ValidateGraphVersion version = GV_None \<and> PatchVersionCas version v \<and>
      b = patch_head version @
        field_bytes (raw_array 4 ST_UUID128 (sa_count locals) (cut b (sa_elementsOffset locals) (sa_stop locals))) @
        field_bytes (raw_array 5 ST_Struct (sa_count operations) (cut b (sa_elementsOffset operations) (sa_stop operations)))"
    and "sa_elementsOffset locals \<le> sa_stop locals" "sa_stop locals \<le> length b"
      "sa_elementsOffset operations \<le> sa_stop operations" "sa_stop operations = length b"
proof -
  let ?n = "length b"
  have n: "ss_length s = ?n" using assms(1) by (simp add: honest_def)
  obtain f1 a1 x1 f2 a2 x2 f3 a3 x3 version f4 a4 f5 where
    F1: "StreamFieldAt s 0 ?n = Some (f1, a1)" "Required f1 1 ST_Uint16 2"
      "Source_Read s (sl_offset (sf_value f1)) 2 = Some x1" "Get16 x1 = 1"
    and F2: "StreamFieldAt s a1 ?n = Some (f2, a2)" "required_value s f2 2 ST_Bool 1 = Some x2" "x2 ! 0 = 1"
    and F3: "StreamFieldAt s a2 ?n = Some (f3, a3)" "required_value s f3 3 ST_Struct kGraphVersionBytesV1 = Some x3"
      "DeserializeGraphVersion x3 = Inr version" "PatchVersionCas version v"
    and F4: "StreamFieldAt s a3 ?n = Some (f4, a4)" "sf_tag f4 = 4"
    and F5: "StreamFieldAt s a4 ?n = Some (f5, ?n)" "sf_tag f5 = 5"
    and A: "StreamArrayValue s f4 ST_UUID128 = Some locals" "StreamArrayValue s f5 ST_Struct = Some operations"
    using assms(3) unfolding stream_header_def n
    by (auto simp: bindE_Inr_iff orE_Inr bind_eq_Some_conv case_sum_Inr split: if_split_asm)
  have "required_value s f1 1 ST_Uint16 2 = Some x1"
    using F1 by (simp add: required_value_def)
  note R1 = next_required [OF assms(1) F1(1) this order.refl] and R2 = next_required [OF assms(1) F2(1,2) order.refl]
    and R3 = next_required [OF assms(1) F3(1,2) order.refl]
    and R4 = FieldAt_honest [OF assms(1) F4(1) order.refl] and R5 = FieldAt_honest [OF assms(1) F5(1) order.refl]
  note A4 = array_honest [OF assms(1) A(1) R4(6)] and A5 = array_honest [OF assms(1) A(2) R5(6)]
  have x: "x1 = bytes16 1" "x2 = [1]" "x3 = wire_form version"
    using bytes16_self [OF R1(2)] F1(4) one_byte [OF R2(2)] F2(3) wire_form_Deserialize [OF F3(3)] by simp_all
  have "b = cut b 0 ?n" by (simp add: cut_def)
  also have "\<dots> = patch_head version @ field_bytes (field_of b f4) @ field_bytes (field_of b f5)"
    using R1(1) R2(1) R3(1) R4(2) R5(2) by (simp add: x patch_head_def)
  finally show "\<exists>version. version_shape version \<and> ValidateGraphVersion version = GV_None \<and> PatchVersionCas version v \<and>
      b = patch_head version @
        field_bytes (raw_array 4 ST_UUID128 (sa_count locals) (cut b (sa_elementsOffset locals) (sa_stop locals))) @
        field_bytes (raw_array 5 ST_Struct (sa_count operations) (cut b (sa_elementsOffset operations) (sa_stop operations)))"
    using A4(1) A5(1) F4(2) F5(2) wire_form_Deserialize [OF F3(3)] F3(4) by (intro exI [of _ version]) simp
  show "sa_elementsOffset locals \<le> sa_stop locals" "sa_stop locals \<le> length b"
      "sa_elementsOffset operations \<le> sa_stop operations"
    by (rule A4(2,3) A5(2))+
  show "sa_stop operations = length b"
    using R5(3,4) unfolding A5(5) by simp
qed

lemma header_readable:
  assumes "readable s b" "length b < 2 ^ 62" "version_shape version" "ValidateGraphVersion version = GV_None" "PatchVersionCas version v"
    and b: "b = patch_head version @ field_bytes (raw_array 4 ST_UUID128 m ids) @ field_bytes (raw_array 5 ST_Struct n body)"
  obtains locals operations where "stream_header s v = Inr (locals, operations)" "sa_count locals = m" "sa_count operations = n"
    "cut b (sa_elementsOffset locals) (sa_stop locals) = ids" "cut b (sa_elementsOffset operations) (sa_stop operations) = body"
proof -
  let ?n = "length b"
  let ?four = "field_bytes (raw_array 4 ST_UUID128 m ids)" and ?five = "field_bytes (raw_array 5 ST_Struct n body)"
  have n: "ss_length s = ?n" using assms(1) by (simp add: readable_def)
  have wire: "length (wire_form version) = 168" by (rule length_wire_form [OF assms(3)])
  have "cut b 0 ?n = field_bytes (req_field 1 ST_Uint16 (bytes16 1)) @ field_bytes (req_field 2 ST_Bool [1]) @
      field_bytes (req_field 3 ST_Struct (wire_form version)) @ ?four @ ?five"
    by (subst b) (simp add: cut_def b patch_head_def)
  from find_required [OF assms(1) this _ order.refl assms(2)] obtain f1 where
    f1: "StreamFieldAt s 0 ?n = Some (f1, 26)" "Required f1 1 ST_Uint16 2" "required_value s f1 1 ST_Uint16 2 = Some (bytes16 1)"
      "cut b 26 ?n = field_bytes (req_field 2 ST_Bool [1]) @ field_bytes (req_field 3 ST_Struct (wire_form version)) @ ?four @ ?five"
      "26 \<le> ?n"
    by auto
  from f1(3) have x1: "Source_Read s (sl_offset (sf_value f1)) 2 = Some (bytes16 1)"
    by (simp add: required_value_def split: if_split_asm)
  from find_required [OF assms(1) f1(4,5) order.refl assms(2)] obtain f2 where
    f2: "StreamFieldAt s 26 ?n = Some (f2, 51)" "required_value s f2 2 ST_Bool 1 = Some [1]"
      "cut b 51 ?n = field_bytes (req_field 3 ST_Struct (wire_form version)) @ ?four @ ?five" "51 \<le> ?n"
    by auto
  from find_required [OF assms(1) f2(3,4) order.refl assms(2)] wire obtain f3 where
    f3: "StreamFieldAt s 51 ?n = Some (f3, 243)" "required_value s f3 3 ST_Struct 168 = Some (wire_form version)"
      "cut b 243 ?n = ?four @ ?five" "243 \<le> ?n"
    by (auto simp: kReaderBuffer_def)
  have "length (fl_value (raw_array 4 ST_UUID128 m ids)) < 2 ^ 64" "length (fl_value (raw_array 5 ST_Struct n body)) < 2 ^ 64"
    using assms(2) unfolding b by (simp_all add: raw_array_def)
  then have ok: "head_ok (raw_array 4 ST_UUID128 m ids)" "head_ok (raw_array 5 ST_Struct n body)"
    by (simp_all add: head_ok_def raw_array_def)
  let ?a4 = "243 + length ?four" and ?a5 = "243 + length ?four + length ?five"
  obtain f4 where f4: "StreamFieldAt s 243 ?n = Some (f4, ?a4)" "field_of b f4 = raw_array 4 ST_UUID128 m ids"
      "inside b (sf_value f4)" "cut b ?a4 ?n = ?five" "?a4 \<le> ?n"
    by (rule FieldAt_at [OF assms(1) f3(3) ok(1) f3(4) order.refl assms(2)])
  have "cut b ?a4 ?n = ?five @ []" using f4(4) by simp
  then obtain f5 where f5: "StreamFieldAt s ?a4 ?n = Some (f5, ?a5)" "field_of b f5 = raw_array 5 ST_Struct n body"
      "inside b (sf_value f5)" "cut b ?a5 ?n = []" "?a5 \<le> ?n"
    by (rule FieldAt_at [OF assms(1) _ ok(2) f4(5) order.refl assms(2)])
  have stop: "?a5 = ?n" using length_cut [of ?n b ?a5] f5(4,5) by simp
  from array_readable [OF assms(1) f4(2,3)] obtain locals where
    locals: "StreamArrayValue s f4 ST_UUID128 = Some locals" "sa_count locals = m"
      "cut b (sa_elementsOffset locals) (sa_stop locals) = ids" .
  from array_readable [OF assms(1) f5(2,3)] obtain operations where
    operations: "StreamArrayValue s f5 ST_Struct = Some operations" "sa_count operations = n"
      "cut b (sa_elementsOffset operations) (sa_stop operations) = body" .
  have tags: "sf_tag f4 = 4" "sf_tag f5 = 5"
    using f4(2) f5(2) by (simp_all add: field_of_def raw_array_def)
  have "stream_header s v = Inr (locals, operations)"
    unfolding stream_header_def n f1(1) bind.bind_lunit prod.case check_bind if_P [OF f1(2)] orE_def option.case bindE_simps x1 f2(1,2) f3(1)
    using f3(1,2) f4(1) f5(1) stop locals(1) operations(1) tags assms(5) Deserialize_wire_form [OF assms(3,4)]
    by (simp add: kGraphVersionBytesV1_def check_def)
  then show thesis by (rule that [OF _ locals(2) operations(2) locals(3) operations(3)])
qed

subsection \<open>Lengths\<close>

lemma operation_size: "op_shape opn \<Longrightarrow> 181 + length (op_before opn) + length (op_after opn) \<le> length (EncodeOperation opn)"
  unfolding EncodeOperation_bytes
  by (auto simp: op_shape_def op_fields_def req_field_def BytesScalar_def split: option.splits)

lemma length_frames_list: "length (frames vs) = sum_list (map (\<lambda>v. 8 + length v) vs)"
  by (induction vs) simp_all

lemma operations_size:
  "\<forall>opn \<in> set ops. op_shape opn \<Longrightarrow>
    sum_list (map (\<lambda>opn. 256 + length (op_before opn) + length (op_after opn)) ops) \<le> 2 * length (frames (map EncodeOperation ops))"
proof (induction ops)
  case (Cons opn ops)
  then show ?case using operation_size [of opn] by simp
qed simp

lemma ids_size: "\<forall>u \<in> set us. length u = 16 \<Longrightarrow> length (frames us) = 24 * length us"
  by (induction us) simp_all

lemma patch_bytes_shape:
  assumes "b = concat (map field_bytes (patch_fields p))" "length b < 2 ^ 62" "version_shape (dp_version p)"
    "\<forall>u \<in> set (dp_clientLocalIds p). length u = 16" "\<forall>opn \<in> set (dp_operations p). op_shape opn"
  shows "patch_shape p"
proof -
  have "length (frames (dp_clientLocalIds p)) + length (frames (map EncodeOperation (dp_operations p))) \<le> length b"
    unfolding assms(1) patch_bytes_split by (simp add: raw_array_def)
  then have "patch_size p \<le> 512 + 2 * length b"
    using ids_size [OF assms(4)] operations_size [OF assms(5)] by (simp add: patch_size_def)
  then show ?thesis
    using assms(2-5) by (simp add: patch_shape_def op_shape_def)
qed

subsection \<open>The canonical patch of a file\<close>

lemma named_ids: "named_locals us opn = {u \<in> set us. names_id opn u}"
  by (auto simp: named_locals_def names_id_def)

lemma valid_locals: "check_locals prior us \<Longrightarrow> u \<in> set us \<Longrightarrow> ValidId u"
  by (induction us arbitrary: prior) (fastforce split: if_split_asm)+

lemma canonical_of:
  assumes "gv_semanticCertified version" "ids_ok None us" "ops_ok us None ops" "\<forall>u \<in> set us. \<exists>opn \<in> set ops. names_id opn u"
  shows "canonical \<lparr>dp_version = version, dp_clientLocalIds = us, dp_operations = ops\<rparr>"
proof -
  have "set us = (\<Union>opn \<in> set ops. named_locals us opn)"
    unfolding named_ids using assms(4) by blast
  moreover have "sorted us" "check_locals None us"
    using assms(2) unfolding ids_ok_alt by blast+
  moreover have "sorted (map OperationKey ops)" "\<forall>opn \<in> set ops. op_before opn \<noteq> op_after opn \<and> op_ok us opn"
    "\<forall>j. chain_from None (key_ops j ops)"
    using assms(3) unfolding ops_ok_alt by blast+
  ultimately show ?thesis
    using assms(1) unfolding canonical_def DocumentPatchV1.select_convs by blast
qed

lemma canonical_parts:
  assumes "canonical p"
  shows "gv_semanticCertified (dp_version p)" "ops_ok (dp_clientLocalIds p) None (dp_operations p)"
    "\<forall>u \<in> set (dp_clientLocalIds p). ValidId u" "\<forall>u \<in> set (dp_clientLocalIds p). \<exists>opn \<in> set (dp_operations p). names_id opn u"
    "sorted (dp_clientLocalIds p)" "check_locals None (dp_clientLocalIds p)" "sorted (map OperationKey (dp_operations p))"
    "\<forall>opn \<in> set (dp_operations p). ValidId (op_target opn) \<and> check_values opn = PE_None"
proof -
  note c = assms [unfolded canonical_def]
  show "gv_semanticCertified (dp_version p)" "sorted (dp_clientLocalIds p)" "check_locals None (dp_clientLocalIds p)"
    "sorted (map OperationKey (dp_operations p))"
    using c by blast+
  show "ops_ok (dp_clientLocalIds p) None (dp_operations p)"
    unfolding ops_ok_alt using c by blast
  show "\<forall>u \<in> set (dp_clientLocalIds p). ValidId u"
    using valid_locals c by blast
  show "\<forall>opn \<in> set (dp_operations p). ValidId (op_target opn) \<and> check_values opn = PE_None"
    using c unfolding op_ok_def by blast
  have "set (dp_clientLocalIds p) = (\<Union>opn \<in> set (dp_operations p). named_locals (dp_clientLocalIds p) opn)"
    using c by blast
  then show "\<forall>u \<in> set (dp_clientLocalIds p). \<exists>opn \<in> set (dp_operations p). names_id opn u"
    unfolding named_ids by blast
qed

lemma certified_encoding:
  assumes "canonical p" "patch_shape p" "ValidateGraphVersion (dp_version p) = GV_None"
  shows "EncodeCanonicalPatchV1 p = Inr (concat (map field_bytes (patch_fields p)))"
proof -
  have "SerializeGraphVersion (dp_version p) = Inr (wire_form (dp_version p))"
    using Serialize_wire_form assms(2,3) by (simp add: patch_shape_def)
  then show ?thesis
    unfolding Encode_Inr using canonical_Normalize [OF assms(1)] encode_patch_bytes [OF assms(2)] by auto
qed

lemma encoding_certified:
  assumes "EncodeCanonicalPatchV1 p = Inr b" "Patch_Normalize p = Inr p" "patch_shape p"
  shows "b = concat (map field_bytes (patch_fields p))" "ValidateGraphVersion (dp_version p) = GV_None"
proof -
  obtain w where w: "SerializeGraphVersion (dp_version p) = Inr w" "b = encode_patch_fields p w"
    using assms(1,2) by (auto simp: Encode_Inr)
  then show "ValidateGraphVersion (dp_version p) = GV_None"
    by (auto simp: SerializeGraphVersion_def Let_def split: if_splits)
  then have "w = wire_form (dp_version p)"
    using w(1) Serialize_wire_form [of "dp_version p"] assms(3) by (simp add: patch_shape_def)
  then show "b = concat (map field_bytes (patch_fields p))"
    using w(2) encode_patch_bytes [OF assms(3)] by simp
qed

lemma sum_invert:
  fixes f :: "OperationV1 \<Rightarrow> nat"
  assumes "\<And>opn. opn \<in> set ops \<Longrightarrow> f (swap_values opn) = f opn"
  shows "sum_list (map f (invert_ops ops)) = sum_list (map f ops)"
proof -
  have "mset (map f (invert_ops ops)) = mset (map f (map swap_values ops))"
    by (simp add: invert_ops_def mset_map flip: image_mset.compositionality)
  then have "sum_list (map f (invert_ops ops)) = sum_list (map f (map swap_values ops))"
    by (metis sum_mset_sum_list)
  also have "\<dots> = sum_list (map f ops)"
    unfolding map_map comp_def by (rule arg_cong [where f = sum_list], rule map_cong) (simp_all add: assms)
  finally show ?thesis .
qed

text \<open>The inverse has the same head and operations of the same lengths.\<close>

lemma invert_lengths:
  assumes "\<forall>opn \<in> set ops. op_shape opn"
  shows "length (frames (map EncodeOperation (invert_ops ops))) = length (frames (map EncodeOperation ops))"
    "length (invert_ops ops) = length ops" "\<forall>opn \<in> set (invert_ops ops). op_shape opn"
proof -
  have swap: "op_shape (swap_values opn)" "length (EncodeOperation (swap_values opn)) = length (EncodeOperation opn)"
    if "op_shape opn" for opn
  proof -
    show shape: "op_shape (swap_values opn)" using that by (simp add: op_shape_def)
    show "length (EncodeOperation (swap_values opn)) = length (EncodeOperation opn)"
      unfolding EncodeOperation_bytes [OF shape] EncodeOperation_bytes [OF that]
      by (simp add: op_fields_def swap_values_def BytesScalar_def split: option.splits)
  qed
  have "sum_list (map (\<lambda>opn. 8 + length (EncodeOperation opn)) (invert_ops ops)) =
      sum_list (map (\<lambda>opn. 8 + length (EncodeOperation opn)) ops)"
    by (rule sum_invert) (use assms swap(2) in simp)
  then show "length (frames (map EncodeOperation (invert_ops ops))) = length (frames (map EncodeOperation ops))"
    by (simp add: length_frames_list comp_def)
  show "length (invert_ops ops) = length ops" by (simp add: invert_ops_def)
  show "\<forall>opn \<in> set (invert_ops ops). op_shape opn" using assms swap(1) by simp
qed

lemma inverse_encoding:
  assumes "canonical p" "patch_shape p" "ValidateGraphVersion (dp_version p) = GV_None"
  defines "body \<equiv> frames (map EncodeOperation (dp_operations p))" and "b \<equiv> concat (map field_bytes (patch_fields p))"
  shows "InvertPatchV1 p = Inr (p\<lparr>dp_operations := invert_ops (dp_operations p)\<rparr>)"
    "EncodeCanonicalPatchV1 (p\<lparr>dp_operations := invert_ops (dp_operations p)\<rparr>) =
       Inr (take (length b - length body) b @ frames (map EncodeOperation (invert_ops (dp_operations p))))"
proof -
  let ?q = "p\<lparr>dp_operations := invert_ops (dp_operations p)\<rparr>"
  let ?inv = "frames (map EncodeOperation (invert_ops (dp_operations p)))"
  show "InvertPatchV1 p = Inr ?q"
    by (simp add: InvertPatchV1_alt canonical_Normalize [OF assms(1)])
  note L = invert_lengths [of "dp_operations p", folded body_def]
  have shape: "\<forall>opn \<in> set (dp_operations p). op_shape opn"
    using patch_ops_shape [OF assms(2)] by blast
  let ?head = "patch_head (dp_version p) @ field_bytes (raw_array 4 ST_UUID128 (size64 (dp_clientLocalIds p)) (frames (dp_clientLocalIds p)))"
  let ?five = "\<lambda>x. field_bytes (raw_array 5 ST_Struct (size64 (dp_operations p)) x)"
  have size: "patch_size ?q = patch_size p"
    unfolding patch_size_def by (simp add: sum_invert)
  have "patch_shape ?q"
    using assms(2) L(3) [OF shape] size by (auto simp: patch_shape_def)
  then have "EncodeCanonicalPatchV1 ?q = Inr (concat (map field_bytes (patch_fields ?q)))"
    using certified_encoding [OF canonical_invert [OF assms(1)]] assms(3) by simp
  moreover have "size64 (invert_ops (dp_operations p)) = size64 (dp_operations p)"
    using L(2) [OF shape] by (simp add: size64_def)
  then have "concat (map field_bytes (patch_fields ?q)) = ?head @ ?five ?inv"
    unfolding patch_bytes_split by simp
  moreover have b: "b = ?head @ ?five body"
    unfolding b_def patch_bytes_split by (simp add: body_def)
  moreover have inv: "?five ?inv = take (length (?five body) - length body) (?five body) @ ?inv" "length body \<le> length (?five body)"
    using L(1) [OF shape] by (simp_all add: field_bytes_def raw_array_def size64_def)
  moreover have "take (length b - length body) b = ?head @ take (length (?five body) - length body) (?five body)"
    unfolding b using inv(2) by (simp add: take_append del: length_field_bytes)
  ultimately show "EncodeCanonicalPatchV1 ?q = Inr (take (length b - length body) b @ ?inv)"
    by (metis append.assoc)
qed

subsection \<open>A patch read from memory fits\<close>

lemma elements_size: "array_elements n v = Some es \<Longrightarrow> sum_list (map (\<lambda>e. 8 + length e) es) = length v"
proof (induction n v arbitrary: es rule: array_elements.induct)
  case (2 k v)
  from "2.prems" obtain ds where ds: "\<not> length v < 8" "\<not> unat (Get64 v) > length (drop 8 v)"
    "array_elements k (drop (unat (Get64 v)) (drop 8 v)) = Some ds" "es = take (unat (Get64 v)) (drop 8 v) # ds"
    by (auto simp: Let_def split: if_split_asm)
  from "2.IH" [OF ds(1) refl refl ds(2) ds(3)] ds show ?case by (simp add: min_def)
qed (auto split: if_split_asm)

lemma decode_operation_size:
  assumes "DecodeOperation e = Inr opn"
  shows "length (op_target opn) = 16" "144 + length (op_before opn) + length (op_after opn) \<le> length e"
proof -
  obtain fs where fs: "ParseFields e = Some fs" "ExactTags fs [1, 2, 3, 5, 6, 7] \<or> ExactTags fs [1, 2, 3, 4, 5, 6, 7]"
    and dec: "decode_operation_fields fs = Inr opn"
    using assms by (auto simp: DecodeOperation_def split: option.splits if_split_asm)
  have e: "e = concat (map field_bytes fs)"
    using parse_fields_Some [of None e fs] fs(1) by (simp add: ParseFields_def)
  have opn: "op_before opn = drop 8 (field_value (Find_field fs 6))" "op_after opn = drop 8 (field_value (Find_field fs 7))"
    and id: "ReadId (Find_field fs 2) = Some (op_target opn)"
    using dec by (auto simp: decode_operation_fields_def Let_def split: if_split_asm)
  show "length (op_target opn) = 16"
    using id by (auto simp: ReadId_def Exact_def field_value_def split: if_split_asm option.splits)
  have "144 + length (field_value (Find_field fs 6)) + length (field_value (Find_field fs 7)) \<le> length e"
    using fs(2) unfolding e ExactTags_def
    by (auto simp: list_all2_Cons2 Find_field_def field_value_def)
  then show "144 + length (op_before opn) + length (op_after opn) \<le> length e"
    unfolding opn by simp
qed

lemma decode_operations_size:
  "decode_operations es = Inr ops \<Longrightarrow> (\<forall>opn \<in> set ops. length (op_target opn) = 16) \<and>
     sum_list (map (\<lambda>opn. 256 + length (op_before opn) + length (op_after opn)) ops) \<le> 2 * sum_list (map (\<lambda>e. 8 + length e) es)"
proof (induction es arbitrary: ops)
  case (Cons e es)
  then obtain opn rest where "DecodeOperation e = Inr opn" "decode_operations es = Inr rest" "ops = opn # rest"
    by (auto simp: bindE_Inr_iff)
  with Cons.IH [OF this(2)] decode_operation_size [OF this(1)] show ?case by simp
qed simp

lemma array_value_size:
  assumes "ParseArray field t = Some vs"
  shows "16 + sum_list (map (\<lambda>v. 8 + length v) vs) = length (field_value field)"
proof -
  obtain f where f: "field = Some f" "\<not> length (fl_value f) < 16"
    "array_elements (unat (fl_elementCount f)) (drop 16 (fl_value f)) = Some vs"
    using assms by (auto simp: ParseArray_def split: option.splits if_split_asm)
  then show ?thesis
    using elements_size [OF f(3)] by (simp add: field_value_def)
qed

lemma read_patch_size:
  assumes "ParseFields b = Some fs" "ExactTags fs [1, 2, 3, 4, 5]" "read_patch_fields fs v = Inr p"
  shows "version_shape (dp_version p)" "\<forall>u \<in> set (dp_clientLocalIds p). length u = 16"
    "\<forall>opn \<in> set (dp_operations p). length (op_target opn) = 16" "patch_size p \<le> 512 + 2 * length b"
proof -
  have b: "b = concat (map field_bytes fs)"
    using parse_fields_Some [of None b fs] assms(1) by (simp add: ParseFields_def)
  obtain w version us es ops where
    version: "DeserializeGraphVersion w = Inr version"
    and arrays: "ParseArray (Find_field fs 4) ST_UUID128 = Some us" "ParseArray (Find_field fs 5) ST_Struct = Some es"
    and locals: "\<not> (\<exists>u \<in> set us. length u \<noteq> 16)" and ops: "decode_operations es = Inr ops"
    and p: "p = \<lparr>dp_version = version, dp_clientLocalIds = us, dp_operations = ops\<rparr>"
    using assms(3) unfolding read_patch_fields_def Let_def
    by (auto simp: bindE_Inr_iff split: if_split_asm sum.splits option.splits)
  have "length (field_value (Find_field fs 4)) + length (field_value (Find_field fs 5)) \<le> length b"
    using assms(2) unfolding b ExactTags_def by (auto simp: list_all2_Cons2 Find_field_def field_value_def)
  moreover have "sum_list (map (\<lambda>v. 8 + length v) us) = 24 * length us"
    using locals by (induction us) auto
  ultimately show "patch_size p \<le> 512 + 2 * length b"
    using array_value_size [OF arrays(1)] array_value_size [OF arrays(2)] decode_operations_size [OF ops]
    by (simp add: patch_size_def p)
  show "version_shape (dp_version p)"
    using wire_form_Deserialize [OF version] by (simp add: p)
  show "\<forall>u \<in> set (dp_clientLocalIds p). length u = 16"
    using locals by (simp add: p)
  show "\<forall>opn \<in> set (dp_operations p). length (op_target opn) = 16"
    using decode_operations_size [OF ops] by (simp add: p)
qed

lemma same_sum: "mset xs = mset ys \<Longrightarrow> sum_list xs = sum_list (ys :: nat list)"
  by (metis sum_mset_sum_list)

lemma sum_list_filter_le: "sum_list (map f (filter P xs)) \<le> sum_list (map (f :: 'a \<Rightarrow> nat) xs)"
  by (induction xs) auto

lemma parsed_shape:
  assumes "ParseCanonicalPatchV1 b v = Inr p" "length b < 2 ^ 62"
  shows "patch_shape p"
proof -
  obtain fs original where o: "ParseFields b = Some fs" "ExactTags fs [1, 2, 3, 4, 5]" "read_patch_fields fs v = Inr original"
    "Patch_Normalize original = Inr p"
    using assms(1) by (auto simp: ParseCanonicalPatchV1_def bindE_Inr_iff split: option.splits if_split_asm sum.splits)
  note R = read_patch_size [OF o(1-3)] and N = Normalize_canonical [OF o(4)]
  let ?f = "\<lambda>opn. 256 + length (op_before opn) + length (op_after opn)"
  let ?kept = "filter (\<lambda>opn. op_before opn \<noteq> op_after opn) (dp_operations original)"
  have "mset (map ?f (dp_operations p)) = mset (map ?f ?kept)"
    by (simp only: N(4) mset_map mset_sort)
  then have "sum_list (map ?f (dp_operations p)) = sum_list (map ?f ?kept)"
    by (rule same_sum)
  also have "\<dots> \<le> sum_list (map ?f (dp_operations original))"
    by (rule sum_list_filter_le)
  finally have "patch_size p \<le> patch_size original"
    using N(3) by (simp add: patch_size_def)
  with R(4) assms(2) have "patch_size p < 2 ^ 64" by simp
  with R(1-3) N(2-4) show ?thesis by (simp add: patch_shape_def)
qed

subsection \<open>The two parsers\<close>

definition sealed_result :: "(bytes \<Rightarrow> Sha256) \<Rightarrow> bytes \<Rightarrow> bytes \<Rightarrow> OperationV1 list \<Rightarrow> SealedPatchValidationV1" where
  "sealed_result sha patch undo ops =
    \<lparr>sv_canonicalDigest = sha (kPatchDomain @ patch), sv_inverseDigest = sha (kPatchDomain @ undo),
     sv_operationCount = size64 ops\<rparr>"

text \<open>What an honest source lets the validation find.\<close>

lemma passes_honest:
  assumes "honest s b" "length b < 2 ^ 62" "ParseSealedPatchV1 sha s v = Inr r"
  obtains locals operations us ops x where "stream_header s v = Inr (locals, operations)" "holds_ids b locals us"
    "holds_ops b operations ops" "ops_ok us None ops" "\<forall>opn \<in> set ops. op_shape opn"
    "\<forall>u \<in> set us. \<exists>opn \<in> set ops. names_id opn u"
    "inverse_operations s (sa_stop operations) (sa_elementsOffset operations) = Inr x"
    "r = \<lparr>sv_canonicalDigest = sha (kPatchDomain @ b), sv_inverseDigest = sha (kPatchDomain @ take (sa_elementsOffset operations) b @ x),
       sv_operationCount = sa_count operations\<rparr>"
proof -
  have n: "ss_length s = length b" using assms(1) by (simp add: honest_def)
  obtain locals operations pb px x where head: "stream_header s v = Inr (locals, operations)"
    and L: "stream_locals s (sa_stop locals) (unat (sa_count locals)) (sa_elementsOffset locals) None = Some (sa_stop locals)"
    and O: "stream_operations s locals (sa_stop operations) (unat (sa_count operations)) (sa_elementsOffset operations) None =
      Inr (sa_stop operations)"
    and N: "locals_observed s (sa_stop locals) operations (unat (sa_count locals)) (sa_elementsOffset locals) = Inr ()"
    and C: "Source_Copy s \<lparr>sl_offset = 0, sl_length = length b\<rparr> = Some pb"
      "Source_Copy s \<lparr>sl_offset = 0, sl_length = sa_elementsOffset operations\<rparr> = Some px"
    and I: "inverse_operations s (sa_stop operations) (sa_elementsOffset operations) = Inr x"
    and r: "r = \<lparr>sv_canonicalDigest = sha (kPatchDomain @ pb), sv_inverseDigest = sha (kPatchDomain @ px @ x),
       sv_operationCount = sa_count operations\<rparr>"
    using assms(3) unfolding ParseSealedPatchV1_def n
    by (auto simp: bindE_Inr_iff orE_Inr split: if_split_asm)
  note H = header_honest(2-5) [OF assms(1,2) head]
  obtain us where us: "length us = unat (sa_count locals)" "cut b (sa_elementsOffset locals) (sa_stop locals) = frames us" "ids_ok None us"
    using locals_honest [OF assms(1) H(2) L H(1)] by auto
  then have ids: "holds_ids b locals us" using H(1,2) by (simp add: holds_ids_def)
  obtain ops where ops: "length ops = unat (sa_count operations)"
    "cut b (sa_elementsOffset operations) (sa_stop operations) = frames (map EncodeOperation ops)"
    "ops_ok us None ops" "\<forall>opn \<in> set ops. op_shape opn"
    using operations_honest [OF assms(1,2) ids _ O H(3)] H(4) by (auto simp: prior_inside_def prior_bytes_def)
  have "\<forall>opn \<in> set ops. op_ok us opn"
    using ops(3) unfolding ops_ok_alt by blast
  then have "\<forall>opn \<in> set ops. good_op opn"
    using ops(4) by (simp add: good_op_def op_ok_def)
  then have hops: "holds_ops b operations ops"
    using ops(1,2) H(3,4) by (simp add: holds_ops_def)
  have "\<forall>u \<in> set us. length u = 16" using us(3) unfolding ids_ok_alt by blast
  then have named: "\<forall>u \<in> set us. \<exists>opn \<in> set ops. names_id opn u"
    using locals_observed_honest [OF assms(1,2) H(2) hops N [folded us(1)] us(2)] by blast
  have "pb = b" "px = take (sa_elementsOffset operations) b"
    using Copy_honest [OF assms(1) C(1)] Copy_honest [OF assms(1) C(2)] by (simp_all add: slice_bytes_def)
  with r show thesis
    by (intro that [OF head ids hops ops(3,4) named I]) simp
qed

lemma count_size:
  assumes "unat n = length xs"
  shows "n = size64 xs"
  unfolding size64_def assms [symmetric] by simp

lemma sealed_sound:
  assumes "honest s b" "length b < 2 ^ 62" "ParseSealedPatchV1 sha s v = Inr r"
  shows "\<exists>p q w. ParseCanonicalPatchV1 b v = Inr p \<and> InvertPatchV1 p = Inr q \<and> EncodeCanonicalPatchV1 q = Inr w \<and>
    r = sealed_result sha b w (dp_operations p)"
proof -
  obtain locals operations us ops x where head: "stream_header s v = Inr (locals, operations)" and ids: "holds_ids b locals us"
    and hops: "holds_ops b operations ops" and ok: "ops_ok us None ops" and shape: "\<forall>opn \<in> set ops. op_shape opn"
    and named: "\<forall>u \<in> set us. \<exists>opn \<in> set ops. names_id opn u"
    and I: "inverse_operations s (sa_stop operations) (sa_elementsOffset operations) = Inr x"
    and r: "r = \<lparr>sv_canonicalDigest = sha (kPatchDomain @ b),
      sv_inverseDigest = sha (kPatchDomain @ take (sa_elementsOffset operations) b @ x), sv_operationCount = sa_count operations\<rparr>"
    by (rule passes_honest [OF assms])
  note H = header_honest [OF assms(1,2) head]
  have counts: "sa_count locals = size64 us" "sa_count operations = size64 ops"
    by (rule count_size; use ids hops in \<open>simp add: holds_ids_def holds_ops_def\<close>)+
  obtain version where version: "version_shape version" "ValidateGraphVersion version = GV_None" "PatchVersionCas version v"
    and b: "b = patch_head version @ field_bytes (raw_array 4 ST_UUID128 (size64 us) (frames us)) @
      field_bytes (raw_array 5 ST_Struct (size64 ops) (frames (map EncodeOperation ops)))"
    using H(1) ids hops unfolding counts [symmetric] by (auto simp: holds_ids_def holds_ops_def)
  let ?p = "\<lparr>dp_version = version, dp_clientLocalIds = us, dp_operations = ops\<rparr>"
  have bytes: "b = concat (map field_bytes (patch_fields ?p))"
    unfolding patch_bytes_split using b by simp
  have certified: "gv_semanticCertified version" using version(3) by (simp add: PatchVersionCas_def)
  have canon: "canonical ?p"
    by (rule canonical_of [OF certified _ ok named]) (use ids in \<open>simp add: holds_ids_def\<close>)
  have "ids_ok None us" using ids by (simp add: holds_ids_def)
  then have "\<forall>u \<in> set us. length u = 16" unfolding ids_ok_alt by blast
  then have ps: "patch_shape ?p"
    using patch_bytes_shape [OF bytes assms(2)] version(1) shape by simp
  have valid: "ValidateGraphVersion (dp_version ?p) = GV_None" using version(2) by simp
  have enc: "EncodeCanonicalPatchV1 ?p = Inr b"
    using certified_encoding [OF canon ps valid] bytes by simp
  have parse: "ParseCanonicalPatchV1 b v = Inr ?p"
    by (rule Parse_of_Encode [OF ps enc canonical_Normalize [OF canon]]) (use version(3) in simp)
  have sorted: "sorted (map OperationKey ops)" using ok unfolding ops_ok_alt by blast
  have O: "sa_elementsOffset operations \<le> sa_stop operations" "sa_stop operations \<le> length b"
    "cut b (sa_elementsOffset operations) (sa_stop operations) = frames (map EncodeOperation ops)" "\<forall>opn \<in> set ops. good_op opn"
    using hops by (simp_all add: holds_ops_def)
  have x: "x = frames (map EncodeOperation (invert_ops ops))"
    by (rule inverse_honest [OF assms(1,2) O(2) I O(1,3,4) sorted])
  have "sa_elementsOffset operations = length b - length (frames (map EncodeOperation ops))"
    using length_cut [OF O(2), of "sa_elementsOffset operations"] O(1,3) H(5) by simp
  then have "EncodeCanonicalPatchV1 (?p\<lparr>dp_operations := invert_ops ops\<rparr>) = Inr (take (sa_elementsOffset operations) b @ x)"
    using inverse_encoding(2) [OF canon ps valid] bytes x by simp
  moreover have "InvertPatchV1 ?p = Inr (?p\<lparr>dp_operations := invert_ops ops\<rparr>)"
    using inverse_encoding(1) [OF canon ps valid] by simp
  ultimately show ?thesis
    using parse r counts(2) by (auto simp: sealed_result_def)
qed

text \<open>What a readable source makes of a patch that parses in memory.\<close>

lemma accepted_layout:
  assumes "readable s b" "length b < 2 ^ 62" "ParseCanonicalPatchV1 b v = Inr p"
  obtains locals operations where "stream_header s v = Inr (locals, operations)" "holds_ids b locals (dp_clientLocalIds p)"
    "holds_ops b operations (dp_operations p)" "\<forall>opn \<in> set (dp_operations p). op_shape opn" "sa_stop operations = length b"
proof -
  let ?us = "dp_clientLocalIds p" and ?ops = "dp_operations p"
  note H = readable_honest [OF assms(1)]
  have ps: "patch_shape p" by (rule parsed_shape [OF assms(3,2)])
  note E = Encode_of_Parse [OF assms(3)]
  have "canonical p" using Normalize_canonical(1) E by blast
  note C = canonical_parts [OF this]
  have b: "b = concat (map field_bytes (patch_fields p))" and valid: "ValidateGraphVersion (dp_version p) = GV_None"
    using encoding_certified E ps by blast+
  have shape: "version_shape (dp_version p)" "\<forall>u \<in> set ?us. length u = 16" "\<forall>opn \<in> set ?ops. op_shape opn"
    using ps patch_ops_shape [OF ps] by (simp_all add: patch_shape_def)
  obtain locals operations where head: "stream_header s v = Inr (locals, operations)"
    and parts: "sa_count locals = size64 ?us" "sa_count operations = size64 ?ops"
      "cut b (sa_elementsOffset locals) (sa_stop locals) = frames ?us"
      "cut b (sa_elementsOffset operations) (sa_stop operations) = frames (map EncodeOperation ?ops)"
    using header_readable [OF assms(1,2) shape(1) valid _ b [unfolded patch_bytes_split]] E by blast
  note B = header_honest(2-5) [OF H assms(2) head]
  have "24 * length ?us \<le> length b" "length ?ops \<le> length b"
    using length_cut [OF B(2), of "sa_elementsOffset locals"] parts(3) ids_size [OF shape(2)] B(1,2)
      length_cut [of "sa_stop operations" b "sa_elementsOffset operations"] parts(4) B(3,4)
      list_size [of "map EncodeOperation ?ops"] by (simp_all add: length_frames_list)
  then have counts: "unat (sa_count locals) = length ?us" "unat (sa_count operations) = length ?ops"
    using assms(2) unfolding parts(1,2) by (simp_all add: unat_size64)
  have "ids_ok None ?us"
    unfolding ids_ok_alt using shape(2) C(5,6) by blast
  then have ids: "holds_ids b locals ?us"
    using B(1,2) parts(3) counts(1) by (simp add: holds_ids_def)
  have "holds_ops b operations ?ops"
    using B(3,4) parts(4) counts(2) C(8) shape(3) by (simp add: holds_ops_def good_op_def)
  then show thesis by (rule that [OF head ids _ shape(3) B(4)])
qed

lemma sealed_accepts:
  assumes "readable s b" "length b < 2 ^ 62" "ParseCanonicalPatchV1 b v = Inr p"
  shows "\<exists>r. ParseSealedPatchV1 sha s v = Inr r"
proof -
  let ?us = "dp_clientLocalIds p" and ?ops = "dp_operations p"
  have n: "ss_length s = length b" using assms(1) by (simp add: readable_def)
  obtain locals operations where head: "stream_header s v = Inr (locals, operations)" and ids: "holds_ids b locals ?us"
    and hops: "holds_ops b operations ?ops" and shape: "\<forall>opn \<in> set ?ops. op_shape opn" and whole: "sa_stop operations = length b"
    by (rule accepted_layout [OF assms])
  have "canonical p" using Normalize_canonical(1) Encode_of_Parse [OF assms(3)] by blast
  note C = canonical_parts [OF this]
  have I: "sa_elementsOffset locals \<le> sa_stop locals" "sa_stop locals \<le> length b" "ids_ok None ?us"
    "cut b (sa_elementsOffset locals) (sa_stop locals) = frames ?us" "unat (sa_count locals) = length ?us"
    using ids by (simp_all add: holds_ids_def)
  have P: "sa_elementsOffset operations \<le> sa_stop operations" "sa_stop operations \<le> length b" "\<forall>opn \<in> set ?ops. good_op opn"
    "cut b (sa_elementsOffset operations) (sa_stop operations) = frames (map EncodeOperation ?ops)"
    "unat (sa_count operations) = length ?ops"
    using hops by (simp_all add: holds_ops_def)
  have at: "sa_elementsOffset locals + length (frames ?us) = sa_stop locals"
    "sa_elementsOffset operations + length (frames (map EncodeOperation ?ops)) = sa_stop operations"
    using length_cut [OF I(2), of "sa_elementsOffset locals"] length_cut [OF P(2), of "sa_elementsOffset operations"] I(1,4) P(1,4)
    by simp_all
  have L: "stream_locals s (sa_stop locals) (length ?us) (sa_elementsOffset locals) None = Some (sa_stop locals)"
    using locals_readable [OF assms(1) I(2) assms(2) _ I(3,1), of "[]"] I(4) at(1) by simp
  have O: "stream_operations s locals (sa_stop operations) (length ?ops) (sa_elementsOffset operations) None = Inr (sa_stop operations)"
    using operations_readable [OF assms(1,2) ids P(2) _ P(1) _ _ shape, of "[]" None] P(4) C(2) at(2)
    by (simp add: prior_inside_def prior_bytes_def)
  have "\<forall>u \<in> set ?us. length u = 16 \<and> ValidId u"
    using I(3) C(3) unfolding ids_ok_alt by blast
  then have N: "locals_observed s (sa_stop locals) operations (length ?us) (sa_elementsOffset locals) = Inr ()"
    using locals_observed_readable [OF assms(1,2) I(2) hops I(4,1)] C(4) by blast
  obtain x where X: "inverse_operations s (sa_stop operations) (sa_elementsOffset operations) = Inr x"
    using inverse_readable [OF assms(1,2) P(2,1,4,3)] by blast
  have copies: "Source_Copy s \<lparr>sl_offset = 0, sl_length = length b\<rparr> \<noteq> None"
    "Source_Copy s \<lparr>sl_offset = 0, sl_length = sa_elementsOffset operations\<rparr> \<noteq> None"
    using Copy_readable [OF assms(1)] P(1,2) by (simp_all add: inside_def)
  have "b \<noteq> []"
    using header_honest(1) [OF readable_honest [OF assms(1)] assms(2) head] by (auto simp: raw_array_def field_bytes_def bytes16_def)
  then show ?thesis
    using head L O N X copies unfolding ParseSealedPatchV1_def n
    by (auto simp: orE_def I(5) P(5))
qed

text \<open>Claim C38. Validating a patch in its file is parsing it in memory. Whatever reads of the file fail, a
  patch is accepted only if \<open>ParseCanonicalPatchV1\<close> accepts the bytes of the file, and the receipt then
  names the digests of the patch and of the encoding of its inverse, and the number of its operations;
  when no read fails, every patch that parses in memory is accepted.\<close>

theorem sealed_equivalence:
  assumes "honest s b" "length b < 2 ^ 62"
  shows "(ParseSealedPatchV1 sha s v = Inr r \<longrightarrow>
      (\<exists>p q w. ParseCanonicalPatchV1 b v = Inr p \<and> InvertPatchV1 p = Inr q \<and> EncodeCanonicalPatchV1 q = Inr w \<and>
        r = sealed_result sha b w (dp_operations p))) \<and>
    (readable s b \<longrightarrow> ((\<exists>p. ParseCanonicalPatchV1 b v = Inr p) \<longleftrightarrow> (\<exists>r. ParseSealedPatchV1 sha s v = Inr r)))"
  using sealed_sound [OF assms] sealed_accepts [OF _ assms(2)] by blast

definition memory_source :: "bytes \<Rightarrow> SealedSource" where
  "memory_source b = \<lparr>ss_read = (\<lambda>off n. Some (take n (drop off b))), ss_length = length b\<rparr>"

lemma readable_memory: "readable (memory_source b) b"
  by (simp add: readable_def memory_source_def)

lemma sample_patch_bytes:
  obtains b where "ParseCanonicalPatchV1 b sample_version = Inr sample_text_patch" "length b < 1000" "b \<noteq> []"
proof -
  note S = sample_patch_facts
  obtain b where b: "EncodeCanonicalPatchV1 sample_text_patch = Inr b" using S(4) by blast
  have "b = concat (map field_bytes (patch_fields sample_text_patch))"
    by (rule encoding_certified(1) [OF b S(2,1)])
  moreover have "length (Array ST_UUID128 (dp_clientLocalIds sample_text_patch)) = 16"
    "length (Array ST_Struct (map EncodeOperation (dp_operations sample_text_patch))) \<le> 276"
    using length_operations [of "dp_operations sample_text_patch"] patch_ops_shape [OF S(1)]
    by (simp_all add: length_Array sample_text_patch_def)
  moreover have "length (wire_form (dp_version sample_text_patch)) = 168"
    using S(1) length_wire_form by (simp add: patch_shape_def)
  ultimately have "length b < 1000" "0 < length b"
    by (simp_all add: patch_fields_def arr_field_def)
  then show thesis
    using that [OF Parse_of_Encode [OF S(1) b S(2,3)]] by simp
qed

theorem sealed_equivalence_witness:
  "\<exists>b r. ParseSealedPatchV1 sample_hash (memory_source b) sample_version = Inr r \<and> sv_operationCount r = 1"
proof -
  obtain b where parse: "ParseCanonicalPatchV1 b sample_version = Inr sample_text_patch" and len: "length b < 1000"
    by (rule sample_patch_bytes)
  have small: "length b < 2 ^ 62" using len by simp
  note E = sealed_equivalence [OF readable_honest [OF readable_memory] small, of sample_hash sample_version]
  obtain r where r: "ParseSealedPatchV1 sample_hash (memory_source b) sample_version = Inr r"
    using E readable_memory parse by blast
  then obtain p w where "ParseCanonicalPatchV1 b sample_version = Inr p" "r = sealed_result sample_hash b w (dp_operations p)"
    using E [of r] by blast
  with parse r show ?thesis
    by (intro exI [of _ b] exI [of _ r]) (simp add: sample_text_patch_def size64_def sealed_result_def)
qed

end
