(* ===== verification/PatchUpload.thy ===== *)
theory PatchUpload
  imports SealedEquivalence "HOL-Library.AList"
begin

section \<open>The upload of a patch (DocumentGraphProtocol.cpp)\<close>

text \<open>
  A patch comes in pieces. \<open>PatchBegin\<close> opens an upload and its file, \<open>PatchChunk\<close> appends to the file,
  \<open>PatchCommit\<close> compares the digest of the file with the declared one and seals it, \<open>PatchValidate\<close> validates
  the sealed patch, \<open>PatchAbort\<close> removes it. The registry keeps the uploads that are under way; every request
  carries the chain of the request before and every receipt that of the receipt before.

  The files are the operating system's. What a handler asks of it is an operation of the record \<open>FileOps\<close>
  on a state \<open>'f\<close> of the file system; \<open>lawful\<close> says what is documented of them. A handle is a path here: a handler
  opens, uses and closes it before it returns, under the lock of the registry. Routes, cursors and
  sessions are there as far as the handlers of patches read them. The counters and events that record
  the life of the registry for tests are not modelled, nor are failures of the system's hash functions.
\<close>

subsection \<open>The registry\<close>

record Route =
  rt_documentId :: LONG
  rt_windowHandle :: u64

datatype UploadState = Up_Open | Up_Sealed | Up_Validated | Up_Applying | Up_Applied | Up_Failed | Up_RolledBack | Up_Aborted

record Upload =
  up_id :: Uuid128
  up_version :: GraphVersionV1
  up_route :: Route
  up_declaredTotal :: u64
  up_expectedRaw :: Sha256
  up_accepted :: u64
  up_nextRequestSequence :: u64
  up_previousRequestChain :: Sha256
  up_nextResponseSequence :: u64
  up_previousResponseChain :: Sha256
  up_state :: UploadState
  up_path :: wstring

record GraphCursor =
  gc_route :: Route
  gc_storageRoot :: wstring

record CapabilitySession =
  cs_id :: Uuid128
  cs_route :: Route
  cs_requestedBits :: u64
  cs_negotiatedBits :: u64

record Registry =
  rg_root :: wstring
  rg_uploads :: "(Uuid128 \<times> Upload) list"
  rg_cursors :: "(Uuid128 \<times> GraphCursor) list"
  rg_sessions :: "CapabilitySession list"

subsection \<open>The file system\<close>

record 'f FileOps =
  fo_directory :: "wstring \<Rightarrow> 'f \<Rightarrow> bool \<times> 'f"
  fo_create :: "wstring \<Rightarrow> 'f \<Rightarrow> bool \<times> 'f"
  fo_openRead :: "wstring \<Rightarrow> 'f \<Rightarrow> bool"
  fo_openAppend :: "wstring \<Rightarrow> 'f \<Rightarrow> bool"
  fo_write :: "wstring \<Rightarrow> bytes \<Rightarrow> 'f \<Rightarrow> bool \<times> nat \<times> 'f"
  fo_flush :: "wstring \<Rightarrow> 'f \<Rightarrow> bool \<times> 'f"
  fo_read :: "wstring \<Rightarrow> nat \<Rightarrow> nat \<Rightarrow> 'f \<Rightarrow> bytes option"
  fo_move :: "wstring \<Rightarrow> wstring \<Rightarrow> 'f \<Rightarrow> bool \<times> 'f"
  fo_delete :: "wstring \<Rightarrow> 'f \<Rightarrow> 'f"
  fo_remove_all :: "wstring \<Rightarrow> 'f \<Rightarrow> 'f"

text \<open>The files below a directory, by their paths.\<close>

definition inside :: "wstring \<Rightarrow> wstring \<Rightarrow> bool" where
  "inside dir p \<longleftrightarrow> p = dir \<or> take (length dir + 1) p = dir @ L [CHR 0x5C]"

text \<open>What the system documents, where \<open>content f p\<close> is what the file at \<open>p\<close> holds: creation with
  \<open>CREATE_NEW\<close> succeeds only where no file is; a write that fails may have written a part; a read that succeeds
  gives what the file holds, less at its end; a move that succeeds finds no file at its target; deletions may fail.\<close>

definition lawful :: "'f FileOps \<Rightarrow> ('f \<Rightarrow> wstring \<Rightarrow> bytes option) \<Rightarrow> bool" where
  "lawful fo content \<longleftrightarrow>
    (\<forall>p f ok f'. fo_directory fo p f = (ok, f') \<longrightarrow> content f' = content f) \<and>
    (\<forall>p f ok f'. fo_create fo p f = (ok, f') \<longrightarrow>
       (if ok then content f p = None \<and> content f' = (content f)(p \<mapsto> []) else content f' = content f)) \<and>
    (\<forall>p x f ok n f' y. fo_write fo p x f = (ok, n, f') \<longrightarrow> content f p = Some y \<longrightarrow>
       (\<exists>k \<le> length x. content f' = (content f)(p \<mapsto> y @ take k x) \<and> (ok \<longrightarrow> n = k))) \<and>
    (\<forall>p f ok f'. fo_flush fo p f = (ok, f') \<longrightarrow> content f' = content f) \<and>
    (\<forall>p off n f x. fo_read fo p off n f = Some x \<longrightarrow> (\<exists>y. content f p = Some y \<and> x = take n (drop off y))) \<and>
    (\<forall>p q f ok f'. fo_move fo p q f = (ok, f') \<longrightarrow> p \<noteq> q \<longrightarrow>
       (if ok then content f q = None \<and> content f' = (content f)(q := content f p, p := None)
        else content f' = content f)) \<and>
    (\<forall>p f. content (fo_delete fo p f) = content f \<or> content (fo_delete fo p f) = (content f)(p := None)) \<and>
    (\<forall>dir f p. content (fo_remove_all fo dir f) p = content f p \<or>
       inside dir p \<and> content (fo_remove_all fo dir f) p = None)"

subsection \<open>Storage\<close>

definition Registry_StartupCleanup :: "'f FileOps \<Rightarrow> wstring \<Rightarrow> 'f \<Rightarrow> Registry \<times> 'f" where
  "Registry_StartupCleanup fo uploadRoot f =
    (\<lparr>rg_root = uploadRoot, rg_uploads = [], rg_cursors = [], rg_sessions = []\<rparr>,
     if uploadRoot = [] then f else fo_remove_all fo uploadRoot f)"

definition EnsureStorage :: "'f FileOps \<Rightarrow> Registry \<Rightarrow> 'f \<Rightarrow> bool \<times> 'f" where
  "EnsureStorage fo rg f = (if rg_root rg = [] then (False, f) else fo_directory fo (rg_root rg) f)"

definition RemoveStorageIfIdle :: "'f FileOps \<Rightarrow> Registry \<Rightarrow> 'f \<Rightarrow> 'f" where
  "RemoveStorageIfIdle fo rg f =
    (if rg_uploads rg \<noteq> [] \<or> rg_cursors rg \<noteq> [] \<or> rg_root rg = [] then f else fo_remove_all fo (rg_root rg) f)"

fun delete_files :: "'f FileOps \<Rightarrow> (Uuid128 \<times> Upload) list \<Rightarrow> 'f \<Rightarrow> 'f" where
  "delete_files fo [] f = f"
| "delete_files fo ((i, u) # us) f = delete_files fo us (fo_delete fo (up_path u) f)"

definition Registry_Clear :: "'f FileOps \<Rightarrow> Registry \<Rightarrow> 'f \<Rightarrow> Registry \<times> 'f" where
  "Registry_Clear fo rg f =
    (let rg' = rg\<lparr>rg_uploads := [], rg_cursors := [], rg_sessions := []\<rparr>
     in (rg', RemoveStorageIfIdle fo rg' (delete_files fo (rg_uploads rg) f)))"

definition MintUuid :: "u8 list option \<Rightarrow> Uuid128" where
  "MintUuid random = (case random of None \<Rightarrow> zero_uuid | Some r \<Rightarrow> stamp_version (array_store zero_uuid r))"

text \<open>\<open>PatchDigestFile\<close> reads as much as was accepted, at most a megabyte at a time.\<close>

function read_loop :: "'f FileOps \<Rightarrow> wstring \<Rightarrow> nat \<Rightarrow> nat \<Rightarrow> 'f \<Rightarrow> bytes option" where
  "read_loop fo path at remaining f =
    (if remaining = 0 then Some []
     else let wanted = min remaining (2 ^ 20)
       in case fo_read fo path at wanted f of None \<Rightarrow> None
          | Some x \<Rightarrow> if length x \<noteq> wanted then None
              else map_option ((@) x) (read_loop fo path (at + wanted) (remaining - wanted) f))"
  by pat_completeness auto

termination
  by (relation "measure (\<lambda>(fo, path, at, remaining, f). remaining)") auto

definition kPatchRawDomain :: bytes where
  "kPatchRawDomain = ascii ''HWPGRAPH'' @ [0] @ ascii ''PATCHRAW'' @ [0] @ ascii ''V1''"

definition PatchDigestFile :: "(bytes \<Rightarrow> Sha256) \<Rightarrow> 'f FileOps \<Rightarrow> wstring \<Rightarrow> u64 \<Rightarrow> 'f \<Rightarrow> Sha256 option" where
  "PatchDigestFile sha fo path n f =
    (if \<not> fo_openRead fo path f then None
     else map_option (\<lambda>x. sha (kPatchRawDomain @ x)) (read_loop fo path 0 (unat n) f))"

subsection \<open>Requests and replies\<close>

definition utf16 :: "string \<Rightarrow> u16 list" where
  "utf16 s = map of_char s"

definition kInvalidArgument :: u32 where
  "kInvalidArgument = 0x80070057"

definition Failure :: "(bytes \<Rightarrow> Sha256) \<Rightarrow> ErrorCode \<Rightarrow> Header option \<Rightarrow> string \<Rightarrow> bytes" where
  "Failure sha error h detail = ErrorFrame sha error kInvalidArgument 0 (utf16 detail) h"

definition ParseRequest :: "(bytes \<Rightarrow> Sha256) \<Rightarrow> bytes \<Rightarrow> MessageKind \<Rightarrow> ErrorCode \<times> Header + Header \<times> Field list" where
  "ParseRequest sha frame expected =
    (case DecodeFrame sha frame of
       Inl e \<Rightarrow> Inl (e, empty_header)
     | Inr (h, payload) \<Rightarrow>
         if fh_message h \<noteq> expected then Inl (EC_BadMessageKind, h)
         else case ParseFields payload of None \<Rightarrow> Inl (EC_BadField, h) | Some fs \<Rightarrow> Inr (h, fs))"

definition parse_failure :: "(bytes \<Rightarrow> Sha256) \<Rightarrow> ErrorCode \<times> Header \<Rightarrow> string \<Rightarrow> bytes" where
  "parse_failure sha e detail = Failure sha (fst e) (if fst e = EC_BadHeader then None else Some (snd e)) detail"

definition ResponseHeader :: "MessageKind \<Rightarrow> Upload \<Rightarrow> u64 \<Rightarrow> Sha256 \<Rightarrow> Header" where
  "ResponseHeader kind u sequence previous =
    (let h = empty_header\<lparr>fh_message := kind, fh_flags := kFlagPatch, fh_sequence := sequence,
       fh_fragmentTotal := up_declaredTotal u, fh_cursorOrUpload := up_id u, fh_previousChain := previous\<rparr>
     in case ApplyVersionToHeader (up_version u) h of None \<Rightarrow> h | Some h' \<Rightarrow> h')"

definition Receipt :: "(bytes \<Rightarrow> Sha256) \<Rightarrow> Header \<Rightarrow> bytes list \<Rightarrow> bytes" where
  "Receipt sha h parts = (case EncodeFrame sha h (concat parts) of None \<Rightarrow> [] | Some frame \<Rightarrow> frame)"

text \<open>The chain of a receipt, read back from its bytes.\<close>

definition receipt_chain :: "(bytes \<Rightarrow> Sha256) \<Rightarrow> bytes \<Rightarrow> Sha256 option" where
  "receipt_chain sha response = (case DecodeFrame sha response of Inl _ \<Rightarrow> None | Inr (h, _) \<Rightarrow> Some (fh_chainDigest h))"

definition uuid_field :: "Uuid128 \<Rightarrow> bytes" where
  "uuid_field u = EncodeField 1 1 ST_UUID128 u 1"

definition total_field :: "u64 \<Rightarrow> bytes" where
  "total_field n = EncodeField 2 1 ST_Uint64 (bytes64 n) 1"

definition digest_field :: "Sha256 \<Rightarrow> bytes" where
  "digest_field d = EncodeField 3 1 ST_SHA256 d 1"

text \<open>The upload that a request names. From another route it is given up.\<close>

definition give_up :: "'f FileOps \<Rightarrow> Upload \<Rightarrow> Registry \<Rightarrow> 'f \<Rightarrow> Registry \<times> 'f" where
  "give_up fo u rg f =
    (let rg' = rg\<lparr>rg_uploads := AList.delete (up_id u) (rg_uploads rg)\<rparr>
     in (rg', RemoveStorageIfIdle fo rg' (fo_delete fo (up_path u) f)))"

definition with_upload :: "(bytes \<Rightarrow> Sha256) \<Rightarrow> 'f FileOps \<Rightarrow> Route \<Rightarrow> Header \<Rightarrow> Uuid128 \<Rightarrow> Registry \<Rightarrow> 'f \<Rightarrow>
    (Upload \<Rightarrow> bytes \<times> Registry \<times> 'f) \<Rightarrow> bytes \<times> Registry \<times> 'f" where
  "with_upload sha fo route h i rg f handle =
    (case map_of (rg_uploads rg) i of
       None \<Rightarrow> (Failure sha EC_UploadNotFound (Some h) ''upload not found'', rg, f)
     | Some u \<Rightarrow>
         if up_route u \<noteq> route then (Failure sha EC_RouteChanged (Some h) ''route changed'', give_up fo u rg f)
         else handle u)"

definition store_upload :: "Upload \<Rightarrow> Registry \<Rightarrow> Registry" where
  "store_upload u rg = rg\<lparr>rg_uploads := AList.update (up_id u) u (rg_uploads rg)\<rparr>"

subsection \<open>Begin\<close>

definition begin_values :: "Header \<Rightarrow> Field list \<Rightarrow> (GraphVersionV1 \<times> u64 \<times> Sha256) option" where
  "begin_values h fs =
    (case (Protocol_ReadId (Find_field fs 1), ReadVersion (Find_field fs 2) True, ReadDigest (Find_field fs 4)) of
       (Some session, Some version, Some expected) \<Rightarrow>
         (let totalField = Find_field fs 3
          in if ExactField totalField ST_Uint64 8 True \<and> EqualUuid session (gv_documentSessionId version) \<and>
               gv_semanticCertified version \<and> HeaderMatchesVersion h version \<and> fh_sequence h = 0 \<and>
               Zero (fh_previousChain h) \<and> Zero (fh_cursorOrUpload h) \<and> fh_fragmentOffset h = 0 \<and>
               fh_fragmentTotal h = Get64 (the_value totalField)
             then Some (version, Get64 (the_value totalField), expected) else None)
     | _ \<Rightarrow> None)"

definition open_path :: "wstring \<Rightarrow> Uuid128 \<Rightarrow> wstring" where
  "open_path root i = root @ L [CHR 0x5C] @ FormatCanonicalUuid i @ L ''.open''"

definition new_upload :: "wstring \<Rightarrow> Uuid128 \<Rightarrow> GraphVersionV1 \<Rightarrow> Route \<Rightarrow> u64 \<Rightarrow> Sha256 \<Rightarrow> Header \<Rightarrow> Upload" where
  "new_upload root i version route declared expected h =
    \<lparr>up_id = i, up_version = version, up_route = route, up_declaredTotal = declared, up_expectedRaw = expected,
     up_accepted = 0, up_nextRequestSequence = 1, up_previousRequestChain = fh_chainDigest h,
     up_nextResponseSequence = 1, up_previousResponseChain = zero_digest, up_state = Up_Open,
     up_path = open_path root i\<rparr>"

text \<open>\<open>emplace\<close> does not replace an upload that is there.\<close>

definition emplace :: "Upload \<Rightarrow> Registry \<Rightarrow> Registry" where
  "emplace u rg = (if map_of (rg_uploads rg) (up_id u) = None then store_upload u rg else rg)"

definition finish_begin :: "(bytes \<Rightarrow> Sha256) \<Rightarrow> 'f FileOps \<Rightarrow> Upload \<Rightarrow> Header \<Rightarrow> Registry \<Rightarrow> 'f \<Rightarrow> bytes \<times> Registry \<times> 'f" where
  "finish_begin sha fo u h rg f =
    (case fo_create fo (up_path u) f of (created, f) \<Rightarrow>
       if \<not> created then
         (Failure sha EC_StorageFailure (Some h) ''upload create failed'', rg, RemoveStorageIfIdle fo rg f)
       else let response = Receipt sha (ResponseHeader MK_PatchBeginReceipt u 0 zero_digest)
              [uuid_field (up_id u), total_field (up_declaredTotal u), digest_field (up_expectedRaw u)]
         in case receipt_chain sha response of
              None \<Rightarrow> (Failure sha EC_Internal (Some h) ''receipt encoding failed'', rg,
                RemoveStorageIfIdle fo rg (fo_delete fo (up_path u) f))
            | Some chain \<Rightarrow> (response, emplace (u\<lparr>up_previousResponseChain := chain\<rparr>) rg, f))"

definition HandlePatchBegin :: "(bytes \<Rightarrow> Sha256) \<Rightarrow> 'f FileOps \<Rightarrow> u8 list option \<Rightarrow> bytes \<Rightarrow> Route \<Rightarrow> Registry \<Rightarrow> 'f \<Rightarrow>
    bytes \<times> Registry \<times> 'f" where
  "HandlePatchBegin sha fo random request route rg f =
    (case ParseRequest sha request MK_PatchBeginRequest of
       Inl e \<Rightarrow> (parse_failure sha e ''invalid PatchBegin request'', rg, f)
     | Inr (h, fs) \<Rightarrow>
         if \<not> Protocol_ExactTags fs [1, 2, 3, 4] [] then (Failure sha EC_BadField (Some h) ''PatchBegin fields'', rg, f)
         else case begin_values h fs of
           None \<Rightarrow> (Failure sha EC_BadField (Some h) ''PatchBegin mirror'', rg, f)
         | Some (version, declared, expected) \<Rightarrow>
             let i = MintUuid random
             in if Zero i then (Failure sha EC_Internal (Some h) ''upload UUID failure'', rg, f)
                else case EnsureStorage fo rg f of (ensured, f) \<Rightarrow>
                  if \<not> ensured then (Failure sha EC_StorageFailure (Some h) ''upload storage unavailable'', rg, f)
                  else finish_begin sha fo (new_upload (rg_root rg) i version route declared expected h) h rg f)"

subsection \<open>Chunk\<close>

text \<open>The fields of a chunk: the upload, the offset, the bytes.\<close>

definition chunk_values :: "Field list \<Rightarrow> (Uuid128 \<times> u64 \<times> bytes) option" where
  "chunk_values fs =
    (case (Protocol_ReadId (Find_field fs 1), Find_field fs 3) of
       (Some i, Some b) \<Rightarrow>
         if ExactField (Find_field fs 2) ST_Uint64 8 True \<and> fl_flags b = 1 \<and> fl_scalar b = ST_Bytes \<and>
           \<not> length (fl_value b) < 8 \<and> unat (Get64 (fl_value b)) = length (fl_value b) - 8
         then Some (i, Get64 (the_value (Find_field fs 2)), drop 8 (fl_value b)) else None
     | _ \<Rightarrow> None)"

definition chunk_refusal :: "Upload \<Rightarrow> Header \<Rightarrow> u64 \<Rightarrow> u64 \<Rightarrow> (ErrorCode \<times> string) option" where
  "chunk_refusal u h offset n =
    (if up_state u \<noteq> Up_Open then Some (EC_UploadState, ''upload is not open'')
     else if \<not> HeaderMatchesVersion h (up_version u) \<or> \<not> EqualUuid (fh_cursorOrUpload h) (up_id u)
     then Some (EC_BadField, ''PatchChunk mirror'')
     else if fh_sequence h \<noteq> up_nextRequestSequence u \<or> \<not> EqualHash (fh_previousChain h) (up_previousRequestChain u)
     then Some (EC_SequenceMismatch, ''PatchChunk sequence'')
     else if offset \<noteq> up_accepted u \<or> fh_fragmentOffset h \<noteq> offset \<or> fh_fragmentTotal h \<noteq> up_declaredTotal u \<or>
       n > up_declaredTotal u - up_accepted u \<or> n = 0 \<and> up_accepted u \<noteq> up_declaredTotal u
     then Some (EC_LengthMismatch, ''PatchChunk range'')
     else if (fh_flags h AND kFlagFragmented \<noteq> 0) \<noteq> (offset + n < up_declaredTotal u)
     then Some (EC_BadHeader, ''PatchChunk fragmented flag'')
     else None)"

text \<open>The write succeeds when it wrote everything and the flush succeeds.\<close>

definition append_file :: "'f FileOps \<Rightarrow> wstring \<Rightarrow> bytes \<Rightarrow> 'f \<Rightarrow> bool \<times> 'f" where
  "append_file fo path data f =
    (if length data > 0xFFFFFFFF then (False, f)
     else case fo_write fo path data f of (ok, written, f) \<Rightarrow>
       if \<not> ok \<or> written \<noteq> length data then (False, f) else fo_flush fo path f)"

definition accept_bytes :: "(bytes \<Rightarrow> Sha256) \<Rightarrow> Upload \<Rightarrow> Header \<Rightarrow> u64 \<Rightarrow> Registry \<Rightarrow> bytes \<times> Registry" where
  "accept_bytes sha u h n rg =
    (let u = u\<lparr>up_accepted := up_accepted u + n, up_previousRequestChain := fh_chainDigest h,
           up_nextRequestSequence := up_nextRequestSequence u + 1\<rparr>;
         response = Receipt sha
           ((ResponseHeader MK_PatchChunkReceipt u (up_nextResponseSequence u) (up_previousResponseChain u))
             \<lparr>fh_fragmentOffset := up_accepted u\<rparr>)
           [uuid_field (up_id u), total_field (up_accepted u)]
     in case receipt_chain sha response of
          None \<Rightarrow> (Failure sha EC_Internal (Some h) ''receipt encoding failed'', store_upload u rg)
        | Some chain \<Rightarrow> (response, store_upload (u\<lparr>up_previousResponseChain := chain,
            up_nextResponseSequence := up_nextResponseSequence u + 1\<rparr>) rg))"

text \<open>The request in the upload that it names.\<close>

definition chunk_upload :: "(bytes \<Rightarrow> Sha256) \<Rightarrow> 'f FileOps \<Rightarrow> Header \<Rightarrow> u64 \<Rightarrow> bytes \<Rightarrow> Registry \<Rightarrow> 'f \<Rightarrow> Upload \<Rightarrow>
    bytes \<times> Registry \<times> 'f" where
  "chunk_upload sha fo h offset data rg f u =
    (case chunk_refusal u h offset (size64 data) of
       Some (e, detail) \<Rightarrow> (Failure sha e (Some h) detail, rg, f)
     | None \<Rightarrow>
         if \<not> fo_openAppend fo (up_path u) f then (Failure sha EC_StorageFailure (Some h) ''upload open failed'', rg, f)
         else case append_file fo (up_path u) data f of (wrote, f) \<Rightarrow>
           if \<not> wrote then (Failure sha EC_StorageFailure (Some h) ''upload write failed'', rg, f)
           else case accept_bytes sha u h (size64 data) rg of (response, rg) \<Rightarrow> (response, rg, f))"

definition HandlePatchChunk :: "(bytes \<Rightarrow> Sha256) \<Rightarrow> 'f FileOps \<Rightarrow> bytes \<Rightarrow> Route \<Rightarrow> Registry \<Rightarrow> 'f \<Rightarrow> bytes \<times> Registry \<times> 'f" where
  "HandlePatchChunk sha fo request route rg f =
    (case ParseRequest sha request MK_PatchChunkRequest of
       Inl e \<Rightarrow> (parse_failure sha e ''invalid PatchChunk request'', rg, f)
     | Inr (h, fs) \<Rightarrow>
         if \<not> Protocol_ExactTags fs [1, 2, 3] [] then (Failure sha EC_BadField (Some h) ''PatchChunk fields'', rg, f)
         else case chunk_values fs of
           None \<Rightarrow> (Failure sha EC_BadField (Some h) ''PatchChunk values'', rg, f)
         | Some (i, offset, data) \<Rightarrow> with_upload sha fo route h i rg f (chunk_upload sha fo h offset data rg f))"

subsection \<open>Commit\<close>

definition commit_values :: "Field list \<Rightarrow> (Uuid128 \<times> u64 \<times> Sha256) option" where
  "commit_values fs =
    (case (Protocol_ReadId (Find_field fs 1), ReadDigest (Find_field fs 3)) of
       (Some i, Some expected) \<Rightarrow>
         if ExactField (Find_field fs 2) ST_Uint64 8 True then Some (i, Get64 (the_value (Find_field fs 2)), expected) else None
     | _ \<Rightarrow> None)"

definition commit_refusal :: "Upload \<Rightarrow> Header \<Rightarrow> u64 \<Rightarrow> Sha256 \<Rightarrow> (ErrorCode \<times> string) option" where
  "commit_refusal u h declared expected =
    (if up_state u \<noteq> Up_Open then Some (EC_UploadState, ''upload is not open'')
     else if \<not> HeaderMatchesVersion h (up_version u) \<or> \<not> EqualUuid (fh_cursorOrUpload h) (up_id u)
     then Some (EC_BadField, ''PatchCommit mirror'')
     else if fh_sequence h \<noteq> up_nextRequestSequence u \<or> \<not> EqualHash (fh_previousChain h) (up_previousRequestChain u)
     then Some (EC_SequenceMismatch, ''PatchCommit sequence'')
     else if declared \<noteq> up_declaredTotal u \<or> up_accepted u \<noteq> up_declaredTotal u \<or> fh_fragmentOffset h \<noteq> declared \<or>
       fh_fragmentTotal h \<noteq> declared
     then Some (EC_LengthMismatch, ''PatchCommit length'')
     else if \<not> EqualHash expected (up_expectedRaw u) then Some (EC_FinalDigestMismatch, ''PatchCommit declared digest'')
     else None)"

definition sealed_path :: "wstring \<Rightarrow> wstring" where
  "sealed_path path = take (length path - 5) path @ L ''.sealed''"

text \<open>A move that fails leaves the upload open, with the request counted.\<close>

definition seal_upload :: "(bytes \<Rightarrow> Sha256) \<Rightarrow> 'f FileOps \<Rightarrow> Upload \<Rightarrow> Header \<Rightarrow> Sha256 \<Rightarrow> Registry \<Rightarrow> 'f \<Rightarrow>
    bytes \<times> Registry \<times> 'f" where
  "seal_upload sha fo u h actual rg f =
    (let u = u\<lparr>up_previousRequestChain := fh_chainDigest h, up_nextRequestSequence := up_nextRequestSequence u + 1\<rparr>
     in case fo_move fo (up_path u) (sealed_path (up_path u)) f of (moved, f) \<Rightarrow>
       if \<not> moved then
         (Failure sha EC_StorageFailure (Some h) ''PatchCommit seal failure'', store_upload (u\<lparr>up_state := Up_Open\<rparr>) rg, f)
       else let u = u\<lparr>up_state := Up_Sealed, up_path := sealed_path (up_path u)\<rparr>;
                head = ResponseHeader MK_PatchSealReceipt u (up_nextResponseSequence u) (up_previousResponseChain u);
                response = Receipt sha (head\<lparr>fh_flags := fh_flags head OR kFlagTerminal, fh_fragmentOffset := up_accepted u\<rparr>)
                  [uuid_field (up_id u), total_field (up_accepted u), digest_field actual]
         in case receipt_chain sha response of
              None \<Rightarrow> (Failure sha EC_Internal (Some h) ''receipt encoding failed'', store_upload u rg, f)
            | Some chain \<Rightarrow> (response, store_upload (u\<lparr>up_previousResponseChain := chain,
                up_nextResponseSequence := up_nextResponseSequence u + 1\<rparr>) rg, f))"

definition commit_upload :: "(bytes \<Rightarrow> Sha256) \<Rightarrow> 'f FileOps \<Rightarrow> Header \<Rightarrow> u64 \<Rightarrow> Sha256 \<Rightarrow> Registry \<Rightarrow> 'f \<Rightarrow> Upload \<Rightarrow>
    bytes \<times> Registry \<times> 'f" where
  "commit_upload sha fo h declared expected rg f u =
    (case commit_refusal u h declared expected of
       Some (e, detail) \<Rightarrow> (Failure sha e (Some h) detail, rg, f)
     | None \<Rightarrow>
         (case PatchDigestFile sha fo (up_path u) (up_accepted u) f of
            None \<Rightarrow> (Failure sha EC_StorageFailure (Some h) ''PatchCommit read failure'', rg, f)
          | Some actual \<Rightarrow>
              if \<not> EqualHash actual (up_expectedRaw u)
              then (Failure sha EC_FinalDigestMismatch (Some h) ''PatchCommit raw digest'', rg, f)
              else seal_upload sha fo u h actual rg f))"

definition HandlePatchCommit :: "(bytes \<Rightarrow> Sha256) \<Rightarrow> 'f FileOps \<Rightarrow> bytes \<Rightarrow> Route \<Rightarrow> Registry \<Rightarrow> 'f \<Rightarrow> bytes \<times> Registry \<times> 'f" where
  "HandlePatchCommit sha fo request route rg f =
    (case ParseRequest sha request MK_PatchCommitRequest of
       Inl e \<Rightarrow> (parse_failure sha e ''invalid PatchCommit request'', rg, f)
     | Inr (h, fs) \<Rightarrow>
         if \<not> Protocol_ExactTags fs [1, 2, 3] [] then (Failure sha EC_BadField (Some h) ''PatchCommit fields'', rg, f)
         else case commit_values fs of
           None \<Rightarrow> (Failure sha EC_BadField (Some h) ''PatchCommit values'', rg, f)
         | Some (i, declared, expected) \<Rightarrow> with_upload sha fo route h i rg f (commit_upload sha fo h declared expected rg f))"

subsection \<open>Validate\<close>

definition validate_values :: "Header \<Rightarrow> Field list \<Rightarrow> (Uuid128 \<times> GraphVersionV1) option" where
  "validate_values h fs =
    (case (Protocol_ReadId (Find_field fs 1), ReadVersion (Find_field fs 2) True) of
       (Some i, Some expected) \<Rightarrow>
         if gv_semanticCertified expected \<and> HeaderMatchesVersion h expected \<and> EqualUuid (fh_cursorOrUpload h) i \<and>
           fh_sequence h = 0 \<and> Zero (fh_previousChain h) \<and> fh_fragmentOffset h = 0 \<and> fh_fragmentTotal h = 0
         then Some (i, expected) else None
     | _ \<Rightarrow> None)"

definition find_session :: "Uuid128 \<Rightarrow> Route \<Rightarrow> Registry \<Rightarrow> CapabilitySession option" where
  "find_session session route rg = List.find (\<lambda>c. EqualUuid (cs_id c) session \<and> cs_route c = route) (rg_sessions rg)"

text \<open>\<open>ReadPatchSource\<close> on the open file.\<close>

definition patch_source :: "'f FileOps \<Rightarrow> Upload \<Rightarrow> 'f \<Rightarrow> SealedSource" where
  "patch_source fo u f = \<lparr>ss_read = (\<lambda>off n. fo_read fo (up_path u) off n f), ss_length = unat (up_declaredTotal u)\<rparr>"

definition validation_error :: "PatchError \<Rightarrow> ErrorCode" where
  "validation_error e = (if e = PE_StorageFailure then EC_StorageFailure
     else if e = PE_CrossVersion then EC_StaleGraph else EC_BadField)"

definition validation_receipt :: "(bytes \<Rightarrow> Sha256) \<Rightarrow> Upload \<Rightarrow> SealedPatchValidationV1 \<Rightarrow> string + bytes" where
  "validation_receipt sha u r =
    (case EncodeValidationReceiptPayloadV1 (up_id u) (sv_canonicalDigest r) (sv_operationCount r) (sv_inverseDigest r) of
       None \<Rightarrow> Inl ''PatchValidate receipt encoding failed''
     | Some payload \<Rightarrow>
         (case ApplyVersionToHeader (up_version u) (empty_header\<lparr>fh_message := MK_PatchValidationReceipt,
             fh_flags := kFlagPatch OR kFlagTerminal, fh_cursorOrUpload := up_id u\<rparr>) of
            None \<Rightarrow> Inl ''PatchValidate version encoding failed''
          | Some head \<Rightarrow>
              (case EncodeFrame sha head payload of
                 None \<Rightarrow> Inl ''PatchValidate frame encoding failed'' | Some frame \<Rightarrow> Inr frame)))"

definition validate_upload :: "(bytes \<Rightarrow> Sha256) \<Rightarrow> 'f FileOps \<Rightarrow> Header \<Rightarrow> GraphVersionV1 \<Rightarrow> Registry \<Rightarrow> 'f \<Rightarrow> Upload \<Rightarrow>
    bytes \<times> Registry \<times> 'f" where
  "validate_upload sha fo h expected rg f u =
    (if up_state u \<noteq> Up_Sealed then (Failure sha EC_UploadState (Some h) ''upload is not sealed'', rg, f)
     else if \<not> PatchVersionCas expected (up_version u)
     then (Failure sha EC_StaleGraph (Some h) ''PatchValidate version changed'', rg, f)
     else if \<not> fo_openRead fo (up_path u) f
     then (Failure sha EC_StorageFailure (Some h) ''sealed patch open failed'', rg, f)
     else case ParseSealedPatchV1 sha (patch_source fo u f) expected of
       Inl e \<Rightarrow> (Failure sha (validation_error e) (Some h) ''sealed patch validation failed'', rg, f)
     | Inr r \<Rightarrow>
         (case validation_receipt sha u r of
            Inl detail \<Rightarrow> (Failure sha EC_Internal (Some h) detail, rg, f)
          | Inr response \<Rightarrow> (response, store_upload (u\<lparr>up_state := Up_Validated\<rparr>) rg, f)))"

definition HandlePatchValidate :: "(bytes \<Rightarrow> Sha256) \<Rightarrow> 'f FileOps \<Rightarrow> bytes \<Rightarrow> Route \<Rightarrow> Registry \<Rightarrow> 'f \<Rightarrow> bytes \<times> Registry \<times> 'f" where
  "HandlePatchValidate sha fo request route rg f =
    (case ParseRequest sha request MK_PatchValidateRequest of
       Inl e \<Rightarrow> (parse_failure sha e ''invalid PatchValidate request'', rg, f)
     | Inr (h, fs) \<Rightarrow>
         if \<not> Protocol_ExactTags fs [1, 2] [] then (Failure sha EC_BadField (Some h) ''PatchValidate fields'', rg, f)
         else case validate_values h fs of
           None \<Rightarrow> (Failure sha EC_BadField (Some h) ''PatchValidate mirror'', rg, f)
         | Some (i, expected) \<Rightarrow>
             (case find_session (gv_documentSessionId expected) route rg of
                None \<Rightarrow> (Failure sha EC_UnsupportedCapability (Some h) ''PatchValidate capability session is not open'', rg, f)
              | Some c \<Rightarrow>
                  if cs_negotiatedBits c AND kCapabilityPatchValidate = 0
                  then (Failure sha EC_UnsupportedCapability (Some h) ''PatchValidate capability session is not open'', rg, f)
                  else with_upload sha fo route h i rg f (validate_upload sha fo h expected rg f)))"

subsection \<open>Abort\<close>

definition abort_refusal :: "Upload \<Rightarrow> Header \<Rightarrow> (ErrorCode \<times> string) option" where
  "abort_refusal u h =
    (if up_state u \<noteq> Up_Open \<and> up_state u \<noteq> Up_Sealed \<and> up_state u \<noteq> Up_Validated
     then Some (EC_UploadState, ''upload cannot be aborted'')
     else if \<not> EqualUuid (fh_session h) (gv_documentSessionId (up_version u)) \<or> \<not> EqualUuid (fh_cursorOrUpload h) (up_id u) \<or>
       \<not> VersionFieldsZero h \<or> fh_sequence h \<noteq> up_nextRequestSequence u \<or>
       \<not> EqualHash (fh_previousChain h) (up_previousRequestChain u) \<or> fh_fragmentOffset h \<noteq> 0 \<or>
       fh_fragmentTotal h \<noteq> up_declaredTotal u
     then Some (EC_SequenceMismatch, ''PatchAbort chain'')
     else None)"

definition abort_receipt :: "(bytes \<Rightarrow> Sha256) \<Rightarrow> Upload \<Rightarrow> bytes" where
  "abort_receipt sha u = Receipt sha
    (empty_header\<lparr>fh_message := MK_PatchAbortReceipt, fh_flags := kFlagPatch OR kFlagTerminal,
       fh_sequence := up_nextResponseSequence u, fh_fragmentTotal := up_declaredTotal u,
       fh_session := gv_documentSessionId (up_version u), fh_cursorOrUpload := up_id u,
       fh_previousChain := up_previousResponseChain u\<rparr>)
    [uuid_field (up_id u), EncodeField 2 1 ST_Uint8 [7] 1]"

definition abort_upload :: "(bytes \<Rightarrow> Sha256) \<Rightarrow> 'f FileOps \<Rightarrow> Header \<Rightarrow> Registry \<Rightarrow> 'f \<Rightarrow> Upload \<Rightarrow> bytes \<times> Registry \<times> 'f" where
  "abort_upload sha fo h rg f u =
    (case abort_refusal u h of
       Some (e, detail) \<Rightarrow> (Failure sha e (Some h) detail, rg, f)
     | None \<Rightarrow> (abort_receipt sha u, give_up fo u rg f))"

definition HandlePatchAbort :: "(bytes \<Rightarrow> Sha256) \<Rightarrow> 'f FileOps \<Rightarrow> bytes \<Rightarrow> Route \<Rightarrow> Registry \<Rightarrow> 'f \<Rightarrow> bytes \<times> Registry \<times> 'f" where
  "HandlePatchAbort sha fo request route rg f =
    (case ParseRequest sha request MK_PatchAbortRequest of
       Inl e \<Rightarrow> (parse_failure sha e ''invalid PatchAbort request'', rg, f)
     | Inr (h, fs) \<Rightarrow>
         if \<not> Protocol_ExactTags fs [1] [] then (Failure sha EC_BadField (Some h) ''PatchAbort fields'', rg, f)
         else case Protocol_ReadId (Find_field fs 1) of
           None \<Rightarrow> (Failure sha EC_BadField (Some h) ''PatchAbort UUID'', rg, f)
         | Some i \<Rightarrow> with_upload sha fo route h i rg f (abort_upload sha fo h rg f))"

text \<open>The requests of \<open>ProcessRequest\<close> that are about patches.\<close>

definition ProcessPatchRequest :: "(bytes \<Rightarrow> Sha256) \<Rightarrow> 'f FileOps \<Rightarrow> u8 list option \<Rightarrow> MessageKind \<Rightarrow> bytes \<Rightarrow> Route \<Rightarrow>
    Registry \<Rightarrow> 'f \<Rightarrow> bytes \<times> Registry \<times> 'f" where
  "ProcessPatchRequest sha fo random expected request route rg f =
    (case expected of
       MK_PatchBeginRequest \<Rightarrow> HandlePatchBegin sha fo random request route rg f
     | MK_PatchChunkRequest \<Rightarrow> HandlePatchChunk sha fo request route rg f
     | MK_PatchCommitRequest \<Rightarrow> HandlePatchCommit sha fo request route rg f
     | MK_PatchAbortRequest \<Rightarrow> HandlePatchAbort sha fo request route rg f
     | MK_PatchValidateRequest \<Rightarrow> HandlePatchValidate sha fo request route rg f
     | _ \<Rightarrow> (Failure sha EC_BadMessageKind None ''not a Todo 5 request'', rg, f))"

subsection \<open>Sessions and routes\<close>

datatype CapabilityNegotiationStatus = CN_Negotiated | CN_InvalidSession | CN_UnknownRequestedBits | CN_AlreadyOpen | CN_StorageFailure

definition NegotiateCapabilities :: "Uuid128 \<Rightarrow> u64 \<Rightarrow> Route \<Rightarrow> Registry \<Rightarrow> CapabilityNegotiationStatus \<times> u64 \<times> Registry" where
  "NegotiateCapabilities session requestedBits route rg =
    (if \<not> IsRfc4122V4 session then (CN_InvalidSession, 0, rg)
     else if requestedBits AND NOT 0x1ff \<noteq> 0 then (CN_UnknownRequestedBits, 0, rg)
     else if list_ex (\<lambda>c. EqualUuid (cs_id c) session) (rg_sessions rg) then (CN_AlreadyOpen, 0, rg)
     else let created = \<lparr>cs_id = session, cs_route = route, cs_requestedBits = requestedBits,
            cs_negotiatedBits = requestedBits AND kCapabilityBits\<rparr>
       in (CN_Negotiated, cs_negotiatedBits created, rg\<lparr>rg_sessions := rg_sessions rg @ [created]\<rparr>))"

definition ReadNegotiatedCapabilities :: "Uuid128 \<Rightarrow> Route \<Rightarrow> Registry \<Rightarrow> (u64 \<times> u64) option" where
  "ReadNegotiatedCapabilities session route rg =
    map_option (\<lambda>c. (cs_requestedBits c, cs_negotiatedBits c)) (find_session session route rg)"

fun invalidate_uploads :: "'f FileOps \<Rightarrow> Route \<Rightarrow> (Uuid128 \<times> Upload) list \<Rightarrow> 'f \<Rightarrow> (Uuid128 \<times> Upload) list \<times> 'f" where
  "invalidate_uploads fo route [] f = ([], f)"
| "invalidate_uploads fo route ((i, u) # us) f =
    (if up_route u = route then invalidate_uploads fo route us (fo_delete fo (up_path u) f)
     else case invalidate_uploads fo route us f of (us', f') \<Rightarrow> ((i, u) # us', f'))"

fun invalidate_cursors :: "'f FileOps \<Rightarrow> Route \<Rightarrow> (Uuid128 \<times> GraphCursor) list \<Rightarrow> 'f \<Rightarrow> (Uuid128 \<times> GraphCursor) list \<times> 'f" where
  "invalidate_cursors fo route [] f = ([], f)"
| "invalidate_cursors fo route ((i, c) # cs) f =
    (if gc_route c = route then invalidate_cursors fo route cs (fo_remove_all fo (gc_storageRoot c) f)
     else case invalidate_cursors fo route cs f of (cs', f') \<Rightarrow> ((i, c) # cs', f'))"

definition InvalidateRoute :: "'f FileOps \<Rightarrow> Route \<Rightarrow> Registry \<Rightarrow> 'f \<Rightarrow> Registry \<times> 'f" where
  "InvalidateRoute fo route rg f =
    (case invalidate_uploads fo route (rg_uploads rg) f of (uploads, f) \<Rightarrow>
     case invalidate_cursors fo route (rg_cursors rg) f of (cursors, f) \<Rightarrow>
     let rg' = rg\<lparr>rg_uploads := uploads, rg_cursors := cursors,
           rg_sessions := filter (\<lambda>c. cs_route c \<noteq> route) (rg_sessions rg)\<rparr>
     in (rg', RemoveStorageIfIdle fo rg' f))"

definition NoteRouteOwnerDestruction :: "'f FileOps \<Rightarrow> Route \<Rightarrow> Registry \<Rightarrow> 'f \<Rightarrow> Registry \<times> 'f" where
  "NoteRouteOwnerDestruction fo route rg f = InvalidateRoute fo route rg f"

definition CleanupProcessState :: "'f FileOps \<Rightarrow> Registry \<Rightarrow> 'f \<Rightarrow> Registry \<times> 'f" where
  "CleanupProcessState fo rg f = Registry_Clear fo rg f"

end
