(* ===== verification/UploadProperties.thy ===== *)
theory UploadProperties
  imports PatchUpload
begin

section \<open>What the registry of uploads keeps\<close>

text \<open>
  In every state that the bridge can reach, an upload has the file that its record names, a sealed one
  has the declared digest, and a validated one holds a canonical patch of its version. A request touches
  no upload but the one it names.
\<close>

subsection \<open>Laws of the file system\<close>

lemmas lawfulD =
  lawful_def [THEN iffD1, THEN conjunct1, rule_format]
  lawful_def [THEN iffD1, THEN conjunct2, THEN conjunct1, rule_format]
  lawful_def [THEN iffD1, THEN conjunct2, THEN conjunct2, THEN conjunct1, rule_format]
  lawful_def [THEN iffD1, THEN conjunct2, THEN conjunct2, THEN conjunct2, THEN conjunct1, rule_format]
  lawful_def [THEN iffD1, THEN conjunct2, THEN conjunct2, THEN conjunct2, THEN conjunct2, THEN conjunct1, rule_format]
  lawful_def [THEN iffD1, THEN conjunct2, THEN conjunct2, THEN conjunct2, THEN conjunct2, THEN conjunct2, THEN conjunct1, rule_format]
  lawful_def [THEN iffD1, THEN conjunct2, THEN conjunct2, THEN conjunct2, THEN conjunct2, THEN conjunct2, THEN conjunct2, THEN conjunct1, rule_format]
  lawful_def [THEN iffD1, THEN conjunct2, THEN conjunct2, THEN conjunct2, THEN conjunct2, THEN conjunct2, THEN conjunct2, THEN conjunct2, rule_format]

lemma delete_elsewhere: "lawful fo content \<Longrightarrow> p \<noteq> q \<Longrightarrow> content (fo_delete fo p f) q = content f q"
  using lawfulD(7) [of fo content p f] by auto

lemma remove_elsewhere: "lawful fo content \<Longrightarrow> \<not> inside dir p \<Longrightarrow> content (fo_remove_all fo dir f) p = content f p"
  using lawfulD(8) [of fo content dir f p] by blast

declare read_loop.simps [simp del]

lemma read_loop_reads:
  assumes law: "lawful fo content" and y: "content f path = Some y"
  shows "read_loop fo path at n f = Some x \<Longrightarrow> x = take n (drop at y) \<and> length x = n"
proof (induction n arbitrary: at x rule: less_induct)
  case (less n)
  show ?case
  proof (cases "n = 0")
    case False
    define m where "m = min n (2 ^ 20)"
    obtain a b where a: "fo_read fo path at m f = Some a" "length a = m"
      and b: "read_loop fo path (at + m) (n - m) f = Some b" and x: "x = a @ b"
      using less.prems False by (subst (asm) read_loop.simps) (auto simp: Let_def m_def split: option.splits if_splits)
    have m: "0 < m" "m \<le> n" using False by (simp_all add: m_def)
    have "a = take m (drop at y)" using lawfulD(5) [OF law a(1)] y by auto
    moreover have "b = take (n - m) (drop (at + m) y) \<and> length b = n - m" using m by (intro less.IH [OF _ b]) simp
    ultimately show ?thesis
      unfolding x using a(2) m(2) take_add [of m "n - m" "drop at y"]
      by (metis drop_drop length_append add.commute le_add_diff_inverse)
  qed (use less.prems in \<open>simp add: read_loop.simps\<close>)
qed

subsection \<open>Paths\<close>

definition upload_path :: "wstring \<Rightarrow> UploadState \<Rightarrow> Uuid128 \<Rightarrow> wstring" where
  "upload_path root s i = (if s = Up_Open then open_path root i else sealed_path (open_path root i))"

definition graph_root :: "wstring \<Rightarrow> Uuid128 \<Rightarrow> wstring" where
  "graph_root root i = root @ L [CHR 0x5C] @ L ''graph-'' @ FormatCanonicalUuid i"

lemma upload_path_eq: "upload_path root s i = root @ L [CHR 0x5C] @ FormatCanonicalUuid i @ L (if s = Up_Open then ''.open'' else ''.sealed'')"
  by (simp add: upload_path_def sealed_path_def open_path_def L_def)

lemma format_inj:
  assumes "proper_id i" "proper_id j" "FormatCanonicalUuid i @ x = FormatCanonicalUuid j @ y"
  shows "i = j \<and> x = y"
proof -
  have len: "length (FormatCanonicalUuid i) = 36" "length (FormatCanonicalUuid j) = 36"
    using assms(1,2) by (simp_all add: proper_id_def Format_render length_render)
  then have eq: "FormatCanonicalUuid i = FormatCanonicalUuid j" "x = y" using assms(3) by (simp_all add: append_eq_append_conv)
  moreover have "ParseCanonicalUuid (FormatCanonicalUuid i) = Some i" "ParseCanonicalUuid (FormatCanonicalUuid j) = Some j"
    using assms(1,2) parse_format_uuid by (metis proper_id_def)+
  ultimately have "Some i = Some j" by (simp only: eq(1))
  with eq(2) show ?thesis by blast
qed

lemma upload_path_inj:
  assumes "proper_id i" "proper_id j" "upload_path root s i = upload_path root t j"
  shows "i = j" "s = Up_Open \<longleftrightarrow> t = Up_Open"
proof -
  have "FormatCanonicalUuid i @ L (if s = Up_Open then ''.open'' else ''.sealed'') =
    FormatCanonicalUuid j @ L (if t = Up_Open then ''.open'' else ''.sealed'')"
    using assms(3) by (simp add: upload_path_eq)
  from format_inj [OF assms(1,2) this] show "i = j" "s = Up_Open \<longleftrightarrow> t = Up_Open"
    by (auto simp: L_def split: if_splits)
qed

lemma upload_not_in_graph:
  assumes "length i = 16"
  shows "\<not> inside (graph_root root k) (upload_path root s i)"
proof -
  obtain c :: u8 and cs where c: "FormatCanonicalUuid i = hex (drop_bit 4 c) # cs"
    using assms by (rule length_16_cases) (simp add: Format_render byte_chars_def)
  have "unat (drop_bit 4 c) < 16" by (rule nibbles)
  then have "hex (drop_bit 4 c) \<in> set (L ''0123456789abcdef'')"
    unfolding hex_def by (intro nth_mem) (simp add: L_def)
  then have "hex (drop_bit 4 c) \<noteq> of_char CHR ''g''"
    by (auto simp: L_def)
  then show ?thesis
    unfolding inside_def graph_root_def upload_path_eq by (auto simp: c L_def take_Cons')
qed

subsection \<open>The invariant\<close>

text \<open>What the record of an upload says, and what its file holds.\<close>

definition upload_shape :: "wstring \<Rightarrow> Uuid128 \<Rightarrow> Upload \<Rightarrow> bool" where
  "upload_shape root i u \<longleftrightarrow> up_id u = i \<and> proper_id i \<and> version_shape (up_version u) \<and>
     ValidateGraphVersion (up_version u) = GV_None \<and> gv_semanticCertified (up_version u) \<and>
     length (up_expectedRaw u) = 32 \<and> length (up_previousRequestChain u) = 32 \<and> length (up_previousResponseChain u) = 32 \<and>
     up_accepted u \<le> up_declaredTotal u \<and> up_state u \<in> {Up_Open, Up_Sealed, Up_Validated} \<and>
     (up_state u \<noteq> Up_Open \<longrightarrow> up_accepted u = up_declaredTotal u) \<and> up_path u = upload_path root (up_state u) i"

text \<open>The bytes that a patch was declared to have.\<close>

definition declared_part :: "Upload \<Rightarrow> bytes \<Rightarrow> bytes" where
  "declared_part u y = take (unat (up_declaredTotal u)) y"

definition holds_upload :: "(bytes \<Rightarrow> Sha256) \<Rightarrow> Upload \<Rightarrow> bytes \<Rightarrow> bool" where
  "holds_upload sha u y \<longleftrightarrow> unat (up_accepted u) \<le> length y \<and>
     (up_state u \<noteq> Up_Open \<longrightarrow> sha (kPatchRawDomain @ declared_part u y) = up_expectedRaw u) \<and>
     (up_state u = Up_Validated \<longrightarrow> up_declaredTotal u < 2 ^ 62 \<longrightarrow>
       (\<exists>p. ParseCanonicalPatchV1 (declared_part u y) (up_version u) = Inr p))"

definition upload_ok :: "(bytes \<Rightarrow> Sha256) \<Rightarrow> wstring \<Rightarrow> (wstring \<Rightarrow> bytes option) \<Rightarrow> Uuid128 \<Rightarrow> Upload \<Rightarrow> bool" where
  "upload_ok sha root files i u \<longleftrightarrow> upload_shape root i u \<and> (\<exists>y. files (up_path u) = Some y \<and> holds_upload sha u y)"

definition registry_ok :: "(bytes \<Rightarrow> Sha256) \<Rightarrow> wstring \<Rightarrow> (wstring \<Rightarrow> bytes option) \<Rightarrow> Registry \<Rightarrow> bool" where
  "registry_ok sha root files rg \<longleftrightarrow> rg_root rg = root \<and> distinct (map fst (rg_uploads rg)) \<and>
     (\<forall>i u. map_of (rg_uploads rg) i = Some u \<longrightarrow> upload_ok sha root files i u) \<and>
     (\<forall>(k, c) \<in> set (rg_cursors rg). \<exists>j. gc_storageRoot c = graph_root root j)"

lemma registry_okD:
  assumes "registry_ok sha root files rg" "map_of (rg_uploads rg) i = Some u"
  shows "upload_ok sha root files i u" "upload_shape root i u" "up_id u = i" "proper_id i"
    "up_path u = upload_path root (up_state u) i" "\<exists>y. files (up_path u) = Some y \<and> holds_upload sha u y"
proof -
  show ok: "upload_ok sha root files i u" using assms unfolding registry_ok_def by blast
  show shape: "upload_shape root i u" and "\<exists>y. files (up_path u) = Some y \<and> holds_upload sha u y"
    using ok by (simp_all only: upload_ok_def)
  show "up_id u = i" "proper_id i" "up_path u = upload_path root (up_state u) i"
    using shape by (simp_all add: upload_shape_def)
qed

lemma upload_ok_cong: "files' (up_path u) = files (up_path u) \<Longrightarrow> upload_ok sha root files' i u = upload_ok sha root files i u"
  by (simp add: upload_ok_def)

lemma registry_ok_shrink:
  assumes "registry_ok sha root files rg" "rg_root rg' = rg_root rg" "distinct (map fst (rg_uploads rg'))"
    "map_of (rg_uploads rg') \<subseteq>\<^sub>m map_of (rg_uploads rg)" "set (rg_cursors rg') \<subseteq> set (rg_cursors rg)"
    "\<And>i u. map_of (rg_uploads rg') i = Some u \<Longrightarrow> files' (up_path u) = files (up_path u)"
  shows "registry_ok sha root files' rg'"
proof -
  have "upload_ok sha root files' i u" if "map_of (rg_uploads rg') i = Some u" for i u
    using that assms(1,4) upload_ok_cong [of files' u files] assms(6) [OF that]
    by (metis registry_okD(1) domI map_le_def)
  moreover have "rg_root rg = root" "\<forall>(k, c) \<in> set (rg_cursors rg). \<exists>j. gc_storageRoot c = graph_root root j"
    using assms(1) by (simp_all add: registry_ok_def)
  ultimately show ?thesis
    unfolding registry_ok_def using assms(2,3,5) by blast
qed

lemma registry_ok_files:
  assumes "registry_ok sha root files rg"
    "\<And>i u. map_of (rg_uploads rg) i = Some u \<Longrightarrow> files' (up_path u) = files (up_path u)"
  shows "registry_ok sha root files' rg"
  using assms by (intro registry_ok_shrink [OF assms(1)]) (auto simp: registry_ok_def)

lemma registry_ok_store:
  assumes "registry_ok sha root files rg" "upload_ok sha root files' (up_id u) u"
    "\<And>j v. j \<noteq> up_id u \<Longrightarrow> map_of (rg_uploads rg) j = Some v \<Longrightarrow> files' (up_path v) = files (up_path v)"
  shows "registry_ok sha root files' (store_upload u rg)"
proof -
  have "upload_ok sha root files' j v" if "j \<noteq> up_id u" "map_of (rg_uploads rg) j = Some v" for j v
    using registry_okD(1) [OF assms(1) that(2)] upload_ok_cong [of files' v files] assms(3) [OF that] by simp
  with assms(1,2) show ?thesis
    by (auto simp: registry_ok_def store_upload_def update_conv' distinct_update split: if_splits)
qed

text \<open>The other uploads have other paths.\<close>

lemma other_path:
  assumes "registry_ok sha root files rg" "map_of (rg_uploads rg) j = Some v" "proper_id i" "i \<noteq> j"
  shows "up_path v \<noteq> upload_path root s i"
  using registry_okD(4,5) [OF assms(1,2)] upload_path_inj(1) [OF _ assms(3)] assms(4) by metis

lemma idle_ok:
  assumes "lawful fo content" "registry_ok sha root (content f) rg"
  shows "registry_ok sha root (content (RemoveStorageIfIdle fo rg f)) rg"
  using assms(2) by (intro registry_ok_files [OF assms(2)]) (auto simp: RemoveStorageIfIdle_def)

lemma give_up_ok:
  assumes law: "lawful fo content" and ok: "registry_ok sha root (content f) rg" and u: "map_of (rg_uploads rg) i = Some u"
    and g: "give_up fo u rg f = (rg', f')"
  shows "registry_ok sha root (content f') rg'"
proof -
  let ?rg = "rg\<lparr>rg_uploads := AList.delete (up_id u) (rg_uploads rg)\<rparr>"
  have "content (fo_delete fo (up_path u) f) (up_path v) = content f (up_path v)"
    if "map_of (rg_uploads rg) j = Some v" "j \<noteq> i" for j v
    using other_path [OF ok that(1) registry_okD(4) [OF ok u]] registry_okD(5) [OF ok u] that(2)
    by (intro delete_elsewhere [OF law]) metis
  then have "registry_ok sha root (content (fo_delete fo (up_path u) f)) ?rg"
    using ok registry_okD(3) [OF ok u]
    by (intro registry_ok_shrink [OF ok])
      (auto simp: registry_ok_def distinct_delete delete_conv' map_le_def split: if_splits)
  from idle_ok [OF law this] show ?thesis
    using g by (auto simp: give_up_def Let_def)
qed

lemma with_upload_ok:
  assumes law: "lawful fo content" and ok: "registry_ok sha root (content f) rg"
    and w: "with_upload sha fo route h i rg f handle = (response, rg', f')"
    and handle: "\<And>u. map_of (rg_uploads rg) i = Some u \<Longrightarrow> handle u = (response, rg', f') \<Longrightarrow>
      registry_ok sha root (content f') rg'"
  shows "registry_ok sha root (content f') rg'"
proof (cases "map_of (rg_uploads rg) i")
  case (Some u)
  show ?thesis
  proof (cases "up_route u = route")
    case False
    then have "give_up fo u rg f = (rg', f')" using w Some by (simp add: with_upload_def)
    then show ?thesis by (rule give_up_ok [OF law ok Some])
  qed (use w Some handle in \<open>simp add: with_upload_def\<close>)
qed (use w ok in \<open>simp add: with_upload_def\<close>)

subsection \<open>What a request says\<close>

lemma UploadRequest_Inr:
  assumes "ParseRequest sha request k = Inr (h, fs)"
  obtains p where "DecodeFrame sha request = Inr (h, p)" "fh_message h = k" "ParseFields p = Some fs"
  using assms by (auto simp: ParseRequest_def split: sum.splits if_splits option.splits)

lemma length_chain_digest:
  assumes "\<forall>x. length (sha x) = 32" "DecodeFrame sha frame = Inr (h, p)"
  shows "length (fh_chainDigest h) = 32"
  unfolding Encode_of_Decode(5) [OF assms(2)]
  by (simp add: assms(1) [rule_format] frame_chain_def ChainDigest_def DomainParts_def)

lemma length_request_chain:
  assumes "\<forall>x. length (sha x) = 32" "ParseRequest sha request k = Inr (h, fs)"
  shows "length (fh_chainDigest h) = 32"
  by (rule UploadRequest_Inr [OF assms(2)]) (rule length_chain_digest [OF assms(1)])

lemma length_receipt_chain:
  assumes "\<forall>x. length (sha x) = 32" "receipt_chain sha response = Some c"
  shows "length c = 32"
  using assms(2) length_chain_digest [OF assms(1)] by (auto simp: receipt_chain_def split: sum.splits)

lemma ReadVersion_valid:
  assumes "ReadVersion field required = Some v"
  shows "version_shape v" "ValidateGraphVersion v = GV_None"
  using assms wire_form_Deserialize by (auto simp: ReadVersion_def split: option.splits if_splits sum.splits)

lemma begin_values_valid:
  assumes "begin_values h fs = Some (version, declared, expected)"
  shows "version_shape version" "ValidateGraphVersion version = GV_None" "gv_semanticCertified version" "length expected = 32"
  using assms ReadVersion_valid [of "Find_field fs 2" True version]
  by (auto simp: begin_values_def ReadDigest_def ExactField_def the_value_def Let_def split: option.splits if_splits)

lemma MintUuid_proper:
  assumes "\<not> Zero (MintUuid random)"
  shows "proper_id (MintUuid random)"
  using assms stamp_version_proper by (cases random) (auto simp: MintUuid_def zero_uuid_def)

lemma chunk_values_length:
  assumes "chunk_values fs = Some (i, offset, data)"
  shows "unat (size64 data) = length data"
proof (cases "Find_field fs 3")
  case (Some b)
  with assms have "data = drop 8 (fl_value b)" "unat (Get64 (fl_value b)) = length (fl_value b) - 8"
    by (simp_all add: chunk_values_def split: option.splits if_splits)
  then have "length data = unat (Get64 (fl_value b))" by simp
  then show ?thesis by (simp add: size64_def)
qed (use assms in \<open>simp add: chunk_values_def split: option.splits\<close>)

subsection \<open>Begin\<close>

lemma finish_begin_ok:
  assumes law: "lawful fo content" and sha: "\<forall>x. length (sha x) = 32" and ok: "registry_ok sha root (content f) rg"
    and u: "upload_shape root (up_id u) u" "up_state u = Up_Open" "up_accepted u = 0"
    and b: "finish_begin sha fo u h rg f = (response, rg', f')"
  shows "registry_ok sha root (content f') rg'"
proof -
  obtain created g where c: "fo_create fo (up_path u) f = (created, g)" by fastforce
  show ?thesis
  proof (cases created)
    case False
    then have "content g = content f" using lawfulD(2) [OF law c] by simp
    then show ?thesis using idle_ok [OF law, of sha root g rg] ok b c False by (auto simp: finish_begin_def)
  next
    case True
    have new: "content f (up_path u) = None" and g: "content g = (content f)(up_path u \<mapsto> [])"
      using lawfulD(2) [OF law c] True by simp_all
    have apart: "up_path v \<noteq> up_path u" if "map_of (rg_uploads rg) j = Some v" for j v
      using registry_okD(6) [OF ok that] new by auto
    have okg: "registry_ok sha root (content g) rg"
      using ok apart by (intro registry_ok_files [OF ok]) (simp add: g)
    have gone: "registry_ok sha root (content (fo_delete fo (up_path u) g)) rg"
      using apart by (intro registry_ok_files [OF okg] delete_elsewhere [OF law]) metis
    have put: "registry_ok sha root (content g) (store_upload (u\<lparr>up_previousResponseChain := chain\<rparr>) rg)"
      if "length chain = 32" for chain
      using u that apart
      by (intro registry_ok_store [OF ok]) (auto simp: g upload_ok_def upload_shape_def holds_upload_def)
    show ?thesis
      using b c True okg put length_receipt_chain [OF sha] idle_ok [OF law gone]
      by (auto simp: finish_begin_def emplace_def Let_def split: option.splits if_splits)
  qed
qed

lemma new_upload_shape:
  assumes "proper_id i" "begin_values h fs = Some (version, declared, expected)" "length (fh_chainDigest h) = 32"
  shows "upload_shape root i (new_upload root i version route declared expected h)"
  using assms(1,3) begin_values_valid [OF assms(2)]
  by (simp add: upload_shape_def new_upload_def upload_path_def zero_digest_def)

lemma begin_ok:
  assumes law: "lawful fo content" and sha: "\<forall>x. length (sha x) = 32" and ok: "registry_ok sha root (content f) rg"
    and b: "HandlePatchBegin sha fo random request route rg f = (response, rg', f')"
  shows "registry_ok sha root (content f') rg'"
proof (cases "ParseRequest sha request MK_PatchBeginRequest")
  case (Inr hf)
  then obtain h fs where parse: "ParseRequest sha request MK_PatchBeginRequest = Inr (h, fs)" by (cases hf) simp
  obtain ensured g where e: "EnsureStorage fo rg f = (ensured, g)" by fastforce
  have "content g = content f"
    using e lawfulD(1) [OF law] by (auto simp: EnsureStorage_def split: if_splits)
  with ok have okg: "registry_ok sha root (content g) rg" by simp
  have "registry_ok sha root (content f') rg'"
    if "begin_values h fs = Some (version, declared, expected)" "\<not> Zero (MintUuid random)"
      "finish_begin sha fo (new_upload (rg_root rg) (MintUuid random) version route declared expected h) h rg g = (response, rg', f')"
    for version declared expected
    using finish_begin_ok [OF law sha okg _ _ _ that(3)] new_upload_shape [OF MintUuid_proper [OF that(2)] that(1)
      length_request_chain [OF sha parse]] ok by (simp add: new_upload_def registry_ok_def)
  then show ?thesis
    using b parse e ok okg by (auto simp: HandlePatchBegin_def Let_def split: option.splits if_splits)
qed (use b ok in \<open>simp add: HandlePatchBegin_def\<close>)

subsection \<open>Chunk\<close>

lemma append_file_content:
  assumes law: "lawful fo content" and y: "content f path = Some y" and a: "append_file fo path data f = (wrote, f')"
  obtains k where "k \<le> length data" "content f' = (content f)(path \<mapsto> y @ take k data)" "wrote \<longrightarrow> k = length data"
proof (cases "length data > 0xFFFFFFFF")
  case True
  with a y that [of 0] show thesis by (simp add: append_file_def fun_upd_idem)
next
  case False
  obtain full n g where w: "fo_write fo path data f = (full, n, g)" by (metis prod_cases3)
  obtain k where k: "k \<le> length data" "content g = (content f)(path \<mapsto> y @ take k data)" "full \<longrightarrow> n = k"
    using lawfulD(3) [OF law w y] by blast
  show thesis
    using a w False k that [of k] lawfulD(4) [OF law, of path g] by (auto simp: append_file_def split: if_splits)
qed

lemma accept_bytes_stores:
  assumes sha: "\<forall>x. length (sha x) = 32" and "length (up_previousResponseChain u) = 32"
    and "accept_bytes sha u h n rg = (response, rg')"
  obtains m c where "length c = 32" "rg' = store_upload (u\<lparr>up_accepted := up_accepted u + n,
     up_previousRequestChain := fh_chainDigest h, up_nextRequestSequence := up_nextRequestSequence u + 1,
     up_previousResponseChain := c, up_nextResponseSequence := m\<rparr>) rg"
proof -
  let ?u = "u\<lparr>up_accepted := up_accepted u + n, up_previousRequestChain := fh_chainDigest h,
    up_nextRequestSequence := up_nextRequestSequence u + 1\<rparr>"
  have "rg' = store_upload ?u rg \<or> (\<exists>c. length c = 32 \<and>
      rg' = store_upload (?u\<lparr>up_previousResponseChain := c, up_nextResponseSequence := up_nextResponseSequence u + 1\<rparr>) rg)"
    using assms(3) length_receipt_chain [OF sha] by (auto simp: accept_bytes_def Let_def split: option.splits)
  moreover have "?u = ?u\<lparr>up_previousResponseChain := up_previousResponseChain u, up_nextResponseSequence := up_nextResponseSequence u\<rparr>"
    by simp
  ultimately show thesis using that assms(2) by metis
qed

lemma chunk_refusal_None:
  assumes "chunk_refusal u h offset n = None"
  shows "up_state u = Up_Open" "offset = up_accepted u" "fh_fragmentOffset h = offset" "n \<le> up_declaredTotal u - up_accepted u"
    "fh_sequence h = up_nextRequestSequence u" "fh_previousChain h = up_previousRequestChain u"
    "HeaderMatchesVersion h (up_version u)" "fh_cursorOrUpload h = up_id u" "fh_fragmentTotal h = up_declaredTotal u"
  using assms by (auto simp: chunk_refusal_def EqualHash_def EqualUuid_def split: if_splits)

lemma accepted_sum:
  fixes a d n :: u64
  assumes "a \<le> d" "n \<le> d - a"
  shows "a + n \<le> d" "unat (a + n) = unat a + unat n"
proof -
  have "unat a + unat n \<le> unat d"
    using assms by (simp add: word_le_nat_alt unat_sub)
  moreover have "unat d < 2 ^ 64" using unsigned_less [of d] by simp
  ultimately show "unat (a + n) = unat a + unat n"
    by (simp add: unat_word_ariths)
  with \<open>unat a + unat n \<le> unat d\<close> show "a + n \<le> d" by (simp add: word_le_nat_alt)
qed

lemma chunk_upload_ok:
  assumes u: "upload_ok sha root files i u" "up_state u = Up_Open" and y: "files (up_path u) = Some y" and c: "length c = 32"
    and r: "length r = 32" and n: "unat n = length data" "n \<le> up_declaredTotal u - up_accepted u"
  shows "upload_ok sha root (files(up_path u \<mapsto> y @ data)) i (u\<lparr>up_accepted := up_accepted u + n,
     up_previousRequestChain := r, up_nextRequestSequence := q, up_previousResponseChain := c, up_nextResponseSequence := m\<rparr>)"
proof -
  have shape: "upload_shape root i u" and held: "holds_upload sha u y" using u(1) y by (simp_all add: upload_ok_def)
  have "up_accepted u \<le> up_declaredTotal u" using shape by (simp add: upload_shape_def)
  from accepted_sum [OF this n(2)] show ?thesis
    using shape held u(2) c r n(1) by (simp add: upload_ok_def upload_shape_def holds_upload_def)
qed

lemma other_files:
  assumes "registry_ok sha root files rg" "map_of (rg_uploads rg) i = Some u" "map_of (rg_uploads rg) j = Some v" "j \<noteq> i"
  shows "up_path v \<noteq> up_path u"
  using other_path [OF assms(1,3) registry_okD(4) [OF assms(1,2)]] registry_okD(5) [OF assms(1,2)] assms(4) by metis

lemma chunk_upload_ok_step:
  assumes law: "lawful fo content" and sha: "\<forall>x. length (sha x) = 32" and ok: "registry_ok sha root (content f) rg"
    and u: "map_of (rg_uploads rg) i = Some u" and h: "length (fh_chainDigest h) = 32" and n: "unat (size64 data) = length data"
    and b: "chunk_upload sha fo h offset data rg f u = (response, rg', f')"
  shows "registry_ok sha root (content f') rg'"
proof (cases "chunk_refusal u h offset (size64 data) = None \<and> fo_openAppend fo (up_path u) f")
  case False
  then show ?thesis using b ok by (auto simp: chunk_upload_def split: option.splits)
next
  case True
  obtain wrote g where a: "append_file fo (up_path u) data f = (wrote, g)" by fastforce
  obtain y where y: "content f (up_path u) = Some y" using registry_okD(6) [OF ok u] by blast
  obtain k where k: "content g = (content f)(up_path u \<mapsto> y @ take k data)" "wrote \<longrightarrow> k = length data"
    using append_file_content [OF law y a] by blast
  have same: "content g (up_path v) = content f (up_path v)" if "j \<noteq> i" "map_of (rg_uploads rg) j = Some v" for j v
    using other_files [OF ok u that(2) that(1)] by (simp add: k(1))
  note U = registry_okD [OF ok u]
  note fine = chunk_refusal_None [of u h offset "size64 data"]
  show ?thesis
  proof (cases wrote)
    case wrote: True
    obtain r rg1 where e: "accept_bytes sha u h (size64 data) rg = (r, rg1)" by fastforce
    have out: "rg' = rg1" "f' = g" using b True a wrote e by (auto simp: chunk_upload_def)
    have prev: "length (up_previousResponseChain u) = 32" using U(2) by (simp add: upload_shape_def)
    obtain m c where c: "length c = 32" and rg1: "rg1 = store_upload (u\<lparr>up_accepted := up_accepted u + size64 data,
       up_previousRequestChain := fh_chainDigest h, up_nextRequestSequence := up_nextRequestSequence u + 1,
       up_previousResponseChain := c, up_nextResponseSequence := m\<rparr>) rg"
      by (rule accept_bytes_stores [OF sha prev e])
    have "upload_ok sha root (content g) i (u\<lparr>up_accepted := up_accepted u + size64 data,
       up_previousRequestChain := fh_chainDigest h, up_nextRequestSequence := up_nextRequestSequence u + 1,
       up_previousResponseChain := c, up_nextResponseSequence := m\<rparr>)"
      using chunk_upload_ok [OF U(1) fine(1) y c h n fine(4)] k True wrote by simp
    with same U(3) show ?thesis
      unfolding rg1 out by (intro registry_ok_store [OF ok]) simp_all
  next
    case False
    have out: "rg' = rg" "f' = g" using b True a False by (auto simp: chunk_upload_def)
    have "upload_ok sha root (content g) i u"
      using U(1) y fine(1) True unfolding upload_ok_def holds_upload_def k(1) by auto
    then have "registry_ok sha root (content g) (store_upload u rg)"
      using same U(3) by (intro registry_ok_store [OF ok]) simp_all
    moreover have "store_upload u rg = rg"
      using u U(3) by (simp add: store_upload_def update_triv)
    ultimately show ?thesis by (simp add: out)
  qed
qed

lemma chunk_ok:
  assumes law: "lawful fo content" and sha: "\<forall>x. length (sha x) = 32" and ok: "registry_ok sha root (content f) rg"
    and b: "HandlePatchChunk sha fo request route rg f = (response, rg', f')"
  shows "registry_ok sha root (content f') rg'"
proof (cases "ParseRequest sha request MK_PatchChunkRequest")
  case (Inr hf)
  then obtain h fs where parse: "ParseRequest sha request MK_PatchChunkRequest = Inr (h, fs)" by (cases hf) simp
  show ?thesis
    using b parse ok chunk_upload_ok_step [OF law sha ok _ length_request_chain [OF sha parse]] chunk_values_length [of fs]
    by (auto simp: HandlePatchChunk_def split: option.splits if_splits elim!: with_upload_ok [OF law ok])
qed (use b ok in \<open>simp add: HandlePatchChunk_def\<close>)

subsection \<open>Commit\<close>

lemma commit_refusal_None:
  assumes "commit_refusal u h declared expected = None"
  shows "up_state u = Up_Open" "up_accepted u = up_declaredTotal u" "declared = up_declaredTotal u"
    "fh_sequence h = up_nextRequestSequence u" "fh_previousChain h = up_previousRequestChain u"
    "expected = up_expectedRaw u"
  using assms by (auto simp: commit_refusal_def EqualHash_def split: if_splits)

lemma PatchDigestFile_reads:
  assumes "lawful fo content" "content f path = Some y" "PatchDigestFile sha fo path n f = Some d"
  shows "d = sha (kPatchRawDomain @ take (unat n) y)"
  using assms(3) read_loop_reads [OF assms(1,2)] by (fastforce simp: PatchDigestFile_def split: if_splits)

lemma seal_upload_stores:
  assumes sha: "\<forall>x. length (sha x) = 32" and c: "length (up_previousResponseChain u) = 32"
    and b: "seal_upload sha fo u h actual rg f = (response, rg', f')"
  obtains moved g c m s where "fo_move fo (up_path u) (sealed_path (up_path u)) f = (moved, f')" "length c = 32"
    "rg' = store_upload (u\<lparr>up_previousRequestChain := fh_chainDigest h, up_nextRequestSequence := up_nextRequestSequence u + 1,
       up_state := (if moved then Up_Sealed else Up_Open), up_path := (if moved then sealed_path (up_path u) else up_path u),
       up_previousResponseChain := c, up_nextResponseSequence := m\<rparr>) rg"
proof -
  let ?u = "\<lambda>c m s p. u\<lparr>up_previousRequestChain := fh_chainDigest h, up_nextRequestSequence := up_nextRequestSequence u + 1,
       up_state := s, up_path := p, up_previousResponseChain := c, up_nextResponseSequence := m\<rparr>"
  obtain moved g where m: "fo_move fo (up_path u) (sealed_path (up_path u)) f = (moved, g)" by fastforce
  let ?s = "if moved then Up_Sealed else Up_Open" and ?p = "if moved then sealed_path (up_path u) else up_path u"
  have "f' = g \<and> (rg' = store_upload (?u (up_previousResponseChain u) (up_nextResponseSequence u) ?s ?p) rg \<or>
      (\<exists>c. length c = 32 \<and> rg' = store_upload (?u c (up_nextResponseSequence u + 1) ?s ?p) rg))"
    using b m length_receipt_chain [OF sha] by (auto simp: seal_upload_def Let_def split: option.splits if_splits)
  then show thesis using that m c by metis
qed

lemma seal_upload_ok:
  assumes law: "lawful fo content" and sha: "\<forall>x. length (sha x) = 32" and ok: "registry_ok sha root (content f) rg"
    and u: "map_of (rg_uploads rg) i = Some u" "up_state u = Up_Open" "up_accepted u = up_declaredTotal u"
    and y: "content f (up_path u) = Some y" "sha (kPatchRawDomain @ declared_part u y) = up_expectedRaw u"
    and h: "length (fh_chainDigest h) = 32" and b: "seal_upload sha fo u h actual rg f = (response, rg', f')"
  shows "registry_ok sha root (content f') rg'"
proof -
  note U = registry_okD [OF ok u(1)]
  let ?q = "sealed_path (up_path u)"
  have path: "up_path u = upload_path root Up_Open i" using U(5) by (simp only: u(2))
  then have q: "?q = upload_path root Up_Sealed i" by (simp add: upload_path_def)
  have "upload_path root Up_Open i \<noteq> upload_path root Up_Sealed i"
    using upload_path_inj(2) [OF U(4) U(4), of root Up_Open Up_Sealed] by auto
  then have "up_path u \<noteq> ?q" using path q by metis
  have prev: "length (up_previousResponseChain u) = 32" using U(2) by (simp add: upload_shape_def)
  have held: "unat (up_declaredTotal u) \<le> length y" using U(6) y(1) u(3) by (auto simp: holds_upload_def)
  obtain moved c m where mv: "fo_move fo (up_path u) ?q f = (moved, f')" and c: "length c = 32"
    and rg': "rg' = store_upload (u\<lparr>up_previousRequestChain := fh_chainDigest h, up_nextRequestSequence := up_nextRequestSequence u + 1,
       up_state := (if moved then Up_Sealed else Up_Open), up_path := (if moved then ?q else up_path u),
       up_previousResponseChain := c, up_nextResponseSequence := m\<rparr>) rg"
    by (rule seal_upload_stores [OF sha prev b])
  note files = lawfulD(6) [OF law mv \<open>up_path u \<noteq> ?q\<close>]
  have same: "content f' (up_path v) = content f (up_path v)" if "j \<noteq> i" "map_of (rg_uploads rg) j = Some v" for j v
    using files other_path [OF ok that(2) U(4) not_sym [OF that(1)]] path q by (metis fun_upd_other)
  have "content f' (if moved then ?q else up_path u) = Some y"
    using files y(1) \<open>up_path u \<noteq> ?q\<close> by (cases moved) simp_all
  then show ?thesis
    unfolding rg' using U(2,3) u(2,3) y(2) c h same path q held
    by (intro registry_ok_store [OF ok])
      (simp_all add: upload_ok_def upload_shape_def holds_upload_def declared_part_def)
qed

lemma commit_ok:
  assumes law: "lawful fo content" and sha: "\<forall>x. length (sha x) = 32" and ok: "registry_ok sha root (content f) rg"
    and b: "HandlePatchCommit sha fo request route rg f = (response, rg', f')"
  shows "registry_ok sha root (content f') rg'"
proof (cases "ParseRequest sha request MK_PatchCommitRequest")
  case (Inr hf)
  then obtain h fs where parse: "ParseRequest sha request MK_PatchCommitRequest = Inr (h, fs)" by (cases hf) simp
  have "registry_ok sha root (content f') rg'"
    if u: "map_of (rg_uploads rg) i = Some u" and c: "commit_upload sha fo h declared expected rg f u = (response, rg', f')"
    for i u declared expected
  proof (cases "commit_refusal u h declared expected = None \<and> PatchDigestFile sha fo (up_path u) (up_accepted u) f = Some (up_expectedRaw u)")
    case True
    obtain y where y: "content f (up_path u) = Some y" using registry_okD(6) [OF ok u] by blast
    note fine = commit_refusal_None [OF conjunct1 [OF True]]
    have "sha (kPatchRawDomain @ declared_part u y) = up_expectedRaw u"
      using PatchDigestFile_reads [OF law y conjunct2 [OF True]] by (simp add: declared_part_def fine(2))
    moreover have "seal_upload sha fo u h (up_expectedRaw u) rg f = (response, rg', f')"
      using c True by (simp add: commit_upload_def EqualHash_def)
    ultimately show ?thesis
      using seal_upload_ok [OF law sha ok u fine(1,2) y _ length_request_chain [OF sha parse]] by blast
  qed (use c ok in \<open>auto simp: commit_upload_def EqualHash_def split: option.splits if_splits\<close>)
  then show ?thesis
    using b parse ok by (auto simp: HandlePatchCommit_def split: option.splits if_splits elim!: with_upload_ok [OF law ok])
qed (use b ok in \<open>simp add: HandlePatchCommit_def\<close>)

subsection \<open>Validate and abort\<close>

lemma patch_source_honest:
  assumes law: "lawful fo content" and y: "content f (up_path u) = Some y" "unat (up_declaredTotal u) \<le> length y"
  shows "honest (patch_source fo u f) (declared_part u y)"
proof -
  have "x = take n (drop off (take (unat (up_declaredTotal u)) y))"
    if r: "fo_read fo (up_path u) off n f = Some x" and fits: "off + n \<le> unat (up_declaredTotal u)" for off n x
    using lawfulD(5) [OF law r] y(1) fits by (simp add: drop_take)
  with y(2) show ?thesis
    by (simp add: honest_def patch_source_def declared_part_def)
qed

lemma validate_upload_ok:
  assumes law: "lawful fo content" and ok: "registry_ok sha root (content f) rg"
    and u: "map_of (rg_uploads rg) i = Some u" and v: "version_shape expected"
    and b: "validate_upload sha fo h expected rg f u = (response, rg', f')"
  shows "registry_ok sha root (content f') rg'"
proof (cases "rg' = rg \<and> f' = f")
  case False
  have "(rg' = rg \<and> f' = f) \<or> ((\<exists>r. ParseSealedPatchV1 sha (patch_source fo u f) expected = Inr r) \<and>
      up_state u = Up_Sealed \<and> PatchVersionCas expected (up_version u) \<and>
      rg' = store_upload (u\<lparr>up_state := Up_Validated\<rparr>) rg \<and> f' = f)"
    using b unfolding validate_upload_def by (simp split: if_splits sum.splits)
  with False obtain r where r: "ParseSealedPatchV1 sha (patch_source fo u f) expected = Inr r"
    and sealed: "up_state u = Up_Sealed" and cas: "PatchVersionCas expected (up_version u)"
    and out: "rg' = store_upload (u\<lparr>up_state := Up_Validated\<rparr>) rg" "f' = f"
    by blast
  note U = registry_okD [OF ok u]
  obtain y where y: "content f (up_path u) = Some y" "holds_upload sha u y" using U(6) by blast
  have shape: "up_accepted u = up_declaredTotal u" "version_shape (up_version u)"
    using U(2) sealed by (simp_all add: upload_shape_def)
  have "expected = up_version u" using version_cas_iff [OF v shape(2)] cas by blast
  moreover have len: "unat (up_declaredTotal u) \<le> length y" using y(2) shape(1) by (simp add: holds_upload_def)
  ultimately have "\<exists>p. ParseCanonicalPatchV1 (declared_part u y) (up_version u) = Inr p"
    if "up_declaredTotal u < 2 ^ 62"
    using sealed_sound [OF patch_source_honest [OF law y(1) len] _ r] that
    by (auto simp: declared_part_def word_less_nat_alt)
  then show ?thesis
    unfolding out using U(2,3,5) sealed y
    by (intro registry_ok_store [OF ok])
      (simp_all add: upload_ok_def upload_shape_def holds_upload_def declared_part_def upload_path_def)
qed (use ok in simp)

lemma validate_ok:
  assumes law: "lawful fo content" and ok: "registry_ok sha root (content f) rg"
    and b: "HandlePatchValidate sha fo request route rg f = (response, rg', f')"
  shows "registry_ok sha root (content f') rg'"
proof -
  have "version_shape expected" if "validate_values h fs = Some (i, expected)" for h fs i expected
    using that ReadVersion_valid(1) by (auto simp: validate_values_def split: option.splits if_splits)
  then show ?thesis
    using b ok validate_upload_ok [OF law ok]
    by (auto simp: HandlePatchValidate_def split: sum.splits option.splits if_splits elim!: with_upload_ok [OF law ok]) blast
qed

lemma abort_ok:
  assumes law: "lawful fo content" and ok: "registry_ok sha root (content f) rg"
    and b: "HandlePatchAbort sha fo request route rg f = (response, rg', f')"
  shows "registry_ok sha root (content f') rg'"
  using b ok give_up_ok [OF law ok]
  by (auto simp: HandlePatchAbort_def abort_upload_def split: sum.splits option.splits if_splits elim!: with_upload_ok [OF law ok])

lemma request_ok:
  assumes "lawful fo content" "\<forall>x. length (sha x) = 32" "registry_ok sha root (content f) rg"
    "ProcessPatchRequest sha fo random kind request route rg f = (response, rg', f')"
  shows "registry_ok sha root (content f') rg'"
  using assms(4) begin_ok [OF assms(1-3)] chunk_ok [OF assms(1-3)] commit_ok [OF assms(1-3)]
    validate_ok [OF assms(1,3)] abort_ok [OF assms(1,3)] assms(3)
  by (cases kind) (simp_all add: ProcessPatchRequest_def)

subsection \<open>Routes and the end of the process\<close>

lemma invalidate_uploads_result:
  assumes "invalidate_uploads fo route us f = (us', f')"
  shows "us' = filter (\<lambda>(i, u). up_route u \<noteq> route) us"
  using assms by (induction us arbitrary: f us' rule: list.induct) (auto split: if_splits prod.splits)

lemma invalidate_uploads_files:
  assumes law: "lawful fo content" and "invalidate_uploads fo route us f = (us', f')"
    and "\<And>i u. (i, u) \<in> set us \<Longrightarrow> up_route u = route \<Longrightarrow> up_path u \<noteq> p"
  shows "content f' p = content f p"
  using assms(2,3)
proof (induction us arbitrary: f us' f')
  case (Cons x us)
  obtain i u where x: "x = (i, u)" by (cases x)
  show ?case
  proof (cases "up_route u = route")
    case True
    have "content f' p = content (fo_delete fo (up_path u) f) p"
      using Cons.prems True by (intro Cons.IH) (auto simp: x)
    also have "\<dots> = content f p"
      using Cons.prems(2) [of i u] True by (intro delete_elsewhere [OF law]) (simp add: x)
    finally show ?thesis .
  next
    case False
    obtain vs g where v: "invalidate_uploads fo route us f = (vs, g)" by fastforce
    then have "f' = g" using Cons.prems(1) False by (simp add: x)
    then show ?thesis using Cons.IH [OF v] Cons.prems(2) by (auto simp: x)
  qed
qed simp

lemma invalidate_cursors_result:
  assumes law: "lawful fo content" and "invalidate_cursors fo route cs f = (cs', f')"
    and "\<And>k c. (k, c) \<in> set cs \<Longrightarrow> \<not> inside (gc_storageRoot c) p"
  shows "set cs' \<subseteq> set cs \<and> content f' p = content f p"
  using assms(2,3)
proof (induction cs arbitrary: f cs' f')
  case (Cons x cs)
  obtain k c where x: "x = (k, c)" by (cases x)
  show ?case
  proof (cases "gc_route c = route")
    case True
    have "set cs' \<subseteq> set cs \<and> content f' p = content (fo_remove_all fo (gc_storageRoot c) f) p"
      using Cons.prems True by (intro Cons.IH) (auto simp: x)
    moreover have "content (fo_remove_all fo (gc_storageRoot c) f) p = content f p"
      using Cons.prems(2) [of k c] by (intro remove_elsewhere [OF law]) (simp add: x)
    ultimately show ?thesis by auto
  next
    case False
    obtain vs g where v: "invalidate_cursors fo route cs f = (vs, g)" by fastforce
    then have "f' = g" "cs' = (k, c) # vs" using Cons.prems(1) False by (simp_all add: x)
    then show ?thesis using Cons.IH [OF v] Cons.prems(2) by (auto simp: x)
  qed
qed simp

lemma invalidate_cursors_set:
  "invalidate_cursors fo route cs f = (cs', f') \<Longrightarrow> set cs' \<subseteq> set cs"
  by (induction cs arbitrary: f cs' rule: list.induct) (fastforce split: if_splits prod.splits)+

lemma upload_not_inside:
  assumes "registry_ok sha root files rg" "map_of (rg_uploads rg) i = Some u" "(k, c) \<in> set (rg_cursors rg)"
  shows "\<not> inside (gc_storageRoot c) (up_path u)"
proof -
  obtain j where "gc_storageRoot c = graph_root root j" using assms(1,3) unfolding registry_ok_def by blast
  moreover have "length i = 16" using registry_okD(4) [OF assms(1,2)] by (simp add: proper_id_def)
  ultimately show ?thesis
    using upload_not_in_graph [of i root j "up_state u"] registry_okD(5) [OF assms(1,2)] by simp
qed

lemma invalidate_ok:
  assumes law: "lawful fo content" and ok: "registry_ok sha root (content f) rg"
    and b: "InvalidateRoute fo route rg f = (rg', f')"
  shows "registry_ok sha root (content f') rg'"
proof -
  obtain us g where us: "invalidate_uploads fo route (rg_uploads rg) f = (us, g)" by fastforce
  obtain cs e where cs: "invalidate_cursors fo route (rg_cursors rg) g = (cs, e)" by fastforce
  have rg': "rg' = rg\<lparr>rg_uploads := us, rg_cursors := cs, rg_sessions := filter (\<lambda>c. cs_route c \<noteq> route) (rg_sessions rg)\<rparr>"
    and f': "f' = RemoveStorageIfIdle fo rg' e"
    using b us cs by (auto simp: InvalidateRoute_def Let_def)
  have keys: "distinct (map fst (rg_uploads rg))" using ok by (simp add: registry_ok_def)
  have kept: "map_of (rg_uploads rg) i = Some u \<and> up_route u \<noteq> route" if "map_of us i = Some u" for i u
    using map_of_SomeD [OF that] keys unfolding invalidate_uploads_result [OF us] by simp
  have other: "content e (up_path u) = content f (up_path u)" if u: "map_of us i = Some u" for i u
  proof -
    have "up_path v \<noteq> up_path u" if "(j, v) \<in> set (rg_uploads rg)" "up_route v = route" for j v
    proof -
      have v: "map_of (rg_uploads rg) j = Some v" using that(1) keys by simp
      then have "j \<noteq> i" using kept [OF u] that(2) by auto
      then show ?thesis using other_files [OF ok conjunct1 [OF kept [OF u]] v] by blast
    qed
    then have "content g (up_path u) = content f (up_path u)" by (rule invalidate_uploads_files [OF law us])
    moreover have "content e (up_path u) = content g (up_path u)"
      using invalidate_cursors_result [OF law cs] upload_not_inside [OF ok conjunct1 [OF kept [OF u]]] by blast
    ultimately show ?thesis by simp
  qed
  have "set cs \<subseteq> set (rg_cursors rg)"
    using invalidate_cursors_set [OF cs] .
  then have "registry_ok sha root (content e) rg'"
    using kept other keys unfolding rg' invalidate_uploads_result [OF us]
    by (intro registry_ok_shrink [OF ok]) (auto simp: map_le_def distinct_map_filter)
  from idle_ok [OF law this] show ?thesis by (simp add: f')
qed

lemma clear_ok:
  assumes "registry_ok sha root files rg" "Registry_Clear fo rg f = (rg', f')"
  shows "registry_ok sha root files' rg'"
  using assms by (auto simp: Registry_Clear_def Let_def registry_ok_def)

subsection \<open>Every state that is reached\<close>

text \<open>
  The bridge starts, serves requests, opens sessions, loses routes and ends; the handlers of graphs, which
  are not modelled, open and close cursors and write below the directories of the graphs only, or anywhere
  below the root where no upload is left.
\<close>

definition graph_activity :: "('f \<Rightarrow> wstring \<Rightarrow> bytes option) \<Rightarrow> Registry \<Rightarrow> 'f \<Rightarrow> Registry \<Rightarrow> 'f \<Rightarrow> bool" where
  "graph_activity content rg f rg' f' \<longleftrightarrow> rg' = rg\<lparr>rg_cursors := rg_cursors rg'\<rparr> \<and>
     (\<forall>(k, c) \<in> set (rg_cursors rg'). \<exists>j. gc_storageRoot c = graph_root (rg_root rg) j) \<and>
     (rg_uploads rg \<noteq> [] \<longrightarrow> (\<forall>p. (\<forall>j. \<not> inside (graph_root (rg_root rg) j) p) \<longrightarrow> content f' p = content f p))"

inductive upload_reach :: "(bytes \<Rightarrow> Sha256) \<Rightarrow> 'f FileOps \<Rightarrow> ('f \<Rightarrow> wstring \<Rightarrow> bytes option) \<Rightarrow> wstring \<Rightarrow> Registry \<Rightarrow> 'f \<Rightarrow> bool"
  for sha fo content root where
  start: "Registry_StartupCleanup fo root f = (rg, f') \<Longrightarrow> upload_reach sha fo content root rg f'"
| request: "upload_reach sha fo content root rg f \<Longrightarrow>
    ProcessPatchRequest sha fo random kind request route rg f = (response, rg', f') \<Longrightarrow>
    upload_reach sha fo content root rg' f'"
| negotiate: "upload_reach sha fo content root rg f \<Longrightarrow>
    NegotiateCapabilities session bits route rg = (status, negotiated, rg') \<Longrightarrow> upload_reach sha fo content root rg' f"
| lost_route: "upload_reach sha fo content root rg f \<Longrightarrow> NoteRouteOwnerDestruction fo route rg f = (rg', f') \<Longrightarrow>
    upload_reach sha fo content root rg' f'"
| cleanup: "upload_reach sha fo content root rg f \<Longrightarrow> CleanupProcessState fo rg f = (rg', f') \<Longrightarrow>
    upload_reach sha fo content root rg' f'"
| graphs: "upload_reach sha fo content root rg f \<Longrightarrow> graph_activity content rg f rg' f' \<Longrightarrow>
    upload_reach sha fo content root rg' f'"

lemma graphs_ok:
  assumes ok: "registry_ok sha root (content f) rg" and a: "graph_activity content rg f rg' f'"
  shows "registry_ok sha root (content f') rg'"
proof -
  have same: "rg_root rg' = rg_root rg" "rg_uploads rg' = rg_uploads rg"
    using arg_cong [OF conjunct1 [OF a [unfolded graph_activity_def]], of rg_root]
      arg_cong [OF conjunct1 [OF a [unfolded graph_activity_def]], of rg_uploads] by simp_all
  have root: "rg_root rg = root" using ok by (simp add: registry_ok_def)
  have "content f' (up_path u) = content f (up_path u)" if u: "map_of (rg_uploads rg) i = Some u" for i u
  proof -
    have "length i = 16" using registry_okD(4) [OF ok u] by (simp add: proper_id_def)
    then have "\<forall>j. \<not> inside (graph_root (rg_root rg) j) (up_path u)"
      using upload_not_in_graph registry_okD(5) [OF ok u] root by simp
    moreover have "rg_uploads rg \<noteq> []" using u by auto
    ultimately show ?thesis using a unfolding graph_activity_def by blast
  qed
  from registry_ok_files [OF ok this] have "registry_ok sha root (content f') rg" .
  then show ?thesis using a same root by (simp add: registry_ok_def graph_activity_def)
qed

lemma reachable_ok:
  assumes "lawful fo content" "\<forall>x. length (sha x) = 32" "upload_reach sha fo content root rg f"
  shows "registry_ok sha root (content f) rg"
  using assms(3)
proof induction
  case (start f rg f')
  then show ?case by (auto simp: Registry_StartupCleanup_def registry_ok_def)
next
  case (request rg f random kind request route response rg' f')
  then show ?case using request_ok [OF assms(1,2)] by blast
next
  case (negotiate rg f session bits route status negotiated rg')
  then show ?case by (auto simp: NegotiateCapabilities_def registry_ok_def Let_def split: if_splits)
next
  case (lost_route rg f route rg' f')
  then show ?case using invalidate_ok [OF assms(1)] unfolding NoteRouteOwnerDestruction_def by blast
next
  case (cleanup rg f rg' f')
  show ?case by (rule clear_ok [OF cleanup.IH cleanup.hyps(2) [unfolded CleanupProcessState_def]])
next
  case (graphs rg f rg' f')
  show ?case by (rule graphs_ok [of sha root content f rg rg' f', OF graphs.IH graphs.hyps(2)])
qed

subsection \<open>What a failure of the system leaves behind\<close>

text \<open>A chunk whose write fails is refused and does not count, but what was written of it stays in the file. The same
  chunk is accepted when it is sent again, and comes after the remains of the first attempt: the digest of a
  file like that is not that of the patch, and the upload can only be given up.\<close>

lemma partial_write_remains:
  assumes law: "lawful fo content" and y: "content f path = Some y" and a: "append_file fo path data f = (False, f')"
  shows "\<exists>k \<le> length data. content f' path = Some (y @ take k data) \<and>
    (\<forall>f''. append_file fo path data f' = (True, f'') \<longrightarrow> content f'' path = Some (y @ take k data @ data))"
proof -
  obtain k where k: "k \<le> length data" "content f' = (content f)(path \<mapsto> y @ take k data)"
    using append_file_content [OF law y a] by blast
  have "content f'' path = Some (y @ take k data @ data)" if "append_file fo path data f' = (True, f'')" for f''
    using append_file_content [OF law _ that, of "y @ take k data"] k(2) by fastforce
  with k show ?thesis by (intro exI [of _ k]) simp
qed

text \<open>A commit that fails to move the file leaves the upload open, but counts the request: the same request is refused
  when it is sent again.\<close>

lemma failed_seal_not_repeatable:
  assumes "commit_refusal u h declared expected = None" "PatchDigestFile sha fo (up_path u) (up_accepted u) f = Some (up_expectedRaw u)"
    and "fo_move fo (up_path u) (sealed_path (up_path u)) f = (False, g)"
    and "commit_upload sha fo h declared expected rg f u = (response, rg', f')" "map_of (rg_uploads rg') (up_id u) = Some u'"
  shows "up_state u' = Up_Open \<and> commit_refusal u' h declared expected = Some (EC_SequenceMismatch, ''PatchCommit sequence'')"
proof -
  have "u' = u\<lparr>up_previousRequestChain := fh_chainDigest h, up_nextRequestSequence := up_nextRequestSequence u + 1, up_state := Up_Open\<rparr>"
    using assms by (auto simp: commit_upload_def seal_upload_def Let_def EqualHash_def store_upload_def update_conv')
  then show ?thesis
    using assms(1) commit_refusal_None(4) [OF assms(1)] by (auto simp: commit_refusal_def split: if_splits)
qed

end
