(* ===== verification/UploadClient.thy ===== *)
theory UploadClient
  imports UploadProperties
begin

section \<open>A client that uploads a patch\<close>

text \<open>
  What a client does: it begins an upload, sends the patch in pieces, each request with the chain of the one
  before, commits and has the patch validated. On a file system that does what it is asked, the
  bridge accepts every request, and in the end it holds the patch, byte by byte.
\<close>

subsection \<open>Requests with a version\<close>

text \<open>A version that a patch can be about: valid, certified, and of at least one profile, as headers demand.\<close>

definition certified :: "GraphVersionV1 \<Rightarrow> bool" where
  "certified v \<longleftrightarrow> version_shape v \<and> ValidateGraphVersion v = GV_None \<and> gv_semanticCertified v \<and> gv_profileBits v \<noteq> 0"

definition patch_head :: "GraphVersionV1 \<Rightarrow> MessageKind \<Rightarrow> u32 \<Rightarrow> u64 \<Rightarrow> u64 \<Rightarrow> u64 \<Rightarrow> Uuid128 \<Rightarrow> Sha256 \<Rightarrow> Header" where
  "patch_head v kind flags sequence offset declared cursor previous =
     (let h = empty_header\<lparr>fh_message := kind, fh_flags := flags, fh_sequence := sequence, fh_fragmentOffset := offset,
        fh_fragmentTotal := declared, fh_cursorOrUpload := cursor, fh_previousChain := previous\<rparr>
      in case ApplyVersionToHeader v h of None \<Rightarrow> h | Some h' \<Rightarrow> h')"

definition version_flags :: "GraphVersionV1 \<Rightarrow> u32" where
  "version_flags v = kFlagSemanticCertified OR (if gv_layoutPresent v then kFlagLayoutPresent else 0)"

text \<open>A header as it is on the wire: with the length of the payload and digests.\<close>

definition wired :: "Header \<Rightarrow> Header \<Rightarrow> bool" where
  "wired h h' \<longleftrightarrow> (\<exists>n c d. h' = h\<lparr>fh_payloadBytes := n, fh_chunkDigest := c, fh_chainDigest := d\<rparr>)"

lemma patch_head_eq:
  assumes "certified v"
  shows "patch_head v kind flags sequence offset declared cursor previous =
    \<lparr>fh_message = kind, fh_flags = flags AND NOT 33 OR version_flags v, fh_payloadBytes = 0, fh_sequence = sequence,
     fh_fragmentOffset = offset, fh_fragmentTotal = declared, fh_session = gv_documentSessionId v, fh_graph = gv_graphId v,
     fh_profileBits = gv_profileBits v, fh_semanticRevision = gv_semanticRevision v, fh_layoutRevision = gv_layoutRevision v,
     fh_locatorEpoch = gv_locatorEpoch v, fh_observedSemanticRoot = gv_observedSemanticRoot v, fh_layoutRoot = gv_layoutRoot v,
     fh_captureRoot = gv_captureRoot v, fh_cursorOrUpload = cursor, fh_previousChain = previous, fh_chunkDigest = zero_digest,
     fh_chainDigest = zero_digest\<rparr>"
  using assms by (simp add: patch_head_def Let_def ApplyVersionToHeader_def certified_def empty_header_def version_flags_def
      flag_defs or.assoc)

text \<open>The flags of the messages about patches: alone, with the terminal and with the fragmented flag.\<close>

definition patch_flags :: "u32 set" where
  "patch_flags = {16, 18, 24}"

lemma flags_of_head:
  assumes "f \<in> patch_flags"
  shows "f AND NOT 33 OR version_flags v = version_flags v OR f" "(version_flags v OR f) AND 33 = version_flags v"
    "(version_flags v OR f) AND 32 \<noteq> 0" "(version_flags v OR f) AND 1 \<noteq> 0 \<longleftrightarrow> gv_layoutPresent v"
    "version_flags v AND 32 \<noteq> 0"
  using assms by (auto simp: patch_flags_def version_flags_def flag_defs)


lemma head_facts:
  assumes v: "certified v" and f: "flags \<in> patch_flags" and w: "wired (patch_head v kind flags sequence offset declared cursor previous) h"
  shows "fh_message h = kind" "fh_flags h = version_flags v OR flags" "fh_sequence h = sequence"
    "fh_fragmentOffset h = offset" "fh_fragmentTotal h = declared" "fh_session h = gv_documentSessionId v"
    "fh_cursorOrUpload h = cursor" "fh_previousChain h = previous"
    "VersionFlags h = version_flags v" "FullVersionShape h" "FullVersionHeader h" "HeaderMatchesVersion h v"
proof -
  obtain n c d where h: "h = (patch_head v kind flags sequence offset declared cursor previous)
      \<lparr>fh_payloadBytes := n, fh_chunkDigest := c, fh_chainDigest := d\<rparr>"
    using w by (auto simp: wired_def)
  show fields: "fh_message h = kind" "fh_flags h = version_flags v OR flags" "fh_sequence h = sequence"
    "fh_fragmentOffset h = offset" "fh_fragmentTotal h = declared" "fh_session h = gv_documentSessionId v"
    "fh_cursorOrUpload h = cursor" "fh_previousChain h = previous"
    using flags_of_head(1) [OF f] by (simp_all add: h patch_head_eq [OF v])
  show flags: "VersionFlags h = version_flags v"
    by (simp add: VersionFlags_def fields flag_defs flags_of_head(2) [OF f])
  have valid: "ValidateGraphVersion v = GV_None" "gv_semanticCertified v" using v by (simp_all add: certified_def)
  have parts: "fh_graph h = gv_graphId v" "fh_profileBits h = gv_profileBits v" "fh_semanticRevision h = gv_semanticRevision v"
    "fh_layoutRevision h = gv_layoutRevision v" "fh_locatorEpoch h = gv_locatorEpoch v" "fh_layoutRoot h = gv_layoutRoot v"
    "fh_observedSemanticRoot h = gv_observedSemanticRoot v" "fh_captureRoot h = gv_captureRoot v"
    by (simp_all add: h patch_head_eq [OF v])
  have "gv_schema v = kSchemaVersionV1" using valid(1) by (simp add: ValidateGraphVersion_def split: if_splits)
  then have "header_version h = v"
    using valid(2) by (intro GraphVersionV1.equality)
      (simp_all add: header_version_def fields parts flag_defs flags_of_head(3,4) [OF f])
  then show "FullVersionHeader h" by (simp add: FullVersionHeader_def valid)
  have "\<not> Zero (gv_documentSessionId v)" "\<not> Zero (gv_graphId v)" "gv_profileBits v \<noteq> 0" "gv_semanticRevision v \<noteq> 0"
    "gv_layoutRevision v \<noteq> 0" "gv_locatorEpoch v \<noteq> 0"
    using valid(1) v by (auto simp: certified_def ValidateGraphVersion_def IsRfc4122V4_def Zero_def IsZeroUuid_def split: if_splits)
  then show "FullVersionShape h"
    by (simp add: FullVersionShape_def fields parts)
  have "VersionFlags h = ((if gv_semanticCertified v then kFlagSemanticCertified else 0) OR
      (if gv_layoutPresent v then kFlagLayoutPresent else 0)) AND 33"
    by (simp add: flags valid version_flags_def flag_defs)
  then show "HeaderMatchesVersion h v"
    unfolding HeaderMatchesVersion_def ApplyVersionToHeader_def
    by (simp add: valid fields parts EqualHash_def VersionFlags_def empty_header_def flag_defs)
qed

subsection \<open>Frames\<close>

definition client_frame :: "(bytes \<Rightarrow> Sha256) \<Rightarrow> Header \<Rightarrow> Field list \<Rightarrow> bytes" where
  "client_frame sha h fs = the (EncodeFrame sha h (concat (map field_bytes fs)))"

definition client_chain :: "(bytes \<Rightarrow> Sha256) \<Rightarrow> Header \<Rightarrow> Field list \<Rightarrow> Sha256" where
  "client_chain sha h fs = fh_chainDigest (framed sha h (concat (map field_bytes fs)))"

lemma length_client_chain: "\<forall>x. length (sha x) = 32 \<Longrightarrow> length (client_chain sha h fs) = 32"
  by (simp add: client_chain_def framed_def frame_chain_def ChainDigest_def DomainParts_def Let_def)

lemma frame_decodes:
  assumes sha: "\<forall>x. length (sha x) = 32" and v: "certified v" and f: "flags \<in> patch_flags"
    and len: "length cursor = 16" "length previous = 32"
    and h: "h = patch_head v kind flags sequence offset declared cursor previous"
    and fs: "\<forall>f \<in> set fs. field_ok f" "sorted_wrt (<) (map fl_tag fs)" "length (concat (map field_bytes fs)) \<le> 4193984"
    and shape: "kind \<noteq> MK_GraphChunk" "\<And>h'. wired h h' \<Longrightarrow> message_shape kind (version_flags v) h' \<and> fields_shape kind h' fs"
  shows "\<exists>h'. wired h h' \<and> fh_chainDigest h' = client_chain sha h fs \<and>
    EncodeFrame sha h (concat (map field_bytes fs)) = Some (client_frame sha h fs) \<and>
    DecodeFrame sha (client_frame sha h fs) = Inr (h', concat (map field_bytes fs)) \<and>
    ParseFields (concat (map field_bytes fs)) = Some fs"
proof -
  let ?p = "concat (map field_bytes fs)"
  let ?h = "h\<lparr>fh_payloadBytes := size64 ?p\<rparr>"
  have w: "wired h ?h"
    unfolding wired_def by (intro exI [of _ "size64 ?p"] exI [of _ "fh_chunkDigest h"] exI [of _ "fh_chainDigest h"]) simp
  have wf: "wired h (framed sha h ?p)" by (auto simp: wired_def framed_def Let_def)
  have parse: "ParseFields ?p = Some fs" by (rule ParseFields_req [OF fs(1,2)])
  note facts = head_facts [OF v f w [unfolded h]]
  have "version_shape v" using v by (simp add: certified_def)
  then have "header_shape h"
    using len by (simp add: h patch_head_eq [OF v] header_shape_def version_shape_def)
  moreover have "sendable ?h ?p"
    using shape(1) shape(2) [OF w] facts(1,9,11) fs(3)
    by (simp add: sendable_def ValidateMessageShape_def ValidatePayloadShape_def parse h)
  moreover have "fh_payloadBytes h = 0" by (simp add: h patch_head_eq [OF v])
  ultimately obtain frame where "EncodeFrame sha h ?p = Some frame" "DecodeFrame sha frame = Inr (framed sha h ?p, ?p)"
    using Decode_sendable [OF sha, of h ?p] by blast
  then show ?thesis
    using wf parse by (auto simp: client_frame_def client_chain_def)
qed

subsection \<open>The fields of the requests\<close>

definition begin_fields :: "GraphVersionV1 \<Rightarrow> u64 \<Rightarrow> Sha256 \<Rightarrow> Field list" where
  "begin_fields v n d = [req_field 1 ST_UUID128 (gv_documentSessionId v), req_field 2 ST_Struct (wire_form v),
     req_field 3 ST_Uint64 (bytes64 n), req_field 4 ST_SHA256 d]"

definition chunk_fields :: "Uuid128 \<Rightarrow> u64 \<Rightarrow> bytes \<Rightarrow> Field list" where
  "chunk_fields i offset data = [req_field 1 ST_UUID128 i, req_field 2 ST_Uint64 (bytes64 offset),
     req_field 3 ST_Bytes (bytes64 (size64 data) @ data)]"

definition commit_fields :: "Uuid128 \<Rightarrow> u64 \<Rightarrow> Sha256 \<Rightarrow> Field list" where
  "commit_fields i n d = [req_field 1 ST_UUID128 i, req_field 2 ST_Uint64 (bytes64 n), req_field 3 ST_SHA256 d]"

definition validate_fields :: "Uuid128 \<Rightarrow> GraphVersionV1 \<Rightarrow> Field list" where
  "validate_fields i v = [req_field 1 ST_UUID128 i, req_field 2 ST_Struct (wire_form v)]"

lemmas upload_field_defs = begin_fields_def chunk_fields_def commit_fields_def validate_fields_def

lemma upload_fields_sorted:
  "sorted_wrt (<) (map fl_tag (begin_fields v n d))" "sorted_wrt (<) (map fl_tag (chunk_fields i offset data))"
  "sorted_wrt (<) (map fl_tag (commit_fields i n d))" "sorted_wrt (<) (map fl_tag (validate_fields i v))"
  by (simp_all add: upload_field_defs)

lemma find_upload_field:
  "Find_field (begin_fields v n d) 1 = Some (req_field 1 ST_UUID128 (gv_documentSessionId v))"
  "Find_field (begin_fields v n d) 2 = Some (req_field 2 ST_Struct (wire_form v))"
  "Find_field (begin_fields v n d) 3 = Some (req_field 3 ST_Uint64 (bytes64 n))"
  "Find_field (begin_fields v n d) 4 = Some (req_field 4 ST_SHA256 d)"
  "Find_field (chunk_fields i offset data) 1 = Some (req_field 1 ST_UUID128 i)"
  "Find_field (chunk_fields i offset data) 2 = Some (req_field 2 ST_Uint64 (bytes64 offset))"
  "Find_field (chunk_fields i offset data) 3 = Some (req_field 3 ST_Bytes (bytes64 (size64 data) @ data))"
  "Find_field (commit_fields i n d) 1 = Some (req_field 1 ST_UUID128 i)"
  "Find_field (commit_fields i n d) 2 = Some (req_field 2 ST_Uint64 (bytes64 n))"
  "Find_field (commit_fields i n d) 3 = Some (req_field 3 ST_SHA256 d)"
  "Find_field (validate_fields i v) 1 = Some (req_field 1 ST_UUID128 i)"
  "Find_field (validate_fields i v) 2 = Some (req_field 2 ST_Struct (wire_form v))"
  by (simp_all add: Find_field_def upload_field_defs)

lemma upload_tags:
  "Protocol_ExactTags (begin_fields v n d) [1, 2, 3, 4] []" "Protocol_ExactTags (chunk_fields i offset data) [1, 2, 3] []"
  "Protocol_ExactTags (commit_fields i n d) [1, 2, 3] []" "Protocol_ExactTags (validate_fields i v) [1, 2] []"
  by (simp_all add: Protocol_ExactTags_def find_upload_field) (simp_all add: upload_field_defs)

lemma canonical_upload_scalars:
  "length x = 16 \<Longrightarrow> ValidateCanonicalScalar ST_UUID128 x = CE_None"
  "length x = 32 \<Longrightarrow> ValidateCanonicalScalar ST_SHA256 x = CE_None"
  "length x = 8 \<Longrightarrow> ValidateCanonicalScalar ST_Uint64 x = CE_None"
  by (simp_all add: canonical_fixed FixedScalarBytes_def)

lemma upload_fields_ok:
  assumes "length i = 16" "length d = 32" "certified v" "length data < 2 ^ 63"
  shows "\<forall>f \<in> set (begin_fields v n d). field_ok f" "\<forall>f \<in> set (chunk_fields i offset data). field_ok f"
    "\<forall>f \<in> set (commit_fields i n d). field_ok f" "\<forall>f \<in> set (validate_fields i v). field_ok f"
proof -
  have v: "length (gv_documentSessionId v) = 16" "length (wire_form v) = 168"
    using assms(3) length_wire_form by (simp_all add: certified_def version_shape_def)
  have "ValidateCanonicalScalar ST_Bytes (bytes64 (size64 data) @ data) = CE_None"
    using canonical_BytesValue [of data] assms(4) by (simp add: BytesValue_def)
  then show "\<forall>f \<in> set (begin_fields v n d). field_ok f" "\<forall>f \<in> set (chunk_fields i offset data). field_ok f"
    "\<forall>f \<in> set (commit_fields i n d). field_ok f" "\<forall>f \<in> set (validate_fields i v). field_ok f"
    using assms v by (auto simp: upload_field_defs canonical_upload_scalars intro!: field_ok_req)
qed

subsection \<open>The requests\<close>

definition begin_head :: "GraphVersionV1 \<Rightarrow> u64 \<Rightarrow> Header" where
  "begin_head v n = patch_head v MK_PatchBeginRequest 16 0 0 n zero_uuid zero_digest"

definition chunk_head :: "GraphVersionV1 \<Rightarrow> Uuid128 \<Rightarrow> u64 \<Rightarrow> Sha256 \<Rightarrow> u64 \<Rightarrow> u64 \<Rightarrow> bool \<Rightarrow> Header" where
  "chunk_head v i sequence previous offset n fragmented =
     patch_head v MK_PatchChunkRequest (if fragmented then 24 else 16) sequence offset n i previous"

definition commit_head :: "GraphVersionV1 \<Rightarrow> Uuid128 \<Rightarrow> u64 \<Rightarrow> Sha256 \<Rightarrow> u64 \<Rightarrow> Header" where
  "commit_head v i sequence previous n = patch_head v MK_PatchCommitRequest 18 sequence n n i previous"

definition validate_head :: "GraphVersionV1 \<Rightarrow> Uuid128 \<Rightarrow> Header" where
  "validate_head v i = patch_head v MK_PatchValidateRequest 16 0 0 0 i zero_digest"

lemma not_Zero_proper: "proper_id i \<Longrightarrow> length i = 16 \<and> \<not> Zero i"
  by (simp add: proper_id_def IsRfc4122V4_def IsZeroUuid_def Zero_def)

lemma certified_facts:
  assumes "certified v"
  shows "proper_id (gv_documentSessionId v)" "ValidateGraphVersion v = GV_None" "version_shape v" "gv_semanticCertified v"
    "DeserializeGraphVersion (wire_form v) = Inr v"
  using assms Deserialize_wire_form
  by (auto simp: certified_def version_shape_def proper_id_def ValidateGraphVersion_def split: if_splits)

lemma ReadVersion_wire: "certified v \<Longrightarrow> ReadVersion (Some (req_field 2 ST_Struct (wire_form v))) True = Some v"
  by (simp add: ReadVersion_def certified_facts)

lemma request_ReadId: "proper_id i \<Longrightarrow> Protocol_ReadId (Some (req_field tag ST_UUID128 i)) = Some i"
  using not_Zero_proper [of i] by (simp add: Protocol_ReadId_def Let_def)

lemma request_parses:
  assumes "wired h h'" "fh_message h' = kind" "DecodeFrame sha frame = Inr (h', p)" "ParseFields p = Some fs"
  shows "ParseRequest sha frame kind = Inr (h', fs)"
  using assms by (simp add: ParseRequest_def)

lemma Zero_constants [simp]: "Zero zero_uuid" "Zero zero_digest" "length zero_uuid = 16"
  by (simp_all add: zero_uuid_def zero_digest_def)

lemma zero_digest_length [simp]: "length zero_digest = 32"
  by (simp add: zero_digest_def)

lemma begin_parses:
  assumes sha: "\<forall>x. length (sha x) = 32" and v: "certified v" and d: "length d = 32"
  obtains h where "fh_chainDigest h = client_chain sha (begin_head v n) (begin_fields v n d)"
    "ParseRequest sha (client_frame sha (begin_head v n) (begin_fields v n d)) MK_PatchBeginRequest = Inr (h, begin_fields v n d)"
    "begin_values h (begin_fields v n d) = Some (v, n, d)"
proof -
  have id: "length zero_uuid = 16" by simp
  have f: "16 \<in> patch_flags" by (simp add: patch_flags_def)
  have shape: "message_shape MK_PatchBeginRequest (version_flags v) h \<and> fields_shape MK_PatchBeginRequest h (begin_fields v n d)"
    if "wired (begin_head v n) h" for h
    using head_facts [OF v f that [unfolded begin_head_def]] certified_facts(1) [OF v] d
    by (simp add: Independent_def find_upload_field upload_tags FieldIdEquals_def FieldU64Equals_def PayloadVersion_def
        ReadVersion_wire [OF v] proper_id_def flag_defs)
  have "length (wire_form v) = 168" using length_wire_form certified_facts(3) [OF v] by blast
  then have small: "length (concat (map field_bytes (begin_fields v n d))) \<le> 4193984"
    using certified_facts(1) [OF v] d by (simp add: begin_fields_def proper_id_def)
  obtain h where w: "wired (begin_head v n) h" and h: "fh_chainDigest h = client_chain sha (begin_head v n) (begin_fields v n d)"
    "DecodeFrame sha (client_frame sha (begin_head v n) (begin_fields v n d)) = Inr (h, concat (map field_bytes (begin_fields v n d)))"
    "ParseFields (concat (map field_bytes (begin_fields v n d))) = Some (begin_fields v n d)"
    using frame_decodes [OF sha v f _ _ begin_head_def upload_fields_ok(1) [OF id d v, of "[]"] upload_fields_sorted(1) small _ shape]
    by auto
  note facts = head_facts [OF v f w [unfolded begin_head_def]]
  have "begin_values h (begin_fields v n d) = Some (v, n, d)"
    using facts certified_facts [OF v] d
    by (simp add: begin_values_def find_upload_field ReadVersion_wire [OF v] request_ReadId ReadDigest_def EqualUuid_def Let_def)
  with that h request_parses [OF w facts(1) h(2,3)] show thesis by blast
qed

lemma chunk_parses:
  assumes sha: "\<forall>x. length (sha x) = 32" and v: "certified v" and i: "proper_id i" and previous: "length previous = 32"
    and range: "length data \<le> 4193880" "offset \<le> n" "size64 data \<le> n - offset"
    and h: "head = chunk_head v i sequence previous offset n (offset + size64 data < n)"
  obtains h where "wired head h" "fh_chainDigest h = client_chain sha head (chunk_fields i offset data)"
    "ParseRequest sha (client_frame sha head (chunk_fields i offset data)) MK_PatchChunkRequest = Inr (h, chunk_fields i offset data)"
    "chunk_values (chunk_fields i offset data) = Some (i, offset, data)"
proof -
  let ?f = "if offset + size64 data < n then 24 else 16 :: u32"
  have f: "?f \<in> patch_flags" by (simp add: patch_flags_def)
  have id: "length i = 16" "\<not> Zero i" using not_Zero_proper [OF i] by simp_all
  have size: "unat (size64 data) = length data" using range(1) by (intro unat_size64) simp
  have shape: "message_shape MK_PatchChunkRequest (version_flags v) h \<and> fields_shape MK_PatchChunkRequest h (chunk_fields i offset data)"
    if "wired head h" for h
    using head_facts [OF v f that [unfolded h chunk_head_def]] id range(2,3) flags_of_head(5) [OF f, of v] size
    by (auto simp: find_upload_field upload_tags FieldIdEquals_def FieldU64Equals_def patch_chunk_payload_def counted_bytes_def
        flag_defs Let_def version_flags_def)
  have "length data < 2 ^ 63" using range(1) by simp
  note ok = upload_fields_ok(2) [OF id(1) zero_digest_length v this]
  have small: "length (concat (map field_bytes (chunk_fields i offset data))) \<le> 4193984"
    using id(1) range(1) by (simp add: chunk_fields_def)
  obtain h' where w: "wired head h'" and d: "fh_chainDigest h' = client_chain sha head (chunk_fields i offset data)"
    "DecodeFrame sha (client_frame sha head (chunk_fields i offset data)) = Inr (h', concat (map field_bytes (chunk_fields i offset data)))"
    "ParseFields (concat (map field_bytes (chunk_fields i offset data))) = Some (chunk_fields i offset data)"
    using frame_decodes [OF sha v f id(1) previous h [unfolded chunk_head_def] ok upload_fields_sorted(2) small _ shape] by auto
  have "chunk_values (chunk_fields i offset data) = Some (i, offset, data)"
    using size by (simp add: chunk_values_def find_upload_field request_ReadId [OF i])
  then show thesis
    using that [OF w d(1) request_parses [OF w head_facts(1) [OF v f w [unfolded h chunk_head_def]] d(2,3)]] by blast
qed

lemma commit_parses:
  assumes sha: "\<forall>x. length (sha x) = 32" and v: "certified v" and i: "proper_id i" and previous: "length previous = 32"
    and d: "length d = 32" and h: "head = commit_head v i sequence previous n"
  obtains h where "wired head h" "fh_chainDigest h = client_chain sha head (commit_fields i n d)"
    "ParseRequest sha (client_frame sha head (commit_fields i n d)) MK_PatchCommitRequest = Inr (h, commit_fields i n d)"
    "commit_values (commit_fields i n d) = Some (i, n, d)"
proof -
  have f: "18 \<in> patch_flags" by (simp add: patch_flags_def)
  have id: "length i = 16" "\<not> Zero i" using not_Zero_proper [OF i] by simp_all
  have shape: "message_shape MK_PatchCommitRequest (version_flags v) h \<and> fields_shape MK_PatchCommitRequest h (commit_fields i n d)"
    if "wired head h" for h
    using head_facts [OF v f that [unfolded h commit_head_def]] id d flags_of_head(5) [OF f, of v]
    by (simp add: find_upload_field upload_tags FieldIdEquals_def FieldU64Equals_def flag_defs)
  have small: "length (concat (map field_bytes (commit_fields i n d))) \<le> 4193984"
    using id(1) d by (simp add: commit_fields_def)
  obtain h' where w: "wired head h'" and c: "fh_chainDigest h' = client_chain sha head (commit_fields i n d)"
    "DecodeFrame sha (client_frame sha head (commit_fields i n d)) = Inr (h', concat (map field_bytes (commit_fields i n d)))"
    "ParseFields (concat (map field_bytes (commit_fields i n d))) = Some (commit_fields i n d)"
    using frame_decodes [OF sha v f id(1) previous h [unfolded commit_head_def] upload_fields_ok(3) [OF id(1) d v, of "[]"]
      upload_fields_sorted(3) small _ shape] by auto
  have "commit_values (commit_fields i n d) = Some (i, n, d)"
    using d by (simp add: commit_values_def find_upload_field request_ReadId [OF i] ReadDigest_def)
  then show thesis
    using that [OF w c(1) request_parses [OF w head_facts(1) [OF v f w [unfolded h commit_head_def]] c(2,3)]] by blast
qed

lemma validate_parses:
  assumes sha: "\<forall>x. length (sha x) = 32" and v: "certified v" and i: "proper_id i"
  obtains h where
    "ParseRequest sha (client_frame sha (validate_head v i) (validate_fields i v)) MK_PatchValidateRequest = Inr (h, validate_fields i v)"
    "validate_values h (validate_fields i v) = Some (i, v)"
proof -
  have f: "16 \<in> patch_flags" by (simp add: patch_flags_def)
  have id: "length i = 16" "\<not> Zero i" using not_Zero_proper [OF i] by simp_all
  have shape: "message_shape MK_PatchValidateRequest (version_flags v) h \<and> fields_shape MK_PatchValidateRequest h (validate_fields i v)"
    if "wired (validate_head v i) h" for h
    using head_facts [OF v f that [unfolded validate_head_def]] id certified_facts(4) [OF v] flags_of_head(5) [OF f, of v]
    by (simp add: Independent_def find_upload_field upload_tags FieldIdEquals_def PayloadVersion_def ReadVersion_wire [OF v] flag_defs)
  have "length (wire_form v) = 168" using length_wire_form certified_facts(3) [OF v] by blast
  then have small: "length (concat (map field_bytes (validate_fields i v))) \<le> 4193984"
    using id(1) by (simp add: validate_fields_def)
  obtain h' where w: "wired (validate_head v i) h'"
    and c: "DecodeFrame sha (client_frame sha (validate_head v i) (validate_fields i v)) = Inr (h', concat (map field_bytes (validate_fields i v)))"
    "ParseFields (concat (map field_bytes (validate_fields i v))) = Some (validate_fields i v)"
    using frame_decodes [OF sha v f id(1) _ validate_head_def upload_fields_ok(4) [OF id(1) zero_digest_length v, of "[]"]
      upload_fields_sorted(4) small _ shape] by auto
  note facts = head_facts [OF v f w [unfolded validate_head_def]]
  have "validate_values h' (validate_fields i v) = Some (i, v)"
    using facts certified_facts(4) [OF v]
    by (simp add: validate_values_def find_upload_field ReadVersion_wire [OF v] request_ReadId [OF i] EqualUuid_def)
  then show thesis
    using that [OF request_parses [OF w facts(1) c]] by blast
qed

subsection \<open>The receipts\<close>

text \<open>Two receipts have to be encoded for the bridge to go on: that of \<open>PatchBegin\<close> and that of a validation.\<close>

lemma begin_receipt:
  assumes sha: "\<forall>x. length (sha x) = 32" and v: "certified (up_version u)" and i: "proper_id (up_id u)" and d: "length (up_expectedRaw u) = 32"
  shows "receipt_chain sha (Receipt sha (ResponseHeader MK_PatchBeginReceipt u 0 zero_digest)
    [uuid_field (up_id u), total_field (up_declaredTotal u), digest_field (up_expectedRaw u)]) \<noteq> None"
proof -
  let ?h = "ResponseHeader MK_PatchBeginReceipt u 0 zero_digest"
  let ?fs = "commit_fields (up_id u) (up_declaredTotal u) (up_expectedRaw u)"
  have f: "16 \<in> patch_flags" by (simp add: patch_flags_def)
  have id: "length (up_id u) = 16" "\<not> Zero (up_id u)" using not_Zero_proper [OF i] by simp_all
  have h: "?h = patch_head (up_version u) MK_PatchBeginReceipt 16 0 0 (up_declaredTotal u) (up_id u) zero_digest"
    by (simp add: ResponseHeader_def patch_head_def Let_def empty_header_def flag_defs split: option.splits)
  have shape: "message_shape MK_PatchBeginReceipt (version_flags (up_version u)) h' \<and> fields_shape MK_PatchBeginReceipt h' ?fs"
    if "wired ?h h'" for h'
    using head_facts [OF v f that [unfolded h]] id d flags_of_head(5) [OF f, of "up_version u"]
    by (simp add: Independent_def find_upload_field upload_tags FieldIdEquals_def FieldU64Equals_def flag_defs)
  note ok = upload_fields_ok(3) [OF id(1) d v, of "[]" "up_declaredTotal u"]
  have bytes: "concat [uuid_field (up_id u), total_field (up_declaredTotal u), digest_field (up_expectedRaw u)] = concat (map field_bytes ?fs)"
    using ok by (simp add: uuid_field_def total_field_def digest_field_def commit_fields_def EncodeField_req)
  have small: "length (concat (map field_bytes ?fs)) \<le> 4193984" using id(1) d by (simp add: commit_fields_def)
  obtain h' frame where "EncodeFrame sha ?h (concat (map field_bytes ?fs)) = Some frame"
    "DecodeFrame sha frame = Inr (h', concat (map field_bytes ?fs))"
    using frame_decodes [OF sha v f id(1) _ h ok upload_fields_sorted(3) small _ shape] by auto
  then show ?thesis
    unfolding Receipt_def bytes receipt_chain_def by simp
qed

definition receipt_fields :: "Uuid128 \<Rightarrow> Sha256 \<Rightarrow> u64 \<Rightarrow> Sha256 \<Rightarrow> Field list" where
  "receipt_fields i c n d = [req_field 1 ST_UUID128 i, req_field 2 ST_Uint8 [2], req_field 3 ST_SHA256 c,
     req_field 4 ST_Uint64 (bytes64 n), req_field 5 ST_SHA256 d]"

lemma receipt_find:
  "Find_field (receipt_fields i c n d) 1 = Some (req_field 1 ST_UUID128 i)"
  "Find_field (receipt_fields i c n d) 2 = Some (req_field 2 ST_Uint8 [2])"
  "Find_field (receipt_fields i c n d) 3 = Some (req_field 3 ST_SHA256 c)"
  "Find_field (receipt_fields i c n d) 4 = Some (req_field 4 ST_Uint64 (bytes64 n))"
  "Find_field (receipt_fields i c n d) 5 = Some (req_field 5 ST_SHA256 d)"
  by (simp_all add: Find_field_def receipt_fields_def)

lemma receipt_tags: "Protocol_ExactTags (receipt_fields i c n d) [1, 2, 3, 4, 5] []"
  by (simp add: Protocol_ExactTags_def receipt_find) (simp add: receipt_fields_def)

lemma validation_receipt_encodes:
  assumes sha: "\<forall>x. length (sha x) = 32" and v: "certified (up_version u)" and i: "proper_id (up_id u)"
    and d: "length (sv_canonicalDigest r) = 32" "length (sv_inverseDigest r) = 32"
  obtains response where "validation_receipt sha u r = Inr response"
proof -
  let ?fs = "receipt_fields (up_id u) (sv_canonicalDigest r) (sv_operationCount r) (sv_inverseDigest r)"
  let ?h = "patch_head (up_version u) MK_PatchValidationReceipt 18 0 0 0 (up_id u) zero_digest"
  have f: "18 \<in> patch_flags" by (simp add: patch_flags_def)
  have id: "length (up_id u) = 16" "\<not> Zero (up_id u)" "ValidId (up_id u)"
    using not_Zero_proper [OF i] i by (simp_all add: ValidId_def proper_id_def)
  have "ValidateCanonicalScalar ST_Uint8 [2] = CE_None" by (simp add: canonical_fixed FixedScalarBytes_def)
  then have ok: "\<forall>f \<in> set ?fs. field_ok f"
    using id(1) d by (auto simp: receipt_fields_def canonical_upload_scalars intro!: field_ok_req)
  have payload: "EncodeValidationReceiptPayloadV1 (up_id u) (sv_canonicalDigest r) (sv_operationCount r) (sv_inverseDigest r) =
      Some (concat (map field_bytes ?fs))"
    using ok id(3) by (simp add: EncodeValidationReceiptPayloadV1_def receipt_fields_def EncodeField_req)
  have head: "ApplyVersionToHeader (up_version u) (empty_header\<lparr>fh_message := MK_PatchValidationReceipt,
      fh_flags := kFlagPatch OR kFlagTerminal, fh_cursorOrUpload := up_id u\<rparr>) = Some ?h"
    using certified_facts(2) [OF v]
    by (simp add: patch_head_def Let_def ApplyVersionToHeader_def empty_header_def flag_defs)
  have shape: "message_shape MK_PatchValidationReceipt (version_flags (up_version u)) h' \<and> fields_shape MK_PatchValidationReceipt h' ?fs"
    if "wired ?h h'" for h'
    using head_facts [OF v f that] id d flags_of_head(5) [OF f, of "up_version u"]
    by (simp add: Independent_def receipt_find receipt_tags FieldIdEquals_def flag_defs)
  have small: "length (concat (map field_bytes ?fs)) \<le> 4193984" using id(1) d by (simp add: receipt_fields_def)
  have "sorted_wrt (<) (map fl_tag ?fs)" by (simp add: receipt_fields_def)
  then obtain frame where "EncodeFrame sha ?h (concat (map field_bytes ?fs)) = Some frame"
    using frame_decodes [OF sha v f id(1) zero_digest_length refl [of ?h] ok _ small _ shape] by auto
  then show thesis
    using that by (simp add: validation_receipt_def payload head)
qed

subsection \<open>A file system that works\<close>

definition working :: "'f FileOps \<Rightarrow> ('f \<Rightarrow> wstring \<Rightarrow> bytes option) \<Rightarrow> bool" where
  "working fo content \<longleftrightarrow> lawful fo content \<and> (\<forall>p f. fst (fo_directory fo p f)) \<and>
     (\<forall>p f. content f p = None \<longrightarrow> fst (fo_create fo p f)) \<and>
     (\<forall>p f. content f p \<noteq> None \<longrightarrow> fo_openRead fo p f \<and> fo_openAppend fo p f) \<and>
     (\<forall>p x f. content f p \<noteq> None \<longrightarrow> (\<exists>f'. fo_write fo p x f = (True, length x, f'))) \<and>
     (\<forall>p f. fst (fo_flush fo p f)) \<and>
     (\<forall>p off n f y. content f p = Some y \<longrightarrow> fo_read fo p off n f = Some (take n (drop off y))) \<and>
     (\<forall>p q f. content f p \<noteq> None \<longrightarrow> content f q = None \<longrightarrow> fst (fo_move fo p q f))"

lemmas workingD =
  working_def [THEN iffD1, THEN conjunct1, rule_format]
  working_def [THEN iffD1, THEN conjunct2, THEN conjunct1, rule_format]
  working_def [THEN iffD1, THEN conjunct2, THEN conjunct2, THEN conjunct1, rule_format]
  working_def [THEN iffD1, THEN conjunct2, THEN conjunct2, THEN conjunct2, THEN conjunct1, rule_format]
  working_def [THEN iffD1, THEN conjunct2, THEN conjunct2, THEN conjunct2, THEN conjunct2, THEN conjunct1, rule_format]
  working_def [THEN iffD1, THEN conjunct2, THEN conjunct2, THEN conjunct2, THEN conjunct2, THEN conjunct2, THEN conjunct1, rule_format]
  working_def [THEN iffD1, THEN conjunct2, THEN conjunct2, THEN conjunct2, THEN conjunct2, THEN conjunct2, THEN conjunct2, THEN conjunct1, rule_format]
  working_def [THEN iffD1, THEN conjunct2, THEN conjunct2, THEN conjunct2, THEN conjunct2, THEN conjunct2, THEN conjunct2, THEN conjunct2, rule_format]

lemmas working_lawful = workingD(1)

lemma read_loop_complete:
  assumes w: "working fo content" and y: "content f p = Some y"
  shows "at + n \<le> length y \<Longrightarrow> read_loop fo p at n f = Some (take n (drop at y))"
proof (induction n arbitrary: at rule: less_induct)
  case (less n)
  show ?case
  proof (cases "n = 0")
    case False
    define m where "m = min n 1048576"
    have m: "0 < m" "m \<le> n" using False by (simp_all add: m_def)
    have "fo_read fo p at m f = Some (take m (drop at y))"
      using w y unfolding working_def by blast
    moreover have "read_loop fo p (at + m) (n - m) f = Some (take (n - m) (drop (at + m) y))"
      using m less.prems by (intro less.IH) simp_all
    ultimately show ?thesis
      using False m less.prems take_add [of m "n - m" "drop at y"]
      by (subst read_loop.simps) (simp add: m_def [symmetric] Let_def add.commute)
  qed (simp add: read_loop.simps)
qed

lemma append_file_complete:
  assumes w: "working fo content" and y: "content f p = Some y" and n: "length data \<le> 4193880"
  obtains g where "append_file fo p data f = (True, g)" "content g = (content f)(p \<mapsto> y @ data)"
proof -
  obtain f1 where f1: "fo_write fo p data f = (True, length data, f1)" using w y unfolding working_def by blast
  obtain ok g where g: "fo_flush fo p f1 = (ok, g)" by fastforce
  moreover have "fst (fo_flush fo p f1)" using w unfolding working_def by blast
  ultimately have a: "append_file fo p data f = (True, g)" using f1 n by (simp add: append_file_def)
  obtain k where "content g = (content f)(p \<mapsto> y @ take k data)" "k = length data"
    using append_file_content [OF working_lawful [OF w] y a] by blast
  then show thesis using that [OF a] by simp
qed

subsection \<open>The client\<close>

fun send_chunks :: "(bytes \<Rightarrow> Sha256) \<Rightarrow> 'f FileOps \<Rightarrow> GraphVersionV1 \<Rightarrow> Route \<Rightarrow> Uuid128 \<Rightarrow> u64 \<Rightarrow> u64 \<Rightarrow> u64 \<Rightarrow> Sha256 \<Rightarrow> bytes list \<Rightarrow>
    Registry \<Rightarrow> 'f \<Rightarrow> u64 \<times> Sha256 \<times> Registry \<times> 'f" where
  "send_chunks sha fo v route i n offset sequence previous [] rg f = (sequence, previous, rg, f)"
| "send_chunks sha fo v route i n offset sequence previous (x # xs) rg f =
    (let head = chunk_head v i sequence previous offset n (offset + size64 x < n); fs = chunk_fields i offset x
     in case ProcessPatchRequest sha fo None MK_PatchChunkRequest (client_frame sha head fs) route rg f of (response, rg, f) \<Rightarrow>
       send_chunks sha fo v route i n (offset + size64 x) (sequence + 1) (client_chain sha head fs) xs rg f)"

definition upload_patch :: "(bytes \<Rightarrow> Sha256) \<Rightarrow> 'f FileOps \<Rightarrow> u8 list \<Rightarrow> GraphVersionV1 \<Rightarrow> Route \<Rightarrow> bytes list \<Rightarrow> Registry \<Rightarrow> 'f \<Rightarrow>
    Registry \<times> 'f" where
  "upload_patch sha fo random v route chunks rg f =
    (let n = size64 (concat chunks); d = sha (kPatchRawDomain @ concat chunks); i = MintUuid (Some random);
         head = begin_head v n; fs = begin_fields v n d
     in case ProcessPatchRequest sha fo (Some random) MK_PatchBeginRequest (client_frame sha head fs) route rg f of (_, rg, f) \<Rightarrow>
        case send_chunks sha fo v route i n 0 1 (client_chain sha head fs) chunks rg f of (sequence, previous, rg, f) \<Rightarrow>
        let frame = client_frame sha (commit_head v i sequence previous n) (commit_fields i n d)
        in snd (ProcessPatchRequest sha fo None MK_PatchCommitRequest frame route rg f))"

definition validate_patch :: "(bytes \<Rightarrow> Sha256) \<Rightarrow> 'f FileOps \<Rightarrow> GraphVersionV1 \<Rightarrow> Route \<Rightarrow> Uuid128 \<Rightarrow> Registry \<Rightarrow> 'f \<Rightarrow> Registry \<times> 'f" where
  "validate_patch sha fo v route i rg f =
    snd (ProcessPatchRequest sha fo None MK_PatchValidateRequest (client_frame sha (validate_head v i) (validate_fields i v)) route rg f)"

text \<open>An open upload as its client knows it: what was sent, and where its sequence of requests is.\<close>

definition in_upload :: "Registry \<Rightarrow> Upload \<Rightarrow> GraphVersionV1 \<Rightarrow> Route \<Rightarrow> Uuid128 \<Rightarrow> u64 \<Rightarrow> Sha256 \<Rightarrow> u64 \<Rightarrow> Sha256 \<Rightarrow> bool" where
  "in_upload rg u v route i n d sequence previous \<longleftrightarrow> map_of (rg_uploads rg) i = Some u \<and> up_id u = i \<and> up_version u = v \<and>
     up_route u = route \<and> up_declaredTotal u = n \<and> up_expectedRaw u = d \<and> up_nextRequestSequence u = sequence \<and>
     up_previousRequestChain u = previous \<and> up_state u = Up_Open \<and> up_path u = open_path (rg_root rg) i"

lemma map_of_store: "map_of (rg_uploads (store_upload u rg)) j = (if j = up_id u then Some u else map_of (rg_uploads rg) j)"
  by (simp add: store_upload_def update_conv')

lemma store_keeps [simp]: "rg_sessions (store_upload u rg) = rg_sessions rg" "rg_root (store_upload u rg) = rg_root rg"
  by (simp_all add: store_upload_def)

lemma begin_served:
  assumes w: "working fo content" and sha: "\<forall>x. length (sha x) = 32" and v: "certified v" and d: "length d = 32"
    and fresh: "map_of (rg_uploads rg) i = None" "content f (open_path (rg_root rg) i) = None" "rg_root rg \<noteq> []" "i = MintUuid (Some random)"
  obtains u response rg' f' where
    "ProcessPatchRequest sha fo (Some random) MK_PatchBeginRequest (client_frame sha (begin_head v n) (begin_fields v n d)) route rg f =
       (response, rg', f')"
    "in_upload rg' u v route i n d 1 (client_chain sha (begin_head v n) (begin_fields v n d))" "up_accepted u = 0"
    "rg_sessions rg' = rg_sessions rg" "rg_root rg' = rg_root rg" "content f' = (content f)(open_path (rg_root rg) i \<mapsto> [])"
proof -
  let ?frame = "client_frame sha (begin_head v n) (begin_fields v n d)"
  obtain h where chain: "fh_chainDigest h = client_chain sha (begin_head v n) (begin_fields v n d)"
    and parse: "ParseRequest sha ?frame MK_PatchBeginRequest = Inr (h, begin_fields v n d)"
    and vals: "begin_values h (begin_fields v n d) = Some (v, n, d)"
    using begin_parses [OF sha v d] by blast
  have i: "proper_id i" unfolding fresh(4) using stamp_version_proper by (simp add: MintUuid_def)
  let ?u = "new_upload (rg_root rg) i v route n d h"
  obtain g1 where g1: "EnsureStorage fo rg f = (True, g1)" "content g1 = content f"
  proof -
    obtain ok g where g: "fo_directory fo (rg_root rg) f = (ok, g)" by fastforce
    moreover have "fst (fo_directory fo (rg_root rg) f)" by (rule workingD(2) [OF w])
    ultimately show thesis
      using that [of g] lawfulD(1) [OF working_lawful [OF w] g] fresh(3) by (simp add: EnsureStorage_def)
  qed
  obtain g2 where g2: "fo_create fo (open_path (rg_root rg) i) g1 = (True, g2)" "content g2 = (content f)(open_path (rg_root rg) i \<mapsto> [])"
  proof -
    obtain ok g where g: "fo_create fo (open_path (rg_root rg) i) g1 = (ok, g)" by fastforce
    moreover have "fst (fo_create fo (open_path (rg_root rg) i) g1)"
      using w fresh(2) g1(2) unfolding working_def by metis
    ultimately show thesis
      using that [of g] lawfulD(2) [OF working_lawful [OF w] g] g1(2) by simp
  qed
  obtain c where c: "receipt_chain sha (Receipt sha (ResponseHeader MK_PatchBeginReceipt ?u 0 zero_digest)
      [uuid_field i, total_field n, digest_field d]) = Some c"
    using begin_receipt [OF sha, of ?u] v i d by (auto simp: new_upload_def)
  obtain response where "HandlePatchBegin sha fo (Some random) ?frame route rg f =
      (response, store_upload (?u\<lparr>up_previousResponseChain := c\<rparr>) rg, g2)"
    using parse vals g1(1) g2(1) c not_Zero_proper [OF i] fresh(1)
    by (simp add: HandlePatchBegin_def upload_tags finish_begin_def emplace_def Let_def new_upload_def flip: fresh(4))
  then show thesis
    using that [of response _ g2 "?u\<lparr>up_previousResponseChain := c\<rparr>"] chain g2(2)
    by (simp add: ProcessPatchRequest_def in_upload_def map_of_store new_upload_def)
qed

lemma chunk_served:
  assumes w: "working fo content" and sha: "\<forall>x. length (sha x) = 32" and v: "certified v" and i: "proper_id i" and previous: "length previous = 32"
    and u: "in_upload rg u v route i n d sequence previous" and y: "content f (open_path (rg_root rg) i) = Some y"
    and range: "x \<noteq> []" "length x \<le> 4193880" "up_accepted u \<le> n" "size64 x \<le> n - up_accepted u"
    and h: "head = chunk_head v i sequence previous (up_accepted u) n (up_accepted u + size64 x < n)"
  obtains u' response rg' f' where
    "ProcessPatchRequest sha fo None MK_PatchChunkRequest (client_frame sha head (chunk_fields i (up_accepted u) x)) route rg f = (response, rg', f')"
    "in_upload rg' u' v route i n d (sequence + 1) (client_chain sha head (chunk_fields i (up_accepted u) x))"
    "up_accepted u' = up_accepted u + size64 x" "rg_sessions rg' = rg_sessions rg" "rg_root rg' = rg_root rg"
    "content f' = (content f)(open_path (rg_root rg) i \<mapsto> y @ x)"
proof -
  let ?fs = "chunk_fields i (up_accepted u) x"
  obtain h' where wired: "wired head h'" and chain: "fh_chainDigest h' = client_chain sha head ?fs"
    and parse: "ParseRequest sha (client_frame sha head ?fs) MK_PatchChunkRequest = Inr (h', ?fs)"
    and vals: "chunk_values ?fs = Some (i, up_accepted u, x)"
    using chunk_parses [OF sha v i previous range(2-4) h] by blast
  let ?f = "if up_accepted u + size64 x < n then 24 else 16 :: u32"
  have f: "?f \<in> patch_flags" by (simp add: patch_flags_def)
  note facts = head_facts [OF v f wired [unfolded h chunk_head_def]]
  have U: "map_of (rg_uploads rg) i = Some u" "up_id u = i" "up_version u = v" "up_route u = route" "up_declaredTotal u = n"
    "up_expectedRaw u = d" "up_nextRequestSequence u = sequence" "up_previousRequestChain u = previous" "up_state u = Up_Open"
    "up_path u = open_path (rg_root rg) i"
    using u by (simp_all add: in_upload_def)
  have "size64 x \<noteq> 0"
    using range(1,2) unat_size64 [of x] by auto
  then have fine: "chunk_refusal u h' (up_accepted u) (size64 x) = None"
    using facts range(3,4) by (simp add: chunk_refusal_def U EqualUuid_def EqualHash_def version_flags_def flag_defs)
  obtain g where a: "append_file fo (open_path (rg_root rg) i) x f = (True, g)"
    and g: "content g = (content f)(open_path (rg_root rg) i \<mapsto> y @ x)"
    by (rule append_file_complete [OF w y range(2)])
  have "fo_openAppend fo (open_path (rg_root rg) i) f" using w y unfolding working_def by blast
  moreover obtain r rg' where r: "accept_bytes sha u h' (size64 x) rg = (r, rg')" by fastforce
  ultimately have out: "ProcessPatchRequest sha fo None MK_PatchChunkRequest (client_frame sha head ?fs) route rg f = (r, rg', g)"
    using parse vals fine a
    by (simp add: ProcessPatchRequest_def HandlePatchChunk_def upload_tags with_upload_def chunk_upload_def U)
  obtain u' where "in_upload rg' u' v route i n d (sequence + 1) (fh_chainDigest h')" "up_accepted u' = up_accepted u + size64 x"
    "rg_sessions rg' = rg_sessions rg" "rg_root rg' = rg_root rg"
    using r U by (auto simp: accept_bytes_def Let_def in_upload_def map_of_store split: option.splits)
  with that [OF out] g show thesis by (simp add: chain)
qed

text \<open>What a client that sends pieces relies on: the offset it counts is the number of bytes accepted.\<close>

lemma chunks_served:
  assumes w: "working fo content" and sha: "\<forall>x. length (sha x) = 32" and v: "certified v" and i: "proper_id i"
    and n: "unat n = length y + length (concat xs)" and pieces: "\<forall>x \<in> set xs. x \<noteq> [] \<and> length x \<le> 4193880"
    and u: "in_upload rg u v route i n d sequence previous" "length previous = 32" "up_accepted u = size64 y"
    and y: "content f (open_path (rg_root rg) i) = Some y"
  shows "\<exists>u' sequence' previous' rg' f'.
    send_chunks sha fo v route i n (up_accepted u) sequence previous xs rg f = (sequence', previous', rg', f') \<and>
    in_upload rg' u' v route i n d sequence' previous' \<and> length previous' = 32 \<and> up_accepted u' = n \<and>
    rg_sessions rg' = rg_sessions rg \<and> rg_root rg' = rg_root rg \<and>
    content f' = (content f)(open_path (rg_root rg) i \<mapsto> y @ concat xs)"
  using n pieces u y
proof (induction xs arbitrary: y sequence previous u rg f)
  case Nil
  then have len: "length y = unat n" by simp
  have "size64 y = n" unfolding size64_def len by simp
  with Nil show ?case by (intro exI [of _ u]) (simp add: fun_upd_idem)
next
  case (Cons x xs)
  have "unat n < 2 ^ 64" using unsigned_less [where 'b = 64 and 'a = nat, of n] by simp
  with Cons.prems(1) have small: "length y + length x \<le> unat n" "unat n < 2 ^ 64" by simp_all
  then have sizes: "unat (size64 y) = length y" "unat (size64 x) = length x" by (simp_all add: unat_size64)
  have le: "size64 y \<le> n" using small(1) by (simp add: word_le_nat_alt sizes)
  then have room: "size64 x \<le> n - size64 y" using small(1) by (simp add: word_le_nat_alt sizes unat_sub)
  have sum: "size64 y + size64 x = size64 (y @ x)" by (simp add: size64_def)
  have x: "x \<noteq> []" "length x \<le> 4193880" "up_accepted u \<le> n" "size64 x \<le> n - up_accepted u"
    using Cons.prems(2,5) le room by simp_all
  define head where "head = chunk_head v i sequence previous (up_accepted u) n (up_accepted u + size64 x < n)"
  obtain u' response rg' f' where served:
    "ProcessPatchRequest sha fo None MK_PatchChunkRequest (client_frame sha head (chunk_fields i (up_accepted u) x)) route rg f = (response, rg', f')"
    "in_upload rg' u' v route i n d (sequence + 1) (client_chain sha head (chunk_fields i (up_accepted u) x))"
    "up_accepted u' = up_accepted u + size64 x" "rg_sessions rg' = rg_sessions rg" "rg_root rg' = rg_root rg"
    "content f' = (content f)(open_path (rg_root rg) i \<mapsto> y @ x)"
    by (rule chunk_served [OF w sha v i Cons.prems(4,3,6) x head_def])
  have left: "unat n = length (y @ x) + length (concat xs)" using Cons.prems(1) by simp
  have pieces: "\<forall>x \<in> set xs. x \<noteq> [] \<and> length x \<le> 4193880" using Cons.prems(2) by simp
  have held: "content f' (open_path (rg_root rg') i) = Some (y @ x)" by (simp add: served(5,6))
  have "up_accepted u' = size64 (y @ x)" using served(3) Cons.prems(5) sum by simp
  then obtain u2 s2 p2 rg2 f2 where rest:
    "send_chunks sha fo v route i n (up_accepted u') (sequence + 1) (client_chain sha head (chunk_fields i (up_accepted u) x)) xs rg' f' =
       (s2, p2, rg2, f2)"
    "in_upload rg2 u2 v route i n d s2 p2" "length p2 = 32" "up_accepted u2 = n" "rg_sessions rg2 = rg_sessions rg'"
    "rg_root rg2 = rg_root rg'" "content f2 = (content f')(open_path (rg_root rg') i \<mapsto> (y @ x) @ concat xs)"
    using Cons.IH [OF left pieces served(2) length_client_chain [OF sha] _ held] by blast
  have "send_chunks sha fo v route i n (up_accepted u) sequence previous (x # xs) rg f = (s2, p2, rg2, f2)"
    using served(1,3) rest(1) by (simp add: Let_def head_def [symmetric])
  moreover have "content f2 = (content f)(open_path (rg_root rg) i \<mapsto> y @ concat (x # xs))"
    by (simp add: rest(7) served(5,6))
  ultimately show ?case using rest(2-4) rest(5,6) [unfolded served(4,5)] by blast
qed

lemma commit_served:
  assumes w: "working fo content" and sha: "\<forall>x. length (sha x) = 32" and v: "certified v" and i: "proper_id i" and previous: "length previous = 32"
    and u: "in_upload rg u v route i n d sequence previous" "up_accepted u = n" and y: "content f (open_path (rg_root rg) i) = Some y"
    and n: "unat n = length y" and d: "d = sha (kPatchRawDomain @ y)"
    and free: "content f (sealed_path (open_path (rg_root rg) i)) = None"
  obtains u' rg' f' where
    "snd (ProcessPatchRequest sha fo None MK_PatchCommitRequest (client_frame sha (commit_head v i sequence previous n) (commit_fields i n d)) route rg f) =
       (rg', f')"
    "map_of (rg_uploads rg') i = Some u'" "up_state u' = Up_Sealed" "up_id u' = i" "up_version u' = v" "up_route u' = route"
    "up_declaredTotal u' = n" "up_expectedRaw u' = d" "content f' (up_path u') = Some y" "rg_sessions rg' = rg_sessions rg"
proof -
  let ?head = "commit_head v i sequence previous n" and ?fs = "commit_fields i n d"
  have "length d = 32" using sha d by simp
  then obtain h where wired: "wired ?head h" and parse: "ParseRequest sha (client_frame sha ?head ?fs) MK_PatchCommitRequest = Inr (h, ?fs)"
    and vals: "commit_values ?fs = Some (i, n, d)"
    using commit_parses [OF sha v i previous _ refl] by blast
  have f: "18 \<in> patch_flags" by (simp add: patch_flags_def)
  note facts = head_facts [OF v f wired [unfolded commit_head_def]]
  have U: "map_of (rg_uploads rg) i = Some u" "up_id u = i" "up_version u = v" "up_route u = route" "up_declaredTotal u = n"
    "up_expectedRaw u = d" "up_nextRequestSequence u = sequence" "up_previousRequestChain u = previous" "up_state u = Up_Open"
    "up_path u = open_path (rg_root rg) i"
    using u(1) by (simp_all add: in_upload_def)
  have fine: "commit_refusal u h n d = None"
    using facts by (simp add: commit_refusal_def U u(2) EqualUuid_def EqualHash_def)
  have "fo_openRead fo (up_path u) f" using workingD(4) [OF w] y U(10) by simp
  then have digest: "PatchDigestFile sha fo (up_path u) (up_accepted u) f = Some d"
    using read_loop_complete [OF w y, of 0 "length y"] by (simp add: PatchDigestFile_def U(10) u(2) n d)
  obtain moved g where m: "fo_move fo (up_path u) (sealed_path (up_path u)) f = (moved, g)" by fastforce
  have moved: "moved" using workingD(8) [OF w, of f "up_path u" "sealed_path (up_path u)"] y free m U(10) by simp
  have "up_path u \<noteq> sealed_path (up_path u)" using y free U(10) by auto
  then have g: "content g (sealed_path (up_path u)) = Some y"
    using lawfulD(6) [OF working_lawful [OF w] m] moved y U(10) by simp
  obtain r rg' e where out: "seal_upload sha fo u h d rg f = (r, rg', e)" by (metis prod_cases3)
  have e: "e = g" and "\<exists>u'. rg' = store_upload u' rg \<and> up_state u' = Up_Sealed \<and> up_id u' = i \<and> up_version u' = v \<and>
      up_route u' = route \<and> up_declaredTotal u' = n \<and> up_expectedRaw u' = d \<and> up_path u' = sealed_path (up_path u)"
    using out m moved U by (auto simp: seal_upload_def Let_def split: option.splits)
  then obtain u' where rg': "rg' = store_upload u' rg" "up_state u' = Up_Sealed" "up_id u' = i" "up_version u' = v"
    "up_route u' = route" "up_declaredTotal u' = n" "up_expectedRaw u' = d" "up_path u' = sealed_path (up_path u)"
    by blast
  have "snd (ProcessPatchRequest sha fo None MK_PatchCommitRequest (client_frame sha ?head ?fs) route rg f) = (rg', g)"
    using parse vals fine digest out
    by (simp add: ProcessPatchRequest_def HandlePatchCommit_def upload_tags with_upload_def commit_upload_def U EqualHash_def e)
  then show thesis
    using that rg' g by (simp add: map_of_store)
qed

lemma validate_served:
  assumes w: "working fo content" and sha: "\<forall>x. length (sha x) = 32" and v: "certified v" and i: "proper_id i"
    and u: "map_of (rg_uploads rg) i = Some u" "up_state u = Up_Sealed" "up_id u = i" "up_version u = v" "up_route u = route"
    and y: "content f (up_path u) = Some y" "unat (up_declaredTotal u) = length y" "length y < 2 ^ 62"
    and c: "find_session (gv_documentSessionId v) route rg = Some c" "cs_negotiatedBits c AND kCapabilityPatchValidate \<noteq> 0"
    and p: "ParseCanonicalPatchV1 y v = Inr p"
  shows "validate_patch sha fo v route i rg f = (store_upload (u\<lparr>up_state := Up_Validated\<rparr>) rg, f)"
proof -
  obtain h where parse: "ParseRequest sha (client_frame sha (validate_head v i) (validate_fields i v)) MK_PatchValidateRequest = Inr (h, validate_fields i v)"
    and vals: "validate_values h (validate_fields i v) = Some (i, v)"
    using validate_parses [OF sha v i] by blast
  have readable: "readable (patch_source fo u f) y"
    using workingD(7) [OF w y(1)] y(2) by (simp add: readable_def patch_source_def)
  then obtain r where r: "ParseSealedPatchV1 sha (patch_source fo u f) v = Inr r"
    using sealed_accepts [OF _ y(3) p] by blast
  obtain q ops where "r = sealed_result sha y q ops"
    using sealed_sound [OF readable_honest [OF readable] y(3) r] by blast
  then obtain response where "validation_receipt sha u r = Inr response"
    using validation_receipt_encodes [OF sha, of u r] v i u(3,4) sha by (auto simp: sealed_result_def)
  moreover have "PatchVersionCas v v"
    using version_cas_iff [of v v] certified_facts(2-4) [OF v] by simp
  moreover have "fo_openRead fo (up_path u) f" using workingD(4) [OF w] y(1) by simp
  ultimately show ?thesis
    using parse vals c u r
    by (simp add: validate_patch_def ProcessPatchRequest_def HandlePatchValidate_def upload_tags with_upload_def validate_upload_def)
qed

lemma upload_runs:
  assumes "working fo content" "\<forall>x. length (sha x) = 32" "certified v"
    and "\<forall>x \<in> set chunks. x \<noteq> [] \<and> length x \<le> 4193880" "length (concat chunks) < 2 ^ 62"
    and "i = MintUuid (Some random)" "map_of (rg_uploads rg) i = None" "rg_root rg \<noteq> []"
    and "content f (open_path (rg_root rg) i) = None" "content f (sealed_path (open_path (rg_root rg) i)) = None"
  shows "\<exists>rg' f' u. upload_patch sha fo random v route chunks rg f = (rg', f') \<and> map_of (rg_uploads rg') i = Some u \<and>
    up_state u = Up_Sealed \<and> up_version u = v \<and> up_declaredTotal u = size64 (concat chunks) \<and> up_id u = i \<and>
    content f' (up_path u) = Some (concat chunks) \<and>
    (\<forall>c p. find_session (gv_documentSessionId v) route rg = Some c \<longrightarrow> cs_negotiatedBits c AND kCapabilityPatchValidate \<noteq> 0 \<longrightarrow>
       ParseCanonicalPatchV1 (concat chunks) v = Inr p \<longrightarrow>
       validate_patch sha fo v route i rg' f' = (store_upload (u\<lparr>up_state := Up_Validated\<rparr>) rg', f'))"
proof -
  let ?b = "concat chunks" and ?n = "size64 (concat chunks)" and ?d = "sha (kPatchRawDomain @ concat chunks)"
  let ?head = "begin_head v ?n" and ?fs = "begin_fields v ?n ?d" and ?p = "open_path (rg_root rg) i"
  note w = assms(1) and sha = assms(2) and v = assms(3)
  have i: "proper_id i" unfolding assms(6) using stamp_version_proper by (simp add: MintUuid_def)
  have n: "unat ?n = length ?b" using assms(5) by (intro unat_size64) simp
  have d: "length ?d = 32" using sha by simp
  have apart: "?p \<noteq> sealed_path ?p"
    using upload_path_inj(2) [OF i i, of "rg_root rg" Up_Open Up_Sealed] by (auto simp: upload_path_def)
  obtain u1 r1 rg1 f1 where 1:
    "ProcessPatchRequest sha fo (Some random) MK_PatchBeginRequest (client_frame sha ?head ?fs) route rg f = (r1, rg1, f1)"
    "in_upload rg1 u1 v route i ?n ?d 1 (client_chain sha ?head ?fs)" "up_accepted u1 = 0"
    "rg_sessions rg1 = rg_sessions rg" "rg_root rg1 = rg_root rg" "content f1 = (content f)(?p \<mapsto> [])"
    by (rule begin_served [OF w sha v d assms(7) assms(9,8,6)])
  have "content f1 (open_path (rg_root rg1) i) = Some []" by (simp add: 1(5,6))
  then obtain u2 sequence previous rg2 f2 where 2:
    "send_chunks sha fo v route i ?n 0 1 (client_chain sha ?head ?fs) chunks rg1 f1 = (sequence, previous, rg2, f2)"
    "in_upload rg2 u2 v route i ?n ?d sequence previous" "length previous = 32" "up_accepted u2 = ?n"
    "rg_sessions rg2 = rg_sessions rg" "rg_root rg2 = rg_root rg" "content f2 = (content f)(?p \<mapsto> ?b)"
    using chunks_served [OF w sha v i _ assms(4) 1(2) length_client_chain [OF sha], of "[]" f1] n 1(3-6)
    by (auto simp: size64_def)
  have y: "content f2 (open_path (rg_root rg2) i) = Some ?b" "content f2 (sealed_path (open_path (rg_root rg2) i)) = None"
    using assms(10) apart by (simp_all add: 2(6,7))
  obtain u rg' f' where 3:
    "snd (ProcessPatchRequest sha fo None MK_PatchCommitRequest
      (client_frame sha (commit_head v i sequence previous ?n) (commit_fields i ?n ?d)) route rg2 f2) = (rg', f')"
    "map_of (rg_uploads rg') i = Some u" "up_state u = Up_Sealed" "up_id u = i" "up_version u = v" "up_route u = route"
    "up_declaredTotal u = ?n" "content f' (up_path u) = Some ?b" "rg_sessions rg' = rg_sessions rg"
    using commit_served [OF w sha v i 2(3,2,4) y(1) n refl y(2)] 2(5) by metis
  have run: "upload_patch sha fo random v route chunks rg f = (rg', f')"
    using 1(1) 2(1) 3(1) by (simp add: upload_patch_def Let_def flip: assms(6))
  have "validate_patch sha fo v route i rg' f' = (store_upload (u\<lparr>up_state := Up_Validated\<rparr>) rg', f')"
    if "find_session (gv_documentSessionId v) route rg = Some c" "cs_negotiatedBits c AND kCapabilityPatchValidate \<noteq> 0"
      "ParseCanonicalPatchV1 ?b v = Inr p" for c p
    using validate_served [OF w sha v i 3(2-6,8) _ assms(5) _ that(2,3)] that(1) 3(7,9) n by (simp add: find_session_def)
  with run 3(2-5,7,8) show ?thesis by blast
qed

text \<open>Claim C40. A client that follows the protocol gets its patch uploaded. On a file system that works, with an identity that is
  not in use, a patch of less than 2^62 bytes that is sent in non-empty pieces of at most 4193880 bytes (as many as
  fit in a frame) is sealed, and the file of the upload holds exactly its bytes; and where the session has the
  capability and the patch is canonical for its version, its validation succeeds.\<close>

theorem upload_completes:
  assumes "working fo content" "\<forall>x. length (sha x) = 32" "certified v"
    and "\<forall>x \<in> set chunks. x \<noteq> [] \<and> length x \<le> 4193880" "length (concat chunks) < 2 ^ 62"
    and "i = MintUuid (Some random)" "map_of (rg_uploads rg) i = None" "rg_root rg \<noteq> []"
    and "content f (open_path (rg_root rg) i) = None" "content f (sealed_path (open_path (rg_root rg) i)) = None"
  shows "\<exists>rg' f' u. upload_patch sha fo random v route chunks rg f = (rg', f') \<and> map_of (rg_uploads rg') i = Some u \<and>
    up_state u = Up_Sealed \<and> up_version u = v \<and> up_declaredTotal u = size64 (concat chunks) \<and> up_id u = i \<and>
    content f' (up_path u) = Some (concat chunks) \<and>
    (\<forall>c p. find_session (gv_documentSessionId v) route rg = Some c \<longrightarrow> cs_negotiatedBits c AND kCapabilityPatchValidate \<noteq> 0 \<longrightarrow>
       ParseCanonicalPatchV1 (concat chunks) v = Inr p \<longrightarrow>
       validate_patch sha fo v route i rg' f' = (store_upload (u\<lparr>up_state := Up_Validated\<rparr>) rg', f'))"
  by (rule upload_runs [OF assms])

subsection \<open>A run\<close>

text \<open>A disk in memory.\<close>

definition memory_files :: "(wstring \<Rightarrow> bytes option) FileOps" where
  "memory_files =
    \<lparr>fo_directory = (\<lambda>p f. (True, f)),
     fo_create = (\<lambda>p f. if f p = None then (True, f(p \<mapsto> [])) else (False, f)),
     fo_openRead = (\<lambda>p f. f p \<noteq> None), fo_openAppend = (\<lambda>p f. f p \<noteq> None),
     fo_write = (\<lambda>p x f. case f p of None \<Rightarrow> (False, 0, f) | Some y \<Rightarrow> (True, length x, f(p \<mapsto> y @ x))),
     fo_flush = (\<lambda>p f. (True, f)),
     fo_read = (\<lambda>p off n f. map_option (\<lambda>y. take n (drop off y)) (f p)),
     fo_move = (\<lambda>p q f. if f p \<noteq> None \<and> f q = None then (True, f(q := f p, p := None)) else (False, f)),
     fo_delete = (\<lambda>p f. f(p := None)),
     fo_remove_all = (\<lambda>dir f p. if inside dir p then None else f p)\<rparr>"

lemma memory_working: "working memory_files (\<lambda>f. f)"
  unfolding working_def lawful_def memory_files_def
  by (auto split: option.splits if_splits intro!: exI [of _ "length _"])

definition sample_route :: Route where
  "sample_route = \<lparr>rt_documentId = 7, rt_windowHandle = 9\<rparr>"

definition sample_session :: CapabilitySession where
  "sample_session = \<lparr>cs_id = gv_documentSessionId sample_version, cs_route = sample_route, cs_requestedBits = 32, cs_negotiatedBits = 32\<rparr>"

definition sample_registry :: Registry where
  "sample_registry = \<lparr>rg_root = L ''T'', rg_uploads = [], rg_cursors = [], rg_sessions = [sample_session]\<rparr>"

lemma sample_session_facts:
  "certified sample_version" "find_session (gv_documentSessionId sample_version) sample_route sample_registry = Some sample_session"
  "cs_negotiatedBits sample_session AND kCapabilityPatchValidate \<noteq> 0" "rg_root sample_registry \<noteq> []" "rg_uploads sample_registry = []"
proof -
  show "certified sample_version" unfolding certified_def by (intro conjI) code_simp+
  show "find_session (gv_documentSessionId sample_version) sample_route sample_registry = Some sample_session"
    by (simp add: find_session_def sample_registry_def sample_session_def EqualUuid_def)
  show "cs_negotiatedBits sample_session AND kCapabilityPatchValidate \<noteq> 0"
    by (simp add: sample_session_def kCapabilityPatchValidate_def)
  show "rg_root sample_registry \<noteq> []" "rg_uploads sample_registry = []" by (simp_all add: sample_registry_def L_def)
qed

lemma sample_hash_32: "\<forall>x. length (sample_hash x) = 32"
  by (simp add: sample_hash_def)

theorem upload_completes_witness:
  "\<exists>b rg f u. upload_patch sample_hash memory_files [] sample_version sample_route [b] sample_registry (\<lambda>_. None) = (rg, f) \<and>
     b \<noteq> [] \<and> map_of (rg_uploads rg) (MintUuid (Some [])) = Some u \<and> f (up_path u) = Some b \<and> up_state u = Up_Sealed \<and>
     validate_patch sample_hash memory_files sample_version sample_route (MintUuid (Some [])) rg f =
       (store_upload (u\<lparr>up_state := Up_Validated\<rparr>) rg, f)"
proof -
  obtain b where b: "ParseCanonicalPatchV1 b sample_version = Inr sample_text_patch" "length b < 1000" "b \<noteq> []"
    by (rule sample_patch_bytes)
  have "\<forall>x \<in> set [b]. x \<noteq> [] \<and> length x \<le> 4193880" "length (concat [b]) < 2 ^ 62" using b(2,3) by simp_all
  from upload_completes [OF memory_working sample_hash_32 sample_session_facts(1) this refl _ sample_session_facts(4),
      of "[]" "\<lambda>_. None" sample_route] b sample_session_facts
  show ?thesis by fastforce
qed

lemma send_chunks_reach:
  "upload_reach sha fo content root rg f \<Longrightarrow>
     send_chunks sha fo v route i n offset sequence previous xs rg f = (s, p, rg', f') \<Longrightarrow> upload_reach sha fo content root rg' f'"
proof (induction xs arbitrary: offset sequence previous rg f)
  case (Cons x xs)
  then show ?case
    using upload_reach.request [OF Cons.prems(1)] by (auto simp: Let_def split: prod.splits) blast
qed simp

lemma upload_patch_reach:
  assumes "upload_reach sha fo content root rg f" "upload_patch sha fo random v route chunks rg f = (rg', f')"
  shows "upload_reach sha fo content root rg' f'"
proof -
  obtain r1 rg1 f1 where 1: "ProcessPatchRequest sha fo (Some random) MK_PatchBeginRequest
      (client_frame sha (begin_head v (size64 (concat chunks))) (begin_fields v (size64 (concat chunks)) (sha (kPatchRawDomain @ concat chunks))))
      route rg f = (r1, rg1, f1)" by (metis prod_cases3)
  note reach1 = upload_reach.request [OF assms(1) 1]
  show ?thesis
  proof -
    obtain s p rg2 f2 where 2: "send_chunks sha fo v route (MintUuid (Some random)) (size64 (concat chunks)) 0 1 (client_chain sha
        (begin_head v (size64 (concat chunks))) (begin_fields v (size64 (concat chunks)) (sha (kPatchRawDomain @ concat chunks))))
        chunks rg1 f1 = (s, p, rg2, f2)" by (metis prod_cases4)
    have "snd (ProcessPatchRequest sha fo None MK_PatchCommitRequest
        (client_frame sha (commit_head v (MintUuid (Some random)) s p (size64 (concat chunks)))
          (commit_fields (MintUuid (Some random)) (size64 (concat chunks)) (sha (kPatchRawDomain @ concat chunks)))) route rg2 f2) = (rg', f')"
      using assms(2) by (simp add: upload_patch_def Let_def 1 2)
    then show ?thesis
      using upload_reach.request [OF send_chunks_reach [OF reach1 2]] by (metis prod.collapse snd_conv)
  qed
qed

lemma sample_registry_reach: "upload_reach sha memory_files content (L ''T'') sample_registry (\<lambda>_. None)"
proof -
  let ?rg = "\<lparr>rg_root = L ''T'', rg_uploads = [], rg_cursors = [], rg_sessions = []\<rparr>"
  have "Registry_StartupCleanup memory_files (L ''T'') (\<lambda>_. None) = (?rg, \<lambda>_. None)"
    by (simp add: Registry_StartupCleanup_def memory_files_def L_def)
  then have "upload_reach sha memory_files content (L ''T'') ?rg (\<lambda>_. None)" by (rule upload_reach.start)
  moreover have "IsRfc4122V4 (gv_documentSessionId sample_version)" by code_simp
  then have "NegotiateCapabilities (gv_documentSessionId sample_version) 32 sample_route ?rg = (CN_Negotiated, 32, sample_registry)"
    by (simp add: NegotiateCapabilities_def sample_registry_def sample_session_def kCapabilityBits_def kCapabilityGraphRead_def
        kCapabilityAssetRead_def kCapabilityPatchWrite_def kCapabilityPatchValidate_def)
  ultimately show ?thesis by (rule upload_reach.negotiate)
qed

lemma sample_upload_reach:
  obtains rg f u b where "upload_reach sample_hash memory_files (\<lambda>f. f) (L ''T'') rg f"
    "map_of (rg_uploads rg) (MintUuid (Some [])) = Some u" "up_state u = Up_Validated" "up_declaredTotal u < 2 ^ 62"
proof -
  obtain b where b: "ParseCanonicalPatchV1 b sample_version = Inr sample_text_patch" "length b < 1000" "b \<noteq> []"
    by (rule sample_patch_bytes)
  have pieces: "\<forall>x \<in> set [b]. x \<noteq> [] \<and> length x \<le> 4193880" "length (concat [b]) < 2 ^ 62" using b(2,3) by simp_all
  let ?i = "MintUuid (Some [])"
  obtain rg f u where up: "upload_patch sample_hash memory_files [] sample_version sample_route [b] sample_registry (\<lambda>_. None) = (rg, f)"
    "up_declaredTotal u = size64 b" "up_id u = ?i"
    and val: "validate_patch sample_hash memory_files sample_version sample_route ?i rg f = (store_upload (u\<lparr>up_state := Up_Validated\<rparr>) rg, f)"
    using upload_runs [OF memory_working sample_hash_32 sample_session_facts(1) pieces refl _ sample_session_facts(4),
      of "[]" "\<lambda>_. None" sample_route] b(1) sample_session_facts by fastforce
  have "upload_reach sample_hash memory_files (\<lambda>f. f) (L ''T'') (store_upload (u\<lparr>up_state := Up_Validated\<rparr>) rg) f"
    using upload_reach.request [OF upload_patch_reach [OF sample_registry_reach up(1)]] val
    unfolding validate_patch_def by (metis prod.collapse snd_conv)
  moreover have "size64 b < 2 ^ 62"
    using b(2) unat_size64 [of b] by (simp add: word_less_nat_alt)
  ultimately show thesis
    using that [of "store_upload (u\<lparr>up_state := Up_Validated\<rparr>) rg" f "u\<lparr>up_state := Up_Validated\<rparr>"] up(2,3)
    by (simp add: map_of_store)
qed

subsection \<open>What every upload holds\<close>

text \<open>Claim C39. Whatever the bridge has been asked, and whatever of the operating system has failed: every upload has
  its file, with at least the bytes that were accepted; a sealed or validated one has all the declared
  bytes, and they have the digest that was declared when the upload began; and the declared bytes of a
  validated one, below 2^62, are a canonical patch of the certified version it was begun for.\<close>

theorem upload_invariant:
  assumes "lawful fo content" "\<forall>x. length (sha x) = 32" "upload_reach sha fo content root rg f"
    and "map_of (rg_uploads rg) i = Some u"
  shows "gv_semanticCertified (up_version u) \<and> (\<exists>y. content f (up_path u) = Some y \<and>
    unat (up_accepted u) \<le> length y \<and> up_accepted u \<le> up_declaredTotal u \<and>
    (up_state u \<noteq> Up_Open \<longrightarrow> up_accepted u = up_declaredTotal u \<and>
       sha (kPatchRawDomain @ take (unat (up_declaredTotal u)) y) = up_expectedRaw u) \<and>
    (up_state u = Up_Validated \<longrightarrow> up_declaredTotal u < 2 ^ 62 \<longrightarrow>
       (\<exists>p. ParseCanonicalPatchV1 (take (unat (up_declaredTotal u)) y) (up_version u) = Inr p)))"
  using registry_okD(1) [OF reachable_ok [OF assms(1-3)] assms(4)]
  by (auto simp: upload_ok_def upload_shape_def holds_upload_def declared_part_def)

theorem upload_invariant_witness:
  "\<exists>rg f u y p. upload_reach sample_hash memory_files (\<lambda>f. f) (L ''T'') rg f \<and>
     map_of (rg_uploads rg) (MintUuid (Some [])) = Some u \<and> up_state u = Up_Validated \<and> f (up_path u) = Some y \<and>
     sample_hash (kPatchRawDomain @ take (unat (up_declaredTotal u)) y) = up_expectedRaw u \<and>
     ParseCanonicalPatchV1 (take (unat (up_declaredTotal u)) y) (up_version u) = Inr p"
proof -
  obtain rg f u b where run: "upload_reach sample_hash memory_files (\<lambda>f. f) (L ''T'') rg f"
    "map_of (rg_uploads rg) (MintUuid (Some [])) = Some u" "up_state u = Up_Validated" "up_declaredTotal u < 2 ^ 62"
    by (rule sample_upload_reach)
  from upload_invariant [OF working_lawful [OF memory_working] sample_hash_32 run(1,2)] run show ?thesis
    by (intro exI [of _ rg] exI [of _ f] exI [of _ u]) auto
qed

end
