(* ===== verification/Spec2Isabelle.thy ===== *)
theory Spec2Isabelle
  imports Prelude CellTopologyPlan SessionAliases GraphLifecycle MutationProperties Reconcile
    ActionProtocol BatchProtocol LayoutExecutor BridgeStatus TextPatchReadback PatchCodec GraphStream UploadClient
begin

text \<open>
  A verification library for the live bridge of the Hancom word processor, the C++ add-on under
  \<open>src/plugins/gsg-hwp/addon/HancomLiveBridgeNative\<close>. File names below are relative to that directory.

  \<^bold>\<open>The program.\<close> The bridge runs inside the word processor. A worker process sends it requests; the bridge
  reads or edits the live document through COM and answers. Four parts of it are decisions on data rather
  than calls of the word processor, and they are what is modelled here:

    \<^item> The \<^emph>\<open>document graph\<close>: a document is sent as a graph of records under stable identities. A session
      and a graph have version-4 UUIDs; a version of the graph carries counters and digests; nodes keep
      their identity across edits; the graph is sent in authenticated frames, and a patch of it comes
      back the same way.
    \<^item> The \<^emph>\<open>table topology\<close>: merged cells of a table as rectangles that tile a grid, and the plans of
      merges and selections on it.
    \<^item> The \<^emph>\<open>request protocols\<close>: scripts of edit actions, batches of table operations, and reference layouts
      (a table to be built or patched), each read from untrusted text and validated before anything is
      executed.
    \<^item> The \<^emph>\<open>status block\<close>: shared memory in which the bridge tells the worker what it does.

  \<^bold>\<open>How the model is written.\<close> Each C++ function is a HOL function of the same name with its state as argument
  and result; structs are records (fields carry a prefix of their record), enumerations are datatypes,
  error codes are the left side of a sum, out-parameters are results. Integers keep their width (\<open>u8\<close> to
  \<open>u64\<close> are words and wrap; \<open>LONG\<close> is a signed word); \<open>std::size_t\<close> of a container that is in memory is a natural
  number. Memory exhaustion (\<open>std::bad_alloc\<close>) and locks are not modelled: every function runs alone, as
  the locks of the source make it, except in \<open>BridgeStatus\<close>, where each store is a step.
  What the bridge takes from the system is an argument: the random bytes (\<open>fill\<close>), the SHA-256 of the
  operating system (\<open>sha\<close>), path canonicalisation, the character tables and the conversion of numbers and
  base64 (the record \<open>Runtime\<close>), the word processor as seen by a layout (the record \<open>Host\<close>), the file
  system as seen by an upload (the record \<open>FileOps\<close>), the clock.

  \<^bold>\<open>The theories.\<close>
\<close>

text \<open>
  Foundations.
    \<^item> \<open>Prelude\<close>: machine integers, wide strings and case folding, lemmas on lists and sums.
    \<^item> \<open>GraphSchema\<close> (DocumentGraphTypes.h, DocumentGraphSchema.h): enumerations, field tables, which fields a
      record kind must and may have, which node may be a child of which.
    \<^item> \<open>PropertyRegistry\<close> (DocumentGraphProperties.h): the table of properties and who may read or write them.

  Table topology.
    \<^item> \<open>CellAddress\<close> (CellTopology.cpp): spreadsheet addresses. The accumulators wrap at 64 bits, as the code's do.
    \<^item> \<open>CellTopology\<close> (CellTopology.cpp): \<open>Build\<close> and the queries. The theorems characterise the accepted tables
      (distinct addresses, an exact tiling of at most 200000 positions, consistent neighbours) and the
      answers of the queries; the locale \<open>cell_grid\<close> states what planning relies on, and the built
      topologies interpret it.
    \<^item> \<open>CellTopologyPlan\<close>: \<open>PlanRectangularMerge\<close>, \<open>PlanRectangularSelection\<close>; plans are sound, and every error
      says what it should.

  Identities.
    \<^item> \<open>GraphUuid\<close> (DocumentGraphIdentity.cpp): version-4 UUIDs, their text, minting with at most sixteen draws.
      The locale \<open>identity_history\<close> says that an identity once given up never returns; the graph lifecycle and
      the mutation identity interpret it.
    \<^item> \<open>GraphVersion\<close>: validity, the 168 bytes on the wire, compare and swap of versions.
    \<^item> \<open>GraphLifecycle\<close>: create, open, copy, save, publish, close; reachable states by rule induction.
    \<^item> \<open>SessionAliases\<close>: the registry of sessions refines a finite map from aliases to sessions.
    \<^item> \<open>MutationIdentity\<close>, \<open>MutationTable\<close>, \<open>MutationProperties\<close>: identities of nodes under insertion, deletion,
      move, clone, merge, split and table edits; the forest of parents stays acyclic, a tombstone never
      lives again, an applied set of cell transitions leaves an exact tiling.
    \<^item> \<open>Reconcile\<close>: \<open>ReconcileChildren\<close>, which matches the children of a reopened or externally edited node with
      the known ones.
\<close>

text \<open>
  The wire.
    \<^item> \<open>FieldCodec\<close> (DocumentGraphCodec.cpp, DocumentGraphProtocol.cpp): scalars, observations, fields and
      logical records, with exact codecs in both directions.
    \<^item> \<open>WireQuery\<close>, \<open>WireFragments\<close>, \<open>WireFrame\<close> (DocumentGraphProtocol.cpp): queries; the cutting of records into
      fragments and their reassembly; frames with their chunk and chain digests and the shape of each of
      the messages; capability and error replies.
    \<^item> \<open>StreamHash\<close>: the bridge's own SHA-256, equal to the standard's on every way of cutting the input.
      The padding loop ends because a block with fewer than 64 bytes moves towards 56.
    \<^item> \<open>GraphStream\<close>: \<open>AcceptGraphResponseFrame\<close>, the reader of a stream of frames: order, completeness and
      integrity of what it accepts, over any sequence of calls (\<open>stream_run\<close>).
    \<^item> \<open>GraphPatch\<close>, \<open>PatchCodec\<close> (DocumentGraphPatch.cpp): normal form and inverse of patches, their exact wire
      form, the receipt of a validation.
    \<^item> \<open>SealedPatch\<close> (DocumentGraphPatch.cpp): \<open>ParseSealedPatchV1\<close>, which validates an uploaded patch in its
      file through a read callback and never holds it in memory. Offsets are natural numbers, because the code
      compares each with what is left of the file before it adds to it. \<open>SealedReader\<close> says what its routines find
      on an honest source (it answers what the file holds, or nothing) and on a readable one (it always
      answers), \<open>SealedProperties\<close> follows the passes over the operations, and \<open>SealedEquivalence\<close> shows that
      it accepts the same bytes as \<open>ParseCanonicalPatchV1\<close>, with the digests of the canonical forms.
    \<^item> \<open>PatchUpload\<close> (DocumentGraphProtocol.cpp): the registry of uploads and the handlers of \<open>PatchBegin\<close>, \<open>PatchChunk\<close>,
      \<open>PatchCommit\<close>, \<open>PatchValidate\<close> and \<open>PatchAbort\<close>, capability sessions, and what the loss of a route undoes. The
      file system is the record \<open>FileOps\<close>, whose documented behaviour is \<open>lawful\<close>. \<open>UploadProperties\<close> keeps an
      invariant over every sequence of calls (\<open>upload_reach\<close>), whatever of the file system fails; the handlers of
      graphs enter it as steps that leave the files of uploads alone. \<open>UploadClient\<close> is the other
      side: a client that follows the protocol on a file system that works (\<open>working\<close>) gets its patch
      sealed and validated.

  Requests.
    \<^item> \<open>ActionTypes\<close>, \<open>ProtocolText\<close> (ProtocolEncoding.cpp), \<open>ActionProtocol\<close>, \<open>BatchProtocol\<close>: the grammars of scripts
      and batches; accepted requests are well formed, and well-formed ones have payloads.
    \<^item> \<open>LayoutSpec\<close>, \<open>LayoutValidation\<close>, \<open>LayoutCommands\<close>, \<open>LayoutExecutor\<close> (ReferenceLayout*.cpp): reading the arrays
      of a layout, its validity described without loops, the calls it makes, and the closure of patched
      columns. The closure loop is \<open>while\<close> of the library; its termination is a theorem.
    \<^item> \<open>TextPatchReadback\<close>: when a text read back from the document counts as the text that was written.
    \<^item> \<open>BridgeStatus\<close>: the shared block store by store; what a reader with an even sequence number has read, the
      ring of clicks, and when the slot buttons are enabled.
\<close>

text \<open>
  \<^bold>\<open>Bounds and fuel.\<close> Loops over containers are structural recursion; the loops that
  retry a draw run as often as the code's bound says; loops over bytes have the remaining length as
  their measure; the two that need more (\<open>pad_loop\<close>, \<open>ExpandPatchedAxis\<close>) have a termination theorem.
  One function takes fuel: \<open>walk_back\<close>, which follows the predecessors of a path search, has the length of the region,
  and the plans' theorems show that every walk of a search fits in it. Limits of
  the code (200000 positions, 20000 commands, 5000 operations, frame and patch sizes) are definitions with
  the code's names.

  \<^bold>\<open>Not modelled.\<close>
    \<^item> Everything that acts on the live document through COM: capture (DocumentGraphCapture*, Stories, Tables,
      Text, Images, Controls, EffectiveProperties), action and batch execution (ActionExecutor*, ActionDispatch,
      BatchExecutor*), inspection, and the probes of the official interface (OfficialApi*). Almost every
      step there is a call of the word processor, whose behaviour is not in this repository; what remains
      between two calls is little.
    \<^item> DocumentGraphStore, DocumentGraphQuery*, DocumentGraphResolve*, DocumentGraphLayout*, and the cursors of graphs and blobs in
      DocumentGraphProtocol.cpp with their handlers: storage in spool files and queries over stored records. Nor the counters
      and events there that record the life of the registry for tests.
    \<^item> Window hooks, shared-memory creation, COM call wrappers, the launcher, the event bridge, the test
      programs and the Python server.
\<close>

end
